(* ===== verification/Robata_Prelude.thy ===== *)
theory Robata_Prelude
  imports
    Main
    "HOL-Library.Multiset"
    "HOL-Library.Product_Lexorder"
    "HOL-Library.List_Lexorder"
    "HOL-Library.Char_ord"
begin

text \<open>
  Shared vocabulary of the development: Python exceptions as values of a sum type, the
  Python library functions the modelled modules call (\<open>str.strip\<close>, \<open>sorted\<close>,
  \<open>min\<close> with a key, \<open>bisect_right\<close>), SQL-style tables as lists of rows, and
  the generic lemmas on them that the component theories use.
\<close>

section \<open>Proof collections\<close>

named_theorems result_simps "characterisations of a computation that returned"
named_theorems table_simps "rewriting of selections and updates on tables"

section \<open>Exceptions as values\<close>

text \<open>
  The exceptions of the Python language that the modelled modules raise, with the message
  of the raise. A message that interpolates values is cut where the interpolation starts.
  \<open>DomainError\<close> stands for an exception class the repository declares, named by its first
  argument.
\<close>

datatype exn =
    ValueError string
  | TypeError string
  | KeyError string
  | OverflowError string
  | DomainError string string

type_synonym 'a py = "exn + 'a"

fun rbind :: "'e + 'a \<Rightarrow> ('a \<Rightarrow> 'e + 'b) \<Rightarrow> 'e + 'b" where
  "rbind (Inl e) f = Inl e"
| "rbind (Inr a) f = f a"

lemma rbind_Inr_iff [result_simps]:
  "rbind m f = Inr b \<longleftrightarrow> (\<exists>a. m = Inr a \<and> f a = Inr b)"
  by (cases m) auto

lemma rbind_Inl_iff:
  "rbind m f = Inl e \<longleftrightarrow> m = Inl e \<or> (\<exists>a. m = Inr a \<and> f a = Inl e)"
  by (cases m) auto

lemma if_Inl_Inr_iff [result_simps]:
  "(if b then Inl e else m) = Inr a \<longleftrightarrow> \<not> b \<and> m = Inr a"
  by auto

text \<open>A \<open>for\<close> loop whose body may raise: the state is threaded, the first error ends it.\<close>

primrec fold_res :: "('a \<Rightarrow> 's \<Rightarrow> 'e + 's) \<Rightarrow> 'a list \<Rightarrow> 's \<Rightarrow> 'e + 's" where
  "fold_res f [] s = Inr s"
| "fold_res f (x # xs) s = rbind (f x s) (fold_res f xs)"

lemma fold_res_append:
  "fold_res f (xs @ ys) s = rbind (fold_res f xs s) (fold_res f ys)"
proof (induction xs arbitrary: s)
  case Nil
  show ?case by simp
next
  case (Cons x xs)
  then show ?case by (cases "f x s") auto
qed

lemma fold_res_invariant:
  assumes "fold_res f xs s = Inr t" and "P s"
    and "\<And>x s t. x \<in> set xs \<Longrightarrow> P s \<Longrightarrow> f x s = Inr t \<Longrightarrow> P t"
  shows "P t"
  using assms
proof (induction xs arbitrary: s)
  case Nil
  then show ?case by simp
next
  case (Cons x xs)
  from Cons.prems(1) obtain u where u: "f x s = Inr u" and rest: "fold_res f xs u = Inr t"
    by (auto simp: result_simps)
  have "P u" using Cons.prems(2,3) u by auto
  with rest show ?case using Cons.IH Cons.prems(3) by (metis list.set_intros(2))
qed

lemma fold_res_total:
  assumes "\<And>x s. x \<in> set xs \<Longrightarrow> P s \<Longrightarrow> \<exists>t. f x s = Inr t \<and> P t" and "P s"
  shows "\<exists>t. fold_res f xs s = Inr t \<and> P t"
  using assms
proof (induction xs arbitrary: s)
  case Nil
  then show ?case by simp
next
  case (Cons x xs)
  then obtain u where u: "f x s = Inr u" "P u" by (meson list.set_intros(1))
  have "\<exists>t. fold_res f xs u = Inr t \<and> P t"
    using Cons.IH [OF Cons.prems(1) u(2)] by (meson list.set_intros(2))
  with u show ?case by simp
qed

text \<open>A comprehension whose element expression may raise.\<close>

primrec traverse :: "('a \<Rightarrow> 'e + 'b) \<Rightarrow> 'a list \<Rightarrow> 'e + 'b list" where
  "traverse f [] = Inr []"
| "traverse f (x # xs) = rbind (f x) (\<lambda>y. rbind (traverse f xs) (\<lambda>ys. Inr (y # ys)))"

lemma traverse_map:
  "(\<And>x. x \<in> set xs \<Longrightarrow> f (g x) = Inr (h x)) \<Longrightarrow> traverse f (map g xs) = Inr (map h xs)"
  by (induction xs) auto

lemma traverse_Inr: "traverse f xs = Inr ys \<longleftrightarrow> list_all2 (\<lambda>x y. f x = Inr y) xs ys"
  by (induction xs arbitrary: ys) (auto simp: rbind_Inr_iff list_all2_Cons1)

section \<open>Python strings\<close>

text \<open>
  Strings are lists of characters with code points below 256. \<open>str.strip\<close> removes
  the characters for which \<open>str.isspace\<close> holds; below 256 these are the code points listed.
\<close>

definition py_space :: "char \<Rightarrow> bool" where
  "py_space c \<longleftrightarrow> (of_char c :: nat) \<in> {9, 10, 11, 12, 13, 28, 29, 30, 31, 32, 133, 160}"

definition py_blank :: "string \<Rightarrow> bool" where
  "py_blank s \<longleftrightarrow> list_all py_space s"

definition py_strip :: "string \<Rightarrow> string" where
  "py_strip s = rev (dropWhile py_space (rev (dropWhile py_space s)))"

lemma py_blank_Nil [simp]: "py_blank []"
  by (simp add: py_blank_def)

text \<open>\<open>OpaqueUuid\<close>: the pattern of a lower-case UUID.\<close>

definition hex_digit :: "char \<Rightarrow> bool" where
  "hex_digit c \<longleftrightarrow> (let n = (of_char c :: nat) in 48 \<le> n \<and> n \<le> 57 \<or> 97 \<le> n \<and> n \<le> 102)"

fun uuid_groups :: "nat list \<Rightarrow> string \<Rightarrow> bool" where
  "uuid_groups [] s = False"
| "uuid_groups [n] s \<longleftrightarrow> length s = n \<and> list_all hex_digit s"
| "uuid_groups (n # ns) s \<longleftrightarrow> n < length s \<and> list_all hex_digit (take n s) \<and> s ! n = CHR ''-''
     \<and> uuid_groups ns (drop (Suc n) s)"

definition opaque_uuid :: "string \<Rightarrow> bool" where
  "opaque_uuid s \<longleftrightarrow> uuid_groups [8, 4, 4, 4, 12] s"

lemma opaque_uuid_not_blank: "opaque_uuid s \<Longrightarrow> \<not> py_blank s"
  by (cases s) (auto simp: opaque_uuid_def py_blank_def py_space_def hex_digit_def Let_def)

section \<open>Decimal numerals, as \<open>str\<close> of an integer\<close>

fun decimal :: "nat \<Rightarrow> string" where
  "decimal n = (if n < 10 then [char_of (48 + n)] else decimal (n div 10) @ [char_of (48 + n mod 10)])"

declare decimal.simps [simp del]

definition from_digits :: "string \<Rightarrow> nat" where
  "from_digits s = foldl (\<lambda>n c. 10 * n + (of_char c - 48)) 0 s"

lemma from_digits_snoc: "from_digits (s @ [c]) = 10 * from_digits s + (of_char c - 48)"
  by (simp add: from_digits_def)

lemma digit_char: "d < 10 \<Longrightarrow> of_char (char_of (48 + d :: nat)) = 48 + d"
  by (simp add: take_bit_eq_mod)

lemma from_digits_decimal: "from_digits (decimal n) = n"
proof (induction n rule: decimal.induct)
  case (1 n)
  show ?case
  proof (cases "n < 10")
    case True
    then show ?thesis using digit_char [of n] by (simp add: decimal.simps [of n] from_digits_def)
  next
    case False
    then have "from_digits (decimal n) = 10 * (n div 10) + (of_char (char_of (48 + n mod 10)) - 48)"
      using 1 by (simp add: decimal.simps [of n] from_digits_snoc)
    then show ?thesis using digit_char [of "n mod 10"] by simp
  qed
qed

lemma from_digits_pad: "from_digits (replicate k (CHR ''0'') @ s) = from_digits s"
proof -
  have "foldl (\<lambda>n c. 10 * n + (of_char c - 48)) 0 (replicate k (CHR ''0'')) = (0::nat)"
    by (induction k) simp_all
  then show ?thesis by (simp add: from_digits_def)
qed

lemma decimal_inject [simp]: "decimal m = decimal n \<longleftrightarrow> m = n"
  by (metis from_digits_decimal)

section \<open>Minimum by key, as the built-in \<open>min\<close>\<close>

text \<open>The first element with a minimal key; \<open>None\<close> on an empty list (the default).\<close>

fun min_by :: "('a \<Rightarrow> 'k::linorder) \<Rightarrow> 'a list \<Rightarrow> 'a option" where
  "min_by f [] = None"
| "min_by f (x # xs) = Some (foldl (\<lambda>m y. if f y < f m then y else m) x xs)"

lemma foldl_min_key:
  fixes f :: "'a \<Rightarrow> 'k::linorder"
  defines "g \<equiv> \<lambda>m y. if f y < f m then y else m"
  shows "foldl g x xs \<in> set (x # xs) \<and> (\<forall>y \<in> set (x # xs). f (foldl g x xs) \<le> f y)"
proof (induction xs arbitrary: x)
  case Nil
  show ?case by simp
next
  case (Cons z zs)
  have le: "f (g x z) \<le> f x" "f (g x z) \<le> f z" and mem: "g x z = x \<or> g x z = z"
    by (auto simp: g_def)
  have IH: "foldl g (g x z) zs \<in> set (g x z # zs)"
    "\<forall>y \<in> set (g x z # zs). f (foldl g (g x z) zs) \<le> f y"
    using Cons.IH [of "g x z"] by blast+
  have "foldl g x (z # zs) = foldl g (g x z) zs" by simp
  with IH mem le show ?case by (auto intro: order_trans)
qed

lemma min_by_Some:
  assumes "min_by f xs = Some m"
  shows "m \<in> set xs" and "y \<in> set xs \<Longrightarrow> f m \<le> f y"
  using assms foldl_min_key [of f] by (cases xs; fastforce)+

lemma min_by_None [simp]: "min_by f xs = None \<longleftrightarrow> xs = []"
  by (cases xs) auto

lemma min_by_ex: "xs \<noteq> [] \<Longrightarrow> \<exists>m. min_by f xs = Some m"
  by (cases xs) auto

lemma min_by_inj:
  assumes "m \<in> set xs" and "\<And>y. y \<in> set xs \<Longrightarrow> f m \<le> f y" and "inj_on f (set xs)"
  shows "min_by f xs = Some m"
proof -
  from assms(1) obtain n where n: "min_by f xs = Some n" using min_by_ex by fastforce
  have "f n \<le> f m" using min_by_Some(2) [OF n assms(1)] .
  moreover have "f m \<le> f n" using assms(2) min_by_Some(1) [OF n] by blast
  ultimately have "f m = f n" by simp
  with assms(1,3) min_by_Some(1) [OF n] n show ?thesis by (auto dest: inj_onD)
qed

section \<open>Binary search: \<open>bisect_right\<close>\<close>

text \<open>
  The loop of the library's \<open>bisect_right (a, x, lo, hi)\<close> with its midpoint
  \<open>(lo + hi) // 2\<close>. The reference definition counts the entries up to \<open>x\<close>.
\<close>

function bisect_right :: "'a::linorder list \<Rightarrow> 'a \<Rightarrow> nat \<Rightarrow> nat \<Rightarrow> nat" where
  "bisect_right a x lo hi =
     (if lo < hi then
        (let mid = (lo + hi) div 2 in
         if x < a ! mid then bisect_right a x lo mid else bisect_right a x (Suc mid) hi)
      else lo)"
  by pat_completeness auto
termination
  by (relation "measure (\<lambda>(a, x, lo, hi). hi - lo)") (auto simp: Let_def)

declare bisect_right.simps [simp del]

lemma bisect_right_split:
  assumes "sorted a" and "lo \<le> hi" and "hi \<le> length a"
    and "\<And>i. i < lo \<Longrightarrow> a ! i \<le> x" and "\<And>i. hi \<le> i \<Longrightarrow> i < length a \<Longrightarrow> x < a ! i"
  shows "(\<forall>i < bisect_right a x lo hi. a ! i \<le> x)
    \<and> (\<forall>i. bisect_right a x lo hi \<le> i \<longrightarrow> i < length a \<longrightarrow> x < a ! i)
    \<and> bisect_right a x lo hi \<le> length a"
  using assms
proof (induction a x lo hi rule: bisect_right.induct)
  case (1 a x lo hi)
  show ?case
  proof (cases "lo < hi")
    case False
    then have "bisect_right a x lo hi = lo" by (simp add: bisect_right.simps [of a x lo hi])
    with False "1.prems" show ?thesis by simp
  next
    case lt: True
    define mid where "mid = (lo + hi) div 2"
    have mid: "lo \<le> mid" "mid < hi" "mid < length a" using lt "1.prems"(3) by (auto simp: mid_def)
    show ?thesis
    proof (cases "x < a ! mid")
      case True
      have "\<And>i. mid \<le> i \<Longrightarrow> i < length a \<Longrightarrow> x < a ! i"
        using True "1.prems"(1) by (meson order_less_le_trans sorted_nth_mono)
      with "1.IH"(1) [OF lt mid_def True "1.prems"(1)] mid "1.prems"(4) show ?thesis
        by (simp add: bisect_right.simps [of a x lo hi] lt True mid_def [symmetric])
    next
      case False
      have low: "a ! i \<le> x" if "i < Suc mid" for i
      proof -
        have "a ! i \<le> a ! mid"
          using sorted_nth_mono [OF "1.prems"(1), of i mid] that mid(3) by simp
        with False show ?thesis by simp
      qed
      have "Suc mid \<le> hi" using mid by simp
      with "1.IH"(2) [OF lt mid_def False "1.prems"(1) _ "1.prems"(3) low] "1.prems"(5)
      show ?thesis
        by (simp add: bisect_right.simps [of a x lo hi] lt False mid_def [symmetric])
    qed
  qed
qed

lemma bisect_right_below:
  "sorted a \<Longrightarrow> i < bisect_right a x 0 (length a) \<Longrightarrow> a ! i \<le> x"
  using bisect_right_split [of a 0 "length a" x] by simp

lemma bisect_right_above:
  "sorted a \<Longrightarrow> bisect_right a x 0 (length a) \<le> i \<Longrightarrow> i < length a \<Longrightarrow> x < a ! i"
  using bisect_right_split [of a 0 "length a" x] by simp

lemma bisect_right_le_length: "sorted a \<Longrightarrow> bisect_right a x 0 (length a) \<le> length a"
  using bisect_right_split [of a 0 "length a" x] by simp

section \<open>Signed 64-bit nanoseconds\<close>

definition INT64_MIN :: int where "INT64_MIN = - (2 ^ 63)"

definition INT64_MAX :: int where "INT64_MAX = 2 ^ 63 - 1"

definition int64 :: "int \<Rightarrow> bool" where
  "int64 v \<longleftrightarrow> INT64_MIN \<le> v \<and> v \<le> INT64_MAX"

definition require_int64 :: "string \<Rightarrow> int \<Rightarrow> unit py" where
  "require_int64 name v =
     (if v < INT64_MIN \<or> v > INT64_MAX
      then Inl (ValueError (name @ '' must fit in a signed 64-bit integer'')) else Inr ())"

lemma require_int64_Inr [result_simps]: "require_int64 name v = Inr u \<longleftrightarrow> int64 v"
  by (auto simp: require_int64_def int64_def)

section \<open>Tables\<close>

text \<open>
  A table of the SQLite ledgers is the list of its rows. An \<open>UPDATE\<close> rewrites the
  rows its \<open>WHERE\<close> selects and reports how many there were; a \<open>SELECT\<close> filters
  and sorts.
\<close>

definition update_where :: "('r \<Rightarrow> bool) \<Rightarrow> ('r \<Rightarrow> 'r) \<Rightarrow> 'r list \<Rightarrow> 'r list" where
  "update_where p f rows = map (\<lambda>r. if p r then f r else r) rows"

definition rowcount :: "('r \<Rightarrow> bool) \<Rightarrow> 'r list \<Rightarrow> nat" where
  "rowcount p rows = length (filter p rows)"

definition find_row :: "('r \<Rightarrow> bool) \<Rightarrow> 'r list \<Rightarrow> 'r option" where
  "find_row p rows = List.find p rows"

lemma set_update_where [table_simps]:
  "set (update_where p f rows) = (\<lambda>r. if p r then f r else r) ` set rows"
  by (simp add: update_where_def)

lemma length_update_where [table_simps]: "length (update_where p f rows) = length rows"
  by (simp add: update_where_def)

lemma map_update_where:
  assumes "\<And>r. p r \<Longrightarrow> k (f r) = k r"
  shows "map k (update_where p f rows) = map k rows"
  using assms by (simp add: update_where_def)

lemma update_where_none: "(\<And>r. r \<in> set rows \<Longrightarrow> \<not> p r) \<Longrightarrow> update_where p f rows = rows"
  by (simp add: update_where_def map_idI)

lemma find_row_Some:
  assumes "find_row p rows = Some r"
  shows "r \<in> set rows" and "p r"
  using assms by (auto simp: find_row_def find_Some_iff in_set_conv_nth)

lemma find_row_None [simp]: "find_row p rows = None \<longleftrightarrow> (\<forall>r \<in> set rows. \<not> p r)"
  by (auto simp: find_row_def find_None_iff)

lemma find_row_key:
  assumes "distinct (map k rows)" and "r \<in> set rows"
  shows "find_row (\<lambda>x. k x = k r) rows = Some r"
proof -
  obtain y where y: "find_row (\<lambda>x. k x = k r) rows = Some y"
    using assms(2) find_row_None [of "\<lambda>x. k x = k r" rows]
    by (cases "find_row (\<lambda>x. k x = k r) rows") auto
  have "y = r"
    using find_row_Some [OF y] assms by (metis (mono_tags) distinct_map inj_onD)
  with y show ?thesis by simp
qed

lemma rowcount_key:
  assumes "distinct (map k rows)" and "r \<in> set rows" and "p r"
    and "\<And>x. p x \<Longrightarrow> k x = k r"
  shows "rowcount p rows = 1"
proof -
  have "inj_on k (set rows)" using assms(1) by (simp add: distinct_map)
  then have "x = r" if "x \<in> set rows" "p x" for x
    using inj_onD [OF _ assms(4) [OF that(2)] that(1) assms(2)] by blast
  then have "set (filter p rows) = {r}" using assms(2,3) unfolding set_filter by blast
  moreover have "distinct (filter p rows)"
    using assms(1) by (simp add: distinct_map)
  ultimately have "length (filter p rows) = card {r}" by (metis distinct_card)
  then show ?thesis by (simp add: rowcount_def)
qed

lemma find_row_map: "find_row p (map g xs) = map_option g (find_row (\<lambda>x. p (g x)) xs)"
  unfolding find_row_def by (induction xs) auto

lemma find_row_append: "find_row p (xs @ ys) = (case find_row p xs of None \<Rightarrow> find_row p ys | Some r \<Rightarrow> Some r)"
  unfolding find_row_def by (induction xs) auto

lemma find_row_single: "find_row p [x] = (if p x then Some x else None)"
  by (simp add: find_row_def)

lemma filter_map_rows: "filter p (map g xs) = map g (filter (\<lambda>x. p (g x)) xs)"
  by (induction xs) auto

lemma sort_key_map: "sort_key f (map g xs) = map g (sort_key (\<lambda>x. f (g x)) xs)"
proof -
  have "insort_key f (g x) (map g ys) = map g (insort_key (\<lambda>x. f (g x)) x ys)" for x ys
    by (induction ys) auto
  then show ?thesis by (induction xs) auto
qed

end
