(* ===== verification/Work_Models.thy ===== *)
theory Work_Models
  imports Robata_Prelude
begin

text \<open>
  \<^verbatim>\<open>src/robata/queue/stage.py\<close> and \<^verbatim>\<open>src/robata/queue/models.py\<close>: the enumerations of the durable
  work ledger, its rows as records, and the model validators that every snapshot read from
  the ledger has to pass. Timestamps are the parsed UTC instants in microseconds since the
  epoch, the resolution at which the source normalises and stores them. The fixed
  \<open>schema_version\<close> literal has one value and no field here.
\<close>

section \<open>Enumerations\<close>

datatype Stage =
    MCAP_INGEST | INSPECT_MAP | ALIGN
  | QA_COARSE_PLAN | SAMPLE_MATERIALIZE
  | QWEN_QA_COARSE | QA_SUSPICION_REDUCE | QA_DENSE_PLAN | QWEN_QA_DENSE
  | QA_AGGREGATE
  | EVENT_PROPOSAL_PLAN | QWEN_EVENT_PROPOSAL | EVENT_PROPOSAL_REDUCE
  | ACTION_DENSE_PLAN | QWEN_ACTION_EVIDENCE
  | FUSION_PROVISIONAL | BOUNDARY_PLAN | QWEN_BOUNDARY | FUSION_FINAL
  | ACTION_PUBLISH | RETRIEVAL_INDEX | VALUE_SCORE

datatype DependencyCriticality = REQUIRED | DEGRADABLE | OPTIONAL

datatype WorkItemSubjectType =
    MCAP | WINDOW | PACKAGE_SET | PACKAGE | SPLIT_REDUCTION | CANDIDATE | EVENT | INFERENCE

datatype WorkItemState =
    PLANNED | READY | LEASED | RUNNING | RETRY_WAIT | SUCCEEDED | FAILED_PERMANENT
  | SKIPPED_POLICY | SKIPPED_NOT_NEEDED | CANCELLED | EXPIRED | INVALIDATED

datatype WorkAttemptOutcome =
    Attempt_ACTIVE | Attempt_SUCCEEDED | Attempt_FAILED_RETRYABLE | Attempt_FAILED_PERMANENT
  | Attempt_ABANDONED | Attempt_CANCELLED | Attempt_EXPIRED | Attempt_INVALIDATED | Attempt_SKIPPED

definition TERMINAL_WORK_STATES :: "WorkItemState set" where
  "TERMINAL_WORK_STATES =
     {SUCCEEDED, FAILED_PERMANENT, SKIPPED_POLICY, SKIPPED_NOT_NEEDED, CANCELLED, EXPIRED, INVALIDATED}"

definition SUCCESSFUL_DEPENDENCY_STATES :: "WorkItemState set" where
  "SUCCESSFUL_DEPENDENCY_STATES = {SUCCEEDED, SKIPPED_POLICY, SKIPPED_NOT_NEEDED}"

section \<open>Rows\<close>

type_synonym time = int

record WorkItemPlan =
  work_item_id :: string
  work_logical_key :: string
  run_id :: string
  mcap_id :: string
  stage :: Stage
  subject_type :: WorkItemSubjectType
  subject_id :: string
  input_digest :: string
  config_digest :: string
  priority :: nat
  sla_deadline_at :: "time option"
  execution_expiry_at :: "time option"
  max_attempts :: nat
  trace_id :: "string option"
  created_at :: time

record WorkItem = WorkItemPlan +
  state :: WorkItemState
  cancel_requested :: bool
  lease_epoch :: nat
  fencing_token :: "string option"
  leased_by :: "string option"
  lease_expires_at :: "time option"
  attempt :: nat
  retry_not_before_at :: "time option"
  terminal_reason_code :: "string option"
  terminal_reason_detail :: "string option"
  result_reference :: "string option"
  result_sha256 :: "string option"
  completed_at :: "time option"
  updated_at :: time
  row_version :: nat

record WorkDependency =
  dependency_id :: string
  downstream_work_item_id :: string
  upstream_work_item_id :: string
  criticality :: DependencyCriticality

record WorkLease =
  lease_work_item_id :: string
  worker_id :: string
  granted_epoch :: nat
  granted_token :: string
  granted_expires_at :: time

record WorkLeaseClaim =
  claimed_item :: WorkItem
  claimed_lease :: WorkLease

record WorkAttempt =
  attempt_work_item_id :: string
  attempt_number :: nat
  attempt_epoch :: nat
  attempt_token :: string
  attempt_worker :: string
  claimed_at :: time
  started_at :: "time option"
  attempt_completed_at :: "time option"
  outcome :: WorkAttemptOutcome
  error_code :: "string option"
  error_detail :: "string option"

section \<open>Validators\<close>

definition leased_state :: "WorkItemState \<Rightarrow> bool" where
  "leased_state st \<longleftrightarrow> st \<in> {LEASED, RUNNING}"

definition terminal_state :: "WorkItemState \<Rightarrow> bool" where
  "terminal_state st \<longleftrightarrow> st \<in> TERMINAL_WORK_STATES"

definition validate_state_shape :: "WorkItem \<Rightarrow> WorkItem py" where
  "validate_state_shape w =
     (let active_lease = state w \<in> {LEASED, RUNNING};
          any_lease_none = (fencing_token w = None \<or> leased_by w = None \<or> lease_expires_at w = None);
          any_lease_set = (fencing_token w \<noteq> None \<or> leased_by w \<noteq> None \<or> lease_expires_at w \<noteq> None);
          terminal = state w \<in> TERMINAL_WORK_STATES
      in
      if active_lease \<and> any_lease_none
      then Inl (ValueError ''leased or running work requires complete lease metadata'')
      else if \<not> active_lease \<and> any_lease_set
      then Inl (ValueError ''only leased or running work may retain lease metadata'')
      else if active_lease \<and> (lease_epoch w = 0 \<or> attempt w = 0)
      then Inl (ValueError ''leased or running work requires positive epoch and attempt'')
      else if state w = RETRY_WAIT \<and> retry_not_before_at w = None
      then Inl (ValueError ''retry-wait work requires retry_not_before_at'')
      else if state w \<noteq> RETRY_WAIT \<and> retry_not_before_at w \<noteq> None
      then Inl (ValueError ''only retry-wait work may have retry_not_before_at'')
      else if terminal \<noteq> (completed_at w \<noteq> None)
      then Inl (ValueError ''terminal work and completed_at must be present together'')
      else if terminal \<and> state w \<noteq> SUCCEEDED \<and> terminal_reason_code w = None
      then Inl (ValueError ''non-success terminal work requires a reason code'')
      else if \<not> (terminal \<and> state w \<noteq> SUCCEEDED) \<and> \<not> terminal \<and> terminal_reason_code w \<noteq> None
      then Inl (ValueError ''nonterminal work cannot have a terminal reason'')
      else if terminal_reason_detail w \<noteq> None \<and> terminal_reason_code w = None
      then Inl (ValueError ''terminal reason detail requires a reason code'')
      else if (result_reference w = None \<or> result_sha256 w = None)
              \<and> (result_reference w \<noteq> None \<or> result_sha256 w \<noteq> None)
      then Inl (ValueError ''result reference and digest must be present together'')
      else if state w \<noteq> SUCCEEDED \<and> result_reference w \<noteq> None
      then Inl (ValueError ''only succeeded work may publish a result'')
      else if updated_at w < created_at w
      then Inl (ValueError ''updated_at cannot precede created_at'')
      else Inr w)"

definition validate_binding :: "WorkLeaseClaim \<Rightarrow> WorkLeaseClaim py" where
  "validate_binding c =
     (let item = claimed_item c; lease = claimed_lease c in
      if state item \<notin> {LEASED, RUNNING}
      then Inl (ValueError ''a claim must contain a leased or running work item'')
      else if work_item_id item \<noteq> lease_work_item_id lease
        \<or> leased_by item \<noteq> Some (worker_id lease)
        \<or> lease_epoch item \<noteq> granted_epoch lease
        \<or> fencing_token item \<noteq> Some (granted_token lease)
        \<or> lease_expires_at item \<noteq> Some (granted_expires_at lease)
      then Inl (ValueError ''claim lease does not match its work-item snapshot'')
      else Inr c)"

lemma validate_binding_Inr:
  "validate_binding c = Inr d \<longleftrightarrow> d = c \<and> state (claimed_item c) \<in> {LEASED, RUNNING}
     \<and> work_item_id (claimed_item c) = lease_work_item_id (claimed_lease c)
     \<and> leased_by (claimed_item c) = Some (worker_id (claimed_lease c))
     \<and> lease_epoch (claimed_item c) = granted_epoch (claimed_lease c)
     \<and> fencing_token (claimed_item c) = Some (granted_token (claimed_lease c))
     \<and> lease_expires_at (claimed_item c) = Some (granted_expires_at (claimed_lease c))"
  unfolding validate_binding_def Let_def if_Inl_Inr_iff by auto

definition validate_outcome_shape :: "WorkAttempt \<Rightarrow> WorkAttempt py" where
  "validate_outcome_shape a =
     (if (outcome a = Attempt_ACTIVE) = (attempt_completed_at a \<noteq> None)
      then Inl (ValueError ''active attempts must be open and terminal attempts must be completed'')
      else if error_detail a \<noteq> None \<and> error_code a = None
      then Inl (ValueError ''attempt error detail requires an error code'')
      else Inr a)"

section \<open>The shape of a snapshot\<close>

text \<open>
  What the validator enforces, split into the part that no operation of the scheduler can
  break and the comparison of the two timestamps, which depends on the caller's clock.
\<close>

definition shape_ok :: "WorkItem \<Rightarrow> bool" where
  "shape_ok w \<longleftrightarrow>
     (if leased_state (state w)
      then fencing_token w \<noteq> None \<and> leased_by w \<noteq> None \<and> lease_expires_at w \<noteq> None
           \<and> 0 < lease_epoch w \<and> 0 < attempt w
      else fencing_token w = None \<and> leased_by w = None \<and> lease_expires_at w = None)
     \<and> (state w = RETRY_WAIT \<longleftrightarrow> retry_not_before_at w \<noteq> None)
     \<and> (terminal_state (state w) \<longleftrightarrow> completed_at w \<noteq> None)
     \<and> (terminal_state (state w) \<and> state w \<noteq> SUCCEEDED \<longrightarrow> terminal_reason_code w \<noteq> None)
     \<and> (\<not> terminal_state (state w) \<longrightarrow> terminal_reason_code w = None)
     \<and> (terminal_reason_detail w \<noteq> None \<longrightarrow> terminal_reason_code w \<noteq> None)
     \<and> (result_reference w = None \<longleftrightarrow> result_sha256 w = None)
     \<and> (state w \<noteq> SUCCEEDED \<longrightarrow> result_reference w = None)"

definition clock_ok :: "WorkItem \<Rightarrow> bool" where
  "clock_ok w \<longleftrightarrow> created_at w \<le> updated_at w"

lemma validate_state_shape_iff [result_simps]:
  "validate_state_shape w = Inr v \<longleftrightarrow> v = w \<and> shape_ok w \<and> clock_ok w"
  unfolding validate_state_shape_def shape_ok_def clock_ok_def leased_state_def terminal_state_def
    Let_def if_Inl_Inr_iff TERMINAL_WORK_STATES_def
  by (cases "state w"; auto simp: not_less)

lemma terminal_not_leased: "terminal_state st \<Longrightarrow> \<not> leased_state st"
  by (auto simp: terminal_state_def leased_state_def TERMINAL_WORK_STATES_def)

lemma state_simps [simp]:
  "\<not> terminal_state PLANNED" "\<not> terminal_state READY" "\<not> terminal_state LEASED"
  "\<not> terminal_state RUNNING" "\<not> terminal_state RETRY_WAIT" "terminal_state SUCCEEDED"
  "terminal_state FAILED_PERMANENT" "terminal_state SKIPPED_POLICY"
  "terminal_state SKIPPED_NOT_NEEDED" "terminal_state CANCELLED" "terminal_state EXPIRED"
  "terminal_state INVALIDATED"
  "leased_state LEASED" "leased_state RUNNING" "\<not> leased_state PLANNED" "\<not> leased_state READY"
  "\<not> leased_state RETRY_WAIT" "\<not> leased_state SUCCEEDED" "\<not> leased_state FAILED_PERMANENT"
  "\<not> leased_state EXPIRED" "\<not> leased_state CANCELLED" "\<not> leased_state INVALIDATED"
  "\<not> leased_state SKIPPED_POLICY" "\<not> leased_state SKIPPED_NOT_NEEDED"
  by (simp_all add: terminal_state_def leased_state_def TERMINAL_WORK_STATES_def)

lemma successful_terminal: "st \<in> SUCCESSFUL_DEPENDENCY_STATES \<Longrightarrow> terminal_state st"
  by (auto simp: SUCCESSFUL_DEPENDENCY_STATES_def)

lemma state_trichotomy:
  "terminal_state st \<or> leased_state st \<or> st \<in> {PLANNED, READY, RETRY_WAIT}"
  by (cases st) auto

end
