(* ===== verification/Work_Ledger.thy ===== *)
theory Work_Ledger
  imports Work_Models
begin

text \<open>
  The three tables of \<^verbatim>\<open>src/robata/adapters/sqlite_work_scheduler.py\<close> as one record, the row updates
  its \<open>UPDATE\<close> statements write (one definition per \<open>SET\<close> clause), and the
  statements shared by the operations: \<open>_load_item\<close>, \<open>_set_terminal\<close>,
  \<open>_finish_attempt\<close>. A statement that reports a row count other than one raises, as the
  source does.
\<close>

section \<open>Tables and errors\<close>

record ledger =
  work_items :: "WorkItem list"
  work_dependencies :: "WorkDependency list"
  work_attempts :: "WorkAttempt list"

datatype work_error =
    WorkStorageError string
  | WorkConflictError string
  | WorkNotFoundError string
  | WorkFenceError string
  | WorkStateError string
  | WorkValueError string

type_synonym 'a tx = "work_error + (ledger \<times> 'a)"

definition empty_ledger :: ledger where
  "empty_ledger = \<lparr>work_items = [], work_dependencies = [], work_attempts = []\<rparr>"

fun raise_value :: "'a py \<Rightarrow> work_error + 'a" where
  "raise_value (Inr a) = Inr a"
| "raise_value (Inl (ValueError m)) = Inl (WorkValueError m)"
| "raise_value (Inl (TypeError m)) = Inl (WorkValueError m)"
| "raise_value (Inl (KeyError m)) = Inl (WorkValueError m)"
| "raise_value (Inl (OverflowError m)) = Inl (WorkValueError m)"
| "raise_value (Inl (DomainError k m)) = Inl (WorkValueError m)"

lemma raise_value_Inr [result_simps]: "raise_value r = Inr a \<longleftrightarrow> r = Inr a"
  by (cases r rule: raise_value.cases) auto

section \<open>Views\<close>

definition item_of :: "ledger \<Rightarrow> string \<Rightarrow> WorkItem option" where
  "item_of db i = find_row (\<lambda>w. work_item_id w = i) (work_items db)"

definition upd_items :: "(WorkItem \<Rightarrow> bool) \<Rightarrow> (WorkItem \<Rightarrow> WorkItem) \<Rightarrow> ledger \<Rightarrow> ledger" where
  "upd_items p f db = db\<lparr>work_items := update_where p f (work_items db)\<rparr>"

definition upd_attempts :: "(WorkAttempt \<Rightarrow> bool) \<Rightarrow> (WorkAttempt \<Rightarrow> WorkAttempt) \<Rightarrow> ledger \<Rightarrow> ledger"
  where "upd_attempts p f db = db\<lparr>work_attempts := update_where p f (work_attempts db)\<rparr>"

definition item_from_row :: "WorkItem \<Rightarrow> work_error + WorkItem" where
  "item_from_row w = raise_value (validate_state_shape w)"

definition load_item :: "ledger \<Rightarrow> string \<Rightarrow> work_error + WorkItem" where
  "load_item db i =
     (case item_of db i of
        None \<Rightarrow> Inl (WorkNotFoundError ''work item is not registered'')
      | Some w \<Rightarrow> item_from_row w)"

text \<open>\<open>SELECT d.criticality, upstream.state ... JOIN ... WHERE d.downstream_work_item_id = ?\<close>\<close>

definition dependencies_of :: "ledger \<Rightarrow> string \<Rightarrow> WorkDependency list" where
  "dependencies_of db i =
     sort_key dependency_id
       (filter (\<lambda>d. downstream_work_item_id d = i) (work_dependencies db))"

definition dependency_rows :: "ledger \<Rightarrow> string \<Rightarrow> (DependencyCriticality \<times> WorkItemState) list" where
  "dependency_rows db i =
     concat (map (\<lambda>d. map (\<lambda>u. (criticality d, state u))
        (filter (\<lambda>u. work_item_id u = upstream_work_item_id d) (work_items db))) (dependencies_of db i))"

definition downstream_ids :: "ledger \<Rightarrow> string \<Rightarrow> string list" where
  "downstream_ids db i =
     sort (map downstream_work_item_id
       (filter (\<lambda>d. upstream_work_item_id d = i) (work_dependencies db)))"

section \<open>Row updates\<close>

definition row_terminal ::
    "WorkItemState \<Rightarrow> time \<Rightarrow> string option \<Rightarrow> string option \<Rightarrow> string option \<Rightarrow> string option
      \<Rightarrow> bool \<Rightarrow> WorkItem \<Rightarrow> WorkItem" where
  "row_terminal st now code detail ref sha cancel w =
     w\<lparr>state := st, cancel_requested := cancel, fencing_token := None, leased_by := None,
       lease_expires_at := None, retry_not_before_at := None, terminal_reason_code := code,
       terminal_reason_detail := detail, result_reference := ref, result_sha256 := sha,
       completed_at := Some now, updated_at := now, row_version := row_version w + 1\<rparr>"

definition row_ready :: "time \<Rightarrow> WorkItem \<Rightarrow> WorkItem" where
  "row_ready now w = w\<lparr>state := READY, updated_at := now, row_version := row_version w + 1\<rparr>"

definition row_claim ::
    "WorkItemState \<Rightarrow> nat \<Rightarrow> string \<Rightarrow> string \<Rightarrow> time \<Rightarrow> nat \<Rightarrow> time \<Rightarrow> WorkItem \<Rightarrow> WorkItem" where
  "row_claim st epoch token worker expires att now w =
     w\<lparr>state := st, lease_epoch := epoch, fencing_token := Some token, leased_by := Some worker,
       lease_expires_at := Some expires, attempt := att, updated_at := now,
       row_version := row_version w + 1\<rparr>"

definition row_start :: "time \<Rightarrow> WorkItem \<Rightarrow> WorkItem" where
  "row_start now w = w\<lparr>state := RUNNING, updated_at := now, row_version := row_version w + 1\<rparr>"

definition row_heartbeat :: "time \<Rightarrow> time \<Rightarrow> WorkItem \<Rightarrow> WorkItem" where
  "row_heartbeat expires now w =
     w\<lparr>lease_expires_at := Some expires, updated_at := now, row_version := row_version w + 1\<rparr>"

definition row_retry_wait :: "time \<Rightarrow> time \<Rightarrow> WorkItem \<Rightarrow> WorkItem" where
  "row_retry_wait retry_at now w =
     w\<lparr>state := RETRY_WAIT, fencing_token := None, leased_by := None, lease_expires_at := None,
       retry_not_before_at := Some retry_at, updated_at := now, row_version := row_version w + 1\<rparr>"

definition row_recover :: "time \<Rightarrow> WorkItem \<Rightarrow> WorkItem" where
  "row_recover now w =
     w\<lparr>state := READY, fencing_token := None, leased_by := None, lease_expires_at := None,
       updated_at := now, row_version := row_version w + 1\<rparr>"

definition row_retry_due :: "time \<Rightarrow> WorkItem \<Rightarrow> WorkItem" where
  "row_retry_due now w =
     w\<lparr>state := READY, retry_not_before_at := None, updated_at := now,
       row_version := row_version w + 1\<rparr>"

definition attempt_finish ::
    "WorkAttemptOutcome \<Rightarrow> time \<Rightarrow> string option \<Rightarrow> string option \<Rightarrow> WorkAttempt \<Rightarrow> WorkAttempt" where
  "attempt_finish oc now code detail a =
     a\<lparr>attempt_completed_at := Some now, outcome := oc, error_code := code, error_detail := detail\<rparr>"

definition attempt_start :: "time \<Rightarrow> WorkAttempt \<Rightarrow> WorkAttempt" where
  "attempt_start now a =
     a\<lparr>started_at := (case started_at a of None \<Rightarrow> Some now | Some t \<Rightarrow> Some t)\<rparr>"

lemmas row_defs = row_terminal_def row_ready_def row_claim_def row_start_def row_heartbeat_def
  row_retry_wait_def row_recover_def row_retry_due_def

lemma row_id [simp]:
  "work_item_id (row_terminal st now code detail ref sha cancel w) = work_item_id w"
  "work_item_id (row_ready now w) = work_item_id w"
  "work_item_id (row_claim st' epoch token worker expires att now w) = work_item_id w"
  "work_item_id (row_start now w) = work_item_id w"
  "work_item_id (row_heartbeat expires now w) = work_item_id w"
  "work_item_id (row_retry_wait retry_at now w) = work_item_id w"
  "work_item_id (row_recover now w) = work_item_id w"
  "work_item_id (row_retry_due now w) = work_item_id w"
  by (simp_all add: row_defs)

section \<open>Statements\<close>

definition set_terminal ::
    "ledger \<Rightarrow> WorkItem \<Rightarrow> WorkItemState \<Rightarrow> time \<Rightarrow> string option \<Rightarrow> string option
      \<Rightarrow> string option \<Rightarrow> string option \<Rightarrow> bool \<Rightarrow> work_error + ledger" where
  "set_terminal db item st now code detail ref sha cancel =
     (let p = (\<lambda>w. work_item_id w = work_item_id item \<and> completed_at w = None) in
      if rowcount p (work_items db) \<noteq> 1
      then Inl (WorkStateError ''work became terminal before the requested transition'')
      else Inr (upd_items p (row_terminal st now code detail ref sha cancel) db))"

definition attempt_matches :: "WorkItem \<Rightarrow> WorkAttempt \<Rightarrow> bool" where
  "attempt_matches item a \<longleftrightarrow>
     attempt_work_item_id a = work_item_id item \<and> attempt_number a = attempt item
     \<and> attempt_epoch a = lease_epoch item \<and> Some (attempt_token a) = fencing_token item
     \<and> outcome a = Attempt_ACTIVE"

definition finish_attempt ::
    "ledger \<Rightarrow> WorkItem \<Rightarrow> WorkAttemptOutcome \<Rightarrow> time \<Rightarrow> string option \<Rightarrow> string option
      \<Rightarrow> work_error + ledger" where
  "finish_attempt db item oc now code detail =
     (if rowcount (attempt_matches item) (work_attempts db) \<noteq> 1
      then Inl (WorkStorageError ''active attempt does not match its work-item lease'')
      else Inr (upd_attempts (attempt_matches item) (attempt_finish oc now code detail) db))"

section \<open>Lemmas on the views\<close>

lemma item_of_id: "item_of db i = Some w \<Longrightarrow> work_item_id w = i"
  unfolding item_of_def by (drule find_row_Some(2))

lemma item_of_in: "item_of db i = Some w \<Longrightarrow> w \<in> set (work_items db)"
  unfolding item_of_def by (drule find_row_Some(1))

lemma item_of_mem:
  "distinct (map work_item_id (work_items db)) \<Longrightarrow> w \<in> set (work_items db) \<Longrightarrow>
    item_of db (work_item_id w) = Some w"
  unfolding item_of_def by (rule find_row_key)

lemma item_of_upd [table_simps]:
  assumes "\<And>w. work_item_id (f w) = work_item_id w"
  shows "item_of (upd_items (\<lambda>w. work_item_id w = i) f db) j =
    (if j = i then map_option f (item_of db i) else item_of db j)"
proof -
  have "find_row (\<lambda>w. work_item_id w = j) (update_where (\<lambda>w. work_item_id w = i) f ws) =
      (if j = i then map_option f (find_row (\<lambda>w. work_item_id w = i) ws)
       else find_row (\<lambda>w. work_item_id w = j) ws)" for ws
    by (induction ws) (auto simp: update_where_def find_row_def assms)
  then show ?thesis by (simp add: item_of_def upd_items_def)
qed

lemma upd_items_simps [simp]:
  "work_dependencies (upd_items p f db) = work_dependencies db"
  "work_attempts (upd_items p f db) = work_attempts db"
  "work_items (upd_items p f db) = update_where p f (work_items db)"
  "work_items (upd_attempts q g db) = work_items db"
  "work_dependencies (upd_attempts q g db) = work_dependencies db"
  "work_attempts (upd_attempts q g db) = update_where q g (work_attempts db)"
  by (simp_all add: upd_items_def upd_attempts_def)

lemma item_of_upd_attempts [simp]: "item_of (upd_attempts q g db) = item_of db"
  by (auto simp: item_of_def)

lemma rowcount_pos: "0 < rowcount p rows \<Longrightarrow> \<exists>r \<in> set rows. p r"
  unfolding rowcount_def by (metis length_greater_0_conv filter_False)

text \<open>With unique ids, a guarded update that finds its row is the update by id.\<close>

lemma guarded_update:
  assumes dist: "distinct (map work_item_id (work_items db))"
    and rc: "rowcount (\<lambda>w. work_item_id w = i \<and> q w) (work_items db) = 1"
  obtains w where "item_of db i = Some w" "q w"
    "upd_items (\<lambda>w. work_item_id w = i \<and> q w) f db = upd_items (\<lambda>w. work_item_id w = i) f db"
proof -
  obtain w where w: "w \<in> set (work_items db)" "work_item_id w = i" "q w"
    using rowcount_pos [of "\<lambda>w. work_item_id w = i \<and> q w" "work_items db"] rc by auto
  have inj: "inj_on work_item_id (set (work_items db))" using dist by (simp add: distinct_map)
  have "v = w" if "v \<in> set (work_items db)" "work_item_id v = i" for v
    using inj_onD [OF inj _ that(1) w(1)] that(2) w(2) by simp
  then have "update_where (\<lambda>w. work_item_id w = i \<and> q w) f (work_items db) =
      update_where (\<lambda>w. work_item_id w = i) f (work_items db)"
    using w(3) by (auto simp: update_where_def)
  moreover have "item_of db i = Some w" using item_of_mem [OF dist w(1)] w(2) by simp
  ultimately show thesis using that w(3) by (simp add: upd_items_def)
qed

lemma guarded_rowcount:
  assumes "distinct (map work_item_id (work_items db))" and "item_of db i = Some w" and "q w"
  shows "rowcount (\<lambda>w. work_item_id w = i \<and> q w) (work_items db) = 1"
  using rowcount_key [OF assms(1) item_of_in [OF assms(2)], of "\<lambda>w. work_item_id w = i \<and> q w"]
    item_of_id [OF assms(2)] assms(3) by simp

lemma load_item_Inr [result_simps]:
  "load_item db i = Inr w \<longleftrightarrow> item_of db i = Some w \<and> shape_ok w \<and> clock_ok w"
  by (auto simp: load_item_def item_from_row_def result_simps split: option.splits)

lemma item_from_row_Inr [result_simps]:
  "item_from_row w = Inr v \<longleftrightarrow> v = w \<and> shape_ok w \<and> clock_ok w"
  by (auto simp: item_from_row_def result_simps)

end
