(* ===== verification/Work_Lifecycle.thy ===== *)
theory Work_Lifecycle
  imports Work_Ledger
begin

text \<open>
  The abstract lifecycle of the work ledger: a step relation with one rule per kind of
  transition a transaction of the scheduler is built from, the well-formedness invariant
  of the ledger, and what every step keeps. The scheduler's operations are shown to be
  sequences of these steps in \<open>Work_Refinement\<close>.
\<close>

section \<open>Steps\<close>

definition planned_row :: "WorkItemPlan \<Rightarrow> WorkItem" where
  "planned_row p =
     WorkItemPlan.extend p
       (WorkItem.fields PLANNED False 0 None None None 0 None None None None None None (created_at p) 0)"

lemma planned_row_sel [simp]:
  "work_item_id (planned_row p) = work_item_id p" "work_logical_key (planned_row p) = work_logical_key p"
  "run_id (planned_row p) = run_id p" "mcap_id (planned_row p) = mcap_id p"
  "stage (planned_row p) = stage p" "subject_type (planned_row p) = subject_type p"
  "subject_id (planned_row p) = subject_id p" "input_digest (planned_row p) = input_digest p"
  "config_digest (planned_row p) = config_digest p" "priority (planned_row p) = priority p"
  "sla_deadline_at (planned_row p) = sla_deadline_at p"
  "execution_expiry_at (planned_row p) = execution_expiry_at p"
  "max_attempts (planned_row p) = max_attempts p" "trace_id (planned_row p) = trace_id p"
  "created_at (planned_row p) = created_at p" "state (planned_row p) = PLANNED"
  "lease_epoch (planned_row p) = 0" "fencing_token (planned_row p) = None"
  "leased_by (planned_row p) = None" "lease_expires_at (planned_row p) = None"
  "attempt (planned_row p) = 0" "retry_not_before_at (planned_row p) = None"
  "terminal_reason_code (planned_row p) = None" "terminal_reason_detail (planned_row p) = None"
  "result_reference (planned_row p) = None" "result_sha256 (planned_row p) = None"
  "completed_at (planned_row p) = None" "updated_at (planned_row p) = created_at p"
  by (simp_all add: planned_row_def WorkItemPlan.defs WorkItem.defs)

abbreviation upd_item :: "string \<Rightarrow> (WorkItem \<Rightarrow> WorkItem) \<Rightarrow> ledger \<Rightarrow> ledger" where
  "upd_item i f db \<equiv> upd_items (\<lambda>w. work_item_id w = i) f db"

definition deps_settled :: "ledger \<Rightarrow> string \<Rightarrow> bool" where
  "deps_settled db i \<longleftrightarrow>
     (\<forall>d \<in> set (work_dependencies db). downstream_work_item_id d = i \<longrightarrow>
        (\<exists>u. item_of db (upstream_work_item_id d) = Some u \<and> terminal_state (state u)
           \<and> (criticality d = REQUIRED \<longrightarrow> state u \<in> SUCCESSFUL_DEPENDENCY_STATES)))"

definition live_state :: "WorkItemState \<Rightarrow> bool" where
  "live_state st \<longleftrightarrow> st \<in> {READY, LEASED, RUNNING, RETRY_WAIT, SUCCEEDED}"

definition new_attempt ::
    "string \<Rightarrow> nat \<Rightarrow> nat \<Rightarrow> string \<Rightarrow> string \<Rightarrow> time \<Rightarrow> time option \<Rightarrow> WorkAttempt" where
  "new_attempt i n epoch token worker now started =
     \<lparr>attempt_work_item_id = i, attempt_number = n, attempt_epoch = epoch, attempt_token = token,
      attempt_worker = worker, claimed_at = now, started_at = started, attempt_completed_at = None,
      outcome = Attempt_ACTIVE, error_code = None, error_detail = None\<rparr>"

inductive lstep :: "ledger \<Rightarrow> ledger \<Rightarrow> bool" where
  insert_plan:
    "\<lbrakk> \<forall>v \<in> set (work_items db). work_item_id v \<noteq> work_item_id p
         \<and> work_logical_key v \<noteq> work_logical_key p;
       1 \<le> max_attempts p;
       \<forall>d \<in> set ds. downstream_work_item_id d = work_item_id p
         \<and> (\<exists>u. item_of db (upstream_work_item_id d) = Some u \<and> run_id u = run_id p);
       distinct (map dependency_id (work_dependencies db @ ds)) \<rbrakk>
     \<Longrightarrow> lstep db (db\<lparr>work_items := work_items db @ [planned_row p],
           work_dependencies := work_dependencies db @ ds\<rparr>)"
| advance:
    "\<lbrakk> item_of db i = Some w; state w = PLANNED; deps_settled db i \<rbrakk>
     \<Longrightarrow> lstep db (upd_item i (row_ready now) db)"
| idle_terminal:
    "\<lbrakk> item_of db i = Some w; \<not> terminal_state (state w); \<not> leased_state (state w);
       terminal_state st; st \<noteq> SUCCEEDED; code \<noteq> None \<rbrakk>
     \<Longrightarrow> lstep db (upd_item i (row_terminal st now code detail None None cancel) db)"
| leased_terminal:
    "\<lbrakk> item_of db i = Some w; leased_state (state w); terminal_state st; oc \<noteq> Attempt_ACTIVE;
       (ref = None) = (sha = None); st \<noteq> SUCCEEDED \<longrightarrow> code \<noteq> None \<and> ref = None;
       detail \<noteq> None \<longrightarrow> code \<noteq> None \<rbrakk>
     \<Longrightarrow> lstep db (upd_item i (row_terminal st now code detail ref sha cancel)
           (upd_attempts (attempt_matches w) (attempt_finish oc now code' detail') db))"
| claim_ready:
    "\<lbrakk> item_of db i = Some w; state w = READY; leased_state st;
       \<forall>a \<in> set (work_attempts db). attempt_token a \<noteq> token \<rbrakk>
     \<Longrightarrow> lstep db ((upd_item i (row_claim st (lease_epoch w + 1) token worker expires
             (attempt w + 1) now) db)
           \<lparr>work_attempts := work_attempts db @
             [new_attempt i (attempt w + 1) (lease_epoch w + 1) token worker now started]\<rparr>)"
| start_leased:
    "\<lbrakk> item_of db i = Some w; state w = LEASED \<rbrakk>
     \<Longrightarrow> lstep db (upd_attempts (\<lambda>a. attempt_work_item_id a = i \<and> attempt_number a = attempt w
             \<and> outcome a = Attempt_ACTIVE) (attempt_start now) (upd_item i (row_start now) db))"
| heartbeat_leased:
    "\<lbrakk> item_of db i = Some w; leased_state (state w) \<rbrakk>
     \<Longrightarrow> lstep db (upd_item i (row_heartbeat expires now) db)"
| retry_later:
    "\<lbrakk> item_of db i = Some w; leased_state (state w); attempt w < max_attempts w;
       oc \<noteq> Attempt_ACTIVE \<rbrakk>
     \<Longrightarrow> lstep db (upd_item i (row_retry_wait retry_at now)
           (upd_attempts (attempt_matches w) (attempt_finish oc now code' detail') db))"
| recover_lease:
    "\<lbrakk> item_of db i = Some w; leased_state (state w); attempt w < max_attempts w;
       oc \<noteq> Attempt_ACTIVE \<rbrakk>
     \<Longrightarrow> lstep db (upd_item i (row_recover now)
           (upd_attempts (attempt_matches w) (attempt_finish oc now code' detail') db))"
| retry_due:
    "lstep db (upd_items (\<lambda>w. state w = RETRY_WAIT \<and> q w) (row_retry_due now) db)"

section \<open>The invariant\<close>

definition budget_ok :: "WorkItem \<Rightarrow> bool" where
  "budget_ok w \<longleftrightarrow> attempt w = lease_epoch w \<and> attempt w \<le> max_attempts w
     \<and> (state w \<in> {PLANNED, READY, RETRY_WAIT} \<longrightarrow> attempt w < max_attempts w)
     \<and> (state w = PLANNED \<longrightarrow> attempt w = 0 \<and> updated_at w = created_at w)"

definition wf_items :: "ledger \<Rightarrow> bool" where
  "wf_items db \<longleftrightarrow> distinct (map work_item_id (work_items db))
     \<and> distinct (map work_logical_key (work_items db))
     \<and> (\<forall>w \<in> set (work_items db). shape_ok w \<and> budget_ok w)"

definition wf_deps :: "ledger \<Rightarrow> bool" where
  "wf_deps db \<longleftrightarrow> distinct (map dependency_id (work_dependencies db))
     \<and> (\<forall>d \<in> set (work_dependencies db).
          \<exists>v u. item_of db (downstream_work_item_id d) = Some v
            \<and> item_of db (upstream_work_item_id d) = Some u \<and> run_id u = run_id v)"

definition wf_settled :: "ledger \<Rightarrow> bool" where
  "wf_settled db \<longleftrightarrow>
     (\<forall>w \<in> set (work_items db). live_state (state w) \<longrightarrow> deps_settled db (work_item_id w))"

definition attempt_key :: "WorkAttempt \<Rightarrow> string \<times> nat" where
  "attempt_key a = (attempt_work_item_id a, attempt_number a)"

definition wf_attempts :: "ledger \<Rightarrow> bool" where
  "wf_attempts db \<longleftrightarrow> distinct (map attempt_key (work_attempts db))
     \<and> distinct (map attempt_token (work_attempts db))
     \<and> (\<forall>a \<in> set (work_attempts db). \<exists>w. item_of db (attempt_work_item_id a) = Some w
          \<and> 1 \<le> attempt_number a \<and> attempt_number a \<le> attempt w \<and> attempt_epoch a = attempt_number a
          \<and> (outcome a = Attempt_ACTIVE \<longrightarrow> leased_state (state w) \<and> attempt_matches w a))
     \<and> (\<forall>w \<in> set (work_items db). leased_state (state w) \<longrightarrow>
          (\<exists>a \<in> set (work_attempts db). attempt_matches w a))"

definition wf_ledger :: "ledger \<Rightarrow> bool" where
  "wf_ledger db \<longleftrightarrow> wf_items db \<and> wf_deps db \<and> wf_settled db \<and> wf_attempts db"

lemma wf_ledgerD:
  assumes "wf_ledger db"
  shows "wf_items db" "wf_deps db" "wf_settled db" "wf_attempts db"
    and "distinct (map work_item_id (work_items db))"
  using assms by (auto simp: wf_ledger_def wf_items_def)

lemma wf_row:
  assumes "wf_items db" and "item_of db i = Some w"
  shows "shape_ok w" and "budget_ok w" and "w \<in> set (work_items db)" and "work_item_id w = i"
  using assms item_of_in item_of_id by (auto simp: wf_items_def)

lemma wf_empty: "wf_ledger empty_ledger"
  by (simp add: wf_ledger_def wf_items_def wf_deps_def wf_settled_def wf_attempts_def empty_ledger_def)

section \<open>Updates that rewrite rows in place\<close>

text \<open>
  Every step but the insertion maps the rows by some \<open>g\<close> that keeps the plan's
  fields and leaves terminal rows alone.
\<close>

definition plan_of :: "WorkItem \<Rightarrow> WorkItemPlan" where
  "plan_of w = WorkItemPlan.truncate w"

definition keeps_plan :: "(WorkItem \<Rightarrow> WorkItem) \<Rightarrow> bool" where
  "keeps_plan g \<longleftrightarrow> (\<forall>w. plan_of (g w) = plan_of w)"

lemma plan_of_eqD:
  assumes "plan_of v = plan_of w"
  shows "work_item_id v = work_item_id w" "work_logical_key v = work_logical_key w"
    "run_id v = run_id w" "max_attempts v = max_attempts w" "created_at v = created_at w"
    "execution_expiry_at v = execution_expiry_at w" "priority v = priority w"
  using assms by (simp_all add: plan_of_def WorkItemPlan.defs)

lemma plan_of_planned_row [simp]: "plan_of (planned_row p) = p"
  by (simp add: plan_of_def planned_row_def WorkItemPlan.defs WorkItem.defs)

lemma keeps_planD:
  assumes "keeps_plan g"
  shows "work_item_id (g w) = work_item_id w" "work_logical_key (g w) = work_logical_key w"
    "run_id (g w) = run_id w" "max_attempts (g w) = max_attempts w" "plan_of (g w) = plan_of w"
proof -
  show p: "plan_of (g w) = plan_of w" using assms by (simp add: keeps_plan_def)
  show "work_item_id (g w) = work_item_id w" "work_logical_key (g w) = work_logical_key w"
    "run_id (g w) = run_id w" "max_attempts (g w) = max_attempts w"
    by (rule plan_of_eqD [OF p])+
qed

lemma keeps_plan_rows [simp]:
  "keeps_plan (row_terminal st now code detail ref sha cancel)" "keeps_plan (row_ready now)"
  "keeps_plan (row_claim st' epoch token worker expires att now)" "keeps_plan (row_start now)"
  "keeps_plan (row_heartbeat expires now)" "keeps_plan (row_retry_wait retry_at now)"
  "keeps_plan (row_recover now)" "keeps_plan (row_retry_due now)"
  by (simp_all add: keeps_plan_def plan_of_def row_defs WorkItemPlan.defs)

lemma keeps_plan_if: "keeps_plan f \<Longrightarrow> keeps_plan (\<lambda>w. if p w then f w else w)"
  by (simp add: keeps_plan_def)

lemma item_of_map:
  assumes "work_items db' = map g (work_items db)" and "keeps_plan g"
  shows "item_of db' j = map_option g (item_of db j)"
proof -
  have "find_row (\<lambda>w. work_item_id w = j) (map g ws) =
      map_option g (find_row (\<lambda>w. work_item_id w = j) ws)" for ws
    by (induction ws) (auto simp: find_row_def keeps_planD [OF assms(2)])
  then show ?thesis by (simp add: item_of_def assms(1))
qed

lemma map_keys:
  assumes "keeps_plan g"
  shows "work_item_id \<circ> g = work_item_id" and "work_logical_key \<circ> g = work_logical_key"
  by (simp_all add: keeps_planD [OF assms] fun_eq_iff)

lemma wf_items_map:
  assumes "wf_items db" and "work_items db' = map g (work_items db)" and "keeps_plan g"
    and "\<And>w. w \<in> set (work_items db) \<Longrightarrow> shape_ok (g w) \<and> budget_ok (g w)"
  shows "wf_items db'"
  using assms map_keys [OF assms(3)] by (simp add: wf_items_def)

lemma wf_deps_map:
  assumes "wf_deps db" and "work_items db' = map g (work_items db)" and "keeps_plan g"
    and "work_dependencies db' = work_dependencies db"
  shows "wf_deps db'"
proof -
  have "run_id (g w) = run_id w" for w using keeps_planD [OF assms(3)] by simp
  with assms(1) show ?thesis
    by (fastforce simp: wf_deps_def assms(4) item_of_map [OF assms(2,3)])
qed

lemma deps_settled_map:
  assumes "work_items db' = map g (work_items db)" and "keeps_plan g"
    and "work_dependencies db' = work_dependencies db"
    and "\<And>w. w \<in> set (work_items db) \<Longrightarrow> terminal_state (state w) \<Longrightarrow> g w = w"
    and "deps_settled db i"
  shows "deps_settled db' i"
  unfolding deps_settled_def assms(3)
proof (intro ballI impI)
  fix d
  assume "d \<in> set (work_dependencies db)" "downstream_work_item_id d = i"
  with assms(5) obtain u where u: "item_of db (upstream_work_item_id d) = Some u"
    "terminal_state (state u)" "criticality d = REQUIRED \<longrightarrow> state u \<in> SUCCESSFUL_DEPENDENCY_STATES"
    by (auto simp: deps_settled_def)
  have "item_of db' (upstream_work_item_id d) = Some (g u)"
    using u(1) by (simp add: item_of_map [OF assms(1,2)])
  moreover have "g u = u" using assms(4) [OF item_of_in [OF u(1)] u(2)] .
  ultimately show "\<exists>u. item_of db' (upstream_work_item_id d) = Some u \<and> terminal_state (state u)
      \<and> (criticality d = REQUIRED \<longrightarrow> state u \<in> SUCCESSFUL_DEPENDENCY_STATES)"
    using u(2,3) by auto
qed

lemma wf_settled_map:
  assumes "wf_settled db" and "work_items db' = map g (work_items db)" and "keeps_plan g"
    and "work_dependencies db' = work_dependencies db"
    and "\<And>w. w \<in> set (work_items db) \<Longrightarrow> terminal_state (state w) \<Longrightarrow> g w = w"
    and "\<And>w. w \<in> set (work_items db) \<Longrightarrow> live_state (state (g w)) \<Longrightarrow>
      live_state (state w) \<or> deps_settled db (work_item_id w)"
  shows "wf_settled db'"
proof -
  have "deps_settled db' (work_item_id (g w))"
    if w: "w \<in> set (work_items db)" and live: "live_state (state (g w))" for w
  proof -
    have "deps_settled db (work_item_id w)" using assms(1,6) w live by (auto simp: wf_settled_def)
    then show ?thesis using deps_settled_map [OF assms(2-5)] keeps_planD [OF assms(3)] by simp
  qed
  then show ?thesis by (auto simp: wf_settled_def assms(2))
qed

text \<open>Attempts are untouched, or only their start time is written.\<close>

definition same_attempt :: "WorkAttempt \<Rightarrow> WorkAttempt \<Rightarrow> bool" where
  "same_attempt a b \<longleftrightarrow> attempt_key b = attempt_key a \<and> attempt_token b = attempt_token a
     \<and> attempt_epoch b = attempt_epoch a \<and> outcome b = outcome a"

lemma wf_attempts_mapI:
  assumes "wf_attempts db" and "work_items db' = map g (work_items db)"
    and "work_attempts db' = map h (work_attempts db)"
    and "attempt_key \<circ> h = attempt_key" and "attempt_token \<circ> h = attempt_token"
    and "\<And>a. a \<in> set (work_attempts db) \<Longrightarrow>
      \<exists>v. item_of db' (attempt_work_item_id (h a)) = Some v
      \<and> 1 \<le> attempt_number (h a) \<and> attempt_number (h a) \<le> attempt v
      \<and> attempt_epoch (h a) = attempt_number (h a)
      \<and> (outcome (h a) = Attempt_ACTIVE \<longrightarrow> leased_state (state v) \<and> attempt_matches v (h a))"
    and "\<And>v. v \<in> set (work_items db) \<Longrightarrow> leased_state (state (g v)) \<Longrightarrow>
      \<exists>a \<in> set (work_attempts db). attempt_matches (g v) (h a)"
  shows "wf_attempts db'"
  using assms by (auto simp: wf_attempts_def)

lemma wf_attempts_map:
  assumes wf: "wf_attempts db" and items: "work_items db' = map g (work_items db)" "keeps_plan g"
    and att: "work_attempts db' = map h (work_attempts db)" "\<And>a. same_attempt a (h a)"
    and lease: "\<And>w. w \<in> set (work_items db) \<Longrightarrow> leased_state (state (g w)) = leased_state (state w)
      \<and> attempt (g w) = attempt w \<and> lease_epoch (g w) = lease_epoch w \<and> fencing_token (g w) = fencing_token w"
  shows "wf_attempts db'"
proof -
  have h: "attempt_key (h a) = attempt_key a" "attempt_token (h a) = attempt_token a"
    "attempt_epoch (h a) = attempt_epoch a" "outcome (h a) = outcome a"
    "attempt_work_item_id (h a) = attempt_work_item_id a" "attempt_number (h a) = attempt_number a" for a
    using att(2) [of a] by (auto simp: same_attempt_def attempt_key_def)
  have m: "attempt_matches (g w) (h a) \<longleftrightarrow> attempt_matches w a" if "w \<in> set (work_items db)" for w a
    using lease [OF that] keeps_planD [OF items(2)] h by (auto simp: attempt_matches_def)
  have keys: "attempt_key \<circ> h = attempt_key" "attempt_token \<circ> h = attempt_token"
    using h by (simp_all add: fun_eq_iff)
  have "\<exists>w. item_of db' (attempt_work_item_id (h a)) = Some w
      \<and> 1 \<le> attempt_number (h a) \<and> attempt_number (h a) \<le> attempt w
      \<and> attempt_epoch (h a) = attempt_number (h a)
      \<and> (outcome (h a) = Attempt_ACTIVE \<longrightarrow> leased_state (state w) \<and> attempt_matches w (h a))"
    if a: "a \<in> set (work_attempts db)" for a
  proof -
    obtain w where w: "item_of db (attempt_work_item_id a) = Some w" "1 \<le> attempt_number a"
      "attempt_number a \<le> attempt w" "attempt_epoch a = attempt_number a"
      "outcome a = Attempt_ACTIVE \<longrightarrow> leased_state (state w) \<and> attempt_matches w a"
      using wf a by (auto simp: wf_attempts_def)
    have "item_of db' (attempt_work_item_id (h a)) = Some (g w)"
      using w(1) h by (simp add: item_of_map [OF items])
    with w lease [OF item_of_in [OF w(1)]] m [OF item_of_in [OF w(1)]] h show ?thesis by auto
  qed
  moreover have "\<exists>a \<in> set (work_attempts db). attempt_matches (g w) (h a)"
    if "w \<in> set (work_items db)" "leased_state (state (g w))" for w
    using wf that lease [OF that(1)] m [OF that(1)] by (auto simp: wf_attempts_def)
  ultimately show ?thesis by (rule wf_attempts_mapI [OF wf items(1) att(1) keys])
qed

lemma same_attempt_refl: "same_attempt a a"
  by (simp add: same_attempt_def)

end
