(* ===== verification/Work_Scheduler.thy ===== *)
theory Work_Scheduler
  imports Work_Lifecycle
begin

text \<open>
  The operations of \<open>SQLiteWorkScheduler\<close> (\<^verbatim>\<open>src/robata/adapters/sqlite_work_scheduler.py\<close>)
  over the tables of \<open>Work_Ledger\<close>, in the order of the source. A transaction either
  commits the ledger its operation returns or, on any exception, leaves the ledger as it was.
  \<open>uuid4\<close>, the clock and the I/O failures of SQLite are outside the model: the fencing
  token and the current time are arguments.
\<close>

section \<open>Transactions\<close>

definition transaction :: "(ledger \<Rightarrow> 'a tx) \<Rightarrow> ledger \<Rightarrow> ledger \<times> (work_error + 'a)" where
  "transaction operation db =
     (case operation db of Inl e \<Rightarrow> (db, Inl e) | Inr (db', a) \<Rightarrow> (db', Inr a))"

section \<open>Readiness\<close>

definition advance_planned_item :: "ledger \<Rightarrow> string \<Rightarrow> time \<Rightarrow> WorkItemState option tx" where
  "advance_planned_item db i now =
     rbind (load_item db i) (\<lambda>item.
       if state item \<noteq> PLANNED then Inr (db, None)
       else
         let rows = dependency_rows db (work_item_id item) in
         if list_ex (\<lambda>(c, st). st \<notin> TERMINAL_WORK_STATES) rows then Inr (db, None)
         else if list_ex (\<lambda>(c, st). c = REQUIRED \<and> st \<notin> SUCCESSFUL_DEPENDENCY_STATES) rows
         then rbind (set_terminal db item FAILED_PERMANENT now (Some ''REQUIRED_DEPENDENCY_FAILED'')
                None None None False) (\<lambda>db'. Inr (db', Some FAILED_PERMANENT))
         else
           let p = (\<lambda>w. work_item_id w = work_item_id item \<and> state w = PLANNED) in
           if rowcount p (work_items db) \<noteq> 1
           then Inl (WorkStorageError ''planned readiness transition lost its compare-and-swap'')
           else Inr (upd_items p (row_ready now) db, Some READY))"

definition planned_count :: "ledger \<Rightarrow> nat" where
  "planned_count db = rowcount (\<lambda>w. state w = PLANNED) (work_items db)"

lemma rowcount_update_less:
  assumes "w \<in> set rows" and "p w" and "q w" and "\<And>v. p v \<Longrightarrow> \<not> q (f v)"
  shows "rowcount q (update_where p f rows) < rowcount q rows"
proof -
  have le: "length (filter q (map (\<lambda>r. if p r then f r else r) xs)) \<le> length (filter q xs)" for xs
    using assms(4) by (induction xs) auto
  from assms(1) obtain xs ys where "rows = xs @ w # ys" by (auto simp: in_set_conv_decomp)
  with assms(2-4) le [of xs] le [of ys] show ?thesis
    by (auto simp: rowcount_def update_where_def)
qed

lemma advance_None: "advance_planned_item db i now = Inr (db', None) \<Longrightarrow> db' = db"
  by (auto simp: advance_planned_item_def result_simps Let_def split: if_splits)

lemma advance_Some_planned_count:
  assumes "advance_planned_item db i now = Inr (db', Some st)"
  shows "planned_count db' < planned_count db"
proof -
  obtain item where item: "item_of db i = Some item" "shape_ok item" "state item = PLANNED"
    using assms by (auto simp: advance_planned_item_def result_simps Let_def split: if_splits)
  have mem: "item \<in> set (work_items db)" and open_row: "completed_at item = None"
    using item item_of_in by (auto simp: shape_ok_def)
  consider "db' = upd_items (\<lambda>w. work_item_id w = work_item_id item \<and> completed_at w = None)
      (row_terminal FAILED_PERMANENT now (Some ''REQUIRED_DEPENDENCY_FAILED'') None None None False) db"
    | "db' = upd_items (\<lambda>w. work_item_id w = work_item_id item \<and> state w = PLANNED) (row_ready now) db"
    using assms item
    by (auto simp: advance_planned_item_def result_simps Let_def set_terminal_def split: if_splits)
  then show ?thesis
  proof cases
    case 1
    with mem open_row item(3) show ?thesis
      by (auto simp: planned_count_def row_terminal_def intro!: rowcount_update_less [of item])
  next
    case 2
    with mem item(3) show ?thesis
      by (auto simp: planned_count_def row_ready_def intro!: rowcount_update_less [of item])
  qed
qed

primrec enqueue_new :: "string list \<Rightarrow> string list \<Rightarrow> string set \<Rightarrow> string list \<times> string set" where
  "enqueue_new [] pending queued = (pending, queued)"
| "enqueue_new (d # ds) pending queued =
     (if d \<notin> queued then enqueue_new ds (pending @ [d]) (insert d queued)
      else enqueue_new ds pending queued)"

text \<open>The worklist loop of \<open>_refresh_planned_for_work_ids\<close>.\<close>

function refresh_pending ::
    "ledger \<Rightarrow> time \<Rightarrow> string list \<Rightarrow> string set \<Rightarrow> nat \<Rightarrow> nat tx" where
  "refresh_pending db now [] queued changed = Inr (db, changed)"
| "refresh_pending db now (i # rest) queued changed =
     (case advance_planned_item db i now of
        Inl e \<Rightarrow> Inl e
      | Inr (db', None) \<Rightarrow> refresh_pending db' now rest (queued - {i}) changed
      | Inr (db', Some st) \<Rightarrow>
          if st \<notin> TERMINAL_WORK_STATES
          then refresh_pending db' now rest (queued - {i}) (changed + 1)
          else refresh_pending db' now (fst (enqueue_new (downstream_ids db' i) rest (queued - {i})))
                 (snd (enqueue_new (downstream_ids db' i) rest (queued - {i}))) (changed + 1))"
  by pat_completeness auto
termination
  by (relation "measures [\<lambda>(db, now, pending, queued, changed). planned_count db,
        \<lambda>(db, now, pending, queued, changed). length pending]")
    (auto dest: advance_None advance_Some_planned_count)

definition py_dedup :: "'a list \<Rightarrow> 'a list" where
  "py_dedup xs = rev (remdups (rev xs))"

definition refresh_planned_for_work_ids :: "ledger \<Rightarrow> time \<Rightarrow> string list \<Rightarrow> nat tx" where
  "refresh_planned_for_work_ids db now work_item_ids =
     (let pending = py_dedup work_item_ids in refresh_pending db now pending (set pending) 0)"

definition refresh_downstream_for_upstreams :: "ledger \<Rightarrow> time \<Rightarrow> string list \<Rightarrow> nat tx" where
  "refresh_downstream_for_upstreams db now upstream_work_item_ids =
     refresh_planned_for_work_ids db now (concat (map (downstream_ids db) upstream_work_item_ids))"

definition planned_ids :: "ledger \<Rightarrow> string list" where
  "planned_ids db = map work_item_id
     (sort_key (\<lambda>w. (created_at w, work_item_id w)) (filter (\<lambda>w. state w = PLANNED) (work_items db)))"

primrec refresh_pass :: "time \<Rightarrow> string list \<Rightarrow> ledger \<Rightarrow> nat \<Rightarrow> nat tx" where
  "refresh_pass now [] db n = Inr (db, n)"
| "refresh_pass now (i # is) db n =
     (case advance_planned_item db i now of
        Inl e \<Rightarrow> Inl e
      | Inr (db', None) \<Rightarrow> refresh_pass now is db' n
      | Inr (db', Some st) \<Rightarrow> refresh_pass now is db' (n + 1))"

lemma refresh_pass_count:
  "refresh_pass now is db n = Inr (db', m) \<Longrightarrow>
    planned_count db' \<le> planned_count db \<and> n \<le> m \<and> (n < m \<longrightarrow> planned_count db' < planned_count db)"
proof (induction "is" arbitrary: db n)
  case Nil
  then show ?case by simp
next
  case (Cons i "is")
  then obtain db1 r where r: "advance_planned_item db i now = Inr (db1, r)"
    by (auto split: sum.splits)
  show ?case
  proof (cases r)
    case None
    with r advance_None have "db1 = db" by blast
    with Cons.prems Cons.IH [of db1 n] r None show ?thesis by simp
  next
    case (Some st)
    with r have "planned_count db1 < planned_count db" by (simp add: advance_Some_planned_count)
    with Cons.prems Cons.IH [of db1 "n + 1"] r Some show ?thesis by auto
  qed
qed

function refresh_planned :: "ledger \<Rightarrow> time \<Rightarrow> nat \<Rightarrow> nat tx" where
  "refresh_planned db now changed =
     (case refresh_pass now (planned_ids db) db 0 of
        Inl e \<Rightarrow> Inl e
      | Inr (db', n) \<Rightarrow> if n = 0 then Inr (db', changed) else refresh_planned db' now (changed + n))"
  by pat_completeness auto
termination
  by (relation "measure (\<lambda>(db, now, changed). planned_count db)") (auto dest: refresh_pass_count)

declare refresh_planned.simps [simp del]

section \<open>Maintenance\<close>

definition hard_expiry_due :: "time \<Rightarrow> WorkItem \<Rightarrow> bool" where
  "hard_expiry_due now w \<longleftrightarrow> completed_at w = None \<and>
     (case execution_expiry_at w of None \<Rightarrow> False | Some t \<Rightarrow> t \<le> now)"

definition time_or_zero :: "time option \<Rightarrow> time" where
  "time_or_zero t = (case t of None \<Rightarrow> 0 | Some x \<Rightarrow> x)"

definition expire_row :: "time \<Rightarrow> WorkItem \<Rightarrow> ledger \<times> nat \<Rightarrow> work_error + (ledger \<times> nat)" where
  "expire_row now row s =
     (case s of (db, changed) \<Rightarrow>
       rbind (item_from_row row) (\<lambda>item.
         if (case execution_expiry_at item of None \<Rightarrow> True | Some expiry \<Rightarrow> expiry > now)
         then Inr (db, changed)
         else
           rbind (if state item \<in> {LEASED, RUNNING}
                  then finish_attempt db item Attempt_EXPIRED now (Some ''EXECUTION_EXPIRED'') None
                  else Inr db) (\<lambda>db1.
           rbind (set_terminal db1 item EXPIRED now (Some ''EXECUTION_EXPIRED'') None None None False) (\<lambda>db2.
           rbind (refresh_downstream_for_upstreams db2 now [work_item_id item]) (\<lambda>(db3, n).
             Inr (db3, changed + 1))))))"

definition expire_hard_deadlines :: "ledger \<Rightarrow> time \<Rightarrow> string option \<Rightarrow> nat tx" where
  "expire_hard_deadlines db now target =
     (let rows = (case target of
            None \<Rightarrow> sort_key (\<lambda>w. (time_or_zero (execution_expiry_at w), work_item_id w))
                      (filter (hard_expiry_due now) (work_items db))
          | Some i \<Rightarrow> filter (\<lambda>w. work_item_id w = i \<and> hard_expiry_due now w) (work_items db))
      in fold_res (expire_row now) rows (db, 0))"

definition lease_due :: "time \<Rightarrow> WorkItem \<Rightarrow> bool" where
  "lease_due now w \<longleftrightarrow> (case lease_expires_at w of None \<Rightarrow> False | Some t \<Rightarrow> t \<le> now)
     \<and> state w \<in> {LEASED, RUNNING}"

definition recover_row :: "time \<Rightarrow> WorkItem \<Rightarrow> ledger \<times> nat \<Rightarrow> work_error + (ledger \<times> nat)" where
  "recover_row now row s =
     (case s of (db, changed) \<Rightarrow>
       rbind (item_from_row row) (\<lambda>item.
         if (case lease_expires_at item of None \<Rightarrow> True | Some expiry \<Rightarrow> expiry > now)
         then Inr (db, changed)
         else
           rbind (finish_attempt db item Attempt_ABANDONED now (Some ''LEASE_EXPIRED'') None) (\<lambda>db1.
             if attempt item < max_attempts item
             then
               let p = (\<lambda>w. work_item_id w = work_item_id item \<and> (lease_epoch w = lease_epoch item
                        \<and> fencing_token w = fencing_token item \<and> fencing_token item \<noteq> None)) in
               if rowcount p (work_items db1) \<noteq> 1
               then Inl (WorkFenceError ''expired lease changed during recovery'')
               else Inr (upd_items p (row_recover now) db1, changed + 1)
             else
               rbind (set_terminal db1 item FAILED_PERMANENT now (Some ''LEASE_ATTEMPTS_EXHAUSTED'')
                  None None None False) (\<lambda>db2.
               rbind (refresh_downstream_for_upstreams db2 now [work_item_id item]) (\<lambda>(db3, n).
                 Inr (db3, changed + 1))))))"

definition recover_expired_leases :: "ledger \<Rightarrow> time \<Rightarrow> string option \<Rightarrow> nat tx" where
  "recover_expired_leases db now target =
     (let rows = (case target of
            None \<Rightarrow> sort_key (\<lambda>w. (if state w = LEASED then 0 else 1 :: nat,
                        time_or_zero (lease_expires_at w), work_item_id w))
                      (filter (lease_due now) (work_items db))
          | Some i \<Rightarrow> filter (\<lambda>w. work_item_id w = i \<and> lease_due now w) (work_items db))
      in fold_res (recover_row now) rows (db, 0))"

definition retry_is_due :: "time \<Rightarrow> WorkItem \<Rightarrow> bool" where
  "retry_is_due now w \<longleftrightarrow> (case retry_not_before_at w of None \<Rightarrow> False | Some t \<Rightarrow> t \<le> now)"

definition maintain :: "ledger \<Rightarrow> time \<Rightarrow> bool \<Rightarrow> nat tx" where
  "maintain db now refresh_all_planned =
     rbind (expire_hard_deadlines db now None) (\<lambda>(db1, n1).
     rbind (recover_expired_leases db1 now None) (\<lambda>(db2, n2).
       let p = (\<lambda>w. state w = RETRY_WAIT \<and> retry_is_due now w);
           db3 = upd_items p (row_retry_due now) db2;
           changed = n1 + n2 + rowcount p (work_items db2)
       in if refresh_all_planned
          then rbind (refresh_planned db3 now 0) (\<lambda>(db4, n4). Inr (db4, changed + n4))
          else Inr (db3, changed)))"

definition reconcile_exact_due_state :: "string \<Rightarrow> time \<Rightarrow> ledger \<Rightarrow> nat tx" where
  "reconcile_exact_due_state i now db =
     rbind (expire_hard_deadlines db now (Some i)) (\<lambda>(db1, n1).
     rbind (recover_expired_leases db1 now (Some i)) (\<lambda>(db2, n2).
       let changed = n1 + n2 in
       if changed \<noteq> 0
       then rbind (load_item db2 i) (\<lambda>item.
              if state item \<in> TERMINAL_WORK_STATES
              then rbind (refresh_downstream_for_upstreams db2 now [i]) (\<lambda>(db3, n3).
                     Inr (db3, changed + n3))
              else Inr (db2, changed))
       else Inr (db2, changed)))"

definition reconcile :: "time \<Rightarrow> ledger \<Rightarrow> ledger \<times> (work_error + nat)" where
  "reconcile now = transaction (\<lambda>db. maintain db now True)"

section \<open>Planning\<close>

definition nonempty :: "string \<Rightarrow> string \<Rightarrow> work_error + string" where
  "nonempty value field_name =
     (if py_blank value then Inl (WorkValueError (field_name @ '' must be a nonempty string''))
      else Inr value)"

definition positive_int :: "int \<Rightarrow> string \<Rightarrow> work_error + int" where
  "positive_int value field_name =
     (if value < 1 then Inl (WorkValueError (field_name @ '' must be positive'')) else Inr value)"

definition nonnegative_int :: "int \<Rightarrow> string \<Rightarrow> work_error + int" where
  "nonnegative_int value field_name =
     (if value < 0 then Inl (WorkValueError (field_name @ '' must be nonnegative'')) else Inr value)"

definition is_sha256 :: "string \<Rightarrow> bool" where
  "is_sha256 value \<longleftrightarrow> length value = 64 \<and> list_all (\<lambda>c. c \<in> set ''0123456789abcdef'') value"

definition validate_plan_dependencies :: "WorkItemPlan \<Rightarrow> WorkDependency list \<Rightarrow> work_error + unit" where
  "validate_plan_dependencies plan dependencies =
     (if list_ex (\<lambda>d. downstream_work_item_id d \<noteq> work_item_id plan) dependencies
      then Inl (WorkConflictError ''dependency downstream id does not match the plan'')
      else if \<not> distinct (map dependency_id dependencies)
      then Inl (WorkConflictError ''dependency ids must be unique'')
      else if \<not> distinct (map upstream_work_item_id dependencies)
      then Inl (WorkConflictError ''upstream dependencies must be unique'')
      else Inr ())"

definition plan_matches :: "WorkItem \<Rightarrow> WorkItemPlan \<Rightarrow> bool" where
  "plan_matches item plan \<longleftrightarrow>
     work_item_id item = work_item_id plan \<and> work_logical_key item = work_logical_key plan
     \<and> run_id item = run_id plan \<and> mcap_id item = mcap_id plan \<and> stage item = stage plan
     \<and> subject_type item = subject_type plan \<and> subject_id item = subject_id plan
     \<and> input_digest item = input_digest plan \<and> config_digest item = config_digest plan
     \<and> priority item = priority plan \<and> max_attempts item = max_attempts plan
     \<and> trace_id item = trace_id plan \<and> created_at item = created_at plan
     \<and> sla_deadline_at item = sla_deadline_at plan
     \<and> execution_expiry_at item = execution_expiry_at plan"

fun check_upstreams :: "ledger \<Rightarrow> WorkItemPlan \<Rightarrow> WorkDependency list \<Rightarrow> work_error + unit" where
  "check_upstreams db plan [] = Inr ()"
| "check_upstreams db plan (d # ds) =
     (case item_of db (upstream_work_item_id d) of
        None \<Rightarrow> Inl (WorkConflictError ''every upstream dependency must already be planned'')
      | Some u \<Rightarrow>
          if run_id u \<noteq> run_id plan
          then Inl (WorkConflictError ''dependencies cannot cross processing runs'')
          else check_upstreams db plan ds)"

text \<open>The \<open>UNIQUE\<close>, \<open>PRIMARY KEY\<close> and \<open>CHECK\<close> constraints an insertion can violate.\<close>

definition dependency_conflict :: "ledger \<Rightarrow> WorkDependency \<Rightarrow> bool" where
  "dependency_conflict db d \<longleftrightarrow>
     list_ex (\<lambda>e. dependency_id e = dependency_id d
       \<or> (downstream_work_item_id e = downstream_work_item_id d
          \<and> upstream_work_item_id e = upstream_work_item_id d)) (work_dependencies db)
     \<or> downstream_work_item_id d = upstream_work_item_id d"

definition plan_in_transaction ::
    "WorkItemPlan \<Rightarrow> WorkDependency list \<Rightarrow> bool \<Rightarrow> ledger \<Rightarrow> WorkItem tx" where
  "plan_in_transaction plan dependencies refresh_readiness db =
     (let rows = filter (\<lambda>w. work_item_id w = work_item_id plan
                    \<or> work_logical_key w = work_logical_key plan) (work_items db);
          expected_dependencies = sort_key dependency_id dependencies
      in
      case rows of
        first # rest \<Rightarrow>
          if rest \<noteq> [] then Inl (WorkConflictError ''work id and logical key identify different rows'')
          else rbind (item_from_row first) (\<lambda>existing.
            if work_item_id existing \<noteq> work_item_id plan
              \<or> work_logical_key existing \<noteq> work_logical_key plan
              \<or> \<not> plan_matches existing plan
              \<or> dependencies_of db (work_item_id existing) \<noteq> expected_dependencies
            then Inl (WorkConflictError ''work-plan replay conflicts with persisted policy'')
            else Inr (db, existing))
      | [] \<Rightarrow>
          rbind (check_upstreams db plan dependencies) (\<lambda>_.
            if max_attempts plan < 1 \<or> list_ex (dependency_conflict db) dependencies
            then Inl (WorkConflictError ''SQLite rejected durable work'')
            else
              let db1 = db\<lparr>work_items := work_items db @ [planned_row plan],
                          work_dependencies := work_dependencies db @ dependencies\<rparr> in
              rbind (if refresh_readiness
                     then refresh_planned_for_work_ids db1 (created_at plan) [work_item_id plan]
                     else Inr (db1, 0)) (\<lambda>(db2, n).
              rbind (load_item db2 (work_item_id plan)) (\<lambda>item. Inr (db2, item)))))"

definition plan_op ::
    "WorkItemPlan \<Rightarrow> WorkDependency list \<Rightarrow> ledger \<Rightarrow> ledger \<times> (work_error + WorkItem)" where
  "plan_op plan dependencies db =
     (case validate_plan_dependencies plan dependencies of
        Inl e \<Rightarrow> (db, Inl e)
      | Inr _ \<Rightarrow> transaction (plan_in_transaction plan dependencies True) db)"

fun validate_all_plans :: "(WorkItemPlan \<times> WorkDependency list) list \<Rightarrow> work_error + unit" where
  "validate_all_plans [] = Inr ()"
| "validate_all_plans ((plan, deps) # rest) =
     rbind (validate_plan_dependencies plan deps) (\<lambda>_. validate_all_plans rest)"

fun insert_plans :: "(WorkItemPlan \<times> WorkDependency list) list \<Rightarrow> ledger \<Rightarrow> work_error + ledger" where
  "insert_plans [] db = Inr db"
| "insert_plans ((plan, deps) # rest) db =
     rbind (plan_in_transaction plan deps False db) (\<lambda>(db', item). insert_plans rest db')"

fun load_all :: "ledger \<Rightarrow> string list \<Rightarrow> work_error + WorkItem list" where
  "load_all db [] = Inr []"
| "load_all db (i # is) = rbind (load_item db i) (\<lambda>w. rbind (load_all db is) (\<lambda>ws. Inr (w # ws)))"

definition plan_many ::
    "(WorkItemPlan \<times> WorkDependency list) list \<Rightarrow> ledger \<Rightarrow> ledger \<times> (work_error + WorkItem list)" where
  "plan_many plans db =
     (if plans = [] then (db, Inr [])
      else case validate_all_plans plans of
        Inl e \<Rightarrow> (db, Inl e)
      | Inr _ \<Rightarrow>
          transaction (\<lambda>db.
            rbind (insert_plans plans db) (\<lambda>db1.
            rbind (refresh_planned_for_work_ids db1
                     (Max (set (map (created_at \<circ> fst) plans))) (map (work_item_id \<circ> fst) plans)) (\<lambda>(db2, n).
            rbind (load_all db2 (map (work_item_id \<circ> fst) plans)) (\<lambda>items. Inr (db2, items))))) db)"

end
