(* ===== verification/Work_Operations.thy ===== *)
theory Work_Operations
  imports Work_Scheduler
begin

text \<open>
  The public operations of \<open>SQLiteWorkScheduler\<close> (\<^verbatim>\<open>src/robata/adapters/sqlite_work_scheduler.py\<close>)
  that read the ledger, claim work, act under a lease, or force a terminal state, built from
  the maintenance of \<open>Work_Scheduler\<close>. Each takes the ledger and returns the ledger left
  behind with a result or the exception raised.
\<close>

section \<open>Reads\<close>

definition read_only :: "(ledger \<Rightarrow> work_error + 'a) \<Rightarrow> ledger \<Rightarrow> ledger \<times> (work_error + 'a)" where
  "read_only operation = transaction (\<lambda>db. rbind (operation db) (\<lambda>a. Inr (db, a)))"

definition get_item :: "string \<Rightarrow> ledger \<Rightarrow> ledger \<times> (work_error + WorkItem)" where
  "get_item i = read_only (\<lambda>db. load_item db i)"

fun rows_to_items :: "WorkItem list \<Rightarrow> work_error + WorkItem list" where
  "rows_to_items [] = Inr []"
| "rows_to_items (r # rs) = rbind (item_from_row r) (\<lambda>w. rbind (rows_to_items rs) (\<lambda>ws. Inr (w # ws)))"

definition items_for_run :: "string \<Rightarrow> ledger \<Rightarrow> ledger \<times> (work_error + WorkItem list)" where
  "items_for_run run db =
     (case nonempty run ''run_id'' of
        Inl e \<Rightarrow> (db, Inl e)
      | Inr r \<Rightarrow> read_only (\<lambda>db. rows_to_items
          (sort_key work_item_id (filter (\<lambda>w. run_id w = r) (work_items db)))) db)"

text \<open>The \<open>ORDER BY\<close> clause of the dispatch queries.\<close>

definition dispatch_key :: "WorkItem \<Rightarrow> int \<times> nat \<times> int \<times> int \<times> string" where
  "dispatch_key w =
     (- int (priority w), (if sla_deadline_at w = None then 1 else 0),
      time_or_zero (sla_deadline_at w), created_at w, work_item_id w)"

definition ready_for_run :: "string \<Rightarrow> int \<Rightarrow> ledger \<Rightarrow> ledger \<times> (work_error + WorkItem list)" where
  "ready_for_run run limit db =
     (case rbind (nonempty run ''run_id'') (\<lambda>r. rbind (positive_int limit ''limit'') (\<lambda>n. Inr (r, n))) of
        Inl e \<Rightarrow> (db, Inl e)
      | Inr (r, n) \<Rightarrow> read_only (\<lambda>db. rows_to_items
          (take (nat n) (sort_key dispatch_key
            (filter (\<lambda>w. run_id w = r \<and> state w = READY) (work_items db))))) db)"

definition get_dependencies :: "string \<Rightarrow> ledger \<Rightarrow> ledger \<times> (work_error + WorkDependency list)" where
  "get_dependencies i = read_only (\<lambda>db. rbind (load_item db i) (\<lambda>_. Inr (dependencies_of db i)))"

fun rows_to_attempts :: "WorkAttempt list \<Rightarrow> work_error + WorkAttempt list" where
  "rows_to_attempts [] = Inr []"
| "rows_to_attempts (r # rs) =
     rbind (raise_value (validate_outcome_shape r)) (\<lambda>a. rbind (rows_to_attempts rs) (\<lambda>as. Inr (a # as)))"

definition list_attempts :: "string \<Rightarrow> ledger \<Rightarrow> ledger \<times> (work_error + WorkAttempt list)" where
  "list_attempts i = read_only (\<lambda>db. rbind (load_item db i) (\<lambda>_. rows_to_attempts
     (sort_key attempt_number (filter (\<lambda>a. attempt_work_item_id a = i) (work_attempts db)))))"

section \<open>Claims\<close>

text \<open>\<open>now + timedelta(seconds=...)\<close>, in microseconds.\<close>

definition plus_seconds :: "time \<Rightarrow> int \<Rightarrow> time" where
  "plus_seconds now s = now + 1000000 * s"

text \<open>The \<open>PRIMARY KEY\<close> and \<open>UNIQUE\<close> constraints of \<open>work_attempts\<close>.\<close>

definition attempt_conflict :: "ledger \<Rightarrow> WorkAttempt \<Rightarrow> bool" where
  "attempt_conflict db a \<longleftrightarrow>
     list_ex (\<lambda>b. (attempt_work_item_id b = attempt_work_item_id a \<and> attempt_number b = attempt_number a)
       \<or> (attempt_work_item_id b = attempt_work_item_id a \<and> attempt_epoch b = attempt_epoch a)
       \<or> attempt_token b = attempt_token a) (work_attempts db)"

definition ready_candidates :: "string option \<Rightarrow> ledger \<Rightarrow> WorkItem list" where
  "ready_candidates target db =
     filter (\<lambda>w. state w = READY \<and> (case target of None \<Rightarrow> True | Some i \<Rightarrow> work_item_id w = i))
       (work_items db)"

definition claim_row ::
    "string \<Rightarrow> int \<Rightarrow> time \<Rightarrow> bool \<Rightarrow> string \<Rightarrow> WorkItem \<Rightarrow> ledger \<Rightarrow> WorkLeaseClaim option tx" where
  "claim_row worker duration now start_immediately token row db =
     (let i = work_item_id row;
          epoch = lease_epoch row + 1;
          att = attempt row + 1;
          expires = plus_seconds now duration;
          next_state = (if start_immediately then RUNNING else LEASED);
          p = (\<lambda>w. work_item_id w = i \<and> (state w = READY \<and> row_version w = row_version row));
          new = new_attempt i att epoch token worker now (if start_immediately then Some now else None)
      in
      if rowcount p (work_items db) \<noteq> 1
      then Inl (WorkStorageError ''atomic work claim lost its compare-and-swap'')
      else
        let db1 = upd_items p (row_claim next_state epoch token worker expires att now) db in
        if attempt_conflict db1 new then Inl (WorkConflictError ''SQLite rejected durable work'')
        else
          let db2 = db1\<lparr>work_attempts := work_attempts db1 @ [new]\<rparr> in
          rbind (load_item db2 i) (\<lambda>item.
          rbind (raise_value (validate_binding
              \<lparr>claimed_item = item,
               claimed_lease = \<lparr>lease_work_item_id = i, worker_id = worker, granted_epoch = epoch,
                 granted_token = token, granted_expires_at = expires\<rparr>\<rparr>)) (\<lambda>c.
            Inr (db2, Some c))))"

definition claim_in_transaction ::
    "string \<Rightarrow> int \<Rightarrow> string option \<Rightarrow> time \<Rightarrow> bool \<Rightarrow> string \<Rightarrow> ledger \<Rightarrow> WorkLeaseClaim option tx" where
  "claim_in_transaction worker duration target now start_immediately token db =
     rbind (maintain db now False) (\<lambda>(db1, n).
       case min_by dispatch_key (ready_candidates target db1) of
         None \<Rightarrow> Inr (db1, None)
       | Some row \<Rightarrow> claim_row worker duration now start_immediately token row db1)"

definition claim_with ::
    "bool \<Rightarrow> string \<Rightarrow> int \<Rightarrow> string option \<Rightarrow> time \<Rightarrow> string \<Rightarrow> ledger
      \<Rightarrow> ledger \<times> (work_error + WorkLeaseClaim option)" where
  "claim_with start_immediately worker duration target now token db =
     (case rbind (nonempty worker ''worker_id'') (\<lambda>wk.
           rbind (positive_int duration ''lease_duration_seconds'') (\<lambda>d.
           rbind (case target of None \<Rightarrow> Inr None
                  | Some i \<Rightarrow> rbind (nonempty i ''work_item_id'') (\<lambda>j. Inr (Some j))) (\<lambda>t.
             Inr (wk, d, t)))) of
        Inl e \<Rightarrow> (db, Inl e)
      | Inr (wk, d, t) \<Rightarrow> transaction (claim_in_transaction wk d t now start_immediately token) db)"

definition claim ::
    "string \<Rightarrow> int \<Rightarrow> string option \<Rightarrow> time \<Rightarrow> string \<Rightarrow> ledger
      \<Rightarrow> ledger \<times> (work_error + WorkLeaseClaim option)" where
  "claim = claim_with False"

definition claim_and_start ::
    "string \<Rightarrow> int \<Rightarrow> string option \<Rightarrow> time \<Rightarrow> string \<Rightarrow> ledger
      \<Rightarrow> ledger \<times> (work_error + WorkLeaseClaim option)" where
  "claim_and_start = claim_with True"

section \<open>Operations under a lease\<close>

text \<open>The disjunction of \<open>_require_lease\<close>, negated: the lease is the row's current one and live.\<close>

definition lease_current :: "WorkLease \<Rightarrow> time \<Rightarrow> WorkItem \<Rightarrow> bool" where
  "lease_current lease now item \<longleftrightarrow>
     state item \<in> {LEASED, RUNNING} \<and> lease_epoch item = granted_epoch lease
     \<and> fencing_token item = Some (granted_token lease) \<and> leased_by item = Some (worker_id lease)
     \<and> (case lease_expires_at item of None \<Rightarrow> False
        | Some t \<Rightarrow> t = granted_expires_at lease \<and> now < t)
     \<and> (case execution_expiry_at item of None \<Rightarrow> True | Some t \<Rightarrow> now < t)"

definition require_lease :: "ledger \<Rightarrow> WorkLease \<Rightarrow> time \<Rightarrow> work_error + WorkItem" where
  "require_lease db lease now =
     rbind (load_item db (lease_work_item_id lease)) (\<lambda>item.
       if \<not> lease_current lease now item
       then Inl (WorkFenceError ''work lease is stale, expired, or inactive'')
       else Inr item)"

text \<open>
  The \<open>try ... except WorkFenceError\<close> around the leased operations: a fenced caller makes the
  due state of its item durable in a transaction of its own before the error is re-raised.
\<close>

definition fenced_transaction ::
    "string \<Rightarrow> time \<Rightarrow> (ledger \<Rightarrow> 'a tx) \<Rightarrow> ledger \<Rightarrow> ledger \<times> (work_error + 'a)" where
  "fenced_transaction i now operation db =
     (case transaction operation db of
        (db1, Inl (WorkFenceError m)) \<Rightarrow>
          (case transaction (reconcile_exact_due_state i now) db1 of
             (db2, Inl e) \<Rightarrow> (db2, Inl e)
           | (db2, Inr n) \<Rightarrow> (db2, Inl (WorkFenceError m)))
      | (db1, r) \<Rightarrow> (db1, r))"

definition holds_lease :: "WorkLease \<Rightarrow> WorkItem \<Rightarrow> bool" where
  "holds_lease lease w \<longleftrightarrow>
     lease_epoch w = granted_epoch lease \<and> fencing_token w = Some (granted_token lease)"

definition start_in_transaction :: "WorkLease \<Rightarrow> time \<Rightarrow> ledger \<Rightarrow> WorkItem tx" where
  "start_in_transaction lease now db =
     rbind (require_lease db lease now) (\<lambda>item.
       if state item = RUNNING then Inr (db, item)
       else if state item \<noteq> LEASED then Inl (WorkStateError ''only leased work can start'')
       else
         let p = (\<lambda>w. work_item_id w = work_item_id item \<and> (state w = LEASED \<and> holds_lease lease w));
             q = (\<lambda>a. attempt_work_item_id a = work_item_id item \<and> attempt_number a = attempt item
                    \<and> outcome a = Attempt_ACTIVE)
         in
         if rowcount p (work_items db) \<noteq> 1
         then Inl (WorkFenceError ''work lease changed while starting'')
         else
           let db1 = upd_items p (row_start now) db in
           if rowcount q (work_attempts db1) \<noteq> 1
           then Inl (WorkStorageError ''active attempt is missing while starting'')
           else
             let db2 = upd_attempts q (attempt_start now) db1 in
             rbind (load_item db2 (work_item_id item)) (\<lambda>r. Inr (db2, r)))"

definition start :: "WorkLease \<Rightarrow> time \<Rightarrow> ledger \<Rightarrow> ledger \<times> (work_error + WorkItem)" where
  "start lease now =
     fenced_transaction (lease_work_item_id lease) now (start_in_transaction lease now)"

definition heartbeat_in_transaction :: "WorkLease \<Rightarrow> int \<Rightarrow> time \<Rightarrow> ledger \<Rightarrow> WorkLease tx" where
  "heartbeat_in_transaction lease duration now db =
     rbind (require_lease db lease now) (\<lambda>item.
       let expires = plus_seconds now duration;
           p = (\<lambda>w. work_item_id w = work_item_id item
                  \<and> (holds_lease lease w \<and> state w \<in> {LEASED, RUNNING}))
       in
       if rowcount p (work_items db) \<noteq> 1
       then Inl (WorkFenceError ''work lease changed while renewing'')
       else Inr (upd_items p (row_heartbeat expires now) db,
         \<lparr>lease_work_item_id = work_item_id item, worker_id = worker_id lease,
          granted_epoch = granted_epoch lease, granted_token = granted_token lease,
          granted_expires_at = expires\<rparr>))"

definition heartbeat :: "WorkLease \<Rightarrow> int \<Rightarrow> time \<Rightarrow> ledger \<Rightarrow> ledger \<times> (work_error + WorkLease)" where
  "heartbeat lease duration now db =
     (case positive_int duration ''lease_duration_seconds'' of
        Inl e \<Rightarrow> (db, Inl e)
      | Inr d \<Rightarrow> fenced_transaction (lease_work_item_id lease) now
          (heartbeat_in_transaction lease d now) db)"

definition check_result :: "string option \<Rightarrow> string option \<Rightarrow> work_error + unit" where
  "check_result reference digest =
     (if (reference = None) \<noteq> (digest = None)
      then Inl (WorkValueError ''result reference and digest must be supplied together'')
      else case (reference, digest) of
        (Some r, Some s) \<Rightarrow> rbind (nonempty r ''result_reference'') (\<lambda>_.
          if is_sha256 s then Inr ()
          else Inl (WorkValueError ''result_sha256 must be a lowercase SHA-256 digest''))
      | _ \<Rightarrow> Inr ())"

definition succeed_in_transaction ::
    "WorkLease \<Rightarrow> string option \<Rightarrow> string option \<Rightarrow> time \<Rightarrow> ledger \<Rightarrow> WorkItem tx" where
  "succeed_in_transaction lease reference digest now db =
     rbind (require_lease db lease now) (\<lambda>item.
       if state item \<noteq> RUNNING then Inl (WorkStateError ''only running work can succeed'')
       else
         rbind (finish_attempt db item Attempt_SUCCEEDED now None None) (\<lambda>db1.
         rbind (set_terminal db1 item SUCCEEDED now None None reference digest False) (\<lambda>db2.
         rbind (refresh_downstream_for_upstreams db2 now [work_item_id item]) (\<lambda>(db3, n).
         rbind (maintain db3 now False) (\<lambda>(db4, m).
         rbind (load_item db4 (work_item_id item)) (\<lambda>r. Inr (db4, r)))))))"

definition succeed ::
    "WorkLease \<Rightarrow> string option \<Rightarrow> string option \<Rightarrow> time \<Rightarrow> ledger \<Rightarrow> ledger \<times> (work_error + WorkItem)" where
  "succeed lease reference digest now db =
     (case check_result reference digest of
        Inl e \<Rightarrow> (db, Inl e)
      | Inr _ \<Rightarrow> fenced_transaction (lease_work_item_id lease) now
          (succeed_in_transaction lease reference digest now) db)"

definition will_retry :: "WorkItem \<Rightarrow> bool \<Rightarrow> time \<Rightarrow> bool" where
  "will_retry item retryable retry_at \<longleftrightarrow>
     retryable \<and> attempt item < max_attempts item
     \<and> (case execution_expiry_at item of None \<Rightarrow> True | Some t \<Rightarrow> retry_at < t)"

definition fail_in_transaction ::
    "WorkLease \<Rightarrow> string \<Rightarrow> bool \<Rightarrow> string option \<Rightarrow> int \<Rightarrow> time \<Rightarrow> ledger \<Rightarrow> WorkItem tx" where
  "fail_in_transaction lease code retryable detail delay now db =
     rbind (require_lease db lease now) (\<lambda>item.
       let retry_at = plus_seconds now delay;
           again = will_retry item retryable retry_at
       in
       rbind (finish_attempt db item
           (if again then Attempt_FAILED_RETRYABLE else Attempt_FAILED_PERMANENT) now (Some code) detail) (\<lambda>db1.
       if again
       then
         let p = (\<lambda>w. work_item_id w = work_item_id item
                    \<and> (holds_lease lease w \<and> state w \<in> {LEASED, RUNNING})) in
         if rowcount p (work_items db1) \<noteq> 1
         then Inl (WorkFenceError ''work lease changed while recording retry'')
         else
           let db2 = upd_items p (row_retry_wait retry_at now) db1 in
           rbind (load_item db2 (work_item_id item)) (\<lambda>r. Inr (db2, r))
       else
         rbind (set_terminal db1 item FAILED_PERMANENT now (Some code) detail None None False) (\<lambda>db2.
         rbind (refresh_downstream_for_upstreams db2 now [work_item_id item]) (\<lambda>(db3, n).
         rbind (maintain db3 now False) (\<lambda>(db4, m).
         rbind (load_item db4 (work_item_id item)) (\<lambda>r. Inr (db4, r)))))))"

definition check_reason :: "string \<Rightarrow> string option \<Rightarrow> string \<Rightarrow> string \<Rightarrow> work_error + (string \<times> string option)"
  where "check_reason code detail code_field detail_field =
     rbind (nonempty code code_field) (\<lambda>c.
     rbind (case detail of None \<Rightarrow> Inr None
            | Some d \<Rightarrow> rbind (nonempty d detail_field) (\<lambda>e. Inr (Some e))) (\<lambda>d. Inr (c, d)))"

definition fail ::
    "WorkLease \<Rightarrow> string \<Rightarrow> bool \<Rightarrow> string option \<Rightarrow> int \<Rightarrow> time \<Rightarrow> ledger \<Rightarrow> ledger \<times> (work_error + WorkItem)"
  where "fail lease code retryable detail delay now db =
     (case rbind (check_reason code detail ''error_code'' ''error_detail'') (\<lambda>(c, d).
           rbind (nonnegative_int delay ''retry_delay_seconds'') (\<lambda>s. Inr (c, d, s))) of
        Inl e \<Rightarrow> (db, Inl e)
      | Inr (c, d, s) \<Rightarrow> fenced_transaction (lease_work_item_id lease) now
          (fail_in_transaction lease c retryable d s now) db)"

section \<open>Forced terminal states\<close>

definition terminal_in_transaction ::
    "string \<Rightarrow> WorkItemState \<Rightarrow> WorkAttemptOutcome \<Rightarrow> string \<Rightarrow> string option \<Rightarrow> bool \<Rightarrow> time
      \<Rightarrow> ledger \<Rightarrow> WorkItem tx" where
  "terminal_in_transaction i st oc code detail cancel now db =
     rbind (expire_hard_deadlines db now (Some i)) (\<lambda>(db1, n1).
     rbind (recover_expired_leases db1 now (Some i)) (\<lambda>(db2, n2).
     rbind (load_item db2 i) (\<lambda>item.
       if state item = st then Inr (db2, item)
       else if state item \<in> TERMINAL_WORK_STATES
       then Inl (WorkStateError ''cannot move terminal work to another terminal state'')
       else
         rbind (if state item \<in> {LEASED, RUNNING}
                then finish_attempt db2 item oc now (Some code) detail else Inr db2) (\<lambda>db3.
         rbind (set_terminal db3 item st now (Some code) detail None None cancel) (\<lambda>db4.
         rbind (refresh_downstream_for_upstreams db4 now [work_item_id item]) (\<lambda>(db5, n).
         rbind (maintain db5 now False) (\<lambda>(db6, m).
         rbind (load_item db6 i) (\<lambda>r. Inr (db6, r)))))))))"

definition direct_terminal ::
    "string \<Rightarrow> WorkItemState \<Rightarrow> WorkAttemptOutcome \<Rightarrow> string \<Rightarrow> string option \<Rightarrow> bool \<Rightarrow> time
      \<Rightarrow> ledger \<Rightarrow> ledger \<times> (work_error + WorkItem)" where
  "direct_terminal i st oc code detail cancel now db =
     (case check_reason code detail ''reason_code'' ''reason_detail'' of
        Inl e \<Rightarrow> (db, Inl e)
      | Inr (c, d) \<Rightarrow> transaction (terminal_in_transaction i st oc c d cancel now) db)"

definition cancel ::
    "string \<Rightarrow> string \<Rightarrow> string option \<Rightarrow> time \<Rightarrow> ledger \<Rightarrow> ledger \<times> (work_error + WorkItem)" where
  "cancel i code detail now = direct_terminal i CANCELLED Attempt_CANCELLED code detail True now"

definition skip ::
    "string \<Rightarrow> WorkItemState \<Rightarrow> string \<Rightarrow> string option \<Rightarrow> time \<Rightarrow> ledger
      \<Rightarrow> ledger \<times> (work_error + WorkItem)" where
  "skip i st code detail now db =
     (if st \<notin> {SKIPPED_POLICY, SKIPPED_NOT_NEEDED}
      then (db, Inl (WorkValueError ''skip state must be SKIPPED_POLICY or SKIPPED_NOT_NEEDED''))
      else direct_terminal i st Attempt_SKIPPED code detail False now db)"

definition invalidate ::
    "string \<Rightarrow> string \<Rightarrow> string option \<Rightarrow> time \<Rightarrow> ledger \<Rightarrow> ledger \<times> (work_error + WorkItem)" where
  "invalidate i code detail now = direct_terminal i INVALIDATED Attempt_INVALIDATED code detail False now"

section \<open>Commands\<close>

text \<open>
  One command per call of the scheduler that can change the ledger, and the ledger it leaves
  whether the call returns or raises.
\<close>

datatype command =
    Plan WorkItemPlan "WorkDependency list"
  | Plan_many "(WorkItemPlan \<times> WorkDependency list) list"
  | Reconcile time
  | Claim bool string int "string option" time string
  | Start WorkLease time
  | Heartbeat WorkLease int time
  | Succeed WorkLease "string option" "string option" time
  | Fail WorkLease string bool "string option" int time
  | Cancel string string "string option" time
  | Skip string WorkItemState string "string option" time
  | Invalidate string string "string option" time

fun run_command :: "command \<Rightarrow> ledger \<Rightarrow> ledger" where
  "run_command (Plan p ds) db = fst (plan_op p ds db)"
| "run_command (Plan_many ps) db = fst (plan_many ps db)"
| "run_command (Reconcile now) db = fst (reconcile now db)"
| "run_command (Claim s worker d target now token) db = fst (claim_with s worker d target now token db)"
| "run_command (Start lease now) db = fst (start lease now db)"
| "run_command (Heartbeat lease d now) db = fst (heartbeat lease d now db)"
| "run_command (Succeed lease r s now) db = fst (succeed lease r s now db)"
| "run_command (Fail lease code retryable detail delay now) db = fst (fail lease code retryable detail delay now db)"
| "run_command (Cancel i code detail now) db = fst (cancel i code detail now db)"
| "run_command (Skip i st code detail now) db = fst (skip i st code detail now db)"
| "run_command (Invalidate i code detail now) db = fst (invalidate i code detail now db)"

definition run_commands :: "command list \<Rightarrow> ledger \<Rightarrow> ledger" where
  "run_commands cs db = fold run_command cs db"

end
