(* ===== verification/Work_Invariant.thy ===== *)
theory Work_Invariant
  imports Work_Lifecycle
begin

text \<open>
  Every step of the lifecycle keeps the ledger well-formed, never changes a terminal row,
  never lowers a lease epoch and never rewrites a finished attempt. The lemmas group the
  steps by what they write: rows in place, a row together with the attempt it finishes, a
  claim that opens an attempt, an insertion.
\<close>

section \<open>Well-formedness is preserved\<close>

lemma upd_items_map: "work_items (upd_items p f db) = map (\<lambda>w. if p w then f w else w) (work_items db)"
  by (simp add: update_where_def)

lemma wf_upd_items:
  assumes wf: "wf_ledger db" and keep: "keeps_plan f"
    and rows: "\<And>w. w \<in> set (work_items db) \<Longrightarrow> p w \<Longrightarrow> \<not> terminal_state (state w)
      \<and> shape_ok (f w) \<and> budget_ok (f w)
      \<and> leased_state (state (f w)) = leased_state (state w) \<and> attempt (f w) = attempt w
      \<and> lease_epoch (f w) = lease_epoch w \<and> fencing_token (f w) = fencing_token w
      \<and> (live_state (state (f w)) \<longrightarrow> live_state (state w) \<or> deps_settled db (work_item_id w))"
  shows "wf_ledger (upd_items p f db)"
proof -
  let ?g = "\<lambda>w. if p w then f w else w" and ?db = "upd_items p f db"
  note m = upd_items_map [of p f db] and k = keeps_plan_if [OF keep, of p]
  note parts = wf_ledgerD(1-4) [OF wf]
  have "wf_items ?db"
    by (rule wf_items_map [OF parts(1) m k]) (use rows parts(1) in \<open>auto simp: wf_items_def\<close>)
  moreover have "wf_deps ?db" by (rule wf_deps_map [OF parts(2) m k]) simp
  moreover have "wf_settled ?db"
    by (rule wf_settled_map [OF parts(3) m k]) (use rows in \<open>auto split: if_splits\<close>)
  moreover have "wf_attempts ?db"
    by (rule wf_attempts_map [OF parts(4) m k, where h = "\<lambda>a. a"])
      (use rows in \<open>auto simp: same_attempt_refl\<close>)
  ultimately show ?thesis by (simp add: wf_ledger_def)
qed

lemma wf_upd_item:
  assumes wf: "wf_ledger db" and keep: "keeps_plan f" and i: "item_of db i = Some w"
    and row: "\<not> terminal_state (state w)" "shape_ok (f w)" "budget_ok (f w)"
      "leased_state (state (f w)) = leased_state (state w)" "attempt (f w) = attempt w"
      "lease_epoch (f w) = lease_epoch w" "fencing_token (f w) = fencing_token w"
      "live_state (state (f w)) \<Longrightarrow> live_state (state w) \<or> deps_settled db i"
  shows "wf_ledger (upd_item i f db)"
proof (rule wf_upd_items [OF wf keep])
  fix v
  assume v: "v \<in> set (work_items db)" "work_item_id v = i"
  have "v = w" using item_of_mem [OF wf_ledgerD(5) [OF wf] v(1)] v(2) i by simp
  with row v(2) show "\<not> terminal_state (state v) \<and> shape_ok (f v) \<and> budget_ok (f v)
      \<and> leased_state (state (f v)) = leased_state (state v) \<and> attempt (f v) = attempt v
      \<and> lease_epoch (f v) = lease_epoch v \<and> fencing_token (f v) = fencing_token v
      \<and> (live_state (state (f v)) \<longrightarrow> live_state (state v) \<or> deps_settled db (work_item_id v))"
    by auto
qed

text \<open>An item that stops being leased while its active attempt is finished.\<close>

lemma wf_attempts_finish:
  fixes now :: time and code detail :: "string option"
  assumes wf: "wf_ledger db" and keep: "keeps_plan f" and i: "item_of db i = Some w"
    and leased: "leased_state (state w)" and oc: "oc \<noteq> Attempt_ACTIVE"
    and row: "\<not> leased_state (state (f w))" "attempt (f w) = attempt w"
  defines "db' \<equiv> upd_item i f (upd_attempts (attempt_matches w) (attempt_finish oc now code detail) db)"
  shows "wf_attempts db'"
proof -
  let ?h = "\<lambda>a. if attempt_matches w a then attempt_finish oc now code detail a else a"
  let ?g = "\<lambda>v. if work_item_id v = i then f v else v"
  have items: "work_items db' = map ?g (work_items db)"
    by (simp add: db'_def update_where_def)
  have k: "keeps_plan ?g" using keeps_plan_if [OF keep, of "\<lambda>v. work_item_id v = i"] .
  have att: "work_attempts db' = map ?h (work_attempts db)" by (simp add: db'_def update_where_def)
  have wfa: "wf_attempts db" and ids: "distinct (map work_item_id (work_items db))"
    using wf_ledgerD [OF wf] by auto
  have wi: "work_item_id w = i" by (rule item_of_id [OF i])
  have only: "v = w" if "v \<in> set (work_items db)" "work_item_id v = i" for v
    using item_of_mem [OF ids that(1)] that(2) i by simp
  have h: "attempt_key (?h a) = attempt_key a" "attempt_token (?h a) = attempt_token a"
    "attempt_work_item_id (?h a) = attempt_work_item_id a" "attempt_number (?h a) = attempt_number a"
    "attempt_epoch (?h a) = attempt_epoch a" for a
    by (simp_all add: attempt_finish_def attempt_key_def)
  have comp: "attempt_key \<circ> ?h = attempt_key" "attempt_token \<circ> ?h = attempt_token"
    using h by (simp_all add: fun_eq_iff)
  have "\<exists>v. item_of db' (attempt_work_item_id (?h a)) = Some v
      \<and> 1 \<le> attempt_number (?h a) \<and> attempt_number (?h a) \<le> attempt v
      \<and> attempt_epoch (?h a) = attempt_number (?h a)
      \<and> (outcome (?h a) = Attempt_ACTIVE \<longrightarrow> leased_state (state v) \<and> attempt_matches v (?h a))"
    if a: "a \<in> set (work_attempts db)" for a
  proof -
    obtain v where v: "item_of db (attempt_work_item_id a) = Some v" "1 \<le> attempt_number a"
      "attempt_number a \<le> attempt v" "attempt_epoch a = attempt_number a"
      "outcome a = Attempt_ACTIVE \<longrightarrow> leased_state (state v) \<and> attempt_matches v a"
      using wfa a by (auto simp: wf_attempts_def)
    have item: "item_of db' (attempt_work_item_id (?h a)) = Some (?g v)"
      using v(1) h by (simp add: item_of_map [OF items k])
    have att_same: "attempt (?g v) = attempt v"
      using row(2) only [OF item_of_in [OF v(1)]] by auto
    have active: "leased_state (state (?g v)) \<and> attempt_matches (?g v) (?h a)"
      if act: "outcome (?h a) = Attempt_ACTIVE"
    proof -
      have nm: "\<not> attempt_matches w a" using act oc by (auto simp: attempt_finish_def)
      then have m: "leased_state (state v)" "attempt_matches v a" using act v(5) by simp_all
      then have "v \<noteq> w" using nm by auto
      then have "work_item_id v \<noteq> i" using only [OF item_of_in [OF v(1)]] by auto
      with m nm show ?thesis by simp
    qed
    show ?thesis using item v(2-4) att_same active h by auto
  qed
  moreover have "\<exists>a \<in> set (work_attempts db). attempt_matches (?g v) (?h a)"
    if v: "v \<in> set (work_items db)" "leased_state (state (?g v))" for v
  proof -
    have ne: "work_item_id v \<noteq> i" using only [OF v(1)] row(1) v(2) by auto
    then obtain a where a: "a \<in> set (work_attempts db)" "attempt_matches v a"
      using wfa v by (auto simp: wf_attempts_def)
    have "\<not> attempt_matches w a" using a(2) ne wi by (auto simp: attempt_matches_def)
    with a ne show ?thesis by auto
  qed
  ultimately show ?thesis by (rule wf_attempts_mapI [OF wfa items att comp])
qed

text \<open>The parts of the invariant that do not mention attempts, for a step on one row.\<close>

lemma wf_rows_single:
  assumes wf: "wf_ledger db" and keep: "keeps_plan f" and i: "item_of db i = Some w"
    and items: "work_items db' = map (\<lambda>v. if work_item_id v = i then f v else v) (work_items db)"
    and deps: "work_dependencies db' = work_dependencies db"
    and row: "\<not> terminal_state (state w)" "shape_ok (f w)" "budget_ok (f w)"
      "live_state (state (f w)) \<Longrightarrow> live_state (state w) \<or> deps_settled db i"
  shows "wf_items db'" and "wf_deps db'" and "wf_settled db'"
proof -
  let ?g = "\<lambda>v. if work_item_id v = i then f v else v"
  have k: "keeps_plan ?g" using keeps_plan_if [OF keep, of "\<lambda>v. work_item_id v = i"] .
  note parts = wf_ledgerD [OF wf]
  have only: "v = w" if "v \<in> set (work_items db)" "work_item_id v = i" for v
    using item_of_mem [OF parts(5) that(1)] that(2) i by simp
  show "wf_items db'"
  proof (rule wf_items_map [OF parts(1) items k])
    fix v assume "v \<in> set (work_items db)"
    then show "shape_ok (?g v) \<and> budget_ok (?g v)"
      using only [of v] row(2,3) parts(1) by (auto simp: wf_items_def)
  qed
  show "wf_deps db'" by (rule wf_deps_map [OF parts(2) items k deps])
  show "wf_settled db'"
  proof (rule wf_settled_map [OF parts(3) items k deps])
    fix v assume v: "v \<in> set (work_items db)"
    show "?g v = v" if "terminal_state (state v)" using only [OF v] that row(1) by auto
    show "live_state (state v) \<or> deps_settled db (work_item_id v)" if "live_state (state (?g v))"
      using only [OF v] that row(4) by (auto split: if_splits)
  qed
qed

lemma leased_live: "leased_state st \<Longrightarrow> live_state st"
  by (auto simp: leased_state_def live_state_def)

lemma wf_finish:
  assumes wf: "wf_ledger db" and keep: "keeps_plan f" and i: "item_of db i = Some w"
    and leased: "leased_state (state w)" and oc: "oc \<noteq> Attempt_ACTIVE"
    and row: "\<not> leased_state (state (f w))" "attempt (f w) = attempt w" "shape_ok (f w)" "budget_ok (f w)"
  shows "wf_ledger (upd_item i f (upd_attempts (attempt_matches w) (attempt_finish oc now code detail) db))"
    (is "wf_ledger ?db")
proof -
  have items: "work_items ?db = map (\<lambda>v. if work_item_id v = i then f v else v) (work_items db)"
    by (simp add: update_where_def)
  have nt: "\<not> terminal_state (state w)" using leased terminal_not_leased by blast
  have "wf_items ?db" "wf_deps ?db" "wf_settled ?db"
    by (rule wf_rows_single [OF wf keep i items _ nt row(3,4)]; simp add: leased_live [OF leased])+
  moreover have "wf_attempts ?db" by (rule wf_attempts_finish [OF wf keep i leased oc row(1,2)])
  ultimately show ?thesis by (simp add: wf_ledger_def)
qed

text \<open>A claim opens a new attempt for a row that had none active.\<close>

lemma row_claim_sel [simp]:
  "state (row_claim st e t k x n now w) = st" "attempt (row_claim st e t k x n now w) = n"
  "lease_epoch (row_claim st e t k x n now w) = e" "fencing_token (row_claim st e t k x n now w) = Some t"
  by (simp_all add: row_claim_def)

lemma wf_claim_attempts:
  fixes worker :: string and expires now :: time and started :: "time option"
  assumes wf: "wf_ledger db" and i: "item_of db i = Some w" and ready: "state w = READY"
    and st: "leased_state st" and fresh: "\<forall>a \<in> set (work_attempts db). attempt_token a \<noteq> token"
  defines "f \<equiv> row_claim st (lease_epoch w + 1) token worker expires (attempt w + 1) now"
  defines "a0 \<equiv> new_attempt i (attempt w + 1) (lease_epoch w + 1) token worker now started"
  defines "db' \<equiv> (upd_item i f db)\<lparr>work_attempts := work_attempts db @ [a0]\<rparr>"
  shows "wf_attempts db'"
proof -
  let ?g = "\<lambda>v. if work_item_id v = i then f v else v"
  note parts = wf_ledgerD [OF wf]
  have items: "work_items db' = map ?g (work_items db)" by (simp add: db'_def update_where_def)
  have k: "keeps_plan ?g"
    using keeps_plan_if [of f "\<lambda>v. work_item_id v = i"] by (simp add: f_def)
  have wi: "work_item_id w = i" by (rule item_of_id [OF i])
  have epoch: "lease_epoch w = attempt w" using wf_row(2) [OF parts(1) i] by (simp add: budget_ok_def)
  have att: "work_attempts db' = work_attempts db @ [a0]" by (simp add: db'_def)
  have item': "item_of db' j = map_option ?g (item_of db j)" for j by (rule item_of_map [OF items k])
  have a0: "attempt_matches (f w) a0"
    by (simp add: attempt_matches_def f_def a0_def new_attempt_def wi)
  have old: "\<exists>v. item_of db' (attempt_work_item_id a) = Some v \<and> 1 \<le> attempt_number a
      \<and> attempt_number a \<le> attempt v \<and> attempt_epoch a = attempt_number a
      \<and> (outcome a = Attempt_ACTIVE \<longrightarrow> leased_state (state v) \<and> attempt_matches v a)"
    and key: "attempt_key a \<noteq> attempt_key a0"
    if a: "a \<in> set (work_attempts db)" for a
  proof -
    obtain v where v: "item_of db (attempt_work_item_id a) = Some v" "1 \<le> attempt_number a"
      "attempt_number a \<le> attempt v" "attempt_epoch a = attempt_number a"
      "outcome a = Attempt_ACTIVE \<longrightarrow> leased_state (state v) \<and> attempt_matches v a"
      using parts(4) a by (auto simp: wf_attempts_def)
    have vi: "work_item_id v = attempt_work_item_id a" by (rule item_of_id [OF v(1)])
    show "attempt_key a \<noteq> attempt_key a0"
      using v(1,3) i by (auto simp: attempt_key_def a0_def new_attempt_def)
    show "\<exists>v. item_of db' (attempt_work_item_id a) = Some v \<and> 1 \<le> attempt_number a
      \<and> attempt_number a \<le> attempt v \<and> attempt_epoch a = attempt_number a
      \<and> (outcome a = Attempt_ACTIVE \<longrightarrow> leased_state (state v) \<and> attempt_matches v a)"
    proof (cases "attempt_work_item_id a = i")
      case True
      with v(1) i have "v = w" by simp
      with v(3,5) ready have "outcome a \<noteq> Attempt_ACTIVE" "attempt_number a \<le> attempt (f w)"
        by (auto simp: f_def)
      with True i wi v(2,4) show ?thesis by (simp add: item')
    next
      case False
      with v vi show ?thesis by (simp add: item')
    qed
  qed
  have new: "item_of db' (attempt_work_item_id a0) = Some (f w) \<and> 1 \<le> attempt_number a0
      \<and> attempt_number a0 \<le> attempt (f w) \<and> attempt_epoch a0 = attempt_number a0
      \<and> leased_state (state (f w))"
    using i wi st epoch by (simp add: item' a0_def new_attempt_def f_def)
  have leased: "\<exists>a \<in> set (work_attempts db'). attempt_matches (?g v) a"
    if v: "v \<in> set (work_items db)" "leased_state (state (?g v))" for v
  proof (cases "work_item_id v = i")
    case True
    then have "v = w" using item_of_mem [OF parts(5) v(1)] i by simp
    with True a0 att show ?thesis by auto
  next
    case False
    with v parts(4) att show ?thesis by (auto simp: wf_attempts_def)
  qed
  have "distinct (map attempt_key (work_attempts db'))" "distinct (map attempt_token (work_attempts db'))"
    using parts(4) key fresh att
    by (fastforce simp: wf_attempts_def a0_def new_attempt_def)+
  moreover have "\<exists>v. item_of db' (attempt_work_item_id a) = Some v \<and> 1 \<le> attempt_number a
      \<and> attempt_number a \<le> attempt v \<and> attempt_epoch a = attempt_number a
      \<and> (outcome a = Attempt_ACTIVE \<longrightarrow> leased_state (state v) \<and> attempt_matches v a)"
    if "a \<in> set (work_attempts db')" for a
    using that old [of a] new a0 att by auto
  moreover have "\<exists>a \<in> set (work_attempts db'). attempt_matches v a"
    if v: "v \<in> set (work_items db')" "leased_state (state v)" for v
  proof -
    from v(1) obtain u where "u \<in> set (work_items db)" "v = ?g u" unfolding items set_map by blast
    with leased v(2) show ?thesis by blast
  qed
  ultimately show ?thesis unfolding wf_attempts_def by blast
qed

lemma wf_claim:
  assumes wf: "wf_ledger db" and i: "item_of db i = Some w" and ready: "state w = READY"
    and st: "leased_state st" and fresh: "\<forall>a \<in> set (work_attempts db). attempt_token a \<noteq> token"
  shows "wf_ledger ((upd_item i (row_claim st (lease_epoch w + 1) token worker expires (attempt w + 1) now) db)
    \<lparr>work_attempts := work_attempts db @
       [new_attempt i (attempt w + 1) (lease_epoch w + 1) token worker now started]\<rparr>)"
    (is "wf_ledger ?db")
proof -
  let ?f = "row_claim st (lease_epoch w + 1) token worker expires (attempt w + 1) now"
  have items: "work_items ?db = map (\<lambda>v. if work_item_id v = i then ?f v else v) (work_items db)"
    by (simp add: update_where_def)
  have shape: "shape_ok w" and budget: "budget_ok w"
    using wf_row [OF wf_ledgerD(1) [OF wf] i] by auto
  have "st = LEASED \<or> st = RUNNING" using st by (auto simp: leased_state_def)
  then have row: "shape_ok (?f w)" "budget_ok (?f w)"
    using shape budget ready by (auto simp: shape_ok_def budget_ok_def row_claim_def)
  have nt: "\<not> terminal_state (state w)" and live: "live_state (state w)"
    using ready by (auto simp: live_state_def)
  have "wf_items ?db" "wf_deps ?db" "wf_settled ?db"
    by (rule wf_rows_single [OF wf _ i items _ nt row]; simp add: live)+
  moreover have "wf_attempts ?db" by (rule wf_claim_attempts [OF wf i ready st fresh])
  ultimately show ?thesis by (simp add: wf_ledger_def)
qed

text \<open>Writing the start time of attempts changes nothing the invariant mentions.\<close>

lemma wf_attempt_start:
  assumes "wf_ledger db"
  shows "wf_ledger (upd_attempts q (attempt_start now) db)"
proof -
  have id: "work_items (upd_attempts q (attempt_start now) db) = map (\<lambda>w. w) (work_items db)" by simp
  have k: "keeps_plan (\<lambda>w. w)" by (simp add: keeps_plan_def)
  note parts = wf_ledgerD(1-4) [OF assms]
  have "wf_attempts (upd_attempts q (attempt_start now) db)"
    by (rule wf_attempts_map [OF parts(4) id k, where h = "\<lambda>a. if q a then attempt_start now a else a"])
      (auto simp: update_where_def same_attempt_def attempt_start_def attempt_key_def)
  moreover have "wf_items (upd_attempts q (attempt_start now) db)"
    using parts(1) by (simp add: wf_items_def)
  moreover have "wf_deps (upd_attempts q (attempt_start now) db)"
    by (rule wf_deps_map [OF parts(2) id k]) simp
  moreover have "wf_settled (upd_attempts q (attempt_start now) db)"
    using parts(3) by (auto simp: wf_settled_def deps_settled_def)
  ultimately show ?thesis by (simp add: wf_ledger_def)
qed

text \<open>A planned row is fresh, and nothing depends on it yet.\<close>

lemma item_of_append:
  "item_of (db\<lparr>work_items := work_items db @ [w], work_dependencies := ds\<rparr>) j =
    (case item_of db j of Some v \<Rightarrow> Some v | None \<Rightarrow> if work_item_id w = j then Some w else None)"
proof -
  have "find_row p (xs @ [w]) = (case find_row p xs of Some v \<Rightarrow> Some v | None \<Rightarrow> if p w then Some w else None)"
    for p :: "WorkItem \<Rightarrow> bool" and xs
    by (induction xs) (auto simp: find_row_def)
  then show ?thesis by (simp add: item_of_def)
qed

lemma wf_insert:
  assumes wf: "wf_ledger db"
    and fresh: "\<forall>v \<in> set (work_items db). work_item_id v \<noteq> work_item_id p
      \<and> work_logical_key v \<noteq> work_logical_key p"
    and budget: "1 \<le> max_attempts p"
    and deps: "\<forall>d \<in> set ds. downstream_work_item_id d = work_item_id p
      \<and> (\<exists>u. item_of db (upstream_work_item_id d) = Some u \<and> run_id u = run_id p)"
    and uniq: "distinct (map dependency_id (work_dependencies db @ ds))"
  shows "wf_ledger (db\<lparr>work_items := work_items db @ [planned_row p],
    work_dependencies := work_dependencies db @ ds\<rparr>)" (is "wf_ledger ?db")
proof -
  note parts = wf_ledgerD [OF wf]
  have item': "item_of ?db j = (case item_of db j of Some v \<Rightarrow> Some v
      | None \<Rightarrow> if work_item_id p = j then Some (planned_row p) else None)" for j
    by (simp add: item_of_append)
  have none: "item_of db (work_item_id p) = None"
    using fresh by (auto simp: item_of_def)
  have keep: "item_of ?db j = Some w" if "item_of db j = Some w" for j w using that item' by simp
  have self: "item_of ?db (work_item_id p) = Some (planned_row p)" using none item' by simp
  have "shape_ok (planned_row p)" "budget_ok (planned_row p)"
    using budget by (simp_all add: shape_ok_def budget_ok_def)
  then have "wf_items ?db" using parts(1) fresh by (auto simp: wf_items_def)
  moreover have "wf_deps ?db"
    using parts(2) deps uniq keep self
    by (fastforce simp: wf_deps_def)
  moreover have "deps_settled ?db i" if "deps_settled db i" "i \<noteq> work_item_id p" for i
    unfolding deps_settled_def
  proof (intro ballI impI)
    fix d assume d: "d \<in> set (work_dependencies ?db)" "downstream_work_item_id d = i"
    with deps that(2) have "d \<in> set (work_dependencies db)" by auto
    with that(1) d(2) keep
    show "\<exists>u. item_of ?db (upstream_work_item_id d) = Some u \<and> terminal_state (state u)
        \<and> (criticality d = REQUIRED \<longrightarrow> state u \<in> SUCCESSFUL_DEPENDENCY_STATES)"
      by (fastforce simp: deps_settled_def)
  qed
  then have "wf_settled ?db"
    using parts(3) fresh by (auto simp: wf_settled_def live_state_def)
  moreover have "wf_attempts ?db"
    using parts(4) keep by (fastforce simp: wf_attempts_def)
  ultimately show ?thesis by (simp add: wf_ledger_def)
qed

section \<open>Every step\<close>

theorem lstep_wf:
  assumes "lstep db db'" and "wf_ledger db"
  shows "wf_ledger db'"
  using assms
proof (cases rule: lstep.cases)
  case (insert_plan p ds)
  then show ?thesis using wf_insert [OF assms(2)] by blast
next
  case (advance i w now)
  have r: "shape_ok w" "budget_ok w" using wf_row [OF wf_ledgerD(1) [OF assms(2)]] advance by auto
  show ?thesis unfolding advance(1)
    by (rule wf_upd_item [OF assms(2) _ advance(2)])
      (use r advance in \<open>auto simp: row_ready_def shape_ok_def budget_ok_def\<close>)
next
  case (idle_terminal i w st code now detail cancel)
  have r: "shape_ok w" "budget_ok w" using wf_row [OF wf_ledgerD(1) [OF assms(2)]] idle_terminal by auto
  have nl: "\<not> leased_state st" using idle_terminal terminal_not_leased by blast
  have b: "st \<notin> {PLANNED, READY, RETRY_WAIT}" using idle_terminal by auto
  show ?thesis unfolding idle_terminal(1)
    by (rule wf_upd_item [OF assms(2) _ idle_terminal(2)])
      (use r idle_terminal nl b in \<open>auto simp: row_terminal_def shape_ok_def budget_ok_def live_state_def\<close>)
next
  case (leased_terminal i w st oc ref sha code detail now cancel code' detail')
  have r: "shape_ok w" "budget_ok w" using wf_row [OF wf_ledgerD(1) [OF assms(2)]] leased_terminal by auto
  have nl: "\<not> leased_state st" using leased_terminal terminal_not_leased by blast
  have b: "st \<notin> {PLANNED, READY, RETRY_WAIT}" using leased_terminal by auto
  show ?thesis unfolding leased_terminal(1)
    by (rule wf_finish [OF assms(2) _ leased_terminal(2,3,5)])
      (use r leased_terminal nl b in \<open>auto simp: row_terminal_def shape_ok_def budget_ok_def\<close>)
next
  case (claim_ready i w st token worker now started expires)
  then show ?thesis using wf_claim [OF assms(2)] by blast
next
  case (start_leased i w now)
  have r: "shape_ok w" "budget_ok w" using wf_row [OF wf_ledgerD(1) [OF assms(2)]] start_leased by auto
  have "wf_ledger (upd_item i (row_start now) db)"
    by (rule wf_upd_item [OF assms(2) _ start_leased(2)])
      (use r start_leased in \<open>auto simp: row_start_def shape_ok_def budget_ok_def live_state_def\<close>)
  then show ?thesis unfolding start_leased(1) by (rule wf_attempt_start)
next
  case (heartbeat_leased i w expires now)
  have r: "shape_ok w" "budget_ok w" using wf_row [OF wf_ledgerD(1) [OF assms(2)]] heartbeat_leased by auto
  have nt: "\<not> terminal_state (state w)" using heartbeat_leased terminal_not_leased by blast
  show ?thesis unfolding heartbeat_leased(1)
    by (rule wf_upd_item [OF assms(2) _ heartbeat_leased(2)])
      (use r heartbeat_leased nt leased_live in \<open>auto simp: row_heartbeat_def shape_ok_def budget_ok_def\<close>)
next
  case (retry_later i w oc retry_at now code' detail')
  have r: "shape_ok w" "budget_ok w" using wf_row [OF wf_ledgerD(1) [OF assms(2)]] retry_later by auto
  have nt: "\<not> terminal_state (state w)" using retry_later terminal_not_leased by blast
  show ?thesis unfolding retry_later(1)
    by (rule wf_finish [OF assms(2) _ retry_later(2,3,5)])
      (use r retry_later nt in \<open>auto simp: row_retry_wait_def shape_ok_def budget_ok_def\<close>)
next
  case (recover_lease i w oc now code' detail')
  have r: "shape_ok w" "budget_ok w" using wf_row [OF wf_ledgerD(1) [OF assms(2)]] recover_lease by auto
  have nt: "\<not> terminal_state (state w)" using recover_lease terminal_not_leased by blast
  have nr: "state w \<noteq> RETRY_WAIT" using recover_lease by auto
  show ?thesis unfolding recover_lease(1)
    by (rule wf_finish [OF assms(2) _ recover_lease(2,3,5)])
      (use r recover_lease nt nr in \<open>auto simp: row_recover_def shape_ok_def budget_ok_def\<close>)
next
  case (retry_due q now)
  show ?thesis unfolding retry_due(1)
  proof (rule wf_upd_items [OF assms(2)])
    fix w assume w: "w \<in> set (work_items db)" "state w = RETRY_WAIT \<and> q w"
    have r: "shape_ok w" "budget_ok w" using wf_ledgerD(1) [OF assms(2)] w(1) by (auto simp: wf_items_def)
    show "\<not> terminal_state (state w) \<and> shape_ok (row_retry_due now w) \<and> budget_ok (row_retry_due now w)
      \<and> leased_state (state (row_retry_due now w)) = leased_state (state w)
      \<and> attempt (row_retry_due now w) = attempt w \<and> lease_epoch (row_retry_due now w) = lease_epoch w
      \<and> fencing_token (row_retry_due now w) = fencing_token w
      \<and> (live_state (state (row_retry_due now w)) \<longrightarrow> live_state (state w) \<or> deps_settled db (work_item_id w))"
      using r w(2) by (auto simp: row_retry_due_def shape_ok_def budget_ok_def live_state_def)
  qed simp
qed

section \<open>What no step undoes\<close>

text \<open>
  How a row may change: its plan never, its epoch only upwards, a terminal row not at all,
  and without a new epoch no lease appears and no lease changes hands. Attempts are
  appended and finished; a finished attempt stays as it is.
\<close>

definition row_evolves :: "WorkItem \<Rightarrow> WorkItem \<Rightarrow> bool" where
  "row_evolves w w' \<longleftrightarrow> plan_of w' = plan_of w \<and> lease_epoch w \<le> lease_epoch w'
     \<and> (terminal_state (state w) \<longrightarrow> w' = w)
     \<and> (leased_state (state w') \<and> lease_epoch w' = lease_epoch w \<longrightarrow>
          leased_state (state w) \<and> fencing_token w' = fencing_token w \<and> leased_by w' = leased_by w)"

definition attempt_evolves :: "WorkAttempt \<Rightarrow> WorkAttempt \<Rightarrow> bool" where
  "attempt_evolves a a' \<longleftrightarrow> attempt_key a' = attempt_key a \<and> attempt_token a' = attempt_token a
     \<and> attempt_worker a' = attempt_worker a \<and> claimed_at a' = claimed_at a
     \<and> (outcome a \<noteq> Attempt_ACTIVE \<longrightarrow> a' = a)"

definition evolves :: "ledger \<Rightarrow> ledger \<Rightarrow> bool" where
  "evolves db db' \<longleftrightarrow>
     (\<forall>i w. item_of db i = Some w \<longrightarrow> (\<exists>w'. item_of db' i = Some w' \<and> row_evolves w w'))
     \<and> (\<forall>a \<in> set (work_attempts db). \<exists>a' \<in> set (work_attempts db'). attempt_evolves a a')
     \<and> set (work_dependencies db) \<subseteq> set (work_dependencies db')"

lemma row_evolves_refl [simp]: "row_evolves w w"
  by (simp add: row_evolves_def)

lemma row_evolves_trans: "row_evolves u v \<Longrightarrow> row_evolves v w \<Longrightarrow> row_evolves u w"
  unfolding row_evolves_def by (metis order_antisym order_trans)

lemma attempt_evolves_refl [simp]: "attempt_evolves a a"
  by (simp add: attempt_evolves_def)

lemma attempt_evolves_trans: "attempt_evolves a b \<Longrightarrow> attempt_evolves b c \<Longrightarrow> attempt_evolves a c"
  unfolding attempt_evolves_def by metis

lemma evolves_refl [simp]: "evolves db db"
  unfolding evolves_def by (meson row_evolves_refl attempt_evolves_refl order_refl)

lemma evolves_trans:
  assumes "evolves a b" and "evolves b c"
  shows "evolves a c"
  unfolding evolves_def
proof (intro conjI allI impI ballI)
  fix i w assume "item_of a i = Some w"
  then show "\<exists>w'. item_of c i = Some w' \<and> row_evolves w w'"
    using assms unfolding evolves_def by (meson row_evolves_trans)
next
  fix x assume "x \<in> set (work_attempts a)"
  then show "\<exists>x' \<in> set (work_attempts c). attempt_evolves x x'"
    using assms unfolding evolves_def by (meson attempt_evolves_trans)
next
  show "set (work_dependencies a) \<subseteq> set (work_dependencies c)"
    using assms unfolding evolves_def by blast
qed

lemma evolves_map:
  assumes "work_items db' = map g (work_items db)" and "keeps_plan g"
    and "\<And>w. w \<in> set (work_items db) \<Longrightarrow> row_evolves w (g w)"
    and "\<And>a. a \<in> set (work_attempts db) \<Longrightarrow> attempt_evolves a (h a)"
    and "h ` set (work_attempts db) \<subseteq> set (work_attempts db')"
    and "work_dependencies db' = work_dependencies db"
  shows "evolves db db'"
proof -
  have "\<exists>w'. item_of db' i = Some w' \<and> row_evolves w w'" if "item_of db i = Some w" for i w
    using that item_of_map [OF assms(1,2)] assms(3) [OF item_of_in [OF that]] by simp
  moreover have "\<exists>a' \<in> set (work_attempts db'). attempt_evolves a a'" if "a \<in> set (work_attempts db)" for a
    using assms(4) [OF that] assms(5) that by blast
  ultimately show ?thesis using assms(6) by (simp add: evolves_def)
qed

lemma evolves_upd_items:
  assumes "keeps_plan f" and "\<And>w. w \<in> set (work_items db) \<Longrightarrow> p w \<Longrightarrow> row_evolves w (f w)"
    and "\<And>a. a \<in> set (work_attempts db) \<Longrightarrow> attempt_evolves a (h a)"
    and "h ` set (work_attempts db) \<subseteq> set (work_attempts db')"
    and "work_dependencies db' = work_dependencies db"
    and "work_items db' = work_items (upd_items p f db)"
  shows "evolves db db'"
  using assms(1-5)
  by (intro evolves_map [where g = "\<lambda>w. if p w then f w else w" and h = h])
    (auto simp: assms(6) update_where_def keeps_plan_if)

lemma row_evolvesI:
  assumes "plan_of (f w) = plan_of w" and "\<not> terminal_state (state w)"
    and "lease_epoch w < lease_epoch (f w) \<or> (lease_epoch w = lease_epoch (f w)
      \<and> (leased_state (state (f w)) \<longrightarrow> leased_state (state w)
        \<and> fencing_token (f w) = fencing_token w \<and> leased_by (f w) = leased_by w))"
  shows "row_evolves w (f w)"
  using assms by (auto simp: row_evolves_def)

lemma row_evolves_rows:
  "\<not> terminal_state (state w) \<Longrightarrow> row_evolves w (row_ready now w)"
  "\<not> terminal_state (state w) \<Longrightarrow> terminal_state st \<Longrightarrow>
     row_evolves w (row_terminal st now code detail ref sha cancel w)"
  "\<not> terminal_state (state w) \<Longrightarrow> row_evolves w (row_recover now w)"
  "\<not> terminal_state (state w) \<Longrightarrow> row_evolves w (row_retry_wait retry_at now w)"
  "\<not> terminal_state (state w) \<Longrightarrow> row_evolves w (row_retry_due now w)"
  "leased_state (state w) \<Longrightarrow> row_evolves w (row_heartbeat expires now w)"
  "leased_state (state w) \<Longrightarrow> row_evolves w (row_start now w)"
  "\<not> terminal_state (state w) \<Longrightarrow> lease_epoch w < e \<Longrightarrow>
     row_evolves w (row_claim st' e token worker expires att now w)"
  using terminal_not_leased
  by (auto simp: row_evolves_def row_defs plan_of_def WorkItemPlan.defs)

lemma row_evolves_item:
  assumes "distinct (map work_item_id (work_items db))" and "item_of db i = Some w"
    and "row_evolves w (f w)" and "v \<in> set (work_items db)" and "work_item_id v = i"
  shows "row_evolves v (f v)"
  using item_of_mem [OF assms(1,4)] assms(2,3,5) by simp

theorem lstep_evolves:
  assumes "lstep db db'" and "wf_ledger db"
  shows "evolves db db'"
  using assms
proof (cases rule: lstep.cases)
  case (insert_plan p ds)
  have "item_of db' i = Some w" if "item_of db i = Some w" for i w
    using that by (simp add: insert_plan(1) item_of_append)
  moreover have "\<exists>a' \<in> set (work_attempts db'). attempt_evolves a a'" if "a \<in> set (work_attempts db)" for a
    using that by (intro bexI [of _ a]) (simp_all add: insert_plan(1))
  ultimately show ?thesis by (auto simp: evolves_def insert_plan(1))
next
  case (advance i w now)
  show ?thesis unfolding advance(1)
    by (rule evolves_upd_items [where p = "\<lambda>w. work_item_id w = i" and f = "row_ready now" and h = "\<lambda>a. a"])
      (use row_evolves_item [OF wf_ledgerD(5) [OF assms(2)] advance(2)] row_evolves_rows(1) [of w]
        advance in auto)
next
  case (idle_terminal i w st code now detail cancel)
  let ?f = "row_terminal st now code detail None None cancel"
  show ?thesis unfolding idle_terminal(1)
    by (rule evolves_upd_items [where p = "\<lambda>w. work_item_id w = i" and f = ?f and h = "\<lambda>a. a"])
      (use row_evolves_item [OF wf_ledgerD(5) [OF assms(2)] idle_terminal(2), of ?f]
        row_evolves_rows(2) [of w] idle_terminal in auto)
next
  case (leased_terminal i w st oc ref sha code detail now cancel code' detail')
  let ?f = "row_terminal st now code detail ref sha cancel"
  let ?h = "\<lambda>a. if attempt_matches w a then attempt_finish oc now code' detail' a else a"
  have nt: "\<not> terminal_state (state w)" using leased_terminal terminal_not_leased by blast
  show ?thesis unfolding leased_terminal(1)
    by (rule evolves_upd_items [where p = "\<lambda>w. work_item_id w = i" and f = ?f and h = ?h])
      (use row_evolves_item [OF wf_ledgerD(5) [OF assms(2)] leased_terminal(2), of ?f]
        row_evolves_rows(2) [of w] nt leased_terminal in
        \<open>auto simp: update_where_def attempt_evolves_def attempt_finish_def attempt_key_def attempt_matches_def\<close>)
next
  case (claim_ready i w st token worker now started expires)
  let ?f = "row_claim st (lease_epoch w + 1) token worker expires (attempt w + 1) now"
  show ?thesis unfolding claim_ready(1)
    by (rule evolves_upd_items [where p = "\<lambda>w. work_item_id w = i" and f = ?f and h = "\<lambda>a. a"])
      (use row_evolves_item [OF wf_ledgerD(5) [OF assms(2)] claim_ready(2), of ?f]
        row_evolves_rows(8) [of w] claim_ready in auto)
next
  case (start_leased i w now)
  let ?q = "\<lambda>a. attempt_work_item_id a = i \<and> attempt_number a = attempt w \<and> outcome a = Attempt_ACTIVE"
  show ?thesis unfolding start_leased(1)
    by (rule evolves_upd_items [where p = "\<lambda>w. work_item_id w = i" and f = "row_start now"
          and h = "\<lambda>a. if ?q a then attempt_start now a else a"])
      (use row_evolves_item [OF wf_ledgerD(5) [OF assms(2)] start_leased(2)] row_evolves_rows(7) [of w]
        start_leased in \<open>auto simp: update_where_def attempt_evolves_def attempt_start_def attempt_key_def\<close>)
next
  case (heartbeat_leased i w expires now)
  show ?thesis unfolding heartbeat_leased(1)
    by (rule evolves_upd_items [where p = "\<lambda>w. work_item_id w = i" and f = "row_heartbeat expires now"
          and h = "\<lambda>a. a"])
      (use row_evolves_item [OF wf_ledgerD(5) [OF assms(2)] heartbeat_leased(2)]
        row_evolves_rows(6) [of w] heartbeat_leased in auto)
next
  case (retry_later i w oc retry_at now code' detail')
  let ?h = "\<lambda>a. if attempt_matches w a then attempt_finish oc now code' detail' a else a"
  have nt: "\<not> terminal_state (state w)" using retry_later terminal_not_leased by blast
  show ?thesis unfolding retry_later(1)
    by (rule evolves_upd_items [where p = "\<lambda>w. work_item_id w = i" and f = "row_retry_wait retry_at now"
          and h = ?h])
      (use row_evolves_item [OF wf_ledgerD(5) [OF assms(2)] retry_later(2)] row_evolves_rows(4) [of w]
        nt retry_later in
        \<open>auto simp: update_where_def attempt_evolves_def attempt_finish_def attempt_key_def attempt_matches_def\<close>)
next
  case (recover_lease i w oc now code' detail')
  let ?h = "\<lambda>a. if attempt_matches w a then attempt_finish oc now code' detail' a else a"
  have nt: "\<not> terminal_state (state w)" using recover_lease terminal_not_leased by blast
  show ?thesis unfolding recover_lease(1)
    by (rule evolves_upd_items [where p = "\<lambda>w. work_item_id w = i" and f = "row_recover now" and h = ?h])
      (use row_evolves_item [OF wf_ledgerD(5) [OF assms(2)] recover_lease(2)] row_evolves_rows(3) [of w]
        nt recover_lease in
        \<open>auto simp: update_where_def attempt_evolves_def attempt_finish_def attempt_key_def attempt_matches_def\<close>)
next
  case (retry_due q now)
  show ?thesis unfolding retry_due(1)
    by (rule evolves_upd_items [where p = "\<lambda>w. state w = RETRY_WAIT \<and> q w" and f = "row_retry_due now"
          and h = "\<lambda>a. a"]) (auto intro: row_evolves_rows)
qed

lemma lsteps_wf: "lstep\<^sup>*\<^sup>* db db' \<Longrightarrow> wf_ledger db \<Longrightarrow> wf_ledger db'"
  by (induction rule: rtranclp_induct) (auto intro: lstep_wf)

lemma lsteps_evolves: "lstep\<^sup>*\<^sup>* db db' \<Longrightarrow> wf_ledger db \<Longrightarrow> evolves db db'"
proof (induction rule: rtranclp_induct)
  case base
  show ?case by simp
next
  case (step y z)
  have "wf_ledger y" using lsteps_wf [OF step.hyps(1) step.prems] .
  with step show ?case by (auto intro: evolves_trans lstep_evolves)
qed

end
