(* ===== verification/Work_Refinement.thy ===== *)
theory Work_Refinement
  imports Work_Operations Work_Invariant
begin

text \<open>
  Every operation of the scheduler, whether it returns or raises, takes a well-formed
  ledger to one reached by steps of the lifecycle machine of \<open>Work_Lifecycle\<close>. The loops
  of the maintenance iterate over rows read before the loop; the lemmas on
  \<open>cascade\<close> say what may have happened to those rows by the time they are used.
\<close>

abbreviation lsteps :: "ledger \<Rightarrow> ledger \<Rightarrow> bool" where
  "lsteps \<equiv> lstep\<^sup>*\<^sup>*"

lemma lsteps_wfD: "lsteps db db' \<Longrightarrow> wf_ledger db \<Longrightarrow> wf_ledger db'"
  by (rule lsteps_wf)

section \<open>Statements\<close>

lemma set_terminal_Inr:
  assumes "wf_ledger db" and "set_terminal db1 item st now code detail ref sha c = Inr db'"
    and "work_items db1 = work_items db"
  obtains w where "item_of db (work_item_id item) = Some w" "\<not> terminal_state (state w)"
    "db' = upd_item (work_item_id item) (row_terminal st now code detail ref sha c) db1"
proof -
  let ?p = "\<lambda>w. work_item_id w = work_item_id item \<and> completed_at w = None"
  have dist: "distinct (map work_item_id (work_items db1))"
    using wf_ledgerD [OF assms(1)] assms(3) by simp
  have rc: "rowcount ?p (work_items db1) = 1" and db': "db' = upd_items ?p (row_terminal st now code detail ref sha c) db1"
    using assms(2) by (auto simp: set_terminal_def Let_def split: if_splits)
  obtain w where w: "item_of db1 (work_item_id item) = Some w" "completed_at w = None"
    "upd_items ?p (row_terminal st now code detail ref sha c) db1
      = upd_item (work_item_id item) (row_terminal st now code detail ref sha c) db1"
    by (rule guarded_update [OF dist rc])
  have i: "item_of db (work_item_id item) = Some w" using w(1) assms(3) by (simp add: item_of_def)
  have "shape_ok w" using wf_row(1) [OF _ i] wf_ledgerD(1) [OF assms(1)] by simp
  with w(2) have "\<not> terminal_state (state w)" by (simp add: shape_ok_def)
  with i w(3) db' show thesis using that by simp
qed

lemma finish_attempt_Inr:
  "finish_attempt db item oc now code detail = Inr db' \<Longrightarrow>
    db' = upd_attempts (attempt_matches item) (attempt_finish oc now code detail) db"
  by (auto simp: finish_attempt_def split: if_splits)

lemma idle_terminal_step:
  assumes "wf_ledger db" and "set_terminal db item st now code detail None None c = Inr db'"
    and "\<And>w. item_of db (work_item_id item) = Some w \<Longrightarrow> \<not> leased_state (state w)"
    and "terminal_state st" "st \<noteq> SUCCEEDED" "code \<noteq> None"
  shows "lstep db db'" and "db' = upd_item (work_item_id item) (row_terminal st now code detail None None c) db"
    and "\<exists>w. item_of db (work_item_id item) = Some w \<and> \<not> terminal_state (state w)"
proof -
  obtain w where w: "item_of db (work_item_id item) = Some w" "\<not> terminal_state (state w)"
    "db' = upd_item (work_item_id item) (row_terminal st now code detail None None c) db"
    by (rule set_terminal_Inr [OF assms(1,2) refl])
  show "lstep db db'"
    unfolding w(3) by (rule lstep.idle_terminal [OF w(1,2) assms(3) [OF w(1)] assms(4-6)])
  show "db' = upd_item (work_item_id item) (row_terminal st now code detail None None c) db" by (rule w(3))
  show "\<exists>w. item_of db (work_item_id item) = Some w \<and> \<not> terminal_state (state w)" using w by blast
qed

lemma leased_terminal_step:
  assumes "wf_ledger db" and "item_of db (work_item_id item) = Some item" "leased_state (state item)"
    and "finish_attempt db item oc now code' detail' = Inr db1"
    and "set_terminal db1 item st now code detail ref sha c = Inr db'"
    and "terminal_state st" "oc \<noteq> Attempt_ACTIVE" "(ref = None) = (sha = None)"
    and "st \<noteq> SUCCEEDED \<longrightarrow> code \<noteq> None \<and> ref = None" "detail \<noteq> None \<longrightarrow> code \<noteq> None"
  shows "lstep db db'"
    and "db' = upd_item (work_item_id item) (row_terminal st now code detail ref sha c)
      (upd_attempts (attempt_matches item) (attempt_finish oc now code' detail') db)"
proof -
  note db1 = finish_attempt_Inr [OF assms(4)]
  have same: "work_items db1 = work_items db" by (simp add: db1)
  show db': "db' = upd_item (work_item_id item) (row_terminal st now code detail ref sha c)
      (upd_attempts (attempt_matches item) (attempt_finish oc now code' detail') db)"
    by (rule set_terminal_Inr [OF assms(1,5) same]) (simp add: db1)
  show "lstep db db'" unfolding db' by (rule lstep.leased_terminal [OF assms(2,3,6-10)])
qed

section \<open>Readiness\<close>

lemma set_dependency_rows:
  "set (dependency_rows db i) = {(criticality d, state u) | d u. d \<in> set (work_dependencies db)
     \<and> downstream_work_item_id d = i \<and> u \<in> set (work_items db) \<and> work_item_id u = upstream_work_item_id d}"
  unfolding dependency_rows_def dependencies_of_def by auto

text \<open>A planned item all of whose upstream items have finished.\<close>

definition upstreams_done :: "ledger \<Rightarrow> string \<Rightarrow> bool" where
  "upstreams_done db i \<longleftrightarrow>
     (\<forall>d \<in> set (work_dependencies db). downstream_work_item_id d = i \<longrightarrow>
        (\<forall>u. item_of db (upstream_work_item_id d) = Some u \<longrightarrow> terminal_state (state u)))"

lemma upstreams_done_rows:
  assumes "wf_ledger db"
  shows "upstreams_done db i \<longleftrightarrow> \<not> list_ex (\<lambda>(c, st). st \<notin> TERMINAL_WORK_STATES) (dependency_rows db i)"
proof -
  have u: "(item_of db j = Some u) \<longleftrightarrow> u \<in> set (work_items db) \<and> work_item_id u = j" for j u
    using item_of_mem [of db u] wf_ledgerD(5) [OF assms] item_of_in [of db j u] item_of_id [of db j u] by auto
  show ?thesis
    unfolding upstreams_done_def list_ex_iff set_dependency_rows u terminal_state_def by blast
qed

lemma settled_rows:
  assumes "wf_ledger db" and "\<not> list_ex (\<lambda>(c, st). st \<notin> TERMINAL_WORK_STATES) (dependency_rows db i)"
    and "\<not> list_ex (\<lambda>(c, st). c = REQUIRED \<and> st \<notin> SUCCESSFUL_DEPENDENCY_STATES) (dependency_rows db i)"
  shows "deps_settled db i"
  unfolding deps_settled_def
proof (intro ballI impI)
  fix d assume d: "d \<in> set (work_dependencies db)" "downstream_work_item_id d = i"
  then obtain u where u: "item_of db (upstream_work_item_id d) = Some u"
    using wf_ledgerD(2) [OF assms(1)] by (auto simp: wf_deps_def)
  have mem: "(criticality d, state u) \<in> set (dependency_rows db i)"
    using d item_of_in [OF u] item_of_id [OF u] unfolding set_dependency_rows by blast
  have "terminal_state (state u)" using assms(2) mem by (auto simp: list_ex_iff terminal_state_def)
  moreover have "criticality d = REQUIRED \<longrightarrow> state u \<in> SUCCESSFUL_DEPENDENCY_STATES"
    using assms(3) mem by (auto simp: list_ex_iff)
  ultimately show "\<exists>u. item_of db (upstream_work_item_id d) = Some u \<and> terminal_state (state u)
      \<and> (criticality d = REQUIRED \<longrightarrow> state u \<in> SUCCESSFUL_DEPENDENCY_STATES)"
    using u by blast
qed

text \<open>What a readiness cascade may do: planned rows become ready or fail, nothing else changes.\<close>

definition cascade :: "ledger \<Rightarrow> ledger \<Rightarrow> bool" where
  "cascade db db' \<longleftrightarrow> work_attempts db' = work_attempts db
     \<and> work_dependencies db' = work_dependencies db
     \<and> (\<forall>j. item_of db' j = item_of db j
          \<or> (\<exists>w w'. item_of db j = Some w \<and> state w = PLANNED \<and> item_of db' j = Some w'
               \<and> state w' \<in> {READY, FAILED_PERMANENT}))"

lemma cascade_refl [simp]: "cascade db db"
  by (simp add: cascade_def)

lemma cascade_cases:
  assumes "cascade db db'"
  obtains (same) "item_of db' j = item_of db j"
  | (moved) w w' where "item_of db j = Some w" "state w = PLANNED" "item_of db' j = Some w'"
      "state w' \<in> {READY, FAILED_PERMANENT}"
  using assms unfolding cascade_def by meson

lemma cascade_keeps:
  assumes "cascade db db'" and "item_of db j = Some w" and "state w \<noteq> PLANNED"
  shows "item_of db' j = Some w"
  using assms(1) by (rule cascade_cases [of _ _ j]) (use assms in auto)

lemma cascade_trans:
  assumes "cascade a b" and "cascade b c"
  shows "cascade a c"
proof -
  have "item_of c j = item_of a j
      \<or> (\<exists>w w'. item_of a j = Some w \<and> state w = PLANNED \<and> item_of c j = Some w'
           \<and> state w' \<in> {READY, FAILED_PERMANENT})" for j
  proof -
    show ?thesis
    proof (rule cascade_cases [OF assms(1), of j])
      assume "item_of b j = item_of a j"
      with assms(2) show ?thesis unfolding cascade_def by metis
    next
      fix w w'
      assume w: "item_of a j = Some w" "state w = PLANNED" "item_of b j = Some w'"
        "state w' \<in> {READY, FAILED_PERMANENT}"
      then have "item_of c j = Some w'" using cascade_keeps [OF assms(2) w(3)] by auto
      with w show ?thesis by blast
    qed
  qed
  with assms show ?thesis by (simp add: cascade_def)
qed

lemma cascade_upd:
  assumes "item_of db i = Some w" and "state w = PLANNED" and "state (f w) \<in> {READY, FAILED_PERMANENT}"
    and "\<And>v. work_item_id (f v) = work_item_id v"
  shows "cascade db (upd_item i f db)"
  using assms by (simp add: cascade_def item_of_upd [OF assms(4)])

lemma advance_step:
  assumes wf: "wf_ledger db" and adv: "advance_planned_item db i now = Inr (db', r)"
  shows "lsteps db db' \<and> cascade db db'"
proof (cases "db' = db")
  case True
  then show ?thesis by simp
next
  case False
  with adv obtain item where item: "item_of db i = Some item" "state item = PLANNED"
    and fin: "\<not> list_ex (\<lambda>(c, st). st \<notin> TERMINAL_WORK_STATES) (dependency_rows db i)"
    by (auto simp: advance_planned_item_def result_simps Let_def item_of_id split: if_splits)
  note id = item_of_id [OF item(1)]
  show ?thesis
  proof (cases "list_ex (\<lambda>(c, st). c = REQUIRED \<and> st \<notin> SUCCESSFUL_DEPENDENCY_STATES) (dependency_rows db i)")
    case True
    then have st: "set_terminal db item FAILED_PERMANENT now (Some ''REQUIRED_DEPENDENCY_FAILED'') None None None False
        = Inr db'"
      using adv item fin id by (auto simp: advance_planned_item_def result_simps Let_def split: if_splits)
    have idle: "\<not> leased_state (state w)" if "item_of db (work_item_id item) = Some w" for w
      using that item id by simp
    note step = idle_terminal_step [OF wf st idle]
    have "lstep db db'" by (rule step(1)) simp_all
    moreover have "cascade db db'"
      unfolding step(2) [simplified] id using cascade_upd [OF item]
      by (simp add: row_terminal_def)
    ultimately show ?thesis by blast
  next
    case False
    let ?p = "\<lambda>w. work_item_id w = i \<and> state w = PLANNED"
    have rc: "rowcount ?p (work_items db) = 1" and db': "db' = upd_items ?p (row_ready now) db"
      using adv item fin id False
      by (auto simp: advance_planned_item_def result_simps Let_def split: if_splits)
    have upd: "db' = upd_item i (row_ready now) db"
      by (rule guarded_update [OF wf_ledgerD(5) [OF wf] rc]) (simp add: db')
    have "lstep db db'" unfolding upd by (rule lstep.advance [OF item settled_rows [OF wf fin False]])
    moreover have "cascade db db'"
      unfolding upd using cascade_upd [OF item] by (simp add: row_ready_def)
    ultimately show ?thesis by blast
  qed
qed

lemma lsteps_cascade_trans:
  assumes "lsteps a b \<and> cascade a b" and "lsteps b c \<and> cascade b c"
  shows "lsteps a c \<and> cascade a c"
  using assms cascade_trans by (meson rtranclp_trans)

lemma refresh_pending_step:
  "refresh_pending db now pending queued n = Inr (db', m) \<Longrightarrow> wf_ledger db \<Longrightarrow>
    lsteps db db' \<and> cascade db db'"
proof (induction db now pending queued n rule: refresh_pending.induct)
  case (1 db now queued changed)
  then show ?case by simp
next
  case (2 db now i rest queued changed)
  then obtain db1 r where r: "advance_planned_item db i now = Inr (db1, r)"
    by (auto split: sum.splits)
  have first: "lsteps db db1 \<and> cascade db db1" by (rule advance_step [OF 2(5) r])
  then have wf1: "wf_ledger db1" using 2(5) lsteps_wf by blast
  have "lsteps db1 db' \<and> cascade db1 db'"
    using 2(1-4) r wf1 by (cases r) (auto split: if_splits)
  then show ?case by (rule lsteps_cascade_trans [OF first])
qed

lemma refresh_work_ids_step:
  assumes "refresh_planned_for_work_ids db now ids = Inr (db', n)" and "wf_ledger db"
  shows "lsteps db db' \<and> cascade db db'"
  using assms refresh_pending_step by (auto simp: refresh_planned_for_work_ids_def Let_def)

lemma refresh_downstream_step:
  assumes "refresh_downstream_for_upstreams db now ids = Inr (db', n)" and "wf_ledger db"
  shows "lsteps db db' \<and> cascade db db'"
  using assms refresh_work_ids_step by (auto simp: refresh_downstream_for_upstreams_def)

lemma refresh_pass_step:
  "refresh_pass now is db n = Inr (db', m) \<Longrightarrow> wf_ledger db \<Longrightarrow> lsteps db db' \<and> cascade db db'"
proof (induction "is" arbitrary: db n)
  case Nil
  then show ?case by simp
next
  case (Cons i "is")
  then obtain db1 r where r: "advance_planned_item db i now = Inr (db1, r)"
    by (auto split: sum.splits)
  have first: "lsteps db db1 \<and> cascade db db1" by (rule advance_step [OF Cons.prems(2) r])
  then have wf1: "wf_ledger db1" using Cons.prems(2) lsteps_wf by blast
  have "lsteps db1 db' \<and> cascade db1 db'"
    using Cons.IH [OF _ wf1] Cons.prems(1) r by (cases r) auto
  then show ?case by (rule lsteps_cascade_trans [OF first])
qed

lemma refresh_planned_step:
  "refresh_planned db now n = Inr (db', m) \<Longrightarrow> wf_ledger db \<Longrightarrow> lsteps db db' \<and> cascade db db'"
proof (induction db now n rule: refresh_planned.induct)
  case (1 db now changed)
  then obtain db1 k where k: "refresh_pass now (planned_ids db) db 0 = Inr (db1, k)"
    by (auto simp: refresh_planned.simps [of db] split: sum.splits)
  have first: "lsteps db db1 \<and> cascade db db1" by (rule refresh_pass_step [OF k 1(3)])
  then have wf1: "wf_ledger db1" using 1(3) lsteps_wf by blast
  have "lsteps db1 db' \<and> cascade db1 db'"
    using 1(1) [OF k refl _ _ wf1] 1(2) k
    by (auto simp: refresh_planned.simps [of db] split: if_splits)
  then show ?case by (rule lsteps_cascade_trans [OF first])
qed

end
