(* ===== verification/Work_Maintenance.thy ===== *)
theory Work_Maintenance
  imports Work_Refinement
begin

text \<open>
  The maintenance pass of the scheduler: the loops over due rows as sweeps of the ledger,
  the refinement of \<open>_maintain\<close> and \<open>_reconcile_exact_due_state\<close> to lifecycle steps, and
  the quiescent ledger a successful reconciliation leaves.
\<close>

section \<open>Sweeps over a snapshot\<close>

text \<open>
  A row read before the loop: its item is still there, and neither the row read nor the
  row stored is leased unless they are the same.
\<close>

definition snap_ok :: "ledger \<Rightarrow> WorkItem \<Rightarrow> bool" where
  "snap_ok db r \<longleftrightarrow> shape_ok r \<and> (\<exists>w. item_of db (work_item_id r) = Some w
     \<and> (leased_state (state w) \<or> leased_state (state r) \<longrightarrow> w = r))"

definition moved :: "ledger \<Rightarrow> ledger \<Rightarrow> string \<Rightarrow> bool" where
  "moved db db' j \<longleftrightarrow> item_of db' j = item_of db j
     \<or> (\<exists>w w'. item_of db j = Some w \<and> state w = PLANNED \<and> item_of db' j = Some w'
          \<and> state w' \<in> {READY, FAILED_PERMANENT})"

definition swept :: "string set \<Rightarrow> WorkItemState set \<Rightarrow> ledger \<Rightarrow> ledger \<Rightarrow> bool" where
  "swept ids S db db' \<longleftrightarrow>
     (\<forall>j. j \<notin> ids \<longrightarrow> moved db db' j)
     \<and> (\<forall>j \<in> ids. item_of db j \<noteq> None \<and> (\<exists>w'. item_of db' j = Some w' \<and> state w' \<in> S))"

lemma moved_cascade: "cascade db db' \<Longrightarrow> moved db db' j"
  by (auto simp: cascade_def moved_def)

lemma moved_keeps: "moved db db' j \<Longrightarrow> item_of db j = Some w \<Longrightarrow> state w \<noteq> PLANNED \<Longrightarrow> item_of db' j = Some w"
  by (auto simp: moved_def)

lemma moved_trans:
  assumes "moved a b j" and "moved b c j"
  shows "moved a c j"
proof (cases "item_of b j = item_of a j")
  case True
  with assms(2) show ?thesis unfolding moved_def by metis
next
  case False
  with assms(1) obtain w w' where w: "item_of a j = Some w" "state w = PLANNED" "item_of b j = Some w'"
    "state w' \<in> {READY, FAILED_PERMANENT}"
    unfolding moved_def by metis
  then have "item_of c j = Some w'" using moved_keeps [OF assms(2) w(3)] by auto
  with w show ?thesis unfolding moved_def by blast
qed

lemma snap_ok_moved:
  assumes "snap_ok db r" and "moved db db' (work_item_id r)"
  shows "snap_ok db' r"
proof -
  obtain w where w: "shape_ok r" "item_of db (work_item_id r) = Some w"
    "leased_state (state w) \<or> leased_state (state r) \<longrightarrow> w = r"
    using assms(1) by (auto simp: snap_ok_def)
  show ?thesis
  proof (cases "item_of db' (work_item_id r) = item_of db (work_item_id r)")
    case True
    with assms(1) show ?thesis by (simp add: snap_ok_def)
  next
    case False
    with assms(2) obtain v v' where v: "item_of db (work_item_id r) = Some v" "state v = PLANNED"
      "item_of db' (work_item_id r) = Some v'" "state v' \<in> {READY, FAILED_PERMANENT}"
      unfolding moved_def by metis
    then have "\<not> leased_state (state r)" "\<not> leased_state (state v')" using w by auto
    with v(3) w(1) show ?thesis by (simp add: snap_ok_def)
  qed
qed

lemma snap_ok_self:
  assumes "wf_ledger db" and "w \<in> set (work_items db)"
  shows "snap_ok db w"
  using assms item_of_mem [OF wf_ledgerD(5)] by (auto simp: snap_ok_def wf_ledger_def wf_items_def)

text \<open>
  The contract of a loop body: on a due row of the snapshot it makes lifecycle steps, leaves
  the row in one of the states \<open>S\<close>, and moves other rows only by the readiness cascade.
\<close>

locale row_sweep =
  fixes body :: "WorkItem \<Rightarrow> ledger \<times> nat \<Rightarrow> work_error + (ledger \<times> nat)"
    and due :: "WorkItem \<Rightarrow> bool"
    and S :: "WorkItemState set"
  assumes not_planned: "PLANNED \<notin> S"
    and body_steps: "wf_ledger db \<Longrightarrow> snap_ok db r \<Longrightarrow> due r \<Longrightarrow> body r (db, n) = Inr (db', n') \<Longrightarrow>
      lsteps db db' \<and> swept {work_item_id r} S db db' \<and> n' = n + 1"
begin

lemma swept_Cons:
  assumes "swept {i} S a b" and "swept ids S b c" and "i \<notin> ids"
  shows "swept (insert i ids) S a c"
  unfolding swept_def
proof (intro conjI allI impI ballI)
  fix j assume "j \<notin> insert i ids"
  with assms show "moved a c j" using moved_trans [of a b j c] by (simp add: swept_def)
next
  fix j assume j: "j \<in> insert i ids"
  obtain w where w: "item_of b i = Some w" "state w \<in> S" "item_of a i \<noteq> None"
    using assms(1) by (auto simp: swept_def)
  have "moved b c i" using assms(2,3) by (simp add: swept_def)
  moreover have "state w \<noteq> PLANNED" using w(2) not_planned by metis
  ultimately have i: "item_of c i = Some w" using moved_keeps w(1) by blast
  show "item_of a j \<noteq> None"
  proof (cases "j = i")
    case True
    then show ?thesis using w(3) by simp
  next
    case False
    then have "item_of b j \<noteq> None" "moved a b j" using assms(1,2) j by (auto simp: swept_def)
    then show ?thesis by (auto simp: moved_def)
  qed
  show "\<exists>w'. item_of c j = Some w' \<and> state w' \<in> S"
    using i w(2) assms(2) j by (auto simp: swept_def)
qed

lemma sweep:
  assumes "fold_res body rows (db, n) = Inr (db', n')" and "wf_ledger db"
    and "distinct (map work_item_id rows)" and "\<And>r. r \<in> set rows \<Longrightarrow> snap_ok db r \<and> due r"
  shows "lsteps db db' \<and> swept (work_item_id ` set rows) S db db' \<and> n' = n + length rows"
  using assms
proof (induction rows arbitrary: db n)
  case Nil
  then show ?case by (simp add: swept_def moved_def)
next
  case (Cons r rows)
  obtain db1 n1 where b: "body r (db, n) = Inr (db1, n1)"
    and rest: "fold_res body rows (db1, n1) = Inr (db', n')"
    using Cons.prems(1) by (auto simp: result_simps)
  have first: "lsteps db db1" "swept {work_item_id r} S db db1" "n1 = n + 1"
    using body_steps [OF Cons.prems(2) _ _ b] Cons.prems(4) by auto
  have wf1: "wf_ledger db1" using first(1) Cons.prems(2) lsteps_wf by blast
  have "snap_ok db1 v \<and> due v" if "v \<in> set rows" for v
  proof -
    have "work_item_id v \<noteq> work_item_id r" using Cons.prems(3) that by (auto simp: image_iff)
    then have "moved db db1 (work_item_id v)" using first(2) by (simp add: swept_def)
    then show ?thesis using Cons.prems(4) that snap_ok_moved by auto
  qed
  then have tail: "lsteps db1 db'" "swept (work_item_id ` set rows) S db1 db'" "n' = n1 + length rows"
    using Cons.IH [OF rest wf1] Cons.prems(3) by auto
  have "swept (work_item_id ` set (r # rows)) S db db'"
    using swept_Cons [OF first(2) tail(2)] Cons.prems(3) by simp
  with first tail show ?case by (simp add: rtranclp_trans [of lstep db db1 db'])
qed

lemma sweep_table:
  assumes "fold_res body rows (db, 0) = Inr (db', n)" and "wf_ledger db"
    and "mset rows = mset (filter p (work_items db))" and "\<And>r. r \<in> set rows \<Longrightarrow> due r"
  shows "lsteps db db' \<and> swept (work_item_id ` set rows) S db db' \<and> n = length rows"
proof -
  have rows: "set rows = set (filter p (work_items db))" using assms(3) by (rule mset_eq_setD)
  have "mset (map work_item_id rows) = mset (map work_item_id (filter p (work_items db)))"
    using assms(3) by simp
  then have "distinct (map work_item_id rows)"
    using mset_eq_imp_distinct_iff distinct_map_filter [OF wf_ledgerD(5) [OF assms(2)]] by blast
  moreover have "snap_ok db r \<and> due r" if "r \<in> set rows" for r
    using that assms(4) snap_ok_self [OF assms(2)] rows by auto
  ultimately show ?thesis using sweep [OF assms(1,2)] by simp
qed

end

section \<open>Hard deadlines\<close>

lemma swept_terminal:
  assumes "db2 = upd_item i (row_terminal st now code detail ref sha c) db1"
    and "item_of db1 = item_of db" and "item_of db i \<noteq> None" and "cascade db2 db'"
    and "st \<in> S" and "PLANNED \<notin> S"
  shows "swept {i} S db db'"
proof -
  have it: "item_of db2 j = (if j = i then map_option (row_terminal st now code detail ref sha c) (item_of db i)
      else item_of db j)" for j
    unfolding assms(1) by (simp add: item_of_upd assms(2))
  have "moved db db' j" if "j \<noteq> i" for j
    using moved_cascade [OF assms(4), of j] that by (simp add: moved_def it)
  moreover have "\<exists>w'. item_of db' i = Some w' \<and> state w' \<in> S"
  proof -
    obtain w where w: "item_of db i = Some w" using assms(3) by auto
    let ?w = "row_terminal st now code detail ref sha c w"
    have s: "state ?w = st" by (simp add: row_terminal_def)
    then have "state ?w \<noteq> PLANNED" using assms(5,6) by auto
    moreover have "item_of db2 i = Some ?w" by (simp add: it w)
    ultimately have "item_of db' i = Some ?w" using cascade_keeps [OF assms(4)] by blast
    with s assms(5) show ?thesis by simp
  qed
  ultimately show ?thesis using assms(3) by (simp add: swept_def)
qed

lemma expire_row_sweeps:
  assumes wf: "wf_ledger db" and snap: "snap_ok db r" and due: "hard_expiry_due now r"
    and body: "expire_row now r (db, n) = Inr (db', n')"
  shows "lsteps db db' \<and> swept {work_item_id r} {EXPIRED} db db' \<and> n' = n + 1"
proof -
  obtain w where w: "item_of db (work_item_id r) = Some w"
    "leased_state (state w) \<or> leased_state (state r) \<longrightarrow> w = r"
    using snap by (auto simp: snap_ok_def)
  obtain db1 db2 k where
    fin: "(if state r \<in> {LEASED, RUNNING} then finish_attempt db r Attempt_EXPIRED now (Some ''EXECUTION_EXPIRED'') None
       else Inr db) = Inr db1"
    and trm: "set_terminal db1 r EXPIRED now (Some ''EXECUTION_EXPIRED'') None None None False = Inr db2"
    and casc: "refresh_downstream_for_upstreams db2 now [work_item_id r] = Inr (db', k)"
    and n': "n' = n + 1"
    using body due by (auto simp: expire_row_def hard_expiry_due_def result_simps split: option.splits if_splits)
  have "lstep db db2 \<and> (\<exists>db1. item_of db1 = item_of db \<and>
      db2 = upd_item (work_item_id r) (row_terminal EXPIRED now (Some ''EXECUTION_EXPIRED'') None None None False) db1)"
  proof (cases "leased_state (state r)")
    case True
    then have f: "finish_attempt db r Attempt_EXPIRED now (Some ''EXECUTION_EXPIRED'') None = Inr db1"
      using fin by (simp add: leased_state_def)
    have "item_of db (work_item_id r) = Some r" using w True by simp
    note step = leased_terminal_step [OF wf this True f trm]
    have "lstep db db2" by (rule step(1)) simp_all
    moreover have "db2 = upd_item (work_item_id r)
        (row_terminal EXPIRED now (Some ''EXECUTION_EXPIRED'') None None None False)
        (upd_attempts (attempt_matches r) (attempt_finish Attempt_EXPIRED now (Some ''EXECUTION_EXPIRED'') None) db)"
      by (rule step(2)) simp_all
    ultimately show ?thesis by (metis item_of_upd_attempts)
  next
    case False
    then have [simp]: "db1 = db" using fin by (simp add: leased_state_def)
    have idle: "\<not> leased_state (state v)" if "item_of db (work_item_id r) = Some v" for v
      using that w False by auto
    note step = idle_terminal_step [OF wf trm [simplified] idle]
    have "lstep db db2" by (rule step(1)) simp_all
    moreover have "db2 = upd_item (work_item_id r)
        (row_terminal EXPIRED now (Some ''EXECUTION_EXPIRED'') None None None False) db"
      by (rule step(2)) simp_all
    ultimately show ?thesis by blast
  qed
  then obtain db1' where s: "lstep db db2" "item_of db1' = item_of db"
    "db2 = upd_item (work_item_id r) (row_terminal EXPIRED now (Some ''EXECUTION_EXPIRED'') None None None False) db1'"
    by blast
  have wf2: "wf_ledger db2" by (rule lstep_wf [OF s(1) wf])
  have c: "lsteps db2 db'" "cascade db2 db'" using refresh_downstream_step [OF casc wf2] by auto
  have "swept {work_item_id r} {EXPIRED} db db'"
    by (rule swept_terminal [OF s(3,2) _ c(2)]) (simp_all add: w)
  with s(1) c(1) n' show ?thesis by (simp add: converse_rtranclp_into_rtranclp)
qed

interpretation expiry: row_sweep "expire_row now" "hard_expiry_due now" "{EXPIRED}" for now
  by unfold_locales (simp, rule expire_row_sweeps)

section \<open>Expired leases\<close>

lemma recover_row_sweeps:
  assumes wf: "wf_ledger db" and snap: "snap_ok db r" and due: "lease_due now r"
    and body: "recover_row now r (db, n) = Inr (db', n')"
  shows "lsteps db db' \<and> swept {work_item_id r} {READY, FAILED_PERMANENT} db db' \<and> n' = n + 1"
proof -
  let ?S = "{READY, FAILED_PERMANENT}"
  let ?fin = "upd_attempts (attempt_matches r) (attempt_finish Attempt_ABANDONED now (Some ''LEASE_EXPIRED'') None) db"
  have leased: "leased_state (state r)" using due by (simp add: lease_due_def leased_state_def)
  then have w: "item_of db (work_item_id r) = Some r" using snap by (auto simp: snap_ok_def)
  obtain db1 where f: "finish_attempt db r Attempt_ABANDONED now (Some ''LEASE_EXPIRED'') None = Inr db1"
    using body due by (auto simp: recover_row_def lease_due_def result_simps split: option.splits if_splits)
  note db1 = finish_attempt_Inr [OF f]
  show ?thesis
  proof (cases "attempt r < max_attempts r")
    case True
    let ?q = "\<lambda>w. lease_epoch w = lease_epoch r \<and> fencing_token w = fencing_token r \<and> fencing_token r \<noteq> None"
    have rc: "rowcount (\<lambda>w. work_item_id w = work_item_id r \<and> ?q w) (work_items db1) = 1"
      and db': "db' = upd_items (\<lambda>w. work_item_id w = work_item_id r \<and> ?q w) (row_recover now) db1"
      and n': "n' = n + 1"
      using body due f True
      by (auto simp: recover_row_def lease_due_def result_simps Let_def split: option.splits if_splits)
    have dist: "distinct (map work_item_id (work_items db1))" using wf_ledgerD(5) [OF wf] by (simp add: db1)
    have upd: "db' = upd_item (work_item_id r) (row_recover now) ?fin"
      by (rule guarded_update [OF dist rc]) (simp only: db' db1)
    have "lstep db db'" unfolding upd
      by (rule lstep.recover_lease [OF w leased True]) simp
    moreover have "swept {work_item_id r} ?S db db'"
      unfolding upd by (simp add: swept_def moved_def item_of_upd w row_recover_def)
    ultimately show ?thesis using n' by blast
  next
    case False
    then obtain db2 k where
      trm: "set_terminal db1 r FAILED_PERMANENT now (Some ''LEASE_ATTEMPTS_EXHAUSTED'') None None None False = Inr db2"
      and casc: "refresh_downstream_for_upstreams db2 now [work_item_id r] = Inr (db', k)" and n': "n' = n + 1"
      using body due f
      by (auto simp: recover_row_def lease_due_def result_simps Let_def split: option.splits if_splits)
    note step = leased_terminal_step [OF wf w leased f trm]
    have s: "lstep db db2" by (rule step(1)) simp_all
    have e: "db2 = upd_item (work_item_id r)
        (row_terminal FAILED_PERMANENT now (Some ''LEASE_ATTEMPTS_EXHAUSTED'') None None None False) ?fin"
      by (rule step(2)) simp_all
    have c: "lsteps db2 db'" "cascade db2 db'"
      using refresh_downstream_step [OF casc lstep_wf [OF s wf]] by auto
    have "swept {work_item_id r} ?S db db'"
      by (rule swept_terminal [OF e _ _ c(2)]) (simp_all add: w)
    with s c(1) n' show ?thesis by (simp add: converse_rtranclp_into_rtranclp)
  qed
qed

interpretation recovery: row_sweep "recover_row now" "lease_due now" "{READY, FAILED_PERMANENT}" for now
  by unfold_locales (simp, rule recover_row_sweeps)

section \<open>The maintenance pass\<close>

lemma mset_due_rows:
  "mset (case target of None \<Rightarrow> sort_key k (filter p xs) | Some i \<Rightarrow> filter (\<lambda>w. f w = i \<and> p w) xs) =
    mset (filter (\<lambda>w. p w \<and> (case target of None \<Rightarrow> True | Some i \<Rightarrow> f w = i)) xs)"
  by (cases target) (simp_all add: conj_commute)

lemma expire_spec:
  assumes "wf_ledger db" and "expire_hard_deadlines db now target = Inr (db', n)"
  shows "lsteps db db' \<and> swept (work_item_id ` {w \<in> set (work_items db). hard_expiry_due now w
      \<and> (case target of None \<Rightarrow> True | Some i \<Rightarrow> work_item_id w = i)}) {EXPIRED} db db'
    \<and> n = rowcount (\<lambda>w. hard_expiry_due now w \<and> (case target of None \<Rightarrow> True | Some i \<Rightarrow> work_item_id w = i))
        (work_items db)"
proof -
  let ?p = "\<lambda>w. hard_expiry_due now w \<and> (case target of None \<Rightarrow> True | Some i \<Rightarrow> work_item_id w = i)"
  obtain rows where rows: "mset rows = mset (filter ?p (work_items db))"
    and fold: "fold_res (expire_row now) rows (db, 0) = Inr (db', n)"
    using assms(2) unfolding expire_hard_deadlines_def Let_def by (rule that [OF mset_due_rows])
  have rset: "set rows = {w \<in> set (work_items db). ?p w}" using mset_eq_setD [OF rows] by auto
  have len: "length rows = rowcount ?p (work_items db)"
    using mset_eq_length [OF rows] by (simp add: rowcount_def)
  have due: "hard_expiry_due now r" if "r \<in> set rows" for r using that rset by simp
  from expiry.sweep_table [OF fold assms(1) rows due] show ?thesis unfolding rset len .
qed

lemma recover_spec:
  assumes "wf_ledger db" and "recover_expired_leases db now target = Inr (db', n)"
  shows "lsteps db db' \<and> swept (work_item_id ` {w \<in> set (work_items db). lease_due now w
      \<and> (case target of None \<Rightarrow> True | Some i \<Rightarrow> work_item_id w = i)}) {READY, FAILED_PERMANENT} db db'
    \<and> n = rowcount (\<lambda>w. lease_due now w \<and> (case target of None \<Rightarrow> True | Some i \<Rightarrow> work_item_id w = i))
        (work_items db)"
proof -
  let ?p = "\<lambda>w. lease_due now w \<and> (case target of None \<Rightarrow> True | Some i \<Rightarrow> work_item_id w = i)"
  obtain rows where rows: "mset rows = mset (filter ?p (work_items db))"
    and fold: "fold_res (recover_row now) rows (db, 0) = Inr (db', n)"
    using assms(2) unfolding recover_expired_leases_def Let_def by (rule that [OF mset_due_rows])
  have rset: "set rows = {w \<in> set (work_items db). ?p w}" using mset_eq_setD [OF rows] by auto
  have len: "length rows = rowcount ?p (work_items db)"
    using mset_eq_length [OF rows] by (simp add: rowcount_def)
  have due: "lease_due now r" if "r \<in> set rows" for r using that rset by simp
  from recovery.sweep_table [OF fold assms(1) rows due] show ?thesis unfolding rset len .
qed

lemma maintain_parts:
  assumes "wf_ledger db" and "maintain db now all = Inr (db', n)"
  obtains db1 n1 db2 n2 db3 where
    "expire_hard_deadlines db now None = Inr (db1, n1)" "lsteps db db1" "wf_ledger db1"
    "recover_expired_leases db1 now None = Inr (db2, n2)" "lsteps db1 db2" "wf_ledger db2"
    "db3 = upd_items (\<lambda>w. state w = RETRY_WAIT \<and> retry_is_due now w) (row_retry_due now) db2"
    "lstep db2 db3" "wf_ledger db3"
    "lsteps db3 db'" "cascade db3 db'" "all = False \<Longrightarrow> db' = db3"
    "all = True \<Longrightarrow> \<exists>m. refresh_planned db3 now 0 = Inr (db', m)
       \<and> n = n1 + n2 + rowcount (\<lambda>w. state w = RETRY_WAIT \<and> retry_is_due now w) (work_items db2) + m"
proof -
  let ?p = "\<lambda>w. state w = RETRY_WAIT \<and> retry_is_due now w"
  obtain db1 n1 db2 n2 where e: "expire_hard_deadlines db now None = Inr (db1, n1)"
    and r: "recover_expired_leases db1 now None = Inr (db2, n2)"
    using assms(2) by (auto simp: maintain_def result_simps)
  define db3 where "db3 = upd_items ?p (row_retry_due now) db2"
  have s1: "lsteps db db1" using expire_spec [OF assms(1) e] by blast
  then have wf1: "wf_ledger db1" using assms(1) lsteps_wf by blast
  have s2: "lsteps db1 db2" using recover_spec [OF wf1 r] by blast
  then have wf2: "wf_ledger db2" using wf1 lsteps_wf by blast
  have s3: "lstep db2 db3" unfolding db3_def by (rule lstep.retry_due)
  then have wf3: "wf_ledger db3" using wf2 lstep_wf by blast
  have last: "if all then \<exists>m. refresh_planned db3 now 0 = Inr (db', m)
       \<and> n = n1 + n2 + rowcount ?p (work_items db2) + m else db' = db3"
    using assms(2) e r by (auto simp: maintain_def result_simps Let_def db3_def split: if_splits)
  have "lsteps db3 db' \<and> cascade db3 db'"
    using last refresh_planned_step [OF _ wf3] by (auto split: if_splits)
  with e s1 wf1 r s2 wf2 s3 wf3 last show thesis
    by (intro that [OF e s1 wf1 r s2 wf2 db3_def s3 wf3]) auto
qed

lemma maintain_steps:
  assumes "wf_ledger db" and "maintain db now all = Inr (db', n)"
  shows "lsteps db db'"
  by (rule maintain_parts [OF assms]) (meson rtranclp_trans r_into_rtranclp)

lemma reconcile_exact_steps:
  assumes wf: "wf_ledger db" and "reconcile_exact_due_state i now db = Inr (db', n)"
  shows "lsteps db db'"
proof -
  obtain db1 n1 db2 n2 where e: "expire_hard_deadlines db now (Some i) = Inr (db1, n1)"
    and r: "recover_expired_leases db1 now (Some i) = Inr (db2, n2)"
    using assms(2) by (auto simp: reconcile_exact_due_state_def result_simps)
  have s1: "lsteps db db1" using expire_spec [OF wf e] by blast
  then have wf1: "wf_ledger db1" using wf lsteps_wf by blast
  have s2: "lsteps db1 db2" using recover_spec [OF wf1 r] by blast
  then have wf2: "wf_ledger db2" using wf1 lsteps_wf by blast
  have "lsteps db2 db'"
    using assms(2) e r refresh_downstream_step [OF _ wf2]
    by (auto simp: reconcile_exact_due_state_def result_simps Let_def split: if_splits)
  with s1 s2 show ?thesis by (meson rtranclp_trans)
qed

end
