(* ===== verification/Work_Commands.thy ===== *)
theory Work_Commands
  imports Work_Maintenance
begin

text \<open>
  The refinement of every public operation: the ledger a call leaves, whether it returns or
  raises, is reached from the one it found by lifecycle steps.
\<close>

section \<open>Transactions\<close>

lemma transaction_steps:
  assumes "\<And>db' r. operation db = Inr (db', r) \<Longrightarrow> lsteps db db'"
  shows "lsteps db (fst (transaction operation db))"
  using assms by (auto simp: transaction_def split: sum.splits)

lemma fenced_transaction_steps:
  assumes wf: "wf_ledger db" and "\<And>db' r. operation db = Inr (db', r) \<Longrightarrow> lsteps db db'"
  shows "lsteps db (fst (fenced_transaction i now operation db))"
proof -
  obtain db1 r where t: "transaction operation db = (db1, r)" by force
  have s1: "lsteps db db1" using transaction_steps [of operation db, OF assms(2)] t by simp
  then have wf1: "wf_ledger db1" using wf lsteps_wf by blast
  have s2: "lsteps db1 (fst (transaction (reconcile_exact_due_state i now) db1))"
    by (rule transaction_steps) (rule reconcile_exact_steps [OF wf1])
  have "fst (fenced_transaction i now operation db) \<in>
      {db1, fst (transaction (reconcile_exact_due_state i now) db1)}"
    by (auto simp: fenced_transaction_def t split: sum.splits work_error.splits prod.splits)
  with s1 s2 show ?thesis by (auto intro: rtranclp_trans)
qed

section \<open>Planning\<close>

lemma check_upstreams_Inr:
  "check_upstreams db plan ds = Inr u \<Longrightarrow> d \<in> set ds \<Longrightarrow>
    \<exists>v. item_of db (upstream_work_item_id d) = Some v \<and> run_id v = run_id plan"
  by (induction ds) (auto split: option.splits if_splits)

lemma validate_plan_dependencies_Inr [result_simps]:
  "validate_plan_dependencies plan ds = Inr u \<longleftrightarrow>
    (\<forall>d \<in> set ds. downstream_work_item_id d = work_item_id plan)
    \<and> distinct (map dependency_id ds) \<and> distinct (map upstream_work_item_id ds)"
  by (auto simp: validate_plan_dependencies_def list_ex_iff)

definition planned_ledger :: "WorkItemPlan \<Rightarrow> WorkDependency list \<Rightarrow> ledger \<Rightarrow> ledger" where
  "planned_ledger plan ds db = db\<lparr>work_items := work_items db @ [planned_row plan],
     work_dependencies := work_dependencies db @ ds\<rparr>"

lemma plan_cases:
  assumes "plan_in_transaction plan ds refresh db = Inr (db', item)"
  obtains (replay) "db' = db" "item_of db (work_item_id plan) = Some item" "plan_matches item plan"
      "dependencies_of db (work_item_id plan) = sort_key dependency_id ds"
  | (fresh) n where
      "\<forall>v \<in> set (work_items db). work_item_id v \<noteq> work_item_id plan \<and> work_logical_key v \<noteq> work_logical_key plan"
      "1 \<le> max_attempts plan" "\<not> list_ex (dependency_conflict db) ds" "check_upstreams db plan ds = Inr ()"
      "if refresh then refresh_planned_for_work_ids (planned_ledger plan ds db) (created_at plan) [work_item_id plan] = Inr (db', n)
       else db' = planned_ledger plan ds db"
      "load_item db' (work_item_id plan) = Inr item"
proof -
  let ?p = "\<lambda>w. work_item_id w = work_item_id plan \<or> work_logical_key w = work_logical_key plan"
  show thesis
  proof (cases "filter ?p (work_items db)")
    case Nil
    then have new: "\<forall>v \<in> set (work_items db). work_item_id v \<noteq> work_item_id plan \<and> work_logical_key v \<noteq> work_logical_key plan"
      by (auto simp: filter_empty_conv)
    with Nil assms have fresh_plan: "1 \<le> max_attempts plan" "\<not> list_ex (dependency_conflict db) ds"
      "check_upstreams db plan ds = Inr ()" "load_item db' (work_item_id plan) = Inr item"
      "\<exists>n. if refresh then refresh_planned_for_work_ids (planned_ledger plan ds db) (created_at plan)
          [work_item_id plan] = Inr (db', n) else db' = planned_ledger plan ds db"
      by (auto simp: plan_in_transaction_def Let_def result_simps planned_ledger_def split: if_splits)
    then show thesis using fresh [OF new] by blast
  next
    case (Cons w ws)
    have "item_of db (work_item_id plan) = Some item" if "filter ?p (work_items db) = [item]"
      "work_item_id item = work_item_id plan"
    proof -
      have "find_row (\<lambda>w. work_item_id w = work_item_id plan) rows = Some item"
        if "filter ?p rows = [item]" for rows
        using that \<open>work_item_id item = _\<close> by (induction rows) (auto simp: find_row_def split: if_splits)
      then show ?thesis using that(1) by (simp add: item_of_def)
    qed
    with assms Cons show thesis
      by (intro replay) (auto simp: plan_in_transaction_def Let_def result_simps split: if_splits)
  qed
qed

lemma plan_insert_step:
  assumes wf: "wf_ledger db" and val: "validate_plan_dependencies plan ds = Inr u"
    and new: "\<forall>v \<in> set (work_items db). work_item_id v \<noteq> work_item_id plan \<and> work_logical_key v \<noteq> work_logical_key plan"
    and max: "1 \<le> max_attempts plan" and conf: "\<not> list_ex (dependency_conflict db) ds"
    and up: "check_upstreams db plan ds = Inr ()"
  shows "lstep db (planned_ledger plan ds db)"
proof -
  have deps: "\<forall>d \<in> set ds. downstream_work_item_id d = work_item_id plan
      \<and> (\<exists>u. item_of db (upstream_work_item_id d) = Some u \<and> run_id u = run_id plan)"
    using val check_upstreams_Inr [OF up] by (auto simp: result_simps)
  have "dependency_id d \<noteq> dependency_id e" if "d \<in> set ds" "e \<in> set (work_dependencies db)" for d e
    using conf that unfolding list_ex_iff dependency_conflict_def by metis
  then have "set (map dependency_id (work_dependencies db)) \<inter> set (map dependency_id ds) = {}"
    unfolding set_map disjoint_iff by (metis imageE)
  then have "distinct (map dependency_id (work_dependencies db @ ds))"
    using val wf_ledgerD(2) [OF wf] by (auto simp: result_simps wf_deps_def)
  then show ?thesis unfolding planned_ledger_def by (rule lstep.insert_plan [OF new max deps])
qed

lemma plan_steps:
  assumes wf: "wf_ledger db" and val: "validate_plan_dependencies plan ds = Inr u"
    and "plan_in_transaction plan ds refresh db = Inr (db', item)"
  shows "lsteps db db'"
  using assms(3)
proof (cases rule: plan_cases)
  case replay
  then show ?thesis by simp
next
  case (fresh n)
  have step: "lstep db (planned_ledger plan ds db)" by (rule plan_insert_step [OF wf val fresh(1-4)])
  have "lsteps (planned_ledger plan ds db) db'"
    using fresh(5) refresh_work_ids_step [OF _ lstep_wf [OF step wf]] by (auto split: if_splits)
  with step show ?thesis by (rule converse_rtranclp_into_rtranclp)
qed

lemma insert_plans_steps:
  "insert_plans plans db = Inr db' \<Longrightarrow> validate_all_plans plans = Inr u \<Longrightarrow> wf_ledger db \<Longrightarrow> lsteps db db'"
proof (induction plans db rule: insert_plans.induct)
  case (1 db)
  then show ?case by simp
next
  case (2 plan ds rest db)
  then obtain db1 item where p: "plan_in_transaction plan ds False db = Inr (db1, item)"
    and rest: "insert_plans rest db1 = Inr db'"
    and val: "validate_plan_dependencies plan ds = Inr ()" "validate_all_plans rest = Inr ()"
    by (auto simp: result_simps)
  have s: "lsteps db db1" by (rule plan_steps [OF 2(4) val(1) p])
  then have "lsteps db1 db'" using 2(1) [OF rest] val(2) lsteps_wf 2(4) by auto
  with s show ?case by (rule rtranclp_trans)
qed

lemma plan_op_steps: "wf_ledger db \<Longrightarrow> lsteps db (fst (plan_op plan ds db))"
  using plan_steps by (auto simp: plan_op_def intro!: transaction_steps split: sum.splits)

lemma plan_many_steps:
  assumes wf: "wf_ledger db"
  shows "lsteps db (fst (plan_many plans db))"
proof (cases "plans = [] \<or> validate_all_plans plans \<noteq> Inr ()")
  case True
  then show ?thesis by (cases "validate_all_plans plans") (auto simp: plan_many_def)
next
  case False
  have "lsteps db db'"
    if run: "rbind (insert_plans plans db) (\<lambda>db1. rbind (refresh_planned_for_work_ids db1 t ids) (\<lambda>(db2, n).
      rbind (load_all db2 ids) (\<lambda>items. Inr (db2, items)))) = Inr (db', r)" for t ids db' r
  proof -
    obtain db1 n where i: "insert_plans plans db = Inr db1"
      and s: "refresh_planned_for_work_ids db1 t ids = Inr (db', n)"
      using run by (auto simp: result_simps)
    have s1: "lsteps db db1" using insert_plans_steps [OF i _ wf] False by simp
    then have "lsteps db1 db'" using refresh_work_ids_step [OF s] wf lsteps_wf by blast
    with s1 show ?thesis by (rule rtranclp_trans)
  qed
  with False show ?thesis by (auto simp: plan_many_def intro!: transaction_steps)
qed

section \<open>Claims\<close>

lemma ready_candidate:
  assumes "wf_ledger db" and "min_by dispatch_key (ready_candidates target db) = Some row"
  shows "item_of db (work_item_id row) = Some row" and "state row = READY"
    and "target \<noteq> None \<Longrightarrow> target = Some (work_item_id row)"
    and "\<And>w. w \<in> set (ready_candidates target db) \<Longrightarrow> dispatch_key row \<le> dispatch_key w"
proof -
  note m = min_by_Some [OF assms(2)]
  show "item_of db (work_item_id row) = Some row"
    using m item_of_mem [OF wf_ledgerD(5) [OF assms(1)]] by (simp add: ready_candidates_def)
  show "state row = READY" "target \<noteq> None \<Longrightarrow> target = Some (work_item_id row)"
    using m(1) by (auto simp: ready_candidates_def split: option.splits)
  show "\<And>w. w \<in> set (ready_candidates target db) \<Longrightarrow> dispatch_key row \<le> dispatch_key w"
    using m(2) by blast
qed

definition claimed_ledger :: "string \<Rightarrow> int \<Rightarrow> time \<Rightarrow> bool \<Rightarrow> string \<Rightarrow> WorkItem \<Rightarrow> ledger \<Rightarrow> ledger" where
  "claimed_ledger worker duration now start_immediately token row db =
     (upd_item (work_item_id row) (row_claim (if start_immediately then RUNNING else LEASED)
         (lease_epoch row + 1) token worker (plus_seconds now duration) (attempt row + 1) now) db)
       \<lparr>work_attempts := work_attempts db @
         [new_attempt (work_item_id row) (attempt row + 1) (lease_epoch row + 1) token worker now
           (if start_immediately then Some now else None)]\<rparr>"

lemma claim_row_Inr:
  assumes wf: "wf_ledger db" and row: "item_of db (work_item_id row) = Some row" "state row = READY"
    and cl: "claim_row worker duration now s token row db = Inr (db', r)"
  shows "db' = claimed_ledger worker duration now s token row db" and "lstep db db'"
    and "\<exists>item. load_item db' (work_item_id row) = Inr item \<and> r = Some \<lparr>claimed_item = item,
      claimed_lease = \<lparr>lease_work_item_id = work_item_id row, worker_id = worker,
        granted_epoch = lease_epoch row + 1, granted_token = token,
        granted_expires_at = plus_seconds now duration\<rparr>\<rparr>"
proof -
  let ?q = "\<lambda>w. state w = READY \<and> row_version w = row_version row"
  let ?f = "row_claim (if s then RUNNING else LEASED) (lease_epoch row + 1) token worker
    (plus_seconds now duration) (attempt row + 1) now"
  let ?a = "new_attempt (work_item_id row) (attempt row + 1) (lease_epoch row + 1) token worker now
    (if s then Some now else None)"
  have rc: "rowcount (\<lambda>w. work_item_id w = work_item_id row \<and> ?q w) (work_items db) = 1"
    using cl by (auto simp: claim_row_def Let_def split: if_splits)
  have upd: "upd_items (\<lambda>w. work_item_id w = work_item_id row \<and> ?q w) ?f db = upd_item (work_item_id row) ?f db"
    by (rule guarded_update [OF wf_ledgerD(5) [OF wf] rc])
  have nc: "\<not> attempt_conflict (upd_item (work_item_id row) ?f db) ?a"
    and ld: "\<exists>item. load_item db' (work_item_id row) = Inr item \<and> r = Some \<lparr>claimed_item = item,
      claimed_lease = \<lparr>lease_work_item_id = work_item_id row, worker_id = worker,
        granted_epoch = lease_epoch row + 1, granted_token = token,
        granted_expires_at = plus_seconds now duration\<rparr>\<rparr>"
    and db': "db' = claimed_ledger worker duration now s token row db"
    using cl unfolding claim_row_def Let_def upd
    by (auto simp: rc validate_binding_Inr claimed_ledger_def result_simps split: if_splits)
  show "db' = claimed_ledger worker duration now s token row db" by (rule db')
  show "\<exists>item. load_item db' (work_item_id row) = Inr item \<and> r = Some \<lparr>claimed_item = item,
      claimed_lease = \<lparr>lease_work_item_id = work_item_id row, worker_id = worker,
        granted_epoch = lease_epoch row + 1, granted_token = token,
        granted_expires_at = plus_seconds now duration\<rparr>\<rparr>"
    by (rule ld)
  have "\<forall>a \<in> set (work_attempts db). attempt_token a \<noteq> token"
    using nc by (auto simp: attempt_conflict_def list_ex_iff new_attempt_def)
  moreover have "leased_state (if s then RUNNING else LEASED)" by simp
  ultimately show "lstep db db'"
    unfolding db' claimed_ledger_def by (intro lstep.claim_ready [OF row])
qed

lemma claim_steps:
  assumes wf: "wf_ledger db" and "claim_in_transaction worker duration target now s token db = Inr (db', r)"
  shows "lsteps db db'"
proof -
  obtain db1 n where m: "maintain db now False = Inr (db1, n)"
    using assms(2) by (auto simp: claim_in_transaction_def result_simps)
  have s1: "lsteps db db1" by (rule maintain_steps [OF wf m])
  then have wf1: "wf_ledger db1" using wf lsteps_wf by blast
  show ?thesis
  proof (cases "min_by dispatch_key (ready_candidates target db1)")
    case None
    with assms(2) m s1 show ?thesis by (simp add: claim_in_transaction_def)
  next
    case (Some row)
    with assms(2) m have "claim_row worker duration now s token row db1 = Inr (db', r)"
      by (simp add: claim_in_transaction_def)
    then have "lstep db1 db'" using claim_row_Inr(2) [OF wf1 ready_candidate(1,2) [OF wf1 Some]] by blast
    with s1 show ?thesis by simp
  qed
qed

section \<open>Operations under a lease\<close>

lemma require_lease_Inr:
  assumes "require_lease db lease now = Inr item"
  shows "item_of db (lease_work_item_id lease) = Some item" and "lease_current lease now item"
    and "work_item_id item = lease_work_item_id lease" and "leased_state (state item)"
    and "shape_ok item" and "clock_ok item"
  using assms item_of_id by (auto simp: require_lease_def lease_current_def leased_state_def result_simps)

text \<open>A conditional update of the leased row, as the operations under a lease make it.\<close>

lemma leased_update:
  assumes "wf_ledger db" and "work_items db1 = work_items db"
    and "rowcount (\<lambda>w. work_item_id w = i \<and> q w) (work_items db1) = 1"
  shows "upd_items (\<lambda>w. work_item_id w = i \<and> q w) f db1 = upd_item i f db1"
proof -
  have "distinct (map work_item_id (work_items db1))" using wf_ledgerD(5) [OF assms(1)] assms(2) by simp
  then show ?thesis by (rule guarded_update [OF _ assms(3)])
qed

lemma start_steps:
  assumes wf: "wf_ledger db" and run: "start_in_transaction lease now db = Inr (db', r)"
  shows "lsteps db db'"
proof -
  obtain item where rl: "require_lease db lease now = Inr item"
    using run by (auto simp: start_in_transaction_def result_simps)
  note item = require_lease_Inr [OF rl]
  show ?thesis
  proof (cases "state item = RUNNING")
    case True
    with run rl show ?thesis by (simp add: start_in_transaction_def)
  next
    case False
    let ?p = "\<lambda>w. work_item_id w = work_item_id item \<and> (state w = LEASED \<and> holds_lease lease w)"
    let ?q = "\<lambda>a. attempt_work_item_id a = work_item_id item \<and> attempt_number a = attempt item
      \<and> outcome a = Attempt_ACTIVE"
    have st: "state item = LEASED" and rc: "rowcount ?p (work_items db) = 1"
      and db': "db' = upd_attempts ?q (attempt_start now) (upd_items ?p (row_start now) db)"
      using run rl False by (auto simp: start_in_transaction_def result_simps Let_def split: if_splits)
    have "db' = upd_attempts ?q (attempt_start now) (upd_item (work_item_id item) (row_start now) db)"
      unfolding db' by (simp only: leased_update [OF wf refl rc])
    then have "lstep db db'" using lstep.start_leased [OF item(1) st] item(3) by simp
    then show ?thesis by simp
  qed
qed

lemma heartbeat_steps:
  assumes wf: "wf_ledger db" and run: "heartbeat_in_transaction lease duration now db = Inr (db', r)"
  shows "lsteps db db'"
proof -
  obtain item where rl: "require_lease db lease now = Inr item"
    using run by (auto simp: heartbeat_in_transaction_def result_simps)
  note item = require_lease_Inr [OF rl]
  let ?p = "\<lambda>w. work_item_id w = work_item_id item \<and> (holds_lease lease w \<and> state w \<in> {LEASED, RUNNING})"
  have rc: "rowcount ?p (work_items db) = 1"
    and db': "db' = upd_items ?p (row_heartbeat (plus_seconds now duration) now) db"
    using run rl by (auto simp: heartbeat_in_transaction_def result_simps Let_def split: if_splits)
  have "lstep db db'"
    unfolding db' leased_update [OF wf refl rc] unfolding item(3)
    by (rule lstep.heartbeat_leased [OF item(1,4)])
  then show ?thesis by simp
qed

text \<open>A leased item ends: its attempt is finished, the row becomes terminal, the cascade and
  the maintenance follow.\<close>

lemma finish_and_maintain_steps:
  assumes wf: "wf_ledger db" and item: "item_of db (work_item_id item) = Some item" "leased_state (state item)"
    and f: "finish_attempt db item oc now code' detail' = Inr db1"
    and t: "set_terminal db1 item st now code detail ref sha c = Inr db2"
    and r: "refresh_downstream_for_upstreams db2 now [work_item_id item] = Inr (db3, n)"
    and m: "maintain db3 now False = Inr (db4, k)"
    and side: "terminal_state st" "oc \<noteq> Attempt_ACTIVE" "(ref = None) = (sha = None)"
      "st \<noteq> SUCCEEDED \<longrightarrow> code \<noteq> None \<and> ref = None" "detail \<noteq> None \<longrightarrow> code \<noteq> None"
  shows "lsteps db db4"
proof -
  have s: "lstep db db2" by (rule leased_terminal_step [OF wf item f t side])
  have wf2: "wf_ledger db2" by (rule lstep_wf [OF s wf])
  have s3: "lsteps db2 db3" using refresh_downstream_step [OF r wf2] by blast
  have wf3: "wf_ledger db3" using s3 wf2 lsteps_wf by blast
  have "lsteps db3 db4" by (rule maintain_steps [OF wf3 m])
  with s s3 show ?thesis by (meson converse_rtranclp_into_rtranclp rtranclp_trans)
qed

lemma succeed_steps:
  assumes wf: "wf_ledger db" and run: "succeed_in_transaction lease ref sha now db = Inr (db', r)"
    and res: "(ref = None) = (sha = None)"
  shows "lsteps db db'"
proof -
  obtain item where rl: "require_lease db lease now = Inr item"
    using run by (auto simp: succeed_in_transaction_def result_simps)
  note item = require_lease_Inr [OF rl]
  obtain db1 db2 db3 n k where
    "finish_attempt db item Attempt_SUCCEEDED now None None = Inr db1"
    "set_terminal db1 item SUCCEEDED now None None ref sha False = Inr db2"
    "refresh_downstream_for_upstreams db2 now [work_item_id item] = Inr (db3, n)"
    "maintain db3 now False = Inr (db', k)"
    using run rl by (auto simp: succeed_in_transaction_def result_simps split: if_splits)
  from finish_and_maintain_steps [OF wf _ item(4) this] item(1,3) res show ?thesis by simp
qed

lemma fail_steps:
  assumes wf: "wf_ledger db" and run: "fail_in_transaction lease code retryable detail delay now db = Inr (db', r)"
  shows "lsteps db db'"
proof -
  obtain item where rl: "require_lease db lease now = Inr item"
    using run by (auto simp: fail_in_transaction_def result_simps)
  note item = require_lease_Inr [OF rl]
  show ?thesis
  proof (cases "will_retry item retryable (plus_seconds now delay)")
    case True
    let ?p = "\<lambda>w. work_item_id w = work_item_id item \<and> (holds_lease lease w \<and> state w \<in> {LEASED, RUNNING})"
    obtain db1 where f: "finish_attempt db item Attempt_FAILED_RETRYABLE now (Some code) detail = Inr db1"
      and rc: "rowcount ?p (work_items db1) = 1"
      and db': "db' = upd_items ?p (row_retry_wait (plus_seconds now delay) now) db1"
      using run rl True by (auto simp: fail_in_transaction_def result_simps Let_def split: if_splits)
    note db1 = finish_attempt_Inr [OF f]
    have same: "work_items db1 = work_items db" by (simp add: db1)
    have less: "attempt item < max_attempts item" using True by (simp add: will_retry_def)
    have "lstep db db'"
      unfolding db' leased_update [OF wf same rc] unfolding item(3) db1
      by (rule lstep.retry_later [OF item(1,4) less]) simp
    then show ?thesis by simp
  next
    case False
    then obtain db1 db2 db3 n k where
      "finish_attempt db item Attempt_FAILED_PERMANENT now (Some code) detail = Inr db1"
      "set_terminal db1 item FAILED_PERMANENT now (Some code) detail None None False = Inr db2"
      "refresh_downstream_for_upstreams db2 now [work_item_id item] = Inr (db3, n)"
      "maintain db3 now False = Inr (db', k)"
      using run rl by (auto simp: fail_in_transaction_def result_simps Let_def split: if_splits)
    from finish_and_maintain_steps [OF wf _ item(4) this] item(1,3) show ?thesis by simp
  qed
qed

section \<open>Forced terminal states\<close>

lemma terminal_steps:
  assumes wf: "wf_ledger db" and run: "terminal_in_transaction i st oc code detail c now db = Inr (db', r)"
    and side: "terminal_state st" "st \<noteq> SUCCEEDED" "oc \<noteq> Attempt_ACTIVE"
  shows "lsteps db db'"
proof -
  obtain db1 n1 db2 n2 item where e: "expire_hard_deadlines db now (Some i) = Inr (db1, n1)"
    and v: "recover_expired_leases db1 now (Some i) = Inr (db2, n2)"
    and item: "item_of db2 i = Some item"
    using run by (auto simp: terminal_in_transaction_def result_simps)
  have s1: "lsteps db db1" using expire_spec [OF wf e] by blast
  then have wf1: "wf_ledger db1" using wf lsteps_wf by blast
  have s2: "lsteps db1 db2" using recover_spec [OF wf1 v] by blast
  then have wf2: "wf_ledger db2" using wf1 lsteps_wf by blast
  note id = item_of_id [OF item]
  have "lsteps db2 db'"
  proof (cases "state item = st")
    case True
    with run e v item show ?thesis by (auto simp: terminal_in_transaction_def result_simps split: if_splits)
  next
    case False
    obtain db3 db4 db5 n k where
      f: "(if state item \<in> {LEASED, RUNNING} then finish_attempt db2 item oc now (Some code) detail else Inr db2) = Inr db3"
      and t: "set_terminal db3 item st now (Some code) detail None None c = Inr db4"
      and d: "refresh_downstream_for_upstreams db4 now [work_item_id item] = Inr (db5, n)"
      and m: "maintain db5 now False = Inr (db', k)"
      using run e v item False by (auto simp: terminal_in_transaction_def result_simps split: if_splits)
    show ?thesis
    proof (cases "leased_state (state item)")
      case True
      then have "finish_attempt db2 item oc now (Some code) detail = Inr db3"
        using f by (simp add: leased_state_def)
      from finish_and_maintain_steps [OF wf2 _ True this t d m] item id side show ?thesis by simp
    next
      case False
      then have [simp]: "db3 = db2" using f by (simp add: leased_state_def)
      have idle: "\<not> leased_state (state w)" if "item_of db2 (work_item_id item) = Some w" for w
        using that item id False by simp
      have s: "lstep db2 db4"
        by (rule idle_terminal_step [OF wf2 t [simplified] idle side(1,2)]) simp_all
      have wf4: "wf_ledger db4" by (rule lstep_wf [OF s wf2])
      have s5: "lsteps db4 db5" using refresh_downstream_step [OF d wf4] by blast
      have "lsteps db5 db'" by (rule maintain_steps [OF lsteps_wf [OF s5 wf4] m])
      with s s5 show ?thesis by (meson converse_rtranclp_into_rtranclp rtranclp_trans)
    qed
  qed
  with s1 s2 show ?thesis by (meson rtranclp_trans)
qed

lemma direct_terminal_steps:
  assumes "wf_ledger db" and "terminal_state st" "st \<noteq> SUCCEEDED" "oc \<noteq> Attempt_ACTIVE"
  shows "lsteps db (fst (direct_terminal i st oc code detail c now db))"
  using terminal_steps [OF assms(1) _ assms(2-4)]
  by (auto simp: direct_terminal_def intro!: transaction_steps split: sum.splits)

section \<open>Every command\<close>

lemma check_result_Inr: "check_result ref sha = Inr u \<Longrightarrow> (ref = None) = (sha = None)"
  by (auto simp: check_result_def split: if_splits)

lemma run_command_steps:
  assumes wf: "wf_ledger db"
  shows "lsteps db (run_command cmd db)"
proof (cases cmd)
  case (Plan p ds)
  then show ?thesis using plan_op_steps [OF wf] by simp
next
  case (Plan_many ps)
  then show ?thesis using plan_many_steps [OF wf] by simp
next
  case (Reconcile now)
  then show ?thesis using maintain_steps [OF wf] by (auto simp: reconcile_def intro!: transaction_steps)
next
  case (Claim s worker d target now token)
  then show ?thesis
    using claim_steps [OF wf] by (auto simp: claim_with_def intro!: transaction_steps split: sum.splits)
next
  case (Start lease now)
  then show ?thesis using start_steps [OF wf] by (simp add: start_def fenced_transaction_steps [OF wf])
next
  case (Heartbeat lease d now)
  then show ?thesis
    using heartbeat_steps [OF wf] by (auto simp: heartbeat_def intro!: fenced_transaction_steps [OF wf] split: sum.splits)
next
  case (Succeed lease ref sha now)
  then show ?thesis
    using succeed_steps [OF wf] check_result_Inr
    by (auto simp: succeed_def intro!: fenced_transaction_steps [OF wf] split: sum.splits)
next
  case (Fail lease code retryable detail delay now)
  then show ?thesis
    using fail_steps [OF wf] by (auto simp: fail_def intro!: fenced_transaction_steps [OF wf] split: sum.splits)
next
  case (Cancel i code detail now)
  then show ?thesis using direct_terminal_steps [OF wf] by (simp add: cancel_def)
next
  case (Skip i st code detail now)
  then show ?thesis using direct_terminal_steps [OF wf] by (auto simp: skip_def)
next
  case (Invalidate i code detail now)
  then show ?thesis using direct_terminal_steps [OF wf] by (simp add: invalidate_def)
qed

lemma run_commands_steps: "wf_ledger db \<Longrightarrow> lsteps db (run_commands cs db)"
  unfolding run_commands_def
proof (induction cs arbitrary: db)
  case Nil
  then show ?case by simp
next
  case (Cons c cs)
  note s = run_command_steps [OF Cons.prems, of c]
  show ?case using rtranclp_trans [OF s Cons.IH [OF lsteps_wf [OF s Cons.prems]]] by simp
qed

end
