(* ===== verification/Work_Quiescence.thy ===== *)
theory Work_Quiescence
  imports Work_Commands
begin

text \<open>
  What a reconciliation achieves: nothing in the ledger it leaves is due, a second one at
  the same time changes nothing, and as long as an item is unfinished some item can be
  claimed, is being worked on, or waits for its retry time.
\<close>

section \<open>Rows between two ledgers\<close>

lemma lsteps_row:
  assumes "lsteps db db'" and "wf_ledger db" and "item_of db j = Some w"
  obtains w' where "item_of db' j = Some w'" "row_evolves w w'"
  using lsteps_evolves [OF assms(1,2)] assms(3) unfolding evolves_def by meson

lemma not_hard_due_row:
  assumes "row_evolves w w'" and "shape_ok w" and "\<not> hard_expiry_due now w"
  shows "\<not> hard_expiry_due now w'"
proof (cases "terminal_state (state w)")
  case True
  with assms show ?thesis by (simp add: row_evolves_def)
next
  case False
  then have "completed_at w = None" using assms(2) by (simp add: shape_ok_def)
  moreover have "execution_expiry_at w' = execution_expiry_at w"
    using assms(1) by (intro plan_of_eqD(6)) (simp add: row_evolves_def)
  ultimately show ?thesis using assms(3) by (simp add: hard_expiry_due_def)
qed

lemma not_hard_due_lsteps:
  assumes "lsteps db db'" and wf: "wf_ledger db" and "item_of db j = Some w" "\<not> hard_expiry_due now w"
    and "item_of db' j = Some w'"
  shows "\<not> hard_expiry_due now w'"
proof -
  obtain v where v: "item_of db' j = Some v" "row_evolves w v" by (rule lsteps_row [OF assms(1-3)])
  have "shape_ok w" using wf_row(1) [OF wf_ledgerD(1) [OF wf] assms(3)] .
  with v assms(4,5) show ?thesis using not_hard_due_row by auto
qed

text \<open>No loop of the maintenance inserts a row.\<close>

lemma swept_source:
  assumes "swept ids S db db'" and "item_of db' j = Some w'"
  obtains w where "item_of db j = Some w"
  using assms by (cases "j \<in> ids") (auto simp: swept_def moved_def)

lemma moved_leased:
  assumes "moved db db' j" and "item_of db' j = Some w'" and "leased_state (state w')"
  shows "item_of db j = Some w'"
  using assms by (auto simp: moved_def)

section \<open>The ledger a maintenance pass leaves\<close>

definition nothing_due :: "time \<Rightarrow> ledger \<Rightarrow> bool" where
  "nothing_due now db \<longleftrightarrow>
     (\<forall>w \<in> set (work_items db). \<not> hard_expiry_due now w \<and> \<not> lease_due now w
        \<and> \<not> (state w = RETRY_WAIT \<and> retry_is_due now w))"

definition quiescent :: "time \<Rightarrow> ledger \<Rightarrow> bool" where
  "quiescent now db \<longleftrightarrow> nothing_due now db
     \<and> (\<forall>w \<in> set (work_items db). state w = PLANNED \<longrightarrow> \<not> upstreams_done db (work_item_id w))"

lemma wf_item_of_iff:
  assumes "wf_ledger db"
  shows "w \<in> set (work_items db) \<longleftrightarrow> item_of db (work_item_id w) = Some w"
  using item_of_mem [OF wf_ledgerD(5) [OF assms]] item_of_in by blast

lemma expire_leaves_none_due:
  assumes wf: "wf_ledger db" and e: "expire_hard_deadlines db now None = Inr (db', n)"
    and w': "item_of db' j = Some w'"
  shows "\<not> hard_expiry_due now w'"
proof -
  let ?ids = "work_item_id ` {w \<in> set (work_items db). hard_expiry_due now w}"
  have s: "lsteps db db'" and sw: "swept ?ids {EXPIRED} db db'"
    using expire_spec [OF wf e] by simp_all
  show ?thesis
  proof (cases "j \<in> ?ids")
    case True
    then have "state w' = EXPIRED" using sw w' by (auto simp: swept_def)
    moreover have "shape_ok w'" using wf_row(1) [OF wf_ledgerD(1) [OF lsteps_wf [OF s wf]] w'] .
    ultimately show ?thesis by (simp add: shape_ok_def hard_expiry_due_def)
  next
    case False
    obtain w where w: "item_of db j = Some w" by (rule swept_source [OF sw w'])
    then have "\<not> hard_expiry_due now w" using False item_of_in [OF w] item_of_id [OF w] by blast
    then show ?thesis by (rule not_hard_due_lsteps [OF s wf w _ w'])
  qed
qed

lemma recover_leaves_none_due:
  assumes wf: "wf_ledger db" and e: "recover_expired_leases db now None = Inr (db', n)"
    and w': "item_of db' j = Some w'"
  shows "\<not> lease_due now w'" and "\<exists>w. item_of db j = Some w"
proof -
  let ?ids = "work_item_id ` {w \<in> set (work_items db). lease_due now w}"
  have sw: "swept ?ids {READY, FAILED_PERMANENT} db db'" using recover_spec [OF wf e] by simp
  show "\<exists>w. item_of db j = Some w" using swept_source [OF sw w'] by blast
  show "\<not> lease_due now w'"
  proof (cases "j \<in> ?ids")
    case True
    then show ?thesis using sw w' by (auto simp: swept_def lease_due_def)
  next
    case False
    show ?thesis
    proof
      assume due: "lease_due now w'"
      then have "item_of db j = Some w'"
        using sw False moved_leased [OF _ w'] by (auto simp: swept_def lease_due_def leased_state_def)
      with False due item_of_in item_of_id show False by blast
    qed
  qed
qed

lemma retry_upd_item_of:
  "item_of (upd_items (\<lambda>w. state w = RETRY_WAIT \<and> q w) (row_retry_due now) db) j =
    map_option (\<lambda>w. if state w = RETRY_WAIT \<and> q w then row_retry_due now w else w) (item_of db j)"
  by (rule item_of_map) (simp_all add: update_where_def keeps_plan_if)

lemma maintain_nothing_due:
  assumes wf: "wf_ledger db" and m: "maintain db now all = Inr (db', n)"
  shows "nothing_due now db'"
proof (rule maintain_parts [OF wf m])
  fix db1 n1 db2 n2 db3
  assume e: "expire_hard_deadlines db now None = Inr (db1, n1)" and wf1: "wf_ledger db1"
    and r: "recover_expired_leases db1 now None = Inr (db2, n2)" and s2: "lsteps db1 db2" and wf2: "wf_ledger db2"
    and db3: "db3 = upd_items (\<lambda>w. state w = RETRY_WAIT \<and> retry_is_due now w) (row_retry_due now) db2"
    and s3: "lstep db2 db3" and wf3: "wf_ledger db3" and s4: "lsteps db3 db'" and c: "cascade db3 db'"
  have three: "\<not> hard_expiry_due now v \<and> \<not> lease_due now v \<and> \<not> (state v = RETRY_WAIT \<and> retry_is_due now v)"
    if v: "item_of db3 j = Some v" for j v
  proof -
    obtain u where u: "item_of db2 j = Some u"
      and vu: "v = (if state u = RETRY_WAIT \<and> retry_is_due now u then row_retry_due now u else u)"
      using v unfolding db3 retry_upd_item_of by auto
    obtain t where t: "item_of db1 j = Some t" using recover_leaves_none_due(2) [OF wf1 r u] by blast
    have "\<not> hard_expiry_due now u"
      by (rule not_hard_due_lsteps [OF s2 wf1 t expire_leaves_none_due [OF wf e t] u])
    moreover have "\<not> lease_due now u" by (rule recover_leaves_none_due(1) [OF wf1 r u])
    ultimately show ?thesis
      unfolding vu by (auto simp: hard_expiry_due_def lease_due_def row_retry_due_def)
  qed
  have "\<not> hard_expiry_due now w \<and> \<not> lease_due now w \<and> \<not> (state w = RETRY_WAIT \<and> retry_is_due now w)"
    if w: "item_of db' j = Some w" for j w
    using c
  proof (rule cascade_cases [of _ _ j])
    assume "item_of db' j = item_of db3 j"
    then show ?thesis using three w by simp
  next
    fix v w' assume v: "item_of db3 j = Some v" "item_of db' j = Some w'" "state w' \<in> {READY, FAILED_PERMANENT}"
    have "\<not> hard_expiry_due now w"
      using not_hard_due_lsteps [OF s4 wf3 v(1)] three [OF v(1)] w by blast
    with v w show ?thesis by (auto simp: lease_due_def)
  qed
  then show "nothing_due now db'"
    unfolding nothing_due_def using wf_item_of_iff [OF lsteps_wf [OF s4 wf3]] by blast
qed

section \<open>Readiness is complete after a reconciliation\<close>

lemma advance_None_waits:
  assumes wf: "wf_ledger db" and "advance_planned_item db i now = Inr (db', None)"
    and "item_of db i = Some w" "state w = PLANNED"
  shows "\<not> upstreams_done db i"
  using assms item_of_id [OF assms(3)]
  by (auto simp: advance_planned_item_def result_simps Let_def upstreams_done_rows [OF wf] split: if_splits)

lemma refresh_pass_zero:
  "refresh_pass now is db n = Inr (db', n) \<Longrightarrow>
    db' = db \<and> (\<forall>i \<in> set is. advance_planned_item db i now = Inr (db, None))"
proof (induction "is" arbitrary: db)
  case Nil
  then show ?case by simp
next
  case (Cons i "is")
  then obtain db1 r where r: "advance_planned_item db i now = Inr (db1, r)"
    by (auto split: sum.splits)
  show ?case
  proof (cases r)
    case None
    with r advance_None have "db1 = db" by blast
    with Cons r None show ?thesis by simp
  next
    case (Some st)
    with Cons.prems r have "refresh_pass now is db1 (n + 1) = Inr (db', n)" by simp
    then show ?thesis using refresh_pass_count by fastforce
  qed
qed

lemma set_planned_ids: "set (planned_ids db) = work_item_id ` {w \<in> set (work_items db). state w = PLANNED}"
  by (auto simp: planned_ids_def)

lemma refresh_planned_complete:
  "refresh_planned db now n = Inr (db', m) \<Longrightarrow> wf_ledger db \<Longrightarrow>
    \<forall>w \<in> set (work_items db'). state w = PLANNED \<longrightarrow> \<not> upstreams_done db' (work_item_id w)"
proof (induction db now n rule: refresh_planned.induct)
  case (1 db now changed)
  obtain db1 k where k: "refresh_pass now (planned_ids db) db 0 = Inr (db1, k)"
    using 1(2) by (auto simp: refresh_planned.simps [of db] split: sum.splits)
  show ?case
  proof (cases "k = 0")
    case True
    then have stop: "db1 = db" "\<forall>i \<in> set (planned_ids db). advance_planned_item db i now = Inr (db, None)"
      using refresh_pass_zero [of now "planned_ids db" db 0 db1] k by auto
    have "db' = db" using 1(2) k True stop(1) by (simp add: refresh_planned.simps [of db])
    with stop(2) show ?thesis
      using advance_None_waits [OF 1(3)] wf_item_of_iff [OF 1(3)] by (auto simp: set_planned_ids)
  next
    case False
    have "wf_ledger db1" using refresh_pass_step [OF k 1(3)] 1(3) lsteps_wf by blast
    with False 1(1) [OF k refl] 1(2) k show ?thesis by (simp add: refresh_planned.simps [of db])
  qed
qed

lemma maintain_quiescent:
  assumes wf: "wf_ledger db" and m: "maintain db now True = Inr (db', n)"
  shows "quiescent now db'"
  unfolding quiescent_def
proof
  show "nothing_due now db'" by (rule maintain_nothing_due [OF wf m])
  show "\<forall>w \<in> set (work_items db'). state w = PLANNED \<longrightarrow> \<not> upstreams_done db' (work_item_id w)"
    by (rule maintain_parts [OF wf m]) (use refresh_planned_complete in blast)
qed

section \<open>Quiescent ledgers are fixed points\<close>

lemma rowcount_none: "(\<And>r. r \<in> set rows \<Longrightarrow> \<not> p r) \<Longrightarrow> rowcount p rows = 0"
  by (simp add: rowcount_def filter_False)

lemma refresh_pass_stays:
  "(\<And>i. i \<in> set is \<Longrightarrow> advance_planned_item db i now = Inr (db, None)) \<Longrightarrow> refresh_pass now is db n = Inr (db, n)"
  by (induction "is") simp_all

lemma advance_waits:
  assumes wf: "wf_ledger db" and w: "item_of db i = Some w" "state w = PLANNED"
    and waits: "\<not> upstreams_done db i"
  shows "advance_planned_item db i now = Inr (db, None)"
proof -
  have "load_item db i = Inr w"
    using w wf_row(1,2) [OF wf_ledgerD(1) [OF wf] w(1)] by (simp add: result_simps budget_ok_def clock_ok_def)
  with w item_of_id [OF w(1)] waits show ?thesis
    by (simp add: advance_planned_item_def Let_def upstreams_done_rows [OF wf])
qed

lemma maintain_fixpoint:
  assumes wf: "wf_ledger db" and q: "quiescent now db"
  shows "maintain db now True = Inr (db, 0)"
proof -
  have nd: "\<not> hard_expiry_due now w" "\<not> lease_due now w" "\<not> (state w = RETRY_WAIT \<and> retry_is_due now w)"
    if "w \<in> set (work_items db)" for w
    using q that by (auto simp: quiescent_def nothing_due_def)
  have e: "expire_hard_deadlines db now None = Inr (db, 0)" and r: "recover_expired_leases db now None = Inr (db, 0)"
    using nd by (simp_all add: expire_hard_deadlines_def recover_expired_leases_def)
  have u: "upd_items (\<lambda>w. state w = RETRY_WAIT \<and> retry_is_due now w) (row_retry_due now) db = db"
    using nd(3) by (simp add: upd_items_def update_where_none)
  have "advance_planned_item db i now = Inr (db, None)" if "i \<in> set (planned_ids db)" for i
    using that q advance_waits [OF wf] wf_item_of_iff [OF wf]
    by (auto simp: set_planned_ids quiescent_def)
  then have "refresh_planned db now 0 = Inr (db, 0)"
    by (simp add: refresh_planned.simps [of db] refresh_pass_stays)
  then show ?thesis
    using nd(3) by (simp add: maintain_def e r u Let_def rowcount_none)
qed

end
