(* ===== verification/Work_Properties.thy ===== *)
theory Work_Properties
  imports Work_Quiescence
begin

text \<open>
  The properties of the durable work ledger that its clients rely on, each for ledgers
  reached by commands of the scheduler: the invariant, fencing, frozen terminal rows,
  dependency order, attempt budgets, claims, planning and reconciliation.
\<close>

section \<open>Ledgers the scheduler can reach\<close>

definition reachable :: "ledger \<Rightarrow> bool" where
  "reachable db \<longleftrightarrow> (\<exists>cs. db = run_commands cs empty_ledger)"

lemma reachable_wf: "reachable db \<Longrightarrow> wf_ledger db"
  using lsteps_wf [OF run_commands_steps [OF wf_empty] wf_empty] by (auto simp: reachable_def)

lemma reachable_lsteps: "reachable db \<Longrightarrow> lsteps empty_ledger db"
  using run_commands_steps [OF wf_empty] by (auto simp: reachable_def)

lemma reachable_commands: "reachable db \<Longrightarrow> reachable (run_commands cs db)"
  unfolding reachable_def run_commands_def by (metis fold_append comp_apply)

lemma reachable_command: "reachable db \<Longrightarrow> reachable (run_command c db)"
  using reachable_commands [of db "[c]"] by (simp add: run_commands_def)

section \<open>The order of dependencies\<close>

text \<open>Every upstream item was planned before its downstream item.\<close>

definition ordered_deps :: "ledger \<Rightarrow> bool" where
  "ordered_deps db \<longleftrightarrow> (\<forall>d \<in> set (work_dependencies db). \<exists>xs ys.
     map work_item_id (work_items db) = xs @ ys
     \<and> upstream_work_item_id d \<in> set xs \<and> downstream_work_item_id d \<in> set ys)"

lemma map_ids_update [simp]:
  assumes "\<And>w. work_item_id (f w) = work_item_id w"
  shows "map work_item_id (update_where p f ws) = map work_item_id ws"
  by (simp add: update_where_def assms)

lemma lstep_ids:
  assumes "lstep db db'"
  obtains (same) "map work_item_id (work_items db') = map work_item_id (work_items db)"
      "work_dependencies db' = work_dependencies db"
  | (inserted) i ds where "map work_item_id (work_items db') = map work_item_id (work_items db) @ [i]"
      "work_dependencies db' = work_dependencies db @ ds" "item_of db i = None"
      "\<forall>d \<in> set ds. downstream_work_item_id d = i \<and> item_of db (upstream_work_item_id d) \<noteq> None"
  using assms
proof cases
  case (insert_plan p ds)
  have "item_of db (work_item_id p) = None"
    using insert_plan(2) by (simp add: item_of_def)
  moreover have "\<forall>d \<in> set ds. downstream_work_item_id d = work_item_id p
      \<and> item_of db (upstream_work_item_id d) \<noteq> None"
    using insert_plan(4) by fastforce
  ultimately show thesis by (intro inserted [of "work_item_id p" ds]) (simp_all add: insert_plan(1))
qed (use same in \<open>auto simp: new_attempt_def\<close>)

lemma lstep_ordered:
  assumes "lstep db db'" and "ordered_deps db"
  shows "ordered_deps db'"
  using assms(1)
proof (cases rule: lstep_ids)
  case same
  with assms(2) show ?thesis by (simp add: ordered_deps_def)
next
  case (inserted i ds)
  let ?ids = "map work_item_id (work_items db)"
  have "\<exists>xs ys. ?ids @ [i] = xs @ ys \<and> upstream_work_item_id d \<in> set xs \<and> downstream_work_item_id d \<in> set ys"
    if d: "d \<in> set (work_dependencies db @ ds)" for d
  proof (cases "d \<in> set ds")
    case True
    then obtain u where u: "item_of db (upstream_work_item_id d) = Some u" and d: "downstream_work_item_id d = i"
      using inserted(4) by auto
    have "upstream_work_item_id d \<in> set ?ids" using item_of_in [OF u] item_of_id [OF u] by force
    with d show ?thesis by (intro exI [of _ ?ids] exI [of _ "[i]"]) simp
  next
    case False
    then obtain xs ys where "?ids = xs @ ys" "upstream_work_item_id d \<in> set xs" "downstream_work_item_id d \<in> set ys"
      using assms(2) d by (auto simp: ordered_deps_def)
    then have "?ids @ [i] = xs @ (ys @ [i])" "downstream_work_item_id d \<in> set (ys @ [i])" by simp_all
    then show ?thesis using \<open>upstream_work_item_id d \<in> set xs\<close> by blast
  qed
  then show ?thesis unfolding ordered_deps_def inserted(1,2) by blast
qed

lemma reachable_ordered: "reachable db \<Longrightarrow> ordered_deps db"
proof -
  have "lsteps empty_ledger db' \<Longrightarrow> ordered_deps db'" for db'
    by (induction rule: rtranclp_induct)
      (simp add: ordered_deps_def empty_ledger_def, blast intro: lstep_ordered)
  then show "reachable db \<Longrightarrow> ordered_deps db" using reachable_lsteps by blast
qed

lemma lstep_dependencies:
  assumes "lstep db db'" and "item_of db i \<noteq> None"
  shows "dependencies_of db' i = dependencies_of db i"
  using assms(1)
proof (cases rule: lstep_ids)
  case same
  then show ?thesis by (simp add: dependencies_of_def)
next
  case (inserted j ds)
  have "filter (\<lambda>d. downstream_work_item_id d = i) ds = []"
    using inserted(3,4) assms(2) by (auto simp: filter_empty_conv)
  then show ?thesis by (simp add: dependencies_of_def inserted(2))
qed

lemma lsteps_dependencies:
  assumes "lsteps db db'" and "wf_ledger db" and "item_of db i \<noteq> None"
  shows "dependencies_of db' i = dependencies_of db i"
  using assms
proof (induction rule: rtranclp_induct)
  case base
  show ?case by simp
next
  case (step y z)
  have "item_of y i \<noteq> None"
    using lsteps_evolves [OF step(1,4)] step(5) by (fastforce simp: evolves_def)
  with step lstep_dependencies show ?case by metis
qed

text \<open>The first planned row of a quiescent ledger waits for a row that is not planned.\<close>

lemma quiescent_progress:
  assumes wf: "wf_ledger db" and ord: "ordered_deps db" and q: "quiescent now db"
    and w: "w \<in> set (work_items db)" "\<not> terminal_state (state w)"
  shows "\<exists>v \<in> set (work_items db). state v \<in> {READY, LEASED, RUNNING, RETRY_WAIT}"
proof (rule ccontr)
  assume none: "\<not> ?thesis"
  have planned: "state v = PLANNED" if "v \<in> set (work_items db)" "\<not> terminal_state (state v)" for v
    using none that by (cases "state v") auto
  let ?P = "\<lambda>k. k < length (work_items db) \<and> state (work_items db ! k) = PLANNED"
  obtain k where "?P k" using w planned by (metis in_set_conv_nth)
  then obtain k where k: "?P k" and least: "\<And>m. m < k \<Longrightarrow> \<not> ?P m"
    using exists_least_iff [of ?P] by blast
  define v where "v = work_items db ! k"
  have v: "v \<in> set (work_items db)" "state v = PLANNED" using k by (auto simp: v_def)
  then have "\<not> upstreams_done db (work_item_id v)" using q by (simp add: quiescent_def)
  then obtain d u where d: "d \<in> set (work_dependencies db)" "downstream_work_item_id d = work_item_id v"
    and u: "item_of db (upstream_work_item_id d) = Some u" "\<not> terminal_state (state u)"
    by (auto simp: upstreams_done_def)
  obtain xs ys where ids: "map work_item_id (work_items db) = xs @ ys"
    "upstream_work_item_id d \<in> set xs" "work_item_id v \<in> set ys"
    using ord d by (force simp: ordered_deps_def)
  obtain m where m: "m < length xs" "xs ! m = upstream_work_item_id d"
    using ids(2) by (auto simp: in_set_conv_nth)
  have dist: "distinct (xs @ ys)" using wf_ledgerD(5) [OF wf] ids(1) by simp
  have nth: "work_item_id (work_items db ! j) = (xs @ ys) ! j" if "j < length (work_items db)" for j
    using that nth_map [of j "work_items db" work_item_id] ids(1) by simp
  have len: "length (work_items db) = length (xs @ ys)" using ids(1) by (metis length_map)
  have "length xs \<le> k"
  proof (rule ccontr)
    assume "\<not> length xs \<le> k"
    then have "work_item_id v \<in> set xs" using nth k by (simp add: v_def nth_append)
    with dist ids(3) show False by auto
  qed
  then have mk: "m < k" "m < length (work_items db)" using m(1) k by auto
  have "work_item_id (work_items db ! m) = upstream_work_item_id d"
    using nth [OF mk(2)] m by (simp add: nth_append)
  then have "work_items db ! m = u"
    using u(1) item_of_mem [OF wf_ledgerD(5) [OF wf] nth_mem [OF mk(2)]] by simp
  then have "state (work_items db ! m) = PLANNED" using planned u(2) item_of_in [OF u(1)] by blast
  with least [OF mk(1)] mk(2) show False by blast
qed

section \<open>Example ledgers\<close>

definition ex_plan :: "string \<Rightarrow> time option \<Rightarrow> WorkItemPlan" where
  "ex_plan i expiry =
     \<lparr>work_item_id = i, work_logical_key = i, run_id = ''run'', mcap_id = ''m'', stage = ALIGN,
      subject_type = MCAP, subject_id = ''s'', input_digest = ''d'', config_digest = ''c'', priority = 1,
      sla_deadline_at = None, execution_expiry_at = expiry, max_attempts = 2, trace_id = None, created_at = 0\<rparr>"

definition ex_dep :: "string \<Rightarrow> string \<Rightarrow> WorkDependency" where
  "ex_dep down up = \<lparr>dependency_id = down @ up, downstream_work_item_id = down,
     upstream_work_item_id = up, criticality = REQUIRED\<rparr>"

definition ex_lease :: "nat \<Rightarrow> string \<Rightarrow> time \<Rightarrow> WorkLease" where
  "ex_lease epoch token expires = \<lparr>lease_work_item_id = ''a'', worker_id = ''w'', granted_epoch = epoch,
     granted_token = token, granted_expires_at = expires\<rparr>"

definition ex_planned :: "command list" where
  "ex_planned = [Plan (ex_plan ''a'' None) [], Plan (ex_plan ''b'' None) [ex_dep ''b'' ''a'']]"

definition ex_running :: "command list" where
  "ex_running = ex_planned @ [Claim True ''w'' 10 None 5 ''t1'']"

definition ex_finished :: "command list" where
  "ex_finished = ex_running @ [Succeed (ex_lease 1 ''t1'' 10000005) None None 6]"

lemma reachable_run: "reachable (run_commands cs empty_ledger)"
  by (auto simp: reachable_def)

section \<open>Safety\<close>

text \<open>
  C1. Whatever sequence of scheduler calls is made, returning or raising, the ledger is
  well formed: ids and logical keys are unique, every row passes its validator's shape,
  no item has used more than its attempts, every dependency joins two items of one run,
  an item that is ready or beyond has its dependencies settled, and the active attempts are
  exactly those of the rows under lease.
\<close>

theorem ledger_invariant: "wf_ledger (run_commands cs empty_ledger)"
  by (rule reachable_wf [OF reachable_run])

text \<open>
  C2. Every scheduler call refines the lifecycle machine: the ledger it leaves, also when it
  raises, is reached by steps of the machine.
\<close>

theorem command_refines:
  assumes "wf_ledger db"
  shows "lstep\<^sup>*\<^sup>* db (run_command cmd db)"
  by (rule run_command_steps [OF assms])

theorem command_refines_witness: "lstep\<^sup>*\<^sup>* empty_ledger (run_command (Reconcile 5) empty_ledger)"
  by (rule command_refines [OF wf_empty])

lemma require_lease_later:
  assumes "wf_ledger db" and "lsteps db db'" and "require_lease db old t = Inr w"
    and "require_lease db' new t' = Inr w'" and "lease_work_item_id new = lease_work_item_id old"
  shows "granted_epoch old < granted_epoch new
    \<or> (granted_epoch new = granted_epoch old \<and> granted_token new = granted_token old)"
proof -
  note o = require_lease_Inr [OF assms(3)] and n = require_lease_Inr [OF assms(4)]
  obtain v where v: "item_of db' (lease_work_item_id old) = Some v" "row_evolves w v"
    by (rule lsteps_row [OF assms(2,1) o(1)])
  have "v = w'" using v(1) n(1) assms(5) by simp
  with v(2) o(2) n(2,4) show ?thesis by (auto simp: row_evolves_def lease_current_def)
qed

lemma fenced_Inl:
  "operation db = Inl e \<Longrightarrow> isl (snd (fenced_transaction i now operation db))"
  by (auto simp: fenced_transaction_def transaction_def split: sum.splits work_error.splits prod.splits)

lemma rejected_lease_operations:
  assumes "require_lease db lease now = Inl e"
  shows "isl (snd (start lease now db))" "isl (snd (heartbeat lease duration now db))"
    "isl (snd (succeed lease reference digest now db))"
    "isl (snd (fail lease code retryable detail delay now db))"
  using assms
  by (auto simp: start_def heartbeat_def succeed_def fail_def start_in_transaction_def
      heartbeat_in_transaction_def succeed_in_transaction_def fail_in_transaction_def
      intro!: fenced_Inl split: sum.splits)

text \<open>
  C3. Fencing: once a lease on an item has been accepted and a different one (another epoch
  or token) is accepted later, every use of the first lease is refused from then on,
  whatever happens in between: start, heartbeat, succeed and fail all raise.
\<close>

theorem fencing_safety:
  assumes "reachable db" and "require_lease db old t = Inr w"
    and "require_lease (run_commands cs db) new t' = Inr w'"
    and "lease_work_item_id new = lease_work_item_id old"
    and "(granted_epoch new, granted_token new) \<noteq> (granted_epoch old, granted_token old)"
    and "db' = run_commands cs' (run_commands cs db)"
  shows "isl (snd (start old now db')) \<and> isl (snd (heartbeat old duration now db'))
    \<and> isl (snd (succeed old reference digest now db'))
    \<and> isl (snd (fail old code retryable detail delay now db'))"
proof -
  let ?db1 = "run_commands cs db"
  have wf: "wf_ledger db" "wf_ledger ?db1"
    using assms(1) reachable_commands reachable_wf by blast+
  have newer: "granted_epoch old < granted_epoch new"
    using require_lease_later [OF wf(1) run_commands_steps [OF wf(1)] assms(2-4)] assms(5) by auto
  obtain e where "require_lease db' old now = Inl e"
  proof (cases "require_lease db' old now")
    case (Inr v)
    then have "granted_epoch new \<le> granted_epoch old"
      using require_lease_later [OF wf(2) run_commands_steps [OF wf(2)] assms(3)] assms(4,6) by fastforce
    with newer show thesis by simp
  qed (use that in blast)
  then show ?thesis by (intro conjI rejected_lease_operations)
qed

definition ex_takeover :: "command list" where
  "ex_takeover = [Reconcile 20000000, Claim True ''w'' 10 None 20000000 ''t2'']"

theorem fencing_safety_witness:
  "isl (snd (succeed (ex_lease 1 ''t1'' 10000005) None None 20000005
     (run_commands [] (run_commands ex_takeover (run_commands ex_running empty_ledger)))))"
proof -
  have "require_lease (run_commands ex_running empty_ledger) (ex_lease 1 ''t1'' 10000005) 6 =
      Inr (the (item_of (run_commands ex_running empty_ledger) ''a''))"
    by code_simp
  moreover have "require_lease (run_commands ex_takeover (run_commands ex_running empty_ledger))
      (ex_lease 2 ''t2'' 30000000) 20000001 =
      Inr (the (item_of (run_commands ex_takeover (run_commands ex_running empty_ledger)) ''a''))"
    by code_simp
  ultimately show ?thesis
    using fencing_safety [OF reachable_run _ _ _ _ refl, of ex_running "ex_lease 1 ''t1'' 10000005" 6 _ ex_takeover
        "ex_lease 2 ''t2'' 30000000" 20000001 _ 20000005 "[]"]
    by (simp add: ex_lease_def)
qed

text \<open>
  C4. Terminal rows are final: no later sequence of calls changes any column of the row of
  an item that has finished.
\<close>

theorem terminal_frozen:
  assumes "reachable db" and "item_of db i = Some w" and "state w \<in> TERMINAL_WORK_STATES"
  shows "item_of (run_commands cs db) i = Some w"
proof -
  note wf = reachable_wf [OF assms(1)]
  obtain w' where "item_of (run_commands cs db) i = Some w'" "row_evolves w w'"
    by (rule lsteps_row [OF run_commands_steps [OF wf] wf assms(2)])
  with assms(3) show ?thesis by (simp add: row_evolves_def terminal_state_def)
qed

theorem terminal_frozen_witness:
  "item_of (run_commands [Cancel ''a'' ''late'' None 9] (run_commands ex_finished empty_ledger)) ''a'' =
     Some (the (item_of (run_commands ex_finished empty_ledger) ''a''))"
proof (rule terminal_frozen [OF reachable_run])
  show "item_of (run_commands ex_finished empty_ledger) ''a'' =
      Some (the (item_of (run_commands ex_finished empty_ledger) ''a''))"
    by code_simp
  show "state (the (item_of (run_commands ex_finished empty_ledger) ''a'')) \<in> TERMINAL_WORK_STATES"
    by code_simp
qed

text \<open>
  C5. Dependency order: an item that is ready, leased, running, waiting for a retry or
  succeeded has every upstream item in a terminal state, and every REQUIRED upstream item in
  one of the successful ones.
\<close>

theorem dependencies_respected:
  assumes "reachable db" and "w \<in> set (work_items db)"
    and "state w \<in> {READY, LEASED, RUNNING, RETRY_WAIT, SUCCEEDED}"
    and "d \<in> set (work_dependencies db)" and "downstream_work_item_id d = work_item_id w"
  shows "\<exists>u. item_of db (upstream_work_item_id d) = Some u \<and> state u \<in> TERMINAL_WORK_STATES
    \<and> (criticality d = REQUIRED \<longrightarrow> state u \<in> SUCCESSFUL_DEPENDENCY_STATES)"
proof -
  have "deps_settled db (work_item_id w)"
    using wf_ledgerD(3) [OF reachable_wf [OF assms(1)]] assms(2,3) by (auto simp: wf_settled_def live_state_def)
  with assms(4,5) show ?thesis by (simp add: deps_settled_def terminal_state_def)
qed

theorem dependencies_respected_witness:
  "\<exists>u. item_of (run_commands ex_finished empty_ledger) ''a'' = Some u \<and> state u \<in> TERMINAL_WORK_STATES
    \<and> state u \<in> SUCCESSFUL_DEPENDENCY_STATES"
proof -
  let ?db = "run_commands ex_finished empty_ledger"
  have "work_items ?db ! 1 \<in> set (work_items ?db)" by (rule nth_mem) code_simp
  moreover have "state (work_items ?db ! 1) \<in> {READY, LEASED, RUNNING, RETRY_WAIT, SUCCEEDED}" by code_simp
  moreover have "ex_dep ''b'' ''a'' \<in> set (work_dependencies ?db)" by code_simp
  moreover have "downstream_work_item_id (ex_dep ''b'' ''a'') = work_item_id (work_items ?db ! 1)" by code_simp
  ultimately have "\<exists>u. item_of ?db (upstream_work_item_id (ex_dep ''b'' ''a'')) = Some u
      \<and> state u \<in> TERMINAL_WORK_STATES \<and> (criticality (ex_dep ''b'' ''a'') = REQUIRED \<longrightarrow>
        state u \<in> SUCCESSFUL_DEPENDENCY_STATES)"
    by (rule dependencies_respected [OF reachable_run])
  then show ?thesis by (simp add: ex_dep_def)
qed




text \<open>
  History is kept: across any sequence of calls an item keeps its plan and its upstream
  edges, its epoch never decreases, and every finished attempt stays exactly as recorded.
\<close>

theorem history_preserved:
  assumes "reachable db"
  shows "(\<forall>i w. item_of db i = Some w \<longrightarrow> (\<exists>w'. item_of (run_commands cs db) i = Some w'
        \<and> plan_of w' = plan_of w \<and> lease_epoch w \<le> lease_epoch w')
        \<and> dependencies_of (run_commands cs db) i = dependencies_of db i)
    \<and> (\<forall>a \<in> set (work_attempts db). outcome a \<noteq> Attempt_ACTIVE \<longrightarrow>
        a \<in> set (work_attempts (run_commands cs db)))"
proof -
  note wf = reachable_wf [OF assms]
  note steps = run_commands_steps [OF wf, of cs]
  note ev = lsteps_evolves [OF steps wf]
  have rows: "(\<exists>w'. item_of (run_commands cs db) i = Some w' \<and> plan_of w' = plan_of w \<and> lease_epoch w \<le> lease_epoch w')
      \<and> dependencies_of (run_commands cs db) i = dependencies_of db i" if w: "item_of db i = Some w" for i w
  proof
    show "\<exists>w'. item_of (run_commands cs db) i = Some w' \<and> plan_of w' = plan_of w \<and> lease_epoch w \<le> lease_epoch w'"
      by (rule lsteps_row [OF steps wf w]) (auto simp: row_evolves_def)
    show "dependencies_of (run_commands cs db) i = dependencies_of db i"
      using lsteps_dependencies [OF steps wf] w by simp
  qed
  have "a \<in> set (work_attempts (run_commands cs db))"
    if "a \<in> set (work_attempts db)" "outcome a \<noteq> Attempt_ACTIVE" for a
    using ev that by (auto simp: evolves_def attempt_evolves_def)
  with rows show ?thesis by blast
qed

theorem history_preserved_witness:
  "hd (work_attempts (run_commands ex_finished empty_ledger)) \<in>
     set (work_attempts (run_commands [Reconcile 50] (run_commands ex_finished empty_ledger)))"
proof -
  let ?db = "run_commands ex_finished empty_ledger"
  have "work_attempts ?db \<noteq> []" "outcome (hd (work_attempts ?db)) \<noteq> Attempt_ACTIVE" by code_simp+
  then have "hd (work_attempts ?db) \<in> set (work_attempts ?db)" "outcome (hd (work_attempts ?db)) \<noteq> Attempt_ACTIVE"
    by simp_all
  with history_preserved [OF reachable_run, of ex_finished "[Reconcile 50]"] show ?thesis by blast
qed

end
