(* ===== verification/Work_Guarantees.thy ===== *)
theory Work_Guarantees
  imports Work_Properties
begin

text \<open>
  What a single call of the scheduler guarantees to its caller: the claim, the replay of a
  plan, the reconciliation, and the calls that fail.
\<close>

section \<open>Claims\<close>

lemma claim_with_Inr:
  assumes "claim_with s worker d target now token db = (db', Inr r)"
  shows "claim_in_transaction worker d target now s token db = Inr (db', r)" and "1 \<le> d"
  using assms
  by (auto simp: claim_with_def nonempty_def positive_int_def transaction_def result_simps
      split: sum.splits if_splits option.splits)

lemma row_not_hard_due:
  assumes "\<not> hard_expiry_due now w" and "completed_at w = None" and "execution_expiry_at w = Some t"
  shows "now < t"
  using assms by (simp add: hard_expiry_due_def)

text \<open>
  C7. A successful claim: after the due maintenance, the item with the least dispatch key
  (highest priority, then the earliest deadline, then the oldest, then by id) among the
  ready ones asked for is leased to the caller. The lease it returns is accepted at once,
  carries the next epoch, runs for the duration asked for, and its token is new in the
  history.
\<close>

theorem claim_correct:
  assumes "reachable db" and "claim_with s worker d target now token db = (db', Inr (Some c))"
  shows "\<exists>db1 n row. maintain db now False = Inr (db1, n) \<and> row \<in> set (ready_candidates target db1)
    \<and> (\<forall>v \<in> set (ready_candidates target db1). dispatch_key row \<le> dispatch_key v)
    \<and> claimed_lease c = \<lparr>lease_work_item_id = work_item_id row, worker_id = worker,
        granted_epoch = lease_epoch row + 1, granted_token = token,
        granted_expires_at = plus_seconds now d\<rparr>
    \<and> (\<forall>a \<in> set (work_attempts db1). attempt_token a \<noteq> token)
    \<and> require_lease db' (claimed_lease c) now = Inr (claimed_item c)"
proof -
  note wf = reachable_wf [OF assms(1)]
  note run = claim_with_Inr [OF assms(2)]
  obtain db1 n where m: "maintain db now False = Inr (db1, n)"
    using run(1) by (auto simp: claim_in_transaction_def result_simps)
  have wf1: "wf_ledger db1" using maintain_steps [OF wf m] wf lsteps_wf by blast
  obtain row where pick: "min_by dispatch_key (ready_candidates target db1) = Some row"
    and cl: "claim_row worker d now s token row db1 = Inr (db', Some c)"
    using run(1) m by (auto simp: claim_in_transaction_def split: option.splits)
  note row = ready_candidate [OF wf1 pick]
  note res = claim_row_Inr [OF wf1 row(1,2) cl]
  obtain item where item: "load_item db' (work_item_id row) = Inr item" "claimed_item c = item"
    and lease: "claimed_lease c = \<lparr>lease_work_item_id = work_item_id row, worker_id = worker,
        granted_epoch = lease_epoch row + 1, granted_token = token, granted_expires_at = plus_seconds now d\<rparr>"
    using res(3) by auto
  have val: "item = row_claim (if s then RUNNING else LEASED) (lease_epoch row + 1) token worker
      (plus_seconds now d) (attempt row + 1) now row"
  proof -
    have "item_of db' j = item_of (upd_item (work_item_id row) (row_claim (if s then RUNNING else LEASED)
        (lease_epoch row + 1) token worker (plus_seconds now d) (attempt row + 1) now) db1) j" for j
      unfolding res(1) claimed_ledger_def by (simp add: item_of_def)
    with item(1) row(1) show ?thesis by (simp add: result_simps item_of_upd)
  qed
  have mem: "row \<in> set (work_items db1)" by (rule item_of_in [OF row(1)])
  have "\<not> hard_expiry_due now row" using maintain_nothing_due [OF wf m] mem by (simp add: nothing_due_def)
  moreover have "completed_at row = None"
    using wf_row(1) [OF wf_ledgerD(1) [OF wf1] row(1)] row(2) by (simp add: shape_ok_def)
  ultimately have live: "lease_current (claimed_lease c) now item"
    using run(2) row_not_hard_due [of now row]
    by (auto simp: val lease lease_current_def row_claim_def plus_seconds_def split: option.splits)
  have acc: "require_lease db' (claimed_lease c) now = Inr (claimed_item c)"
    using item live by (simp add: require_lease_def lease)
  have tok: "\<forall>a \<in> set (work_attempts db1). attempt_token a \<noteq> token"
    using cl by (auto simp: claim_row_def Let_def attempt_conflict_def list_ex_iff new_attempt_def split: if_splits)
  have "row \<in> set (ready_candidates target db1)" by (rule min_by_Some(1) [OF pick])
  with m row(4) lease tok acc show ?thesis by blast
qed

theorem claim_correct_witness:
  "\<exists>db1 n row. maintain (run_commands ex_planned empty_ledger) 5 False = Inr (db1, n)
    \<and> row \<in> set (ready_candidates None db1)
    \<and> dispatch_key row \<le> dispatch_key (hd (ready_candidates None db1))
    \<and> work_item_id row = ''a''"
proof -
  let ?db = "run_commands ex_planned empty_ledger"
  let ?c = "the (projr (snd (claim_with True ''w'' 10 None 5 ''t1'' ?db)))"
  have "claim_with True ''w'' 10 None 5 ''t1'' ?db = (run_commands ex_running empty_ledger, Inr (Some ?c))"
    by code_simp
  from claim_correct [OF reachable_run this]
  obtain db1 n row where "maintain ?db 5 False = Inr (db1, n)" "row \<in> set (ready_candidates None db1)"
    "\<forall>v \<in> set (ready_candidates None db1). dispatch_key row \<le> dispatch_key v"
    "claimed_lease ?c = \<lparr>lease_work_item_id = work_item_id row, worker_id = ''w'',
        granted_epoch = lease_epoch row + 1, granted_token = ''t1'', granted_expires_at = plus_seconds 5 10\<rparr>"
    by blast
  moreover have "lease_work_item_id (claimed_lease ?c) = ''a''" by code_simp
  moreover have "hd (ready_candidates None db1) \<in> set (ready_candidates None db1)"
    using \<open>row \<in> set (ready_candidates None db1)\<close> by (cases "ready_candidates None db1") simp_all
  ultimately show ?thesis by auto
qed

text \<open>
  An empty claim is right: when \<open>claim\<close> returns None, the ledger it leaves has no ready
  item among those asked for.
\<close>

theorem claim_none_correct:
  assumes "claim_with s worker d target now token db = (db', Inr None)"
  shows "\<forall>w \<in> set (work_items db'). state w = READY \<longrightarrow> (\<exists>i. target = Some i \<and> work_item_id w \<noteq> i)"
proof -
  have none: "claim_row worker d now s token row db1 \<noteq> Inr (db', None)" for row db1
    by (auto simp: claim_row_def Let_def result_simps split: if_splits)
  have "ready_candidates target db' = []"
    using claim_with_Inr(1) [OF assms] none
    by (auto simp: claim_in_transaction_def result_simps split: option.splits)
  then show ?thesis by (auto simp: ready_candidates_def filter_empty_conv split: option.splits)
qed

theorem claim_none_correct_witness:
  "hd (work_items (run_commands ex_running empty_ledger)) \<in> set (work_items (run_commands ex_running empty_ledger))
   \<and> state (hd (work_items (run_commands ex_running empty_ledger))) \<noteq> READY"
proof -
  let ?db = "run_commands ex_running empty_ledger"
  have "claim_with False ''v'' 10 None 6 ''t2'' ?db = (?db, Inr None)" by code_simp
  note none = claim_none_correct [OF this]
  have "work_items ?db \<noteq> []" by code_simp
  then have "hd (work_items ?db) \<in> set (work_items ?db)" by (rule hd_in_set)
  with none show ?thesis by blast
qed

section \<open>Planning\<close>

lemma plan_matches_iff: "plan_matches w p \<longleftrightarrow> plan_of w = p"
  by (cases p) (auto simp: plan_matches_def plan_of_def WorkItemPlan.defs)

lemma filter_eq_singleton: "distinct xs \<Longrightarrow> w \<in> set xs \<Longrightarrow> filter (\<lambda>v. v = w) xs = [w]"
  by (induction xs) (auto simp: filter_empty_conv)

lemma id_or_key_row:
  assumes wf: "wf_items db" and w: "item_of db i = Some w" and k: "work_logical_key w = k"
  shows "filter (\<lambda>v. work_item_id v = i \<or> work_logical_key v = k) (work_items db) = [w]"
proof -
  have mem: "w \<in> set (work_items db)" "work_item_id w = i" using item_of_in [OF w] item_of_id [OF w] by auto
  have inj: "inj_on work_item_id (set (work_items db))" "inj_on work_logical_key (set (work_items db))"
    and dist: "distinct (work_items db)"
    using wf by (auto simp: wf_items_def distinct_map)
  have "(work_item_id v = i \<or> work_logical_key v = k) \<longleftrightarrow> v = w" if "v \<in> set (work_items db)" for v
    using that mem k inj by (auto dest: inj_onD)
  then have "filter (\<lambda>v. work_item_id v = i \<or> work_logical_key v = k) (work_items db) = filter (\<lambda>v. v = w) (work_items db)"
    by (rule filter_cong [OF refl])
  with filter_eq_singleton [OF dist mem(1)] show ?thesis by simp
qed

lemma plan_op_Inr:
  assumes "plan_op p ds db = (db', Inr item)"
  shows "validate_plan_dependencies p ds = Inr ()" and "plan_in_transaction p ds True db = Inr (db', item)"
  using assms by (auto simp: plan_op_def transaction_def split: sum.splits)

text \<open>The ledger after a plan call holds the plan and exactly the edges asked for.\<close>

lemma plan_recorded:
  assumes wf: "wf_ledger db" and "plan_op p ds db = (db', Inr item)"
  shows "item_of db' (work_item_id p) = Some item" and "plan_of item = p"
    and "dependencies_of db' (work_item_id p) = sort_key dependency_id ds"
proof -
  note run = plan_op_Inr [OF assms(2)]
  have "item_of db' (work_item_id p) = Some item \<and> plan_of item = p
      \<and> dependencies_of db' (work_item_id p) = sort_key dependency_id ds"
    using run(2)
  proof (cases rule: plan_cases)
    case replay
    then show ?thesis by (simp add: plan_matches_iff)
  next
    case (fresh n)
    let ?db1 = "planned_ledger p ds db"
    have step: "lstep db ?db1" by (rule plan_insert_step [OF wf run(1) fresh(1-4)])
    note wf1 = lstep_wf [OF step wf]
    have "planned_row p \<in> set (work_items ?db1)" by (simp add: planned_ledger_def)
    then have row: "item_of ?db1 (work_item_id p) = Some (planned_row p)"
      using item_of_mem [OF wf_ledgerD(5) [OF wf1]] by fastforce
    have steps: "lsteps ?db1 db'" using fresh(5) refresh_work_ids_step [OF _ wf1] by simp
    obtain w where "item_of db' (work_item_id p) = Some w" "row_evolves (planned_row p) w"
      by (rule lsteps_row [OF steps wf1 row])
    moreover have "item_of db' (work_item_id p) = Some item" using fresh(6) by (simp add: result_simps)
    ultimately have item: "item_of db' (work_item_id p) = Some item" "plan_of item = p"
      by (simp_all add: row_evolves_def)
    have "filter (\<lambda>d. downstream_work_item_id d = work_item_id p) (work_dependencies db) = []"
      using wf_ledgerD(2) [OF wf] fresh(1) item_of_in item_of_id
      by (fastforce simp: filter_empty_conv wf_deps_def)
    moreover have "filter (\<lambda>d. downstream_work_item_id d = work_item_id p) ds = ds"
      using run(1) by (simp add: result_simps)
    ultimately have "dependencies_of ?db1 (work_item_id p) = sort_key dependency_id ds"
      by (simp add: dependencies_of_def planned_ledger_def)
    with item show ?thesis using lsteps_dependencies [OF steps wf1] row by simp
  qed
  then show "item_of db' (work_item_id p) = Some item" "plan_of item = p"
    "dependencies_of db' (work_item_id p) = sort_key dependency_id ds" by blast+
qed

text \<open>
  Planning is idempotent: once a plan with its dependencies has been accepted, the same
  call, made again after any sequence of other calls, returns the item's current snapshot
  and leaves the ledger untouched.
\<close>

theorem plan_replay:
  assumes "reachable db" and "plan_op p ds db = (db1, Inr item)"
    and "item_of (run_commands cs db1) (work_item_id p) = Some w" and "clock_ok w"
  shows "plan_op p ds (run_commands cs db1) = (run_commands cs db1, Inr w)"
proof -
  let ?db2 = "run_commands cs db1"
  note wf = reachable_wf [OF assms(1)]
  note val = plan_op_Inr(1) [OF assms(2)]
  note rec = plan_recorded [OF wf assms(2)]
  have "db1 = run_command (Plan p ds) db" using assms(2) by simp
  then have wf1: "wf_ledger db1" using reachable_command [OF assms(1)] reachable_wf by blast
  note steps = run_commands_steps [OF wf1, of cs]
  have wf2: "wf_ledger ?db2" by (rule lsteps_wf [OF steps wf1])
  have plan: "plan_of w = p"
    by (rule lsteps_row [OF steps wf1 rec(1)]) (use rec(2) assms(3) in \<open>simp add: row_evolves_def\<close>)
  then have key: "work_item_id w = work_item_id p" "work_logical_key w = work_logical_key p"
    by (auto simp: plan_of_def WorkItemPlan.defs)
  have "dependencies_of ?db2 (work_item_id p) = sort_key dependency_id ds"
    using lsteps_dependencies [OF steps wf1] rec(1,3) by simp
  moreover have "item_from_row w = Inr w"
    using wf_row(1) [OF wf_ledgerD(1) [OF wf2] assms(3)] assms(4) by (simp add: result_simps)
  ultimately have "plan_in_transaction p ds True ?db2 = Inr (?db2, w)"
    using id_or_key_row [OF wf_ledgerD(1) [OF wf2] assms(3) key(2)] plan key
    by (simp add: plan_in_transaction_def plan_matches_iff)
  with val show ?thesis by (simp add: plan_op_def transaction_def)
qed

theorem plan_replay_witness:
  "plan_op (ex_plan ''a'' None) [] (run_commands [Claim True ''w'' 10 None 5 ''t1'']
       (fst (plan_op (ex_plan ''a'' None) [] empty_ledger)))
    = (run_commands [Claim True ''w'' 10 None 5 ''t1''] (fst (plan_op (ex_plan ''a'' None) [] empty_ledger)),
       Inr (the (item_of (run_commands [Claim True ''w'' 10 None 5 ''t1'']
          (fst (plan_op (ex_plan ''a'' None) [] empty_ledger))) ''a'')))"
proof (rule plan_replay)
  show "reachable empty_ledger" using reachable_run [of "[]"] by (simp add: run_commands_def)
  show "plan_op (ex_plan ''a'' None) [] empty_ledger = (fst (plan_op (ex_plan ''a'' None) [] empty_ledger),
      Inr (projr (snd (plan_op (ex_plan ''a'' None) [] empty_ledger))))"
    by code_simp
qed code_simp+

section \<open>Reconciliation\<close>

lemma reconcile_Inr: "reconcile now db = (db', Inr n) \<longleftrightarrow> maintain db now True = Inr (db', n)"
  by (auto simp: reconcile_def transaction_def split: sum.splits)

text \<open>
  A reconciliation that returns leaves nothing due: no unfinished item is past its
  hard deadline, no lease has run out, no retry time has come, and every item still planned
  waits for an upstream item that has not finished. Reconciling again at the same time
  reports no change and makes none.
\<close>

theorem reconcile_settles:
  assumes "reachable db" and "reconcile now db = (db', Inr n)"
  shows "quiescent now db' \<and> reconcile now db' = (db', Inr 0)"
proof -
  note wf = reachable_wf [OF assms(1)]
  have m: "maintain db now True = Inr (db', n)" using assms(2) by (simp add: reconcile_Inr)
  have q: "quiescent now db'" by (rule maintain_quiescent [OF wf m])
  have wf': "wf_ledger db'" by (rule lsteps_wf [OF maintain_steps [OF wf m] wf])
  from maintain_fixpoint [OF wf' q] q show ?thesis by (simp add: reconcile_Inr)
qed

theorem reconcile_settles_witness:
  "quiescent 20000000 (fst (reconcile 20000000 (run_commands ex_running empty_ledger)))"
proof -
  have "reconcile 20000000 (run_commands ex_running empty_ledger) =
      (fst (reconcile 20000000 (run_commands ex_running empty_ledger)), Inr 1)"
    by code_simp
  from reconcile_settles [OF reachable_run this] show ?thesis by blast
qed

text \<open>
  C8. No deadlock: after a reconciliation, if any item is unfinished then some item is
  ready to be claimed, under an unexpired lease, or waiting for a retry time in the future.
\<close>

theorem reconcile_progress:
  assumes "reachable db" and "reconcile now db = (db', Inr n)"
    and "w \<in> set (work_items db')" and "state w \<notin> TERMINAL_WORK_STATES"
  shows "\<exists>v \<in> set (work_items db'). state v = READY
    \<or> (state v \<in> {LEASED, RUNNING} \<and> (\<exists>t. lease_expires_at v = Some t \<and> now < t))
    \<or> (state v = RETRY_WAIT \<and> (\<exists>t. retry_not_before_at v = Some t \<and> now < t))"
proof -
  note wf = reachable_wf [OF assms(1)]
  have m: "maintain db now True = Inr (db', n)" using assms(2) by (simp add: reconcile_Inr)
  have q: "quiescent now db'" by (rule maintain_quiescent [OF wf m])
  have wf': "wf_ledger db'" by (rule lsteps_wf [OF maintain_steps [OF wf m] wf])
  have "db' = run_command (Reconcile now) db" using assms(2) by simp
  then have ord: "ordered_deps db'" using reachable_ordered reachable_command [OF assms(1)] by blast
  obtain v where v: "v \<in> set (work_items db')" "state v \<in> {READY, LEASED, RUNNING, RETRY_WAIT}"
    using quiescent_progress [OF wf' ord q assms(3)] assms(4) by (auto simp: terminal_state_def)
  have shape: "shape_ok v" using wf_ledgerD(1) [OF wf'] v(1) by (simp add: wf_items_def)
  have nd: "\<not> lease_due now v" "\<not> (state v = RETRY_WAIT \<and> retry_is_due now v)"
    using q v(1) by (auto simp: quiescent_def nothing_due_def)
  have "\<exists>t. lease_expires_at v = Some t \<and> now < t" if "state v \<in> {LEASED, RUNNING}"
    using shape nd(1) that by (auto simp: shape_ok_def lease_due_def leased_state_def)
  moreover have "\<exists>t. retry_not_before_at v = Some t \<and> now < t" if "state v = RETRY_WAIT"
    using shape nd(2) that by (auto simp: shape_ok_def retry_is_due_def)
  ultimately have "state v = READY
    \<or> (state v \<in> {LEASED, RUNNING} \<and> (\<exists>t. lease_expires_at v = Some t \<and> now < t))
    \<or> (state v = RETRY_WAIT \<and> (\<exists>t. retry_not_before_at v = Some t \<and> now < t))"
    using v(2) by blast
  with v(1) show ?thesis by blast
qed

theorem reconcile_progress_witness:
  "\<exists>v \<in> set (work_items (fst (reconcile 7 (run_commands ex_planned empty_ledger)))). state v = READY
    \<or> (state v \<in> {LEASED, RUNNING} \<and> (\<exists>t. lease_expires_at v = Some t \<and> 7 < t))
    \<or> (state v = RETRY_WAIT \<and> (\<exists>t. retry_not_before_at v = Some t \<and> 7 < t))"
proof (rule reconcile_progress [OF reachable_run])
  let ?db = "fst (reconcile 7 (run_commands ex_planned empty_ledger))"
  show "reconcile 7 (run_commands ex_planned empty_ledger) = (?db, Inr 0)" by code_simp
  show "work_items ?db ! 1 \<in> set (work_items ?db)" by (rule nth_mem) code_simp
  show "state (work_items ?db ! 1) \<notin> TERMINAL_WORK_STATES" by code_simp
qed

section \<open>A deadline sweep that cannot finish\<close>









end
