(* ===== verification/Stream_Ledger.thy ===== *)
theory Stream_Ledger
  imports Work_Operations
begin

text \<open>
  \<^verbatim>\<open>src/robata/adapters/sqlite_stream_work_ledger.py\<close>: the ledger of the pre-EOS stream
  composition. It keeps four tables of its own in the database of the durable scheduler and
  runs every operation in one transaction of that scheduler: the operation's tables are
  committed together, or none is when it raises.

  The tables are lists of rows in insertion order, beside the scheduler's own tables (the
  field \<open>authority\<close>). JSON payloads and digests are the exact bytes, as strings. The
  timestamps of \<open>work_items\<close> are instants, as in \<open>Work_Models\<close>; the texts the scheduler
  stores have one fixed format, so they compare as the instants do. The checks of Python
  types (\<open>isinstance\<close>) and of the storage class of a column are the types of the model; the
  \<open>CHECK\<close> constraint on \<open>publication_state\<close> is the type \<open>PublicationState\<close>. Violations of
  the \<open>PRIMARY KEY\<close>, \<open>UNIQUE\<close> and \<open>FOREIGN KEY\<close> constraints are errors of the insertions.
\<close>

section \<open>Rows\<close>

datatype PublicationState = GATED | PENDING | PUBLISHED

record StoredStreamPlan =
  sp_plan_key :: string
  sp_plan_json :: string
  sp_source_subject_json :: string
  sp_composition_config_json :: string
  sp_planner_eos_sha256 :: "string option"
  sp_seal_json :: "string option"
  sp_terminal_closure_json :: "string option"
  sp_export_manifest_sha256 :: "string option"
  sp_export_member_count :: "int option"

record StoredExpectedWindow =
  ew_plan_key :: string
  ew_ordinal :: int
  ew_declaration_json :: string
  ew_window_json :: string
  ew_terminal_member_json :: "string option"

record StoredStreamWorkPlan =
  sw_work_item_id :: string
  sw_work_logical_key :: string
  sw_plan_key :: string
  sw_expected_ordinal :: "int option"
  sw_role_order :: int
  sw_stage :: string
  sw_plan_json :: string
  sw_publication_state :: PublicationState
  sw_terminal_evidence_json :: "string option"
  sw_pending_terminal_json :: "string option"
  sw_pending_lease_epoch :: "int option"
  sw_pending_fencing_token :: "string option"

record StoredStreamBackpressureController =
  bc_plan_key :: string
  bc_controller_key :: string
  bc_policy_version :: string
  bc_owner_id :: string
  bc_owner_fence :: nat
  bc_state_json :: string

record NewStreamWorkPlan =
  nw_work_item_id :: string
  nw_work_logical_key :: string
  nw_expected_ordinal :: "int option"
  nw_role_order :: int
  nw_stage :: string
  nw_plan_json :: string
  nw_publication_state :: PublicationState

record NewStreamWindow =
  nwin_ordinal :: int
  nwin_declaration_json :: string
  nwin_window_json :: string
  nwin_work_plans :: "NewStreamWorkPlan list"

section \<open>Tables, errors and transactions\<close>

record stream_db =
  authority :: ledger
  stream_plans :: "StoredStreamPlan list"
  expected_windows :: "StoredExpectedWindow list"
  stream_work_plans :: "StoredStreamWorkPlan list"
  stream_backpressure_controllers :: "StoredStreamBackpressureController list"

definition empty_stream_db :: stream_db where
  "empty_stream_db = \<lparr>authority = empty_ledger, stream_plans = [], expected_windows = [],
     stream_work_plans = [], stream_backpressure_controllers = []\<rparr>"

text \<open>
  The exceptions: the two classes of the module, the throttle with its fields (plan,
  controller, current, least peer, requested and allowed counts), an exception of the
  scheduler that owns the transaction (a rejected constraint and a stale fence among them),
  and Python's \<open>ValueError\<close>.
\<close>

datatype stream_ledger_error =
    SQLiteStreamWorkLedgerError string
  | SQLiteStreamWorkLedgerConflict string
  | SQLiteStreamWorkLedgerFairnessThrottle string string nat nat nat nat
  | Authority_error work_error
  | Stream_ValueError string

type_synonym 'a stream_tx = "stream_ledger_error + (stream_db \<times> 'a)"
type_synonym 'a stream_call = "stream_db \<times> (stream_ledger_error + 'a)"

definition run_write :: "(stream_db \<Rightarrow> 'a stream_tx) \<Rightarrow> stream_db \<Rightarrow> 'a stream_call" where
  "run_write operation db =
     (case operation db of Inl e \<Rightarrow> (db, Inl e) | Inr (db', a) \<Rightarrow> (db', Inr a))"

definition run_read :: "(stream_db \<Rightarrow> stream_ledger_error + 'a) \<Rightarrow> stream_db \<Rightarrow> 'a stream_call" where
  "run_read operation db = (db, operation db)"

definition rejected :: stream_ledger_error where
  "rejected = Authority_error (WorkConflictError ''SQLite rejected durable work'')"

definition unregistered :: stream_ledger_error where
  "unregistered = SQLiteStreamWorkLedgerError ''expected plan is not registered''"

definition require_nonempty_text :: "string \<Rightarrow> string \<Rightarrow> stream_ledger_error + unit" where
  "require_nonempty_text value field =
     (if value = [] then Inl (Stream_ValueError (field @ '' must be non-empty text'')) else Inr ())"

definition require_nonempty_bytes :: "string \<Rightarrow> string \<Rightarrow> stream_ledger_error + unit" where
  "require_nonempty_bytes value field =
     (if value = [] then Inl (Stream_ValueError (field @ '' must be non-empty bytes'')) else Inr ())"

section \<open>Views and row updates\<close>

definition plan_row :: "stream_db \<Rightarrow> string \<Rightarrow> StoredStreamPlan option" where
  "plan_row db k = find_row (\<lambda>p. sp_plan_key p = k) (stream_plans db)"

definition window_row :: "stream_db \<Rightarrow> string \<Rightarrow> int \<Rightarrow> StoredExpectedWindow option" where
  "window_row db k n = find_row (\<lambda>w. ew_plan_key w = k \<and> ew_ordinal w = n) (expected_windows db)"

definition work_row :: "stream_db \<Rightarrow> string \<Rightarrow> StoredStreamWorkPlan option" where
  "work_row db i = find_row (\<lambda>w. sw_work_item_id w = i) (stream_work_plans db)"

definition controller_row ::
    "stream_db \<Rightarrow> string \<Rightarrow> string \<Rightarrow> StoredStreamBackpressureController option" where
  "controller_row db k c =
     find_row (\<lambda>r. bc_plan_key r = k \<and> bc_controller_key r = c) (stream_backpressure_controllers db)"

definition upd_plan :: "string \<Rightarrow> (StoredStreamPlan \<Rightarrow> StoredStreamPlan) \<Rightarrow> stream_db \<Rightarrow> stream_db" where
  "upd_plan k f db = db\<lparr>stream_plans := update_where (\<lambda>p. sp_plan_key p = k) f (stream_plans db)\<rparr>"

definition upd_windows ::
    "(StoredExpectedWindow \<Rightarrow> bool) \<Rightarrow> (StoredExpectedWindow \<Rightarrow> StoredExpectedWindow) \<Rightarrow> stream_db \<Rightarrow> stream_db"
  where "upd_windows p f db = db\<lparr>expected_windows := update_where p f (expected_windows db)\<rparr>"

definition upd_works ::
    "(StoredStreamWorkPlan \<Rightarrow> bool) \<Rightarrow> (StoredStreamWorkPlan \<Rightarrow> StoredStreamWorkPlan) \<Rightarrow> stream_db \<Rightarrow> stream_db"
  where "upd_works p f db = db\<lparr>stream_work_plans := update_where p f (stream_work_plans db)\<rparr>"

definition upd_controllers ::
    "(StoredStreamBackpressureController \<Rightarrow> bool)
      \<Rightarrow> (StoredStreamBackpressureController \<Rightarrow> StoredStreamBackpressureController) \<Rightarrow> stream_db \<Rightarrow> stream_db"
  where "upd_controllers p f db =
     db\<lparr>stream_backpressure_controllers := update_where p f (stream_backpressure_controllers db)\<rparr>"

section \<open>Insertions and companion rows\<close>

definition new_window_row :: "string \<Rightarrow> NewStreamWindow \<Rightarrow> StoredExpectedWindow" where
  "new_window_row k w =
     \<lparr>ew_plan_key = k, ew_ordinal = nwin_ordinal w, ew_declaration_json = nwin_declaration_json w,
      ew_window_json = nwin_window_json w, ew_terminal_member_json = None\<rparr>"

definition insert_window :: "string \<Rightarrow> NewStreamWindow \<Rightarrow> stream_db \<Rightarrow> stream_ledger_error + stream_db" where
  "insert_window k w db =
     (if window_row db k (nwin_ordinal w) \<noteq> None \<or> plan_row db k = None then Inl rejected
      else Inr (db\<lparr>expected_windows := expected_windows db @ [new_window_row k w]\<rparr>))"

definition new_work_row :: "string \<Rightarrow> NewStreamWorkPlan \<Rightarrow> StoredStreamWorkPlan" where
  "new_work_row k n =
     \<lparr>sw_work_item_id = nw_work_item_id n, sw_work_logical_key = nw_work_logical_key n, sw_plan_key = k,
      sw_expected_ordinal = nw_expected_ordinal n, sw_role_order = nw_role_order n, sw_stage = nw_stage n,
      sw_plan_json = nw_plan_json n, sw_publication_state = nw_publication_state n,
      sw_terminal_evidence_json = None, sw_pending_terminal_json = None,
      sw_pending_lease_epoch = None, sw_pending_fencing_token = None\<rparr>"

definition insert_work :: "string \<Rightarrow> NewStreamWorkPlan \<Rightarrow> stream_db \<Rightarrow> stream_ledger_error + stream_db" where
  "insert_work k n db =
     (if list_ex (\<lambda>w. sw_work_item_id w = nw_work_item_id n
           \<or> sw_work_logical_key w = nw_work_logical_key n) (stream_work_plans db)
         \<or> plan_row db k = None
      then Inl rejected
      else Inr (db\<lparr>stream_work_plans := stream_work_plans db @ [new_work_row k n]\<rparr>))"

definition role_key :: "StoredStreamWorkPlan \<Rightarrow> int \<times> string" where
  "role_key w = (sw_role_order w, sw_work_item_id w)"

definition companion_rows :: "stream_db \<Rightarrow> string \<Rightarrow> int option \<Rightarrow> StoredStreamWorkPlan list" where
  "companion_rows db k n =
     sort_key role_key
       (filter (\<lambda>w. sw_plan_key w = k \<and> sw_expected_ordinal w = n) (stream_work_plans db))"

definition allowed_states :: "PublicationState \<Rightarrow> PublicationState set" where
  "allowed_states s = (if s = GATED then {GATED, PENDING, PUBLISHED} else {s, PUBLISHED})"

definition companion_matches :: "string \<Rightarrow> StoredStreamWorkPlan \<Rightarrow> NewStreamWorkPlan \<Rightarrow> bool" where
  "companion_matches k current candidate \<longleftrightarrow>
     sw_work_item_id current = nw_work_item_id candidate
     \<and> sw_work_logical_key current = nw_work_logical_key candidate
     \<and> sw_plan_key current = k
     \<and> sw_expected_ordinal current = nw_expected_ordinal candidate
     \<and> sw_role_order current = nw_role_order candidate
     \<and> sw_stage current = nw_stage candidate
     \<and> sw_plan_json current = nw_plan_json candidate
     \<and> sw_publication_state current \<in> allowed_states (nw_publication_state candidate)"

definition verify_existing_work_rows ::
    "stream_db \<Rightarrow> string \<Rightarrow> int option \<Rightarrow> NewStreamWorkPlan list \<Rightarrow> stream_ledger_error + unit" where
  "verify_existing_work_rows db k n expected =
     (let stored = companion_rows db k n in
      if length stored \<noteq> length expected
      then Inl (SQLiteStreamWorkLedgerConflict ''stream work replay lacks exact companion rows'')
      else if list_ex (\<lambda>(current, candidate). \<not> companion_matches k current candidate) (zip stored expected)
      then Inl (SQLiteStreamWorkLedgerConflict ''stream work replay changed exact companion rows'')
      else Inr ())"

section \<open>Plans\<close>

definition new_plan :: "string \<Rightarrow> string \<Rightarrow> string \<Rightarrow> string \<Rightarrow> StoredStreamPlan" where
  "new_plan k plan_json source config =
     \<lparr>sp_plan_key = k, sp_plan_json = plan_json, sp_source_subject_json = source,
      sp_composition_config_json = config, sp_planner_eos_sha256 = None, sp_seal_json = None,
      sp_terminal_closure_json = None, sp_export_manifest_sha256 = None, sp_export_member_count = None\<rparr>"

definition register_plan :: "string \<Rightarrow> string \<Rightarrow> string \<Rightarrow> string \<Rightarrow> stream_db \<Rightarrow> unit stream_call" where
  "register_plan k plan_json source config = run_write (\<lambda>db.
     case plan_row db k of
       Some existing \<Rightarrow>
         if sp_plan_json existing \<noteq> plan_json \<or> sp_source_subject_json existing \<noteq> source
            \<or> sp_composition_config_json existing \<noteq> config
         then Inl (SQLiteStreamWorkLedgerConflict ''composition replay changed plan or policy pins'')
         else Inr (db, ())
     | None \<Rightarrow>
         Inr (db\<lparr>stream_plans := stream_plans db @ [new_plan k plan_json source config]\<rparr>, ()))"

definition get_plan :: "string \<Rightarrow> stream_db \<Rightarrow> StoredStreamPlan stream_call" where
  "get_plan k = run_read (\<lambda>db. case plan_row db k of None \<Rightarrow> Inl unregistered | Some p \<Rightarrow> Inr p)"

definition plans :: "stream_db \<Rightarrow> StoredStreamPlan list stream_call" where
  "plans = run_read (\<lambda>db. Inr (sort_key sp_plan_key (stream_plans db)))"

section \<open>Backpressure controllers\<close>

definition claim_controller_in_transaction ::
    "string \<Rightarrow> string \<Rightarrow> string \<Rightarrow> string \<Rightarrow> string \<Rightarrow> stream_db
      \<Rightarrow> StoredStreamBackpressureController stream_tx" where
  "claim_controller_in_transaction k c policy owner initial db =
     (if plan_row db k = None then Inl unregistered
      else case controller_row db k c of
        None \<Rightarrow>
          let row = \<lparr>bc_plan_key = k, bc_controller_key = c, bc_policy_version = policy,
            bc_owner_id = owner, bc_owner_fence = 1, bc_state_json = initial\<rparr>
          in Inr (db\<lparr>stream_backpressure_controllers := stream_backpressure_controllers db @ [row]\<rparr>, row)
      | Some stored \<Rightarrow>
          if bc_policy_version stored \<noteq> policy
          then Inl (SQLiteStreamWorkLedgerConflict ''backpressure controller policy version changed'')
          else if bc_owner_id stored = owner then Inr (db, stored)
          else
            let next_fence = bc_owner_fence stored + 1;
                p = (\<lambda>r. bc_plan_key r = k \<and> bc_controller_key r = c
                   \<and> bc_owner_fence r = bc_owner_fence stored)
            in if rowcount p (stream_backpressure_controllers db) \<noteq> 1
               then Inl (Authority_error (WorkFenceError ''backpressure controller ownership changed''))
               else Inr (upd_controllers p (\<lambda>r. r\<lparr>bc_owner_id := owner, bc_owner_fence := next_fence\<rparr>) db,
                 stored\<lparr>bc_owner_id := owner, bc_owner_fence := next_fence\<rparr>))"

definition claim_backpressure_controller ::
    "string \<Rightarrow> string \<Rightarrow> string \<Rightarrow> string \<Rightarrow> string \<Rightarrow> stream_db
      \<Rightarrow> StoredStreamBackpressureController stream_call" where
  "claim_backpressure_controller k c policy owner initial db =
     (case rbind (require_nonempty_text k ''plan_key'') (\<lambda>_.
           rbind (require_nonempty_text c ''controller_key'') (\<lambda>_.
           rbind (require_nonempty_text policy ''policy_version'') (\<lambda>_.
           rbind (require_nonempty_text owner ''owner_id'') (\<lambda>_.
           require_nonempty_bytes initial ''initial_state_json'')))) of
        Inl e \<Rightarrow> (db, Inl e)
      | Inr _ \<Rightarrow> run_write (claim_controller_in_transaction k c policy owner initial) db)"

text \<open>The \<open>WHERE\<close> clause of the save: the handle's owner, fence and policy are the row's.\<close>

definition controller_fence_matches ::
    "StoredStreamBackpressureController \<Rightarrow> StoredStreamBackpressureController \<Rightarrow> bool" where
  "controller_fence_matches h r \<longleftrightarrow>
     bc_plan_key r = bc_plan_key h \<and> bc_controller_key r = bc_controller_key h
     \<and> bc_owner_id r = bc_owner_id h \<and> bc_owner_fence r = bc_owner_fence h
     \<and> bc_policy_version r = bc_policy_version h"

definition save_backpressure_controller ::
    "StoredStreamBackpressureController \<Rightarrow> string \<Rightarrow> stream_db
      \<Rightarrow> StoredStreamBackpressureController stream_call" where
  "save_backpressure_controller h state_json db =
     (case require_nonempty_bytes state_json ''state_json'' of
        Inl e \<Rightarrow> (db, Inl e)
      | Inr _ \<Rightarrow> run_write (\<lambda>db.
          if rowcount (controller_fence_matches h) (stream_backpressure_controllers db) \<noteq> 1
          then Inl (Authority_error (WorkFenceError ''backpressure controller fence is stale''))
          else Inr (upd_controllers (controller_fence_matches h) (\<lambda>r. r\<lparr>bc_state_json := state_json\<rparr>) db,
            h\<lparr>bc_state_json := state_json\<rparr>)) db)"

section \<open>Fair admission\<close>

text \<open>
  The rows of the aggregate query: child work of a recording that has this controller, still
  pending, not yet projected, or not terminal.
\<close>

definition active_work :: "stream_db \<Rightarrow> string \<Rightarrow> StoredStreamWorkPlan \<Rightarrow> bool" where
  "active_work db c w \<longleftrightarrow>
     list_ex (\<lambda>r. bc_plan_key r = sw_plan_key w \<and> bc_controller_key r = c) (stream_backpressure_controllers db)
     \<and> sw_expected_ordinal w \<noteq> None
     \<and> (sw_publication_state w = PENDING
        \<or> (case item_of (authority db) (sw_work_item_id w) of
             None \<Rightarrow> True | Some item \<Rightarrow> state item \<notin> TERMINAL_WORK_STATES))"

text \<open>\<open>COUNT(DISTINCT stream.expected_ordinal) ... GROUP BY stream.plan_key ORDER BY stream.plan_key\<close>\<close>

definition active_by_plan :: "stream_db \<Rightarrow> string \<Rightarrow> (string \<times> nat) list" where
  "active_by_plan db c =
     (let rows = filter (active_work db c) (stream_work_plans db) in
      map (\<lambda>k. (k, length (remdups (map sw_expected_ordinal (filter (\<lambda>w. sw_plan_key w = k) rows)))))
        (sort (remdups (map sw_plan_key rows))))"

definition enforce_recording_fair_admission ::
    "stream_db \<Rightarrow> string \<Rightarrow> string \<Rightarrow> string \<Rightarrow> nat \<Rightarrow> stream_ledger_error + unit" where
  "enforce_recording_fair_admission db k c policy requested =
     (case controller_row db k c of
        None \<Rightarrow> Inl (SQLiteStreamWorkLedgerError
          ''backpressure fairness requires a registered partition controller'')
      | Some controller \<Rightarrow>
          if bc_policy_version controller \<noteq> policy
          then Inl (SQLiteStreamWorkLedgerConflict
            ''backpressure fairness policy does not match this recording controller'')
          else if list_ex (\<lambda>r. bc_controller_key r = c \<and> bc_policy_version r \<noteq> policy)
            (stream_backpressure_controllers db)
          then Inl (SQLiteStreamWorkLedgerConflict
            ''backpressure partition controller key has conflicting policy versions'')
          else
            let by_plan = active_by_plan db c;
                peers = map snd (filter (\<lambda>(candidate, n). candidate \<noteq> k) by_plan)
            in if peers = [] then Inr ()
               else
                 let current = (case map_of by_plan k of None \<Rightarrow> 0 | Some n \<Rightarrow> n);
                     least = Min (set peers);
                     allowed = least + 1 - current
                 in if requested > allowed
                    then Inl (SQLiteStreamWorkLedgerFairnessThrottle k c current least requested allowed)
                    else Inr ())"

section \<open>Windows\<close>

definition validate_window :: "NewStreamWindow \<Rightarrow> stream_ledger_error + unit" where
  "validate_window w =
     (if nwin_ordinal w < 0 then Inl (Stream_ValueError ''window ordinal must be a nonnegative integer'')
      else if list_ex (\<lambda>n. nw_expected_ordinal n \<noteq> Some (nwin_ordinal w)) (nwin_work_plans w)
      then Inl (SQLiteStreamWorkLedgerConflict ''stream child work ordinal does not match its window'')
      else Inr ())"

definition validate_batch ::
    "NewStreamWindow list \<Rightarrow> string option \<Rightarrow> string option \<Rightarrow> stream_ledger_error + unit" where
  "validate_batch checked controller policy =
     rbind (if (controller = None) \<noteq> (policy = None)
        then Inl (Stream_ValueError ''controller_key and controller_policy_version must be supplied together'')
        else Inr ()) (\<lambda>_.
     rbind (case (controller, policy) of
        (Some c, Some p) \<Rightarrow> rbind (require_nonempty_text c ''controller_key'')
          (\<lambda>_. require_nonempty_text p ''controller_policy_version'')
      | _ \<Rightarrow> Inr ()) (\<lambda>_.
     rbind (fold_res (\<lambda>w _. validate_window w) checked ()) (\<lambda>_.
     (let ordinals = map nwin_ordinal checked in
      if \<not> distinct ordinals \<or> ordinals \<noteq> sort ordinals
      then Inl (SQLiteStreamWorkLedgerConflict ''window batch ordinals must be unique and ordered'')
      else Inr ()))))"

definition next_ordinal :: "stream_db \<Rightarrow> string \<Rightarrow> int" where
  "next_ordinal db k =
     (case map ew_ordinal (filter (\<lambda>w. ew_plan_key w = k) (expected_windows db)) of
        [] \<Rightarrow> 0 | n # ns \<Rightarrow> Max (set (n # ns)) + 1)"

text \<open>One turn of the loop over the batch: the next ordinal and the flags so far.\<close>

definition scan_window ::
    "stream_db \<Rightarrow> string \<Rightarrow> StoredStreamPlan \<Rightarrow> NewStreamWindow \<Rightarrow> int \<times> bool list
      \<Rightarrow> stream_ledger_error + (int \<times> bool list)" where
  "scan_window db k plan w s =
     (case window_row db k (nwin_ordinal w) of
        Some stored \<Rightarrow>
          if ew_declaration_json stored \<noteq> nwin_declaration_json w \<or> ew_window_json stored \<noteq> nwin_window_json w
          then Inl (SQLiteStreamWorkLedgerConflict ''expected-window replay changed exact bytes'')
          else rbind (verify_existing_work_rows db k (Some (nwin_ordinal w)) (nwin_work_plans w))
            (\<lambda>_. Inr (fst s, snd s @ [False]))
      | None \<Rightarrow>
          if sp_planner_eos_sha256 plan \<noteq> None \<or> sp_seal_json plan \<noteq> None
          then Inl (SQLiteStreamWorkLedgerConflict ''cannot append a new window after planner EOS'')
          else if fst s \<noteq> nwin_ordinal w
          then Inl (SQLiteStreamWorkLedgerConflict
            ''expected windows must be appended in contiguous planner order'')
          else Inr (fst s + 1, snd s @ [True]))"

definition insert_window_and_works ::
    "string \<Rightarrow> NewStreamWindow \<times> bool \<Rightarrow> stream_db \<Rightarrow> stream_ledger_error + stream_db" where
  "insert_window_and_works k wb db =
     (if \<not> snd wb then Inr db
      else rbind (insert_window k (fst wb) db) (fold_res (insert_work k) (nwin_work_plans (fst wb))))"

definition append_in_transaction ::
    "string \<Rightarrow> NewStreamWindow list \<Rightarrow> string option \<Rightarrow> string option \<Rightarrow> stream_db \<Rightarrow> bool list stream_tx" where
  "append_in_transaction k checked controller policy db =
     (case plan_row db k of
        None \<Rightarrow> Inl unregistered
      | Some plan \<Rightarrow>
          rbind (fold_res (scan_window db k plan) checked (next_ordinal db k, [])) (\<lambda>s.
          rbind (case (controller, policy) of
             (Some c, Some p) \<Rightarrow>
               if True \<in> set (snd s)
               then enforce_recording_fair_admission db k c p (length (filter id (snd s)))
               else Inr ()
           | _ \<Rightarrow> Inr ()) (\<lambda>_.
          rbind (fold_res (insert_window_and_works k) (zip checked (snd s)) db) (\<lambda>db'.
          Inr (db', snd s)))))"

definition append_windows ::
    "string \<Rightarrow> NewStreamWindow list \<Rightarrow> string option \<Rightarrow> string option \<Rightarrow> stream_db \<Rightarrow> bool list stream_call"
  where
  "append_windows k checked controller policy db =
     (if checked = [] then (db, Inr [])
      else case validate_batch checked controller policy of
        Inl e \<Rightarrow> (db, Inl e)
      | Inr _ \<Rightarrow> run_write (append_in_transaction k checked controller policy) db)"

definition append_window ::
    "string \<Rightarrow> int \<Rightarrow> string \<Rightarrow> string \<Rightarrow> NewStreamWorkPlan list \<Rightarrow> string option \<Rightarrow> string option
      \<Rightarrow> stream_db \<Rightarrow> bool stream_call" where
  "append_window k n declaration window works controller policy db =
     (case append_windows k [\<lparr>nwin_ordinal = n, nwin_declaration_json = declaration,
         nwin_window_json = window, nwin_work_plans = works\<rparr>] controller policy db of
        (db', Inl e) \<Rightarrow> (db', Inl e)
      | (db', Inr flags) \<Rightarrow> (db', Inr (hd flags)))"

definition windows :: "string \<Rightarrow> stream_db \<Rightarrow> StoredExpectedWindow list stream_call" where
  "windows k = run_read (\<lambda>db.
     Inr (sort_key ew_ordinal (filter (\<lambda>w. ew_plan_key w = k) (expected_windows db))))"

definition check_ordinals :: "int list \<Rightarrow> stream_ledger_error + unit" where
  "check_ordinals checked =
     (if list_ex (\<lambda>n. n < 0) checked then Inl (Stream_ValueError ''ordinals must contain nonnegative integers'')
      else if \<not> distinct checked then Inl (Stream_ValueError ''ordinals must be unique'')
      else Inr ())"

definition windows_for_ordinals ::
    "string \<Rightarrow> int list \<Rightarrow> stream_db \<Rightarrow> StoredExpectedWindow list stream_call" where
  "windows_for_ordinals k checked db =
     (case check_ordinals checked of
        Inl e \<Rightarrow> (db, Inl e)
      | Inr _ \<Rightarrow>
          if checked = [] then (db, Inr [])
          else run_read (\<lambda>db. Inr (sort_key ew_ordinal
            (filter (\<lambda>w. ew_plan_key w = k \<and> ew_ordinal w \<in> set checked) (expected_windows db)))) db)"

definition window_count :: "string \<Rightarrow> stream_db \<Rightarrow> nat stream_call" where
  "window_count k = run_read (\<lambda>db. Inr (rowcount (\<lambda>w. ew_plan_key w = k) (expected_windows db)))"

definition next_window_ordinal :: "string \<Rightarrow> stream_db \<Rightarrow> int stream_call" where
  "next_window_ordinal k = run_read (\<lambda>db. Inr (next_ordinal db k))"

definition window_at :: "string \<Rightarrow> int \<Rightarrow> stream_db \<Rightarrow> StoredExpectedWindow option stream_call" where
  "window_at k n = run_read (\<lambda>db. Inr (window_row db k n))"

definition terminal_member_at :: "string \<Rightarrow> int \<Rightarrow> stream_db \<Rightarrow> string option stream_call" where
  "terminal_member_at k n = run_read (\<lambda>db.
     Inr (case window_row db k n of None \<Rightarrow> None | Some w \<Rightarrow> ew_terminal_member_json w))"

definition terminal_member_count :: "string \<Rightarrow> stream_db \<Rightarrow> nat stream_call" where
  "terminal_member_count k = run_read (\<lambda>db.
     Inr (rowcount (\<lambda>w. ew_plan_key w = k \<and> ew_terminal_member_json w \<noteq> None) (expected_windows db)))"

section \<open>End of stream, seal, export barrier and closure\<close>

definition set_planner_eos :: "string \<Rightarrow> string \<Rightarrow> stream_db \<Rightarrow> unit stream_call" where
  "set_planner_eos k finish = run_write (\<lambda>db.
     case plan_row db k of
       None \<Rightarrow> Inl unregistered
     | Some p \<Rightarrow>
         if sp_planner_eos_sha256 p \<noteq> None \<and> sp_planner_eos_sha256 p \<noteq> Some finish
         then Inl (SQLiteStreamWorkLedgerConflict ''planner EOS replay changed exact facts'')
         else Inr (upd_plan k (\<lambda>p. p\<lparr>sp_planner_eos_sha256 := Some finish\<rparr>) db, ()))"

definition declaration_rows :: "stream_db \<Rightarrow> string \<Rightarrow> StoredExpectedWindow list" where
  "declaration_rows db k = sort_key ew_ordinal (filter (\<lambda>w. ew_plan_key w = k) (expected_windows db))"

definition seal_in_transaction ::
    "string \<Rightarrow> string \<Rightarrow> string list \<Rightarrow> NewStreamWorkPlan \<Rightarrow> stream_db \<Rightarrow> bool stream_tx" where
  "seal_in_transaction k seal_json declarations finalization db =
     (case plan_row db k of
        None \<Rightarrow> Inl unregistered
      | Some p \<Rightarrow>
          if sp_planner_eos_sha256 p = None
          then Inl (SQLiteStreamWorkLedgerConflict ''planner EOS must be durable before seal'')
          else if map ew_ordinal (declaration_rows db k) \<noteq> map int [0..<length declarations]
            \<or> map ew_declaration_json (declaration_rows db k) \<noteq> declarations
          then Inl (SQLiteStreamWorkLedgerConflict ''EOS seal declarations changed before commit'')
          else case sp_seal_json p of
            Some existing \<Rightarrow>
              if existing \<noteq> seal_json
              then Inl (SQLiteStreamWorkLedgerConflict ''EOS seal replay changed source facts'')
              else rbind (verify_existing_work_rows db k None [finalization]) (\<lambda>_. Inr (db, False))
          | None \<Rightarrow>
              rbind (insert_work k finalization (upd_plan k (\<lambda>p. p\<lparr>sp_seal_json := Some seal_json\<rparr>) db))
                (\<lambda>db'. Inr (db', True)))"

definition store_seal_and_finalization ::
    "string \<Rightarrow> string \<Rightarrow> string list \<Rightarrow> NewStreamWorkPlan \<Rightarrow> stream_db \<Rightarrow> bool stream_call" where
  "store_seal_and_finalization k seal_json declarations finalization =
     run_write (seal_in_transaction k seal_json declarations finalization)"

definition mark_export_barrier :: "string \<Rightarrow> string \<Rightarrow> int \<Rightarrow> stream_db \<Rightarrow> unit stream_call" where
  "mark_export_barrier k manifest members = run_write (\<lambda>db.
     case plan_row db k of
       None \<Rightarrow> Inl unregistered
     | Some p \<Rightarrow>
         if sp_export_manifest_sha256 p \<noteq> None
            \<and> (sp_export_manifest_sha256 p, sp_export_member_count p) \<noteq> (Some manifest, Some members)
         then Inl (SQLiteStreamWorkLedgerConflict ''export barrier replay changed manifest'')
         else Inr (upd_plan k (\<lambda>p. p\<lparr>sp_export_manifest_sha256 := Some manifest,
             sp_export_member_count := Some members\<rparr>) db, ()))"

definition closure_in_transaction :: "string \<Rightarrow> string \<Rightarrow> string \<Rightarrow> stream_db \<Rightarrow> unit stream_tx" where
  "closure_in_transaction k closure_json finalization_stage db =
     (case plan_row db k of
        None \<Rightarrow> Inl unregistered
      | Some p \<Rightarrow>
          if sp_terminal_closure_json p \<noteq> None \<and> sp_terminal_closure_json p \<noteq> Some closure_json
          then Inl (SQLiteStreamWorkLedgerConflict ''terminal closure replay changed accepted members'')
          else case filter (\<lambda>w. sw_plan_key w = k \<and> sw_stage w = finalization_stage) (stream_work_plans db) of
            [row] \<Rightarrow>
              if sp_terminal_closure_json p = None \<and> sw_publication_state row \<noteq> GATED
              then Inl (SQLiteStreamWorkLedgerConflict ''unclosed finalization work must remain gated'')
              else if sp_terminal_closure_json p \<noteq> None \<and> sw_publication_state row = GATED
              then Inl (SQLiteStreamWorkLedgerConflict ''closed finalization work cannot remain gated'')
              else
                let db1 = upd_plan k (\<lambda>p. p\<lparr>sp_terminal_closure_json := Some closure_json\<rparr>) db;
                    q = (\<lambda>w. sw_plan_key w = k \<and> sw_stage w = finalization_stage
                       \<and> sw_publication_state w = GATED)
                in if rowcount q (stream_work_plans db1) \<notin> {0, 1}
                   then Inl (SQLiteStreamWorkLedgerError ''finalization gate has duplicate work rows'')
                   else Inr (upd_works q (\<lambda>w. w\<lparr>sw_publication_state := PENDING\<rparr>) db1, ())
          | _ \<Rightarrow> Inl (SQLiteStreamWorkLedgerError ''terminal closure requires exact finalization work''))"

definition store_closure_and_open_finalization ::
    "string \<Rightarrow> string \<Rightarrow> string \<Rightarrow> stream_db \<Rightarrow> unit stream_call" where
  "store_closure_and_open_finalization k closure_json finalization_stage =
     run_write (closure_in_transaction k closure_json finalization_stage)"

section \<open>Work plans\<close>

text \<open>\<open>ORDER BY COALESCE(expected_ordinal, 2147483647), role_order, work_item_id\<close>\<close>

definition work_order :: "StoredStreamWorkPlan \<Rightarrow> int \<times> int \<times> string" where
  "work_order w =
     (case sw_expected_ordinal w of None \<Rightarrow> 2147483647 | Some n \<Rightarrow> n, sw_role_order w, sw_work_item_id w)"

definition work_plans :: "string \<Rightarrow> stream_db \<Rightarrow> StoredStreamWorkPlan list stream_call" where
  "work_plans k = run_read (\<lambda>db.
     Inr (sort_key work_order (filter (\<lambda>w. sw_plan_key w = k) (stream_work_plans db))))"

definition pending_publication_work_rows ::
    "string \<Rightarrow> stream_db \<Rightarrow> StoredStreamWorkPlan list stream_call" where
  "pending_publication_work_rows k = run_read (\<lambda>db.
     Inr (sort_key work_order
       (filter (\<lambda>w. sw_plan_key w = k \<and> sw_publication_state w = PENDING) (stream_work_plans db))))"

text \<open>The rows of \<open>stream_work_plans JOIN work_items\<close> on the work item id.\<close>

definition joined :: "stream_db \<Rightarrow> (StoredStreamWorkPlan \<times> WorkItem) list" where
  "joined db = concat (map (\<lambda>s. map (\<lambda>w. (s, w))
     (filter (\<lambda>w. work_item_id w = sw_work_item_id s) (work_items (authority db)))) (stream_work_plans db))"

definition next_ready_work :: "string \<Rightarrow> stream_db \<Rightarrow> StoredStreamWorkPlan option stream_call" where
  "next_ready_work k = run_read (\<lambda>db.
     Inr (map_option fst (min_by (\<lambda>r. dispatch_key (snd r))
       (filter (\<lambda>(s, w). sw_plan_key s = k \<and> sw_publication_state s = PUBLISHED \<and> state w = READY)
         (joined db)))))"

definition ordinal_order :: "StoredStreamWorkPlan \<Rightarrow> int \<times> int \<times> string" where
  "ordinal_order w = (case sw_expected_ordinal w of None \<Rightarrow> 0 | Some n \<Rightarrow> n, sw_role_order w, sw_work_item_id w)"

definition work_plans_for_ordinals ::
    "string \<Rightarrow> int list \<Rightarrow> stream_db \<Rightarrow> StoredStreamWorkPlan list stream_call" where
  "work_plans_for_ordinals k checked db =
     (case check_ordinals checked of
        Inl e \<Rightarrow> (db, Inl e)
      | Inr _ \<Rightarrow>
          if checked = [] then (db, Inr [])
          else run_read (\<lambda>db. Inr (sort_key ordinal_order
            (filter (\<lambda>w. sw_plan_key w = k \<and> (\<exists>n \<in> set checked. sw_expected_ordinal w = Some n))
              (stream_work_plans db)))) db)"

definition check_ids :: "string list \<Rightarrow> stream_ledger_error + unit" where
  "check_ids checked =
     (if [] \<in> set checked then Inl (Stream_ValueError ''work_item_ids must contain non-empty strings'')
      else if \<not> distinct checked then Inl (Stream_ValueError ''work_item_ids must be unique'')
      else Inr ())"

definition work_plans_for_ids :: "string list \<Rightarrow> stream_db \<Rightarrow> StoredStreamWorkPlan list stream_call" where
  "work_plans_for_ids checked db =
     (case check_ids checked of
        Inl e \<Rightarrow> (db, Inl e)
      | Inr _ \<Rightarrow>
          if checked = [] then (db, Inr [])
          else run_read (\<lambda>db. traverse (\<lambda>i. case work_row db i of
              None \<Rightarrow> Inl (SQLiteStreamWorkLedgerError ''stream work lookup row is absent'')
            | Some w \<Rightarrow> Inr w) checked) db)"

definition work_plans_for_ordinal :: "string \<Rightarrow> int \<Rightarrow> stream_db \<Rightarrow> StoredStreamWorkPlan list stream_call" where
  "work_plans_for_ordinal k n = run_read (\<lambda>db. Inr (companion_rows db k (Some n)))"

definition get_work :: "string \<Rightarrow> stream_db \<Rightarrow> StoredStreamWorkPlan stream_call" where
  "get_work i = run_read (\<lambda>db. case work_row db i of
       None \<Rightarrow> Inl (SQLiteStreamWorkLedgerError ''work item is not in this stream graph'')
     | Some w \<Rightarrow> Inr w)"

definition get_work_by_key :: "string \<Rightarrow> stream_db \<Rightarrow> StoredStreamWorkPlan stream_call" where
  "get_work_by_key key = run_read (\<lambda>db.
     case find_row (\<lambda>w. sw_work_logical_key w = key) (stream_work_plans db) of
       None \<Rightarrow> Inl (SQLiteStreamWorkLedgerError ''upstream stream work is not durable'')
     | Some w \<Rightarrow> Inr w)"

section \<open>Publication\<close>

definition publish_row :: "StoredStreamWorkPlan \<Rightarrow> StoredStreamWorkPlan" where
  "publish_row w = w\<lparr>sw_publication_state := PUBLISHED\<rparr>"

definition mark_published :: "string \<Rightarrow> stream_db \<Rightarrow> unit stream_call" where
  "mark_published i = run_write (\<lambda>db.
     Inr (upd_works (\<lambda>w. sw_work_item_id w = i \<and> sw_publication_state w = PENDING) publish_row db, ()))"

definition mark_published_many :: "string list \<Rightarrow> stream_db \<Rightarrow> nat stream_call" where
  "mark_published_many checked db =
     (if checked = [] then (db, Inr 0)
      else case check_ids checked of
        Inl e \<Rightarrow> (db, Inl e)
      | Inr _ \<Rightarrow> run_write (\<lambda>db.
          let rows = filter (\<lambda>w. sw_work_item_id w \<in> set checked) (stream_work_plans db);
              p = (\<lambda>w. sw_work_item_id w \<in> set checked \<and> sw_publication_state w = PENDING)
          in if set (map sw_work_item_id rows) \<noteq> set checked
             then Inl (SQLiteStreamWorkLedgerError ''work publication row is absent'')
             else if list_ex (\<lambda>w. sw_publication_state w \<notin> {PENDING, PUBLISHED}) rows
             then Inl (SQLiteStreamWorkLedgerConflict ''gated work cannot be published'')
             else Inr (upd_works p publish_row db, rowcount p (stream_work_plans db))) db)"

section \<open>Terminal acceptance\<close>

text \<open>The disjunction of the source's lease check, negated.\<close>

definition fence_holds ::
    "int \<Rightarrow> string \<Rightarrow> string \<Rightarrow> time \<Rightarrow> time option \<Rightarrow> WorkItem \<Rightarrow> bool" where
  "fence_holds epoch token worker now expires w \<longleftrightarrow>
     state w \<in> {LEASED, RUNNING} \<and> int (lease_epoch w) = epoch \<and> fencing_token w = Some token
     \<and> leased_by w = Some worker
     \<and> (case lease_expires_at w of None \<Rightarrow> False
        | Some t \<Rightarrow> (expires \<noteq> None \<longrightarrow> expires = Some t) \<and> now < t)"

definition set_pending :: "string \<Rightarrow> int \<Rightarrow> string \<Rightarrow> StoredStreamWorkPlan \<Rightarrow> StoredStreamWorkPlan" where
  "set_pending payload epoch token w =
     w\<lparr>sw_pending_terminal_json := Some payload, sw_pending_lease_epoch := Some epoch,
       sw_pending_fencing_token := Some token\<rparr>"

definition store_pending_in_transaction ::
    "string \<Rightarrow> string \<Rightarrow> int \<Rightarrow> string \<Rightarrow> string option \<Rightarrow> time option \<Rightarrow> time option \<Rightarrow> stream_db
      \<Rightarrow> bool stream_tx" where
  "store_pending_in_transaction i payload epoch token worker now expires db =
     (case work_row db i of
        None \<Rightarrow> Inl (SQLiteStreamWorkLedgerError ''terminal work is not in this graph'')
      | Some row \<Rightarrow>
          (case sw_terminal_evidence_json row of
             Some accepted \<Rightarrow>
               if accepted \<noteq> payload
               then Inl (SQLiteStreamWorkLedgerConflict ''terminal replay changed accepted stream evidence'')
               else Inr (db, False)
           | None \<Rightarrow>
               rbind (case (worker, now) of
                  (Some u, Some t) \<Rightarrow>
                    (case item_of (authority db) i of
                       None \<Rightarrow> Inl (Authority_error (WorkFenceError ''work lease is stale, expired, or inactive''))
                     | Some w \<Rightarrow>
                         if \<not> fence_holds epoch token u t expires w
                         then Inl (Authority_error (WorkFenceError ''work lease is stale, expired, or inactive''))
                         else Inr ())
                | _ \<Rightarrow> Inr ()) (\<lambda>_.
               let write = Inr (upd_works (\<lambda>w. sw_work_item_id w = i) (set_pending payload epoch token) db, True)
               in case (sw_pending_terminal_json row, sw_pending_lease_epoch row) of
                    (Some pending, Some pending_epoch) \<Rightarrow>
                      if pending = payload \<and> pending_epoch = epoch \<and> sw_pending_fencing_token row = Some token
                      then Inr (db, True)
                      else if pending_epoch \<ge> epoch
                      then Inl (SQLiteStreamWorkLedgerConflict
                        ''a newer or conflicting terminal acceptance is pending'')
                      else write
                  | _ \<Rightarrow> write)))"

definition store_pending_terminal ::
    "string \<Rightarrow> string \<Rightarrow> int \<Rightarrow> string \<Rightarrow> string option \<Rightarrow> time option \<Rightarrow> time option \<Rightarrow> stream_db
      \<Rightarrow> bool stream_call" where
  "store_pending_terminal i payload epoch token worker now expires db =
     (if (worker = None) \<noteq> (now = None)
      then (db, Inl (Stream_ValueError ''worker_id and authority_now must be supplied together''))
      else run_write (store_pending_in_transaction i payload epoch token worker now expires) db)"

definition pending_work_rows :: "string \<Rightarrow> stream_db \<Rightarrow> StoredStreamWorkPlan list stream_call" where
  "pending_work_rows k = run_read (\<lambda>db.
     Inr (sort_key sw_work_item_id
       (filter (\<lambda>w. sw_plan_key w = k \<and> sw_pending_terminal_json w \<noteq> None) (stream_work_plans db))))"

definition pending_work_item_ids :: "string \<Rightarrow> stream_db \<Rightarrow> string list stream_call" where
  "pending_work_item_ids k = run_read (\<lambda>db.
     Inr (map sw_work_item_id (sort_key sw_work_item_id
       (filter (\<lambda>w. sw_plan_key w = k \<and> sw_pending_terminal_json w \<noteq> None) (stream_work_plans db)))))"

definition promote_pending :: "StoredStreamWorkPlan \<Rightarrow> StoredStreamWorkPlan" where
  "promote_pending w =
     w\<lparr>sw_terminal_evidence_json := sw_pending_terminal_json w, sw_pending_terminal_json := None,
       sw_pending_lease_epoch := None, sw_pending_fencing_token := None\<rparr>"

definition check_member ::
    "stream_db \<Rightarrow> StoredStreamWorkPlan \<Rightarrow> string option \<Rightarrow> int option \<Rightarrow> stream_ledger_error + unit" where
  "check_member db row member ordinal =
     (case member of
        None \<Rightarrow> Inr ()
      | Some m \<Rightarrow>
          (case ordinal of
             None \<Rightarrow> Inl (SQLiteStreamWorkLedgerError ''window terminal member requires an expected ordinal'')
           | Some n \<Rightarrow>
               (case window_row db (sw_plan_key row) n of
                  None \<Rightarrow> Inl (SQLiteStreamWorkLedgerError ''window reduction lacks expected declaration'')
                | Some w \<Rightarrow>
                    if ew_terminal_member_json w \<noteq> None \<and> ew_terminal_member_json w \<noteq> Some m
                    then Inl (SQLiteStreamWorkLedgerConflict ''terminal member replay changed accepted evidence'')
                    else Inr ())))"

definition set_member :: "stream_db \<Rightarrow> StoredStreamWorkPlan \<Rightarrow> string option \<Rightarrow> int option \<Rightarrow> stream_db" where
  "set_member db row member ordinal =
     (case (member, ordinal) of
        (Some m, Some n) \<Rightarrow> upd_windows (\<lambda>w. ew_plan_key w = sw_plan_key row \<and> ew_ordinal w = n)
          (\<lambda>w. w\<lparr>ew_terminal_member_json := Some m\<rparr>) db
      | _ \<Rightarrow> db)"

definition accept_in_transaction ::
    "string \<Rightarrow> string \<Rightarrow> string option \<Rightarrow> int option \<Rightarrow> stream_db \<Rightarrow> unit stream_tx" where
  "accept_in_transaction i expected_pending member ordinal db =
     (case work_row db i of
        None \<Rightarrow> Inl (SQLiteStreamWorkLedgerError ''terminal work is not in this graph'')
      | Some row \<Rightarrow>
          (case sw_terminal_evidence_json row of
             Some accepted \<Rightarrow>
               if accepted \<noteq> expected_pending
               then Inl (SQLiteStreamWorkLedgerConflict ''terminal replay changed accepted stream evidence'')
               else Inr (db, ())
           | None \<Rightarrow>
               if sw_pending_terminal_json row \<noteq> Some expected_pending
               then Inl (SQLiteStreamWorkLedgerConflict ''pending terminal changed before acceptance'')
               else rbind (check_member db row member ordinal) (\<lambda>_.
                 Inr (set_member (upd_works (\<lambda>w. sw_work_item_id w = i) promote_pending db) row member ordinal, ()))))"

definition accept_pending_terminal ::
    "string \<Rightarrow> string \<Rightarrow> string option \<Rightarrow> int option \<Rightarrow> stream_db \<Rightarrow> unit stream_call" where
  "accept_pending_terminal i expected_pending member ordinal =
     run_write (accept_in_transaction i expected_pending member ordinal)"

section \<open>Bounded scope and backlog\<close>

text \<open>
  \<open>_format_timestamp\<close> of the scheduler, the text of its timestamp columns: the UTC date and
  time in ISO format with microseconds. The civil date of a day count is that of the
  proleptic Gregorian calendar, with years that begin in March.
\<close>

definition civil_date :: "int \<Rightarrow> int \<times> int \<times> int" where
  "civil_date days =
     (let z = days + 719468;
          doe = z mod 146097;
          yoe = (doe - doe div 1460 + doe div 36524 - doe div 146096) div 365;
          doy = doe - (365 * yoe + yoe div 4 - yoe div 100);
          mp = (5 * doy + 2) div 153;
          d = doy - (153 * mp + 2) div 5 + 1;
          m = (if mp < 10 then mp + 3 else mp - 9)
      in (yoe + z div 146097 * 400 + (if m \<le> 2 then 1 else 0), m, d))"

primrec digits :: "nat \<Rightarrow> int \<Rightarrow> string" where
  "digits 0 n = []"
| "digits (Suc w) n = digits w (n div 10) @ [char_of (nat (48 + n mod 10))]"

definition format_timestamp :: "time \<Rightarrow> string" where
  "format_timestamp t =
     (let secs = t div 1000000; (y, m, d) = civil_date (secs div 86400); s = secs mod 86400
      in digits 4 y @ ''-'' @ digits 2 m @ ''-'' @ digits 2 d @ ''T''
         @ digits 2 (s div 3600) @ '':'' @ digits 2 (s div 60 mod 60) @ '':'' @ digits 2 (s mod 60)
         @ ''.'' @ digits 6 (t mod 1000000) @ ''+00:00'')"

record StoredStreamWorkExecution =
  ex_work :: StoredStreamWorkPlan
  ex_execution_state :: WorkItemState
  ex_execution_created_at :: string

text \<open>The two common table expressions of the query: the bounded active ids, and their upstreams.\<close>

definition active_scope :: "stream_db \<Rightarrow> string \<Rightarrow> nat \<Rightarrow> WorkItemState list \<Rightarrow> string \<Rightarrow> string list" where
  "active_scope db k max_active terminal_states finalization_stage =
     take max_active (map sw_work_item_id (sort_key work_order (map fst
       (filter (\<lambda>(s, w). sw_plan_key s = k \<and> sw_publication_state s = PUBLISHED
         \<and> sw_stage s \<noteq> finalization_stage \<and> state w \<notin> set terminal_states) (joined db)))))"

definition scoped_ids :: "stream_db \<Rightarrow> string list \<Rightarrow> string set" where
  "scoped_ids db active = set active \<union>
     set (map upstream_work_item_id
       (filter (\<lambda>d. downstream_work_item_id d \<in> set active) (work_dependencies (authority db))))"

definition bounded_execution_scope ::
    "string \<Rightarrow> int \<Rightarrow> WorkItemState list \<Rightarrow> string \<Rightarrow> stream_db
      \<Rightarrow> StoredStreamWorkExecution list stream_call" where
  "bounded_execution_scope k max_active terminal_states finalization_stage db =
     (if max_active \<le> 0 then (db, Inl (Stream_ValueError ''max_active must be positive''))
      else if terminal_states = [] then (db, Inl (Stream_ValueError ''terminal_states must not be empty''))
      else run_read (\<lambda>db.
        let active = active_scope db k (nat max_active) terminal_states finalization_stage
        in Inr (map (\<lambda>(s, w). \<lparr>ex_work = s, ex_execution_state = state w,
               ex_execution_created_at = format_timestamp (created_at w)\<rparr>)
             (sort_key (\<lambda>(s, w). work_order s)
               (filter (\<lambda>(s, w). sw_work_item_id s \<in> scoped_ids db active \<and> sw_plan_key s = k)
                 (joined db))))) db)"

record StoredStreamBacklog =
  bl_state_counts :: "(string \<times> nat) list"
  bl_active_backlog :: nat
  bl_oldest_active_created_at :: "string option"
  bl_declared_window_count :: nat
  bl_expected_plan_sealed :: bool
  bl_terminal_member_count :: nat
  bl_export_manifest_sha256 :: "string option"
  bl_export_member_count :: "int option"
  bl_finalization_published :: bool

fun state_text :: "WorkItemState \<Rightarrow> string" where
  "state_text PLANNED = ''PLANNED''"
| "state_text READY = ''READY''"
| "state_text LEASED = ''LEASED''"
| "state_text RUNNING = ''RUNNING''"
| "state_text RETRY_WAIT = ''RETRY_WAIT''"
| "state_text SUCCEEDED = ''SUCCEEDED''"
| "state_text FAILED_PERMANENT = ''FAILED_PERMANENT''"
| "state_text SKIPPED_POLICY = ''SKIPPED_POLICY''"
| "state_text SKIPPED_NOT_NEEDED = ''SKIPPED_NOT_NEEDED''"
| "state_text CANCELLED = ''CANCELLED''"
| "state_text EXPIRED = ''EXPIRED''"
| "state_text INVALIDATED = ''INVALIDATED''"

text \<open>
  The rows of \<open>stream_work_plans LEFT JOIN work_items\<close>: publication state, execution state
  and the creation time, which is read from the plan's JSON when there is no execution row
  (\<open>json_extract\<close> of SQLite is the parameter \<open>json_created_at\<close>).
\<close>

type_synonym backlog_row = "PublicationState \<times> WorkItemState option \<times> string option"

definition left_joined :: "(string \<Rightarrow> string option) \<Rightarrow> stream_db \<Rightarrow> string \<Rightarrow> backlog_row list" where
  "left_joined json_created_at db k = concat (map (\<lambda>s.
     case filter (\<lambda>w. work_item_id w = sw_work_item_id s) (work_items (authority db)) of
       [] \<Rightarrow> [(sw_publication_state s, None, json_created_at (sw_plan_json s))]
     | ws \<Rightarrow> map (\<lambda>w. (sw_publication_state s, Some (state w), Some (format_timestamp (created_at w)))) ws)
     (filter (\<lambda>s. sw_plan_key s = k) (stream_work_plans db)))"

text \<open>SQL's \<open>MIN\<close>: the least of the values that are not null.\<close>

definition sql_min :: "string option list \<Rightarrow> string option" where
  "sql_min vs = (case map the (filter (\<lambda>v. v \<noteq> None) vs) of [] \<Rightarrow> None | x # xs \<Rightarrow> Some (foldl min x xs))"

record backlog_group =
  bg_publication_state :: PublicationState
  bg_execution_state :: "WorkItemState option"
  bg_state_count :: nat
  bg_oldest_created_at :: "string option"

definition backlog_groups :: "backlog_row list \<Rightarrow> backlog_group list" where
  "backlog_groups rows =
     map (\<lambda>(p, e). let members = filter (\<lambda>(p', e', c). p' = p \<and> e' = e) rows in
         \<lparr>bg_publication_state = p, bg_execution_state = e, bg_state_count = length members,
          bg_oldest_created_at = sql_min (map (\<lambda>(p', e', c). c) members)\<rparr>)
       (remdups (map (\<lambda>(p, e, c). (p, e)) rows))"

text \<open>\<open>counts[key] = counts.get(key, 0) + n\<close> on a dictionary that keeps its insertion order.\<close>

fun dict_add :: "string \<Rightarrow> nat \<Rightarrow> (string \<times> nat) list \<Rightarrow> (string \<times> nat) list" where
  "dict_add key n [] = [(key, n)]"
| "dict_add key n ((key', m) # d) = (if key' = key then (key', m + n) # d else (key', m) # dict_add key n d)"

definition backlog_turn ::
    "WorkItemState list \<Rightarrow> backlog_group \<Rightarrow> (string \<times> nat) list \<times> nat \<times> string option
      \<Rightarrow> stream_ledger_error + ((string \<times> nat) list \<times> nat \<times> string option)" where
  "backlog_turn terminal_states g acc =
     (let (counts, active, oldest) = acc in
      rbind (if bg_publication_state g = GATED then Inr ''GATED''
         else case bg_execution_state g of
           None \<Rightarrow> Inl (SQLiteStreamWorkLedgerError ''published stream work lacks its execution projection'')
         | Some e \<Rightarrow> Inr (state_text e)) (\<lambda>state_key.
      let counts' = dict_add state_key (bg_state_count g) counts in
      if bg_publication_state g = GATED \<or> bg_execution_state g \<notin> Some ` set terminal_states
      then Inr (counts', active + bg_state_count g,
        case bg_oldest_created_at g of None \<Rightarrow> oldest
        | Some c \<Rightarrow> (case oldest of None \<Rightarrow> Some c | Some old \<Rightarrow> if c < old then Some c else oldest))
      else Inr (counts', active, oldest)))"

definition backlog_projection ::
    "(string \<Rightarrow> string option) \<Rightarrow> string \<Rightarrow> WorkItemState list \<Rightarrow> string \<Rightarrow> stream_db
      \<Rightarrow> StoredStreamBacklog stream_call" where
  "backlog_projection json_created_at k terminal_states finalization_stage db =
     (if terminal_states = [] then (db, Inl (Stream_ValueError ''terminal_states must not be empty''))
      else run_read (\<lambda>db.
        case plan_row db k of
          None \<Rightarrow> Inl unregistered
        | Some p \<Rightarrow>
            rbind (fold_res (backlog_turn terminal_states)
              (backlog_groups (left_joined json_created_at db k)) ([], 0, None)) (\<lambda>(counts, active, oldest).
            Inr \<lparr>bl_state_counts = sort counts, bl_active_backlog = active,
              bl_oldest_active_created_at = oldest,
              bl_declared_window_count = rowcount (\<lambda>w. ew_plan_key w = k) (expected_windows db),
              bl_expected_plan_sealed = (sp_seal_json p \<noteq> None),
              bl_terminal_member_count =
                rowcount (\<lambda>w. ew_plan_key w = k \<and> ew_terminal_member_json w \<noteq> None) (expected_windows db),
              bl_export_manifest_sha256 = sp_export_manifest_sha256 p,
              bl_export_member_count = sp_export_member_count p,
              bl_finalization_published = list_ex (\<lambda>w. sw_plan_key w = k \<and> sw_stage w = finalization_stage
                \<and> sw_publication_state w \<noteq> GATED) (stream_work_plans db)\<rparr>)) db)"

section \<open>Calls\<close>

text \<open>
  One command per call that can change the database, the scheduler's own calls among them,
  and the database it leaves whether the call returns or raises.
\<close>

datatype stream_command =
    Register_plan string string string string
  | Claim_controller string string string string string
  | Save_controller StoredStreamBackpressureController string
  | Append_windows string "NewStreamWindow list" "string option" "string option"
  | Set_planner_eos string string
  | Store_seal string string "string list" NewStreamWorkPlan
  | Mark_export_barrier string string int
  | Store_closure string string string
  | Mark_published string
  | Mark_published_many "string list"
  | Store_pending string string int string "string option" "time option" "time option"
  | Accept_pending string string "string option" "int option"
  | Scheduler_call command

fun run_stream_command :: "stream_command \<Rightarrow> stream_db \<Rightarrow> stream_db" where
  "run_stream_command (Register_plan k p s c) db = fst (register_plan k p s c db)"
| "run_stream_command (Claim_controller k c p own st) db = fst (claim_backpressure_controller k c p own st db)"
| "run_stream_command (Save_controller h st) db = fst (save_backpressure_controller h st db)"
| "run_stream_command (Append_windows k ws c p) db = fst (append_windows k ws c p db)"
| "run_stream_command (Set_planner_eos k d) db = fst (set_planner_eos k d db)"
| "run_stream_command (Store_seal k s ds f) db = fst (store_seal_and_finalization k s ds f db)"
| "run_stream_command (Mark_export_barrier k m n) db = fst (mark_export_barrier k m n db)"
| "run_stream_command (Store_closure k c st) db = fst (store_closure_and_open_finalization k c st db)"
| "run_stream_command (Mark_published i) db = fst (mark_published i db)"
| "run_stream_command (Mark_published_many is) db = fst (mark_published_many is db)"
| "run_stream_command (Store_pending i p e t u n x) db = fst (store_pending_terminal i p e t u n x db)"
| "run_stream_command (Accept_pending i p m n) db = fst (accept_pending_terminal i p m n db)"
| "run_stream_command (Scheduler_call c) db = db\<lparr>authority := run_command c (authority db)\<rparr>"

definition run_stream_commands :: "stream_command list \<Rightarrow> stream_db \<Rightarrow> stream_db" where
  "run_stream_commands cs db = fold run_stream_command cs db"

end
