(* ===== verification/Stream_Documents.thy ===== *)
theory Stream_Documents
  imports Stream_Ledger
begin

text \<open>
  The documents that the stream scheduler reads from and writes to its ledger, from
  \<^verbatim>\<open>src/robata/contracts/stream_common.py\<close>, \<^verbatim>\<open>stream_planning.py\<close>, \<^verbatim>\<open>stream_finalization.py\<close> and
  \<^verbatim>\<open>src/robata/queue/stream_models.py\<close>: stream work plans, terminal evidence, terminal members
  and the snapshots of a work item, with the validators that relate their fields. Timestamps
  of documents are their texts. How a document is parsed from bytes and printed, SHA-256 and
  uuid5 are the parameter \<open>stream_docs\<close>; literals with one value have no field.
\<close>

section \<open>Vocabulary\<close>

datatype StreamStage =
    Stage_SEGMENT | Stage_WINDOW | Stage_QA_COARSE | Stage_QA_DENSE | Stage_EVENT_PROPOSAL
  | Stage_ACTION_DENSE | Stage_BOUNDARY_REFINEMENT | Stage_WINDOW_REDUCTION | Stage_FINALIZATION

datatype TerminalOutcome =
    Outcome_SUCCEEDED | Outcome_SKIPPED_POLICY | Outcome_SKIPPED_NOT_NEEDED | Outcome_FAILED
  | Outcome_CANCELLED | Outcome_EXPIRED | Outcome_QUARANTINED | Outcome_LATE_INPUT
  | Outcome_INCOMPLETE | Outcome_ABSTAINED | Outcome_NO_EVENTS | Outcome_INVALIDATED

datatype StreamSubjectType =
    Subject_PRE_EOS_CAPTURE | Subject_STREAM_SEGMENT | Subject_INCREMENTAL_WINDOW
  | Subject_STREAM_INFERENCE | Subject_WINDOW_RESULT | Subject_STREAM_WORK
  | Subject_EXPECTED_WINDOW_PLAN | Subject_EXPECTED_WINDOW_DECLARATION
  | Subject_EXPECTED_WINDOW_PLAN_SEAL | Subject_WINDOW_TERMINAL_CLOSURE
  | Subject_RECORDING_FINALIZATION

fun subject_type_text :: "StreamSubjectType \<Rightarrow> string" where
  "subject_type_text Subject_PRE_EOS_CAPTURE = ''PRE_EOS_CAPTURE''"
| "subject_type_text Subject_STREAM_SEGMENT = ''STREAM_SEGMENT''"
| "subject_type_text Subject_INCREMENTAL_WINDOW = ''INCREMENTAL_WINDOW''"
| "subject_type_text Subject_STREAM_INFERENCE = ''STREAM_INFERENCE''"
| "subject_type_text Subject_WINDOW_RESULT = ''WINDOW_RESULT''"
| "subject_type_text Subject_STREAM_WORK = ''STREAM_WORK''"
| "subject_type_text Subject_EXPECTED_WINDOW_PLAN = ''EXPECTED_WINDOW_PLAN''"
| "subject_type_text Subject_EXPECTED_WINDOW_DECLARATION = ''EXPECTED_WINDOW_DECLARATION''"
| "subject_type_text Subject_EXPECTED_WINDOW_PLAN_SEAL = ''EXPECTED_WINDOW_PLAN_SEAL''"
| "subject_type_text Subject_WINDOW_TERMINAL_CLOSURE = ''WINDOW_TERMINAL_CLOSURE''"
| "subject_type_text Subject_RECORDING_FINALIZATION = ''RECORDING_FINALIZATION''"

fun criticality_text :: "DependencyCriticality \<Rightarrow> string" where
  "criticality_text REQUIRED = ''REQUIRED''"
| "criticality_text DEGRADABLE = ''DEGRADABLE''"
| "criticality_text OPTIONAL = ''OPTIONAL''"

datatype StreamWorkItemState =
    Stream_PLANNED | Stream_READY | Stream_LEASED | Stream_RUNNING | Stream_RETRY_WAIT
  | Stream_SUCCEEDED | Stream_SKIPPED_POLICY | Stream_SKIPPED_NOT_NEEDED | Stream_FAILED
  | Stream_CANCELLED | Stream_EXPIRED | Stream_QUARANTINED | Stream_LATE_INPUT
  | Stream_INCOMPLETE | Stream_ABSTAINED | Stream_NO_EVENTS | Stream_INVALIDATED

definition TERMINAL_STREAM_WORK_STATES :: "StreamWorkItemState set" where
  "TERMINAL_STREAM_WORK_STATES =
     {Stream_SUCCEEDED, Stream_SKIPPED_POLICY, Stream_SKIPPED_NOT_NEEDED, Stream_FAILED,
      Stream_CANCELLED, Stream_EXPIRED, Stream_QUARANTINED, Stream_LATE_INPUT,
      Stream_INCOMPLETE, Stream_ABSTAINED, Stream_NO_EVENTS, Stream_INVALIDATED}"

section \<open>Documents\<close>

record SchemaRef =
  sr_schema_id :: string
  sr_version :: string
  sr_artifact_id :: string
  sr_sha256 :: string

record StreamArtifactRef =
  ar_artifact_id :: string
  ar_exact_sha256 :: string
  ar_byte_count :: nat
  ar_media_type :: string
  ar_schema_ref :: SchemaRef

record StreamSubjectRef =
  su_subject_type :: StreamSubjectType
  su_subject_key :: string
  su_subject_semantic_sha256 :: string
  su_capture_scope_digest :: string
  su_identity_policy_version :: string
  su_schema_ref :: SchemaRef

record PreEosCaptureSubjectRef =
  pe_capture_scope_id :: string
  pe_capture_scope_key :: string
  pe_capture_scope_digest :: string
  pe_identity_policy_version :: string
  pe_schema_ref :: SchemaRef

record StreamWorkDependency =
  de_upstream_work_logical_key :: string
  de_criticality :: DependencyCriticality

record StreamWorkItemPlan =
  pl_schema_ref :: SchemaRef
  pl_work_item_id :: string
  pl_work_logical_key :: string
  pl_stream_run_id :: string
  pl_source_subject :: PreEosCaptureSubjectRef
  pl_stage :: StreamStage
  pl_subject :: StreamSubjectRef
  pl_ordered_dependencies :: "StreamWorkDependency list"
  pl_input_semantic_sha256 :: string
  pl_config_semantic_sha256 :: string
  pl_work_projection_version :: string
  pl_work_key_policy_version :: string
  pl_priority :: nat
  pl_sla_deadline_at :: "string option"
  pl_execution_expiry_at :: "string option"
  pl_max_attempts :: nat
  pl_trace_id :: "string option"
  pl_created_at :: string

record StreamTerminalEvidence =
  te_outcome :: TerminalOutcome
  te_evidence_ref :: StreamArtifactRef
  te_terminal_policy_version :: string
  te_completed_at :: string
  te_reason_code :: "string option"
  te_reason_detail :: "string option"

record WindowTerminalMember =
  wm_schema_ref :: SchemaRef
  wm_plan_key :: string
  wm_expected_ordinal :: int
  wm_window_key :: string
  wm_window_semantic_sha256 :: string
  wm_terminal_outcome :: TerminalOutcome
  wm_terminal_work_item_id :: string
  wm_terminal_work_logical_key :: string
  wm_terminal_evidence_ref :: StreamArtifactRef
  wm_terminal_policy_version :: string
  wm_member_semantic_sha256 :: string

text \<open>
  The fields a member's digest is taken of, and the parameter: strict parsing of each kind of
  document and its canonical bytes, the instant of a timestamp, the digests and the uuids.
  \<open>doc_declaration\<close> parses a declaration; of it the model has the window key, the window digest
  and the canonical bytes.
\<close>

type_synonym member_projection =
  "string \<times> int \<times> string \<times> string \<times> TerminalOutcome \<times> string \<times> string \<times> StreamArtifactRef \<times> string"

record stream_docs =
  doc_parse_plan :: "string \<Rightarrow> StreamWorkItemPlan option"
  doc_plan_bytes :: "StreamWorkItemPlan \<Rightarrow> string"
  doc_parse_evidence :: "string \<Rightarrow> StreamTerminalEvidence option"
  doc_evidence_bytes :: "StreamTerminalEvidence \<Rightarrow> string"
  doc_declaration :: "string \<Rightarrow> (string \<times> string \<times> string) option"
  doc_member_bytes :: "WindowTerminalMember \<Rightarrow> string"
  doc_member_sha256 :: "member_projection \<Rightarrow> string"
  doc_config_sha256 :: "string \<Rightarrow> string \<Rightarrow> string"
  doc_instant :: "string \<Rightarrow> time"
  doc_execution_uuid5 :: "string \<Rightarrow> string"
  doc_dependency_uuid5 :: "string \<Rightarrow> string"
  doc_work_uuid5 :: "string \<Rightarrow> string"

text \<open>
  What the scheduler's methods raise: the errors of the two ledgers, its own, and
  \<open>ValueError\<close>, of which the validation errors of the documents are a subclass.
\<close>

datatype delivery_error =
    Ledger_error stream_ledger_error
  | Execution_error work_error
  | StreamSchedulerCompositionError string
  | Delivery_ValueError string

text \<open>\<open>_parse_exact\<close>: the bytes parse, and they are the canonical bytes of what they parse to.\<close>

definition parse_exact ::
    "(string \<Rightarrow> 'd option) \<Rightarrow> ('d \<Rightarrow> string) \<Rightarrow> string \<Rightarrow> string \<Rightarrow> delivery_error + 'd" where
  "parse_exact parse bytes label payload =
     (case parse payload of
        None \<Rightarrow> Inl (StreamSchedulerCompositionError (''persisted '' @ label @ '' is invalid''))
      | Some value \<Rightarrow>
          if bytes value \<noteq> payload
          then Inl (StreamSchedulerCompositionError (''persisted '' @ label @ '' is not canonical JSON''))
          else Inr value)"

definition parse_plan :: "stream_docs \<Rightarrow> string \<Rightarrow> string \<Rightarrow> delivery_error + StreamWorkItemPlan" where
  "parse_plan D = parse_exact (doc_parse_plan D) (doc_plan_bytes D)"

definition parse_evidence :: "stream_docs \<Rightarrow> string \<Rightarrow> string \<Rightarrow> delivery_error + StreamTerminalEvidence" where
  "parse_evidence D = parse_exact (doc_parse_evidence D) (doc_evidence_bytes D)"

section \<open>Terminal members\<close>

definition member_projection :: "WindowTerminalMember \<Rightarrow> member_projection" where
  "member_projection m =
     (wm_plan_key m, wm_expected_ordinal m, wm_window_key m, wm_window_semantic_sha256 m,
      wm_terminal_outcome m, wm_terminal_work_item_id m, wm_terminal_work_logical_key m,
      wm_terminal_evidence_ref m, wm_terminal_policy_version m)"

definition derive_work_item_id :: "stream_docs \<Rightarrow> string \<Rightarrow> string" where
  "derive_work_item_id D digest = doc_work_uuid5 D (''stream-work-v1:'' @ digest)"

definition validate_member :: "stream_docs \<Rightarrow> WindowTerminalMember \<Rightarrow> delivery_error + WindowTerminalMember" where
  "validate_member D m =
     (if wm_window_key m \<noteq> ''incremental-window-v1:'' @ wm_window_semantic_sha256 m
      then Inl (Delivery_ValueError ''terminal window key must bind to window_semantic_sha256'')
      else if take 15 (wm_terminal_work_logical_key m) \<noteq> ''stream-work-v1:''
      then Inl (Delivery_ValueError ''terminal work logical key must use the stream-work-v1 namespace'')
      else let work_digest = drop 15 (wm_terminal_work_logical_key m) in
      if length work_digest \<noteq> 64 \<or> \<not> list_all (\<lambda>c. c \<in> set ''0123456789abcdef'') work_digest
        \<or> wm_terminal_work_item_id m \<noteq> derive_work_item_id D work_digest
      then Inl (Delivery_ValueError ''terminal work item ID must bind to terminal work logical key'')
      else if wm_member_semantic_sha256 m \<noteq> doc_member_sha256 D (member_projection m)
      then Inl (Delivery_ValueError ''member_semantic_sha256 does not match terminal member fields'')
      else Inr m)"

definition create_window_terminal_member ::
    "stream_docs \<Rightarrow> SchemaRef \<Rightarrow> string \<Rightarrow> int \<Rightarrow> string \<Rightarrow> string \<Rightarrow> TerminalOutcome \<Rightarrow> string \<Rightarrow> string
      \<Rightarrow> StreamArtifactRef \<Rightarrow> string \<Rightarrow> delivery_error + WindowTerminalMember" where
  "create_window_terminal_member D schema k n window_key window_sha oc i key ref policy =
     (let draft = \<lparr>wm_schema_ref = schema, wm_plan_key = k, wm_expected_ordinal = n,
            wm_window_key = window_key, wm_window_semantic_sha256 = window_sha,
            wm_terminal_outcome = oc, wm_terminal_work_item_id = i,
            wm_terminal_work_logical_key = key, wm_terminal_evidence_ref = ref,
            wm_terminal_policy_version = policy, wm_member_semantic_sha256 = replicate 64 CHR ''0''\<rparr>
      in validate_member D (draft\<lparr>wm_member_semantic_sha256 := doc_member_sha256 D (member_projection draft)\<rparr>))"

section \<open>Snapshots of stream work\<close>

record StreamWorkItem =
  si_plan :: StreamWorkItemPlan
  si_state :: StreamWorkItemState
  si_cancel_requested :: bool
  si_lease_epoch :: nat
  si_fencing_token :: "string option"
  si_leased_by :: "string option"
  si_lease_expires_at :: "time option"
  si_attempt :: nat
  si_retry_not_before_at :: "time option"
  si_terminal_evidence :: "StreamTerminalEvidence option"
  si_updated_at :: time
  si_row_version :: nat

fun terminal_state_by_outcome :: "TerminalOutcome \<Rightarrow> StreamWorkItemState" where
  "terminal_state_by_outcome Outcome_SUCCEEDED = Stream_SUCCEEDED"
| "terminal_state_by_outcome Outcome_SKIPPED_POLICY = Stream_SKIPPED_POLICY"
| "terminal_state_by_outcome Outcome_SKIPPED_NOT_NEEDED = Stream_SKIPPED_NOT_NEEDED"
| "terminal_state_by_outcome Outcome_FAILED = Stream_FAILED"
| "terminal_state_by_outcome Outcome_CANCELLED = Stream_CANCELLED"
| "terminal_state_by_outcome Outcome_EXPIRED = Stream_EXPIRED"
| "terminal_state_by_outcome Outcome_QUARANTINED = Stream_QUARANTINED"
| "terminal_state_by_outcome Outcome_LATE_INPUT = Stream_LATE_INPUT"
| "terminal_state_by_outcome Outcome_INCOMPLETE = Stream_INCOMPLETE"
| "terminal_state_by_outcome Outcome_ABSTAINED = Stream_ABSTAINED"
| "terminal_state_by_outcome Outcome_NO_EVENTS = Stream_NO_EVENTS"
| "terminal_state_by_outcome Outcome_INVALIDATED = Stream_INVALIDATED"

fun outcome_by_state :: "StreamWorkItemState \<Rightarrow> TerminalOutcome option" where
  "outcome_by_state Stream_SUCCEEDED = Some Outcome_SUCCEEDED"
| "outcome_by_state Stream_SKIPPED_POLICY = Some Outcome_SKIPPED_POLICY"
| "outcome_by_state Stream_SKIPPED_NOT_NEEDED = Some Outcome_SKIPPED_NOT_NEEDED"
| "outcome_by_state Stream_FAILED = Some Outcome_FAILED"
| "outcome_by_state Stream_CANCELLED = Some Outcome_CANCELLED"
| "outcome_by_state Stream_EXPIRED = Some Outcome_EXPIRED"
| "outcome_by_state Stream_QUARANTINED = Some Outcome_QUARANTINED"
| "outcome_by_state Stream_LATE_INPUT = Some Outcome_LATE_INPUT"
| "outcome_by_state Stream_INCOMPLETE = Some Outcome_INCOMPLETE"
| "outcome_by_state Stream_ABSTAINED = Some Outcome_ABSTAINED"
| "outcome_by_state Stream_NO_EVENTS = Some Outcome_NO_EVENTS"
| "outcome_by_state Stream_INVALIDATED = Some Outcome_INVALIDATED"
| "outcome_by_state _ = None"

fun nonterminal_stream_state :: "WorkItemState \<Rightarrow> StreamWorkItemState option" where
  "nonterminal_stream_state PLANNED = Some Stream_PLANNED"
| "nonterminal_stream_state READY = Some Stream_READY"
| "nonterminal_stream_state LEASED = Some Stream_LEASED"
| "nonterminal_stream_state RUNNING = Some Stream_RUNNING"
| "nonterminal_stream_state RETRY_WAIT = Some Stream_RETRY_WAIT"
| "nonterminal_stream_state _ = None"

definition validate_stream_item :: "stream_docs \<Rightarrow> StreamWorkItem \<Rightarrow> delivery_error + StreamWorkItem" where
  "validate_stream_item D s =
     (let active_lease = si_state s \<in> {Stream_LEASED, Stream_RUNNING};
          any_lease_none = (si_fencing_token s = None \<or> si_leased_by s = None \<or> si_lease_expires_at s = None);
          any_lease_set = (si_fencing_token s \<noteq> None \<or> si_leased_by s \<noteq> None \<or> si_lease_expires_at s \<noteq> None);
          terminal = si_state s \<in> TERMINAL_STREAM_WORK_STATES;
          created = doc_instant D (pl_created_at (si_plan s))
      in
      if active_lease \<and> any_lease_none
      then Inl (Delivery_ValueError ''leased or running stream work requires complete lease metadata'')
      else if \<not> active_lease \<and> any_lease_set
      then Inl (Delivery_ValueError ''only leased or running stream work may retain lease metadata'')
      else if active_lease \<and> (si_lease_epoch s = 0 \<or> si_attempt s = 0)
      then Inl (Delivery_ValueError ''leased or running stream work requires positive epoch and attempt'')
      else if si_state s = Stream_RETRY_WAIT \<and> si_retry_not_before_at s = None
      then Inl (Delivery_ValueError ''retry-wait stream work requires retry_not_before_at'')
      else if si_state s \<noteq> Stream_RETRY_WAIT \<and> si_retry_not_before_at s \<noteq> None
      then Inl (Delivery_ValueError ''only retry-wait stream work may have retry_not_before_at'')
      else if terminal \<noteq> (si_terminal_evidence s \<noteq> None)
      then Inl (Delivery_ValueError ''every terminal stream work item requires terminal evidence'')
      else if terminal \<and> map_option te_outcome (si_terminal_evidence s) \<noteq> outcome_by_state (si_state s)
      then Inl (Delivery_ValueError ''terminal evidence outcome does not match stream work state'')
      else if si_updated_at s < created
      then Inl (Delivery_ValueError ''updated_at cannot precede created_at'')
      else case si_terminal_evidence s of
        None \<Rightarrow> Inr s
      | Some e \<Rightarrow>
          if doc_instant D (te_completed_at e) < created
          then Inl (Delivery_ValueError ''terminal evidence cannot complete before created_at'')
          else if doc_instant D (te_completed_at e) > si_updated_at s
          then Inl (Delivery_ValueError ''terminal evidence cannot complete after updated_at'')
          else Inr s)"

text \<open>
  A lease of the stream has the fields of a \<open>WorkLease\<close>, and copying between the two
  (\<open>_stream_lease\<close>, \<open>_execution_lease\<close>) is the identity here.
\<close>

record StreamWorkLeaseClaim =
  sc_work_item :: StreamWorkItem
  sc_lease :: WorkLease

definition validate_stream_claim :: "StreamWorkLeaseClaim \<Rightarrow> delivery_error + StreamWorkLeaseClaim" where
  "validate_stream_claim c =
     (let item = sc_work_item c; lease = sc_lease c in
      if si_state item \<notin> {Stream_LEASED, Stream_RUNNING}
      then Inl (Delivery_ValueError ''a stream claim must contain a leased or running work item'')
      else if pl_work_item_id (si_plan item) \<noteq> lease_work_item_id lease
        \<or> si_leased_by item \<noteq> Some (worker_id lease) \<or> si_lease_epoch item \<noteq> granted_epoch lease
        \<or> si_fencing_token item \<noteq> Some (granted_token lease)
        \<or> si_lease_expires_at item \<noteq> Some (granted_expires_at lease)
      then Inl (Delivery_ValueError ''stream claim lease does not match its work-item snapshot'')
      else Inr c)"

end
