(* ===== verification/Stream_Delivery.thy ===== *)
theory Stream_Delivery
  imports Stream_Documents
begin

text \<open>
  The half of \<open>DurableStreamWindowScheduler\<close>
  (\<^verbatim>\<open>src/robata/application/canonical/stream_scheduler.py\<close>) that executes a graph of stream work:
  publication of planned work to the execution scheduler, claims, leases, completion across
  the two ledgers and the recovery after a crash. Its methods run over several transactions,
  so they are programs here: trees of transactions and of accesses to the row cache of the
  process. Other processes may act between any two transactions, and a process may stop
  there. The boundary observer, a hook of the tests, is absent.
\<close>

section \<open>Programs\<close>

text \<open>
  \<open>Call c k\<close> is one call of the stream ledger or of the scheduler: it finds the database,
  leaves what the command \<open>c\<close> makes of it, or the same if it only reads, and continues with
  the answer, which is computed from the database it found.
\<close>

datatype 'r prog =
    Done 'r
  | Call "stream_command option" "stream_db \<Rightarrow> 'r prog"
  | Remember StoredStreamWorkPlan "'r prog"
  | Recall string "StoredStreamWorkPlan option \<Rightarrow> 'r prog"

type_synonym 'a delivery = "(delivery_error + 'a) prog"

primrec pthen :: "'a delivery \<Rightarrow> ('a \<Rightarrow> 'b delivery) \<Rightarrow> 'b delivery" where
  "pthen (Done r) g = (case r of Inl e \<Rightarrow> Done (Inl e) | Inr a \<Rightarrow> g a)"
| "pthen (Call c k) g = Call c (\<lambda>db. pthen (k db) g)"
| "pthen (Remember w p) g = Remember w (pthen p g)"
| "pthen (Recall i k) g = Recall i (\<lambda>w. pthen (k w) g)"

text \<open>\<open>try: ... except WorkFenceError: return ...\<close>\<close>

primrec except_fence :: "'a delivery \<Rightarrow> 'a \<Rightarrow> 'a delivery" where
  "except_fence (Done r) a = (case r of Inl (Execution_error (WorkFenceError m)) \<Rightarrow> Done (Inr a) | _ \<Rightarrow> Done r)"
| "except_fence (Call c k) a = Call c (\<lambda>db. except_fence (k db) a)"
| "except_fence (Remember w p) a = Remember w (except_fence p a)"
| "except_fence (Recall i k) a = Recall i (\<lambda>w. except_fence (k w) a)"

primrec ptraverse :: "('a \<Rightarrow> 'b delivery) \<Rightarrow> 'a list \<Rightarrow> 'b list delivery" where
  "ptraverse f [] = Done (Inr [])"
| "ptraverse f (x # xs) = pthen (f x) (\<lambda>y. pthen (ptraverse f xs) (\<lambda>ys. Done (Inr (y # ys))))"

definition check :: "bool \<Rightarrow> delivery_error \<Rightarrow> unit delivery" where
  "check b e = Done (if b then Inr () else Inl e)"

fun map_error :: "('e \<Rightarrow> 'f) \<Rightarrow> 'e + 'a \<Rightarrow> 'f + 'a" where
  "map_error f (Inl e) = Inl (f e)"
| "map_error f (Inr a) = Inr a"

definition ledger_call ::
    "stream_command option \<Rightarrow> (stream_db \<Rightarrow> stream_db \<times> (stream_ledger_error + 'a)) \<Rightarrow> 'a delivery" where
  "ledger_call c f = Call c (\<lambda>db. Done (map_error Ledger_error (snd (f db))))"

definition execution_call ::
    "command option \<Rightarrow> (ledger \<Rightarrow> ledger \<times> (work_error + 'a)) \<Rightarrow> 'a delivery" where
  "execution_call c f =
     Call (map_option Scheduler_call c) (\<lambda>db. Done (map_error Execution_error (snd (f (authority db)))))"

section \<open>Rows, plans and snapshots\<close>

text \<open>The composition's own constants: the graph, the policy pin and the schema of its members.\<close>

record stream_node =
  sn_plan_key :: string
  sn_terminal_policy_version :: string
  sn_terminal_member :: SchemaRef

definition remember_work_row :: "stream_node \<Rightarrow> StoredStreamWorkPlan \<Rightarrow> unit delivery" where
  "remember_work_row N w =
     (if sw_plan_key w = sn_plan_key N then Remember w (Done (Inr ())) else Done (Inr ()))"

definition cached_published_work_row :: "stream_node \<Rightarrow> string \<Rightarrow> StoredStreamWorkPlan option delivery" where
  "cached_published_work_row N i = Recall i (\<lambda>stored. Done (Inr
     (case stored of
        None \<Rightarrow> None
      | Some w \<Rightarrow> if sw_plan_key w \<noteq> sn_plan_key N \<or> sw_publication_state w \<noteq> PUBLISHED then None else Some w)))"

definition stored_work_row :: "stream_node \<Rightarrow> string \<Rightarrow> bool \<Rightarrow> StoredStreamWorkPlan delivery" where
  "stored_work_row N i require_published =
     pthen (ledger_call None (get_work i)) (\<lambda>stored.
     pthen (check (sw_plan_key stored = sn_plan_key N)
       (StreamSchedulerCompositionError ''work item belongs to another stream graph'')) (\<lambda>_.
     pthen (check (require_published \<longrightarrow> sw_publication_state stored = PUBLISHED)
       (StreamSchedulerCompositionError ''work item is not published for execution'')) (\<lambda>_.
     pthen (remember_work_row N stored) (\<lambda>_. Done (Inr stored)))))"

definition stored_work_plan ::
    "stream_docs \<Rightarrow> stream_node \<Rightarrow> string \<Rightarrow> bool \<Rightarrow> StreamWorkItemPlan delivery" where
  "stored_work_plan D N i require_published =
     pthen (stored_work_row N i require_published) (\<lambda>stored.
       Done (parse_plan D ''stream work plan'' (sw_plan_json stored)))"

definition stored_work_plan_by_key :: "stream_docs \<Rightarrow> stream_node \<Rightarrow> string \<Rightarrow> StreamWorkItemPlan delivery" where
  "stored_work_plan_by_key D N key =
     pthen (ledger_call None (get_work_by_key key)) (\<lambda>stored.
     pthen (check (sw_plan_key stored = sn_plan_key N)
       (StreamSchedulerCompositionError ''upstream work belongs to another stream graph'')) (\<lambda>_.
       Done (parse_plan D ''upstream stream work plan'' (sw_plan_json stored))))"

definition accepted_evidence ::
    "stream_docs \<Rightarrow> StoredStreamWorkPlan \<Rightarrow> delivery_error + StreamTerminalEvidence option" where
  "accepted_evidence D stored =
     (case sw_terminal_evidence_json stored of
        None \<Rightarrow> Inr None
      | Some raw \<Rightarrow> rbind (parse_evidence D ''stream terminal evidence'' raw) (\<lambda>e. Inr (Some e)))"

definition stream_item_from ::
    "stream_docs \<Rightarrow> StreamWorkItemPlan \<Rightarrow> WorkItem \<Rightarrow> StreamTerminalEvidence option
      \<Rightarrow> delivery_error + StreamWorkItem" where
  "stream_item_from D plan execution evidence =
     rbind (case evidence of
        Some e \<Rightarrow>
          if state execution \<noteq> SUCCEEDED
          then Inl (StreamSchedulerCompositionError
            ''accepted terminal evidence lacks succeeded execution projection'')
          else Inr (terminal_state_by_outcome (te_outcome e))
      | None \<Rightarrow>
          (case nonterminal_stream_state (state execution) of
             None \<Rightarrow> Inl (StreamSchedulerCompositionError
               ''terminal execution projection lacks exact stream terminal evidence'')
           | Some st \<Rightarrow> Inr st)) (\<lambda>st.
     validate_stream_item D
       \<lparr>si_plan = plan, si_state = st, si_cancel_requested = cancel_requested execution,
        si_lease_epoch = lease_epoch execution, si_fencing_token = fencing_token execution,
        si_leased_by = leased_by execution, si_lease_expires_at = lease_expires_at execution,
        si_attempt = attempt execution, si_retry_not_before_at = retry_not_before_at execution,
        si_terminal_evidence = evidence, si_updated_at = updated_at execution,
        si_row_version = row_version execution\<rparr>)"

section \<open>Publication\<close>

fun stage_execution_projection :: "StreamStage \<Rightarrow> Stage" where
  "stage_execution_projection Stage_SEGMENT = MCAP_INGEST"
| "stage_execution_projection Stage_WINDOW = QA_COARSE_PLAN"
| "stage_execution_projection Stage_QA_COARSE = QWEN_QA_COARSE"
| "stage_execution_projection Stage_QA_DENSE = QWEN_QA_DENSE"
| "stage_execution_projection Stage_EVENT_PROPOSAL = QWEN_EVENT_PROPOSAL"
| "stage_execution_projection Stage_ACTION_DENSE = QWEN_ACTION_EVIDENCE"
| "stage_execution_projection Stage_BOUNDARY_REFINEMENT = QWEN_BOUNDARY"
| "stage_execution_projection Stage_WINDOW_REDUCTION = QA_AGGREGATE"
| "stage_execution_projection Stage_FINALIZATION = ACTION_PUBLISH"

definition INTERNAL_STREAM_EXECUTION_PROJECTION_VERSION :: string where
  "INTERNAL_STREAM_EXECUTION_PROJECTION_VERSION = ''internal-stream-execution-projection-v1''"

definition execution_plan :: "stream_docs \<Rightarrow> StreamWorkItemPlan \<Rightarrow> WorkItemPlan" where
  "execution_plan D plan =
     \<lparr>work_item_id = pl_work_item_id plan, work_logical_key = pl_work_logical_key plan,
      run_id = pl_stream_run_id plan,
      mcap_id = doc_execution_uuid5 D (''source:'' @ pe_capture_scope_digest (pl_source_subject plan)),
      stage = stage_execution_projection (pl_stage plan), subject_type = WINDOW,
      subject_id = doc_execution_uuid5 D (''subject:'' @ subject_type_text (su_subject_type (pl_subject plan))
        @ '':'' @ su_subject_key (pl_subject plan)),
      input_digest = pl_input_semantic_sha256 plan,
      config_digest = doc_config_sha256 D INTERNAL_STREAM_EXECUTION_PROJECTION_VERSION (pl_config_semantic_sha256 plan),
      priority = pl_priority plan, sla_deadline_at = map_option (doc_instant D) (pl_sla_deadline_at plan),
      execution_expiry_at = map_option (doc_instant D) (pl_execution_expiry_at plan),
      max_attempts = pl_max_attempts plan, trace_id = pl_trace_id plan,
      created_at = doc_instant D (pl_created_at plan)\<rparr>"

text \<open>\<open>plans_by_key\<close> is a dictionary comprehension: of two plans with one key the later counts.\<close>

definition plan_by_key :: "StreamWorkItemPlan list \<Rightarrow> string \<Rightarrow> StreamWorkItemPlan option" where
  "plan_by_key batch key = find_row (\<lambda>p. pl_work_logical_key p = key) (rev batch)"

definition execution_dependency ::
    "stream_docs \<Rightarrow> stream_node \<Rightarrow> StreamWorkItemPlan list \<Rightarrow> StreamWorkItemPlan \<Rightarrow> StreamWorkDependency
      \<Rightarrow> WorkDependency delivery" where
  "execution_dependency D N batch plan dependency =
     pthen (case plan_by_key batch (de_upstream_work_logical_key dependency) of
        Some upstream \<Rightarrow> Done (Inr upstream)
      | None \<Rightarrow> stored_work_plan_by_key D N (de_upstream_work_logical_key dependency)) (\<lambda>upstream.
     pthen (check (pl_work_item_id plan \<noteq> pl_work_item_id upstream)
       (Delivery_ValueError ''a work item cannot depend on itself'')) (\<lambda>_.
     Done (Inr
       \<lparr>dependency_id = doc_dependency_uuid5 D
          (INTERNAL_STREAM_EXECUTION_PROJECTION_VERSION @ '':'' @ pl_work_item_id plan @ '':''
           @ pl_work_item_id upstream @ '':'' @ criticality_text (de_criticality dependency)),
        downstream_work_item_id = pl_work_item_id plan,
        upstream_work_item_id = pl_work_item_id upstream,
        criticality = de_criticality dependency\<rparr>)))"

definition internal_execution_projection ::
    "stream_docs \<Rightarrow> stream_node \<Rightarrow> StreamWorkItemPlan list \<Rightarrow> StreamWorkItemPlan
      \<Rightarrow> (WorkItemPlan \<times> WorkDependency list) delivery" where
  "internal_execution_projection D N batch plan =
     pthen (ptraverse (execution_dependency D N batch plan) (pl_ordered_dependencies plan)) (\<lambda>dependencies.
       Done (Inr (execution_plan D plan, sort_key dependency_id dependencies)))"

definition remember_published_work_row :: "stream_node \<Rightarrow> StoredStreamWorkPlan \<Rightarrow> unit delivery" where
  "remember_published_work_row N row = remember_work_row N (row\<lparr>sw_publication_state := PUBLISHED\<rparr>)"

text \<open>The rows are stored rows; those of a new window are the rows its insertion stored.\<close>

definition publish_work_rows ::
    "stream_docs \<Rightarrow> stream_node \<Rightarrow> StoredStreamWorkPlan list \<Rightarrow> nat delivery" where
  "publish_work_rows D N rows =
     (let pending = filter (\<lambda>row. sw_publication_state row = PENDING) rows in
      if pending = [] then Done (Inr 0)
      else
        pthen (Done (traverse (\<lambda>row. parse_plan D ''stream work plan'' (sw_plan_json row)) pending)) (\<lambda>parsed.
        pthen (ptraverse (internal_execution_projection D N parsed) parsed) (\<lambda>projections.
        pthen (execution_call (Some (Plan_many projections)) (plan_many projections)) (\<lambda>_.
        pthen (ledger_call (Some (Mark_published_many (map pl_work_item_id parsed)))
          (mark_published_many (map pl_work_item_id parsed))) (\<lambda>_.
        pthen (ptraverse (remember_published_work_row N) pending) (\<lambda>_.
        Done (Inr (length parsed))))))))"

section \<open>Acceptance and recovery\<close>

definition terminal_result_reference :: "StreamTerminalEvidence \<Rightarrow> string" where
  "terminal_result_reference e = ''stream-terminal-evidence:'' @ ar_artifact_id (te_evidence_ref e)"

text \<open>The member that the reduction of a window closes it with; other work has none.\<close>

definition terminal_member_raw ::
    "stream_docs \<Rightarrow> stream_node \<Rightarrow> StoredStreamWorkPlan \<Rightarrow> StreamWorkItemPlan \<Rightarrow> StreamTerminalEvidence
      \<Rightarrow> string option delivery" where
  "terminal_member_raw D N row plan evidence =
     (if pl_stage plan \<noteq> Stage_WINDOW_REDUCTION then Done (Inr None)
      else case sw_expected_ordinal row of
        None \<Rightarrow> Done (Inl (StreamSchedulerCompositionError ''window reduction is missing expected ordinal''))
      | Some n \<Rightarrow>
          pthen (ledger_call None (window_at (sn_plan_key N) n)) (\<lambda>window.
          case window of
            None \<Rightarrow> Done (Inl (StreamSchedulerCompositionError ''window reduction lacks expected declaration''))
          | Some w \<Rightarrow>
              pthen (Done (parse_exact (doc_declaration D) (\<lambda>(_, _, bytes). bytes) ''expected declaration''
                (ew_declaration_json w))) (\<lambda>(window_key, window_sha, _).
              Done (rbind (create_window_terminal_member D (sn_terminal_member N) (sn_plan_key N) n
                  window_key window_sha (te_outcome evidence) (pl_work_item_id plan)
                  (pl_work_logical_key plan) (te_evidence_ref evidence) (te_terminal_policy_version evidence))
                (\<lambda>member. Inr (Some (doc_member_bytes D member)))))))"

definition accept_pending ::
    "stream_docs \<Rightarrow> stream_node \<Rightarrow> string \<Rightarrow> StoredStreamWorkPlan \<Rightarrow> WorkItem \<Rightarrow> string option \<Rightarrow> unit delivery" where
  "accept_pending D N i row execution pending_raw =
     (if state execution \<noteq> SUCCEEDED
      then Done (Inl (StreamSchedulerCompositionError ''execution projection is not committed for terminal acceptance''))
      else if sw_work_item_id row \<noteq> i \<or> sw_plan_key row \<noteq> sn_plan_key N
      then Done (Inl (StreamSchedulerCompositionError ''pending terminal work belongs to another stream graph''))
      else if sw_terminal_evidence_json row \<noteq> None then Done (Inr ())
      else case (if pending_raw = None then sw_pending_terminal_json row else pending_raw) of
        None \<Rightarrow> Done (Inl (StreamSchedulerCompositionError ''committed work lacks pending terminal fact''))
      | Some raw \<Rightarrow>
          pthen (Done (parse_evidence D ''pending terminal evidence'' raw)) (\<lambda>evidence.
          pthen (check (result_reference execution = Some (terminal_result_reference evidence)
              \<and> result_sha256 execution = Some (ar_exact_sha256 (te_evidence_ref evidence)))
            (StreamSchedulerCompositionError ''execution result does not bind to pending terminal evidence'')) (\<lambda>_.
          pthen (Done (parse_plan D ''stream work plan'' (sw_plan_json row))) (\<lambda>plan.
          pthen (terminal_member_raw D N row plan evidence) (\<lambda>member.
          ledger_call (Some (Accept_pending i raw member (sw_expected_ordinal row)))
            (accept_pending_terminal i raw member (sw_expected_ordinal row)))))))"

primrec recover_rows :: "stream_docs \<Rightarrow> stream_node \<Rightarrow> StoredStreamWorkPlan list \<Rightarrow> nat delivery" where
  "recover_rows D N [] = Done (Inr 0)"
| "recover_rows D N (row # rows) =
     pthen (execution_call None (get_item (sw_work_item_id row))) (\<lambda>execution.
       if state execution \<noteq> SUCCEEDED then recover_rows D N rows
       else
         pthen (accept_pending D N (sw_work_item_id row) row execution None) (\<lambda>_.
         pthen (recover_rows D N rows) (\<lambda>accepted. Done (Inr (accepted + 1)))))"

definition recover_terminal_acceptances :: "stream_docs \<Rightarrow> stream_node \<Rightarrow> nat delivery" where
  "recover_terminal_acceptances D N =
     pthen (ledger_call None (pending_work_rows (sn_plan_key N))) (recover_rows D N)"

definition recover :: "stream_docs \<Rightarrow> stream_node \<Rightarrow> nat delivery" where
  "recover D N =
     pthen (recover_terminal_acceptances D N) (\<lambda>accepted.
     pthen (ledger_call None (pending_publication_work_rows (sn_plan_key N))) (\<lambda>rows.
     pthen (publish_work_rows D N rows) (\<lambda>published. Done (Inr (accepted + published)))))"

section \<open>Leases\<close>

definition stream_claim_reply ::
    "stream_docs \<Rightarrow> StreamWorkItemPlan \<Rightarrow> WorkLeaseClaim option \<Rightarrow> delivery_error + StreamWorkLeaseClaim option" where
  "stream_claim_reply D plan reply =
     (case reply of
        None \<Rightarrow> Inr None
      | Some c \<Rightarrow>
          rbind (stream_item_from D plan (claimed_item c) None) (\<lambda>item.
          rbind (validate_stream_claim \<lparr>sc_work_item = item, sc_lease = claimed_lease c\<rparr>) (\<lambda>claim.
          Inr (Some claim))))"

text \<open>
  \<open>claim\<close> and \<open>claim_and_start\<close>, which differ in the scheduler's method they call. The token
  is the one the scheduler draws.
\<close>

definition stream_claim_with ::
    "bool \<Rightarrow> stream_docs \<Rightarrow> stream_node \<Rightarrow> string \<Rightarrow> int \<Rightarrow> string option \<Rightarrow> time \<Rightarrow> string \<Rightarrow> bool
      \<Rightarrow> StreamWorkLeaseClaim option delivery" where
  "stream_claim_with start_immediately D N worker duration target now token recover_graph =
     pthen (if recover_graph then pthen (recover D N) (\<lambda>_. Done (Inr ())) else Done (Inr ())) (\<lambda>_.
     pthen (case target of
         Some i \<Rightarrow> pthen (cached_published_work_row N i) (\<lambda>stored.
             case stored of Some w \<Rightarrow> Done (Inr (Some w))
             | None \<Rightarrow> pthen (stored_work_row N i True) (\<lambda>w. Done (Inr (Some w))))
       | None \<Rightarrow> ledger_call None (next_ready_work (sn_plan_key N))) (\<lambda>stored.
     case stored of
       None \<Rightarrow> Done (Inr None)
     | Some w \<Rightarrow>
         pthen (Done (parse_plan D ''stream work plan'' (sw_plan_json w))) (\<lambda>plan.
         pthen (execution_call (Some (Claim start_immediately worker duration (Some (pl_work_item_id plan)) now token))
           (claim_with start_immediately worker duration (Some (pl_work_item_id plan)) now token)) (\<lambda>reply.
         Done (stream_claim_reply D plan reply)))))"

definition stream_start :: "stream_docs \<Rightarrow> stream_node \<Rightarrow> WorkLease \<Rightarrow> time \<Rightarrow> StreamWorkItem delivery" where
  "stream_start D N lease now =
     pthen (stored_work_plan D N (lease_work_item_id lease) True) (\<lambda>plan.
     pthen (execution_call (Some (Start lease now)) (start lease now)) (\<lambda>item.
     Done (stream_item_from D plan item None)))"

definition stream_heartbeat ::
    "stream_docs \<Rightarrow> stream_node \<Rightarrow> WorkLease \<Rightarrow> int \<Rightarrow> time \<Rightarrow> WorkLease delivery" where
  "stream_heartbeat D N lease duration now =
     pthen (stored_work_plan D N (lease_work_item_id lease) True) (\<lambda>_.
     execution_call (Some (Heartbeat lease duration now)) (heartbeat lease duration now))"

definition resume_owned_active ::
    "stream_docs \<Rightarrow> stream_node \<Rightarrow> string \<Rightarrow> int \<Rightarrow> string \<Rightarrow> time \<Rightarrow> StreamWorkLeaseClaim option delivery" where
  "resume_owned_active D N worker duration i now =
     pthen (check (worker \<noteq> []) (Delivery_ValueError ''worker_id must be non-empty'')) (\<lambda>_.
     pthen (check (duration > 0) (Delivery_ValueError ''lease_duration_seconds must be positive'')) (\<lambda>_.
     pthen (stored_work_row N i True) (\<lambda>stored.
     pthen (Done (parse_plan D ''stream work plan'' (sw_plan_json stored))) (\<lambda>_.
     pthen (execution_call None (get_item i)) (\<lambda>execution.
     case (fencing_token execution, lease_expires_at execution) of
       (Some token, Some expires) \<Rightarrow>
         if state execution \<notin> {LEASED, RUNNING} \<or> leased_by execution \<noteq> Some worker then Done (Inr None)
         else
           pthen (except_fence
             (pthen (stream_heartbeat D N \<lparr>lease_work_item_id = work_item_id execution, worker_id = worker,
                  granted_epoch = lease_epoch execution, granted_token = token,
                  granted_expires_at = expires\<rparr> duration now) (\<lambda>renewed.
              pthen (stream_start D N renewed now) (\<lambda>item. Done (Inr (Some (item, renewed))))))
             None) (\<lambda>resumed.
           case resumed of
             None \<Rightarrow> Done (Inr None)
           | Some (item, renewed) \<Rightarrow>
               Done (rbind (validate_stream_claim \<lparr>sc_work_item = item, sc_lease = renewed\<rparr>) (\<lambda>claim.
                 Inr (Some claim))))
     | _ \<Rightarrow> Done (Inr None))))))"

definition fail_retryable ::
    "stream_docs \<Rightarrow> stream_node \<Rightarrow> WorkLease \<Rightarrow> string \<Rightarrow> string option \<Rightarrow> time \<Rightarrow> StreamWorkItem delivery" where
  "fail_retryable D N lease code detail now =
     pthen (stored_work_row N (lease_work_item_id lease) True) (\<lambda>stored.
     pthen (Done (parse_plan D ''stream work plan'' (sw_plan_json stored))) (\<lambda>plan.
     pthen (execution_call None (get_item (lease_work_item_id lease))) (\<lambda>active.
     pthen (check (attempt active < max_attempts active)
       (StreamSchedulerCompositionError
         ''pre-terminal execution cannot exhaust attempts without typed stream evidence'')) (\<lambda>_.
     pthen (execution_call (Some (Fail lease code True detail 0 now)) (fail lease code True detail 0 now)) (\<lambda>execution.
     pthen (Done (accepted_evidence D stored)) (\<lambda>evidence.
     Done (stream_item_from D plan execution evidence)))))))"

section \<open>Completion\<close>

definition stream_store_pending ::
    "stream_docs \<Rightarrow> WorkLease \<Rightarrow> StreamTerminalEvidence \<Rightarrow> time \<Rightarrow> bool delivery" where
  "stream_store_pending D lease evidence now =
     (let i = lease_work_item_id lease; payload = doc_evidence_bytes D evidence;
          epoch = int (granted_epoch lease); token = granted_token lease;
          worker = Some (worker_id lease); expires = Some (granted_expires_at lease)
      in ledger_call (Some (Store_pending i payload epoch token worker (Some now) expires))
        (store_pending_terminal i payload epoch token worker (Some now) expires))"

definition stream_complete ::
    "stream_docs \<Rightarrow> stream_node \<Rightarrow> WorkLease \<Rightarrow> StreamTerminalEvidence \<Rightarrow> time \<Rightarrow> StreamWorkItem delivery" where
  "stream_complete D N lease evidence now =
     pthen (stored_work_row N (lease_work_item_id lease) True) (\<lambda>stored.
     pthen (Done (parse_plan D ''stream work plan'' (sw_plan_json stored))) (\<lambda>plan.
     pthen (check (te_terminal_policy_version evidence = sn_terminal_policy_version N)
       (StreamSchedulerCompositionError ''terminal evidence does not use the composition policy pin'')) (\<lambda>_.
     pthen (check (doc_instant D (te_completed_at evidence) \<le> now)
       (StreamSchedulerCompositionError ''terminal evidence cannot complete after authority time'')) (\<lambda>_.
     pthen (Done (accepted_evidence D stored)) (\<lambda>accepted.
     case accepted of
       Some e \<Rightarrow>
         pthen (check (doc_evidence_bytes D e = doc_evidence_bytes D evidence)
           (StreamSchedulerCompositionError ''terminal replay changed accepted stream evidence'')) (\<lambda>_.
         pthen (execution_call None (get_item (lease_work_item_id lease))) (\<lambda>execution.
         Done (stream_item_from D plan execution (Some e))))
     | None \<Rightarrow>
         pthen (stream_store_pending D lease evidence now) (\<lambda>_.
         let ref = Some (terminal_result_reference evidence);
             sha = Some (ar_exact_sha256 (te_evidence_ref evidence))
         in
         pthen (execution_call (Some (Succeed lease ref sha now)) (succeed lease ref sha now)) (\<lambda>execution.
         pthen (accept_pending D N (lease_work_item_id lease) stored execution
           (Some (doc_evidence_bytes D evidence))) (\<lambda>_.
         Done (stream_item_from D plan execution (Some evidence))))))))))"

definition get_stream_item :: "stream_docs \<Rightarrow> stream_node \<Rightarrow> string \<Rightarrow> StreamWorkItem delivery" where
  "get_stream_item D N i =
     pthen (stored_work_row N i False) (\<lambda>stored.
     pthen (Done (parse_plan D ''stream work plan'' (sw_plan_json stored))) (\<lambda>plan.
     pthen (Done (accepted_evidence D stored)) (\<lambda>evidence.
     pthen (execution_call None (get_item i)) (\<lambda>execution.
     Done (stream_item_from D plan execution evidence)))))"

section \<open>Calls of a process\<close>

datatype delivery_call =
    Recover_call
  | Publish_call "StoredStreamWorkPlan list"
  | Claim_call bool string int "string option" time string bool
  | Resume_call string int string time
  | Start_call WorkLease time
  | Heartbeat_call WorkLease int time
  | Fail_call WorkLease string "string option" time
  | Complete_call WorkLease StreamTerminalEvidence time
  | Get_call string

datatype delivery_reply =
    Count_reply nat
  | Claim_reply "StreamWorkLeaseClaim option"
  | Item_reply StreamWorkItem
  | Lease_reply WorkLease

definition replying :: "('a \<Rightarrow> delivery_reply) \<Rightarrow> 'a delivery \<Rightarrow> delivery_reply delivery" where
  "replying f p = pthen p (\<lambda>a. Done (Inr (f a)))"

fun call_prog :: "stream_docs \<Rightarrow> stream_node \<Rightarrow> delivery_call \<Rightarrow> delivery_reply delivery" where
  "call_prog D N Recover_call = replying Count_reply (recover D N)"
| "call_prog D N (Publish_call rows) = replying Count_reply (publish_work_rows D N rows)"
| "call_prog D N (Claim_call s worker d target now token r) =
     replying Claim_reply (stream_claim_with s D N worker d target now token r)"
| "call_prog D N (Resume_call worker d i now) = replying Claim_reply (resume_owned_active D N worker d i now)"
| "call_prog D N (Start_call lease now) = replying Item_reply (stream_start D N lease now)"
| "call_prog D N (Heartbeat_call lease d now) = replying Lease_reply (stream_heartbeat D N lease d now)"
| "call_prog D N (Fail_call lease code detail now) = replying Item_reply (fail_retryable D N lease code detail now)"
| "call_prog D N (Complete_call lease e now) = replying Item_reply (stream_complete D N lease e now)"
| "call_prog D N (Get_call i) = replying Item_reply (get_stream_item D N i)"

text \<open>A program alone, from a database and a cache.\<close>

definition run_optional :: "stream_command option \<Rightarrow> stream_db \<Rightarrow> stream_db" where
  "run_optional c db = (case c of None \<Rightarrow> db | Some cmd \<Rightarrow> run_stream_command cmd db)"

type_synonym row_cache = "string \<Rightarrow> StoredStreamWorkPlan option"

primrec run_prog :: "'r prog \<Rightarrow> stream_db \<Rightarrow> row_cache \<Rightarrow> stream_db \<times> row_cache \<times> 'r" where
  "run_prog (Done r) db cache = (db, cache, r)"
| "run_prog (Call c k) db cache = run_prog (k db) (run_optional c db) cache"
| "run_prog (Remember w p) db cache = run_prog p db (cache(sw_work_item_id w \<mapsto> w))"
| "run_prog (Recall i k) db cache = run_prog (k (cache i)) db cache"

end
