(* ===== verification/Stream_Machine.thy ===== *)
theory Stream_Machine
  imports Stream_Ledger Work_Properties
begin

text \<open>
  What the stream ledger promises, as a machine: one rule per kind of durable fact, its
  invariant, and the relation between an earlier and a later database along its steps
  (recorded facts never change). The operations are shown to refine it in
  \<open>Stream_Refinement\<close>.
\<close>

section \<open>Views\<close>

lemma find_row_update_where:
  assumes "\<And>r. p r \<Longrightarrow> q (f r) = q r"
  shows "find_row q (update_where p f rows) = map_option (\<lambda>r. if p r then f r else r) (find_row q rows)"
proof -
  have "(\<lambda>r. q (if p r then f r else r)) = q" using assms by auto
  then show ?thesis by (simp add: update_where_def find_row_map)
qed

definition windows_of :: "stream_db \<Rightarrow> string \<Rightarrow> StoredExpectedWindow list" where
  "windows_of db k = filter (\<lambda>w. ew_plan_key w = k) (expected_windows db)"

definition children :: "stream_db \<Rightarrow> string \<Rightarrow> int option \<Rightarrow> StoredStreamWorkPlan list" where
  "children db k n = filter (\<lambda>w. sw_plan_key w = k \<and> sw_expected_ordinal w = n) (stream_work_plans db)"

lemma companion_rows_children: "companion_rows db k n = sort_key role_key (children db k n)"
  by (simp add: companion_rows_def children_def)

lemma window_row_of: "window_row db k n = find_row (\<lambda>w. ew_ordinal w = n) (windows_of db k)"
proof -
  have "find_row (\<lambda>w. ew_plan_key w = k \<and> ew_ordinal w = n) rows =
      find_row (\<lambda>w. ew_ordinal w = n) (filter (\<lambda>w. ew_plan_key w = k) rows)" for rows
    by (induction rows) (auto simp: find_row_def)
  then show ?thesis by (simp add: window_row_def windows_of_def)
qed

lemma upd_sel [simp]:
  "authority (upd_plan k f db) = authority db" "expected_windows (upd_plan k f db) = expected_windows db"
  "stream_work_plans (upd_plan k f db) = stream_work_plans db"
  "stream_backpressure_controllers (upd_plan k f db) = stream_backpressure_controllers db"
  "authority (upd_windows wp wg db) = authority db" "stream_plans (upd_windows wp wg db) = stream_plans db"
  "stream_work_plans (upd_windows wp wg db) = stream_work_plans db"
  "stream_backpressure_controllers (upd_windows wp wg db) = stream_backpressure_controllers db"
  "authority (upd_works sp sf db) = authority db" "stream_plans (upd_works sp sf db) = stream_plans db"
  "expected_windows (upd_works sp sf db) = expected_windows db"
  "stream_backpressure_controllers (upd_works sp sf db) = stream_backpressure_controllers db"
  "authority (upd_controllers cp cf db) = authority db" "stream_plans (upd_controllers cp cf db) = stream_plans db"
  "expected_windows (upd_controllers cp cf db) = expected_windows db"
  "stream_work_plans (upd_controllers cp cf db) = stream_work_plans db"
  by (simp_all add: upd_plan_def upd_windows_def upd_works_def upd_controllers_def)

text \<open>The views depend on their own table only.\<close>

lemma views_cong:
  "stream_plans db' = stream_plans db \<Longrightarrow> plan_row db' = plan_row db"
  "expected_windows db' = expected_windows db \<Longrightarrow> windows_of db' = windows_of db"
  "stream_work_plans db' = stream_work_plans db \<Longrightarrow> work_row db' = work_row db"
  "stream_work_plans db' = stream_work_plans db \<Longrightarrow> children db' = children db"
  "stream_backpressure_controllers db' = stream_backpressure_controllers db \<Longrightarrow> controller_row db' = controller_row db"
  by (auto simp: plan_row_def windows_of_def work_row_def children_def controller_row_def fun_eq_iff)

lemma plan_rowD:
  assumes "plan_row db k = Some p"
  shows "p \<in> set (stream_plans db)" and "sp_plan_key p = k"
  using find_row_Some [OF assms [unfolded plan_row_def]] by auto

lemma work_rowD:
  assumes "work_row db i = Some w"
  shows "w \<in> set (stream_work_plans db)" and "sw_work_item_id w = i"
  using find_row_Some [OF assms [unfolded work_row_def]] by auto

lemma controller_rowD:
  assumes "controller_row db k c = Some r"
  shows "r \<in> set (stream_backpressure_controllers db)" and "bc_plan_key r = k" and "bc_controller_key r = c"
  using find_row_Some [OF assms [unfolded controller_row_def]] by auto

lemma window_rowD:
  assumes "window_row db k n = Some w"
  shows "w \<in> set (windows_of db k)" and "ew_ordinal w = n"
  using find_row_Some [OF assms [unfolded window_row_of]] by auto

lemma plan_row_upd:
  assumes "\<And>p. sp_plan_key (f p) = sp_plan_key p"
  shows "plan_row (upd_plan k f db) j = (if j = k then map_option f (plan_row db k) else plan_row db j)"
proof -
  have "plan_row (upd_plan k f db) j =
      map_option (\<lambda>r. if sp_plan_key r = k then f r else r) (plan_row db j)"
    unfolding plan_row_def upd_plan_def by (simp add: find_row_update_where assms)
  then show ?thesis
    by (cases "plan_row db j") (auto dest: plan_rowD(2))
qed

lemma work_row_upd:
  assumes "\<And>w. sw_work_item_id (f w) = sw_work_item_id w"
  shows "work_row (upd_works p f db) i = map_option (\<lambda>w. if p w then f w else w) (work_row db i)"
  unfolding work_row_def upd_works_def by (simp add: find_row_update_where assms)

lemma windows_of_upd:
  assumes "\<And>w. ew_plan_key (f w) = ew_plan_key w"
  shows "windows_of (upd_windows p f db) k = update_where p f (windows_of db k)"
proof -
  have "filter (\<lambda>w. ew_plan_key w = k) (update_where p f rows) =
      update_where p f (filter (\<lambda>w. ew_plan_key w = k) rows)" for rows
    by (induction rows) (auto simp: update_where_def assms)
  then show ?thesis by (simp add: windows_of_def upd_windows_def)
qed

lemma children_upd:
  assumes "\<And>w. sw_plan_key (f w) = sw_plan_key w" and "\<And>w. sw_expected_ordinal (f w) = sw_expected_ordinal w"
  shows "children (upd_works p f db) k n = update_where p f (children db k n)"
proof -
  have "filter (\<lambda>w. sw_plan_key w = k \<and> sw_expected_ordinal w = n) (update_where p f rows) =
      update_where p f (filter (\<lambda>w. sw_plan_key w = k \<and> sw_expected_ordinal w = n) rows)" for rows
    by (induction rows) (auto simp: update_where_def assms)
  then show ?thesis by (simp add: children_def upd_works_def)
qed

lemma controller_row_upd:
  assumes "\<And>r. bc_plan_key (f r) = bc_plan_key r" and "\<And>r. bc_controller_key (f r) = bc_controller_key r"
  shows "controller_row (upd_controllers p f db) k c = map_option (\<lambda>r. if p r then f r else r) (controller_row db k c)"
  unfolding controller_row_def upd_controllers_def by (simp add: find_row_update_where assms)

section \<open>The machine\<close>

text \<open>Rows whose id and logical key are new, also among themselves.\<close>

definition fresh_works :: "stream_db \<Rightarrow> NewStreamWorkPlan list \<Rightarrow> bool" where
  "fresh_works db ns \<longleftrightarrow>
     distinct (map sw_work_item_id (stream_work_plans db) @ map nw_work_item_id ns)
     \<and> distinct (map sw_work_logical_key (stream_work_plans db) @ map nw_work_logical_key ns)"

inductive sstep :: "stream_db \<Rightarrow> stream_db \<Rightarrow> bool" where
  plan_added:
    "plan_row db k = None \<Longrightarrow> sstep db (db\<lparr>stream_plans := stream_plans db @ [new_plan k j s c]\<rparr>)"
| eos_set:
    "\<lbrakk> plan_row db k = Some p; sp_planner_eos_sha256 p \<in> {None, Some d} \<rbrakk>
     \<Longrightarrow> sstep db (upd_plan k (\<lambda>p. p\<lparr>sp_planner_eos_sha256 := Some d\<rparr>) db)"
| exported:
    "\<lbrakk> plan_row db k = Some p;
       sp_export_manifest_sha256 p = None \<or> sp_export_manifest_sha256 p = Some m \<and> sp_export_member_count p = Some n \<rbrakk>
     \<Longrightarrow> sstep db (upd_plan k (\<lambda>p. p\<lparr>sp_export_manifest_sha256 := Some m, sp_export_member_count := Some n\<rparr>) db)"
| window_appended:
    "\<lbrakk> plan_row db k = Some p; sp_planner_eos_sha256 p = None; sp_seal_json p = None;
       nwin_ordinal w = int (length (windows_of db k));
       list_all (\<lambda>n. nw_expected_ordinal n = Some (nwin_ordinal w)) (nwin_work_plans w);
       fresh_works db (nwin_work_plans w) \<rbrakk>
     \<Longrightarrow> sstep db (db\<lparr>expected_windows := expected_windows db @ [new_window_row k w],
           stream_work_plans := stream_work_plans db @ map (new_work_row k) (nwin_work_plans w)\<rparr>)"
| plan_sealed:
    "\<lbrakk> plan_row db k = Some p; sp_planner_eos_sha256 p \<noteq> None; sp_seal_json p = None;
       nw_expected_ordinal f = None; fresh_works db [f] \<rbrakk>
     \<Longrightarrow> sstep db ((upd_plan k (\<lambda>p. p\<lparr>sp_seal_json := Some s\<rparr>) db)
           \<lparr>stream_work_plans := stream_work_plans db @ [new_work_row k f]\<rparr>)"
| plan_closed:
    "\<lbrakk> plan_row db k = Some p; sp_terminal_closure_json p \<in> {None, Some c} \<rbrakk>
     \<Longrightarrow> sstep db (upd_works (\<lambda>w. sw_plan_key w = k \<and> sw_stage w = st \<and> sw_publication_state w = GATED)
           (\<lambda>w. w\<lparr>sw_publication_state := PENDING\<rparr>)
           (upd_plan k (\<lambda>p. p\<lparr>sp_terminal_closure_json := Some c\<rparr>) db))"
| work_published:
    "sstep db (upd_works (\<lambda>w. q w \<and> sw_publication_state w = PENDING) publish_row db)"
| pending_stored:
    "\<lbrakk> work_row db i = Some w; sw_terminal_evidence_json w = None;
       \<And>e. sw_pending_lease_epoch w = Some e \<Longrightarrow> e < epoch \<rbrakk>
     \<Longrightarrow> sstep db (upd_works (\<lambda>w. sw_work_item_id w = i) (set_pending payload epoch token) db)"
| pending_accepted:
    "\<lbrakk> work_row db i = Some w; sw_terminal_evidence_json w = None; sw_pending_terminal_json w = Some payload;
       check_member db w m n = Inr () \<rbrakk>
     \<Longrightarrow> sstep db (set_member (upd_works (\<lambda>w. sw_work_item_id w = i) promote_pending db) w m n)"
| controller_added:
    "\<lbrakk> plan_row db k = Some p; controller_row db k c = None \<rbrakk>
     \<Longrightarrow> sstep db (db\<lparr>stream_backpressure_controllers := stream_backpressure_controllers db @
           [\<lparr>bc_plan_key = k, bc_controller_key = c, bc_policy_version = v, bc_owner_id = own,
             bc_owner_fence = 1, bc_state_json = s\<rparr>]\<rparr>)"
| controller_taken:
    "\<lbrakk> controller_row db k c = Some r; bc_owner_id r \<noteq> own \<rbrakk>
     \<Longrightarrow> sstep db (upd_controllers (\<lambda>x. bc_plan_key x = k \<and> bc_controller_key x = c)
           (\<lambda>x. x\<lparr>bc_owner_id := own, bc_owner_fence := bc_owner_fence r + 1\<rparr>) db)"
| controller_saved:
    "\<lbrakk> controller_row db k c = Some r; controller_fence_matches h r \<rbrakk>
     \<Longrightarrow> sstep db (upd_controllers (\<lambda>x. bc_plan_key x = k \<and> bc_controller_key x = c)
           (\<lambda>x. x\<lparr>bc_state_json := s\<rparr>) db)"
| scheduler:
    "sstep db (db\<lparr>authority := run_command cmd (authority db)\<rparr>)"

abbreviation ssteps :: "stream_db \<Rightarrow> stream_db \<Rightarrow> bool" where
  "ssteps \<equiv> sstep\<^sup>*\<^sup>*"

section \<open>The invariant\<close>

definition wf_keys :: "stream_db \<Rightarrow> bool" where
  "wf_keys db \<longleftrightarrow> distinct (map sp_plan_key (stream_plans db))
     \<and> distinct (map sw_work_item_id (stream_work_plans db))
     \<and> distinct (map sw_work_logical_key (stream_work_plans db))
     \<and> distinct (map (\<lambda>r. (bc_plan_key r, bc_controller_key r)) (stream_backpressure_controllers db))"

definition wf_refs :: "stream_db \<Rightarrow> bool" where
  "wf_refs db \<longleftrightarrow> (\<forall>w \<in> set (expected_windows db). plan_row db (ew_plan_key w) \<noteq> None)
     \<and> (\<forall>w \<in> set (stream_work_plans db). plan_row db (sw_plan_key w) \<noteq> None)
     \<and> (\<forall>r \<in> set (stream_backpressure_controllers db). plan_row db (bc_plan_key r) \<noteq> None)"

definition wf_windows :: "stream_db \<Rightarrow> bool" where
  "wf_windows db \<longleftrightarrow>
     (\<forall>k. map ew_ordinal (windows_of db k) = map int [0..<length (windows_of db k)])"

definition plan_shape :: "StoredStreamPlan \<Rightarrow> bool" where
  "plan_shape p \<longleftrightarrow> (sp_seal_json p \<noteq> None \<longrightarrow> sp_planner_eos_sha256 p \<noteq> None)
     \<and> (sp_export_manifest_sha256 p = None \<longleftrightarrow> sp_export_member_count p = None)"

definition work_shape :: "StoredStreamWorkPlan \<Rightarrow> bool" where
  "work_shape w \<longleftrightarrow> (sw_pending_terminal_json w = None \<longleftrightarrow> sw_pending_lease_epoch w = None)
     \<and> (sw_pending_terminal_json w = None \<longleftrightarrow> sw_pending_fencing_token w = None)
     \<and> (sw_terminal_evidence_json w \<noteq> None \<longrightarrow> sw_pending_terminal_json w = None)"

definition wf_rows :: "stream_db \<Rightarrow> bool" where
  "wf_rows db \<longleftrightarrow> list_all plan_shape (stream_plans db) \<and> list_all work_shape (stream_work_plans db)
     \<and> list_all (\<lambda>r. 0 < bc_owner_fence r) (stream_backpressure_controllers db)"

text \<open>The children of a window, and the work beside a seal, are complete from the start.\<close>

definition sealed :: "stream_db \<Rightarrow> string \<Rightarrow> bool" where
  "sealed db k \<longleftrightarrow> (\<exists>p. plan_row db k = Some p \<and> sp_seal_json p \<noteq> None)"

definition group_fixed :: "stream_db \<Rightarrow> string \<Rightarrow> int option \<Rightarrow> bool" where
  "group_fixed db k n \<longleftrightarrow> (case n of None \<Rightarrow> sealed db k | Some m \<Rightarrow> window_row db k m \<noteq> None)"

definition wf_children :: "stream_db \<Rightarrow> bool" where
  "wf_children db \<longleftrightarrow>
     (\<forall>w \<in> set (stream_work_plans db). group_fixed db (sw_plan_key w) (sw_expected_ordinal w))"

definition wf_stream :: "stream_db \<Rightarrow> bool" where
  "wf_stream db \<longleftrightarrow> wf_keys db \<and> wf_refs db \<and> wf_windows db \<and> wf_rows db \<and> wf_children db
     \<and> wf_ledger (authority db)"

section \<open>Recorded facts\<close>

definition kept :: "'a option \<Rightarrow> 'a option \<Rightarrow> bool" where
  "kept a b \<longleftrightarrow> (a \<noteq> None \<longrightarrow> b = a)"

lemma kept_refl [simp]: "kept a a" "kept None b" "kept (Some x) b \<longleftrightarrow> b = Some x"
  by (auto simp: kept_def)

lemma kept_trans: "kept a b \<Longrightarrow> kept b c \<Longrightarrow> kept a c"
  by (auto simp: kept_def)

definition plan_evolves :: "StoredStreamPlan \<Rightarrow> StoredStreamPlan \<Rightarrow> bool" where
  "plan_evolves p p' \<longleftrightarrow> sp_plan_key p' = sp_plan_key p \<and> sp_plan_json p' = sp_plan_json p
     \<and> sp_source_subject_json p' = sp_source_subject_json p
     \<and> sp_composition_config_json p' = sp_composition_config_json p
     \<and> kept (sp_planner_eos_sha256 p) (sp_planner_eos_sha256 p') \<and> kept (sp_seal_json p) (sp_seal_json p')
     \<and> kept (sp_terminal_closure_json p) (sp_terminal_closure_json p')
     \<and> kept (sp_export_manifest_sha256 p) (sp_export_manifest_sha256 p')
     \<and> kept (sp_export_member_count p) (sp_export_member_count p')"

definition window_evolves :: "StoredExpectedWindow \<Rightarrow> StoredExpectedWindow \<Rightarrow> bool" where
  "window_evolves w w' \<longleftrightarrow> ew_plan_key w' = ew_plan_key w \<and> ew_ordinal w' = ew_ordinal w
     \<and> ew_declaration_json w' = ew_declaration_json w \<and> ew_window_json w' = ew_window_json w
     \<and> kept (ew_terminal_member_json w) (ew_terminal_member_json w')"

fun publication_rank :: "PublicationState \<Rightarrow> nat" where
  "publication_rank GATED = 0"
| "publication_rank PENDING = 1"
| "publication_rank PUBLISHED = 2"

definition work_evolves :: "StoredStreamWorkPlan \<Rightarrow> StoredStreamWorkPlan \<Rightarrow> bool" where
  "work_evolves w w' \<longleftrightarrow> sw_work_item_id w' = sw_work_item_id w
     \<and> sw_work_logical_key w' = sw_work_logical_key w \<and> sw_plan_key w' = sw_plan_key w
     \<and> sw_expected_ordinal w' = sw_expected_ordinal w \<and> sw_role_order w' = sw_role_order w
     \<and> sw_stage w' = sw_stage w \<and> sw_plan_json w' = sw_plan_json w
     \<and> publication_rank (sw_publication_state w) \<le> publication_rank (sw_publication_state w')
     \<and> kept (sw_terminal_evidence_json w) (sw_terminal_evidence_json w')"

definition controller_evolves ::
    "StoredStreamBackpressureController \<Rightarrow> StoredStreamBackpressureController \<Rightarrow> bool" where
  "controller_evolves r r' \<longleftrightarrow> bc_plan_key r' = bc_plan_key r \<and> bc_controller_key r' = bc_controller_key r
     \<and> bc_policy_version r' = bc_policy_version r \<and> bc_owner_fence r \<le> bc_owner_fence r'
     \<and> (bc_owner_fence r' = bc_owner_fence r \<longrightarrow> bc_owner_id r' = bc_owner_id r)"

lemmas evolves_defs = plan_evolves_def window_evolves_def work_evolves_def controller_evolves_def

lemma row_evolution_refl [simp]:
  "plan_evolves p p" "window_evolves w w" "work_evolves s s" "controller_evolves r r"
  by (simp_all add: evolves_defs)

lemma plan_evolves_trans: "plan_evolves a b \<Longrightarrow> plan_evolves b c \<Longrightarrow> plan_evolves a c"
  unfolding plan_evolves_def by (metis kept_trans)

lemma window_evolves_trans: "window_evolves a b \<Longrightarrow> window_evolves b c \<Longrightarrow> window_evolves a c"
  unfolding window_evolves_def by (metis kept_trans)

lemma work_evolves_trans: "work_evolves a b \<Longrightarrow> work_evolves b c \<Longrightarrow> work_evolves a c"
  unfolding work_evolves_def by (metis kept_trans order_trans)

lemma controller_evolves_trans: "controller_evolves a b \<Longrightarrow> controller_evolves b c \<Longrightarrow> controller_evolves a c"
  unfolding controller_evolves_def by (metis order_antisym order_trans)

text \<open>The tables of a later database, one table each.\<close>

definition plans_evolve :: "stream_db \<Rightarrow> stream_db \<Rightarrow> bool" where
  "plans_evolve db db' \<longleftrightarrow>
     (\<forall>k p. plan_row db k = Some p \<longrightarrow> (\<exists>p'. plan_row db' k = Some p' \<and> plan_evolves p p'))"

text \<open>Windows are appended behind the known ones, and none once the plan is at its end.\<close>

definition planner_ended :: "stream_db \<Rightarrow> string \<Rightarrow> bool" where
  "planner_ended db k \<longleftrightarrow> (\<exists>p. plan_row db k = Some p \<and> sp_planner_eos_sha256 p \<noteq> None)"

definition windows_evolve :: "stream_db \<Rightarrow> stream_db \<Rightarrow> bool" where
  "windows_evolve db db' \<longleftrightarrow>
     (\<forall>k. \<exists>ys zs. windows_of db' k = ys @ zs \<and> list_all2 window_evolves (windows_of db k) ys
        \<and> (planner_ended db k \<longrightarrow> zs = []))"

definition works_evolve :: "stream_db \<Rightarrow> stream_db \<Rightarrow> bool" where
  "works_evolve db db' \<longleftrightarrow>
     (\<forall>i w. work_row db i = Some w \<longrightarrow> (\<exists>w'. work_row db' i = Some w' \<and> work_evolves w w'
        \<and> (sw_publication_state w = GATED \<and> sw_publication_state w' \<noteq> GATED \<longrightarrow>
             (\<exists>p. plan_row db' (sw_plan_key w) = Some p \<and> sp_terminal_closure_json p \<noteq> None))))"

definition children_evolve :: "stream_db \<Rightarrow> stream_db \<Rightarrow> bool" where
  "children_evolve db db' \<longleftrightarrow>
     (\<forall>k n. group_fixed db k n \<longrightarrow> list_all2 work_evolves (children db k n) (children db' k n))"

definition controllers_evolve :: "stream_db \<Rightarrow> stream_db \<Rightarrow> bool" where
  "controllers_evolve db db' \<longleftrightarrow>
     (\<forall>k c r. controller_row db k c = Some r \<longrightarrow>
        (\<exists>r'. controller_row db' k c = Some r' \<and> controller_evolves r r'))"

definition stream_evolves :: "stream_db \<Rightarrow> stream_db \<Rightarrow> bool" where
  "stream_evolves db db' \<longleftrightarrow> plans_evolve db db' \<and> windows_evolve db db' \<and> works_evolve db db'
     \<and> children_evolve db db' \<and> controllers_evolve db db' \<and> evolves (authority db) (authority db')"

end
