(* ===== verification/Stream_Evolution.thy ===== *)
theory Stream_Evolution
  imports Stream_Machine
begin

text \<open>
  Every step of the stream ledger's machine keeps its invariant and every recorded fact: one
  lemma per table and kind of change, then the step relation by cases.
\<close>

section \<open>One table at a time\<close>

lemma plans_evolve_upd:
  assumes "\<And>p. sp_plan_key (f p) = sp_plan_key p" and "plan_row db k = Some p" and "plan_evolves p (f p)"
    and "stream_plans db' = stream_plans (upd_plan k f db)"
  shows "plans_evolve db db'"
  using assms(2,3) plan_row_upd [of f k db, OF assms(1)] views_cong(1) [OF assms(4)]
  by (auto simp: plans_evolve_def)

lemma plans_evolve_append:
  assumes "stream_plans db' = stream_plans db @ ps"
  shows "plans_evolve db db'"
  using assms by (simp add: plans_evolve_def plan_row_def find_row_append)

lemma windows_evolve_append:
  assumes "expected_windows db' = expected_windows db @ ws"
    and "\<And>w. w \<in> set ws \<Longrightarrow> \<not> planner_ended db (ew_plan_key w)"
  shows "windows_evolve db db'"
  unfolding windows_evolve_def
proof (intro allI exI conjI impI)
  fix k
  show "windows_of db' k = windows_of db k @ filter (\<lambda>w. ew_plan_key w = k) ws"
    by (simp add: windows_of_def assms(1))
  show "list_all2 window_evolves (windows_of db k) (windows_of db k)" by (simp add: list.rel_refl)
  assume "planner_ended db k"
  then show "filter (\<lambda>w. ew_plan_key w = k) ws = []" using assms(2) by (auto simp: filter_empty_conv)
qed

lemma list_all2_update:
  assumes "\<And>r. R r r" and "\<And>r. r \<in> set rows \<Longrightarrow> p r \<Longrightarrow> R r (f r)"
  shows "list_all2 R rows (update_where p f rows)"
  using assms by (simp add: update_where_def list_all2_conv_all_nth)

lemma windows_evolve_upd:
  assumes "\<And>w. ew_plan_key (f w) = ew_plan_key w"
    and "\<And>w. w \<in> set (expected_windows db) \<Longrightarrow> p w \<Longrightarrow> window_evolves w (f w)"
    and "expected_windows db' = expected_windows (upd_windows p f db)"
  shows "windows_evolve db db'"
  unfolding windows_evolve_def
proof (intro allI exI conjI impI)
  fix k
  show "windows_of db' k = update_where p f (windows_of db k) @ []"
    using windows_of_upd [OF assms(1)] views_cong(2) [OF assms(3)] by simp
  show "list_all2 window_evolves (windows_of db k) (update_where p f (windows_of db k))"
    by (rule list_all2_update) (auto simp: windows_of_def assms(2))
qed simp

lemma works_evolve_append:
  assumes "stream_work_plans db' = stream_work_plans db @ ws"
  shows "works_evolve db db'"
  using assms by (simp add: works_evolve_def work_row_def find_row_append)

lemma works_evolve_upd:
  assumes "\<And>w. sw_work_item_id (f w) = sw_work_item_id w"
    and "\<And>w. w \<in> set (stream_work_plans db) \<Longrightarrow> p w \<Longrightarrow> work_evolves w (f w)"
    and "\<And>w. p w \<Longrightarrow> sw_publication_state w = GATED \<Longrightarrow> sw_publication_state (f w) \<noteq> GATED \<Longrightarrow>
      (\<exists>q. plan_row db' (sw_plan_key w) = Some q \<and> sp_terminal_closure_json q \<noteq> None)"
    and "stream_work_plans db' = stream_work_plans (upd_works p f db)"
  shows "works_evolve db db'"
  unfolding works_evolve_def
proof (intro allI impI)
  fix i w assume w: "work_row db i = Some w"
  have "work_row db' i = Some (if p w then f w else w)"
    using work_row_upd [OF assms(1)] views_cong(3) [OF assms(4)] w by simp
  then show "\<exists>w'. work_row db' i = Some w' \<and> work_evolves w w'
      \<and> (sw_publication_state w = GATED \<and> sw_publication_state w' \<noteq> GATED \<longrightarrow>
           (\<exists>p. plan_row db' (sw_plan_key w) = Some p \<and> sp_terminal_closure_json p \<noteq> None))"
    using assms(2) [OF work_rowD(1) [OF w]] assms(3) [of w] by (cases "p w") auto
qed

lemma children_evolve_append:
  assumes "stream_work_plans db' = stream_work_plans db @ ws"
    and "\<And>w. w \<in> set ws \<Longrightarrow> \<not> group_fixed db (sw_plan_key w) (sw_expected_ordinal w)"
  shows "children_evolve db db'"
  unfolding children_evolve_def
proof (intro allI impI)
  fix k n assume fixed: "group_fixed db k n"
  have "filter (\<lambda>w. sw_plan_key w = k \<and> sw_expected_ordinal w = n) ws = []"
    using assms(2) fixed by (auto simp: filter_empty_conv)
  then show "list_all2 work_evolves (children db k n) (children db' k n)"
    by (simp add: children_def assms(1) list.rel_refl)
qed

lemma children_evolve_upd:
  assumes "\<And>w. sw_plan_key (f w) = sw_plan_key w" and "\<And>w. sw_expected_ordinal (f w) = sw_expected_ordinal w"
    and "\<And>w. w \<in> set (stream_work_plans db) \<Longrightarrow> p w \<Longrightarrow> work_evolves w (f w)"
    and "stream_work_plans db' = stream_work_plans (upd_works p f db)"
  shows "children_evolve db db'"
  unfolding children_evolve_def
proof (intro allI impI)
  fix k n
  have "children db' k n = update_where p f (children db k n)"
    using children_upd [OF assms(1,2)] views_cong(4) [OF assms(4)] by simp
  moreover have "list_all2 work_evolves (children db k n) (update_where p f (children db k n))"
    by (rule list_all2_update) (auto simp: children_def assms(3))
  ultimately show "list_all2 work_evolves (children db k n) (children db' k n)" by simp
qed

lemma controllers_evolve_append:
  assumes "stream_backpressure_controllers db' = stream_backpressure_controllers db @ rs"
  shows "controllers_evolve db db'"
  using assms by (simp add: controllers_evolve_def controller_row_def find_row_append)

lemma controllers_evolve_upd:
  assumes "\<And>r. bc_plan_key (f r) = bc_plan_key r" and "\<And>r. bc_controller_key (f r) = bc_controller_key r"
    and "\<And>k c r. controller_row db k c = Some r \<Longrightarrow> p r \<Longrightarrow> controller_evolves r (f r)"
    and "stream_backpressure_controllers db' = stream_backpressure_controllers (upd_controllers p f db)"
  shows "controllers_evolve db db'"
  using controller_row_upd [OF assms(1,2)] views_cong(5) [OF assms(4)] assms(3)
  by (simp add: controllers_evolve_def)

text \<open>Tables that do not change.\<close>

lemma plans_evolve_same: "stream_plans db' = stream_plans db \<Longrightarrow> plans_evolve db db'"
  by (rule plans_evolve_append [of _ _ "[]"]) simp

lemma windows_evolve_same: "expected_windows db' = expected_windows db \<Longrightarrow> windows_evolve db db'"
  by (rule windows_evolve_append [of _ _ "[]"]) simp_all

lemma works_evolve_same: "stream_work_plans db' = stream_work_plans db \<Longrightarrow> works_evolve db db'"
  by (rule works_evolve_append [of _ _ "[]"]) simp

lemma children_evolve_same: "stream_work_plans db' = stream_work_plans db \<Longrightarrow> children_evolve db db'"
  by (rule children_evolve_append [of _ _ "[]"]) simp_all

lemma controllers_evolve_same:
  "stream_backpressure_controllers db' = stream_backpressure_controllers db \<Longrightarrow> controllers_evolve db db'"
  by (rule controllers_evolve_append [of _ _ "[]"]) simp

lemmas evolve_same = plans_evolve_same windows_evolve_same works_evolve_same children_evolve_same
  controllers_evolve_same

section \<open>Reflexivity and transitivity\<close>

lemma stream_evolves_refl [simp]: "stream_evolves db db"
  by (simp add: stream_evolves_def evolve_same)

lemma planner_ended_later: "plans_evolve a b \<Longrightarrow> planner_ended a k \<Longrightarrow> planner_ended b k"
  unfolding plans_evolve_def planner_ended_def plan_evolves_def kept_def by metis

lemma sealed_later: "plans_evolve a b \<Longrightarrow> sealed a k \<Longrightarrow> sealed b k"
  unfolding plans_evolve_def sealed_def plan_evolves_def kept_def by metis

lemma window_row_some: "window_row db k n \<noteq> None \<longleftrightarrow> n \<in> ew_ordinal ` set (windows_of db k)"
  by (auto simp: window_row_of)

lemma window_later:
  assumes "windows_evolve a b" and "window_row a k n \<noteq> None"
  shows "window_row b k n \<noteq> None"
proof -
  obtain ys zs where yz: "windows_of b k = ys @ zs" "list_all2 window_evolves (windows_of a k) ys"
    using assms(1) unfolding windows_evolve_def by meson
  obtain w where "w \<in> set (windows_of a k)" "ew_ordinal w = n" using assms(2) unfolding window_row_some by blast
  then obtain w' where "w' \<in> set ys" "window_evolves w w'"
    using yz(2) by (metis in_set_conv_nth list_all2_conv_all_nth)
  then have "n \<in> ew_ordinal ` set (windows_of b k)"
    using yz(1) \<open>ew_ordinal w = n\<close> by (intro rev_image_eqI [of w']) (simp_all add: window_evolves_def)
  then show ?thesis unfolding window_row_some .
qed

lemma group_fixed_later:
  "plans_evolve a b \<Longrightarrow> windows_evolve a b \<Longrightarrow> group_fixed a k n \<Longrightarrow> group_fixed b k n"
  unfolding group_fixed_def by (cases n) (simp_all add: sealed_later window_later)

lemma windows_evolve_trans:
  assumes "windows_evolve a b" and "windows_evolve b c" and "plans_evolve a b"
  shows "windows_evolve a c"
  unfolding windows_evolve_def
proof
  fix k
  obtain ys zs where ab: "windows_of b k = ys @ zs" "list_all2 window_evolves (windows_of a k) ys"
    "planner_ended a k \<longrightarrow> zs = []"
    using assms(1) unfolding windows_evolve_def by meson
  obtain us vs where bc: "windows_of c k = us @ vs" "list_all2 window_evolves (ys @ zs) us"
    "planner_ended b k \<longrightarrow> vs = []"
    using assms(2) ab(1) unfolding windows_evolve_def by metis
  obtain us1 us2 where us: "us = us1 @ us2" "list_all2 window_evolves ys us1" "list_all2 window_evolves zs us2"
    using bc(2) by (auto simp: list_all2_append1)
  have "list_all2 window_evolves (windows_of a k) us1"
    by (rule list_all2_trans [OF window_evolves_trans ab(2) us(2)])
  moreover have "us2 @ vs = []" if "planner_ended a k"
    using that ab(3) us(3) bc(3) planner_ended_later [OF assms(3) that] by simp
  ultimately show "\<exists>ys zs. windows_of c k = ys @ zs \<and> list_all2 window_evolves (windows_of a k) ys
      \<and> (planner_ended a k \<longrightarrow> zs = [])"
    using bc(1) us(1) by (metis append.assoc)
qed

lemma works_evolve_trans:
  assumes "works_evolve a b" and "works_evolve b c" and "plans_evolve b c"
  shows "works_evolve a c"
  unfolding works_evolve_def
proof (intro allI impI)
  fix i w assume "work_row a i = Some w"
  then obtain v where v: "work_row b i = Some v" "work_evolves w v"
    "sw_publication_state w = GATED \<and> sw_publication_state v \<noteq> GATED \<longrightarrow>
       (\<exists>p. plan_row b (sw_plan_key w) = Some p \<and> sp_terminal_closure_json p \<noteq> None)"
    using assms(1) unfolding works_evolve_def by meson
  then obtain u where u: "work_row c i = Some u" "work_evolves v u"
    "sw_publication_state v = GATED \<and> sw_publication_state u \<noteq> GATED \<longrightarrow>
       (\<exists>p. plan_row c (sw_plan_key v) = Some p \<and> sp_terminal_closure_json p \<noteq> None)"
    using assms(2) unfolding works_evolve_def by meson
  have key: "sw_plan_key v = sw_plan_key w" using v(2) by (simp add: work_evolves_def)
  have closed: "\<exists>p'. plan_row c k = Some p' \<and> sp_terminal_closure_json p' \<noteq> None"
    if "plan_row b k = Some p" "sp_terminal_closure_json p \<noteq> None" for k p
    using assms(3) that unfolding plans_evolve_def plan_evolves_def kept_def by metis
  show "\<exists>w'. work_row c i = Some w' \<and> work_evolves w w'
      \<and> (sw_publication_state w = GATED \<and> sw_publication_state w' \<noteq> GATED \<longrightarrow>
           (\<exists>p. plan_row c (sw_plan_key w) = Some p \<and> sp_terminal_closure_json p \<noteq> None))"
    using u v work_evolves_trans [OF v(2) u(2)] key closed by metis
qed

lemma stream_evolves_trans:
  assumes "stream_evolves a b" and "stream_evolves b c"
  shows "stream_evolves a c"
proof -
  note ab = assms(1) [unfolded stream_evolves_def] and bc = assms(2) [unfolded stream_evolves_def]
  have "plans_evolve a c" using ab bc unfolding plans_evolve_def by (meson plan_evolves_trans)
  moreover have "windows_evolve a c" using ab bc windows_evolve_trans by blast
  moreover have "works_evolve a c" using ab bc works_evolve_trans by blast
  moreover have "children_evolve a c"
    unfolding children_evolve_def
  proof (intro allI impI)
    fix k n assume f: "group_fixed a k n"
    then have "group_fixed b k n" using ab group_fixed_later by blast
    then have bc': "list_all2 work_evolves (children b k n) (children c k n)"
      using bc unfolding children_evolve_def by blast
    have ab': "list_all2 work_evolves (children a k n) (children b k n)"
      using f ab unfolding children_evolve_def by blast
    show "list_all2 work_evolves (children a k n) (children c k n)"
      by (rule list_all2_trans [OF work_evolves_trans ab' bc'])
  qed
  moreover have "controllers_evolve a c"
    using ab bc unfolding controllers_evolve_def by (meson controller_evolves_trans)
  moreover have "evolves (authority a) (authority c)" using ab bc evolves_trans by blast
  ultimately show ?thesis by (simp add: stream_evolves_def)
qed

section \<open>Steps keep recorded facts\<close>

lemma wf_streamD:
  assumes "wf_stream db"
  shows "wf_keys db" "wf_refs db" "wf_windows db" "wf_rows db" "wf_children db" "wf_ledger (authority db)"
  using assms by (simp_all add: wf_stream_def)

lemma ordinals_of:
  assumes "wf_windows db"
  shows "ew_ordinal ` set (windows_of db k) = int ` {0..<length (windows_of db k)}"
  using arg_cong [OF spec [OF assms [unfolded wf_windows_def]], of set] by simp

lemma next_window_new:
  assumes "wf_windows db"
  shows "window_row db k (int (length (windows_of db k))) = None"
  using window_row_some [of db k "int (length (windows_of db k))"] ordinals_of [OF assms, of k] by auto

lemma unsealed_group:
  assumes "plan_row db k = Some p" and "sp_seal_json p = None"
  shows "\<not> group_fixed db k None"
  using assms by (simp add: group_fixed_def sealed_def)

lemma not_ended:
  assumes "plan_row db k = Some p" and "sp_planner_eos_sha256 p = None"
  shows "\<not> planner_ended db k"
  using assms by (simp add: planner_ended_def)

lemma set_member_sel [simp]:
  "authority (set_member db w m n) = authority db" "stream_plans (set_member db w m n) = stream_plans db"
  "stream_work_plans (set_member db w m n) = stream_work_plans db"
  "stream_backpressure_controllers (set_member db w m n) = stream_backpressure_controllers db"
  by (simp_all add: set_member_def split: option.splits)

lemma check_member_Inr:
  "check_member db row m n = Inr u \<longleftrightarrow>
    m = None \<or> (\<exists>x j w. m = Some x \<and> n = Some j \<and> window_row db (sw_plan_key row) j = Some w
      \<and> ew_terminal_member_json w \<in> {None, Some x})"
  by (auto simp: check_member_def split: option.splits if_splits)

lemma window_row_unique:
  assumes "wf_windows db" and "w \<in> set (windows_of db k)"
  shows "window_row db k (ew_ordinal w) = Some w"
proof -
  have "distinct (map ew_ordinal (windows_of db k))"
    using spec [OF assms(1) [unfolded wf_windows_def], of k] by (simp add: distinct_map)
  then show ?thesis unfolding window_row_of using assms(2) by (rule find_row_key)
qed

lemma set_member_windows:
  assumes "wf_windows db" and "check_member db row m n = Inr u"
    and "expected_windows db1 = expected_windows db"
  shows "windows_evolve db (set_member db1 row m n)"
proof (cases m)
  case None
  then show ?thesis using assms(3) by (intro windows_evolve_same) (simp add: set_member_def)
next
  case (Some x)
  then obtain j w where w: "n = Some j" "window_row db (sw_plan_key row) j = Some w"
    "ew_terminal_member_json w \<in> {None, Some x}"
    using assms(2) by (auto simp: check_member_Inr)
  let ?p = "\<lambda>v. ew_plan_key v = sw_plan_key row \<and> ew_ordinal v = j"
  let ?f = "\<lambda>v. v\<lparr>ew_terminal_member_json := Some x\<rparr>"
  have only: "v = w" if "v \<in> set (expected_windows db)" "?p v" for v
    using window_row_unique [OF assms(1), of v "sw_plan_key row"] that w(2) by (simp add: windows_of_def)
  show ?thesis
  proof (rule windows_evolve_upd [where p = ?p and f = ?f])
    show "window_evolves v (?f v)" if "v \<in> set (expected_windows db)" "?p v" for v
      using only [OF that] w(3) by (auto simp: window_evolves_def kept_def)
    show "expected_windows (set_member db1 row m n) = expected_windows (upd_windows ?p ?f db)"
      using assms(3) Some w(1) by (simp add: set_member_def upd_windows_def)
  qed simp
qed

lemma unique_work:
  assumes "wf_keys db" and "work_row db i = Some w" and "v \<in> set (stream_work_plans db)" and "sw_work_item_id v = i"
  shows "v = w"
  using find_row_key [of sw_work_item_id "stream_work_plans db" v] assms
  by (simp add: wf_keys_def work_row_def)

lemma unique_controller:
  assumes "wf_keys db" and "controller_row db k c = Some r" and "v \<in> set (stream_backpressure_controllers db)"
    and "bc_plan_key v = k" and "bc_controller_key v = c"
  shows "v = r"
  using find_row_key [of "\<lambda>r. (bc_plan_key r, bc_controller_key r)" "stream_backpressure_controllers db" v] assms
  by (simp add: wf_keys_def controller_row_def)

lemma plan_upd_evolves:
  assumes "plan_row db k = Some p" and "plan_evolves p (f p)" and "\<And>p. sp_plan_key (f p) = sp_plan_key p"
  shows "stream_evolves db (upd_plan k f db)"
  using plans_evolve_upd [OF assms(3,1,2) refl] by (simp add: stream_evolves_def evolve_same(2-5))

lemma works_upd_evolves:
  assumes "\<And>w. work_evolves w (f w) \<or> \<not> p w \<or> w \<notin> set (stream_work_plans db)"
    and "\<And>w. sw_work_item_id (f w) = sw_work_item_id w" "\<And>w. sw_plan_key (f w) = sw_plan_key w"
      "\<And>w. sw_expected_ordinal (f w) = sw_expected_ordinal w"
    and "\<And>w. p w \<Longrightarrow> sw_publication_state w = GATED \<Longrightarrow> sw_publication_state (f w) \<noteq> GATED \<Longrightarrow>
      (\<exists>q. plan_row db' (sw_plan_key w) = Some q \<and> sp_terminal_closure_json q \<noteq> None)"
    and "stream_work_plans db' = stream_work_plans (upd_works p f db)"
    and "plans_evolve db db'" "windows_evolve db db'" "authority db' = authority db"
      "stream_backpressure_controllers db' = stream_backpressure_controllers db"
  shows "stream_evolves db db'"
  unfolding stream_evolves_def
proof (intro conjI)
  have ev: "w \<in> set (stream_work_plans db) \<Longrightarrow> p w \<Longrightarrow> work_evolves w (f w)" for w using assms(1) by blast
  show "works_evolve db db'" by (rule works_evolve_upd [OF assms(2) ev assms(5,6)])
  show "children_evolve db db'" by (rule children_evolve_upd [OF assms(3,4) ev assms(6)])
qed (use assms(7-10) in \<open>simp_all add: controllers_evolve_same\<close>)

lemma window_appended_evolves:
  assumes "wf_windows db" and "plan_row db k = Some p" and "sp_planner_eos_sha256 p = None"
    and "nwin_ordinal w = int (length (windows_of db k))"
    and "list_all (\<lambda>n. nw_expected_ordinal n = Some (nwin_ordinal w)) (nwin_work_plans w)"
  shows "stream_evolves db (db\<lparr>expected_windows := expected_windows db @ [new_window_row k w],
    stream_work_plans := stream_work_plans db @ map (new_work_row k) (nwin_work_plans w)\<rparr>)"
proof -
  have new: "window_row db k (nwin_ordinal w) = None" using next_window_new [OF assms(1)] assms(4) by simp
  have "\<not> group_fixed db (sw_plan_key v) (sw_expected_ordinal v)"
    if "v \<in> set (map (new_work_row k) (nwin_work_plans w))" for v
    using that new assms(5) by (auto simp: group_fixed_def new_work_row_def list_all_iff)
  then show ?thesis
    using not_ended [OF assms(2,3)] unfolding stream_evolves_def
    by (intro conjI works_evolve_append children_evolve_append windows_evolve_append)
      (auto intro!: plans_evolve_same controllers_evolve_same simp: new_window_row_def)
qed

lemma plan_sealed_evolves:
  assumes "plan_row db k = Some p" and "sp_seal_json p = None" and "nw_expected_ordinal f = None"
  shows "stream_evolves db ((upd_plan k (\<lambda>p. p\<lparr>sp_seal_json := Some s\<rparr>) db)
    \<lparr>stream_work_plans := stream_work_plans db @ [new_work_row k f]\<rparr>)" (is "stream_evolves db ?db")
proof -
  have "plans_evolve db ?db"
    by (rule plans_evolve_upd [OF _ assms(1)]) (auto simp: plan_evolves_def kept_def assms(2) upd_plan_def)
  moreover have "children_evolve db ?db"
    using unsealed_group [OF assms(1,2)] assms(3)
    by (intro children_evolve_append) (auto simp: new_work_row_def)
  ultimately show ?thesis unfolding stream_evolves_def
    by (auto intro!: windows_evolve_same controllers_evolve_same works_evolve_append)
qed

lemma plan_closed_evolves:
  assumes "plan_row db k = Some p" and "sp_terminal_closure_json p \<in> {None, Some c}"
  shows "stream_evolves db (upd_works
    (\<lambda>w. sw_plan_key w = k \<and> sw_stage w = st \<and> sw_publication_state w = GATED)
    (\<lambda>w. w\<lparr>sw_publication_state := PENDING\<rparr>)
    (upd_plan k (\<lambda>p. p\<lparr>sp_terminal_closure_json := Some c\<rparr>) db))" (is "stream_evolves db ?db")
proof (rule works_upd_evolves)
  have same: "stream_plans ?db = stream_plans (upd_plan k (\<lambda>p. p\<lparr>sp_terminal_closure_json := Some c\<rparr>) db)" by simp
  have closed: "plan_row ?db k = Some (p\<lparr>sp_terminal_closure_json := Some c\<rparr>)"
    using plan_row_upd [of "\<lambda>p. p\<lparr>sp_terminal_closure_json := Some c\<rparr>" k db k] views_cong(1) [OF same] assms(1)
    by simp
  show "stream_work_plans ?db = stream_work_plans
      (upd_works (\<lambda>w. sw_plan_key w = k \<and> sw_stage w = st \<and> sw_publication_state w = GATED)
        (\<lambda>w. w\<lparr>sw_publication_state := PENDING\<rparr>) db)"
    by (simp add: upd_works_def)
  show "\<exists>q. plan_row ?db (sw_plan_key w) = Some q \<and> sp_terminal_closure_json q \<noteq> None"
    if "sw_plan_key w = k \<and> sw_stage w = st \<and> sw_publication_state w = GATED" for w
    using that closed by simp
  show "plans_evolve db ?db"
    by (rule plans_evolve_upd [OF _ assms(1) _ same]) (use assms(2) in \<open>auto simp: plan_evolves_def kept_def\<close>)
qed (auto simp: work_evolves_def intro: windows_evolve_same)

lemma pending_accepted_evolves:
  assumes "wf_stream db" and "work_row db i = Some w" and "sw_terminal_evidence_json w = None"
    and "check_member db w m n = Inr ()"
  shows "stream_evolves db (set_member (upd_works (\<lambda>w. sw_work_item_id w = i) promote_pending db) w m n)"
    (is "stream_evolves db ?db")
proof (rule works_upd_evolves [where p = "\<lambda>w. sw_work_item_id w = i" and f = promote_pending])
  show "work_evolves v (promote_pending v) \<or> sw_work_item_id v \<noteq> i \<or> v \<notin> set (stream_work_plans db)" for v
    using unique_work [OF wf_streamD(1) [OF assms(1)] assms(2), of v] assms(3)
    by (auto simp: work_evolves_def promote_pending_def)
  show "windows_evolve db ?db"
    by (rule set_member_windows [OF wf_streamD(3) [OF assms(1)] assms(4)]) simp
qed (auto simp: promote_pending_def intro: plans_evolve_same)

lemma controllers_upd_evolves:
  assumes "wf_keys db" and "controller_row db k c = Some r" and "controller_evolves r (f r)"
    and "\<And>r. bc_plan_key (f r) = bc_plan_key r" and "\<And>r. bc_controller_key (f r) = bc_controller_key r"
  shows "stream_evolves db (upd_controllers (\<lambda>x. bc_plan_key x = k \<and> bc_controller_key x = c) f db)"
proof -
  have "controller_evolves v (f v)"
    if "controller_row db k' c' = Some v" "bc_plan_key v = k \<and> bc_controller_key v = c" for k' c' v
    using unique_controller [OF assms(1,2) controller_rowD(1) [OF that(1)]] that(2) assms(3) by simp
  then have "controllers_evolve db (upd_controllers (\<lambda>x. bc_plan_key x = k \<and> bc_controller_key x = c) f db)"
    by (intro controllers_evolve_upd [OF assms(4,5) _ refl]) auto
  then show ?thesis by (simp add: stream_evolves_def evolve_same(1-4))
qed

lemma step_evolves:
  assumes "sstep db db'" and "wf_stream db"
  shows "stream_evolves db db'"
  using assms
proof (induction rule: sstep.induct)
  case (plan_added db k j s c)
  then show ?case by (auto simp: stream_evolves_def intro!: evolve_same(2-5) plans_evolve_append)
next
  case (eos_set db k p d)
  then show ?case by (intro plan_upd_evolves) (auto simp: plan_evolves_def kept_def)
next
  case (exported db k p m n)
  have "plan_shape p"
    using plan_rowD(1) [OF exported.hyps(1)] wf_streamD(4) [OF exported.prems]
    by (auto simp: wf_rows_def list_all_iff)
  with exported show ?case by (intro plan_upd_evolves) (auto simp: plan_evolves_def plan_shape_def kept_def)
next
  case (window_appended db k p w)
  then show ?case by (intro window_appended_evolves) (auto dest: wf_streamD)
next
  case (plan_sealed db k p f s)
  then show ?case by (intro plan_sealed_evolves) auto
next
  case (plan_closed db k p c st)
  then show ?case by (intro plan_closed_evolves)
next
  case (work_published db q)
  show ?case by (rule works_upd_evolves [OF _ _ _ _ _ refl])
      (auto intro: plans_evolve_same windows_evolve_same simp: work_evolves_def publish_row_def)
next
  case (pending_stored db i w epoch payload token)
  show ?case by (rule works_upd_evolves [OF _ _ _ _ _ refl])
      (auto intro: plans_evolve_same windows_evolve_same simp: work_evolves_def set_pending_def)
next
  case (pending_accepted db i w payload m n)
  then show ?case by (intro pending_accepted_evolves)
next
  case (controller_added db k p c v own s)
  show ?case by (auto simp: stream_evolves_def intro!: evolve_same(1-4) controllers_evolve_append)
next
  case (controller_taken db k c r own)
  then show ?case by (intro controllers_upd_evolves) (auto simp: controller_evolves_def dest: wf_streamD)
next
  case (controller_saved db k c r h s)
  then show ?case by (intro controllers_upd_evolves) (auto simp: controller_evolves_def dest: wf_streamD)
next
  case (scheduler db cmd)
  note wf = wf_streamD(6) [OF scheduler.prems]
  show ?case using lsteps_evolves [OF run_command_steps [OF wf] wf]
    by (simp add: stream_evolves_def evolve_same)
qed

section \<open>Steps keep the invariant\<close>

definition plan_refs :: "stream_db \<Rightarrow> string set" where
  "plan_refs db = ew_plan_key ` set (expected_windows db) \<union> sw_plan_key ` set (stream_work_plans db)
     \<union> bc_plan_key ` set (stream_backpressure_controllers db)"

definition work_groups :: "stream_db \<Rightarrow> (string \<times> int option) set" where
  "work_groups db = (\<lambda>w. (sw_plan_key w, sw_expected_ordinal w)) ` set (stream_work_plans db)"

lemma wf_refs_iff: "wf_refs db \<longleftrightarrow> (\<forall>k \<in> plan_refs db. plan_row db k \<noteq> None)"
  unfolding wf_refs_def plan_refs_def ball_Un ball_simps by blast

lemma wf_children_iff: "wf_children db \<longleftrightarrow> (\<forall>(k, n) \<in> work_groups db. group_fixed db k n)"
  by (auto simp: wf_children_def work_groups_def)

text \<open>The references and groups of a later database are known ones or hold by themselves.\<close>

lemma wf_streamI:
  assumes "wf_stream db" and ev: "stream_evolves db db'"
    and keys: "wf_keys db'" and win: "wf_windows db'" and rows: "wf_rows db'"
    and refs: "\<And>k. k \<in> plan_refs db' \<Longrightarrow> k \<in> plan_refs db \<or> plan_row db' k \<noteq> None"
    and groups: "\<And>k n. (k, n) \<in> work_groups db' \<Longrightarrow> (k, n) \<in> work_groups db \<or> group_fixed db' k n"
    and auth: "wf_ledger (authority db')"
  shows "wf_stream db'"
proof -
  have pe: "plans_evolve db db'" "windows_evolve db db'" using ev by (simp_all add: stream_evolves_def)
  have "plan_row db' k \<noteq> None" if "k \<in> plan_refs db'" for k
  proof (cases "k \<in> plan_refs db")
    case True
    then obtain p where "plan_row db k = Some p"
      using wf_streamD(2) [OF assms(1)] by (auto simp: wf_refs_iff)
    then show ?thesis using pe(1) unfolding plans_evolve_def by fastforce
  qed (use refs [OF that] in simp)
  moreover have "group_fixed db' k n" if "(k, n) \<in> work_groups db'" for k n
    using groups [OF that] wf_streamD(5) [OF assms(1)] group_fixed_later [OF pe]
    unfolding wf_children_iff by blast
  ultimately show ?thesis
    using keys win rows auth by (auto simp: wf_stream_def wf_refs_iff wf_children_iff)
qed

lemma keys_upd:
  assumes "\<And>p. sp_plan_key (f p) = sp_plan_key p"
  shows "map sp_plan_key (stream_plans (upd_plan k f db)) = map sp_plan_key (stream_plans db)"
  using assms by (simp add: upd_plan_def map_update_where)

lemma wf_rows_iff:
  "wf_rows db \<longleftrightarrow> (\<forall>p \<in> set (stream_plans db). plan_shape p) \<and> (\<forall>w \<in> set (stream_work_plans db). work_shape w)
    \<and> (\<forall>r \<in> set (stream_backpressure_controllers db). 0 < bc_owner_fence r)"
  by (simp add: wf_rows_def list_all_iff)

lemma plan_upd_wf:
  assumes wf: "wf_stream db" and "plan_row db k = Some p" and "plan_evolves p (f p)"
    and key: "\<And>p. sp_plan_key (f p) = sp_plan_key p" and shape: "\<And>p. plan_shape p \<Longrightarrow> plan_shape (f p)"
  shows "wf_stream (upd_plan k f db)"
proof (rule wf_streamI [OF wf plan_upd_evolves [OF assms(2,3) key]])
  show "wf_keys (upd_plan k f db)"
    using wf_streamD(1) [OF wf] by (simp add: wf_keys_def keys_upd [OF key])
  show "wf_windows (upd_plan k f db)"
    using wf_streamD(3) [OF wf] views_cong(2) [of "upd_plan k f db" db] by (simp add: wf_windows_def)
  show "wf_rows (upd_plan k f db)"
    using wf_streamD(4) [OF wf] shape by (auto simp: wf_rows_iff upd_plan_def set_update_where)
qed (use wf_streamD(6) [OF wf] in \<open>simp_all add: plan_refs_def work_groups_def\<close>)

lemma works_upd_wf:
  assumes wf: "wf_stream db" and ev: "stream_evolves db (upd_works p f db)"
    and ids: "\<And>w. sw_work_item_id (f w) = sw_work_item_id w" "\<And>w. sw_work_logical_key (f w) = sw_work_logical_key w"
      "\<And>w. sw_plan_key (f w) = sw_plan_key w" "\<And>w. sw_expected_ordinal (f w) = sw_expected_ordinal w"
    and shape: "\<And>w. w \<in> set (stream_work_plans db) \<Longrightarrow> p w \<Longrightarrow> work_shape w \<Longrightarrow> work_shape (f w)"
  shows "wf_stream (upd_works p f db)"
proof (rule wf_streamI [OF wf ev])
  let ?db = "upd_works p f db"
  have rows: "stream_work_plans ?db = update_where p f (stream_work_plans db)" by (simp add: upd_works_def)
  show "wf_keys ?db"
    using wf_streamD(1) [OF wf] by (simp add: wf_keys_def rows map_update_where ids)
  show "wf_windows ?db"
    using wf_streamD(3) [OF wf] views_cong(2) [of ?db db] by (simp add: wf_windows_def)
  show "wf_rows ?db" using wf_streamD(4) [OF wf] shape by (auto simp: wf_rows_iff rows set_update_where)
  show "k \<in> plan_refs db \<or> plan_row ?db k \<noteq> None" if "k \<in> plan_refs ?db" for k
  proof -
    have "sw_plan_key ` set (stream_work_plans ?db) = sw_plan_key ` set (stream_work_plans db)"
      unfolding rows by (metis ids(3) image_set map_update_where)
    with that show ?thesis by (simp add: plan_refs_def)
  qed
  show "(k, n) \<in> work_groups db \<or> group_fixed ?db k n" if "(k, n) \<in> work_groups ?db" for k n
  proof -
    have "map (\<lambda>w. (sw_plan_key w, sw_expected_ordinal w)) (stream_work_plans ?db) =
        map (\<lambda>w. (sw_plan_key w, sw_expected_ordinal w)) (stream_work_plans db)"
      unfolding rows by (rule map_update_where) (simp add: ids)
    then have "work_groups ?db = work_groups db" unfolding work_groups_def by (metis image_set)
    with that show ?thesis by simp
  qed
qed (use wf_streamD(6) [OF wf] in simp)

lemma controllers_wf:
  assumes wf: "wf_stream db" and ev: "stream_evolves db db'"
    and same: "authority db' = authority db" "stream_plans db' = stream_plans db"
      "expected_windows db' = expected_windows db" "stream_work_plans db' = stream_work_plans db"
    and keys: "distinct (map (\<lambda>r. (bc_plan_key r, bc_controller_key r)) (stream_backpressure_controllers db'))"
    and rows: "\<And>r. r \<in> set (stream_backpressure_controllers db') \<Longrightarrow> 0 < bc_owner_fence r"
    and refs: "\<And>r. r \<in> set (stream_backpressure_controllers db') \<Longrightarrow>
      bc_plan_key r \<in> bc_plan_key ` set (stream_backpressure_controllers db) \<or> plan_row db (bc_plan_key r) \<noteq> None"
  shows "wf_stream db'"
proof (rule wf_streamI [OF wf ev])
  show "wf_keys db'" using wf_streamD(1) [OF wf] keys by (simp add: wf_keys_def same)
  show "wf_windows db'" using wf_streamD(3) [OF wf] views_cong(2) [OF same(3)] by (simp add: wf_windows_def)
  show "wf_rows db'" using wf_streamD(4) [OF wf] rows by (auto simp: wf_rows_iff same)
  show "k \<in> plan_refs db \<or> plan_row db' k \<noteq> None" if "k \<in> plan_refs db'" for k
    using that refs unfolding plan_refs_def same views_cong(1) [OF same(2)] by blast
qed (use wf_streamD(6) [OF wf] in \<open>simp_all add: same work_groups_def\<close>)

lemma new_row_sel [simp]:
  "sw_work_item_id (new_work_row k n) = nw_work_item_id n"
  "sw_work_logical_key (new_work_row k n) = nw_work_logical_key n"
  "sw_plan_key (new_work_row k n) = k" "sw_expected_ordinal (new_work_row k n) = nw_expected_ordinal n"
  "work_shape (new_work_row k n)"
  "ew_plan_key (new_window_row k w) = k" "ew_ordinal (new_window_row k w) = nwin_ordinal w"
  by (simp_all add: new_work_row_def new_window_row_def work_shape_def)

lemma plan_row_append: "plan_row db k = Some p \<Longrightarrow> stream_plans db' = stream_plans db @ ps \<Longrightarrow> plan_row db' k = Some p"
  by (simp add: plan_row_def find_row_append)

lemma wf_rows_append:
  assumes "wf_rows db" and "set (stream_plans db') \<subseteq> set (stream_plans db) \<union> {p. plan_shape p}"
    and "set (stream_work_plans db') \<subseteq> set (stream_work_plans db) \<union> {w. work_shape w}"
    and "stream_backpressure_controllers db' = stream_backpressure_controllers db"
  shows "wf_rows db'"
  using assms unfolding wf_rows_iff by auto

lemma plan_added_wf:
  assumes wf: "wf_stream db" and new: "plan_row db k = None"
    and ev: "stream_evolves db (db\<lparr>stream_plans := stream_plans db @ [new_plan k j s c]\<rparr>)"
  shows "wf_stream (db\<lparr>stream_plans := stream_plans db @ [new_plan k j s c]\<rparr>)" (is "wf_stream ?db")
proof (rule wf_streamI [OF wf ev])
  have "k \<notin> sp_plan_key ` set (stream_plans db)" using new by (auto simp: plan_row_def)
  then show "wf_keys ?db" using wf_streamD(1) [OF wf] by (simp add: wf_keys_def new_plan_def)
  show "wf_windows ?db" using wf_streamD(3) [OF wf] by (simp add: wf_windows_def windows_of_def)
  show "wf_rows ?db"
    by (rule wf_rows_append [OF wf_streamD(4) [OF wf]]) (auto simp: new_plan_def plan_shape_def)
qed (use wf_streamD(6) [OF wf] in \<open>simp_all add: plan_refs_def work_groups_def\<close>)

lemma window_appended_wf:
  assumes wf: "wf_stream db" and plan: "plan_row db k = Some p"
    and ord: "nwin_ordinal w = int (length (windows_of db k))"
    and works: "list_all (\<lambda>n. nw_expected_ordinal n = Some (nwin_ordinal w)) (nwin_work_plans w)"
    and fresh: "fresh_works db (nwin_work_plans w)"
    and ev: "stream_evolves db (db\<lparr>expected_windows := expected_windows db @ [new_window_row k w],
      stream_work_plans := stream_work_plans db @ map (new_work_row k) (nwin_work_plans w)\<rparr>)"
  shows "wf_stream (db\<lparr>expected_windows := expected_windows db @ [new_window_row k w],
      stream_work_plans := stream_work_plans db @ map (new_work_row k) (nwin_work_plans w)\<rparr>)"
    (is "wf_stream ?db")
proof (rule wf_streamI [OF wf ev])
  have win: "windows_of ?db k = windows_of db k @ [new_window_row k w]" "\<And>j. j \<noteq> k \<Longrightarrow> windows_of ?db j = windows_of db j"
    by (simp_all add: windows_of_def)
  have plan': "plan_row ?db k = Some p" using plan views_cong(1) [of ?db db] by simp
  show "wf_keys ?db"
    using wf_streamD(1) [OF wf] fresh by (simp add: wf_keys_def fresh_works_def comp_def)
  show "wf_windows ?db"
    unfolding wf_windows_def
  proof
    fix j show "map ew_ordinal (windows_of ?db j) = map int [0..<length (windows_of ?db j)]"
      using spec [OF wf_streamD(3) [OF wf, unfolded wf_windows_def], of j] win ord by (cases "j = k") simp_all
  qed
  show "wf_rows ?db" by (rule wf_rows_append [OF wf_streamD(4) [OF wf]]) auto
  show "j \<in> plan_refs db \<or> plan_row ?db j \<noteq> None" if "j \<in> plan_refs ?db" for j
    using that plan' by (auto simp: plan_refs_def)
  have "nwin_ordinal w \<in> ew_ordinal ` set (windows_of ?db k)" using win(1) by simp
  then have "group_fixed ?db k (Some (nwin_ordinal w))"
    unfolding group_fixed_def by (simp add: window_row_some del: not_None_eq)
  then show "(j, n) \<in> work_groups db \<or> group_fixed ?db j n" if "(j, n) \<in> work_groups ?db" for j n
    using that works by (auto simp: work_groups_def list_all_iff)
qed (use wf_streamD(6) [OF wf] in simp)

lemma plan_sealed_wf:
  assumes wf: "wf_stream db" and plan: "plan_row db k = Some p" and eos: "sp_planner_eos_sha256 p \<noteq> None"
    and none: "nw_expected_ordinal f = None" and fresh: "fresh_works db [f]"
    and ev: "stream_evolves db ((upd_plan k (\<lambda>p. p\<lparr>sp_seal_json := Some s\<rparr>) db)
      \<lparr>stream_work_plans := stream_work_plans db @ [new_work_row k f]\<rparr>)"
  shows "wf_stream ((upd_plan k (\<lambda>p. p\<lparr>sp_seal_json := Some s\<rparr>) db)
      \<lparr>stream_work_plans := stream_work_plans db @ [new_work_row k f]\<rparr>)" (is "wf_stream ?db")
proof (rule wf_streamI [OF wf ev])
  let ?f = "\<lambda>p. p\<lparr>sp_seal_json := Some s\<rparr>"
  have same: "stream_plans ?db = stream_plans (upd_plan k ?f db)" by simp
  have plan': "plan_row ?db k = Some (?f p)"
    using plan_row_upd [of ?f k db k] views_cong(1) [OF same] plan by simp
  show "wf_keys ?db"
    using wf_streamD(1) [OF wf] fresh unfolding wf_keys_def fresh_works_def same keys_upd [of ?f, simplified]
    by simp
  show "wf_windows ?db"
    using wf_streamD(3) [OF wf] views_cong(2) [of ?db db] by (simp add: wf_windows_def)
  have only: "q = p" if "q \<in> set (stream_plans db)" "sp_plan_key q = k" for q
    using find_row_key [of sp_plan_key "stream_plans db" q] wf_streamD(1) [OF wf] that plan
    by (simp add: wf_keys_def plan_row_def)
  have shape: "\<forall>q \<in> set (stream_plans db). plan_shape q" using wf_streamD(4) [OF wf] by (simp add: wf_rows_iff)
  have "plan_shape q'" if q': "q' \<in> set (stream_plans ?db)" for q'
  proof -
    obtain q where q: "q \<in> set (stream_plans db)" "q' = (if sp_plan_key q = k then ?f q else q)"
      using q' by (auto simp: upd_plan_def set_update_where)
    with only [OF q(1)] shape eos show ?thesis by (auto simp: plan_shape_def)
  qed
  then show "wf_rows ?db" by (intro wf_rows_append [OF wf_streamD(4) [OF wf]]) auto
  show "j \<in> plan_refs db \<or> plan_row ?db j \<noteq> None" if "j \<in> plan_refs ?db" for j
    using that plan' by (auto simp: plan_refs_def)
  have "group_fixed ?db k None" using plan' by (simp add: group_fixed_def sealed_def)
  then show "(j, n) \<in> work_groups db \<or> group_fixed ?db j n" if "(j, n) \<in> work_groups ?db" for j n
    using that none by (auto simp: work_groups_def)
qed (use wf_streamD(6) [OF wf] in simp)

lemma set_member_wf:
  assumes "wf_stream db" and "stream_evolves db (set_member db w m n)"
  shows "wf_stream (set_member db w m n)"
proof (cases "\<exists>x j. m = Some x \<and> n = Some j")
  case False
  then have "set_member db w m n = db" by (auto simp: set_member_def split: option.splits)
  then show ?thesis using assms(1) by simp
next
  case True
  then obtain x j where db: "set_member db w m n = upd_windows (\<lambda>v. ew_plan_key v = sw_plan_key w \<and> ew_ordinal v = j)
      (\<lambda>v. v\<lparr>ew_terminal_member_json := Some x\<rparr>) db" (is "_ = upd_windows ?p ?f db")
    by (auto simp: set_member_def)
  show ?thesis
  proof (rule wf_streamI [OF assms])
    have "map ew_plan_key (expected_windows (set_member db w m n)) = map ew_plan_key (expected_windows db)"
      unfolding db by (simp add: upd_windows_def map_update_where)
    then have keys: "ew_plan_key ` set (expected_windows (set_member db w m n)) = ew_plan_key ` set (expected_windows db)"
      by (metis image_set)
    show "k \<in> plan_refs db \<or> plan_row (set_member db w m n) k \<noteq> None" if "k \<in> plan_refs (set_member db w m n)" for k
      using that by (simp add: plan_refs_def keys)
    have "map ew_ordinal (windows_of (set_member db w m n) k) = map ew_ordinal (windows_of db k)
        \<and> length (windows_of (set_member db w m n) k) = length (windows_of db k)" for k
      unfolding db by (simp add: windows_of_upd map_update_where length_update_where)
    then show "wf_windows (set_member db w m n)"
      using wf_streamD(3) [OF assms(1)] by (simp add: wf_windows_def)
  qed (use wf_streamD [OF assms(1)] in \<open>simp_all add: wf_keys_def wf_rows_def work_groups_def\<close>)
qed

lemma set_member_evolves:
  assumes "wf_windows db" and "check_member db row m n = Inr u"
  shows "stream_evolves db (set_member db row m n)"
  using set_member_windows [OF assms refl]
  by (simp add: stream_evolves_def plans_evolve_same works_evolve_same children_evolve_same controllers_evolve_same)

lemma pending_accepted_wf:
  assumes wf: "wf_stream db" and "work_row db i = Some w" and "sw_terminal_evidence_json w = None"
    and member: "check_member db w m n = Inr ()"
  shows "wf_stream (set_member (upd_works (\<lambda>w. sw_work_item_id w = i) promote_pending db) w m n)"
proof -
  let ?db = "upd_works (\<lambda>w. sw_work_item_id w = i) promote_pending db"
  have "stream_evolves db ?db"
    using pending_accepted_evolves [OF assms(1-3), of None n] by (simp add: check_member_def set_member_def)
  then have wf': "wf_stream ?db"
    by (rule works_upd_wf [OF wf]) (auto simp: promote_pending_def work_shape_def)
  have "check_member ?db w m n = Inr ()"
    using member views_cong(2) [of ?db db] by (simp add: check_member_Inr window_row_of)
  from set_member_evolves [OF wf_streamD(3) [OF wf'] this] show ?thesis by (rule set_member_wf [OF wf'])
qed

lemma plan_closed_wf:
  assumes wf: "wf_stream db" and "plan_row db k = Some p" and "sp_terminal_closure_json p \<in> {None, Some c}"
  shows "wf_stream (upd_works
    (\<lambda>w. sw_plan_key w = k \<and> sw_stage w = st \<and> sw_publication_state w = GATED)
    (\<lambda>w. w\<lparr>sw_publication_state := PENDING\<rparr>)
    (upd_plan k (\<lambda>p. p\<lparr>sp_terminal_closure_json := Some c\<rparr>) db))" (is "wf_stream (upd_works ?p ?g (upd_plan k ?f db))")
proof -
  let ?db = "upd_plan k ?f db"
  have wf': "wf_stream ?db"
    by (rule plan_upd_wf [OF assms(1,2)]) (use assms(3) in \<open>auto simp: plan_evolves_def kept_def plan_shape_def\<close>)
  have "plan_row ?db k = Some (?f p)" using plan_row_upd [of ?f k db k] assms(2) by simp
  then have "stream_evolves ?db (upd_works ?p ?g (upd_plan k ?f ?db))" by (rule plan_closed_evolves) simp
  moreover have "upd_plan k ?f ?db = ?db" by (simp add: upd_plan_def update_where_def)
  ultimately show ?thesis
    by (intro works_upd_wf [OF wf']) (auto simp: work_shape_def)
qed

lemma controllers_upd_wf:
  assumes wf: "wf_stream db" and "controller_row db k c = Some r" and "controller_evolves r (f r)"
    and keys: "\<And>r. bc_plan_key (f r) = bc_plan_key r" "\<And>r. bc_controller_key (f r) = bc_controller_key r"
  shows "wf_stream (upd_controllers (\<lambda>x. bc_plan_key x = k \<and> bc_controller_key x = c) f db)" (is "wf_stream ?db")
proof (rule controllers_wf [OF wf controllers_upd_evolves [OF wf_streamD(1) [OF wf] assms(2-5)]])
  let ?p = "\<lambda>x. bc_plan_key x = k \<and> bc_controller_key x = c"
  have rows: "stream_backpressure_controllers ?db = update_where ?p f (stream_backpressure_controllers db)"
    by (simp add: upd_controllers_def)
  show "distinct (map (\<lambda>r. (bc_plan_key r, bc_controller_key r)) (stream_backpressure_controllers ?db))"
    using wf_streamD(1) [OF wf] by (simp add: rows map_update_where keys wf_keys_def)
  have old: "0 < bc_owner_fence v" if "v \<in> set (stream_backpressure_controllers db)" for v
    using wf_streamD(4) [OF wf] that by (simp add: wf_rows_iff)
  fix x assume "x \<in> set (stream_backpressure_controllers ?db)"
  then obtain v where v: "v \<in> set (stream_backpressure_controllers db)" "x = (if ?p v then f v else v)"
    by (auto simp: rows set_update_where)
  show "0 < bc_owner_fence x"
    using old [OF v(1)] unique_controller [OF wf_streamD(1) [OF wf] assms(2) v(1)] assms(3) v(2)
    by (auto simp: controller_evolves_def)
  show "bc_plan_key x \<in> bc_plan_key ` set (stream_backpressure_controllers db) \<or> plan_row db (bc_plan_key x) \<noteq> None"
    using v keys(1) by auto
qed simp_all

lemma controller_added_wf:
  assumes wf: "wf_stream db" and plan: "plan_row db k = Some p" and new: "controller_row db k c = None"
    and r: "bc_plan_key r = k" "bc_controller_key r = c" "0 < bc_owner_fence r"
    and ev: "stream_evolves db (db\<lparr>stream_backpressure_controllers := stream_backpressure_controllers db @ [r]\<rparr>)"
  shows "wf_stream (db\<lparr>stream_backpressure_controllers := stream_backpressure_controllers db @ [r]\<rparr>)"
proof (rule controllers_wf [OF wf ev])
  have "(k, c) \<notin> (\<lambda>r. (bc_plan_key r, bc_controller_key r)) ` set (stream_backpressure_controllers db)"
    using new by (auto simp: controller_row_def)
  then show "distinct (map (\<lambda>r. (bc_plan_key r, bc_controller_key r))
      (stream_backpressure_controllers (db\<lparr>stream_backpressure_controllers := stream_backpressure_controllers db @ [r]\<rparr>)))"
    using wf_streamD(1) [OF wf] r by (simp add: wf_keys_def)
  have "\<forall>v \<in> set (stream_backpressure_controllers db). 0 < bc_owner_fence v"
    using wf_streamD(4) [OF wf] by (simp add: wf_rows_iff)
  then show "0 < bc_owner_fence v"
    if "v \<in> set (stream_backpressure_controllers (db\<lparr>stream_backpressure_controllers := stream_backpressure_controllers db @ [r]\<rparr>))" for v
    using that r(3) by auto
  show "bc_plan_key v \<in> bc_plan_key ` set (stream_backpressure_controllers db) \<or> plan_row db (bc_plan_key v) \<noteq> None"
    if "v \<in> set (stream_backpressure_controllers (db\<lparr>stream_backpressure_controllers := stream_backpressure_controllers db @ [r]\<rparr>))" for v
    using that plan r(1) by auto
qed simp_all

lemma step_wf:
  assumes "sstep db db'" and "wf_stream db"
  shows "wf_stream db'"
  using assms step_evolves [OF assms]
proof (induction rule: sstep.induct)
  case (plan_added db k j s c)
  then show ?case by (intro plan_added_wf)
next
  case (eos_set db k p d)
  then show ?case by (intro plan_upd_wf) (auto simp: plan_evolves_def kept_def plan_shape_def)
next
  case (exported db k p m n)
  have "plan_shape p"
    using plan_rowD(1) [OF exported.hyps(1)] wf_streamD(4) [OF exported.prems(1)] by (auto simp: wf_rows_iff)
  with exported.hyps exported.prems(1) show ?case
    by (intro plan_upd_wf) (auto simp: plan_evolves_def plan_shape_def kept_def)
next
  case (window_appended db k p w)
  then show ?case by (intro window_appended_wf)
next
  case (plan_sealed db k p f s)
  then show ?case by (intro plan_sealed_wf)
next
  case (plan_closed db k p c st)
  then show ?case by (intro plan_closed_wf)
next
  case (work_published db q)
  then show ?case by (intro works_upd_wf) (auto simp: publish_row_def work_shape_def)
next
  case (pending_stored db i w epoch payload token)
  have "sw_terminal_evidence_json v = None" if "v \<in> set (stream_work_plans db)" "sw_work_item_id v = i" for v
    using unique_work [OF wf_streamD(1) [OF pending_stored.prems(1)] pending_stored.hyps(1) that]
      pending_stored.hyps(2) by simp
  with pending_stored.prems show ?case by (intro works_upd_wf) (auto simp: set_pending_def work_shape_def)
next
  case (pending_accepted db i w payload m n)
  then show ?case by (intro pending_accepted_wf)
next
  case (controller_added db k p c v own s)
  show ?case by (rule controller_added_wf [OF controller_added.prems(1) controller_added.hyps _ _ _ controller_added.prems(2)]) simp_all
next
  case (controller_taken db k c r own)
  then show ?case by (intro controllers_upd_wf) (auto simp: controller_evolves_def)
next
  case (controller_saved db k c r h s)
  then show ?case by (intro controllers_upd_wf) (auto simp: controller_evolves_def)
next
  case (scheduler db cmd)
  note wf = wf_streamD(6) [OF scheduler.prems(1)]
  show ?case using scheduler.prems wf_streamD [OF scheduler.prems(1)] lsteps_wf [OF run_command_steps [OF wf] wf]
    by (intro wf_streamI [OF scheduler.prems])
      (simp_all add: wf_keys_def wf_windows_def windows_of_def wf_rows_def plan_refs_def work_groups_def)
qed

lemma steps_wf: "ssteps db db' \<Longrightarrow> wf_stream db \<Longrightarrow> wf_stream db'"
  by (induction rule: rtranclp_induct) (auto intro: step_wf)

lemma steps_evolves: "ssteps db db' \<Longrightarrow> wf_stream db \<Longrightarrow> stream_evolves db db'"
proof (induction rule: rtranclp_induct)
  case base
  show ?case by simp
next
  case (step y z)
  from step_evolves [OF step.hyps(2) steps_wf [OF step.hyps(1) step.prems]] step.IH [OF step.prems]
  show ?case by (metis stream_evolves_trans)
qed

lemma wf_empty_stream: "wf_stream empty_stream_db"
  using wf_empty
  by (simp add: wf_stream_def wf_keys_def wf_refs_def wf_windows_def windows_of_def wf_rows_def wf_children_def
      empty_stream_db_def)

end
