(* ===== verification/Stream_Refinement.thy ===== *)
theory Stream_Refinement
  imports Stream_Evolution
begin

text \<open>
  Every call of the stream ledger, returning or raising, is a run of the machine of
  \<open>Stream_Machine\<close>. The one condition on the caller: the finalization work that is stored
  with a seal carries no window ordinal, as in the only call site,
  \<^verbatim>\<open>seal_expected_plan\<close> of \<^verbatim>\<open>src/robata/application/canonical/stream_scheduler.py\<close>.
\<close>

section \<open>Insertions\<close>

lemma insert_work_Inr:
  "insert_work k n db = Inr db' \<longleftrightarrow>
    db' = db\<lparr>stream_work_plans := stream_work_plans db @ [new_work_row k n]\<rparr> \<and> plan_row db k \<noteq> None
    \<and> nw_work_item_id n \<notin> sw_work_item_id ` set (stream_work_plans db)
    \<and> nw_work_logical_key n \<notin> sw_work_logical_key ` set (stream_work_plans db)"
  by (force simp: insert_work_def list_ex_iff image_iff)

lemma insert_works_Inr:
  assumes "fold_res (insert_work k) ns db = Inr db'"
  shows "db' = db\<lparr>stream_work_plans := stream_work_plans db @ map (new_work_row k) ns\<rparr>
    \<and> (wf_keys db \<longrightarrow> fresh_works db ns)"
  using assms
proof (induction ns arbitrary: db)
  case Nil
  then show ?case by (simp add: fresh_works_def wf_keys_def)
next
  case (Cons n ns)
  let ?db = "db\<lparr>stream_work_plans := stream_work_plans db @ [new_work_row k n]\<rparr>"
  have ins: "insert_work k n db = Inr ?db" "fold_res (insert_work k) ns ?db = Inr db'"
    using Cons.prems by (auto simp: rbind_Inr_iff insert_work_Inr)
  have IH: "db' = ?db\<lparr>stream_work_plans := stream_work_plans ?db @ map (new_work_row k) ns\<rparr>"
    "wf_keys ?db \<longrightarrow> fresh_works ?db ns"
    using Cons.IH [OF ins(2)] by blast+
  have "wf_keys ?db" if "wf_keys db" using that ins(1) unfolding insert_work_Inr by (simp add: wf_keys_def)
  then show ?case using IH by (auto simp: fresh_works_def)
qed

definition with_windows :: "string \<Rightarrow> NewStreamWindow list \<Rightarrow> stream_db \<Rightarrow> stream_db" where
  "with_windows k ws db = db\<lparr>expected_windows := expected_windows db @ map (new_window_row k) ws,
     stream_work_plans := stream_work_plans db @ concat (map (\<lambda>w. map (new_work_row k) (nwin_work_plans w)) ws)\<rparr>"

lemma insert_window_and_works_Inr:
  assumes "insert_window_and_works k (w, True) db = Inr db'" and "wf_keys db"
  shows "db' = with_windows k [w] db" and "fresh_works db (nwin_work_plans w)"
proof -
  let ?db = "db\<lparr>expected_windows := expected_windows db @ [new_window_row k w]\<rparr>"
  have "fold_res (insert_work k) (nwin_work_plans w) ?db = Inr db'"
    using assms(1) by (auto simp: insert_window_and_works_def insert_window_def rbind_Inr_iff split: if_splits)
  from insert_works_Inr [OF this] assms(2)
  show "db' = with_windows k [w] db" "fresh_works db (nwin_work_plans w)"
    by (auto simp: with_windows_def wf_keys_def fresh_works_def)
qed

lemma with_windows_Cons: "with_windows k (w # ws) db = with_windows k ws (with_windows k [w] db)"
  by (simp add: with_windows_def)

lemma insert_windows_steps:
  assumes "fold_res (\<lambda>w. insert_window_and_works k (w, True)) ws db = Inr db'"
    and "wf_stream db" and "plan_row db k = Some p" and "sp_planner_eos_sha256 p = None" and "sp_seal_json p = None"
    and "map nwin_ordinal ws = map int [length (windows_of db k)..<length (windows_of db k) + length ws]"
    and "\<And>w. w \<in> set ws \<Longrightarrow> list_all (\<lambda>n. nw_expected_ordinal n = Some (nwin_ordinal w)) (nwin_work_plans w)"
  shows "db' = with_windows k ws db \<and> ssteps db db'"
  using assms
proof (induction ws arbitrary: db)
  case Nil
  then show ?case by (simp add: with_windows_def)
next
  case (Cons w ws)
  let ?db = "with_windows k [w] db"
  obtain db1 where db1: "insert_window_and_works k (w, True) db = Inr db1"
    "fold_res (\<lambda>w. insert_window_and_works k (w, True)) ws db1 = Inr db'"
    using Cons.prems(1) by (auto simp: rbind_Inr_iff)
  note ins = insert_window_and_works_Inr [OF db1(1) wf_streamD(1) [OF Cons.prems(2)]]
  have ord: "nwin_ordinal w = int (length (windows_of db k))"
    "map nwin_ordinal ws = map int [Suc (length (windows_of db k))..<Suc (length (windows_of db k)) + length ws]"
    using Cons.prems(6) by (simp_all add: upt_conv_Cons del: upt_Suc)
  have step: "sstep db ?db"
    using sstep.window_appended [OF Cons.prems(3-5) ord(1) Cons.prems(7) ins(2)] by (simp add: with_windows_def)
  have next_row: "plan_row ?db k = Some p" "length (windows_of ?db k) = Suc (length (windows_of db k))"
    using Cons.prems(3) by (simp_all add: plan_row_def windows_of_def with_windows_def)
  have "db' = with_windows k ws ?db \<and> ssteps ?db db'"
    by (rule Cons.IH [OF db1(2) [unfolded ins(1)] step_wf [OF step Cons.prems(2)] next_row(1) Cons.prems(4,5)])
      (use ord(2) next_row(2) Cons.prems(7) in \<open>simp_all del: upt_Suc\<close>)
  then show ?case using step with_windows_Cons [of k w ws db] by (metis converse_rtranclp_into_rtranclp)
qed

section \<open>The scan of a batch\<close>

definition new_windows :: "NewStreamWindow list \<Rightarrow> bool list \<Rightarrow> NewStreamWindow list" where
  "new_windows ws flags = map fst (filter snd (zip ws flags))"

lemma new_windows_simps [simp]:
  "new_windows [] fs = []" "new_windows (w # ws) (f # fs) = (if f then w # new_windows ws fs else new_windows ws fs)"
  by (simp_all add: new_windows_def)

lemma new_windows_subset: "set (new_windows ws fs) \<subseteq> set ws"
  by (auto simp: new_windows_def dest: set_zip_leftD)

lemma fold_new_windows:
  assumes "length fs = length ws"
  shows "fold_res (insert_window_and_works k) (zip ws fs) db =
    fold_res (\<lambda>w. insert_window_and_works k (w, True)) (new_windows ws fs) db"
  using assms [symmetric]
proof (induction ws fs arbitrary: db rule: list_induct2)
  case Nil
  show ?case by simp
next
  case (Cons w ws f fs)
  have "fold_res (insert_window_and_works k) (zip ws fs) =
      fold_res (\<lambda>w. insert_window_and_works k (w, True)) (new_windows ws fs)"
    by (rule ext) (rule Cons.IH)
  moreover have "insert_window_and_works k (w, False) db = Inr db" by (simp add: insert_window_and_works_def)
  ultimately show ?case by (cases f) simp_all
qed

text \<open>What a scan that returns has found, window by window.\<close>

definition scanned :: "stream_db \<Rightarrow> string \<Rightarrow> StoredStreamPlan \<Rightarrow> NewStreamWindow \<Rightarrow> bool \<Rightarrow> bool" where
  "scanned db k p w f \<longleftrightarrow>
     (if f then window_row db k (nwin_ordinal w) = None \<and> sp_planner_eos_sha256 p = None \<and> sp_seal_json p = None
      else \<exists>r. window_row db k (nwin_ordinal w) = Some r \<and> ew_declaration_json r = nwin_declaration_json w
        \<and> ew_window_json r = nwin_window_json w
        \<and> verify_existing_work_rows db k (Some (nwin_ordinal w)) (nwin_work_plans w) = Inr ())"

lemma scan_window_Inr:
  "scan_window db k p w s = Inr t \<longleftrightarrow>
    (\<exists>f. scanned db k p w f \<and> snd t = snd s @ [f]
      \<and> (if f then fst s = nwin_ordinal w \<and> fst t = fst s + 1 else fst t = fst s))"
  by (cases t) (auto simp: scan_window_def scanned_def rbind_Inr_iff ex_bool_eq split: option.splits if_splits)

lemma scan_Inr:
  assumes "fold_res (scan_window db k p) ws (int n, fs) = Inr t"
  shows "\<exists>flags. snd t = fs @ flags \<and> list_all2 (scanned db k p) ws flags
    \<and> map nwin_ordinal (new_windows ws flags) = map int [n..<n + length (new_windows ws flags)]"
  using assms
proof (induction ws arbitrary: n fs)
  case Nil
  then show ?case by auto
next
  case (Cons w ws)
  obtain s where s: "scan_window db k p w (int n, fs) = Inr s" "fold_res (scan_window db k p) ws s = Inr t"
    using Cons.prems by (auto simp: rbind_Inr_iff)
  obtain f where f: "scanned db k p w f" "snd s = fs @ [f]"
    "if f then int n = nwin_ordinal w \<and> fst s = int n + 1 else fst s = int n"
    using s(1) unfolding scan_window_Inr by (metis fst_conv snd_conv)
  have "s = (int (if f then Suc n else n), fs @ [f])" using f(2,3) by (cases s) (auto split: if_splits)
  from Cons.IH [OF s(2) [unfolded this]] obtain flags where IH: "snd t = (fs @ [f]) @ flags"
    "list_all2 (scanned db k p) ws flags"
    "map nwin_ordinal (new_windows ws flags) =
      map int [(if f then Suc n else n)..<(if f then Suc n else n) + length (new_windows ws flags)]" by blast
  show ?case
    by (rule exI [of _ "f # flags"]) (use IH f in \<open>auto simp: upt_conv_Cons simp del: upt_Suc split: if_splits\<close>)
qed

lemma next_ordinal_count:
  assumes "wf_windows db"
  shows "next_ordinal db k = int (length (windows_of db k))"
proof -
  have ords: "map ew_ordinal (filter (\<lambda>w. ew_plan_key w = k) (expected_windows db)) = map int [0..<length (windows_of db k)]"
    using spec [OF assms [unfolded wf_windows_def], of k] by (simp add: windows_of_def)
  have case_max: "(case xs of [] \<Rightarrow> 0 | n # ns \<Rightarrow> Max (set (n # ns)) + 1) = (if xs = [] then 0 else Max (set xs) + 1)"
    for xs :: "int list" by (cases xs) auto
  have "Max (int ` {0..<Suc m}) = int m" for m by (rule Max_eqI) auto
  then show ?thesis
    unfolding next_ordinal_def ords case_max by (cases "length (windows_of db k)") (simp_all del: upt_Suc)
qed

text \<open>The batch checks.\<close>

lemma validate_windows_Inr:
  "fold_res (\<lambda>w _. validate_window w) ws u = Inr u' \<Longrightarrow> w \<in> set ws \<Longrightarrow> validate_window w = Inr ()"
  by (induction ws arbitrary: u) (auto simp: rbind_Inr_iff)

lemma validate_batch_Inr:
  assumes "validate_batch ws c v = Inr u" and "w \<in> set ws"
  shows "0 \<le> nwin_ordinal w" and "list_all (\<lambda>n. nw_expected_ordinal n = Some (nwin_ordinal w)) (nwin_work_plans w)"
proof -
  have "validate_window w = Inr ()"
    using assms validate_windows_Inr [of ws "()" "()" w] by (auto simp: validate_batch_def rbind_Inr_iff)
  then show "0 \<le> nwin_ordinal w" "list_all (\<lambda>n. nw_expected_ordinal n = Some (nwin_ordinal w)) (nwin_work_plans w)"
    by (auto simp: validate_window_def list_ex_iff list_all_iff split: if_splits)
qed

lemma batch_ordinals:
  assumes "validate_batch ws c v = Inr u"
  shows "distinct (map nwin_ordinal ws)" "sorted (map nwin_ordinal ws)"
proof -
  have "distinct (map nwin_ordinal ws) \<and> map nwin_ordinal ws = sort (map nwin_ordinal ws)"
    using assms by (auto simp: validate_batch_def rbind_Inr_iff Let_def split: if_splits)
  then show "distinct (map nwin_ordinal ws)" "sorted (map nwin_ordinal ws)" by (metis sorted_sort)+
qed

lemma append_in_transaction_Inr:
  assumes "append_in_transaction k ws c v db = Inr (db', flags)" and wf: "wf_stream db"
    and works: "\<And>w. w \<in> set ws \<Longrightarrow> list_all (\<lambda>n. nw_expected_ordinal n = Some (nwin_ordinal w)) (nwin_work_plans w)"
  obtains p where "plan_row db k = Some p" "list_all2 (scanned db k p) ws flags"
    "db' = with_windows k (new_windows ws flags) db" "ssteps db db'"
proof -
  obtain p where p: "plan_row db k = Some p" using assms(1) by (auto simp: append_in_transaction_def split: option.splits)
  obtain s where s: "fold_res (scan_window db k p) ws (int (length (windows_of db k)), []) = Inr s" "flags = snd s"
    "fold_res (insert_window_and_works k) (zip ws flags) db = Inr db'"
    using assms(1) p next_ordinal_count [OF wf_streamD(3) [OF wf]]
    by (auto simp: append_in_transaction_def rbind_Inr_iff)
  have scan: "list_all2 (scanned db k p) ws flags"
    "map nwin_ordinal (new_windows ws flags) =
      map int [length (windows_of db k)..<length (windows_of db k) + length (new_windows ws flags)]"
    using scan_Inr [OF s(1)] s(2) by auto
  have ins: "fold_res (\<lambda>w. insert_window_and_works k (w, True)) (new_windows ws flags) db = Inr db'"
    using s(3) fold_new_windows [OF list_all2_lengthD [OF scan(1), symmetric]] by simp
  show thesis
  proof (cases "new_windows ws flags = []")
    case True
    then have "db' = db" using ins by simp
    then show thesis using that [OF p scan(1)] True by (simp add: with_windows_def)
  next
    case False
    then obtain i where i: "i < length ws" "flags ! i"
      using scan(1) by (auto simp: new_windows_def filter_empty_conv in_set_zip list_all2_lengthD)
    then have "scanned db k p (ws ! i) True" using scan(1) by (metis (full_types) list_all2_nthD)
    then have "sp_planner_eos_sha256 p = None" "sp_seal_json p = None" by (simp_all add: scanned_def)
    from insert_windows_steps [OF ins wf p this scan(2)] works new_windows_subset [of ws flags]
    show thesis using that [OF p scan(1)] by blast
  qed
qed

section \<open>Every call refines the machine\<close>

lemma run_write_steps:
  assumes "\<And>db' a. operation db = Inr (db', a) \<Longrightarrow> ssteps db db'"
  shows "ssteps db (fst (run_write operation db))"
  using assms by (auto simp: run_write_def split: sum.splits)

lemma run_write_Inr:
  "run_write operation db = (db', Inr a) \<longleftrightarrow> operation db = Inr (db', a)"
  by (auto simp: run_write_def split: sum.splits)

lemma append_steps:
  assumes "wf_stream db"
  shows "ssteps db (fst (append_windows k ws c v db))"
proof (cases "validate_batch ws c v")
  case (Inl e)
  then show ?thesis by (simp add: append_windows_def)
next
  case (Inr u)
  have "ssteps db (fst (run_write (append_in_transaction k ws c v) db))"
    by (rule run_write_steps) (blast elim: append_in_transaction_Inr [OF _ assms validate_batch_Inr(2) [OF Inr]])
  then show ?thesis using Inr by (simp add: append_windows_def)
qed

lemma register_steps: "ssteps db (fst (register_plan k j s c db))"
  unfolding register_plan_def
  by (rule run_write_steps) (auto split: option.splits if_splits intro!: sstep.plan_added)

lemma upd_controllers_cong:
  assumes "\<And>r. r \<in> set (stream_backpressure_controllers db) \<Longrightarrow> p r \<longleftrightarrow> q r"
  shows "upd_controllers p f db = upd_controllers q f db"
  using assms by (simp add: upd_controllers_def update_where_def cong: map_cong)

lemma claim_controller_steps:
  assumes "wf_stream db"
  shows "ssteps db (fst (claim_backpressure_controller k c v own s db))"
proof -
  note keys = wf_streamD(1) [OF assms]
  have "ssteps db db'" if t: "claim_controller_in_transaction k c v own s db = Inr (db', a)" for db' a
  proof (cases "controller_row db k c")
    case None
    then obtain p where "plan_row db k = Some p"
      using t by (auto simp: claim_controller_in_transaction_def split: if_splits)
    from sstep.controller_added [OF this None] show ?thesis
      using t None by (auto simp: claim_controller_in_transaction_def Let_def split: if_splits)
  next
    case (Some r)
    show ?thesis
    proof (cases "bc_owner_id r = own")
      case True
      then show ?thesis using t Some
        by (auto simp: claim_controller_in_transaction_def split: if_splits)
    next
      case False
      have "upd_controllers (\<lambda>x. bc_plan_key x = k \<and> bc_controller_key x = c \<and> bc_owner_fence x = bc_owner_fence r) f db =
          upd_controllers (\<lambda>x. bc_plan_key x = k \<and> bc_controller_key x = c) f db" for f
        by (rule upd_controllers_cong) (use unique_controller [OF keys Some] in auto)
      with False t Some have "db' = upd_controllers (\<lambda>x. bc_plan_key x = k \<and> bc_controller_key x = c)
          (\<lambda>x. x\<lparr>bc_owner_id := own, bc_owner_fence := bc_owner_fence r + 1\<rparr>) db"
        by (auto simp: claim_controller_in_transaction_def Let_def split: if_splits)
      then show ?thesis using sstep.controller_taken [OF Some False] by auto
    qed
  qed
  then have "ssteps db (fst (run_write (claim_controller_in_transaction k c v own s) db))"
    by (rule run_write_steps)
  then show ?thesis unfolding claim_backpressure_controller_def by (simp split: sum.splits)
qed

lemma save_controller_steps:
  assumes "wf_stream db"
  shows "ssteps db (fst (save_backpressure_controller h s db))"
proof -
  have "ssteps db (upd_controllers (controller_fence_matches h) (\<lambda>r. r\<lparr>bc_state_json := s\<rparr>) db)"
    if "rowcount (controller_fence_matches h) (stream_backpressure_controllers db) = 1"
  proof -
    let ?k = "bc_plan_key h" and ?c = "bc_controller_key h"
    obtain r where r: "r \<in> set (stream_backpressure_controllers db)" "controller_fence_matches h r"
      using rowcount_pos [of "controller_fence_matches h" "stream_backpressure_controllers db"] \<open>rowcount _ _ = 1\<close> by auto
    have row: "controller_row db ?k ?c = Some r"
      using find_row_key [of "\<lambda>r. (bc_plan_key r, bc_controller_key r)" "stream_backpressure_controllers db" r]
        r wf_streamD(1) [OF assms] by (simp add: wf_keys_def controller_row_def controller_fence_matches_def)
    have "upd_controllers (controller_fence_matches h) f db =
        upd_controllers (\<lambda>x. bc_plan_key x = ?k \<and> bc_controller_key x = ?c) f db" for f
    proof (rule upd_controllers_cong)
      fix x assume x: "x \<in> set (stream_backpressure_controllers db)"
      show "controller_fence_matches h x \<longleftrightarrow> bc_plan_key x = ?k \<and> bc_controller_key x = ?c"
        using unique_controller [OF wf_streamD(1) [OF assms] row x] r(2) by (auto simp: controller_fence_matches_def)
    qed
    then show ?thesis using sstep.controller_saved [OF row r(2), of s] by simp
  qed
  then have "ssteps db (fst (run_write (\<lambda>db.
      if rowcount (controller_fence_matches h) (stream_backpressure_controllers db) \<noteq> 1
      then Inl (Authority_error (WorkFenceError ''backpressure controller fence is stale''))
      else Inr (upd_controllers (controller_fence_matches h) (\<lambda>r. r\<lparr>bc_state_json := s\<rparr>) db,
        h\<lparr>bc_state_json := s\<rparr>)) db))"
    by (intro run_write_steps) (auto split: if_splits)
  then show ?thesis unfolding save_backpressure_controller_def by (simp split: sum.splits)
qed

lemma eos_steps: "ssteps db (fst (set_planner_eos k d db))"
  unfolding set_planner_eos_def
  by (rule run_write_steps) (auto split: option.splits if_splits intro!: sstep.eos_set)

lemma export_steps: "ssteps db (fst (mark_export_barrier k m n db))"
  unfolding mark_export_barrier_def
  by (rule run_write_steps) (auto split: option.splits if_splits intro!: sstep.exported)

lemma seal_in_transaction_Inr:
  assumes "seal_in_transaction k s ds f db = Inr (db', b)"
  obtains p where "plan_row db k = Some p" "sp_planner_eos_sha256 p \<noteq> None"
    "map ew_declaration_json (declaration_rows db k) = ds"
    "b \<Longrightarrow> sp_seal_json p = None \<and> insert_work k f (upd_plan k (\<lambda>p. p\<lparr>sp_seal_json := Some s\<rparr>) db) = Inr db'"
    "\<not> b \<Longrightarrow> sp_seal_json p = Some s \<and> db' = db \<and> verify_existing_work_rows db k None [f] = Inr ()"
  using assms by (auto simp: seal_in_transaction_def rbind_Inr_iff split: option.splits if_splits)

lemma seal_steps:
  assumes "wf_stream db" and none: "nw_expected_ordinal f = None"
  shows "ssteps db (fst (store_seal_and_finalization k s ds f db))"
  unfolding store_seal_and_finalization_def
proof (rule run_write_steps)
  fix db' b assume "seal_in_transaction k s ds f db = Inr (db', b)"
  then show "ssteps db db'"
  proof (cases rule: seal_in_transaction_Inr)
    case (1 p)
    show ?thesis
    proof (cases b)
      case True
      let ?db = "upd_plan k (\<lambda>p. p\<lparr>sp_seal_json := Some s\<rparr>) db"
      have ins: "db' = ?db\<lparr>stream_work_plans := stream_work_plans db @ [new_work_row k f]\<rparr>" "fresh_works db [f]"
        using 1(4) [OF True] wf_streamD(1) [OF assms(1)]
        by (auto simp: insert_work_Inr fresh_works_def wf_keys_def)
      then show ?thesis using sstep.plan_sealed [OF 1(1,2) _ none ins(2)] 1(4) [OF True] by auto
    qed (use 1(5) in simp)
  qed
qed

lemma closure_steps: "ssteps db (fst (store_closure_and_open_finalization k c st db))"
  unfolding store_closure_and_open_finalization_def
proof (rule run_write_steps)
  fix db' u assume t: "closure_in_transaction k c st db = Inr (db', u)"
  then obtain p where p: "plan_row db k = Some p" "sp_terminal_closure_json p \<in> {None, Some c}"
    by (auto simp: closure_in_transaction_def split: option.splits if_splits)
  have "db' = upd_works (\<lambda>w. sw_plan_key w = k \<and> sw_stage w = st \<and> sw_publication_state w = GATED)
      (\<lambda>w. w\<lparr>sw_publication_state := PENDING\<rparr>) (upd_plan k (\<lambda>p. p\<lparr>sp_terminal_closure_json := Some c\<rparr>) db)"
    using t p(1) by (auto simp: closure_in_transaction_def Let_def split: if_splits list.splits)
  then show "ssteps db db'" using sstep.plan_closed [OF p] by blast
qed

lemma publish_steps: "ssteps db (fst (mark_published i db))"
  unfolding mark_published_def
  by (rule run_write_steps) (auto intro!: sstep.work_published [of _ "\<lambda>w. sw_work_item_id w = i"])

lemma publish_many_steps: "ssteps db (fst (mark_published_many is db))"
proof -
  have "ssteps db (upd_works (\<lambda>w. sw_work_item_id w \<in> set is \<and> sw_publication_state w = PENDING) publish_row db)"
    using sstep.work_published [of db "\<lambda>w. sw_work_item_id w \<in> set is"] by blast
  then show ?thesis
    unfolding mark_published_many_def
    by (auto split: sum.splits if_splits simp: Let_def intro!: run_write_steps)
qed

lemma store_pending_in_transaction_Inr:
  assumes "store_pending_in_transaction i pl e t u now x db = Inr (db', b)"
  obtains (accepted) w where "work_row db i = Some w" "sw_terminal_evidence_json w = Some pl" "\<not> b" "db' = db"
  | (known) w where "work_row db i = Some w" "sw_terminal_evidence_json w = None" "b" "db' = db"
      "sw_pending_terminal_json w = Some pl" "sw_pending_lease_epoch w = Some e" "sw_pending_fencing_token w = Some t"
  | (stored) w where "work_row db i = Some w" "sw_terminal_evidence_json w = None" "b"
      "db' = upd_works (\<lambda>w. sw_work_item_id w = i) (set_pending pl e t) db"
      "\<And>q y. sw_pending_terminal_json w = Some q \<Longrightarrow> sw_pending_lease_epoch w = Some y \<Longrightarrow> y < e"
      "\<And>v n. u = Some v \<Longrightarrow> now = Some n \<Longrightarrow> \<exists>r. item_of (authority db) i = Some r \<and> fence_holds e t v n x r"
proof -
  obtain w where w: "work_row db i = Some w"
    using assms by (auto simp: store_pending_in_transaction_def split: option.splits)
  show thesis
  proof (cases "sw_terminal_evidence_json w")
    case (Some y)
    then show thesis using accepted assms w by (auto simp: store_pending_in_transaction_def split: if_splits)
  next
    case None
    have lease: "\<exists>r. item_of (authority db) i = Some r \<and> fence_holds e t v n x r"
      if "u = Some v" "now = Some n" for v n
      using assms w None that by (auto simp: store_pending_in_transaction_def rbind_Inr_iff split: option.splits if_splits)
    show thesis
    proof (cases "\<exists>q y. sw_pending_terminal_json w = Some q \<and> sw_pending_lease_epoch w = Some y")
      case True
      then show thesis using known [OF w None] stored [OF w None _ _ _ lease] assms w None
        by (auto simp: store_pending_in_transaction_def rbind_Inr_iff Let_def split: if_splits)
    next
      case False
      then show thesis using stored [OF w None _ _ _ lease] assms w None
        by (auto simp: store_pending_in_transaction_def rbind_Inr_iff Let_def split: option.splits if_splits)
    qed
  qed
qed

lemma store_pending_steps:
  assumes "wf_stream db"
  shows "ssteps db (fst (store_pending_terminal i pl e t u now x db))"
proof -
  have "ssteps db db'" if "store_pending_in_transaction i pl e t u now x db = Inr (db', b)" for db' b
    using that
  proof (cases rule: store_pending_in_transaction_Inr)
    case (stored w)
    have "work_shape w" using wf_streamD(4) [OF assms] work_rowD(1) [OF stored(1)] by (simp add: wf_rows_iff)
    then have "y < e" if "sw_pending_lease_epoch w = Some y" for y
      using stored(5) that by (cases "sw_pending_terminal_json w") (auto simp: work_shape_def)
    from sstep.pending_stored [OF stored(1,2) this] show ?thesis using stored(4) by auto
  qed simp_all
  then have "ssteps db (fst (run_write (store_pending_in_transaction i pl e t u now x) db))"
    by (rule run_write_steps)
  then show ?thesis by (simp add: store_pending_terminal_def)
qed

lemma accept_in_transaction_Inr:
  assumes "accept_in_transaction i pl m n db = Inr (db', u)"
  obtains (known) w where "work_row db i = Some w" "sw_terminal_evidence_json w = Some pl" "db' = db"
  | (promoted) w where "work_row db i = Some w" "sw_terminal_evidence_json w = None"
      "sw_pending_terminal_json w = Some pl" "check_member db w m n = Inr ()"
      "db' = set_member (upd_works (\<lambda>w. sw_work_item_id w = i) promote_pending db) w m n"
  using assms by (auto simp: accept_in_transaction_def rbind_Inr_iff split: option.splits if_splits)

lemma accept_steps: "ssteps db (fst (accept_pending_terminal i pl m n db))"
  unfolding accept_pending_terminal_def
proof (rule run_write_steps)
  fix db' u assume "accept_in_transaction i pl m n db = Inr (db', u)"
  then show "ssteps db db'"
    by (cases rule: accept_in_transaction_Inr) (auto intro: sstep.pending_accepted)
qed

fun client_ok :: "stream_command \<Rightarrow> bool" where
  "client_ok (Store_seal k s ds f) \<longleftrightarrow> nw_expected_ordinal f = None"
| "client_ok _ \<longleftrightarrow> True"

lemma stream_command_steps:
  assumes "wf_stream db" and "client_ok cmd"
  shows "ssteps db (run_stream_command cmd db)"
  using assms
  by (cases cmd)
    (auto intro: register_steps claim_controller_steps save_controller_steps append_steps eos_steps seal_steps
      export_steps closure_steps publish_steps publish_many_steps store_pending_steps accept_steps sstep.scheduler)

lemma stream_commands_steps:
  assumes "wf_stream db" and "list_all client_ok cs"
  shows "ssteps db (run_stream_commands cs db)"
  using assms unfolding run_stream_commands_def
proof (induction cs arbitrary: db)
  case Nil
  then show ?case by simp
next
  case (Cons c cs)
  have s: "ssteps db (run_stream_command c db)" using stream_command_steps Cons.prems by simp
  have "ssteps (run_stream_command c db) (fold run_stream_command cs (run_stream_command c db))"
    by (rule Cons.IH [OF steps_wf [OF s Cons.prems(1)]]) (use Cons.prems(2) in simp)
  with s show ?case by (simp add: rtranclp_trans)
qed

definition stream_reachable :: "stream_db \<Rightarrow> bool" where
  "stream_reachable db \<longleftrightarrow> (\<exists>cs. list_all client_ok cs \<and> db = run_stream_commands cs empty_stream_db)"

lemma stream_reachable_wf: "stream_reachable db \<Longrightarrow> wf_stream db"
  using steps_wf [OF stream_commands_steps [OF wf_empty_stream] wf_empty_stream] by (auto simp: stream_reachable_def)

lemma stream_reachable_commands:
  assumes "stream_reachable db" and "list_all client_ok cs"
  shows "stream_reachable (run_stream_commands cs db)"
proof -
  obtain ds where "list_all client_ok ds" "db = run_stream_commands ds empty_stream_db"
    using assms(1) by (auto simp: stream_reachable_def)
  then have "run_stream_commands cs db = run_stream_commands (ds @ cs) empty_stream_db" "list_all client_ok (ds @ cs)"
    using assms(2) by (simp_all add: run_stream_commands_def)
  then show ?thesis unfolding stream_reachable_def by blast
qed

lemma later_evolves:
  assumes "stream_reachable db" and "list_all client_ok cs"
  shows "stream_evolves db (run_stream_commands cs db)"
  using steps_evolves [OF stream_commands_steps [OF stream_reachable_wf [OF assms(1)] assms(2)]]
    stream_reachable_wf [OF assms(1)] by simp

end
