(* ===== verification/Delivery_Logic.thy ===== *)
theory Delivery_Logic
  imports Stream_Delivery Stream_Refinement
begin

text \<open>
  Processes that run the programs of \<open>Stream_Delivery\<close> on one database, each transaction
  interleaved with those of the others, with crashes at any point; and a program logic for
  them, stated once as a locale: an invariant of the database, a relation between earlier and
  later databases, and the commands that are allowed.
\<close>

section \<open>The system\<close>

record delivery_process =
  pr_node :: stream_node
  pr_cache :: row_cache
  pr_prog :: "delivery_reply delivery"

record delivery_system =
  ds_db :: stream_db
  ds_procs :: "nat \<Rightarrow> delivery_process"

definition idle_process :: "stream_node \<Rightarrow> delivery_process" where
  "idle_process N = \<lparr>pr_node = N, pr_cache = (\<lambda>_. None), pr_prog = Done (Inr (Count_reply 0))\<rparr>"

definition set_proc :: "nat \<Rightarrow> delivery_process \<Rightarrow> delivery_system \<Rightarrow> delivery_system" where
  "set_proc p x s = s\<lparr>ds_procs := (ds_procs s)(p := x)\<rparr>"

text \<open>
  What the planning half of the scheduler and the other clients of the database do: they add
  work under ids of the graph that is not published yet, and leave publication, terminal
  intents and the success of such work to the processes.
\<close>

definition unpublished_graph_work :: "(string \<Rightarrow> bool) \<Rightarrow> NewStreamWorkPlan \<Rightarrow> bool" where
  "unpublished_graph_work G n \<longleftrightarrow> G (nw_work_item_id n) \<and> nw_publication_state n \<noteq> PUBLISHED"

fun outside :: "(string \<Rightarrow> bool) \<Rightarrow> stream_command \<Rightarrow> bool" where
  "outside G (Append_windows k ws c p) \<longleftrightarrow> list_all (\<lambda>w. list_all (unpublished_graph_work G) (nwin_work_plans w)) ws"
| "outside G (Store_seal k s ds f) \<longleftrightarrow> nw_expected_ordinal f = None \<and> unpublished_graph_work G f"
| "outside G (Mark_published i) \<longleftrightarrow> False"
| "outside G (Mark_published_many is) \<longleftrightarrow> False"
| "outside G (Store_pending i p e t u now x) \<longleftrightarrow> False"
| "outside G (Accept_pending i p m n) \<longleftrightarrow> False"
| "outside G (Scheduler_call (Succeed lease ref sha now)) \<longleftrightarrow> \<not> G (lease_work_item_id lease)"
| "outside G _ \<longleftrightarrow> True"

text \<open>A process begins a call when the last one returned, and then advances one access at a time.\<close>

definition begin_call :: "stream_docs \<Rightarrow> nat \<Rightarrow> delivery_call \<Rightarrow> delivery_system \<Rightarrow> delivery_system" where
  "begin_call D p c s = set_proc p ((ds_procs s p)\<lparr>pr_prog := call_prog D (pr_node (ds_procs s p)) c\<rparr>) s"

definition returned :: "nat \<Rightarrow> delivery_system \<Rightarrow> (delivery_error + delivery_reply) option" where
  "returned p s = (case pr_prog (ds_procs s p) of Done r \<Rightarrow> Some r | _ \<Rightarrow> None)"

definition advance :: "nat \<Rightarrow> delivery_system \<Rightarrow> delivery_system" where
  "advance p s =
     (let x = ds_procs s p in
      case pr_prog x of
        Done r \<Rightarrow> s
      | Call c k \<Rightarrow> set_proc p (x\<lparr>pr_prog := k (ds_db s)\<rparr>) (s\<lparr>ds_db := run_optional c (ds_db s)\<rparr>)
      | Remember w q \<Rightarrow> set_proc p (x\<lparr>pr_cache := (pr_cache x)(sw_work_item_id w \<mapsto> w), pr_prog := q\<rparr>) s
      | Recall i k \<Rightarrow> set_proc p (x\<lparr>pr_prog := k (pr_cache x i)\<rparr>) s)"

inductive delivery_step :: "stream_docs \<Rightarrow> (string \<Rightarrow> bool) \<Rightarrow> delivery_system \<Rightarrow> delivery_system \<Rightarrow> bool"
  for D :: stream_docs and G :: "string \<Rightarrow> bool" where
  call_begins: "returned p s \<noteq> None \<Longrightarrow> delivery_step D G s (begin_call D p c s)"
| process_advances: "delivery_step D G s (advance p s)"
| process_restarts: "delivery_step D G s (set_proc p (idle_process N) s)"
| others_act: "outside G cmd \<Longrightarrow> delivery_step D G s (s\<lparr>ds_db := run_stream_command cmd (ds_db s)\<rparr>)"

text \<open>
  The states after process \<open>p\<close> began the call \<open>c\<close> in state \<open>s\<close>, as long as it is not restarted
  and begins no other call: it advances, and everything else may happen meanwhile.
\<close>

inductive call_running ::
    "stream_docs \<Rightarrow> (string \<Rightarrow> bool) \<Rightarrow> nat \<Rightarrow> delivery_call \<Rightarrow> delivery_system \<Rightarrow> delivery_system \<Rightarrow> bool"
  for D :: stream_docs and G :: "string \<Rightarrow> bool" and p :: nat and c :: delivery_call and s :: delivery_system where
  begins: "returned p s \<noteq> None \<Longrightarrow> call_running D G p c s (begin_call D p c s)"
| advances: "call_running D G p c s t \<Longrightarrow> call_running D G p c s (advance p t)"
| meanwhile: "call_running D G p c s t \<Longrightarrow> delivery_step D G t u \<Longrightarrow> ds_procs u p = ds_procs t p \<Longrightarrow> call_running D G p c s u"

definition delivery_start :: "delivery_system \<Rightarrow> bool" where
  "delivery_start s \<longleftrightarrow> ds_db s = empty_stream_db \<and> (\<forall>p. \<exists>N. ds_procs s p = idle_process N)"

definition delivery_reachable :: "stream_docs \<Rightarrow> (string \<Rightarrow> bool) \<Rightarrow> delivery_system \<Rightarrow> bool" where
  "delivery_reachable D G s \<longleftrightarrow> (\<exists>s0. delivery_start s0 \<and> (delivery_step D G)\<^sup>*\<^sup>* s0 s)"

section \<open>Safe programs\<close>

text \<open>
  \<open>safe I L A p Q db\<close>: from any database that is later (\<open>L\<close>) than \<open>db\<close> and keeps \<open>I\<close>, the
  program only issues allowed commands, whatever happens between its transactions, and ends
  with \<open>Q\<close> of its result and of the database after its last transaction.
\<close>

primrec safe ::
    "(stream_db \<Rightarrow> bool) \<Rightarrow> (stream_db \<Rightarrow> stream_db \<Rightarrow> bool) \<Rightarrow> (stream_db \<Rightarrow> stream_command \<Rightarrow> bool)
      \<Rightarrow> 'r prog \<Rightarrow> ('r \<Rightarrow> stream_db \<Rightarrow> bool) \<Rightarrow> stream_db \<Rightarrow> bool" where
  "safe I L A (Done r) Q db \<longleftrightarrow> Q r db"
| "safe I L A (Call c k) Q db \<longleftrightarrow> (\<forall>db'. L db db' \<longrightarrow> I db' \<longrightarrow>
     (\<forall>cmd. c = Some cmd \<longrightarrow> A db' cmd) \<and> safe I L A (k db') Q (run_optional c db'))"
| "safe I L A (Remember w p) Q db \<longleftrightarrow> safe I L A p Q db"
| "safe I L A (Recall i k) Q db \<longleftrightarrow> (\<forall>r. safe I L A (k r) Q db)"

lemma safe_mono:
  assumes "safe I L A p Q db" and "\<And>r db'. Q r db' \<Longrightarrow> Q' r db'"
  shows "safe I L A p Q' db"
  using assms(1)
proof (induction p arbitrary: db)
  case (Call c k)
  then show ?case by (simp add: Call.IH [OF rangeI])
qed (auto simp: assms(2))

definition on_result :: "('a \<Rightarrow> stream_db \<Rightarrow> bool) \<Rightarrow> delivery_error + 'a \<Rightarrow> stream_db \<Rightarrow> bool" where
  "on_result P r db \<longleftrightarrow> (case r of Inl e \<Rightarrow> True | Inr a \<Rightarrow> P a db)"

lemma on_result_simps [simp]: "on_result P (Inl e) db" "on_result P (Inr a) db \<longleftrightarrow> P a db"
  by (simp_all add: on_result_def)

lemma safe_result_mono:
  assumes "safe I L A p (on_result P) db" and "\<And>a db'. P a db' \<Longrightarrow> P' a db'"
  shows "safe I L A p (on_result P') db"
  using assms(1) by (rule safe_mono) (auto simp: on_result_def assms(2) split: sum.splits)

lemma safe_pthen:
  assumes "safe I L A p (on_result (\<lambda>a. safe I L A (g a) (on_result P))) db"
  shows "safe I L A (pthen p g) (on_result P) db"
  using assms
proof (induction p arbitrary: db)
  case (Done r)
  then show ?case by (cases r) simp_all
next
  case (Call c k)
  then show ?case by (simp add: Call.IH [OF rangeI])
qed auto

lemma safe_pthenI:
  assumes "safe I L A p (on_result R) db"
    and "\<And>a db'. R a db' \<Longrightarrow> safe I L A (g a) (on_result P) db'"
  shows "safe I L A (pthen p g) (on_result P) db"
  by (rule safe_pthen, rule safe_mono [OF assms(1)]) (auto simp: on_result_def assms(2) split: sum.splits)

lemma safe_ptraverse:
  assumes "\<And>x db. R db \<Longrightarrow> x \<in> set xs \<Longrightarrow> safe I L A (f x) (on_result (\<lambda>y db'. P x y \<and> R db')) db" and "R db"
  shows "safe I L A (ptraverse f xs) (on_result (\<lambda>ys db'. list_all2 P xs ys \<and> R db')) db"
  using assms
proof (induction xs arbitrary: db)
  case (Cons x xs)
  have "safe I L A (f x) (on_result (\<lambda>y db'. P x y \<and> R db')) db"
    using Cons.prems by (meson list.set_intros(1))
  then show ?case unfolding ptraverse.simps
  proof (rule safe_pthenI)
    fix y db' assume y: "P x y \<and> R db'"
    have "safe I L A (ptraverse f xs) (on_result (\<lambda>ys db'. list_all2 P xs ys \<and> R db')) db'"
      by (rule Cons.IH) (use Cons.prems(1) y in auto)
    then show "safe I L A (pthen (ptraverse f xs) (\<lambda>ys. Done (Inr (y # ys))))
        (on_result (\<lambda>ys db'. list_all2 P (x # xs) ys \<and> R db')) db'"
      by (rule safe_pthenI) (use y in simp)
  qed
qed simp

text \<open>Programs all of whose commands are allowed anyway.\<close>

primrec calm :: "(stream_command \<Rightarrow> bool) \<Rightarrow> 'r prog \<Rightarrow> bool" where
  "calm H (Done r) \<longleftrightarrow> True"
| "calm H (Call c k) \<longleftrightarrow> (\<forall>cmd. c = Some cmd \<longrightarrow> H cmd) \<and> (\<forall>db. calm H (k db))"
| "calm H (Remember w p) \<longleftrightarrow> calm H p"
| "calm H (Recall i k) \<longleftrightarrow> (\<forall>r. calm H (k r))"

lemma calm_safe:
  assumes "calm H p" and "\<And>db cmd. I db \<Longrightarrow> H cmd \<Longrightarrow> A db cmd"
  shows "safe I L A p (\<lambda>_ _. True) db"
  using assms(1)
proof (induction p arbitrary: db)
  case (Call c k)
  then show ?case using assms(2) by (simp add: Call.IH [OF rangeI])
qed auto

lemma calm_pthen: "calm H p \<Longrightarrow> (\<And>a. calm H (g a)) \<Longrightarrow> calm H (pthen p g)"
  by (induction p) (auto split: sum.splits)

lemma calm_except: "calm H p \<Longrightarrow> calm H (except_fence p a)"
  by (induction p) (auto split: sum.splits delivery_error.splits work_error.splits)

lemma calm_ptraverse: "(\<And>x. calm H (f x)) \<Longrightarrow> calm H (ptraverse f xs)"
  by (induction xs) (auto intro!: calm_pthen)

lemma calm_call [simp]:
  "calm H (ledger_call c f) \<longleftrightarrow> (\<forall>cmd. c = Some cmd \<longrightarrow> H cmd)"
  "calm H (execution_call x g) \<longleftrightarrow> (\<forall>cmd. x = Some cmd \<longrightarrow> H (Scheduler_call cmd))"
  "calm H (check b e)"
  by (auto simp: ledger_call_def execution_call_def check_def)

lemma safe_call:
  assumes "\<And>db'. L db db' \<Longrightarrow> I db' \<Longrightarrow> (\<forall>cmd. c = Some cmd \<longrightarrow> A db' cmd)
      \<and> (\<forall>a. snd (f db') = Inr a \<longrightarrow> P a (run_optional c db'))"
  shows "safe I L A (ledger_call c f) (on_result P) db"
  unfolding ledger_call_def
proof (simp, intro allI impI conjI)
  fix db' assume h: "L db db'" "I db'"
  show "A db' cmd" if "c = Some cmd" for cmd using assms [OF h] that by blast
  show "on_result P (map_error Ledger_error (snd (f db'))) (run_optional c db')"
    using assms [OF h] by (cases "snd (f db')") simp_all
qed

lemma safe_execution_call:
  assumes "\<And>db'. L db db' \<Longrightarrow> I db' \<Longrightarrow> (\<forall>cmd. c = Some cmd \<longrightarrow> A db' (Scheduler_call cmd))
      \<and> (\<forall>a. snd (f (authority db')) = Inr a \<longrightarrow> P a (run_optional (map_option Scheduler_call c) db'))"
  shows "safe I L A (execution_call c f) (on_result P) db"
  unfolding execution_call_def
proof (simp, intro allI impI conjI)
  fix db' assume h: "L db db'" "I db'"
  show "A db' cmd" if "\<exists>z. c = Some z \<and> Scheduler_call z = cmd" for cmd using assms [OF h] that by blast
  show "on_result P (map_error Execution_error (snd (f (authority db')))) (run_optional (map_option Scheduler_call c) db')"
    using assms [OF h] by (cases "snd (f (authority db'))") simp_all
qed

lemma safe_check: "(b \<Longrightarrow> P () db) \<Longrightarrow> safe I L A (check b e) (on_result P) db"
  by (simp add: check_def)

section \<open>The logic\<close>

text \<open>
  The rule of the ledger that everybody keeps: what an allowed command makes of the database
  keeps the invariant and is later.
\<close>

locale ledger_rule =
  fixes I :: "stream_db \<Rightarrow> bool" and L :: "stream_db \<Rightarrow> stream_db \<Rightarrow> bool"
    and A :: "stream_db \<Rightarrow> stream_command \<Rightarrow> bool"
  assumes later_refl: "L db db"
    and later_trans: "L a b \<Longrightarrow> L b c \<Longrightarrow> L a c"
    and command_keeps: "I db \<Longrightarrow> A db cmd \<Longrightarrow> I (run_stream_command cmd db)"
    and command_later: "I db \<Longrightarrow> A db cmd \<Longrightarrow> L db (run_stream_command cmd db)"
begin

lemma optional_keeps:
  assumes "I db" and "\<And>cmd. c = Some cmd \<Longrightarrow> A db cmd"
  shows "I (run_optional c db)" and "L db (run_optional c db)"
  using assms command_keeps command_later later_refl by (cases c; simp add: run_optional_def)+

lemma safe_later:
  assumes "safe I L A p Q db" and "L db db'" and "\<And>r a b. Q r a \<Longrightarrow> L a b \<Longrightarrow> Q r b"
  shows "safe I L A p Q db'"
  using assms(1,2)
proof (induction p arbitrary: db db')
  case (Call c k)
  then show ?case using later_trans by auto
next
  case (Recall i k)
  show ?case unfolding safe.simps
  proof
    fix r show "safe I L A (k r) Q db'"
      by (rule Recall.IH [OF rangeI _ Recall.prems(2)]) (use Recall.prems(1) in simp)
  qed
qed (use assms(3) in auto)

text \<open>A fact that holds of all later databases outlives a safe program.\<close>

lemma safe_frame:
  assumes "safe I L A p Q db" and "F db" and "\<And>a b. F a \<Longrightarrow> L a b \<Longrightarrow> F b"
  shows "safe I L A p (\<lambda>r db'. Q r db' \<and> F db') db"
  using assms(1,2)
proof (induction p arbitrary: db)
  case (Call c k)
  have "safe I L A (k db') (\<lambda>r db'. Q r db' \<and> F db') (run_optional c db')" if h: "L db db'" "I db'" for db'
  proof (rule Call.IH [OF rangeI])
    show "safe I L A (k db') Q (run_optional c db')" using Call.prems(1) h by simp
    have "L db' (run_optional c db')" by (rule optional_keeps(2) [OF h(2)]) (use Call.prems(1) h in simp)
    then show "F (run_optional c db')" using Call.prems(2) h(1) assms(3) by blast
  qed
  then show ?case using Call.prems(1) by simp
qed auto

lemma safe_frame_result:
  assumes "safe I L A p (on_result P) db" and "F db" and "\<And>a b. F a \<Longrightarrow> L a b \<Longrightarrow> F b"
  shows "safe I L A p (on_result (\<lambda>a db'. P a db' \<and> F db')) db"
  using safe_frame [of p "on_result P" db F, OF assms] by (rule safe_mono) (auto simp: on_result_def split: sum.splits)

end

text \<open>Processes whose calls keep the rule, and others that keep it too.\<close>

locale shared_ledger = ledger_rule I L A
  for I :: "stream_db \<Rightarrow> bool" and L :: "stream_db \<Rightarrow> stream_db \<Rightarrow> bool"
    and A :: "stream_db \<Rightarrow> stream_command \<Rightarrow> bool" +
  fixes D :: stream_docs and G :: "string \<Rightarrow> bool"
  assumes start: "I empty_stream_db"
    and others_allowed: "I db \<Longrightarrow> outside G cmd \<Longrightarrow> A db cmd"
    and calls_safe: "safe I L A (call_prog D N call) (\<lambda>_ _. True) db"
begin

definition process_safe :: "nat \<Rightarrow> (delivery_error + delivery_reply \<Rightarrow> stream_db \<Rightarrow> bool) \<Rightarrow> delivery_system \<Rightarrow> bool" where
  "process_safe p Q s \<longleftrightarrow> safe I L A (pr_prog (ds_procs s p)) Q (ds_db s)"

lemma advance_keeps:
  assumes "process_safe p Q s" and "I (ds_db s)"
  shows "I (ds_db (advance p s))" and "L (ds_db s) (ds_db (advance p s))" and "process_safe p Q (advance p s)"
proof -
  have "I (ds_db (advance p s)) \<and> L (ds_db s) (ds_db (advance p s)) \<and> process_safe p Q (advance p s)"
  proof (cases "pr_prog (ds_procs s p)")
    case (Call c k)
    have "\<And>cmd. c = Some cmd \<Longrightarrow> A (ds_db s) cmd" and cont: "safe I L A (k (ds_db s)) Q (run_optional c (ds_db s))"
      using assms later_refl Call unfolding process_safe_def by (metis safe.simps(2))+
    note opt = optional_keeps [OF assms(2) this(1)]
    with cont Call show ?thesis by (simp add: advance_def Let_def process_safe_def set_proc_def)
  qed (use assms later_refl in \<open>auto simp: advance_def Let_def process_safe_def set_proc_def\<close>)
  then show "I (ds_db (advance p s))" and "L (ds_db s) (ds_db (advance p s))" and "process_safe p Q (advance p s)"
    by simp_all
qed

definition processes_safe :: "delivery_system \<Rightarrow> bool" where
  "processes_safe s \<longleftrightarrow> I (ds_db s) \<and> (\<forall>p. process_safe p (\<lambda>_ _. True) s)"

lemma other_process: "q \<noteq> p \<Longrightarrow> ds_procs (advance p s) q = ds_procs s q"
  by (simp add: advance_def Let_def set_proc_def split: prog.split)

lemma step_keeps:
  assumes "delivery_step D G s s'" and "processes_safe s"
  shows "processes_safe s'" and "L (ds_db s) (ds_db s')"
proof -
  note inv = assms(2) [unfolded processes_safe_def, THEN conjunct1]
    and procs = assms(2) [unfolded processes_safe_def, THEN conjunct2, rule_format]
  have move: "process_safe q (\<lambda>_ _. True) t" if "L (ds_db s) (ds_db t)" "ds_procs t q = ds_procs s q" for q t
    using procs [of q] safe_later [OF _ that(1)] that(2) by (simp add: process_safe_def)
  have "processes_safe s' \<and> L (ds_db s) (ds_db s')" using assms(1)
  proof cases
    case (process_advances p)
    note adv = advance_keeps [OF procs [of p] inv]
    have "process_safe q (\<lambda>_ _. True) s'" for q
      using adv move [OF adv(2)] other_process process_advances by (cases "q = p") auto
    with adv process_advances show ?thesis by (simp add: processes_safe_def)
  next
    case (others_act cmd)
    note ok = others_allowed [OF inv others_act(2)]
    show ?thesis unfolding processes_safe_def
      using move [of s'] command_keeps [OF inv ok] command_later [OF inv ok] by (simp add: others_act(1))
  next
    case (call_begins p c)
    then show ?thesis using inv procs calls_safe later_refl
      by (simp add: processes_safe_def process_safe_def begin_call_def set_proc_def)
  next
    case (process_restarts p N)
    then show ?thesis using inv procs later_refl
      by (simp add: processes_safe_def process_safe_def set_proc_def idle_process_def)
  qed
  then show "processes_safe s'" and "L (ds_db s) (ds_db s')" by simp_all
qed

lemma reachable_safe:
  assumes "delivery_reachable D G s"
  shows "processes_safe s"
proof -
  obtain s0 where s0: "delivery_start s0" and steps: "(delivery_step D G)\<^sup>*\<^sup>* s0 s"
    using assms by (auto simp: delivery_reachable_def)
  show ?thesis using steps
  proof induction
    case base
    have "process_safe p (\<lambda>_ _. True) s0" for p
    proof -
      obtain N where "ds_procs s0 p = idle_process N" using s0 by (auto simp: delivery_start_def)
      then show ?thesis by (simp add: process_safe_def idle_process_def)
    qed
    then show ?case using s0 start by (simp add: delivery_start_def processes_safe_def)
  next
    case (step t u)
    then show ?case using step_keeps by blast
  qed
qed

lemma reachable_inv: "delivery_reachable D G s \<Longrightarrow> I (ds_db s)"
  using reachable_safe by (simp add: processes_safe_def)

text \<open>What a call establishes and nobody undoes holds when it has returned.\<close>

lemma running_safe:
  assumes "call_running D G p c s t" and "delivery_reachable D G s"
    and "safe I L A (call_prog D (pr_node (ds_procs s p)) c) Q (ds_db s)"
    and "\<And>r a b. Q r a \<Longrightarrow> L a b \<Longrightarrow> Q r b"
  shows "processes_safe t \<and> process_safe p Q t"
  using assms(1)
proof induction
  case begins
  have "delivery_step D G s (begin_call D p c s)" by (rule delivery_step.call_begins [OF begins])
  from step_keeps(1) [OF this reachable_safe [OF assms(2)]] assms(3) show ?case
    by (simp add: process_safe_def begin_call_def set_proc_def)
next
  case (advances t)
  then show ?case
    using step_keeps(1) [OF delivery_step.process_advances] advance_keeps(3) unfolding processes_safe_def by blast
next
  case (meanwhile t u)
  then have "L (ds_db t) (ds_db u)" "processes_safe u" using step_keeps by blast+
  moreover have "safe I L A (pr_prog (ds_procs t p)) Q (ds_db u)"
    by (rule safe_later [OF _ calculation(1)]) (use meanwhile assms(4) in \<open>auto simp: process_safe_def\<close>)
  ultimately show ?case using meanwhile by (simp add: process_safe_def)
qed

lemma returned_result:
  assumes "call_running D G p c s t" and "delivery_reachable D G s"
    and "safe I L A (call_prog D (pr_node (ds_procs s p)) c) Q (ds_db s)"
    and "\<And>r a b. Q r a \<Longrightarrow> L a b \<Longrightarrow> Q r b" and "returned p t = Some r"
  shows "Q r (ds_db t)"
  using running_safe [OF assms(1-4)] assms(5) by (auto simp: process_safe_def returned_def split: prog.splits)

end

section \<open>A program that runs alone\<close>

lemma advance_more: "\<exists>n. (advance p ^^ n) (advance p s) = t \<Longrightarrow> \<exists>n. (advance p ^^ n) s = t"
  by (metis comp_apply funpow_Suc_right)

text \<open>One process that advances, while nothing else happens, ends as its program run by itself.\<close>

lemma advance_run:
  assumes "run_prog (pr_prog (ds_procs s p)) (ds_db s) (pr_cache (ds_procs s p)) = (db', cache', r)"
  shows "\<exists>n. (advance p ^^ n) s =
    set_proc p ((ds_procs s p)\<lparr>pr_cache := cache', pr_prog := Done r\<rparr>) (s\<lparr>ds_db := db'\<rparr>)"
  using assms
proof (induction "pr_prog (ds_procs s p)" arbitrary: s)
  case (Done x)
  have "cache' = pr_cache (ds_procs s p)" "db' = ds_db s" "r = x"
    using Done.prems unfolding Done.hyps [symmetric] by simp_all
  then have "(advance p ^^ 0) s = set_proc p ((ds_procs s p)\<lparr>pr_cache := cache', pr_prog := Done r\<rparr>) (s\<lparr>ds_db := db'\<rparr>)"
    using Done.hyps by (simp add: set_proc_def)
  then show ?case by blast
next
  case (Call c k)
  have step: "advance p s = set_proc p ((ds_procs s p)\<lparr>pr_prog := k (ds_db s)\<rparr>) (s\<lparr>ds_db := run_optional c (ds_db s)\<rparr>)"
    by (simp add: advance_def Let_def Call.hyps(2) [symmetric])
  have "\<exists>n. (advance p ^^ n) (advance p s) =
      set_proc p ((ds_procs (advance p s) p)\<lparr>pr_cache := cache', pr_prog := Done r\<rparr>) ((advance p s)\<lparr>ds_db := db'\<rparr>)"
    by (rule Call.hyps(1)) (use Call.prems Call.hyps(2) [symmetric] in \<open>simp_all add: step set_proc_def\<close>)
  from advance_more [OF this] show ?case by (simp add: step set_proc_def)
next
  case (Remember w q)
  have step: "advance p s =
      set_proc p ((ds_procs s p)\<lparr>pr_cache := (pr_cache (ds_procs s p))(sw_work_item_id w \<mapsto> w), pr_prog := q\<rparr>) s"
    by (simp add: advance_def Let_def Remember.hyps(2) [symmetric])
  have "\<exists>n. (advance p ^^ n) (advance p s) =
      set_proc p ((ds_procs (advance p s) p)\<lparr>pr_cache := cache', pr_prog := Done r\<rparr>) ((advance p s)\<lparr>ds_db := db'\<rparr>)"
    by (rule Remember.hyps(1)) (use Remember.prems Remember.hyps(2) [symmetric] in \<open>simp_all add: step set_proc_def\<close>)
  from advance_more [OF this] show ?case by (simp add: step set_proc_def)
next
  case (Recall i k)
  have step: "advance p s = set_proc p ((ds_procs s p)\<lparr>pr_prog := k (pr_cache (ds_procs s p) i)\<rparr>) s"
    by (simp add: advance_def Let_def Recall.hyps(2) [symmetric])
  have "\<exists>n. (advance p ^^ n) (advance p s) =
      set_proc p ((ds_procs (advance p s) p)\<lparr>pr_cache := cache', pr_prog := Done r\<rparr>) ((advance p s)\<lparr>ds_db := db'\<rparr>)"
    by (rule Recall.hyps(1)) (use Recall.prems Recall.hyps(2) [symmetric] in \<open>simp_all add: step set_proc_def\<close>)
  from advance_more [OF this] show ?case by (simp add: step set_proc_def)
qed

text \<open>The state in which a call of process \<open>p\<close> that runs alone has returned.\<close>

definition call_alone :: "stream_docs \<Rightarrow> nat \<Rightarrow> delivery_call \<Rightarrow> delivery_system \<Rightarrow> delivery_system" where
  "call_alone D p c s =
     (case run_prog (call_prog D (pr_node (ds_procs s p)) c) (ds_db s) (pr_cache (ds_procs s p)) of
        (db', cache', r) \<Rightarrow> set_proc p ((ds_procs s p)\<lparr>pr_cache := cache', pr_prog := Done r\<rparr>) (s\<lparr>ds_db := db'\<rparr>))"

lemma call_alone_advances: "\<exists>n. (advance p ^^ n) (begin_call D p c s) = call_alone D p c s"
proof -
  obtain db' cache' r where run: "run_prog (call_prog D (pr_node (ds_procs s p)) c) (ds_db s) (pr_cache (ds_procs s p)) = (db', cache', r)"
    by (cases "run_prog (call_prog D (pr_node (ds_procs s p)) c) (ds_db s) (pr_cache (ds_procs s p))")
  show ?thesis
    using advance_run [of "begin_call D p c s" p db' cache' r] run
    by (auto simp: call_alone_def begin_call_def set_proc_def)
qed

lemma advances_running:
  assumes "returned p s \<noteq> None"
  shows "call_running D G p c s ((advance p ^^ n) (begin_call D p c s))"
  by (induction n) (use assms in \<open>auto intro: call_running.intros\<close>)

lemma call_alone_running: "returned p s \<noteq> None \<Longrightarrow> call_running D G p c s (call_alone D p c s)"
  using call_alone_advances [of p D c s] advances_running [of p s D G c] by metis

lemma returned_call_alone: "returned p (call_alone D q c s) \<noteq> None \<longleftrightarrow> p = q \<or> returned p s \<noteq> None"
  by (auto simp: call_alone_def returned_def set_proc_def split: prod.splits)

lemma running_reachable:
  assumes "call_running D G p c s t" and "delivery_reachable D G s"
  shows "delivery_reachable D G t"
proof -
  have "(delivery_step D G)\<^sup>*\<^sup>* s t" using assms(1)
    by induction (auto intro: delivery_step.call_begins delivery_step.process_advances rtranclp.rtrancl_into_rtrancl)
  with assms(2) show ?thesis unfolding delivery_reachable_def by (meson rtranclp_trans)
qed

text \<open>The state after a process stopped \<open>n\<close> accesses into a call, and was restarted.\<close>

fun db_after :: "nat \<Rightarrow> 'r prog \<Rightarrow> stream_db \<Rightarrow> row_cache \<Rightarrow> stream_db" where
  "db_after 0 q db cache = db"
| "db_after (Suc n) (Done r) db cache = db"
| "db_after (Suc n) (Call c k) db cache = db_after n (k db) (run_optional c db) cache"
| "db_after (Suc n) (Remember w q) db cache = db_after n q db (cache(sw_work_item_id w \<mapsto> w))"
| "db_after (Suc n) (Recall i k) db cache = db_after n (k (cache i)) db cache"

lemma db_after_Done [simp]: "db_after n (Done r) db cache = db"
  by (cases n) simp_all

definition call_stopped :: "nat \<Rightarrow> stream_docs \<Rightarrow> nat \<Rightarrow> delivery_call \<Rightarrow> delivery_system \<Rightarrow> delivery_system" where
  "call_stopped n D p c s = (let x = ds_procs s p in
     set_proc p (idle_process (pr_node x)) (s\<lparr>ds_db := db_after n (call_prog D (pr_node x) c) (ds_db s) (pr_cache x)\<rparr>))"

lemma advance_stopped:
  "set_proc p x ((advance p ^^ n) s) =
     set_proc p x (s\<lparr>ds_db := db_after n (pr_prog (ds_procs s p)) (ds_db s) (pr_cache (ds_procs s p))\<rparr>)"
proof (induction n arbitrary: s)
  case (Suc n)
  have "set_proc p x ((advance p ^^ Suc n) s) = set_proc p x ((advance p ^^ n) (advance p s))" by (simp add: funpow_swap1)
  also have "\<dots> = set_proc p x ((advance p s)\<lparr>ds_db := db_after n (pr_prog (ds_procs (advance p s) p)) (ds_db (advance p s))
      (pr_cache (ds_procs (advance p s) p))\<rparr>)" by (rule Suc.IH)
  also have "\<dots> = set_proc p x (s\<lparr>ds_db := db_after (Suc n) (pr_prog (ds_procs s p)) (ds_db s) (pr_cache (ds_procs s p))\<rparr>)"
    by (cases "pr_prog (ds_procs s p)") (simp_all add: advance_def Let_def set_proc_def)
  finally show ?case .
qed (simp add: set_proc_def)

lemma stopped_reachable:
  assumes "delivery_reachable D G s" and "returned p s \<noteq> None"
  shows "delivery_reachable D G (call_stopped n D p c s)"
proof -
  let ?t = "(advance p ^^ n) (begin_call D p c s)" and ?x = "idle_process (pr_node (ds_procs s p))"
  have "delivery_reachable D G ?t" by (rule running_reachable [OF advances_running [OF assms(2)] assms(1)])
  then have "delivery_reachable D G (set_proc p ?x ?t)"
    unfolding delivery_reachable_def using delivery_step.process_restarts [of D G ?t p] by (meson rtranclp.rtrancl_into_rtrancl)
  moreover have "set_proc p ?x ?t = call_stopped n D p c s"
    unfolding advance_stopped by (simp add: call_stopped_def begin_call_def set_proc_def Let_def)
  ultimately show ?thesis by simp
qed

lemma reachable_others:
  "delivery_reachable D G s \<Longrightarrow> outside G cmd \<Longrightarrow> delivery_reachable D G (s\<lparr>ds_db := run_stream_command cmd (ds_db s)\<rparr>)"
  unfolding delivery_reachable_def
  using delivery_step.others_act [of G cmd D s] by (meson rtranclp.rtrancl_into_rtrancl)

end
