(* ===== verification/Rational_Time.thy ===== *)
theory Rational_Time
  imports Robata_Prelude
begin

text \<open>
  \<^verbatim>\<open>src/robata/alignment/rational_time.py\<close>: rounding of exact rationals to the nearest integer
  with ties to even, the anchored rational transform of one clock segment, and the
  piecewise alignment that selects a segment by message order with a binary search.
  Python integers are \<open>int\<close>; the run-time type checks of the source are the HOL types.
\<close>

section \<open>Rounding half to even\<close>

definition round_half_even :: "int \<Rightarrow> int \<Rightarrow> int py" where
  "round_half_even numerator denominator =
     (if denominator \<le> 0 then Inl (ValueError ''denominator must be positive'')
      else
        let quotient = numerator div denominator;
            remainder = numerator mod denominator;
            doubled_remainder = remainder * 2
        in if doubled_remainder < denominator then Inr quotient
           else if doubled_remainder > denominator then Inr (quotient + 1)
           else if quotient mod 2 = 0 then Inr quotient
           else Inr (quotient + 1))"

text \<open>
  The specification: \<open>q\<close> is at distance at most one half from \<open>n / d\<close>, and
  is even when the distance is exactly one half.
\<close>

definition nearest_half_even :: "int \<Rightarrow> int \<Rightarrow> int \<Rightarrow> bool" where
  "nearest_half_even n d q \<longleftrightarrow>
     2 * \<bar>n - d * q\<bar> \<le> d \<and> (2 * \<bar>n - d * q\<bar> = d \<longrightarrow> even q)"

lemma mult_step_up: "0 < (d::int) \<Longrightarrow> q < r \<Longrightarrow> d * q + d \<le> d * r"
  using mult_left_mono [of "q + 1" r d] by (simp add: distrib_left)

text \<open>A nearest value reaches \<open>m\<close> exactly from the half-open boundary \<open>m - 1/2\<close> on.\<close>

lemma nearest_ge_iff:
  assumes d: "0 < d" and q: "nearest_half_even n d q"
  shows "m \<le> q \<longleftrightarrow> (2 * m - 1) * d < 2 * n \<or> ((2 * m - 1) * d = 2 * n \<and> even m)"
proof -
  have dist: "2 * \<bar>n - d * q\<bar> \<le> d" using q by (simp add: nearest_half_even_def)
  have bounds: "2 * x - d \<le> 2 * n \<and> 2 * n \<le> 2 * x + d" if "2 * \<bar>n - x\<bar> \<le> d" for x
    using that by arith
  have lo: "2 * (d * q) - d \<le> 2 * n" and hi: "2 * n \<le> 2 * (d * q) + d"
    using bounds [OF dist] by blast+
  have lo_even: "even q" if "2 * n = 2 * (d * q) - d"
  proof -
    have "2 * \<bar>n - d * q\<bar> = d" using that d by (auto simp: abs_if)
    with q show ?thesis by (simp add: nearest_half_even_def)
  qed
  have hi_even: "even q" if "2 * n = 2 * (d * q) + d"
  proof -
    have "2 * \<bar>n - d * q\<bar> = d" using that d by (auto simp: abs_if)
    with q show ?thesis by (simp add: nearest_half_even_def)
  qed
  have expand: "(2 * m - 1) * d = 2 * (d * m) - d" by (simp add: algebra_simps)
  consider (lt) "m < q" | (eq) "m = q" | (gt) "q < m" by linarith
  then show ?thesis
  proof cases
    case lt
    with mult_step_up [OF d lt] lo d show ?thesis by (simp add: expand)
  next
    case eq
    show ?thesis unfolding expand using eq lo lo_even by auto
  next
    case gt
    have "\<not> ((2 * m - 1) * d = 2 * n \<and> even m)"
    proof
      assume tie: "(2 * m - 1) * d = 2 * n \<and> even m"
      then have "2 * (d * m) - d \<le> 2 * (d * q) + d" using hi expand by simp
      then have "d * m = d * q + d" using mult_step_up [OF d gt] by simp
      then have m: "m = q + 1" using d by (metis distrib_left mult.right_neutral mult_left_cancel
            order_less_irrefl)
      have "2 * n = 2 * (d * q) + d" using tie expand m by (simp add: algebra_simps)
      with hi_even tie m show False by simp
    qed
    moreover have "\<not> (2 * m - 1) * d < 2 * n"
      using mult_step_up [OF d gt] hi by (simp add: expand)
    ultimately show ?thesis using gt by simp
  qed
qed

lemma nearest_half_even_unique:
  assumes "0 < d" and "nearest_half_even n d q" and "nearest_half_even n d r"
  shows "q = r"
  using nearest_ge_iff [OF assms(1,2)] nearest_ge_iff [OF assms(1,3)] by (meson order_antisym order_refl)

lemma nearest_half_even_mono:
  assumes "0 < d" and "nearest_half_even n d q" and "nearest_half_even n' d q'" and "n \<le> n'"
  shows "q \<le> q'"
proof -
  have "(2 * q - 1) * d < 2 * n \<or> ((2 * q - 1) * d = 2 * n \<and> even q)"
    using nearest_ge_iff [OF assms(1,2), of q] by simp
  with assms(4) have "(2 * q - 1) * d < 2 * n' \<or> ((2 * q - 1) * d = 2 * n' \<and> even q)" by auto
  then show ?thesis using nearest_ge_iff [OF assms(1,3)] by simp
qed

lemma round_half_even_nearest:
  assumes d: "0 < d"
  shows "\<exists>q. round_half_even n d = Inr q \<and> nearest_half_even n d q"
proof -
  define q where "q = n div d"
  define r where "r = n mod d"
  have n: "n = d * q + r" by (simp add: q_def r_def)
  have r: "0 \<le> r" "r < d" using d by (auto simp: r_def)
  have near: "n - d * q = r" "n - d * (q + 1) = r - d" using n by (auto simp: algebra_simps)
  consider (low) "r * 2 < d" | (high) "r * 2 > d" | (tie) "r * 2 = d" by linarith
  then show ?thesis
  proof cases
    case low
    then have "round_half_even n d = Inr q" using d
      by (simp add: round_half_even_def q_def r_def Let_def)
    moreover have "nearest_half_even n d q"
      unfolding nearest_half_even_def near using r low by simp
    ultimately show ?thesis by blast
  next
    case high
    then have "round_half_even n d = Inr (q + 1)" using d
      by (simp add: round_half_even_def q_def r_def Let_def)
    moreover have "nearest_half_even n d (q + 1)"
      unfolding nearest_half_even_def near using r high by simp
    ultimately show ?thesis by blast
  next
    case tie
    define v where "v = (if q mod 2 = 0 then q else q + 1)"
    have "round_half_even n d = Inr v" using d tie
      by (simp add: round_half_even_def q_def r_def v_def Let_def)
    moreover have "nearest_half_even n d v"
    proof (cases "q mod 2 = 0")
      case True
      then have "even q" by presburger
      then show ?thesis unfolding v_def nearest_half_even_def if_P [OF True] near
        using r tie by simp
    next
      case False
      then have "even (q + 1)" by presburger
      then show ?thesis unfolding v_def nearest_half_even_def if_not_P [OF False] near
        using r tie by simp
    qed
    ultimately show ?thesis by blast
  qed
qed

lemma round_half_even_Inr_iff [result_simps]:
  "round_half_even n d = Inr q \<longleftrightarrow> 0 < d \<and> nearest_half_even n d q"
proof (cases "0 < d")
  case True
  then obtain r where "round_half_even n d = Inr r" "nearest_half_even n d r"
    using round_half_even_nearest by blast
  with True show ?thesis using nearest_half_even_unique by auto
qed (simp add: round_half_even_def)

section \<open>One transform segment\<close>

record RationalTransformSegment =
  source_order_start :: int
  source_order_end :: int
  source_start_ns :: int
  source_end_ns :: int
  source_anchor_ns :: int
  canonical_anchor_ns :: int
  rate_numerator :: int
  rate_denominator :: int
  source_epoch_id :: string
  segment_id :: "string option"

definition segment_post_init :: "RationalTransformSegment \<Rightarrow> RationalTransformSegment py" where
  "segment_post_init s =
     (if source_order_start s < 0
      then Inl (ValueError ''source_order_start must be nonnegative'')
      else if source_order_start s \<ge> source_order_end s
      then Inl (ValueError ''source_order_start must be less than source_order_end'')
      else
        rbind (require_int64 ''source_start_ns'' (source_start_ns s)) (\<lambda>_.
        rbind (require_int64 ''source_end_ns'' (source_end_ns s)) (\<lambda>_.
        rbind (require_int64 ''source_anchor_ns'' (source_anchor_ns s)) (\<lambda>_.
        rbind (require_int64 ''canonical_anchor_ns'' (canonical_anchor_ns s)) (\<lambda>_.
          if source_start_ns s \<ge> source_end_ns s
          then Inl (ValueError ''source_start_ns must be less than source_end_ns'')
          else if rate_numerator s \<le> 0 \<or> rate_denominator s \<le> 0
          then Inl (ValueError ''rate numerator and denominator must be positive'')
          else if source_epoch_id s = []
          then Inl (ValueError ''source_epoch_id must be a nonempty string'')
          else if segment_id s = Some []
          then Inl (ValueError ''segment_id must be a nonempty string when provided'')
          else Inr s)))))"

definition valid_segment :: "RationalTransformSegment \<Rightarrow> bool" where
  "valid_segment s \<longleftrightarrow> segment_post_init s = Inr s"

definition contains_order :: "RationalTransformSegment \<Rightarrow> int \<Rightarrow> bool" where
  "contains_order s source_order \<longleftrightarrow>
     source_order_start s \<le> source_order \<and> source_order < source_order_end s"

definition contains_timestamp :: "RationalTransformSegment \<Rightarrow> int \<Rightarrow> bool py" where
  "contains_timestamp s source_timestamp_ns =
     rbind (require_int64 ''source_timestamp_ns'' source_timestamp_ns) (\<lambda>_.
       Inr (source_start_ns s \<le> source_timestamp_ns \<and> source_timestamp_ns < source_end_ns s))"

definition segment_apply ::
    "RationalTransformSegment \<Rightarrow> int \<Rightarrow> int option \<Rightarrow> int py" where
  "segment_apply s source_timestamp_ns source_order =
     rbind (require_int64 ''source_timestamp_ns'' source_timestamp_ns) (\<lambda>_.
     rbind (contains_timestamp s source_timestamp_ns) (\<lambda>inside.
       if \<not> inside
       then Inl (ValueError ''source timestamp is outside the segment's half-open range'')
       else if (case source_order of None \<Rightarrow> False | Some n \<Rightarrow> \<not> contains_order s n)
       then Inl (ValueError ''source order is outside the segment's half-open range'')
       else
         let delta_source_ns = source_timestamp_ns - source_anchor_ns s in
         rbind (round_half_even (delta_source_ns * rate_numerator s) (rate_denominator s))
           (\<lambda>scaled_delta_ns.
             let aligned_timestamp_ns = canonical_anchor_ns s + scaled_delta_ns in
             if aligned_timestamp_ns < INT64_MIN \<or> aligned_timestamp_ns > INT64_MAX
             then Inl (OverflowError
                    ''aligned timestamp does not fit in signed int64 nanoseconds'')
             else Inr aligned_timestamp_ns)))"

lemma valid_segmentD:
  assumes "valid_segment s"
  shows "0 \<le> source_order_start s" and "source_order_start s < source_order_end s"
    and "source_start_ns s < source_end_ns s" and "0 < rate_numerator s" and "0 < rate_denominator s"
    and "int64 (source_start_ns s)" and "int64 (source_end_ns s)"
  using assms
  by (auto simp: valid_segment_def segment_post_init_def result_simps not_le not_less)

lemma segment_apply_Inr_iff:
  assumes "valid_segment s"
  shows "segment_apply s t ord = Inr a \<longleftrightarrow>
    int64 t \<and> source_start_ns s \<le> t \<and> t < source_end_ns s
    \<and> (\<forall>n. ord = Some n \<longrightarrow> contains_order s n)
    \<and> nearest_half_even ((t - source_anchor_ns s) * rate_numerator s) (rate_denominator s)
        (a - canonical_anchor_ns s)
    \<and> int64 a"
  using valid_segmentD(5) [OF assms]
  by (auto simp: segment_apply_def contains_timestamp_def result_simps Let_def int64_def
      split: option.splits)

section \<open>Half-open ranges in order\<close>

text \<open>
  The interface between a sequence of half-open ranges and the binary search over their
  starts: each range is nonempty. A list in which every range starts at or after the end
  of its predecessor has sorted starts, and the last range that starts at or before a
  point is the only one that can contain it.
\<close>

locale half_open_ranges =
  fixes invar :: "'s \<Rightarrow> bool" and lower :: "'s \<Rightarrow> int" and upper :: "'s \<Rightarrow> int"
  assumes range_nonempty: "invar s \<Longrightarrow> lower s < upper s"
begin

definition chained :: "'s list \<Rightarrow> bool" where
  "chained xs \<longleftrightarrow> list_all invar xs \<and> successively (\<lambda>p c. upper p \<le> lower c) xs"

lemma chained_Cons: "chained (x # xs) \<Longrightarrow> chained xs"
  by (cases xs) (auto simp: chained_def)

lemma chained_after: "chained (x # xs) \<Longrightarrow> y \<in> set xs \<Longrightarrow> upper x \<le> lower y"
proof (induction xs arbitrary: x)
  case Nil
  then show ?case by simp
next
  case (Cons z zs)
  have xz: "upper x \<le> lower z" and z: "lower z < upper z"
    using Cons.prems(1) range_nonempty by (auto simp: chained_def)
  show ?case
  proof (cases "y = z")
    case True
    with xz show ?thesis by simp
  next
    case False
    with Cons.prems have "upper z \<le> lower y"
      using Cons.IH [of z] chained_Cons by auto
    with xz z show ?thesis by linarith
  qed
qed

lemma chained_sorted: "chained xs \<Longrightarrow> sorted (map lower xs)"
proof (induction xs)
  case Nil
  then show ?case by simp
next
  case (Cons x xs)
  have "lower x < upper x" using Cons.prems range_nonempty by (auto simp: chained_def)
  then have "\<forall>y \<in> set xs. lower x \<le> lower y"
    using chained_after [OF Cons.prems] by fastforce
  with Cons show ?case by (auto dest: chained_Cons)
qed

lemma chained_disjoint:
  assumes "chained xs" and "i < j" and "j < length xs"
  shows "upper (xs ! i) \<le> lower (xs ! j)"
  using assms
proof (induction xs arbitrary: i j)
  case Nil
  then show ?case by simp
next
  case (Cons x xs)
  show ?case
  proof (cases i)
    case 0
    with Cons.prems chained_after [OF Cons.prems(1)] show ?thesis by (cases j) auto
  next
    case (Suc i')
    with Cons.prems obtain j' where "j = Suc j'" by (cases j) auto
    with Suc Cons.prems Cons.IH [of i' j'] show ?thesis by (auto dest: chained_Cons)
  qed
qed

lemma bisect_finds_range:
  assumes "chained xs" and "i < length xs" and "lower (xs ! i) \<le> p" and "p < upper (xs ! i)"
  shows "bisect_right (map lower xs) p 0 (length xs) = Suc i"
proof -
  let ?b = "bisect_right (map lower xs) p 0 (length xs)"
  have sorted: "sorted (map lower xs)" using assms(1) by (rule chained_sorted)
  have "\<not> ?b \<le> i"
    using bisect_right_above [OF sorted, of p i] assms(2,3) by auto
  moreover have "\<not> Suc i < ?b"
  proof
    assume less: "Suc i < ?b"
    have bound: "?b \<le> length xs" using bisect_right_le_length [OF sorted, of p] by simp
    have "map lower xs ! Suc i \<le> p"
      using bisect_right_below [OF sorted, of "Suc i" p] less by simp
    then have "lower (xs ! Suc i) \<le> p" using less bound by simp
    moreover have "upper (xs ! i) \<le> lower (xs ! Suc i)"
      using chained_disjoint [OF assms(1), of i "Suc i"] less bound by simp
    ultimately show False using assms(4) by simp
  qed
  ultimately show ?thesis by simp
qed

end

interpretation seg: half_open_ranges valid_segment source_order_start source_order_end
  by unfold_locales (rule valid_segmentD(2))

section \<open>Piecewise alignment\<close>

record PiecewiseAlignment =
  segments :: "RationalTransformSegment list"
  order_starts :: "int list"

fun check_segment_order :: "RationalTransformSegment list \<Rightarrow> unit py" where
  "check_segment_order (previous # current # rest) =
     (if source_order_start current < source_order_start previous
      then Inl (ValueError ''alignment segments are out of source-order sequence'')
      else if source_order_start current < source_order_end previous
      then Inl (ValueError ''alignment segment source-order ranges overlap'')
      else check_segment_order (current # rest))"
| "check_segment_order _ = Inr ()"

definition piecewise_init :: "RationalTransformSegment list \<Rightarrow> PiecewiseAlignment py" where
  "piecewise_init segs =
     (if segs = [] then Inl (ValueError ''piecewise alignment requires at least one segment'')
      else rbind (check_segment_order segs) (\<lambda>_.
        Inr \<lparr>segments = segs, order_starts = map source_order_start segs\<rparr>))"

definition segment_for ::
    "PiecewiseAlignment \<Rightarrow> int \<Rightarrow> int option \<Rightarrow> RationalTransformSegment py" where
  "segment_for p source_order source_timestamp_ns =
     (let starts = order_starts p;
          candidate_index = int (bisect_right starts source_order 0 (length starts)) - 1
      in if candidate_index < 0
         then Inl (ValueError ''source order is not covered by an alignment segment'')
         else
           let segment = segments p ! nat candidate_index in
           if \<not> contains_order segment source_order
           then Inl (ValueError ''source order is not covered by an alignment segment'')
           else case source_timestamp_ns of
               None \<Rightarrow> Inr segment
             | Some t \<Rightarrow> rbind (contains_timestamp segment t) (\<lambda>inside.
                 if \<not> inside
                 then Inl (ValueError
                        ''source timestamp is outside the source-order-selected segment'')
                 else Inr segment))"

definition piecewise_apply :: "PiecewiseAlignment \<Rightarrow> int \<Rightarrow> int \<Rightarrow> int py" where
  "piecewise_apply p source_order source_timestamp_ns =
     rbind (segment_for p source_order (Some source_timestamp_ns)) (\<lambda>segment.
       segment_apply segment source_timestamp_ns (Some source_order))"

lemma check_segment_order_chained:
  "check_segment_order segs = Inr u \<Longrightarrow>
    successively (\<lambda>p c. source_order_end p \<le> source_order_start c) segs"
  by (induction segs rule: check_segment_order.induct) (auto simp: result_simps)

lemma piecewise_init_chained:
  assumes "list_all valid_segment segs" and "piecewise_init segs = Inr p"
  shows "seg.chained segs" and "segments p = segs"
    and "order_starts p = map source_order_start segs"
  using assms check_segment_order_chained
  by (auto simp: piecewise_init_def result_simps seg.chained_def)

lemma segment_for_in:
  assumes valid: "list_all valid_segment segs" and init: "piecewise_init segs = Inr p"
    and sel: "segment_for p n ts = Inr s"
  shows "s \<in> set segs" and "contains_order s n"
    and "ts = Some t \<Longrightarrow> source_start_ns s \<le> t \<and> t < source_end_ns s"
proof -
  note ch = piecewise_init_chained [OF valid init]
  let ?b = "bisect_right (map source_order_start segs) n 0 (length segs)"
  have b: "?b \<le> length segs"
    using bisect_right_le_length [OF seg.chained_sorted [OF ch(1)], of n] by simp
  have nz: "?b \<noteq> 0" and s: "s = segs ! (?b - 1)" and o: "contains_order s n"
    and t: "ts = Some t \<Longrightarrow> source_start_ns s \<le> t \<and> t < source_end_ns s"
    using sel ch(2,3)
    by (auto simp: segment_for_def Let_def nat_diff_distrib contains_timestamp_def result_simps
        split: if_splits option.splits)
  show "s \<in> set segs" using nz s b by (auto simp: in_set_conv_nth intro: exI [of _ "?b - 1"])
  show "contains_order s n" by (rule o)
  show "ts = Some t \<Longrightarrow> source_start_ns s \<le> t \<and> t < source_end_ns s" by (rule t)
qed

lemma segment_for_complete:
  assumes valid: "list_all valid_segment segs" and init: "piecewise_init segs = Inr p"
    and s: "s \<in> set segs" "contains_order s n"
  shows "segment_for p n None = Inr s"
proof -
  note ch = piecewise_init_chained [OF valid init]
  from s(1) obtain i where i: "i < length segs" "segs ! i = s" by (auto simp: in_set_conv_nth)
  have "bisect_right (map source_order_start segs) n 0 (length segs) = Suc i"
    using seg.bisect_finds_range [OF ch(1) i(1)] i(2) s(2) by (simp add: contains_order_def)
  with ch(2,3) i s(2) show ?thesis by (simp add: segment_for_def)
qed

section \<open>Properties\<close>

text \<open>
  \<open>round_half_even\<close> raises exactly on a nonpositive denominator, and otherwise
  returns the integer nearest to the exact quotient, the even one of the two on a tie;
  that integer is unique.
\<close>

theorem round_half_even_correct:
  "(d \<le> 0 \<longleftrightarrow> round_half_even n d = Inl (ValueError ''denominator must be positive''))
   \<and> (0 < d \<longrightarrow> (\<exists>!q. nearest_half_even n d q))
   \<and> (0 < d \<longrightarrow> (\<exists>q. round_half_even n d = Inr q \<and> nearest_half_even n d q))"
proof (cases "0 < d")
  case True
  with round_half_even_nearest [OF True, of n] nearest_half_even_unique [OF True] show ?thesis
    by auto
next
  case False
  then show ?thesis by (simp add: round_half_even_def)
qed

theorem round_half_even_correct_witness:
  "(\<exists>q. round_half_even 7 2 = Inr q \<and> nearest_half_even 7 2 q)
   \<and> round_half_even 7 2 = Inr 4 \<and> round_half_even (- 5) 2 = Inr (- 2)
   \<and> round_half_even 1 0 = Inl (ValueError ''denominator must be positive'')"
proof (intro conjI)
  show "\<exists>q. round_half_even 7 2 = Inr q \<and> nearest_half_even 7 2 q"
    using round_half_even_correct [of 2 7] by simp
qed (simp_all add: round_half_even_def)

text \<open>
  C40. On a valid segment, \<open>apply\<close> never leaves signed 64-bit nanoseconds, deviates
  from the exact rational image of the timestamp by at most half a nanosecond, and keeps
  the order of timestamps (a later source timestamp never maps to an earlier canonical one).
\<close>

theorem segment_apply_sound:
  assumes "valid_segment s" and "segment_apply s t ord = Inr a" and "segment_apply s t' ord' = Inr a'"
  shows "int64 a
    \<and> 2 * \<bar>(t - source_anchor_ns s) * rate_numerator s
            - rate_denominator s * (a - canonical_anchor_ns s)\<bar> \<le> rate_denominator s
    \<and> (t \<le> t' \<longrightarrow> a \<le> a')"
proof -
  let ?n = "\<lambda>t. (t - source_anchor_ns s) * rate_numerator s"
  have d: "0 < rate_denominator s" and num: "0 < rate_numerator s"
    using valid_segmentD [OF assms(1)] by auto
  have a: "int64 a" "nearest_half_even (?n t) (rate_denominator s) (a - canonical_anchor_ns s)"
    and a': "nearest_half_even (?n t') (rate_denominator s) (a' - canonical_anchor_ns s)"
    using assms(2,3) segment_apply_Inr_iff [OF assms(1)] by auto
  have "?n t \<le> ?n t'" if "t \<le> t'" using that num by (simp add: mult_right_mono)
  then have "t \<le> t' \<longrightarrow> a \<le> a'"
    using nearest_half_even_mono [OF d a(2) a'] by auto
  with a show ?thesis by (simp add: nearest_half_even_def)
qed

definition demo_segment :: RationalTransformSegment where
  "demo_segment = \<lparr>source_order_start = 0, source_order_end = 10, source_start_ns = 0,
     source_end_ns = 1000, source_anchor_ns = 0, canonical_anchor_ns = 5, rate_numerator = 1,
     rate_denominator = 2, source_epoch_id = ''e'', segment_id = None\<rparr>"

lemma demo_segment_valid: "valid_segment demo_segment"
  by (simp add: valid_segment_def segment_post_init_def demo_segment_def require_int64_def
      INT64_MIN_def INT64_MAX_def)

lemma demo_segment_apply:
  "segment_apply demo_segment 3 (Some 1) = Inr 7" "segment_apply demo_segment 5 None = Inr 7"
  by (simp_all add: segment_apply_def demo_segment_def require_int64_def contains_timestamp_def
      contains_order_def round_half_even_def INT64_MIN_def INT64_MAX_def Let_def)

theorem segment_apply_sound_witness:
  "segment_apply demo_segment 3 (Some 1) = Inr 7 \<and> int64 7"
  using segment_apply_sound [OF demo_segment_valid demo_segment_apply] demo_segment_apply by simp

text \<open>
  C39. For validated segments accepted by the constructor, selection by message order
  returns a segment exactly when one covers the order, and it returns that segment: the
  binary search finds the unique covering segment and otherwise raises.
\<close>

theorem segment_for_correct:
  assumes "list_all valid_segment segs" and "piecewise_init segs = Inr p"
  shows "segment_for p n None = Inr s \<longleftrightarrow> s \<in> set segs \<and> contains_order s n"
  using segment_for_in [OF assms] segment_for_complete [OF assms] by blast

theorem segment_for_correct_witness:
  "segment_for \<lparr>segments = [demo_segment], order_starts = [0]\<rparr> 3 None = Inr demo_segment"
proof -
  have init: "piecewise_init [demo_segment] = Inr \<lparr>segments = [demo_segment], order_starts = [0]\<rparr>"
    by (simp add: piecewise_init_def demo_segment_def)
  have valid: "list_all valid_segment [demo_segment]" using demo_segment_valid by simp
  show ?thesis
    using segment_for_correct [OF valid init, of 3 demo_segment]
    by (simp add: contains_order_def demo_segment_def)
qed

end
