(* ===== verification/Stream_Queues.thy ===== *)
theory Stream_Queues
  imports Work_Operations Rational_Time Complex_Main
begin

text \<open>
  The bounded runtime lanes of \<^verbatim>\<open>src/robata/queue/stream_runtime.py\<close>: configuration, errors, the
  state that \<open>BoundedStreamWorkQueues\<close> keeps under its lock, and the blocks of code that
  run while the lock is held. The threads that execute these blocks are in \<open>Stream_Workers\<close>
  and \<open>Stream_Calls\<close>.
\<close>

section \<open>The scheduler the runtime relies on\<close>

text \<open>
  The protocol \<open>DurableStreamWorkScheduler\<close>, over any type \<open>'l\<close> of durable state. A call
  returns the state it leaves and a result or the exception it raises. The time the
  scheduler reads from its clock and the token it draws are arguments.
\<close>

record 'l DurableStreamWorkScheduler =
  ws_get :: "string \<Rightarrow> 'l \<Rightarrow> 'l \<times> (work_error + WorkItem)"
  ws_items_for_run :: "string \<Rightarrow> 'l \<Rightarrow> 'l \<times> (work_error + WorkItem list)"
  ws_ready_for_run :: "string \<Rightarrow> int \<Rightarrow> 'l \<Rightarrow> 'l \<times> (work_error + WorkItem list)"
  ws_reconcile :: "time \<Rightarrow> 'l \<Rightarrow> 'l \<times> (work_error + nat)"
  ws_claim_and_start :: "string \<Rightarrow> int \<Rightarrow> string option \<Rightarrow> time \<Rightarrow> string \<Rightarrow> 'l \<Rightarrow> 'l \<times> (work_error + WorkLeaseClaim option)"
  ws_fail :: "WorkLease \<Rightarrow> string \<Rightarrow> bool \<Rightarrow> string option \<Rightarrow> int \<Rightarrow> time \<Rightarrow> 'l \<Rightarrow> 'l \<times> (work_error + WorkItem)"
  ws_heartbeat :: "WorkLease \<Rightarrow> int \<Rightarrow> time \<Rightarrow> 'l \<Rightarrow> 'l \<times> (work_error + WorkLease)"
  ws_succeed :: "WorkLease \<Rightarrow> time \<Rightarrow> 'l \<Rightarrow> 'l \<times> (work_error + WorkItem)"
  ws_cancel :: "string \<Rightarrow> string \<Rightarrow> string option \<Rightarrow> time \<Rightarrow> 'l \<Rightarrow> 'l \<times> (work_error + WorkItem)"

text \<open>The local implementation, \<open>SQLiteWorkScheduler\<close>.\<close>

definition sqlite_work_scheduler :: "ledger DurableStreamWorkScheduler" where
  "sqlite_work_scheduler =
     \<lparr>ws_get = get_item, ws_items_for_run = items_for_run, ws_ready_for_run = ready_for_run,
      ws_reconcile = reconcile, ws_claim_and_start = claim_and_start, ws_fail = fail,
      ws_heartbeat = heartbeat, ws_succeed = (\<lambda>lease. succeed lease None None), ws_cancel = cancel\<rparr>"

section \<open>Errors\<close>

text \<open>
  The exceptions the runtime sees: the two it declares, those of the scheduler, its own
  argument errors, and any other exception of a callback by class name and \<open>str\<close>.
\<close>

datatype stream_error =
    StreamQueueRetryableError string "string option" "int option"
  | StreamQueuePermanentError string "string option"
  | SchedulerError work_error
  | StreamValueError string
  | CallbackError string string

definition require_nonempty :: "string \<Rightarrow> string \<Rightarrow> stream_error + string" where
  "require_nonempty v name =
     (if py_blank v then Inl (StreamValueError (name @ '' must be a non-empty string'')) else Inr v)"

definition require_positive_int :: "int \<Rightarrow> string \<Rightarrow> stream_error + int" where
  "require_positive_int v name =
     (if v \<le> 0 then Inl (StreamValueError (name @ '' must be a positive integer'')) else Inr v)"

definition require_nonnegative_int :: "int \<Rightarrow> string \<Rightarrow> stream_error + int" where
  "require_nonnegative_int v name =
     (if v < 0 then Inl (StreamValueError (name @ '' must be a nonnegative integer'')) else Inr v)"

definition optional_nonempty :: "string option \<Rightarrow> string \<Rightarrow> stream_error + string option" where
  "optional_nonempty v name =
     (case v of None \<Rightarrow> Inr None | Some s \<Rightarrow> rbind (require_nonempty s name) (\<lambda>t. Inr (Some t)))"

definition retryable_error :: "string \<Rightarrow> string option \<Rightarrow> int option \<Rightarrow> stream_error + stream_error" where
  "retryable_error code detail delay =
     rbind (require_nonempty code ''error_code'') (\<lambda>c.
     rbind (optional_nonempty detail ''detail'') (\<lambda>d.
     rbind (case delay of None \<Rightarrow> Inr None
            | Some s \<Rightarrow> rbind (require_nonnegative_int s ''retry_delay_seconds'') (\<lambda>t. Inr (Some t))) (\<lambda>s.
       Inr (StreamQueueRetryableError c d s))))"

definition permanent_error :: "string \<Rightarrow> string option \<Rightarrow> stream_error + stream_error" where
  "permanent_error code detail =
     rbind (require_nonempty code ''error_code'') (\<lambda>c.
     rbind (optional_nonempty detail ''detail'') (\<lambda>d. Inr (StreamQueuePermanentError c d)))"

text \<open>An exception a callback can raise: one of the runtime's own classes has passed its
  constructor.\<close>

fun raisable :: "stream_error \<Rightarrow> bool" where
  "raisable (StreamQueueRetryableError c d s) \<longleftrightarrow> retryable_error c d s = Inr (StreamQueueRetryableError c d s)"
| "raisable (StreamQueuePermanentError c d) \<longleftrightarrow> permanent_error c d = Inr (StreamQueuePermanentError c d)"
| "raisable e \<longleftrightarrow> True"

fun work_error_parts :: "work_error \<Rightarrow> string \<times> string" where
  "work_error_parts (WorkStorageError m) = (''WorkStorageError'', m)"
| "work_error_parts (WorkConflictError m) = (''WorkConflictError'', m)"
| "work_error_parts (WorkNotFoundError m) = (''WorkNotFoundError'', m)"
| "work_error_parts (WorkFenceError m) = (''WorkFenceError'', m)"
| "work_error_parts (WorkStateError m) = (''WorkStateError'', m)"
| "work_error_parts (WorkValueError m) = (''ValueError'', m)"

text \<open>Class name and \<open>str\<close> of an exception.\<close>

fun error_parts :: "stream_error \<Rightarrow> string \<times> string" where
  "error_parts (StreamQueueRetryableError c d s) =
     (''StreamQueueRetryableError'', case d of None \<Rightarrow> c | Some t \<Rightarrow> t)"
| "error_parts (StreamQueuePermanentError c d) =
     (''StreamQueuePermanentError'', case d of None \<Rightarrow> c | Some t \<Rightarrow> t)"
| "error_parts (SchedulerError e) = work_error_parts e"
| "error_parts (StreamValueError m) = (''ValueError'', m)"
| "error_parts (CallbackError cls m) = (cls, m)"

definition exception_detail :: "stream_error \<Rightarrow> string" where
  "exception_detail e =
     (let detail = py_strip (snd (error_parts e)) in if detail = [] then fst (error_parts e) else detail)"

definition is_fence_error :: "stream_error \<Rightarrow> bool" where
  "is_fence_error e \<longleftrightarrow> fst (error_parts e) \<in> {''WorkFenceError'', ''WorkStateError''}"

section \<open>Configuration\<close>

record BoundedStreamWorkQueuesConfig =
  cfg_run_id :: string
  ingress_capacity :: int
  provider_capacity :: int
  publish_capacity :: int
  provider_worker_count :: int
  publish_worker_count :: int
  lease_duration_seconds :: int
  retry_delay_seconds :: int
  recovery_poll_seconds :: rat
  optional_shed_watermark :: rat
  optional_stages :: "Stage list"
  optional_work_predicate :: "(WorkItem \<Rightarrow> stream_error + bool) option"
  optional_work_shedding_actions :: "string list"

definition config_post_init :: "BoundedStreamWorkQueuesConfig \<Rightarrow> stream_error + BoundedStreamWorkQueuesConfig" where
  "config_post_init c =
     rbind (require_nonempty (cfg_run_id c) ''run_id'') (\<lambda>_.
     rbind (require_positive_int (ingress_capacity c) ''ingress_capacity'') (\<lambda>_.
     rbind (require_positive_int (provider_capacity c) ''provider_capacity'') (\<lambda>_.
     rbind (require_positive_int (publish_capacity c) ''publish_capacity'') (\<lambda>_.
     rbind (require_positive_int (provider_worker_count c) ''provider_worker_count'') (\<lambda>_.
     rbind (require_positive_int (publish_worker_count c) ''publish_worker_count'') (\<lambda>_.
     rbind (require_positive_int (lease_duration_seconds c) ''lease_duration_seconds'') (\<lambda>_.
     rbind (require_nonnegative_int (retry_delay_seconds c) ''retry_delay_seconds'') (\<lambda>_.
       if recovery_poll_seconds c \<le> 0
       then Inl (StreamValueError ''recovery_poll_seconds must be a positive number'')
       else if optional_shed_watermark c \<le> 0 \<or> 1 < optional_shed_watermark c
       then Inl (StreamValueError ''optional_shed_watermark must be in (0, 1]'')
       else if \<not> distinct (optional_stages c)
       then Inl (StreamValueError ''optional_stages must be unique'')
       else if optional_work_shedding_actions c = []
       then Inl (StreamValueError ''optional_work_shedding_actions must not be empty'')
       else if hd (optional_work_shedding_actions c) \<noteq> ''STOP_OPTIONAL_DEEP''
       then Inl (StreamValueError ''optional_work_shedding_actions must begin with STOP_OPTIONAL_DEEP'')
       else if \<not> distinct (optional_work_shedding_actions c)
       then Inl (StreamValueError ''optional_work_shedding_actions must be unique'')
       else if list_ex py_blank (optional_work_shedding_actions c)
       then Inl (StreamValueError ''optional_work_shedding_actions must contain non-empty strings'')
       else Inr c))))))))"

definition config_ok :: "BoundedStreamWorkQueuesConfig \<Rightarrow> bool" where
  "config_ok c \<longleftrightarrow> \<not> isl (config_post_init c)"

section \<open>Lanes, counters and notifications\<close>

datatype StreamQueueLane = INGRESS | PROVIDER | PUBLISH

definition lane_value :: "StreamQueueLane \<Rightarrow> string" where
  "lane_value lane = (case lane of INGRESS \<Rightarrow> ''INGRESS'' | PROVIDER \<Rightarrow> ''PROVIDER'' | PUBLISH \<Rightarrow> ''PUBLISH'')"

datatype StreamQueueAdmissionStatus =
    ACCEPTED | DUPLICATE | CLOSED | NOT_READY | WRONG_RUN | INGRESS_FULL | PROVIDER_FULL | PUBLISH_FULL
  | SHED_OPTIONAL

record LaneCounters =
  c_admitted :: int
  c_forwarded :: int
  c_completed :: int
  c_failed :: int
  c_cancelled :: int
  c_rejected :: int
  c_active :: int
  c_maximum_queued :: int
  c_shed_optional :: int
  c_backpressure_waits :: int

record QueueTelemetryCounters =
  t_optional_work_offered :: int
  t_optional_work_admitted :: int
  t_optional_work_shed :: int
  t_backpressure_waits :: int
  t_recovery_count :: int
  t_recovery_admitted :: int
  t_recovery_shed :: int
  t_backlog_count :: int
  t_lease_renewals :: int
  t_lease_renewal_errors :: int

text \<open>
  A \<open>_PublishTask\<close>. Its heartbeat is a reference, an index into the list of the heartbeat
  objects created so far.
\<close>

record 'r PublishTask =
  task_claim :: WorkLeaseClaim
  task_result :: 'r
  task_heartbeat :: nat

definition task_id :: "'r PublishTask \<Rightarrow> string" where
  "task_id t = work_item_id (claimed_item (task_claim t))"

record 'r BoundedStreamWorkQueues =
  rt_ingress :: "string list"
  rt_provider :: "string list"
  rt_publish :: "'r PublishTask list"
  rt_closed :: bool
  rt_stop :: bool
  rt_scheduled :: "string set"
  rt_cancel_requested :: "string set"
  rt_heartbeats :: "nat set"
  rt_counters :: "StreamQueueLane \<Rightarrow> LaneCounters"
  rt_telemetry :: QueueTelemetryCounters
  rt_optional :: "string set"
  rt_shed :: "string set"
  rt_backlog_peak :: int
  rt_last_error :: "string option"

definition zero_counters :: LaneCounters where
  "zero_counters = \<lparr>c_admitted = 0, c_forwarded = 0, c_completed = 0, c_failed = 0, c_cancelled = 0,
     c_rejected = 0, c_active = 0, c_maximum_queued = 0, c_shed_optional = 0, c_backpressure_waits = 0\<rparr>"

definition zero_telemetry :: QueueTelemetryCounters where
  "zero_telemetry = \<lparr>t_optional_work_offered = 0, t_optional_work_admitted = 0, t_optional_work_shed = 0,
     t_backpressure_waits = 0, t_recovery_count = 0, t_recovery_admitted = 0, t_recovery_shed = 0,
     t_backlog_count = 0, t_lease_renewals = 0, t_lease_renewal_errors = 0\<rparr>"

definition queues_init :: "'r BoundedStreamWorkQueues" where
  "queues_init = \<lparr>rt_ingress = [], rt_provider = [], rt_publish = [], rt_closed = False, rt_stop = False,
     rt_scheduled = {}, rt_cancel_requested = {}, rt_heartbeats = {}, rt_counters = (\<lambda>_. zero_counters),
     rt_telemetry = zero_telemetry, rt_optional = {}, rt_shed = {}, rt_backlog_peak = 0, rt_last_error = None\<rparr>"

section \<open>Blocks executed under the lock\<close>

text \<open>
  Each definition is one \<open>with self._lock\<close> block, or one operation of a \<open>Queue\<close> or
  \<open>Event\<close>, and takes the state to the state.
\<close>

definition upd_lane ::
    "StreamQueueLane \<Rightarrow> (LaneCounters \<Rightarrow> LaneCounters) \<Rightarrow> 'r BoundedStreamWorkQueues \<Rightarrow> 'r BoundedStreamWorkQueues" where
  "upd_lane lane f q = q\<lparr>rt_counters := (rt_counters q)(lane := f (rt_counters q lane))\<rparr>"

definition upd_telemetry ::
    "(QueueTelemetryCounters \<Rightarrow> QueueTelemetryCounters) \<Rightarrow> 'r BoundedStreamWorkQueues \<Rightarrow> 'r BoundedStreamWorkQueues" where
  "upd_telemetry f q = q\<lparr>rt_telemetry := f (rt_telemetry q)\<rparr>"

definition begin_lane :: "StreamQueueLane \<Rightarrow> 'r BoundedStreamWorkQueues \<Rightarrow> 'r BoundedStreamWorkQueues" where
  "begin_lane lane = upd_lane lane (\<lambda>c. c\<lparr>c_active := c_active c + 1\<rparr>)"

definition end_lane :: "StreamQueueLane \<Rightarrow> 'r BoundedStreamWorkQueues \<Rightarrow> 'r BoundedStreamWorkQueues" where
  "end_lane lane = upd_lane lane (\<lambda>c. c\<lparr>c_active := c_active c - 1\<rparr>)"

definition forward_lane :: "StreamQueueLane \<Rightarrow> 'r BoundedStreamWorkQueues \<Rightarrow> 'r BoundedStreamWorkQueues" where
  "forward_lane lane = upd_lane lane (\<lambda>c. c\<lparr>c_forwarded := c_forwarded c + 1\<rparr>)"

definition complete_lane :: "StreamQueueLane \<Rightarrow> 'r BoundedStreamWorkQueues \<Rightarrow> 'r BoundedStreamWorkQueues" where
  "complete_lane lane = upd_lane lane (\<lambda>c. c\<lparr>c_completed := c_completed c + 1\<rparr>)"

definition count_failed :: "StreamQueueLane \<Rightarrow> 'r BoundedStreamWorkQueues \<Rightarrow> 'r BoundedStreamWorkQueues" where
  "count_failed lane = upd_lane lane (\<lambda>c. c\<lparr>c_failed := c_failed c + 1\<rparr>)"

definition count_cancelled :: "StreamQueueLane \<Rightarrow> 'r BoundedStreamWorkQueues \<Rightarrow> 'r BoundedStreamWorkQueues" where
  "count_cancelled lane = upd_lane lane (\<lambda>c. c\<lparr>c_cancelled := c_cancelled c + 1\<rparr>)"

definition lane_qsize :: "StreamQueueLane \<Rightarrow> 'r BoundedStreamWorkQueues \<Rightarrow> nat" where
  "lane_qsize lane q = (case lane of INGRESS \<Rightarrow> length (rt_ingress q) | PROVIDER \<Rightarrow> length (rt_provider q)
     | PUBLISH \<Rightarrow> length (rt_publish q))"

definition lane_capacity :: "BoundedStreamWorkQueuesConfig \<Rightarrow> StreamQueueLane \<Rightarrow> int" where
  "lane_capacity cfg lane = (case lane of INGRESS \<Rightarrow> ingress_capacity cfg | PROVIDER \<Rightarrow> provider_capacity cfg
     | PUBLISH \<Rightarrow> publish_capacity cfg)"

definition lane_full :: "BoundedStreamWorkQueuesConfig \<Rightarrow> StreamQueueLane \<Rightarrow> 'r BoundedStreamWorkQueues \<Rightarrow> bool" where
  "lane_full cfg lane q \<longleftrightarrow> lane_capacity cfg lane \<le> int (lane_qsize lane q)"

definition enqueued :: "StreamQueueLane \<Rightarrow> 'r BoundedStreamWorkQueues \<Rightarrow> 'r BoundedStreamWorkQueues" where
  "enqueued lane q = upd_lane lane (\<lambda>c. c\<lparr>c_admitted := c_admitted c + 1,
     c_maximum_queued := max (c_maximum_queued c) (int (lane_qsize lane q))\<rparr>) q"

definition record_backpressure_wait ::
    "StreamQueueLane \<Rightarrow> 'r BoundedStreamWorkQueues \<Rightarrow> 'r BoundedStreamWorkQueues" where
  "record_backpressure_wait lane q =
     upd_lane lane (\<lambda>c. c\<lparr>c_backpressure_waits := c_backpressure_waits c + 1\<rparr>)
       (upd_telemetry (\<lambda>t. t\<lparr>t_backpressure_waits := t_backpressure_waits t + 1\<rparr>) q)"

definition record_lease_renewal :: "'r BoundedStreamWorkQueues \<Rightarrow> 'r BoundedStreamWorkQueues" where
  "record_lease_renewal = upd_telemetry (\<lambda>t. t\<lparr>t_lease_renewals := t_lease_renewals t + 1\<rparr>)"

definition record_lease_renewal_error :: "'r BoundedStreamWorkQueues \<Rightarrow> 'r BoundedStreamWorkQueues" where
  "record_lease_renewal_error = upd_telemetry (\<lambda>t. t\<lparr>t_lease_renewal_errors := t_lease_renewal_errors t + 1\<rparr>)"

definition record_error :: "stream_error \<Rightarrow> 'r BoundedStreamWorkQueues \<Rightarrow> 'r BoundedStreamWorkQueues" where
  "record_error e q = q\<lparr>rt_last_error := Some (exception_detail e)\<rparr>"

definition cancelled :: "string \<Rightarrow> 'r BoundedStreamWorkQueues \<Rightarrow> bool" where
  "cancelled i q \<longleftrightarrow> i \<in> rt_cancel_requested q"

definition finish_scheduled :: "string \<Rightarrow> 'r BoundedStreamWorkQueues \<Rightarrow> 'r BoundedStreamWorkQueues" where
  "finish_scheduled i q = q\<lparr>rt_scheduled := rt_scheduled q - {i}, rt_optional := rt_optional q - {i},
     rt_shed := rt_shed q - {i}, rt_cancel_requested := rt_cancel_requested q - {i}\<rparr>"

definition track_heartbeat :: "nat \<Rightarrow> 'r BoundedStreamWorkQueues \<Rightarrow> 'r BoundedStreamWorkQueues" where
  "track_heartbeat k q = q\<lparr>rt_heartbeats := insert k (rt_heartbeats q)\<rparr>"

definition untrack_heartbeat :: "nat \<Rightarrow> 'r BoundedStreamWorkQueues \<Rightarrow> 'r BoundedStreamWorkQueues" where
  "untrack_heartbeat k q = q\<lparr>rt_heartbeats := rt_heartbeats q - {k}\<rparr>"

definition backlog_size :: "'r BoundedStreamWorkQueues \<Rightarrow> int" where
  "backlog_size q = int (card (rt_scheduled q)) + int (card (rt_shed q))"

section \<open>Admission\<close>

text \<open>
  \<open>a / b\<close> on the sizes of the lanes, as Python computes it: the quotient rounded to the
  53 bits of a double, ties to even. \<open>bit_length\<close> places the quotient between two powers
  of two, so that the rounded numerator has 53 bits.
\<close>

fun bit_length :: "nat \<Rightarrow> nat" where
  "bit_length n = (if n = 0 then 0 else 1 + bit_length (n div 2))"

declare bit_length.simps [simp del]

definition float_quotient :: "nat \<Rightarrow> nat \<Rightarrow> rat" where
  "float_quotient a b =
     (if a = 0 then 0
      else let k0 = 52 + bit_length b - bit_length a;
               k = (if a * 2 ^ k0 < b * 2 ^ 52 then k0 + 1 else k0)
           in case round_half_even (int (a * 2 ^ k)) (int b) of
                Inl _ \<Rightarrow> 0
              | Inr n \<Rightarrow> of_int n / 2 ^ k)"

definition optional_pressure :: "BoundedStreamWorkQueuesConfig \<Rightarrow> 'r BoundedStreamWorkQueues \<Rightarrow> bool" where
  "optional_pressure cfg q \<longleftrightarrow>
     optional_shed_watermark cfg \<le>
       max (max (float_quotient (length (rt_ingress q)) (nat (ingress_capacity cfg)))
                (float_quotient (length (rt_provider q)) (nat (provider_capacity cfg))))
           (float_quotient (length (rt_publish q)) (nat (publish_capacity cfg)))"

text \<open>The predicate of the configuration may raise; the exception is recorded.\<close>

definition is_optional ::
    "BoundedStreamWorkQueuesConfig \<Rightarrow> WorkItem \<Rightarrow> 'r BoundedStreamWorkQueues \<Rightarrow> 'r BoundedStreamWorkQueues \<times> bool" where
  "is_optional cfg item q =
     (if work_item_id item \<in> rt_optional q then (q, True)
      else if stage item \<in> set (optional_stages cfg) then (q, True)
      else case optional_work_predicate cfg of
             None \<Rightarrow> (q, False)
           | Some f \<Rightarrow> (case f item of Inr b \<Rightarrow> (q, b) | Inl e \<Rightarrow> (record_error e q, False)))"

definition reject_ingress ::
    "StreamQueueAdmissionStatus \<Rightarrow> 'r BoundedStreamWorkQueues \<Rightarrow> 'r BoundedStreamWorkQueues \<times> StreamQueueAdmissionStatus" where
  "reject_ingress status q =
     (let q1 = upd_lane INGRESS (\<lambda>c. c\<lparr>c_rejected := c_rejected c + 1\<rparr>) q
      in (if status \<in> {INGRESS_FULL, PROVIDER_FULL, PUBLISH_FULL} then record_backpressure_wait INGRESS q1 else q1,
          status))"

definition shed_item :: "string \<Rightarrow> 'r BoundedStreamWorkQueues \<Rightarrow> 'r BoundedStreamWorkQueues" where
  "shed_item i q =
     (let q1 = q\<lparr>rt_shed := insert i (rt_shed q)\<rparr>
      in if i \<in> rt_shed q then q1
         else upd_lane INGRESS (\<lambda>c. c\<lparr>c_shed_optional := c_shed_optional c + 1\<rparr>)
           ((upd_telemetry (\<lambda>t. t\<lparr>t_optional_work_shed := t_optional_work_shed t + 1\<rparr>) q1)
             \<lparr>rt_backlog_peak := max (rt_backlog_peak q1) (backlog_size q1)\<rparr>))"

definition enter_ingress :: "bool \<Rightarrow> string \<Rightarrow> 'r BoundedStreamWorkQueues \<Rightarrow> 'r BoundedStreamWorkQueues" where
  "enter_ingress optional i q =
     (let q1 = q\<lparr>rt_ingress := rt_ingress q @ [i], rt_scheduled := insert i (rt_scheduled q)\<rparr>;
          q2 = q1\<lparr>rt_backlog_peak := max (rt_backlog_peak q1) (backlog_size q1)\<rparr>;
          q3 = (if optional
                then upd_telemetry (\<lambda>t. t\<lparr>t_optional_work_admitted := t_optional_work_admitted t + 1\<rparr>) q2 else q2)
      in upd_lane INGRESS (\<lambda>c. c\<lparr>c_admitted := c_admitted c + 1,
           c_maximum_queued := max (c_maximum_queued c) (int (lane_qsize INGRESS q3))\<rparr>) q3)"

definition admit_checked ::
    "BoundedStreamWorkQueuesConfig \<Rightarrow> bool \<Rightarrow> string \<Rightarrow> 'r BoundedStreamWorkQueues
      \<Rightarrow> 'r BoundedStreamWorkQueues \<times> StreamQueueAdmissionStatus" where
  "admit_checked cfg optional i q =
     (let q1 = q\<lparr>rt_shed := rt_shed q - {i}\<rparr>
      in if lane_full cfg PUBLISH q1 then reject_ingress PUBLISH_FULL q1
         else if lane_full cfg PROVIDER q1 then reject_ingress PROVIDER_FULL q1
         else if lane_full cfg INGRESS q1 then reject_ingress INGRESS_FULL q1
         else (enter_ingress optional i q1, ACCEPTED))"

definition admit_ready ::
    "BoundedStreamWorkQueuesConfig \<Rightarrow> WorkItem \<Rightarrow> bool \<Rightarrow> 'r BoundedStreamWorkQueues
      \<Rightarrow> 'r BoundedStreamWorkQueues \<times> StreamQueueAdmissionStatus" where
  "admit_ready cfg item external q =
     (let i = work_item_id item in
      if i \<in> rt_scheduled q then (q, DUPLICATE)
      else if rt_closed q \<and> external then (q, CLOSED)
      else if rt_stop q then (q, CLOSED)
      else if state item \<noteq> READY
      then (q\<lparr>rt_optional := rt_optional q - {i}, rt_shed := rt_shed q - {i}\<rparr>, NOT_READY)
      else
        let (q1, optional) = is_optional cfg item q;
            q2 = (if optional \<and> i \<notin> rt_optional q1
                  then upd_telemetry (\<lambda>t. t\<lparr>t_optional_work_offered := t_optional_work_offered t + 1\<rparr>)
                    (q1\<lparr>rt_optional := insert i (rt_optional q1)\<rparr>)
                  else q1)
        in if optional \<and> optional_pressure cfg q2 then (shed_item i q2, SHED_OPTIONAL)
           else admit_checked cfg optional i q2)"

text \<open>The locked block at the start of \<open>admit\<close>; \<open>None\<close> when the call goes on to read the item.\<close>

definition admit_begin ::
    "string \<Rightarrow> bool \<Rightarrow> 'r BoundedStreamWorkQueues \<Rightarrow> 'r BoundedStreamWorkQueues \<times> StreamQueueAdmissionStatus option" where
  "admit_begin i optional q =
     (let q1 = (if optional
                then (if i \<notin> rt_shed q
                      then upd_telemetry (\<lambda>t. t\<lparr>t_optional_work_offered := t_optional_work_offered t + 1\<rparr>)
                        (q\<lparr>rt_optional := insert i (rt_optional q)\<rparr>)
                      else q\<lparr>rt_optional := insert i (rt_optional q)\<rparr>)
                else q)
      in (q1, if i \<in> rt_scheduled q1 then Some DUPLICATE else if rt_closed q1 then Some CLOSED else None))"

section \<open>Cancellation and shutdown\<close>

text \<open>The first locked block of \<open>cancel\<close>, with the local variable \<open>tracked\<close>.\<close>

definition mark_cancel :: "string \<Rightarrow> 'r BoundedStreamWorkQueues \<Rightarrow> 'r BoundedStreamWorkQueues \<times> bool" where
  "mark_cancel i q =
     (if i \<in> rt_scheduled q then (q\<lparr>rt_cancel_requested := insert i (rt_cancel_requested q)\<rparr>, True) else (q, False))"

definition unmark_cancel :: "string \<Rightarrow> 'r BoundedStreamWorkQueues \<Rightarrow> 'r BoundedStreamWorkQueues" where
  "unmark_cancel i q = q\<lparr>rt_cancel_requested := rt_cancel_requested q - {i}\<rparr>"

definition forget_cancelled :: "string \<Rightarrow> bool \<Rightarrow> 'r BoundedStreamWorkQueues \<Rightarrow> 'r BoundedStreamWorkQueues" where
  "forget_cancelled i tracked q =
     (let q1 = q\<lparr>rt_scheduled := rt_scheduled q - {i}, rt_optional := rt_optional q - {i}, rt_shed := rt_shed q - {i}\<rparr>
      in if tracked then q1 else unmark_cancel i q1)"

definition mark_cancel_pending :: "string list \<Rightarrow> 'r BoundedStreamWorkQueues \<Rightarrow> 'r BoundedStreamWorkQueues" where
  "mark_cancel_pending ids q = q\<lparr>rt_cancel_requested := rt_cancel_requested q \<union> set ids\<rparr>"

text \<open>One round of \<open>_discard_queue\<close> after the value was taken from the lane.\<close>

definition discard_notification ::
    "StreamQueueLane \<Rightarrow> string set \<Rightarrow> string \<Rightarrow> 'r BoundedStreamWorkQueues \<Rightarrow> 'r BoundedStreamWorkQueues" where
  "discard_notification lane cancelled_ids i q =
     (upd_lane lane (\<lambda>c. if i \<in> cancelled_ids then c\<lparr>c_cancelled := c_cancelled c + 1\<rparr>
         else c\<lparr>c_rejected := c_rejected c + 1\<rparr>) q)
       \<lparr>rt_scheduled := rt_scheduled q - {i}, rt_optional := rt_optional q - {i}, rt_shed := rt_shed q - {i}\<rparr>"

definition clear_cancelled :: "string set \<Rightarrow> 'r BoundedStreamWorkQueues \<Rightarrow> 'r BoundedStreamWorkQueues" where
  "clear_cancelled ids q = q\<lparr>rt_scheduled := rt_scheduled q - ids, rt_optional := rt_optional q - ids,
     rt_shed := rt_shed q - ids\<rparr>"

section \<open>Inspection\<close>

definition recovery_ready_limit :: "BoundedStreamWorkQueuesConfig \<Rightarrow> int" where
  "recovery_ready_limit cfg = ingress_capacity cfg + provider_capacity cfg + publish_capacity cfg
     + provider_worker_count cfg + publish_worker_count cfg"

definition runtime_idle :: "'r BoundedStreamWorkQueues \<Rightarrow> bool" where
  "runtime_idle q \<longleftrightarrow> rt_scheduled q = {} \<and> rt_ingress q = [] \<and> rt_provider q = [] \<and> rt_publish q = []
     \<and> c_active (rt_counters q INGRESS) = 0 \<and> c_active (rt_counters q PROVIDER) = 0
     \<and> c_active (rt_counters q PUBLISH) = 0"

text \<open>The counters of one lane, as \<open>_lane_snapshot\<close> reports them.\<close>

record StreamQueueLaneSnapshot =
  snap_capacity :: int
  snap_queued :: int
  snap_counters :: LaneCounters

definition lane_snapshot ::
    "BoundedStreamWorkQueuesConfig \<Rightarrow> StreamQueueLane \<Rightarrow> 'r BoundedStreamWorkQueues \<Rightarrow> StreamQueueLaneSnapshot" where
  "lane_snapshot cfg lane q = \<lparr>snap_capacity = lane_capacity cfg lane, snap_queued = int (lane_qsize lane q),
     snap_counters = rt_counters q lane\<rparr>"

record BoundedStreamWorkQueuesSnapshot =
  snap_closed :: bool
  snap_scheduled_work_count :: int
  snap_lanes :: "StreamQueueLane \<Rightarrow> StreamQueueLaneSnapshot"
  snap_last_error :: "string option"
  snap_telemetry :: QueueTelemetryCounters
  snap_backlog_peak :: int
  snap_backlog_end :: int
  snap_shedding_actions :: "string list"

definition queues_snapshot ::
    "BoundedStreamWorkQueuesConfig \<Rightarrow> 'r BoundedStreamWorkQueues \<Rightarrow> 'r BoundedStreamWorkQueues \<times> BoundedStreamWorkQueuesSnapshot" where
  "queues_snapshot cfg q =
     (let q1 = q\<lparr>rt_backlog_peak := max (rt_backlog_peak q) (backlog_size q)\<rparr>
      in (q1, \<lparr>snap_closed = rt_closed q1, snap_scheduled_work_count = int (card (rt_scheduled q1)),
        snap_lanes = (\<lambda>lane. lane_snapshot cfg lane q1), snap_last_error = rt_last_error q1,
        snap_telemetry = rt_telemetry q1, snap_backlog_peak = rt_backlog_peak q1,
        snap_backlog_end = backlog_size q1, snap_shedding_actions = optional_work_shedding_actions cfg\<rparr>))"

section \<open>What the blocks change\<close>

lemmas block_defs = begin_lane_def end_lane_def forward_lane_def complete_lane_def count_failed_def
  count_cancelled_def enqueued_def record_backpressure_wait_def record_lease_renewal_def
  record_lease_renewal_error_def record_error_def finish_scheduled_def track_heartbeat_def
  untrack_heartbeat_def unmark_cancel_def forget_cancelled_def mark_cancel_pending_def
  discard_notification_def clear_cancelled_def upd_lane_def upd_telemetry_def

text \<open>The lanes, the set of scheduled ids, the flags and the two counters other code reads are the same.\<close>

definition same_lanes :: "'r BoundedStreamWorkQueues \<Rightarrow> 'r BoundedStreamWorkQueues \<Rightarrow> bool" where
  "same_lanes q q' \<longleftrightarrow> rt_ingress q' = rt_ingress q \<and> rt_provider q' = rt_provider q \<and> rt_publish q' = rt_publish q
     \<and> rt_scheduled q' = rt_scheduled q \<and> rt_stop q' = rt_stop q \<and> rt_closed q' = rt_closed q
     \<and> rt_cancel_requested q' = rt_cancel_requested q \<and> rt_heartbeats q' = rt_heartbeats q
     \<and> (\<forall>lane. c_active (rt_counters q' lane) = c_active (rt_counters q lane)
          \<and> c_maximum_queued (rt_counters q' lane) = c_maximum_queued (rt_counters q lane))"

lemma same_lanes_refl [simp]: "same_lanes q q"
  by (simp add: same_lanes_def)

lemma same_lanes_trans: "same_lanes a b \<Longrightarrow> same_lanes b c \<Longrightarrow> same_lanes a c"
  by (simp add: same_lanes_def)

lemma same_lanes_blocks [simp]:
  "same_lanes q (upd_telemetry f q)" "same_lanes q (record_error e q)" "same_lanes q (forward_lane lane q)"
  "same_lanes q (complete_lane lane q)" "same_lanes q (count_failed lane q)" "same_lanes q (count_cancelled lane q)"
  "same_lanes q (record_backpressure_wait lane q)" "same_lanes q (record_lease_renewal q)"
  "same_lanes q (record_lease_renewal_error q)"
  by (simp_all add: same_lanes_def block_defs)

lemma is_optional_same: "same_lanes q (fst (is_optional cfg item q))"
  by (simp add: is_optional_def split: option.splits sum.splits)

lemma reject_ingress_same: "same_lanes q (fst (reject_ingress status q))" "snd (reject_ingress status q) = status"
  by (simp_all add: reject_ingress_def Let_def same_lanes_def block_defs)

lemma shed_item_same: "same_lanes q (shed_item i q)"
  by (simp add: shed_item_def Let_def same_lanes_def block_defs)

lemma admit_begin_same: "same_lanes q (fst (admit_begin i optional q))"
  by (simp add: admit_begin_def Let_def same_lanes_def block_defs)

lemma enter_ingress_sel [simp]:
  "rt_ingress (enter_ingress b i q) = rt_ingress q @ [i]" "rt_provider (enter_ingress b i q) = rt_provider q"
  "rt_publish (enter_ingress b i q) = rt_publish q" "rt_scheduled (enter_ingress b i q) = insert i (rt_scheduled q)"
  "rt_stop (enter_ingress b i q) = rt_stop q" "rt_closed (enter_ingress b i q) = rt_closed q"
  "rt_cancel_requested (enter_ingress b i q) = rt_cancel_requested q"
  "rt_heartbeats (enter_ingress b i q) = rt_heartbeats q"
  "c_active (rt_counters (enter_ingress b i q) lane) = c_active (rt_counters q lane)"
  "c_maximum_queued (rt_counters (enter_ingress b i q) lane) =
     (if lane = INGRESS then max (c_maximum_queued (rt_counters q lane)) (int (length (rt_ingress q) + 1))
      else c_maximum_queued (rt_counters q lane))"
  by (simp_all add: enter_ingress_def Let_def upd_lane_def upd_telemetry_def lane_qsize_def)

text \<open>
  An admission either enters the ingress lane, and then the id was not scheduled and there
  was room in every lane, or leaves the lanes as they are.
\<close>

lemma admit_checked_cases:
  assumes "admit_checked cfg b i q = (q', status)"
  obtains (refused) "status \<in> {PUBLISH_FULL, PROVIDER_FULL, INGRESS_FULL}" "same_lanes q q'"
  | (entered) q1 where "status = ACCEPTED" "same_lanes q q1" "q' = enter_ingress b i q1"
      "\<not> lane_full cfg INGRESS q" "\<not> lane_full cfg PROVIDER q" "\<not> lane_full cfg PUBLISH q"
proof -
  let ?q = "q\<lparr>rt_shed := rt_shed q - {i}\<rparr>"
  have same: "same_lanes q ?q" by (simp add: same_lanes_def)
  have full: "lane_full cfg lane ?q = lane_full cfg lane q" for lane
    by (cases lane) (simp_all add: lane_full_def lane_qsize_def)
  have rej: "same_lanes q (fst (reject_ingress st ?q))" for st
    using same_lanes_trans [OF same reject_ingress_same(1)] .
  consider "lane_full cfg PUBLISH q \<or> lane_full cfg PROVIDER q \<or> lane_full cfg INGRESS q"
    | "\<not> lane_full cfg PUBLISH q" "\<not> lane_full cfg PROVIDER q" "\<not> lane_full cfg INGRESS q" by blast
  then show thesis
  proof cases
    case 1
    then obtain st where "st \<in> {PUBLISH_FULL, PROVIDER_FULL, INGRESS_FULL}" "reject_ingress st ?q = (q', status)"
      using assms by (auto simp: admit_checked_def Let_def full split: if_splits)
    then show thesis using rej [of st] reject_ingress_same(2) [of st ?q] by (metis refused fst_conv snd_conv)
  next
    case 2
    then show thesis using entered [OF _ same] assms by (auto simp: admit_checked_def Let_def full)
  qed
qed

lemma admit_ready_cases:
  assumes "admit_ready cfg item external q = (q', status)"
  obtains (refused) "status \<noteq> ACCEPTED" "same_lanes q q'"
  | (entered) b q1 where "status = ACCEPTED" "same_lanes q q1" "q' = enter_ingress b (work_item_id item) q1"
      "work_item_id item \<notin> rt_scheduled q" "\<not> rt_stop q" "state item = READY"
      "\<not> lane_full cfg INGRESS q" "\<not> lane_full cfg PROVIDER q" "\<not> lane_full cfg PUBLISH q"
proof (cases "work_item_id item \<in> rt_scheduled q \<or> rt_closed q \<and> external \<or> rt_stop q \<or> state item \<noteq> READY")
  case True
  then have "status \<noteq> ACCEPTED \<and> same_lanes q q'"
    using assms by (auto simp: admit_ready_def Let_def same_lanes_def split: if_splits)
  with refused show thesis by blast
next
  case False
  let ?i = "work_item_id item"
  obtain q1 b where o: "is_optional cfg item q = (q1, b)" by force
  define q2 where "q2 = (if b \<and> ?i \<notin> rt_optional q1
    then upd_telemetry (\<lambda>t. t\<lparr>t_optional_work_offered := t_optional_work_offered t + 1\<rparr>)
      (q1\<lparr>rt_optional := insert ?i (rt_optional q1)\<rparr>) else q1)"
  have same: "same_lanes q q2"
    using is_optional_same [of q cfg item] o by (simp add: q2_def same_lanes_def upd_telemetry_def)
  have full: "lane_full cfg lane q2 = lane_full cfg lane q" for lane
    using same by (cases lane) (simp_all add: lane_full_def lane_qsize_def same_lanes_def)
  have open_q: "?i \<notin> rt_scheduled q" "\<not> (rt_closed q \<and> external)" "\<not> rt_stop q" "\<not> state item \<noteq> READY"
    using False by blast+
  have run: "(q', status) = (if b \<and> optional_pressure cfg q2 then (shed_item ?i q2, SHED_OPTIONAL)
      else admit_checked cfg b ?i q2)"
    unfolding q2_def assms [symmetric] admit_ready_def Let_def o prod.case by (simp only: open_q if_False)
  show thesis
  proof (cases "b \<and> optional_pressure cfg q2")
    case True
    then show thesis using run refused same_lanes_trans [OF same shed_item_same] by simp
  next
    case ok: False
    have "admit_checked cfg b ?i q2 = (q', status)" using run unfolding if_not_P [OF ok] by (rule sym)
    then show thesis
    proof (cases rule: admit_checked_cases)
      case refused
      then show thesis using that(1) same_lanes_trans [OF same] by fastforce
    next
      case (entered q3)
      then show thesis using that(2) [OF entered(1) same_lanes_trans [OF same entered(2)] entered(3)] False full by blast
    qed
  qed
qed

end
