(* ===== verification/Stream_Workers.thy ===== *)
theory Stream_Workers
  imports Stream_Queues
begin

text \<open>
  The threads of \<^verbatim>\<open>src/robata/queue/stream_runtime.py\<close>: the lease heartbeat and the ingress,
  provider and publish workers. A thread is a program counter with its local variables. One
  step of a thread executes one locked block, one operation of a \<open>Queue\<close> or an \<open>Event\<close>,
  one call of the scheduler or one callback, so that every interleaving of these is a
  sequence of steps. A step function returns \<open>None\<close> where the thread waits or has ended.
\<close>

section \<open>The system\<close>

datatype heartbeat_pc =
    Hb_wait
  | Hb_renewed WorkLease
  | Hb_count
  | Hb_failed stream_error
  | Hb_count_error
  | Hb_leave
  | Hb_exit

record LeaseHeartbeat =
  hb_lease :: WorkLease
  hb_error :: "stream_error option"
  hb_stop :: bool
  hb_pc :: heartbeat_pc

text \<open>
  What is left of a round of a worker loop once its outcome is known. The handlers and the
  \<open>finally\<close> block are shared by the three loops.
\<close>

datatype tail =
    Cancelled_finish
  | Record_error stream_error
  | Fail_stop WorkLeaseClaim stream_error
  | Fail_join WorkLeaseClaim stream_error
  | Fail_call WorkLeaseClaim stream_error
  | Fail_note stream_error
  | Fail_count
  | Finish
  | Release
  | Release_join
  | End_round

datatype ingress_pc =
    I_loop
  | I_get
  | I_begin string
  | I_check string
  | I_put string
  | I_wait string
  | I_enqueued string
  | I_forward string
  | I_tail string tail
  | I_exit

datatype 'r provider_pc =
    P_loop
  | P_get
  | P_begin string
  | P_check string
  | P_claim string
  | P_track string WorkLeaseClaim nat
  | P_track_stop string WorkLeaseClaim nat
  | P_track_join string WorkLeaseClaim nat
  | P_exec string WorkLeaseClaim nat
  | P_health string WorkLeaseClaim nat 'r
  | P_lost string nat stream_error
  | P_recheck string WorkLeaseClaim nat 'r
  | P_task string WorkLeaseClaim nat 'r
  | P_put string WorkLeaseClaim "'r PublishTask"
  | P_wait string WorkLeaseClaim "'r PublishTask"
  | P_enqueued string
  | P_forward string
  | P_refused string WorkLeaseClaim nat
  | P_refused_health string WorkLeaseClaim nat
  | P_tail string "nat option" tail
  | P_exit

datatype 'r publish_pc =
    U_loop
  | U_get
  | U_begin "'r PublishTask"
  | U_check "'r PublishTask"
  | U_health "'r PublishTask"
  | U_lost "'r PublishTask" stream_error
  | U_call "'r PublishTask"
  | U_health_after "'r PublishTask"
  | U_recheck "'r PublishTask"
  | U_stop "'r PublishTask"
  | U_join "'r PublishTask"
  | U_final_health "'r PublishTask" WorkLease
  | U_succeed "'r PublishTask" WorkLease
  | U_complete "'r PublishTask"
  | U_tail string nat tail
  | U_exit

text \<open>
  \<open>sys_published\<close> is a history variable: the leases under which the publisher returned.
\<close>

record ('l, 'r) system =
  sys_ledger :: 'l
  sys_now :: time
  sys_queues :: "'r BoundedStreamWorkQueues"
  sys_beats :: "LeaseHeartbeat list"
  sys_published :: "WorkLease list"

definition on_queues ::
    "('r BoundedStreamWorkQueues \<Rightarrow> 'r BoundedStreamWorkQueues) \<Rightarrow> ('l, 'r) system \<Rightarrow> ('l, 'r) system" where
  "on_queues f s = s\<lparr>sys_queues := f (sys_queues s)\<rparr>"

definition set_beat :: "nat \<Rightarrow> (LeaseHeartbeat \<Rightarrow> LeaseHeartbeat) \<Rightarrow> ('l, 'r) system \<Rightarrow> ('l, 'r) system" where
  "set_beat k f s = s\<lparr>sys_beats := (sys_beats s)[k := f (sys_beats s ! k)]\<rparr>"

definition beat_error :: "('l, 'r) system \<Rightarrow> nat \<Rightarrow> stream_error option" where
  "beat_error s k = hb_error (sys_beats s ! k)"

section \<open>The lease heartbeat\<close>

definition new_heartbeat :: "WorkLease \<Rightarrow> LeaseHeartbeat" where
  "new_heartbeat lease = \<lparr>hb_lease = lease, hb_error = None, hb_stop = False, hb_pc = Hb_wait\<rparr>"

text \<open>One step of the thread \<open>_run\<close> of heartbeat \<open>k\<close>; the interval between renewals may be any.\<close>

definition heartbeat_step ::
    "'l DurableStreamWorkScheduler \<Rightarrow> BoundedStreamWorkQueuesConfig \<Rightarrow> nat \<Rightarrow> ('l, 'r) system \<Rightarrow> ('l, 'r) system option" where
  "heartbeat_step W cfg k s =
     (let hb = sys_beats s ! k in
      case hb_pc hb of
        Hb_wait \<Rightarrow>
          if hb_stop hb then Some (set_beat k (\<lambda>h. h\<lparr>hb_pc := Hb_exit\<rparr>) s)
          else (case ws_heartbeat W (hb_lease hb) (lease_duration_seconds cfg) (sys_now s) (sys_ledger s) of
              (l, Inr renewed) \<Rightarrow> Some (set_beat k (\<lambda>h. h\<lparr>hb_pc := Hb_renewed renewed\<rparr>) (s\<lparr>sys_ledger := l\<rparr>))
            | (l, Inl e) \<Rightarrow> Some (set_beat k (\<lambda>h. h\<lparr>hb_pc := Hb_failed (SchedulerError e)\<rparr>) (s\<lparr>sys_ledger := l\<rparr>)))
      | Hb_renewed renewed \<Rightarrow> Some (set_beat k (\<lambda>h. h\<lparr>hb_lease := renewed, hb_pc := Hb_count\<rparr>) s)
      | Hb_count \<Rightarrow> Some (set_beat k (\<lambda>h. h\<lparr>hb_pc := Hb_wait\<rparr>) (on_queues record_lease_renewal s))
      | Hb_failed e \<Rightarrow> Some (set_beat k (\<lambda>h. h\<lparr>hb_error := Some e, hb_pc := Hb_count_error\<rparr>) s)
      | Hb_count_error \<Rightarrow> Some (set_beat k (\<lambda>h. h\<lparr>hb_pc := Hb_leave\<rparr>) (on_queues record_lease_renewal_error s))
      | Hb_leave \<Rightarrow> Some (set_beat k (\<lambda>h. h\<lparr>hb_stop := True, hb_pc := Hb_exit\<rparr>) s)
      | Hb_exit \<Rightarrow> None)"

text \<open>
  \<open>_stop_heartbeat\<close> in two steps: the stop flag is set, then the caller waits until the
  thread has ended, reads the lease and forgets the heartbeat.
\<close>

definition stop_beat :: "nat \<Rightarrow> ('l, 'r) system \<Rightarrow> ('l, 'r) system" where
  "stop_beat k = set_beat k (\<lambda>h. h\<lparr>hb_stop := True\<rparr>)"

definition join_beat :: "nat \<Rightarrow> ('l, 'r) system \<Rightarrow> (('l, 'r) system \<times> WorkLease) option" where
  "join_beat k s =
     (if hb_pc (sys_beats s ! k) = Hb_exit
      then Some (on_queues (untrack_heartbeat k) s, hb_lease (sys_beats s ! k)) else None)"

definition claim_with_lease :: "WorkLeaseClaim \<Rightarrow> WorkLease \<Rightarrow> WorkLeaseClaim" where
  "claim_with_lease c lease =
     (if lease = claimed_lease c then c
      else \<lparr>claimed_item = (claimed_item c)\<lparr>lease_expires_at := Some (granted_expires_at lease)\<rparr>,
            claimed_lease = lease\<rparr>)"

section \<open>The end of a round\<close>

definition failure_report ::
    "BoundedStreamWorkQueuesConfig \<Rightarrow> StreamQueueLane \<Rightarrow> stream_error \<Rightarrow> string \<times> bool \<times> string option \<times> int" where
  "failure_report cfg lane e =
     (case e of
        StreamQueueRetryableError code detail delay \<Rightarrow>
          (code, True, detail, case delay of None \<Rightarrow> retry_delay_seconds cfg | Some d \<Rightarrow> d)
      | StreamQueuePermanentError code detail \<Rightarrow> (code, False, detail, retry_delay_seconds cfg)
      | _ \<Rightarrow> (lane_value lane @ ''_CALLBACK_FAILED'', True, Some (exception_detail e), retry_delay_seconds cfg))"

definition tail_step ::
    "'l DurableStreamWorkScheduler \<Rightarrow> BoundedStreamWorkQueuesConfig \<Rightarrow> StreamQueueLane \<Rightarrow> string \<Rightarrow> nat option \<Rightarrow> tail
      \<Rightarrow> ('l, 'r) system \<Rightarrow> (('l, 'r) system \<times> tail option) option" where
  "tail_step W cfg lane i h t s =
     (case t of
        Cancelled_finish \<Rightarrow> Some (on_queues (count_cancelled lane) s, Some Finish)
      | Record_error e \<Rightarrow> Some (on_queues (record_error e) s, Some Finish)
      | Fail_stop c e \<Rightarrow> (case h of None \<Rightarrow> None | Some k \<Rightarrow> Some (stop_beat k s, Some (Fail_join c e)))
      | Fail_join c e \<Rightarrow> (case h of None \<Rightarrow> None | Some k \<Rightarrow>
          map_option (\<lambda>(s1, lease). (s1, Some (Fail_call (claim_with_lease c lease) e))) (join_beat k s))
      | Fail_call c e \<Rightarrow>
          (case failure_report cfg lane e of (code, retryable, detail, delay) \<Rightarrow>
           case ws_fail W (claimed_lease c) code retryable detail delay (sys_now s) (sys_ledger s) of
             (l, Inr _) \<Rightarrow> Some (s\<lparr>sys_ledger := l\<rparr>, Some Fail_count)
           | (l, Inl x) \<Rightarrow> Some (s\<lparr>sys_ledger := l\<rparr>, Some (Fail_note (SchedulerError x))))
      | Fail_note x \<Rightarrow>
          Some (if \<not> cancelled i (sys_queues s) \<and> \<not> is_fence_error x then on_queues (record_error x) s else s,
            Some Fail_count)
      | Fail_count \<Rightarrow> Some (on_queues (count_failed lane) s, Some Finish)
      | Finish \<Rightarrow> Some (on_queues (finish_scheduled i) s, Some Release)
      | Release \<Rightarrow> (case h of None \<Rightarrow> Some (s, Some End_round) | Some k \<Rightarrow> Some (stop_beat k s, Some Release_join))
      | Release_join \<Rightarrow> (case h of None \<Rightarrow> None | Some k \<Rightarrow>
          map_option (\<lambda>(s1, lease). (s1, Some End_round)) (join_beat k s))
      | End_round \<Rightarrow> Some (on_queues (end_lane lane) s, None))"

section \<open>The ingress worker\<close>

definition ingress_step ::
    "'l DurableStreamWorkScheduler \<Rightarrow> BoundedStreamWorkQueuesConfig \<Rightarrow> ingress_pc \<Rightarrow> ('l, 'r) system
      \<Rightarrow> (('l, 'r) system \<times> ingress_pc) option" where
  "ingress_step W cfg pc s =
     (let q = sys_queues s in
      case pc of
        I_loop \<Rightarrow> Some (s, if rt_stop q then I_exit else I_get)
      | I_get \<Rightarrow>
          (case rt_ingress q of [] \<Rightarrow> Some (s, I_loop)
           | i # rest \<Rightarrow> Some (on_queues (\<lambda>q. q\<lparr>rt_ingress := rest\<rparr>) s, I_begin i))
      | I_begin i \<Rightarrow> Some (on_queues (begin_lane INGRESS) s, I_check i)
      | I_check i \<Rightarrow> Some (s, if cancelled i q then I_tail i Cancelled_finish else I_put i)
      | I_put i \<Rightarrow>
          if rt_stop q \<or> cancelled i q then Some (s, I_tail i Finish)
          else if lane_full cfg PROVIDER q then Some (s, I_wait i)
          else Some (on_queues (\<lambda>q. q\<lparr>rt_provider := rt_provider q @ [i]\<rparr>) s, I_enqueued i)
      | I_wait i \<Rightarrow> Some (on_queues (record_backpressure_wait PROVIDER) s, I_put i)
      | I_enqueued i \<Rightarrow> Some (on_queues (enqueued PROVIDER) s, I_forward i)
      | I_forward i \<Rightarrow> Some (on_queues (forward_lane INGRESS) s, I_tail i End_round)
      | I_tail i t \<Rightarrow>
          map_option (\<lambda>(s1, t1). (s1, case t1 of None \<Rightarrow> I_loop | Some u \<Rightarrow> I_tail i u)) (tail_step W cfg INGRESS i None t s)
      | I_exit \<Rightarrow> None)"

section \<open>The provider workers\<close>

text \<open>
  The worker with the given id. \<open>token\<close> is the token the scheduler draws for a claim, and
  \<open>out\<close> the outcome of the provider callback.
\<close>

definition provider_step ::
    "'l DurableStreamWorkScheduler \<Rightarrow> BoundedStreamWorkQueuesConfig \<Rightarrow> string \<Rightarrow> string \<Rightarrow> (stream_error + 'r) \<Rightarrow> 'r provider_pc
      \<Rightarrow> ('l, 'r) system \<Rightarrow> (('l, 'r) system \<times> 'r provider_pc) option" where
  "provider_step W cfg worker token out pc s =
     (let q = sys_queues s in
      case pc of
        P_loop \<Rightarrow> Some (s, if rt_stop q then P_exit else P_get)
      | P_get \<Rightarrow>
          (case rt_provider q of [] \<Rightarrow> Some (s, P_loop)
           | i # rest \<Rightarrow> Some (on_queues (\<lambda>q. q\<lparr>rt_provider := rest\<rparr>) s, P_begin i))
      | P_begin i \<Rightarrow> Some (on_queues (begin_lane PROVIDER) s, P_check i)
      | P_check i \<Rightarrow> Some (s, if cancelled i q then P_tail i None Cancelled_finish else P_claim i)
      | P_claim i \<Rightarrow>
          (case ws_claim_and_start W worker (lease_duration_seconds cfg) (Some i) (sys_now s) token (sys_ledger s) of
             (l, Inl e) \<Rightarrow> Some (s\<lparr>sys_ledger := l\<rparr>, P_tail i None (Record_error (SchedulerError e)))
           | (l, Inr None) \<Rightarrow> Some (s\<lparr>sys_ledger := l\<rparr>, P_tail i None Finish)
           | (l, Inr (Some c)) \<Rightarrow>
               Some (s\<lparr>sys_ledger := l, sys_beats := sys_beats s @ [new_heartbeat (claimed_lease c)]\<rparr>,
                 P_track i c (length (sys_beats s))))
      | P_track i c k \<Rightarrow>
          Some (on_queues (track_heartbeat k) s, if rt_stop q then P_track_stop i c k else P_exec i c k)
      | P_track_stop i c k \<Rightarrow> Some (stop_beat k s, P_track_join i c k)
      | P_track_join i c k \<Rightarrow> map_option (\<lambda>(s1, lease). (s1, P_exec i c k)) (join_beat k s)
      | P_exec i c k \<Rightarrow>
          (case out of Inr r \<Rightarrow> Some (s, P_health i c k r)
           | Inl e \<Rightarrow> if raisable e then Some (s, P_tail i (Some k) (Fail_stop c e)) else None)
      | P_health i c k r \<Rightarrow>
          Some (s, case beat_error s k of Some e \<Rightarrow> P_lost i k e | None \<Rightarrow> P_recheck i c k r)
      | P_lost i k e \<Rightarrow>
          Some (s, P_tail i (Some k) (if cancelled i q then Cancelled_finish else Record_error e))
      | P_recheck i c k r \<Rightarrow>
          Some (s, if cancelled i q then P_tail i (Some k) Cancelled_finish else P_task i c k r)
      | P_task i c k r \<Rightarrow>
          Some (s, P_put i c \<lparr>task_claim = claim_with_lease c (hb_lease (sys_beats s ! k)), task_result = r,
            task_heartbeat = k\<rparr>)
      | P_put i c t \<Rightarrow>
          if rt_stop q \<or> cancelled (task_id t) q \<or> beat_error s (task_heartbeat t) \<noteq> None
          then Some (s, P_refused i c (task_heartbeat t))
          else if lane_full cfg PUBLISH q then Some (s, P_wait i c t)
          else Some (on_queues (\<lambda>q. q\<lparr>rt_publish := rt_publish q @ [t]\<rparr>) s, P_enqueued i)
      | P_wait i c t \<Rightarrow> Some (on_queues (record_backpressure_wait PUBLISH) s, P_put i c t)
      | P_enqueued i \<Rightarrow> Some (on_queues (enqueued PUBLISH) s, P_forward i)
      | P_forward i \<Rightarrow> Some (on_queues (forward_lane PROVIDER) s, P_tail i None End_round)
      | P_refused i c k \<Rightarrow>
          Some (s, if cancelled i q then P_tail i (Some k) Cancelled_finish else P_refused_health i c k)
      | P_refused_health i c k \<Rightarrow>
          Some (s, P_tail i (Some k) (case beat_error s k of Some e \<Rightarrow> Record_error e
            | None \<Rightarrow> Fail_stop c (StreamQueueRetryableError ''RUNTIME_SHUTDOWN'' None None)))
      | P_tail i h t \<Rightarrow>
          map_option (\<lambda>(s1, t1). (s1, case t1 of None \<Rightarrow> P_loop | Some u \<Rightarrow> P_tail i h u)) (tail_step W cfg PROVIDER i h t s)
      | P_exit \<Rightarrow> None)"

section \<open>The publish workers\<close>

text \<open>\<open>out\<close> is the exception of the publisher callback, or \<open>None\<close> when it returns.\<close>

definition publish_step ::
    "'l DurableStreamWorkScheduler \<Rightarrow> BoundedStreamWorkQueuesConfig \<Rightarrow> stream_error option \<Rightarrow> 'r publish_pc
      \<Rightarrow> ('l, 'r) system \<Rightarrow> (('l, 'r) system \<times> 'r publish_pc) option" where
  "publish_step W cfg out pc s =
     (let q = sys_queues s in
      case pc of
        U_loop \<Rightarrow> Some (s, if rt_stop q then U_exit else U_get)
      | U_get \<Rightarrow>
          (case rt_publish q of [] \<Rightarrow> Some (s, U_loop)
           | t # rest \<Rightarrow> Some (on_queues (\<lambda>q. q\<lparr>rt_publish := rest\<rparr>) s, U_begin t))
      | U_begin t \<Rightarrow> Some (on_queues (begin_lane PUBLISH) s, U_check t)
      | U_check t \<Rightarrow>
          Some (s, if cancelled (task_id t) q then U_tail (task_id t) (task_heartbeat t) Cancelled_finish else U_health t)
      | U_health t \<Rightarrow>
          Some (s, case beat_error s (task_heartbeat t) of Some e \<Rightarrow> U_lost t e | None \<Rightarrow> U_call t)
      | U_lost t e \<Rightarrow>
          Some (s, U_tail (task_id t) (task_heartbeat t) (if cancelled (task_id t) q then Cancelled_finish else Record_error e))
      | U_call t \<Rightarrow>
          (case out of
             Some e \<Rightarrow> if raisable e then Some (s, U_tail (task_id t) (task_heartbeat t) (Fail_stop (task_claim t) e)) else None
           | None \<Rightarrow> Some (s\<lparr>sys_published := sys_published s @ [hb_lease (sys_beats s ! task_heartbeat t)]\<rparr>, U_health_after t))
      | U_health_after t \<Rightarrow>
          Some (s, case beat_error s (task_heartbeat t) of Some e \<Rightarrow> U_lost t e | None \<Rightarrow> U_recheck t)
      | U_recheck t \<Rightarrow>
          Some (s, if cancelled (task_id t) q then U_tail (task_id t) (task_heartbeat t) Cancelled_finish else U_stop t)
      | U_stop t \<Rightarrow> Some (stop_beat (task_heartbeat t) s, U_join t)
      | U_join t \<Rightarrow> map_option (\<lambda>(s1, lease). (s1, U_final_health t lease)) (join_beat (task_heartbeat t) s)
      | U_final_health t lease \<Rightarrow>
          Some (s, case beat_error s (task_heartbeat t) of
              Some e \<Rightarrow> U_tail (task_id t) (task_heartbeat t) (Record_error e) | None \<Rightarrow> U_succeed t lease)
      | U_succeed t lease \<Rightarrow>
          (case ws_succeed W lease (sys_now s) (sys_ledger s) of
             (l, Inr _) \<Rightarrow> Some (s\<lparr>sys_ledger := l\<rparr>, U_complete t)
           | (l, Inl e) \<Rightarrow> Some (s\<lparr>sys_ledger := l\<rparr>, U_tail (task_id t) (task_heartbeat t) (Record_error (SchedulerError e))))
      | U_complete t \<Rightarrow> Some (on_queues (complete_lane PUBLISH) s, U_tail (task_id t) (task_heartbeat t) Finish)
      | U_tail i k u \<Rightarrow>
          map_option (\<lambda>(s1, t1). (s1, case t1 of None \<Rightarrow> U_loop | Some v \<Rightarrow> U_tail i k v)) (tail_step W cfg PUBLISH i (Some k) u s)
      | U_exit \<Rightarrow> None)"

end
