(* ===== verification/Stream_Calls.thy ===== *)
theory Stream_Calls
  imports Stream_Workers
begin

text \<open>
  The methods that callers of \<open>BoundedStreamWorkQueues\<close> invoke (\<^verbatim>\<open>src/robata/queue/stream_runtime.py\<close>:
  \<open>admit\<close>, \<open>recover\<close>, \<open>cancel\<close>, \<open>drain\<close>, \<open>close\<close>), each as a program counter
  like the workers, the recovery thread, and the runtime as a whole: any number of calls in
  progress beside the worker threads and the heartbeats.
\<close>

section \<open>Admission\<close>

datatype admit_pc =
    A_start string bool
  | A_get string
  | A_item string WorkItem
  | A_return StreamQueueAdmissionStatus
  | A_raise stream_error

definition admit_step ::
    "'l DurableStreamWorkScheduler \<Rightarrow> BoundedStreamWorkQueuesConfig \<Rightarrow> admit_pc \<Rightarrow> ('l, 'r) system
      \<Rightarrow> (('l, 'r) system \<times> admit_pc) option" where
  "admit_step W cfg pc s =
     (case pc of
        A_start i optional \<Rightarrow>
          (case require_nonempty i ''work_item_id'' of
             Inl e \<Rightarrow> Some (s, A_raise e)
           | Inr _ \<Rightarrow> (case admit_begin i optional (sys_queues s) of (q, answer) \<Rightarrow>
               Some (s\<lparr>sys_queues := q\<rparr>, case answer of None \<Rightarrow> A_get i | Some status \<Rightarrow> A_return status)))
      | A_get i \<Rightarrow>
          (case ws_get W i (sys_ledger s) of
             (l, Inl e) \<Rightarrow> Some (s\<lparr>sys_ledger := l\<rparr>, A_raise (SchedulerError e))
           | (l, Inr item) \<Rightarrow> Some (s\<lparr>sys_ledger := l\<rparr>, A_item i item))
      | A_item i item \<Rightarrow>
          (case (if run_id item \<noteq> cfg_run_id cfg then reject_ingress WRONG_RUN (sys_queues s)
                 else admit_ready cfg item True (sys_queues s)) of
             (q, status) \<Rightarrow> Some (s\<lparr>sys_queues := q\<rparr>, A_return status))
      | A_return status \<Rightarrow> None
      | A_raise e \<Rightarrow> None)"

section \<open>Recovery\<close>

datatype recover_pc =
    R_start
  | R_count
  | R_reconcile
  | R_ready
  | R_admit "WorkItem list" int
  | R_note bool "WorkItem list" int
  | R_return int
  | R_raise stream_error

definition recover_step ::
    "'l DurableStreamWorkScheduler \<Rightarrow> BoundedStreamWorkQueuesConfig \<Rightarrow> recover_pc \<Rightarrow> ('l, 'r) system
      \<Rightarrow> (('l, 'r) system \<times> recover_pc) option" where
  "recover_step W cfg pc s =
     (case pc of
        R_start \<Rightarrow> Some (s, if rt_stop (sys_queues s) then R_return 0 else R_count)
      | R_count \<Rightarrow>
          Some (on_queues (upd_telemetry (\<lambda>t. t\<lparr>t_recovery_count := t_recovery_count t + 1\<rparr>)) s, R_reconcile)
      | R_reconcile \<Rightarrow>
          (case ws_reconcile W (sys_now s) (sys_ledger s) of
             (l, Inl e) \<Rightarrow> Some (s\<lparr>sys_ledger := l\<rparr>, R_raise (SchedulerError e))
           | (l, Inr _) \<Rightarrow> Some (s\<lparr>sys_ledger := l\<rparr>, R_ready))
      | R_ready \<Rightarrow>
          (case ws_ready_for_run W (cfg_run_id cfg) (recovery_ready_limit cfg) (sys_ledger s) of
             (l, Inl e) \<Rightarrow> Some (s\<lparr>sys_ledger := l\<rparr>, R_raise (SchedulerError e))
           | (l, Inr items) \<Rightarrow> Some (s\<lparr>sys_ledger := l\<rparr>, R_admit items 0))
      | R_admit [] n \<Rightarrow> Some (s, R_return n)
      | R_admit (item # rest) n \<Rightarrow>
          (case admit_ready cfg item False (sys_queues s) of (q, status) \<Rightarrow>
             Some (s\<lparr>sys_queues := q\<rparr>,
               if status = ACCEPTED then R_note True rest (n + 1)
               else if status = SHED_OPTIONAL then R_note False rest n
               else if status \<in> {INGRESS_FULL, PROVIDER_FULL, PUBLISH_FULL} then R_return n
               else R_admit rest n))
      | R_note admitted rest n \<Rightarrow>
          Some (on_queues (upd_telemetry (\<lambda>t. if admitted then t\<lparr>t_recovery_admitted := t_recovery_admitted t + 1\<rparr>
              else t\<lparr>t_recovery_shed := t_recovery_shed t + 1\<rparr>)) s, R_admit rest n)
      | R_return n \<Rightarrow> None
      | R_raise e \<Rightarrow> None)"

datatype recovery_pc =
    V_wait
  | V_run recover_pc
  | V_error stream_error
  | V_exit

text \<open>The thread \<open>_run_recovery\<close>; the pause between two passes may be any.\<close>

definition recovery_step ::
    "'l DurableStreamWorkScheduler \<Rightarrow> BoundedStreamWorkQueuesConfig \<Rightarrow> recovery_pc \<Rightarrow> ('l, 'r) system
      \<Rightarrow> (('l, 'r) system \<times> recovery_pc) option" where
  "recovery_step W cfg pc s =
     (case pc of
        V_wait \<Rightarrow> Some (s, if rt_stop (sys_queues s) then V_exit else V_run R_start)
      | V_run (R_return n) \<Rightarrow> Some (s, V_wait)
      | V_run (R_raise e) \<Rightarrow> Some (s, V_error e)
      | V_run r \<Rightarrow> map_option (\<lambda>(s1, r1). (s1, V_run r1)) (recover_step W cfg r s)
      | V_error e \<Rightarrow> Some (on_queues (record_error e) s, V_wait)
      | V_exit \<Rightarrow> None)"

section \<open>Cancellation\<close>

datatype cancel_pc =
    C_start string string "string option"
  | C_mark string string "string option"
  | C_detail string string "string option" bool
  | C_call string string "string option" bool
  | C_forget string WorkItem bool
  | C_undo string stream_error bool
  | C_return WorkItem
  | C_raise stream_error

definition cancel_step ::
    "'l DurableStreamWorkScheduler \<Rightarrow> BoundedStreamWorkQueuesConfig \<Rightarrow> cancel_pc \<Rightarrow> ('l, 'r) system
      \<Rightarrow> (('l, 'r) system \<times> cancel_pc) option" where
  "cancel_step W cfg pc s =
     (case pc of
        C_start i code detail \<Rightarrow>
          (case require_nonempty i ''work_item_id'' of
             Inl e \<Rightarrow> Some (s, C_raise e)
           | Inr _ \<Rightarrow>
             (case ws_get W i (sys_ledger s) of
                (l, Inl e) \<Rightarrow> Some (s\<lparr>sys_ledger := l\<rparr>, C_raise (SchedulerError e))
              | (l, Inr item) \<Rightarrow> Some (s\<lparr>sys_ledger := l\<rparr>,
                  if run_id item \<noteq> cfg_run_id cfg
                  then C_raise (StreamValueError ''work item does not belong to this recording-affine runtime'')
                  else C_mark i code detail)))
      | C_mark i code detail \<Rightarrow>
          (case mark_cancel i (sys_queues s) of (q, tracked) \<Rightarrow> Some (s\<lparr>sys_queues := q\<rparr>, C_detail i code detail tracked))
      | C_detail i code detail tracked \<Rightarrow>
          (case optional_nonempty detail ''reason_detail'' of
             Inl e \<Rightarrow> Some (s, C_raise e)
           | Inr checked \<Rightarrow> Some (s, C_call i code checked tracked))
      | C_call i code detail tracked \<Rightarrow>
          (case require_nonempty code ''reason_code'' of
             Inl e \<Rightarrow> Some (s, C_undo i e tracked)
           | Inr c \<Rightarrow>
             (case ws_cancel W i c detail (sys_now s) (sys_ledger s) of
                (l, Inl e) \<Rightarrow> Some (s\<lparr>sys_ledger := l\<rparr>, C_undo i (SchedulerError e) tracked)
              | (l, Inr item) \<Rightarrow> Some (s\<lparr>sys_ledger := l\<rparr>, C_forget i item tracked)))
      | C_forget i item tracked \<Rightarrow> Some (on_queues (forget_cancelled i tracked) s, C_return item)
      | C_undo i e tracked \<Rightarrow> Some (if tracked then on_queues (unmark_cancel i) s else s, C_raise e)
      | C_return item \<Rightarrow> None
      | C_raise e \<Rightarrow> None)"

section \<open>Draining\<close>

datatype drain_pc =
    D_start "rat option"
  | D_recover bool recover_pc
  | D_idle bool
  | D_items bool
  | D_poll bool
  | D_return bool
  | D_raise stream_error

text \<open>
  The flag says whether a deadline was given, and \<open>late\<close> whether the clock has passed it.
\<close>

definition drain_step ::
    "'l DurableStreamWorkScheduler \<Rightarrow> BoundedStreamWorkQueuesConfig \<Rightarrow> bool \<Rightarrow> drain_pc \<Rightarrow> ('l, 'r) system
      \<Rightarrow> (('l, 'r) system \<times> drain_pc) option" where
  "drain_step W cfg late pc s =
     (case pc of
        D_start timeout \<Rightarrow>
          Some (s, case timeout of None \<Rightarrow> D_recover False R_start
            | Some t \<Rightarrow> if t < 0 then D_raise (StreamValueError ''timeout must be nonnegative or None'')
                else D_recover True R_start)
      | D_recover b (R_return n) \<Rightarrow> Some (s, D_idle b)
      | D_recover b (R_raise e) \<Rightarrow> Some (s, D_raise e)
      | D_recover b r \<Rightarrow> map_option (\<lambda>(s1, r1). (s1, D_recover b r1)) (recover_step W cfg r s)
      | D_idle b \<Rightarrow> Some (s, if runtime_idle (sys_queues s) then D_items b else D_poll b)
      | D_items b \<Rightarrow>
          (case ws_items_for_run W (cfg_run_id cfg) (sys_ledger s) of
             (l, Inl e) \<Rightarrow> Some (s\<lparr>sys_ledger := l\<rparr>, D_raise (SchedulerError e))
           | (l, Inr items) \<Rightarrow> Some (s\<lparr>sys_ledger := l\<rparr>,
               if list_all (\<lambda>w. state w \<in> TERMINAL_WORK_STATES) items then D_return True else D_poll b))
      | D_poll b \<Rightarrow> Some (s, if b \<and> late then D_return False else D_recover b R_start)
      | D_return r \<Rightarrow> None
      | D_raise e \<Rightarrow> None)"

section \<open>Closing\<close>

text \<open>
  The first argument of a program counter is the parameter \<open>wait\<close>. A cancelling close
  carries the ids it marked.
\<close>

datatype 'r close_pc =
    K_start bool bool
  | K_mark bool
  | K_stop bool "string list"
  | K_cancel bool "string list" "string list"
  | K_note bool "string list" "string list" stream_error
  | K_discard bool "string list" StreamQueueLane
  | K_drop_stop bool "string list" "'r PublishTask"
  | K_drop_join bool "string list" "'r PublishTask"
  | K_drop bool "string list" StreamQueueLane string
  | K_clear bool "string list"
  | K_drain bool drain_pc
  | K_set_stop bool
  | K_beats bool
  | K_beat bool "nat list"
  | K_beat_join bool nat "nat list"
  | K_join bool
  | K_return
  | K_raise stream_error

definition next_lane :: "bool \<Rightarrow> string list \<Rightarrow> StreamQueueLane \<Rightarrow> 'r close_pc" where
  "next_lane wait ids lane = (case lane of INGRESS \<Rightarrow> K_discard wait ids PROVIDER
     | PROVIDER \<Rightarrow> K_discard wait ids PUBLISH | PUBLISH \<Rightarrow> K_clear wait ids)"

definition discard_step ::
    "bool \<Rightarrow> string list \<Rightarrow> StreamQueueLane \<Rightarrow> ('l, 'r) system \<Rightarrow> ('l, 'r) system \<times> 'r close_pc" where
  "discard_step wait ids lane s =
     (case lane of
        INGRESS \<Rightarrow> (case rt_ingress (sys_queues s) of [] \<Rightarrow> (s, next_lane wait ids lane)
          | i # rest \<Rightarrow> (on_queues (\<lambda>q. q\<lparr>rt_ingress := rest\<rparr>) s, K_drop wait ids lane i))
      | PROVIDER \<Rightarrow> (case rt_provider (sys_queues s) of [] \<Rightarrow> (s, next_lane wait ids lane)
          | i # rest \<Rightarrow> (on_queues (\<lambda>q. q\<lparr>rt_provider := rest\<rparr>) s, K_drop wait ids lane i))
      | PUBLISH \<Rightarrow> (case rt_publish (sys_queues s) of [] \<Rightarrow> (s, next_lane wait ids lane)
          | t # rest \<Rightarrow> (on_queues (\<lambda>q. q\<lparr>rt_publish := rest\<rparr>) s, K_drop_stop wait ids t)))"

text \<open>
  The order in which Python lists a set is not specified: \<open>ids\<close> and \<open>ks\<close> are the listings
  of the sets of ids and of heartbeats. \<open>ended\<close> says that the threads of the runtime have
  ended.
\<close>

record call_choice =
  ch_ids :: "string list"
  ch_beats :: "nat list"
  ch_late :: bool

definition close_step ::
    "'l DurableStreamWorkScheduler \<Rightarrow> BoundedStreamWorkQueuesConfig \<Rightarrow> call_choice \<Rightarrow> bool \<Rightarrow> 'r close_pc \<Rightarrow> ('l, 'r) system
      \<Rightarrow> (('l, 'r) system \<times> 'r close_pc) option" where
  "close_step W cfg ch ended pc s =
     (let q = sys_queues s in
      case pc of
        K_start wait cancel_pending \<Rightarrow>
          Some (on_queues (\<lambda>q. q\<lparr>rt_closed := True\<rparr>) s,
            if rt_closed q then (if wait then K_join True else K_return)
            else if cancel_pending then K_mark wait
            else if wait then K_drain wait (D_start None) else K_set_stop wait)
      | K_mark wait \<Rightarrow>
          if distinct (ch_ids ch) \<and> set (ch_ids ch) = rt_scheduled q \<union> rt_shed q
          then Some (on_queues (mark_cancel_pending (ch_ids ch)) s, K_stop wait (ch_ids ch)) else None
      | K_stop wait ids \<Rightarrow> Some (on_queues (\<lambda>q. q\<lparr>rt_stop := True\<rparr>) s, K_cancel wait ids ids)
      | K_cancel wait ids [] \<Rightarrow> Some (s, K_discard wait ids INGRESS)
      | K_cancel wait ids (i # rest) \<Rightarrow>
          (case ws_cancel W i ''RUNTIME_QUEUE_CANCELLED'' None (sys_now s) (sys_ledger s) of
             (l, Inr _) \<Rightarrow> Some (s\<lparr>sys_ledger := l\<rparr>, K_cancel wait ids rest)
           | (l, Inl e) \<Rightarrow> Some (s\<lparr>sys_ledger := l\<rparr>,
               if is_fence_error (SchedulerError e) then K_cancel wait ids rest
               else K_note wait ids rest (SchedulerError e)))
      | K_note wait ids rest e \<Rightarrow> Some (on_queues (record_error e) s, K_cancel wait ids rest)
      | K_discard wait ids lane \<Rightarrow> Some (discard_step wait ids lane s)
      | K_drop_stop wait ids t \<Rightarrow> Some (stop_beat (task_heartbeat t) s, K_drop_join wait ids t)
      | K_drop_join wait ids t \<Rightarrow>
          map_option (\<lambda>(s1, lease). (s1, K_drop wait ids PUBLISH (task_id t))) (join_beat (task_heartbeat t) s)
      | K_drop wait ids lane i \<Rightarrow>
          Some (on_queues (discard_notification lane (set ids) i) s, K_discard wait ids lane)
      | K_clear wait ids \<Rightarrow> Some (on_queues (clear_cancelled (set ids)) s, K_beats wait)
      | K_drain wait (D_return b) \<Rightarrow> Some (s, K_set_stop wait)
      | K_drain wait (D_raise e) \<Rightarrow> Some (s, K_raise e)
      | K_drain wait d \<Rightarrow> map_option (\<lambda>(s1, d1). (s1, K_drain wait d1)) (drain_step W cfg (ch_late ch) d s)
      | K_set_stop wait \<Rightarrow> Some (on_queues (\<lambda>q. q\<lparr>rt_stop := True\<rparr>) s, K_beats wait)
      | K_beats wait \<Rightarrow>
          if distinct (ch_beats ch) \<and> set (ch_beats ch) = rt_heartbeats q then Some (s, K_beat wait (ch_beats ch)) else None
      | K_beat wait [] \<Rightarrow> Some (s, if wait then K_join True else K_return)
      | K_beat wait (k # ks) \<Rightarrow> Some (stop_beat k s, K_beat_join wait k ks)
      | K_beat_join wait k ks \<Rightarrow> map_option (\<lambda>(s1, lease). (s1, K_beat wait ks)) (join_beat k s)
      | K_join wait \<Rightarrow> if ended then Some (s, K_return) else None
      | K_return \<Rightarrow> None
      | K_raise e \<Rightarrow> None)"

section \<open>The runtime\<close>

datatype 'r call =
    Admitting admit_pc
  | Recovering recover_pc
  | Cancelling cancel_pc
  | Draining drain_pc
  | Closing "'r close_pc"

fun initial_call :: "'r call \<Rightarrow> bool" where
  "initial_call (Admitting (A_start i optional)) \<longleftrightarrow> True"
| "initial_call (Recovering R_start) \<longleftrightarrow> True"
| "initial_call (Cancelling (C_start i code detail)) \<longleftrightarrow> True"
| "initial_call (Draining (D_start timeout)) \<longleftrightarrow> True"
| "initial_call (Closing (K_start wait cancel_pending)) \<longleftrightarrow> True"
| "initial_call c \<longleftrightarrow> False"

definition call_step ::
    "'l DurableStreamWorkScheduler \<Rightarrow> BoundedStreamWorkQueuesConfig \<Rightarrow> call_choice \<Rightarrow> bool \<Rightarrow> 'r call \<Rightarrow> ('l, 'r) system
      \<Rightarrow> (('l, 'r) system \<times> 'r call) option" where
  "call_step W cfg ch ended c s =
     (case c of
        Admitting p \<Rightarrow> map_option (\<lambda>(s1, p1). (s1, Admitting p1)) (admit_step W cfg p s)
      | Recovering p \<Rightarrow> map_option (\<lambda>(s1, p1). (s1, Recovering p1)) (recover_step W cfg p s)
      | Cancelling p \<Rightarrow> map_option (\<lambda>(s1, p1). (s1, Cancelling p1)) (cancel_step W cfg p s)
      | Draining p \<Rightarrow> map_option (\<lambda>(s1, p1). (s1, Draining p1)) (drain_step W cfg (ch_late ch) p s)
      | Closing p \<Rightarrow> map_option (\<lambda>(s1, p1). (s1, Closing p1)) (close_step W cfg ch ended p s))"

record ('l, 'r) runtime =
  run_sys :: "('l, 'r) system"
  run_ingress :: ingress_pc
  run_providers :: "'r provider_pc list"
  run_publishers :: "'r publish_pc list"
  run_recovery :: recovery_pc
  run_calls :: "'r call list"

definition runtime_init :: "BoundedStreamWorkQueuesConfig \<Rightarrow> 'l \<Rightarrow> time \<Rightarrow> ('l, 'r) runtime" where
  "runtime_init cfg l t =
     \<lparr>run_sys = \<lparr>sys_ledger = l, sys_now = t, sys_queues = queues_init, sys_beats = [], sys_published = []\<rparr>,
      run_ingress = I_loop, run_providers = replicate (nat (provider_worker_count cfg)) P_loop,
      run_publishers = replicate (nat (publish_worker_count cfg)) U_loop, run_recovery = V_wait, run_calls = []\<rparr>"

text \<open>
  Who moves next, with what the code does not determine: the clock, the token of a claim,
  the outcome of a callback, the listing of a set.
\<close>

datatype 'r event =
    Ev_time time
  | Ev_heartbeat nat
  | Ev_ingress
  | Ev_provider nat string "stream_error + 'r"
  | Ev_publish nat "stream_error option"
  | Ev_recovery
  | Ev_invoke "'r call"
  | Ev_call nat call_choice

definition threads_ended :: "('l, 'r) runtime \<Rightarrow> bool" where
  "threads_ended r \<longleftrightarrow> run_ingress r = I_exit \<and> list_all (\<lambda>p. case p of P_exit \<Rightarrow> True | _ \<Rightarrow> False) (run_providers r)
     \<and> list_all (\<lambda>p. case p of U_exit \<Rightarrow> True | _ \<Rightarrow> False) (run_publishers r) \<and> run_recovery r = V_exit"

definition provider_worker_id :: "string \<Rightarrow> nat \<Rightarrow> string" where
  "provider_worker_id worker_id_prefix n = worker_id_prefix @ '':provider:'' @ decimal n"

definition runtime_step ::
    "'l DurableStreamWorkScheduler \<Rightarrow> BoundedStreamWorkQueuesConfig \<Rightarrow> string \<Rightarrow> 'r event \<Rightarrow> ('l, 'r) runtime
      \<Rightarrow> ('l, 'r) runtime option" where
  "runtime_step W cfg worker_id_prefix ev r =
     (let s = run_sys r in
      case ev of
        Ev_time t \<Rightarrow> if sys_now s \<le> t then Some (r\<lparr>run_sys := s\<lparr>sys_now := t\<rparr>\<rparr>) else None
      | Ev_heartbeat k \<Rightarrow>
          if k < length (sys_beats s) then map_option (\<lambda>s1. r\<lparr>run_sys := s1\<rparr>) (heartbeat_step W cfg k s) else None
      | Ev_ingress \<Rightarrow>
          map_option (\<lambda>(s1, p). r\<lparr>run_sys := s1, run_ingress := p\<rparr>) (ingress_step W cfg (run_ingress r) s)
      | Ev_provider n token out \<Rightarrow>
          if n < length (run_providers r)
          then map_option (\<lambda>(s1, p). r\<lparr>run_sys := s1, run_providers := (run_providers r)[n := p]\<rparr>)
            (provider_step W cfg (provider_worker_id worker_id_prefix n) token out (run_providers r ! n) s)
          else None
      | Ev_publish n out \<Rightarrow>
          if n < length (run_publishers r)
          then map_option (\<lambda>(s1, p). r\<lparr>run_sys := s1, run_publishers := (run_publishers r)[n := p]\<rparr>)
            (publish_step W cfg out (run_publishers r ! n) s)
          else None
      | Ev_recovery \<Rightarrow>
          map_option (\<lambda>(s1, p). r\<lparr>run_sys := s1, run_recovery := p\<rparr>) (recovery_step W cfg (run_recovery r) s)
      | Ev_invoke c \<Rightarrow> if initial_call c then Some (r\<lparr>run_calls := run_calls r @ [c]\<rparr>) else None
      | Ev_call n ch \<Rightarrow>
          if n < length (run_calls r)
          then map_option (\<lambda>(s1, c). r\<lparr>run_sys := s1, run_calls := (run_calls r)[n := c]\<rparr>)
            (call_step W cfg ch (threads_ended r) (run_calls r ! n) s)
          else None)"

primrec runtime_run ::
    "'l DurableStreamWorkScheduler \<Rightarrow> BoundedStreamWorkQueuesConfig \<Rightarrow> string \<Rightarrow> 'r event list \<Rightarrow> ('l, 'r) runtime
      \<Rightarrow> ('l, 'r) runtime option" where
  "runtime_run W cfg prefix [] r = Some r"
| "runtime_run W cfg prefix (ev # evs) r =
     (case runtime_step W cfg prefix ev r of None \<Rightarrow> None | Some r1 \<Rightarrow> runtime_run W cfg prefix evs r1)"

text \<open>
  A runtime together with the other clients of the same durable state: \<open>env T l l'\<close> is a
  change by one of them while the leases \<open>T\<close> belong to this runtime.
\<close>

inductive runtime_reach ::
    "'l DurableStreamWorkScheduler \<Rightarrow> BoundedStreamWorkQueuesConfig \<Rightarrow> string \<Rightarrow> (WorkLease set \<Rightarrow> 'l \<Rightarrow> 'l \<Rightarrow> bool) \<Rightarrow> ('l \<Rightarrow> bool)
      \<Rightarrow> ('l, 'r) runtime \<Rightarrow> bool" for W cfg prefix env begins where
  reach_init: "begins l \<Longrightarrow> runtime_reach W cfg prefix env begins (runtime_init cfg l t)"
| reach_step: "runtime_reach W cfg prefix env begins r \<Longrightarrow> runtime_step W cfg prefix ev r = Some r' \<Longrightarrow>
    runtime_reach W cfg prefix env begins r'"
| reach_env: "runtime_reach W cfg prefix env begins r \<Longrightarrow>
    env (hb_lease ` set (sys_beats (run_sys r))) (sys_ledger (run_sys r)) l' \<Longrightarrow>
    runtime_reach W cfg prefix env begins (r\<lparr>run_sys := (run_sys r)\<lparr>sys_ledger := l'\<rparr>\<rparr>)"

end
