(* ===== verification/Stream_Contract.thy ===== *)
theory Stream_Contract
  imports Stream_Calls Work_Invariant
begin

text \<open>
  What the stream runtime relies on of the durable scheduler, as a locale over the rows its
  state shows, and what it proves from it: the leases the runtime holds stay the ones the
  rows are under, and an item succeeds under one of them only after the publisher returned.
\<close>

section \<open>Rows and leases\<close>

text \<open>
  A change of a row that neither completes it nor renews its lease.
\<close>

definition row_quiet :: "WorkItem \<Rightarrow> WorkItem \<Rightarrow> bool" where
  "row_quiet w w' \<longleftrightarrow> (state w' = SUCCEEDED \<longrightarrow> w' = w)
     \<and> (leased_state (state w') \<and> lease_epoch w' = lease_epoch w \<longrightarrow> lease_expires_at w' = lease_expires_at w)"

lemma row_quiet_refl [simp]: "row_quiet w w"
  by (simp add: row_quiet_def)

lemma row_quiet_trans:
  assumes "row_quiet u v" and "row_quiet v w" and "row_evolves u v" and "row_evolves v w"
  shows "row_quiet u w"
  using assms unfolding row_quiet_def row_evolves_def by (metis order_antisym)

text \<open>Within one epoch only a leased row is completed.\<close>

definition row_sound :: "WorkItem \<Rightarrow> WorkItem \<Rightarrow> bool" where
  "row_sound w w' \<longleftrightarrow> (state w' = SUCCEEDED \<and> lease_epoch w' = lease_epoch w \<longrightarrow> w' = w \<or> leased_state (state w))"

lemma row_sound_quiet: "row_quiet w w' \<Longrightarrow> row_sound w w'"
  by (simp add: row_quiet_def row_sound_def)

lemma row_sound_trans:
  assumes "row_sound u v" and "row_sound v w" and "row_evolves u v" and "row_evolves v w"
  shows "row_sound u w"
  using assms unfolding row_sound_def row_evolves_def by (metis order_antisym)

text \<open>The row is leased under the epoch and token of the lease; with the same expiry as well.\<close>

definition held :: "WorkLease \<Rightarrow> WorkItem \<Rightarrow> bool" where
  "held lease w \<longleftrightarrow> leased_state (state w) \<and> lease_epoch w = granted_epoch lease
     \<and> fencing_token w = Some (granted_token lease) \<and> leased_by w = Some (worker_id lease)"

definition under_lease :: "WorkLease \<Rightarrow> WorkItem \<Rightarrow> bool" where
  "under_lease lease w \<longleftrightarrow> held lease w \<and> lease_expires_at w = Some (granted_expires_at lease)"

definition same_grant :: "WorkLease \<Rightarrow> WorkLease \<Rightarrow> bool" where
  "same_grant a b \<longleftrightarrow> lease_work_item_id a = lease_work_item_id b \<and> worker_id a = worker_id b
     \<and> granted_epoch a = granted_epoch b \<and> granted_token a = granted_token b"

lemma same_grant_refl [simp]: "same_grant a a"
  by (simp add: same_grant_def)

lemma same_grant_trans: "same_grant a b \<Longrightarrow> same_grant b c \<Longrightarrow> same_grant a c"
  by (simp add: same_grant_def)

text \<open>
  A change of the durable state: it stays well formed, rows evolve soundly, and outside \<open>X\<close>
  they change quietly.
\<close>

definition sched_frame ::
    "('l \<Rightarrow> string \<Rightarrow> WorkItem option) \<Rightarrow> ('l \<Rightarrow> bool) \<Rightarrow> string set \<Rightarrow> 'l \<Rightarrow> 'l \<Rightarrow> bool" where
  "sched_frame row ok X l l' \<longleftrightarrow> ok l' \<and>
     (\<forall>i w. row l i = Some w \<longrightarrow> (\<exists>w'. row l' i = Some w' \<and> row_evolves w w' \<and> row_sound w w'
        \<and> (i \<in> X \<or> row_quiet w w')))"

lemma sched_frame_refl: "ok l \<Longrightarrow> sched_frame row ok X l l"
  by (simp add: sched_frame_def row_sound_def)

lemma sched_frame_trans:
  assumes "sched_frame row ok X a b" and "sched_frame row ok X b c"
  shows "sched_frame row ok X a c"
  unfolding sched_frame_def
proof (intro conjI allI impI)
  show "ok c" using assms(2) by (simp add: sched_frame_def)
  fix i w assume "row a i = Some w"
  then obtain v where v: "row b i = Some v" "row_evolves w v" "row_sound w v" "i \<in> X \<or> row_quiet w v"
    using assms(1) unfolding sched_frame_def by meson
  then obtain u where "row c i = Some u" "row_evolves v u" "row_sound v u" "i \<in> X \<or> row_quiet v u"
    using assms(2) unfolding sched_frame_def by meson
  with v show "\<exists>w'. row c i = Some w' \<and> row_evolves w w' \<and> row_sound w w' \<and> (i \<in> X \<or> row_quiet w w')"
    by (meson row_evolves_trans row_quiet_trans row_sound_trans)
qed

lemma sched_frame_mono: "sched_frame row ok X l l' \<Longrightarrow> X \<subseteq> Y \<Longrightarrow> sched_frame row ok Y l l'"
  unfolding sched_frame_def by (meson subsetD)

text \<open>The rows another client may complete or renew: those not held under a lease of \<open>T\<close>.\<close>

definition foreign_rows :: "('l \<Rightarrow> string \<Rightarrow> WorkItem option) \<Rightarrow> WorkLease set \<Rightarrow> 'l \<Rightarrow> string set" where
  "foreign_rows row T l = {i. \<forall>w lease. row l i = Some w \<longrightarrow> lease \<in> T \<longrightarrow> lease_work_item_id lease = i \<longrightarrow> \<not> held lease w}"

definition terminal_row :: "('l \<Rightarrow> string \<Rightarrow> WorkItem option) \<Rightarrow> 'l \<Rightarrow> string \<Rightarrow> bool" where
  "terminal_row row l i \<longleftrightarrow> (\<exists>w. row l i = Some w \<and> terminal_state (state w))"

lemma terminal_row_frame: "sched_frame row ok X l l' \<Longrightarrow> terminal_row row l i \<Longrightarrow> terminal_row row l' i"
  unfolding sched_frame_def terminal_row_def row_evolves_def by metis

section \<open>The contract\<close>

locale durable_scheduler =
  fixes W :: "'l DurableStreamWorkScheduler"
    and row :: "'l \<Rightarrow> string \<Rightarrow> WorkItem option"
    and ok :: "'l \<Rightarrow> bool"
    and env :: "WorkLease set \<Rightarrow> 'l \<Rightarrow> 'l \<Rightarrow> bool"
  assumes reads: "fst (ws_get W i l) = l" "fst (ws_items_for_run W run l) = l" "fst (ws_ready_for_run W run n l) = l"
    and items_rows: "ok l \<Longrightarrow> snd (ws_items_for_run W run l) = Inr ws \<Longrightarrow> row l i = Some w \<Longrightarrow> run_id w = run \<Longrightarrow> w \<in> set ws"
    and reconcile_frame: "ok l \<Longrightarrow> sched_frame row ok {} l (fst (ws_reconcile W t l))"
    and claim_frame: "ok l \<Longrightarrow> sched_frame row ok {} l (fst (ws_claim_and_start W worker d target t token l))"
    and fail_frame: "ok l \<Longrightarrow> sched_frame row ok {} l (fst (ws_fail W lease code retryable detail delay t l))"
    and cancel_frame: "ok l \<Longrightarrow> sched_frame row ok {} l (fst (ws_cancel W i code detail t l))"
    and heartbeat_frame: "ok l \<Longrightarrow> ws_heartbeat W lease d t l = (l', r) \<Longrightarrow>
      sched_frame row ok (if isl r then {} else {lease_work_item_id lease}) l l'"
    and succeed_frame: "ok l \<Longrightarrow> ws_succeed W lease t l = (l', answer) \<Longrightarrow>
      sched_frame row ok (if isl answer then {} else {lease_work_item_id lease}) l l'"
    and claim_grant: "ok l \<Longrightarrow> ws_claim_and_start W worker d (Some i) t token l = (l', Inr (Some c)) \<Longrightarrow>
      lease_work_item_id (claimed_lease c) = i \<and> work_item_id (claimed_item c) = i
      \<and> (\<exists>w w'. row l i = Some w \<and> lease_epoch w < granted_epoch (claimed_lease c)
           \<and> row l' i = Some w' \<and> under_lease (claimed_lease c) w')"
    and heartbeat_renews: "ok l \<Longrightarrow> ws_heartbeat W lease d t l = (l', Inr lease') \<Longrightarrow>
      same_grant lease lease' \<and> (\<exists>w w'. row l (lease_work_item_id lease) = Some w \<and> held lease w
        \<and> row l' (lease_work_item_id lease) = Some w' \<and> under_lease lease' w')"
    and succeed_completes: "ok l \<Longrightarrow> ws_succeed W lease t l = (l', Inr item) \<Longrightarrow>
      \<exists>w w'. row l (lease_work_item_id lease) = Some w \<and> under_lease lease w \<and> state w = RUNNING
        \<and> row l' (lease_work_item_id lease) = Some w' \<and> state w' = SUCCEEDED \<and> lease_epoch w' = lease_epoch w"
    and cancel_ends: "ok l \<Longrightarrow> ws_cancel W i code detail t l = (l', Inr item) \<Longrightarrow> terminal_row row l' i"
    and env_frame: "ok l \<Longrightarrow> env T l l' \<Longrightarrow> sched_frame row ok (foreign_rows row T l) l l'"

end
