(* ===== verification/Stream_Grants.thy ===== *)
theory Stream_Grants
  imports Stream_Contract
begin

text \<open>
  The leases of the runtime. Every claim of a provider worker creates a heartbeat object
  that keeps the newest form of its lease; the invariant relates these objects, the program
  counters that hold them and the rows of the durable state.
\<close>

section \<open>The invariant\<close>

definition published :: "('l, 'r) system \<Rightarrow> WorkLease \<Rightarrow> bool" where
  "published s lease \<longleftrightarrow> (\<exists>p \<in> set (sys_published s). same_grant p lease)"

text \<open>The newest lease of a heartbeat, also while the renewed one is not stored yet.\<close>

definition current_lease :: "LeaseHeartbeat \<Rightarrow> WorkLease" where
  "current_lease hb = (case hb_pc hb of Hb_renewed lease \<Rightarrow> lease | _ \<Rightarrow> hb_lease hb)"

definition beat_ok :: "('l \<Rightarrow> string \<Rightarrow> WorkItem option) \<Rightarrow> ('l, 'r) system \<Rightarrow> LeaseHeartbeat \<Rightarrow> bool" where
  "beat_ok row s hb \<longleftrightarrow> same_grant (hb_lease hb) (current_lease hb) \<and>
     (\<exists>w. row (sys_ledger s) (lease_work_item_id (hb_lease hb)) = Some w
        \<and> granted_epoch (hb_lease hb) \<le> lease_epoch w
        \<and> (lease_epoch w = granted_epoch (hb_lease hb) \<and> leased_state (state w) \<longrightarrow> under_lease (current_lease hb) w)
        \<and> (lease_epoch w = granted_epoch (hb_lease hb) \<and> state w = SUCCEEDED \<longrightarrow> published s (hb_lease hb)))"

definition grant_key :: "LeaseHeartbeat \<Rightarrow> string \<times> nat" where
  "grant_key hb = (lease_work_item_id (hb_lease hb), granted_epoch (hb_lease hb))"

definition beats_ok :: "('l \<Rightarrow> string \<Rightarrow> WorkItem option) \<Rightarrow> ('l \<Rightarrow> bool) \<Rightarrow> ('l, 'r) system \<Rightarrow> bool" where
  "beats_ok row ok s \<longleftrightarrow> ok (sys_ledger s) \<and> distinct (map grant_key (sys_beats s))
     \<and> (\<forall>hb \<in> set (sys_beats s). beat_ok row s hb)"

definition claim_ok :: "('l, 'r) system \<Rightarrow> string \<Rightarrow> WorkLeaseClaim \<Rightarrow> nat \<Rightarrow> bool" where
  "claim_ok s i c k \<longleftrightarrow> k < length (sys_beats s) \<and> same_grant (claimed_lease c) (hb_lease (sys_beats s ! k))
     \<and> work_item_id (claimed_item c) = i \<and> lease_work_item_id (claimed_lease c) = i"

definition ended :: "('l, 'r) system \<Rightarrow> nat \<Rightarrow> WorkLease \<Rightarrow> bool" where
  "ended s k lease \<longleftrightarrow> hb_pc (sys_beats s ! k) = Hb_exit \<and> hb_lease (sys_beats s ! k) = lease"

definition task_ok :: "('l, 'r) system \<Rightarrow> 'r PublishTask \<Rightarrow> bool" where
  "task_ok s t \<longleftrightarrow> claim_ok s (task_id t) (task_claim t) (task_heartbeat t)"

definition tail_ok :: "('l, 'r) system \<Rightarrow> string \<Rightarrow> nat option \<Rightarrow> tail \<Rightarrow> bool" where
  "tail_ok s i h t \<longleftrightarrow>
     (case t of Fail_stop c e \<Rightarrow> \<exists>k. h = Some k \<and> claim_ok s i c k
      | Fail_join c e \<Rightarrow> \<exists>k. h = Some k \<and> claim_ok s i c k
      | Fail_call c e \<Rightarrow> \<exists>k. h = Some k \<and> claim_ok s i c k \<and> ended s k (claimed_lease c)
      | _ \<Rightarrow> True)"

definition ingress_ok :: "('l, 'r) system \<Rightarrow> ingress_pc \<Rightarrow> bool" where
  "ingress_ok s pc \<longleftrightarrow> (case pc of I_tail i t \<Rightarrow> tail_ok s i None t | _ \<Rightarrow> True)"

definition provider_ok :: "('l, 'r) system \<Rightarrow> 'r provider_pc \<Rightarrow> bool" where
  "provider_ok s pc \<longleftrightarrow>
     (case pc of P_track i c k \<Rightarrow> claim_ok s i c k | P_track_stop i c k \<Rightarrow> claim_ok s i c k
      | P_track_join i c k \<Rightarrow> claim_ok s i c k | P_exec i c k \<Rightarrow> claim_ok s i c k
      | P_health i c k r \<Rightarrow> claim_ok s i c k | P_recheck i c k r \<Rightarrow> claim_ok s i c k
      | P_task i c k r \<Rightarrow> claim_ok s i c k
      | P_put i c t \<Rightarrow> claim_ok s i c (task_heartbeat t) \<and> task_ok s t \<and> task_id t = i
      | P_wait i c t \<Rightarrow> claim_ok s i c (task_heartbeat t) \<and> task_ok s t \<and> task_id t = i
      | P_refused i c k \<Rightarrow> claim_ok s i c k | P_refused_health i c k \<Rightarrow> claim_ok s i c k
      | P_tail i h t \<Rightarrow> tail_ok s i h t
      | _ \<Rightarrow> True)"

definition publish_ok :: "('l, 'r) system \<Rightarrow> 'r publish_pc \<Rightarrow> bool" where
  "publish_ok s pc \<longleftrightarrow>
     (case pc of U_begin t \<Rightarrow> task_ok s t | U_check t \<Rightarrow> task_ok s t | U_health t \<Rightarrow> task_ok s t
      | U_lost t e \<Rightarrow> task_ok s t | U_call t \<Rightarrow> task_ok s t
      | U_health_after t \<Rightarrow> task_ok s t \<and> published s (claimed_lease (task_claim t))
      | U_recheck t \<Rightarrow> task_ok s t \<and> published s (claimed_lease (task_claim t))
      | U_stop t \<Rightarrow> task_ok s t \<and> published s (claimed_lease (task_claim t))
      | U_join t \<Rightarrow> task_ok s t \<and> published s (claimed_lease (task_claim t))
      | U_final_health t lease \<Rightarrow>
          task_ok s t \<and> published s (claimed_lease (task_claim t)) \<and> ended s (task_heartbeat t) lease
      | U_succeed t lease \<Rightarrow>
          task_ok s t \<and> published s (claimed_lease (task_claim t)) \<and> ended s (task_heartbeat t) lease
      | U_complete t \<Rightarrow> task_ok s t
      | U_tail i k t \<Rightarrow> tail_ok s i (Some k) t
      | _ \<Rightarrow> True)"

definition lanes_ok :: "('l, 'r) system \<Rightarrow> bool" where
  "lanes_ok s \<longleftrightarrow> (\<forall>t \<in> set (rt_publish (sys_queues s)). task_ok s t)"

section \<open>What other threads keep\<close>

text \<open>
  From one state to a later one heartbeats are added, keep their grant and, once ended,
  their lease; publications are added.
\<close>

definition later :: "('l, 'r) system \<Rightarrow> ('l, 'r) system \<Rightarrow> bool" where
  "later s s' \<longleftrightarrow> length (sys_beats s) \<le> length (sys_beats s') \<and> set (sys_published s) \<subseteq> set (sys_published s')
     \<and> (\<forall>k < length (sys_beats s). same_grant (hb_lease (sys_beats s ! k)) (hb_lease (sys_beats s' ! k))
          \<and> (hb_pc (sys_beats s ! k) = Hb_exit \<longrightarrow>
               hb_pc (sys_beats s' ! k) = Hb_exit \<and> hb_lease (sys_beats s' ! k) = hb_lease (sys_beats s ! k)))"

lemma later_refl [simp]: "later s s"
  by (simp add: later_def)

lemma later_same [simp]: "sys_beats s' = sys_beats s \<Longrightarrow> sys_published s' = sys_published s \<Longrightarrow> later s s'"
  by (simp add: later_def)

lemma later_trans:
  assumes "later a b" and "later b c"
  shows "later a c"
proof -
  have "same_grant (hb_lease (sys_beats a ! k)) (hb_lease (sys_beats c ! k))
      \<and> (hb_pc (sys_beats a ! k) = Hb_exit \<longrightarrow>
           hb_pc (sys_beats c ! k) = Hb_exit \<and> hb_lease (sys_beats c ! k) = hb_lease (sys_beats a ! k))"
    if "k < length (sys_beats a)" for k
  proof -
    have "k < length (sys_beats b)" using assms(1) that by (simp add: later_def)
    with that assms show ?thesis
      using same_grant_trans [of "hb_lease (sys_beats a ! k)" "hb_lease (sys_beats b ! k)"] by (simp add: later_def)
  qed
  with assms show ?thesis by (auto simp: later_def)
qed

lemma published_later: "later s s' \<Longrightarrow> published s lease \<Longrightarrow> published s' lease"
  by (auto simp: later_def published_def)

lemma claim_ok_later: "later s s' \<Longrightarrow> claim_ok s i c k \<Longrightarrow> claim_ok s' i c k"
  by (auto simp: later_def claim_ok_def intro: same_grant_trans)

lemma ended_later: "later s s' \<Longrightarrow> claim_ok s i c k \<Longrightarrow> ended s k lease \<Longrightarrow> ended s' k lease"
  by (auto simp: later_def claim_ok_def ended_def)

lemma task_ok_later: "later s s' \<Longrightarrow> task_ok s t \<Longrightarrow> task_ok s' t"
  by (simp add: task_ok_def claim_ok_later)

lemma tail_ok_later:
  assumes "later s s'" and "tail_ok s i h t"
  shows "tail_ok s' i h t"
  using assms(2)
  by (cases t) (simp_all add: tail_ok_def, (blast intro: claim_ok_later [OF assms(1)] ended_later [OF assms(1)])+)

lemma ingress_ok_later: "later s s' \<Longrightarrow> ingress_ok s pc \<Longrightarrow> ingress_ok s' pc"
  by (cases pc) (simp_all add: ingress_ok_def tail_ok_later)

lemma provider_ok_later:
  assumes "later s s'" and "provider_ok s pc"
  shows "provider_ok s' pc"
  using assms(2)
  by (cases pc) (simp_all add: provider_ok_def claim_ok_later [OF assms(1)] task_ok_later [OF assms(1)]
      tail_ok_later [OF assms(1)])

lemma publish_ok_later:
  assumes "later s s'" and "publish_ok s pc"
  shows "publish_ok s' pc"
  using assms(2)
  by (cases pc) (simp_all add: publish_ok_def published_later [OF assms(1)] task_ok_later [OF assms(1)]
      tail_ok_later [OF assms(1)], (blast intro: ended_later [OF assms(1)] task_ok_def [THEN iffD1])+)

lemma claim_with_lease_ok:
  "claim_ok s i c k \<Longrightarrow> claim_ok s i (claim_with_lease c (hb_lease (sys_beats s ! k))) k"
  by (cases "hb_lease (sys_beats s ! k) = claimed_lease c")
    (simp_all add: claim_ok_def claim_with_lease_def same_grant_def, metis)

lemma claimed_lease_with [simp]: "claimed_lease (claim_with_lease c lease) = lease"
  by (simp add: claim_with_lease_def)

section \<open>Steps that keep the leases\<close>

lemma on_queues_sel [simp]:
  "sys_ledger (on_queues f s) = sys_ledger s" "sys_beats (on_queues f s) = sys_beats s"
  "sys_published (on_queues f s) = sys_published s" "sys_now (on_queues f s) = sys_now s"
  "sys_queues (on_queues f s) = f (sys_queues s)"
  by (simp_all add: on_queues_def)

lemma set_beat_sel [simp]:
  "sys_ledger (set_beat k f s) = sys_ledger s" "sys_published (set_beat k f s) = sys_published s"
  "sys_queues (set_beat k f s) = sys_queues s" "sys_now (set_beat k f s) = sys_now s"
  "length (sys_beats (set_beat k f s)) = length (sys_beats s)"
  by (simp_all add: set_beat_def)

lemma stop_beat_sel [simp]:
  "sys_ledger (stop_beat k s) = sys_ledger s" "sys_published (stop_beat k s) = sys_published s"
  "sys_queues (stop_beat k s) = sys_queues s" "sys_now (stop_beat k s) = sys_now s"
  "length (sys_beats (stop_beat k s)) = length (sys_beats s)"
  by (simp_all add: stop_beat_def)

lemma set_beat_on_queues: "set_beat k f (on_queues g s) = on_queues g (set_beat k f s)"
  by (cases s) (simp add: set_beat_def on_queues_def)

lemma published_cong: "sys_published s' = sys_published s \<Longrightarrow> published s' = published s"
  by (simp add: published_def fun_eq_iff)

text \<open>A heartbeat object changes without losing its newest lease.\<close>

lemma beats_ok_update:
  assumes "beats_ok row ok s" and "k < length (sys_beats s)"
    and "same_grant (hb_lease (sys_beats s ! k)) (hb_lease (f (sys_beats s ! k)))"
    and "current_lease (f (sys_beats s ! k)) = current_lease (sys_beats s ! k)"
    and "hb_pc (sys_beats s ! k) = Hb_exit \<Longrightarrow>
      hb_pc (f (sys_beats s ! k)) = Hb_exit \<and> hb_lease (f (sys_beats s ! k)) = hb_lease (sys_beats s ! k)"
  shows "beats_ok row ok (set_beat k f s)" and "later s (set_beat k f s)"
proof -
  let ?hb = "sys_beats s ! k"
  let ?s = "set_beat k f s"
  have beats: "sys_beats ?s = (sys_beats s)[k := f ?hb]" by (simp add: set_beat_def)
  have ids: "lease_work_item_id (hb_lease (f ?hb)) = lease_work_item_id (hb_lease ?hb)"
    "granted_epoch (hb_lease (f ?hb)) = granted_epoch (hb_lease ?hb)"
    using assms(3) by (simp_all add: same_grant_def)
  have key: "grant_key (f ?hb) = grant_key ?hb" by (simp add: grant_key_def ids)
  have "map grant_key (sys_beats ?s) = map grant_key (sys_beats s)"
    unfolding beats using assms(2) key by (simp add: map_update list_update_same_conv)
  moreover have "beat_ok row ?s hb" if "hb \<in> set (sys_beats ?s)" for hb
  proof -
    have pub: "published ?s lease \<longleftrightarrow> published s lease" for lease by (simp add: published_def)
    have old: "beat_ok row s ?hb" using assms(1,2) by (simp add: beats_ok_def)
    have "published s (hb_lease ?hb) \<longleftrightarrow> published s (hb_lease (f ?hb))"
      using assms(3) by (auto simp: published_def same_grant_def)
    then have "beat_ok row ?s (f ?hb)"
      using old assms(3) unfolding beat_ok_def assms(4) ids pub
      by (simp only: set_beat_sel) (simp add: same_grant_def)
    moreover have "beat_ok row ?s hb" if "hb \<in> set (sys_beats s)"
      using that assms(1) by (simp add: beats_ok_def beat_ok_def pub)
    ultimately show ?thesis using that set_update_subset_insert [of "sys_beats s" k "f ?hb"] unfolding beats by blast
  qed
  ultimately show "beats_ok row ok ?s" using assms(1) by (simp add: beats_ok_def)
  show "later s ?s" using assms(2,3,5) by (auto simp: later_def beats nth_list_update)
qed

lemma current_lease_stop [simp]: "current_lease (hb\<lparr>hb_stop := b\<rparr>) = current_lease hb"
  by (cases "hb_pc hb") (simp_all add: current_lease_def)

lemma beats_ok_stop:
  assumes "beats_ok row ok s"
  shows "beats_ok row ok (stop_beat k s)" and "later s (stop_beat k s)"
proof -
  have "stop_beat k s = s" if "\<not> k < length (sys_beats s)"
    using that by (cases s) (simp add: stop_beat_def set_beat_def list_update_beyond)
  then have "beats_ok row ok (stop_beat k s) \<and> later s (stop_beat k s)"
    using assms beats_ok_update [OF assms, of k "\<lambda>h. h\<lparr>hb_stop := True\<rparr>"]
    by (cases "k < length (sys_beats s)") (simp_all add: stop_beat_def)
  then show "beats_ok row ok (stop_beat k s)" and "later s (stop_beat k s)" by simp_all
qed

lemma beats_ok_queues [simp]: "beats_ok row ok (on_queues f s) = beats_ok row ok s"
  by (simp add: beats_ok_def beat_ok_def published_def)

lemma beats_ok_set_queues [simp]: "beats_ok row ok (s\<lparr>sys_queues := q\<rparr>) = beats_ok row ok s"
  by (simp add: beats_ok_def beat_ok_def published_def)

text \<open>The durable state changes, but the lease is not renewed and its item not completed.\<close>

lemma beat_ok_frame:
  assumes "beat_ok row s hb" and "sched_frame row ok X (sys_ledger s) l'"
    and "\<And>w. row (sys_ledger s) (lease_work_item_id (hb_lease hb)) = Some w \<Longrightarrow>
      held (hb_lease hb) w \<Longrightarrow> lease_work_item_id (hb_lease hb) \<notin> X"
  shows "beat_ok row (s\<lparr>sys_ledger := l'\<rparr>) hb"
proof -
  let ?i = "lease_work_item_id (hb_lease hb)" and ?e = "granted_epoch (hb_lease hb)"
  obtain w where w: "row (sys_ledger s) ?i = Some w" "?e \<le> lease_epoch w"
    "lease_epoch w = ?e \<and> leased_state (state w) \<longrightarrow> under_lease (current_lease hb) w"
    "lease_epoch w = ?e \<and> state w = SUCCEEDED \<longrightarrow> published s (hb_lease hb)"
    "same_grant (hb_lease hb) (current_lease hb)"
    using assms(1) by (auto simp: beat_ok_def)
  obtain w' where w': "row l' ?i = Some w'" "row_evolves w w'" "?i \<in> X \<or> row_quiet w w'" "row_sound w w'"
    using assms(2) w(1) unfolding sched_frame_def by meson
  have ep: "lease_epoch w = ?e" if "lease_epoch w' = ?e" using that w(2) w'(2) by (simp add: row_evolves_def)
  have quiet: "row_quiet w w'" if "lease_epoch w' = ?e" "leased_state (state w) \<or> w' \<noteq> w"
  proof (cases "leased_state (state w)")
    case True
    then have "held (hb_lease hb) w"
      using w(3,5) ep [OF that(1)] by (auto simp: under_lease_def held_def same_grant_def)
    then show ?thesis using assms(3) [OF w(1)] w'(3) by blast
  next
    case False
    then show ?thesis
      using w'(2,4) ep [OF that(1)] that(1)
      by (cases "w' = w") (auto simp: row_evolves_def row_quiet_def row_sound_def)
  qed
  have "under_lease (current_lease hb) w'" if "lease_epoch w' = ?e" "leased_state (state w')"
  proof -
    have l: "leased_state (state w)" "fencing_token w' = fencing_token w" "leased_by w' = leased_by w"
      using w'(2) ep [OF that(1)] that by (auto simp: row_evolves_def)
    have u: "under_lease (current_lease hb) w" using w(3) ep [OF that(1)] l(1) by blast
    have "lease_expires_at w' = lease_expires_at w"
      using quiet [OF that(1)] l(1) that ep [OF that(1)] by (simp add: row_quiet_def)
    then show ?thesis using u l that ep [OF that(1)] by (simp add: under_lease_def held_def)
  qed
  moreover have "published s (hb_lease hb)" if "lease_epoch w' = ?e" "state w' = SUCCEEDED"
    using w(4) quiet [OF that(1)] that by (cases "w' = w") (auto simp: row_quiet_def)
  ultimately show ?thesis
    using w' w(2,5) by (auto simp: beat_ok_def published_def row_evolves_def)
qed

lemma beats_ok_frame:
  assumes "beats_ok row ok s" and "sched_frame row ok X (sys_ledger s) l'"
    and "\<And>hb w. hb \<in> set (sys_beats s) \<Longrightarrow> row (sys_ledger s) (lease_work_item_id (hb_lease hb)) = Some w \<Longrightarrow>
      held (hb_lease hb) w \<Longrightarrow> lease_work_item_id (hb_lease hb) \<notin> X"
  shows "beats_ok row ok (s\<lparr>sys_ledger := l'\<rparr>)"
  using assms(1,2) beat_ok_frame [OF _ assms(2) assms(3)] by (simp add: beats_ok_def sched_frame_def)

text \<open>
  The row of heartbeat \<open>k\<close> is renewed or completed. No other heartbeat holds that row, since
  no two have the same item and epoch.
\<close>

lemma beats_ok_own:
  assumes ok: "beats_ok row ok s" and k: "k < length (sys_beats s)"
    and frame: "sched_frame row ok {lease_work_item_id (hb_lease (sys_beats s ! k))} (sys_ledger s) l'"
    and w: "row (sys_ledger s) (lease_work_item_id (hb_lease (sys_beats s ! k))) = Some w"
      "held (hb_lease (sys_beats s ! k)) w"
    and new: "beat_ok row (s\<lparr>sys_ledger := l'\<rparr>) (f (sys_beats s ! k))"
      "grant_key (f (sys_beats s ! k)) = grant_key (sys_beats s ! k)"
  shows "beats_ok row ok (set_beat k f (s\<lparr>sys_ledger := l'\<rparr>))"
proof -
  let ?hb = "sys_beats s ! k"
  let ?s = "s\<lparr>sys_ledger := l'\<rparr>"
  have beats: "sys_beats (set_beat k f ?s) = (sys_beats s)[k := f ?hb]" by (simp add: set_beat_def)
  have other: "beat_ok row ?s (sys_beats s ! j)" if "j < length (sys_beats s)" "j \<noteq> k" for j
  proof (rule beat_ok_frame [OF _ frame])
    show "beat_ok row s (sys_beats s ! j)" using ok that by (simp add: beats_ok_def)
    fix v
    assume v: "row (sys_ledger s) (lease_work_item_id (hb_lease (sys_beats s ! j))) = Some v"
      "held (hb_lease (sys_beats s ! j)) v"
    have "grant_key (sys_beats s ! j) \<noteq> grant_key ?hb"
      using ok k that nth_eq_iff_index_eq [of "map grant_key (sys_beats s)" j k] by (simp add: beats_ok_def)
    then show "lease_work_item_id (hb_lease (sys_beats s ! j)) \<notin> {lease_work_item_id (hb_lease ?hb)}"
      using v w by (auto simp: grant_key_def held_def)
  qed
  have cong: "beat_ok row (set_beat k f ?s) hb = beat_ok row ?s hb" for hb
    by (simp add: beat_ok_def published_def)
  have "map grant_key ((sys_beats s)[k := f ?hb]) = map grant_key (sys_beats s)"
    using k new(2) by (simp add: map_update list_update_same_conv)
  moreover have "beat_ok row (set_beat k f ?s) hb" if "hb \<in> set ((sys_beats s)[k := f ?hb])" for hb
    using that other new(1) k unfolding cong in_set_conv_nth by (auto simp: nth_list_update)
  ultimately show ?thesis using ok frame by (simp add: beats_ok_def beats sched_frame_def)
qed

lemma beat_ok_published:
  assumes "later s s'" and "sys_ledger s' = sys_ledger s" and "beat_ok row s hb"
  shows "beat_ok row s' hb"
  using assms(3) published_later [OF assms(1), of "hb_lease hb"] unfolding beat_ok_def assms(2) by blast

section \<open>Every step keeps the invariant\<close>

definition sys_ok :: "('l \<Rightarrow> string \<Rightarrow> WorkItem option) \<Rightarrow> ('l \<Rightarrow> bool) \<Rightarrow> ('l, 'r) system \<Rightarrow> bool" where
  "sys_ok row ok s \<longleftrightarrow> beats_ok row ok s \<and> lanes_ok s"

definition keeps :: "('l \<Rightarrow> string \<Rightarrow> WorkItem option) \<Rightarrow> ('l \<Rightarrow> bool) \<Rightarrow> ('l, 'r) system \<Rightarrow> ('l, 'r) system \<Rightarrow> bool" where
  "keeps row ok s s' \<longleftrightarrow> sys_ok row ok s' \<and> later s s'"

text \<open>
  A step is fine when it leaves the leases alone or changes them as the lemmas above allow,
  and adds no task to the publish lane but a checked one.
\<close>

lemma keepsI:
  assumes "sys_ok row ok s" and "beats_ok row ok s'" and "later s s'"
    and "\<And>t. t \<in> set (rt_publish (sys_queues s')) \<Longrightarrow> t \<in> set (rt_publish (sys_queues s)) \<or> task_ok s t"
  shows "keeps row ok s s'"
  using assms task_ok_later [OF assms(3)] by (fastforce simp: keeps_def sys_ok_def lanes_ok_def)

lemma keeps_queues:
  assumes "sys_ok row ok s"
    and "\<And>t. t \<in> set (rt_publish (f (sys_queues s))) \<Longrightarrow> t \<in> set (rt_publish (sys_queues s)) \<or> task_ok s t"
  shows "keeps row ok s (on_queues f s)"
  using assms by (intro keepsI) (simp_all add: sys_ok_def)

lemma keeps_set_queues:
  assumes "sys_ok row ok s" and "rt_publish q = rt_publish (sys_queues s)"
  shows "keeps row ok s (s\<lparr>sys_queues := q\<rparr>)"
  using assms by (intro keepsI) (simp_all add: sys_ok_def)

lemma keeps_refl: "sys_ok row ok s \<Longrightarrow> keeps row ok s s"
  by (simp add: keeps_def)

lemma keeps_trans: "keeps row ok a b \<Longrightarrow> keeps row ok b c \<Longrightarrow> keeps row ok a c"
  unfolding keeps_def using later_trans by blast

lemma keeps_frame:
  "sys_ok row ok s \<Longrightarrow> sched_frame row ok {} (sys_ledger s) l' \<Longrightarrow> keeps row ok s (s\<lparr>sys_ledger := l'\<rparr>)"
  by (intro keepsI) (simp_all add: sys_ok_def beats_ok_frame)

lemma keeps_stop: "sys_ok row ok s \<Longrightarrow> keeps row ok s (stop_beat k s)"
  using beats_ok_stop [of row ok s k] by (intro keepsI) (simp_all add: sys_ok_def)

lemma join_beat_Some:
  assumes "sys_ok row ok s" and "join_beat k s = Some (s', lease)"
  shows "keeps row ok s s'" and "ended s' k lease" and "sys_beats s' = sys_beats s"
    and "s' = on_queues (untrack_heartbeat k) s"
  using assms by (auto simp: join_beat_def ended_def untrack_heartbeat_def split: if_splits intro!: keeps_queues)

lemma keeps_same_lanes: "sys_ok row ok s \<Longrightarrow> same_lanes (sys_queues s) q \<Longrightarrow> keeps row ok s (s\<lparr>sys_queues := q\<rparr>)"
  by (intro keeps_set_queues) (simp_all add: same_lanes_def)

lemma keeps_admit:
  assumes "sys_ok row ok s" and "admit_ready cfg item external (sys_queues s) = (q, status)"
  shows "keeps row ok s (s\<lparr>sys_queues := q\<rparr>)"
  using assms(2) by (cases rule: admit_ready_cases) (auto intro!: keeps_set_queues [OF assms(1)] simp: same_lanes_def)

context durable_scheduler
begin

lemma heartbeat_step_keeps:
  assumes ok: "sys_ok row ok s" and k: "k < length (sys_beats s)" and st: "heartbeat_step W cfg k s = Some s'"
  shows "keeps row ok s s'"
proof -
  let ?hb = "sys_beats s ! k"
  have beats: "beats_ok row ok s" and led: "ok (sys_ledger s)" using ok by (simp_all add: sys_ok_def beats_ok_def)
  have upd: "keeps row ok s (set_beat k f s)" if "hb_pc ?hb \<noteq> Hb_exit" "same_grant (hb_lease ?hb) (hb_lease (f ?hb))"
    "current_lease (f ?hb) = current_lease ?hb" for f
    using that beats_ok_update [OF beats k, of f] ok by (intro keepsI) simp_all
  show ?thesis
  proof (cases "hb_pc ?hb")
    case Hb_wait
    show ?thesis
    proof (cases "hb_stop ?hb")
      case True
      with Hb_wait st upd [of "\<lambda>h. h\<lparr>hb_pc := Hb_exit\<rparr>"] show ?thesis
        by (simp add: heartbeat_step_def Let_def current_lease_def)
    next
      case False
      obtain l r where call: "ws_heartbeat W (hb_lease ?hb) (lease_duration_seconds cfg) (sys_now s) (sys_ledger s) = (l, r)"
        by force
      note frame = heartbeat_frame [OF led call]
      show ?thesis
      proof (cases r)
        case (Inl e)
        let ?s = "s\<lparr>sys_ledger := l\<rparr>"
        have s': "s' = set_beat k (\<lambda>h. h\<lparr>hb_pc := Hb_failed (SchedulerError e)\<rparr>) ?s"
          using st Hb_wait False call Inl by (simp add: heartbeat_step_def Let_def)
        have s1: "keeps row ok s ?s" using keeps_frame [OF ok, of l] frame Inl by simp
        have "beats_ok row ok s' \<and> later ?s s'"
          unfolding s' using s1 k Hb_wait
            beats_ok_update [of row ok ?s k "\<lambda>h. h\<lparr>hb_pc := Hb_failed (SchedulerError e)\<rparr>"]
          by (simp add: keeps_def sys_ok_def current_lease_def)
        then show ?thesis using s1 ok unfolding s'
          by (intro keeps_trans [OF s1] keepsI) (simp_all add: keeps_def)
      next
        case (Inr lease')
        let ?f = "\<lambda>h. h\<lparr>hb_pc := Hb_renewed lease'\<rparr>"
        have s': "s' = set_beat k ?f (s\<lparr>sys_ledger := l\<rparr>)"
          using st Hb_wait False call Inr by (simp add: heartbeat_step_def Let_def)
        obtain w w' where g: "same_grant (hb_lease ?hb) lease'"
          and w: "row (sys_ledger s) (lease_work_item_id (hb_lease ?hb)) = Some w" "held (hb_lease ?hb) w"
          and w': "row l (lease_work_item_id (hb_lease ?hb)) = Some w'" "under_lease lease' w'"
          using heartbeat_renews [OF led call [unfolded Inr]] by blast
        have "beat_ok row (s\<lparr>sys_ledger := l\<rparr>) (?f ?hb)"
          using g w' by (auto simp: beat_ok_def current_lease_def under_lease_def held_def same_grant_def leased_state_def)
        then have "beats_ok row ok s'"
          unfolding s' using frame Inr by (intro beats_ok_own [OF beats k _ w]) (simp_all add: grant_key_def)
        moreover have "later s s'" unfolding s' using Hb_wait k by (auto simp: later_def set_beat_def nth_list_update)
        ultimately show ?thesis using ok s' by (intro keepsI) simp_all
      qed
    qed
  next
    case (Hb_renewed lease')
    have "same_grant (hb_lease ?hb) lease'"
      using beats nth_mem [OF k] Hb_renewed by (auto simp: beats_ok_def beat_ok_def current_lease_def)
    with Hb_renewed st upd [of "\<lambda>h. h\<lparr>hb_lease := lease', hb_pc := Hb_count\<rparr>"] show ?thesis
      by (simp add: heartbeat_step_def Let_def current_lease_def)
  next
    case Hb_count
    have "keeps row ok s (on_queues record_lease_renewal (set_beat k (\<lambda>h. h\<lparr>hb_pc := Hb_wait\<rparr>) s))"
      using upd [of "\<lambda>h. h\<lparr>hb_pc := Hb_wait\<rparr>"] Hb_count
      by (intro keeps_trans [OF _ keeps_queues]) (simp_all add: keeps_def current_lease_def block_defs)
    with Hb_count st show ?thesis by (simp add: heartbeat_step_def Let_def set_beat_on_queues)
  next
    case (Hb_failed e)
    with st upd [of "\<lambda>h. h\<lparr>hb_error := Some e, hb_pc := Hb_count_error\<rparr>"] show ?thesis
      by (simp add: heartbeat_step_def Let_def current_lease_def)
  next
    case Hb_count_error
    have "keeps row ok s (on_queues record_lease_renewal_error (set_beat k (\<lambda>h. h\<lparr>hb_pc := Hb_leave\<rparr>) s))"
      using upd [of "\<lambda>h. h\<lparr>hb_pc := Hb_leave\<rparr>"] Hb_count_error
      by (intro keeps_trans [OF _ keeps_queues]) (simp_all add: keeps_def current_lease_def block_defs)
    with Hb_count_error st show ?thesis by (simp add: heartbeat_step_def Let_def set_beat_on_queues)
  next
    case Hb_leave
    with st upd [of "\<lambda>h. h\<lparr>hb_stop := True, hb_pc := Hb_exit\<rparr>"] show ?thesis
      by (simp add: heartbeat_step_def Let_def current_lease_def)
  next
    case Hb_exit
    with st show ?thesis by (simp add: heartbeat_step_def Let_def)
  qed
qed

lemma tail_step_keeps:
  assumes ok: "sys_ok row ok s" and t: "tail_ok s i h t" and st: "tail_step W cfg lane i h t s = Some (s', u)"
  shows "keeps row ok s s' \<and> (case u of None \<Rightarrow> True | Some t' \<Rightarrow> tail_ok s' i h t')"
proof -
  have led: "ok (sys_ledger s)" using ok by (simp add: sys_ok_def beats_ok_def)
  have q: "keeps row ok s (on_queues f s)" if "rt_publish (f (sys_queues s)) = rt_publish (sys_queues s)" for f
    using keeps_queues [OF ok, of f] that by simp
  show ?thesis
  proof (cases t)
    case (Fail_stop c e)
    then obtain k where k: "h = Some k" "claim_ok s i c k" using t by (auto simp: tail_ok_def)
    with st Fail_stop have s': "s' = stop_beat k s" "u = Some (Fail_join c e)" by (simp_all add: tail_step_def)
    have kp: "keeps row ok s s'" using keeps_stop [OF ok] s' by simp
    moreover have "claim_ok s' i c k" using claim_ok_later kp k(2) by (auto simp: keeps_def)
    ultimately show ?thesis using s' k(1) by (simp add: tail_ok_def)
  next
    case (Fail_join c e)
    then obtain k lease where k: "h = Some k" "claim_ok s i c k" and j: "join_beat k s = Some (s', lease)"
      and u: "u = Some (Fail_call (claim_with_lease c lease) e)"
      using t st by (auto simp: tail_ok_def tail_step_def)
    note join = join_beat_Some [OF ok j]
    have "lease = hb_lease (sys_beats s ! k)" using join(2,3) by (simp add: ended_def)
    then have "claim_ok s i (claim_with_lease c lease) k" using claim_with_lease_ok [OF k(2)] by simp
    then have "claim_ok s' i (claim_with_lease c lease) k" using join(3) by (simp add: claim_ok_def)
    then show ?thesis using join k(1) u by (simp add: tail_ok_def)
  next
    case (Fail_call c e)
    obtain code retryable detail delay where r: "failure_report cfg lane e = (code, retryable, detail, delay)"
      by (metis prod_cases4)
    have "keeps row ok s (s\<lparr>sys_ledger := fst (ws_fail W (claimed_lease c) code retryable detail delay (sys_now s) (sys_ledger s))\<rparr>)"
      by (rule keeps_frame [OF ok fail_frame [OF led]])
    then show ?thesis using st Fail_call r by (auto simp: tail_step_def tail_ok_def split: prod.splits sum.splits)
  next
    case Release
    then show ?thesis using st keeps_refl [OF ok] keeps_stop [OF ok] by (auto simp: tail_step_def tail_ok_def split: option.splits)
  next
    case Release_join
    then obtain k lease where "join_beat k s = Some (s', lease)" "u = Some End_round"
      using st by (auto simp: tail_step_def split: option.splits)
    then show ?thesis using join_beat_Some(1) [OF ok] by (auto simp: tail_ok_def)
  next
    case (Fail_note x)
    then show ?thesis using st keeps_refl [OF ok] q [of "record_error x"]
      by (auto simp: tail_step_def tail_ok_def record_error_def split: if_splits)
  qed (use st q in \<open>auto simp: tail_step_def tail_ok_def block_defs\<close>)
qed

lemma ingress_step_keeps:
  assumes ok: "sys_ok row ok s" and st: "ingress_step W cfg pc s = Some (s', pc')"
    and t: "ingress_ok s pc"
  shows "keeps row ok s s' \<and> ingress_ok s' pc'"
proof -
  have q: "keeps row ok s (on_queues f s)" if "rt_publish (f (sys_queues s)) = rt_publish (sys_queues s)" for f
    using keeps_queues [OF ok, of f] that by simp
  show ?thesis
  proof (cases pc)
    case (I_tail i u)
    then obtain v where "tail_step W cfg INGRESS i None u s = Some (s', v)" and "pc' = (case v of None \<Rightarrow> I_loop | Some w \<Rightarrow> I_tail i w)"
      using st by (auto simp: ingress_step_def Let_def)
    then show ?thesis using tail_step_keeps [OF ok, of i None u cfg INGRESS s' v] t I_tail
      by (cases v) (auto simp: ingress_ok_def)
  qed (use st q keeps_refl [OF ok] in \<open>auto simp: ingress_step_def ingress_ok_def Let_def tail_ok_def block_defs split: if_splits list.splits\<close>)
qed

lemma provider_step_keeps:
  assumes ok: "sys_ok row ok s" and p: "provider_ok s pc" and st: "provider_step W cfg worker token out pc s = Some (s', pc')"
  shows "keeps row ok s s' \<and> provider_ok s' pc'"
proof -
  have led: "ok (sys_ledger s)" using ok by (simp add: sys_ok_def beats_ok_def)
  have q: "keeps row ok s (on_queues f s)" if "rt_publish (f (sys_queues s)) = rt_publish (sys_queues s)" for f
    using keeps_queues [OF ok, of f] that by simp
  have same: "claim_ok (on_queues f s) = claim_ok s" for f by (simp add: claim_ok_def fun_eq_iff)
  show ?thesis
  proof (cases pc)
    case (P_claim i)
    obtain l r where call: "ws_claim_and_start W worker (lease_duration_seconds cfg) (Some i) (sys_now s) token (sys_ledger s) = (l, r)"
      by force
    have frame: "sched_frame row ok {} (sys_ledger s) l" using claim_frame [OF led] call by (metis fst_conv)
    note kp = keeps_frame [OF ok frame]
    show ?thesis
    proof (cases "\<exists>c. r = Inr (Some c)")
      case False
      then show ?thesis using st P_claim call kp
        by (auto simp: provider_step_def provider_ok_def tail_ok_def split: sum.splits option.splits)
    next
      case True
      then obtain c where c: "r = Inr (Some c)" by blast
      let ?s = "s\<lparr>sys_ledger := l\<rparr>"
      let ?hb = "new_heartbeat (claimed_lease c)"
      have s': "s' = ?s\<lparr>sys_beats := sys_beats s @ [?hb]\<rparr>" "pc' = P_track i c (length (sys_beats s))"
        using st P_claim call c by (auto simp: provider_step_def)
      obtain w w' where g: "lease_work_item_id (claimed_lease c) = i" "work_item_id (claimed_item c) = i"
        and w: "row (sys_ledger s) i = Some w" "lease_epoch w < granted_epoch (claimed_lease c)"
        and w': "row l i = Some w'" "under_lease (claimed_lease c) w'"
        using claim_grant [OF led call [unfolded c]] by blast
      have "grant_key ?hb \<notin> grant_key ` set (sys_beats s)"
      proof
        assume "grant_key ?hb \<in> grant_key ` set (sys_beats s)"
        then obtain hb where that: "hb \<in> set (sys_beats s)" and "grant_key hb = grant_key ?hb" by force
        then have "lease_work_item_id (hb_lease hb) = i" "granted_epoch (hb_lease hb) = granted_epoch (claimed_lease c)"
          using g by (simp_all add: grant_key_def new_heartbeat_def)
        moreover have "beat_ok row s hb" using ok that by (simp add: sys_ok_def beats_ok_def)
        ultimately show False using w by (auto simp: beat_ok_def)
      qed
      moreover have "beat_ok row s' ?hb"
        using w' g by (auto simp: s' beat_ok_def new_heartbeat_def current_lease_def under_lease_def held_def leased_state_def)
      moreover have "beat_ok row s' hb" if "hb \<in> set (sys_beats s)" for hb
        using kp that by (simp add: s' keeps_def sys_ok_def beats_ok_def beat_ok_def published_def)
      ultimately have "beats_ok row ok s'"
        using kp unfolding keeps_def sys_ok_def beats_ok_def s' by auto
      moreover have "later s s'" by (simp add: s' later_def nth_append)
      ultimately have "keeps row ok s s'" using ok s' by (intro keepsI) simp_all
      then show ?thesis using g by (simp add: s' provider_ok_def claim_ok_def nth_append new_heartbeat_def)
    qed
  next
    case (P_track_join i c k)
    then obtain lease where j: "join_beat k s = Some (s', lease)" and pc': "pc' = P_exec i c k"
      using st by (auto simp: provider_step_def)
    then show ?thesis using join_beat_Some [OF ok j] p P_track_join by (simp add: provider_ok_def claim_ok_def)
  next
    case (P_track_stop i c k)
    then have s': "s' = stop_beat k s" "pc' = P_track_join i c k" using st by (simp_all add: provider_step_def)
    have "keeps row ok s s'" using keeps_stop [OF ok] s' by simp
    then show ?thesis using p P_track_stop claim_ok_later s' by (auto simp: provider_ok_def keeps_def)
  next
    case (P_task i c k r)
    then show ?thesis using st p claim_with_lease_ok [of s i c k] keeps_refl [OF ok]
      by (auto simp: provider_step_def provider_ok_def task_ok_def task_id_def claim_ok_def)
  next
    case (P_put i c t)
    have "keeps row ok s (on_queues (\<lambda>q. q\<lparr>rt_publish := rt_publish q @ [t]\<rparr>) s)"
      using p P_put by (intro keeps_queues [OF ok]) (auto simp: provider_ok_def)
    then show ?thesis using st p P_put keeps_refl [OF ok]
      by (auto simp: provider_step_def provider_ok_def Let_def split: if_splits)
  next
    case (P_tail i h u)
    then obtain v where "tail_step W cfg PROVIDER i h u s = Some (s', v)"
      "pc' = (case v of None \<Rightarrow> P_loop | Some w \<Rightarrow> P_tail i h w)"
      using st by (auto simp: provider_step_def Let_def)
    then show ?thesis using tail_step_keeps [OF ok, of i h u cfg PROVIDER s' v] p P_tail
      by (cases v) (auto simp: provider_ok_def)
  qed (use st p q keeps_refl [OF ok] in \<open>auto simp: provider_step_def provider_ok_def Let_def tail_ok_def block_defs same task_ok_def
        split: if_splits list.splits sum.splits option.splits\<close>)
qed

lemma succeed_keeps:
  assumes ok: "sys_ok row ok s" and k: "k < length (sys_beats s)" and e: "ended s k lease"
    and pub: "published s lease" and call: "ws_succeed W lease t (sys_ledger s) = (l, r)"
  shows "keeps row ok s (s\<lparr>sys_ledger := l\<rparr>)"
proof (cases r)
  case (Inl x)
  have "ok (sys_ledger s)" using ok by (simp add: sys_ok_def beats_ok_def)
  with succeed_frame [OF _ call] Inl show ?thesis by (intro keeps_frame [OF ok]) simp
next
  case (Inr item)
  have beats: "beats_ok row ok s" and led: "ok (sys_ledger s)" using ok by (simp_all add: sys_ok_def beats_ok_def)
  have hb: "hb_lease (sys_beats s ! k) = lease" "hb_pc (sys_beats s ! k) = Hb_exit" using e by (simp_all add: ended_def)
  obtain w w' where w: "row (sys_ledger s) (lease_work_item_id lease) = Some w" "under_lease lease w"
    and w': "row l (lease_work_item_id lease) = Some w'" "state w' = SUCCEEDED" "lease_epoch w' = lease_epoch w"
    using succeed_completes [OF led call [unfolded Inr]] by blast
  let ?s = "s\<lparr>sys_ledger := l\<rparr>"
  have "beat_ok row ?s (sys_beats s ! k)"
    using w w' hb pub by (auto simp: beat_ok_def current_lease_def under_lease_def held_def published_def)
  then have "beats_ok row ok (set_beat k (\<lambda>h. h) ?s)"
    using succeed_frame [OF led call] Inr hb w by (intro beats_ok_own [OF beats k]) (auto simp: under_lease_def)
  moreover have "set_beat k (\<lambda>h. h) ?s = ?s" by (cases s) (simp add: set_beat_def)
  ultimately show ?thesis using ok by (intro keepsI) simp_all
qed

lemma publish_step_keeps:
  assumes ok: "sys_ok row ok s" and p: "publish_ok s pc" and st: "publish_step W cfg out pc s = Some (s', pc')"
  shows "keeps row ok s s' \<and> publish_ok s' pc'"
proof -
  have q: "keeps row ok s (on_queues f s)" if "set (rt_publish (f (sys_queues s))) \<subseteq> set (rt_publish (sys_queues s))" for f
    using keeps_queues [OF ok, of f] that by blast
  have same: "task_ok (on_queues f s) = task_ok s" for f by (simp add: task_ok_def claim_ok_def fun_eq_iff)
  have lane: "task_ok s t" if "t \<in> set (rt_publish (sys_queues s))" for t
    using that ok by (simp add: sys_ok_def lanes_ok_def)
  show ?thesis
  proof (cases pc)
    case U_get
    then show ?thesis using st q [of "\<lambda>q. q\<lparr>rt_publish := tl (rt_publish q)\<rparr>"] keeps_refl [OF ok] lane
      by (auto simp: publish_step_def publish_ok_def same on_queues_def task_ok_def claim_ok_def split: list.splits)
  next
    case (U_call t)
    show ?thesis
    proof (cases out)
      case None
      let ?lease = "hb_lease (sys_beats s ! task_heartbeat t)"
      have s': "s' = s\<lparr>sys_published := sys_published s @ [?lease]\<rparr>" "pc' = U_health_after t"
        using st U_call None by (simp_all add: publish_step_def)
      have "later s s'" by (auto simp: s' later_def)
      moreover have "beats_ok row ok s'"
        using ok beat_ok_published [OF \<open>later s s'\<close>, of row] by (simp add: sys_ok_def beats_ok_def s')
      ultimately have "keeps row ok s s'" using ok s' by (intro keepsI) simp_all
      moreover have "task_ok s t" using p U_call by (simp add: publish_ok_def)
      ultimately show ?thesis
        by (auto simp: s' publish_ok_def task_ok_def claim_ok_def published_def same_grant_def)
    next
      case (Some e)
      then show ?thesis using st p U_call keeps_refl [OF ok]
        by (auto simp: publish_step_def publish_ok_def tail_ok_def task_ok_def split: if_splits)
    qed
  next
    case (U_stop t)
    then have s': "s' = stop_beat (task_heartbeat t) s" "pc' = U_join t" using st by (simp_all add: publish_step_def)
    have kp: "keeps row ok s s'" using keeps_stop [OF ok] s' by simp
    then have later: "later s s'" by (simp add: keeps_def)
    show ?thesis using kp p U_stop s'(2) task_ok_later [OF later] published_later [OF later]
      by (simp add: publish_ok_def)
  next
    case (U_join t)
    then obtain lease where j: "join_beat (task_heartbeat t) s = Some (s', lease)" and pc': "pc' = U_final_health t lease"
      using st by (auto simp: publish_step_def)
    note join = join_beat_Some [OF ok j]
    have later: "later s s'" using join(1) by (simp add: keeps_def)
    show ?thesis using join(1,2) p U_join pc' task_ok_later [OF later] published_later [OF later]
      by (simp add: publish_ok_def)
  next
    case (U_succeed t lease)
    then have t: "task_ok s t" "published s (claimed_lease (task_claim t))" "ended s (task_heartbeat t) lease"
      using p by (simp_all add: publish_ok_def)
    obtain l r where call: "ws_succeed W lease (sys_now s) (sys_ledger s) = (l, r)" by force
    have "published s lease"
      using t by (auto simp: published_def task_ok_def claim_ok_def ended_def same_grant_def)
    then have "keeps row ok s (s\<lparr>sys_ledger := l\<rparr>)"
      using t by (intro succeed_keeps [OF ok _ t(3) _ call]) (simp_all add: task_ok_def claim_ok_def)
    then show ?thesis using st U_succeed call t(1)
      by (auto simp: publish_step_def publish_ok_def tail_ok_def task_ok_def claim_ok_def split: sum.splits)
  next
    case (U_tail i k u)
    then obtain v where "tail_step W cfg PUBLISH i (Some k) u s = Some (s', v)"
      and "pc' = (case v of None \<Rightarrow> U_loop | Some w \<Rightarrow> U_tail i k w)"
      using st by (auto simp: publish_step_def Let_def)
    then show ?thesis using tail_step_keeps [OF ok, of i "Some k" u cfg PUBLISH s' v] p U_tail
      by (cases v) (auto simp: publish_ok_def)
  qed (use st p q keeps_refl [OF ok] in \<open>auto simp: publish_step_def publish_ok_def Let_def tail_ok_def block_defs same
        split: if_splits option.splits\<close>)
qed

lemma admit_step_keeps:
  assumes ok: "sys_ok row ok s" and st: "admit_step W cfg pc s = Some (s', pc')"
  shows "keeps row ok s s'"
proof (cases pc)
  case (A_start i optional)
  then show ?thesis using st keeps_refl [OF ok] keeps_same_lanes [OF ok admit_begin_same [of "sys_queues s" i optional]]
    by (auto simp: admit_step_def split: sum.splits prod.splits option.splits)
next
  case (A_get i)
  then show ?thesis using st reads(1) [of i "sys_ledger s"] keeps_refl [OF ok]
    by (auto simp: admit_step_def split: prod.splits sum.splits)
next
  case (A_item i item)
  show ?thesis
  proof (cases "run_id item = cfg_run_id cfg")
    case True
    then show ?thesis using st A_item keeps_admit [OF ok, of cfg item True] by (auto simp: admit_step_def split: prod.splits)
  next
    case False
    then show ?thesis
      using st A_item keeps_same_lanes [OF ok reject_ingress_same(1) [of "sys_queues s" WRONG_RUN]]
      by (auto simp: admit_step_def split: prod.splits)
  qed
qed (use st in \<open>simp_all add: admit_step_def\<close>)

lemma recover_step_keeps:
  assumes ok: "sys_ok row ok s" and st: "recover_step W cfg pc s = Some (s', pc')"
  shows "keeps row ok s s'"
proof -
  have led: "ok (sys_ledger s)" using ok by (simp add: sys_ok_def beats_ok_def)
  show ?thesis
  proof (cases pc)
    case R_reconcile
    then show ?thesis using st keeps_frame [OF ok reconcile_frame [OF led, of "sys_now s"]]
      by (auto simp: recover_step_def split: prod.splits sum.splits)
  next
    case R_ready
    then show ?thesis
      using st reads(3) [of "cfg_run_id cfg" "recovery_ready_limit cfg" "sys_ledger s"] keeps_refl [OF ok]
      by (auto simp: recover_step_def split: prod.splits sum.splits)
  next
    case (R_admit items n)
    show ?thesis
    proof (cases items)
      case Nil
      then show ?thesis using st R_admit keeps_refl [OF ok] by (simp add: recover_step_def)
    next
      case (Cons item rest)
      then show ?thesis using st R_admit keeps_admit [OF ok, of cfg item False]
        by (auto simp: recover_step_def split: prod.splits)
    qed
  qed (use st keeps_refl [OF ok] in \<open>auto simp: recover_step_def block_defs intro!: keeps_queues [OF ok]\<close>)
qed

lemma cancel_step_keeps:
  assumes ok: "sys_ok row ok s" and st: "cancel_step W cfg pc s = Some (s', pc')"
  shows "keeps row ok s s'"
proof -
  have led: "ok (sys_ledger s)" using ok by (simp add: sys_ok_def beats_ok_def)
  show ?thesis
  proof (cases pc)
    case (C_start i code detail)
    then show ?thesis using st reads(1) [of i "sys_ledger s"] keeps_refl [OF ok]
      by (auto simp: cancel_step_def split: prod.splits sum.splits)
  next
    case (C_call i code detail tracked)
    have "keeps row ok s (s\<lparr>sys_ledger := fst (ws_cancel W i c detail (sys_now s) (sys_ledger s))\<rparr>)" for c
      by (rule keeps_frame [OF ok cancel_frame [OF led]])
    then show ?thesis using st C_call keeps_refl [OF ok]
      by (auto simp: cancel_step_def split: prod.splits sum.splits) (metis fst_conv)+
  next
    case (C_mark i code detail)
    then show ?thesis using st keeps_set_queues [OF ok, of "fst (mark_cancel i (sys_queues s))"]
      by (auto simp: cancel_step_def mark_cancel_def split: prod.splits if_splits)
  qed (use st keeps_refl [OF ok] in \<open>auto simp: cancel_step_def block_defs Let_def intro!: keeps_queues [OF ok]
        split: sum.splits if_splits\<close>)
qed

lemma recovery_step_keeps:
  assumes ok: "sys_ok row ok s" and st: "recovery_step W cfg pc s = Some (s', pc')"
  shows "keeps row ok s s'"
proof (cases pc)
  case (V_run r)
  show ?thesis
  proof (cases "(\<exists>n. r = R_return n) \<or> (\<exists>e. r = R_raise e)")
    case True
    then show ?thesis using st V_run keeps_refl [OF ok] by (auto simp: recovery_step_def)
  next
    case False
    then have "\<exists>r'. recover_step W cfg r s = Some (s', r')"
      using st V_run by (cases r) (auto simp: recovery_step_def)
    then show ?thesis using recover_step_keeps [OF ok] by blast
  qed
qed (use st keeps_refl [OF ok] in \<open>auto simp: recovery_step_def block_defs intro!: keeps_queues [OF ok]\<close>)

lemma drain_step_keeps:
  assumes ok: "sys_ok row ok s" and st: "drain_step W cfg late pc s = Some (s', pc')"
  shows "keeps row ok s s'"
proof (cases pc)
  case (D_recover b r)
  show ?thesis
  proof (cases "(\<exists>n. r = R_return n) \<or> (\<exists>e. r = R_raise e)")
    case True
    then show ?thesis using st D_recover keeps_refl [OF ok] by (auto simp: drain_step_def)
  next
    case False
    then have "\<exists>r'. recover_step W cfg r s = Some (s', r')"
      using st D_recover by (cases r) (auto simp: drain_step_def)
    then show ?thesis using recover_step_keeps [OF ok] by blast
  qed
next
  case (D_items b)
  then show ?thesis using st reads(2) [of "cfg_run_id cfg" "sys_ledger s"] keeps_refl [OF ok]
    by (auto simp: drain_step_def split: prod.splits sum.splits)
qed (use st keeps_refl [OF ok] in \<open>auto simp: drain_step_def\<close>)

lemma close_step_keeps:
  assumes ok: "sys_ok row ok s" and st: "close_step W cfg ch over pc s = Some (s', pc')"
  shows "keeps row ok s s'"
proof -
  have led: "ok (sys_ledger s)" using ok by (simp add: sys_ok_def beats_ok_def)
  have q: "keeps row ok s (on_queues f s)" if "set (rt_publish (f (sys_queues s))) \<subseteq> set (rt_publish (sys_queues s))" for f
    using keeps_queues [OF ok, of f] that by blast
  have join: "keeps row ok s s'" if "join_beat k s = Some (s', lease)" for k lease
    using join_beat_Some(1) [OF ok that] .
  show ?thesis
  proof (cases pc)
    case (K_cancel wait ids todo)
    have "keeps row ok s (s\<lparr>sys_ledger := fst (ws_cancel W i c d (sys_now s) (sys_ledger s))\<rparr>)" for i c d
      by (rule keeps_frame [OF ok cancel_frame [OF led]])
    then show ?thesis using st K_cancel keeps_refl [OF ok]
      by (cases todo) (auto simp: close_step_def split: prod.splits sum.splits, (metis fst_conv)+)
  next
    case (K_drain wait d)
    show ?thesis
    proof (cases "(\<exists>b. d = D_return b) \<or> (\<exists>e. d = D_raise e)")
      case True
      then show ?thesis using st K_drain keeps_refl [OF ok] by (auto simp: close_step_def)
    next
      case False
      then have "\<exists>d'. drain_step W cfg (ch_late ch) d s = Some (s', d')"
        using st K_drain by (cases d) (auto simp: close_step_def)
      then show ?thesis using drain_step_keeps [OF ok] by blast
    qed
  next
    case (K_discard wait ids lane)
    have "keeps row ok s (on_queues (\<lambda>q. q\<lparr>rt_publish := rest\<rparr>) s)" if "rt_publish (sys_queues s) = t # rest" for t rest
      using that by (intro q) auto
    then show ?thesis using st K_discard q keeps_refl [OF ok]
      by (cases lane) (auto simp: close_step_def discard_step_def split: list.splits)
  next
    case (K_beat wait ks)
    then show ?thesis using st keeps_refl [OF ok] keeps_stop [OF ok] by (cases ks) (auto simp: close_step_def)
  qed (use st q join keeps_refl [OF ok] keeps_stop [OF ok] in
      \<open>auto simp: close_step_def Let_def block_defs split: if_splits\<close>)
qed

lemma call_step_keeps:
  "sys_ok row ok s \<Longrightarrow> call_step W cfg ch over c s = Some (s', c') \<Longrightarrow> keeps row ok s s'"
  by (cases c) (auto simp: call_step_def dest: admit_step_keeps recover_step_keeps cancel_step_keeps drain_step_keeps
      close_step_keeps)

end

section \<open>Reachable runtimes\<close>

definition run_ok :: "('l \<Rightarrow> string \<Rightarrow> WorkItem option) \<Rightarrow> ('l \<Rightarrow> bool) \<Rightarrow> ('l, 'r) runtime \<Rightarrow> bool" where
  "run_ok row ok r \<longleftrightarrow> sys_ok row ok (run_sys r)
     \<and> ingress_ok (run_sys r) (run_ingress r)
     \<and> (\<forall>p \<in> set (run_providers r). provider_ok (run_sys r) p) \<and> (\<forall>p \<in> set (run_publishers r). publish_ok (run_sys r) p)"

lemma run_ok_sys:
  assumes "run_ok row ok r" and "keeps row ok (run_sys r) s'"
  shows "run_ok row ok (r\<lparr>run_sys := s'\<rparr>)"
proof -
  have later: "later (run_sys r) s'" using assms(2) by (simp add: keeps_def)
  show ?thesis
    using assms provider_ok_later [OF later] publish_ok_later [OF later] ingress_ok_later [OF later]
    by (simp add: run_ok_def keeps_def)
qed

lemma run_ok_init: "ok l \<Longrightarrow> run_ok row ok (runtime_init cfg l t)"
  by (simp add: run_ok_def runtime_init_def sys_ok_def beats_ok_def lanes_ok_def queues_init_def provider_ok_def
      publish_ok_def ingress_ok_def)

context durable_scheduler
begin

lemma runtime_step_ok:
  assumes ok: "run_ok row ok r" and st: "runtime_step W cfg prefix ev r = Some r'"
  shows "run_ok row ok r'"
proof -
  let ?s = "run_sys r"
  have s: "sys_ok row ok ?s" using ok by (simp add: run_ok_def)
  show ?thesis
  proof (cases ev)
    case (Ev_time t)
    have "keeps row ok ?s (?s\<lparr>sys_now := t\<rparr>)"
      using s by (intro keepsI) (simp_all add: sys_ok_def beats_ok_def beat_ok_def published_def)
    then show ?thesis using st Ev_time run_ok_sys [OF ok] by (auto simp: runtime_step_def Let_def split: if_splits)
  next
    case (Ev_heartbeat k)
    then show ?thesis using st heartbeat_step_keeps [OF s] run_ok_sys [OF ok]
      by (auto simp: runtime_step_def Let_def split: if_splits)
  next
    case Ev_ingress
    then obtain s' p where i: "ingress_step W cfg (run_ingress r) ?s = Some (s', p)" and r': "r' = r\<lparr>run_sys := s', run_ingress := p\<rparr>"
      using st by (auto simp: runtime_step_def Let_def)
    have "ingress_ok ?s (run_ingress r)" using ok by (simp add: run_ok_def)
    from ingress_step_keeps [OF s i this] have p: "keeps row ok ?s s'" "ingress_ok s' p" by simp_all
    show ?thesis using run_ok_sys [OF ok p(1)] p(2) by (simp add: r' run_ok_def)
  next
    case (Ev_provider n token out)
    then obtain s' p where n: "n < length (run_providers r)"
      and i: "provider_step W cfg (provider_worker_id prefix n) token out (run_providers r ! n) ?s = Some (s', p)"
      and r': "r' = r\<lparr>run_sys := s', run_providers := (run_providers r)[n := p]\<rparr>"
      using st by (auto simp: runtime_step_def Let_def split: if_splits)
    have "provider_ok ?s (run_providers r ! n)" using ok n by (simp add: run_ok_def)
    from provider_step_keeps [OF s this i] have p: "keeps row ok ?s s'" "provider_ok s' p" by simp_all
    show ?thesis using run_ok_sys [OF ok p(1)] p(2) set_update_subset_insert [of "run_providers r" n p]
      by (auto simp: r' run_ok_def)
  next
    case (Ev_publish n out)
    then obtain s' p where n: "n < length (run_publishers r)"
      and i: "publish_step W cfg out (run_publishers r ! n) ?s = Some (s', p)"
      and r': "r' = r\<lparr>run_sys := s', run_publishers := (run_publishers r)[n := p]\<rparr>"
      using st by (auto simp: runtime_step_def Let_def split: if_splits)
    have "publish_ok ?s (run_publishers r ! n)" using ok n by (simp add: run_ok_def)
    from publish_step_keeps [OF s this i] have p: "keeps row ok ?s s'" "publish_ok s' p" by simp_all
    show ?thesis using run_ok_sys [OF ok p(1)] p(2) set_update_subset_insert [of "run_publishers r" n p]
      by (auto simp: r' run_ok_def)
  next
    case Ev_recovery
    then show ?thesis using st recovery_step_keeps [OF s] run_ok_sys [OF ok]
      by (fastforce simp: runtime_step_def Let_def run_ok_def)
  next
    case (Ev_invoke c)
    then show ?thesis using st ok by (auto simp: runtime_step_def Let_def run_ok_def split: if_splits)
  next
    case (Ev_call n ch)
    then obtain s' c where i: "call_step W cfg ch (threads_ended r) (run_calls r ! n) ?s = Some (s', c)"
      and r': "r' = r\<lparr>run_sys := s', run_calls := (run_calls r)[n := c]\<rparr>"
      using st by (auto simp: runtime_step_def Let_def split: if_splits)
    show ?thesis using run_ok_sys [OF ok call_step_keeps [OF s i]] by (simp add: r' run_ok_def)
  qed
qed

theorem runtime_reach_ok:
  assumes "runtime_reach W cfg prefix env begins r" and "\<And>l. begins l \<Longrightarrow> ok l"
  shows "run_ok row ok r"
  using assms
proof (induction rule: runtime_reach.induct)
  case (reach_init l t)
  then show ?case by (simp add: run_ok_init)
next
  case (reach_step r ev r')
  then show ?case using runtime_step_ok by blast
next
  case (reach_env r l')
  then have ok: "run_ok row ok r" by blast
  then have s: "sys_ok row ok (run_sys r)" by (simp add: run_ok_def)
  then have beats: "beats_ok row ok (run_sys r)" "ok (sys_ledger (run_sys r))" by (simp_all add: sys_ok_def beats_ok_def)
  have "beats_ok row ok ((run_sys r)\<lparr>sys_ledger := l'\<rparr>)"
    using env_frame [OF beats(2) reach_env.hyps(2)]
    by (rule beats_ok_frame [OF beats(1)]) (auto simp: foreign_rows_def)
  then have "keeps row ok (run_sys r) ((run_sys r)\<lparr>sys_ledger := l'\<rparr>)" using s by (intro keepsI) simp_all
  then show ?case by (rule run_ok_sys [OF ok])
qed

end

end
