(* ===== verification/Stream_Effects.thy ===== *)
theory Stream_Effects
  imports Stream_Grants
begin

text \<open>
  What the steps of the runtime do, thread by thread: the durable state changes only by the
  operations of the scheduler, and the lanes, the set of scheduled ids and the counters only
  by a small number of effects.
\<close>

section \<open>The durable state\<close>

inductive sched_call :: "'l DurableStreamWorkScheduler \<Rightarrow> 'l \<Rightarrow> 'l \<Rightarrow> bool" for W where
  call_none: "sched_call W l l"
| call_get: "sched_call W l (fst (ws_get W i l))"
| call_items: "sched_call W l (fst (ws_items_for_run W run l))"
| call_ready: "sched_call W l (fst (ws_ready_for_run W run n l))"
| call_reconcile: "sched_call W l (fst (ws_reconcile W t l))"
| call_claim: "sched_call W l (fst (ws_claim_and_start W worker d target t token l))"
| call_fail: "sched_call W l (fst (ws_fail W lease code retryable detail delay t l))"
| call_heartbeat: "sched_call W l (fst (ws_heartbeat W lease d t l))"
| call_succeed: "sched_call W l (fst (ws_succeed W lease t l))"
| call_cancel: "sched_call W l (fst (ws_cancel W i code detail t l))"

lemmas sched_calls [simp] = sched_call.intros

lemma sched_call_eq:
  "ws_get W i l = (l', r1) \<Longrightarrow> sched_call W l l'"
  "ws_items_for_run W run l = (l', r2) \<Longrightarrow> sched_call W l l'"
  "ws_ready_for_run W run n l = (l', r2) \<Longrightarrow> sched_call W l l'"
  "ws_reconcile W t l = (l', r3) \<Longrightarrow> sched_call W l l'"
  "ws_claim_and_start W worker d target t token l = (l', r4) \<Longrightarrow> sched_call W l l'"
  "ws_fail W lease code retryable detail delay t l = (l', r1) \<Longrightarrow> sched_call W l l'"
  "ws_heartbeat W lease d t l = (l', r5) \<Longrightarrow> sched_call W l l'"
  "ws_succeed W lease t l = (l', r1) \<Longrightarrow> sched_call W l l'"
  "ws_cancel W i code detail t l = (l', r1) \<Longrightarrow> sched_call W l l'"
  by (metis fst_conv sched_calls)+

lemma join_beat_ledger: "join_beat k s = Some (s', lease) \<Longrightarrow> sys_ledger s' = sys_ledger s"
  by (auto simp: join_beat_def split: if_splits)

lemma heartbeat_step_calls:
  "heartbeat_step W cfg k s = Some s' \<Longrightarrow> sched_call W (sys_ledger s) (sys_ledger s')"
  by (auto simp: heartbeat_step_def Let_def dest: sched_call_eq split: heartbeat_pc.splits prod.splits sum.splits if_splits)

lemma tail_step_calls:
  "tail_step W cfg lane i h t s = Some (s', t') \<Longrightarrow> sched_call W (sys_ledger s) (sys_ledger s')"
  by (cases t) (auto simp: tail_step_def dest: join_beat_ledger sched_call_eq split: option.splits prod.splits sum.splits)

lemma ingress_step_calls:
  "ingress_step W cfg pc s = Some (s', pc') \<Longrightarrow> sched_call W (sys_ledger s) (sys_ledger s')"
  by (cases pc) (auto simp: ingress_step_def Let_def dest: join_beat_ledger tail_step_calls split: list.splits if_splits)

lemma provider_step_calls:
  "provider_step W cfg worker token out pc s = Some (s', pc') \<Longrightarrow> sched_call W (sys_ledger s) (sys_ledger s')"
  by (cases pc) (auto simp: provider_step_def Let_def dest: join_beat_ledger tail_step_calls sched_call_eq
      split: list.splits if_splits prod.splits sum.splits option.splits)

lemma publish_step_calls:
  "publish_step W cfg out pc s = Some (s', pc') \<Longrightarrow> sched_call W (sys_ledger s) (sys_ledger s')"
  by (cases pc) (auto simp: publish_step_def Let_def dest: join_beat_ledger tail_step_calls sched_call_eq
      split: list.splits if_splits prod.splits sum.splits option.splits)

lemma admit_step_calls:
  "admit_step W cfg pc s = Some (s', pc') \<Longrightarrow> sched_call W (sys_ledger s) (sys_ledger s')"
  by (cases pc) (auto simp: admit_step_def dest: sched_call_eq split: prod.splits sum.splits option.splits if_splits)

lemma recover_step_calls:
  "recover_step W cfg pc s = Some (s', pc') \<Longrightarrow> sched_call W (sys_ledger s) (sys_ledger s')"
  by (auto simp: recover_step_def dest: sched_call_eq split: recover_pc.splits list.splits prod.splits sum.splits)

lemma recovery_step_calls:
  "recovery_step W cfg pc s = Some (s', pc') \<Longrightarrow> sched_call W (sys_ledger s) (sys_ledger s')"
  by (auto simp: recovery_step_def dest: recover_step_calls split: recovery_pc.splits recover_pc.splits)

lemma cancel_step_calls:
  "cancel_step W cfg pc s = Some (s', pc') \<Longrightarrow> sched_call W (sys_ledger s) (sys_ledger s')"
  by (cases pc) (auto simp: cancel_step_def dest: sched_call_eq split: prod.splits sum.splits if_splits)

lemma drain_step_calls:
  "drain_step W cfg late pc s = Some (s', pc') \<Longrightarrow> sched_call W (sys_ledger s) (sys_ledger s')"
  by (auto simp: drain_step_def dest: recover_step_calls sched_call_eq
      split: drain_pc.splits recover_pc.splits prod.splits sum.splits)

lemma discard_step_ledger: "discard_step wait ids lane s = (s', pc') \<Longrightarrow> sys_ledger s' = sys_ledger s"
  by (cases lane) (auto simp: discard_step_def split: list.splits)

lemma close_step_calls:
  "close_step W cfg ch over pc s = Some (s', pc') \<Longrightarrow> sched_call W (sys_ledger s) (sys_ledger s')"
  by (auto simp: close_step_def Let_def dest: join_beat_ledger drain_step_calls sched_call_eq discard_step_ledger
      split: close_pc.splits drain_pc.splits list.splits prod.splits sum.splits if_splits)

lemma call_step_calls:
  "call_step W cfg ch over c s = Some (s', c') \<Longrightarrow> sched_call W (sys_ledger s) (sys_ledger s')"
  by (cases c) (auto simp: call_step_def dest: admit_step_calls recover_step_calls cancel_step_calls drain_step_calls
      close_step_calls)

lemma runtime_step_calls:
  "runtime_step W cfg prefix ev r = Some r' \<Longrightarrow> sched_call W (sys_ledger (run_sys r)) (sys_ledger (run_sys r'))"
  by (cases ev) (auto simp: runtime_step_def Let_def dest: heartbeat_step_calls ingress_step_calls provider_step_calls
      publish_step_calls recovery_step_calls call_step_calls split: if_splits)


section \<open>The abstract lanes\<close>

text \<open>
  What the lanes look like from outside: the ids waiting in each lane, the ids scheduled,
  the stop flag, and for each lane the number of busy workers and the longest queue seen.
\<close>

record lane_view =
  v_lane :: "StreamQueueLane \<Rightarrow> string list"
  v_sched :: "string set"
  v_stop :: bool
  v_active :: "StreamQueueLane \<Rightarrow> int"
  v_max :: "StreamQueueLane \<Rightarrow> int"

definition lane_ids :: "'r BoundedStreamWorkQueues \<Rightarrow> StreamQueueLane \<Rightarrow> string list" where
  "lane_ids q lane = (case lane of INGRESS \<Rightarrow> rt_ingress q | PROVIDER \<Rightarrow> rt_provider q
     | PUBLISH \<Rightarrow> map task_id (rt_publish q))"

definition view :: "'r BoundedStreamWorkQueues \<Rightarrow> lane_view" where
  "view q = \<lparr>v_lane = lane_ids q, v_sched = rt_scheduled q, v_stop = rt_stop q,
     v_active = (\<lambda>lane. c_active (rt_counters q lane)), v_max = (\<lambda>lane. c_maximum_queued (rt_counters q lane))\<rparr>"

text \<open>
  A thread owns at most one notification, and a worker is busy from the moment it has
  counted itself in. \<open>fin i\<close> says that item \<open>i\<close> is terminal.
\<close>

type_synonym own = "string option \<times> bool"

inductive effect ::
    "BoundedStreamWorkQueuesConfig \<Rightarrow> StreamQueueLane \<Rightarrow> (string \<Rightarrow> bool) \<Rightarrow> own \<Rightarrow> lane_view \<Rightarrow> own \<Rightarrow> lane_view \<Rightarrow> bool"
  for cfg lane fin where
  eff_keep: "effect cfg lane fin o1 v o1 v"
| eff_take: "v_lane v l = i # rest \<Longrightarrow>
    effect cfg lane fin (None, b) v (Some i, b) (v\<lparr>v_lane := (v_lane v)(l := rest)\<rparr>)"
| eff_put: "int (length (v_lane v l)) < lane_capacity cfg l \<Longrightarrow>
    effect cfg lane fin (Some i, b) v (None, b) (v\<lparr>v_lane := (v_lane v)(l := v_lane v l @ [i])\<rparr>)"
| eff_enter: "int (length (v_lane v INGRESS)) < lane_capacity cfg INGRESS \<Longrightarrow> i \<notin> v_sched v \<Longrightarrow> \<not> v_stop v \<Longrightarrow>
    effect cfg lane fin o1 v o1 (v\<lparr>v_lane := (v_lane v)(INGRESS := v_lane v INGRESS @ [i]),
      v_sched := insert i (v_sched v),
      v_max := (v_max v)(INGRESS := max (v_max v INGRESS) (int (length (v_lane v INGRESS) + 1)))\<rparr>)"
| eff_mark: "effect cfg lane fin o1 v o1
    (v\<lparr>v_max := (v_max v)(l := max (v_max v l) (int (length (v_lane v l))))\<rparr>)"
| eff_begin: "effect cfg lane fin (h, False) v (h, True) (v\<lparr>v_active := (v_active v)(lane := v_active v lane + 1)\<rparr>)"
| eff_end: "effect cfg lane fin (h, True) v (h, False) (v\<lparr>v_active := (v_active v)(lane := v_active v lane - 1)\<rparr>)"
| eff_finish: "effect cfg lane fin (Some i, b) v (None, b) (v\<lparr>v_sched := v_sched v - {i}\<rparr>)"
| eff_forget: "fin i \<Longrightarrow> effect cfg lane fin o1 v o1 (v\<lparr>v_sched := v_sched v - {i}\<rparr>)"
| eff_stop: "effect cfg lane fin o1 v o1 (v\<lparr>v_stop := True\<rparr>)"
| eff_clear: "v_stop v \<Longrightarrow> effect cfg lane fin o1 v o1 (v\<lparr>v_sched := v_sched v - ids\<rparr>)"

declare eff_keep [simp]

text \<open>The view after each locked block and each lane operation.\<close>

lemma same_lanes_view: "same_lanes q q' \<Longrightarrow> view q' = view q"
  by (auto simp: same_lanes_def view_def lane_ids_def fun_eq_iff split: StreamQueueLane.splits)

lemma view_same [simp]:
  "view (record_error e q) = view q" "view (forward_lane lane q) = view q"
  "view (complete_lane lane q) = view q" "view (count_failed lane q) = view q" "view (count_cancelled lane q) = view q"
  "view (record_backpressure_wait lane q) = view q" "view (record_lease_renewal q) = view q"
  "view (record_lease_renewal_error q) = view q" "view (upd_telemetry f q) = view q"
  by (simp_all add: same_lanes_view)

lemma view_other [simp]:
  "view (q\<lparr>rt_cancel_requested := c\<rparr>) = view q" "view (q\<lparr>rt_heartbeats := hs\<rparr>) = view q"
  "view (q\<lparr>rt_closed := x\<rparr>) = view q" "view (track_heartbeat k q) = view q" "view (untrack_heartbeat k q) = view q"
  "view (unmark_cancel i q) = view q" "view (mark_cancel_pending is q) = view q"
  by (simp_all add: view_def lane_ids_def fun_eq_iff block_defs split: StreamQueueLane.splits)

lemma view_blocks:
  "view (begin_lane lane q) = (view q)\<lparr>v_active := (v_active (view q))(lane := v_active (view q) lane + 1)\<rparr>"
  "view (end_lane lane q) = (view q)\<lparr>v_active := (v_active (view q))(lane := v_active (view q) lane - 1)\<rparr>"
  "view (finish_scheduled i q) = (view q)\<lparr>v_sched := v_sched (view q) - {i}\<rparr>"
  "view (forget_cancelled i tracked q) = (view q)\<lparr>v_sched := v_sched (view q) - {i}\<rparr>"
  "view (discard_notification lane is i q) = (view q)\<lparr>v_sched := v_sched (view q) - {i}\<rparr>"
  "view (clear_cancelled is q) = (view q)\<lparr>v_sched := v_sched (view q) - is\<rparr>"
  "view (q\<lparr>rt_stop := True\<rparr>) = (view q)\<lparr>v_stop := True\<rparr>"
  "view (enqueued lane q) =
     (view q)\<lparr>v_max := (v_max (view q))(lane := max (v_max (view q) lane) (int (length (v_lane (view q) lane))))\<rparr>"
  by (simp_all add: view_def lane_ids_def lane_qsize_def fun_eq_iff block_defs Let_def split: StreamQueueLane.splits)

lemma view_lanes:
  "view (q\<lparr>rt_ingress := xs\<rparr>) = (view q)\<lparr>v_lane := (v_lane (view q))(INGRESS := xs)\<rparr>"
  "view (q\<lparr>rt_provider := xs\<rparr>) = (view q)\<lparr>v_lane := (v_lane (view q))(PROVIDER := xs)\<rparr>"
  "view (q\<lparr>rt_publish := ts\<rparr>) = (view q)\<lparr>v_lane := (v_lane (view q))(PUBLISH := map task_id ts)\<rparr>"
  by (simp_all add: view_def lane_ids_def fun_eq_iff split: StreamQueueLane.splits)

lemma view_sel:
  "v_lane (view q) INGRESS = rt_ingress q" "v_lane (view q) PROVIDER = rt_provider q"
  "v_lane (view q) PUBLISH = map task_id (rt_publish q)" "v_sched (view q) = rt_scheduled q" "v_stop (view q) = rt_stop q"
  by (simp_all add: view_def lane_ids_def)

lemma lane_full_view: "lane_full cfg lane q \<longleftrightarrow> \<not> int (length (v_lane (view q) lane)) < lane_capacity cfg lane"
  by (cases lane) (auto simp: lane_full_def lane_qsize_def view_sel)

lemma view_enter:
  "view (enter_ingress b i q) = (view q)\<lparr>v_lane := (v_lane (view q))(INGRESS := v_lane (view q) INGRESS @ [i]),
     v_sched := insert i (v_sched (view q)),
     v_max := (v_max (view q))(INGRESS := max (v_max (view q) INGRESS) (int (length (v_lane (view q) INGRESS) + 1)))\<rparr>"
  by (simp add: view_def lane_ids_def fun_eq_iff split: StreamQueueLane.splits)

lemma effect_admit:
  assumes "admit_ready cfg item external q = (q', status)"
  shows "effect cfg lane fin o1 (view q) o1 (view q')"
  using assms
proof (cases rule: admit_ready_cases)
  case refused
  then show ?thesis using same_lanes_view eff_keep by metis
next
  case (entered b q1)
  have "view q1 = view q" using entered(2) by (rule same_lanes_view)
  moreover have "effect cfg lane fin o1 (view q) o1 ((view q)\<lparr>v_lane := (v_lane (view q))(INGRESS := v_lane (view q) INGRESS @ [work_item_id item]),
     v_sched := insert (work_item_id item) (v_sched (view q)),
     v_max := (v_max (view q))(INGRESS := max (v_max (view q) INGRESS) (int (length (v_lane (view q) INGRESS) + 1)))\<rparr>)"
    using entered(4-7) by (intro eff_enter) (simp_all add: lane_full_view view_sel)
  ultimately show ?thesis using entered(3) by (simp add: view_enter)
qed


section \<open>The effect of a step\<close>

definition tail_own :: "string \<Rightarrow> tail \<Rightarrow> own" where
  "tail_own i t = (case t of Release \<Rightarrow> None | Release_join \<Rightarrow> None | End_round \<Rightarrow> None | _ \<Rightarrow> Some i, True)"

definition ingress_own :: "ingress_pc \<Rightarrow> own" where
  "ingress_own pc =
     (case pc of I_loop \<Rightarrow> (None, False) | I_get \<Rightarrow> (None, False) | I_exit \<Rightarrow> (None, False)
      | I_begin i \<Rightarrow> (Some i, False) | I_check i \<Rightarrow> (Some i, True) | I_put i \<Rightarrow> (Some i, True)
      | I_wait i \<Rightarrow> (Some i, True) | I_enqueued i \<Rightarrow> (None, True) | I_forward i \<Rightarrow> (None, True)
      | I_tail i t \<Rightarrow> tail_own i t)"

definition provider_own :: "'r provider_pc \<Rightarrow> own" where
  "provider_own pc =
     (case pc of P_loop \<Rightarrow> (None, False) | P_get \<Rightarrow> (None, False) | P_exit \<Rightarrow> (None, False)
      | P_begin i \<Rightarrow> (Some i, False) | P_check i \<Rightarrow> (Some i, True) | P_claim i \<Rightarrow> (Some i, True)
      | P_track i c k \<Rightarrow> (Some i, True) | P_track_stop i c k \<Rightarrow> (Some i, True) | P_track_join i c k \<Rightarrow> (Some i, True)
      | P_exec i c k \<Rightarrow> (Some i, True) | P_health i c k r \<Rightarrow> (Some i, True) | P_lost i k e \<Rightarrow> (Some i, True)
      | P_recheck i c k r \<Rightarrow> (Some i, True) | P_task i c k r \<Rightarrow> (Some i, True) | P_put i c t \<Rightarrow> (Some i, True)
      | P_wait i c t \<Rightarrow> (Some i, True) | P_refused i c k \<Rightarrow> (Some i, True) | P_refused_health i c k \<Rightarrow> (Some i, True)
      | P_enqueued i \<Rightarrow> (None, True) | P_forward i \<Rightarrow> (None, True) | P_tail i h t \<Rightarrow> tail_own i t)"

definition publish_own :: "'r publish_pc \<Rightarrow> own" where
  "publish_own pc =
     (case pc of U_loop \<Rightarrow> (None, False) | U_get \<Rightarrow> (None, False) | U_exit \<Rightarrow> (None, False)
      | U_begin t \<Rightarrow> (Some (task_id t), False) | U_check t \<Rightarrow> (Some (task_id t), True)
      | U_health t \<Rightarrow> (Some (task_id t), True) | U_lost t e \<Rightarrow> (Some (task_id t), True)
      | U_call t \<Rightarrow> (Some (task_id t), True) | U_health_after t \<Rightarrow> (Some (task_id t), True)
      | U_recheck t \<Rightarrow> (Some (task_id t), True) | U_stop t \<Rightarrow> (Some (task_id t), True)
      | U_join t \<Rightarrow> (Some (task_id t), True) | U_final_health t lease \<Rightarrow> (Some (task_id t), True)
      | U_succeed t lease \<Rightarrow> (Some (task_id t), True) | U_complete t \<Rightarrow> (Some (task_id t), True)
      | U_tail i k u \<Rightarrow> tail_own i u)"

definition call_own :: "'r call \<Rightarrow> own" where
  "call_own c =
     (case c of Closing (K_drop_stop wait ids t) \<Rightarrow> (Some (task_id t), False)
      | Closing (K_drop_join wait ids t) \<Rightarrow> (Some (task_id t), False)
      | Closing (K_drop wait ids lane i) \<Rightarrow> (Some i, False) | _ \<Rightarrow> (None, False))"

abbreviation sys_view :: "('l, 'r) system \<Rightarrow> lane_view" where
  "sys_view s \<equiv> view (sys_queues s)"

lemma join_beat_view: "join_beat k s = Some (s', lease) \<Longrightarrow> sys_view s' = sys_view s"
  by (auto simp: join_beat_def split: if_splits)

lemma beat_view [simp]: "sys_queues (set_beat k f s) = sys_queues s" "sys_queues (stop_beat k s) = sys_queues s"
  by simp_all

lemma heartbeat_step_view: "heartbeat_step W cfg k s = Some s' \<Longrightarrow> sys_view s' = sys_view s"
  by (auto simp: heartbeat_step_def Let_def split: heartbeat_pc.splits prod.splits sum.splits if_splits)

lemma tail_step_effect:
  assumes "tail_step W cfg lane i h t s = Some (s', t')"
  shows "effect cfg lane fin (tail_own i t) (sys_view s) (case t' of None \<Rightarrow> (None, False) | Some u \<Rightarrow> tail_own i u) (sys_view s')"
  using assms
  by (cases t) (auto simp: tail_step_def tail_own_def view_blocks dest: join_beat_view intro: effect.intros
      split: option.splits prod.splits sum.splits)

lemma ingress_step_effect:
  assumes "ingress_step W cfg pc s = Some (s', pc')"
  shows "effect cfg INGRESS fin (ingress_own pc) (sys_view s) (ingress_own pc') (sys_view s')"
proof (cases pc)
  case (I_tail i t)
  then obtain u where u: "tail_step W cfg INGRESS i None t s = Some (s', u)"
    "pc' = (case u of None \<Rightarrow> I_loop | Some v \<Rightarrow> I_tail i v)"
    using assms by (auto simp: ingress_step_def)
  show ?thesis using tail_step_effect [OF u(1), of fin] I_tail u(2) by (cases u) (simp_all add: ingress_own_def)
next
  case I_get
  then show ?thesis using assms eff_take [of "sys_view s" INGRESS]
    by (auto simp: ingress_step_def ingress_own_def view_lanes view_sel intro: effect.intros split: list.splits)
next
  case (I_put i)
  then show ?thesis using assms eff_put [of "sys_view s" PROVIDER cfg]
    by (auto simp: ingress_step_def Let_def ingress_own_def tail_own_def view_lanes view_sel lane_full_view
        intro: effect.intros split: if_splits)
qed (use assms in \<open>auto simp: ingress_step_def ingress_own_def tail_own_def view_blocks intro: effect.intros\<close>)

lemma provider_step_effect:
  assumes "provider_step W cfg worker token out pc s = Some (s', pc')" and ok: "provider_ok s pc"
  shows "effect cfg PROVIDER fin (provider_own pc) (sys_view s) (provider_own pc') (sys_view s')"
proof (cases pc)
  case (P_tail i h t)
  then obtain u where u: "tail_step W cfg PROVIDER i h t s = Some (s', u)"
    "pc' = (case u of None \<Rightarrow> P_loop | Some v \<Rightarrow> P_tail i h v)"
    using assms by (auto simp: provider_step_def)
  show ?thesis using tail_step_effect [OF u(1), of fin] P_tail u(2) by (cases u) (simp_all add: provider_own_def)
next
  case P_get
  then show ?thesis using assms eff_take [of "sys_view s" PROVIDER]
    by (auto simp: provider_step_def provider_own_def view_lanes view_sel intro: effect.intros split: list.splits)
next
  case (P_put i c t)
  then have "task_id t = i" using ok by (simp add: provider_ok_def)
  then show ?thesis using P_put assms eff_put [of "sys_view s" PUBLISH cfg]
    by (auto simp: provider_step_def Let_def provider_own_def tail_own_def view_lanes view_sel lane_full_view
        intro: effect.intros split: if_splits)
qed (use assms in \<open>auto simp: provider_step_def Let_def provider_own_def tail_own_def view_blocks dest: join_beat_view
      intro: effect.intros split: sum.splits option.splits prod.splits if_splits\<close>)

lemma publish_step_effect:
  assumes "publish_step W cfg out pc s = Some (s', pc')"
  shows "effect cfg PUBLISH fin (publish_own pc) (sys_view s) (publish_own pc') (sys_view s')"
proof (cases pc)
  case (U_tail i k t)
  then obtain u where u: "tail_step W cfg PUBLISH i (Some k) t s = Some (s', u)"
    "pc' = (case u of None \<Rightarrow> U_loop | Some v \<Rightarrow> U_tail i k v)"
    using assms by (auto simp: publish_step_def)
  show ?thesis using tail_step_effect [OF u(1), of fin] U_tail u(2) by (cases u) (simp_all add: publish_own_def)
next
  case U_get
  then show ?thesis using assms eff_take [of "sys_view s" PUBLISH]
    by (auto simp: publish_step_def publish_own_def view_lanes view_sel intro: effect.intros split: list.splits)
qed (use assms in \<open>auto simp: publish_step_def Let_def publish_own_def tail_own_def view_blocks dest: join_beat_view
      intro: effect.intros split: sum.splits option.splits prod.splits if_splits\<close>)

lemma admit_step_effect:
  assumes "admit_step W cfg pc s = Some (s', pc')"
  shows "effect cfg lane fin o1 (sys_view s) o1 (sys_view s')"
proof (cases pc)
  case (A_start i optional)
  obtain q answer where q: "admit_begin i optional (sys_queues s) = (q, answer)" by force
  then have "view q = sys_view s" using same_lanes_view [OF admit_begin_same [of "sys_queues s" i optional]] by simp
  then show ?thesis using A_start assms q
    by (auto simp: admit_step_def intro: effect.intros split: sum.splits option.splits)
next
  case (A_item i item)
  show ?thesis
  proof (cases "run_id item = cfg_run_id cfg")
    case True
    then show ?thesis using A_item assms by (auto simp: admit_step_def intro: effect_admit split: prod.splits)
  next
    case False
    have "view (fst (reject_ingress WRONG_RUN (sys_queues s))) = sys_view s"
      using same_lanes_view [OF reject_ingress_same(1)] by blast
    with False A_item assms show ?thesis by (auto simp: admit_step_def intro: effect.intros split: prod.splits)
  qed
qed (use assms in \<open>auto simp: admit_step_def intro: effect.intros split: prod.splits sum.splits\<close>)

lemma recover_step_effect:
  assumes "recover_step W cfg pc s = Some (s', pc')"
  shows "effect cfg lane fin o1 (sys_view s) o1 (sys_view s')"
proof (cases pc)
  case (R_admit items n)
  then show ?thesis using assms
    by (cases items) (auto simp: recover_step_def intro: effect_admit split: prod.splits)
qed (use assms in \<open>auto simp: recover_step_def intro: effect.intros split: prod.splits sum.splits\<close>)

lemma recovery_step_effect:
  assumes "recovery_step W cfg pc s = Some (s', pc')"
  shows "effect cfg lane fin o1 (sys_view s) o1 (sys_view s')"
  using assms by (auto simp: recovery_step_def intro: recover_step_effect split: recovery_pc.splits recover_pc.splits)

lemma drain_step_effect:
  assumes "drain_step W cfg late pc s = Some (s', pc')"
  shows "effect cfg lane fin o1 (sys_view s) o1 (sys_view s')"
  using assms by (auto simp: drain_step_def intro: recover_step_effect split: drain_pc.splits recover_pc.splits prod.splits sum.splits)

text \<open>
  A cancellation forgets an item once the scheduler has made it terminal, and a cancelling
  close drops the scheduled ids once the runtime is stopped.
\<close>

definition call_ok :: "(string \<Rightarrow> bool) \<Rightarrow> bool \<Rightarrow> 'r call \<Rightarrow> bool" where
  "call_ok fin stopped c \<longleftrightarrow>
     (case c of Cancelling (C_forget i item tracked) \<Rightarrow> fin i
      | Closing (K_cancel wait ids todo) \<Rightarrow> stopped
      | Closing (K_note wait ids todo e) \<Rightarrow> stopped
      | Closing (K_discard wait ids lane) \<Rightarrow> stopped
      | Closing (K_drop_stop wait ids t) \<Rightarrow> stopped
      | Closing (K_drop_join wait ids t) \<Rightarrow> stopped
      | Closing (K_drop wait ids lane i) \<Rightarrow> stopped
      | Closing (K_clear wait ids) \<Rightarrow> stopped
      | _ \<Rightarrow> True)"

lemma cancel_step_effect:
  assumes "cancel_step W cfg pc s = Some (s', pc')" and "call_ok fin stopped (Cancelling pc :: 'r call)"
  shows "effect cfg lane fin o1 (sys_view s) o1 (sys_view s')"
proof (cases pc)
  case (C_mark i code detail)
  have "view (fst (mark_cancel i (sys_queues s))) = sys_view s" by (simp add: mark_cancel_def)
  then show ?thesis using C_mark assms by (auto simp: cancel_step_def intro: effect.intros split: prod.splits)
qed (use assms in \<open>auto simp: cancel_step_def call_ok_def view_blocks intro: effect.intros
      split: prod.splits sum.splits if_splits\<close>)

lemma discard_step_effect:
  assumes "discard_step wait ids l s = (s', pc')"
  shows "effect cfg lane fin (None, False) (sys_view s) (call_own (Closing pc')) (sys_view s')"
  using assms eff_take [of "sys_view s" l]
  by (cases l) (auto simp: discard_step_def next_lane_def call_own_def view_lanes view_sel intro: effect.intros
      split: list.splits)

lemma close_step_effect:
  assumes "close_step W cfg ch over pc s = Some (s', pc')" and "call_ok fin (rt_stop (sys_queues s)) (Closing pc)"
  shows "effect cfg lane fin (call_own (Closing pc)) (sys_view s) (call_own (Closing pc')) (sys_view s')"
proof (cases pc)
  case (K_drain wait d)
  show ?thesis
  proof (cases "(\<exists>b. d = D_return b) \<or> (\<exists>e. d = D_raise e)")
    case True
    then show ?thesis using assms K_drain by (auto simp: close_step_def call_own_def intro: effect.intros)
  next
    case False
    then obtain d' where "drain_step W cfg (ch_late ch) d s = Some (s', d')" "pc' = K_drain wait d'"
      using assms(1) K_drain by (cases d) (auto simp: close_step_def)
    then show ?thesis using drain_step_effect K_drain by (simp add: call_own_def)
  qed
next
  case (K_discard wait ids l)
  then have "discard_step wait ids l s = (s', pc')" using assms(1) by (simp add: close_step_def)
  then show ?thesis using discard_step_effect K_discard by (simp add: call_own_def)
next
  case (K_cancel wait ids todo)
  then show ?thesis using assms(1)
    by (cases todo) (auto simp: close_step_def call_own_def intro: effect.intros split: prod.splits sum.splits)
next
  case (K_beat wait ks)
  then show ?thesis using assms(1) by (cases ks) (auto simp: close_step_def call_own_def intro: effect.intros)
next
  case (K_clear wait ids)
  then have "v_stop (sys_view s)" using assms(2) by (simp add: call_ok_def view_sel)
  from eff_clear [OF this] show ?thesis using K_clear assms(1) by (auto simp: close_step_def call_own_def view_blocks)
qed (use assms(1) in \<open>auto simp: close_step_def Let_def call_own_def view_blocks dest: join_beat_view intro: effect.intros
      split: if_splits\<close>)

lemma call_step_effect:
  assumes "call_step W cfg ch over c s = Some (s', c')" and "call_ok fin (rt_stop (sys_queues s)) c"
  shows "effect cfg lane fin (call_own c) (sys_view s) (call_own c') (sys_view s')"
  using assms
  by (cases c) (auto simp: call_step_def call_own_def close_step_effect [unfolded call_own_def, simplified]
      intro: admit_step_effect recover_step_effect cancel_step_effect drain_step_effect)

end
