(* ===== verification/Stream_Notifications.thy ===== *)
theory Stream_Notifications
  imports Stream_Effects
begin

text \<open>
  The bookkeeping of the stream runtime over all its threads: lanes stay within their
  capacity, the activity counters count the busy workers, and an item that is not terminal
  has at most one notification, in a lane or with a thread.
\<close>

section \<open>The invariant on the abstract lanes\<close>

definition own_count :: "own \<Rightarrow> string \<Rightarrow> nat" where
  "own_count o1 i = of_bool (fst o1 = Some i)"

definition in_lanes :: "lane_view \<Rightarrow> string \<Rightarrow> nat" where
  "in_lanes v i = count_list (v_lane v INGRESS) i + count_list (v_lane v PROVIDER) i + count_list (v_lane v PUBLISH) i"

text \<open>The threads with their lanes; a thread outside the lanes is never busy.\<close>

type_synonym owners = "(StreamQueueLane \<times> own) list"

definition held_count :: "owners \<Rightarrow> string \<Rightarrow> nat" where
  "held_count xs i = (\<Sum>(l, o1) \<leftarrow> xs. own_count o1 i)"

definition busy_count :: "owners \<Rightarrow> StreamQueueLane \<Rightarrow> nat" where
  "busy_count xs lane = (\<Sum>(l, o1) \<leftarrow> xs. of_bool (l = lane \<and> snd o1))"

definition lanes_bounded :: "BoundedStreamWorkQueuesConfig \<Rightarrow> lane_view \<Rightarrow> bool" where
  "lanes_bounded cfg v \<longleftrightarrow> (\<forall>l. int (length (v_lane v l)) \<le> lane_capacity cfg l \<and> v_max v l \<le> lane_capacity cfg l)"

definition single_notes :: "(string \<Rightarrow> bool) \<Rightarrow> lane_view \<Rightarrow> owners \<Rightarrow> bool" where
  "single_notes fin v xs \<longleftrightarrow> (\<forall>i. (\<not> fin i \<longrightarrow> in_lanes v i + held_count xs i \<le> 1)
     \<and> (0 < in_lanes v i + held_count xs i \<longrightarrow> i \<in> v_sched v \<or> fin i \<or> v_stop v))"

lemma sum_owners [simp]:
  "held_count (ys @ (lane, o1) # zs) i = own_count o1 i + held_count (ys @ zs) i"
  "busy_count (ys @ (lane, o1) # zs) l = of_bool (lane = l \<and> snd o1) + busy_count (ys @ zs) l"
  by (simp_all add: held_count_def busy_count_def)

lemma effect_bounded:
  "effect cfg lane fin o1 v o2 v' \<Longrightarrow> lanes_bounded cfg v \<Longrightarrow> lanes_bounded cfg v'"
  by (induction rule: effect.induct) (auto simp: lanes_bounded_def split: if_splits,
      (metis dual_order.trans length_Cons of_nat_le_iff le_Suc_eq order_refl)+)

lemma effect_active:
  assumes "effect cfg lane fin o1 v o2 v'" and "\<forall>l. v_active v l = int (busy_count (ys @ (lane, o1) # zs) l)"
  shows "\<forall>l. v_active v' l = int (busy_count (ys @ (lane, o2) # zs) l)"
  using assms by (induction rule: effect.induct) auto

text \<open>Only the totals matter: a notification may move between a lane and a thread.\<close>

lemma single_notes_cong:
  assumes "single_notes fin v xs" and "\<And>j. in_lanes v' j + held_count xs' j = in_lanes v j + held_count xs j"
    and "v_sched v' = v_sched v" and "v_stop v' = v_stop v"
  shows "single_notes fin v' xs'"
  using assms unfolding single_notes_def by simp

lemma effect_single:
  assumes "effect cfg lane fin o1 v o2 v'" and "single_notes fin v (ys @ (lane, o1) # zs)"
  shows "single_notes fin v' (ys @ (lane, o2) # zs)"
  using assms
proof (induction rule: effect.induct)
  case (eff_take v l i rest b)
  have "in_lanes v j = in_lanes (v\<lparr>v_lane := (v_lane v)(l := rest)\<rparr>) j + of_bool (i = j)" for j
    using eff_take.hyps by (cases l) (auto simp: in_lanes_def)
  then show ?case by (intro single_notes_cong [OF eff_take.prems]) (simp_all add: own_count_def)
next
  case (eff_put v l i b)
  have "in_lanes (v\<lparr>v_lane := (v_lane v)(l := v_lane v l @ [i])\<rparr>) j = in_lanes v j + of_bool (i = j)" for j
    by (cases l) (auto simp: in_lanes_def)
  then show ?case by (intro single_notes_cong [OF eff_put.prems]) (simp_all add: own_count_def)
next
  case (eff_enter v i o1)
  let ?xs = "ys @ (lane, o1) # zs"
  let ?v = "v\<lparr>v_lane := (v_lane v)(INGRESS := v_lane v INGRESS @ [i]), v_sched := insert i (v_sched v),
    v_max := (v_max v)(INGRESS := max (v_max v INGRESS) (int (length (v_lane v INGRESS) + 1)))\<rparr>"
  have lanes: "in_lanes ?v j = in_lanes v j + of_bool (i = j)" for j by (simp add: in_lanes_def)
  have "fin i \<or> in_lanes v i + held_count ?xs i = 0"
    using conjunct2 [OF spec [OF eff_enter.prems [unfolded single_notes_def], of i]] eff_enter.hyps(2,3) by fastforce
  then have "(\<not> fin j \<longrightarrow> in_lanes ?v j + held_count ?xs j \<le> 1)
      \<and> (0 < in_lanes ?v j + held_count ?xs j \<longrightarrow> j \<in> v_sched ?v \<or> fin j \<or> v_stop ?v)" for j
    using spec [OF eff_enter.prems [unfolded single_notes_def], of j] unfolding lanes by (cases "i = j") auto
  then show ?case unfolding single_notes_def by blast
next
  case (eff_begin h v)
  show ?case by (intro single_notes_cong [OF eff_begin]) (simp_all add: own_count_def in_lanes_def)
next
  case (eff_end h v)
  show ?case by (intro single_notes_cong [OF eff_end]) (simp_all add: own_count_def in_lanes_def)
next
  case (eff_finish i b v)
  show ?case unfolding single_notes_def
  proof (intro allI)
    fix j
    have "in_lanes (v\<lparr>v_sched := v_sched v - {i}\<rparr>) j = in_lanes v j" by (simp add: in_lanes_def)
    then show "(\<not> fin j \<longrightarrow> in_lanes (v\<lparr>v_sched := v_sched v - {i}\<rparr>) j + held_count (ys @ (lane, None, b) # zs) j \<le> 1)
        \<and> (0 < in_lanes (v\<lparr>v_sched := v_sched v - {i}\<rparr>) j + held_count (ys @ (lane, None, b) # zs) j \<longrightarrow>
          j \<in> v_sched (v\<lparr>v_sched := v_sched v - {i}\<rparr>) \<or> fin j \<or> v_stop (v\<lparr>v_sched := v_sched v - {i}\<rparr>))"
      using spec [OF eff_finish [unfolded single_notes_def], of j] by (cases "j = i") (auto simp: own_count_def)
  qed
qed (auto simp: single_notes_def in_lanes_def)

text \<open>What is terminal stays terminal, and what is stopped stays stopped.\<close>

lemma single_notes_mono: "single_notes fin v xs \<Longrightarrow> (\<And>i. fin i \<Longrightarrow> fin' i) \<Longrightarrow> single_notes fin' v xs"
  unfolding single_notes_def by meson

lemma call_ok_mono: "call_ok fin b c \<Longrightarrow> (\<And>i. fin i \<Longrightarrow> fin' i) \<Longrightarrow> (b \<Longrightarrow> b') \<Longrightarrow> call_ok fin' b' c"
  by (auto simp: call_ok_def split: call.splits cancel_pc.splits close_pc.splits)

lemma effect_stop: "effect cfg lane fin o1 v o2 v' \<Longrightarrow> v_stop v \<Longrightarrow> v_stop v'"
  by (induction rule: effect.induct) auto


section \<open>The threads of a runtime\<close>

definition runtime_owners :: "('l, 'r) runtime \<Rightarrow> owners" where
  "runtime_owners r = (INGRESS, ingress_own (run_ingress r)) # map (\<lambda>p. (PROVIDER, provider_own p)) (run_providers r)
     @ map (\<lambda>p. (PUBLISH, publish_own p)) (run_publishers r) @ map (\<lambda>c. (INGRESS, call_own c)) (run_calls r)"

definition lanes_inv ::
    "BoundedStreamWorkQueuesConfig \<Rightarrow> (string \<Rightarrow> bool) \<Rightarrow> lane_view \<Rightarrow> owners \<Rightarrow> bool" where
  "lanes_inv cfg fin v xs \<longleftrightarrow> lanes_bounded cfg v \<and> (\<forall>l. v_active v l = int (busy_count xs l)) \<and> single_notes fin v xs"

lemma effect_lanes_inv:
  assumes "effect cfg lane fin o1 v o2 v'" and "lanes_inv cfg fin v (ys @ (lane, o1) # zs)"
  shows "lanes_inv cfg fin v' (ys @ (lane, o2) # zs)"
  using assms(2) effect_bounded [OF assms(1)] effect_active [OF assms(1), of ys zs] effect_single [OF assms(1), of ys zs]
  unfolding lanes_inv_def by blast

lemma map_update_split:
  assumes "n < length xs"
  shows "\<exists>ys zs. map f xs = ys @ f (xs ! n) # zs \<and> (\<forall>p. map f (xs[n := p]) = ys @ f p # zs)"
proof (intro exI conjI allI)
  show "map f xs = map f (take n xs) @ f (xs ! n) # map f (drop (Suc n) xs)"
    using arg_cong [OF id_take_nth_drop [OF assms], of "map f"] by simp
  show "map f (xs[n := p]) = map f (take n xs) @ f p # map f (drop (Suc n) xs)" for p
    using assms by (simp add: upd_conv_take_nth_drop)
qed

text \<open>One thread moves: its entry changes, the others stay.\<close>

lemma owners_split:
  shows "\<exists>ys zs. runtime_owners r = ys @ (INGRESS, ingress_own (run_ingress r)) # zs
      \<and> (\<forall>p s'. runtime_owners (r\<lparr>run_sys := s', run_ingress := p\<rparr>) = ys @ (INGRESS, ingress_own p) # zs)"
    and "n < length (run_providers r) \<Longrightarrow> \<exists>ys zs. runtime_owners r = ys @ (PROVIDER, provider_own (run_providers r ! n)) # zs
      \<and> (\<forall>p s'. runtime_owners (r\<lparr>run_sys := s', run_providers := (run_providers r)[n := p]\<rparr>) = ys @ (PROVIDER, provider_own p) # zs)"
    and "n < length (run_publishers r) \<Longrightarrow> \<exists>ys zs. runtime_owners r = ys @ (PUBLISH, publish_own (run_publishers r ! n)) # zs
      \<and> (\<forall>p s'. runtime_owners (r\<lparr>run_sys := s', run_publishers := (run_publishers r)[n := p]\<rparr>) = ys @ (PUBLISH, publish_own p) # zs)"
    and "n < length (run_calls r) \<Longrightarrow> \<exists>ys zs. runtime_owners r = ys @ (INGRESS, call_own (run_calls r ! n)) # zs
      \<and> (\<forall>c s'. runtime_owners (r\<lparr>run_sys := s', run_calls := (run_calls r)[n := c]\<rparr>) = ys @ (INGRESS, call_own c) # zs)"
proof -
  show "\<exists>ys zs. runtime_owners r = ys @ (INGRESS, ingress_own (run_ingress r)) # zs
      \<and> (\<forall>p s'. runtime_owners (r\<lparr>run_sys := s', run_ingress := p\<rparr>) = ys @ (INGRESS, ingress_own p) # zs)"
    by (rule exI [of _ "[]"]) (simp add: runtime_owners_def)
  let ?i = "(INGRESS, ingress_own (run_ingress r))"
  let ?P = "map (\<lambda>p. (PROVIDER, provider_own p)) (run_providers r)"
  let ?U = "map (\<lambda>p. (PUBLISH, publish_own p)) (run_publishers r)"
  let ?C = "map (\<lambda>c. (INGRESS, call_own c)) (run_calls r)"
  show "\<exists>ys zs. runtime_owners r = ys @ (PROVIDER, provider_own (run_providers r ! n)) # zs
      \<and> (\<forall>p s'. runtime_owners (r\<lparr>run_sys := s', run_providers := (run_providers r)[n := p]\<rparr>) = ys @ (PROVIDER, provider_own p) # zs)"
    if len: "n < length (run_providers r)"
  proof -
    obtain ys zs where "?P = ys @ (PROVIDER, provider_own (run_providers r ! n)) # zs"
      "\<And>p. map (\<lambda>p. (PROVIDER, provider_own p)) ((run_providers r)[n := p]) = ys @ (PROVIDER, provider_own p) # zs"
      using map_update_split [OF len, of "\<lambda>p. (PROVIDER, provider_own p)"] by auto
    then show ?thesis by (intro exI [of _ "?i # ys"] exI [of _ "zs @ ?U @ ?C"]) (simp add: runtime_owners_def)
  qed
  show "\<exists>ys zs. runtime_owners r = ys @ (PUBLISH, publish_own (run_publishers r ! n)) # zs
      \<and> (\<forall>p s'. runtime_owners (r\<lparr>run_sys := s', run_publishers := (run_publishers r)[n := p]\<rparr>) = ys @ (PUBLISH, publish_own p) # zs)"
    if len: "n < length (run_publishers r)"
  proof -
    obtain ys zs where "?U = ys @ (PUBLISH, publish_own (run_publishers r ! n)) # zs"
      "\<And>p. map (\<lambda>p. (PUBLISH, publish_own p)) ((run_publishers r)[n := p]) = ys @ (PUBLISH, publish_own p) # zs"
      using map_update_split [OF len, of "\<lambda>p. (PUBLISH, publish_own p)"] by auto
    then show ?thesis by (intro exI [of _ "?i # ?P @ ys"] exI [of _ "zs @ ?C"]) (simp add: runtime_owners_def)
  qed
  show "\<exists>ys zs. runtime_owners r = ys @ (INGRESS, call_own (run_calls r ! n)) # zs
      \<and> (\<forall>c s'. runtime_owners (r\<lparr>run_sys := s', run_calls := (run_calls r)[n := c]\<rparr>) = ys @ (INGRESS, call_own c) # zs)"
    if len: "n < length (run_calls r)"
  proof -
    obtain ys zs where "?C = ys @ (INGRESS, call_own (run_calls r ! n)) # zs"
      "\<And>c. map (\<lambda>c. (INGRESS, call_own c)) ((run_calls r)[n := c]) = ys @ (INGRESS, call_own c) # zs"
      using map_update_split [OF len, of "\<lambda>c. (INGRESS, call_own c)"] by auto
    then show ?thesis by (intro exI [of _ "?i # ?P @ ?U @ ys"] exI [of _ zs]) (simp add: runtime_owners_def)
  qed
qed

lemma runtime_owners_other [simp]:
  "runtime_owners (r\<lparr>run_sys := s'\<rparr>) = runtime_owners r"
  "runtime_owners (r\<lparr>run_sys := s', run_recovery := p\<rparr>) = runtime_owners r"
  by (simp_all add: runtime_owners_def)


text \<open>Every event of a runtime has the effect of one of its threads, or leaves the lanes as they are.\<close>

definition thread_effect ::
    "BoundedStreamWorkQueuesConfig \<Rightarrow> (string \<Rightarrow> bool) \<Rightarrow> ('l, 'r) runtime \<Rightarrow> ('l, 'r) runtime \<Rightarrow> bool" where
  "thread_effect cfg fin r r' \<longleftrightarrow> (\<exists>lane o1 o2 ys zs. effect cfg lane fin o1 (sys_view (run_sys r)) o2 (sys_view (run_sys r'))
     \<and> runtime_owners r = ys @ (lane, o1) # zs \<and> runtime_owners r' = ys @ (lane, o2) # zs)"

lemma thread_effectI:
  "effect cfg lane fin o1 (sys_view (run_sys r)) o2 (sys_view (run_sys r')) \<Longrightarrow> runtime_owners r = ys @ (lane, o1) # zs \<Longrightarrow>
    runtime_owners r' = ys @ (lane, o2) # zs \<Longrightarrow> thread_effect cfg fin r r'"
  unfolding thread_effect_def by blast

lemma runtime_step_effect:
  assumes calls: "\<forall>c \<in> set (run_calls r). call_ok fin (rt_stop (sys_queues (run_sys r))) c"
    and providers: "\<forall>p \<in> set (run_providers r). provider_ok (run_sys r) p"
    and st: "runtime_step W cfg prefix ev r = Some r'"
  shows "thread_effect cfg fin r r' \<or> (\<exists>c. ev = Ev_invoke c \<and> initial_call c \<and> r' = r\<lparr>run_calls := run_calls r @ [c]\<rparr>)"
proof -
  let ?s = "run_sys r"
  obtain ys zs where in_split: "runtime_owners r = ys @ (INGRESS, ingress_own (run_ingress r)) # zs"
    "\<And>p s'. runtime_owners (r\<lparr>run_sys := s', run_ingress := p\<rparr>) = ys @ (INGRESS, ingress_own p) # zs"
    using owners_split(1) [of r] by blast
  have quiet: "thread_effect cfg fin r r'" if "sys_view (run_sys r') = sys_view ?s" "runtime_owners r' = runtime_owners r"
    by (rule thread_effectI [where lane = INGRESS]) (simp_all add: that in_split)
  show ?thesis
  proof (cases ev)
    case (Ev_time t)
    then show ?thesis using st quiet by (auto simp: runtime_step_def Let_def split: if_splits)
  next
    case (Ev_heartbeat k)
    then show ?thesis using st quiet heartbeat_step_view [of W cfg k ?s]
      by (auto simp: runtime_step_def Let_def split: if_splits)
  next
    case Ev_ingress
    then obtain s' p where i: "ingress_step W cfg (run_ingress r) ?s = Some (s', p)" and r': "r' = r\<lparr>run_sys := s', run_ingress := p\<rparr>"
      using st by (auto simp: runtime_step_def Let_def)
    then show ?thesis using ingress_step_effect [OF i] in_split by (intro disjI1 thread_effectI) simp_all
  next
    case (Ev_provider n token out)
    then obtain s' p where n: "n < length (run_providers r)"
      and i: "provider_step W cfg (provider_worker_id prefix n) token out (run_providers r ! n) ?s = Some (s', p)"
      and r': "r' = r\<lparr>run_sys := s', run_providers := (run_providers r)[n := p]\<rparr>"
      using st by (auto simp: runtime_step_def Let_def split: if_splits)
    have "provider_ok ?s (run_providers r ! n)" using providers n by simp
    from provider_step_effect [OF i this] owners_split(2) [OF n] show ?thesis
      unfolding r' thread_effect_def by (metis runtime.select_convs(1) runtime.surjective runtime.update_convs(1,3))
  next
    case (Ev_publish n out)
    then obtain s' p where n: "n < length (run_publishers r)"
      and i: "publish_step W cfg out (run_publishers r ! n) ?s = Some (s', p)"
      and r': "r' = r\<lparr>run_sys := s', run_publishers := (run_publishers r)[n := p]\<rparr>"
      using st by (auto simp: runtime_step_def Let_def split: if_splits)
    from publish_step_effect [OF i] owners_split(3) [OF n] show ?thesis
      unfolding r' thread_effect_def by (metis runtime.select_convs(1) runtime.surjective runtime.update_convs(1,4))
  next
    case Ev_recovery
    then obtain s' p where i: "recovery_step W cfg (run_recovery r) ?s = Some (s', p)" and r': "r' = r\<lparr>run_sys := s', run_recovery := p\<rparr>"
      using st by (auto simp: runtime_step_def Let_def)
    then show ?thesis using recovery_step_effect [OF i] in_split(1) by (intro disjI1 thread_effectI) simp_all
  next
    case (Ev_invoke c)
    then show ?thesis using st by (auto simp: runtime_step_def Let_def split: if_splits)
  next
    case (Ev_call n ch)
    then obtain s' c where n: "n < length (run_calls r)"
      and i: "call_step W cfg ch (threads_ended r) (run_calls r ! n) ?s = Some (s', c)"
      and r': "r' = r\<lparr>run_sys := s', run_calls := (run_calls r)[n := c]\<rparr>"
      using st by (auto simp: runtime_step_def Let_def split: if_splits)
    have "call_ok fin (rt_stop (sys_queues ?s)) (run_calls r ! n)" using calls n by simp
    from call_step_effect [OF i this] owners_split(4) [OF n] show ?thesis
      unfolding r' thread_effect_def by (metis runtime.select_convs(1) runtime.surjective runtime.update_convs(1,6))
  qed
qed

section \<open>Reachable runtimes\<close>

abbreviation ended_rows :: "('l \<Rightarrow> string \<Rightarrow> WorkItem option) \<Rightarrow> ('l, 'r) runtime \<Rightarrow> string \<Rightarrow> bool" where
  "ended_rows row r \<equiv> terminal_row row (sys_ledger (run_sys r))"

definition notes_ok ::
    "('l \<Rightarrow> string \<Rightarrow> WorkItem option) \<Rightarrow> BoundedStreamWorkQueuesConfig \<Rightarrow> ('l, 'r) runtime \<Rightarrow> bool" where
  "notes_ok row cfg r \<longleftrightarrow> lanes_inv cfg (ended_rows row r) (sys_view (run_sys r)) (runtime_owners r)
     \<and> (\<forall>c \<in> set (run_calls r). call_ok (ended_rows row r) (rt_stop (sys_queues (run_sys r))) c)"

lemma notes_okI:
  assumes "notes_ok row cfg r" and inv: "lanes_inv cfg (ended_rows row r) (sys_view (run_sys r')) (runtime_owners r')"
    and fin: "\<And>i. ended_rows row r i \<Longrightarrow> ended_rows row r' i"
    and stop: "rt_stop (sys_queues (run_sys r)) \<Longrightarrow> rt_stop (sys_queues (run_sys r'))"
    and calls: "\<And>c. c \<in> set (run_calls r') \<Longrightarrow>
      c \<in> set (run_calls r) \<or> call_ok (ended_rows row r') (rt_stop (sys_queues (run_sys r'))) c"
  shows "notes_ok row cfg r'"
proof -
  have "lanes_inv cfg (ended_rows row r') (sys_view (run_sys r')) (runtime_owners r')"
    using inv single_notes_mono fin unfolding lanes_inv_def by blast
  moreover have "call_ok (ended_rows row r') (rt_stop (sys_queues (run_sys r'))) c" if "c \<in> set (run_calls r')" for c
    using calls [OF that] assms(1) call_ok_mono fin stop unfolding notes_ok_def by blast
  ultimately show ?thesis by (simp add: notes_ok_def)
qed

text \<open>A step of one thread with an effect on the lanes.\<close>

lemma notes_ok_effect:
  assumes ok: "notes_ok row cfg r" and eff: "effect cfg lane (ended_rows row r) o1 (sys_view (run_sys r)) o2 (sys_view (run_sys r'))"
    and owners: "runtime_owners r = ys @ (lane, o1) # zs" "runtime_owners r' = ys @ (lane, o2) # zs"
    and fin: "\<And>i. ended_rows row r i \<Longrightarrow> ended_rows row r' i"
    and calls: "\<And>c. c \<in> set (run_calls r') \<Longrightarrow>
      c \<in> set (run_calls r) \<or> call_ok (ended_rows row r') (rt_stop (sys_queues (run_sys r'))) c"
  shows "notes_ok row cfg r'"
proof (rule notes_okI [OF ok _ fin _ calls])
  show "lanes_inv cfg (ended_rows row r) (sys_view (run_sys r')) (runtime_owners r')"
    using effect_lanes_inv [OF eff, of ys zs] ok owners by (simp add: notes_ok_def)
  show "rt_stop (sys_queues (run_sys r'))" if "rt_stop (sys_queues (run_sys r))"
    using effect_stop [OF eff] that by (simp add: view_sel)
qed

context durable_scheduler
begin

lemma sched_call_frame: "sched_call W l l' \<Longrightarrow> ok l \<Longrightarrow> \<exists>X. sched_frame row ok X l l'"
proof (induction rule: sched_call.induct)
  case (call_heartbeat l lease d t)
  then show ?case using heartbeat_frame [of l lease d t] by (metis prod.collapse)
next
  case (call_succeed l lease t)
  then show ?case using succeed_frame [of l lease t] by (metis prod.collapse)
qed (auto simp: reads intro: sched_frame_refl reconcile_frame claim_frame fail_frame cancel_frame)

lemma sched_call_ended:
  assumes "ok l" and "sched_call W l l'" and "terminal_row row l i"
  shows "terminal_row row l' i"
proof -
  obtain X where "sched_frame row ok X l l'" using sched_call_frame [OF assms(2,1)] by blast
  then show ?thesis using assms(3) by (rule terminal_row_frame)
qed

lemma call_step_ok:
  assumes st: "call_step W cfg ch over c s = Some (s', c')" and led: "ok (sys_ledger s)"
    and c: "call_ok (terminal_row row (sys_ledger s)) (rt_stop (sys_queues s)) c"
  shows "call_ok (terminal_row row (sys_ledger s')) (rt_stop (sys_queues s')) c'"
proof (cases c)
  case (Cancelling pc)
  then obtain pc' where st': "cancel_step W cfg pc s = Some (s', pc')" and c': "c' = Cancelling pc'"
    using st by (auto simp: call_step_def)
  show ?thesis
  proof (cases "\<exists>i item tracked. pc' = C_forget i item tracked")
    case True
    then show ?thesis using st' cancel_ends [OF led]
      by (cases pc) (auto simp: cancel_step_def c' call_ok_def split: prod.splits sum.splits if_splits)
  next
    case False
    then show ?thesis by (cases pc') (auto simp: c' call_ok_def)
  qed
next
  case (Closing pc)
  then obtain pc' where st': "close_step W cfg ch over pc s = Some (s', pc')" and c': "c' = Closing pc'"
    using st by (auto simp: call_step_def)
  have stop: "rt_stop (sys_queues s')" if "rt_stop (sys_queues s)"
    using effect_stop [OF call_step_effect [OF st c]] that by (simp add: view_sel)
  show ?thesis
  proof (cases pc)
    case (K_cancel wait ids todo)
    then show ?thesis using st' c stop Closing
      by (cases todo) (auto simp: close_step_def c' call_ok_def split: prod.splits sum.splits if_splits)
  next
    case (K_discard wait ids l)
    then show ?thesis using st' c stop Closing
      by (cases l) (auto simp: close_step_def discard_step_def next_lane_def c' call_ok_def split: list.splits)
  next
    case (K_beat wait ks)
    then show ?thesis using st' by (cases ks) (auto simp: close_step_def c' call_ok_def)
  next
    case (K_drain wait d)
    then show ?thesis using st' by (cases d) (auto simp: close_step_def c' call_ok_def)
  qed (use st' c stop Closing in \<open>auto simp: close_step_def Let_def c' call_ok_def split: if_splits\<close>)
qed (use st in \<open>auto simp: call_step_def call_ok_def\<close>)

lemma runtime_step_calls_ok:
  assumes nts: "notes_ok row cfg r" and led: "ok (sys_ledger (run_sys r))" and st: "runtime_step W cfg prefix ev r = Some r'"
    and c: "c \<in> set (run_calls r')"
  shows "c \<in> set (run_calls r) \<or> call_ok (ended_rows row r') (rt_stop (sys_queues (run_sys r'))) c"
proof (cases ev)
  case (Ev_invoke d)
  then have "c \<in> set (run_calls r) \<or> c = d \<and> initial_call d"
    using st c by (auto simp: runtime_step_def Let_def split: if_splits)
  moreover have "call_ok fin b d" if "initial_call d" for fin b
    using that by (cases d rule: initial_call.cases) (simp_all add: call_ok_def)
  ultimately show ?thesis by blast
next
  case (Ev_call n ch)
  then obtain s' d where n: "n < length (run_calls r)"
    and i: "call_step W cfg ch (threads_ended r) (run_calls r ! n) (run_sys r) = Some (s', d)"
    and r': "r' = r\<lparr>run_sys := s', run_calls := (run_calls r)[n := d]\<rparr>"
    using st by (auto simp: runtime_step_def Let_def split: if_splits)
  have "call_ok (ended_rows row r) (rt_stop (sys_queues (run_sys r))) (run_calls r ! n)" using nts n by (simp add: notes_ok_def)
  from call_step_ok [OF i led this] show ?thesis
    using c set_update_subset_insert [of "run_calls r" n d] by (auto simp: r')
qed (use st c in \<open>auto simp: runtime_step_def Let_def split: if_splits\<close>)

lemma runtime_step_notes:
  assumes nts: "notes_ok row cfg r" and ok: "run_ok row ok r" and st: "runtime_step W cfg prefix ev r = Some r'"
  shows "notes_ok row cfg r'"
proof -
  have led: "ok (sys_ledger (run_sys r))" using ok by (simp add: run_ok_def sys_ok_def beats_ok_def)
  have fin: "ended_rows row r' i" if "ended_rows row r i" for i
    by (rule sched_call_ended [OF led runtime_step_calls [OF st] that])
  have calls: "c \<in> set (run_calls r) \<or> call_ok (ended_rows row r') (rt_stop (sys_queues (run_sys r'))) c"
    if "c \<in> set (run_calls r')" for c
    by (rule runtime_step_calls_ok [OF nts led st that])
  have "\<forall>c \<in> set (run_calls r). call_ok (ended_rows row r) (rt_stop (sys_queues (run_sys r))) c"
    "\<forall>p \<in> set (run_providers r). provider_ok (run_sys r) p"
    using nts ok by (simp_all add: notes_ok_def run_ok_def)
  from runtime_step_effect [OF this st] show ?thesis
  proof
    assume "thread_effect cfg (ended_rows row r) r r'"
    then show ?thesis unfolding thread_effect_def using notes_ok_effect [OF nts _ _ _ fin calls] by blast
  next
    assume "\<exists>c. ev = Ev_invoke c \<and> initial_call c \<and> r' = r\<lparr>run_calls := run_calls r @ [c]\<rparr>"
    then obtain c where c: "initial_call c" and r': "r' = r\<lparr>run_calls := run_calls r @ [c]\<rparr>" by blast
    have own: "call_own c = (None, False)" using c by (cases c rule: initial_call.cases) (simp_all add: call_own_def)
    have "lanes_inv cfg (ended_rows row r) (sys_view (run_sys r')) (runtime_owners r')"
      using nts by (simp add: notes_ok_def lanes_inv_def r' runtime_owners_def single_notes_def held_count_def
          busy_count_def own own_count_def)
    then show ?thesis by (intro notes_okI [OF nts _ fin _ calls]) (simp_all add: r')
  qed
qed

lemma notes_ok_init:
  assumes "config_ok cfg" and r: "r = runtime_init cfg l t"
  shows "notes_ok row cfg r"
proof -
  obtain c where "config_post_init cfg = Inr c" using assms(1) by (cases "config_post_init cfg") (auto simp: config_ok_def)
  then have cap: "0 \<le> lane_capacity cfg lane" for lane
    by (cases lane) (auto simp: config_post_init_def lane_capacity_def require_positive_int_def result_simps split: if_splits)
  have none: "held_count (runtime_owners r) i = 0" "busy_count (runtime_owners r) lane = 0" for i lane
    by (simp_all add: r runtime_owners_def runtime_init_def held_count_def busy_count_def own_count_def ingress_own_def
        provider_own_def publish_own_def sum_list_replicate)
  have "v_active (sys_view (run_sys r)) lane = 0" "v_max (sys_view (run_sys r)) lane = 0"
    "v_lane (sys_view (run_sys r)) lane = []" for lane
    by (cases lane; simp add: r view_def lane_ids_def runtime_init_def queues_init_def zero_counters_def)+
  moreover have "run_calls r = []" by (simp add: r runtime_init_def)
  ultimately show ?thesis
    using cap none by (simp add: notes_ok_def lanes_inv_def lanes_bounded_def single_notes_def in_lanes_def)
qed

theorem runtime_reach_notes:
  assumes "runtime_reach W cfg prefix env begins r" and "\<And>l. begins l \<Longrightarrow> ok l" and "config_ok cfg"
  shows "notes_ok row cfg r"
  using assms
proof (induction rule: runtime_reach.induct)
  case (reach_init l t)
  then show ?case using notes_ok_init [OF reach_init.prems(2) refl] by blast
next
  case (reach_step r ev r')
  have "notes_ok row cfg r" by (rule reach_step.IH [OF reach_step.prems])
  moreover have "run_ok row ok r" by (rule runtime_reach_ok [OF reach_step.hyps(1) reach_step.prems(1)])
  ultimately show ?case using reach_step.hyps(2) by (rule runtime_step_notes)
next
  case (reach_env r l')
  have "ok (sys_ledger (run_sys r))"
    using runtime_reach_ok [OF reach_env.hyps(1) reach_env.prems(1)] by (simp add: run_ok_def sys_ok_def beats_ok_def)
  note frame = env_frame [OF this reach_env.hyps(2)]
  have "ended_rows row (r\<lparr>run_sys := (run_sys r)\<lparr>sys_ledger := l'\<rparr>\<rparr>) i" if "ended_rows row r i" for i
    using terminal_row_frame [OF frame that] by simp
  moreover have notes_r: "notes_ok row cfg r" by (rule reach_env.IH [OF reach_env.prems])
  ultimately show ?case by (intro notes_okI [OF notes_r]) (use notes_r in \<open>simp_all add: notes_ok_def\<close>)
qed

end

end
