(* ===== verification/Stream_Shutdown.thy ===== *)
theory Stream_Shutdown
  imports Stream_Notifications
begin

text \<open>
  Shutting the runtime down: once the stop event is set it stays set, no notification is
  added any more, and every worker thread has only a bounded number of steps left.
\<close>

section \<open>The stop event\<close>

lemma effect_stopped:
  assumes "effect cfg lane fin o1 v o2 v'" and "v_stop v"
  shows "in_lanes v' i + own_count o2 i \<le> in_lanes v i + own_count o1 i"
  using assms
proof (induction rule: effect.induct)
  case (eff_take v l j rest b)
  then show ?case by (cases l) (auto simp: in_lanes_def own_count_def)
next
  case (eff_put v l j b)
  then show ?case by (cases l) (auto simp: in_lanes_def own_count_def)
qed (auto simp: in_lanes_def own_count_def)


text \<open>In a reachable runtime the stop event stays set and no notification is added under it.\<close>

lemma stopped_step:
  assumes "notes_ok row cfg r" and "run_ok row ok r" and "runtime_step W cfg prefix ev r = Some r'"
    and stop: "rt_stop (sys_queues (run_sys r))"
  shows "rt_stop (sys_queues (run_sys r'))"
    and "in_lanes (sys_view (run_sys r')) i + held_count (runtime_owners r') i
      \<le> in_lanes (sys_view (run_sys r)) i + held_count (runtime_owners r) i"
proof -
  have "\<forall>c \<in> set (run_calls r). call_ok (ended_rows row r) (rt_stop (sys_queues (run_sys r))) c"
    "\<forall>p \<in> set (run_providers r). provider_ok (run_sys r) p"
    using assms(1,2) by (simp_all add: notes_ok_def run_ok_def)
  from runtime_step_effect [OF this assms(3)]
  have "rt_stop (sys_queues (run_sys r')) \<and> in_lanes (sys_view (run_sys r')) i + held_count (runtime_owners r') i
      \<le> in_lanes (sys_view (run_sys r)) i + held_count (runtime_owners r) i"
  proof
    assume "thread_effect cfg (ended_rows row r) r r'"
    then obtain lane o1 o2 ys zs
      where eff: "effect cfg lane (ended_rows row r) o1 (sys_view (run_sys r)) o2 (sys_view (run_sys r'))"
      and own: "runtime_owners r = ys @ (lane, o1) # zs" "runtime_owners r' = ys @ (lane, o2) # zs"
      unfolding thread_effect_def by blast
    have "v_stop (sys_view (run_sys r))" using stop by (simp add: view_sel)
    from effect_stop [OF eff this] effect_stopped [OF eff this, of i] show ?thesis by (simp add: own view_sel)
  next
    assume "\<exists>c. ev = Ev_invoke c \<and> initial_call c \<and> r' = r\<lparr>run_calls := run_calls r @ [c]\<rparr>"
    then obtain c where c: "initial_call c" and r': "r' = r\<lparr>run_calls := run_calls r @ [c]\<rparr>" by blast
    have own: "call_own c = (None, False)" using c by (cases c rule: initial_call.cases) (simp_all add: call_own_def)
    show ?thesis using stop by (simp add: r' runtime_owners_def held_count_def own own_count_def)
  qed
  then show "rt_stop (sys_queues (run_sys r'))"
    and "in_lanes (sys_view (run_sys r')) i + held_count (runtime_owners r') i
      \<le> in_lanes (sys_view (run_sys r)) i + held_count (runtime_owners r) i" by simp_all
qed

section \<open>Bounded work after the stop\<close>

text \<open>How many steps a worker has left at most once the stop event is set.\<close>

fun tail_rank :: "tail \<Rightarrow> nat" where
  "tail_rank End_round = 1"
| "tail_rank Release_join = 2"
| "tail_rank Release = 3"
| "tail_rank Finish = 4"
| "tail_rank Fail_count = 5"
| "tail_rank Cancelled_finish = 5"
| "tail_rank (Record_error e) = 5"
| "tail_rank (Fail_note e) = 6"
| "tail_rank (Fail_call c e) = 7"
| "tail_rank (Fail_join c e) = 8"
| "tail_rank (Fail_stop c e) = 9"

fun ingress_rank :: "ingress_pc \<Rightarrow> nat" where
  "ingress_rank I_exit = 0"
| "ingress_rank I_loop = 1"
| "ingress_rank (I_tail i t) = 1 + tail_rank t"
| "ingress_rank (I_forward i) = 4"
| "ingress_rank (I_enqueued i) = 5"
| "ingress_rank (I_put i) = 6"
| "ingress_rank (I_wait i) = 7"
| "ingress_rank (I_check i) = 8"
| "ingress_rank (I_begin i) = 9"
| "ingress_rank I_get = 10"

fun provider_rank :: "'r provider_pc \<Rightarrow> nat" where
  "provider_rank P_exit = 0"
| "provider_rank P_loop = 1"
| "provider_rank (P_tail i h t) = 1 + tail_rank t"
| "provider_rank (P_forward i) = 4"
| "provider_rank (P_enqueued i) = 5"
| "provider_rank (P_lost i k e) = 11"
| "provider_rank (P_refused_health i c k) = 11"
| "provider_rank (P_refused i c k) = 12"
| "provider_rank (P_put i c t) = 13"
| "provider_rank (P_wait i c t) = 14"
| "provider_rank (P_task i c k r) = 15"
| "provider_rank (P_recheck i c k r) = 16"
| "provider_rank (P_health i c k r) = 17"
| "provider_rank (P_exec i c k) = 18"
| "provider_rank (P_track_join i c k) = 19"
| "provider_rank (P_track_stop i c k) = 20"
| "provider_rank (P_track i c k) = 21"
| "provider_rank (P_claim i) = 22"
| "provider_rank (P_check i) = 23"
| "provider_rank (P_begin i) = 24"
| "provider_rank P_get = 25"

fun publish_rank :: "'r publish_pc \<Rightarrow> nat" where
  "publish_rank U_exit = 0"
| "publish_rank U_loop = 1"
| "publish_rank (U_tail i k t) = 1 + tail_rank t"
| "publish_rank (U_complete t) = 11"
| "publish_rank (U_lost t e) = 11"
| "publish_rank (U_succeed t lease) = 12"
| "publish_rank (U_final_health t lease) = 13"
| "publish_rank (U_join t) = 14"
| "publish_rank (U_stop t) = 15"
| "publish_rank (U_recheck t) = 16"
| "publish_rank (U_health_after t) = 17"
| "publish_rank (U_call t) = 18"
| "publish_rank (U_health t) = 19"
| "publish_rank (U_check t) = 20"
| "publish_rank (U_begin t) = 21"
| "publish_rank U_get = 22"

lemma tail_step_rank: "tail_step W cfg lane i h t s = Some (s', Some u) \<Longrightarrow> tail_rank u < tail_rank t"
  by (cases t) (auto simp: tail_step_def split: option.splits prod.splits sum.splits)

lemma tail_rank_pos: "0 < tail_rank t"
  by (cases t) simp_all

lemma ingress_step_rank:
  assumes st: "ingress_step W cfg pc s = Some (s', pc')" and stop: "rt_stop (sys_queues s)"
  shows "ingress_rank pc' < ingress_rank pc"
proof (cases pc)
  case (I_tail i t)
  then obtain u where u: "tail_step W cfg INGRESS i None t s = Some (s', u)"
    "pc' = (case u of None \<Rightarrow> I_loop | Some v \<Rightarrow> I_tail i v)"
    using st by (auto simp: ingress_step_def)
  show ?thesis using u(2) I_tail tail_rank_pos [of t] tail_step_rank [of W cfg INGRESS i None t s s'] u(1) by (cases u) simp_all
qed (use st stop in \<open>auto simp: ingress_step_def Let_def split: list.splits if_splits\<close>)

lemma provider_step_rank:
  assumes st: "provider_step W cfg worker token out pc s = Some (s', pc')" and stop: "rt_stop (sys_queues s)"
  shows "provider_rank pc' < provider_rank pc"
proof (cases pc)
  case (P_tail i h t)
  then obtain u where u: "tail_step W cfg PROVIDER i h t s = Some (s', u)"
    "pc' = (case u of None \<Rightarrow> P_loop | Some v \<Rightarrow> P_tail i h v)"
    using st by (auto simp: provider_step_def)
  show ?thesis using u(2) P_tail tail_rank_pos [of t] tail_step_rank [of W cfg PROVIDER i h t s s'] u(1) by (cases u) simp_all
qed (use st stop in \<open>auto simp: provider_step_def Let_def split: list.splits if_splits option.splits sum.splits prod.splits\<close>)

lemma publish_step_rank:
  assumes st: "publish_step W cfg out pc s = Some (s', pc')" and stop: "rt_stop (sys_queues s)"
  shows "publish_rank pc' < publish_rank pc"
proof (cases pc)
  case (U_tail i k t)
  then obtain u where u: "tail_step W cfg PUBLISH i (Some k) t s = Some (s', u)"
    "pc' = (case u of None \<Rightarrow> U_loop | Some v \<Rightarrow> U_tail i k v)"
    using st by (auto simp: publish_step_def)
  show ?thesis using u(2) U_tail tail_rank_pos [of t] tail_step_rank [of W cfg PUBLISH i "Some k" t s s'] u(1) by (cases u) simp_all
qed (use st stop in \<open>auto simp: publish_step_def Let_def split: list.splits if_splits option.splits sum.splits prod.splits\<close>)

lemma tail_rank_bound: "tail_rank t \<le> 9"
  by (cases t) simp_all

lemma rank_bounds: "ingress_rank p \<le> 25" "provider_rank q \<le> 25" "publish_rank u \<le> 25"
proof -
  have "tail_rank t \<le> 24" for t using tail_rank_bound [of t] by simp
  note [simp] = this
  show "ingress_rank p \<le> 25" by (cases p) simp_all
  show "provider_rank q \<le> 25" by (cases q) simp_all
  show "publish_rank u \<le> 25" by (cases u) simp_all
qed

text \<open>The worker an event moves.\<close>

datatype worker = Ingress_worker | Provider_worker nat | Publish_worker nat

fun event_worker :: "'r event \<Rightarrow> worker option" where
  "event_worker Ev_ingress = Some Ingress_worker"
| "event_worker (Ev_provider n token out) = Some (Provider_worker n)"
| "event_worker (Ev_publish n out) = Some (Publish_worker n)"
| "event_worker ev = None"

fun worker_rank :: "worker \<Rightarrow> ('l, 'r) runtime \<Rightarrow> nat" where
  "worker_rank Ingress_worker r = ingress_rank (run_ingress r)"
| "worker_rank (Provider_worker n) r = (if n < length (run_providers r) then provider_rank (run_providers r ! n) else 0)"
| "worker_rank (Publish_worker n) r = (if n < length (run_publishers r) then publish_rank (run_publishers r ! n) else 0)"

lemma worker_rank_bound: "worker_rank w r \<le> 25"
  by (cases w) (simp_all add: rank_bounds)

lemma runtime_step_rank:
  assumes st: "runtime_step W cfg prefix ev r = Some r'" and stop: "rt_stop (sys_queues (run_sys r))"
  shows "worker_rank w r' + of_bool (event_worker ev = Some w) \<le> worker_rank w r"
proof (cases ev)
  case Ev_ingress
  then show ?thesis using st ingress_step_rank [OF _ stop, of W cfg "run_ingress r"]
    by (cases w) (fastforce simp: runtime_step_def Let_def)+
next
  case (Ev_provider n token out)
  then show ?thesis using st provider_step_rank [OF _ stop, of W cfg _ token out "run_providers r ! n"]
    by (cases w) (fastforce simp: runtime_step_def Let_def nth_list_update split: if_splits)+
next
  case (Ev_publish n out)
  then show ?thesis using st publish_step_rank [OF _ stop, of W cfg out "run_publishers r ! n"]
    by (cases w) (fastforce simp: runtime_step_def Let_def nth_list_update split: if_splits)+
qed (use st in \<open>cases w; auto simp: runtime_step_def Let_def split: if_splits\<close>)+

context durable_scheduler
begin

lemma runtime_reach_run:
  "runtime_run W cfg prefix evs r = Some r' \<Longrightarrow> runtime_reach W cfg prefix env begins r \<Longrightarrow>
    runtime_reach W cfg prefix env begins r'"
  by (induction evs arbitrary: r) (auto intro: reach_step split: option.splits)

lemma runtime_run_rank:
  assumes "runtime_reach W cfg prefix env begins r" and "\<And>l. begins l \<Longrightarrow> ok l" and "config_ok cfg"
    and "runtime_run W cfg prefix evs r = Some r'" and "rt_stop (sys_queues (run_sys r))"
  shows "rt_stop (sys_queues (run_sys r')) \<and>
    worker_rank w r' + length (filter (\<lambda>ev. event_worker ev = Some w) evs) \<le> worker_rank w r"
  using assms(1,4,5)
proof (induction evs arbitrary: r)
  case Nil
  then show ?case by simp
next
  case (Cons ev evs)
  then obtain r1 where st: "runtime_step W cfg prefix ev r = Some r1" and run: "runtime_run W cfg prefix evs r1 = Some r'"
    by (auto split: option.splits)
  have "notes_ok row cfg r" "run_ok row ok r"
    using runtime_reach_notes [OF Cons.prems(1) assms(2,3)] runtime_reach_ok [OF Cons.prems(1) assms(2)] by simp_all
  from stopped_step(1) [OF this st Cons.prems(3)] have "rt_stop (sys_queues (run_sys r1))" .
  from Cons.IH [OF reach_step [OF Cons.prems(1) st] run this] runtime_step_rank [OF st Cons.prems(3), of w]
  show ?case by auto
qed

end

end
