(* ===== verification/Stream_Scheduler.thy ===== *)
theory Stream_Scheduler
  imports Work_Properties Stream_Shutdown
begin

text \<open>
  The SQLite scheduler keeps the contract of the stream runtime: its commands change rows
  quietly, except that a heartbeat renews and a success completes the row under the lease
  it was called with.
\<close>

section \<open>Quiet changes of the ledger\<close>

abbreviation ledger_frame :: "string set \<Rightarrow> ledger \<Rightarrow> ledger \<Rightarrow> bool" where
  "ledger_frame \<equiv> sched_frame item_of wf_ledger"

lemma frameI:
  assumes "wf_ledger db" and "lsteps db db'"
    and "\<And>i w w'. item_of db i = Some w \<Longrightarrow> item_of db' i = Some w' \<Longrightarrow> row_sound w w' \<and> (i \<in> X \<or> row_quiet w w')"
  shows "ledger_frame X db db'"
  unfolding sched_frame_def
proof (intro conjI allI impI)
  show "wf_ledger db'" by (rule lsteps_wf [OF assms(2,1)])
  fix i w assume w: "item_of db i = Some w"
  obtain w' where "item_of db' i = Some w'" "row_evolves w w'"
    using lsteps_evolves [OF assms(2,1)] w unfolding evolves_def by meson
  with assms(3) [OF w]
  show "\<exists>w'. item_of db' i = Some w' \<and> row_evolves w w' \<and> row_sound w w' \<and> (i \<in> X \<or> row_quiet w w')" by blast
qed

text \<open>One row changes.\<close>

lemma frame_row:
  assumes "wf_ledger db" and "lsteps db db'" and "item_of db i = Some w"
    and "\<And>j. item_of db' j = (if j = i then Some w' else item_of db j)"
    and "row_sound w w'" and "i \<in> X \<or> row_quiet w w'"
  shows "ledger_frame X db db'"
proof (rule frameI [OF assms(1,2)])
  fix j v v' assume v: "item_of db j = Some v" "item_of db' j = Some v'"
  show "row_sound v v' \<and> (j \<in> X \<or> row_quiet v v')"
  proof (cases "j = i")
    case True
    then have "v = w" "v' = w'" using v assms(3,4) by simp_all
    with True assms(5,6) show ?thesis by simp
  next
    case False
    then have "v' = v" using v assms(4) [of j] by simp
    then show ?thesis using row_sound_quiet [OF row_quiet_refl] by simp
  qed
qed

definition idle_state :: "WorkItemState \<Rightarrow> bool" where
  "idle_state st \<longleftrightarrow> st \<notin> {LEASED, RUNNING, SUCCEEDED}"

lemma row_quiet_idle: "idle_state (state w') \<Longrightarrow> row_quiet w w'"
  by (auto simp: idle_state_def row_quiet_def leased_state_def)

text \<open>Changed rows end in an idle state.\<close>

lemma frame_idle:
  assumes "wf_ledger db" and "lsteps db db'"
    and "\<And>i w w'. item_of db i = Some w \<Longrightarrow> item_of db' i = Some w' \<Longrightarrow> w' = w \<or> idle_state (state w')"
  shows "ledger_frame {} db db'"
proof (rule frameI [OF assms(1,2)])
  fix i w w' assume "item_of db i = Some w" "item_of db' i = Some w'"
  then have "row_quiet w w'" using assms(3) row_quiet_idle by fastforce
  then show "row_sound w w' \<and> (i \<in> {} \<or> row_quiet w w')" using row_sound_quiet by blast
qed

lemma moved_idle:
  "moved db db' i \<Longrightarrow> item_of db i = Some w \<Longrightarrow> item_of db' i = Some w' \<Longrightarrow> w' = w \<or> idle_state (state w')"
  by (auto simp: moved_def idle_state_def)

lemma frame_cascade:
  assumes "wf_ledger db" and "lsteps db db' \<and> cascade db db'"
  shows "ledger_frame {} db db'"
  using assms moved_idle [OF moved_cascade] by (intro frame_idle) blast+

lemma frame_swept:
  assumes "wf_ledger db" and "lsteps db db' \<and> swept ids S db db' \<and> P" and "\<And>st. st \<in> S \<Longrightarrow> idle_state st"
  shows "ledger_frame {} db db'"
proof (rule frame_idle [OF assms(1)])
  show "lsteps db db'" using assms(2) by blast
  fix i w w' assume "item_of db i = Some w" "item_of db' i = Some w'"
  then show "w' = w \<or> idle_state (state w')"
    using assms(2,3) moved_idle [of db db' i w w'] by (cases "i \<in> ids") (auto simp: swept_def)
qed

lemma frame_maintain:
  assumes "wf_ledger db" and "maintain db now all = Inr (db', n)"
  shows "ledger_frame {} db db'"
proof (rule maintain_parts [OF assms])
  fix db1 n1 db2 n2 db3
  assume e: "expire_hard_deadlines db now None = Inr (db1, n1)" and wf1: "wf_ledger db1"
    and r: "recover_expired_leases db1 now None = Inr (db2, n2)" and wf2: "wf_ledger db2"
    and db3: "db3 = upd_items (\<lambda>w. state w = RETRY_WAIT \<and> retry_is_due now w) (row_retry_due now) db2"
    and s3: "lstep db2 db3" and wf3: "wf_ledger db3" and c: "lsteps db3 db'" "cascade db3 db'"
  have "ledger_frame {} db db1" by (rule frame_swept [OF assms(1) expire_spec [OF assms(1) e]]) (simp add: idle_state_def)
  moreover have "ledger_frame {} db1 db2"
    by (rule frame_swept [OF wf1 recover_spec [OF wf1 r]]) (auto simp: idle_state_def)
  moreover have "ledger_frame {} db2 db3"
    using s3 by (intro frame_idle [OF wf2]) (auto simp: db3 retry_upd_item_of row_retry_due_def idle_state_def split: if_splits)
  moreover have "ledger_frame {} db3 db'" using frame_cascade [OF wf3] c by blast
  ultimately show ?thesis by (meson sched_frame_trans)
qed

lemma frame_exact:
  assumes wf: "wf_ledger db" and "reconcile_exact_due_state i now db = Inr (db', n)"
  shows "ledger_frame {} db db'"
proof -
  obtain db1 n1 db2 n2 where e: "expire_hard_deadlines db now (Some i) = Inr (db1, n1)"
    and r: "recover_expired_leases db1 now (Some i) = Inr (db2, n2)"
    using assms(2) by (auto simp: reconcile_exact_due_state_def result_simps)
  have f1: "ledger_frame {} db db1" by (rule frame_swept [OF wf expire_spec [OF wf e]]) (simp add: idle_state_def)
  then have wf1: "wf_ledger db1" by (simp add: sched_frame_def)
  have f2: "ledger_frame {} db1 db2" by (rule frame_swept [OF wf1 recover_spec [OF wf1 r]]) (auto simp: idle_state_def)
  then have wf2: "wf_ledger db2" by (simp add: sched_frame_def)
  have "ledger_frame {} db2 db'"
    using assms(2) e r frame_cascade [OF wf2] refresh_downstream_step [OF _ wf2] sched_frame_refl [where ok = wf_ledger and l = db2]
      wf2
    by (auto simp: reconcile_exact_due_state_def result_simps Let_def split: if_splits)
  with f1 f2 show ?thesis by (meson sched_frame_trans)
qed

lemma frame_transaction:
  assumes "wf_ledger db" and "\<And>db' r. operation db = Inr (db', r) \<Longrightarrow> ledger_frame X db db'"
  shows "ledger_frame X db (fst (transaction operation db))"
  using assms sched_frame_refl [where ok = wf_ledger and l = db] by (auto simp: transaction_def split: sum.splits)

text \<open>A call that is fenced off leaves at most the maintenance of its item.\<close>

lemma frame_fenced:
  assumes wf: "wf_ledger db" and op: "\<And>db' r. operation db = Inr (db', r) \<Longrightarrow> ledger_frame X db db'"
    and run: "fenced_transaction i now operation db = (db', r)"
  shows "ledger_frame (if isl r then {} else X) db db'"
proof (cases "operation db")
  case (Inr v)
  then have "r = Inr (snd v)" "db' = fst v"
    using run by (auto simp: fenced_transaction_def transaction_def split: prod.splits)
  with op [of "fst v" "snd v"] Inr show ?thesis by simp
next
  case (Inl e)
  have refl: "ledger_frame {} db db" using wf by (rule sched_frame_refl)
  have exact: "ledger_frame {} db (fst (transaction (reconcile_exact_due_state i now) db))"
    by (rule frame_transaction [OF wf frame_exact [OF wf]])
  have "isl r \<and> db' \<in> {db, fst (transaction (reconcile_exact_due_state i now) db)}"
    using run Inl by (auto simp: fenced_transaction_def transaction_def split: work_error.splits sum.splits prod.splits)
  with refl exact show ?thesis by auto
qed

section \<open>The operations\<close>

lemma frame_finish:
  assumes wf: "wf_ledger db" and item: "item_of db (work_item_id item) = Some item" "leased_state (state item)"
    and f: "finish_attempt db item oc now code' detail' = Inr db1"
    and t: "set_terminal db1 item st now code detail ref sha c = Inr db2"
    and r: "refresh_downstream_for_upstreams db2 now [work_item_id item] = Inr (db3, n)"
    and m: "maintain db3 now False = Inr (db4, k)"
    and side: "terminal_state st" "oc \<noteq> Attempt_ACTIVE" "(ref = None) = (sha = None)"
      "st \<noteq> SUCCEEDED \<longrightarrow> code \<noteq> None \<and> ref = None" "detail \<noteq> None \<longrightarrow> code \<noteq> None"
  shows "ledger_frame (if st = SUCCEEDED then {work_item_id item} else {}) db db4"
    and "item_of db4 (work_item_id item) = Some (row_terminal st now code detail ref sha c item)"
proof -
  let ?X = "if st = SUCCEEDED then {work_item_id item} else {}"
  let ?row = "row_terminal st now code detail ref sha c item"
  note step = leased_terminal_step [OF wf item f t side]
  have it: "item_of db2 j = (if j = work_item_id item then Some ?row else item_of db j)" for j
    unfolding step(2) by (simp add: item_of_upd item)
  have nl: "\<not> leased_state st" using side(1) terminal_not_leased by blast
  have f2: "ledger_frame ?X db db2"
    using step(1) item nl
    by (intro frame_row [OF wf _ item(1) it]) (auto simp: row_sound_def row_quiet_def row_terminal_def)
  then have wf2: "wf_ledger db2" by (simp add: sched_frame_def)
  note rs = refresh_downstream_step [OF r wf2]
  have f3: "ledger_frame {} db2 db3" by (rule frame_cascade [OF wf2 rs])
  then have wf3: "wf_ledger db3" by (simp add: sched_frame_def)
  have f4: "ledger_frame {} db3 db4" by (rule frame_maintain [OF wf3 m])
  have "ledger_frame {} db2 db4" using f3 f4 by (rule sched_frame_trans)
  then have f24: "ledger_frame ?X db2 db4" by (rule sched_frame_mono) simp
  show "ledger_frame ?X db db4" using f2 f24 by (rule sched_frame_trans)
  have "terminal_state (state ?row)" using side(1) by (simp add: row_terminal_def)
  then show "item_of db4 (work_item_id item) = Some ?row"
    using f24 it [of "work_item_id item"] unfolding sched_frame_def row_evolves_def by (metis (full_types))
qed

lemma frame_succeed:
  assumes wf: "wf_ledger db" and run: "succeed_in_transaction lease ref sha now db = Inr (db', r)"
    and res: "(ref = None) = (sha = None)"
  shows "ledger_frame {lease_work_item_id lease} db db'"
    and "\<exists>w w'. item_of db (lease_work_item_id lease) = Some w \<and> under_lease lease w \<and> state w = RUNNING
      \<and> item_of db' (lease_work_item_id lease) = Some w' \<and> state w' = SUCCEEDED \<and> lease_epoch w' = lease_epoch w"
proof -
  obtain item where rl: "require_lease db lease now = Inr item"
    using run by (auto simp: succeed_in_transaction_def result_simps)
  note item = require_lease_Inr [OF rl]
  obtain db1 db2 db3 n k where parts: "finish_attempt db item Attempt_SUCCEEDED now None None = Inr db1"
    "set_terminal db1 item SUCCEEDED now None None ref sha False = Inr db2"
    "refresh_downstream_for_upstreams db2 now [work_item_id item] = Inr (db3, n)"
    "maintain db3 now False = Inr (db', k)"
    and st: "state item = RUNNING"
    using run rl by (auto simp: succeed_in_transaction_def result_simps split: if_splits)
  have it: "item_of db (work_item_id item) = Some item" using item(1,3) by simp
  note fin = frame_finish [OF wf it item(4) parts]
  show "ledger_frame {lease_work_item_id lease} db db'" using fin(1) res item(3) by simp
  have "under_lease lease item"
    using item(2,4) by (auto simp: under_lease_def held_def lease_current_def split: option.splits)
  moreover have "item_of db' (lease_work_item_id lease) = Some (row_terminal SUCCEEDED now None None ref sha False item)"
    using fin(2) res item(3) by simp
  ultimately show "\<exists>w w'. item_of db (lease_work_item_id lease) = Some w \<and> under_lease lease w \<and> state w = RUNNING
      \<and> item_of db' (lease_work_item_id lease) = Some w' \<and> state w' = SUCCEEDED \<and> lease_epoch w' = lease_epoch w"
    using item(1) st by (auto simp: row_terminal_def)
qed

lemma frame_fail:
  assumes wf: "wf_ledger db" and run: "fail_in_transaction lease code retryable detail delay now db = Inr (db', r)"
  shows "ledger_frame {} db db'"
proof -
  obtain item where rl: "require_lease db lease now = Inr item"
    using run by (auto simp: fail_in_transaction_def result_simps)
  note item = require_lease_Inr [OF rl]
  show ?thesis
  proof (cases "will_retry item retryable (plus_seconds now delay)")
    case True
    let ?p = "\<lambda>w. work_item_id w = work_item_id item \<and> (holds_lease lease w \<and> state w \<in> {LEASED, RUNNING})"
    obtain db1 where f: "finish_attempt db item Attempt_FAILED_RETRYABLE now (Some code) detail = Inr db1"
      and rc: "rowcount ?p (work_items db1) = 1"
      and db': "db' = upd_items ?p (row_retry_wait (plus_seconds now delay) now) db1"
      using run rl True by (auto simp: fail_in_transaction_def result_simps Let_def split: if_splits)
    note db1 = finish_attempt_Inr [OF f]
    have same: "work_items db1 = work_items db" by (simp add: db1)
    have "item_of db1 = item_of db" by (simp add: item_of_def same fun_eq_iff)
    then show ?thesis
      using fail_steps [OF wf run] unfolding db' leased_update [OF wf same rc]
      by (intro frame_idle [OF wf]) (auto simp: item_of_upd row_retry_wait_def idle_state_def split: if_splits)
  next
    case False
    then obtain db1 db2 db3 n k where parts:
      "finish_attempt db item Attempt_FAILED_PERMANENT now (Some code) detail = Inr db1"
      "set_terminal db1 item FAILED_PERMANENT now (Some code) detail None None False = Inr db2"
      "refresh_downstream_for_upstreams db2 now [work_item_id item] = Inr (db3, n)"
      "maintain db3 now False = Inr (db', k)"
      using run rl by (auto simp: fail_in_transaction_def result_simps Let_def split: if_splits)
    have it: "item_of db (work_item_id item) = Some item" using item(1,3) by simp
    show ?thesis using frame_finish(1) [OF wf it item(4) parts] by simp
  qed
qed

lemma lease_current_under: "lease_current lease now w \<Longrightarrow> under_lease lease w"
  by (auto simp: under_lease_def held_def lease_current_def leased_state_def split: option.splits)

lemma frame_heartbeat:
  assumes wf: "wf_ledger db" and run: "heartbeat_in_transaction lease duration now db = Inr (db', lease')"
  shows "ledger_frame {lease_work_item_id lease} db db'" and "same_grant lease lease'"
    and "\<exists>w w'. item_of db (lease_work_item_id lease) = Some w \<and> held lease w
      \<and> item_of db' (lease_work_item_id lease) = Some w' \<and> under_lease lease' w'"
proof -
  obtain item where rl: "require_lease db lease now = Inr item"
    using run by (auto simp: heartbeat_in_transaction_def result_simps)
  note item = require_lease_Inr [OF rl]
  let ?p = "\<lambda>w. work_item_id w = work_item_id item \<and> (holds_lease lease w \<and> state w \<in> {LEASED, RUNNING})"
  have rc: "rowcount ?p (work_items db) = 1"
    and db': "db' = upd_items ?p (row_heartbeat (plus_seconds now duration) now) db"
    and lease': "lease' = \<lparr>lease_work_item_id = work_item_id item, worker_id = worker_id lease,
      granted_epoch = granted_epoch lease, granted_token = granted_token lease,
      granted_expires_at = plus_seconds now duration\<rparr>"
    using run rl by (auto simp: heartbeat_in_transaction_def result_simps Let_def split: if_splits)
  have it: "item_of db' j = (if j = lease_work_item_id lease then Some (row_heartbeat (plus_seconds now duration) now item)
      else item_of db j)" for j
    unfolding db' leased_update [OF wf refl rc] by (simp add: item_of_upd item(1,3))
  show "ledger_frame {lease_work_item_id lease} db db'"
    using heartbeat_steps [OF wf run] item(4)
    by (intro frame_row [OF wf _ item(1) it]) (auto simp: row_sound_def row_heartbeat_def leased_state_def)
  show "same_grant lease lease'" by (simp add: lease' same_grant_def item(3))
  have "held lease item" using lease_current_under [OF item(2)] by (simp add: under_lease_def)
  then show "\<exists>w w'. item_of db (lease_work_item_id lease) = Some w \<and> held lease w
      \<and> item_of db' (lease_work_item_id lease) = Some w' \<and> under_lease lease' w'"
    using item(1) it [of "lease_work_item_id lease"] by (auto simp: lease' held_def under_lease_def row_heartbeat_def)
qed

lemma frame_start:
  assumes wf: "wf_ledger db" and run: "start_in_transaction lease now db = Inr (db', r)"
  shows "ledger_frame {} db db'"
proof -
  obtain item where rl: "require_lease db lease now = Inr item"
    using run by (auto simp: start_in_transaction_def result_simps)
  note item = require_lease_Inr [OF rl]
  show ?thesis
  proof (cases "state item = RUNNING")
    case True
    with run rl show ?thesis using sched_frame_refl [where ok = wf_ledger and l = db] wf by (simp add: start_in_transaction_def)
  next
    case False
    let ?p = "\<lambda>w. work_item_id w = work_item_id item \<and> (state w = LEASED \<and> holds_lease lease w)"
    have rc: "rowcount ?p (work_items db) = 1"
      and db': "item_of db' = item_of (upd_items ?p (row_start now) db)"
      using run rl False by (auto simp: start_in_transaction_def result_simps Let_def split: if_splits)
    have it: "item_of db' j = (if j = lease_work_item_id lease then Some (row_start now item) else item_of db j)" for j
      unfolding db' leased_update [OF wf refl rc] by (simp add: item_of_upd item(1,3))
    show ?thesis
      using start_steps [OF wf run]
      by (intro frame_row [OF wf _ item(1) it]) (simp_all add: row_start_def row_sound_def row_quiet_def)
  qed
qed

lemma frame_terminal:
  assumes wf: "wf_ledger db" and run: "terminal_in_transaction i st oc code detail c now db = Inr (db', r)"
    and side: "terminal_state st" "st \<noteq> SUCCEEDED" "oc \<noteq> Attempt_ACTIVE"
  shows "ledger_frame {} db db'" and "terminal_row item_of db' i"
proof -
  obtain db1 n1 db2 n2 item where e: "expire_hard_deadlines db now (Some i) = Inr (db1, n1)"
    and v: "recover_expired_leases db1 now (Some i) = Inr (db2, n2)" and item: "item_of db2 i = Some item"
    using run by (auto simp: terminal_in_transaction_def result_simps)
  have f1: "ledger_frame {} db db1" by (rule frame_swept [OF wf expire_spec [OF wf e]]) (simp add: idle_state_def)
  then have wf1: "wf_ledger db1" by (simp add: sched_frame_def)
  have f2: "ledger_frame {} db1 db2" by (rule frame_swept [OF wf1 recover_spec [OF wf1 v]]) (auto simp: idle_state_def)
  then have wf2: "wf_ledger db2" by (simp add: sched_frame_def)
  note id = item_of_id [OF item]
  have "ledger_frame {} db2 db' \<and> terminal_row item_of db' i"
  proof (cases "state item = st")
    case True
    with run e v item side wf2 show ?thesis using sched_frame_refl [where ok = wf_ledger and l = db2]
      by (auto simp: terminal_in_transaction_def result_simps terminal_row_def split: if_splits)
  next
    case False
    obtain db3 db4 db5 n k where
      f: "(if state item \<in> {LEASED, RUNNING} then finish_attempt db2 item oc now (Some code) detail else Inr db2) = Inr db3"
      and t: "set_terminal db3 item st now (Some code) detail None None c = Inr db4"
      and d: "refresh_downstream_for_upstreams db4 now [work_item_id item] = Inr (db5, n)"
      and m: "maintain db5 now False = Inr (db', k)"
      using run e v item False by (auto simp: terminal_in_transaction_def result_simps split: if_splits)
    show ?thesis
    proof (cases "leased_state (state item)")
      case True
      then have fin: "finish_attempt db2 item oc now (Some code) detail = Inr db3"
        using f by (simp add: leased_state_def)
      have it: "item_of db2 (work_item_id item) = Some item" using item id by simp
      show ?thesis using frame_finish [OF wf2 it True fin t d m] side id by (auto simp: terminal_row_def row_terminal_def)
    next
      case False
      then have [simp]: "db3 = db2" using f by (simp add: leased_state_def)
      have idle: "\<not> leased_state (state w)" if "item_of db2 (work_item_id item) = Some w" for w
        using that item id False by simp
      note step = idle_terminal_step [OF wf2 t [simplified] idle side(1,2)]
      have s: "lstep db2 db4" by (rule step(1)) simp_all
      have u: "db4 = upd_item (work_item_id item) (row_terminal st now (Some code) detail None None c) db2"
        by (rule step(2)) simp_all
      have it: "item_of db4 j = (if j = i then Some (row_terminal st now (Some code) detail None None c item)
          else item_of db2 j)" for j
        unfolding u id by (simp add: item_of_upd item)
      have st: "idle_state st" using side terminal_not_leased by (auto simp: idle_state_def)
      have f4: "ledger_frame {} db2 db4"
        using s row_quiet_idle row_sound_quiet st
        by (intro frame_row [OF wf2 _ item it]) (simp_all add: row_terminal_def)
      then have wf4: "wf_ledger db4" by (simp add: sched_frame_def)
      have f5: "ledger_frame {} db4 db5" by (rule frame_cascade [OF wf4 refresh_downstream_step [OF d wf4]])
      then have wf5: "wf_ledger db5" by (simp add: sched_frame_def)
      have f6: "ledger_frame {} db4 db'" using f5 frame_maintain [OF wf5 m] by (rule sched_frame_trans)
      have "terminal_row item_of db4 i" using side(1) by (simp add: terminal_row_def it row_terminal_def)
      then show ?thesis using terminal_row_frame [OF f6] sched_frame_trans [OF f4 f6] by blast
    qed
  qed
  with f1 f2 show "ledger_frame {} db db'" and "terminal_row item_of db' i" by (meson sched_frame_trans)+
qed

lemma swept_ids: "swept ids S db db' \<Longrightarrow> item_of db i = None \<Longrightarrow> item_of db' i = None"
  by (cases "i \<in> ids") (auto simp: swept_def moved_def)

lemma maintain_keeps_ids:
  assumes "wf_ledger db" and "maintain db now all = Inr (db', n)" and "item_of db i = None"
  shows "item_of db' i = None"
proof (rule maintain_parts [OF assms(1,2)])
  fix db1 n1 db2 n2 db3
  assume e: "expire_hard_deadlines db now None = Inr (db1, n1)" and wf1: "wf_ledger db1"
    and r: "recover_expired_leases db1 now None = Inr (db2, n2)"
    and db3: "db3 = upd_items (\<lambda>w. state w = RETRY_WAIT \<and> retry_is_due now w) (row_retry_due now) db2"
    and c: "cascade db3 db'"
  have "item_of db2 i = None" using swept_ids expire_spec [OF assms(1) e] recover_spec [OF wf1 r] assms(3) by blast
  then have "item_of db3 i = None" by (simp add: db3 retry_upd_item_of)
  then show ?thesis using moved_cascade [OF c, of i] by (auto simp: moved_def)
qed

lemma frame_claim:
  assumes wf: "wf_ledger db" and run: "claim_in_transaction worker duration target now s token db = Inr (db', r)"
  shows "ledger_frame {} db db'"
    and "r = Some c \<Longrightarrow> target = Some i \<Longrightarrow> lease_work_item_id (claimed_lease c) = i \<and> work_item_id (claimed_item c) = i
      \<and> (\<exists>w w'. item_of db i = Some w \<and> lease_epoch w < granted_epoch (claimed_lease c)
           \<and> item_of db' i = Some w' \<and> under_lease (claimed_lease c) w')"
proof -
  obtain db1 n where m: "maintain db now False = Inr (db1, n)"
    using run by (auto simp: claim_in_transaction_def result_simps)
  have f1: "ledger_frame {} db db1" by (rule frame_maintain [OF wf m])
  then have wf1: "wf_ledger db1" by (simp add: sched_frame_def)
  have "ledger_frame {} db1 db' \<and> (\<forall>c i. r = Some c \<longrightarrow> target = Some i \<longrightarrow>
      lease_work_item_id (claimed_lease c) = i \<and> work_item_id (claimed_item c) = i
      \<and> (\<exists>w w'. item_of db1 i = Some w \<and> lease_epoch w < granted_epoch (claimed_lease c)
           \<and> item_of db' i = Some w' \<and> under_lease (claimed_lease c) w'))"
  proof (cases "min_by dispatch_key (ready_candidates target db1)")
    case None
    with run m show ?thesis using sched_frame_refl [where ok = wf_ledger and l = db1] wf1
      by (auto simp: claim_in_transaction_def)
  next
    case (Some row)
    then have cl: "claim_row worker duration now s token row db1 = Inr (db', r)"
      using run m by (simp add: claim_in_transaction_def)
    note row = ready_candidate [OF wf1 Some]
    note res = claim_row_Inr [OF wf1 row(1,2) cl]
    let ?row = "row_claim (if s then RUNNING else LEASED) (lease_epoch row + 1) token worker
      (plus_seconds now duration) (attempt row + 1) now row"
    have it: "item_of db' j = (if j = work_item_id row then Some ?row else item_of db1 j)" for j
    proof -
      have "item_of db' j = item_of (upd_item (work_item_id row) (row_claim (if s then RUNNING else LEASED)
          (lease_epoch row + 1) token worker (plus_seconds now duration) (attempt row + 1) now) db1) j"
        by (simp add: res(1) claimed_ledger_def item_of_def)
      then show ?thesis by (simp add: item_of_upd row(1))
    qed
    have "ledger_frame {} db1 db'"
      using res(2) by (intro frame_row [OF wf1 _ row(1) it]) (simp_all add: row_sound_def row_quiet_def row_claim_def)
    moreover have "lease_work_item_id (claimed_lease c) = i \<and> work_item_id (claimed_item c) = i
      \<and> (\<exists>w w'. item_of db1 i = Some w \<and> lease_epoch w < granted_epoch (claimed_lease c)
           \<and> item_of db' i = Some w' \<and> under_lease (claimed_lease c) w')"
      if c: "r = Some c" "target = Some i" for c i
    proof -
      have i: "i = work_item_id row" using row(3) c(2) by simp
      obtain item where item: "load_item db' (work_item_id row) = Inr item" "claimed_item c = item"
        and lease: "claimed_lease c = \<lparr>lease_work_item_id = work_item_id row, worker_id = worker,
          granted_epoch = lease_epoch row + 1, granted_token = token, granted_expires_at = plus_seconds now duration\<rparr>"
        using res(3) c(1) by auto
      have "item = ?row" using item(1) it [of "work_item_id row"] by (simp add: result_simps)
      then show ?thesis
        using row(1) it [of "work_item_id row"] item(2)
        by (auto simp: i lease under_lease_def held_def row_claim_def leased_state_def)
    qed
    ultimately show ?thesis by blast
  qed
  note claim = this
  show "ledger_frame {} db db'" using f1 conjunct1 [OF claim] by (rule sched_frame_trans)
  assume "r = Some c" "target = Some i"
  then obtain w w' where c: "lease_work_item_id (claimed_lease c) = i" "work_item_id (claimed_item c) = i"
    and w: "item_of db1 i = Some w" "lease_epoch w < granted_epoch (claimed_lease c)"
    and w': "item_of db' i = Some w'" "under_lease (claimed_lease c) w'" using claim by blast
  obtain u where u: "item_of db i = Some u"
    using maintain_keeps_ids [OF wf m, of i] w(1) by (cases "item_of db i") auto
  then have "row_evolves u w" using f1 w(1) unfolding sched_frame_def by (metis option.inject)
  then have "lease_epoch u \<le> lease_epoch w" by (simp add: row_evolves_def)
  with u w w' c show "lease_work_item_id (claimed_lease c) = i \<and> work_item_id (claimed_item c) = i
      \<and> (\<exists>w w'. item_of db i = Some w \<and> lease_epoch w < granted_epoch (claimed_lease c)
           \<and> item_of db' i = Some w' \<and> under_lease (claimed_lease c) w')"
    by (meson le_less_trans)
qed


text \<open>Planning adds rows.\<close>

lemma planned_keeps: "item_of db i = Some w \<Longrightarrow> item_of (planned_ledger plan ds db) i = Some w"
  unfolding planned_ledger_def by (simp add: item_of_append)

lemma frame_plan:
  assumes wf: "wf_ledger db" and val: "validate_plan_dependencies plan ds = Inr u"
    and run: "plan_in_transaction plan ds refresh db = Inr (db', item)"
  shows "ledger_frame {} db db'"
  using run
proof (cases rule: plan_cases)
  case replay
  then show ?thesis using sched_frame_refl [where ok = wf_ledger and l = db] wf by simp
next
  case (fresh n)
  have step: "lstep db (planned_ledger plan ds db)" by (rule plan_insert_step [OF wf val fresh(1-4)])
  then have f1: "ledger_frame {} db (planned_ledger plan ds db)"
    by (intro frame_idle [OF wf]) (auto simp: planned_keeps)
  then have wf1: "wf_ledger (planned_ledger plan ds db)" by (simp add: sched_frame_def)
  have "ledger_frame {} (planned_ledger plan ds db) db'"
    using fresh(5) frame_cascade [OF wf1 refresh_work_ids_step [OF _ wf1]] sched_frame_refl [where ok = wf_ledger] wf1
    by (auto split: if_splits)
  with f1 show ?thesis by (rule sched_frame_trans)
qed

lemma frame_insert_plans:
  "insert_plans plans db = Inr db' \<Longrightarrow> validate_all_plans plans = Inr u \<Longrightarrow> wf_ledger db \<Longrightarrow> ledger_frame {} db db'"
proof (induction plans db rule: insert_plans.induct)
  case (1 db)
  then show ?case using sched_frame_refl [where ok = wf_ledger] by simp
next
  case (2 plan ds rest db)
  then obtain db1 item where p: "plan_in_transaction plan ds False db = Inr (db1, item)"
    and rest: "insert_plans rest db1 = Inr db'"
    and val: "validate_plan_dependencies plan ds = Inr ()" "validate_all_plans rest = Inr ()"
    by (auto simp: result_simps)
  have f: "ledger_frame {} db db1" by (rule frame_plan [OF 2(4) val(1) p])
  then have "ledger_frame {} db1 db'" using 2(1) [OF rest] val(2) by (simp add: sched_frame_def)
  with f show ?case by (rule sched_frame_trans)
qed

lemma frame_plan_many:
  assumes wf: "wf_ledger db"
  shows "ledger_frame {} db (fst (plan_many plans db))"
proof (cases "plans = [] \<or> validate_all_plans plans \<noteq> Inr ()")
  case True
  then show ?thesis using sched_frame_refl [where ok = wf_ledger and l = db] wf
    by (cases "validate_all_plans plans") (auto simp: plan_many_def)
next
  case False
  have "ledger_frame {} db db'"
    if run: "rbind (insert_plans plans db) (\<lambda>db1. rbind (refresh_planned_for_work_ids db1 t ids) (\<lambda>(db2, n).
      rbind (load_all db2 ids) (\<lambda>items. Inr (db2, items)))) = Inr (db', r)" for t ids db' r
  proof -
    obtain db1 n where i: "insert_plans plans db = Inr db1"
      and s: "refresh_planned_for_work_ids db1 t ids = Inr (db', n)"
      using run by (auto simp: result_simps)
    have f: "ledger_frame {} db db1" using frame_insert_plans [OF i _ wf] False by simp
    then have wf1: "wf_ledger db1" by (simp add: sched_frame_def)
    show ?thesis using f frame_cascade [OF wf1 refresh_work_ids_step [OF s wf1]] by (rule sched_frame_trans)
  qed
  with False show ?thesis by (auto simp: plan_many_def intro!: frame_transaction [OF wf])
qed

section \<open>Commands\<close>

lemma frame_direct_terminal:
  assumes wf: "wf_ledger db" and side: "terminal_state st" "st \<noteq> SUCCEEDED" "oc \<noteq> Attempt_ACTIVE"
  shows "ledger_frame {} db (fst (direct_terminal i st oc code detail c now db))"
  using frame_terminal(1) [OF wf _ side] sched_frame_refl [where ok = wf_ledger and l = db] wf
  by (auto simp: direct_terminal_def intro!: frame_transaction [OF wf] split: sum.splits)

lemma frame_claim_with:
  assumes wf: "wf_ledger db"
  shows "ledger_frame {} db (fst (claim_with s worker d target now token db))"
  using frame_claim(1) [OF wf] sched_frame_refl [where ok = wf_ledger and l = db] wf
  by (auto simp: claim_with_def intro!: frame_transaction [OF wf] split: sum.splits)

lemma frame_reconcile:
  assumes wf: "wf_ledger db"
  shows "ledger_frame {} db (fst (reconcile now db))"
  using frame_maintain [OF wf] by (auto simp: reconcile_def intro!: frame_transaction [OF wf])

lemma frame_heartbeat_call:
  assumes wf: "wf_ledger db" and run: "heartbeat lease d now db = (db', r)"
  shows "ledger_frame (if isl r then {} else {lease_work_item_id lease}) db db'"
proof (cases "positive_int d ''lease_duration_seconds''")
  case (Inl e)
  with run wf show ?thesis using sched_frame_refl [where ok = wf_ledger and l = db] by (auto simp: heartbeat_def)
next
  case (Inr u)
  then have "fenced_transaction (lease_work_item_id lease) now (heartbeat_in_transaction lease u now) db = (db', r)"
    using run by (simp add: heartbeat_def)
  with frame_heartbeat(1) [OF wf] show ?thesis by (rule frame_fenced [OF wf])
qed

lemma frame_succeed_call:
  assumes wf: "wf_ledger db" and run: "succeed lease ref sha now db = (db', r)"
  shows "ledger_frame (if isl r then {} else {lease_work_item_id lease}) db db'"
proof (cases "check_result ref sha")
  case (Inl e)
  with run wf show ?thesis using sched_frame_refl [where ok = wf_ledger and l = db] by (auto simp: succeed_def)
next
  case (Inr u)
  then have "fenced_transaction (lease_work_item_id lease) now (succeed_in_transaction lease ref sha now) db = (db', r)"
    using run by (simp add: succeed_def)
  with frame_succeed(1) [OF wf _ check_result_Inr [OF Inr]] show ?thesis by (rule frame_fenced [OF wf])
qed

lemma frame_fail_call:
  assumes wf: "wf_ledger db"
  shows "ledger_frame {} db (fst (fail lease code retryable detail delay now db))"
proof -
  obtain db' r where run: "fail lease code retryable detail delay now db = (db', r)" by force
  have "ledger_frame {} db db'"
  proof (cases "db' = db")
    case True
    then show ?thesis using sched_frame_refl [where ok = wf_ledger] wf by simp
  next
    case False
    then obtain c d s where "fenced_transaction (lease_work_item_id lease) now (fail_in_transaction lease c retryable d s now) db = (db', r)"
      using run by (auto simp: fail_def split: sum.splits)
    with frame_fail [OF wf] have "ledger_frame (if isl r then {} else {}) db db'" by (rule frame_fenced [OF wf])
    then show ?thesis by simp
  qed
  with run show ?thesis by simp
qed

lemma frame_start_call:
  assumes wf: "wf_ledger db"
  shows "ledger_frame {} db (fst (start lease now db))"
proof -
  obtain db' r where run: "start lease now db = (db', r)" by force
  then have "fenced_transaction (lease_work_item_id lease) now (start_in_transaction lease now) db = (db', r)"
    by (simp add: start_def)
  with frame_start [OF wf] have "ledger_frame (if isl r then {} else {}) db db'" by (rule frame_fenced [OF wf])
  with run show ?thesis by simp
qed


text \<open>A call under a lease that returned was made under the lease the row had.\<close>

lemma fenced_Inr: "fenced_transaction i now operation db = (db', Inr r) \<Longrightarrow> operation db = Inr (db', r)"
  by (auto simp: fenced_transaction_def transaction_def split: work_error.splits sum.splits prod.splits)

lemma heartbeat_Inr:
  assumes "heartbeat lease d now db = (db', Inr lease')"
  shows "\<exists>u. heartbeat_in_transaction lease u now db = Inr (db', lease')"
  using assms fenced_Inr by (fastforce simp: heartbeat_def split: sum.splits)

lemma succeed_Inr:
  assumes "succeed lease ref sha now db = (db', Inr item)"
  shows "succeed_in_transaction lease ref sha now db = Inr (db', item)" and "(ref = None) = (sha = None)"
  using assms fenced_Inr check_result_Inr by (fastforce simp: succeed_def split: sum.splits)+

lemma claim_call_Inr:
  assumes "claim_with s worker d target now token db = (db', Inr c)"
  shows "\<exists>wk u. claim_in_transaction wk u target now s token db = Inr (db', c)"
  using assms
  by (auto simp: claim_with_def transaction_def nonempty_def result_simps split: sum.splits option.splits if_splits) blast+

text \<open>The lease a command renews or completes a row under.\<close>

fun command_lease :: "command \<Rightarrow> WorkLease option" where
  "command_lease (Heartbeat lease d now) = Some lease"
| "command_lease (Succeed lease r s now) = Some lease"
| "command_lease c = None"

definition leased_rows :: "command \<Rightarrow> ledger \<Rightarrow> string set" where
  "leased_rows c db = {i. \<exists>lease w. command_lease c = Some lease \<and> i = lease_work_item_id lease
     \<and> item_of db i = Some w \<and> held lease w}"

lemma frame_leased_call:
  assumes "ledger_frame (if isl r then {} else {lease_work_item_id lease}) db db'"
    and "command_lease c = Some lease"
    and "\<not> isl r \<Longrightarrow> \<exists>w. item_of db (lease_work_item_id lease) = Some w \<and> held lease w"
  shows "ledger_frame (leased_rows c db) db db'"
  using assms(1)
proof (rule sched_frame_mono)
  show "(if isl r then {} else {lease_work_item_id lease}) \<subseteq> leased_rows c db"
    using assms(2,3) by (simp add: leased_rows_def)
qed

lemma command_frame:
  assumes wf: "wf_ledger db"
  shows "ledger_frame (leased_rows c db) db (run_command c db)"
proof -
  have quiet: ?thesis if "ledger_frame {} db (run_command c db)"
    using that by (rule sched_frame_mono) simp
  have refl: "ledger_frame {} db db" using wf by (rule sched_frame_refl)
  show ?thesis
  proof (cases c)
    case (Heartbeat lease d now)
    obtain db' r where run: "heartbeat lease d now db = (db', r)" by force
    have "\<exists>w. item_of db (lease_work_item_id lease) = Some w \<and> held lease w" if nl: "\<not> isl r"
    proof -
      obtain lease' where "r = Inr lease'" using nl by (cases r) auto
      then obtain u where "heartbeat_in_transaction lease u now db = Inr (db', lease')" using run heartbeat_Inr by blast
      then show ?thesis using frame_heartbeat(3) [OF wf] by blast
    qed
    with frame_leased_call [OF frame_heartbeat_call [OF wf run], of c] run Heartbeat show ?thesis by simp
  next
    case (Succeed lease ref sha now)
    obtain db' r where run: "succeed lease ref sha now db = (db', r)" by force
    have "\<exists>w. item_of db (lease_work_item_id lease) = Some w \<and> held lease w" if nl: "\<not> isl r"
    proof -
      obtain item where r: "r = Inr item" using nl by (cases r) auto
      from frame_succeed(2) [OF wf succeed_Inr [OF run [unfolded r]]] show ?thesis by (auto simp: under_lease_def)
    qed
    with frame_leased_call [OF frame_succeed_call [OF wf run], of c] run Succeed show ?thesis by simp
  next
    case (Plan p ds)
    have "ledger_frame {} db (fst (plan_op p ds db))"
      using frame_plan [OF wf] refl by (auto simp: plan_op_def intro!: frame_transaction [OF wf] split: sum.splits)
    with quiet Plan show ?thesis by simp
  next
    case (Skip i st code detail now)
    have "ledger_frame {} db (fst (skip i st code detail now db))"
      using frame_direct_terminal [OF wf] refl by (auto simp: skip_def)
    with quiet Skip show ?thesis by simp
  qed (use quiet frame_plan_many [OF wf] frame_reconcile [OF wf] frame_claim_with [OF wf] frame_start_call [OF wf]
      frame_fail_call [OF wf] frame_direct_terminal [OF wf] in \<open>simp_all add: cancel_def invalidate_def\<close>)
qed

section \<open>The contract holds\<close>

text \<open>
  What another client of the ledger may do: any command, but heartbeats and completions
  only under leases of its own.
\<close>

definition ledger_env :: "WorkLease set \<Rightarrow> ledger \<Rightarrow> ledger \<Rightarrow> bool" where
  "ledger_env T db db' \<longleftrightarrow> (\<exists>c. db' = run_command c db
     \<and> (\<forall>lease. command_lease c = Some lease \<longrightarrow> (\<forall>t \<in> T. \<not> same_grant t lease)))"

lemma ledger_env_frame:
  assumes "wf_ledger db" and "ledger_env T db db'"
  shows "ledger_frame (foreign_rows item_of T db) db db'"
proof -
  obtain c where c: "db' = run_command c db"
    and own: "\<forall>lease. command_lease c = Some lease \<longrightarrow> (\<forall>t \<in> T. \<not> same_grant t lease)"
    using assms(2) by (auto simp: ledger_env_def)
  have "leased_rows c db \<subseteq> foreign_rows item_of T db"
    using own by (auto simp: leased_rows_def foreign_rows_def held_def same_grant_def)
  with command_frame [OF assms(1), of c] show ?thesis unfolding c by (rule sched_frame_mono)
qed

lemma rows_to_items_Inr: "rows_to_items rs = Inr ws \<Longrightarrow> ws = rs"
  by (induction rs arbitrary: ws) (auto simp: result_simps item_from_row_def)

lemma items_for_run_rows:
  assumes "snd (items_for_run run db) = Inr ws" and "item_of db i = Some w" and "run_id w = run"
  shows "w \<in> set ws"
proof -
  obtain r where r: "rows_to_items (sort_key work_item_id (filter (\<lambda>w. run_id w = run) (work_items db))) = Inr r" "ws = r"
    using assms(1) by (auto simp: items_for_run_def read_only_def transaction_def result_simps nonempty_def split: sum.splits if_splits)
  have "w \<in> set (work_items db)" using assms(2) by (auto simp: item_of_def dest: find_row_Some)
  with assms(3) r rows_to_items_Inr [OF r(1)] show ?thesis by simp
qed

lemma read_only_fst [simp]: "fst (read_only operation db) = db"
  by (auto simp: read_only_def transaction_def result_simps split: sum.splits)

interpretation sq: durable_scheduler sqlite_work_scheduler item_of wf_ledger ledger_env
proof unfold_locales
  fix i run n and l :: ledger
  show "fst (ws_get sqlite_work_scheduler i l) = l" by (simp add: sqlite_work_scheduler_def get_item_def)
  show "fst (ws_items_for_run sqlite_work_scheduler run l) = l"
    by (simp add: sqlite_work_scheduler_def items_for_run_def split: sum.splits)
  show "fst (ws_ready_for_run sqlite_work_scheduler run n l) = l"
    by (auto simp: sqlite_work_scheduler_def ready_for_run_def split: sum.splits)
next
  fix l run ws i w
  assume "snd (ws_items_for_run sqlite_work_scheduler run l) = Inr ws" "item_of l i = Some w" "run_id w = run"
  then show "w \<in> set ws" by (simp add: sqlite_work_scheduler_def items_for_run_rows)
next
  fix l t worker d target token lease code retryable detail delay i assume wf: "wf_ledger l"
  show "ledger_frame {} l (fst (ws_reconcile sqlite_work_scheduler t l))"
    by (simp add: sqlite_work_scheduler_def frame_reconcile [OF wf])
  show "ledger_frame {} l (fst (ws_claim_and_start sqlite_work_scheduler worker d target t token l))"
    by (simp add: sqlite_work_scheduler_def claim_and_start_def frame_claim_with [OF wf])
  show "ledger_frame {} l (fst (ws_fail sqlite_work_scheduler lease code retryable detail delay t l))"
    by (simp add: sqlite_work_scheduler_def frame_fail_call [OF wf])
  show "ledger_frame {} l (fst (ws_cancel sqlite_work_scheduler i code detail t l))"
    by (simp add: sqlite_work_scheduler_def cancel_def frame_direct_terminal [OF wf])
next
  fix l lease d t l' r assume wf: "wf_ledger l"
  show "ws_heartbeat sqlite_work_scheduler lease d t l = (l', r) \<Longrightarrow>
      ledger_frame (if isl r then {} else {lease_work_item_id lease}) l l'"
    by (simp only: sqlite_work_scheduler_def DurableStreamWorkScheduler.simps frame_heartbeat_call [OF wf])
next
  fix l lease t l' and r :: "work_error + WorkItem" assume wf: "wf_ledger l"
  show "ws_succeed sqlite_work_scheduler lease t l = (l', r) \<Longrightarrow>
      ledger_frame (if isl r then {} else {lease_work_item_id lease}) l l'"
    by (simp only: sqlite_work_scheduler_def DurableStreamWorkScheduler.simps frame_succeed_call [OF wf])
next
  fix l worker d i t token l' c
  assume wf: "wf_ledger l" and run: "ws_claim_and_start sqlite_work_scheduler worker d (Some i) t token l = (l', Inr (Some c))"
  obtain wk u where "claim_in_transaction wk u (Some i) t True token l = Inr (l', Some c)"
    using run claim_call_Inr by (fastforce simp: sqlite_work_scheduler_def claim_and_start_def)
  from frame_claim(2) [OF wf this refl refl]
  show "lease_work_item_id (claimed_lease c) = i \<and> work_item_id (claimed_item c) = i
      \<and> (\<exists>w w'. item_of l i = Some w \<and> lease_epoch w < granted_epoch (claimed_lease c)
           \<and> item_of l' i = Some w' \<and> under_lease (claimed_lease c) w')" .
next
  fix l lease d t l' lease'
  assume wf: "wf_ledger l" and run: "ws_heartbeat sqlite_work_scheduler lease d t l = (l', Inr lease')"
  obtain u where "heartbeat_in_transaction lease u t l = Inr (l', lease')"
    using run heartbeat_Inr by (fastforce simp: sqlite_work_scheduler_def)
  from frame_heartbeat(2,3) [OF wf this]
  show "same_grant lease lease' \<and> (\<exists>w w'. item_of l (lease_work_item_id lease) = Some w \<and> held lease w
      \<and> item_of l' (lease_work_item_id lease) = Some w' \<and> under_lease lease' w')" ..
next
  fix l lease t l' item
  assume wf: "wf_ledger l" and run: "ws_succeed sqlite_work_scheduler lease t l = (l', Inr item)"
  then have "succeed lease None None t l = (l', Inr item)" by (simp add: sqlite_work_scheduler_def)
  from frame_succeed(2) [OF wf succeed_Inr [OF this]]
  show "\<exists>w w'. item_of l (lease_work_item_id lease) = Some w \<and> under_lease lease w \<and> state w = RUNNING
      \<and> item_of l' (lease_work_item_id lease) = Some w' \<and> state w' = SUCCEEDED \<and> lease_epoch w' = lease_epoch w" .
next
  fix l i code detail t l' item
  assume wf: "wf_ledger l" and run: "ws_cancel sqlite_work_scheduler i code detail t l = (l', Inr item)"
  then obtain c d where "terminal_in_transaction i CANCELLED Attempt_CANCELLED c d True t l = Inr (l', item)"
    by (auto simp: sqlite_work_scheduler_def cancel_def direct_terminal_def transaction_def split: sum.splits)
  from frame_terminal(2) [OF wf this] show "terminal_row item_of l' i" by simp
next
  fix l T l' show "wf_ledger l \<Longrightarrow> ledger_env T l l' \<Longrightarrow> ledger_frame (foreign_rows item_of T l) l l'"
    by (rule ledger_env_frame)
qed

end
