(* ===== verification/Delivery_Ledger.thy ===== *)
theory Delivery_Ledger
  imports Stream_Scheduler
begin

text \<open>
  How an item of the scheduler's ledger comes to be succeeded: only planning adds rows, no
  added row is succeeded, and an existing one becomes so by a success call under the lease it
  is held by, with the result of that call.
\<close>

section \<open>Which calls add rows\<close>

definition ids_of :: "ledger \<Rightarrow> string list" where
  "ids_of db = map work_item_id (work_items db)"

lemma ids_of_updates [simp]:
  "ids_of (upd_attempts q g db) = ids_of db"
  "(\<And>w. work_item_id (f w) = work_item_id w) \<Longrightarrow> ids_of (upd_items p f db) = ids_of db"
  by (simp_all add: ids_of_def)

lemma item_of_ids: "item_of db i = None \<longleftrightarrow> i \<notin> set (ids_of db)"
  by (auto simp: ids_of_def item_of_def)

lemma ids_finish: "finish_attempt db item oc now c d = Inr db' \<Longrightarrow> ids_of db' = ids_of db"
  by (auto simp: finish_attempt_def split: if_splits)

lemma ids_terminal: "set_terminal db item st now c d ref sha x = Inr db' \<Longrightarrow> ids_of db' = ids_of db"
  by (auto simp: set_terminal_def Let_def split: if_splits)

lemma ids_advance: "advance_planned_item db i now = Inr (db', r) \<Longrightarrow> ids_of db' = ids_of db"
  by (auto simp: advance_planned_item_def result_simps Let_def dest: ids_terminal split: if_splits)

lemma ids_refresh_pending: "refresh_pending db now is q n = Inr (db', m) \<Longrightarrow> ids_of db' = ids_of db"
  by (induction db now "is" q n rule: refresh_pending.induct)
    (auto dest: ids_advance split: sum.splits option.splits if_splits prod.splits)

lemma ids_refresh_ids: "refresh_planned_for_work_ids db now is = Inr (db', m) \<Longrightarrow> ids_of db' = ids_of db"
  by (auto simp: refresh_planned_for_work_ids_def Let_def dest: ids_refresh_pending)

lemma ids_refresh_downstream:
  "refresh_downstream_for_upstreams db now is = Inr (db', m) \<Longrightarrow> ids_of db' = ids_of db"
  by (auto simp: refresh_downstream_for_upstreams_def dest: ids_refresh_ids)

lemma ids_refresh_pass: "refresh_pass now is db n = Inr (db', m) \<Longrightarrow> ids_of db' = ids_of db"
  by (induction "is" arbitrary: db n) (auto dest: ids_advance split: sum.splits option.splits prod.splits)

lemma ids_refresh_planned: "refresh_planned db now n = Inr (db', m) \<Longrightarrow> ids_of db' = ids_of db"
proof (induction db now n rule: refresh_planned.induct)
  case (1 db now n)
  obtain db1 k where p: "refresh_pass now (planned_ids db) db 0 = Inr (db1, k)"
    using "1.prems" by (auto simp: refresh_planned.simps [of db] split: sum.splits)
  have "ids_of db' = ids_of db1"
    using "1.IH" [OF p] "1.prems" p by (cases "k = 0") (auto simp: refresh_planned.simps [of db])
  with ids_refresh_pass [OF p] show ?case by simp
qed

lemmas ids_parts = ids_finish ids_terminal ids_refresh_downstream

lemma ids_expire_row: "expire_row now row s = Inr t \<Longrightarrow> ids_of (fst t) = ids_of (fst s)"
  by (auto simp: expire_row_def result_simps dest!: ids_parts split: if_splits prod.splits)

lemma ids_recover_row: "recover_row now row s = Inr t \<Longrightarrow> ids_of (fst t) = ids_of (fst s)"
  by (auto simp: recover_row_def result_simps Let_def dest!: ids_parts split: if_splits prod.splits)

lemma ids_sweep:
  assumes "fold_res f rows (db, 0) = Inr (db', n :: nat)"
    and "\<And>row s t. f row s = Inr t \<Longrightarrow> ids_of (fst t) = ids_of (fst s)"
  shows "ids_of db' = ids_of db"
  using fold_res_invariant [OF assms(1), of "\<lambda>s. ids_of (fst s) = ids_of db"] assms(2) by auto

lemma ids_expire: "expire_hard_deadlines db now target = Inr (db', n) \<Longrightarrow> ids_of db' = ids_of db"
  unfolding expire_hard_deadlines_def Let_def by (erule ids_sweep) (rule ids_expire_row)

lemma ids_recover: "recover_expired_leases db now target = Inr (db', n) \<Longrightarrow> ids_of db' = ids_of db"
  unfolding recover_expired_leases_def Let_def by (erule ids_sweep) (rule ids_recover_row)

lemma ids_maintain: "maintain db now b = Inr (db', n) \<Longrightarrow> ids_of db' = ids_of db"
  by (auto simp: maintain_def result_simps Let_def row_retry_due_def split: if_splits
      dest!: ids_expire ids_recover ids_refresh_planned)

lemma ids_transaction:
  assumes "\<And>db' r. operation db = Inr (db', r) \<Longrightarrow> ids_of db' = ids_of db"
  shows "ids_of (fst (transaction operation db)) = ids_of db"
  using assms by (auto simp: transaction_def split: sum.splits)

lemma ids_exact: "reconcile_exact_due_state i now db = Inr (db', n) \<Longrightarrow> ids_of db' = ids_of db"
  by (auto simp: reconcile_exact_due_state_def result_simps Let_def split: if_splits
      dest!: ids_expire ids_recover ids_refresh_downstream)

lemma ids_fenced:
  assumes "\<And>db' r. operation db = Inr (db', r) \<Longrightarrow> ids_of db' = ids_of db"
  shows "ids_of (fst (fenced_transaction i now operation db)) = ids_of db"
proof -
  have "ids_of (fst (transaction operation db)) = ids_of db"
    "ids_of (fst (transaction (reconcile_exact_due_state i now) db)) = ids_of db"
    using ids_transaction assms ids_exact by blast+
  then show ?thesis
    by (auto simp: fenced_transaction_def transaction_def split: sum.splits prod.splits work_error.splits)
qed

lemma ids_leased:
  "start_in_transaction lease now db = Inr (db', r) \<Longrightarrow> ids_of db' = ids_of db"
  "heartbeat_in_transaction lease d now db = Inr (db', r2) \<Longrightarrow> ids_of db' = ids_of db"
  "succeed_in_transaction lease ref sha now db = Inr (db', r3) \<Longrightarrow> ids_of db' = ids_of db"
  "fail_in_transaction lease code rt detail delay now db = Inr (db', r4) \<Longrightarrow> ids_of db' = ids_of db"
  by (auto simp: start_in_transaction_def heartbeat_in_transaction_def succeed_in_transaction_def
      fail_in_transaction_def result_simps Let_def row_start_def row_heartbeat_def row_retry_wait_def
      split: if_splits dest!: ids_parts ids_maintain)

lemma ids_forced:
  assumes "terminal_in_transaction i st oc code detail c now db = Inr (db', r)"
  shows "ids_of db' = ids_of db"
proof -
  obtain db1 n1 db2 n2 item where e: "expire_hard_deadlines db now (Some i) = Inr (db1, n1)"
    and v: "recover_expired_leases db1 now (Some i) = Inr (db2, n2)" and item: "item_of db2 i = Some item"
    using assms by (auto simp: terminal_in_transaction_def result_simps)
  have "ids_of db' = ids_of db2"
  proof (cases "state item = st")
    case True
    with assms e v item show ?thesis by (auto simp: terminal_in_transaction_def result_simps split: if_splits)
  next
    case False
    obtain db3 db4 db5 n k where
      f: "(if state item \<in> {LEASED, RUNNING} then finish_attempt db2 item oc now (Some code) detail else Inr db2) = Inr db3"
      and rest: "set_terminal db3 item st now (Some code) detail None None c = Inr db4"
      "refresh_downstream_for_upstreams db4 now [work_item_id item] = Inr (db5, n)" "maintain db5 now False = Inr (db', k)"
      using assms e v item False by (auto simp: terminal_in_transaction_def result_simps split: if_splits)
    have "ids_of db3 = ids_of db2" using f ids_finish by (auto split: if_splits)
    then show ?thesis using ids_terminal [OF rest(1)] ids_refresh_downstream [OF rest(2)] ids_maintain [OF rest(3)] by simp
  qed
  then show ?thesis using ids_expire [OF e] ids_recover [OF v] by simp
qed

lemma ids_claim:
  assumes "claim_in_transaction worker d target now s token db = Inr (db', r)"
  shows "ids_of db' = ids_of db"
proof -
  have row: "ids_of db2 = ids_of db1" if "claim_row worker d now s token w db1 = Inr (db2, x)" for w db1 db2 x
    using that by (auto simp: claim_row_def result_simps Let_def row_claim_def ids_of_def split: if_splits)
  obtain db1 n where m: "maintain db now False = Inr (db1, n)"
    using assms by (auto simp: claim_in_transaction_def result_simps)
  then show ?thesis using assms ids_maintain [OF m] row
    by (cases "min_by dispatch_key (ready_candidates target db1)") (auto simp: claim_in_transaction_def)
qed

lemma command_ids:
  assumes "\<And>p ds. c \<noteq> Plan p ds" and "\<And>ps. c \<noteq> Plan_many ps"
  shows "ids_of (run_command c db) = ids_of db"
proof (cases c)
  case (Reconcile now)
  then show ?thesis by (simp add: reconcile_def ids_transaction ids_maintain)
next
  case (Claim s worker d target now token)
  then show ?thesis by (auto simp: claim_with_def intro!: ids_transaction dest: ids_claim split: sum.splits)
next
  case (Skip i st code detail now)
  then show ?thesis by (auto simp: skip_def direct_terminal_def intro!: ids_transaction dest: ids_forced split: sum.splits)
qed (use assms in \<open>auto simp: start_def heartbeat_def succeed_def fail_def cancel_def invalidate_def direct_terminal_def
      intro!: ids_fenced ids_transaction dest: ids_leased ids_forced split: sum.splits\<close>)

section \<open>How items succeed\<close>

lemma planned_births:
  assumes "plan_in_transaction plan ds refresh db = Inr (db', item)" and "wf_ledger db"
    and "validate_plan_dependencies plan ds = Inr u" and "item_of db i = None" and "item_of db' i = Some w"
  shows "state w \<noteq> SUCCEEDED"
  using assms(1)
proof (cases rule: plan_cases)
  case (fresh n)
  let ?db = "planned_ledger plan ds db"
  have wf: "wf_ledger ?db" by (rule lstep_wf [OF plan_insert_step [OF assms(2,3) fresh(1-4)] assms(2)])
  have born: "item_of ?db i = Some v \<Longrightarrow> state v \<noteq> SUCCEEDED" for v
    using assms(4) by (auto simp: planned_ledger_def item_of_append split: if_splits)
  have "cascade ?db db'"
    using fresh(5) refresh_work_ids_step [OF _ wf] by (auto split: if_splits)
  then show ?thesis by (rule cascade_cases [of _ _ i]) (use assms(5) born in auto)
qed (use assms(4,5) in simp)

lemma inserted_births:
  assumes "insert_plans plans db = Inr db'" and "validate_all_plans plans = Inr u" and "wf_ledger db"
    and "item_of db i = None" and "item_of db' i = Some w"
  shows "state w \<noteq> SUCCEEDED"
  using assms
proof (induction plans db rule: insert_plans.induct)
  case (2 plan ds rest db)
  then obtain db1 item where p: "plan_in_transaction plan ds False db = Inr (db1, item)"
    and rest: "insert_plans rest db1 = Inr db'"
    and val: "validate_plan_dependencies plan ds = Inr ()" "validate_all_plans rest = Inr ()"
    by (auto simp: result_simps)
  have wf: "wf_ledger db1" using frame_plan [OF "2.prems"(3) val(1) p] by (simp add: sched_frame_def)
  show ?case
  proof (cases "item_of db1 i")
    case None
    then show ?thesis using "2.IH" rest val(2) wf p "2.prems"(5) by simp
  next
    case (Some v)
    have "state v \<noteq> SUCCEEDED" by (rule planned_births [OF p "2.prems"(3) val(1) "2.prems"(4) Some])
    moreover have "row_quiet v w"
      using frame_insert_plans [OF rest val(2) wf] Some "2.prems"(5) unfolding sched_frame_def by force
    ultimately show ?thesis by (auto simp: row_quiet_def)
  qed
qed simp

text \<open>No call adds a row that is succeeded.\<close>

lemma command_births:
  assumes wf: "wf_ledger db" and "item_of db i = None" and "item_of (run_command c db) i = Some w"
  shows "state w \<noteq> SUCCEEDED"
proof (cases c)
  case (Plan p ds)
  then show ?thesis
    using assms planned_births [OF _ wf _ assms(2)]
    by (auto simp: plan_op_def transaction_def split: sum.splits)
next
  case (Plan_many ps)
  show ?thesis
  proof (cases "fst (plan_many ps db) = db")
    case True
    then show ?thesis using assms(2,3) Plan_many by simp
  next
    case False
    then obtain db1 n db2 t "is" where parts: "insert_plans ps db = Inr db1" "validate_all_plans ps = Inr ()"
      "refresh_planned_for_work_ids db1 t is = Inr (db2, n)" "fst (plan_many ps db) = db2"
      by (auto simp: plan_many_def transaction_def result_simps split: sum.splits if_splits)
    have wf1: "wf_ledger db1" using frame_insert_plans [OF parts(1,2) wf] by (simp add: sched_frame_def)
    have "cascade db1 db2" using refresh_work_ids_step [OF parts(3) wf1] by blast
    then show ?thesis
      by (rule cascade_cases [of _ _ i])
        (use inserted_births [OF parts(1,2) wf assms(2)] assms(3) parts(4) Plan_many in auto)
  qed
qed (use command_ids [of c db] assms(2,3) item_of_ids [of db i] item_of_ids [of "run_command c db" i] in \<open>simp_all\<close>)


lemma succeed_row:
  assumes wf: "wf_ledger db" and run: "succeed lease ref sha now db = (db', Inr r)"
  shows "\<exists>item. item_of db (lease_work_item_id lease) = Some item \<and> under_lease lease item
    \<and> r = row_terminal SUCCEEDED now None None ref sha False item \<and> item_of db' (lease_work_item_id lease) = Some r"
proof -
  note tx = succeed_Inr [OF run]
  obtain item where rl: "require_lease db lease now = Inr item"
    using tx(1) by (auto simp: succeed_in_transaction_def result_simps)
  note item = require_lease_Inr [OF rl]
  obtain db1 db2 db3 n k where parts: "finish_attempt db item Attempt_SUCCEEDED now None None = Inr db1"
    "set_terminal db1 item SUCCEEDED now None None ref sha False = Inr db2"
    "refresh_downstream_for_upstreams db2 now [work_item_id item] = Inr (db3, n)"
    "maintain db3 now False = Inr (db', k)" and ld: "load_item db' (work_item_id item) = Inr r"
    using tx(1) rl by (auto simp: succeed_in_transaction_def result_simps split: if_splits)
  have it: "item_of db (work_item_id item) = Some item" using item(1,3) by simp
  have row: "item_of db' (work_item_id item) = Some (row_terminal SUCCEEDED now None None ref sha False item)"
    using frame_finish(2) [OF wf it item(4) parts] tx(2) by simp
  moreover have "under_lease lease item" using item(2) by (rule lease_current_under)
  ultimately show ?thesis using item(1,3) ld by (auto simp: result_simps)
qed

lemma heartbeat_not_success:
  assumes wf: "wf_ledger db" and "item_of db i = Some w" and "item_of (fst (heartbeat lease d now db)) i = Some w'"
    and "state w' = SUCCEEDED"
  shows "w' = w"
proof -
  obtain db' r where run: "heartbeat lease d now db = (db', r)" by force
  show ?thesis
  proof (cases "\<not> isl r \<and> i = lease_work_item_id lease")
    case True
    then obtain lease' where "r = Inr lease'" by (cases r) auto
    then obtain u where "heartbeat_in_transaction lease u now db = Inr (db', lease')" using run heartbeat_Inr by blast
    then have "leased_state (state w')"
      using frame_heartbeat(3) [OF wf] assms(3) run True by (fastforce simp: under_lease_def held_def)
    then show ?thesis using assms(4) by simp
  next
    case False
    have "i \<in> (if isl r then {} else {lease_work_item_id lease}) \<or> row_quiet w w'"
      using frame_heartbeat_call [OF wf run] assms(2,3) run unfolding sched_frame_def by force
    then show ?thesis using False assms(4) by (auto simp: row_quiet_def split: if_splits)
  qed
qed

lemma command_success:
  assumes wf: "wf_ledger db" and row: "item_of (run_command c db) i = Some w'" and st: "state w' = SUCCEEDED"
  obtains (old) "item_of db i = Some w'"
  | (succeeded) lease ref sha now w where "c = Succeed lease ref sha now" "i = lease_work_item_id lease"
      "item_of db i = Some w" "held lease w" "result_reference w' = ref" "result_sha256 w' = sha"
proof (cases "item_of db i")
  case None
  then show ?thesis using command_births [OF wf None row] st by simp
next
  case (Some w)
  have frame: "i \<in> leased_rows c db \<or> row_quiet w w'"
    using command_frame [OF wf, of c] Some row unfolding sched_frame_def by force
  show ?thesis
  proof (cases "\<exists>lease ref sha now. c = Succeed lease ref sha now")
    case True
    then obtain lease ref sha now where c: "c = Succeed lease ref sha now" by blast
    obtain db' r where run: "succeed lease ref sha now db = (db', r)" by force
    show ?thesis
    proof (cases "\<not> isl r \<and> i = lease_work_item_id lease")
      case True
      then obtain x where "r = Inr x" by (cases r) auto
      with succeed_row [OF wf run [unfolded this]] row run c True Some
      show ?thesis by (intro succeeded [OF c]) (auto simp: under_lease_def row_terminal_def)
    next
      case False
      have "i \<in> (if isl r then {} else {lease_work_item_id lease}) \<or> row_quiet w w'"
        using frame_succeed_call [OF wf run] Some row run c unfolding sched_frame_def by force
      then have "w' = w" using False st by (auto simp: row_quiet_def split: if_splits)
      with Some old show ?thesis by simp
    qed
  next
    case False
    have "w' = w"
    proof (cases "\<exists>lease d now. c = Heartbeat lease d now")
      case True
      then show ?thesis using heartbeat_not_success [OF wf Some _ st] row by auto
    next
      case other: False
      then have "leased_rows c db = {}" using False by (cases c) (auto simp: leased_rows_def)
      then show ?thesis using frame st by (simp add: row_quiet_def)
    qed
    with Some old show ?thesis by simp
  qed
qed

text \<open>A batch that was planned has its rows.\<close>

lemma load_all_items: "load_all db is = Inr ws \<Longrightarrow> i \<in> set is \<Longrightarrow> item_of db i \<noteq> None"
  by (induction "is" arbitrary: ws) (auto simp: result_simps)

lemma plan_many_items:
  assumes "plan_many ps db = (db', Inr items)" and "p \<in> set ps"
  shows "item_of db' (work_item_id (fst p)) \<noteq> None"
proof -
  have "ps \<noteq> []" using assms(2) by auto
  then have "load_all db' (map (work_item_id \<circ> fst) ps) = Inr items"
    using assms(1) by (auto simp: plan_many_def transaction_def result_simps split: sum.splits if_splits)
  from load_all_items [OF this] show ?thesis using assms(2) by auto
qed


end
