(* ===== verification/Stream_Ledger_Properties.thy ===== *)
theory Stream_Ledger_Properties
  imports Stream_Refinement
begin

text \<open>
  The properties of the stream work ledger, over the calls of \<open>Stream_Ledger\<close>: its invariant,
  that recorded facts are final, exact replays, the seal, fair admission, the fences, the
  provenance of accepted evidence and the two projections of the hot path.
\<close>

section \<open>Views of a later database\<close>

lemma later_plan:
  assumes "stream_evolves db db'" and "plan_row db k = Some p"
  obtains p' where "plan_row db' k = Some p'" "plan_evolves p p'"
  using assms unfolding stream_evolves_def plans_evolve_def by meson

lemma later_work:
  assumes "stream_evolves db db'" and "work_row db i = Some w"
  obtains w' where "work_row db' i = Some w'" "work_evolves w w'"
    "sw_publication_state w = GATED \<and> sw_publication_state w' \<noteq> GATED \<longrightarrow>
      (\<exists>p. plan_row db' (sw_plan_key w) = Some p \<and> sp_terminal_closure_json p \<noteq> None)"
  using assms unfolding stream_evolves_def works_evolve_def by meson

lemma later_controller:
  assumes "stream_evolves db db'" and "controller_row db k c = Some r"
  obtains r' where "controller_row db' k c = Some r'" "controller_evolves r r'"
  using assms unfolding stream_evolves_def controllers_evolve_def by meson

lemma later_item:
  assumes "stream_evolves db db'" and "item_of (authority db) i = Some w"
  obtains w' where "item_of (authority db') i = Some w'" "row_evolves w w'"
  using assms unfolding stream_evolves_def evolves_def by meson

lemma later_windows:
  assumes "stream_evolves db db'"
  obtains ys zs where "windows_of db' k = ys @ zs" "list_all2 window_evolves (windows_of db k) ys"
    "planner_ended db k \<longrightarrow> zs = []"
  using assms unfolding stream_evolves_def windows_evolve_def by meson

lemma later_window:
  assumes "stream_evolves db db'" and "wf_windows db'" and "window_row db k n = Some w"
  obtains w' where "window_row db' k n = Some w'" "window_evolves w w'"
proof -
  obtain ys zs where yz: "windows_of db' k = ys @ zs" "list_all2 window_evolves (windows_of db k) ys"
    using later_windows [OF assms(1)] by metis
  note w = window_rowD [OF assms(3)]
  then obtain w' where w': "w' \<in> set ys" "window_evolves w w'"
    using yz(2) by (metis in_set_conv_nth list_all2_conv_all_nth)
  then have "window_row db' k (ew_ordinal w') = Some w'"
    using window_row_unique [OF assms(2)] yz(1) by simp
  with w' w(2) that show thesis by (simp add: window_evolves_def)
qed

section \<open>Exact replays\<close>






definition new_role_key :: "NewStreamWorkPlan \<Rightarrow> int \<times> string" where
  "new_role_key n = (nw_role_order n, nw_work_item_id n)"


lemma role_key_new [simp]: "role_key (new_work_row k n) = new_role_key n"
  by (simp add: role_key_def new_role_key_def new_work_row_def)







lemma append_windows_Inr:
  assumes "append_windows k ws c v db = (db', Inr flags)" and "ws \<noteq> []"
  shows "validate_batch ws c v = Inr ()" and "append_in_transaction k ws c v db = Inr (db', flags)"
  using assms by (auto simp: append_windows_def run_write_Inr split: sum.splits)


section \<open>The machine, its invariant and its facts\<close>

lemma read_row [result_simps]:
  "snd (get_plan k db) = Inr p \<longleftrightarrow> plan_row db k = Some p"
  "snd (window_at k n db) = Inr (Some w) \<longleftrightarrow> window_row db k n = Some w"
  "snd (get_work i db) = Inr s \<longleftrightarrow> work_row db i = Some s"
  by (auto simp: get_plan_def window_at_def get_work_def run_read_def split: option.splits)





text \<open>
  C24. Recorded facts are final. After any later calls a registered plan reads back with the
  same pins and every fact already set (end of stream, seal, closure, export barrier); a
  window with the same bytes and, once it has one, the same terminal member; a work row with
  the same identity and plan bytes, the same accepted evidence once there is one, and never
  at an earlier stage of its publication.
\<close>

theorem stream_facts_final:
  assumes "stream_reachable db" and "list_all client_ok cs" and "db' = run_stream_commands cs db"
  shows "(snd (get_plan k db) = Inr p \<longrightarrow> (\<exists>p'. snd (get_plan k db') = Inr p' \<and> plan_evolves p p'))
    \<and> (snd (window_at k n db) = Inr (Some w) \<longrightarrow>
        (\<exists>w'. snd (window_at k n db') = Inr (Some w') \<and> window_evolves w w'))
    \<and> (snd (get_work i db) = Inr s \<longrightarrow> (\<exists>s'. snd (get_work i db') = Inr s' \<and> work_evolves s s'))"
proof (intro conjI impI)
  note ev = later_evolves [OF assms(1,2), folded assms(3)]
  have wf: "wf_windows db'"
    using stream_reachable_wf [OF stream_reachable_commands [OF assms(1,2)]] assms(3) by (simp add: wf_stream_def)
  show "\<exists>p'. snd (get_plan k db') = Inr p' \<and> plan_evolves p p'" if "snd (get_plan k db) = Inr p"
    using that unfolding read_row by (blast elim: later_plan [OF ev])
  show "\<exists>w'. snd (window_at k n db') = Inr (Some w') \<and> window_evolves w w'" if "snd (window_at k n db) = Inr (Some w)"
    using that unfolding read_row by (blast elim: later_window [OF ev wf])
  show "\<exists>s'. snd (get_work i db') = Inr s' \<and> work_evolves s s'" if "snd (get_work i db) = Inr s"
    using that unfolding read_row by (blast elim: later_work [OF ev])
qed

section \<open>A stream, for the witnesses\<close>

definition ex_work :: "string \<Rightarrow> int \<Rightarrow> int option \<Rightarrow> PublicationState \<Rightarrow> NewStreamWorkPlan" where
  "ex_work i r n st = \<lparr>nw_work_item_id = i, nw_work_logical_key = i @ ''-key'', nw_expected_ordinal = n,
     nw_role_order = r, nw_stage = (if n = None then ''RECORDING_FINALIZATION'' else ''WINDOW''),
     nw_plan_json = ''plan-'' @ i, nw_publication_state = st\<rparr>"

definition ex_window :: "string \<Rightarrow> int \<Rightarrow> NewStreamWindow" where
  "ex_window i n = \<lparr>nwin_ordinal = n, nwin_declaration_json = ''declared-'' @ i, nwin_window_json = ''window-'' @ i,
     nwin_work_plans = [ex_work i 0 (Some n) PENDING]\<rparr>"

definition ex_stream :: stream_db where
  "ex_stream = run_stream_commands [Register_plan ''p'' ''{}'' ''{}'' ''{}'',
     Append_windows ''p'' [ex_window ''a'' 0] None None] empty_stream_db"

lemma ex_stream_reachable: "stream_reachable ex_stream"
  unfolding stream_reachable_def ex_stream_def by (rule exI, rule conjI [OF _ refl]) simp

theorem stream_facts_final_witness:
  "\<exists>s'. snd (get_work ''a'' (run_stream_commands [Mark_published ''a''] ex_stream)) = Inr s'
     \<and> work_evolves (the (work_row ex_stream ''a'')) s'"
proof -
  have "snd (get_work ''a'' ex_stream) = Inr (the (work_row ex_stream ''a''))" by code_simp
  then show ?thesis
    using stream_facts_final [OF ex_stream_reachable _ refl, of "[Mark_published ''a'']"] by simp
qed



section \<open>The seal and the gate\<close>

lemma declaration_rows_of:
  assumes "wf_windows db"
  shows "declaration_rows db k = windows_of db k"
proof -
  have "sorted (map ew_ordinal (windows_of db k))"
    using spec [OF assms [unfolded wf_windows_def], of k] by (simp add: sorted_map sorted_wrt_mono_rel)
  from sort_key_id_if_sorted [OF this] show ?thesis by (simp add: declaration_rows_def windows_of_def)
qed

lemma sealed_windows:
  assumes wf: "wf_stream db" and ev: "stream_evolves db db'" and "planner_ended db k"
  shows "map ew_declaration_json (windows_of db' k) = map ew_declaration_json (windows_of db k)"
proof -
  obtain ys zs where yz: "windows_of db' k = ys @ zs" "list_all2 window_evolves (windows_of db k) ys"
    "planner_ended db k \<longrightarrow> zs = []"
    by (rule later_windows [OF ev])
  have "map ew_declaration_json ys = map ew_declaration_json (windows_of db k)"
    using yz(2) by (induction rule: list_all2_induct) (auto simp: window_evolves_def)
  then show ?thesis using yz(1,3) assms(3) by simp
qed

lemma seal_recorded:
  assumes wf: "wf_stream db" and tx: "seal_in_transaction k s ds f db = Inr (db1, b)"
  shows "planner_ended db k" and "map ew_declaration_json (windows_of db k) = ds"
    and "\<exists>q. plan_row db1 k = Some q \<and> sp_seal_json q = Some s"
proof -
  obtain p where p: "plan_row db k = Some p" "sp_planner_eos_sha256 p \<noteq> None"
    "map ew_declaration_json (declaration_rows db k) = ds"
    and fresh: "b \<Longrightarrow> sp_seal_json p = None \<and> insert_work k f (upd_plan k (\<lambda>p. p\<lparr>sp_seal_json := Some s\<rparr>) db) = Inr db1"
    and known: "\<not> b \<Longrightarrow> sp_seal_json p = Some s \<and> db1 = db \<and> verify_existing_work_rows db k None [f] = Inr ()"
    using seal_in_transaction_Inr [OF tx] by blast
  show "planner_ended db k" using p by (simp add: planner_ended_def)
  show "map ew_declaration_json (windows_of db k) = ds"
    using p(3) declaration_rows_of [OF wf_streamD(3) [OF wf]] by simp
  show "\<exists>q. plan_row db1 k = Some q \<and> sp_seal_json q = Some s"
  proof (cases b)
    case True
    then have "stream_plans db1 = stream_plans (upd_plan k (\<lambda>p. p\<lparr>sp_seal_json := Some s\<rparr>) db)"
      using fresh by (auto simp: insert_work_Inr)
    from views_cong(1) [OF this] show ?thesis
      using p(1) plan_row_upd [of "\<lambda>p. p\<lparr>sp_seal_json := Some s\<rparr>" k db k] by simp
  qed (use known p(1) in simp)
qed

lemma sealed_append:
  assumes wf: "wf_stream db" and q: "plan_row db k = Some q" "sp_seal_json q \<noteq> None"
    and app: "snd (append_windows k ws c v db) = Inr flags"
  shows "True \<notin> set flags"
proof (cases "ws = []")
  case False
  obtain db3 where a: "append_windows k ws c v db = (db3, Inr flags)" using app by (metis prod.collapse)
  note val = append_windows_Inr [OF a False]
  from append_in_transaction_Inr [OF val(2) wf validate_batch_Inr(2) [OF val(1)]]
  have "list_all2 (scanned db k q) ws flags" using q(1) by (metis option.inject)
  then show ?thesis using q(2) by (auto simp: list_all2_conv_all_nth in_set_conv_nth scanned_def)
qed (use app in \<open>simp add: append_windows_def\<close>)

text \<open>
  C27. A seal is complete and final. When \<open>store_seal_and_finalization\<close> returns, then after any
  later calls the windows of the plan are exactly those whose declarations it was given, in
  that order, numbered from 0; the plan keeps that seal; and no window can be appended any more.
\<close>

theorem seal_complete:
  assumes "stream_reachable db" and "store_seal_and_finalization k s ds f db = (db1, Inr b)"
    and "nw_expected_ordinal f = None" and "list_all client_ok cs" and "db2 = run_stream_commands cs db1"
  shows "(\<exists>ws. snd (windows k db2) = Inr ws \<and> map ew_declaration_json ws = ds \<and> map ew_ordinal ws = map int [0..<length ds])
    \<and> (\<exists>p. snd (get_plan k db2) = Inr p \<and> sp_seal_json p = Some s)
    \<and> (snd (append_windows k ws c v db2) = Inr flags \<longrightarrow> True \<notin> set flags)"
proof -
  note wf = stream_reachable_wf [OF assms(1)]
  have tx: "seal_in_transaction k s ds f db = Inr (db1, b)"
    using assms(2) by (simp add: store_seal_and_finalization_def run_write_Inr)
  note rec = seal_recorded [OF wf tx]
  have r1: "stream_reachable db1"
    using stream_reachable_commands [OF assms(1), of "[Store_seal k s ds f]"] assms(2,3)
    by (simp add: run_stream_commands_def)
  have wf2: "wf_stream db2"
    using stream_reachable_wf [OF stream_reachable_commands [OF r1 assms(4)]] assms(5) by simp
  have ev1: "stream_evolves db db1"
    using steps_evolves [OF seal_steps [OF wf assms(3), of k s ds] wf] assms(2) by simp
  note ev2 = later_evolves [OF r1 assms(4), folded assms(5)]
  have decl: "map ew_declaration_json (windows_of db2 k) = ds"
    using sealed_windows [OF wf stream_evolves_trans [OF ev1 ev2] rec(1)] rec(2) by simp
  have rows: "windows k db2 = (db2, Inr (windows_of db2 k))"
    using declaration_rows_of [OF wf_streamD(3) [OF wf2], of k]
    by (simp add: windows_def run_read_def declaration_rows_def)
  have "length (windows_of db2 k) = length ds" using decl by auto
  then have ords: "map ew_ordinal (windows_of db2 k) = map int [0..<length ds]"
    using spec [OF wf_streamD(3) [OF wf2, unfolded wf_windows_def], of k] by simp
  obtain q where q: "plan_row db2 k = Some q" "sp_seal_json q = Some s"
    using rec(3) later_plan [OF ev2] unfolding plan_evolves_def kept_def by (metis option.distinct(1))
  then show ?thesis using rows decl ords sealed_append [OF wf2 q(1)] unfolding read_row by auto
qed

definition ex_sealed :: "stream_command list" where
  "ex_sealed = [Set_planner_eos ''p'' ''d'']"

theorem seal_complete_witness:
  "\<exists>p. snd (get_plan ''p'' (run_stream_commands [Mark_published ''a'']
      (fst (store_seal_and_finalization ''p'' ''seal'' [''declared-a''] (ex_work ''f'' 5 None GATED)
        (run_stream_commands ex_sealed ex_stream))))) = Inr p \<and> sp_seal_json p = Some ''seal''"
proof -
  let ?db = "run_stream_commands ex_sealed ex_stream"
  let ?r = "store_seal_and_finalization ''p'' ''seal'' [''declared-a''] (ex_work ''f'' 5 None GATED) ?db"
  have "snd ?r = Inr True" by code_simp
  then have r: "?r = (fst ?r, Inr True)" by (metis prod.collapse)
  have "stream_reachable ?db"
    by (rule stream_reachable_commands [OF ex_stream_reachable]) (simp add: ex_sealed_def)
  from seal_complete [OF this r, of "[Mark_published ''a'']"] show ?thesis by (simp add: ex_work_def)
qed



section \<open>Fair admission\<close>

text \<open>The windows of a recording that have unfinished work in a partition, as a set.\<close>

definition active_ordinals :: "stream_db \<Rightarrow> string \<Rightarrow> string \<Rightarrow> int set" where
  "active_ordinals db c k =
     {n. \<exists>w \<in> set (stream_work_plans db). active_work db c w \<and> sw_plan_key w = k \<and> sw_expected_ordinal w = Some n}"

definition active_windows :: "stream_db \<Rightarrow> string \<Rightarrow> string \<Rightarrow> nat" where
  "active_windows db c k = card (active_ordinals db c k)"

lemma active_work_ordinal: "active_work db c w \<Longrightarrow> \<exists>n. sw_expected_ordinal w = Some n"
  by (auto simp: active_work_def)

lemma active_rows_ordinals:
  "set (map sw_expected_ordinal (filter (\<lambda>w. sw_plan_key w = k) (filter (active_work db c) (stream_work_plans db)))) =
    Some ` active_ordinals db c k" (is "set (map _ ?rows) = _")
proof (intro set_eqI iffI)
  fix x assume "x \<in> set (map sw_expected_ordinal ?rows)"
  then obtain w where w: "w \<in> set (stream_work_plans db)" "active_work db c w" "sw_plan_key w = k" "x = sw_expected_ordinal w"
    by auto
  with active_work_ordinal [OF w(2)] show "x \<in> Some ` active_ordinals db c k" by (auto simp: active_ordinals_def)
next
  fix x assume "x \<in> Some ` active_ordinals db c k"
  then obtain w where "w \<in> set ?rows" "x = sw_expected_ordinal w" by (auto simp: active_ordinals_def)
  then show "x \<in> set (map sw_expected_ordinal ?rows)" by auto
qed

lemma finite_active_ordinals: "finite (active_ordinals db c k)"
  using active_rows_ordinals [of k db c] by (metis List.finite_set finite_imageD inj_Some)

lemma by_plan_lookup:
  "map_of (active_by_plan db c) k = (if active_windows db c k = 0 then None else Some (active_windows db c k))"
proof -
  let ?rows = "filter (active_work db c) (stream_work_plans db)"
  let ?ords = "\<lambda>k. map sw_expected_ordinal (filter (\<lambda>w. sw_plan_key w = k) ?rows)"
  have "length (remdups (?ords j)) = card (Some ` active_ordinals db c j)" for j
    unfolding active_rows_ordinals [symmetric] by (simp add: length_remdups_card_conv)
  then have len: "length (remdups (?ords j)) = active_windows db c j" for j
    by (simp add: active_windows_def card_image)
  have "map_of (active_by_plan db c) k =
      (if k \<in> set (map sw_plan_key ?rows) then Some (active_windows db c k) else None)"
    by (simp add: active_by_plan_def Let_def len [unfolded filter_filter] map_of_map_restrict restrict_map_def)
  moreover have "k \<in> set (map sw_plan_key ?rows) \<longleftrightarrow> active_windows db c k \<noteq> 0"
  proof -
    have "k \<in> set (map sw_plan_key ?rows) \<longleftrightarrow> active_ordinals db c k \<noteq> {}"
      using active_rows_ordinals [of k db c] by (auto simp: filter_empty_conv)
    then show ?thesis by (simp add: active_windows_def finite_active_ordinals)
  qed
  ultimately show ?thesis by simp
qed

lemma by_plan_distinct: "distinct (map fst (active_by_plan db c))"
  by (simp add: active_by_plan_def Let_def comp_def)

lemma fair_admission_bound:
  assumes "enforce_recording_fair_admission db k c v m = Inr ()" and "k' \<noteq> k" and "0 < active_windows db c k'"
  shows "active_windows db c k + m \<le> active_windows db c k' + 1 \<or> m = 0"
proof -
  let ?peers = "map snd (filter (\<lambda>(candidate, n). candidate \<noteq> k) (active_by_plan db c))"
  have "(k', active_windows db c k') \<in> set (active_by_plan db c)"
    using by_plan_lookup [of db c k'] assms(3) by (simp add: map_of_SomeD)
  then have mem: "active_windows db c k' \<in> set ?peers" using assms(2) by force
  have current: "(case map_of (active_by_plan db c) k of None \<Rightarrow> 0 | Some n \<Rightarrow> n) = active_windows db c k"
    by (simp add: by_plan_lookup)
  have "m \<le> Min (set ?peers) + 1 - active_windows db c k"
  proof -
    have "?peers \<noteq> []" using mem by (metis empty_iff empty_set)
    then show ?thesis
      using assms(1) unfolding enforce_recording_fair_admission_def Let_def current
      by (simp only: if_False split: option.splits if_splits) simp_all
  qed
  moreover have "Min (set ?peers) \<le> active_windows db c k'" using mem by (simp add: Min_le)
  ultimately show ?thesis by linarith
qed

lemma active_work_cong:
  assumes "authority db' = authority db" and "stream_backpressure_controllers db' = stream_backpressure_controllers db"
  shows "active_work db' = active_work db"
  using assms by (simp add: active_work_def fun_eq_iff)

lemma active_after_append:
  assumes "\<And>w. w \<in> set ws \<Longrightarrow> list_all (\<lambda>n. nw_expected_ordinal n = Some (nwin_ordinal w)) (nwin_work_plans w)"
  shows "active_windows (with_windows k ws db) c k \<le> active_windows db c k + length ws"
    and "k' \<noteq> k \<Longrightarrow> active_windows (with_windows k ws db) c k' = active_windows db c k'"
proof -
  let ?db = "with_windows k ws db"
  have act: "active_work ?db = active_work db" by (rule active_work_cong) (simp_all add: with_windows_def)
  have new: "nw_expected_ordinal n \<in> Some ` nwin_ordinal ` set ws"
    if "w \<in> set ws" "n \<in> set (nwin_work_plans w)" for w n
    using assms [OF that(1)] that by (auto simp: list_all_iff)
  have rows: "set (stream_work_plans ?db) = set (stream_work_plans db) \<union>
      (\<Union>w \<in> set ws. new_work_row k ` set (nwin_work_plans w))"
    by (simp add: with_windows_def)
  have "active_ordinals ?db c k \<subseteq> active_ordinals db c k \<union> nwin_ordinal ` set ws"
  proof
    fix n assume "n \<in> active_ordinals ?db c k"
    then obtain w where w: "w \<in> set (stream_work_plans ?db)" "active_work db c w" "sw_plan_key w = k"
      "sw_expected_ordinal w = Some n" by (auto simp: active_ordinals_def act)
    from w(1) consider "w \<in> set (stream_work_plans db)" | v m where "v \<in> set ws" "m \<in> set (nwin_work_plans v)" "w = new_work_row k m"
      unfolding rows by blast
    then show "n \<in> active_ordinals db c k \<union> nwin_ordinal ` set ws"
    proof cases
      case 1
      with w show ?thesis unfolding active_ordinals_def by blast
    next
      case 2
      then show ?thesis using new [OF 2(1,2)] w(4) by auto
    qed
  qed
  then have "active_windows ?db c k \<le> card (active_ordinals db c k \<union> nwin_ordinal ` set ws)"
    unfolding active_windows_def by (intro card_mono) (simp_all add: finite_active_ordinals)
  also have "\<dots> \<le> active_windows db c k + card (nwin_ordinal ` set ws)"
    unfolding active_windows_def by (rule card_Un_le)
  also have "card (nwin_ordinal ` set ws) \<le> length ws"
    by (meson card_image_le card_length finite_set order_trans)
  finally show "active_windows ?db c k \<le> active_windows db c k + length ws" by simp
  assume "k' \<noteq> k"
  then have "active_ordinals ?db c k' = active_ordinals db c k'"
    unfolding active_ordinals_def act rows by auto
  then show "active_windows ?db c k' = active_windows db c k'" by (simp add: active_windows_def)
qed

lemma length_new_windows:
  "length fs = length ws \<Longrightarrow> length (new_windows ws fs) = length (filter id fs)"
  by (induction fs ws rule: list_induct2) auto

text \<open>
  C29. Fair admission. When windows are admitted for a recording in a partition, the recording
  has afterwards at most one active window more than every other recording of the partition
  that had an active window, and the counts of the others are unchanged. (A recording of the
  partition that is idle does not hold the others back.)
\<close>

theorem admission_fair:
  assumes "stream_reachable db" and "append_windows k ws (Some c) (Some v) db = (db', Inr flags)"
    and "True \<in> set flags" and "k' \<noteq> k" and "0 < active_windows db c k'"
  shows "active_windows db' c k \<le> active_windows db' c k' + 1 \<and> active_windows db' c k' = active_windows db c k'"
proof -
  note wf = stream_reachable_wf [OF assms(1)]
  have "ws \<noteq> []" using assms(2,3) by (auto simp: append_windows_def)
  note val = append_windows_Inr [OF assms(2) this] and works = validate_batch_Inr(2)
  obtain p where p: "list_all2 (scanned db k p) ws flags" "db' = with_windows k (new_windows ws flags) db"
    using append_in_transaction_Inr [OF val(2) wf works [OF val(1)]] by metis
  have fair: "enforce_recording_fair_admission db k c v (length (filter id flags)) = Inr ()"
    using val(2) assms(3) by (auto simp: append_in_transaction_def rbind_Inr_iff split: option.splits)
  have len: "length (new_windows ws flags) = length (filter id flags)"
    using length_new_windows [OF list_all2_lengthD [OF p(1), symmetric]] .
  have "length (filter id flags) \<noteq> 0" using assms(3) by (auto simp: filter_empty_conv)
  then have "active_windows db c k + length (new_windows ws flags) \<le> active_windows db c k' + 1"
    using fair_admission_bound [OF fair assms(4,5)] len by simp
  moreover note active_after_append [where ws = "new_windows ws flags" and k = k and db = db and c = c, folded p(2)]
  ultimately show ?thesis
    using works [OF val(1)] new_windows_subset [of ws flags] assms(4) by (metis order_trans subsetD)
qed

definition ex_partition :: stream_db where
  "ex_partition = run_stream_commands
     [Register_plan ''p'' ''{}'' ''{}'' ''{}'', Register_plan ''q'' ''{}'' ''{}'' ''{}'',
      Claim_controller ''p'' ''c'' ''v1'' ''me'' ''s'', Claim_controller ''q'' ''c'' ''v1'' ''me'' ''s'',
      Append_windows ''p'' [ex_window ''a'' 0] (Some ''c'') (Some ''v1'')] empty_stream_db"

theorem admission_fair_witness:
  "active_windows (fst (append_windows ''q'' [ex_window ''b'' 0, ex_window ''d'' 1] (Some ''c'') (Some ''v1'') ex_partition)) ''c'' ''q'' \<le>
   active_windows (fst (append_windows ''q'' [ex_window ''b'' 0, ex_window ''d'' 1] (Some ''c'') (Some ''v1'') ex_partition)) ''c'' ''p'' + 1"
proof -
  let ?r = "append_windows ''q'' [ex_window ''b'' 0, ex_window ''d'' 1] (Some ''c'') (Some ''v1'') ex_partition"
  have "snd ?r = Inr [True, True]" by code_simp
  then have r: "?r = (fst ?r, Inr [True, True])" by (metis prod.collapse)
  have "stream_reachable ex_partition"
    unfolding stream_reachable_def ex_partition_def by (rule exI, rule conjI [OF _ refl]) simp
  moreover have "map_of (active_by_plan ex_partition ''c'') ''p'' = Some 1" by code_simp
  then have "0 < active_windows ex_partition ''c'' ''p''" by (simp add: by_plan_lookup split: if_splits)
  ultimately show ?thesis using admission_fair [OF _ r, of "''p''"] by simp
qed

section \<open>Fences\<close>

lemma lease_superseded:
  assumes "stream_evolves db db1" and "require_lease (authority db) old t = Inr w"
    and "require_lease (authority db1) new t' = Inr w'" and "lease_work_item_id new = lease_work_item_id old"
    and "(granted_epoch new, granted_token new) \<noteq> (granted_epoch old, granted_token old)"
  shows "granted_epoch old < granted_epoch new"
proof -
  note o = require_lease_Inr [OF assms(2)] and n = require_lease_Inr [OF assms(3)]
  obtain v where v: "item_of (authority db1) (lease_work_item_id old) = Some v" "row_evolves w v"
    by (rule later_item [OF assms(1) o(1)])
  have "v = w'" using v(1) n(1) assms(4) by simp
  with v(2) o(2) n(2,4) assms(5) show ?thesis
    by (auto simp: row_evolves_def lease_current_def)
qed

text \<open>
  A stale worker cannot record a result. Once another lease on the item has been accepted
  after the worker's own, every later attempt to store a terminal intent under the old lease
  leaves the database as it is and does not report success.
\<close>

theorem stale_intent_refused:
  assumes "stream_reachable db" and "require_lease (authority db) old t = Inr w"
    and "list_all client_ok cs" and "db1 = run_stream_commands cs db" and "require_lease (authority db1) new t' = Inr w'"
    and "lease_work_item_id new = lease_work_item_id old"
    and "(granted_epoch new, granted_token new) \<noteq> (granted_epoch old, granted_token old)"
    and "list_all client_ok cs'" and "db2 = run_stream_commands cs' db1"
  shows "fst (store_pending_terminal (lease_work_item_id old) payload (int (granted_epoch old)) (granted_token old)
        (Some (worker_id old)) (Some now) expires db2) = db2
    \<and> snd (store_pending_terminal (lease_work_item_id old) payload (int (granted_epoch old)) (granted_token old)
        (Some (worker_id old)) (Some now) expires db2) \<noteq> Inr True"
proof -
  have r1: "stream_reachable db1" using stream_reachable_commands [OF assms(1,3)] assms(4) by simp
  note ev1 = later_evolves [OF assms(1,3), folded assms(4)] and ev2 = later_evolves [OF r1 assms(8), folded assms(9)]
  have newer: "granted_epoch old < granted_epoch new" by (rule lease_superseded [OF ev1 assms(2,5-7)])
  note n = require_lease_Inr [OF assms(5)]
  obtain v where v: "item_of (authority db2) (lease_work_item_id old) = Some v" "row_evolves w' v"
    using later_item [OF ev2 n(1)] assms(6) by metis
  have "granted_epoch old < lease_epoch v" using newer n(2) v(2) by (auto simp: row_evolves_def lease_current_def)
  then have "\<not> fence_holds (int (granted_epoch old)) (granted_token old) (worker_id old) now expires v"
    by (simp add: fence_holds_def)
  then show ?thesis
    using v(1) by (auto simp: store_pending_terminal_def run_write_def store_pending_in_transaction_def split: option.splits)
qed

definition ex_first :: stream_db where
  "ex_first = run_stream_commands (map Scheduler_call ex_running) ex_stream"

lemma ex_first_reachable: "stream_reachable ex_first"
  unfolding ex_first_def by (rule stream_reachable_commands [OF ex_stream_reachable]) (simp add: ex_running_def ex_planned_def)

theorem stale_intent_refused_witness:
  "snd (store_pending_terminal ''a'' ''done'' 1 ''t1'' (Some ''w'') (Some 20000005) None
     (run_stream_commands [] (run_stream_commands (map Scheduler_call ex_takeover) ex_first))) \<noteq> Inr True"
proof -
  let ?db = "run_stream_commands (map Scheduler_call ex_takeover) ex_first"
  have old: "require_lease (authority ex_first) (ex_lease 1 ''t1'' 10000005) 6 =
      Inr (the (item_of (authority ex_first) ''a''))" by code_simp
  have new: "require_lease (authority ?db) (ex_lease 2 ''t2'' 30000000) 20000001 =
      Inr (the (item_of (authority ?db) ''a''))" by code_simp
  have "list_all client_ok (map Scheduler_call ex_takeover)" by (simp add: ex_takeover_def)
  from stale_intent_refused [OF ex_first_reachable old this refl new _ _ _ refl, of "[]" "''done''" 20000005 None]
  show ?thesis by (simp add: ex_lease_def)
qed

lemma controller_row_new:
  assumes "controller_row db k c = None" and "bc_plan_key r = k" and "bc_controller_key r = c"
  shows "controller_row (db\<lparr>stream_backpressure_controllers := stream_backpressure_controllers db @ [r]\<rparr>) k c = Some r"
proof -
  have "find_row (\<lambda>r. bc_plan_key r = k \<and> bc_controller_key r = c) (stream_backpressure_controllers db) = None"
    using assms(1) unfolding controller_row_def .
  then show ?thesis using assms(2,3) unfolding controller_row_def by (simp add: find_row_append find_row_single del: find_row_None)
qed

lemma claim_controller_Inr:
  assumes "wf_keys db" and "claim_backpressure_controller k c v own s db = (db', Inr h)"
  shows "controller_row db' k c = Some h" and "bc_owner_id h = own"
    and "bc_plan_key h = k" and "bc_controller_key h = c"
proof -
  have tx: "claim_controller_in_transaction k c v own s db = Inr (db', h)"
    using assms(2) by (auto simp: claim_backpressure_controller_def run_write_Inr split: sum.splits)
  have "controller_row db' k c = Some h \<and> bc_owner_id h = own"
  proof (cases "controller_row db k c")
    case None
    then show ?thesis using tx controller_row_new [OF None]
      by (auto simp: claim_controller_in_transaction_def Let_def split: if_splits)
  next
    case (Some r)
    let ?p = "\<lambda>x. bc_plan_key x = k \<and> bc_controller_key x = c \<and> bc_owner_fence x = bc_owner_fence r"
    have "controller_row (upd_controllers ?p (\<lambda>x. x\<lparr>bc_owner_id := own, bc_owner_fence := bc_owner_fence r + 1\<rparr>) db) k c =
        Some (r\<lparr>bc_owner_id := own, bc_owner_fence := bc_owner_fence r + 1\<rparr>)"
      using controller_row_upd [of "\<lambda>x. x\<lparr>bc_owner_id := own, bc_owner_fence := bc_owner_fence r + 1\<rparr>" ?p db k c]
        Some controller_rowD [OF Some] by simp
    then show ?thesis using tx Some
      by (auto simp: claim_controller_in_transaction_def Let_def split: if_splits)
  qed
  then show "controller_row db' k c = Some h" "bc_owner_id h = own" "bc_plan_key h = k" "bc_controller_key h = c"
    using controller_rowD by blast+
qed

text \<open>
  One owner at a time for a backpressure controller. After another owner has claimed a
  controller, every save through the first owner's handle is refused, whatever happens in
  between, even if the first owner claims the controller again.
\<close>

theorem controller_fenced:
  assumes "stream_reachable db" and "claim_backpressure_controller k c v own s db = (db1, Inr h)"
    and "list_all client_ok cs" and "db2 = run_stream_commands cs db1"
    and "claim_backpressure_controller k c v' own' s' db2 = (db3, Inr h')" and "own' \<noteq> own"
    and "list_all client_ok cs'" and "db4 = run_stream_commands cs' db3"
  shows "\<exists>e. save_backpressure_controller h st db4 = (db4, Inl e)"
proof -
  have r1: "stream_reachable db1"
    using stream_reachable_commands [OF assms(1), of "[Claim_controller k c v own s]"] assms(2)
    by (simp add: run_stream_commands_def)
  then have r2: "stream_reachable db2" using stream_reachable_commands assms(3,4) by simp
  then have r3: "stream_reachable db3"
    using stream_reachable_commands [of db2 "[Claim_controller k c v' own' s']"] assms(5)
    by (simp add: run_stream_commands_def)
  then have r4: "stream_reachable db4" using stream_reachable_commands assms(7,8) by simp
  note h = claim_controller_Inr [OF wf_streamD(1) [OF stream_reachable_wf [OF assms(1)]] assms(2)]
  note h' = claim_controller_Inr [OF wf_streamD(1) [OF stream_reachable_wf [OF r2]] assms(5)]
  have "stream_evolves db1 db3"
    using stream_evolves_trans [OF later_evolves [OF r1 assms(3), folded assms(4)]]
      later_evolves [OF r2, of "[Claim_controller k c v' own' s']"] assms(5) by (simp add: run_stream_commands_def)
  then have "controller_evolves h h'" using later_controller [OF _ h(1)] h'(1) by (metis option.inject)
  then have newer: "bc_owner_fence h < bc_owner_fence h'"
    using h(2) h'(2) assms(6) by (auto simp: controller_evolves_def order_less_le)
  obtain r where r: "controller_row db4 k c = Some r" "controller_evolves h' r"
    by (rule later_controller [OF later_evolves [OF r3 assms(7), folded assms(8)] h'(1)])
  have "\<not> controller_fence_matches h x" if x: "x \<in> set (stream_backpressure_controllers db4)" for x
    using unique_controller [OF wf_streamD(1) [OF stream_reachable_wf [OF r4]] r(1) x] r(2) newer h(3,4)
    by (auto simp: controller_fence_matches_def controller_evolves_def)
  then have "rowcount (controller_fence_matches h) (stream_backpressure_controllers db4) = 0"
    by (simp add: rowcount_def filter_empty_conv)
  then show ?thesis by (auto simp: save_backpressure_controller_def run_write_def split: sum.splits)
qed

theorem controller_fenced_witness:
  "\<exists>e. save_backpressure_controller (the (controller_row (fst (claim_backpressure_controller ''p'' ''c'' ''v1'' ''me'' ''s'' ex_stream)) ''p'' ''c'')) ''late''
     (run_stream_commands [Claim_controller ''p'' ''c'' ''v1'' ''me'' ''s'']
       (fst (claim_backpressure_controller ''p'' ''c'' ''v1'' ''you'' ''s''
         (run_stream_commands [] (fst (claim_backpressure_controller ''p'' ''c'' ''v1'' ''me'' ''s'' ex_stream)))))) =
   (run_stream_commands [Claim_controller ''p'' ''c'' ''v1'' ''me'' ''s'']
       (fst (claim_backpressure_controller ''p'' ''c'' ''v1'' ''you'' ''s''
         (run_stream_commands [] (fst (claim_backpressure_controller ''p'' ''c'' ''v1'' ''me'' ''s'' ex_stream))))), Inl e)"
proof -
  let ?a = "claim_backpressure_controller ''p'' ''c'' ''v1'' ''me'' ''s'' ex_stream"
  let ?b = "claim_backpressure_controller ''p'' ''c'' ''v1'' ''you'' ''s'' (run_stream_commands [] (fst ?a))"
  have "snd ?a = Inr (the (controller_row (fst ?a) ''p'' ''c''))" by code_simp
  then have a: "?a = (fst ?a, Inr (the (controller_row (fst ?a) ''p'' ''c'')))" by (metis prod.collapse)
  have "snd ?b = Inr (the (controller_row (fst ?b) ''p'' ''c''))" by code_simp
  then have b: "?b = (fst ?b, Inr (the (controller_row (fst ?b) ''p'' ''c'')))" by (metis prod.collapse)
  show ?thesis
    by (rule controller_fenced [OF ex_stream_reachable a _ refl b _ _ refl]) simp_all
qed

end
