(* ===== verification/Stream_Provenance.thy ===== *)
theory Stream_Provenance
  imports Stream_Ledger_Properties
begin

text \<open>
  Where accepted terminal evidence comes from: through any history of calls, the bytes in the
  evidence column were stored by an intent under the lease that was current at the time.
\<close>

section \<open>Provenance of accepted evidence\<close>

definition has_payload :: "StoredStreamWorkPlan \<Rightarrow> string \<Rightarrow> bool" where
  "has_payload w pl \<longleftrightarrow> sw_terminal_evidence_json w = Some pl \<or> sw_pending_terminal_json w = Some pl"

definition no_new_payload :: "stream_db \<Rightarrow> stream_db \<Rightarrow> bool" where
  "no_new_payload db db' \<longleftrightarrow> (\<forall>i w' pl. work_row db' i = Some w' \<and> has_payload w' pl \<longrightarrow>
     (\<exists>w. work_row db i = Some w \<and> has_payload w pl))"

lemma no_new_payload_append:
  assumes "stream_work_plans db' = stream_work_plans db @ ws" and "\<And>w pl. w \<in> set ws \<Longrightarrow> \<not> has_payload w pl"
  shows "no_new_payload db db'"
  unfolding no_new_payload_def
proof (intro allI impI)
  fix i w' pl assume a: "work_row db' i = Some w' \<and> has_payload w' pl"
  have row: "work_row db' i = (case work_row db i of None \<Rightarrow> find_row (\<lambda>w. sw_work_item_id w = i) ws | Some w \<Rightarrow> Some w)"
    by (simp add: work_row_def assms(1) find_row_append del: find_row_None)
  have "w' \<notin> set ws" using assms(2) a by blast
  then show "\<exists>w. work_row db i = Some w \<and> has_payload w pl"
    using a row find_row_Some(1) [of "\<lambda>w. sw_work_item_id w = i" ws w'] by (auto split: option.splits)
qed

lemma no_new_payload_upd:
  assumes "\<And>w. sw_work_item_id (f w) = sw_work_item_id w" and "\<And>w pl. has_payload (f w) pl \<Longrightarrow> has_payload w pl"
    and "stream_work_plans db' = stream_work_plans (upd_works p f db)"
  shows "no_new_payload db db'"
  unfolding no_new_payload_def views_cong(3) [OF assms(3)] work_row_upd [of f, OF assms(1)]
  using assms(2) by (auto split: if_splits)

lemma no_new_payload_same: "stream_work_plans db' = stream_work_plans db \<Longrightarrow> no_new_payload db db'"
  by (rule no_new_payload_append [of _ _ "[]"]) simp_all

lemma run_write_cases:
  assumes "P db" and "\<And>db' a. operation db = Inr (db', a) \<Longrightarrow> P db'"
  shows "P (fst (run_write operation db))"
  using assms by (auto simp: run_write_def split: sum.splits)

lemma append_no_payload:
  assumes "wf_stream db"
  shows "no_new_payload db (fst (append_windows k ws c v db))"
proof (cases "ws = [] \<or> isl (validate_batch ws c v)")
  case True
  then have "fst (append_windows k ws c v db) = db" by (cases "validate_batch ws c v") (auto simp: append_windows_def)
  then show ?thesis by (simp add: no_new_payload_same)
next
  case False
  then obtain u where val: "validate_batch ws c v = Inr u" by (cases "validate_batch ws c v") auto
  have "no_new_payload db (fst (run_write (append_in_transaction k ws c v) db))"
  proof (rule run_write_cases)
    fix db' flags assume "append_in_transaction k ws c v db = Inr (db', flags)"
    from append_in_transaction_Inr [OF this assms validate_batch_Inr(2) [OF val]]
    have "db' = with_windows k (new_windows ws flags) db" by metis
    then show "no_new_payload db db'"
      by (intro no_new_payload_append) (auto simp: with_windows_def has_payload_def new_work_row_def)
  qed (simp add: no_new_payload_same)
  then show ?thesis using False val by (simp add: append_windows_def)
qed

lemma controllers_same_works:
  "stream_work_plans (fst (claim_backpressure_controller k c v own s db)) = stream_work_plans db"
  "stream_work_plans (fst (save_backpressure_controller h st db)) = stream_work_plans db"
  by (auto simp: claim_backpressure_controller_def claim_controller_in_transaction_def save_backpressure_controller_def
      run_write_def Let_def split: sum.splits option.splits)

lemma plan_ops_no_payload:
  "no_new_payload db (fst (register_plan k j s c db))"
  "no_new_payload db (fst (set_planner_eos k d db))"
  "no_new_payload db (fst (mark_export_barrier k m n db))"
  unfolding register_plan_def set_planner_eos_def mark_export_barrier_def
  by (rule run_write_cases, auto intro: no_new_payload_same split: option.splits if_splits)+

lemma seal_no_payload: "no_new_payload db (fst (store_seal_and_finalization k s ds f db))"
  unfolding store_seal_and_finalization_def
proof (rule run_write_cases)
  fix db' b assume "seal_in_transaction k s ds f db = Inr (db', b)"
  then have "stream_work_plans db' \<in> {stream_work_plans db, stream_work_plans db @ [new_work_row k f]}"
    by (cases rule: seal_in_transaction_Inr, cases b) (auto simp: insert_work_Inr)
  then show "no_new_payload db db'"
    using no_new_payload_same no_new_payload_append [of db' db "[new_work_row k f]"]
    by (auto simp: has_payload_def new_work_row_def)
qed (simp add: no_new_payload_same)

lemma closure_no_payload: "no_new_payload db (fst (store_closure_and_open_finalization k c st db))"
  unfolding store_closure_and_open_finalization_def
proof (rule run_write_cases)
  fix db' u assume "closure_in_transaction k c st db = Inr (db', u)"
  then have "stream_work_plans db' = stream_work_plans (upd_works
      (\<lambda>w. sw_plan_key w = k \<and> sw_stage w = st \<and> sw_publication_state w = GATED)
      (\<lambda>w. w\<lparr>sw_publication_state := PENDING\<rparr>) db)"
    by (auto simp: closure_in_transaction_def Let_def upd_works_def split: option.splits if_splits list.splits)
  then show "no_new_payload db db'"
    by (rule no_new_payload_upd [rotated 2]) (simp_all add: has_payload_def)
qed (simp add: no_new_payload_same)

lemma publish_no_payload:
  "no_new_payload db (fst (mark_published j db))" "no_new_payload db (fst (mark_published_many js db))"
proof -
  have upd: "no_new_payload db (upd_works p publish_row db)" for p
    by (rule no_new_payload_upd [OF _ _ refl]) (simp_all add: publish_row_def has_payload_def)
  show "no_new_payload db (fst (mark_published j db))" by (simp add: mark_published_def run_write_def upd)
  show "no_new_payload db (fst (mark_published_many js db))"
    by (auto simp: mark_published_many_def Let_def no_new_payload_same run_write_def upd split: sum.splits)
qed

lemma accept_no_payload: "no_new_payload db (fst (accept_pending_terminal j p m n db))"
  unfolding accept_pending_terminal_def
proof (rule run_write_cases)
  fix db' u assume "accept_in_transaction j p m n db = Inr (db', u)"
  then show "no_new_payload db db'"
  proof (cases rule: accept_in_transaction_Inr)
    case (promoted w)
    show ?thesis
      by (rule no_new_payload_upd [of promote_pending db' "\<lambda>w. sw_work_item_id w = j"])
        (auto simp: promoted(5) promote_pending_def has_payload_def)
  qed (simp add: no_new_payload_same)
qed (simp add: no_new_payload_same)

text \<open>A stored intent brings in its own payload, under a lease that is current if one is given.\<close>

lemma store_payload:
  assumes "work_row (fst (store_pending_terminal j p e t u now x db)) i = Some w'" and "has_payload w' pl"
  shows "(\<exists>w. work_row db i = Some w \<and> has_payload w pl)
    \<or> (i = j \<and> pl = p \<and> (\<forall>v n. u = Some v \<longrightarrow> now = Some n \<longrightarrow>
        (\<exists>r. item_of (authority db) i = Some r \<and> fence_holds e t v n x r)))"
proof -
  let ?db = "fst (store_pending_terminal j p e t u now x db)"
  have "?db = db \<or> (\<exists>b. store_pending_in_transaction j p e t u now x db = Inr (?db, b))"
  proof (cases "store_pending_in_transaction j p e t u now x db")
    case (Inl er)
    then show ?thesis by (simp add: store_pending_terminal_def run_write_def)
  next
    case (Inr r)
    then show ?thesis by (cases r) (simp add: store_pending_terminal_def run_write_def)
  qed
  then consider "?db = db" | b where "store_pending_in_transaction j p e t u now x db = Inr (?db, b)" by blast
  then show ?thesis
  proof cases
    case 1
    then show ?thesis using assms by auto
  next
    case 2
    then show ?thesis
    proof (cases rule: store_pending_in_transaction_Inr)
      case (stored w)
      then obtain v where v: "work_row db i = Some v" "w' = (if sw_work_item_id v = j then set_pending p e t v else v)"
        using assms(1) by (auto simp: work_row_upd set_pending_def)
      show ?thesis
      proof (cases "i = j")
        case True
        with v stored(6) assms(2) work_rowD(2) [OF v(1)] show ?thesis
          by (auto simp: has_payload_def set_pending_def)
      qed (use v assms(2) work_rowD(2) [OF v(1)] in simp)
    qed (use assms in auto)
  qed
qed

definition leased_intent :: "stream_db \<Rightarrow> stream_command \<Rightarrow> string \<Rightarrow> string \<Rightarrow> bool" where
  "leased_intent db cmd i pl \<longleftrightarrow> (\<exists>e t u now x. cmd = Store_pending i pl e t u now x
     \<and> (\<forall>v n. u = Some v \<longrightarrow> now = Some n \<longrightarrow>
          (\<exists>r. item_of (authority db) i = Some r \<and> fence_holds e t v n x r)))"

lemma command_payload:
  assumes "wf_stream db" and "work_row (run_stream_command cmd db) i = Some w'" and "has_payload w' pl"
  shows "(\<exists>w. work_row db i = Some w \<and> has_payload w pl) \<or> leased_intent db cmd i pl"
proof (cases "\<exists>j p e t u now x. cmd = Store_pending j p e t u now x")
  case True
  then obtain j p e t u now x where cmd: "cmd = Store_pending j p e t u now x" by blast
  from store_payload [OF assms(2) [unfolded cmd run_stream_command.simps] assms(3)] show ?thesis
    unfolding leased_intent_def cmd by blast
next
  case False
  then have "no_new_payload db (run_stream_command cmd db)"
    by (cases cmd) (auto simp: plan_ops_no_payload append_no_payload assms(1) seal_no_payload closure_no_payload
        publish_no_payload accept_no_payload controllers_same_works intro: no_new_payload_same)
  then show ?thesis using assms(2,3) unfolding no_new_payload_def by blast
qed

lemma payload_history:
  assumes "list_all client_ok cs" and "work_row (run_stream_commands cs empty_stream_db) i = Some w" and "has_payload w pl"
  shows "\<exists>cs1 cmd cs2. cs = cs1 @ cmd # cs2 \<and> leased_intent (run_stream_commands cs1 empty_stream_db) cmd i pl"
  using assms
proof (induction cs arbitrary: w rule: rev_induct)
  case Nil
  then show ?case by (simp add: run_stream_commands_def empty_stream_db_def work_row_def find_row_def)
next
  case (snoc c cs)
  let ?db = "run_stream_commands cs empty_stream_db"
  have ok: "list_all client_ok cs" and row: "work_row (run_stream_command c ?db) i = Some w"
    using snoc.prems by (simp_all add: run_stream_commands_def)
  have "wf_stream ?db" using ok by (intro stream_reachable_wf) (auto simp: stream_reachable_def)
  from command_payload [OF this row snoc.prems(3)] show ?case
  proof
    assume "\<exists>w. work_row ?db i = Some w \<and> has_payload w pl"
    then obtain v where "work_row ?db i = Some v" "has_payload v pl" by blast
    from snoc.IH [OF ok this] show ?thesis by (metis append_Cons append_assoc)
  qed blast
qed

fun lease_bound :: "stream_command \<Rightarrow> bool" where
  "lease_bound (Store_pending i p e t u now x) \<longleftrightarrow> u \<noteq> None \<and> now \<noteq> None"
| "lease_bound _ \<longleftrightarrow> True"

text \<open>
  C25. Accepted evidence was reported by the worker that held the item. When every stored
  intent names its worker and the authority's clock, as the stream scheduler does, then for
  every accepted evidence there is a moment in the history at which exactly these bytes were
  stored under a lease that was the item's current one, unexpired, in the scheduler's ledger.
\<close>

theorem evidence_provenance:
  assumes "list_all client_ok cs" and "list_all lease_bound cs"
    and "snd (get_work i (run_stream_commands cs empty_stream_db)) = Inr w"
    and "sw_terminal_evidence_json w = Some payload"
  shows "\<exists>cs1 cs2 epoch token worker now expires r.
    cs = cs1 @ Store_pending i payload epoch token (Some worker) (Some now) expires # cs2
    \<and> item_of (authority (run_stream_commands cs1 empty_stream_db)) i = Some r
    \<and> fence_holds epoch token worker now expires r"
proof -
  have "has_payload w payload" using assms(4) by (simp add: has_payload_def)
  from payload_history [OF assms(1) assms(3) [unfolded read_row] this]
  obtain cs1 cmd cs2 where h: "cs = cs1 @ cmd # cs2"
    "leased_intent (run_stream_commands cs1 empty_stream_db) cmd i payload" by blast
  from h(1) assms(2) have "lease_bound cmd" by simp
  with h show ?thesis unfolding leased_intent_def by fastforce
qed

definition ex_reported :: "stream_command list" where
  "ex_reported = [Register_plan ''p'' ''{}'' ''{}'' ''{}'', Append_windows ''p'' [ex_window ''a'' 0] None None]
     @ map Scheduler_call ex_running
     @ [Mark_published ''a'', Store_pending ''a'' ''done'' 1 ''t1'' (Some ''w'') (Some 6) None,
        Scheduler_call (Succeed (ex_lease 1 ''t1'' 10000005) None None 6),
        Accept_pending ''a'' ''done'' (Some ''member'') (Some 0)]"

theorem evidence_provenance_witness:
  "\<exists>cs1 cs2 epoch token worker now expires r.
    ex_reported = cs1 @ Store_pending ''a'' ''done'' epoch token (Some worker) (Some now) expires # cs2
    \<and> item_of (authority (run_stream_commands cs1 empty_stream_db)) ''a'' = Some r
    \<and> fence_holds epoch token worker now expires r"
proof -
  let ?db = "run_stream_commands ex_reported empty_stream_db"
  have "snd (get_work ''a'' ?db) = Inr (the (work_row ?db ''a''))" by code_simp
  moreover have "sw_terminal_evidence_json (the (work_row ?db ''a'')) = Some ''done''" by code_simp
  moreover have "list_all client_ok ex_reported" "list_all lease_bound ex_reported"
    by (simp_all add: ex_reported_def ex_running_def ex_planned_def)
  ultimately show ?thesis by (intro evidence_provenance)
qed

end
