(* ===== verification/Delivery_Invariant.thy ===== *)
theory Delivery_Invariant
  imports Delivery_Logic Delivery_Ledger Stream_Provenance
begin

text \<open>
  The invariant that holds the two ledgers together: accepted evidence is that of a succeeded
  execution, a succeeded execution has its evidence accepted or waiting, and published work
  has its execution item. Every allowed command keeps it, and keeps a stored intent unless a
  newer lease exists or the intent was accepted.
\<close>

section \<open>The invariant\<close>

text \<open>The result of an execution is the one reported by the evidence with these bytes.\<close>

definition reports :: "stream_docs \<Rightarrow> string \<Rightarrow> string option \<Rightarrow> string option \<Rightarrow> bool" where
  "reports D payload ref sha \<longleftrightarrow> (\<exists>e. doc_evidence_bytes D e = payload
     \<and> ref = Some (terminal_result_reference e) \<and> sha = Some (ar_exact_sha256 (te_evidence_ref e)))"

definition parsed_reports :: "stream_docs \<Rightarrow> string \<Rightarrow> WorkItem \<Rightarrow> bool" where
  "parsed_reports D payload w \<longleftrightarrow> (\<exists>e. parse_evidence D ''stream terminal evidence'' payload = Inr e
     \<and> result_reference w = Some (terminal_result_reference e)
     \<and> result_sha256 w = Some (ar_exact_sha256 (te_evidence_ref e)))"

definition evidence_inv :: "stream_docs \<Rightarrow> stream_db \<Rightarrow> bool" where
  "evidence_inv D db \<longleftrightarrow> (\<forall>i r p. work_row db i = Some r \<longrightarrow> sw_terminal_evidence_json r = Some p \<longrightarrow>
     (\<exists>w. item_of (authority db) i = Some w \<and> state w = SUCCEEDED \<and> parsed_reports D p w))"

definition success_inv :: "stream_docs \<Rightarrow> (string \<Rightarrow> bool) \<Rightarrow> stream_db \<Rightarrow> bool" where
  "success_inv D G db \<longleftrightarrow> (\<forall>i w. G i \<longrightarrow> item_of (authority db) i = Some w \<longrightarrow> state w = SUCCEEDED \<longrightarrow>
     (\<exists>r p. work_row db i = Some r \<and> has_payload r p \<and> reports D p (result_reference w) (result_sha256 w)))"

definition published_inv :: "stream_db \<Rightarrow> bool" where
  "published_inv db \<longleftrightarrow> (\<forall>i r. work_row db i = Some r \<longrightarrow> sw_publication_state r = PUBLISHED \<longrightarrow>
     item_of (authority db) i \<noteq> None)"

definition graph_inv :: "(string \<Rightarrow> bool) \<Rightarrow> stream_db \<Rightarrow> bool" where
  "graph_inv G db \<longleftrightarrow> (\<forall>i. work_row db i \<noteq> None \<longrightarrow> G i)"

definition delivery_inv :: "stream_docs \<Rightarrow> (string \<Rightarrow> bool) \<Rightarrow> stream_db \<Rightarrow> bool" where
  "delivery_inv D G db \<longleftrightarrow> wf_stream db \<and> evidence_inv D db \<and> success_inv D G db
     \<and> published_inv db \<and> graph_inv G db"

text \<open>The commands that keep it.\<close>

fun delivery_allowed :: "stream_docs \<Rightarrow> (string \<Rightarrow> bool) \<Rightarrow> stream_db \<Rightarrow> stream_command \<Rightarrow> bool" where
  "delivery_allowed D G db (Append_windows k ws c p) \<longleftrightarrow>
     list_all (\<lambda>w. list_all (unpublished_graph_work G) (nwin_work_plans w)) ws"
| "delivery_allowed D G db (Store_seal k s ds f) \<longleftrightarrow> nw_expected_ordinal f = None \<and> unpublished_graph_work G f"
| "delivery_allowed D G db (Mark_published i) \<longleftrightarrow> False"
| "delivery_allowed D G db (Mark_published_many is) \<longleftrightarrow> (\<forall>i \<in> set is. item_of (authority db) i \<noteq> None)"
| "delivery_allowed D G db (Store_pending i p e t u now x) \<longleftrightarrow> u \<noteq> None \<and> now \<noteq> None"
| "delivery_allowed D G db (Accept_pending i p m n) \<longleftrightarrow>
     (\<exists>w. item_of (authority db) i = Some w \<and> state w = SUCCEEDED \<and> parsed_reports D p w)"
| "delivery_allowed D G db (Scheduler_call (Succeed lease ref sha now)) \<longleftrightarrow>
     (G (lease_work_item_id lease) \<longrightarrow>
       (\<forall>w. item_of (authority db) (lease_work_item_id lease) = Some w \<longrightarrow> held lease w \<longrightarrow>
         (\<exists>r p. work_row db (lease_work_item_id lease) = Some r \<and> has_payload r p \<and> reports D p ref sha)))"
| "delivery_allowed D G db _ \<longleftrightarrow> True"

lemma outside_allowed: "outside G cmd \<Longrightarrow> delivery_allowed D G db cmd"
  by (cases "(G, cmd)" rule: outside.cases) auto

lemma allowed_client_ok: "delivery_allowed D G db cmd \<Longrightarrow> client_ok cmd"
  by (cases cmd) auto

section \<open>What a command does to the work rows\<close>

text \<open>
  One case per kind of change. The added rows carry no payload and are not published; an
  intent is stored while the item is leased under its epoch.
\<close>

inductive work_effect ::
    "stream_docs \<Rightarrow> (string \<Rightarrow> bool) \<Rightarrow> stream_db \<Rightarrow> stream_db \<Rightarrow> bool" for D G db db' where
  same: "stream_work_plans db' = stream_work_plans db \<Longrightarrow> authority db' = authority db \<Longrightarrow> work_effect D G db db'"
| added: "stream_work_plans db' = stream_work_plans db @ ws \<Longrightarrow> authority db' = authority db \<Longrightarrow>
     (\<And>w. w \<in> set ws \<Longrightarrow> G (sw_work_item_id w) \<and> sw_publication_state w \<noteq> PUBLISHED
        \<and> sw_terminal_evidence_json w = None \<and> sw_pending_terminal_json w = None) \<Longrightarrow> work_effect D G db db'"
| opened: "stream_work_plans db' = stream_work_plans (upd_works q (\<lambda>w. w\<lparr>sw_publication_state := PENDING\<rparr>) db) \<Longrightarrow>
     authority db' = authority db \<Longrightarrow> work_effect D G db db'"
| published: "stream_work_plans db' = stream_work_plans (upd_works q publish_row db) \<Longrightarrow> authority db' = authority db \<Longrightarrow>
     (\<And>w. q w \<Longrightarrow> item_of (authority db) (sw_work_item_id w) \<noteq> None) \<Longrightarrow> work_effect D G db db'"
| stored: "stream_work_plans db' = stream_work_plans (upd_works (\<lambda>w. sw_work_item_id w = i) (set_pending p e t) db) \<Longrightarrow>
     authority db' = authority db \<Longrightarrow> work_row db i = Some r \<Longrightarrow> sw_terminal_evidence_json r = None \<Longrightarrow>
     (\<And>y. sw_pending_lease_epoch r = Some y \<Longrightarrow> y < e) \<Longrightarrow>
     item_of (authority db) i = Some v \<Longrightarrow> leased_state (state v) \<Longrightarrow> int (lease_epoch v) = e \<Longrightarrow> work_effect D G db db'"
| accepted: "stream_work_plans db' = stream_work_plans (upd_works (\<lambda>w. sw_work_item_id w = i) promote_pending db) \<Longrightarrow>
     authority db' = authority db \<Longrightarrow> work_row db i = Some r \<Longrightarrow> sw_terminal_evidence_json r = None \<Longrightarrow>
     sw_pending_terminal_json r = Some p \<Longrightarrow> item_of (authority db) i = Some v \<Longrightarrow> state v = SUCCEEDED \<Longrightarrow>
     parsed_reports D p v \<Longrightarrow> work_effect D G db db'"

lemma effect_refl [simp]: "work_effect D G db db"
  by (rule work_effect.same) simp_all

lemma run_write_effect:
  assumes "\<And>db' a. operation db = Inr (db', a) \<Longrightarrow> work_effect D G db db'"
  shows "work_effect D G db (fst (run_write operation db))"
  by (rule run_write_cases [of "work_effect D G db", OF effect_refl assms])

lemma append_effect:
  assumes "wf_stream db" and "list_all (\<lambda>w. list_all (unpublished_graph_work G) (nwin_work_plans w)) ws"
  shows "work_effect D G db (fst (append_windows k ws c v db))"
proof (cases "ws = [] \<or> isl (validate_batch ws c v)")
  case True
  then have "fst (append_windows k ws c v db) = db" by (cases "validate_batch ws c v") (auto simp: append_windows_def)
  then show ?thesis by simp
next
  case False
  then obtain u where val: "validate_batch ws c v = Inr u" by (cases "validate_batch ws c v") auto
  have "work_effect D G db (fst (run_write (append_in_transaction k ws c v) db))"
  proof (rule run_write_effect)
    fix db' flags assume "append_in_transaction k ws c v db = Inr (db', flags)"
    from append_in_transaction_Inr [OF this assms(1) validate_batch_Inr(2) [OF val]]
    have db': "db' = with_windows k (new_windows ws flags) db" by metis
    have "list_all (\<lambda>w. list_all (unpublished_graph_work G) (nwin_work_plans w)) (new_windows ws flags)"
      using assms(2) new_windows_subset [of ws flags] by (auto simp: list_all_iff)
    then show "work_effect D G db db'"
      by (intro work_effect.added [of db' db "concat (map (\<lambda>w. map (new_work_row k) (nwin_work_plans w)) (new_windows ws flags))"])
        (auto simp: db' with_windows_def new_work_row_def list_all_iff unpublished_graph_work_def map_concat)
  qed
  then show ?thesis using False val by (simp add: append_windows_def)
qed

lemma seal_effect:
  assumes "unpublished_graph_work G f"
  shows "work_effect D G db (fst (store_seal_and_finalization k s ds f db))"
  unfolding store_seal_and_finalization_def
proof (rule run_write_effect)
  fix db' b assume "seal_in_transaction k s ds f db = Inr (db', b)"
  then have same: "authority db' = authority db"
    and rows: "stream_work_plans db' \<in> {stream_work_plans db, stream_work_plans db @ [new_work_row k f]}"
    by (cases rule: seal_in_transaction_Inr, cases b; auto simp: insert_work_Inr)+
  from rows consider "stream_work_plans db' = stream_work_plans db"
    | "stream_work_plans db' = stream_work_plans db @ [new_work_row k f]" by blast
  then show "work_effect D G db db'"
  proof cases
    case 1
    with same show ?thesis by (rule work_effect.same [rotated])
  next
    case 2
    show ?thesis
      by (rule work_effect.added [OF 2 same]) (use assms in \<open>auto simp: new_work_row_def unpublished_graph_work_def\<close>)
  qed
qed

lemma closure_effect: "work_effect D G db (fst (store_closure_and_open_finalization k c st db))"
  unfolding store_closure_and_open_finalization_def
proof (rule run_write_effect)
  fix db' u assume "closure_in_transaction k c st db = Inr (db', u)"
  then have "authority db' = authority db \<and> stream_work_plans db' = stream_work_plans (upd_works
      (\<lambda>w. sw_plan_key w = k \<and> sw_stage w = st \<and> sw_publication_state w = GATED)
      (\<lambda>w. w\<lparr>sw_publication_state := PENDING\<rparr>) db)"
    by (auto simp: closure_in_transaction_def Let_def upd_works_def upd_plan_def split: option.splits if_splits list.splits)
  then show "work_effect D G db db'" by (auto intro: work_effect.opened)
qed

lemma publish_effect:
  assumes "\<forall>i \<in> set is. item_of (authority db) i \<noteq> None"
  shows "work_effect D G db (fst (mark_published_many is db))"
proof -
  let ?p = "\<lambda>w. sw_work_item_id w \<in> set is \<and> sw_publication_state w = PENDING"
  have "work_effect D G db (upd_works ?p publish_row db)"
    by (rule work_effect.published [where q = ?p]) (use assms in auto)
  then show ?thesis
    by (auto simp: mark_published_many_def Let_def run_write_def split: sum.splits)
qed

lemma store_effect:
  assumes wf: "wf_stream db" and lease: "u \<noteq> None" "now \<noteq> None"
  shows "work_effect D G db (fst (store_pending_terminal i p e t u now x db))"
proof -
  have "work_effect D G db (fst (run_write (store_pending_in_transaction i p e t u now x) db))"
  proof (rule run_write_effect)
    fix db' b assume "store_pending_in_transaction i p e t u now x db = Inr (db', b)"
    then show "work_effect D G db db'"
    proof (cases rule: store_pending_in_transaction_Inr)
      case (stored w)
      have "work_shape w" using wf_streamD(4) [OF wf] work_rowD(1) [OF stored(1)] by (simp add: wf_rows_iff)
      then have epoch: "y < e" if "sw_pending_lease_epoch w = Some y" for y
        using stored(5) that by (cases "sw_pending_terminal_json w") (auto simp: work_shape_def)
      obtain v where v: "item_of (authority db) i = Some v" "state v \<in> {LEASED, RUNNING}" "int (lease_epoch v) = e"
        using stored(6) lease by (auto simp: fence_holds_def)
      show ?thesis
        by (rule work_effect.stored [OF _ _ stored(1,2) epoch v(1) _ v(3)]) (use stored(4) v(2) in \<open>auto simp: leased_state_def\<close>)
    qed simp_all
  qed
  then show ?thesis by (simp add: store_pending_terminal_def)
qed

lemma set_member_works [simp]: "stream_work_plans (set_member db w m n) = stream_work_plans db"
  "authority (set_member db w m n) = authority db"
  by (auto simp: set_member_def split: option.splits)

lemma accept_effect:
  assumes "item_of (authority db) i = Some v" and "state v = SUCCEEDED" and "parsed_reports D p v"
  shows "work_effect D G db (fst (accept_pending_terminal i p m n db))"
  unfolding accept_pending_terminal_def
proof (rule run_write_effect)
  fix db' u assume "accept_in_transaction i p m n db = Inr (db', u)"
  then show "work_effect D G db db'"
  proof (cases rule: accept_in_transaction_Inr)
    case (promoted w)
    show ?thesis by (rule work_effect.accepted [OF _ _ promoted(1-3) assms]) (simp_all add: promoted(5))
  qed simp
qed

lemma controllers_authority:
  "authority (fst (claim_backpressure_controller k c v own s db)) = authority db"
  "authority (fst (save_backpressure_controller h st db)) = authority db"
  by (auto simp: claim_backpressure_controller_def claim_controller_in_transaction_def save_backpressure_controller_def
      run_write_def Let_def split: sum.splits option.splits)

lemma plan_ops_effect:
  "work_effect D G db (fst (register_plan k j s c db))"
  "work_effect D G db (fst (set_planner_eos k d db))"
  "work_effect D G db (fst (mark_export_barrier k m n db))"
  unfolding register_plan_def set_planner_eos_def mark_export_barrier_def
  by (rule run_write_effect, auto intro: work_effect.same split: option.splits if_splits)+

lemma command_effect:
  assumes "wf_stream db" and "delivery_allowed D G db cmd" and "\<And>c. cmd \<noteq> Scheduler_call c"
  shows "work_effect D G db (run_stream_command cmd db)"
proof (cases cmd)
  case (Append_windows k ws c p)
  with assms show ?thesis by (simp add: append_effect)
next
  case (Store_pending i p e t u now x)
  with assms show ?thesis using store_effect [OF assms(1)] by simp
next
  case (Accept_pending i p m n)
  with assms show ?thesis using accept_effect by auto
qed (use assms in \<open>auto simp: seal_effect closure_effect publish_effect plan_ops_effect
      controllers_same_works controllers_authority intro: work_effect.same\<close>)


section \<open>Commands keep the invariant\<close>

lemma work_row_append:
  assumes "stream_work_plans db' = stream_work_plans db @ ws"
  shows "work_row db' i = (case work_row db i of None \<Rightarrow> find_row (\<lambda>w. sw_work_item_id w = i) ws | Some w \<Rightarrow> Some w)"
  by (simp add: work_row_def assms find_row_append del: find_row_None)

lemma work_row_update:
  assumes "stream_work_plans db' = stream_work_plans (upd_works q f db)"
    and "\<And>w. sw_work_item_id (f w) = sw_work_item_id w"
  shows "work_row db' i = map_option (\<lambda>w. if q w then f w else w) (work_row db i)"
  unfolding views_cong(3) [OF assms(1)] by (rule work_row_upd [of f, OF assms(2)])

text \<open>What becomes of one row.\<close>

lemma effect_row:
  assumes "work_effect D G db db'" and "work_row db' i = Some r'"
  obtains (new) "work_row db i = None" "G i" "sw_publication_state r' \<noteq> PUBLISHED"
      "sw_terminal_evidence_json r' = None" "sw_pending_terminal_json r' = None"
  | (kept) r where "work_row db i = Some r" "sw_terminal_evidence_json r' = sw_terminal_evidence_json r"
      "sw_pending_terminal_json r' = sw_pending_terminal_json r" "sw_pending_lease_epoch r' = sw_pending_lease_epoch r"
      "sw_publication_state r' = PUBLISHED \<Longrightarrow> sw_publication_state r = PUBLISHED \<or> item_of (authority db) i \<noteq> None"
  | (intent) r p e t v where "work_row db i = Some r" "r' = set_pending p e t r" "sw_terminal_evidence_json r = None"
      "item_of (authority db) i = Some v" "leased_state (state v)" "int (lease_epoch v) = e"
      "\<And>y. sw_pending_lease_epoch r = Some y \<Longrightarrow> y < e"
  | (promoted) r p v where "work_row db i = Some r" "r' = promote_pending r" "sw_terminal_evidence_json r = None"
      "sw_pending_terminal_json r = Some p" "item_of (authority db) i = Some v" "state v = SUCCEEDED" "parsed_reports D p v"
  using assms(1)
proof cases
  case same
  then show ?thesis using kept [of r'] assms(2) views_cong(3) [OF same(1)] by simp
next
  case (added ws)
  show ?thesis
  proof (cases "work_row db i")
    case None
    then have "find_row (\<lambda>w. sw_work_item_id w = i) ws = Some r'" using assms(2) work_row_append [OF added(1)] by simp
    then have "r' \<in> set ws" "sw_work_item_id r' = i" using find_row_Some [of _ ws r'] by blast+
    then show ?thesis using new [OF None] added(3) [of r'] by simp
  next
    case (Some r)
    then have "r' = r" using assms(2) work_row_append [OF added(1)] by simp
    then show ?thesis using kept [OF Some] by simp
  qed
next
  case (opened q)
  obtain r where r: "work_row db i = Some r" "r' = (if q r then r\<lparr>sw_publication_state := PENDING\<rparr> else r)"
    using assms(2) work_row_update [OF opened(1)] by auto
  then show ?thesis by (intro kept [OF r(1)]) (auto split: if_splits)
next
  case (published q)
  obtain r where r: "work_row db i = Some r" "r' = (if q r then publish_row r else r)"
    using assms(2) work_row_update [OF published(1)] by (auto simp: publish_row_def)
  then show ?thesis
    using published(3) [of r] work_rowD(2) [OF r(1)]
    by (intro kept [OF r(1)]) (auto simp: publish_row_def split: if_splits)
next
  case (stored j p e t s v)
  obtain r where r: "work_row db i = Some r" "r' = (if sw_work_item_id r = j then set_pending p e t r else r)"
    using assms(2) work_row_update [OF stored(1)] by (auto simp: set_pending_def)
  show ?thesis
  proof (cases "i = j")
    case True
    then have "s = r" "r' = set_pending p e t r" using r stored(3) work_rowD(2) [OF r(1)] by simp_all
    then show ?thesis using intent [OF r(1), of p e t v] stored True by simp
  next
    case False
    then have "r' = r" using r work_rowD(2) [OF r(1)] by simp
    then show ?thesis using kept [OF r(1)] by simp
  qed
next
  case (accepted j s p v)
  obtain r where r: "work_row db i = Some r" "r' = (if sw_work_item_id r = j then promote_pending r else r)"
    using assms(2) work_row_update [OF accepted(1)] by (auto simp: promote_pending_def)
  show ?thesis
  proof (cases "i = j")
    case True
    then have "s = r" "r' = promote_pending r" using r accepted(3) work_rowD(2) [OF r(1)] by simp_all
    then show ?thesis using promoted [OF r(1), of p v] accepted True by simp
  next
    case False
    then have "r' = r" using r work_rowD(2) [OF r(1)] by simp
    then show ?thesis using kept [OF r(1)] by simp
  qed
qed

lemma effect_authority: "work_effect D G db db' \<Longrightarrow> authority db' = authority db"
  by (auto elim: work_effect.cases)

lemma effect_inv:
  assumes inv: "delivery_inv D G db" and eff: "work_effect D G db db'" and wf: "wf_stream db'"
    and grows: "works_evolve db db'"
  shows "delivery_inv D G db'"
proof -
  note auth = effect_authority [OF eff]
  have "\<exists>w. item_of (authority db) i = Some w \<and> state w = SUCCEEDED \<and> parsed_reports D p w"
    if r': "work_row db' i = Some r'" "sw_terminal_evidence_json r' = Some p" for i r' p
    using eff r'(1)
  proof (cases rule: effect_row)
    case (promoted r q v)
    then show ?thesis using r'(2) by (auto simp: promote_pending_def)
  qed (use inv r'(2) in \<open>auto simp: delivery_inv_def evidence_inv_def set_pending_def\<close>)
  then have ev: "evidence_inv D db'" by (simp add: evidence_inv_def auth)
  have "item_of (authority db) i \<noteq> None"
    if r': "work_row db' i = Some r'" "sw_publication_state r' = PUBLISHED" for i r'
    using eff r'(1)
  proof (cases rule: effect_row)
    case (kept r)
    then show ?thesis using inv r'(2) unfolding delivery_inv_def published_inv_def by blast
  qed (use r'(2) in auto)
  then have pub: "published_inv db'" by (simp add: published_inv_def auth)
  have "G i" if r': "work_row db' i = Some r'" for i r'
    using eff r'
    by (cases rule: effect_row) (use inv in \<open>auto simp: delivery_inv_def graph_inv_def\<close>)
  then have gr: "graph_inv G db'" by (auto simp: graph_inv_def)
  have "\<exists>r p. work_row db' i = Some r \<and> has_payload r p \<and> reports D p (result_reference w) (result_sha256 w)"
    if w: "G i" "item_of (authority db) i = Some w" "state w = SUCCEEDED" for i w
  proof -
    obtain r p where r: "work_row db i = Some r" "has_payload r p" "reports D p (result_reference w) (result_sha256 w)"
      using inv w unfolding delivery_inv_def success_inv_def by blast
    obtain r' where r': "work_row db' i = Some r'" using grows r(1) unfolding works_evolve_def by blast
    have "has_payload r' p" using eff r'
    proof (cases rule: effect_row)
      case (intent s q e t v)
      then show ?thesis using w(2,3) by simp
    qed (use r(1,2) in \<open>auto simp: has_payload_def promote_pending_def\<close>)
    with r(3) r' show ?thesis by blast
  qed
  then have "success_inv D G db'" by (simp add: success_inv_def auth)
  with ev pub gr wf show ?thesis by (simp add: delivery_inv_def)
qed

lemma scheduler_inv:
  assumes inv: "delivery_inv D G db" and ok: "delivery_allowed D G db (Scheduler_call c)"
    and wf: "wf_stream (db\<lparr>authority := run_command c (authority db)\<rparr>)"
  shows "delivery_inv D G (db\<lparr>authority := run_command c (authority db)\<rparr>)"
proof -
  let ?db = "db\<lparr>authority := run_command c (authority db)\<rparr>"
  have wfl: "wf_ledger (authority db)" using inv by (simp add: delivery_inv_def wf_stream_def)
  have rows: "work_row ?db = work_row db" by (rule views_cong(3)) simp
  have keep: "\<exists>w'. item_of (run_command c (authority db)) i = Some w' \<and> row_evolves w w'"
    if "item_of (authority db) i = Some w" for i w
    using command_frame [OF wfl, of c] that unfolding sched_frame_def by meson
  have "evidence_inv D ?db" unfolding evidence_inv_def rows
  proof (intro allI impI)
    fix i r p assume "work_row db i = Some r" "sw_terminal_evidence_json r = Some p"
    then obtain w where w: "item_of (authority db) i = Some w" "state w = SUCCEEDED" "parsed_reports D p w"
      using inv unfolding delivery_inv_def evidence_inv_def by blast
    with keep [OF w(1)] show "\<exists>w. item_of (authority ?db) i = Some w \<and> state w = SUCCEEDED \<and> parsed_reports D p w"
      by (auto simp: row_evolves_def)
  qed
  moreover have "published_inv ?db" unfolding published_inv_def rows
  proof (intro allI impI)
    fix i r assume "work_row db i = Some r" "sw_publication_state r = PUBLISHED"
    then obtain w where "item_of (authority db) i = Some w" using inv unfolding delivery_inv_def published_inv_def by blast
    with keep show "item_of (authority ?db) i \<noteq> None" by fastforce
  qed
  moreover have "success_inv D G ?db" unfolding success_inv_def rows
  proof (intro allI impI)
    fix i w assume g: "G i" and w: "item_of (authority ?db) i = Some w" and st: "state w = SUCCEEDED"
    from w have row: "item_of (run_command c (authority db)) i = Some w" by simp
    show "\<exists>r p. work_row db i = Some r \<and> has_payload r p \<and> reports D p (result_reference w) (result_sha256 w)"
      using wfl row st
    proof (cases rule: command_success)
      case old
      then show ?thesis using inv g st unfolding delivery_inv_def success_inv_def by blast
    next
      case (succeeded lease ref sha now v)
      then show ?thesis using ok g by auto
    qed
  qed
  ultimately show ?thesis using inv wf by (simp add: delivery_inv_def graph_inv_def rows)
qed

lemma allowed_evolves:
  assumes "delivery_inv D G db" and "delivery_allowed D G db cmd"
  shows "wf_stream (run_stream_command cmd db)" and "stream_evolves db (run_stream_command cmd db)"
proof -
  have wf: "wf_stream db" using assms(1) by (simp add: delivery_inv_def)
  have s: "ssteps db (run_stream_command cmd db)" by (rule stream_command_steps [OF wf allowed_client_ok [OF assms(2)]])
  show "wf_stream (run_stream_command cmd db)" by (rule steps_wf [OF s wf])
  show "stream_evolves db (run_stream_command cmd db)" by (rule steps_evolves [OF s wf])
qed

lemma allowed_inv:
  assumes "delivery_inv D G db" and "delivery_allowed D G db cmd"
  shows "delivery_inv D G (run_stream_command cmd db)"
proof (cases "\<exists>c. cmd = Scheduler_call c")
  case True
  then show ?thesis using scheduler_inv assms allowed_evolves(1) [OF assms] by auto
next
  case False
  have "wf_stream db" using assms(1) by (simp add: delivery_inv_def)
  then have "work_effect D G db (run_stream_command cmd db)" using command_effect assms(2) False by blast
  then show ?thesis
    using effect_inv [OF assms(1)] allowed_evolves [OF assms] by (simp add: stream_evolves_def)
qed

lemma empty_delivery_inv: "delivery_inv D G empty_stream_db"
  using wf_empty_stream
  by (simp add: delivery_inv_def evidence_inv_def success_inv_def published_inv_def graph_inv_def
      empty_stream_db_def work_row_def find_row_def empty_ledger_def item_of_def)

section \<open>Later databases\<close>

text \<open>
  A stored intent stays until it is accepted, or until the item was leased anew.
\<close>

definition intent_kept :: "stream_db \<Rightarrow> stream_db \<Rightarrow> bool" where
  "intent_kept db db' \<longleftrightarrow> (\<forall>i r p e. work_row db i = Some r \<longrightarrow> sw_pending_terminal_json r = Some p \<longrightarrow>
     sw_pending_lease_epoch r = Some e \<longrightarrow>
     (\<exists>r'. work_row db' i = Some r' \<and>
        (sw_pending_terminal_json r' = Some p \<and> sw_pending_lease_epoch r' = Some e
         \<or> sw_terminal_evidence_json r' \<noteq> None
         \<or> (\<exists>v. item_of (authority db') i = Some v \<and> e < int (lease_epoch v)))))"

definition delivery_later :: "stream_db \<Rightarrow> stream_db \<Rightarrow> bool" where
  "delivery_later db db' \<longleftrightarrow> stream_evolves db db' \<and> intent_kept db db'"

lemma delivery_later_refl: "delivery_later db db"
  by (auto simp: delivery_later_def intent_kept_def)

lemma later_execution:
  assumes "stream_evolves db db'" and "item_of (authority db) i = Some w"
  shows "\<exists>w'. item_of (authority db') i = Some w' \<and> row_evolves w w'"
  using assms unfolding stream_evolves_def evolves_def by blast

lemma later_row:
  assumes "stream_evolves db db'" and "work_row db i = Some r"
  shows "\<exists>r'. work_row db' i = Some r' \<and> work_evolves r r'"
  using assms unfolding stream_evolves_def works_evolve_def by blast

lemma later_evidence:
  assumes "stream_evolves db db'" and "work_row db i = Some r" and "sw_terminal_evidence_json r = Some p"
  shows "\<exists>r'. work_row db' i = Some r' \<and> sw_terminal_evidence_json r' = Some p"
  using later_row [OF assms(1,2)] assms(3) by (auto simp: work_evolves_def)

lemma intent_kept_trans:
  assumes ab: "intent_kept a b" and bc: "intent_kept b c" and ev: "stream_evolves b c"
  shows "intent_kept a c"
  unfolding intent_kept_def
proof (intro allI impI)
  fix i r p e assume r: "work_row a i = Some r" "sw_pending_terminal_json r = Some p" "sw_pending_lease_epoch r = Some e"
  let ?goal = "\<lambda>db r'. work_row db i = Some r' \<and> (sw_pending_terminal_json r' = Some p \<and> sw_pending_lease_epoch r' = Some e
     \<or> sw_terminal_evidence_json r' \<noteq> None \<or> (\<exists>v. item_of (authority db) i = Some v \<and> e < int (lease_epoch v)))"
  obtain s where s: "?goal b s" using ab r unfolding intent_kept_def by blast
  then consider "sw_pending_terminal_json s = Some p" "sw_pending_lease_epoch s = Some e"
    | q where "sw_terminal_evidence_json s = Some q"
    | v where "item_of (authority b) i = Some v" "e < int (lease_epoch v)" by auto
  then show "\<exists>r'. ?goal c r'"
  proof cases
    case 1
    then show ?thesis using bc s unfolding intent_kept_def by blast
  next
    case 2
    then show ?thesis using later_evidence [OF ev conjunct1 [OF s]] by fastforce
  next
    case 3
    obtain v' where v': "item_of (authority c) i = Some v'" "row_evolves v v'" using later_execution [OF ev 3(1)] by blast
    then have "e < int (lease_epoch v')" using 3(2) by (auto simp: row_evolves_def)
    then show ?thesis using v'(1) later_row [OF ev conjunct1 [OF s]] by blast
  qed
qed

lemma delivery_later_trans: "delivery_later a b \<Longrightarrow> delivery_later b c \<Longrightarrow> delivery_later a c"
  unfolding delivery_later_def using stream_evolves_trans intent_kept_trans by blast

lemma effect_keeps_intent:
  assumes eff: "work_effect D G db db'" and grows: "works_evolve db db'"
  shows "intent_kept db db'"
  unfolding intent_kept_def
proof (intro allI impI)
  fix i r p e assume r: "work_row db i = Some r" "sw_pending_terminal_json r = Some p" "sw_pending_lease_epoch r = Some e"
  obtain r' where r': "work_row db' i = Some r'" using grows r(1) unfolding works_evolve_def by blast
  have "sw_pending_terminal_json r' = Some p \<and> sw_pending_lease_epoch r' = Some e
      \<or> sw_terminal_evidence_json r' \<noteq> None \<or> (\<exists>v. item_of (authority db') i = Some v \<and> e < int (lease_epoch v))"
    using eff r'
  proof (cases rule: effect_row)
    case (intent s q f t v)
    then have "e < f" using r by simp
    then show ?thesis using intent effect_authority [OF eff] by auto
  next
    case (promoted s q v)
    then show ?thesis by (simp add: promote_pending_def)
  qed (use r in auto)
  with r' show "\<exists>r'. work_row db' i = Some r' \<and> (sw_pending_terminal_json r' = Some p \<and> sw_pending_lease_epoch r' = Some e
      \<or> sw_terminal_evidence_json r' \<noteq> None \<or> (\<exists>v. item_of (authority db') i = Some v \<and> e < int (lease_epoch v)))"
    by blast
qed

lemma allowed_later:
  assumes inv: "delivery_inv D G db" and ok: "delivery_allowed D G db cmd"
  shows "delivery_later db (run_stream_command cmd db)"
proof -
  note ev = allowed_evolves(2) [OF assms]
  have "intent_kept db (run_stream_command cmd db)"
  proof (cases "\<exists>c. cmd = Scheduler_call c")
    case True
    then have "work_row (run_stream_command cmd db) = work_row db" by (intro views_cong(3)) auto
    then show ?thesis by (auto simp: intent_kept_def)
  next
    case False
    have "wf_stream db" using inv by (simp add: delivery_inv_def)
    then have "work_effect D G db (run_stream_command cmd db)" using command_effect ok False by blast
    then show ?thesis using effect_keeps_intent ev by (auto simp: stream_evolves_def)
  qed
  with ev show ?thesis by (simp add: delivery_later_def)
qed

interpretation rule: ledger_rule "delivery_inv D G" delivery_later "delivery_allowed D G"
  for D :: stream_docs and G :: "string \<Rightarrow> bool"
proof
  show "delivery_later a c" if "delivery_later a b" "delivery_later b c" for a b c
    using delivery_later_trans that .
qed (rule delivery_later_refl allowed_inv allowed_later; assumption?)+

end
