(* ===== verification/Delivery_Properties.thy ===== *)
theory Delivery_Properties
  imports Delivery_Invariant
begin

text \<open>
  The guarantees of the executing half of the stream scheduler: its programs are safe for the
  invariant of \<open>Delivery_Invariant\<close>, so that it holds in every state of every interleaving
  with crashes; and what a completion and a recovery achieve.
\<close>

section \<open>Calm programs\<close>

fun harmless :: "stream_command \<Rightarrow> bool" where
  "harmless (Scheduler_call (Succeed lease ref sha now)) \<longleftrightarrow> False"
| "harmless (Scheduler_call c) \<longleftrightarrow> True"
| "harmless _ \<longleftrightarrow> False"

lemma harmless_allowed: "harmless cmd \<Longrightarrow> delivery_allowed D G db cmd"
  by (cases cmd rule: harmless.cases) auto

abbreviation dsafe ::
    "stream_docs \<Rightarrow> (string \<Rightarrow> bool) \<Rightarrow> 'r prog \<Rightarrow> ('r \<Rightarrow> stream_db \<Rightarrow> bool) \<Rightarrow> stream_db \<Rightarrow> bool" where
  "dsafe D G \<equiv> safe (delivery_inv D G) delivery_later (delivery_allowed D G)"

lemma calm_dsafe: "calm harmless p \<Longrightarrow> dsafe D G p (\<lambda>_ _. True) db"
  by (erule calm_safe) (rule harmless_allowed)

lemma calm_fact:
  assumes "calm harmless p" and "F db" and "\<And>a b. F a \<Longrightarrow> delivery_later a b \<Longrightarrow> F b"
  shows "dsafe D G p (on_result (\<lambda>_ db'. F db')) db"
  using rule.safe_frame [OF calm_dsafe [OF assms(1)], of F, OF assms(2,3)]
  by (rule safe_mono) (simp_all add: on_result_def split: sum.splits)

lemma dsafe_True: "dsafe D G p (on_result Q) db \<Longrightarrow> dsafe D G p (\<lambda>_ _. True) db"
  by (erule safe_mono) simp

lemma calm_rows:
  "calm harmless (remember_work_row N w)"
  "calm harmless (stored_work_row N i b)"
  "calm harmless (stored_work_plan D N i b)"
  "calm harmless (stored_work_plan_by_key D N key)"
  "calm harmless (cached_published_work_row N i)"
  by (auto simp: remember_work_row_def stored_work_row_def stored_work_plan_def stored_work_plan_by_key_def
      cached_published_work_row_def intro!: calm_pthen)

lemma calm_projection: "calm harmless (internal_execution_projection D N batch plan)"
  unfolding internal_execution_projection_def execution_dependency_def
  by (intro calm_pthen calm_ptraverse) (auto simp: calm_rows split: option.splits)

lemma calm_member: "calm harmless (terminal_member_raw D N row plan evidence)"
  by (auto simp: terminal_member_raw_def intro!: calm_pthen split: option.splits sum.splits prod.splits)

lemma calm_leases:
  "calm harmless (stream_start D N lease now)"
  "calm harmless (stream_heartbeat D N lease d now)"
  "calm harmless (fail_retryable D N lease code detail now)"
  "calm harmless (get_stream_item D N i)"
  unfolding stream_start_def stream_heartbeat_def fail_retryable_def get_stream_item_def
  by (intro calm_pthen; simp add: calm_rows)+

lemma calm_resume: "calm harmless (resume_owned_active D N worker d i now)"
  unfolding resume_owned_active_def
  by (intro calm_pthen) (auto simp: calm_rows calm_leases intro!: calm_pthen calm_except split: option.splits)

section \<open>Publication\<close>

lemma safe_projection:
  "dsafe D G (internal_execution_projection D N batch plan) (on_result (\<lambda>y _. fst y = execution_plan D plan)) db"
  unfolding internal_execution_projection_def
proof (rule safe_pthenI)
  show "dsafe D G (ptraverse (execution_dependency D N batch plan) (pl_ordered_dependencies plan)) (on_result (\<lambda>_ _. True)) db"
    by (rule calm_fact [where F = "\<lambda>_. True"], intro calm_ptraverse)
      (auto simp: execution_dependency_def calm_rows intro!: calm_pthen split: option.splits)
qed simp

lemma later_items:
  "\<forall>i \<in> S. item_of (authority a) i \<noteq> None \<Longrightarrow> delivery_later a b \<Longrightarrow> \<forall>i \<in> S. item_of (authority b) i \<noteq> None"
  using later_execution unfolding delivery_later_def by fastforce

lemma projected_ids:
  "list_all2 (\<lambda>pl p. fst p = execution_plan D pl) parsed ps \<Longrightarrow> map pl_work_item_id parsed = map (work_item_id \<circ> fst) ps"
  by (induction parsed ps rule: list_all2_induct) (simp_all add: execution_plan_def)

lemma safe_projections:
  "dsafe D G (ptraverse (internal_execution_projection D N parsed) parsed)
    (on_result (\<lambda>ps _. map pl_work_item_id parsed = map (work_item_id \<circ> fst) ps)) db"
proof (rule safe_result_mono)
  show "dsafe D G (ptraverse (internal_execution_projection D N parsed) parsed)
      (on_result (\<lambda>ps db'. list_all2 (\<lambda>pl p. fst p = execution_plan D pl) parsed ps \<and> True)) db"
    using safe_projection by (intro safe_ptraverse) simp_all
qed (simp add: projected_ids)

lemma safe_publish: "dsafe D G (publish_work_rows D N rows) (on_result (\<lambda>_ _. True)) db"
proof -
  let ?pending = "filter (\<lambda>row. sw_publication_state row = PENDING) rows"
  let ?planned = "\<lambda>parsed (db :: stream_db). \<forall>i \<in> set (map pl_work_item_id parsed). item_of (authority db) i \<noteq> None"
  have mark: "dsafe D G (ledger_call (Some (Mark_published_many (map pl_work_item_id parsed)))
      (mark_published_many (map pl_work_item_id parsed))) (on_result (\<lambda>_ _. True)) db"
    if "?planned parsed db" for parsed :: "StreamWorkItemPlan list" and db
    by (rule safe_call) (use later_items [OF that] in simp)
  have plan: "dsafe D G (execution_call (Some (Plan_many ps)) (plan_many ps)) (on_result (\<lambda>_. ?planned parsed)) db"
    if ids: "map pl_work_item_id parsed = map (work_item_id \<circ> fst) ps" for parsed ps db
  proof (rule safe_execution_call, intro conjI allI impI)
    fix db' :: stream_db and items assume r: "snd (plan_many ps (authority db')) = Inr items"
    then have run: "plan_many ps (authority db') = (fst (plan_many ps (authority db')), Inr items)" by (simp add: prod_eq_iff)
    from plan_many_items [OF run] show "?planned parsed (run_optional (map_option Scheduler_call (Some (Plan_many ps))) db')"
      unfolding ids by (auto simp: run_optional_def)
  qed auto
  have rest: "dsafe D G (pthen (ptraverse (remember_published_work_row N) ?pending) (\<lambda>_. Done (Inr n))) (on_result (\<lambda>_ _. True)) db"
    for n :: nat and db
    by (rule calm_fact [where F = "\<lambda>_. True"])
      (auto simp: remember_published_work_row_def calm_rows intro!: calm_pthen calm_ptraverse)
  show ?thesis
  proof (cases "?pending = []")
    case True
    then show ?thesis by (simp add: publish_work_rows_def)
  next
    case False
    have tail: "dsafe D G (pthen (ptraverse (internal_execution_projection D N parsed) parsed) (\<lambda>projections.
        pthen (execution_call (Some (Plan_many projections)) (plan_many projections)) (\<lambda>_.
        pthen (ledger_call (Some (Mark_published_many (map pl_work_item_id parsed)))
          (mark_published_many (map pl_work_item_id parsed))) (\<lambda>_.
        pthen (ptraverse (remember_published_work_row N) ?pending) (\<lambda>_. Done (Inr (length parsed)))))))
        (on_result (\<lambda>_ _. True)) db" for parsed db
      by (rule safe_pthenI [OF safe_projections], rule safe_pthenI [OF plan], assumption, rule safe_pthenI [OF mark], assumption, rule rest)
    show ?thesis unfolding publish_work_rows_def Let_def using False
      by (simp only: if_False) (rule safe_pthenI [where R = "\<lambda>_ _. True"], simp add: on_result_def split: sum.splits, rule tail)
  qed
qed


section \<open>Acceptance and recovery\<close>

lemma later_terminal:
  assumes "item_of (authority a) i = Some w" and "terminal_state (state w)" and "delivery_later a b"
  shows "item_of (authority b) i = Some w"
  using later_execution [OF _ assms(1), of b] assms(2,3) by (auto simp: delivery_later_def row_evolves_def)

lemma parse_evidence_Inr:
  "parse_evidence D label payload = Inr e \<longleftrightarrow> doc_parse_evidence D payload = Some e \<and> doc_evidence_bytes D e = payload"
  by (auto simp: parse_evidence_def parse_exact_def split: option.splits)

text \<open>The evidence accepted for an item, which no later database changes.\<close>

definition evidence_of :: "stream_db \<Rightarrow> string \<Rightarrow> string option" where
  "evidence_of db i = Option.bind (work_row db i) sw_terminal_evidence_json"

lemma evidence_of_row: "work_row db i = Some r \<Longrightarrow> evidence_of db i = sw_terminal_evidence_json r"
  by (simp add: evidence_of_def)

lemma evidence_of_later: "evidence_of a i = Some raw \<Longrightarrow> delivery_later a b \<Longrightarrow> evidence_of b i = Some raw"
proof -
  assume h: "evidence_of a i = Some raw" "delivery_later a b"
  from h(1) obtain r where r: "work_row a i = Some r" "sw_terminal_evidence_json r = Some raw"
    by (auto simp: evidence_of_def bind_eq_Some_conv)
  from h(2) have "stream_evolves a b" by (simp add: delivery_later_def)
  from later_evidence [OF this r] show "evidence_of b i = Some raw" by (auto simp: evidence_of_def)
qed

text \<open>The row read earlier shows no evidence other than the accepted one.\<close>

definition seen_row :: "string \<Rightarrow> StoredStreamWorkPlan \<Rightarrow> stream_db \<Rightarrow> bool" where
  "seen_row i row db \<longleftrightarrow> (\<forall>raw. sw_terminal_evidence_json row = Some raw \<longrightarrow> evidence_of db i = Some raw)"

lemma seen_row_later: "seen_row i row a \<Longrightarrow> delivery_later a b \<Longrightarrow> seen_row i row b"
  unfolding seen_row_def using evidence_of_later [of a i _ b] by simp

lemma accept_evidence:
  assumes "snd (accept_pending_terminal i raw m n db) = Inr u"
  shows "evidence_of (fst (accept_pending_terminal i raw m n db)) i = Some raw"
proof -
  let ?db = "fst (accept_pending_terminal i raw m n db)"
  have "accept_in_transaction i raw m n db = Inr (?db, u)"
    using assms by (auto simp: accept_pending_terminal_def run_write_def split: sum.splits if_splits)
  then show ?thesis
  proof (cases rule: accept_in_transaction_Inr)
    case (promoted w)
    let ?up = "upd_works (\<lambda>w. sw_work_item_id w = i) promote_pending db"
    have "stream_work_plans ?db = stream_work_plans ?up"
      unfolding promoted(5) by (simp add: set_member_def upd_windows_def split: option.splits)
    then have "work_row ?db i = work_row ?up i" by (simp add: work_row_def)
    also have "\<dots> = Some (promote_pending w)"
      using promoted(1) work_rowD(2) [OF promoted(1)] by (simp add: work_row_upd promote_pending_def)
    finally show ?thesis using promoted(3) by (simp add: evidence_of_def promote_pending_def)
  qed (simp add: evidence_of_def)
qed

lemma safe_accept:
  assumes exe: "item_of (authority db) i = Some execution" and seen: "seen_row i row db"
  shows "dsafe D G (accept_pending D N i row execution pending_raw) (on_result (\<lambda>_ db'. evidence_of db' i \<noteq> None
      \<and> (\<forall>raw. sw_terminal_evidence_json row = None \<longrightarrow> pending_raw = Some raw \<longrightarrow> evidence_of db' i = Some raw))) db"
    (is "dsafe D G _ (on_result ?post) db")
proof (cases "state execution \<noteq> SUCCEEDED \<or> sw_work_item_id row \<noteq> i \<or> sw_plan_key row \<noteq> sn_plan_key N
    \<or> sw_terminal_evidence_json row \<noteq> None \<or> (if pending_raw = None then sw_pending_terminal_json row else pending_raw) = None")
  case True
  then show ?thesis using seen by (auto simp: accept_pending_def seen_row_def)
next
  case False
  then obtain raw where raw: "(if pending_raw = None then sw_pending_terminal_json row else pending_raw) = Some raw" by auto
  let ?F = "\<lambda>db. item_of (authority db) i = Some execution"
  have st: "terminal_state (state execution)" using False by simp
  have keep: "?F b" if "?F a" "delivery_later a b" for a b using later_terminal [OF that(1) st that(2)] .
  have member: "dsafe D G (terminal_member_raw D N row plan e) (on_result (\<lambda>_ db. ?F db)) db" if "?F db" for plan e db
    using calm_member that keep by (rule calm_fact)
  have accept: "dsafe D G (ledger_call (Some (Accept_pending i raw m (sw_expected_ordinal row)))
      (accept_pending_terminal i raw m (sw_expected_ordinal row))) (on_result ?post) db"
    if "?F db" "parsed_reports D raw execution" for m db
    by (rule safe_call)
      (use keep [OF that(1)] that(2) False raw in \<open>auto simp: run_optional_def accept_evidence split: if_splits\<close>)
  show ?thesis
  proof (cases "parse_evidence D ''pending terminal evidence'' raw")
    case (Inl e)
    then show ?thesis using False raw by (simp add: accept_pending_def)
  next
    case (Inr e)
    have tail: "dsafe D G (pthen (Done (parse_plan D ''stream work plan'' (sw_plan_json row))) (\<lambda>plan.
        pthen (terminal_member_raw D N row plan e) (\<lambda>member.
        ledger_call (Some (Accept_pending i raw member (sw_expected_ordinal row)))
          (accept_pending_terminal i raw member (sw_expected_ordinal row))))) (on_result ?post) db'"
      if h: "parsed_reports D raw execution \<and> ?F db'" for db'
      using safe_pthenI [OF member accept] h by (cases "parse_plan D ''stream work plan'' (sw_plan_json row)") auto
    have "dsafe D G (pthen (check (result_reference execution = Some (terminal_result_reference e)
            \<and> result_sha256 execution = Some (ar_exact_sha256 (te_evidence_ref e))) err) (\<lambda>_.
        pthen (Done (parse_plan D ''stream work plan'' (sw_plan_json row))) (\<lambda>plan.
        pthen (terminal_member_raw D N row plan e) (\<lambda>member.
        ledger_call (Some (Accept_pending i raw member (sw_expected_ordinal row)))
          (accept_pending_terminal i raw member (sw_expected_ordinal row)))))) (on_result ?post) db" for err
    proof (rule safe_pthenI [OF safe_check tail])
      assume "result_reference execution = Some (terminal_result_reference e)
        \<and> result_sha256 execution = Some (ar_exact_sha256 (te_evidence_ref e))"
      then show "parsed_reports D raw execution \<and> ?F db"
        using Inr exe by (auto simp: parsed_reports_def parse_evidence_Inr)
    qed
    then show ?thesis using False raw Inr by (simp add: accept_pending_def)
  qed
qed

lemma get_item_Inr: "snd (get_item i l) = Inr w \<Longrightarrow> item_of l i = Some w"
  by (auto simp: get_item_def read_only_def transaction_def result_simps split: sum.splits)

lemma safe_get:
  "dsafe D G (execution_call None (get_item i)) (on_result (\<lambda>w db. item_of (authority db) i = Some w)) db"
  by (rule safe_execution_call) (auto simp: run_optional_def dest: get_item_Inr)

text \<open>A recovery accepts the evidence of all items that had succeeded.\<close>

definition succeeded_in :: "stream_db \<Rightarrow> string \<Rightarrow> bool" where
  "succeeded_in db i \<longleftrightarrow> (\<exists>w. item_of (authority db) i = Some w \<and> state w = SUCCEEDED)"

lemma succeeded_later: "succeeded_in a i \<Longrightarrow> delivery_later a b \<Longrightarrow> succeeded_in b i"
  unfolding succeeded_in_def using later_terminal [of a i _ b] by auto

lemma safe_recover_rows:
  assumes "\<forall>row \<in> set rows. seen_row (sw_work_item_id row) row db"
  shows "dsafe D G (recover_rows D N rows) (on_result (\<lambda>_ db'.
    \<forall>row \<in> set rows. succeeded_in db (sw_work_item_id row) \<longrightarrow> evidence_of db' (sw_work_item_id row) \<noteq> None)) db"
  using assms
proof (induction rows arbitrary: db)
  case (Cons row rows)
  let ?i = "sw_work_item_id row"
  let ?F = "\<lambda>b. (\<forall>row \<in> set (row # rows). seen_row (sw_work_item_id row) row b)
      \<and> (\<forall>j. succeeded_in db j \<longrightarrow> succeeded_in b j)"
  have F: "?F b" if "?F a" "delivery_later a b" for a b
    using that seen_row_later succeeded_later by blast
  let ?post = "\<lambda>b. \<forall>row \<in> set rows. succeeded_in db (sw_work_item_id row) \<longrightarrow> evidence_of b (sw_work_item_id row) \<noteq> None"
  have rest: "dsafe D G (recover_rows D N rows) (on_result (\<lambda>_. ?post)) b" if "?F b" for b
    by (rule safe_result_mono [OF Cons.IH]) (use that in auto)
  have accepted: "evidence_of b ?i \<noteq> None" if "evidence_of a ?i \<noteq> None" "delivery_later a b" for a b
    using that evidence_of_later by blast
  show ?case unfolding recover_rows.simps
  proof (rule safe_pthenI [OF rule.safe_frame_result [where F = ?F, OF safe_get _ F]])
    show "?F db" using Cons.prems by simp
  next
    fix w b assume w: "item_of (authority b) ?i = Some w \<and> ?F b"
    let ?goal = "\<lambda>_ db'. \<forall>row \<in> set (row # rows). succeeded_in db (sw_work_item_id row) \<longrightarrow> evidence_of db' (sw_work_item_id row) \<noteq> None"
    show "dsafe D G (if state w \<noteq> SUCCEEDED then recover_rows D N rows
        else pthen (accept_pending D N ?i row w None) (\<lambda>_.
          pthen (recover_rows D N rows) (\<lambda>accepted. Done (Inr (accepted + 1))))) (on_result ?goal) b"
    proof (cases "state w = SUCCEEDED")
      case False
      then have "\<not> succeeded_in db ?i" using w by (auto simp: succeeded_in_def)
      with False safe_result_mono [OF rest] w show ?thesis by simp
    next
      case True
      have acc: "dsafe D G (accept_pending D N ?i row w None) (on_result (\<lambda>_ db'. evidence_of db' ?i \<noteq> None \<and> ?F db')) b"
        by (rule safe_result_mono [OF rule.safe_frame_result [where F = ?F, OF safe_accept _ F]]) (use w in auto)
      have "dsafe D G (recover_rows D N rows) (on_result (\<lambda>_ b. ?post b \<and> evidence_of b ?i \<noteq> None)) c"
        if "evidence_of c ?i \<noteq> None \<and> ?F c" for c
        by (rule rule.safe_frame_result [OF rest]) (use that accepted in auto)
      then have "dsafe D G (pthen (recover_rows D N rows) (\<lambda>accepted. Done (Inr (accepted + 1)))) (on_result ?goal) c"
        if "evidence_of c ?i \<noteq> None \<and> ?F c" for c
        by (rule safe_pthenI [OF _]) (use that in simp_all)
      then have "dsafe D G (pthen (accept_pending D N ?i row w None) (\<lambda>_.
          pthen (recover_rows D N rows) (\<lambda>accepted. Done (Inr (accepted + 1))))) (on_result ?goal) b"
        by (rule safe_pthenI [OF acc])
      with True show ?thesis by simp
    qed
  qed
qed simp

lemma pending_rows_read:
  assumes inv: "delivery_inv D G db" and rows: "snd (pending_work_rows k db) = Inr rows"
  shows "\<forall>row \<in> set rows. seen_row (sw_work_item_id row) row db"
    and "work_row db i = Some r \<Longrightarrow> sw_plan_key r = k \<Longrightarrow> succeeded_in db i \<Longrightarrow>
      evidence_of db i \<noteq> None \<or> (\<exists>row \<in> set rows. sw_work_item_id row = i)"
proof -
  have set: "set rows = {w \<in> set (stream_work_plans db). sw_plan_key w = k \<and> sw_pending_terminal_json w \<noteq> None}"
    using rows by (auto simp: pending_work_rows_def run_read_def)
  have "distinct (map sw_work_item_id (stream_work_plans db))"
    using inv by (simp add: delivery_inv_def wf_stream_def wf_keys_def)
  then have "work_row db (sw_work_item_id row) = Some row" if "row \<in> set rows" for row
    unfolding work_row_def using that set by (intro find_row_key) auto
  then show "\<forall>row \<in> set rows. seen_row (sw_work_item_id row) row db" by (simp add: seen_row_def evidence_of_row)
  assume r: "work_row db i = Some r" "sw_plan_key r = k" and "succeeded_in db i"
  then obtain w where w: "item_of (authority db) i = Some w" "state w = SUCCEEDED" by (auto simp: succeeded_in_def)
  have "G i" using inv r(1) by (simp add: delivery_inv_def graph_inv_def)
  with w inv r(1) obtain p where "has_payload r p" unfolding delivery_inv_def success_inv_def by fastforce
  then show "evidence_of db i \<noteq> None \<or> (\<exists>row \<in> set rows. sw_work_item_id row = i)"
    using r set work_rowD [OF r(1)] by (auto simp: has_payload_def evidence_of_row)
qed

lemma safe_recover:
  "dsafe D G (recover D N) (on_result (\<lambda>_ db'. \<forall>i r. work_row db i = Some r \<longrightarrow> sw_plan_key r = sn_plan_key N \<longrightarrow>
    succeeded_in db i \<longrightarrow> evidence_of db' i \<noteq> None)) db"
proof -
  define S where "S = {i. \<exists>r. work_row db i = Some r \<and> sw_plan_key r = sn_plan_key N \<and> succeeded_in db i}"
  let ?all = "\<lambda>b. \<forall>i \<in> S. evidence_of b i \<noteq> None"
  have all: "?all b" if "?all a" "delivery_later a b" for a b using that evidence_of_later by blast
  let ?read = "\<lambda>rows b. (\<forall>row \<in> set rows. seen_row (sw_work_item_id row) row b) \<and>
    (\<forall>i \<in> S. succeeded_in b i \<and> (evidence_of b i \<noteq> None \<or> (\<exists>row \<in> set rows. sw_work_item_id row = i)))"
  have read: "dsafe D G (ledger_call None (pending_work_rows (sn_plan_key N))) (on_result ?read) db"
  proof (rule safe_call, rule conjI, simp, intro allI impI)
    fix b rows assume b: "delivery_later db b" "delivery_inv D G b"
      and rows: "snd (pending_work_rows (sn_plan_key N) b) = Inr rows"
    note p = pending_rows_read [OF b(2) rows]
    have "succeeded_in b i \<and> (evidence_of b i \<noteq> None \<or> (\<exists>row \<in> set rows. sw_work_item_id row = i))" if i: "i \<in> S" for i
    proof -
      obtain r where r: "work_row db i = Some r" "sw_plan_key r = sn_plan_key N" "succeeded_in db i" using i by (auto simp: S_def)
      have "stream_evolves db b" using b(1) by (simp add: delivery_later_def)
      from later_row [OF this r(1)] obtain r' where "work_row b i = Some r'" "sw_plan_key r' = sn_plan_key N"
        using r(2) by (auto simp: work_evolves_def)
      with p(2) succeeded_later [OF r(3) b(1)] show ?thesis by blast
    qed
    with p(1) show "?read rows (run_optional None b)" by (simp add: run_optional_def)
  qed
  have rows: "dsafe D G (recover_rows D N rows) (on_result (\<lambda>_. ?all)) b" if h: "?read rows b" for rows b
  proof (rule safe_result_mono)
    let ?kept = "\<lambda>c. \<forall>i \<in> S. evidence_of b i \<noteq> None \<longrightarrow> evidence_of c i \<noteq> None"
    show "dsafe D G (recover_rows D N rows) (on_result (\<lambda>_ c. (\<forall>row \<in> set rows. succeeded_in b (sw_work_item_id row) \<longrightarrow>
        evidence_of c (sw_work_item_id row) \<noteq> None) \<and> ?kept c)) b"
      using evidence_of_later by (intro rule.safe_frame_result [where F = ?kept] safe_recover_rows) (use h in blast)+
  qed (use h in blast)
  have pub: "dsafe D G (pthen (ledger_call None f) (\<lambda>rows. pthen (publish_work_rows D N rows) (\<lambda>n. Done (Inr (m + n)))))
      (on_result (\<lambda>_. ?all)) b" if "?all b" for f :: "stream_db \<Rightarrow> StoredStreamWorkPlan list stream_call" and m b
  proof -
    have "dsafe D G (ledger_call None f) (on_result (\<lambda>_ _. True)) b" by (rule safe_call) simp
    then have "dsafe D G (pthen (ledger_call None f) (\<lambda>rows. pthen (publish_work_rows D N rows) (\<lambda>n. Done (Inr (m + n)))))
        (on_result (\<lambda>_ _. True)) b" by (intro safe_pthenI [OF _ safe_pthenI [OF safe_publish]]) simp_all
    from rule.safe_frame_result [where F = ?all, OF this that all] show ?thesis by simp
  qed
  have "dsafe D G (recover D N) (on_result (\<lambda>_. ?all)) db"
    unfolding recover_def recover_terminal_acceptances_def
    by (rule safe_pthenI [OF safe_pthenI [OF read rows] pub])
  then show ?thesis by (rule safe_result_mono) (auto simp: S_def)
qed

section \<open>Completion\<close>

text \<open>
  After the intent is stored: it is there under the epoch of the lease, or evidence is
  accepted, or the item was leased anew.
\<close>

definition intent_fact :: "WorkLease \<Rightarrow> string \<Rightarrow> stream_db \<Rightarrow> bool" where
  "intent_fact lease payload db \<longleftrightarrow> (\<exists>r. work_row db (lease_work_item_id lease) = Some r \<and>
     (sw_pending_terminal_json r = Some payload \<and> sw_pending_lease_epoch r = Some (int (granted_epoch lease))
      \<or> sw_terminal_evidence_json r \<noteq> None
      \<or> (\<exists>v. item_of (authority db) (lease_work_item_id lease) = Some v \<and> granted_epoch lease < lease_epoch v)))"

lemma intent_fact_later:
  assumes "intent_fact lease payload a" and "delivery_later a b"
  shows "intent_fact lease payload b"
proof -
  let ?i = "lease_work_item_id lease"
  have ev: "stream_evolves a b" and kept: "intent_kept a b" using assms(2) by (simp_all add: delivery_later_def)
  obtain r where r: "work_row a ?i = Some r" using assms(1) by (auto simp: intent_fact_def)
  obtain r' where r': "work_row b ?i = Some r'" using later_row [OF ev r] by blast
  from assms(1) r consider "sw_pending_terminal_json r = Some payload" "sw_pending_lease_epoch r = Some (int (granted_epoch lease))"
    | p where "sw_terminal_evidence_json r = Some p"
    | v where "item_of (authority a) ?i = Some v" "granted_epoch lease < lease_epoch v"
    by (auto simp: intent_fact_def)
  then show ?thesis
  proof cases
    case 1
    then show ?thesis using kept r unfolding intent_kept_def intent_fact_def by fastforce
  next
    case 2
    then show ?thesis using later_evidence [OF ev r] by (fastforce simp: intent_fact_def)
  next
    case 3
    then obtain v' where "item_of (authority b) ?i = Some v'" "row_evolves v v'" using later_execution [OF ev] by blast
    with 3(2) r' show ?thesis by (auto simp: intent_fact_def row_evolves_def)
  qed
qed

lemma store_intent:
  assumes "snd (store_pending_terminal (lease_work_item_id lease) p (int (granted_epoch lease)) t u now x db) = Inr b"
  shows "intent_fact lease p (fst (store_pending_terminal (lease_work_item_id lease) p (int (granted_epoch lease)) t u now x db))"
proof -
  let ?i = "lease_work_item_id lease" and ?e = "int (granted_epoch lease)"
  let ?db = "fst (store_pending_terminal ?i p ?e t u now x db)"
  have "store_pending_in_transaction ?i p ?e t u now x db = Inr (?db, b)"
    using assms by (auto simp: store_pending_terminal_def run_write_def split: sum.splits if_splits)
  then show ?thesis
  proof (cases rule: store_pending_in_transaction_Inr)
    case (stored w)
    have "work_row ?db ?i = Some (set_pending p ?e t w)"
      unfolding stored(4) using stored(1) work_rowD(2) [OF stored(1)] by (simp add: work_row_upd set_pending_def)
    then show ?thesis by (simp add: intent_fact_def set_pending_def)
  qed (auto simp: intent_fact_def)
qed

lemma success_allowed:
  assumes inv: "delivery_inv D G db" and fact: "intent_fact lease (doc_evidence_bytes D e) db"
  shows "delivery_allowed D G db (Scheduler_call (Succeed lease (Some (terminal_result_reference e))
      (Some (ar_exact_sha256 (te_evidence_ref e))) now))"
proof (simp, intro impI allI)
  let ?i = "lease_work_item_id lease"
  fix w assume w: "item_of (authority db) ?i = Some w" "held lease w"
  obtain r where r: "work_row db ?i = Some r" using fact by (auto simp: intent_fact_def)
  have "sw_terminal_evidence_json r = None"
  proof (rule ccontr)
    assume "sw_terminal_evidence_json r \<noteq> None"
    then obtain p where "sw_terminal_evidence_json r = Some p" by auto
    then have "state w = SUCCEEDED" using inv r w(1) unfolding delivery_inv_def evidence_inv_def by fastforce
    with w(2) show False by (simp add: held_def)
  qed
  then have "sw_pending_terminal_json r = Some (doc_evidence_bytes D e)"
    using fact r w by (auto simp: intent_fact_def held_def)
  then show "\<exists>r. work_row db ?i = Some r \<and> (\<exists>p. has_payload r p
      \<and> reports D p (Some (terminal_result_reference e)) (Some (ar_exact_sha256 (te_evidence_ref e))))"
    using r by (auto simp: has_payload_def reports_def)
qed

lemma safe_succeed:
  assumes "intent_fact lease (doc_evidence_bytes D e) db"
    and "c = Succeed lease (Some (terminal_result_reference e)) (Some (ar_exact_sha256 (te_evidence_ref e))) now"
    and "f = succeed lease (Some (terminal_result_reference e)) (Some (ar_exact_sha256 (te_evidence_ref e))) now"
  shows "dsafe D G (execution_call (Some c) f) (on_result (\<lambda>w db'. item_of (authority db') (lease_work_item_id lease) = Some w)) db"
proof (rule safe_execution_call, intro conjI allI impI)
  fix db' cmd assume h: "delivery_later db db'" "delivery_inv D G db'" "Some c = Some cmd"
  then have cmd: "cmd = c" by simp
  show "delivery_allowed D G db' (Scheduler_call cmd)"
    unfolding cmd assms(2) by (rule success_allowed [OF h(2) intent_fact_later [OF assms(1) h(1)]])
next
  fix db' w assume h: "delivery_later db db'" "delivery_inv D G db'" "snd (f (authority db')) = Inr w"
  have wf: "wf_ledger (authority db')" using h(2) by (simp add: delivery_inv_def wf_stream_def)
  have "f (authority db') = (fst (f (authority db')), Inr w)" using h(3) by (simp add: prod_eq_iff)
  from succeed_row [OF wf this [unfolded assms(3)]]
  show "item_of (authority (run_optional (map_option Scheduler_call (Some c)) db')) (lease_work_item_id lease) = Some w"
    by (auto simp: run_optional_def assms(2,3))
qed

lemma safe_store:
  "dsafe D G (stream_store_pending D lease e now) (on_result (\<lambda>_. intent_fact lease (doc_evidence_bytes D e))) db"
  unfolding stream_store_pending_def Let_def
  by (rule safe_call) (auto simp: run_optional_def intro: store_intent)

lemma safe_stored: "dsafe D G (stored_work_row N i b) (on_result (\<lambda>w. seen_row i w)) db"
  unfolding stored_work_row_def
proof (rule safe_pthenI)
  show "dsafe D G (ledger_call None (get_work i)) (on_result (\<lambda>w. seen_row i w)) db"
    by (rule safe_call) (auto simp: run_optional_def read_row seen_row_def evidence_of_row)
next
  fix w db' assume w: "seen_row i w db'"
  have "dsafe D G (remember_work_row N w) (on_result (\<lambda>_. seen_row i w)) db'"
    by (rule calm_fact [where F = "seen_row i w", OF calm_rows(1) w seen_row_later])
  then show "dsafe D G (pthen (check (sw_plan_key w = sn_plan_key N)
      (StreamSchedulerCompositionError ''work item belongs to another stream graph'')) (\<lambda>_.
      pthen (check (b \<longrightarrow> sw_publication_state w = PUBLISHED)
        (StreamSchedulerCompositionError ''work item is not published for execution'')) (\<lambda>_.
      pthen (remember_work_row N w) (\<lambda>_. Done (Inr w))))) (on_result (\<lambda>w. seen_row i w)) db'"
    by (auto simp: check_def intro: safe_pthenI)
qed

text \<open>The snapshot a completion returns.\<close>

definition completed_with :: "stream_docs \<Rightarrow> string \<Rightarrow> StreamWorkItem \<Rightarrow> bool" where
  "completed_with D payload item \<longleftrightarrow> (\<exists>e. si_terminal_evidence item = Some e \<and> doc_evidence_bytes D e = payload
     \<and> si_state item = terminal_state_by_outcome (te_outcome e))"

lemma validate_stream_item_Inr: "validate_stream_item D x = Inr item \<Longrightarrow> item = x"
  by (auto simp: validate_stream_item_def Let_def split: if_splits option.splits)

lemma item_from_evidence:
  "stream_item_from D plan execution (Some e) = Inr item \<Longrightarrow> completed_with D (doc_evidence_bytes D e) item"
  by (auto simp: stream_item_from_def rbind_Inr_iff completed_with_def split: if_splits dest: validate_stream_item_Inr)

lemma accepted_evidence_Some:
  "accepted_evidence D stored = Inr (Some e) \<Longrightarrow> sw_terminal_evidence_json stored = Some (doc_evidence_bytes D e)"
  "accepted_evidence D stored = Inr None \<Longrightarrow> sw_terminal_evidence_json stored = None"
  by (auto simp: accepted_evidence_def rbind_Inr_iff parse_evidence_Inr split: option.splits)

lemma safe_complete:
  "dsafe D G (stream_complete D N lease e now) (on_result (\<lambda>item db'.
    evidence_of db' (lease_work_item_id lease) = Some (doc_evidence_bytes D e) \<and> completed_with D (doc_evidence_bytes D e) item)) db"
    (is "dsafe D G _ (on_result ?post) db")
proof -
  let ?i = "lease_work_item_id lease" and ?raw = "doc_evidence_bytes D e"
  have ends: "dsafe D G (Done (stream_item_from D plan execution (Some a))) (on_result ?post) b"
    if "evidence_of b ?i = Some ?raw" "doc_evidence_bytes D a = ?raw" for a plan execution b
    using that item_from_evidence [of D plan execution a] by (cases "stream_item_from D plan execution (Some a)") auto
  have fresh: "dsafe D G (pthen (stream_store_pending D lease e now) (\<lambda>_.
      pthen (execution_call (Some (Succeed lease (Some (terminal_result_reference e))
          (Some (ar_exact_sha256 (te_evidence_ref e))) now))
        (succeed lease (Some (terminal_result_reference e)) (Some (ar_exact_sha256 (te_evidence_ref e))) now)) (\<lambda>execution.
      pthen (accept_pending D N ?i stored execution (Some ?raw)) (\<lambda>_.
      Done (stream_item_from D plan execution (Some e)))))) (on_result ?post) b"
    if "sw_terminal_evidence_json stored = None" for stored plan b
  proof (rule safe_pthenI [OF safe_store safe_pthenI [OF safe_succeed [OF _ refl refl] safe_pthenI [OF safe_accept ends]]])
    show "seen_row ?i stored c" for c using that by (simp add: seen_row_def)
  qed (use that in auto)
  have replay: "dsafe D G (pthen (check (doc_evidence_bytes D a = ?raw) err) (\<lambda>_.
      pthen (execution_call None (get_item ?i)) (\<lambda>execution. Done (stream_item_from D plan execution (Some a)))))
      (on_result ?post) b"
    if "evidence_of b ?i = Some (doc_evidence_bytes D a)" for a err plan b
  proof (rule safe_pthenI [OF safe_check])
    assume "doc_evidence_bytes D a = ?raw"
    with that show "doc_evidence_bytes D a = ?raw \<and> evidence_of b ?i = Some ?raw" by simp
  next
    fix u c assume h: "doc_evidence_bytes D a = ?raw \<and> evidence_of c ?i = Some ?raw"
    have "dsafe D G (execution_call None (get_item ?i)) (on_result (\<lambda>_ d. evidence_of d ?i = Some ?raw)) c"
      by (rule calm_fact [where F = "\<lambda>d. evidence_of d ?i = Some ?raw", OF _ conjunct2 [OF h] evidence_of_later]) simp
    then show "dsafe D G (pthen (execution_call None (get_item ?i)) (\<lambda>execution.
        Done (stream_item_from D plan execution (Some a)))) (on_result ?post) c"
      by (rule safe_pthenI) (use h ends in blast)
  qed
  show ?thesis unfolding stream_complete_def Let_def
  proof (rule safe_pthenI [OF safe_stored])
    fix stored b assume seen: "seen_row ?i stored b"
    consider (bad) x where "accepted_evidence D stored = Inl x" | (none) "accepted_evidence D stored = Inr None"
      | (some) a where "accepted_evidence D stored = Inr (Some a)" by (metis obj_sumE option.exhaust)
    then show "dsafe D G (pthen (Done (parse_plan D ''stream work plan'' (sw_plan_json stored))) (\<lambda>plan.
       pthen (check (te_terminal_policy_version e = sn_terminal_policy_version N)
         (StreamSchedulerCompositionError ''terminal evidence does not use the composition policy pin'')) (\<lambda>_.
       pthen (check (doc_instant D (te_completed_at e) \<le> now)
         (StreamSchedulerCompositionError ''terminal evidence cannot complete after authority time'')) (\<lambda>_.
       pthen (Done (accepted_evidence D stored)) (\<lambda>accepted.
       case accepted of
         Some a \<Rightarrow>
           pthen (check (doc_evidence_bytes D a = ?raw)
             (StreamSchedulerCompositionError ''terminal replay changed accepted stream evidence'')) (\<lambda>_.
           pthen (execution_call None (get_item ?i)) (\<lambda>execution. Done (stream_item_from D plan execution (Some a))))
       | None \<Rightarrow>
           pthen (stream_store_pending D lease e now) (\<lambda>_.
           pthen (execution_call (Some (Succeed lease (Some (terminal_result_reference e))
              (Some (ar_exact_sha256 (te_evidence_ref e))) now))
             (succeed lease (Some (terminal_result_reference e)) (Some (ar_exact_sha256 (te_evidence_ref e))) now)) (\<lambda>execution.
           pthen (accept_pending D N ?i stored execution (Some ?raw)) (\<lambda>_.
           Done (stream_item_from D plan execution (Some e)))))))))) (on_result ?post) b"
    proof cases
      case bad
      then show ?thesis by (auto simp: check_def split: sum.splits)
    next
      case none
      then show ?thesis using fresh [OF accepted_evidence_Some(2) [OF none]] by (auto simp: check_def split: sum.splits)
    next
      case (some a)
      then have "evidence_of b ?i = Some (doc_evidence_bytes D a)"
        using seen accepted_evidence_Some(1) [OF some] by (simp add: seen_row_def)
      from replay [OF this] some show ?thesis by (auto simp: check_def [of "te_terminal_policy_version e = sn_terminal_policy_version N"]
          check_def [of "doc_instant D (te_completed_at e) \<le> now"] split: sum.splits)
    qed
  qed
qed

section \<open>Every call of a process\<close>

lemma safe_replying: "dsafe D G p (on_result P) db \<Longrightarrow> dsafe D G (replying f p) (on_result (\<lambda>a db'. \<exists>x. a = f x \<and> P x db')) db"
  unfolding replying_def by (erule safe_pthenI) auto

lemma calm_replying: "calm harmless p \<Longrightarrow> dsafe D G (replying f p) (\<lambda>_ _. True) db"
  unfolding replying_def by (rule calm_dsafe) (simp add: calm_pthen)

lemma calm_dsafe_result: "calm harmless p \<Longrightarrow> dsafe D G p (on_result (\<lambda>_ _. True)) db"
  by (rule calm_fact [where F = "\<lambda>_. True"]) simp_all

lemma safe_claim: "dsafe D G (stream_claim_with s D N worker d target now token b) (on_result (\<lambda>_ _. True)) db"
  unfolding stream_claim_with_def
proof (rule safe_pthenI)
  show "dsafe D G (if b then pthen (recover D N) (\<lambda>_. Done (Inr ())) else Done (Inr ())) (on_result (\<lambda>_ _. True)) db"
    by (auto intro: safe_pthenI [OF safe_recover])
  show "dsafe D G (pthen (case target of
         Some i \<Rightarrow> pthen (cached_published_work_row N i) (\<lambda>stored.
             case stored of Some w \<Rightarrow> Done (Inr (Some w))
             | None \<Rightarrow> pthen (stored_work_row N i True) (\<lambda>w. Done (Inr (Some w))))
       | None \<Rightarrow> ledger_call None (next_ready_work (sn_plan_key N))) (\<lambda>stored.
     case stored of
       None \<Rightarrow> Done (Inr None)
     | Some w \<Rightarrow>
         pthen (Done (parse_plan D ''stream work plan'' (sw_plan_json w))) (\<lambda>plan.
         pthen (execution_call (Some (Claim s worker d (Some (pl_work_item_id plan)) now token))
           (claim_with s worker d (Some (pl_work_item_id plan)) now token)) (\<lambda>reply.
         Done (stream_claim_reply D plan reply))))) (on_result (\<lambda>_ _. True)) db'" for db'
    by (rule calm_dsafe_result) (intro calm_pthen; auto simp: calm_rows intro!: calm_pthen split: option.splits sum.splits)
qed

lemma safe_call_prog: "dsafe D G (call_prog D N call) (\<lambda>_ _. True) db"
  by (cases call)
    (auto intro!: dsafe_True [OF safe_replying [OF safe_recover]] dsafe_True [OF safe_replying [OF safe_publish]]
      dsafe_True [OF safe_replying [OF safe_claim]] dsafe_True [OF safe_replying [OF safe_complete]]
      simp: calm_replying calm_leases calm_resume)

interpretation delivery: shared_ledger "delivery_inv D G" delivery_later "delivery_allowed D G" D G
  for D :: stream_docs and G :: "string \<Rightarrow> bool"
proof
  show "delivery_allowed D G db cmd" if "outside G cmd" for db cmd using outside_allowed that .
qed (rule empty_delivery_inv safe_call_prog)+


section \<open>An example\<close>

text \<open>
  One window with one item of work: another client registers it, a process publishes, claims
  and completes it; or it stops in the middle of the completion and another recovers. The
  documents are read by their names.
\<close>

definition ex_schema :: SchemaRef where
  "ex_schema = \<lparr>sr_schema_id = ''s'', sr_version = ''1'', sr_artifact_id = ''art'', sr_sha256 = ''d''\<rparr>"

definition ex_node :: stream_node where
  "ex_node = \<lparr>sn_plan_key = ''p'', sn_terminal_policy_version = ''v1'', sn_terminal_member = ex_schema\<rparr>"

definition ex_doc_plan :: "string \<Rightarrow> StreamWorkItemPlan" where
  "ex_doc_plan i = \<lparr>pl_schema_ref = ex_schema, pl_work_item_id = i, pl_work_logical_key = ''key-'' @ i,
     pl_stream_run_id = ''run'',
     pl_source_subject = \<lparr>pe_capture_scope_id = ''scope'', pe_capture_scope_key = ''scope'', pe_capture_scope_digest = ''d'',
       pe_identity_policy_version = ''v1'', pe_schema_ref = ex_schema\<rparr>,
     pl_stage = Stage_QA_COARSE,
     pl_subject = \<lparr>su_subject_type = Subject_INCREMENTAL_WINDOW, su_subject_key = ''window'', su_subject_semantic_sha256 = ''d'',
       su_capture_scope_digest = ''d'', su_identity_policy_version = ''v1'', su_schema_ref = ex_schema\<rparr>,
     pl_ordered_dependencies = [], pl_input_semantic_sha256 = replicate 64 CHR ''1'',
     pl_config_semantic_sha256 = replicate 64 CHR ''2'', pl_work_projection_version = ''v1'', pl_work_key_policy_version = ''v1'',
     pl_priority = 1, pl_sla_deadline_at = None, pl_execution_expiry_at = None, pl_max_attempts = 3, pl_trace_id = None,
     pl_created_at = ''t''\<rparr>"

definition ex_evidence :: "string \<Rightarrow> StreamTerminalEvidence" where
  "ex_evidence x = \<lparr>te_outcome = Outcome_NO_EVENTS,
     te_evidence_ref = \<lparr>ar_artifact_id = x, ar_exact_sha256 = replicate 64 CHR ''a'', ar_byte_count = 2,
       ar_media_type = ''application/json'', ar_schema_ref = ex_schema\<rparr>,
     te_terminal_policy_version = ''v1'', te_completed_at = ''t'', te_reason_code = None, te_reason_detail = None\<rparr>"

definition ex_docs :: stream_docs where
  "ex_docs = \<lparr>doc_parse_plan = (\<lambda>x. Some (ex_doc_plan (drop 5 x))), doc_plan_bytes = (\<lambda>p. ''plan-'' @ pl_work_item_id p),
     doc_parse_evidence = (\<lambda>x. Some (ex_evidence (drop 9 x))), doc_evidence_bytes = (\<lambda>e. ''evidence-'' @ ar_artifact_id (te_evidence_ref e)),
     doc_declaration = (\<lambda>_. None), doc_member_bytes = (\<lambda>_. ''member''), doc_member_sha256 = (\<lambda>_. ''d''),
     doc_config_sha256 = (\<lambda>v x. x), doc_instant = (\<lambda>_. 0),
     doc_execution_uuid5 = (\<lambda>x. x), doc_dependency_uuid5 = (\<lambda>x. x), doc_work_uuid5 = (\<lambda>x. x)\<rparr>"

definition ex_gathered :: delivery_system where
  "ex_gathered = \<lparr>ds_db = ex_stream, ds_procs = (\<lambda>_. idle_process ex_node)\<rparr>"

definition ex_leased :: delivery_system where
  "ex_leased = call_alone ex_docs 0 (Claim_call True ''w'' 10 None 5 ''t1'' True) ex_gathered"

definition ex_complete :: delivery_call where
  "ex_complete = Complete_call (ex_lease 1 ''t1'' 10000005) (ex_evidence ''x'') 6"

definition ex_completed_run :: delivery_system where
  "ex_completed_run = call_alone ex_docs 0 ex_complete ex_leased"



abbreviation ex_ids :: "string \<Rightarrow> bool" where
  "ex_ids i \<equiv> i = ''a''"

lemma ex_gathered_reachable: "delivery_reachable ex_docs ex_ids ex_gathered"
proof -
  let ?s = "\<lparr>ds_db = empty_stream_db, ds_procs = (\<lambda>_. idle_process ex_node)\<rparr>"
  have "delivery_start ?s" by (auto simp: delivery_start_def)
  then have "delivery_reachable ex_docs ex_ids ?s" unfolding delivery_reachable_def by blast
  then have "delivery_reachable ex_docs ex_ids (?s\<lparr>ds_db := run_stream_command (Register_plan ''p'' ''{}'' ''{}'' ''{}'') (ds_db ?s)\<rparr>)"
    by (rule reachable_others) simp
  from reachable_others [OF this, of "Append_windows ''p'' [ex_window ''a'' 0] None None"] show ?thesis
    by (simp add: ex_gathered_def ex_stream_def run_stream_commands_def ex_window_def ex_work_def unpublished_graph_work_def)
qed

lemma ex_leased_reachable: "delivery_reachable ex_docs ex_ids ex_leased"
  unfolding ex_leased_def
  by (rule running_reachable [OF call_alone_running ex_gathered_reachable])
    (simp add: ex_gathered_def returned_def idle_process_def)

lemma ex_complete_begins: "returned 0 ex_leased \<noteq> None"
  unfolding ex_leased_def returned_call_alone by simp

lemma ex_completed_run_running: "call_running ex_docs ex_ids 0 ex_complete ex_leased ex_completed_run"
  unfolding ex_completed_run_def by (rule call_alone_running [OF ex_complete_begins])




section \<open>Guarantees\<close>





text \<open>
  C21. Published work can be executed: it has its item in the execution ledger, although the
  item and the mark are written by two transactions.
\<close>

theorem published_work_projected:
  assumes "delivery_reachable D G s"
    and "snd (get_work i (ds_db s)) = Inr r" and "sw_publication_state r = PUBLISHED"
  shows "\<exists>w. item_of (authority (ds_db s)) i = Some w"
  using delivery.reachable_inv [OF assms(1)] assms(2,3)
  unfolding delivery_inv_def published_inv_def read_row by blast

theorem published_work_projected_witness: "\<exists>w. item_of (authority (ds_db ex_leased)) ''a'' = Some w"
proof (rule published_work_projected [OF ex_leased_reachable])
  show "snd (get_work ''a'' (ds_db ex_leased)) = Inr (the (work_row (ds_db ex_leased) ''a''))" by code_simp
  show "sw_publication_state (the (work_row (ds_db ex_leased) ''a'')) = PUBLISHED" by code_simp
qed



text \<open>
  C20. A completion that returned is durable. When a process calls \<open>complete\<close> with some
  evidence and it returns a snapshot, then the row of the item has exactly these bytes as its
  accepted evidence, also when it was a replay and whatever the other processes did
  meanwhile, and the snapshot is in the terminal state of the evidence's outcome.
\<close>

theorem completion_durable:
  assumes "delivery_reachable D G s" and "call_running D G p (Complete_call lease e now) s t"
    and "returned p t = Some (Inr (Item_reply item))"
  shows "\<exists>r a. snd (get_work (lease_work_item_id lease) (ds_db t)) = Inr r
    \<and> sw_terminal_evidence_json r = Some (doc_evidence_bytes D e)
    \<and> si_terminal_evidence item = Some a \<and> doc_evidence_bytes D a = doc_evidence_bytes D e
    \<and> si_state item = terminal_state_by_outcome (te_outcome a)"
proof -
  let ?i = "lease_work_item_id lease" and ?raw = "doc_evidence_bytes D e"
  let ?Q = "on_result (\<lambda>reply db'. \<exists>x. reply = Item_reply x \<and> evidence_of db' ?i = Some ?raw \<and> completed_with D ?raw x)"
  have "dsafe D G (call_prog D (pr_node (ds_procs s p)) (Complete_call lease e now)) ?Q (ds_db s)"
    unfolding call_prog.simps by (rule safe_replying [OF safe_complete])
  moreover have "?Q x b" if "?Q x a" "delivery_later a b" for x a b
    using that(1) evidence_of_later [OF _ that(2), of ?i] by (cases x) auto
  ultimately have "?Q (Inr (Item_reply item)) (ds_db t)"
    using delivery.returned_result [OF assms(2,1) _ _ assms(3)] by blast
  then have "evidence_of (ds_db t) ?i = Some ?raw \<and> completed_with D ?raw item" by simp
  then show ?thesis by (auto simp: evidence_of_def bind_eq_Some_conv read_row completed_with_def)
qed

theorem completion_durable_witness:
  "\<exists>item r a. returned 0 ex_completed_run = Some (Inr (Item_reply item))
    \<and> snd (get_work ''a'' (ds_db ex_completed_run)) = Inr r
    \<and> sw_terminal_evidence_json r = Some (doc_evidence_bytes ex_docs (ex_evidence ''x''))
    \<and> si_terminal_evidence item = Some a
    \<and> doc_evidence_bytes ex_docs a = doc_evidence_bytes ex_docs (ex_evidence ''x'')
    \<and> si_state item = terminal_state_by_outcome (te_outcome a)"
proof -
  have "case returned 0 ex_completed_run of Some (Inr (Item_reply item)) \<Rightarrow> True | _ \<Rightarrow> False" by code_simp
  then obtain item where item: "returned 0 ex_completed_run = Some (Inr (Item_reply item))"
    by (auto split: option.splits sum.splits delivery_reply.splits)
  from completion_durable [OF ex_leased_reachable ex_completed_run_running [unfolded ex_complete_def] item]
  show ?thesis using item by (simp add: ex_lease_def)
qed

end
