(* ===== verification/Stream_Projections.thy ===== *)
theory Stream_Projections
  imports Stream_Ledger_Properties
begin

text \<open>
  The projections of the streaming hot path against plain definitions over the rows: the next
  ready work, the bounded execution scope, and the backlog, whose grouped SQL aggregate and
  Python loop are shown to count exactly the rows of the plan.
\<close>

section \<open>Joins\<close>

lemma items_by_id:
  assumes "wf_ledger l"
  shows "filter (\<lambda>w. work_item_id w = i) (work_items l) = (case item_of l i of None \<Rightarrow> [] | Some w \<Rightarrow> [w])"
proof (cases "item_of l i")
  case None
  then have "\<forall>r \<in> set (work_items l). work_item_id r \<noteq> i" by (simp add: item_of_def)
  then show ?thesis by (simp add: None filter_empty_conv)
next
  case (Some w)
  note w = item_of_in [OF Some] item_of_id [OF Some] and dist = wf_ledgerD(5) [OF assms]
  have "rowcount (\<lambda>x. work_item_id x = i) (work_items l) = 1"
    using rowcount_key [OF dist w(1), of "\<lambda>x. work_item_id x = i"] w(2) by simp
  then obtain x where x: "filter (\<lambda>x. work_item_id x = i) (work_items l) = [x]"
    by (auto simp: rowcount_def length_Suc_conv)
  have "w \<in> set (filter (\<lambda>x. work_item_id x = i) (work_items l))" using w by simp
  then show ?thesis using x Some by simp
qed

lemma joined_iff:
  assumes "wf_stream db"
  shows "(s, w) \<in> set (joined db) \<longleftrightarrow>
    s \<in> set (stream_work_plans db) \<and> item_of (authority db) (sw_work_item_id s) = Some w"
proof -
  have "(s, w) \<in> set (joined db) \<longleftrightarrow> s \<in> set (stream_work_plans db)
      \<and> w \<in> set (filter (\<lambda>w. work_item_id w = sw_work_item_id s) (work_items (authority db)))"
    by (auto simp: joined_def)
  then show ?thesis unfolding items_by_id [OF wf_streamD(6) [OF assms]] by (auto split: option.splits)
qed

section \<open>The next ready work\<close>

definition ready_for_graph :: "stream_db \<Rightarrow> string \<Rightarrow> StoredStreamWorkPlan \<Rightarrow> WorkItem \<Rightarrow> bool" where
  "ready_for_graph db k s w \<longleftrightarrow> s \<in> set (stream_work_plans db) \<and> sw_plan_key s = k
     \<and> sw_publication_state s = PUBLISHED \<and> item_of (authority db) (sw_work_item_id s) = Some w \<and> state w = READY"

text \<open>
  The next ready work of a graph: nothing exactly when the graph has no published work
  that is READY in the scheduler's ledger; otherwise a published READY row of the graph that
  no other such row precedes in the scheduler's own dispatch order.
\<close>

theorem next_ready_correct:
  assumes "stream_reachable db"
  shows "(snd (next_ready_work k db) = Inr None \<and> (\<forall>s w. \<not> ready_for_graph db k s w))
    \<or> (\<exists>s w. snd (next_ready_work k db) = Inr (Some s) \<and> ready_for_graph db k s w
        \<and> (\<forall>s' w'. ready_for_graph db k s' w' \<longrightarrow> dispatch_key w \<le> dispatch_key w'))"
proof -
  let ?rows = "filter (\<lambda>(s, w). sw_plan_key s = k \<and> sw_publication_state s = PUBLISHED \<and> state w = READY) (joined db)"
  have mem: "(s, w) \<in> set ?rows \<longleftrightarrow> ready_for_graph db k s w" for s w
    using joined_iff [OF stream_reachable_wf [OF assms]] by (auto simp: ready_for_graph_def)
  show ?thesis
  proof (cases "min_by (\<lambda>r. dispatch_key (snd r)) ?rows")
    case None
    then have "?rows = []" by simp
    then have "\<not> ready_for_graph db k s w" for s w using mem [of s w] by simp
    then show ?thesis using None by (simp add: next_ready_work_def run_read_def)
  next
    case (Some r)
    obtain s w where r: "r = (s, w)" by (cases r)
    have "ready_for_graph db k s w" using min_by_Some(1) [OF Some] mem r by simp
    moreover have "dispatch_key w \<le> dispatch_key w'" if "ready_for_graph db k s' w'" for s' w'
      using min_by_Some(2) [OF Some, of "(s', w')"] mem [of s' w'] that r by simp
    ultimately show ?thesis using Some r by (auto simp: next_ready_work_def run_read_def)
  qed
qed

definition ex_published :: stream_db where
  "ex_published = run_stream_commands (map Scheduler_call ex_planned @ [Mark_published ''a'']) ex_stream"

lemma ex_published_reachable: "stream_reachable ex_published"
  unfolding ex_published_def by (rule stream_reachable_commands [OF ex_stream_reachable]) (simp add: ex_planned_def)

theorem next_ready_correct_witness:
  "\<exists>s w. snd (next_ready_work ''p'' ex_published) = Inr (Some s) \<and> ready_for_graph ex_published ''p'' s w"
proof -
  have "snd (next_ready_work ''p'' ex_published) = Inr (work_row ex_published ''a'')" by code_simp
  moreover have "work_row ex_published ''a'' \<noteq> None" by code_simp
  ultimately show ?thesis using next_ready_correct [OF ex_published_reachable, of "''p''"] by auto
qed

section \<open>The backlog\<close>

subsection \<open>Least values\<close>

definition least_of :: "string option \<Rightarrow> string set \<Rightarrow> bool" where
  "least_of m S \<longleftrightarrow> (case m of None \<Rightarrow> S = {} | Some x \<Rightarrow> x \<in> S \<and> (\<forall>y \<in> S. x \<le> y))"

definition values_of :: "string option list \<Rightarrow> string set" where
  "values_of vs = {x. Some x \<in> set vs}"

lemma sql_min_least: "least_of (sql_min vs) (values_of vs)"
proof -
  let ?xs = "map the (filter (\<lambda>v. v \<noteq> None) vs)"
  have vals: "values_of vs = set ?xs" by (force simp: values_of_def)
  show ?thesis
  proof (cases ?xs)
    case Nil
    then show ?thesis using vals by (simp add: sql_min_def least_of_def)
  next
    case (Cons x xs)
    have "foldl min x xs \<in> set (x # xs) \<and> (\<forall>y \<in> set (x # xs). foldl min x xs \<le> y)"
    proof (induction xs arbitrary: x)
      case (Cons z zs)
      show ?case using Cons.IH [of "min x z"] by (auto simp: min_def split: if_splits)
    qed simp
    then show ?thesis using Cons vals by (simp add: sql_min_def least_of_def)
  qed
qed

lemma least_of_join:
  assumes "least_of o1 S" and "least_of o2 T"
  shows "least_of (case o2 of None \<Rightarrow> o1 | Some c \<Rightarrow> (case o1 of None \<Rightarrow> Some c | Some old \<Rightarrow> if c < old then Some c else o1)) (S \<union> T)"
  using assms by (auto simp: least_of_def split: option.splits)

subsection \<open>The loop over the groups\<close>

definition lookup0 :: "(string \<times> nat) list \<Rightarrow> string \<Rightarrow> nat" where
  "lookup0 d key = (case map_of d key of None \<Rightarrow> 0 | Some n \<Rightarrow> n)"

lemma lookup0_dict_add: "lookup0 (dict_add key n d) key' = lookup0 d key' + (if key' = key then n else 0)"
  by (induction key n d rule: dict_add.induct) (auto simp: lookup0_def split: option.splits)

lemma dict_add_keys:
  "set (map fst (dict_add key n d)) = insert key (set (map fst d))"
  "distinct (map fst d) \<Longrightarrow> distinct (map fst (dict_add key n d))"
proof -
  show keys: "set (map fst (dict_add key n d)) = insert key (set (map fst d))" for d
    by (induction key n d rule: dict_add.induct) auto
  show "distinct (map fst (dict_add key n d))" if "distinct (map fst d)"
    using that keys by (induction key n d rule: dict_add.induct) auto
qed

lemma lookup0_sort: "distinct (map fst d) \<Longrightarrow> lookup0 (sort d) = lookup0 d"
proof -
  assume d: "distinct (map fst d)"
  have "distinct (map fst (sort d))"
    using d by (metis distinct_map distinct_sort set_sort)
  then have "map_of (sort d) = map_of d" using d by (intro map_of_inject_set [THEN iffD2]) simp_all
  then show ?thesis by (simp add: lookup0_def fun_eq_iff)
qed

text \<open>One row of the plan: its publication state, execution state and creation time.\<close>

definition row_key :: "backlog_row \<Rightarrow> string" where
  "row_key r = (if fst r = GATED then ''GATED'' else state_text (the (fst (snd r))))"

definition row_active :: "WorkItemState list \<Rightarrow> backlog_row \<Rightarrow> bool" where
  "row_active ts r \<longleftrightarrow> fst r = GATED \<or> fst (snd r) \<notin> Some ` set ts"

definition group_key :: "backlog_group \<Rightarrow> string" where
  "group_key g = (if bg_publication_state g = GATED then ''GATED'' else state_text (the (bg_execution_state g)))"

definition group_active :: "WorkItemState list \<Rightarrow> backlog_group \<Rightarrow> bool" where
  "group_active ts g \<longleftrightarrow> bg_publication_state g = GATED \<or> bg_execution_state g \<notin> Some ` set ts"

definition group_projected :: "backlog_group \<Rightarrow> bool" where
  "group_projected g \<longleftrightarrow> bg_publication_state g = GATED \<or> bg_execution_state g \<noteq> None"

lemma backlog_turn_Inr:
  "backlog_turn ts g (counts, active, oldest) = Inr acc \<longleftrightarrow> group_projected g
    \<and> acc = (dict_add (group_key g) (bg_state_count g) counts,
        if group_active ts g then active + bg_state_count g else active,
        if group_active ts g then (case bg_oldest_created_at g of None \<Rightarrow> oldest
          | Some c \<Rightarrow> (case oldest of None \<Rightarrow> Some c | Some old \<Rightarrow> if c < old then Some c else oldest)) else oldest)"
  by (auto simp: backlog_turn_def group_projected_def group_key_def group_active_def rbind_Inr_iff Let_def
      split: option.splits if_splits)

lemma backlog_fold_Inr:
  assumes "fold_res (backlog_turn ts) gs (c0, a0, o0) = Inr (c, a, m)" and "distinct (map fst c0)" and "least_of o0 S"
    and "\<And>g. g \<in> set gs \<Longrightarrow> least_of (bg_oldest_created_at g) (T g)"
  shows "list_all group_projected gs \<and> distinct (map fst c)
    \<and> (\<forall>key. lookup0 c key = lookup0 c0 key + sum_list (map bg_state_count (filter (\<lambda>g. group_key g = key) gs)))
    \<and> a = a0 + sum_list (map bg_state_count (filter (group_active ts) gs))
    \<and> least_of m (S \<union> (\<Union>g \<in> set (filter (group_active ts) gs). T g))"
  using assms
proof (induction gs arbitrary: c0 a0 o0 S)
  case Nil
  then show ?case by simp
next
  case (Cons g gs)
  define o1 where "o1 = (case bg_oldest_created_at g of None \<Rightarrow> o0
    | Some x \<Rightarrow> (case o0 of None \<Rightarrow> Some x | Some old \<Rightarrow> if x < old then Some x else o0))"
  have turn: "group_projected g" "fold_res (backlog_turn ts) gs (dict_add (group_key g) (bg_state_count g) c0,
      (if group_active ts g then a0 + bg_state_count g else a0), (if group_active ts g then o1 else o0)) = Inr (c, a, m)"
    using Cons.prems(1) unfolding fold_res.simps rbind_Inr_iff backlog_turn_Inr o1_def [symmetric] by auto
  have "least_of o1 (S \<union> T g)" unfolding o1_def by (rule least_of_join [OF Cons.prems(3) Cons.prems(4)]) simp
  then have least: "least_of (if group_active ts g then o1 else o0) (if group_active ts g then S \<union> T g else S)"
    using Cons.prems(3) by simp
  note IH = Cons.IH [OF turn(2) dict_add_keys(2) [OF Cons.prems(2)] least Cons.prems(4)]
  show ?case using IH turn(1) by (auto simp: lookup0_dict_add Un_assoc)
qed

lemma backlog_fold_total:
  assumes "list_all group_projected gs"
  shows "\<exists>acc. fold_res (backlog_turn ts) gs (c0, a0, o0) = Inr acc"
  using assms
proof (induction gs arbitrary: c0 a0 o0)
  case Nil
  then show ?case by simp
next
  case (Cons g gs)
  then show ?case unfolding fold_res.simps rbind_Inr_iff backlog_turn_Inr by auto
qed

subsection \<open>The groups partition the rows\<close>

lemma sum_groups:
  "distinct ds \<Longrightarrow> sum_list (map (\<lambda>d. length (filter (\<lambda>r. key r = d) rows)) ds) = length (filter (\<lambda>r. key r \<in> set ds) rows)"
proof (induction ds)
  case (Cons d ds)
  have "length (filter (\<lambda>r. key r = d) rows) + length (filter (\<lambda>r. key r \<in> set ds) rows) =
      length (filter (\<lambda>r. key r = d \<or> key r \<in> set ds) rows)"
    using Cons.prems by (induction rows) auto
  then show ?case using Cons by simp
qed simp

definition row_group :: "backlog_row \<Rightarrow> PublicationState \<times> WorkItemState option" where
  "row_group r = (fst r, fst (snd r))"

definition make_group :: "backlog_row list \<Rightarrow> PublicationState \<times> WorkItemState option \<Rightarrow> backlog_group" where
  "make_group rows d = \<lparr>bg_publication_state = fst d, bg_execution_state = snd d,
     bg_state_count = length (filter (\<lambda>r. row_group r = d) rows),
     bg_oldest_created_at = sql_min (map (\<lambda>r. snd (snd r)) (filter (\<lambda>r. row_group r = d) rows))\<rparr>"

lemma backlog_groups_make: "backlog_groups rows = map (make_group rows) (remdups (map row_group rows))"
proof -
  have "(\<lambda>(p', e', c). p' = fst d \<and> e' = snd d) = (\<lambda>r. row_group r = d)" for d :: "PublicationState \<times> WorkItemState option"
    by (auto simp: row_group_def fun_eq_iff)
  moreover have "(\<lambda>(p', e', c). c) = (\<lambda>r :: backlog_row. snd (snd r))" by (auto simp: fun_eq_iff)
  moreover have "(\<lambda>(p, e, c). (p, e)) = row_group" by (auto simp: row_group_def fun_eq_iff)
  ultimately show ?thesis unfolding backlog_groups_def make_group_def Let_def by (simp add: case_prod_beta)
qed

text \<open>A predicate of a group that is one of its rows sums to the number of rows that have it.\<close>

lemma sum_backlog_groups:
  assumes "\<And>r. P (make_group rows (row_group r)) \<longleftrightarrow> Q r"
  shows "sum_list (map bg_state_count (filter P (backlog_groups rows))) = length (filter Q rows)"
proof -
  let ?ds = "remdups (map row_group rows)"
  have "map bg_state_count (filter P (backlog_groups rows)) =
      map (\<lambda>d. length (filter (\<lambda>r. row_group r = d) rows)) (filter (\<lambda>d. P (make_group rows d)) ?ds)"
    by (simp add: backlog_groups_make filter_map comp_def make_group_def)
  also have "sum_list \<dots> = length (filter (\<lambda>r. row_group r \<in> set (filter (\<lambda>d. P (make_group rows d)) ?ds)) rows)"
    by (rule sum_groups) simp
  also have "filter (\<lambda>r. row_group r \<in> set (filter (\<lambda>d. P (make_group rows d)) ?ds)) rows = filter Q rows"
    using assms by (intro filter_cong) auto
  finally show ?thesis .
qed

lemma group_of_row:
  "group_active ts (make_group rows (row_group r)) \<longleftrightarrow> row_active ts r"
  "group_key (make_group rows (row_group r)) = row_key r"
  by (simp_all add: group_active_def row_active_def group_key_def row_key_def make_group_def row_group_def)

lemma groups_projected:
  "list_all group_projected (backlog_groups rows) \<longleftrightarrow> (\<forall>r \<in> set rows. fst r = GATED \<or> fst (snd r) \<noteq> None)"
  by (auto simp: backlog_groups_make list_all_iff group_projected_def make_group_def row_group_def)

definition group_values :: "backlog_row list \<Rightarrow> backlog_group \<Rightarrow> string set" where
  "group_values rows g = {x. \<exists>r \<in> set rows. row_group r = (bg_publication_state g, bg_execution_state g)
     \<and> snd (snd r) = Some x}"

lemma group_values_make: "group_values rows (make_group rows d) = {x. \<exists>r \<in> set rows. row_group r = d \<and> snd (snd r) = Some x}"
  by (simp add: group_values_def make_group_def)

lemma group_least:
  assumes "g \<in> set (backlog_groups rows)"
  shows "least_of (bg_oldest_created_at g) (group_values rows g)"
proof -
  obtain d where g: "g = make_group rows d" using assms by (auto simp: backlog_groups_make)
  have "group_values rows g = values_of (map (\<lambda>r. snd (snd r)) (filter (\<lambda>r. row_group r = d) rows))"
    by (force simp: g group_values_def values_of_def make_group_def)
  then show ?thesis using sql_min_least by (simp add: g make_group_def)
qed

lemma active_group_values:
  "(\<Union>g \<in> set (filter (group_active ts) (backlog_groups rows)). group_values rows g) =
    {x. \<exists>r \<in> set rows. row_active ts r \<and> snd (snd r) = Some x}" (is "?L = ?R")
proof (intro set_eqI iffI)
  fix x assume "x \<in> ?L"
  then obtain g where g: "g \<in> set (backlog_groups rows)" "group_active ts g" "x \<in> group_values rows g" by auto
  then obtain d where d: "g = make_group rows d" by (auto simp: backlog_groups_make)
  obtain r where "r \<in> set rows" "row_group r = d" "snd (snd r) = Some x" using g(3) by (auto simp: d group_values_make)
  then show "x \<in> ?R" using group_of_row(1) [of ts rows r] g(2) d by blast
next
  fix x assume "x \<in> ?R"
  then obtain r where r: "r \<in> set rows" "row_active ts r" "snd (snd r) = Some x" by blast
  have "make_group rows (row_group r) \<in> set (filter (group_active ts) (backlog_groups rows))"
    using r by (simp add: backlog_groups_make group_of_row)
  moreover have "x \<in> group_values rows (make_group rows (row_group r))"
    using r by (auto simp: group_values_make)
  ultimately show "x \<in> ?L" by blast
qed

lemma backlog_loop:
  assumes "fold_res (backlog_turn ts) (backlog_groups rows) ([], 0, None) = Inr (c, a, m)"
  shows "lookup0 (sort c) key = length (filter (\<lambda>r. row_key r = key) rows)"
    and "a = length (filter (row_active ts) rows)"
    and "least_of m {x. \<exists>r \<in> set rows. row_active ts r \<and> snd (snd r) = Some x}"
proof -
  have start: "least_of None {}" by (simp add: least_of_def)
  note f = backlog_fold_Inr [OF assms _ start, where T = "group_values rows"]
  have f': "distinct (map fst c)" "\<forall>key. lookup0 c key = sum_list (map bg_state_count (filter (\<lambda>g. group_key g = key) (backlog_groups rows)))"
    "a = sum_list (map bg_state_count (filter (group_active ts) (backlog_groups rows)))"
    "least_of m (\<Union>g \<in> set (filter (group_active ts) (backlog_groups rows)). group_values rows g)"
    using f [OF _ group_least] by (simp_all add: lookup0_def)
  show "lookup0 (sort c) key = length (filter (\<lambda>r. row_key r = key) rows)"
    using f'(1,2) lookup0_sort sum_backlog_groups [of "\<lambda>g. group_key g = key" rows "\<lambda>r. row_key r = key"]
    by (simp add: group_of_row)
  show "a = length (filter (row_active ts) rows)"
    using f'(3) sum_backlog_groups [of "group_active ts" rows "row_active ts"] by (simp add: group_of_row)
  show "least_of m {x. \<exists>r \<in> set rows. row_active ts r \<and> snd (snd r) = Some x}"
    using f'(4) unfolding active_group_values .
qed

subsection \<open>The projection counts the rows of the plan\<close>

definition projected_row :: "(string \<Rightarrow> string option) \<Rightarrow> stream_db \<Rightarrow> StoredStreamWorkPlan \<Rightarrow> backlog_row" where
  "projected_row json_created_at db s =
     (sw_publication_state s, map_option state (item_of (authority db) (sw_work_item_id s)),
      case item_of (authority db) (sw_work_item_id s) of
        None \<Rightarrow> json_created_at (sw_plan_json s) | Some w \<Rightarrow> Some (format_timestamp (created_at w)))"

definition plan_works :: "stream_db \<Rightarrow> string \<Rightarrow> StoredStreamWorkPlan list" where
  "plan_works db k = filter (\<lambda>s. sw_plan_key s = k) (stream_work_plans db)"

lemma left_joined_rows:
  assumes "wf_stream db"
  shows "left_joined js db k = map (projected_row js db) (plan_works db k)"
proof -
  have "concat (map (\<lambda>s. [projected_row js db s]) xs) = map (projected_row js db) xs" for xs by (induction xs) simp_all
  moreover have "(case filter (\<lambda>w. work_item_id w = sw_work_item_id s) (work_items (authority db)) of
       [] \<Rightarrow> [(sw_publication_state s, None, js (sw_plan_json s))]
     | ws \<Rightarrow> map (\<lambda>w. (sw_publication_state s, Some (state w), Some (format_timestamp (created_at w)))) ws) =
     [projected_row js db s]" for s
    unfolding items_by_id [OF wf_streamD(6) [OF assms]] by (simp add: projected_row_def split: option.splits)
  ultimately show ?thesis by (simp add: left_joined_def plan_works_def)
qed

text \<open>
  C30. The backlog projection counts rows. On a registered plan it fails exactly when some
  work that is not gated has no execution row; otherwise the count under each state is the
  number of rows of the plan in that state (GATED for gated work), the active backlog is the
  number of rows that are gated or not in one of the given terminal states, and the oldest
  creation time is the least one among those rows.
\<close>

theorem backlog_counts_rows:
  assumes "stream_reachable db" and "plan_row db k \<noteq> None" and "ts \<noteq> []"
  shows "(isl (snd (backlog_projection js k ts fs db)) \<longleftrightarrow>
      list_ex (\<lambda>s. sw_publication_state s \<noteq> GATED \<and> item_of (authority db) (sw_work_item_id s) = None) (plan_works db k))
    \<and> (snd (backlog_projection js k ts fs db) = Inr b \<longrightarrow>
      (\<forall>key. lookup0 (bl_state_counts b) key = length (filter (\<lambda>s. row_key (projected_row js db s) = key) (plan_works db k)))
      \<and> bl_active_backlog b = length (filter (\<lambda>s. row_active ts (projected_row js db s)) (plan_works db k))
      \<and> least_of (bl_oldest_active_created_at b)
          {x. \<exists>s \<in> set (plan_works db k). row_active ts (projected_row js db s) \<and> snd (snd (projected_row js db s)) = Some x})"
proof -
  obtain p where p: "plan_row db k = Some p" using assms(2) by blast
  let ?rows = "map (projected_row js db) (plan_works db k)"
  let ?fold = "fold_res (backlog_turn ts) (backlog_groups ?rows) ([], 0, None)"
  note joined = left_joined_rows [OF stream_reachable_wf [OF assms(1)], of js k]
  have fails: "snd (backlog_projection js k ts fs db) = Inl e" if "?fold = Inl e" for e
    using assms(3) p joined that by (simp add: backlog_projection_def run_read_def)
  have returns: "\<exists>b. snd (backlog_projection js k ts fs db) = Inr b \<and> bl_state_counts b = sort c
      \<and> bl_active_backlog b = a \<and> bl_oldest_active_created_at b = m" if "?fold = Inr (c, a, m)" for c a m
    using assms(3) p joined that by (simp add: backlog_projection_def run_read_def)
  have gaps: "list_ex (\<lambda>s. sw_publication_state s \<noteq> GATED \<and> item_of (authority db) (sw_work_item_id s) = None) (plan_works db k)
      \<longleftrightarrow> \<not> list_all group_projected (backlog_groups ?rows)"
    by (auto simp: groups_projected projected_row_def list_ex_iff)
  show ?thesis
  proof (cases ?fold)
    case (Inl e)
    then show ?thesis using fails gaps backlog_fold_total [of "backlog_groups ?rows" ts "[]" 0 None] by auto
  next
    case (Inr acc)
    obtain c a m where acc: "acc = (c, a, m)" by (cases acc)
    have "list_all group_projected (backlog_groups ?rows)"
      using backlog_fold_Inr [OF Inr [unfolded acc], of "{}" "group_values ?rows"] group_least
      by (simp add: least_of_def)
    with returns [OF Inr [unfolded acc]] gaps backlog_loop [OF Inr [unfolded acc]] show ?thesis
      by (auto simp: filter_map comp_def)
  qed
qed

theorem backlog_counts_rows_witness:
  "isl (snd (backlog_projection (\<lambda>j. Some ''2024'') ''p'' [SUCCEEDED] ''F'' ex_stream)) =
    list_ex (\<lambda>s. sw_publication_state s \<noteq> GATED \<and> item_of (authority ex_stream) (sw_work_item_id s) = None)
      (plan_works ex_stream ''p'')"
proof -
  have "plan_row ex_stream ''p'' \<noteq> None" by code_simp
  from backlog_counts_rows [OF ex_stream_reachable this, of "[SUCCEEDED]" "\<lambda>j. Some ''2024''" "''F''"]
  show ?thesis by simp
qed

end
