(* ===== verification/Barrier.thy ===== *)
theory Barrier
  imports Work_Models
begin

text \<open>
  \<^verbatim>\<open>src/robata/queue/barrier.py\<close>: fan-out/reduction barriers. The storage boundary is a record of
  operations, as the source has an abstract class; \<open>BarrierCoordinator\<close> is written over such
  a record and \<open>InMemoryBarrierStorage\<close> is one value of it. The identifier \<open>uuid5\<close> derives
  from a logical key is an argument. Locks are not modelled: each method is one atomic step.
\<close>

section \<open>Data\<close>

datatype StageStatus =
    Status_PENDING | Status_RUNNING | Status_SUCCEEDED | Status_FAILED | Status_SKIPPED_POLICY
  | Status_SKIPPED_NOT_NEEDED | Status_CANCELLED | Status_EXPIRED | Status_QUARANTINED
  | Status_INCOMPLETE

definition SUCCESS_OUTCOMES :: "StageStatus set" where
  "SUCCESS_OUTCOMES = {Status_SUCCEEDED, Status_SKIPPED_POLICY, Status_SKIPPED_NOT_NEEDED}"

definition FAILURE_OUTCOMES :: "StageStatus set" where
  "FAILURE_OUTCOMES =
     {Status_FAILED, Status_CANCELLED, Status_EXPIRED, Status_QUARANTINED, Status_INCOMPLETE}"

text \<open>\<open>StageStatus(value)\<close>\<close>

definition stage_status_values :: "(string \<times> StageStatus) list" where
  "stage_status_values =
     [(''PENDING'', Status_PENDING), (''RUNNING'', Status_RUNNING), (''SUCCEEDED'', Status_SUCCEEDED),
      (''FAILED'', Status_FAILED), (''SKIPPED_POLICY'', Status_SKIPPED_POLICY),
      (''SKIPPED_NOT_NEEDED'', Status_SKIPPED_NOT_NEEDED), (''CANCELLED'', Status_CANCELLED),
      (''EXPIRED'', Status_EXPIRED), (''QUARANTINED'', Status_QUARANTINED),
      (''INCOMPLETE'', Status_INCOMPLETE)]"

definition StageStatus_of :: "string \<Rightarrow> StageStatus py" where
  "StageStatus_of v =
     (case map_of stage_status_values v of
        None \<Rightarrow> Inl (ValueError (v @ '' is not a valid StageStatus''))
      | Some s \<Rightarrow> Inr s)"

record Barrier =
  barrier_id :: string
  logical_key :: string
  expected_member_count :: nat
  empty_semantics :: string
  reduction_policy :: string
  barrier_status :: string
  required_success_count :: nat
  max_degraded_failures :: nat

record BarrierMember =
  member_work_item_id :: string
  member_criticality :: DependencyCriticality
  member_outcome :: StageStatus

record BarrierState =
  state_barrier_id :: string
  completed_members :: nat
  pending_members :: nat
  failed_members :: nat
  state_status :: string

record AggregateStatus =
  overall_status :: StageStatus
  degraded_cameras :: nat
  failed_cameras :: nat
  aggregate_is_complete :: bool

record ReductionPolicy =
  policy_version :: string
  required_count :: nat
  degradable_count :: nat

section \<open>Aggregation\<close>

definition terminal_failure :: "StageStatus \<Rightarrow> bool" where
  "terminal_failure oc \<longleftrightarrow> oc \<in> FAILURE_OUTCOMES"

definition aggregate :: "Barrier \<Rightarrow> BarrierMember list \<Rightarrow> bool \<Rightarrow> AggregateStatus py" where
  "aggregate barrier members is_complete =
     (let failed = length (filter (\<lambda>m. terminal_failure (member_outcome m)) members);
          degraded = length (filter (\<lambda>m. terminal_failure (member_outcome m)
                       \<and> member_criticality m = DEGRADABLE) members)
      in
      if expected_member_count barrier = 0 then
        rbind (StageStatus_of (empty_semantics barrier)) (\<lambda>empty_status.
          Inr \<lparr>overall_status = empty_status, degraded_cameras = 0, failed_cameras = 0,
               aggregate_is_complete = True\<rparr>)
      else if \<not> is_complete then
        Inr \<lparr>overall_status = Status_PENDING, degraded_cameras = degraded, failed_cameras = failed,
             aggregate_is_complete = False\<rparr>
      else
        let successful = length (filter (\<lambda>m. member_outcome m \<in> SUCCESS_OUTCOMES) members);
            required_failed = list_ex (\<lambda>m. member_criticality m = REQUIRED
                                \<and> member_outcome m \<notin> SUCCESS_OUTCOMES) members;
            acceptable = (\<not> required_failed \<and> successful \<ge> required_success_count barrier
                          \<and> degraded \<le> max_degraded_failures barrier)
        in Inr \<lparr>overall_status = (if acceptable then Status_SUCCEEDED else Status_INCOMPLETE),
                degraded_cameras = degraded, failed_cameras = failed, aggregate_is_complete = True\<rparr>)"

section \<open>Storage\<close>

record 's BarrierStorage =
  get_barrier :: "'s \<Rightarrow> string \<Rightarrow> Barrier option py"
  save_barrier :: "'s \<Rightarrow> Barrier \<Rightarrow> 's py"
  get_state :: "'s \<Rightarrow> string \<Rightarrow> BarrierState option py"
  save_state :: "'s \<Rightarrow> BarrierState \<Rightarrow> 's py"
  add_member :: "'s \<Rightarrow> string \<Rightarrow> string \<Rightarrow> StageStatus \<Rightarrow> DependencyCriticality \<Rightarrow> 's py"
  get_members :: "'s \<Rightarrow> string \<Rightarrow> BarrierMember list py"

record InMemoryBarrierStorage =
  barriers_field :: "string \<rightharpoonup> Barrier"
  states_field :: "string \<rightharpoonup> BarrierState"
  members_field :: "string \<rightharpoonup> (string \<times> BarrierMember) list"

definition in_memory_init :: InMemoryBarrierStorage where
  "in_memory_init = \<lparr>barriers_field = Map.empty, states_field = Map.empty, members_field = Map.empty\<rparr>"

definition setdefault :: "('k \<rightharpoonup> 'v) \<Rightarrow> 'k \<Rightarrow> 'v \<Rightarrow> ('k \<rightharpoonup> 'v)" where
  "setdefault m k v = (case m k of None \<Rightarrow> m(k \<mapsto> v) | Some _ \<Rightarrow> m)"

definition mem_get_barrier :: "InMemoryBarrierStorage \<Rightarrow> string \<Rightarrow> Barrier option py" where
  "mem_get_barrier s b = Inr (barriers_field s b)"

definition mem_save_barrier :: "InMemoryBarrierStorage \<Rightarrow> Barrier \<Rightarrow> InMemoryBarrierStorage py" where
  "mem_save_barrier s barrier =
     (let b = barrier_id barrier in
      if (case barriers_field s b of None \<Rightarrow> False | Some existing \<Rightarrow> existing \<noteq> barrier)
      then Inl (ValueError (''barrier already exists with different definition: '' @ b))
      else Inr \<lparr>barriers_field = (barriers_field s)(b \<mapsto> barrier),
                states_field = setdefault (states_field s) b
                  \<lparr>state_barrier_id = b, completed_members = 0,
                   pending_members = expected_member_count barrier, failed_members = 0,
                   state_status = barrier_status barrier\<rparr>,
                members_field = setdefault (members_field s) b []\<rparr>)"

definition mem_get_state :: "InMemoryBarrierStorage \<Rightarrow> string \<Rightarrow> BarrierState option py" where
  "mem_get_state s b = Inr (states_field s b)"

definition mem_save_state :: "InMemoryBarrierStorage \<Rightarrow> BarrierState \<Rightarrow> InMemoryBarrierStorage py" where
  "mem_save_state s st =
     (let b = state_barrier_id st in
      if barriers_field s b = None then Inl (KeyError (''unknown barrier: '' @ b))
      else Inr (s\<lparr>states_field := (states_field s)(b \<mapsto> st)\<rparr>))"

definition mem_get_members :: "InMemoryBarrierStorage \<Rightarrow> string \<Rightarrow> BarrierMember list py" where
  "mem_get_members s b =
     (case members_field s b of
        None \<Rightarrow> Inl (KeyError (''unknown barrier: '' @ b))
      | Some members \<Rightarrow> Inr (map snd members))"

definition mem_add_member ::
    "InMemoryBarrierStorage \<Rightarrow> string \<Rightarrow> string \<Rightarrow> StageStatus \<Rightarrow> DependencyCriticality
      \<Rightarrow> InMemoryBarrierStorage py" where
  "mem_add_member s b w oc cr =
     (if py_blank w then Inl (ValueError ''work_item_id must be a non-empty string'')
      else if oc \<notin> SUCCESS_OUTCOMES \<and> oc \<notin> FAILURE_OUTCOMES
      then Inl (ValueError ''barrier members must submit a terminal StageStatus'')
      else case barriers_field s b of
        None \<Rightarrow> Inl (KeyError (''unknown barrier: '' @ b))
      | Some barrier \<Rightarrow>
          (case members_field s b of
             None \<Rightarrow> Inl (KeyError b)
           | Some members \<Rightarrow>
               (case map_of members w of
                  Some existing \<Rightarrow>
                    if member_outcome existing = oc \<and> member_criticality existing = cr then Inr s
                    else Inl (ValueError (''conflicting replay for barrier member: '' @ w))
                | None \<Rightarrow>
                    if length members \<ge> expected_member_count barrier
                    then Inl (ValueError (''barrier member capacity exceeded: '' @ b))
                    else
                      let members' = members @ [(w, \<lparr>member_work_item_id = w,
                            member_criticality = cr, member_outcome = oc\<rparr>)];
                          complete = (length members' = expected_member_count barrier)
                      in rbind (aggregate barrier (map snd members') complete) (\<lambda>agg.
                        Inr (s\<lparr>members_field := (members_field s)(b \<mapsto> members'),
                               states_field := (states_field s)(b \<mapsto>
                                 \<lparr>state_barrier_id = b, completed_members = length members',
                                  pending_members = expected_member_count barrier - length members',
                                  failed_members = failed_cameras agg,
                                  state_status =
                                    (if complete \<and> overall_status agg \<noteq> Status_INCOMPLETE then ''CLOSED''
                                     else if complete then ''FAILED'' else ''OPEN'')\<rparr>)\<rparr>)))))"

definition in_memory_storage :: "InMemoryBarrierStorage BarrierStorage" where
  "in_memory_storage =
     \<lparr>get_barrier = mem_get_barrier, save_barrier = mem_save_barrier, get_state = mem_get_state,
      save_state = mem_save_state, add_member = mem_add_member, get_members = mem_get_members\<rparr>"

section \<open>Coordinator\<close>

definition new_barrier :: "(string \<Rightarrow> string) \<Rightarrow> string \<Rightarrow> int \<Rightarrow> ReductionPolicy \<Rightarrow> string \<Rightarrow> Barrier py" where
  "new_barrier uuid5 key expected policy empty_value =
     (if py_blank key then Inl (ValueError ''logical_key must be a non-empty string'')
      else if expected < 0 then Inl (ValueError ''expected_members must be non-negative'')
      else if int (required_count policy) > expected
      then Inl (ValueError ''required_count cannot exceed expected_members'')
      else if int (degradable_count policy) > expected
      then Inl (ValueError ''degradable_count cannot exceed expected_members'')
      else case StageStatus_of empty_value of
        Inl _ \<Rightarrow> Inl (ValueError ''empty_semantics must identify a terminal StageStatus'')
      | Inr empty_outcome \<Rightarrow>
          if empty_outcome \<notin> SUCCESS_OUTCOMES \<and> empty_outcome \<notin> FAILURE_OUTCOMES
          then Inl (ValueError ''empty_semantics must identify a terminal StageStatus'')
          else if \<not> opaque_uuid (uuid5 (''robata:barrier:'' @ key))
          then Inl (ValueError ''barrier_id: string should match the UUID pattern'')
          else Inr \<lparr>barrier_id = uuid5 (''robata:barrier:'' @ key), logical_key = key,
            expected_member_count = nat expected, empty_semantics = empty_value,
            reduction_policy = policy_version policy,
            barrier_status = (if expected = 0 \<and> empty_outcome \<in> FAILURE_OUTCOMES then ''FAILED''
                              else if expected = 0 then ''CLOSED'' else ''OPEN''),
            required_success_count = required_count policy,
            max_degraded_failures = degradable_count policy\<rparr>)"

definition create_barrier ::
    "'s BarrierStorage \<Rightarrow> (string \<Rightarrow> string) \<Rightarrow> 's \<Rightarrow> string \<Rightarrow> int \<Rightarrow> ReductionPolicy \<Rightarrow> string
      \<Rightarrow> ('s \<times> Barrier) py" where
  "create_barrier st uuid5 s key expected policy empty_value =
     rbind (new_barrier uuid5 key expected policy empty_value) (\<lambda>barrier.
     rbind (save_barrier st s barrier) (\<lambda>s1.
     rbind (get_state st s1 (barrier_id barrier)) (\<lambda>stt.
     rbind (if stt = None
            then save_state st s1 \<lparr>state_barrier_id = barrier_id barrier, completed_members = 0,
                   pending_members = expected_member_count barrier, failed_members = 0,
                   state_status = barrier_status barrier\<rparr>
            else Inr s1) (\<lambda>s2. Inr (s2, barrier)))))"

definition submit_member ::
    "'s BarrierStorage \<Rightarrow> 's \<Rightarrow> string \<Rightarrow> string \<Rightarrow> StageStatus \<Rightarrow> DependencyCriticality
      \<Rightarrow> ('s \<times> BarrierState) py" where
  "submit_member st s b w oc cr =
     rbind (add_member st s b w oc cr) (\<lambda>s1.
     rbind (get_state st s1 b) (\<lambda>stt.
       case stt of
         None \<Rightarrow> Inl (KeyError (''storage did not return state for barrier: '' @ b))
       | Some stt \<Rightarrow> Inr (s1, stt)))"

definition is_complete :: "'s BarrierStorage \<Rightarrow> 's \<Rightarrow> string \<Rightarrow> bool py" where
  "is_complete st s b =
     rbind (get_state st s b) (\<lambda>stt.
       Inr (case stt of None \<Rightarrow> False | Some stt \<Rightarrow> state_status stt \<in> {''CLOSED'', ''FAILED''}))"

definition get_aggregate_status :: "'s BarrierStorage \<Rightarrow> 's \<Rightarrow> string \<Rightarrow> AggregateStatus py" where
  "get_aggregate_status st s b =
     rbind (get_barrier st s b) (\<lambda>barrier.
     rbind (get_state st s b) (\<lambda>stt.
       case (barrier, stt) of
         (Some barrier, Some stt) \<Rightarrow>
           rbind (get_members st s b) (\<lambda>members.
             aggregate barrier members (state_status stt \<in> {''CLOSED'', ''FAILED''}))
       | _ \<Rightarrow> Inl (KeyError (''unknown barrier: '' @ b))))"

text \<open>A submission given as a member record, and a sequence of them.\<close>

definition submit :: "'s BarrierStorage \<Rightarrow> 's \<Rightarrow> string \<Rightarrow> BarrierMember \<Rightarrow> ('s \<times> BarrierState) py" where
  "submit st s b m = submit_member st s b (member_work_item_id m) (member_outcome m) (member_criticality m)"

definition submit_all :: "'s BarrierStorage \<Rightarrow> string \<Rightarrow> BarrierMember list \<Rightarrow> 's \<Rightarrow> 's py" where
  "submit_all st b ms s = fold_res (\<lambda>m s. rbind (submit st s b m) (\<lambda>(s', _). Inr s')) ms s"

section \<open>What a barrier promises\<close>

text \<open>
  The contract in terms of the definition of a barrier and the members accepted so far, in
  the order of acceptance.
\<close>

definition failures :: "BarrierMember list \<Rightarrow> nat" where
  "failures ms = length (filter (\<lambda>m. terminal_failure (member_outcome m)) ms)"

definition acceptable :: "Barrier \<Rightarrow> BarrierMember list \<Rightarrow> bool" where
  "acceptable barrier ms \<longleftrightarrow>
     (\<forall>m \<in> set ms. member_criticality m = REQUIRED \<longrightarrow> member_outcome m \<in> SUCCESS_OUTCOMES)
     \<and> required_success_count barrier \<le> length (filter (\<lambda>m. member_outcome m \<in> SUCCESS_OUTCOMES) ms)
     \<and> length (filter (\<lambda>m. terminal_failure (member_outcome m) \<and> member_criticality m = DEGRADABLE) ms)
         \<le> max_degraded_failures barrier"

definition status_of :: "Barrier \<Rightarrow> BarrierMember list \<Rightarrow> string" where
  "status_of barrier ms =
     (if expected_member_count barrier = 0 then barrier_status barrier
      else if length ms = expected_member_count barrier
      then (if acceptable barrier ms then ''CLOSED'' else ''FAILED'')
      else ''OPEN'')"

definition state_of :: "Barrier \<Rightarrow> BarrierMember list \<Rightarrow> BarrierState" where
  "state_of barrier ms =
     \<lparr>state_barrier_id = barrier_id barrier, completed_members = length ms,
      pending_members = expected_member_count barrier - length ms, failed_members = failures ms,
      state_status = status_of barrier ms\<rparr>"

text \<open>A definition as \<open>create_barrier\<close> makes it.\<close>

definition created :: "Barrier \<Rightarrow> bool" where
  "created barrier \<longleftrightarrow> opaque_uuid (barrier_id barrier)
     \<and> required_success_count barrier \<le> expected_member_count barrier
     \<and> max_degraded_failures barrier \<le> expected_member_count barrier
     \<and> (\<exists>st. StageStatus_of (empty_semantics barrier) = Inr st
         \<and> st \<in> SUCCESS_OUTCOMES \<union> FAILURE_OUTCOMES
         \<and> barrier_status barrier =
             (if expected_member_count barrier = 0 \<and> st \<in> FAILURE_OUTCOMES then ''FAILED''
              else if expected_member_count barrier = 0 then ''CLOSED'' else ''OPEN''))"

definition member_valid :: "BarrierMember \<Rightarrow> bool" where
  "member_valid m \<longleftrightarrow> \<not> py_blank (member_work_item_id m)
     \<and> member_outcome m \<in> SUCCESS_OUTCOMES \<union> FAILURE_OUTCOMES"

definition members_ok :: "Barrier \<Rightarrow> BarrierMember list \<Rightarrow> bool" where
  "members_ok barrier ms \<longleftrightarrow> distinct (map member_work_item_id ms)
     \<and> length ms \<le> expected_member_count barrier \<and> (\<forall>m \<in> set ms. member_valid m)"

text \<open>What happens to a submission: accepted, a replay, or refused.\<close>

definition accepts :: "Barrier \<Rightarrow> BarrierMember list \<Rightarrow> BarrierMember \<Rightarrow> BarrierMember list option" where
  "accepts barrier ms m =
     (if \<not> member_valid m then None
      else if m \<in> set ms then Some ms
      else if member_work_item_id m \<in> member_work_item_id ` set ms then None
      else if expected_member_count barrier \<le> length ms then None
      else Some (ms @ [m]))"

lemma new_barrier_created:
  assumes "new_barrier uuid5 key expected policy empty_value = Inr bar"
  shows "created bar" and "barrier_id bar = uuid5 (''robata:barrier:'' @ key)"
  using assms by (auto simp: new_barrier_def created_def split: if_splits sum.splits)

lemma aggregate_complete:
  assumes "expected_member_count barrier \<noteq> 0"
  shows "aggregate barrier ms True = Inr \<lparr>overall_status =
      (if acceptable barrier ms then Status_SUCCEEDED else Status_INCOMPLETE),
      degraded_cameras = length (filter (\<lambda>m. terminal_failure (member_outcome m) \<and> member_criticality m = DEGRADABLE) ms),
      failed_cameras = failures ms, aggregate_is_complete = True\<rparr>"
  using assms by (auto simp: aggregate_def Let_def acceptable_def failures_def list_ex_iff)

lemma aggregate_open:
  assumes "expected_member_count barrier \<noteq> 0"
  shows "aggregate barrier ms False = Inr \<lparr>overall_status = Status_PENDING,
      degraded_cameras = length (filter (\<lambda>m. terminal_failure (member_outcome m) \<and> member_criticality m = DEGRADABLE) ms),
      failed_cameras = failures ms, aggregate_is_complete = False\<rparr>"
  using assms by (simp add: aggregate_def failures_def)

lemma accepts_ok:
  assumes "members_ok barrier ms" and "accepts barrier ms m = Some ms'"
  shows "members_ok barrier ms'" and "m \<in> set ms'"
  using assms by (auto simp: accepts_def members_ok_def split: if_splits)

lemma status_of_complete:
  assumes "created barrier" and "length ms \<le> expected_member_count barrier"
  shows "status_of barrier ms \<in> {''CLOSED'', ''FAILED''} \<longleftrightarrow> length ms = expected_member_count barrier"
  using assms by (auto simp: status_of_def created_def)

text \<open>Sequences of submissions: which succeed, and with which members.\<close>

fun accept_all :: "Barrier \<Rightarrow> BarrierMember list \<Rightarrow> BarrierMember list \<Rightarrow> BarrierMember list option" where
  "accept_all barrier ms [] = Some ms"
| "accept_all barrier ms (m # rest) =
     (case accepts barrier ms m of None \<Rightarrow> None | Some ms' \<Rightarrow> accept_all barrier ms' rest)"

lemma accepts_set: "accepts barrier ms m = Some ms' \<Longrightarrow> set ms' = insert m (set ms)"
  by (auto simp: accepts_def split: if_splits)

lemma members_card:
  assumes "members_ok barrier ms"
  shows "length ms = card (set ms)"
  using assms distinct_card [of ms] by (auto simp: members_ok_def distinct_map)

lemma accept_all_set:
  "accept_all barrier ms xs = Some ms' \<Longrightarrow> members_ok barrier ms \<Longrightarrow>
    members_ok barrier ms' \<and> set ms' = set ms \<union> set xs"
proof (induction barrier ms xs rule: accept_all.induct)
  case (1 barrier ms)
  then show ?case by simp
next
  case (2 barrier ms m rest)
  then obtain ms1 where a: "accepts barrier ms m = Some ms1" and r: "accept_all barrier ms1 rest = Some ms'"
    by (auto split: option.splits)
  with 2 accepts_ok(1) [OF _ a] accepts_set [OF a] show ?case by auto
qed

text \<open>Whether a sequence is accepted depends only on the set of members submitted.\<close>

lemma accept_all_iff:
  assumes "members_ok barrier ms"
  shows "accept_all barrier ms xs \<noteq> None \<longleftrightarrow> (\<forall>m \<in> set xs. member_valid m)
    \<and> inj_on member_work_item_id (set ms \<union> set xs)
    \<and> card (set ms \<union> set xs) \<le> expected_member_count barrier"
  using assms
proof (induction xs arbitrary: ms)
  case Nil
  then show ?case by (auto simp: members_card [symmetric] members_ok_def distinct_map)
next
  case (Cons m xs)
  show ?case
  proof (cases "accepts barrier ms m")
    case (Some ms1)
    note ok = accepts_ok(1) [OF Cons.prems Some]
    have "member_valid m" using Some by (auto simp: accepts_def split: if_splits)
    then show ?thesis using Cons.IH [OF ok] Some accepts_set [OF Some] by (simp add: Un_insert_right)
  next
    case None
    have "\<not> inj_on member_work_item_id (set ms \<union> set (m # xs)) \<or> \<not> member_valid m
      \<or> expected_member_count barrier < card (set ms \<union> set (m # xs))"
    proof (cases "member_valid m \<and> m \<notin> set ms \<and> member_work_item_id m \<notin> member_work_item_id ` set ms")
      case True
      then have "expected_member_count barrier \<le> card (set ms)"
        using None members_card [OF Cons.prems] by (auto simp: accepts_def split: if_splits)
      moreover have "card (insert m (set ms)) \<le> card (set ms \<union> set (m # xs))" by (intro card_mono) auto
      ultimately show ?thesis using True by auto
    next
      case False
      then have "\<not> member_valid m \<or> (\<exists>v \<in> set ms. member_work_item_id v = member_work_item_id m \<and> v \<noteq> m)"
        using None by (auto simp: accepts_def split: if_splits)
      then show ?thesis by (auto simp: inj_on_def)
    qed
    then show ?thesis using None by (auto simp: not_le)
  qed
qed

lemma state_of_perm:
  assumes "mset ms = mset ms'"
  shows "state_of barrier ms = state_of barrier ms'" and "aggregate barrier ms c = aggregate barrier ms' c"
proof -
  have f: "length (filter p ms) = length (filter p ms')" for p
    using assms by (metis mset_filter size_mset)
  have s: "set ms = set ms'" using assms by (rule mset_eq_setD)
  have l: "length ms = length ms'" using assms by (rule mset_eq_length)
  show "state_of barrier ms = state_of barrier ms'"
    by (simp add: state_of_def status_of_def acceptable_def failures_def f l s)
  show "aggregate barrier ms c = aggregate barrier ms' c"
    by (simp add: aggregate_def Let_def f s list_ex_iff)
qed

lemma accept_all_perm:
  assumes "members_ok barrier ms" and "accept_all barrier ms xs = Some ms1" and "set ys = set xs"
  shows "\<exists>ms2. accept_all barrier ms ys = Some ms2 \<and> mset ms2 = mset ms1"
proof -
  obtain ms2 where ms2: "accept_all barrier ms ys = Some ms2"
    using accept_all_iff [OF assms(1)] assms(2,3) by (metis not_None_eq)
  have "distinct ms1" "distinct ms2" "set ms1 = set ms2"
    using accept_all_set [OF assms(2,1)] accept_all_set [OF ms2 assms(1)] assms(3)
    by (auto simp: members_ok_def distinct_map)
  with ms2 show ?thesis by (simp add: set_eq_iff_mset_eq_distinct)
qed

end
