(* ===== verification/Barrier_Storage.thy ===== *)
theory Barrier_Storage
  imports Barrier
begin

text \<open>
  What \<^verbatim>\<open>BarrierStorage\<close> of \<^verbatim>\<open>src/robata/queue/barrier.py\<close> promises its clients, as a locale, and
  what the coordinator gives on every storage that keeps the promise. A second locale
  compares two storages: the same calls get the same answers from both.
\<close>

section \<open>Calls of the coordinator\<close>

datatype barrier_call =
    Create string int ReductionPolicy string
  | Submit string BarrierMember

text \<open>What a caller sees of a call: the created definition, the state after a submission, or a refusal.\<close>

datatype barrier_answer = Created Barrier | Submitted BarrierState | Refused

fun barrier_step ::
    "'s BarrierStorage \<Rightarrow> (string \<Rightarrow> string) \<Rightarrow> barrier_call \<Rightarrow> 's \<Rightarrow> 's \<times> barrier_answer" where
  "barrier_step st uuid5 (Create key expected policy empty_value) s =
     (case create_barrier st uuid5 s key expected policy empty_value of
        Inl _ \<Rightarrow> (s, Refused) | Inr (s', bar) \<Rightarrow> (s', Created bar))"
| "barrier_step st uuid5 (Submit b m) s =
     (case submit st s b m of Inl _ \<Rightarrow> (s, Refused) | Inr (s', stt) \<Rightarrow> (s', Submitted stt))"

primrec barrier_run ::
    "'s BarrierStorage \<Rightarrow> (string \<Rightarrow> string) \<Rightarrow> barrier_call list \<Rightarrow> 's \<Rightarrow> 's" where
  "barrier_run st uuid5 [] s = s"
| "barrier_run st uuid5 (c # cs) s = barrier_run st uuid5 cs (fst (barrier_step st uuid5 c s))"

primrec barrier_answers ::
    "'s BarrierStorage \<Rightarrow> (string \<Rightarrow> string) \<Rightarrow> barrier_call list \<Rightarrow> 's \<Rightarrow> barrier_answer list" where
  "barrier_answers st uuid5 [] s = []"
| "barrier_answers st uuid5 (c # cs) s =
     snd (barrier_step st uuid5 c s) # barrier_answers st uuid5 cs (fst (barrier_step st uuid5 c s))"

definition fresh_key :: "(string \<rightharpoonup> Barrier \<times> BarrierMember list) \<Rightarrow> Barrier \<Rightarrow> bool" where
  "fresh_key v bar \<longleftrightarrow> (\<forall>b bar' ms. v b = Some (bar', ms) \<longrightarrow> logical_key bar' \<noteq> logical_key bar)"

section \<open>The storage interface\<close>

text \<open>
  \<open>view s b\<close> is the definition stored under \<open>b\<close> with the members accepted so far. A storage
  may ask more of a new member than the contract of barriers does (the durable one asks for a
  part completion): \<open>admits s b m\<close>. It may refuse a new definition whose logical key is taken
  or that it cannot represent: \<open>storable bar\<close>.
\<close>

locale barrier_storage =
  fixes st :: "'s BarrierStorage"
    and inv :: "'s \<Rightarrow> bool"
    and view :: "'s \<Rightarrow> string \<rightharpoonup> Barrier \<times> BarrierMember list"
    and admits :: "'s \<Rightarrow> string \<Rightarrow> BarrierMember \<Rightarrow> bool"
    and storable :: "Barrier \<Rightarrow> bool"
  assumes view_ok: "inv s \<Longrightarrow> view s b = Some (bar, ms) \<Longrightarrow>
      created bar \<and> barrier_id bar = b \<and> members_ok bar ms"
    and get_barrier: "inv s \<Longrightarrow> view s b = Some (bar, ms) \<Longrightarrow> get_barrier st s b = Inr (Some bar)"
    and get_state: "inv s \<Longrightarrow> view s b = Some (bar, ms) \<Longrightarrow> get_state st s b = Inr (Some (state_of bar ms))"
    and get_members: "inv s \<Longrightarrow> view s b = Some (bar, ms) \<Longrightarrow>
      \<exists>ms'. get_members st s b = Inr ms' \<and> mset ms' = mset ms"
    and get_barrier_unknown: "inv s \<Longrightarrow> view s b = None \<Longrightarrow> get_barrier st s b \<noteq> Inr (Some bar)"
    and get_state_unknown: "inv s \<Longrightarrow> view s b = None \<Longrightarrow> get_state st s b \<noteq> Inr (Some stt)"
    and add_accepted: "inv s \<Longrightarrow> view s b = Some (bar, ms) \<Longrightarrow> accepts bar ms m = Some ms' \<Longrightarrow>
      m \<in> set ms \<or> admits s b m \<Longrightarrow>
      \<exists>s'. add_member st s b (member_work_item_id m) (member_outcome m) (member_criticality m) = Inr s'
        \<and> inv s' \<and> view s' = (view s)(b \<mapsto> (bar, ms')) \<and> admits s' = admits s"
    and add_refused: "inv s \<Longrightarrow> view s b = Some (bar, ms) \<Longrightarrow>
      accepts bar ms m = None \<or> m \<notin> set ms \<and> \<not> admits s b m \<Longrightarrow>
      \<exists>e. add_member st s b (member_work_item_id m) (member_outcome m) (member_criticality m) = Inl e"
    and add_unknown: "inv s \<Longrightarrow> view s b = None \<Longrightarrow>
      \<exists>e. add_member st s b (member_work_item_id m) (member_outcome m) (member_criticality m) = Inl e"
    and save_new: "inv s \<Longrightarrow> created bar \<Longrightarrow> view s (barrier_id bar) = None \<Longrightarrow> fresh_key (view s) bar \<Longrightarrow>
      storable bar \<Longrightarrow>
      \<exists>s'. save_barrier st s bar = Inr s'"
    and save_new_view: "inv s \<Longrightarrow> created bar \<Longrightarrow> view s (barrier_id bar) = None \<Longrightarrow> save_barrier st s bar = Inr s' \<Longrightarrow>
      inv s' \<and> view s' = (view s)(barrier_id bar \<mapsto> (bar, [])) \<and> admits s' = admits s"
    and save_same: "inv s \<Longrightarrow> view s (barrier_id bar) = Some (bar, ms) \<Longrightarrow>
      \<exists>s'. save_barrier st s bar = Inr s' \<and> inv s' \<and> view s' = view s \<and> admits s' = admits s"
    and save_conflict: "inv s \<Longrightarrow> view s (barrier_id bar) = Some (bar', ms) \<Longrightarrow> bar' \<noteq> bar \<Longrightarrow>
      \<exists>e. save_barrier st s bar = Inl e"
begin

lemma submit_Inr:
  assumes "inv s" and "submit st s b m = Inr (s', stt)"
  obtains bar ms ms' where "view s b = Some (bar, ms)" "accepts bar ms m = Some ms'"
    "m \<in> set ms \<or> admits s b m" "inv s'" "view s' = (view s)(b \<mapsto> (bar, ms'))"
    "admits s' = admits s" "stt = state_of bar ms'"
proof -
  obtain s1 where add: "add_member st s b (member_work_item_id m) (member_outcome m) (member_criticality m) = Inr s1"
    using assms(2) by (auto simp: submit_def submit_member_def result_simps)
  obtain bar ms where v: "view s b = Some (bar, ms)"
    using add_unknown [OF assms(1), of b m] add by (cases "view s b") auto
  have adm: "accepts bar ms m \<noteq> None" "m \<in> set ms \<or> admits s b m"
    using add_refused [OF assms(1) v, of m] add by (force, force)
  then obtain ms' where a: "accepts bar ms m = Some ms'" by auto
  have s1: "inv s1" "view s1 = (view s)(b \<mapsto> (bar, ms'))" "admits s1 = admits s"
    using add_accepted [OF assms(1) v a adm(2)] add by auto
  have "s' = s1 \<and> stt = state_of bar ms'"
    using assms(2) add get_state [OF s1(1), of b bar ms'] s1(2)
    by (auto simp: submit_def submit_member_def)
  with v a adm s1 show thesis by (intro that) simp_all
qed

lemma complete_iff:
  assumes "inv s" and "view s b = Some (bar, ms)"
  shows "is_complete st s b = Inr (length ms = expected_member_count bar)"
  using status_of_complete [of bar ms] view_ok [OF assms] get_state [OF assms] 
  by (simp add: is_complete_def state_of_def members_ok_def)

lemma aggregate_view:
  assumes "inv s" and "view s b = Some (bar, ms)"
  shows "get_aggregate_status st s b = aggregate bar ms (length ms = expected_member_count bar)"
proof -
  obtain ms' where m: "get_members st s b = Inr ms'" "mset ms' = mset ms"
    using get_members [OF assms] by blast
  have "state_status (state_of bar ms) \<in> {''CLOSED'', ''FAILED''} \<longleftrightarrow> length ms = expected_member_count bar"
    using status_of_complete [of bar ms] view_ok [OF assms] by (simp add: state_of_def members_ok_def)
  then show ?thesis
    using get_barrier [OF assms] get_state [OF assms] m(1) state_of_perm(2) [OF m(2)]
    by (simp add: get_aggregate_status_def)
qed

lemma known_iff:
  assumes "inv s" 
  shows "get_barrier st s b = Inr (Some bar) \<longleftrightarrow> (\<exists>ms. view s b = Some (bar, ms))"
    and "get_state st s b = Inr (Some stt) \<longleftrightarrow> (\<exists>bar ms. view s b = Some (bar, ms) \<and> stt = state_of bar ms)"
proof -
  show "get_barrier st s b = Inr (Some bar) \<longleftrightarrow> (\<exists>ms. view s b = Some (bar, ms))"
    using get_barrier [OF assms, of b] get_barrier_unknown [OF assms, of b bar] by (cases "view s b") auto
  show "get_state st s b = Inr (Some stt) \<longleftrightarrow> (\<exists>bar ms. view s b = Some (bar, ms) \<and> stt = state_of bar ms)"
    using get_state [OF assms, of b] get_state_unknown [OF assms, of b stt] by (cases "view s b") auto
qed

lemma aggregate_unknown:
  assumes "inv s" and "view s b = None"
  shows "\<exists>e. get_aggregate_status st s b = Inl e"
  using get_barrier_unknown [OF assms]
  by (cases "get_barrier st s b"; cases "get_state st s b") (auto simp: get_aggregate_status_def split: option.splits)

lemma complete_unknown:
  assumes "inv s" and "view s b = None"
  shows "is_complete st s b \<noteq> Inr True"
  using get_state_unknown [OF assms] by (cases "get_state st s b") (auto simp: is_complete_def split: option.splits)

lemma submit_all_Inr:
  assumes "submit_all st b xs s = Inr s'" and "inv s" and "view s b = Some (bar, ms)"
  shows "\<exists>ms'. accept_all bar ms xs = Some ms' \<and> (\<forall>m \<in> set xs. m \<in> set ms \<or> admits s b m)
    \<and> inv s' \<and> view s' b = Some (bar, ms')"
  using assms
proof (induction xs arbitrary: s ms)
  case Nil
  then show ?case by (simp add: submit_all_def)
next
  case (Cons m xs)
  then obtain s1 stt where m: "submit st s b m = Inr (s1, stt)" and rest: "submit_all st b xs s1 = Inr s'"
    by (auto simp: submit_all_def result_simps)
  obtain bar' ms0 ms1 where a: "view s b = Some (bar', ms0)" "accepts bar' ms0 m = Some ms1"
    "m \<in> set ms0 \<or> admits s b m" "inv s1" "view s1 = (view s)(b \<mapsto> (bar', ms1))" "admits s1 = admits s"
    by (rule submit_Inr [OF Cons.prems(2) m])
  have same: "bar' = bar" "ms0 = ms" using a(1) Cons.prems(3) by simp_all
  have v1: "view s1 b = Some (bar, ms1)" using a(5) same by simp
  obtain ms' where ms': "accept_all bar ms1 xs = Some ms'" "\<forall>x \<in> set xs. x \<in> set ms1 \<or> admits s1 b x"
    "inv s'" "view s' b = Some (bar, ms')"
    using Cons.IH [OF rest a(4) v1] by blast
  have "set ms1 = insert m (set ms)" using accepts_set [OF a(2)] same by simp
  then have "\<forall>x \<in> set (m # xs). x \<in> set ms \<or> admits s b x" using ms'(2) a(3,6) same by auto
  with ms' a(2) same show ?case by simp
qed

lemma submit_accepted:
  assumes "inv s" and "view s b = Some (bar, ms)" and "accepts bar ms m = Some ms'"
    and "m \<in> set ms \<or> admits s b m"
  shows "\<exists>s'. submit st s b m = Inr (s', state_of bar ms') \<and> inv s' \<and> view s' = (view s)(b \<mapsto> (bar, ms'))
    \<and> admits s' = admits s"
proof -
  obtain s' where s': "add_member st s b (member_work_item_id m) (member_outcome m) (member_criticality m) = Inr s'"
    "inv s'" "view s' = (view s)(b \<mapsto> (bar, ms'))" "admits s' = admits s"
    using add_accepted [OF assms] by blast
  then show ?thesis using get_state [OF s'(2), of b bar ms'] by (simp add: submit_def submit_member_def)
qed

lemma submit_all_accepted:
  assumes "accept_all bar ms xs = Some ms'" and "inv s" and "view s b = Some (bar, ms)"
    and "\<forall>m \<in> set xs. m \<in> set ms \<or> admits s b m"
  shows "\<exists>s'. submit_all st b xs s = Inr s' \<and> inv s' \<and> view s' b = Some (bar, ms')"
  using assms
proof (induction xs arbitrary: s ms)
  case Nil
  then show ?case by (simp add: submit_all_def)
next
  case (Cons m xs)
  then obtain ms1 where a: "accepts bar ms m = Some ms1" and r: "accept_all bar ms1 xs = Some ms'"
    by (auto split: option.splits)
  have adm: "m \<in> set ms \<or> admits s b m" using Cons.prems(4) by simp
  obtain s1 where s1: "submit st s b m = Inr (s1, state_of bar ms1)" "inv s1"
    "view s1 = (view s)(b \<mapsto> (bar, ms1))" "admits s1 = admits s"
    using submit_accepted [OF Cons.prems(2,3) a adm] by blast
  have rest: "\<forall>x \<in> set xs. x \<in> set ms1 \<or> admits s1 b x"
    using Cons.prems(4) accepts_set [OF a] s1(4) by auto
  have "view s1 b = Some (bar, ms1)" using s1(3) by simp
  from Cons.IH [OF r s1(2) this rest] s1(1) show ?case by (auto simp: submit_all_def)
qed

lemma order_independent:
  assumes "inv s" and "submit_all st b xs s = Inr s1" and "set ys = set xs" and "view s b \<noteq> None"
  shows "\<exists>s2. submit_all st b ys s = Inr s2 \<and> get_state st s2 b = get_state st s1 b
    \<and> get_aggregate_status st s2 b = get_aggregate_status st s1 b"
proof -
  obtain bar ms where v: "view s b = Some (bar, ms)" using assms(4) by auto
  have ok: "members_ok bar ms" using view_ok [OF assms(1) v] by blast
  obtain ms1 where m1: "accept_all bar ms xs = Some ms1" "\<forall>m \<in> set xs. m \<in> set ms \<or> admits s b m"
    "inv s1" "view s1 b = Some (bar, ms1)"
    using submit_all_Inr [OF assms(2,1) v] by blast
  obtain ms2 where m2: "accept_all bar ms ys = Some ms2" and perm: "mset ms2 = mset ms1"
    using accept_all_perm [OF ok m1(1) assms(3)] by blast
  have adm: "\<forall>m \<in> set ys. m \<in> set ms \<or> admits s b m" using m1(2) assms(3) by simp
  obtain s2 where s2: "submit_all st b ys s = Inr s2" "inv s2" "view s2 b = Some (bar, ms2)"
    using submit_all_accepted [OF m2 assms(1) v adm] by blast
  have "get_state st s2 b = get_state st s1 b"
    using get_state [OF s2(2,3)] get_state [OF m1(3,4)] state_of_perm(1) [OF perm] by simp
  moreover have "get_aggregate_status st s2 b = get_aggregate_status st s1 b"
    using aggregate_view [OF s2(2,3)] aggregate_view [OF m1(3,4)] state_of_perm(2) [OF perm] mset_eq_length [OF perm]
    by simp
  ultimately show ?thesis using s2(1) by blast
qed

lemma aggregate_known:
  assumes "inv s" and "view s b = Some (bar, ms)" and "0 < expected_member_count bar"
  shows "\<exists>agg. get_aggregate_status st s b = Inr agg \<and> overall_status agg =
     (if length ms < expected_member_count bar then Status_PENDING
      else if acceptable bar ms then Status_SUCCEEDED else Status_INCOMPLETE)"
proof -
  have le: "length ms \<le> expected_member_count bar"
    using view_ok [OF assms(1,2)] by (simp add: members_ok_def)
  have ne: "expected_member_count bar \<noteq> 0" using assms(3) by simp
  show ?thesis
    using aggregate_view [OF assms(1,2)] le aggregate_complete [OF ne, of ms] aggregate_open [OF ne, of ms]
    by (cases "length ms = expected_member_count bar") auto
qed

lemma create_view:
  assumes "inv s" and "create_barrier st uuid5 s key expected policy empty_value = Inr (s', bar)"
  shows "inv s' \<and> new_barrier uuid5 key expected policy empty_value = Inr bar \<and> admits s' = admits s
    \<and> (\<exists>ms. view s' = (view s)(barrier_id bar \<mapsto> (bar, ms))
        \<and> (view s (barrier_id bar) = None \<and> ms = [] \<or> view s (barrier_id bar) = Some (bar, ms)))"
proof -
  obtain s1 where nb: "new_barrier uuid5 key expected policy empty_value = Inr bar"
    and sv: "save_barrier st s bar = Inr s1"
    and s': "\<And>x. get_state st s1 (barrier_id bar) = Inr (Some x) \<Longrightarrow> s' = s1"
    using assms(2) by (auto simp: create_barrier_def result_simps split: if_splits)
  note cr = new_barrier_created [OF nb]
  obtain ms where ms: "inv s1" "view s1 = (view s)(barrier_id bar \<mapsto> (bar, ms))" "admits s1 = admits s"
    "view s (barrier_id bar) = None \<and> ms = [] \<or> view s (barrier_id bar) = Some (bar, ms)"
  proof (cases "view s (barrier_id bar)")
    case None
    with save_new_view [OF assms(1) cr(1) None sv] show thesis by (auto intro: that [of "[]"])
  next
    case (Some p)
    obtain bar' ms where p: "p = (bar', ms)" by force
    with Some save_conflict [OF assms(1)] sv have "bar' = bar" by fastforce
    with Some p save_same [OF assms(1), of bar ms] sv show thesis
      by (intro that [of ms]) (auto simp: fun_upd_idem)
  qed
  then have "view s1 (barrier_id bar) = Some (bar, ms)" by simp
  from s' [OF get_state [OF ms(1) this]] have "s' = s1" .
  with ms nb show ?thesis by blast
qed

lemma create_known:
  assumes "inv s" and "new_barrier uuid5 key expected policy empty_value = Inr bar"
    and "view s (barrier_id bar) = None \<and> fresh_key (view s) bar \<or> (\<exists>ms. view s (barrier_id bar) = Some (bar, ms))"
    and "storable bar"
  shows "\<exists>s'. create_barrier st uuid5 s key expected policy empty_value = Inr (s', bar)"
proof -
  note cr = new_barrier_created [OF assms(2)]
  obtain s1 ms where sv: "save_barrier st s bar = Inr s1" "inv s1" "view s1 (barrier_id bar) = Some (bar, ms)"
  proof (cases "view s (barrier_id bar)")
    case None
    then obtain s1 where "save_barrier st s bar = Inr s1"
      using assms(3,4) save_new [OF assms(1) cr(1) None] by auto
    with save_new_view [OF assms(1) cr(1) None this] show thesis by (intro that [of s1 "[]"]) auto
  next
    case (Some p)
    with assms(3) save_same [OF assms(1)] show thesis by (fastforce intro: that)
  qed
  with assms(2) get_state [OF sv(2,3)] show ?thesis by (simp add: create_barrier_def)
qed

text \<open>How a call may change the view: a new definition without members, or one more member.\<close>

lemma step_view:
  assumes "inv s"
  shows "inv (fst (barrier_step st uuid5 c s)) \<and> (view s b = Some (bar, ms) \<longrightarrow>
      (\<exists>ms'. view (fst (barrier_step st uuid5 c s)) b = Some (bar, ms')
        \<and> (length ms = expected_member_count bar \<longrightarrow> ms' = ms)))"
proof (cases c)
  case (Create key expected policy empty_value)
  show ?thesis
  proof (cases "create_barrier st uuid5 s key expected policy empty_value")
    case (Inl e)
    with Create assms show ?thesis by simp
  next
    case (Inr p)
    then obtain s' nb where c: "create_barrier st uuid5 s key expected policy empty_value = Inr (s', nb)"
      by (cases p) auto
    with create_view [OF assms c] Create show ?thesis by auto
  qed
next
  case (Submit b' m)
  show ?thesis
  proof (cases "submit st s b' m")
    case (Inl e)
    with Submit assms show ?thesis by simp
  next
    case (Inr p)
    then obtain s' stt where sub: "submit st s b' m = Inr (s', stt)" by (cases p) auto
    obtain bar' ms0 ms1 where v: "view s b' = Some (bar', ms0)" "accepts bar' ms0 m = Some ms1" "inv s'"
      "view s' = (view s)(b' \<mapsto> (bar', ms1))"
      by (rule submit_Inr [OF assms sub])
    have "ms1 = ms0" if "length ms0 = expected_member_count bar'"
      using v(2) that by (auto simp: accepts_def split: if_splits)
    with v Submit sub show ?thesis by auto
  qed
qed

lemma run_view:
  assumes "inv s"
  shows "inv (barrier_run st uuid5 cs s)"
    and "view s b = Some (bar, ms) \<Longrightarrow> length ms = expected_member_count bar \<Longrightarrow>
      view (barrier_run st uuid5 cs s) b = Some (bar, ms)"
proof -
  have "inv (barrier_run st uuid5 cs s) \<and> (view s b = Some (bar, ms) \<longrightarrow>
      length ms = expected_member_count bar \<longrightarrow> view (barrier_run st uuid5 cs s) b = Some (bar, ms))"
    using assms
  proof (induction cs arbitrary: s)
    case Nil
    then show ?case by simp
  next
    case (Cons c cs)
    note sv = step_view [OF Cons.prems, of uuid5 c b bar ms]
    from Cons.IH [OF conjunct1 [OF sv]] sv show ?case by auto
  qed
  then show "inv (barrier_run st uuid5 cs s)"
    "view s b = Some (bar, ms) \<Longrightarrow> length ms = expected_member_count bar \<Longrightarrow>
      view (barrier_run st uuid5 cs s) b = Some (bar, ms)" by blast+
qed

lemma complete_frozen:
  assumes "inv s" and "is_complete st s b = Inr True"
  shows "get_state st (barrier_run st uuid5 cs s) b = get_state st s b
    \<and> get_aggregate_status st (barrier_run st uuid5 cs s) b = get_aggregate_status st s b
    \<and> is_complete st (barrier_run st uuid5 cs s) b = Inr True"
proof -
  note inv' = run_view(1) [OF assms(1), of uuid5 cs]
  obtain bar ms where v: "view s b = Some (bar, ms)"
    using assms(2) complete_unknown [OF assms(1), of b] by (cases "view s b") auto
  then have len: "length ms = expected_member_count bar" using complete_iff [OF assms(1) v] assms(2) by simp
  note v' = run_view(2) [OF assms(1) v len, of uuid5 cs]
  show ?thesis
    using get_state [OF assms(1) v] get_state [OF inv' v'] aggregate_view [OF assms(1) v]
      aggregate_view [OF inv' v'] complete_iff [OF inv' v'] len by simp
qed

end

section \<open>Two storages side by side\<close>

text \<open>
  The calls never tell two storages apart that show the same view, represent what the calls
  create and admit what they submit. The identifier of every definition is the one derived from its logical key, so keys never clash.
\<close>

definition ids_derived :: "(string \<Rightarrow> string) \<Rightarrow> (string \<rightharpoonup> Barrier \<times> BarrierMember list) \<Rightarrow> bool" where
  "ids_derived uuid5 v \<longleftrightarrow>
     (\<forall>b bar ms. v b = Some (bar, ms) \<longrightarrow> b = uuid5 (''robata:barrier:'' @ logical_key bar))"

lemma new_barrier_id:
  "new_barrier uuid5 key expected policy empty_value = Inr bar \<Longrightarrow>
    barrier_id bar = uuid5 (''robata:barrier:'' @ logical_key bar)"
  by (auto simp: new_barrier_def split: if_splits sum.splits)

lemma ids_derived_upd:
  "ids_derived uuid5 v \<Longrightarrow> b = uuid5 (''robata:barrier:'' @ logical_key bar) \<Longrightarrow> ids_derived uuid5 (v(b \<mapsto> (bar, ms)))"
  by (simp add: ids_derived_def)

lemma ids_derived_fresh:
  assumes "ids_derived uuid5 v" and "barrier_id bar = uuid5 (''robata:barrier:'' @ logical_key bar)"
    and "v (barrier_id bar) = None"
  shows "fresh_key v bar"
  unfolding fresh_key_def
proof (intro allI impI notI)
  fix b bar' ms
  assume v: "v b = Some (bar', ms)" and k: "logical_key bar' = logical_key bar"
  then have "b = barrier_id bar" using assms(1,2) unfolding ids_derived_def by fastforce
  with v assms(3) show False by simp
qed

fun taken :: "(string \<Rightarrow> string) \<Rightarrow> (string \<Rightarrow> BarrierMember \<Rightarrow> bool) \<Rightarrow> (Barrier \<Rightarrow> bool) \<Rightarrow> barrier_call \<Rightarrow> bool" where
  "taken uuid5 adm sto (Create key expected policy empty_value) \<longleftrightarrow>
     (case new_barrier uuid5 key expected policy empty_value of Inl _ \<Rightarrow> True | Inr bar \<Rightarrow> sto bar)"
| "taken uuid5 adm sto (Submit b m) \<longleftrightarrow> adm b m"

locale storage_pair =
  A: barrier_storage stA invA viewA admitsA storableA + B: barrier_storage stB invB viewB admitsB storableB
  for stA :: "'a BarrierStorage" and invA viewA admitsA storableA
    and stB :: "'b BarrierStorage" and invB viewB admitsB storableB
begin

lemma agree_step:
  assumes A: "invA sa" and B: "invB sb" and v: "viewA sa = viewB sb"
    and adm: "taken uuid5 (admitsA sa) storableA c" "taken uuid5 (admitsB sb) storableB c" and ids: "ids_derived uuid5 (viewA sa)"
    and a: "barrier_step stA uuid5 c sa = (sa', ra)" and b: "barrier_step stB uuid5 c sb = (sb', rb)"
  shows "ra = rb \<and> invA sa' \<and> invB sb' \<and> viewA sa' = viewB sb'
    \<and> admitsA sa' = admitsA sa \<and> admitsB sb' = admitsB sb \<and> ids_derived uuid5 (viewA sa')"
proof (cases c)
  case (Create key expected policy empty_value)
  let ?ca = "create_barrier stA uuid5 sa key expected policy empty_value"
  let ?cb = "create_barrier stB uuid5 sb key expected policy empty_value"
  have open_key: "viewA sa (barrier_id bar) = None \<and> fresh_key (viewA sa) bar
      \<or> (\<exists>ms. viewA sa (barrier_id bar) = Some (bar, ms))"
    if "new_barrier uuid5 key expected policy empty_value = Inr bar"
      "viewA sa (barrier_id bar) = None \<or> (\<exists>ms. viewA sa (barrier_id bar) = Some (bar, ms))" for bar
    using ids_derived_fresh [OF ids new_barrier_id [OF that(1)]] that(2)
    by (cases "viewA sa (barrier_id bar)") auto
  show ?thesis
  proof (cases "\<exists>sa1 bar. ?ca = Inr (sa1, bar)")
    case True
    then obtain sa1 bar where ca: "?ca = Inr (sa1, bar)" by blast
    note va = A.create_view [OF A ca]
    then have nb: "new_barrier uuid5 key expected policy empty_value = Inr bar" by blast
    have sto: "storableB bar" using adm nb Create by simp
    obtain sb1 where cb: "?cb = Inr (sb1, bar)"
      using B.create_known [OF B nb _ sto] open_key [OF nb] va v by auto
    note vb = B.create_view [OF B cb]
    have "viewA sa1 = viewB sb1" using va vb v by auto
    moreover have "sa' = sa1" "sb' = sb1" "ra = Created bar" "rb = Created bar"
      using Create ca cb a b by simp_all
    moreover have "ids_derived uuid5 (viewA sa1)"
      using va ids_derived_upd [OF ids new_barrier_id [OF nb]] by auto
    ultimately show ?thesis using va vb by auto
  next
    case False
    have "\<nexists>sb1 bar. ?cb = Inr (sb1, bar)"
    proof
      assume "\<exists>sb1 bar. ?cb = Inr (sb1, bar)"
      then obtain sb1 bar where cb: "?cb = Inr (sb1, bar)" by blast
      note vb = B.create_view [OF B cb]
      then have nb: "new_barrier uuid5 key expected policy empty_value = Inr bar" by blast
      have sto: "storableA bar" using adm nb Create by simp
      with A.create_known [OF A nb _ sto] open_key [OF nb] vb v False show False by auto
    qed
    then obtain ea eb where e: "?ca = Inl ea" "?cb = Inl eb" using False by (cases ?ca; cases ?cb) auto
    have "sa' = sa" "sb' = sb" "ra = Refused" "rb = Refused" using Create a b e by simp_all
    with A B v ids show ?thesis by blast
  qed
next
  case (Submit b' m)
  show ?thesis
  proof (cases "\<exists>bar ms ms'. viewA sa b' = Some (bar, ms) \<and> accepts bar ms m = Some ms'")
    case True
    then obtain bar ms ms' where va: "viewA sa b' = Some (bar, ms)" and acc: "accepts bar ms m = Some ms'" by blast
    have vb: "viewB sb b' = Some (bar, ms)" using va v by simp
    obtain sa1 where sa1: "submit stA sa b' m = Inr (sa1, state_of bar ms')" "invA sa1"
      "viewA sa1 = (viewA sa)(b' \<mapsto> (bar, ms'))" "admitsA sa1 = admitsA sa"
      using A.submit_accepted [OF A va acc] adm Submit by auto
    obtain sb1 where sb1: "submit stB sb b' m = Inr (sb1, state_of bar ms')" "invB sb1"
      "viewB sb1 = (viewB sb)(b' \<mapsto> (bar, ms'))" "admitsB sb1 = admitsB sb"
      using B.submit_accepted [OF B vb acc] adm Submit by auto
    have r: "sa' = sa1" "sb' = sb1" "ra = rb" using Submit a b sa1(1) sb1(1) by auto
    have "b' = uuid5 (''robata:barrier:'' @ logical_key bar)" using ids va unfolding ids_derived_def by blast
    then have "ids_derived uuid5 (viewA sa1)" unfolding sa1(3) by (rule ids_derived_upd [OF ids])
    then show ?thesis using r sa1(2-4) sb1(2-4) v by auto
  next
    case False
    have na: "submit stA sa b' m \<noteq> Inr (s, stt)" for s stt
      using False by (auto elim!: A.submit_Inr [OF A])
    have nb: "submit stB sb b' m \<noteq> Inr (s, stt)" for s stt
      using False v by (auto elim!: B.submit_Inr [OF B])
    obtain ea eb where e: "submit stA sa b' m = Inl ea" "submit stB sb b' m = Inl eb"
      using na nb by (metis obj_sumE surj_pair)
    have "sa' = sa" "sb' = sb" "ra = Refused" "rb = Refused" using Submit a b e by simp_all
    with A B v ids show ?thesis by blast
  qed
qed

lemma agree_run:
  assumes "invA sa" and "invB sb" and "viewA sa = viewB sb"
    and "\<forall>c \<in> set cs. taken uuid5 (admitsA sa) storableA c" "\<forall>c \<in> set cs. taken uuid5 (admitsB sb) storableB c"
    and "ids_derived uuid5 (viewA sa)"
  shows "barrier_answers stA uuid5 cs sa = barrier_answers stB uuid5 cs sb
    \<and> viewA (barrier_run stA uuid5 cs sa) = viewB (barrier_run stB uuid5 cs sb)"
  using assms
proof (induction cs arbitrary: sa sb)
  case Nil
  then show ?case by simp
next
  case (Cons c cs)
  obtain sa' ra sb' rb where s: "barrier_step stA uuid5 c sa = (sa', ra)" "barrier_step stB uuid5 c sb = (sb', rb)"
    by (metis surj_pair)
  have c: "taken uuid5 (admitsA sa) storableA c" "taken uuid5 (admitsB sb) storableB c" using Cons.prems(4,5) by simp_all
  note ag = agree_step [OF Cons.prems(1-3) c Cons.prems(6) s]
  then have "invA sa'" "invB sb'" "viewA sa' = viewB sb'"
    "\<forall>c \<in> set cs. taken uuid5 (admitsA sa') storableA c" "\<forall>c \<in> set cs. taken uuid5 (admitsB sb') storableB c"
    "ids_derived uuid5 (viewA sa')" using Cons.prems(4,5) by (elim conjE, simp)+
  from Cons.IH [OF this] s ag show ?case by simp
qed

text \<open>Storages with the same view answer every query alike, up to which exception is raised.\<close>

lemma agree_queries:
  assumes "invA sa" and "invB sb" and "viewA sa = viewB sb"
  shows "get_state stA sa b = Inr (Some stt) \<longleftrightarrow> get_state stB sb b = Inr (Some stt)"
    and "is_complete stA sa b = Inr True \<longleftrightarrow> is_complete stB sb b = Inr True"
    and "get_aggregate_status stA sa b = Inr agg \<longleftrightarrow> get_aggregate_status stB sb b = Inr agg"
proof -
  show "get_state stA sa b = Inr (Some stt) \<longleftrightarrow> get_state stB sb b = Inr (Some stt)"
    using A.known_iff(2) [OF assms(1)] B.known_iff(2) [OF assms(2)] assms(3) by simp
  show "is_complete stA sa b = Inr True \<longleftrightarrow> is_complete stB sb b = Inr True"
    using A.complete_iff [OF assms(1), of b] B.complete_iff [OF assms(2), of b] assms(3)
      A.complete_unknown [OF assms(1), of b] B.complete_unknown [OF assms(2), of b] by (cases "viewA sa b") auto
  show "get_aggregate_status stA sa b = Inr agg \<longleftrightarrow> get_aggregate_status stB sb b = Inr agg"
    using A.aggregate_view [OF assms(1), of b] B.aggregate_view [OF assms(2), of b] assms(3)
      A.aggregate_unknown [OF assms(1), of b] B.aggregate_unknown [OF assms(2), of b] by (cases "viewA sa b") auto
qed

end

end
