(* ===== verification/Barrier_Memory.thy ===== *)
theory Barrier_Memory
  imports Barrier_Storage
begin

text \<open>
  \<^verbatim>\<open>InMemoryBarrierStorage\<close> keeps the promise of the storage interface, and what follows for the
  coordinator that runs on it.
\<close>

section \<open>The in-memory storage\<close>

definition mem_view :: "InMemoryBarrierStorage \<Rightarrow> string \<rightharpoonup> Barrier \<times> BarrierMember list" where
  "mem_view s b =
     (case (barriers_field s b, members_field s b) of
        (Some bar, Some ms) \<Rightarrow> Some (bar, map snd ms)
      | _ \<Rightarrow> None)"

definition keyed :: "BarrierMember list \<Rightarrow> (string \<times> BarrierMember) list" where
  "keyed ms = map (\<lambda>m. (member_work_item_id m, m)) ms"

definition slot_ok :: "InMemoryBarrierStorage \<Rightarrow> string \<Rightarrow> bool" where
  "slot_ok s b \<longleftrightarrow>
     (case barriers_field s b of
        None \<Rightarrow> members_field s b = None \<and> states_field s b = None
      | Some bar \<Rightarrow> created bar \<and> barrier_id bar = b
         \<and> (\<exists>ms. members_field s b = Some (keyed ms) \<and> members_ok bar ms
              \<and> states_field s b = Some (state_of bar ms)))"

definition mem_inv :: "InMemoryBarrierStorage \<Rightarrow> bool" where
  "mem_inv s \<longleftrightarrow> (\<forall>b. slot_ok s b)"

lemma mem_invD: "mem_inv s \<Longrightarrow> slot_ok s b"
  by (simp add: mem_inv_def)

lemma mem_inv_init: "mem_inv in_memory_init"
  by (simp add: mem_inv_def slot_ok_def in_memory_init_def)

lemma snd_keyed [simp]: "map snd (keyed ms) = ms" "length (keyed ms) = length ms"
  by (simp_all add: keyed_def comp_def)

lemma mem_viewD:
  assumes "mem_inv s" and "mem_view s b = Some (bar, ms)"
  shows "barriers_field s b = Some bar" "members_field s b = Some (keyed ms)"
    "states_field s b = Some (state_of bar ms)" "created bar" "barrier_id bar = b" "members_ok bar ms"
proof -
  obtain kms where f: "barriers_field s b = Some bar" "members_field s b = Some kms" "ms = map snd kms"
    using assms(2) by (auto simp: mem_view_def split: option.splits)
  then obtain ms0 where "created bar" "barrier_id bar = b" "kms = keyed ms0" "members_ok bar ms0"
    "states_field s b = Some (state_of bar ms0)"
    using mem_invD [OF assms(1), of b] by (auto simp: slot_ok_def)
  with f show "barriers_field s b = Some bar" "members_field s b = Some (keyed ms)"
    "states_field s b = Some (state_of bar ms)" "created bar" "barrier_id bar = b" "members_ok bar ms"
    by simp_all
qed

lemma mem_view_None:
  assumes "mem_inv s" and "mem_view s b = None"
  shows "barriers_field s b = None" "members_field s b = None" "states_field s b = None"
proof -
  show bn: "barriers_field s b = None"
  proof (cases "barriers_field s b")
    case (Some bar)
    then have "members_field s b \<noteq> None" using mem_invD [OF assms(1), of b] by (auto simp: slot_ok_def)
    with Some assms(2) show ?thesis by (auto simp: mem_view_def)
  qed simp
  then show "members_field s b = None" "states_field s b = None"
    using mem_invD [OF assms(1), of b] by (auto simp: slot_ok_def)
qed

lemma mem_inv_upd:
  assumes "mem_inv s" and "created bar" "barrier_id bar = b" "members_ok bar ms"
    and "barriers_field s' = (barriers_field s)(b \<mapsto> bar)"
    and "members_field s' = (members_field s)(b \<mapsto> keyed ms)"
    and "states_field s' = (states_field s)(b \<mapsto> state_of bar ms)"
  shows "mem_inv s' \<and> mem_view s' = (mem_view s)(b \<mapsto> (bar, ms))"
proof
  show "mem_inv s'"
    unfolding mem_inv_def
  proof
    fix c
    show "slot_ok s' c"
      using assms(2-7) mem_invD [OF assms(1), of c] by (cases "c = b") (auto simp: slot_ok_def split: option.splits)
  qed
  show "mem_view s' = (mem_view s)(b \<mapsto> (bar, ms))"
    by (rule ext) (simp add: mem_view_def assms(5,6))
qed

lemma map_of_keyed:
  assumes "distinct (map member_work_item_id ms)"
  shows "map_of (keyed ms) w = Some m \<longleftrightarrow> m \<in> set ms \<and> member_work_item_id m = w"
    and "map_of (keyed ms) w = None \<longleftrightarrow> w \<notin> member_work_item_id ` set ms"
proof -
  have "distinct (map fst (keyed ms))" using assms by (simp add: keyed_def comp_def)
  then show "map_of (keyed ms) w = Some m \<longleftrightarrow> m \<in> set ms \<and> member_work_item_id m = w"
    by (auto simp: keyed_def)
  show "map_of (keyed ms) w = None \<longleftrightarrow> w \<notin> member_work_item_id ` set ms"
    by (auto simp: map_of_eq_None_iff keyed_def image_image)
qed

lemma mem_add_accepted:
  assumes inv: "mem_inv s" and v: "mem_view s b = Some (bar, ms)" and acc: "accepts bar ms m = Some ms'"
  shows "\<exists>s'. mem_add_member s b (member_work_item_id m) (member_outcome m) (member_criticality m) = Inr s'
    \<and> mem_inv s' \<and> mem_view s' = (mem_view s)(b \<mapsto> (bar, ms'))"
proof -
  note d = mem_viewD [OF inv v]
  note mo = map_of_keyed [of ms "member_work_item_id m"]
  have dist: "distinct (map member_work_item_id ms)" using d(6) by (simp add: members_ok_def)
  have valid: "\<not> py_blank (member_work_item_id m)" "member_outcome m \<in> SUCCESS_OUTCOMES \<union> FAILURE_OUTCOMES"
    using acc by (auto simp: accepts_def member_valid_def split: if_splits)
  show ?thesis
  proof (cases "m \<in> set ms")
    case True
    then have "ms' = ms" using acc by (auto simp: accepts_def split: if_splits)
    moreover have "map_of (keyed ms) (member_work_item_id m) = Some m" using mo(1) [OF dist, of m] True by simp
    ultimately show ?thesis using valid d v inv by (auto simp: mem_add_member_def fun_upd_idem)
  next
    case False
    then have ms': "ms' = ms @ [m]" and new: "map_of (keyed ms) (member_work_item_id m) = None"
      and room: "length ms < expected_member_count bar"
      using acc mo(2) [OF dist] by (auto simp: accepts_def split: if_splits)
    have k: "keyed ms @ [(member_work_item_id m, m)] = keyed ms'" by (simp add: keyed_def ms')
    have m: "\<lparr>member_work_item_id = member_work_item_id m, member_criticality = member_criticality m,
        member_outcome = member_outcome m\<rparr> = m" by (cases m) simp
    have ne: "expected_member_count bar \<noteq> 0" using room by simp
    let ?s = "s\<lparr>members_field := (members_field s)(b \<mapsto> keyed ms'),
      states_field := (states_field s)(b \<mapsto> state_of bar ms')\<rparr>"
    have "mem_add_member s b (member_work_item_id m) (member_outcome m) (member_criticality m) = Inr ?s"
      using valid d new room aggregate_complete [OF ne, of ms'] aggregate_open [OF ne, of ms'] ne
      by (cases "length ms' = expected_member_count bar")
        (simp_all add: mem_add_member_def m k Let_def state_of_def status_of_def)
    moreover have "mem_inv ?s \<and> mem_view ?s = (mem_view s)(b \<mapsto> (bar, ms'))"
      using accepts_ok(1) [OF d(6) acc] d by (intro mem_inv_upd [OF inv]) (auto simp: fun_upd_idem)
    ultimately show ?thesis by blast
  qed
qed

lemma mem_add_refused:
  assumes inv: "mem_inv s" and v: "mem_view s b = Some (bar, ms)" and ref: "accepts bar ms m = None"
  shows "\<exists>e. mem_add_member s b (member_work_item_id m) (member_outcome m) (member_criticality m) = Inl e"
proof -
  note d = mem_viewD [OF inv v]
  have dist: "distinct (map member_work_item_id ms)" using d(6) by (simp add: members_ok_def)
  note mo = map_of_keyed [OF dist, of "member_work_item_id m"]
  show ?thesis
  proof (cases "map_of (keyed ms) (member_work_item_id m)")
    case None
    then have "member_work_item_id m \<notin> member_work_item_id ` set ms" by (simp add: mo(2))
    with ref None d show ?thesis by (auto simp: accepts_def member_valid_def mem_add_member_def split: if_splits)
  next
    case (Some x)
    then have x: "x \<in> set ms" "member_work_item_id x = member_work_item_id m" by (simp_all add: mo(1))
    with ref have "\<not> member_valid m \<or> x \<noteq> m" by (auto simp: accepts_def split: if_splits)
    then have "\<not> member_valid m \<or> \<not> (member_outcome x = member_outcome m \<and> member_criticality x = member_criticality m)"
      using x(2) by (cases x; cases m) auto
    with d Some show ?thesis by (auto simp: member_valid_def mem_add_member_def)
  qed
qed

lemma mem_save_new:
  assumes inv: "mem_inv s" and cr: "created bar" and new: "mem_view s (barrier_id bar) = None"
  shows "\<exists>s'. mem_save_barrier s bar = Inr s' \<and> mem_inv s' \<and> mem_view s' = (mem_view s)(barrier_id bar \<mapsto> (bar, []))"
proof -
  note n = mem_view_None [OF inv new]
  let ?b = "barrier_id bar"
  have st: "\<lparr>state_barrier_id = ?b, completed_members = 0, pending_members = expected_member_count bar,
      failed_members = 0, state_status = barrier_status bar\<rparr> = state_of bar []"
    using cr by (auto simp: state_of_def status_of_def failures_def created_def)
  let ?s = "\<lparr>barriers_field = (barriers_field s)(?b \<mapsto> bar), states_field = (states_field s)(?b \<mapsto> state_of bar []),
    members_field = (members_field s)(?b \<mapsto> [])\<rparr>"
  have "mem_save_barrier s bar = Inr ?s"
    using n by (simp add: mem_save_barrier_def setdefault_def st Let_def)
  moreover have "mem_inv ?s \<and> mem_view ?s = (mem_view s)(?b \<mapsto> (bar, []))"
    by (rule mem_inv_upd [OF inv cr refl, of "[]"]) (simp_all add: members_ok_def keyed_def)
  ultimately show ?thesis by blast
qed

lemma mem_save_same:
  assumes inv: "mem_inv s" and v: "mem_view s (barrier_id bar) = Some (bar, ms)"
  shows "mem_save_barrier s bar = Inr s"
  using mem_viewD [OF inv v] by (cases s) (simp add: mem_save_barrier_def setdefault_def fun_upd_idem)

interpretation mem: barrier_storage in_memory_storage mem_inv mem_view "\<lambda>_ _ _. True" "\<lambda>_. True"
proof
  show "created bar \<and> barrier_id bar = b \<and> members_ok bar ms" if "mem_inv s" "mem_view s b = Some (bar, ms)"
    for s b bar ms using mem_viewD [OF that] by blast
  show "get_barrier in_memory_storage s b = Inr (Some bar)" if "mem_inv s" "mem_view s b = Some (bar, ms)" for s b bar ms
    using mem_viewD(1) [OF that] by (simp add: in_memory_storage_def mem_get_barrier_def)
  show "get_state in_memory_storage s b = Inr (Some (state_of bar ms))"
    if "mem_inv s" "mem_view s b = Some (bar, ms)" for s b bar ms
    using mem_viewD(3) [OF that] by (simp add: in_memory_storage_def mem_get_state_def)
  show "\<exists>ms'. get_members in_memory_storage s b = Inr ms' \<and> mset ms' = mset ms"
    if "mem_inv s" "mem_view s b = Some (bar, ms)" for s b bar ms
    using mem_viewD(2) [OF that] by (simp add: in_memory_storage_def mem_get_members_def)
  show "get_barrier in_memory_storage s b \<noteq> Inr (Some bar)" if "mem_inv s" "mem_view s b = None" for s b bar
    using mem_view_None(1) [OF that] by (simp add: in_memory_storage_def mem_get_barrier_def)
  show "get_state in_memory_storage s b \<noteq> Inr (Some stt)" if "mem_inv s" "mem_view s b = None" for s b stt
    using mem_view_None(3) [OF that] by (simp add: in_memory_storage_def mem_get_state_def)
  show "\<exists>e. add_member in_memory_storage s b (member_work_item_id m) (member_outcome m) (member_criticality m) = Inl e"
    if "mem_inv s" "mem_view s b = None" for s b m
    using mem_view_None(1) [OF that] by (simp add: in_memory_storage_def mem_add_member_def)
  show "\<exists>e. save_barrier in_memory_storage s bar = Inl e"
    if "mem_inv s" "mem_view s (barrier_id bar) = Some (bar', ms)" "bar' \<noteq> bar" for s bar bar' ms
    using mem_viewD(1) [OF that(1,2)] that(3) by (simp add: in_memory_storage_def mem_save_barrier_def)
  show "mem_inv s' \<and> mem_view s' = (mem_view s)(barrier_id bar \<mapsto> (bar, [])) \<and> (\<lambda>_ _. True) = (\<lambda>_ _. True)"
    if "mem_inv s" "created bar" "mem_view s (barrier_id bar) = None" "save_barrier in_memory_storage s bar = Inr s'"
    for s bar s'
    using mem_save_new [OF that(1-3)] that(4) by (auto simp: in_memory_storage_def)
  show "\<exists>s'. save_barrier in_memory_storage s bar = Inr s'"
    if "mem_inv s" "created bar" "mem_view s (barrier_id bar) = None" "fresh_key (mem_view s) bar" for s bar
    using mem_save_new [OF that(1-3)] by (auto simp: in_memory_storage_def)
qed (simp_all add: in_memory_storage_def mem_add_accepted mem_add_refused mem_save_same)

lemmas run_inv = mem.run_view(1) [OF mem_inv_init]

section \<open>Properties of the coordinator over the in-memory storage\<close>

text \<open>
  A barrier never reports success early or wrongly. For a barrier with members, the
  aggregate is PENDING exactly while fewer than the declared number of distinct members
  have been accepted; once all are in, it is SUCCEEDED exactly when no REQUIRED member
  failed, enough members succeeded or were skipped, and no more DEGRADABLE members failed
  than the policy allows, and INCOMPLETE otherwise.
\<close>

theorem barrier_aggregate_correct:
  assumes "s = barrier_run in_memory_storage uuid5 calls in_memory_init"
    and "get_barrier in_memory_storage s b = Inr (Some bar)" and "0 < expected_member_count bar"
  shows "\<exists>ms agg. get_members in_memory_storage s b = Inr ms
    \<and> get_aggregate_status in_memory_storage s b = Inr agg
    \<and> distinct (map member_work_item_id ms) \<and> length ms \<le> expected_member_count bar
    \<and> overall_status agg =
        (if length ms < expected_member_count bar then Status_PENDING
         else if (\<forall>m \<in> set ms. member_criticality m = REQUIRED \<longrightarrow> member_outcome m \<in> SUCCESS_OUTCOMES)
           \<and> required_success_count bar \<le> length (filter (\<lambda>m. member_outcome m \<in> SUCCESS_OUTCOMES) ms)
           \<and> length (filter (\<lambda>m. terminal_failure (member_outcome m) \<and> member_criticality m = DEGRADABLE) ms)
               \<le> max_degraded_failures bar
         then Status_SUCCEEDED else Status_INCOMPLETE)"
proof -
  have inv: "mem_inv s" using run_inv assms(1) by simp
  obtain ms where v: "mem_view s b = Some (bar, ms)" using mem.known_iff(1) [OF inv] assms(2) by blast
  have "get_members in_memory_storage s b = Inr ms"
    using mem_viewD(2) [OF inv v] by (simp add: in_memory_storage_def mem_get_members_def)
  moreover have "length ms \<le> expected_member_count bar" "distinct (map member_work_item_id ms)"
    using mem.view_ok [OF inv v] by (simp_all add: members_ok_def)
  ultimately show ?thesis
    using mem.aggregate_known [OF inv v assms(3)] unfolding acceptable_def by blast
qed

definition ex_uuid5 :: "string \<Rightarrow> string" where
  "ex_uuid5 x = (if x = ''robata:barrier:k'' then ''00000000-0000-0000-0000-0000000000aa''
     else ''00000000-0000-0000-0000-0000000000bb'')"

definition ex_id :: string where
  "ex_id = ''00000000-0000-0000-0000-0000000000aa''"

definition ex_policy :: ReductionPolicy where
  "ex_policy = \<lparr>policy_version = ''v1'', required_count = 1, degradable_count = 1\<rparr>"

definition ex_member :: "string \<Rightarrow> DependencyCriticality \<Rightarrow> StageStatus \<Rightarrow> BarrierMember" where
  "ex_member w cr oc = \<lparr>member_work_item_id = w, member_criticality = cr, member_outcome = oc\<rparr>"

definition ex_calls :: "barrier_call list" where
  "ex_calls = [Create ''k'' 2 ex_policy ''SKIPPED_NOT_NEEDED'', Submit ex_id (ex_member ''a'' REQUIRED Status_SUCCEEDED),
     Submit ex_id (ex_member ''b'' DEGRADABLE Status_FAILED)]"

definition ex_storage :: InMemoryBarrierStorage where
  "ex_storage = barrier_run in_memory_storage ex_uuid5 ex_calls in_memory_init"

theorem barrier_aggregate_correct_witness:
  "\<exists>ms agg. get_members in_memory_storage ex_storage ex_id = Inr ms
    \<and> get_aggregate_status in_memory_storage ex_storage ex_id = Inr agg
    \<and> distinct (map member_work_item_id ms)"
proof -
  have "get_barrier in_memory_storage ex_storage ex_id =
      Inr (Some (the (projr (get_barrier in_memory_storage ex_storage ex_id))))"
    by code_simp
  moreover have "0 < expected_member_count (the (projr (get_barrier in_memory_storage ex_storage ex_id)))"
    by code_simp
  ultimately show ?thesis using barrier_aggregate_correct [OF ex_storage_def] by blast
qed

text \<open>
  The outcome of a barrier does not depend on the order of delivery, nor on
  redeliveries: if one sequence of submissions is accepted, every sequence of the same
  members is accepted too and gives the same state and the same aggregate.
\<close>

theorem barrier_order_independent:
  assumes "s = barrier_run in_memory_storage uuid5 calls in_memory_init"
    and "get_barrier in_memory_storage s b = Inr (Some bar)"
    and "submit_all in_memory_storage b xs s = Inr s1" and "set ys = set xs"
  shows "\<exists>s2. submit_all in_memory_storage b ys s = Inr s2
    \<and> get_state in_memory_storage s2 b = get_state in_memory_storage s1 b
    \<and> get_aggregate_status in_memory_storage s2 b = get_aggregate_status in_memory_storage s1 b"
proof -
  have inv: "mem_inv s" using run_inv assms(1) by simp
  have "mem_view s b \<noteq> None" using mem.known_iff(1) [OF inv] assms(2) by blast
  then show ?thesis by (rule mem.order_independent [OF inv assms(3,4)])
qed

definition ex_created :: InMemoryBarrierStorage where
  "ex_created = barrier_run in_memory_storage ex_uuid5 [Create ''k'' 2 ex_policy ''SKIPPED_NOT_NEEDED''] in_memory_init"

definition ex_members :: "BarrierMember list" where
  "ex_members = [ex_member ''a'' REQUIRED Status_SUCCEEDED, ex_member ''b'' DEGRADABLE Status_FAILED]"

theorem barrier_order_independent_witness:
  "\<exists>s2. submit_all in_memory_storage ex_id (rev ex_members @ ex_members) ex_created = Inr s2
    \<and> get_state in_memory_storage s2 ex_id =
        get_state in_memory_storage (projr (submit_all in_memory_storage ex_id ex_members ex_created)) ex_id"
proof -
  let ?s1 = "submit_all in_memory_storage ex_id ex_members ex_created"
  have "isl ?s1 = False" by code_simp
  then have "?s1 = Inr (projr ?s1)" by simp
  moreover have "get_barrier in_memory_storage ex_created ex_id =
      Inr (Some (the (projr (get_barrier in_memory_storage ex_created ex_id))))" by code_simp
  ultimately show ?thesis
    using barrier_order_independent [OF ex_created_def, of ex_id _ ex_members "projr ?s1" "rev ex_members @ ex_members"]
    by auto
qed

text \<open>
  A completed barrier is final: once complete it stays complete, and no later call
  (a late member, a conflicting replay, a re-created definition) changes its state or its
  aggregate.
\<close>

theorem barrier_complete_frozen:
  assumes "s = barrier_run in_memory_storage uuid5 calls in_memory_init"
    and "is_complete in_memory_storage s b = Inr True"
    and "s' = barrier_run in_memory_storage uuid5 later s"
  shows "get_state in_memory_storage s' b = get_state in_memory_storage s b
    \<and> get_aggregate_status in_memory_storage s' b = get_aggregate_status in_memory_storage s b
    \<and> is_complete in_memory_storage s' b = Inr True"
proof -
  have inv: "mem_inv s" using run_inv assms(1) by simp
  show ?thesis unfolding assms(3) by (rule mem.complete_frozen [OF inv assms(2)])
qed

theorem barrier_complete_frozen_witness:
  "is_complete in_memory_storage (barrier_run in_memory_storage ex_uuid5
     [Submit ex_id (ex_member ''c'' REQUIRED Status_FAILED)] ex_storage) ex_id = Inr True"
proof -
  have "is_complete in_memory_storage ex_storage ex_id = Inr True" by code_simp
  from barrier_complete_frozen [OF ex_storage_def this refl] show ?thesis by blast
qed

end
