(* ===== verification/Call_Barrier.thy ===== *)
theory Call_Barrier
  imports Barrier
begin

text \<open>
  \<^verbatim>\<open>src/robata/inference/call_barrier.py\<close>: an inference input plan is split into call parts; each
  part's terminal outcome is stored as a completion and submitted to a generic barrier, and
  one ordered reduction is published when the barrier closed successfully. This theory holds
  the records with their validators, the storage port, its in-memory implementation and the
  coordinator. SHA-256 of canonical JSON and \<open>uuid5\<close> are parameters. Field patterns of single
  strings (digests, timestamps, versions) are not repeated here: they hold of every instance.
\<close>

section \<open>Values that are hashed\<close>

text \<open>A dictionary is the list of its items in the order of its keys, so equality of lists is equality of dictionaries.\<close>

datatype json =
    JNull | JBool bool | JInt int | JFloat string | JStr string | JArr "json list" | JObj "(string \<times> json) list"

record hashing =
  uuid5_of :: "string \<Rightarrow> string"
  semantic_sha256 :: "json \<Rightarrow> string py"

definition jopt :: "string option \<Rightarrow> json" where
  "jopt v = (case v of None \<Rightarrow> JNull | Some s \<Rightarrow> JStr s)"

definition stable_uuid :: "hashing \<Rightarrow> string \<Rightarrow> string \<Rightarrow> string" where
  "stable_uuid h namespace digest = uuid5_of h (''robata:'' @ namespace @ '':'' @ digest)"

definition call_barrier_id :: "hashing \<Rightarrow> string \<Rightarrow> string" where
  "call_barrier_id h key = uuid5_of h (''robata:barrier:'' @ key)"

section \<open>Records\<close>

datatype InferenceStatus =
    Inference_SUCCEEDED | Inference_FAILED | Inference_TIMEOUT | Inference_CANCELLED | Inference_INVALID_OUTPUT

fun inference_status_value :: "InferenceStatus \<Rightarrow> string" where
  "inference_status_value Inference_SUCCEEDED = ''SUCCEEDED''"
| "inference_status_value Inference_FAILED = ''FAILED''"
| "inference_status_value Inference_TIMEOUT = ''TIMEOUT''"
| "inference_status_value Inference_CANCELLED = ''CANCELLED''"
| "inference_status_value Inference_INVALID_OUTPUT = ''INVALID_OUTPUT''"

record InferenceFailure =
  failure_code :: string
  failure_detail :: string
  failure_retryability :: string

record CallBarrierDefinition =
  cd_barrier_id :: string
  cd_barrier_semantic_sha256 :: string
  cd_barrier_logical_key :: string
  cd_input_plan_semantic_sha256 :: string
  cd_call_plan_sha256 :: string
  cd_part_count :: nat
  cd_expected_part_semantic_sha256s :: "string list"
  cd_expected_part_logical_keys :: "string list"
  cd_expected_part_idempotency_keys :: "string list"
  cd_reduction_policy :: string
  cd_reduction_policy_version :: string
  cd_created_at :: string

definition validate_expected_members :: "CallBarrierDefinition \<Rightarrow> unit py" where
  "validate_expected_members d =
     (if cd_part_count d = 0 then Inl (ValueError ''part_count should be greater than or equal to 1'')
      else if length (cd_expected_part_semantic_sha256s d) \<noteq> cd_part_count d
        \<or> length (cd_expected_part_logical_keys d) \<noteq> cd_part_count d
        \<or> length (cd_expected_part_idempotency_keys d) \<noteq> cd_part_count d
      then Inl (ValueError ''barrier definition must declare every expected call part'')
      else if length (remdups (cd_expected_part_semantic_sha256s d)) \<noteq> cd_part_count d
      then Inl (ValueError ''barrier part semantic identities must be unique'')
      else if length (remdups (cd_expected_part_logical_keys d)) \<noteq> cd_part_count d
      then Inl (ValueError ''barrier part logical keys must be unique'')
      else if length (remdups (cd_expected_part_idempotency_keys d)) \<noteq> cd_part_count d
      then Inl (ValueError ''barrier part idempotency keys must be unique'')
      else Inr ())"

record CallPartCompletion =
  cc_completion_id :: string
  cc_completion_semantic_sha256 :: string
  cc_barrier_id :: string
  cc_barrier_semantic_sha256 :: string
  cc_input_plan_semantic_sha256 :: string
  cc_call_plan_sha256 :: string
  cc_part_ordinal :: nat
  cc_part_count :: nat
  cc_part_semantic_sha256 :: string
  cc_part_logical_key :: string
  cc_part_idempotency_key :: string
  cc_inference_id :: string
  cc_logical_invocation_id :: string
  cc_selection_id :: "string option"
  cc_selection_policy_version :: "string option"
  cc_selection_decision_logical_key :: "string option"
  cc_attempt :: nat
  cc_status :: InferenceStatus
  cc_normalized_output :: "(string \<times> json) list option"
  cc_normalized_output_sha256 :: "string option"
  cc_raw_output_artifact_id :: "string option"
  cc_failure :: "InferenceFailure option"
  cc_completed_at :: string

definition failure_projection :: "InferenceFailure option \<Rightarrow> json" where
  "failure_projection f =
     (case f of
        None \<Rightarrow> JNull
      | Some f \<Rightarrow> JObj [(''code'', JStr (failure_code f)), (''detail'', JStr (failure_detail f)),
          (''retryability'', JStr (failure_retryability f))])"

definition completion_semantic_sha256 :: "hashing \<Rightarrow> CallPartCompletion \<Rightarrow> string py" where
  "completion_semantic_sha256 h c =
     semantic_sha256 h (JObj
       [(''barrier_semantic_sha256'', JStr (cc_barrier_semantic_sha256 c)),
        (''input_plan_semantic_sha256'', JStr (cc_input_plan_semantic_sha256 c)),
        (''call_plan_sha256'', JStr (cc_call_plan_sha256 c)),
        (''part_semantic_sha256'', JStr (cc_part_semantic_sha256 c)),
        (''part_idempotency_key'', JStr (cc_part_idempotency_key c)),
        (''inference_id'', JStr (cc_inference_id c)),
        (''logical_invocation_id'', JStr (cc_logical_invocation_id c)),
        (''selection_id'', jopt (cc_selection_id c)),
        (''selection_policy_version'', jopt (cc_selection_policy_version c)),
        (''selection_decision_logical_key'', jopt (cc_selection_decision_logical_key c)),
        (''attempt'', JInt (int (cc_attempt c))),
        (''status'', JStr (inference_status_value (cc_status c))),
        (''normalized_output_sha256'', jopt (cc_normalized_output_sha256 c)),
        (''raw_output_artifact_id'', jopt (cc_raw_output_artifact_id c)),
        (''failure'', failure_projection (cc_failure c))])"

text \<open>\<open>inference_attempt_selection_logical_key\<close> of \<^verbatim>\<open>src/robata/inference/models.py\<close>\<close>

definition inference_attempt_selection_logical_key :: "hashing \<Rightarrow> string \<Rightarrow> string \<Rightarrow> string py" where
  "inference_attempt_selection_logical_key h invocation policy =
     rbind (semantic_sha256 h (JObj [(''logical_invocation_id'', JStr invocation), (''policy_version'', JStr policy)]))
       (\<lambda>digest. Inr (''inference-attempt-selection:'' @ digest))"

definition validate_success_shape :: "hashing \<Rightarrow> CallPartCompletion \<Rightarrow> unit py" where
  "validate_success_shape h c =
     (case (cc_normalized_output c, cc_normalized_output_sha256 c, cc_selection_policy_version c) of
        (Some output, Some digest, Some policy) \<Rightarrow>
          if cc_raw_output_artifact_id c = None \<or> cc_selection_id c = None
            \<or> cc_selection_decision_logical_key c = None \<or> cc_failure c \<noteq> None
          then Inl (ValueError ''successful part completion requires normalized and raw output references'')
          else (case semantic_sha256 h (JObj output) of
              Inl _ \<Rightarrow> Inl (ValueError ''part normalized output is not canonical JSON'')
            | Inr expected \<Rightarrow>
                if digest \<noteq> expected then Inl (ValueError ''part normalized output digest is inconsistent'')
                else rbind (inference_attempt_selection_logical_key h (cc_logical_invocation_id c) policy) (\<lambda>key.
                  if cc_selection_decision_logical_key c \<noteq> Some key
                  then Inl (ValueError ''part selection decision logical key is inconsistent'')
                  else Inr ()))
      | _ \<Rightarrow> Inl (ValueError ''successful part completion requires normalized and raw output references''))"

definition validate_failure_shape :: "CallPartCompletion \<Rightarrow> unit py" where
  "validate_failure_shape c =
     (if cc_normalized_output c \<noteq> None \<or> cc_normalized_output_sha256 c \<noteq> None \<or> cc_selection_id c \<noteq> None
        \<or> cc_selection_policy_version c \<noteq> None \<or> cc_selection_decision_logical_key c \<noteq> None
        \<or> cc_failure c = None
      then Inl (ValueError ''failed part completion requires only failure details'') else Inr ())"

definition validate_terminal_shape_and_identity :: "hashing \<Rightarrow> CallPartCompletion \<Rightarrow> unit py" where
  "validate_terminal_shape_and_identity h c =
     (if cc_part_count c = 0 \<or> cc_attempt c = 0 then Inl (ValueError ''should be greater than or equal to 1'')
      else
        rbind (if cc_status c = Inference_SUCCEEDED then validate_success_shape h c else validate_failure_shape c) (\<lambda>_.
        rbind (completion_semantic_sha256 h c) (\<lambda>expected.
          if cc_completion_semantic_sha256 c \<noteq> expected
          then Inl (ValueError ''part completion semantic digest is inconsistent'')
          else if cc_completion_id c \<noteq> stable_uuid h ''inference-call-completion'' expected
          then Inl (ValueError ''part completion identity is inconsistent'')
          else Inr ())))"

record CallReduction =
  cr_reduction_id :: string
  cr_reduction_semantic_sha256 :: string
  cr_barrier_id :: string
  cr_barrier_semantic_sha256 :: string
  cr_input_plan_semantic_sha256 :: string
  cr_call_plan_sha256 :: string
  cr_reduction_policy :: string
  cr_reduction_policy_version :: string
  cr_output_schema_sha256 :: string
  cr_ordered_completion_ids :: "string list"
  cr_ordered_part_semantic_sha256s :: "string list"
  cr_ordered_normalized_output_sha256s :: "string list"
  cr_ordered_selection_decision_logical_keys :: "string list"
  cr_normalized_output :: "(string \<times> json) list"
  cr_normalized_output_sha256 :: string
  cr_reduced_at :: string

definition reduction_semantic_sha256 :: "hashing \<Rightarrow> CallReduction \<Rightarrow> string py" where
  "reduction_semantic_sha256 h r =
     semantic_sha256 h (JObj
       [(''barrier_semantic_sha256'', JStr (cr_barrier_semantic_sha256 r)),
        (''input_plan_semantic_sha256'', JStr (cr_input_plan_semantic_sha256 r)),
        (''call_plan_sha256'', JStr (cr_call_plan_sha256 r)),
        (''reduction_policy'', JStr (cr_reduction_policy r)),
        (''reduction_policy_version'', JStr (cr_reduction_policy_version r)),
        (''output_schema_sha256'', JStr (cr_output_schema_sha256 r)),
        (''ordered_part_semantic_sha256s'', JArr (map JStr (cr_ordered_part_semantic_sha256s r))),
        (''ordered_normalized_output_sha256s'', JArr (map JStr (cr_ordered_normalized_output_sha256s r))),
        (''ordered_selection_decision_logical_keys'', JArr (map JStr (cr_ordered_selection_decision_logical_keys r))),
        (''normalized_output_sha256'', JStr (cr_normalized_output_sha256 r))])"

definition validate_reduction_identity :: "hashing \<Rightarrow> CallReduction \<Rightarrow> unit py" where
  "validate_reduction_identity h r =
     (let count = length (cr_ordered_completion_ids r) in
      if count = 0 \<or> length (cr_ordered_part_semantic_sha256s r) \<noteq> count
        \<or> length (cr_ordered_normalized_output_sha256s r) \<noteq> count
        \<or> length (cr_ordered_selection_decision_logical_keys r) \<noteq> count
      then Inl (ValueError ''reduction must bind equal nonempty ordered member tuples'')
      else case semantic_sha256 h (JObj (cr_normalized_output r)) of
          Inl _ \<Rightarrow> Inl (ValueError ''reduced output is not canonical JSON'')
        | Inr expected_output \<Rightarrow>
            if cr_normalized_output_sha256 r \<noteq> expected_output
            then Inl (ValueError ''reduced output digest is inconsistent'')
            else rbind (reduction_semantic_sha256 h r) (\<lambda>expected.
              if cr_reduction_semantic_sha256 r \<noteq> expected
              then Inl (ValueError ''reduction semantic digest is inconsistent'')
              else if cr_reduction_id r \<noteq> stable_uuid h ''inference-call-reduction'' expected
              then Inl (ValueError ''reduction identity is inconsistent'')
              else Inr ()))"

section \<open>Errors of the module\<close>

definition call_error :: "string \<Rightarrow> exn" where
  "call_error msg = DomainError ''InferenceCallBarrierError'' msg"

definition conflict_error :: "string \<Rightarrow> exn" where
  "conflict_error msg = DomainError ''InferenceCallBarrierConflictError'' msg"

definition open_error :: "string \<Rightarrow> exn" where
  "open_error msg = DomainError ''InferenceCallBarrierOpenError'' msg"

definition failed_error :: "string \<Rightarrow> exn" where
  "failed_error msg = DomainError ''InferenceCallBarrierFailedError'' msg"

definition configuration_error :: "string \<Rightarrow> exn" where
  "configuration_error msg = DomainError ''InferenceCallReductionConfigurationError'' msg"

section \<open>The storage port and its in-memory implementation\<close>

record 's CallStorage =
  append_definition :: "'s \<Rightarrow> CallBarrierDefinition \<Rightarrow> ('s \<times> CallBarrierDefinition) py"
  get_definition :: "'s \<Rightarrow> string \<Rightarrow> CallBarrierDefinition option py"
  append_completion :: "'s \<Rightarrow> CallPartCompletion \<Rightarrow> ('s \<times> CallPartCompletion) py"
  list_completions :: "'s \<Rightarrow> string \<Rightarrow> CallPartCompletion list py"
  append_reduction :: "'s \<Rightarrow> CallReduction \<Rightarrow> ('s \<times> CallReduction) py"
  get_reduction :: "'s \<Rightarrow> string \<Rightarrow> CallReduction option py"

record InMemoryCallStorage =
  definitions_field :: "string \<rightharpoonup> CallBarrierDefinition"
  completions_field :: "string \<rightharpoonup> (string \<times> CallPartCompletion) list"
  reductions_field :: "string \<rightharpoonup> CallReduction"

definition call_memory_init :: InMemoryCallStorage where
  "call_memory_init = \<lparr>definitions_field = Map.empty, completions_field = Map.empty, reductions_field = Map.empty\<rparr>"

definition completion_matches :: "CallBarrierDefinition \<Rightarrow> CallPartCompletion \<Rightarrow> bool" where
  "completion_matches d c \<longleftrightarrow>
     cc_part_ordinal c < cd_part_count d
     \<and> cc_part_count c = cd_part_count d
     \<and> cc_barrier_semantic_sha256 c = cd_barrier_semantic_sha256 d
     \<and> cc_input_plan_semantic_sha256 c = cd_input_plan_semantic_sha256 d
     \<and> cc_call_plan_sha256 c = cd_call_plan_sha256 d
     \<and> cc_part_semantic_sha256 c = cd_expected_part_semantic_sha256s d ! cc_part_ordinal c
     \<and> cc_part_logical_key c = cd_expected_part_logical_keys d ! cc_part_ordinal c
     \<and> cc_part_idempotency_key c = cd_expected_part_idempotency_keys d ! cc_part_ordinal c"

definition required_output_digest :: "CallPartCompletion \<Rightarrow> string py" where
  "required_output_digest c =
     (case cc_normalized_output_sha256 c of
        None \<Rightarrow> Inl (failed_error ''successful call part is missing its normalized output digest'')
      | Some d \<Rightarrow> Inr d)"

definition required_selection_key :: "CallPartCompletion \<Rightarrow> string py" where
  "required_selection_key c =
     (case cc_selection_decision_logical_key c of
        None \<Rightarrow> Inl (failed_error ''successful call part is missing its selection decision logical key'')
      | Some k \<Rightarrow> Inr k)"

definition call_mem_append_definition ::
    "InMemoryCallStorage \<Rightarrow> CallBarrierDefinition \<Rightarrow> (InMemoryCallStorage \<times> CallBarrierDefinition) py" where
  "call_mem_append_definition s d =
     (let b = cd_barrier_id d in
      if (case definitions_field s b of None \<Rightarrow> False | Some existing \<Rightarrow> existing \<noteq> d)
      then Inl (conflict_error (''conflicting call barrier definition: '' @ b))
      else Inr (s\<lparr>definitions_field := (definitions_field s)(b \<mapsto> d),
                  completions_field := setdefault (completions_field s) b []\<rparr>, d))"

definition call_mem_get_definition :: "InMemoryCallStorage \<Rightarrow> string \<Rightarrow> CallBarrierDefinition option py" where
  "call_mem_get_definition s b = Inr (definitions_field s b)"

text \<open>\<open>members[key] = value\<close>: a key that is present keeps its place.\<close>

fun dict_set :: "string \<Rightarrow> 'v \<Rightarrow> (string \<times> 'v) list \<Rightarrow> (string \<times> 'v) list" where
  "dict_set k v [] = [(k, v)]"
| "dict_set k v ((k', v') # rest) = (if k' = k then (k, v) # rest else (k', v') # dict_set k v rest)"

definition call_mem_append_completion ::
    "InMemoryCallStorage \<Rightarrow> CallPartCompletion \<Rightarrow> (InMemoryCallStorage \<times> CallPartCompletion) py" where
  "call_mem_append_completion s c =
     (let b = cc_barrier_id c in
      case definitions_field s b of
        None \<Rightarrow> Inl (KeyError (''unknown inference call barrier: '' @ b))
      | Some d \<Rightarrow>
          if \<not> completion_matches d c
          then Inl (conflict_error ''completion does not match the declared call barrier member'')
          else (case completions_field s b of
              None \<Rightarrow> Inl (KeyError b)
            | Some members \<Rightarrow>
                if (case map_of members (cc_part_semantic_sha256 c) of None \<Rightarrow> False | Some existing \<Rightarrow> existing \<noteq> c)
                then Inl (conflict_error ''call part already has a different final completion: '')
                else Inr (s\<lparr>completions_field :=
                       (completions_field s)(b \<mapsto> dict_set (cc_part_semantic_sha256 c) c members)\<rparr>, c)))"

definition call_mem_list_completions :: "InMemoryCallStorage \<Rightarrow> string \<Rightarrow> CallPartCompletion list py" where
  "call_mem_list_completions s b =
     (case definitions_field s b of
        None \<Rightarrow> Inl (KeyError (''unknown inference call barrier: '' @ b))
      | Some _ \<Rightarrow> (case completions_field s b of None \<Rightarrow> Inl (KeyError b) | Some ms \<Rightarrow> Inr (map snd ms)))"


definition reduction_header_matches :: "CallBarrierDefinition \<Rightarrow> CallReduction \<Rightarrow> bool" where
  "reduction_header_matches d r \<longleftrightarrow>
     cr_barrier_semantic_sha256 r = cd_barrier_semantic_sha256 d
     \<and> cr_input_plan_semantic_sha256 r = cd_input_plan_semantic_sha256 d
     \<and> cr_call_plan_sha256 r = cd_call_plan_sha256 d
     \<and> cr_reduction_policy r = cd_reduction_policy d
     \<and> cr_reduction_policy_version r = cd_reduction_policy_version d"

definition call_mem_append_reduction ::
    "InMemoryCallStorage \<Rightarrow> CallReduction \<Rightarrow> (InMemoryCallStorage \<times> CallReduction) py" where
  "call_mem_append_reduction s r =
     (let b = cr_barrier_id r;
          mismatch = Inl (conflict_error ''reduction does not match the completed declared member set'') in
      case definitions_field s b of
        None \<Rightarrow> Inl (KeyError (''unknown inference call barrier: '' @ b))
      | Some d \<Rightarrow>
          (case completions_field s b of
             None \<Rightarrow> Inl (KeyError b)
           | Some members \<Rightarrow>
               let ordered = sort_key cc_part_ordinal (map snd members) in
               if length ordered \<noteq> cd_part_count d \<or> \<not> reduction_header_matches d r
                 \<or> cr_ordered_completion_ids r \<noteq> map cc_completion_id ordered
                 \<or> cr_ordered_part_semantic_sha256s r \<noteq> map cc_part_semantic_sha256 ordered
               then mismatch
               else rbind (traverse required_output_digest ordered) (\<lambda>digests.
                 if cr_ordered_normalized_output_sha256s r \<noteq> digests then mismatch
                 else rbind (traverse required_selection_key ordered) (\<lambda>keys.
                 if cr_ordered_selection_decision_logical_keys r \<noteq> keys then mismatch
                 else if (case reductions_field s b of None \<Rightarrow> False | Some existing \<Rightarrow> existing \<noteq> r)
                 then Inl (conflict_error (''call barrier already has a different reduction: '' @ b))
                 else Inr (s\<lparr>reductions_field := (reductions_field s)(b \<mapsto> r)\<rparr>, r)))))"

definition call_mem_get_reduction :: "InMemoryCallStorage \<Rightarrow> string \<Rightarrow> CallReduction option py" where
  "call_mem_get_reduction s b = Inr (reductions_field s b)"

definition in_memory_call_storage :: "InMemoryCallStorage CallStorage" where
  "in_memory_call_storage =
     \<lparr>append_definition = call_mem_append_definition, get_definition = call_mem_get_definition,
      append_completion = call_mem_append_completion, list_completions = call_mem_list_completions,
      append_reduction = call_mem_append_reduction, get_reduction = call_mem_get_reduction\<rparr>"

section \<open>Plans and attempts, as far as the coordinator reads them\<close>

record InferenceCallPart =
  part_ordinal :: nat
  part_count :: nat
  start_item_ordinal :: nat
  end_item_ordinal_exclusive :: nat
  overlap_before_items :: nat
  overlap_after_items :: nat
  item_manifest_sha256 :: string
  part_semantic_sha256 :: string
  part_logical_key :: string
  idempotency_key :: string

record InferenceCallPlan =
  call_plan_sha256 :: string
  plan_parts :: "InferenceCallPart list"
  plan_barrier_semantic_sha256 :: string
  plan_barrier_logical_key :: string
  plan_reduction_policy :: string
  plan_reduction_policy_version :: string

record InferenceInputPlan =
  plan_semantic_sha256 :: string
  plan_call_plan :: InferenceCallPlan
  plan_task :: string
  plan_package_ids :: "string list"
  plan_response_schema_sha256 :: string

definition parts_chained :: "InferenceCallPart \<Rightarrow> InferenceCallPart \<Rightarrow> unit py" where
  "parts_chained p c =
     (if start_item_ordinal c \<le> start_item_ordinal p \<or> end_item_ordinal_exclusive c \<le> end_item_ordinal_exclusive p
      then Inl (ValueError ''call parts must make strict ordered progress'')
      else if start_item_ordinal c > end_item_ordinal_exclusive p
      then Inl (ValueError ''call parts cannot leave provider item gaps'')
      else if overlap_after_items p \<noteq> end_item_ordinal_exclusive p - start_item_ordinal c
        \<or> overlap_before_items c \<noteq> end_item_ordinal_exclusive p - start_item_ordinal c
      then Inl (ValueError ''call part overlap metadata is inconsistent'')
      else Inr ())"

definition validate_part_shape :: "InferenceCallPlan \<Rightarrow> unit py" where
  "validate_part_shape plan =
     (let parts = plan_parts plan; count = length parts in
      if parts = [] then Inl (ValueError ''call plan must contain at least one explicit part'')
      else if map part_ordinal parts \<noteq> [0..<count]
      then Inl (ValueError ''call part ordinals must be contiguous and stored in order'')
      else if list_ex (\<lambda>p. part_count p \<noteq> count) parts
      then Inl (ValueError ''every call part_count must equal the call plan size'')
      else if length (remdups (map part_semantic_sha256 parts)) \<noteq> count
      then Inl (ValueError ''call part semantic identities must be unique'')
      else if length (remdups (map part_logical_key parts)) \<noteq> count
      then Inl (ValueError ''call part logical keys must be unique'')
      else if length (remdups (map idempotency_key parts)) \<noteq> count
      then Inl (ValueError ''call part idempotency keys must be unique'')
      else if start_item_ordinal (hd parts) \<noteq> 0
      then Inl (ValueError ''first call part must start at provider item zero'')
      else if overlap_before_items (hd parts) \<noteq> 0
      then Inl (ValueError ''first call part cannot have overlap_before_items'')
      else if overlap_after_items (last parts) \<noteq> 0
      then Inl (ValueError ''last call part cannot have overlap_after_items'')
      else rbind (traverse (\<lambda>(p, c). parts_chained p c) (zip parts (tl parts))) (\<lambda>_. Inr ()))"

text \<open>
  \<open>_validated_plan\<close> validates an instance again. The call plan's own validator is modelled; the
  digests that \<open>_validate_complete_plan\<close> recomputes hold of every instance.
\<close>

definition validated_plan :: "InferenceInputPlan \<Rightarrow> InferenceInputPlan py" where
  "validated_plan plan =
     (case validate_part_shape (plan_call_plan plan) of
        Inl _ \<Rightarrow> Inl (call_error ''input plan failed immutable contract validation'')
      | Inr _ \<Rightarrow> Inr plan)"

record ModelInference =
  mi_inference_id :: string
  mi_logical_invocation_id :: string
  mi_package_ids :: "string list"
  mi_stage :: string
  mi_rendered_input_digest :: string
  mi_input_plan_semantic_sha256 :: "string option"
  mi_input_plan_part_ordinal :: "nat option"
  mi_input_plan_part_count :: "nat option"
  mi_input_plan_part_semantic_sha256 :: "string option"
  mi_provider_idempotency_key :: "string option"
  mi_attempt :: nat
  mi_status :: InferenceStatus
  mi_completed_at :: string
  mi_raw_output :: "(string \<times> json) list option"
  mi_normalized_output :: "(string \<times> json) list option"
  mi_output_valid :: bool
  mi_failure :: "InferenceFailure option"

record InferenceAttemptSelection =
  sel_selection_id :: string
  sel_inference_id :: string
  sel_logical_invocation_id :: string
  sel_policy_version :: string
  sel_selection_decision_logical_key :: string

definition bound_part :: "InferenceInputPlan \<Rightarrow> ModelInference \<Rightarrow> InferenceCallPart py" where
  "bound_part plan inference =
     (case mi_input_plan_part_ordinal inference of
        None \<Rightarrow> Inl (call_error ''terminal inference does not reference a declared call part'')
      | Some ordinal \<Rightarrow>
          if ordinal \<ge> length (plan_parts (plan_call_plan plan))
          then Inl (call_error ''terminal inference does not reference a declared call part'')
          else
            let part = plan_parts (plan_call_plan plan) ! ordinal in
            if mi_input_plan_semantic_sha256 inference \<noteq> Some (plan_semantic_sha256 plan)
              \<or> mi_input_plan_part_count inference \<noteq> Some (part_count part)
              \<or> mi_input_plan_part_semantic_sha256 inference \<noteq> Some (part_semantic_sha256 part)
              \<or> mi_provider_idempotency_key inference \<noteq> Some (idempotency_key part)
              \<or> mi_rendered_input_digest inference \<noteq> item_manifest_sha256 part
              \<or> mi_stage inference \<noteq> plan_task plan
              \<or> mi_package_ids inference \<noteq> plan_package_ids plan
            then Inl (call_error ''terminal inference identity does not match its declared call part'')
            else Inr part)"

definition raw_output_artifact_id :: "ModelInference \<Rightarrow> string option py" where
  "raw_output_artifact_id inference =
     (case mi_raw_output inference of
        None \<Rightarrow> Inr None
      | Some raw \<Rightarrow>
          (case map_of raw ''artifact_id'' of
             Some (JStr a) \<Rightarrow>
               if a = [] then Inl (call_error ''terminal raw output artifact reference is invalid'') else Inr (Some a)
           | _ \<Rightarrow> Inl (call_error ''terminal raw output artifact reference is invalid'')))"

fun call_stage_status :: "InferenceStatus \<Rightarrow> StageStatus" where
  "call_stage_status Inference_SUCCEEDED = Status_SUCCEEDED"
| "call_stage_status Inference_CANCELLED = Status_CANCELLED"
| "call_stage_status Inference_INVALID_OUTPUT = Status_QUARANTINED"
| "call_stage_status _ = Status_FAILED"


section \<open>The coordinator\<close>

text \<open>
  Every storage call is a transaction of its own, so a call of the coordinator that fails
  half-way keeps what it had stored: its result is the state and the answer.
\<close>

definition on_state :: "'s \<Rightarrow> ('s \<times> 'a) py \<Rightarrow> 's \<times> 'a py" where
  "on_state s r = (case r of Inl e \<Rightarrow> (s, Inl e) | Inr (s', a) \<Rightarrow> (s', Inr a))"

type_synonym reducers = "string \<times> string \<Rightarrow> (InferenceInputPlan \<Rightarrow> CallPartCompletion list \<Rightarrow> (string \<times> json) list py) option"

definition plan_definition :: "InferenceInputPlan \<Rightarrow> string \<Rightarrow> string \<Rightarrow> CallBarrierDefinition" where
  "plan_definition plan b declared_at =
     (let cp = plan_call_plan plan; parts = plan_parts cp in
      \<lparr>cd_barrier_id = b, cd_barrier_semantic_sha256 = plan_barrier_semantic_sha256 cp,
       cd_barrier_logical_key = plan_barrier_logical_key cp,
       cd_input_plan_semantic_sha256 = plan_semantic_sha256 plan, cd_call_plan_sha256 = call_plan_sha256 cp,
       cd_part_count = length parts,
       cd_expected_part_semantic_sha256s = map part_semantic_sha256 parts,
       cd_expected_part_logical_keys = map part_logical_key parts,
       cd_expected_part_idempotency_keys = map idempotency_key parts,
       cd_reduction_policy = plan_reduction_policy cp,
       cd_reduction_policy_version = plan_reduction_policy_version cp, cd_created_at = declared_at\<rparr>)"

definition definition_projection :: "CallBarrierDefinition \<Rightarrow> CallBarrierDefinition" where
  "definition_projection d = d\<lparr>cd_created_at := []\<rparr>"

definition declare_call_barrier ::
    "hashing \<Rightarrow> 's BarrierStorage \<Rightarrow> 's CallStorage \<Rightarrow> 's \<Rightarrow> InferenceInputPlan \<Rightarrow> string
      \<Rightarrow> 's \<times> CallBarrierDefinition py" where
  "declare_call_barrier h bst cst s input_plan declared_at =
     (case validated_plan input_plan of
        Inl e \<Rightarrow> (s, Inl e)
      | Inr plan \<Rightarrow>
          let cp = plan_call_plan plan; n = length (plan_parts cp) in
          (case create_barrier bst (uuid5_of h) s (plan_barrier_logical_key cp) (int n)
                  \<lparr>policy_version = plan_reduction_policy_version cp, required_count = n, degradable_count = 0\<rparr>
                  ''SKIPPED_NOT_NEEDED'' of
             Inl e \<Rightarrow> (s, Inl e)
           | Inr (s1, barrier) \<Rightarrow>
               let definition = plan_definition plan (barrier_id barrier) declared_at in
               (case rbind (validate_expected_members definition) (\<lambda>_. get_definition cst s1 (barrier_id barrier)) of
                  Inl e \<Rightarrow> (s1, Inl e)
                | Inr (Some existing) \<Rightarrow>
                    (s1, if definition_projection existing \<noteq> definition_projection definition
                         then Inl (conflict_error ''call barrier identity already has a different plan binding'')
                         else Inr existing)
                | Inr None \<Rightarrow> on_state s1 (append_definition cst s1 definition))))"

definition require_definition ::
    "hashing \<Rightarrow> 's CallStorage \<Rightarrow> 's \<Rightarrow> InferenceInputPlan \<Rightarrow> CallBarrierDefinition py" where
  "require_definition h cst s plan =
     (let b = call_barrier_id h (plan_barrier_logical_key (plan_call_plan plan)) in
      rbind (get_definition cst s b) (\<lambda>d.
        case d of
          None \<Rightarrow> Inl (call_error ''input plan call barrier must be declared before completion'')
        | Some d \<Rightarrow>
            if definition_projection d \<noteq> definition_projection (plan_definition plan (cd_barrier_id d) (cd_created_at d))
            then Inl (conflict_error ''declared call barrier does not match the immutable input plan'')
            else Inr d))"

definition selection_bound :: "hashing \<Rightarrow> ModelInference \<Rightarrow> InferenceAttemptSelection option \<Rightarrow> unit py" where
  "selection_bound h inference selection =
     (let refused = Inl (call_error ''successful call part requires its exact persisted attempt selection'') in
      case selection of
        None \<Rightarrow> refused
      | Some sel \<Rightarrow>
          if sel_inference_id sel \<noteq> mi_inference_id inference
            \<or> sel_logical_invocation_id sel \<noteq> mi_logical_invocation_id inference
          then refused
          else rbind (inference_attempt_selection_logical_key h (mi_logical_invocation_id inference)
                        (sel_policy_version sel)) (\<lambda>key.
            if sel_selection_decision_logical_key sel \<noteq> key then refused else Inr ()))"

text \<open>The normalized output, its digest and the failure of a terminal attempt.\<close>

definition terminal_fields ::
    "hashing \<Rightarrow> ModelInference \<Rightarrow> string option \<Rightarrow> InferenceAttemptSelection option \<Rightarrow> bool
      \<Rightarrow> ((string \<times> json) list option \<times> string option \<times> InferenceFailure option) py" where
  "terminal_fields h inference raw selection failure_is_final =
     (if mi_status inference = Inference_SUCCEEDED then
        (case mi_normalized_output inference of
           None \<Rightarrow> Inl (call_error ''successful call part requires valid normalized output'')
         | Some output \<Rightarrow>
             if \<not> mi_output_valid inference
             then Inl (call_error ''successful call part requires valid normalized output'')
             else if mi_failure inference \<noteq> None
             then Inl (call_error ''successful call part cannot contain failure details'')
             else if raw = None
             then Inl (call_error ''successful call part requires a raw output artifact reference'')
             else rbind (selection_bound h inference selection) (\<lambda>_.
                  rbind (semantic_sha256 h (JObj output)) (\<lambda>digest.
                    Inr (Some output, Some digest, None))))
      else if selection \<noteq> None
      then Inl (call_error ''failed call part cannot reference an attempt selection'')
      else if \<not> failure_is_final
      then Inl (call_error ''non-success call part requires explicit final-failure confirmation'')
      else if mi_output_valid inference \<or> mi_failure inference = None
      then Inl (call_error ''failed call part must carry invalid output and failure details'')
      else Inr (None, None, mi_failure inference))"

definition build_completion ::
    "hashing \<Rightarrow> InferenceInputPlan \<Rightarrow> CallBarrierDefinition \<Rightarrow> ModelInference
      \<Rightarrow> InferenceAttemptSelection option \<Rightarrow> bool \<Rightarrow> CallPartCompletion py" where
  "build_completion h plan d inference selection failure_is_final =
     rbind (bound_part plan inference) (\<lambda>part.
     rbind (raw_output_artifact_id inference) (\<lambda>raw.
     rbind (terminal_fields h inference raw selection failure_is_final) (\<lambda>(output, output_digest, failure).
     let c = \<lparr>cc_completion_id = [], cc_completion_semantic_sha256 = [], cc_barrier_id = cd_barrier_id d,
          cc_barrier_semantic_sha256 = cd_barrier_semantic_sha256 d,
          cc_input_plan_semantic_sha256 = plan_semantic_sha256 plan,
          cc_call_plan_sha256 = call_plan_sha256 (plan_call_plan plan),
          cc_part_ordinal = part_ordinal part, cc_part_count = part_count part,
          cc_part_semantic_sha256 = part_semantic_sha256 part, cc_part_logical_key = part_logical_key part,
          cc_part_idempotency_key = idempotency_key part, cc_inference_id = mi_inference_id inference,
          cc_logical_invocation_id = mi_logical_invocation_id inference,
          cc_selection_id = map_option sel_selection_id selection,
          cc_selection_policy_version = map_option sel_policy_version selection,
          cc_selection_decision_logical_key = map_option sel_selection_decision_logical_key selection,
          cc_attempt = mi_attempt inference, cc_status = mi_status inference, cc_normalized_output = output,
          cc_normalized_output_sha256 = output_digest, cc_raw_output_artifact_id = raw, cc_failure = failure,
          cc_completed_at = mi_completed_at inference\<rparr> in
     rbind (completion_semantic_sha256 h c) (\<lambda>digest.
     let completion = c\<lparr>cc_completion_id := stable_uuid h ''inference-call-completion'' digest,
                        cc_completion_semantic_sha256 := digest\<rparr> in
     rbind (validate_terminal_shape_and_identity h completion) (\<lambda>_. Inr completion)))))"

definition submit_part_terminal ::
    "hashing \<Rightarrow> 's BarrierStorage \<Rightarrow> 's CallStorage \<Rightarrow> 's \<Rightarrow> InferenceInputPlan \<Rightarrow> ModelInference
      \<Rightarrow> InferenceAttemptSelection option \<Rightarrow> bool \<Rightarrow> 's \<times> CallPartCompletion py" where
  "submit_part_terminal h bst cst s input_plan inference selection failure_is_final =
     (case rbind (validated_plan input_plan) (\<lambda>plan.
           rbind (require_definition h cst s plan) (\<lambda>d.
           build_completion h plan d inference selection failure_is_final)) of
        Inl e \<Rightarrow> (s, Inl e)
      | Inr completion \<Rightarrow>
          (case append_completion cst s completion of
             Inl e \<Rightarrow> (s, Inl e)
           | Inr (s1, stored) \<Rightarrow>
               (case submit_member bst s1 (cc_barrier_id completion) (cc_part_logical_key completion)
                       (call_stage_status (mi_status inference)) REQUIRED of
                  Inl e \<Rightarrow> (s1, Inl e)
                | Inr (s2, _) \<Rightarrow> (s2, Inr stored))))"

definition plan_aggregate_status ::
    "hashing \<Rightarrow> 's BarrierStorage \<Rightarrow> 's CallStorage \<Rightarrow> 's \<Rightarrow> InferenceInputPlan \<Rightarrow> AggregateStatus py" where
  "plan_aggregate_status h bst cst s input_plan =
     rbind (validated_plan input_plan) (\<lambda>plan.
     rbind (require_definition h cst s plan) (\<lambda>d.
     get_aggregate_status bst s (cd_barrier_id d)))"

definition validate_completed_member_set :: "CallBarrierDefinition \<Rightarrow> CallPartCompletion list \<Rightarrow> unit py" where
  "validate_completed_member_set d cs =
     (if length cs \<noteq> cd_part_count d
      then Inl (open_error ''persisted part completions do not cover the declared member set'')
      else if map cc_part_ordinal cs \<noteq> [0..<cd_part_count d]
      then Inl (conflict_error ''persisted part completion ordinals are not exact and contiguous'')
      else if map cc_part_semantic_sha256 cs \<noteq> cd_expected_part_semantic_sha256s d
      then Inl (conflict_error ''persisted part completions do not match declared identities'')
      else if list_ex (\<lambda>c. cc_status c \<noteq> Inference_SUCCEEDED) cs
      then Inl (failed_error ''successful barrier state contains a non-success part completion'')
      else Inr ())"

definition reducer_output ::
    "reducers \<Rightarrow> InferenceInputPlan \<Rightarrow> CallBarrierDefinition \<Rightarrow> CallPartCompletion list \<Rightarrow> (string \<times> json) list py" where
  "reducer_output reducers plan d completions =
     (case reducers (cd_reduction_policy d, cd_reduction_policy_version d) of
        None \<Rightarrow> Inl (configuration_error ''no reducer is registered for the exact policy and version'')
      | Some reduce \<Rightarrow>
          rbind (reduce plan completions) (\<lambda>output.
            if list_ex (\<lambda>(k, _). k = []) output
            then Inl (configuration_error ''reduced output keys must be nonempty strings'')
            else Inr output))"

definition build_reduction ::
    "hashing \<Rightarrow> InferenceInputPlan \<Rightarrow> CallBarrierDefinition \<Rightarrow> CallPartCompletion list \<Rightarrow> (string \<times> json) list
      \<Rightarrow> string \<Rightarrow> CallReduction py" where
  "build_reduction h plan d completions output reduced_at =
     (case semantic_sha256 h (JObj output) of
        Inl _ \<Rightarrow> Inl (configuration_error ''reduced output must be canonical JSON'')
      | Inr output_sha256 \<Rightarrow>
          rbind (traverse required_output_digest completions) (\<lambda>output_digests.
          rbind (traverse required_selection_key completions) (\<lambda>selection_keys.
          let r = \<lparr>cr_reduction_id = [], cr_reduction_semantic_sha256 = [], cr_barrier_id = cd_barrier_id d,
               cr_barrier_semantic_sha256 = cd_barrier_semantic_sha256 d,
               cr_input_plan_semantic_sha256 = plan_semantic_sha256 plan,
               cr_call_plan_sha256 = call_plan_sha256 (plan_call_plan plan),
               cr_reduction_policy = cd_reduction_policy d,
               cr_reduction_policy_version = cd_reduction_policy_version d,
               cr_output_schema_sha256 = plan_response_schema_sha256 plan,
               cr_ordered_completion_ids = map cc_completion_id completions,
               cr_ordered_part_semantic_sha256s = map cc_part_semantic_sha256 completions,
               cr_ordered_normalized_output_sha256s = output_digests,
               cr_ordered_selection_decision_logical_keys = selection_keys,
               cr_normalized_output = output, cr_normalized_output_sha256 = output_sha256,
               cr_reduced_at = reduced_at\<rparr> in
          rbind (reduction_semantic_sha256 h r) (\<lambda>digest.
          let reduction = r\<lparr>cr_reduction_id := stable_uuid h ''inference-call-reduction'' digest,
                            cr_reduction_semantic_sha256 := digest\<rparr> in
          rbind (validate_reduction_identity h reduction) (\<lambda>_. Inr reduction)))))"

definition reduce_call_barrier ::
    "hashing \<Rightarrow> reducers \<Rightarrow> 's BarrierStorage \<Rightarrow> 's CallStorage \<Rightarrow> 's \<Rightarrow> InferenceInputPlan \<Rightarrow> string
      \<Rightarrow> 's \<times> CallReduction py" where
  "reduce_call_barrier h reducers bst cst s input_plan reduced_at =
     (case rbind (validated_plan input_plan) (\<lambda>plan.
           rbind (require_definition h cst s plan) (\<lambda>d.
           rbind (get_reduction cst s (cd_barrier_id d)) (\<lambda>existing. Inr (plan, d, existing)))) of
        Inl e \<Rightarrow> (s, Inl e)
      | Inr (plan, d, Some existing) \<Rightarrow> (s, Inr existing)
      | Inr (plan, d, None) \<Rightarrow>
          on_state s
            (rbind (get_aggregate_status bst s (cd_barrier_id d)) (\<lambda>aggregate.
               if \<not> aggregate_is_complete aggregate
               then Inl (open_error ''cannot reduce before every declared call part is terminal'')
               else if overall_status aggregate \<noteq> Status_SUCCEEDED
               then Inl (failed_error ''cannot reduce a call barrier containing a failed required part'')
               else
                 rbind (list_completions cst s (cd_barrier_id d)) (\<lambda>listed.
                 let completions = sort_key cc_part_ordinal listed in
                 rbind (validate_completed_member_set d completions) (\<lambda>_.
                 rbind (reducer_output reducers plan d completions) (\<lambda>output.
                 rbind (build_reduction h plan d completions output reduced_at) (\<lambda>reduction.
                 append_reduction cst s reduction)))))))"

end
