(* ===== verification/Sqlite_Barrier.thy ===== *)
theory Sqlite_Barrier
  imports Call_Barrier
begin

text \<open>
  \<^verbatim>\<open>src/robata/adapters/sqlite_barrier.py\<close>: the durable storage of generic barriers and of
  inference-call barriers. A table is a list of rows in the order of their insertion; a row
  is its indexed columns, the canonical JSON of the model and the digest of these bytes. A
  transaction that raises is rolled back, so an operation returns the new database or the
  error. The bytes are a type variable; SHA-256, the RFC 8785 encoder (which rejects some
  values) and the decoder of pydantic are parameters. CHECK and FOREIGN KEY clauses repeat
  what the validators and the lookups before each INSERT establish; UNIQUE clauses are
  modelled. Headers, DDL fingerprints and connection options are not modelled.
\<close>

section \<open>Rows and tables\<close>

datatype column = Text string | Integer int

record 'p Row =
  row_columns :: "(string \<times> column) list"
  payload_json :: 'p
  payload_sha256 :: string

definition where_eq :: "(string \<times> column) list \<Rightarrow> 'p Row \<Rightarrow> bool" where
  "where_eq cs r \<longleftrightarrow> list_all (\<lambda>(c, v). map_of (row_columns r) c = Some v) cs"

definition fetchone :: "(string \<times> column) list \<Rightarrow> 'p Row list \<Rightarrow> 'p Row option" where
  "fetchone cs table = find_row (where_eq cs) table"

definition fetchall :: "(string \<times> column) list \<Rightarrow> 'p Row list \<Rightarrow> 'p Row list" where
  "fetchall cs table = filter (where_eq cs) table"

definition text_of :: "string \<Rightarrow> 'p Row \<Rightarrow> string" where
  "text_of c r = (case map_of (row_columns r) c of Some (Text s) \<Rightarrow> s | _ \<Rightarrow> [])"

definition int_of :: "string \<Rightarrow> 'p Row \<Rightarrow> int" where
  "int_of c r = (case map_of (row_columns r) c of Some (Integer i) \<Rightarrow> i | _ \<Rightarrow> 0)"

definition storage_error :: "string \<Rightarrow> exn" where
  "storage_error msg = DomainError ''SQLiteBarrierStorageError'' msg"

text \<open>INSERT into a table whose PRIMARY KEY and UNIQUE clauses are the given column lists.\<close>

definition insert_row :: "string list list \<Rightarrow> 'p Row \<Rightarrow> 'p Row list \<Rightarrow> 'p Row list py" where
  "insert_row uniques row table =
     (if list_ex (\<lambda>r. list_ex (\<lambda>u. map (map_of (row_columns r)) u = map (map_of (row_columns row)) u) uniques) table
      then Inl (storage_error ''SQLite rejected barrier persistence: UNIQUE constraint failed'')
      else Inr (table @ [row]))"

section \<open>Payloads\<close>

record 'p barrier_codec =
  codec_hash :: hashing
  exact_bytes_sha256 :: "'p \<Rightarrow> string"
  dump_barrier :: "Barrier \<Rightarrow> 'p option"
  load_barrier :: "'p \<Rightarrow> Barrier option"
  dump_state :: "BarrierState \<Rightarrow> 'p option"
  load_state :: "'p \<Rightarrow> BarrierState option"
  dump_member :: "BarrierMember \<Rightarrow> 'p option"
  load_member :: "'p \<Rightarrow> BarrierMember option"
  dump_definition :: "CallBarrierDefinition \<Rightarrow> 'p option"
  load_definition :: "'p \<Rightarrow> CallBarrierDefinition option"
  dump_completion :: "CallPartCompletion \<Rightarrow> 'p option"
  load_completion :: "'p \<Rightarrow> CallPartCompletion option"
  dump_reduction :: "CallReduction \<Rightarrow> 'p option"
  load_reduction :: "'p \<Rightarrow> CallReduction option"

text \<open>\<open>_model_payload\<close>, with the columns of the row that is written.\<close>

definition model_row ::
    "'p barrier_codec \<Rightarrow> ('m \<Rightarrow> 'p option) \<Rightarrow> ('m \<Rightarrow> (string \<times> column) list) \<Rightarrow> 'm \<Rightarrow> 'p Row py" where
  "model_row cx dump cols v =
     (case dump v of
        None \<Rightarrow> Inl (ValueError ''model is not canonical JSON'')
      | Some p \<Rightarrow> Inr \<lparr>row_columns = cols v, payload_json = p, payload_sha256 = exact_bytes_sha256 cx p\<rparr>)"

definition decode_model ::
    "'p barrier_codec \<Rightarrow> ('m \<Rightarrow> 'p option) \<Rightarrow> ('p \<Rightarrow> 'm option) \<Rightarrow> 'p Row \<Rightarrow> 'm py" where
  "decode_model cx dump load row =
     (let raw = payload_json row in
      if payload_sha256 row \<noteq> exact_bytes_sha256 cx raw
      then Inl (storage_error ''persisted model exact digest is corrupt'')
      else case load raw of
          None \<Rightarrow> Inl (storage_error ''persisted model failed strict validation'')
        | Some v \<Rightarrow>
            (case dump v of
               None \<Rightarrow> Inl (storage_error ''persisted model failed strict validation'')
             | Some p \<Rightarrow> if p \<noteq> raw then Inl (storage_error ''persisted model is not canonical JSON'') else Inr v))"

definition require_columns :: "'p Row \<Rightarrow> (string \<times> column) list \<Rightarrow> unit py" where
  "require_columns row expected =
     (if where_eq expected row then Inr ()
      else Inl (storage_error ''persisted indexed column disagrees with canonical JSON''))"

definition model_from_row ::
    "'p barrier_codec \<Rightarrow> ('m \<Rightarrow> 'p option) \<Rightarrow> ('p \<Rightarrow> 'm option) \<Rightarrow> ('m \<Rightarrow> (string \<times> column) list)
      \<Rightarrow> 'p Row \<Rightarrow> 'm py" where
  "model_from_row cx dump load cols row =
     rbind (decode_model cx dump load row) (\<lambda>v. rbind (require_columns row (cols v)) (\<lambda>_. Inr v))"

section \<open>Columns\<close>

definition stage_status_value :: "StageStatus \<Rightarrow> string" where
  "stage_status_value st = (case map_of (map prod.swap stage_status_values) st of None \<Rightarrow> [] | Some v \<Rightarrow> v)"

fun criticality_value :: "DependencyCriticality \<Rightarrow> string" where
  "criticality_value REQUIRED = ''REQUIRED''"
| "criticality_value DEGRADABLE = ''DEGRADABLE''"
| "criticality_value OPTIONAL = ''OPTIONAL''"

definition barrier_columns :: "Barrier \<Rightarrow> (string \<times> column) list" where
  "barrier_columns v =
     [(''barrier_id'', Text (barrier_id v)), (''logical_key'', Text (logical_key v)),
      (''expected_member_count'', Integer (int (expected_member_count v))),
      (''empty_semantics'', Text (empty_semantics v)), (''reduction_policy'', Text (reduction_policy v)),
      (''status'', Text (barrier_status v)),
      (''required_success_count'', Integer (int (required_success_count v))),
      (''max_degraded_failures'', Integer (int (max_degraded_failures v)))]"

definition state_columns :: "BarrierState \<Rightarrow> (string \<times> column) list" where
  "state_columns v =
     [(''barrier_id'', Text (state_barrier_id v)), (''completed_members'', Integer (int (completed_members v))),
      (''pending_members'', Integer (int (pending_members v))),
      (''failed_members'', Integer (int (failed_members v))), (''status'', Text (state_status v))]"

definition member_columns :: "BarrierMember \<Rightarrow> (string \<times> column) list" where
  "member_columns v =
     [(''work_item_id'', Text (member_work_item_id v)), (''criticality'', Text (criticality_value (member_criticality v))),
      (''outcome'', Text (stage_status_value (member_outcome v)))]"

definition definition_columns :: "CallBarrierDefinition \<Rightarrow> (string \<times> column) list" where
  "definition_columns v =
     [(''barrier_id'', Text (cd_barrier_id v)), (''barrier_semantic_sha256'', Text (cd_barrier_semantic_sha256 v)),
      (''barrier_logical_key'', Text (cd_barrier_logical_key v)),
      (''input_plan_semantic_sha256'', Text (cd_input_plan_semantic_sha256 v)),
      (''call_plan_sha256'', Text (cd_call_plan_sha256 v)), (''part_count'', Integer (int (cd_part_count v))),
      (''reduction_policy'', Text (cd_reduction_policy v)),
      (''reduction_policy_version'', Text (cd_reduction_policy_version v))]"

definition completion_columns :: "CallPartCompletion \<Rightarrow> (string \<times> column) list" where
  "completion_columns v =
     [(''barrier_id'', Text (cc_barrier_id v)), (''part_ordinal'', Integer (int (cc_part_ordinal v))),
      (''part_count'', Integer (int (cc_part_count v))), (''part_semantic_sha256'', Text (cc_part_semantic_sha256 v)),
      (''part_logical_key'', Text (cc_part_logical_key v)),
      (''part_idempotency_key'', Text (cc_part_idempotency_key v)),
      (''completion_id'', Text (cc_completion_id v)),
      (''completion_semantic_sha256'', Text (cc_completion_semantic_sha256 v)),
      (''inference_id'', Text (cc_inference_id v)), (''logical_invocation_id'', Text (cc_logical_invocation_id v)),
      (''status'', Text (inference_status_value (cc_status v)))]"

definition reduction_columns :: "CallReduction \<Rightarrow> (string \<times> column) list" where
  "reduction_columns v =
     [(''barrier_id'', Text (cr_barrier_id v)), (''reduction_id'', Text (cr_reduction_id v)),
      (''reduction_semantic_sha256'', Text (cr_reduction_semantic_sha256 v)),
      (''normalized_output_sha256'', Text (cr_normalized_output_sha256 v))]"

section \<open>The database\<close>

record 'p BarrierDb =
  barrier_definitions :: "'p Row list"
  barrier_states :: "'p Row list"
  barrier_members :: "'p Row list"
  call_barrier_definitions :: "'p Row list"
  call_part_completions :: "'p Row list"
  call_reductions :: "'p Row list"

definition barrier_db_init :: "'p BarrierDb" where
  "barrier_db_init = \<lparr>barrier_definitions = [], barrier_states = [], barrier_members = [],
     call_barrier_definitions = [], call_part_completions = [], call_reductions = []\<rparr>"

definition nonempty_string :: "string \<Rightarrow> string \<Rightarrow> string py" where
  "nonempty_string v label = (if py_blank v then Inl (TypeError (label @ '' must be a nonempty string'')) else Inr v)"

definition validate_barrier_definition :: "Barrier \<Rightarrow> unit py" where
  "validate_barrier_definition bar =
     (case StageStatus_of (empty_semantics bar) of
        Inl _ \<Rightarrow> Inl (ValueError ''empty_semantics must identify a terminal StageStatus'')
      | Inr empty_outcome \<Rightarrow>
          if empty_outcome \<notin> SUCCESS_OUTCOMES \<and> empty_outcome \<notin> FAILURE_OUTCOMES
          then Inl (ValueError ''empty_semantics must identify a terminal StageStatus'')
          else if required_success_count bar > expected_member_count bar
          then Inl (ValueError ''required success count cannot exceed expected members'')
          else if max_degraded_failures bar > expected_member_count bar
          then Inl (ValueError ''degradable failures cannot exceed expected members'')
          else if barrier_status bar \<noteq>
            (if expected_member_count bar = 0 \<and> empty_outcome \<in> FAILURE_OUTCOMES then ''FAILED''
             else if expected_member_count bar = 0 then ''CLOSED'' else ''OPEN'')
          then Inl (ValueError ''barrier initial status is inconsistent with its member count'')
          else Inr ())"

definition derive_state :: "Barrier \<Rightarrow> BarrierMember list \<Rightarrow> BarrierState py" where
  "derive_state bar members =
     (let completed = length members;
          failed = length (filter (\<lambda>m. member_outcome m \<in> FAILURE_OUTCOMES) members) in
      if completed > expected_member_count bar
      then Inl (storage_error (''persisted barrier has too many terminal members: '' @ barrier_id bar))
      else
        let successful = length (filter (\<lambda>m. member_outcome m \<in> SUCCESS_OUTCOMES) members);
            required_failed = list_ex (\<lambda>m. member_criticality m = REQUIRED \<and> member_outcome m \<notin> SUCCESS_OUTCOMES) members;
            degraded = length (filter (\<lambda>m. member_criticality m = DEGRADABLE \<and> member_outcome m \<in> FAILURE_OUTCOMES) members)
        in Inr \<lparr>state_barrier_id = barrier_id bar, completed_members = completed,
             pending_members = expected_member_count bar - completed, failed_members = failed,
             state_status =
               (if expected_member_count bar = 0 then barrier_status bar
                else if completed < expected_member_count bar then ''OPEN''
                else if \<not> required_failed \<and> successful \<ge> required_success_count bar
                     \<and> degraded \<le> max_degraded_failures bar then ''CLOSED''
                else ''FAILED'')\<rparr>)"

definition barrier_from_row :: "'p barrier_codec \<Rightarrow> 'p Row \<Rightarrow> Barrier py" where
  "barrier_from_row cx row =
     rbind (model_from_row cx (dump_barrier cx) (load_barrier cx) barrier_columns row) (\<lambda>v.
       case validate_barrier_definition v of
         Inl _ \<Rightarrow> Inl (storage_error ''persisted barrier definition is semantically invalid'')
       | Inr _ \<Rightarrow> Inr v)"

definition state_from_row :: "'p barrier_codec \<Rightarrow> 'p Row \<Rightarrow> (BarrierState \<times> int) py" where
  "state_from_row cx row =
     rbind (model_from_row cx (dump_state cx) (load_state cx) state_columns row) (\<lambda>v.
       case map_of (row_columns row) ''state_version'' of
         Some (Integer i) \<Rightarrow> Inr (v, i)
       | _ \<Rightarrow> Inl (storage_error ''persisted barrier column state_version must be an integer''))"

definition member_from_row :: "'p barrier_codec \<Rightarrow> 'p Row \<Rightarrow> BarrierMember py" where
  "member_from_row cx = model_from_row cx (dump_member cx) (load_member cx) member_columns"

definition call_definition_from_row :: "'p barrier_codec \<Rightarrow> 'p Row \<Rightarrow> CallBarrierDefinition py" where
  "call_definition_from_row cx = model_from_row cx (dump_definition cx) (load_definition cx) definition_columns"

definition completion_from_row :: "'p barrier_codec \<Rightarrow> 'p Row \<Rightarrow> CallPartCompletion py" where
  "completion_from_row cx = model_from_row cx (dump_completion cx) (load_completion cx) completion_columns"

definition reduction_from_row :: "'p barrier_codec \<Rightarrow> 'p Row \<Rightarrow> CallReduction py" where
  "reduction_from_row cx = model_from_row cx (dump_reduction cx) (load_reduction cx) reduction_columns"

section \<open>Generic barriers\<close>

abbreviation by_barrier :: "string \<Rightarrow> (string \<times> column) list" where
  "by_barrier b \<equiv> [(''barrier_id'', Text b)]"

definition load_generic_barrier ::
    "'p barrier_codec \<Rightarrow> 'p BarrierDb \<Rightarrow> string \<Rightarrow> (Barrier \<times> BarrierState \<times> BarrierMember list \<times> int) py" where
  "load_generic_barrier cx db b =
     (case fetchone (by_barrier b) (barrier_definitions db) of
        None \<Rightarrow> Inl (KeyError (''unknown barrier: '' @ b))
      | Some barrier_row \<Rightarrow>
          (case fetchone (by_barrier b) (barrier_states db) of
             None \<Rightarrow> Inl (storage_error (''persisted barrier has no durable state: '' @ b))
           | Some state_row \<Rightarrow>
               rbind (barrier_from_row cx barrier_row) (\<lambda>bar.
               rbind (state_from_row cx state_row) (\<lambda>(stt, version).
               rbind (traverse (member_from_row cx)
                 (sort_key (text_of ''work_item_id'') (fetchall (by_barrier b) (barrier_members db)))) (\<lambda>members.
               if length members > expected_member_count bar
               then Inl (storage_error (''persisted barrier member capacity is exceeded: '' @ b))
               else rbind (derive_state bar members) (\<lambda>derived.
                 if stt \<noteq> derived
                 then Inl (storage_error (''persisted barrier state disagrees with its terminal members: '' @ b))
                 else Inr (bar, stt, members, version)))))))"

definition sql_get_barrier :: "'p barrier_codec \<Rightarrow> 'p BarrierDb \<Rightarrow> string \<Rightarrow> Barrier option py" where
  "sql_get_barrier cx db b =
     rbind (nonempty_string b ''barrier_id'') (\<lambda>key.
       case fetchone (by_barrier key) (barrier_definitions db) of
         None \<Rightarrow> Inr None
       | Some row \<Rightarrow> rbind (barrier_from_row cx row) (\<lambda>v. Inr (Some v)))"

definition state_row :: "'p barrier_codec \<Rightarrow> int \<Rightarrow> BarrierState \<Rightarrow> 'p Row py" where
  "state_row cx version = model_row cx (dump_state cx) (\<lambda>v. (''state_version'', Integer version) # state_columns v)"

definition strict_model :: "unit py \<Rightarrow> 'm \<Rightarrow> 'm py" where
  "strict_model validated v = (case validated of Inl _ \<Rightarrow> Inl (ValueError ''failed strict validation'') | Inr _ \<Rightarrow> Inr v)"

definition barrier_fields :: "Barrier \<Rightarrow> unit py" where
  "barrier_fields bar =
     (if opaque_uuid (barrier_id bar) then Inr () else Inl (ValueError ''barrier_id: string should match the UUID pattern''))"

definition sql_save_barrier :: "'p barrier_codec \<Rightarrow> 'p BarrierDb \<Rightarrow> Barrier \<Rightarrow> 'p BarrierDb py" where
  "sql_save_barrier cx db bar =
     rbind (strict_model (barrier_fields bar) bar) (\<lambda>_.
     rbind (validate_barrier_definition bar) (\<lambda>_.
       case fetchone (by_barrier (barrier_id bar)) (barrier_definitions db) of
         Some row \<Rightarrow>
           rbind (barrier_from_row cx row) (\<lambda>stored.
             if stored \<noteq> bar
             then Inl (ValueError (''barrier already exists with different definition: '' @ barrier_id bar))
             else rbind (load_generic_barrier cx db (barrier_id bar)) (\<lambda>_. Inr db))
       | None \<Rightarrow>
           rbind (model_row cx (dump_barrier cx) barrier_columns bar) (\<lambda>row.
           rbind (insert_row [[''barrier_id''], [''logical_key'']] row (barrier_definitions db)) (\<lambda>definitions.
           rbind (derive_state bar []) (\<lambda>stt.
           rbind (state_row cx 0 stt) (\<lambda>srow.
           rbind (insert_row [[''barrier_id'']] srow (barrier_states db)) (\<lambda>states.
           Inr (db\<lparr>barrier_definitions := definitions, barrier_states := states\<rparr>))))))))"

definition sql_get_state :: "'p barrier_codec \<Rightarrow> 'p BarrierDb \<Rightarrow> string \<Rightarrow> BarrierState option py" where
  "sql_get_state cx db b =
     rbind (nonempty_string b ''barrier_id'') (\<lambda>key.
       if fetchone (by_barrier key) (barrier_definitions db) = None then Inr None
       else rbind (load_generic_barrier cx db key) (\<lambda>(_, stt, _, _). Inr (Some stt)))"

definition sql_save_state :: "'p barrier_codec \<Rightarrow> 'p BarrierDb \<Rightarrow> BarrierState \<Rightarrow> 'p BarrierDb py" where
  "sql_save_state cx db stt =
     (let b = state_barrier_id stt in
      if fetchone (by_barrier b) (barrier_definitions db) = None then Inl (KeyError (''unknown barrier: '' @ b))
      else rbind (load_generic_barrier cx db b) (\<lambda>(_, stored, _, _).
        if stored \<noteq> stt
        then Inl (ValueError ''barrier state is derived from its immutable definition and terminal members'')
        else Inr db))"

definition sql_get_members :: "'p barrier_codec \<Rightarrow> 'p BarrierDb \<Rightarrow> string \<Rightarrow> BarrierMember list py" where
  "sql_get_members cx db b =
     rbind (nonempty_string b ''barrier_id'') (\<lambda>key.
       if fetchone (by_barrier key) (barrier_definitions db) = None then Inl (KeyError (''unknown barrier: '' @ key))
       else rbind (load_generic_barrier cx db key) (\<lambda>(_, _, members, _). Inr members))"

section \<open>Inference-call facts\<close>

definition validate_call_definition_binding :: "Barrier \<Rightarrow> CallBarrierDefinition \<Rightarrow> unit py" where
  "validate_call_definition_binding bar d =
     (if barrier_id bar \<noteq> cd_barrier_id d \<or> logical_key bar \<noteq> cd_barrier_logical_key d
        \<or> expected_member_count bar \<noteq> cd_part_count d \<or> required_success_count bar \<noteq> cd_part_count d
        \<or> max_degraded_failures bar \<noteq> 0 \<or> reduction_policy bar \<noteq> cd_reduction_policy_version d
      then Inl (conflict_error ''call barrier definition does not match its generic barrier'')
      else Inr ())"

definition validate_completion_binding :: "CallBarrierDefinition \<Rightarrow> CallPartCompletion \<Rightarrow> unit py" where
  "validate_completion_binding d c =
     (if \<not> completion_matches d c \<or> cc_barrier_id c \<noteq> cd_barrier_id d
      then Inl (conflict_error ''completion does not match the declared call barrier member'')
      else Inr ())"

definition sql_append_definition ::
    "'p barrier_codec \<Rightarrow> 'p BarrierDb \<Rightarrow> CallBarrierDefinition \<Rightarrow> ('p BarrierDb \<times> CallBarrierDefinition) py" where
  "sql_append_definition cx db d =
     rbind (strict_model (validate_expected_members d) d) (\<lambda>checked.
     let b = cd_barrier_id checked in
     case fetchone (by_barrier b) (barrier_definitions db) of
       None \<Rightarrow> Inl (KeyError (''unknown inference call barrier: '' @ b))
     | Some barrier_row \<Rightarrow>
         rbind (barrier_from_row cx barrier_row) (\<lambda>bar.
         rbind (validate_call_definition_binding bar checked) (\<lambda>_.
           case fetchone (by_barrier b) (call_barrier_definitions db) of
             Some row \<Rightarrow>
               rbind (call_definition_from_row cx row) (\<lambda>stored.
                 if stored \<noteq> checked then Inl (conflict_error (''conflicting call barrier definition: '' @ b))
                 else Inr (db, stored))
           | None \<Rightarrow>
               rbind (model_row cx (dump_definition cx) definition_columns checked) (\<lambda>row.
               rbind (insert_row [[''barrier_id'']] row (call_barrier_definitions db)) (\<lambda>table.
               Inr (db\<lparr>call_barrier_definitions := table\<rparr>, checked))))))"

definition require_call_definition ::
    "'p barrier_codec \<Rightarrow> 'p BarrierDb \<Rightarrow> string \<Rightarrow> CallBarrierDefinition py" where
  "require_call_definition cx db b =
     (case fetchone (by_barrier b) (call_barrier_definitions db) of
        None \<Rightarrow> Inl (KeyError (''unknown inference call barrier: '' @ b))
      | Some row \<Rightarrow>
          rbind (call_definition_from_row cx row) (\<lambda>d.
            case fetchone (by_barrier b) (barrier_definitions db) of
              None \<Rightarrow> Inl (storage_error ''persisted inference call barrier has no generic definition'')
            | Some barrier_row \<Rightarrow>
                rbind (barrier_from_row cx barrier_row) (\<lambda>bar.
                rbind (validate_call_definition_binding bar d) (\<lambda>_. Inr d))))"

definition sql_get_definition :: "'p barrier_codec \<Rightarrow> 'p BarrierDb \<Rightarrow> string \<Rightarrow> CallBarrierDefinition option py" where
  "sql_get_definition cx db b =
     rbind (nonempty_string b ''barrier_id'') (\<lambda>key.
       if fetchone (by_barrier key) (call_barrier_definitions db) = None then Inr None
       else rbind (require_call_definition cx db key) (\<lambda>d. Inr (Some d)))"

definition call_completions ::
    "'p barrier_codec \<Rightarrow> 'p BarrierDb \<Rightarrow> CallBarrierDefinition \<Rightarrow> CallPartCompletion list py" where
  "call_completions cx db d =
     rbind (traverse (completion_from_row cx)
       (sort_key (int_of ''part_ordinal'') (fetchall (by_barrier (cd_barrier_id d)) (call_part_completions db)))) (\<lambda>cs.
     rbind (traverse (validate_completion_binding d) cs) (\<lambda>_. Inr cs))"

definition sql_append_completion ::
    "'p barrier_codec \<Rightarrow> 'p BarrierDb \<Rightarrow> CallPartCompletion \<Rightarrow> ('p BarrierDb \<times> CallPartCompletion) py" where
  "sql_append_completion cx db c =
     rbind (strict_model (validate_terminal_shape_and_identity (codec_hash cx) c) c) (\<lambda>checked.
     let b = cc_barrier_id checked; table = call_part_completions db in
     rbind (require_call_definition cx db b) (\<lambda>d.
     rbind (validate_completion_binding d checked) (\<lambda>_.
       case fetchone [(''barrier_id'', Text b), (''part_ordinal'', Integer (int (cc_part_ordinal checked)))] table of
         Some row \<Rightarrow>
           rbind (completion_from_row cx row) (\<lambda>stored.
             if stored \<noteq> checked
             then Inl (conflict_error ''call part already has a different final completion: '')
             else Inr (db, stored))
       | None \<Rightarrow>
           if fetchone [(''barrier_id'', Text b), (''part_semantic_sha256'', Text (cc_part_semantic_sha256 checked))] table \<noteq> None
           then Inl (conflict_error ''call part semantic identity is already bound to another ordinal'')
           else if fetchone [(''completion_id'', Text (cc_completion_id checked))] table \<noteq> None
           then Inl (conflict_error ''call completion identity is already bound to another member'')
           else
             rbind (model_row cx (dump_completion cx) completion_columns checked) (\<lambda>row.
             rbind (insert_row [[''barrier_id'', ''part_ordinal''], [''barrier_id'', ''part_semantic_sha256''],
                                [''completion_id'']] row table) (\<lambda>table'.
             Inr (db\<lparr>call_part_completions := table'\<rparr>, checked))))))"

definition sql_list_completions :: "'p barrier_codec \<Rightarrow> 'p BarrierDb \<Rightarrow> string \<Rightarrow> CallPartCompletion list py" where
  "sql_list_completions cx db b =
     rbind (nonempty_string b ''barrier_id'') (\<lambda>key.
     rbind (require_call_definition cx db key) (\<lambda>d. call_completions cx db d))"

definition validate_reduction ::
    "'p barrier_codec \<Rightarrow> 'p BarrierDb \<Rightarrow> CallBarrierDefinition \<Rightarrow> CallPartCompletion list \<Rightarrow> CallReduction \<Rightarrow> unit py" where
  "validate_reduction cx db d cs r =
     (if length cs \<noteq> cd_part_count d \<or> map cc_part_ordinal cs \<noteq> [0..<cd_part_count d]
      then Inl (conflict_error ''reduction requires exact contiguous call-part completion coverage'')
      else if list_ex (\<lambda>c. cc_status c \<noteq> Inference_SUCCEEDED) cs
      then Inl (conflict_error ''reduction cannot include a failed call-part completion'')
      else rbind (load_generic_barrier cx db (cd_barrier_id d)) (\<lambda>(_, stt, members, _).
        if state_status stt \<noteq> ''CLOSED'' \<or> length members \<noteq> cd_part_count d
        then Inl (conflict_error ''reduction requires a successfully closed generic barrier'')
        else if list_ex (\<lambda>c. cc_normalized_output_sha256 c = None \<or> cc_selection_decision_logical_key c = None) cs
        then Inl (conflict_error ''successful call completions lack required output or selection identities'')
        else if \<not> (cr_barrier_id r = cd_barrier_id d \<and> reduction_header_matches d r
          \<and> cr_ordered_completion_ids r = map cc_completion_id cs
          \<and> cr_ordered_part_semantic_sha256s r = map cc_part_semantic_sha256 cs
          \<and> map Some (cr_ordered_normalized_output_sha256s r) = map cc_normalized_output_sha256 cs
          \<and> map Some (cr_ordered_selection_decision_logical_keys r) = map cc_selection_decision_logical_key cs)
        then Inl (conflict_error ''reduction does not match the completed declared member set'')
        else Inr ()))"

definition sql_append_reduction ::
    "'p barrier_codec \<Rightarrow> 'p BarrierDb \<Rightarrow> CallReduction \<Rightarrow> ('p BarrierDb \<times> CallReduction) py" where
  "sql_append_reduction cx db r =
     rbind (strict_model (validate_reduction_identity (codec_hash cx) r) r) (\<lambda>checked.
     let b = cr_barrier_id checked in
     rbind (require_call_definition cx db b) (\<lambda>d.
     rbind (call_completions cx db d) (\<lambda>cs.
     rbind (validate_reduction cx db d cs checked) (\<lambda>_.
       case fetchone (by_barrier b) (call_reductions db) of
         Some row \<Rightarrow>
           rbind (reduction_from_row cx row) (\<lambda>stored.
             if stored \<noteq> checked then Inl (conflict_error (''call barrier already has a different reduction: '' @ b))
             else Inr (db, stored))
       | None \<Rightarrow>
           if fetchone [(''reduction_id'', Text (cr_reduction_id checked))] (call_reductions db) \<noteq> None
           then Inl (conflict_error ''call reduction identity is already bound to another barrier'')
           else
             rbind (model_row cx (dump_reduction cx) reduction_columns checked) (\<lambda>row.
             rbind (insert_row [[''barrier_id''], [''reduction_id'']] row (call_reductions db)) (\<lambda>table.
             Inr (db\<lparr>call_reductions := table\<rparr>, checked)))))))"

definition sql_get_reduction :: "'p barrier_codec \<Rightarrow> 'p BarrierDb \<Rightarrow> string \<Rightarrow> CallReduction option py" where
  "sql_get_reduction cx db b =
     rbind (nonempty_string b ''barrier_id'') (\<lambda>key.
       case fetchone (by_barrier key) (call_reductions db) of
         None \<Rightarrow> Inr None
       | Some row \<Rightarrow>
           rbind (require_call_definition cx db key) (\<lambda>d.
           rbind (call_completions cx db d) (\<lambda>cs.
           rbind (reduction_from_row cx row) (\<lambda>r.
           rbind (validate_reduction cx db d cs r) (\<lambda>_. Inr (Some r))))))"

section \<open>Members\<close>

definition validate_call_member :: "'p barrier_codec \<Rightarrow> 'p BarrierDb \<Rightarrow> string \<Rightarrow> BarrierMember \<Rightarrow> unit py" where
  "validate_call_member cx db b m =
     (case fetchone (by_barrier b) (call_barrier_definitions db) of
        None \<Rightarrow> Inr ()
      | Some definition_row \<Rightarrow>
          rbind (call_definition_from_row cx definition_row) (\<lambda>d.
            if member_work_item_id m \<notin> set (cd_expected_part_logical_keys d)
            then Inl (ValueError ''inference call barrier member is not declared by its immutable definition'')
            else case fetchone [(''barrier_id'', Text b), (''part_logical_key'', Text (member_work_item_id m))]
                        (call_part_completions db) of
                None \<Rightarrow> Inl (ValueError ''inference call barrier member requires its durable part completion'')
              | Some completion_row \<Rightarrow>
                  rbind (completion_from_row cx completion_row) (\<lambda>c.
                  rbind (validate_completion_binding d c) (\<lambda>_.
                    if member_outcome m \<noteq> call_stage_status (cc_status c)
                    then Inl (ValueError ''inference call barrier member outcome disagrees with its part completion'')
                    else Inr ()))))"

text \<open>The statements that store a new member: its row, and the compare-and-swap of the state row.\<close>

definition sql_insert_member ::
    "'p barrier_codec \<Rightarrow> 'p BarrierDb \<Rightarrow> string \<Rightarrow> Barrier \<Rightarrow> BarrierMember list \<Rightarrow> int \<Rightarrow> BarrierMember \<Rightarrow> 'p BarrierDb py" where
  "sql_insert_member cx db b bar members version candidate =
     rbind (validate_call_member cx db b candidate) (\<lambda>_.
     rbind (model_row cx (dump_member cx) (\<lambda>m. (''barrier_id'', Text b) # member_columns m) candidate) (\<lambda>row.
     rbind (insert_row [[''barrier_id'', ''work_item_id'']] row (barrier_members db)) (\<lambda>members_table.
     rbind (derive_state bar (members @ [candidate])) (\<lambda>updated.
     rbind (state_row cx (version + 1) updated) (\<lambda>new_row.
     let q = where_eq [(''barrier_id'', Text b), (''state_version'', Integer version)] in
     if rowcount q (barrier_states db) \<noteq> 1
     then Inl (storage_error (''barrier state compare-and-swap did not match: '' @ b))
     else Inr (db\<lparr>barrier_members := members_table,
                  barrier_states := update_where q (\<lambda>_. new_row) (barrier_states db)\<rparr>))))))"

definition sql_add_member ::
    "'p barrier_codec \<Rightarrow> 'p BarrierDb \<Rightarrow> string \<Rightarrow> string \<Rightarrow> StageStatus \<Rightarrow> DependencyCriticality \<Rightarrow> 'p BarrierDb py" where
  "sql_add_member cx db b w oc crit =
     rbind (nonempty_string b ''barrier_id'') (\<lambda>barrier_key.
     rbind (nonempty_string w ''work_item_id'') (\<lambda>work_key.
     if oc \<notin> SUCCESS_OUTCOMES \<and> oc \<notin> FAILURE_OUTCOMES
     then Inl (ValueError ''barrier members must submit a terminal StageStatus'')
     else
       let candidate = \<lparr>member_work_item_id = work_key, member_criticality = crit, member_outcome = oc\<rparr> in
       if fetchone (by_barrier barrier_key) (barrier_definitions db) = None
       then Inl (KeyError (''unknown barrier: '' @ barrier_key))
       else rbind (load_generic_barrier cx db barrier_key) (\<lambda>(bar, _, members, version).
         case find (\<lambda>m. member_work_item_id m = work_key) members of
           Some existing \<Rightarrow>
             if existing = candidate then Inr db
             else Inl (ValueError (''conflicting replay for barrier member: '' @ work_key))
         | None \<Rightarrow>
             if length members \<ge> expected_member_count bar
             then Inl (ValueError (''barrier member capacity exceeded: '' @ barrier_key))
             else sql_insert_member cx db barrier_key bar members version candidate)))"

definition sqlite_storage :: "'p barrier_codec \<Rightarrow> 'p BarrierDb BarrierStorage" where
  "sqlite_storage cx =
     \<lparr>get_barrier = sql_get_barrier cx, save_barrier = sql_save_barrier cx, get_state = sql_get_state cx,
      save_state = sql_save_state cx, add_member = sql_add_member cx, get_members = sql_get_members cx\<rparr>"

definition sqlite_call_storage :: "'p barrier_codec \<Rightarrow> 'p BarrierDb CallStorage" where
  "sqlite_call_storage cx =
     \<lparr>append_definition = sql_append_definition cx, get_definition = sql_get_definition cx,
      append_completion = sql_append_completion cx, list_completions = sql_list_completions cx,
      append_reduction = sql_append_reduction cx, get_reduction = sql_get_reduction cx\<rparr>"

end
