(* ===== verification/Sqlite_Barrier_Laws.thy ===== *)
theory Sqlite_Barrier_Laws
  imports Sqlite_Barrier Barrier_Memory
begin

text \<open>
  The durable barrier storage keeps its tables as the encoding of a list of facts: the
  definitions, members, call definitions, completions and reductions it accepted. Every
  operation is characterised over these facts, the facts stay well-formed, and the storage
  interface of barriers follows.
\<close>

section \<open>Encodings\<close>

text \<open>
  What is used of the encoder and the decoder: decoding gives back what was encoded, and the
  state of a barrier that can be encoded can be encoded too (it holds the same identifier and
  smaller numbers).
\<close>

definition codec_ok :: "'p barrier_codec \<Rightarrow> bool" where
  "codec_ok cx \<longleftrightarrow>
     (\<forall>v p. dump_barrier cx v = Some p \<longrightarrow> load_barrier cx p = Some v)
     \<and> (\<forall>v p. dump_state cx v = Some p \<longrightarrow> load_state cx p = Some v)
     \<and> (\<forall>v p. dump_member cx v = Some p \<longrightarrow> load_member cx p = Some v)
     \<and> (\<forall>v p. dump_definition cx v = Some p \<longrightarrow> load_definition cx p = Some v)
     \<and> (\<forall>v p. dump_completion cx v = Some p \<longrightarrow> load_completion cx p = Some v)
     \<and> (\<forall>v p. dump_reduction cx v = Some p \<longrightarrow> load_reduction cx p = Some v)
     \<and> (\<forall>bar ms. dump_barrier cx bar \<noteq> None \<longrightarrow> members_ok bar ms \<longrightarrow> dump_state cx (state_of bar ms) \<noteq> None)"

definition mk_row :: "'p barrier_codec \<Rightarrow> ('m \<Rightarrow> 'p option) \<Rightarrow> ('m \<Rightarrow> (string \<times> column) list) \<Rightarrow> 'm \<Rightarrow> 'p Row" where
  "mk_row cx dump cols v =
     \<lparr>row_columns = cols v, payload_json = the (dump v), payload_sha256 = exact_bytes_sha256 cx (the (dump v))\<rparr>"

lemma row_columns_mk [simp]: "row_columns (mk_row cx dump cols v) = cols v"
  by (simp add: mk_row_def)

lemma model_row_Inr: "model_row cx dump cols v = Inr row \<longleftrightarrow> dump v \<noteq> None \<and> row = mk_row cx dump cols v"
  by (auto simp: model_row_def mk_row_def split: option.splits)

lemma model_from_mk:
  assumes "dump v \<noteq> None" and "\<And>p. dump v = Some p \<Longrightarrow> load p = Some v" and "where_eq (cols v) (mk_row cx dump cols' v)"
  shows "model_from_row cx dump load cols (mk_row cx dump cols' v) = Inr v"
  using assms by (auto simp: model_from_row_def decode_model_def require_columns_def mk_row_def Let_def)

section \<open>Facts\<close>

record facts =
  f_barriers :: "Barrier list"
  f_members :: "(string \<times> BarrierMember) list"
  f_definitions :: "CallBarrierDefinition list"
  f_completions :: "CallPartCompletion list"
  f_reductions :: "CallReduction list"

definition members_of :: "facts \<Rightarrow> string \<Rightarrow> BarrierMember list" where
  "members_of F b = map snd (filter (\<lambda>p. fst p = b) (f_members F))"

definition barrier_of :: "facts \<Rightarrow> string \<Rightarrow> Barrier option" where
  "barrier_of F b = find_row (\<lambda>bar. barrier_id bar = b) (f_barriers F)"

definition definition_of :: "facts \<Rightarrow> string \<Rightarrow> CallBarrierDefinition option" where
  "definition_of F b = find_row (\<lambda>d. cd_barrier_id d = b) (f_definitions F)"

definition completions_of :: "facts \<Rightarrow> string \<Rightarrow> CallPartCompletion list" where
  "completions_of F b = sort_key cc_part_ordinal (filter (\<lambda>c. cc_barrier_id c = b) (f_completions F))"

definition reduction_of :: "facts \<Rightarrow> string \<Rightarrow> CallReduction option" where
  "reduction_of F b = find_row (\<lambda>r. cr_barrier_id r = b) (f_reductions F)"

definition barrier_row :: "'p barrier_codec \<Rightarrow> Barrier \<Rightarrow> 'p Row" where
  "barrier_row cx = mk_row cx (dump_barrier cx) barrier_columns"

definition versioned_row :: "'p barrier_codec \<Rightarrow> int \<Rightarrow> BarrierState \<Rightarrow> 'p Row" where
  "versioned_row cx version = mk_row cx (dump_state cx) (\<lambda>v. (''state_version'', Integer version) # state_columns v)"

definition state_row_of :: "'p barrier_codec \<Rightarrow> facts \<Rightarrow> Barrier \<Rightarrow> 'p Row" where
  "state_row_of cx F bar =
     (let ms = members_of F (barrier_id bar) in versioned_row cx (int (length ms)) (state_of bar ms))"

definition member_row :: "'p barrier_codec \<Rightarrow> string \<times> BarrierMember \<Rightarrow> 'p Row" where
  "member_row cx p = mk_row cx (dump_member cx) (\<lambda>m. (''barrier_id'', Text (fst p)) # member_columns m) (snd p)"

definition definition_row :: "'p barrier_codec \<Rightarrow> CallBarrierDefinition \<Rightarrow> 'p Row" where
  "definition_row cx = mk_row cx (dump_definition cx) definition_columns"

definition completion_row :: "'p barrier_codec \<Rightarrow> CallPartCompletion \<Rightarrow> 'p Row" where
  "completion_row cx = mk_row cx (dump_completion cx) completion_columns"

definition reduction_row :: "'p barrier_codec \<Rightarrow> CallReduction \<Rightarrow> 'p Row" where
  "reduction_row cx = mk_row cx (dump_reduction cx) reduction_columns"

definition rows_of :: "'p barrier_codec \<Rightarrow> facts \<Rightarrow> 'p BarrierDb" where
  "rows_of cx F =
     \<lparr>barrier_definitions = map (barrier_row cx) (f_barriers F),
      barrier_states = map (state_row_of cx F) (f_barriers F),
      barrier_members = map (member_row cx) (f_members F),
      call_barrier_definitions = map (definition_row cx) (f_definitions F),
      call_part_completions = map (completion_row cx) (f_completions F),
      call_reductions = map (reduction_row cx) (f_reductions F)\<rparr>"

text \<open>When a stored reduction is backed by the stored completions and the closed barrier.\<close>

definition reduction_backed :: "facts \<Rightarrow> CallReduction \<Rightarrow> CallBarrierDefinition \<Rightarrow> Barrier \<Rightarrow> bool" where
  "reduction_backed F r d bar \<longleftrightarrow>
     (let b = cr_barrier_id r; cs = completions_of F b; ms = members_of F b in
      definition_of F b = Some d \<and> barrier_of F b = Some bar
      \<and> map cc_part_ordinal cs = [0..<cd_part_count d]
      \<and> (\<forall>c \<in> set cs. cc_status c = Inference_SUCCEEDED)
      \<and> length ms = cd_part_count d \<and> acceptable bar ms
      \<and> reduction_header_matches d r
      \<and> cr_ordered_completion_ids r = map cc_completion_id cs
      \<and> cr_ordered_part_semantic_sha256s r = map cc_part_semantic_sha256 cs
      \<and> map Some (cr_ordered_normalized_output_sha256s r) = map cc_normalized_output_sha256 cs
      \<and> map Some (cr_ordered_selection_decision_logical_keys r) = map cc_selection_decision_logical_key cs)"

definition barriers_ok :: "'p barrier_codec \<Rightarrow> facts \<Rightarrow> bool" where
  "barriers_ok cx F \<longleftrightarrow> distinct (map barrier_id (f_barriers F)) \<and> distinct (map logical_key (f_barriers F))
     \<and> (\<forall>bar \<in> set (f_barriers F). created bar \<and> dump_barrier cx bar \<noteq> None
          \<and> members_ok bar (members_of F (barrier_id bar)))
     \<and> (\<forall>p \<in> set (f_members F). barrier_of F (fst p) \<noteq> None \<and> dump_member cx (snd p) \<noteq> None)"

definition definitions_ok :: "'p barrier_codec \<Rightarrow> facts \<Rightarrow> bool" where
  "definitions_ok cx F \<longleftrightarrow> distinct (map cd_barrier_id (f_definitions F))
     \<and> (\<forall>d \<in> set (f_definitions F). validate_expected_members d = Inr () \<and> dump_definition cx d \<noteq> None
          \<and> (\<exists>bar. barrier_of F (cd_barrier_id d) = Some bar \<and> validate_call_definition_binding bar d = Inr ()))"

definition completions_ok :: "'p barrier_codec \<Rightarrow> facts \<Rightarrow> bool" where
  "completions_ok cx F \<longleftrightarrow> distinct (map (\<lambda>c. (cc_barrier_id c, cc_part_ordinal c)) (f_completions F))
     \<and> distinct (map cc_completion_id (f_completions F))
     \<and> (\<forall>c \<in> set (f_completions F). dump_completion cx c \<noteq> None
          \<and> validate_terminal_shape_and_identity (codec_hash cx) c = Inr ()
          \<and> (\<exists>d. definition_of F (cc_barrier_id c) = Some d \<and> validate_completion_binding d c = Inr ()))"

definition reductions_ok :: "'p barrier_codec \<Rightarrow> facts \<Rightarrow> bool" where
  "reductions_ok cx F \<longleftrightarrow> distinct (map cr_barrier_id (f_reductions F))
     \<and> (\<forall>r \<in> set (f_reductions F). dump_reduction cx r \<noteq> None \<and> (\<exists>d bar. reduction_backed F r d bar))"

definition facts_ok :: "'p barrier_codec \<Rightarrow> facts \<Rightarrow> bool" where
  "facts_ok cx F \<longleftrightarrow> barriers_ok cx F \<and> definitions_ok cx F \<and> completions_ok cx F \<and> reductions_ok cx F"

definition no_facts :: facts where
  "no_facts = \<lparr>f_barriers = [], f_members = [], f_definitions = [], f_completions = [], f_reductions = []\<rparr>"

lemma no_facts_ok: "facts_ok cx no_facts"
  by (simp add: no_facts_def facts_ok_def barriers_ok_def definitions_ok_def completions_ok_def reductions_ok_def)

lemma rows_of_no_facts: "rows_of cx no_facts = barrier_db_init"
  by (simp add: no_facts_def rows_of_def barrier_db_init_def)

section \<open>Reading rows back\<close>

lemmas column_defs = barrier_columns_def state_columns_def member_columns_def definition_columns_def
  completion_columns_def reduction_columns_def

lemma select_rows [simp]:
  "where_eq (by_barrier b) (barrier_row cx bar) \<longleftrightarrow> barrier_id bar = b"
  "where_eq (by_barrier b) (versioned_row cx n stt) \<longleftrightarrow> state_barrier_id stt = b"
  "where_eq (by_barrier b) (member_row cx p) \<longleftrightarrow> fst p = b"
  "where_eq (by_barrier b) (definition_row cx d) \<longleftrightarrow> cd_barrier_id d = b"
  "where_eq (by_barrier b) (completion_row cx c) \<longleftrightarrow> cc_barrier_id c = b"
  "where_eq (by_barrier b) (reduction_row cx r) \<longleftrightarrow> cr_barrier_id r = b"
  by (auto simp: where_eq_def barrier_row_def versioned_row_def member_row_def definition_row_def
    completion_row_def reduction_row_def column_defs)

lemma state_row_id [simp]: "where_eq (by_barrier b) (state_row_of cx F bar) \<longleftrightarrow> barrier_id bar = b"
  by (simp add: state_row_of_def Let_def state_of_def)

lemma fetch_rows:
  "fetchone (by_barrier b) (barrier_definitions (rows_of cx F)) = map_option (barrier_row cx) (barrier_of F b)"
  "fetchone (by_barrier b) (barrier_states (rows_of cx F)) = map_option (state_row_of cx F) (barrier_of F b)"
  "fetchall (by_barrier b) (barrier_members (rows_of cx F)) = map (member_row cx) (filter (\<lambda>p. fst p = b) (f_members F))"
  "fetchone (by_barrier b) (call_barrier_definitions (rows_of cx F)) = map_option (definition_row cx) (definition_of F b)"
  "fetchall (by_barrier b) (call_part_completions (rows_of cx F)) =
     map (completion_row cx) (filter (\<lambda>c. cc_barrier_id c = b) (f_completions F))"
  "fetchone (by_barrier b) (call_reductions (rows_of cx F)) = map_option (reduction_row cx) (reduction_of F b)"
  by (simp_all add: fetchone_def fetchall_def rows_of_def find_row_map filter_map_rows barrier_of_def
    definition_of_def reduction_of_def)

lemma row_fields [simp]:
  "text_of ''work_item_id'' (member_row cx p) = member_work_item_id (snd p)"
  "int_of ''part_ordinal'' (completion_row cx c) = int (cc_part_ordinal c)"
  by (simp_all add: text_of_def int_of_def member_row_def completion_row_def column_defs)

lemma read_definition_row:
  "codec_ok cx \<Longrightarrow> dump_definition cx d \<noteq> None \<Longrightarrow> call_definition_from_row cx (definition_row cx d) = Inr d"
  unfolding call_definition_from_row_def definition_row_def
  by (rule model_from_mk) (auto simp: codec_ok_def where_eq_def column_defs)

lemma read_completion_row:
  "codec_ok cx \<Longrightarrow> dump_completion cx c \<noteq> None \<Longrightarrow> completion_from_row cx (completion_row cx c) = Inr c"
  unfolding completion_from_row_def completion_row_def
  by (rule model_from_mk) (auto simp: codec_ok_def where_eq_def column_defs)

lemma read_reduction_row:
  "codec_ok cx \<Longrightarrow> dump_reduction cx r \<noteq> None \<Longrightarrow> reduction_from_row cx (reduction_row cx r) = Inr r"
  unfolding reduction_from_row_def reduction_row_def
  by (rule model_from_mk) (auto simp: codec_ok_def where_eq_def column_defs)

lemma read_member_row:
  "codec_ok cx \<Longrightarrow> dump_member cx (snd p) \<noteq> None \<Longrightarrow> member_from_row cx (member_row cx p) = Inr (snd p)"
  unfolding member_from_row_def member_row_def
  by (rule model_from_mk) (auto simp: codec_ok_def where_eq_def column_defs)

lemma validate_barrier_definition_iff:
  "opaque_uuid (barrier_id bar) \<Longrightarrow> validate_barrier_definition bar = Inr () \<longleftrightarrow> created bar"
  by (auto simp: validate_barrier_definition_def created_def not_less split: sum.splits if_splits)

lemma read_barrier_row:
  assumes "codec_ok cx" and "dump_barrier cx bar \<noteq> None" and "created bar"
  shows "barrier_from_row cx (barrier_row cx bar) = Inr bar"
proof -
  have "model_from_row cx (dump_barrier cx) (load_barrier cx) barrier_columns (barrier_row cx bar) = Inr bar"
    unfolding barrier_row_def
    by (rule model_from_mk) (use assms in \<open>auto simp: codec_ok_def where_eq_def column_defs\<close>)
  moreover have "validate_barrier_definition bar = Inr ()"
    using validate_barrier_definition_iff assms(3) by (simp add: created_def)
  ultimately show ?thesis by (simp add: barrier_from_row_def)
qed

lemma read_state_row:
  assumes "codec_ok cx" and "dump_state cx stt \<noteq> None"
  shows "state_from_row cx (versioned_row cx n stt) = Inr (stt, n)"
proof -
  have "model_from_row cx (dump_state cx) (load_state cx) state_columns (versioned_row cx n stt) = Inr stt"
    unfolding versioned_row_def
    by (rule model_from_mk) (use assms in \<open>auto simp: codec_ok_def where_eq_def column_defs\<close>)
  then show ?thesis by (simp add: state_from_row_def versioned_row_def)
qed

lemma derive_state_of:
  assumes "length ms \<le> expected_member_count bar"
  shows "derive_state bar ms = Inr (state_of bar ms)"
  using assms by (auto simp: derive_state_def Let_def state_of_def status_of_def failures_def acceptable_def
    terminal_failure_def list_ex_iff conj_commute)


section \<open>What the reads return\<close>

lemma facts_okD:
  assumes "facts_ok cx F" and "barrier_of F b = Some bar"
  shows "bar \<in> set (f_barriers F)" "barrier_id bar = b" "created bar" "dump_barrier cx bar \<noteq> None"
    "members_ok bar (members_of F b)"
proof -
  show bar: "bar \<in> set (f_barriers F)" "barrier_id bar = b"
    using find_row_Some [OF assms(2) [unfolded barrier_of_def]] by simp_all
  then show "created bar" "dump_barrier cx bar \<noteq> None" "members_ok bar (members_of F b)"
    using assms(1) by (auto simp: facts_ok_def barriers_ok_def)
qed

lemma definition_ofD:
  assumes "facts_ok cx F" and "definition_of F b = Some d"
  shows "d \<in> set (f_definitions F)" "cd_barrier_id d = b" "dump_definition cx d \<noteq> None"
    "validate_expected_members d = Inr ()"
    "\<exists>bar. barrier_of F b = Some bar \<and> validate_call_definition_binding bar d = Inr ()"
proof -
  show d: "d \<in> set (f_definitions F)" "cd_barrier_id d = b"
    using find_row_Some [OF assms(2) [unfolded definition_of_def]] by simp_all
  then show "dump_definition cx d \<noteq> None" "validate_expected_members d = Inr ()"
    "\<exists>bar. barrier_of F b = Some bar \<and> validate_call_definition_binding bar d = Inr ()"
    using assms(1) by (auto simp: facts_ok_def definitions_ok_def)
qed

lemma completionD:
  assumes "facts_ok cx F" and "c \<in> set (f_completions F)"
  shows "dump_completion cx c \<noteq> None" "validate_terminal_shape_and_identity (codec_hash cx) c = Inr ()"
    "\<exists>d. definition_of F (cc_barrier_id c) = Some d \<and> validate_completion_binding d c = Inr ()"
  using assms by (auto simp: facts_ok_def completions_ok_def)

lemma set_completions_of: "c \<in> set (completions_of F b) \<longleftrightarrow> c \<in> set (f_completions F) \<and> cc_barrier_id c = b"
  by (auto simp: completions_of_def)

lemma sort_key_int: "sort_key (\<lambda>x. int (f x)) xs = sort_key f xs"
proof -
  have "insort_key (\<lambda>x. int (f x)) x ys = insort_key f x ys" for x ys by (induction ys) auto
  then show ?thesis by (induction xs) auto
qed

lemma load_rows:
  assumes cx: "codec_ok cx" and F: "facts_ok cx F" and b: "barrier_of F b = Some bar"
  shows "load_generic_barrier cx (rows_of cx F) b =
    Inr (bar, state_of bar (members_of F b), sort_key member_work_item_id (members_of F b), int (length (members_of F b)))"
proof -
  note d = facts_okD [OF F b]
  let ?ms = "members_of F b" and ?ps = "filter (\<lambda>p. fst p = b) (f_members F)"
  have enc: "dump_state cx (state_of bar ?ms) \<noteq> None" using cx d(4,5) by (auto simp: codec_ok_def)
  have mrows: "sort_key (text_of ''work_item_id'') (map (member_row cx) ?ps) =
      map (member_row cx) (sort_key (\<lambda>p. member_work_item_id (snd p)) ?ps)"
    by (simp add: sort_key_map)
  have "traverse (member_from_row cx) (map (member_row cx) (sort_key (\<lambda>p. member_work_item_id (snd p)) ?ps)) =
      Inr (map snd (sort_key (\<lambda>p. member_work_item_id (snd p)) ?ps))"
    by (rule traverse_map) (use F in \<open>auto intro!: read_member_row [OF cx] simp: facts_ok_def barriers_ok_def\<close>)
  also have "map snd (sort_key (\<lambda>p. member_work_item_id (snd p)) ?ps) = sort_key member_work_item_id ?ms"
    by (simp add: members_of_def sort_key_map)
  finally have read: "traverse (member_from_row cx)
      (sort_key (text_of ''work_item_id'') (fetchall (by_barrier b) (barrier_members (rows_of cx F)))) =
      Inr (sort_key member_work_item_id ?ms)"
    by (simp add: fetch_rows mrows)
  have st: "state_from_row cx (state_row_of cx F bar) = Inr (state_of bar ?ms, int (length ?ms))"
    using read_state_row [OF cx enc] d(2) by (simp add: state_row_of_def Let_def)
  have le: "length ?ms \<le> expected_member_count bar" using d(5) by (simp add: members_ok_def)
  have "state_of bar (sort_key member_work_item_id ?ms) = state_of bar ?ms"
    by (rule state_of_perm) simp
  then have der: "derive_state bar (sort_key member_work_item_id ?ms) = Inr (state_of bar ?ms)"
    using derive_state_of [of "sort_key member_work_item_id ?ms" bar] le by simp
  show ?thesis
    unfolding load_generic_barrier_def fetch_rows(1,2) b
    using read st der le read_barrier_row [OF cx d(4,3)] by simp
qed

lemma load_unknown:
  "barrier_of F b = None \<Longrightarrow> load_generic_barrier cx (rows_of cx F) b = Inl (KeyError (''unknown barrier: '' @ b))"
  by (simp add: load_generic_barrier_def fetch_rows)

lemma require_call_definition_rows:
  assumes cx: "codec_ok cx" and F: "facts_ok cx F"
  shows "require_call_definition cx (rows_of cx F) b = Inr d \<longleftrightarrow> definition_of F b = Some d"
proof (cases "definition_of F b")
  case None
  then show ?thesis by (simp add: require_call_definition_def fetch_rows)
next
  case (Some d')
  note d' = definition_ofD [OF F Some]
  obtain bar where bar: "barrier_of F b = Some bar" "validate_call_definition_binding bar d' = Inr ()"
    using d'(5) by blast
  note k = facts_okD [OF F bar(1)]
  show ?thesis
    using Some bar read_definition_row [OF cx d'(3)] read_barrier_row [OF cx k(4,3)]
    by (simp add: require_call_definition_def fetch_rows)
qed

lemma require_call_definition_unknown:
  "definition_of F b = None \<Longrightarrow>
    require_call_definition cx (rows_of cx F) b = Inl (KeyError (''unknown inference call barrier: '' @ b))"
  by (simp add: require_call_definition_def fetch_rows)

lemma traverse_unit: "(\<And>x. x \<in> set xs \<Longrightarrow> f x = Inr ()) \<Longrightarrow> \<exists>ys. traverse f xs = Inr ys"
  by (induction xs) auto

lemma call_completions_rows:
  assumes cx: "codec_ok cx" and F: "facts_ok cx F" and d: "definition_of F b = Some d"
  shows "call_completions cx (rows_of cx F) d = Inr (completions_of F b)"
proof -
  note d' = definition_ofD [OF F d]
  let ?cs = "filter (\<lambda>c. cc_barrier_id c = b) (f_completions F)"
  have "sort_key (int_of ''part_ordinal'') (map (completion_row cx) ?cs) = map (completion_row cx) (completions_of F b)"
    by (simp add: sort_key_map sort_key_int completions_of_def)
  moreover have "traverse (completion_from_row cx) (map (completion_row cx) (completions_of F b)) =
      Inr (map (\<lambda>c. c) (completions_of F b))"
    by (rule traverse_map) (auto simp: set_completions_of intro!: read_completion_row [OF cx] completionD(1) [OF F])
  moreover have "validate_completion_binding d c = Inr ()" if "c \<in> set (completions_of F b)" for c
    using that completionD(3) [OF F, of c] d by (auto simp: set_completions_of)
  then obtain us where "traverse (validate_completion_binding d) (completions_of F b) = Inr us"
    using traverse_unit [of "completions_of F b"] by blast
  ultimately show ?thesis by (simp add: call_completions_def fetch_rows d'(2))
qed

text \<open>A reduction passes the check exactly when the facts back it.\<close>

lemma validate_reduction_rows:
  assumes cx: "codec_ok cx" and F: "facts_ok cx F" and d: "definition_of F (cr_barrier_id r) = Some d"
    and b: "barrier_of F (cr_barrier_id r) = Some bar"
  shows "validate_reduction cx (rows_of cx F) d (completions_of F (cr_barrier_id r)) r = Inr () \<longleftrightarrow> reduction_backed F r d bar"
proof -
  let ?b = "cr_barrier_id r"
  let ?cs = "completions_of F ?b" and ?ms = "members_of F ?b"
  note d' = definition_ofD [OF F d]
  note k = facts_okD [OF F b]
  obtain bar' where bar': "barrier_of F ?b = Some bar'" "validate_call_definition_binding bar' d = Inr ()"
    using d'(5) by blast
  then have exp: "expected_member_count bar = cd_part_count d"
    using b by (auto simp: validate_call_definition_binding_def split: if_splits)
  have pos: "cd_part_count d \<noteq> 0" using d'(4) by (auto simp: validate_expected_members_def split: if_splits)
  have closed: "state_status (state_of bar ?ms) = ''CLOSED'' \<and> length ?ms = cd_part_count d \<longleftrightarrow>
      length ?ms = cd_part_count d \<and> acceptable bar ?ms"
    using exp pos by (auto simp: state_of_def status_of_def)
  have some: "(\<forall>x \<in> set xs. f x \<noteq> None)" if "map Some ys = map f xs" for ys :: "string list" and f and xs :: "CallPartCompletion list"
  proof -
    have "set (map f xs) \<subseteq> range Some" unfolding that [symmetric] by auto
    then show ?thesis by auto
  qed
  have len: "length ?cs = cd_part_count d" if "map cc_part_ordinal ?cs = [0..<cd_part_count d]"
    using that by (metis length_map length_upt diff_zero)
  show ?thesis
    unfolding validate_reduction_def reduction_backed_def Let_def d'(2) load_rows [OF cx F b]
    using d b closed len some [of "cr_ordered_normalized_output_sha256s r" cc_normalized_output_sha256 ?cs]
      some [of "cr_ordered_selection_decision_logical_keys r" cc_selection_decision_logical_key ?cs]
    by (auto simp: list_ex_iff) force+
qed


section \<open>What the writes do\<close>

lemma strict_model_Inr [result_simps]: "strict_model r v = Inr w \<longleftrightarrow> r = Inr () \<and> w = v"
  by (cases r) (auto simp: strict_model_def)

lemma insert_row_Inr:
  "insert_row us row (map g xs) = Inr t \<longleftrightarrow>
    (\<forall>x \<in> set xs. \<forall>u \<in> set us. map (map_of (row_columns (g x))) u \<noteq> map (map_of (row_columns row)) u)
    \<and> t = map g xs @ [row]"
  by (auto simp: insert_row_def list_ex_iff)

lemma members_of_upd [simp]: "members_of (F\<lparr>f_barriers := bs\<rparr>) b = members_of F b"
  "members_of (F\<lparr>f_definitions := ds\<rparr>) b = members_of F b"
  "members_of (F\<lparr>f_completions := cs\<rparr>) b = members_of F b"
  "members_of (F\<lparr>f_reductions := rs\<rparr>) b = members_of F b"
  "members_of (F\<lparr>f_members := f_members F @ [(b', m)]\<rparr>) b = members_of F b @ (if b' = b then [m] else [])"
  by (simp_all add: members_of_def)

lemma unknown_no_members:
  assumes "facts_ok cx F" and "barrier_of F b = None"
  shows "members_of F b = []"
  using assms by (auto simp: members_of_def facts_ok_def barriers_ok_def filter_empty_conv)

lemma add_barrier_rows:
  assumes "facts_ok cx F" and "barrier_of F (barrier_id bar) = None"
  shows "rows_of cx (F\<lparr>f_barriers := f_barriers F @ [bar]\<rparr>) =
    (rows_of cx F)\<lparr>barrier_definitions := map (barrier_row cx) (f_barriers F) @ [barrier_row cx bar],
      barrier_states := map (state_row_of cx F) (f_barriers F) @ [versioned_row cx 0 (state_of bar [])]\<rparr>"
  using unknown_no_members [OF assms] by (simp add: rows_of_def state_row_of_def)

lemma state_row_Inr:
  "state_row cx n stt = Inr row \<longleftrightarrow> dump_state cx stt \<noteq> None \<and> row = versioned_row cx n stt"
  by (auto simp: state_row_def versioned_row_def model_row_Inr)

lemma save_barrier_rows:
  assumes cx: "codec_ok cx" and F: "facts_ok cx F"
  shows "sql_save_barrier cx (rows_of cx F) bar = Inr db' \<longleftrightarrow> created bar
    \<and> (case barrier_of F (barrier_id bar) of
         Some bar' \<Rightarrow> bar' = bar \<and> db' = rows_of cx F
       | None \<Rightarrow> dump_barrier cx bar \<noteq> None \<and> logical_key bar \<notin> logical_key ` set (f_barriers F)
           \<and> db' = rows_of cx (F\<lparr>f_barriers := f_barriers F @ [bar]\<rparr>))"
proof (cases "created bar")
  case False
  then show ?thesis
    using validate_barrier_definition_iff [of bar]
    by (auto simp: sql_save_barrier_def barrier_fields_def result_simps split: if_splits)
next
  case True
  then have ok: "strict_model (barrier_fields bar) bar = Inr bar" "validate_barrier_definition bar = Inr ()"
    using validate_barrier_definition_iff [of bar] by (auto simp: created_def barrier_fields_def strict_model_def)
  show ?thesis
  proof (cases "barrier_of F (barrier_id bar)")
    case (Some bar')
    note k = facts_okD [OF F Some]
    show ?thesis
      using True ok Some read_barrier_row [OF cx k(4,3)] load_rows [OF cx F Some]
      by (auto simp: sql_save_barrier_def fetch_rows)
  next
    case None
    then have ids: "\<forall>x \<in> set (f_barriers F). barrier_id x \<noteq> barrier_id bar" by (simp add: barrier_of_def)
    have ins: "insert_row [[''barrier_id''], [''logical_key'']] (barrier_row cx bar) (barrier_definitions (rows_of cx F)) = Inr t
        \<longleftrightarrow> logical_key bar \<notin> logical_key ` set (f_barriers F) \<and> t = map (barrier_row cx) (f_barriers F) @ [barrier_row cx bar]" for t
      using ids by (auto simp: rows_of_def insert_row_Inr barrier_row_def column_defs image_iff)
    have ins2: "insert_row [[''barrier_id'']] (versioned_row cx 0 (state_of bar [])) (barrier_states (rows_of cx F)) =
        Inr (map (state_row_of cx F) (f_barriers F) @ [versioned_row cx 0 (state_of bar [])])"
      using ids by (simp add: rows_of_def insert_row_Inr state_row_of_def versioned_row_def column_defs Let_def state_of_def)
    have enc: "dump_state cx (state_of bar []) \<noteq> None" if "dump_barrier cx bar \<noteq> None"
      using cx that by (auto simp: codec_ok_def members_ok_def)
    have der: "derive_state bar [] = Inr (state_of bar [])" by (simp add: derive_state_of)
    show ?thesis
      using True ok None add_barrier_rows [OF F None] ins ins2 enc der
      by (auto simp: sql_save_barrier_def fetch_rows result_simps model_row_Inr state_row_Inr simp flip: barrier_row_def)
  qed
qed


text \<open>What the durable storage asks of a new member of an inference-call barrier.\<close>

definition call_member_ok :: "facts \<Rightarrow> string \<Rightarrow> BarrierMember \<Rightarrow> bool" where
  "call_member_ok F b m \<longleftrightarrow>
     (case definition_of F b of
        None \<Rightarrow> True
      | Some d \<Rightarrow> member_work_item_id m \<in> set (cd_expected_part_logical_keys d)
          \<and> (case find_row (\<lambda>c. cc_barrier_id c = b \<and> cc_part_logical_key c = member_work_item_id m) (f_completions F) of
               None \<Rightarrow> False | Some c \<Rightarrow> member_outcome m = call_stage_status (cc_status c)))"

lemma fetch_completion_row:
  "fetchone [(''barrier_id'', Text b), (''part_logical_key'', Text w)] (call_part_completions (rows_of cx F)) =
    map_option (completion_row cx) (find_row (\<lambda>c. cc_barrier_id c = b \<and> cc_part_logical_key c = w) (f_completions F))"
  by (simp add: fetchone_def rows_of_def find_row_map where_eq_def completion_row_def column_defs)

lemma validate_call_member_rows:
  assumes cx: "codec_ok cx" and F: "facts_ok cx F"
  shows "validate_call_member cx (rows_of cx F) b m = Inr () \<longleftrightarrow> call_member_ok F b m"
proof (cases "definition_of F b")
  case None
  then show ?thesis by (simp add: validate_call_member_def call_member_ok_def fetch_rows)
next
  case (Some d)
  note d = definition_ofD [OF F Some]
  let ?find = "find_row (\<lambda>c. cc_barrier_id c = b \<and> cc_part_logical_key c = member_work_item_id m) (f_completions F)"
  show ?thesis
  proof (cases ?find)
    case None
    then show ?thesis
      using Some read_definition_row [OF cx d(3)]
      by (simp add: validate_call_member_def call_member_ok_def fetch_rows fetch_completion_row del: find_row_None)
  next
    case (Some c)
    note c = find_row_Some [OF Some]
    have "validate_completion_binding d c = Inr ()"
      using completionD(3) [OF F c(1)] c(2) \<open>definition_of F b = Some d\<close> by auto
    then show ?thesis
      using Some \<open>definition_of F b = Some d\<close> read_definition_row [OF cx d(3)]
        read_completion_row [OF cx completionD(1) [OF F c(1)]]
      by (simp add: validate_call_member_def call_member_ok_def fetch_rows fetch_completion_row)
  qed
qed

lemma member_update_rows:
  fixes m :: BarrierMember
  assumes F: "facts_ok cx F" and b: "barrier_of F b = Some bar"
  defines "q \<equiv> where_eq [(''barrier_id'', Text b), (''state_version'', Integer (int (length (members_of F b))))]"
  defines "F' \<equiv> F\<lparr>f_members := f_members F @ [(b, m)]\<rparr>"
  shows "rowcount q (barrier_states (rows_of cx F)) = 1"
    and "update_where q (\<lambda>_. versioned_row cx (int (length (members_of F b)) + 1) (state_of bar (members_of F b @ [m])))
      (barrier_states (rows_of cx F)) = barrier_states (rows_of cx F')"
proof -
  note k = facts_okD [OF F b]
  have dist: "distinct (map barrier_id (f_barriers F))" using F by (simp add: facts_ok_def barriers_ok_def)
  have q: "q (state_row_of cx F bar') \<longleftrightarrow> barrier_id bar' = b" if "bar' \<in> set (f_barriers F)" for bar'
    by (auto simp: q_def where_eq_def state_row_of_def versioned_row_def column_defs Let_def state_of_def)
  have same: "bar' = bar" if "bar' \<in> set (f_barriers F)" "barrier_id bar' = b" for bar'
    using that k(1,2) dist by (metis (no_types) distinct_map inj_onD)
  have "filter q (map (state_row_of cx F) (f_barriers F)) = map (state_row_of cx F) (filter (\<lambda>x. barrier_id x = b) (f_barriers F))"
    unfolding filter_map_rows by (rule arg_cong [where f = "map (state_row_of cx F)"], rule filter_cong [OF refl]) (rule q)
  then have "rowcount q (barrier_states (rows_of cx F)) = rowcount (\<lambda>x. barrier_id x = b) (f_barriers F)"
    by (simp add: rowcount_def rows_of_def)
  also have "\<dots> = 1" by (rule rowcount_key [OF dist k(1)]) (use k(2) in simp_all)
  finally show "rowcount q (barrier_states (rows_of cx F)) = 1" .
  show "update_where q (\<lambda>_. versioned_row cx (int (length (members_of F b)) + 1) (state_of bar (members_of F b @ [m])))
      (barrier_states (rows_of cx F)) = barrier_states (rows_of cx F')"
  proof -
    have "(if q (state_row_of cx F bar') then versioned_row cx (int (length (members_of F b)) + 1) (state_of bar (members_of F b @ [m]))
        else state_row_of cx F bar') = state_row_of cx F' bar'" if "bar' \<in> set (f_barriers F)" for bar'
      using q [OF that] same [OF that] by (auto simp: state_row_of_def F'_def Let_def add.commute)
    then show ?thesis by (simp add: rows_of_def F'_def update_where_def)
  qed
qed

lemma find_sorted_members:
  assumes "distinct (map member_work_item_id ms)"
  shows "find (\<lambda>x. member_work_item_id x = w) (sort_key member_work_item_id ms) = Some m
      \<longleftrightarrow> m \<in> set ms \<and> member_work_item_id m = w"
    and "find (\<lambda>x. member_work_item_id x = w) (sort_key member_work_item_id ms) = None
      \<longleftrightarrow> w \<notin> member_work_item_id ` set ms"
proof -
  have d: "distinct (map member_work_item_id (sort_key member_work_item_id ms))"
    using assms by (simp add: distinct_map)
  show "find (\<lambda>x. member_work_item_id x = w) (sort_key member_work_item_id ms) = Some m
      \<longleftrightarrow> m \<in> set ms \<and> member_work_item_id m = w"
    using find_row_key [OF d, of m] find_row_Some [of "\<lambda>x. member_work_item_id x = w" "sort_key member_work_item_id ms" m]
    by (auto simp: find_row_def)
  show "find (\<lambda>x. member_work_item_id x = w) (sort_key member_work_item_id ms) = None
      \<longleftrightarrow> w \<notin> member_work_item_id ` set ms"
    by (auto simp: find_None_iff)
qed

lemma insert_member_row:
  assumes "member_work_item_id m \<notin> member_work_item_id ` set (members_of F b)"
  shows "insert_row [[''barrier_id'', ''work_item_id'']] (member_row cx (b, m)) (barrier_members (rows_of cx F)) =
    Inr (map (member_row cx) (f_members F @ [(b, m)]))"
proof -
  have "\<not> (fst p = b \<and> member_work_item_id (snd p) = member_work_item_id m)" if "p \<in> set (f_members F)" for p
  proof
    assume a: "fst p = b \<and> member_work_item_id (snd p) = member_work_item_id m"
    have "p \<in> set (filter (\<lambda>p. fst p = b) (f_members F))" using that a by simp
    then have "snd p \<in> set (members_of F b)" unfolding members_of_def set_map by (rule imageI)
    with a assms show False by (metis imageI)
  qed
  then show ?thesis by (auto simp: rows_of_def insert_row_Inr member_row_def column_defs)
qed


definition add_fact :: "facts \<Rightarrow> string \<Rightarrow> BarrierMember \<Rightarrow> facts" where
  "add_fact F b m = F\<lparr>f_members := f_members F @ [(b, m)]\<rparr>"

lemma member_eta: "\<lparr>member_work_item_id = member_work_item_id m, member_criticality = member_criticality m,
    member_outcome = member_outcome m\<rparr> = m"
  by (cases m) simp

lemma insert_member_rows:
  assumes cx: "codec_ok cx" and F: "facts_ok cx F" and b: "barrier_of F b = Some bar"
    and v: "member_valid m" and new: "member_work_item_id m \<notin> member_work_item_id ` set (members_of F b)"
    and room: "length (members_of F b) < expected_member_count bar"
  shows "sql_insert_member cx (rows_of cx F) b bar (sort_key member_work_item_id (members_of F b))
      (int (length (members_of F b))) m = Inr db' \<longleftrightarrow>
    call_member_ok F b m \<and> dump_member cx m \<noteq> None \<and> db' = rows_of cx (add_fact F b m)"
proof -
  note k = facts_okD [OF F b]
  let ?ms = "members_of F b"
  have mrow: "model_row cx (dump_member cx) (\<lambda>m. (''barrier_id'', Text b) # member_columns m) m = Inr row \<longleftrightarrow>
      dump_member cx m \<noteq> None \<and> row = member_row cx (b, m)" for row
    by (simp add: model_row_Inr member_row_def)
  have st: "state_of bar (sort_key member_work_item_id ?ms @ [m]) = state_of bar (?ms @ [m])"
    by (rule state_of_perm) simp
  have der: "derive_state bar (sort_key member_work_item_id ?ms @ [m]) = Inr (state_of bar (?ms @ [m]))"
    using derive_state_of [of "sort_key member_work_item_id ?ms @ [m]" bar] room st by simp
  have "members_ok bar (?ms @ [m])" using k(5) new room v by (auto simp: members_ok_def)
  then have enc: "dump_state cx (state_of bar (?ms @ [m])) \<noteq> None" using cx k(4) unfolding codec_ok_def by blast
  note upd = member_update_rows(1) [OF F b] member_update_rows(2) [OF F b, of m]
  have rows: "rows_of cx (add_fact F b m) = (rows_of cx F)\<lparr>barrier_members := map (member_row cx) (f_members F @ [(b, m)]),
      barrier_states := barrier_states (rows_of cx (F\<lparr>f_members := f_members F @ [(b, m)]\<rparr>))\<rparr>"
    by (simp add: rows_of_def add_fact_def)
  show ?thesis
    unfolding sql_insert_member_def Let_def rbind_Inr_iff mrow
    using validate_call_member_rows [OF cx F, of b m] insert_member_row [OF new, of cx] der enc upd
    by (auto simp: state_row_Inr rows)
qed

lemma add_member_rows:
  assumes cx: "codec_ok cx" and F: "facts_ok cx F" and b: "barrier_of F b = Some bar"
  shows "sql_add_member cx (rows_of cx F) b (member_work_item_id m) (member_outcome m) (member_criticality m) = Inr db' \<longleftrightarrow>
    (\<exists>ms'. accepts bar (members_of F b) m = Some ms'
      \<and> (if m \<in> set (members_of F b) then db' = rows_of cx F
         else call_member_ok F b m \<and> dump_member cx m \<noteq> None \<and> db' = rows_of cx (add_fact F b m)))"
proof (cases "member_valid m")
  case False
  then show ?thesis
    by (auto simp: sql_add_member_def accepts_def member_valid_def nonempty_string_def rbind_Inr_iff split: if_splits)
next
  case True
  note k = facts_okD [OF F b]
  let ?ms = "members_of F b"
  have dist: "distinct (map member_work_item_id ?ms)" using k(5) by (simp add: members_ok_def)
  note found = find_sorted_members [OF dist, of "member_work_item_id m"]
  have id: "nonempty_string b ''barrier_id'' = Inr b" "nonempty_string (member_work_item_id m) ''work_item_id'' = Inr (member_work_item_id m)"
    using opaque_uuid_not_blank k(2,3) True by (auto simp: nonempty_string_def created_def member_valid_def)
  have oc: "(member_outcome m \<notin> SUCCESS_OUTCOMES \<and> member_outcome m \<notin> FAILURE_OUTCOMES) = False"
    using True by (auto simp: member_valid_def)
  have unf: "sql_add_member cx (rows_of cx F) b (member_work_item_id m) (member_outcome m) (member_criticality m) =
      (case find (\<lambda>x. member_work_item_id x = member_work_item_id m) (sort_key member_work_item_id ?ms) of
         Some existing \<Rightarrow> if existing = m then Inr (rows_of cx F)
           else Inl (ValueError (''conflicting replay for barrier member: '' @ member_work_item_id m))
       | None \<Rightarrow> if length ?ms \<ge> expected_member_count bar
           then Inl (ValueError (''barrier member capacity exceeded: '' @ b))
           else sql_insert_member cx (rows_of cx F) b bar (sort_key member_work_item_id ?ms) (int (length ?ms)) m)"
    unfolding sql_add_member_def id rbind.simps oc if_False
    by (simp add: fetch_rows(1) b load_rows [OF cx F b] member_eta)
  show ?thesis
  proof (cases "find (\<lambda>x. member_work_item_id x = member_work_item_id m) (sort_key member_work_item_id ?ms)")
    case (Some x)
    then have "x \<in> set ?ms" "member_work_item_id x = member_work_item_id m" using found(1) [of x] by simp_all
    moreover from this have "member_work_item_id m \<in> member_work_item_id ` set ?ms" by (metis imageI)
    moreover have "x = m" if "m \<in> set ?ms" using Some found(1) [of m] that by simp
    ultimately show ?thesis using True Some by (auto simp: unf accepts_def)
  next
    case None
    then have new: "member_work_item_id m \<notin> member_work_item_id ` set ?ms" using found(2) by simp
    then have "m \<notin> set ?ms" by auto
    then show ?thesis
      using True new None insert_member_rows [OF cx F b True new]
      by (auto simp: unf accepts_def not_le)
  qed
qed


lemma append_definition_rows:
  assumes cx: "codec_ok cx" and F: "facts_ok cx F"
  shows "sql_append_definition cx (rows_of cx F) d = Inr (db', d') \<longleftrightarrow>
    validate_expected_members d = Inr () \<and> d' = d
    \<and> (\<exists>bar. barrier_of F (cd_barrier_id d) = Some bar \<and> validate_call_definition_binding bar d = Inr ())
    \<and> (case definition_of F (cd_barrier_id d) of
         Some stored \<Rightarrow> stored = d \<and> db' = rows_of cx F
       | None \<Rightarrow> dump_definition cx d \<noteq> None \<and> db' = rows_of cx (F\<lparr>f_definitions := f_definitions F @ [d]\<rparr>))"
proof (cases "barrier_of F (cd_barrier_id d)")
  case None
  then show ?thesis by (auto simp: sql_append_definition_def rbind_Inr_iff strict_model_Inr fetch_rows Let_def)
next
  case (Some bar)
  note k = facts_okD [OF F Some]
  show ?thesis
  proof (cases "definition_of F (cd_barrier_id d)")
    case None
    then have ids: "\<forall>x \<in> set (f_definitions F). cd_barrier_id x \<noteq> cd_barrier_id d" by (simp add: definition_of_def)
    have ins: "insert_row [[''barrier_id'']] (definition_row cx d) (call_barrier_definitions (rows_of cx F)) =
        Inr (map (definition_row cx) (f_definitions F @ [d]))"
      using ids by (simp add: rows_of_def insert_row_Inr definition_row_def column_defs)
    have rows: "rows_of cx (F\<lparr>f_definitions := f_definitions F @ [d]\<rparr>) =
        (rows_of cx F)\<lparr>call_barrier_definitions := map (definition_row cx) (f_definitions F @ [d])\<rparr>"
      by (simp add: rows_of_def state_row_of_def)
    show ?thesis
      using read_barrier_row [OF cx k(4,3)] ins rows Some None
      by (auto simp: sql_append_definition_def strict_model_Inr Let_def fetch_rows rbind_Inr_iff model_row_Inr
        simp flip: definition_row_def)
  next
    case (Some stored)
    note s = definition_ofD [OF F Some]
    show ?thesis
      using read_barrier_row [OF cx k(4,3)] read_definition_row [OF cx s(3)] Some
        \<open>barrier_of F (cd_barrier_id d) = Some bar\<close>
      by (auto simp: sql_append_definition_def strict_model_Inr Let_def fetch_rows rbind_Inr_iff)
  qed
qed

definition completion_at :: "facts \<Rightarrow> string \<Rightarrow> nat \<Rightarrow> CallPartCompletion option" where
  "completion_at F b n = find_row (\<lambda>c. cc_barrier_id c = b \<and> cc_part_ordinal c = n) (f_completions F)"

lemma fetch_completion_keys:
  "fetchone [(''barrier_id'', Text b), (''part_ordinal'', Integer (int n))] (call_part_completions (rows_of cx F)) =
    map_option (completion_row cx) (completion_at F b n)"
  "fetchone [(''barrier_id'', Text b), (''part_semantic_sha256'', Text x)] (call_part_completions (rows_of cx F)) = None \<longleftrightarrow>
    (\<forall>c \<in> set (f_completions F). \<not> (cc_barrier_id c = b \<and> cc_part_semantic_sha256 c = x))"
  "fetchone [(''completion_id'', Text x)] (call_part_completions (rows_of cx F)) = None \<longleftrightarrow>
    (\<forall>c \<in> set (f_completions F). cc_completion_id c \<noteq> x)"
  by (simp_all add: fetchone_def rows_of_def find_row_map where_eq_def completion_row_def column_defs completion_at_def)

lemma append_completion_rows:
  assumes cx: "codec_ok cx" and F: "facts_ok cx F"
  shows "sql_append_completion cx (rows_of cx F) c = Inr (db', c') \<longleftrightarrow>
    validate_terminal_shape_and_identity (codec_hash cx) c = Inr () \<and> c' = c
    \<and> (\<exists>d. definition_of F (cc_barrier_id c) = Some d \<and> validate_completion_binding d c = Inr ())
    \<and> (case completion_at F (cc_barrier_id c) (cc_part_ordinal c) of
         Some stored \<Rightarrow> stored = c \<and> db' = rows_of cx F
       | None \<Rightarrow> dump_completion cx c \<noteq> None
           \<and> (\<forall>x \<in> set (f_completions F). cc_completion_id x \<noteq> cc_completion_id c
                \<and> \<not> (cc_barrier_id x = cc_barrier_id c \<and> cc_part_semantic_sha256 x = cc_part_semantic_sha256 c))
           \<and> db' = rows_of cx (F\<lparr>f_completions := f_completions F @ [c]\<rparr>))"
proof (cases "completion_at F (cc_barrier_id c) (cc_part_ordinal c)")
  case (Some stored)
  then have "stored \<in> set (f_completions F)" using find_row_Some(1) by (fastforce simp: completion_at_def)
  note s = read_completion_row [OF cx completionD(1) [OF F this]]
  show ?thesis
    using s Some by (auto simp: sql_append_completion_def strict_model_Inr Let_def fetch_completion_keys
      require_call_definition_rows [OF cx F] rbind_Inr_iff)
next
  case None
  then have ids: "\<forall>x \<in> set (f_completions F). \<not> (cc_barrier_id x = cc_barrier_id c \<and> cc_part_ordinal x = cc_part_ordinal c)"
    by (simp add: completion_at_def)
  have ins: "insert_row [[''barrier_id'', ''part_ordinal''], [''barrier_id'', ''part_semantic_sha256''], [''completion_id'']]
      (completion_row cx c) (call_part_completions (rows_of cx F)) = Inr (map (completion_row cx) (f_completions F @ [c]))"
    if "\<forall>x \<in> set (f_completions F). cc_completion_id x \<noteq> cc_completion_id c
      \<and> \<not> (cc_barrier_id x = cc_barrier_id c \<and> cc_part_semantic_sha256 x = cc_part_semantic_sha256 c)"
    using ids that by (auto simp: rows_of_def insert_row_Inr completion_row_def column_defs)
  have rows: "rows_of cx (F\<lparr>f_completions := f_completions F @ [c]\<rparr>) =
      (rows_of cx F)\<lparr>call_part_completions := map (completion_row cx) (f_completions F @ [c])\<rparr>"
    by (simp add: rows_of_def state_row_of_def)
  show ?thesis
    using ins rows None by (auto simp: sql_append_completion_def strict_model_Inr Let_def fetch_completion_keys
      require_call_definition_rows [OF cx F] rbind_Inr_iff model_row_Inr simp flip: completion_row_def)
qed

lemma append_reduction_rows:
  assumes cx: "codec_ok cx" and F: "facts_ok cx F"
  shows "sql_append_reduction cx (rows_of cx F) r = Inr (db', r') \<longleftrightarrow>
    validate_reduction_identity (codec_hash cx) r = Inr () \<and> r' = r \<and> (\<exists>d bar. reduction_backed F r d bar)
    \<and> (case reduction_of F (cr_barrier_id r) of
         Some stored \<Rightarrow> stored = r \<and> db' = rows_of cx F
       | None \<Rightarrow> dump_reduction cx r \<noteq> None \<and> (\<forall>x \<in> set (f_reductions F). cr_reduction_id x \<noteq> cr_reduction_id r)
           \<and> db' = rows_of cx (F\<lparr>f_reductions := f_reductions F @ [r]\<rparr>))"
proof -
  let ?b = "cr_barrier_id r"
  have backed: "(\<exists>d cs. require_call_definition cx (rows_of cx F) ?b = Inr d \<and> call_completions cx (rows_of cx F) d = Inr cs
      \<and> validate_reduction cx (rows_of cx F) d cs r = Inr ()) \<longleftrightarrow> (\<exists>d bar. reduction_backed F r d bar)"
  proof -
    have "\<exists>bar. barrier_of F ?b = Some bar" if "definition_of F ?b = Some d" for d
      using definition_ofD(5) [OF F that] by blast
    then show ?thesis
      using call_completions_rows [OF cx F, of ?b] validate_reduction_rows [OF cx F]
      by (fastforce simp: require_call_definition_rows [OF cx F] reduction_backed_def Let_def)
  qed
  show ?thesis
  proof (cases "reduction_of F ?b")
    case (Some stored)
    then have "stored \<in> set (f_reductions F)" using find_row_Some(1) by (fastforce simp: reduction_of_def)
    then have "dump_reduction cx stored \<noteq> None" using F by (auto simp: facts_ok_def reductions_ok_def)
    note s = read_reduction_row [OF cx this]
    show ?thesis
      unfolding backed [symmetric]
      using s Some by (auto simp: sql_append_reduction_def strict_model_Inr Let_def fetch_rows rbind_Inr_iff)
  next
    case None
    then have ids: "\<forall>x \<in> set (f_reductions F). cr_barrier_id x \<noteq> ?b" by (simp add: reduction_of_def)
    have fid: "fetchone [(''reduction_id'', Text (cr_reduction_id r))] (call_reductions (rows_of cx F)) = None \<longleftrightarrow>
        (\<forall>x \<in> set (f_reductions F). cr_reduction_id x \<noteq> cr_reduction_id r)"
      by (simp add: fetchone_def rows_of_def find_row_map where_eq_def reduction_row_def column_defs)
    have ins: "insert_row [[''barrier_id''], [''reduction_id'']] (reduction_row cx r) (call_reductions (rows_of cx F)) =
        Inr (map (reduction_row cx) (f_reductions F @ [r]))" if "\<forall>x \<in> set (f_reductions F). cr_reduction_id x \<noteq> cr_reduction_id r"
      using ids that by (auto simp: rows_of_def insert_row_Inr reduction_row_def column_defs)
    have rows: "rows_of cx (F\<lparr>f_reductions := f_reductions F @ [r]\<rparr>) =
        (rows_of cx F)\<lparr>call_reductions := map (reduction_row cx) (f_reductions F @ [r])\<rparr>"
      by (simp add: rows_of_def state_row_of_def)
    show ?thesis
      unfolding backed [symmetric]
      using ins rows None fid by (auto simp: sql_append_reduction_def strict_model_Inr Let_def fetch_rows rbind_Inr_iff
        model_row_Inr simp flip: reduction_row_def)
  qed
qed


section \<open>The facts stay well-formed\<close>

lemma barrier_of_append: "barrier_of (F\<lparr>f_barriers := f_barriers F @ [bar]\<rparr>) b =
    (case barrier_of F b of None \<Rightarrow> if barrier_id bar = b then Some bar else None | Some x \<Rightarrow> Some x)"
  by (cases "barrier_of F b") (simp_all add: barrier_of_def find_row_append find_row_single del: find_row_None)

lemma definition_of_append: "definition_of (F\<lparr>f_definitions := f_definitions F @ [d]\<rparr>) b =
    (case definition_of F b of None \<Rightarrow> if cd_barrier_id d = b then Some d else None | Some x \<Rightarrow> Some x)"
  by (cases "definition_of F b") (simp_all add: definition_of_def find_row_append find_row_single del: find_row_None)

lemma facts_views [simp]:
  "barrier_of (F\<lparr>f_definitions := ds\<rparr>) b = barrier_of F b" "barrier_of (F\<lparr>f_completions := cs\<rparr>) b = barrier_of F b"
  "barrier_of (F\<lparr>f_reductions := rs\<rparr>) b = barrier_of F b" "barrier_of (F\<lparr>f_members := ms\<rparr>) b = barrier_of F b"
  "definition_of (F\<lparr>f_barriers := bs\<rparr>) b = definition_of F b" "definition_of (F\<lparr>f_completions := cs\<rparr>) b = definition_of F b"
  "definition_of (F\<lparr>f_reductions := rs\<rparr>) b = definition_of F b" "definition_of (F\<lparr>f_members := ms\<rparr>) b = definition_of F b"
  "completions_of (F\<lparr>f_barriers := bs\<rparr>) b = completions_of F b" "completions_of (F\<lparr>f_definitions := ds\<rparr>) b = completions_of F b"
  "completions_of (F\<lparr>f_reductions := rs\<rparr>) b = completions_of F b" "completions_of (F\<lparr>f_members := ms\<rparr>) b = completions_of F b"
  by (simp_all add: barrier_of_def definition_of_def completions_of_def)

lemma reduction_backed_keep:
  assumes "reduction_backed F r d bar"
    and "barrier_of F' (cr_barrier_id r) = barrier_of F (cr_barrier_id r)"
    and "definition_of F' (cr_barrier_id r) = definition_of F (cr_barrier_id r)"
    and "completions_of F' (cr_barrier_id r) = completions_of F (cr_barrier_id r)"
    and "members_of F' (cr_barrier_id r) = members_of F (cr_barrier_id r)"
  shows "reduction_backed F' r d bar"
  using assms by (simp add: reduction_backed_def Let_def)

lemma add_barrier_ok:
  assumes F: "facts_ok cx F" and cr: "created bar" and enc: "dump_barrier cx bar \<noteq> None"
    and new: "barrier_of F (barrier_id bar) = None" and key: "logical_key bar \<notin> logical_key ` set (f_barriers F)"
  shows "facts_ok cx (F\<lparr>f_barriers := f_barriers F @ [bar]\<rparr>)"
proof -
  let ?F = "F\<lparr>f_barriers := f_barriers F @ [bar]\<rparr>"
  have keep: "barrier_of ?F b = Some x" if "barrier_of F b = Some x" for b x
    using that by (simp add: barrier_of_append)
  have id: "barrier_id bar \<notin> barrier_id ` set (f_barriers F)" using new by (auto simp: barrier_of_def)
  have "barriers_ok cx ?F"
    using F cr enc key id keep unknown_no_members [OF F new] 
    by (fastforce simp: facts_ok_def barriers_ok_def members_ok_def)
  moreover have "definitions_ok cx ?F" using F keep by (fastforce simp: facts_ok_def definitions_ok_def)
  moreover have "completions_ok cx ?F" using F by (simp add: facts_ok_def completions_ok_def)
  moreover have "reductions_ok cx ?F"
  proof -
    have "reduction_backed ?F r d bar'" if "reduction_backed F r d bar'" for r d bar'
    proof (rule reduction_backed_keep [OF that])
      show "barrier_of ?F (cr_barrier_id r) = barrier_of F (cr_barrier_id r)"
        using that keep by (simp add: reduction_backed_def Let_def)
    qed simp_all
    with F show ?thesis by (fastforce simp: facts_ok_def reductions_ok_def)
  qed
  ultimately show ?thesis by (simp add: facts_ok_def)
qed

lemma backed_full:
  assumes F: "facts_ok cx F" and r: "reduction_backed F r d bar"
  shows "length (members_of F (cr_barrier_id r)) = expected_member_count bar"
    and "n < cd_part_count d \<Longrightarrow> completion_at F (cr_barrier_id r) n \<noteq> None"
proof -
  let ?b = "cr_barrier_id r"
  have d: "definition_of F ?b = Some d" and b: "barrier_of F ?b = Some bar"
    and ms: "length (members_of F ?b) = cd_part_count d"
    and ord: "map cc_part_ordinal (completions_of F ?b) = [0..<cd_part_count d]"
    using r by (simp_all add: reduction_backed_def Let_def)
  have "expected_member_count bar = cd_part_count d"
    using definition_ofD(5) [OF F d] b by (auto simp: validate_call_definition_binding_def split: if_splits)
  with ms show "length (members_of F ?b) = expected_member_count bar" by simp
  assume "n < cd_part_count d"
  then have "n \<in> set (map cc_part_ordinal (completions_of F ?b))" unfolding ord by simp
  then show "completion_at F ?b n \<noteq> None" by (auto simp: completion_at_def set_completions_of)
qed

lemma add_member_ok:
  assumes F: "facts_ok cx F" and b: "barrier_of F b = Some bar" and enc: "dump_member cx m \<noteq> None"
    and acc: "accepts bar (members_of F b) m = Some ms'" and new: "m \<notin> set (members_of F b)"
  shows "facts_ok cx (add_fact F b m)" and "ms' = members_of F b @ [m]"
proof -
  let ?F = "add_fact F b m"
  note k = facts_okD [OF F b]
  show ms': "ms' = members_of F b @ [m]" using acc new by (auto simp: accepts_def split: if_splits)
  have room: "length (members_of F b) < expected_member_count bar"
    using acc new by (auto simp: accepts_def split: if_splits)
  have dist: "distinct (map barrier_id (f_barriers F))" using F by (simp add: facts_ok_def barriers_ok_def)
  have mok: "members_ok bar' (members_of ?F (barrier_id bar'))" if "bar' \<in> set (f_barriers F)" for bar'
  proof (cases "barrier_id bar' = b")
    case True
    then have "bar' = bar" using that k(1,2) dist by (metis (no_types) distinct_map inj_onD)
    then show ?thesis using accepts_ok(1) [OF k(5) acc] ms' True by (simp add: add_fact_def)
  next
    case False
    then show ?thesis using F that by (simp add: add_fact_def facts_ok_def barriers_ok_def)
  qed
  have "barriers_ok cx ?F"
    using F mok b enc unfolding facts_ok_def barriers_ok_def by (auto simp: add_fact_def)
  moreover have "definitions_ok cx ?F" "completions_ok cx ?F"
    using F by (simp_all add: facts_ok_def definitions_ok_def completions_ok_def add_fact_def)
  moreover have "reductions_ok cx ?F"
  proof -
    have "reduction_backed ?F r d bar'" if r: "reduction_backed F r d bar'" for r d bar'
    proof (rule reduction_backed_keep [OF r])
      have "b \<noteq> cr_barrier_id r"
        using backed_full(1) [OF F r] room b r by (auto simp: reduction_backed_def Let_def)
      then show "members_of ?F (cr_barrier_id r) = members_of F (cr_barrier_id r)" by (simp add: add_fact_def)
    qed (simp_all add: add_fact_def)
    with F show ?thesis by (fastforce simp: facts_ok_def reductions_ok_def add_fact_def)
  qed
  ultimately show "facts_ok cx ?F" by (simp add: facts_ok_def)
qed

lemma add_definition_ok:
  assumes F: "facts_ok cx F" and v: "validate_expected_members d = Inr ()" "dump_definition cx d \<noteq> None"
    and bar: "barrier_of F (cd_barrier_id d) = Some bar" "validate_call_definition_binding bar d = Inr ()"
    and new: "definition_of F (cd_barrier_id d) = None"
  shows "facts_ok cx (F\<lparr>f_definitions := f_definitions F @ [d]\<rparr>)"
proof -
  let ?F = "F\<lparr>f_definitions := f_definitions F @ [d]\<rparr>"
  have keep: "definition_of ?F b = Some x" if "definition_of F b = Some x" for b x
    using that by (simp add: definition_of_append)
  have id: "cd_barrier_id d \<notin> cd_barrier_id ` set (f_definitions F)" using new by (auto simp: definition_of_def)
  have "barriers_ok cx ?F" using F by (simp add: facts_ok_def barriers_ok_def)
  moreover have "definitions_ok cx ?F" using F v bar id by (auto simp: facts_ok_def definitions_ok_def)
  moreover have "completions_ok cx ?F" using F keep by (fastforce simp: facts_ok_def completions_ok_def)
  moreover have "reductions_ok cx ?F"
  proof -
    have "reduction_backed ?F r d' bar'" if "reduction_backed F r d' bar'" for r d' bar'
    proof (rule reduction_backed_keep [OF that])
      show "definition_of ?F (cr_barrier_id r) = definition_of F (cr_barrier_id r)"
        using that keep by (simp add: reduction_backed_def Let_def)
    qed simp_all
    with F show ?thesis by (fastforce simp: facts_ok_def reductions_ok_def)
  qed
  ultimately show ?thesis by (simp add: facts_ok_def)
qed

lemma add_completion_ok:
  assumes F: "facts_ok cx F" and v: "validate_terminal_shape_and_identity (codec_hash cx) c = Inr ()" "dump_completion cx c \<noteq> None"
    and d: "definition_of F (cc_barrier_id c) = Some d" "validate_completion_binding d c = Inr ()"
    and new: "completion_at F (cc_barrier_id c) (cc_part_ordinal c) = None"
    and ids: "\<forall>x \<in> set (f_completions F). cc_completion_id x \<noteq> cc_completion_id c"
  shows "facts_ok cx (F\<lparr>f_completions := f_completions F @ [c]\<rparr>)"
proof -
  let ?F = "F\<lparr>f_completions := f_completions F @ [c]\<rparr>"
  have at: "\<forall>x \<in> set (f_completions F). (cc_barrier_id x, cc_part_ordinal x) \<noteq> (cc_barrier_id c, cc_part_ordinal c)"
    using new by (auto simp: completion_at_def)
  have "completions_ok cx ?F" using F v d at ids by (auto simp: facts_ok_def completions_ok_def)
  moreover have "barriers_ok cx ?F" "definitions_ok cx ?F" using F by (simp_all add: facts_ok_def barriers_ok_def definitions_ok_def)
  moreover have "reductions_ok cx ?F"
  proof -
    have "reduction_backed ?F r d' bar'" if r: "reduction_backed F r d' bar'" for r d' bar'
    proof (rule reduction_backed_keep [OF r])
      have "cc_part_ordinal c < cd_part_count d"
        using d(2) by (auto simp: validate_completion_binding_def completion_matches_def split: if_splits)
      then have "cc_barrier_id c \<noteq> cr_barrier_id r"
        using backed_full(2) [OF F r, of "cc_part_ordinal c"] new d(1) r by (auto simp: reduction_backed_def Let_def)
      then show "completions_of ?F (cr_barrier_id r) = completions_of F (cr_barrier_id r)" by (simp add: completions_of_def)
    qed simp_all
    with F show ?thesis by (fastforce simp: facts_ok_def reductions_ok_def)
  qed
  ultimately show ?thesis by (simp add: facts_ok_def)
qed

lemma add_reduction_ok:
  assumes F: "facts_ok cx F" and v: "dump_reduction cx r \<noteq> None" "reduction_backed F r d bar"
    and new: "reduction_of F (cr_barrier_id r) = None"
  shows "facts_ok cx (F\<lparr>f_reductions := f_reductions F @ [r]\<rparr>)"
proof -
  let ?F = "F\<lparr>f_reductions := f_reductions F @ [r]\<rparr>"
  have same: "reduction_backed ?F = reduction_backed F"
    by (intro ext) (simp add: reduction_backed_def Let_def)
  have id: "cr_barrier_id r \<notin> cr_barrier_id ` set (f_reductions F)" using new by (auto simp: reduction_of_def)
  have "reductions_ok cx ?F" unfolding reductions_ok_def same
    using F v id by (auto simp: facts_ok_def reductions_ok_def)
  moreover have "barriers_ok cx ?F" "definitions_ok cx ?F" "completions_ok cx ?F"
    using F by (simp_all add: facts_ok_def barriers_ok_def definitions_ok_def completions_ok_def)
  ultimately show ?thesis by (simp add: facts_ok_def)
qed

end
