(* ===== verification/Durable_Barrier.thy ===== *)
theory Durable_Barrier
  imports Sqlite_Barrier_Laws
begin

text \<open>
  The durable barrier storage as the second implementation of the storage interface: it
  answers every call as the in-memory storage does, never loses or alters what it accepted,
  and holds a reduction only when the completions and the closed barrier back it. Then the
  coordinator of inference calls on top of it.
\<close>

section \<open>The storage interface\<close>

definition sql_inv :: "'p barrier_codec \<Rightarrow> 'p BarrierDb \<Rightarrow> bool" where
  "sql_inv cx db \<longleftrightarrow> codec_ok cx \<and> (\<exists>F. facts_ok cx F \<and> db = rows_of cx F)"

definition sql_view :: "'p barrier_codec \<Rightarrow> 'p BarrierDb \<Rightarrow> string \<rightharpoonup> Barrier \<times> BarrierMember list" where
  "sql_view cx db b =
     (case (load_generic_barrier cx db b, traverse (member_from_row cx) (fetchall (by_barrier b) (barrier_members db))) of
        (Inr (bar, _), Inr ms) \<Rightarrow> Some (bar, ms)
      | _ \<Rightarrow> None)"

definition sql_admits :: "'p barrier_codec \<Rightarrow> 'p BarrierDb \<Rightarrow> string \<Rightarrow> BarrierMember \<Rightarrow> bool" where
  "sql_admits cx db b m \<longleftrightarrow> validate_call_member cx db b m = Inr () \<and> dump_member cx m \<noteq> None"

lemma sql_view_rows:
  assumes "codec_ok cx" and "facts_ok cx F"
  shows "sql_view cx (rows_of cx F) b = map_option (\<lambda>bar. (bar, members_of F b)) (barrier_of F b)"
proof -
  have "traverse (member_from_row cx) (map (member_row cx) (filter (\<lambda>p. fst p = b) (f_members F))) =
      Inr (map snd (filter (\<lambda>p. fst p = b) (f_members F)))"
    by (rule traverse_map) (use assms in \<open>auto intro!: read_member_row simp: facts_ok_def barriers_ok_def\<close>)
  then show ?thesis
    using load_rows [OF assms, of b] load_unknown [of F b cx]
    by (cases "barrier_of F b") (simp_all add: sql_view_def fetch_rows members_of_def)
qed

lemma sql_admits_rows:
  assumes "codec_ok cx" and "facts_ok cx F"
  shows "sql_admits cx (rows_of cx F) b m \<longleftrightarrow> call_member_ok F b m \<and> dump_member cx m \<noteq> None"
  using validate_call_member_rows [OF assms] by (simp add: sql_admits_def)

lemma call_member_ok_upd [simp]:
  "call_member_ok (F\<lparr>f_members := ms\<rparr>) b m = call_member_ok F b m" "call_member_ok (add_fact F b' m') b m = call_member_ok F b m"
  "call_member_ok (F\<lparr>f_barriers := bs\<rparr>) b m = call_member_ok F b m"
  by (simp_all add: call_member_ok_def add_fact_def cong: option.case_cong)

lemma barrier_of_mem:
  assumes "facts_ok cx F" and "bar \<in> set (f_barriers F)"
  shows "barrier_of F (barrier_id bar) = Some bar"
  using assms find_row_key [of barrier_id "f_barriers F" bar] by (simp add: barrier_of_def facts_ok_def barriers_ok_def)

lemma nonempty_id: "created bar \<Longrightarrow> nonempty_string (barrier_id bar) label = Inr (barrier_id bar)"
  using opaque_uuid_not_blank by (simp add: nonempty_string_def created_def)

lemma sql_reads:
  assumes cx: "codec_ok cx" and F: "facts_ok cx F" and b: "barrier_of F b = Some bar"
  shows "sql_get_barrier cx (rows_of cx F) b = Inr (Some bar)"
    and "sql_get_state cx (rows_of cx F) b = Inr (Some (state_of bar (members_of F b)))"
    and "sql_get_members cx (rows_of cx F) b = Inr (sort_key member_work_item_id (members_of F b))"
proof -
  note k = facts_okD [OF F b]
  have id: "nonempty_string b l = Inr b" for l using nonempty_id [OF k(3)] k(2) by simp
  show "sql_get_barrier cx (rows_of cx F) b = Inr (Some bar)"
    by (simp add: sql_get_barrier_def id fetch_rows b read_barrier_row [OF cx k(4,3)])
  show "sql_get_state cx (rows_of cx F) b = Inr (Some (state_of bar (members_of F b)))"
    by (simp add: sql_get_state_def id fetch_rows b load_rows [OF cx F b])
  show "sql_get_members cx (rows_of cx F) b = Inr (sort_key member_work_item_id (members_of F b))"
    by (simp add: sql_get_members_def id fetch_rows b load_rows [OF cx F b])
qed

lemma sql_unknown:
  assumes "barrier_of F b = None"
  shows "sql_get_barrier cx (rows_of cx F) b \<noteq> Inr (Some bar)" "sql_get_state cx (rows_of cx F) b \<noteq> Inr (Some stt)"
    "\<exists>e. sql_add_member cx (rows_of cx F) b w oc crit = Inl e"
proof -
  show "sql_get_barrier cx (rows_of cx F) b \<noteq> Inr (Some bar)" "sql_get_state cx (rows_of cx F) b \<noteq> Inr (Some stt)"
    using assms by (auto simp: sql_get_barrier_def sql_get_state_def nonempty_string_def fetch_rows rbind_Inr_iff)
  show "\<exists>e. sql_add_member cx (rows_of cx F) b w oc crit = Inl e"
    using assms by (simp add: sql_add_member_def nonempty_string_def fetch_rows Let_def)
qed

lemma sql_add_accepted:
  assumes cx: "codec_ok cx" and F: "facts_ok cx F" and b: "barrier_of F b = Some bar"
    and acc: "accepts bar (members_of F b) m = Some ms'" and adm: "m \<in> set (members_of F b) \<or> sql_admits cx (rows_of cx F) b m"
  obtains F' where "sql_add_member cx (rows_of cx F) b (member_work_item_id m) (member_outcome m) (member_criticality m) = Inr (rows_of cx F')"
    "facts_ok cx F'" "sql_view cx (rows_of cx F') = (sql_view cx (rows_of cx F))(b \<mapsto> (bar, ms'))"
    "sql_admits cx (rows_of cx F') = sql_admits cx (rows_of cx F)"
proof (cases "m \<in> set (members_of F b)")
  case True
  then have "ms' = members_of F b" using acc by (auto simp: accepts_def split: if_splits)
  then have "sql_view cx (rows_of cx F) = (sql_view cx (rows_of cx F))(b \<mapsto> (bar, ms'))"
    using sql_view_rows [OF cx F, of b] b by (simp add: fun_upd_idem)
  with True show thesis using F acc by (intro that [of F]) (auto simp: add_member_rows [OF cx F b])
next
  case False
  then have ok: "call_member_ok F b m" "dump_member cx m \<noteq> None"
    using adm sql_admits_rows [OF cx F] by simp_all
  let ?F = "add_fact F b m"
  note F' = add_member_ok [OF F b ok(2) acc False]
  show thesis
  proof (rule that [of ?F])
    show "sql_add_member cx (rows_of cx F) b (member_work_item_id m) (member_outcome m) (member_criticality m) = Inr (rows_of cx ?F)"
      using False ok acc by (simp add: add_member_rows [OF cx F b])
    show "facts_ok cx ?F" by (rule F'(1))
    show "sql_view cx (rows_of cx ?F) = (sql_view cx (rows_of cx F))(b \<mapsto> (bar, ms'))"
      using sql_view_rows [OF cx F] sql_view_rows [OF cx F'(1)] b F'(2) by (auto simp: fun_eq_iff add_fact_def)
    show "sql_admits cx (rows_of cx ?F) = sql_admits cx (rows_of cx F)"
      by (intro ext) (simp add: sql_admits_rows [OF cx F] sql_admits_rows [OF cx F'(1)])
  qed
qed

lemma sql_save_new:
  assumes cx: "codec_ok cx" and F: "facts_ok cx F" and new: "barrier_of F (barrier_id bar) = None"
    and sv: "sql_save_barrier cx (rows_of cx F) bar = Inr db'"
  shows "sql_inv cx db' \<and> sql_view cx db' = (sql_view cx (rows_of cx F))(barrier_id bar \<mapsto> (bar, []))
    \<and> sql_admits cx db' = sql_admits cx (rows_of cx F)"
proof -
  let ?F = "F\<lparr>f_barriers := f_barriers F @ [bar]\<rparr>"
  have c: "created bar" "dump_barrier cx bar \<noteq> None" "logical_key bar \<notin> logical_key ` set (f_barriers F)" "db' = rows_of cx ?F"
    using save_barrier_rows [OF cx F, of bar db'] sv new by simp_all
  note F' = add_barrier_ok [OF F c(1,2) new c(3)]
  have "sql_view cx (rows_of cx ?F) = (sql_view cx (rows_of cx F))(barrier_id bar \<mapsto> (bar, []))"
    using sql_view_rows [OF cx F] sql_view_rows [OF cx F'] unknown_no_members [OF F new] new
    by (auto simp: fun_eq_iff barrier_of_append split: option.splits)
  moreover have "sql_admits cx (rows_of cx ?F) = sql_admits cx (rows_of cx F)"
    by (intro ext) (simp add: sql_admits_rows [OF cx F] sql_admits_rows [OF cx F'])
  ultimately show ?thesis using cx F' c(4) by (auto simp: sql_inv_def)
qed

interpretation sql: barrier_storage "sqlite_storage cx" "sql_inv cx" "sql_view cx" "sql_admits cx"
    "\<lambda>bar. dump_barrier cx bar \<noteq> None" for cx :: "'p barrier_codec"
proof
  fix s :: "'p BarrierDb" and b bar ms
  assume inv: "sql_inv cx s" and v: "sql_view cx s b = Some (bar, ms)"
  obtain F where cx: "codec_ok cx" and F: "facts_ok cx F" and s: "s = rows_of cx F" using inv by (auto simp: sql_inv_def)
  have b: "barrier_of F b = Some bar" "ms = members_of F b" using v sql_view_rows [OF cx F, of b] s by auto
  note k = facts_okD [OF F b(1)]
  show "created bar \<and> barrier_id bar = b \<and> members_ok bar ms" using k b(2) by simp
  show "get_barrier (sqlite_storage cx) s b = Inr (Some bar)"
    "get_state (sqlite_storage cx) s b = Inr (Some (state_of bar ms))"
    "\<exists>ms'. get_members (sqlite_storage cx) s b = Inr ms' \<and> mset ms' = mset ms"
    using sql_reads [OF cx F b(1)] b(2) s by (simp_all add: sqlite_storage_def)
  fix m
  show "\<exists>s'. add_member (sqlite_storage cx) s b (member_work_item_id m) (member_outcome m) (member_criticality m) = Inr s'
      \<and> sql_inv cx s' \<and> sql_view cx s' = (sql_view cx s)(b \<mapsto> (bar, ms')) \<and> sql_admits cx s' = sql_admits cx s"
    if a: "accepts bar ms m = Some ms'" "m \<in> set ms \<or> sql_admits cx s b m" for ms'
  proof (rule sql_add_accepted [OF cx F b(1), of m ms'])
    show "accepts bar (members_of F b) m = Some ms'" using a(1) b(2) by simp
    show "m \<in> set (members_of F b) \<or> sql_admits cx (rows_of cx F) b m" using a(2) b(2) s by simp
  qed (use cx s in \<open>auto simp: sqlite_storage_def sql_inv_def\<close>)
  show "\<exists>e. add_member (sqlite_storage cx) s b (member_work_item_id m) (member_outcome m) (member_criticality m) = Inl e"
    if "accepts bar ms m = None \<or> m \<notin> set ms \<and> \<not> sql_admits cx s b m"
  proof -
    have "sql_add_member cx s b (member_work_item_id m) (member_outcome m) (member_criticality m) \<noteq> Inr db'" for db'
      using that sql_admits_rows [OF cx F, of b m] b(2) s by (auto simp: add_member_rows [OF cx F b(1)])
    then show ?thesis
      by (cases "sql_add_member cx s b (member_work_item_id m) (member_outcome m) (member_criticality m)")
        (auto simp: sqlite_storage_def)
  qed
next
  fix s :: "'p BarrierDb" and b
  assume inv: "sql_inv cx s" and v: "sql_view cx s b = None"
  obtain F where cx: "codec_ok cx" and F: "facts_ok cx F" and s: "s = rows_of cx F" using inv by (auto simp: sql_inv_def)
  have b: "barrier_of F b = None" using v sql_view_rows [OF cx F, of b] s by simp
  show "get_barrier (sqlite_storage cx) s b \<noteq> Inr (Some bar)" "get_state (sqlite_storage cx) s b \<noteq> Inr (Some stt)"
    "\<exists>e. add_member (sqlite_storage cx) s b (member_work_item_id m) (member_outcome m) (member_criticality m) = Inl e" for bar stt m
    using sql_unknown [OF b] s by (simp_all add: sqlite_storage_def)
next
  fix s :: "'p BarrierDb" and bar
  assume inv: "sql_inv cx s"
  obtain F where cx: "codec_ok cx" and F: "facts_ok cx F" and s: "s = rows_of cx F" using inv by (auto simp: sql_inv_def)
  note sv = save_barrier_rows [OF cx F, of bar]
  show "\<exists>s'. save_barrier (sqlite_storage cx) s bar = Inr s'"
    if cr: "created bar" and n: "sql_view cx s (barrier_id bar) = None" and f: "fresh_key (sql_view cx s) bar"
      and e: "dump_barrier cx bar \<noteq> None"
  proof -
    have "barrier_of F (barrier_id bar) = None" using n sql_view_rows [OF cx F] s by simp
    moreover have "logical_key x \<noteq> logical_key bar" if "x \<in> set (f_barriers F)" for x
      using f sql_view_rows [OF cx F, of "barrier_id x"] barrier_of_mem [OF F that] s unfolding fresh_key_def by fastforce
    then have "logical_key bar \<notin> logical_key ` set (f_barriers F)" by fastforce
    ultimately show ?thesis using sv cr e s by (simp add: sqlite_storage_def)
  qed
  show "sql_inv cx s' \<and> sql_view cx s' = (sql_view cx s)(barrier_id bar \<mapsto> (bar, [])) \<and> sql_admits cx s' = sql_admits cx s"
    if "created bar" "sql_view cx s (barrier_id bar) = None" "save_barrier (sqlite_storage cx) s bar = Inr s'" for s'
    using that sql_save_new [OF cx F, of bar s'] sql_view_rows [OF cx F, of "barrier_id bar"] s
    by (simp add: sqlite_storage_def)
  show "\<exists>s'. save_barrier (sqlite_storage cx) s bar = Inr s' \<and> sql_inv cx s' \<and> sql_view cx s' = sql_view cx s
      \<and> sql_admits cx s' = sql_admits cx s"
    if "sql_view cx s (barrier_id bar) = Some (bar, ms)" for ms
  proof -
    have b: "barrier_of F (barrier_id bar) = Some bar" using that sql_view_rows [OF cx F] s by auto
    show ?thesis using sv facts_okD(3) [OF F b] b inv s by (simp add: sqlite_storage_def)
  qed
  show "\<exists>e. save_barrier (sqlite_storage cx) s bar = Inl e"
    if "sql_view cx s (barrier_id bar) = Some (bar', ms)" "bar' \<noteq> bar" for bar' ms
  proof -
    have b: "barrier_of F (barrier_id bar) = Some bar'" using that sql_view_rows [OF cx F] s by auto
    have "sql_save_barrier cx s bar \<noteq> Inr db'" for db' using sv [of db'] b that(2) s by simp
    then show ?thesis by (cases "sql_save_barrier cx s bar") (auto simp: sqlite_storage_def)
  qed
qed


interpretation both: storage_pair "sqlite_storage cx" "sql_inv cx" "sql_view cx" "sql_admits cx" "\<lambda>bar. dump_barrier cx bar \<noteq> None"
    in_memory_storage mem_inv mem_view "\<lambda>_ _ _. True" "\<lambda>_. True" for cx :: "'p barrier_codec"
  by unfold_locales

lemma sql_init:
  assumes "codec_ok cx"
  shows "sql_inv cx barrier_db_init" "sql_view cx barrier_db_init b = None"
    "sql_admits cx barrier_db_init b m \<longleftrightarrow> dump_member cx m \<noteq> None"
proof -
  have none: "barrier_of no_facts b = None" "definition_of no_facts b = None"
    by (simp_all add: no_facts_def barrier_of_def definition_of_def)
  show "sql_inv cx barrier_db_init"
    unfolding sql_inv_def using assms no_facts_ok [of cx] rows_of_no_facts [of cx, symmetric] by blast
  show "sql_view cx barrier_db_init b = None" "sql_admits cx barrier_db_init b m \<longleftrightarrow> dump_member cx m \<noteq> None"
    using sql_view_rows [OF assms no_facts_ok, of b] sql_admits_rows [OF assms no_facts_ok, of b m] none
    unfolding rows_of_no_facts by (simp_all add: call_member_ok_def)
qed

text \<open>
  C35. The durable barrier storage and the in-memory one cannot be told apart. As long as the
  definitions and members of the calls can be encoded as canonical JSON, every sequence of
  create and submit calls on an empty SQLite database is answered exactly as on the in-memory
  storage (same definitions, same states, the same calls refused), and afterwards every
  barrier has the same state and the same aggregate in both.
\<close>

theorem durable_matches_memory:
  assumes "codec_ok cx"
    and "\<forall>c \<in> set calls. taken uuid5 (\<lambda>_ m. dump_member cx m \<noteq> None) (\<lambda>bar. dump_barrier cx bar \<noteq> None) c"
    and "db = barrier_run (sqlite_storage cx) uuid5 calls barrier_db_init"
    and "s = barrier_run in_memory_storage uuid5 calls in_memory_init"
  shows "barrier_answers (sqlite_storage cx) uuid5 calls barrier_db_init = barrier_answers in_memory_storage uuid5 calls in_memory_init
    \<and> (\<forall>b stt. get_state (sqlite_storage cx) db b = Inr (Some stt) \<longleftrightarrow> get_state in_memory_storage s b = Inr (Some stt))
    \<and> (\<forall>b agg. get_aggregate_status (sqlite_storage cx) db b = Inr agg \<longleftrightarrow> get_aggregate_status in_memory_storage s b = Inr agg)"
proof -
  note i = sql_init [OF assms(1)]
  have mv: "mem_view in_memory_init b = None" for b by (simp add: mem_view_def in_memory_init_def)
  have v: "sql_view cx barrier_db_init = mem_view in_memory_init" using i(2) mv by (simp add: fun_eq_iff)
  have t: "\<forall>c \<in> set calls. taken uuid5 (sql_admits cx barrier_db_init) (\<lambda>bar. dump_barrier cx bar \<noteq> None) c"
  proof
    fix c assume "c \<in> set calls"
    then have "taken uuid5 (\<lambda>_ m. dump_member cx m \<noteq> None) (\<lambda>bar. dump_barrier cx bar \<noteq> None) c" using assms(2) by blast
    then show "taken uuid5 (sql_admits cx barrier_db_init) (\<lambda>bar. dump_barrier cx bar \<noteq> None) c"
      using i(3) by (cases c) simp_all
  qed
  have t': "\<forall>c \<in> set calls. taken uuid5 ((\<lambda>_ _ _. True) in_memory_init) (\<lambda>_. True) c"
  proof
    fix c show "taken uuid5 ((\<lambda>_ _ _. True) in_memory_init) (\<lambda>_. True) c" by (cases c) (auto split: sum.splits)
  qed
  have ids: "ids_derived uuid5 (sql_view cx barrier_db_init)" using i(2) by (simp add: ids_derived_def)
  note run = both.agree_run [OF i(1) mem_inv_init v t t' ids]
  have inv: "sql_inv cx db" "mem_inv s" using sql.run_view(1) [OF i(1)] run_inv assms(3,4) by simp_all
  have "sql_view cx db = mem_view s" using run assms(3,4) by blast
  note q = both.agree_queries [OF inv this]
  show ?thesis using run q by blast
qed

text \<open>A codec to evaluate the storage with: the payload of a model is the model itself.\<close>

datatype payload = PBarrier Barrier | PState BarrierState | PMember BarrierMember | PDefinition CallBarrierDefinition
  | PCompletion CallPartCompletion | PReduction CallReduction

definition ex_hash :: hashing where
  "ex_hash = \<lparr>uuid5_of = ex_uuid5, semantic_sha256 = (\<lambda>_. Inr ''0'')\<rparr>"

definition ex_codec :: "payload barrier_codec" where
  "ex_codec = \<lparr>codec_hash = ex_hash, exact_bytes_sha256 = (\<lambda>_. ''0''),
     dump_barrier = (\<lambda>v. Some (PBarrier v)), load_barrier = (\<lambda>p. case p of PBarrier v \<Rightarrow> Some v | _ \<Rightarrow> None),
     dump_state = (\<lambda>v. Some (PState v)), load_state = (\<lambda>p. case p of PState v \<Rightarrow> Some v | _ \<Rightarrow> None),
     dump_member = (\<lambda>v. Some (PMember v)), load_member = (\<lambda>p. case p of PMember v \<Rightarrow> Some v | _ \<Rightarrow> None),
     dump_definition = (\<lambda>v. Some (PDefinition v)), load_definition = (\<lambda>p. case p of PDefinition v \<Rightarrow> Some v | _ \<Rightarrow> None),
     dump_completion = (\<lambda>v. Some (PCompletion v)), load_completion = (\<lambda>p. case p of PCompletion v \<Rightarrow> Some v | _ \<Rightarrow> None),
     dump_reduction = (\<lambda>v. Some (PReduction v)), load_reduction = (\<lambda>p. case p of PReduction v \<Rightarrow> Some v | _ \<Rightarrow> None)\<rparr>"

lemma ex_codec_ok: "codec_ok ex_codec"
  by (simp add: codec_ok_def ex_codec_def)

theorem durable_matches_memory_witness:
  "barrier_answers (sqlite_storage ex_codec) ex_uuid5 ex_calls barrier_db_init =
     barrier_answers in_memory_storage ex_uuid5 ex_calls in_memory_init
   \<and> length (barrier_answers in_memory_storage ex_uuid5 ex_calls in_memory_init) = 3"
proof -
  have t: "taken ex_uuid5 (\<lambda>_ m. dump_member ex_codec m \<noteq> None) (\<lambda>bar. dump_barrier ex_codec bar \<noteq> None) c" for c
    by (cases c) (auto simp: ex_codec_def split: sum.splits)
  have "length (barrier_answers in_memory_storage ex_uuid5 ex_calls in_memory_init) = 3" by (simp add: ex_calls_def)
  with durable_matches_memory [OF ex_codec_ok, of ex_calls ex_uuid5, OF _ refl refl] t show ?thesis by blast
qed

section \<open>Any sequence of storage calls\<close>

datatype durable_call =
    SaveBarrier Barrier
  | SaveState BarrierState
  | AddMember string BarrierMember
  | AppendDefinition CallBarrierDefinition
  | AppendCompletion CallPartCompletion
  | AppendReduction CallReduction

fun durable_step :: "'p barrier_codec \<Rightarrow> durable_call \<Rightarrow> 'p BarrierDb \<Rightarrow> 'p BarrierDb" where
  "durable_step cx (SaveBarrier bar) db = (case sql_save_barrier cx db bar of Inl _ \<Rightarrow> db | Inr db' \<Rightarrow> db')"
| "durable_step cx (SaveState stt) db = (case sql_save_state cx db stt of Inl _ \<Rightarrow> db | Inr db' \<Rightarrow> db')"
| "durable_step cx (AddMember b m) db =
     (case sql_add_member cx db b (member_work_item_id m) (member_outcome m) (member_criticality m) of
        Inl _ \<Rightarrow> db | Inr db' \<Rightarrow> db')"
| "durable_step cx (AppendDefinition d) db = (case sql_append_definition cx db d of Inl _ \<Rightarrow> db | Inr (db', _) \<Rightarrow> db')"
| "durable_step cx (AppendCompletion c) db = (case sql_append_completion cx db c of Inl _ \<Rightarrow> db | Inr (db', _) \<Rightarrow> db')"
| "durable_step cx (AppendReduction r) db = (case sql_append_reduction cx db r of Inl _ \<Rightarrow> db | Inr (db', _) \<Rightarrow> db')"

definition durable_run :: "'p barrier_codec \<Rightarrow> durable_call list \<Rightarrow> 'p BarrierDb \<Rightarrow> 'p BarrierDb" where
  "durable_run cx calls db = fold (durable_step cx) calls db"

text \<open>Every list of facts only grows at its end.\<close>

definition extends :: "facts \<Rightarrow> facts \<Rightarrow> bool" where
  "extends F F' \<longleftrightarrow> (\<exists>bs ms ds cs rs.
     f_barriers F' = f_barriers F @ bs \<and> f_members F' = f_members F @ ms \<and> f_definitions F' = f_definitions F @ ds
     \<and> f_completions F' = f_completions F @ cs \<and> f_reductions F' = f_reductions F @ rs)"

lemma extends_refl [simp]: "extends F F"
  by (simp add: extends_def)

lemma extends_trans: "extends F G \<Longrightarrow> extends G H \<Longrightarrow> extends F H"
  by (auto simp: extends_def)

lemma extends_one [simp]:
  "extends F (F\<lparr>f_barriers := f_barriers F @ [bar]\<rparr>)" "extends F (add_fact F b m)"
  "extends F (F\<lparr>f_definitions := f_definitions F @ [d]\<rparr>)" "extends F (F\<lparr>f_completions := f_completions F @ [c]\<rparr>)"
  "extends F (F\<lparr>f_reductions := f_reductions F @ [r]\<rparr>)"
  by (auto simp: extends_def add_fact_def)

lemma extends_views:
  assumes "extends F F'"
  shows "barrier_of F b = Some bar \<Longrightarrow> barrier_of F' b = Some bar"
    "definition_of F b = Some d \<Longrightarrow> definition_of F' b = Some d"
    "reduction_of F b = Some r \<Longrightarrow> reduction_of F' b = Some r"
    "c \<in> set (f_completions F) \<Longrightarrow> c \<in> set (f_completions F')"
    "m \<in> set (members_of F b) \<Longrightarrow> m \<in> set (members_of F' b)"
  using assms by (auto simp: extends_def barrier_of_def definition_of_def reduction_of_def members_of_def find_row_append)

lemma durable_step_facts:
  assumes cx: "codec_ok cx" and F: "facts_ok cx F"
  shows "\<exists>F'. facts_ok cx F' \<and> extends F F' \<and> durable_step cx call (rows_of cx F) = rows_of cx F'"
proof (cases call)
  case (SaveBarrier bar)
  show ?thesis
  proof (cases "sql_save_barrier cx (rows_of cx F) bar")
    case (Inr db')
    note sv = save_barrier_rows [OF cx F, of bar db', THEN iffD1, OF Inr]
    with SaveBarrier Inr F show ?thesis
      by (cases "barrier_of F (barrier_id bar)") (auto intro: add_barrier_ok extends_one exI [of _ F])
  qed (use SaveBarrier F in \<open>auto intro: exI [of _ F]\<close>)
next
  case (SaveState stt)
  have "durable_step cx call (rows_of cx F) = rows_of cx F"
    by (auto simp: SaveState sql_save_state_def Let_def rbind_Inr_iff split: sum.splits if_splits)
  with F show ?thesis by auto
next
  case (AddMember b m)
  let ?r = "sql_add_member cx (rows_of cx F) b (member_work_item_id m) (member_outcome m) (member_criticality m)"
  show ?thesis
  proof (cases ?r)
    case (Inr db')
    obtain bar where b: "barrier_of F b = Some bar"
      using sql_unknown(3) [of F b cx "member_work_item_id m" "member_outcome m" "member_criticality m"] Inr
      by (cases "barrier_of F b") auto
    obtain ms' where acc: "accepts bar (members_of F b) m = Some ms'"
      and r: "if m \<in> set (members_of F b) then db' = rows_of cx F
        else call_member_ok F b m \<and> dump_member cx m \<noteq> None \<and> db' = rows_of cx (add_fact F b m)"
      using add_member_rows [OF cx F b, of m db'] Inr by blast
    show ?thesis
    proof (cases "m \<in> set (members_of F b)")
      case True
      with r AddMember Inr F show ?thesis by auto
    next
      case False
      with r have "dump_member cx m \<noteq> None" "db' = rows_of cx (add_fact F b m)" by simp_all
      with add_member_ok(1) [OF F b _ acc False] AddMember Inr show ?thesis
        by (intro exI [of _ "add_fact F b m"]) simp
    qed
  qed (use AddMember F in \<open>auto intro: exI [of _ F]\<close>)
next
  case (AppendDefinition d)
  show ?thesis
  proof (cases "sql_append_definition cx (rows_of cx F) d")
    case (Inr p)
    then obtain db' d' where ap: "sql_append_definition cx (rows_of cx F) d = Inr (db', d')" by (cases p) auto
    note r = append_definition_rows [OF cx F, of d db' d', THEN iffD1, OF ap]
    with AppendDefinition ap F show ?thesis
      by (cases "definition_of F (cd_barrier_id d)") (auto intro: add_definition_ok extends_one exI [of _ F])
  qed (use AppendDefinition F in \<open>auto intro: exI [of _ F]\<close>)
next
  case (AppendCompletion c)
  show ?thesis
  proof (cases "sql_append_completion cx (rows_of cx F) c")
    case (Inr p)
    then obtain db' c' where ap: "sql_append_completion cx (rows_of cx F) c = Inr (db', c')" by (cases p) auto
    note r = append_completion_rows [OF cx F, of c db' c', THEN iffD1, OF ap]
    with AppendCompletion ap F show ?thesis
      by (cases "completion_at F (cc_barrier_id c) (cc_part_ordinal c)") (auto intro: add_completion_ok extends_one exI [of _ F])
  qed (use AppendCompletion F in \<open>auto intro: exI [of _ F]\<close>)
next
  case (AppendReduction r)
  show ?thesis
  proof (cases "sql_append_reduction cx (rows_of cx F) r")
    case (Inr p)
    then obtain db' r' where ap: "sql_append_reduction cx (rows_of cx F) r = Inr (db', r')" by (cases p) auto
    note c = append_reduction_rows [OF cx F, of r db' r', THEN iffD1, OF ap]
    with AppendReduction ap F show ?thesis
      by (cases "reduction_of F (cr_barrier_id r)") (auto intro: add_reduction_ok extends_one exI [of _ F])
  qed (use AppendReduction F in \<open>auto intro: exI [of _ F]\<close>)
qed

lemma durable_run_facts:
  assumes "codec_ok cx" and "facts_ok cx F"
  shows "\<exists>F'. facts_ok cx F' \<and> extends F F' \<and> durable_run cx calls (rows_of cx F) = rows_of cx F'"
  using assms(2)
proof (induction calls arbitrary: F)
  case Nil
  then show ?case by (auto simp: durable_run_def)
next
  case (Cons c calls)
  obtain G where G: "facts_ok cx G" "extends F G" "durable_step cx c (rows_of cx F) = rows_of cx G"
    using durable_step_facts [OF assms(1) Cons.prems] by blast
  from Cons.IH [OF G(1)] G(2,3) show ?case by (auto simp: durable_run_def intro: extends_trans)
qed

end
