(* ===== verification/Call_Barrier_Properties.thy ===== *)
theory Call_Barrier_Properties
  imports Durable_Barrier
begin

text \<open>
  What the durable storage guarantees about inference-call barriers, whatever calls were made
  on it: appended records read back unchanged for ever, a reduction is backed by a complete
  set of successful parts, and the coordinator publishes one reduction per plan.
\<close>

section \<open>Reads over the facts\<close>

lemma known_definition_id:
  assumes F: "facts_ok cx F" and d: "definition_of F b = Some d"
  shows "nonempty_string b l = Inr b"
proof -
  obtain bar where "barrier_of F b = Some bar" using definition_ofD(5) [OF F d] by blast
  from facts_okD(2,3) [OF F this] show ?thesis using nonempty_id by blast
qed

lemma get_definition_rows:
  assumes cx: "codec_ok cx" and F: "facts_ok cx F"
  shows "sql_get_definition cx (rows_of cx F) b = Inr (Some d) \<longleftrightarrow> definition_of F b = Some d"
proof (cases "definition_of F b")
  case None
  then show ?thesis by (auto simp: sql_get_definition_def nonempty_string_def fetch_rows)
next
  case (Some d')
  then have "require_call_definition cx (rows_of cx F) b = Inr d'" using require_call_definition_rows [OF cx F] by blast
  with Some known_definition_id [OF F Some] show ?thesis by (simp add: sql_get_definition_def fetch_rows)
qed

lemma list_completions_rows:
  assumes cx: "codec_ok cx" and F: "facts_ok cx F"
  shows "sql_list_completions cx (rows_of cx F) b = Inr cs \<longleftrightarrow> (\<exists>d. definition_of F b = Some d) \<and> cs = completions_of F b"
proof (cases "definition_of F b")
  case None
  then show ?thesis using require_call_definition_unknown [OF None, of cx] by (auto simp: sql_list_completions_def nonempty_string_def)
next
  case (Some d)
  then have "require_call_definition cx (rows_of cx F) b = Inr d" using require_call_definition_rows [OF cx F] by blast
  with Some known_definition_id [OF F Some] call_completions_rows [OF cx F Some] show ?thesis
    by (auto simp: sql_list_completions_def)
qed

lemma reduction_ofD:
  assumes F: "facts_ok cx F" and r: "reduction_of F b = Some r"
  shows "cr_barrier_id r = b" "dump_reduction cx r \<noteq> None" "\<exists>d bar. reduction_backed F r d bar"
proof -
  have m: "r \<in> set (f_reductions F)" "cr_barrier_id r = b" using find_row_Some [OF r [unfolded reduction_of_def]] by simp_all
  then show "cr_barrier_id r = b" "dump_reduction cx r \<noteq> None" "\<exists>d bar. reduction_backed F r d bar"
    using F by (auto simp: facts_ok_def reductions_ok_def)
qed

lemma get_reduction_rows:
  assumes cx: "codec_ok cx" and F: "facts_ok cx F"
  shows "sql_get_reduction cx (rows_of cx F) b = Inr (Some r) \<longleftrightarrow> reduction_of F b = Some r"
proof (cases "reduction_of F b")
  case None
  then show ?thesis by (auto simp: sql_get_reduction_def nonempty_string_def fetch_rows)
next
  case (Some r')
  note r' = reduction_ofD [OF F Some]
  obtain d bar where bk: "reduction_backed F r' d bar" using r'(3) by blast
  then have d: "definition_of F b = Some d" "barrier_of F b = Some bar" using r'(1) by (simp_all add: reduction_backed_def Let_def)
  have "require_call_definition cx (rows_of cx F) b = Inr d" using require_call_definition_rows [OF cx F] d(1) by blast
  moreover have "validate_reduction cx (rows_of cx F) d (completions_of F b) r' = Inr ()"
    using validate_reduction_rows [OF cx F, of r' d bar] d bk r'(1) by simp
  ultimately show ?thesis
    using Some known_definition_id [OF F d(1)] call_completions_rows [OF cx F d(1)] read_reduction_row [OF cx r'(2)]
    by (simp add: sql_get_reduction_def fetch_rows)
qed

lemma reachable_facts:
  assumes "codec_ok cx"
  obtains F where "facts_ok cx F" "durable_run cx calls barrier_db_init = rows_of cx F"
  using durable_run_facts [OF assms no_facts_ok, of calls] rows_of_no_facts [of cx] by metis

section \<open>What an append leaves behind\<close>

lemma append_definition_facts:
  assumes cx: "codec_ok cx" and F: "facts_ok cx F" and ap: "sql_append_definition cx (rows_of cx F) d = Inr (db1, d')"
  obtains F1 where "facts_ok cx F1" "extends F F1" "db1 = rows_of cx F1" "definition_of F1 (cd_barrier_id d) = Some d" "d' = d"
proof -
  note r = append_definition_rows [OF cx F, of d db1 d', THEN iffD1, OF ap]
  show thesis
  proof (cases "definition_of F (cd_barrier_id d)")
    case None
    then have db1: "db1 = rows_of cx (F\<lparr>f_definitions := f_definitions F @ [d]\<rparr>)" and v: "dump_definition cx d \<noteq> None"
      using r by simp_all
    from r obtain bar where "barrier_of F (cd_barrier_id d) = Some bar" "validate_call_definition_binding bar d = Inr ()" by blast
    from add_definition_ok [OF F _ v this None] r db1 None show thesis
      by (intro that [of "F\<lparr>f_definitions := f_definitions F @ [d]\<rparr>"]) (simp_all add: definition_of_append)
  next
    case (Some stored)
    with r F show thesis by (intro that [of F]) simp_all
  qed
qed

lemma append_completion_facts:
  assumes cx: "codec_ok cx" and F: "facts_ok cx F" and ap: "sql_append_completion cx (rows_of cx F) c = Inr (db1, c')"
  obtains F1 d where "facts_ok cx F1" "extends F F1" "db1 = rows_of cx F1" "c \<in> set (f_completions F1)"
    "definition_of F1 (cc_barrier_id c) = Some d" "c' = c"
proof -
  note r = append_completion_rows [OF cx F, of c db1 c', THEN iffD1, OF ap]
  then obtain d where d: "definition_of F (cc_barrier_id c) = Some d" "validate_completion_binding d c = Inr ()" by blast
  show thesis
  proof (cases "completion_at F (cc_barrier_id c) (cc_part_ordinal c)")
    case None
    then have db1: "db1 = rows_of cx (F\<lparr>f_completions := f_completions F @ [c]\<rparr>)" and v: "dump_completion cx c \<noteq> None"
      and ids: "\<forall>x \<in> set (f_completions F). cc_completion_id x \<noteq> cc_completion_id c"
      using r by simp_all
    from add_completion_ok [OF F _ v d None ids] r db1 d show thesis
      by (intro that [of "F\<lparr>f_completions := f_completions F @ [c]\<rparr>" d]) simp_all
  next
    case (Some stored)
    then have "c \<in> set (f_completions F)"
      using r find_row_Some(1) [OF Some [unfolded completion_at_def]] by simp
    with r F d Some show thesis by (intro that [of F d]) simp_all
  qed
qed

lemma append_reduction_facts:
  assumes cx: "codec_ok cx" and F: "facts_ok cx F" and ap: "sql_append_reduction cx (rows_of cx F) r = Inr (db1, r')"
  obtains F1 where "facts_ok cx F1" "extends F F1" "db1 = rows_of cx F1" "reduction_of F1 (cr_barrier_id r) = Some r" "r' = r"
proof -
  note c = append_reduction_rows [OF cx F, of r db1 r', THEN iffD1, OF ap]
  then obtain d bar where bk: "reduction_backed F r d bar" by blast
  show thesis
  proof (cases "reduction_of F (cr_barrier_id r)")
    case None
    then have db1: "db1 = rows_of cx (F\<lparr>f_reductions := f_reductions F @ [r]\<rparr>)" and v: "dump_reduction cx r \<noteq> None"
      using c by simp_all
    have "reduction_of (F\<lparr>f_reductions := f_reductions F @ [r]\<rparr>) (cr_barrier_id r) = Some r"
      using None unfolding reduction_of_def by (simp add: find_row_append find_row_single del: find_row_None)
    with add_reduction_ok [OF F v bk None] c db1 show thesis by (intro that) simp_all
  next
    case (Some stored)
    with c F show thesis by (intro that [of F]) simp_all
  qed
qed

section \<open>A plan with one part, run on the durable storage\<close>

definition ex_part :: InferenceCallPart where
  "ex_part = \<lparr>part_ordinal = 0, part_count = 1, start_item_ordinal = 0, end_item_ordinal_exclusive = 3,
     overlap_before_items = 0, overlap_after_items = 0, item_manifest_sha256 = ''m'',
     part_semantic_sha256 = ''p'', part_logical_key = ''part:0'', idempotency_key = ''i''\<rparr>"

definition ex_plan :: InferenceInputPlan where
  "ex_plan = \<lparr>plan_semantic_sha256 = ''s'',
     plan_call_plan = \<lparr>call_plan_sha256 = ''c'', plan_parts = [ex_part], plan_barrier_semantic_sha256 = ''b'',
       plan_barrier_logical_key = ''k'', plan_reduction_policy = ''merge'', plan_reduction_policy_version = ''1.0''\<rparr>,
     plan_task = ''task'', plan_package_ids = [], plan_response_schema_sha256 = ''r''\<rparr>"

definition ex_inference :: ModelInference where
  "ex_inference = \<lparr>mi_inference_id = ''inf'', mi_logical_invocation_id = ''inv'', mi_package_ids = [], mi_stage = ''task'',
     mi_rendered_input_digest = ''m'', mi_input_plan_semantic_sha256 = Some ''s'', mi_input_plan_part_ordinal = Some 0,
     mi_input_plan_part_count = Some 1, mi_input_plan_part_semantic_sha256 = Some ''p'',
     mi_provider_idempotency_key = Some ''i'', mi_attempt = 1, mi_status = Inference_SUCCEEDED, mi_completed_at = ''t'',
     mi_raw_output = Some [(''artifact_id'', JStr ''raw'')], mi_normalized_output = Some [(''x'', JInt 1)],
     mi_output_valid = True, mi_failure = None\<rparr>"

definition ex_selection :: InferenceAttemptSelection where
  "ex_selection = \<lparr>sel_selection_id = ''sel'', sel_inference_id = ''inf'', sel_logical_invocation_id = ''inv'',
     sel_policy_version = ''1.0'', sel_selection_decision_logical_key = ''inference-attempt-selection:0''\<rparr>"

definition ex_reducers :: reducers where
  "ex_reducers key = (if key = (''merge'', ''1.0'') then Some (\<lambda>plan cs. Inr [(''n'', JInt (int (length cs)))]) else None)"

definition ex_bar :: Barrier where
  "ex_bar = projr (new_barrier ex_uuid5 ''k'' 1 \<lparr>policy_version = ''1.0'', required_count = 1, degradable_count = 0\<rparr> ''SKIPPED_NOT_NEEDED'')"

definition ex_definition :: CallBarrierDefinition where
  "ex_definition = plan_definition ex_plan ex_id ''t0''"

definition ex_completion :: CallPartCompletion where
  "ex_completion = projr (build_completion ex_hash ex_plan ex_definition ex_inference (Some ex_selection) False)"

definition ex_prefix :: "durable_call list" where
  "ex_prefix = [SaveBarrier ex_bar, AppendDefinition ex_definition, AppendCompletion ex_completion,
     AddMember ex_id (ex_member ''part:0'' REQUIRED Status_SUCCEEDED)]"

definition ex_db :: "payload BarrierDb" where
  "ex_db = durable_run ex_codec ex_prefix barrier_db_init"

definition ex_reduced :: "payload BarrierDb \<times> CallReduction py" where
  "ex_reduced = reduce_call_barrier (codec_hash ex_codec) ex_reducers (sqlite_storage ex_codec) (sqlite_call_storage ex_codec) ex_db ex_plan ''t1''"

definition ex_reduction :: CallReduction where
  "ex_reduction = projr (snd ex_reduced)"

section \<open>Properties of the storage\<close>

lemma bound_semantics:
  assumes "map cc_part_ordinal cs = [0..<cd_part_count d]" and "length (cd_expected_part_semantic_sha256s d) = cd_part_count d"
    and "\<And>c. c \<in> set cs \<Longrightarrow> validate_completion_binding d c = Inr ()"
  shows "map cc_part_semantic_sha256 cs = cd_expected_part_semantic_sha256s d"
proof -
  have "cc_part_semantic_sha256 c = cd_expected_part_semantic_sha256s d ! cc_part_ordinal c" if "c \<in> set cs" for c
    using assms(3) [OF that] by (auto simp: validate_completion_binding_def completion_matches_def split: if_splits)
  then have "map cc_part_semantic_sha256 cs = map (\<lambda>c. cd_expected_part_semantic_sha256s d ! cc_part_ordinal c) cs" by simp
  also have "\<dots> = map (nth (cd_expected_part_semantic_sha256s d)) (map cc_part_ordinal cs)" by simp
  also have "\<dots> = cd_expected_part_semantic_sha256s d" unfolding assms(1) assms(2) [symmetric] by (rule map_nth)
  finally show ?thesis .
qed

text \<open>
  C36. A reduction that the durable storage returns is backed by the whole plan: whatever
  calls were made on the database, the definition of the barrier is stored, the stored
  completions are exactly one per declared part, in order, with the declared identities and
  all successful, the generic barrier aggregates to SUCCEEDED, and the reduction lists
  exactly these completions with their output digests and selection keys.
\<close>

theorem durable_reduction_sound:
  assumes "codec_ok cx" and "db = durable_run cx calls barrier_db_init"
    and "sql_get_reduction cx db b = Inr (Some r)"
  shows "\<exists>d cs agg. sql_get_definition cx db b = Inr (Some d) \<and> sql_list_completions cx db b = Inr cs
    \<and> map cc_part_ordinal cs = [0..<cd_part_count d]
    \<and> map cc_part_semantic_sha256 cs = cd_expected_part_semantic_sha256s d
    \<and> (\<forall>c \<in> set cs. cc_status c = Inference_SUCCEEDED)
    \<and> get_aggregate_status (sqlite_storage cx) db b = Inr agg \<and> overall_status agg = Status_SUCCEEDED
    \<and> cr_ordered_completion_ids r = map cc_completion_id cs
    \<and> cr_ordered_part_semantic_sha256s r = cd_expected_part_semantic_sha256s d
    \<and> map Some (cr_ordered_normalized_output_sha256s r) = map cc_normalized_output_sha256 cs
    \<and> map Some (cr_ordered_selection_decision_logical_keys r) = map cc_selection_decision_logical_key cs"
proof -
  obtain F where F: "facts_ok cx F" and db: "db = rows_of cx F"
    using reachable_facts [OF assms(1)] assms(2) by metis
  have r: "reduction_of F b = Some r" using get_reduction_rows [OF assms(1) F] assms(3) db by simp
  obtain d bar where bk: "reduction_backed F r d bar" using reduction_ofD(3) [OF F r] by blast
  note rb = reduction_ofD(1) [OF F r]
  have d: "definition_of F b = Some d" "barrier_of F b = Some bar" using bk rb by (simp_all add: reduction_backed_def Let_def)
  let ?cs = "completions_of F b" and ?ms = "members_of F b"
  have cs: "map cc_part_ordinal ?cs = [0..<cd_part_count d]" "\<forall>c \<in> set ?cs. cc_status c = Inference_SUCCEEDED"
    "acceptable bar ?ms" using bk rb by (simp_all add: reduction_backed_def Let_def)
  have len: "length (cd_expected_part_semantic_sha256s d) = cd_part_count d" "cd_part_count d \<noteq> 0"
    using definition_ofD(4) [OF F d(1)] by (auto simp: validate_expected_members_def split: if_splits)
  have sem: "map cc_part_semantic_sha256 ?cs = cd_expected_part_semantic_sha256s d"
  proof (rule bound_semantics [OF cs(1) len(1)])
    fix c assume "c \<in> set ?cs"
    then show "validate_completion_binding d c = Inr ()"
      using completionD(3) [OF F, of c] d(1) by (auto simp: set_completions_of)
  qed
  have full: "length ?ms = expected_member_count bar" "0 < expected_member_count bar"
    using backed_full(1) [OF F bk] rb bk len(2) by (simp_all add: reduction_backed_def Let_def)
  have inv: "sql_inv cx db" using assms(1) F db by (auto simp: sql_inv_def)
  have v: "sql_view cx db b = Some (bar, ?ms)" using sql_view_rows [OF assms(1) F, of b] d(2) db by simp
  obtain agg where agg: "get_aggregate_status (sqlite_storage cx) db b = Inr agg" "overall_status agg = Status_SUCCEEDED"
    using sql.aggregate_known [OF inv v full(2)] full(1) cs(3) by auto
  have "sql_get_definition cx db b = Inr (Some d)" "sql_list_completions cx db b = Inr ?cs"
    using get_definition_rows [OF assms(1) F] list_completions_rows [OF assms(1) F] d(1) db by simp_all
  with cs sem agg bk rb show ?thesis by (auto simp: reduction_backed_def Let_def)
qed

definition ex_final :: "payload BarrierDb" where
  "ex_final = durable_run ex_codec (ex_prefix @ [AppendReduction ex_reduction]) barrier_db_init"

theorem durable_reduction_sound_witness:
  "\<exists>d cs agg. sql_get_definition ex_codec ex_final ex_id = Inr (Some d) \<and> sql_list_completions ex_codec ex_final ex_id = Inr cs
    \<and> map cc_part_ordinal cs = [0..<cd_part_count d]
    \<and> get_aggregate_status (sqlite_storage ex_codec) ex_final ex_id = Inr agg \<and> overall_status agg = Status_SUCCEEDED
    \<and> cr_ordered_completion_ids ex_reduction = map cc_completion_id cs"
proof -
  have "sql_get_reduction ex_codec ex_final ex_id = Inr (Some ex_reduction)" by code_simp
  from durable_reduction_sound [OF ex_codec_ok ex_final_def this] show ?thesis by blast
qed

text \<open>
  What the storage accepted reads back unchanged for ever: a call definition, a part
  completion or a reduction whose append succeeded in a reachable database is returned by the
  reads, byte for byte the same record, after any further calls.
\<close>

theorem durable_append_only:
  assumes "codec_ok cx" and "db = durable_run cx calls barrier_db_init"
  shows "(\<forall>d db1 d'. sql_append_definition cx db d = Inr (db1, d') \<longrightarrow>
        sql_get_definition cx (durable_run cx later db1) (cd_barrier_id d) = Inr (Some d))
    \<and> (\<forall>c db1 c'. sql_append_completion cx db c = Inr (db1, c') \<longrightarrow>
        (\<exists>cs. sql_list_completions cx (durable_run cx later db1) (cc_barrier_id c) = Inr cs \<and> c \<in> set cs))
    \<and> (\<forall>r db1 r'. sql_append_reduction cx db r = Inr (db1, r') \<longrightarrow>
        sql_get_reduction cx (durable_run cx later db1) (cr_barrier_id r) = Inr (Some r))"
proof -
  note cx = assms(1)
  obtain F where F: "facts_ok cx F" and db: "db = rows_of cx F" using reachable_facts [OF cx] assms(2) by metis
  have later: "\<exists>G. facts_ok cx G \<and> extends F1 G \<and> durable_run cx later (rows_of cx F1) = rows_of cx G" if "facts_ok cx F1" for F1
    by (rule durable_run_facts [OF cx that])
  show ?thesis
  proof (intro conjI allI impI)
    fix d db1 d'
    assume "sql_append_definition cx db d = Inr (db1, d')"
    then obtain F1 where F1: "facts_ok cx F1" "db1 = rows_of cx F1" "definition_of F1 (cd_barrier_id d) = Some d"
      using append_definition_facts [OF cx F, of d db1 d'] db by blast
    then show "sql_get_definition cx (durable_run cx later db1) (cd_barrier_id d) = Inr (Some d)"
      using later [OF F1(1)] get_definition_rows [OF cx] extends_views(2) by metis
  next
    fix c db1 c'
    assume "sql_append_completion cx db c = Inr (db1, c')"
    then obtain F1 d where F1: "facts_ok cx F1" "db1 = rows_of cx F1" "c \<in> set (f_completions F1)"
        "definition_of F1 (cc_barrier_id c) = Some d"
      using append_completion_facts [OF cx F, of c db1 c'] db by blast
    obtain G where G: "facts_ok cx G" "extends F1 G" "durable_run cx later db1 = rows_of cx G" using later [OF F1(1)] F1(2) by blast
    have "definition_of G (cc_barrier_id c) = Some d" "c \<in> set (completions_of G (cc_barrier_id c))"
      using extends_views(2,4) [OF G(2)] F1(3,4) by (simp_all add: set_completions_of)
    then show "\<exists>cs. sql_list_completions cx (durable_run cx later db1) (cc_barrier_id c) = Inr cs \<and> c \<in> set cs"
      using list_completions_rows [OF cx G(1)] G(3) by auto
  next
    fix r db1 r'
    assume "sql_append_reduction cx db r = Inr (db1, r')"
    then obtain F1 where F1: "facts_ok cx F1" "db1 = rows_of cx F1" "reduction_of F1 (cr_barrier_id r) = Some r"
      using append_reduction_facts [OF cx F, of r db1 r'] db by blast
    then show "sql_get_reduction cx (durable_run cx later db1) (cr_barrier_id r) = Inr (Some r)"
      using later [OF F1(1)] get_reduction_rows [OF cx] extends_views(3) by metis
  qed
qed


definition ex_declared :: "payload BarrierDb" where
  "ex_declared = durable_run ex_codec [SaveBarrier ex_bar, AppendDefinition ex_definition] barrier_db_init"

theorem durable_append_only_witness:
  "\<exists>cs. sql_list_completions ex_codec (durable_run ex_codec [AddMember ex_id (ex_member ''part:0'' REQUIRED Status_SUCCEEDED)]
        (fst (projr (sql_append_completion ex_codec ex_declared ex_completion)))) (cc_barrier_id ex_completion) = Inr cs
    \<and> ex_completion \<in> set cs"
proof -
  let ?r = "sql_append_completion ex_codec ex_declared ex_completion"
  have "isl ?r = False" by code_simp
  then have "?r = Inr (fst (projr ?r), snd (projr ?r))" by simp
  with durable_append_only [OF ex_codec_ok ex_declared_def,
      of "[AddMember ex_id (ex_member ''part:0'' REQUIRED Status_SUCCEEDED)]"] show ?thesis by blast
qed

section \<open>The coordinator publishes one reduction\<close>

lemma validated_plan_Inr [result_simps]: "validated_plan plan = Inr p \<Longrightarrow> p = plan"
  by (auto simp: validated_plan_def split: sum.splits)

lemma on_state_Inr: "on_state s x = (s', Inr r) \<longleftrightarrow> x = Inr (s', r)"
  by (auto simp: on_state_def split: sum.splits)

lemma reduce_Inr:
  assumes "reduce_call_barrier h reducers bst cst s plan t = (s', Inr r)"
  obtains d where "validated_plan plan = Inr plan" "require_definition h cst s plan = Inr d"
    "get_reduction cst s (cd_barrier_id d) = Inr (Some r)" "s' = s"
  | d listed out r1 where "validated_plan plan = Inr plan" "require_definition h cst s plan = Inr d"
    "get_reduction cst s (cd_barrier_id d) = Inr None" "list_completions cst s (cd_barrier_id d) = Inr listed"
    "reducer_output reducers plan d (sort_key cc_part_ordinal listed) = Inr out"
    "build_reduction h plan d (sort_key cc_part_ordinal listed) out t = Inr r1"
    "append_reduction cst s r1 = Inr (s', r)"
proof -
  let ?pre = "rbind (validated_plan plan) (\<lambda>plan. rbind (require_definition h cst s plan) (\<lambda>d.
      rbind (get_reduction cst s (cd_barrier_id d)) (\<lambda>existing. Inr (plan, d, existing))))"
  obtain p d ex where pre: "?pre = Inr (p, d, ex)"
    using assms by (cases ?pre) (auto simp: reduce_call_barrier_def)
  then have p: "validated_plan plan = Inr plan" "p = plan" "require_definition h cst s plan = Inr d"
    "get_reduction cst s (cd_barrier_id d) = Inr ex"
    by (auto simp: rbind_Inr_iff dest: validated_plan_Inr)
  show thesis
  proof (cases ex)
    case (Some r0)
    then have "r0 = r" "s' = s" using assms unfolding reduce_call_barrier_def pre by simp_all
    with p Some show thesis using that(1) by blast
  next
    case None
    with assms pre p(2) show thesis
      unfolding reduce_call_barrier_def
      by (auto simp: on_state_Inr rbind_Inr_iff Let_def split: if_splits intro!: that(2) [OF p(1,3) p(4) [unfolded None]])
  qed
qed

lemma require_definition_rows:
  assumes cx: "codec_ok cx" and F: "facts_ok cx F"
  shows "require_definition h (sqlite_call_storage cx) (rows_of cx F) plan = Inr d \<longleftrightarrow>
    definition_of F (call_barrier_id h (plan_barrier_logical_key (plan_call_plan plan))) = Some d
    \<and> definition_projection d = definition_projection (plan_definition plan (cd_barrier_id d) (cd_created_at d))"
  using get_definition_rows [OF cx F, of "call_barrier_id h (plan_barrier_logical_key (plan_call_plan plan))"]
  by (auto simp: require_definition_def Let_def rbind_Inr_iff sqlite_call_storage_def split: option.splits)

lemma reduce_again:
  assumes cx: "codec_ok cx" and G: "facts_ok cx G" and v: "validated_plan plan = Inr plan"
    and d: "require_definition h (sqlite_call_storage cx) (rows_of cx G) plan = Inr d"
    and r: "reduction_of G (cd_barrier_id d) = Some r"
  shows "reduce_call_barrier h reducers bst (sqlite_call_storage cx) (rows_of cx G) plan t = (rows_of cx G, Inr r)"
proof -
  have "get_reduction (sqlite_call_storage cx) (rows_of cx G) (cd_barrier_id d) = Inr (Some r)"
    using get_reduction_rows [OF cx G] r by (simp add: sqlite_call_storage_def)
  with v d show ?thesis by (simp add: reduce_call_barrier_def)
qed

text \<open>
  A plan is reduced once. When \<open>reduce\<close> of the coordinator over the durable storage
  returns a reduction, then every later \<open>reduce\<close> of that plan (after any calls on the
  database, at any time, with any registered reducers) returns the very same record and
  changes nothing; and the first time its output is what the reducer registered for the
  plan's policy and version returns for the stored completions in the order of the parts.
\<close>

theorem call_reduction_once:
  assumes "codec_ok cx" and "db = durable_run cx calls barrier_db_init"
    and "reduce_call_barrier (codec_hash cx) reducers (sqlite_storage cx) (sqlite_call_storage cx) db plan t = (db', Inr r)"
  shows "(\<forall>reducers' t' later. reduce_call_barrier (codec_hash cx) reducers' (sqlite_storage cx) (sqlite_call_storage cx)
        (durable_run cx later db') plan t' = (durable_run cx later db', Inr r))
    \<and> (sql_get_reduction cx db (cr_barrier_id r) = Inr None \<longrightarrow>
        (\<exists>f cs. sql_list_completions cx db (cr_barrier_id r) = Inr cs
          \<and> reducers (cr_reduction_policy r, cr_reduction_policy_version r) = Some f
          \<and> f plan (sort_key cc_part_ordinal cs) = Inr (cr_normalized_output r) \<and> cr_reduced_at r = t))"
proof -
  note cx = assms(1)
  let ?cst = "sqlite_call_storage cx"
  obtain F where F: "facts_ok cx F" and db: "db = rows_of cx F" using reachable_facts [OF cx] assms(2) by metis
  have again: "reduce_call_barrier (codec_hash cx) reducers' (sqlite_storage cx) ?cst (durable_run cx later (rows_of cx F1)) plan t'
      = (durable_run cx later (rows_of cx F1), Inr r)"
    if F1: "facts_ok cx F1" "extends F F1" "reduction_of F1 (cd_barrier_id d) = Some r"
      and v: "validated_plan plan = Inr plan" "require_definition (codec_hash cx) ?cst db plan = Inr d"
    for reducers' t' later F1 d
  proof -
    obtain G where G: "facts_ok cx G" "extends F1 G" "durable_run cx later (rows_of cx F1) = rows_of cx G"
      using durable_run_facts [OF cx F1(1), of later] by blast
    have "require_definition (codec_hash cx) ?cst (rows_of cx G) plan = Inr d"
      using v(2) extends_views(2) [OF extends_trans [OF F1(2) G(2)]]
      by (simp add: db require_definition_rows [OF cx F] require_definition_rows [OF cx G(1)])
    from reduce_again [OF cx G(1) v(1) this extends_views(3) [OF G(2) F1(3)]] show ?thesis unfolding G(3) .
  qed
  from assms(3) show ?thesis
  proof (cases rule: reduce_Inr)
    case (1 d)
    have r: "reduction_of F (cd_barrier_id d) = Some r"
      using 1(3) get_reduction_rows [OF cx F] db by (simp add: sqlite_call_storage_def)
    have "sql_get_reduction cx db (cr_barrier_id r) \<noteq> Inr None"
      using 1(3) reduction_ofD(1) [OF F r] by (simp add: sqlite_call_storage_def)
    with again [OF F extends_refl r 1(1,2)] show ?thesis using 1(4) db by simp
  next
    case (2 d listed out r1)
    have "sql_append_reduction cx (rows_of cx F) r1 = Inr (db', r)" using 2(7) db by (simp add: sqlite_call_storage_def)
    then obtain F1 where F1: "facts_ok cx F1" "extends F F1" "db' = rows_of cx F1" "reduction_of F1 (cr_barrier_id r1) = Some r1" "r = r1"
      by (rule append_reduction_facts [OF cx F])
    have built: "cr_barrier_id r1 = cd_barrier_id d" "cr_reduction_policy r1 = cd_reduction_policy d"
      "cr_reduction_policy_version r1 = cd_reduction_policy_version d" "cr_normalized_output r1 = out" "cr_reduced_at r1 = t"
      using 2(6) by (auto simp: build_reduction_def rbind_Inr_iff Let_def split: sum.splits)
    obtain f where "reducers (cd_reduction_policy d, cd_reduction_policy_version d) = Some f"
      "f plan (sort_key cc_part_ordinal listed) = Inr out"
      using 2(5) by (auto simp: reducer_output_def rbind_Inr_iff split: option.splits if_splits)
    moreover have "sql_list_completions cx db (cr_barrier_id r) = Inr listed"
      using 2(4) built(1) F1(5) by (simp add: sqlite_call_storage_def)
    ultimately show ?thesis
      using again [OF F1(1,2) _ 2(1,2)] F1(3-5) built by auto
  qed
qed

theorem call_reduction_once_witness:
  "reduce_call_barrier (codec_hash ex_codec) ex_reducers (sqlite_storage ex_codec) (sqlite_call_storage ex_codec)
     (durable_run ex_codec [AppendReduction ex_reduction] (fst ex_reduced)) ex_plan ''t2'' =
     (durable_run ex_codec [AppendReduction ex_reduction] (fst ex_reduced), Inr ex_reduction)"
proof -
  have "isl (snd ex_reduced) = False" by code_simp
  then have "ex_reduced = (fst ex_reduced, Inr ex_reduction)" unfolding ex_reduction_def by (metis isl_def prod.collapse sum.collapse(2))
  then have "reduce_call_barrier (codec_hash ex_codec) ex_reducers (sqlite_storage ex_codec) (sqlite_call_storage ex_codec) ex_db ex_plan ''t1'' =
      (fst ex_reduced, Inr ex_reduction)" unfolding ex_reduced_def .
  from call_reduction_once [OF ex_codec_ok ex_db_def this] show ?thesis by blast
qed

end
