(* ===== verification/Task_Queue.thy ===== *)
theory Task_Queue
  imports Robata_Prelude
begin

text \<open>
  \<^verbatim>\<open>src/robata/ports/task_queue.py\<close> and \<^verbatim>\<open>src/robata/adapters/in_memory_task_queue.py\<close>: the broker-delivery
  queue with leases, retries and dead letters. Lease objects are shared between the lease
  table and the records, so they live in a store addressed by their identifier; a record
  holds the address. Times are microseconds; the clock reading is an argument. The retry
  backoff is a whole number of microseconds. Operations that raise may still have expired
  leases, so each returns the queue left behind together with its result or error.
\<close>

section \<open>Data\<close>

datatype TaskStatus = PENDING | CLAIMED | COMPLETED | FAILED | DEAD_LETTER

datatype TaskQueueErrorCode =
    ADAPTER_UNAVAILABLE | INVALID_REQUEST | DUPLICATE_TASK | TASK_NOT_FOUND | LEASE_NOT_FOUND
  | LEASE_EXPIRED | TASK_NOT_CLAIMED | TASK_ALREADY_COMPLETED | QUEUE_FULL

type_synonym 'a q_result = "TaskQueueErrorCode + 'a"

record PipelineTask =
  task_id :: string
  recording_id :: string
  task_stage :: string
  payload :: string
  task_priority :: int
  task_created_at :: int
  retry_count :: nat
  max_retries :: nat
  task_lease_id :: "string option"
  task_leased_by :: "string option"
  task_lease_expires_at :: "int option"

definition pipeline_task_post_init :: "PipelineTask \<Rightarrow> PipelineTask py" where
  "pipeline_task_post_init t =
     (if py_blank (recording_id t) then Inl (ValueError ''recording_id must be a non-empty string'')
      else if py_blank (task_stage t) then Inl (ValueError ''stage must be a non-empty string'')
      else case task_lease_id t of
        None \<Rightarrow>
          if task_leased_by t \<noteq> None \<or> task_lease_expires_at t \<noteq> None
          then Inl (ValueError ''lease metadata requires lease_id'') else Inr t
      | Some _ \<Rightarrow>
          (case task_leased_by t of
             None \<Rightarrow> Inl (ValueError ''leased_by must be a non-empty string when leased'')
           | Some w \<Rightarrow>
               if py_blank w then Inl (ValueError ''leased_by must be a non-empty string when leased'')
               else if task_lease_expires_at t = None
               then Inl (ValueError ''lease_expires_at is required when leased'') else Inr t))"

record TaskSnapshot =
  snap_task_id :: string
  snap_status :: TaskStatus
  snap_retry_count :: nat
  snap_max_retries :: nat
  snap_available_at :: "int option"
  snap_lease_id :: "string option"
  snap_leased_by :: "string option"
  snap_lease_expires_at :: "int option"
  snap_failure_reason :: "string option"
  snap_result :: "string option"

record QLease =
  ql_lease_id :: string
  ql_worker_id :: string
  ql_expires_at :: int
  ql_duration_seconds :: int

record QRecord =
  rec_task :: PipelineTask
  rec_status :: TaskStatus
  rec_available_at :: int
  rec_sequence :: nat
  rec_lease :: "string option"
  rec_failure_reason :: "string option"
  rec_result :: "string option"

record task_queue =
  retry_backoff :: int
  max_size :: "nat option"
  q_records :: "QRecord list"
  lease_objects :: "string \<rightharpoonup> QLease"
  active_leases :: "string list"
  retired_leases :: "string \<rightharpoonup> TaskStatus"
  dead_letter_order :: "string list"
  next_sequence :: nat
  next_lease_number :: nat

definition task_queue_init :: "int \<Rightarrow> nat option \<Rightarrow> task_queue q_result" where
  "task_queue_init backoff limit =
     (if backoff < 0 then Inl INVALID_REQUEST
      else if limit = Some 0 then Inl INVALID_REQUEST
      else Inr \<lparr>retry_backoff = backoff, max_size = limit, q_records = [], lease_objects = Map.empty,
                active_leases = [], retired_leases = Map.empty, dead_letter_order = [],
                next_sequence = 0, next_lease_number = 0\<rparr>)"

text \<open>\<open>f"lease-{n:08d}"\<close>\<close>

definition lease_name :: "nat \<Rightarrow> string" where
  "lease_name n = ''lease-'' @ replicate (8 - length (decimal n)) (CHR ''0'') @ decimal n"

section \<open>Records\<close>

abbreviation rec_id :: "QRecord \<Rightarrow> string" where
  "rec_id r \<equiv> task_id (rec_task r)"

definition set_record :: "string \<Rightarrow> (QRecord \<Rightarrow> QRecord) \<Rightarrow> task_queue \<Rightarrow> task_queue" where
  "set_record i f q = q\<lparr>q_records := update_where (\<lambda>r. rec_id r = i) f (q_records q)\<rparr>"

definition record_of :: "task_queue \<Rightarrow> string \<Rightarrow> QRecord option" where
  "record_of q i = find_row (\<lambda>r. rec_id r = i) (q_records q)"

definition record_for_task :: "task_queue \<Rightarrow> string \<Rightarrow> QRecord q_result" where
  "record_for_task q i = (case record_of q i of None \<Rightarrow> Inl TASK_NOT_FOUND | Some r \<Rightarrow> Inr r)"

definition find_record_for_lease :: "task_queue \<Rightarrow> string \<Rightarrow> QRecord option" where
  "find_record_for_lease q l = find_row (\<lambda>r. rec_lease r = Some l) (q_records q)"

definition is_active :: "TaskStatus \<Rightarrow> bool" where
  "is_active st \<longleftrightarrow> st \<in> {PENDING, CLAIMED}"

definition active_count :: "task_queue \<Rightarrow> nat" where
  "active_count q = rowcount (\<lambda>r. is_active (rec_status r)) (q_records q)"

section \<open>Failure and expiry\<close>

definition after_failure :: "int \<Rightarrow> string \<Rightarrow> int \<Rightarrow> QRecord \<Rightarrow> QRecord" where
  "after_failure backoff reason now r =
     (let n = retry_count (rec_task r) + 1;
          r1 = r\<lparr>rec_task := (rec_task r)\<lparr>retry_count := n\<rparr>, rec_failure_reason := Some reason,
                 rec_result := None\<rparr>
      in if n > max_retries (rec_task r)
         then r1\<lparr>rec_status := DEAD_LETTER, rec_available_at := now\<rparr>
         else r1\<lparr>rec_available_at := now + backoff * 2 ^ (n - 1), rec_status := PENDING\<rparr>)"

definition schedule_after_failure :: "string \<Rightarrow> string \<Rightarrow> int \<Rightarrow> task_queue \<Rightarrow> task_queue" where
  "schedule_after_failure i reason now q =
     (case record_of q i of
        None \<Rightarrow> q
      | Some r \<Rightarrow>
          let q1 = set_record i (after_failure (retry_backoff q) reason now) q in
          if retry_count (rec_task r) + 1 > max_retries (rec_task r) \<and> i \<notin> set (dead_letter_order q)
          then q1\<lparr>dead_letter_order := dead_letter_order q1 @ [i]\<rparr>
          else q1)"

definition retire_lease :: "string \<Rightarrow> TaskStatus \<Rightarrow> task_queue \<Rightarrow> task_queue" where
  "retire_lease l st q =
     q\<lparr>active_leases := filter (\<lambda>x. x \<noteq> l) (active_leases q),
       retired_leases := (retired_leases q)(l \<mapsto> st)\<rparr>"

definition expire_lease :: "string \<Rightarrow> int \<Rightarrow> task_queue \<Rightarrow> task_queue" where
  "expire_lease i now q =
     (case record_of q i of
        None \<Rightarrow> q
      | Some r \<Rightarrow>
          (case rec_lease r of
             None \<Rightarrow> q
           | Some l \<Rightarrow>
               schedule_after_failure i ''lease expired'' now
                 (set_record i (\<lambda>r. r\<lparr>rec_lease := None\<rparr>) (retire_lease l FAILED q))))"

definition lease_expired :: "task_queue \<Rightarrow> int \<Rightarrow> QRecord \<Rightarrow> bool" where
  "lease_expired q now r \<longleftrightarrow> rec_status r = CLAIMED
     \<and> (case rec_lease r of None \<Rightarrow> False
        | Some l \<Rightarrow> (case lease_objects q l of None \<Rightarrow> False | Some o' \<Rightarrow> now \<ge> ql_expires_at o'))"

definition expire_due :: "int \<Rightarrow> task_queue \<Rightarrow> task_queue \<times> nat" where
  "expire_due now q =
     (let expired = map rec_id (filter (lease_expired q now) (q_records q))
      in (fold (\<lambda>i. expire_lease i now) expired q, length expired))"

section \<open>Operations\<close>

definition depth :: "int \<Rightarrow> task_queue \<Rightarrow> task_queue \<times> nat" where
  "depth now q = (let q1 = fst (expire_due now q) in (q1, active_count q1))"

definition q_enqueue :: "PipelineTask \<Rightarrow> int \<Rightarrow> task_queue \<Rightarrow> task_queue \<times> string q_result" where
  "q_enqueue task now q =
     (if task_lease_id task \<noteq> None then (q, Inl INVALID_REQUEST)
      else
        let q1 = fst (expire_due now q) in
        if record_of q1 (task_id task) \<noteq> None then (q1, Inl DUPLICATE_TASK)
        else if (case max_size q1 of None \<Rightarrow> False | Some m \<Rightarrow> active_count q1 \<ge> m) then (q1, Inl QUEUE_FULL)
        else (q1\<lparr>q_records := q_records q1 @
                [\<lparr>rec_task = task, rec_status = PENDING, rec_available_at = max (task_created_at task) now,
                  rec_sequence = next_sequence q1, rec_lease = None, rec_failure_reason = None,
                  rec_result = None\<rparr>],
                next_sequence := next_sequence q1 + 1\<rparr>, Inr (task_id task)))"

definition claim_key :: "QRecord \<Rightarrow> int \<times> int \<times> int \<times> nat" where
  "claim_key r = (- task_priority (rec_task r), rec_available_at r, task_created_at (rec_task r), rec_sequence r)"

definition candidates :: "int \<Rightarrow> task_queue \<Rightarrow> QRecord list" where
  "candidates now q = filter (\<lambda>r. rec_status r = PENDING \<and> rec_available_at r \<le> now) (q_records q)"

definition q_claim :: "string \<Rightarrow> int \<Rightarrow> int \<Rightarrow> task_queue \<Rightarrow> task_queue \<times> PipelineTask option q_result" where
  "q_claim worker duration now q =
     (if py_blank worker then (q, Inl INVALID_REQUEST)
      else if duration \<le> 0 then (q, Inl INVALID_REQUEST)
      else
        let q1 = fst (expire_due now q) in
        case min_by claim_key (candidates now q1) of
          None \<Rightarrow> (q1, Inr None)
        | Some r \<Rightarrow>
            let l = lease_name (next_lease_number q1);
                lease = \<lparr>ql_lease_id = l, ql_worker_id = worker, ql_expires_at = now + 1000000 * duration,
                         ql_duration_seconds = duration\<rparr>;
                q2 = set_record (rec_id r) (\<lambda>x. x\<lparr>rec_lease := Some l, rec_status := CLAIMED\<rparr>) q1
            in (q2\<lparr>next_lease_number := next_lease_number q1 + 1,
                   lease_objects := (lease_objects q1)(l \<mapsto> lease),
                   active_leases := active_leases q1 @ [l]\<rparr>,
                Inr (Some ((rec_task r)\<lparr>task_lease_id := Some l, task_leased_by := Some worker,
                  task_lease_expires_at := Some (ql_expires_at lease)\<rparr>))))"

definition q_heartbeat :: "string \<Rightarrow> int option \<Rightarrow> int \<Rightarrow> task_queue \<Rightarrow> task_queue \<times> bool" where
  "q_heartbeat l duration now q =
     (if (case duration of None \<Rightarrow> False | Some d \<Rightarrow> d \<le> 0) then (q, False)
      else
        let q1 = fst (expire_due now q) in
        case (if l \<in> set (active_leases q1) then lease_objects q1 l else None) of
          None \<Rightarrow> (q1, False)
        | Some lease \<Rightarrow>
            let d = (case duration of None \<Rightarrow> ql_duration_seconds lease | Some d \<Rightarrow> d);
                q2 = q1\<lparr>lease_objects := (lease_objects q1)(l \<mapsto>
                      lease\<lparr>ql_duration_seconds := d, ql_expires_at := now + 1000000 * d\<rparr>)\<rparr>
            in case find_record_for_lease q2 l of
                 None \<Rightarrow> (retire_lease l FAILED q2, False)
               | Some _ \<Rightarrow> (q2, True))"

definition active_lease :: "string \<Rightarrow> int \<Rightarrow> task_queue \<Rightarrow> task_queue \<times> QRecord q_result" where
  "active_lease l now q =
     (case (if l \<in> set (active_leases q) then lease_objects q l else None) of
        None \<Rightarrow> (q, Inl (if retired_leases q l = Some FAILED then LEASE_EXPIRED else LEASE_NOT_FOUND))
      | Some lease \<Rightarrow>
          if now \<ge> ql_expires_at lease then
            (case find_record_for_lease q l of
               None \<Rightarrow> (q, Inl LEASE_EXPIRED)
             | Some r \<Rightarrow> (expire_lease (rec_id r) now q, Inl LEASE_EXPIRED))
          else
            (case find_record_for_lease q l of
               None \<Rightarrow> (q, Inl LEASE_NOT_FOUND)
             | Some r \<Rightarrow> if rec_status r \<noteq> CLAIMED then (q, Inl TASK_NOT_CLAIMED) else (q, Inr r)))"

definition q_complete :: "string \<Rightarrow> string \<Rightarrow> int \<Rightarrow> task_queue \<Rightarrow> task_queue \<times> unit q_result" where
  "q_complete l res now q =
     (case active_lease l now q of
        (q1, Inl e) \<Rightarrow> (q1, Inl e)
      | (q1, Inr r) \<Rightarrow>
          (retire_lease l COMPLETED
            (set_record (rec_id r) (\<lambda>x. x\<lparr>rec_status := COMPLETED, rec_result := Some res,
               rec_failure_reason := None, rec_lease := None\<rparr>) q1), Inr ()))"

text \<open>\<open>str.strip\<close>\<close>

definition q_fail :: "string \<Rightarrow> string \<Rightarrow> int \<Rightarrow> task_queue \<Rightarrow> task_queue \<times> unit q_result" where
  "q_fail l reason now q =
     (if py_blank reason then (q, Inl INVALID_REQUEST)
      else case active_lease l now q of
        (q1, Inl e) \<Rightarrow> (q1, Inl e)
      | (q1, Inr r) \<Rightarrow>
          (schedule_after_failure (rec_id r) (py_strip reason) now
            (set_record (rec_id r) (\<lambda>x. x\<lparr>rec_lease := None\<rparr>) (retire_lease l FAILED q1)), Inr ()))"

definition get_status :: "string \<Rightarrow> int \<Rightarrow> task_queue \<Rightarrow> task_queue \<times> TaskStatus q_result" where
  "get_status i now q =
     (let q1 = fst (expire_due now q) in (q1, rbind (record_for_task q1 i) (\<lambda>r. Inr (rec_status r))))"

definition snapshot :: "task_queue \<Rightarrow> QRecord \<Rightarrow> TaskSnapshot" where
  "snapshot q r =
     (let lease = Option.bind (rec_lease r) (lease_objects q) in
      \<lparr>snap_task_id = rec_id r, snap_status = rec_status r, snap_retry_count = retry_count (rec_task r),
       snap_max_retries = max_retries (rec_task r),
       snap_available_at = (if rec_status r = PENDING then Some (rec_available_at r) else None),
       snap_lease_id = map_option ql_lease_id lease, snap_leased_by = map_option ql_worker_id lease,
       snap_lease_expires_at = map_option ql_expires_at lease,
       snap_failure_reason = rec_failure_reason r, snap_result = rec_result r\<rparr>)"

definition inspect :: "string \<Rightarrow> int \<Rightarrow> task_queue \<Rightarrow> task_queue \<times> TaskSnapshot q_result" where
  "inspect i now q =
     (let q1 = fst (expire_due now q) in (q1, rbind (record_for_task q1 i) (\<lambda>r. Inr (snapshot q1 r))))"

definition get_result :: "string \<Rightarrow> int \<Rightarrow> task_queue \<Rightarrow> task_queue \<times> string option q_result" where
  "get_result i now q =
     (let q1 = fst (expire_due now q) in (q1, rbind (record_for_task q1 i) (\<lambda>r. Inr (rec_result r))))"

definition sweep_expired :: "int \<Rightarrow> task_queue \<Rightarrow> task_queue \<times> nat" where
  "sweep_expired now q = expire_due now q"

text \<open>The clock is read once more for every dead letter; here it stands still during the call.\<close>

definition list_dead_letters :: "int \<Rightarrow> task_queue \<Rightarrow> task_queue \<times> TaskSnapshot list" where
  "list_dead_letters now q =
     (let q1 = fst (expire_due now q)
      in (q1, map (snapshot q1) (concat (map (\<lambda>i. case record_of q1 i of None \<Rightarrow> [] | Some r \<Rightarrow> [r])
           (dead_letter_order q1)))))"

end
