(* ===== verification/Task_Queue_Laws.thy ===== *)
theory Task_Queue_Laws
  imports Task_Queue
begin

text \<open>
  The life of a task in the broker queue as a step relation (insert, take, renew, finish,
  give back), its invariant, and the refinement of every operation of \<open>InMemoryTaskQueue\<close>
  to it.
\<close>

section \<open>Lease names\<close>

lemma lease_name_inject [simp]: "lease_name m = lease_name n \<longleftrightarrow> m = n"
proof
  assume "lease_name m = lease_name n"
  then have "replicate (8 - length (decimal m)) (CHR ''0'') @ decimal m =
      replicate (8 - length (decimal n)) (CHR ''0'') @ decimal n"
    by (simp add: lease_name_def)
  then have "from_digits (decimal m) = from_digits (decimal n)" by (metis from_digits_pad)
  then show "m = n" by (simp add: from_digits_decimal)
qed simp

section \<open>Steps\<close>

definition issued :: "task_queue \<Rightarrow> string set" where
  "issued q = lease_name ` {..<next_lease_number q}"

definition release :: "string \<Rightarrow> string \<Rightarrow> (QRecord \<Rightarrow> QRecord) \<Rightarrow> TaskStatus \<Rightarrow> string list \<Rightarrow> task_queue \<Rightarrow> task_queue" where
  "release i l f st dead q =
     (retire_lease l st (set_record i f q))\<lparr>dead_letter_order := dead_letter_order q @ dead\<rparr>"

definition given_back :: "int \<Rightarrow> string \<Rightarrow> int \<Rightarrow> QRecord \<Rightarrow> QRecord" where
  "given_back backoff reason now r = after_failure backoff reason now (r\<lparr>rec_lease := None\<rparr>)"

definition completed :: "string \<Rightarrow> QRecord \<Rightarrow> QRecord" where
  "completed res r = r\<lparr>rec_status := COMPLETED, rec_result := Some res, rec_failure_reason := None, rec_lease := None\<rparr>"

inductive qstep :: "task_queue \<Rightarrow> task_queue \<Rightarrow> bool" where
  insert:
    "\<lbrakk> record_of q (task_id t) = None; case max_size q of None \<Rightarrow> True | Some m \<Rightarrow> active_count q < m;
       r = \<lparr>rec_task = t, rec_status = PENDING, rec_available_at = at, rec_sequence = next_sequence q,
            rec_lease = None, rec_failure_reason = None, rec_result = None\<rparr> \<rbrakk>
     \<Longrightarrow> qstep q (q\<lparr>q_records := q_records q @ [r], next_sequence := next_sequence q + 1\<rparr>)"
| take:
    "\<lbrakk> record_of q i = Some r; rec_status r = PENDING; l = lease_name (next_lease_number q) \<rbrakk>
     \<Longrightarrow> qstep q ((set_record i (\<lambda>x. x\<lparr>rec_lease := Some l, rec_status := CLAIMED\<rparr>) q)
           \<lparr>next_lease_number := next_lease_number q + 1, lease_objects := (lease_objects q)(l \<mapsto> lease),
            active_leases := active_leases q @ [l]\<rparr>)"
| renew:
    "\<lbrakk> l \<in> set (active_leases q) \<rbrakk> \<Longrightarrow> qstep q (q\<lparr>lease_objects := (lease_objects q)(l \<mapsto> lease)\<rparr>)"
| finish:
    "\<lbrakk> record_of q i = Some r; rec_lease r = Some l \<rbrakk> \<Longrightarrow> qstep q (release i l (completed res) COMPLETED [] q)"
| give_back:
    "\<lbrakk> record_of q i = Some r; rec_lease r = Some l \<rbrakk>
     \<Longrightarrow> qstep q (release i l (given_back (retry_backoff q) reason now) FAILED
           (if retry_count (rec_task r) + 1 > max_retries (rec_task r) then [i] else []) q)"

section \<open>The invariant\<close>

definition record_ok :: "task_queue \<Rightarrow> QRecord \<Rightarrow> bool" where
  "record_ok q r \<longleftrightarrow> rec_status r \<noteq> FAILED \<and> (rec_status r = CLAIMED \<longleftrightarrow> rec_lease r \<noteq> None)
     \<and> (rec_status r = COMPLETED \<longleftrightarrow> rec_result r \<noteq> None)
     \<and> (\<forall>l. rec_lease r = Some l \<longrightarrow> l \<in> set (active_leases q) \<and> lease_objects q l \<noteq> None)
     \<and> rec_sequence r < next_sequence q
     \<and> (rec_status r = DEAD_LETTER \<longleftrightarrow> rec_id r \<in> set (dead_letter_order q))"

definition q_inv :: "task_queue \<Rightarrow> bool" where
  "q_inv q \<longleftrightarrow> distinct (map rec_id (q_records q)) \<and> inj_on rec_sequence (set (q_records q))
     \<and> (\<forall>r \<in> set (q_records q). record_ok q r)
     \<and> (\<forall>r \<in> set (q_records q). \<forall>r' \<in> set (q_records q). rec_lease r = rec_lease r' \<longrightarrow> rec_lease r \<noteq> None \<longrightarrow> r = r')
     \<and> set (active_leases q) \<subseteq> issued q \<and> set (active_leases q) \<inter> dom (retired_leases q) = {}
     \<and> dom (retired_leases q) \<subseteq> issued q
     \<and> (\<forall>l \<in> set (active_leases q). \<exists>r \<in> set (q_records q). rec_lease r = Some l)
     \<and> distinct (dead_letter_order q) \<and> set (dead_letter_order q) \<subseteq> rec_id ` set (q_records q)"

definition cap_ok :: "task_queue \<Rightarrow> bool" where
  "cap_ok q \<longleftrightarrow> (case max_size q of None \<Rightarrow> True | Some m \<Rightarrow> active_count q \<le> m)"

lemma record_of_in: "record_of q i = Some r \<Longrightarrow> r \<in> set (q_records q)"
  unfolding record_of_def by (drule find_row_Some(1))

lemma record_of_id: "record_of q i = Some r \<Longrightarrow> rec_id r = i"
  unfolding record_of_def by (drule find_row_Some(2))

lemma record_of_mem: "distinct (map rec_id (q_records q)) \<Longrightarrow> r \<in> set (q_records q) \<Longrightarrow> record_of q (rec_id r) = Some r"
  unfolding record_of_def by (rule find_row_key)

lemma record_unique:
  assumes "q_inv q" and "record_of q i = Some r" and "x \<in> set (q_records q)"
  shows "rec_id x = i \<longleftrightarrow> x = r"
proof -
  have "distinct (map rec_id (q_records q))" using assms(1) by (simp add: q_inv_def)
  then have "record_of q (rec_id x) = Some x" using assms(3) by (rule record_of_mem)
  then show ?thesis using assms(2) record_of_id [OF assms(2)] by (metis option.inject)
qed

lemma inv_record_ok: "q_inv q \<Longrightarrow> r \<in> set (q_records q) \<Longrightarrow> record_ok q r"
  unfolding q_inv_def by blast

lemma leased_claimed:
  assumes "q_inv q" and "record_of q i = Some r" and "rec_lease r = Some l"
  shows "rec_status r = CLAIMED" and "rec_result r = None" and "i \<notin> set (dead_letter_order q)"
    and "l \<in> set (active_leases q)"
  using inv_record_ok [OF assms(1) record_of_in [OF assms(2)]] assms(3) record_of_id [OF assms(2)]
  unfolding record_ok_def by auto

text \<open>An update of the record of a task, with its effect on membership.\<close>

lemma set_record_set:
  assumes "q_inv q" and "record_of q i = Some r"
  shows "set (update_where (\<lambda>x. rec_id x = i) f (q_records q)) = insert (f r) (set (q_records q) - {r})"
proof -
  have "set (update_where (\<lambda>x. rec_id x = i) f (q_records q)) = (\<lambda>x. if x = r then f x else x) ` set (q_records q)"
    unfolding update_where_def using record_unique [OF assms] by (auto simp: image_iff)
  also have "\<dots> = insert (f r) (set (q_records q) - {r})" using record_of_in [OF assms(2)] by auto
  finally show ?thesis .
qed

lemma inj_on_replace:
  assumes "inj_on g S" and "r \<in> S" and "g r' = g r"
  shows "inj_on g (insert r' (S - {r}))"
  using assms by (auto simp: inj_on_def)

lemma set_record_ids:
  assumes "\<And>x. rec_id (f x) = rec_id x"
  shows "map rec_id (update_where p f rs) = map rec_id rs"
  by (simp add: update_where_def assms)

lemma release_inv:
  assumes inv: "q_inv q" and r: "record_of q i = Some r" and l: "rec_lease r = Some l"
    and f: "rec_id (f r) = rec_id r" "\<And>x. rec_id (f x) = rec_id x" "rec_lease (f r) = None" "rec_sequence (f r) = rec_sequence r"
    and st: "rec_status (f r) \<in> {PENDING, COMPLETED, DEAD_LETTER}"
    and res: "rec_status (f r) = COMPLETED \<longleftrightarrow> rec_result (f r) \<noteq> None"
    and dead: "dead = (if rec_status (f r) = DEAD_LETTER then [i] else [])"
  shows "q_inv (release i l f st' dead q)"
proof -
  let ?q = "release i l f st' dead q"
  note old = inv [unfolded q_inv_def]
  have recs: "set (q_records ?q) = insert (f r) (set (q_records q) - {r})"
    by (simp add: release_def retire_lease_def set_record_def set_record_set [OF inv r])
  have rmem: "r \<in> set (q_records q)" "rec_id r = i" using record_of_in [OF r] record_of_id [OF r] by auto
  have okr: "record_ok q r" by (rule inv_record_ok [OF inv rmem(1)])
  note lact = leased_claimed(4) [OF inv r l] and notdead = leased_claimed(3) [OF inv r l]
  have act: "set (active_leases ?q) = set (active_leases q) - {l}"
    by (auto simp: release_def retire_lease_def set_record_def)
  have objs: "lease_objects ?q = lease_objects q" "next_sequence ?q = next_sequence q" "issued ?q = issued q"
    by (simp_all add: release_def retire_lease_def set_record_def issued_def)
  have dl: "dead_letter_order ?q = dead_letter_order q @ dead" by (simp add: release_def)
  have ret: "dom (retired_leases ?q) = insert l (dom (retired_leases q))"
    by (auto simp: release_def retire_lease_def set_record_def)
  have uniq: "rec_lease x = rec_lease y \<Longrightarrow> rec_lease x \<noteq> None \<Longrightarrow> x = y"
    if "x \<in> set (q_records q)" "y \<in> set (q_records q)" for x y
    using old that by blast
  have other: "rec_id x \<noteq> i \<and> rec_lease x \<noteq> Some l" if "x \<in> set (q_records q)" "x \<noteq> r" for x
    using that(2) record_unique [OF inv r that(1)] uniq [OF that(1) rmem(1)] l by auto
  have ok: "record_ok ?q x" if "x \<in> set (q_records ?q)" for x
  proof (cases "x = f r")
    case True
    have "rec_sequence r < next_sequence q" using okr by (simp add: record_ok_def)
    then show ?thesis
      unfolding True record_ok_def objs dl using st res f(1,3,4) dead rmem(2) notdead
      by (elim insertE emptyE) simp_all
  next
    case False
    then have x: "x \<in> set (q_records q)" "x \<noteq> r" using that recs by auto
    have "record_ok q x" using old x(1) by blast
    moreover have "rec_id x \<notin> set dead" using other [OF x] dead by simp
    ultimately show ?thesis using other [OF x] unfolding record_ok_def objs dl act by auto
  qed
  have "inj_on rec_sequence (set (q_records ?q))"
    unfolding recs using old rmem(1) f(4) by (intro inj_on_replace) auto
  moreover have "\<forall>x \<in> set (q_records ?q). \<forall>y \<in> set (q_records ?q). rec_lease x = rec_lease y \<longrightarrow> rec_lease x \<noteq> None \<longrightarrow> x = y"
  proof (intro ballI impI)
    fix x y
    assume xy: "x \<in> set (q_records ?q)" "y \<in> set (q_records ?q)" "rec_lease x = rec_lease y" "rec_lease x \<noteq> None"
    then have "x \<noteq> f r" "y \<noteq> f r" using f(3) by auto
    then have "x \<in> set (q_records q)" "y \<in> set (q_records q)" using xy(1,2) unfolding recs by simp_all
    then show "x = y" by (rule uniq [OF _ _ xy(3,4)])
  qed
  moreover have "\<exists>x \<in> set (q_records ?q). rec_lease x = Some m" if m: "m \<in> set (active_leases ?q)" for m
  proof -
    have m: "m \<in> set (active_leases q)" "m \<noteq> l" using m unfolding act by auto
    obtain x where x: "x \<in> set (q_records q)" "rec_lease x = Some m" using old m(1) by blast
    have "x \<noteq> r" using x(2) m(2) l by auto
    with x show ?thesis unfolding recs by blast
  qed
  moreover have "distinct (map rec_id (q_records ?q))"
    using old by (simp add: release_def retire_lease_def set_record_def set_record_ids [OF f(2)])
  moreover have "set (active_leases ?q) \<subseteq> issued ?q" "dom (retired_leases ?q) \<subseteq> issued ?q"
    "set (active_leases ?q) \<inter> dom (retired_leases ?q) = {}"
    using old lact unfolding act ret objs by auto
  moreover have "distinct (dead_letter_order ?q)" unfolding dl using old dead notdead by simp
  moreover have "set (dead_letter_order ?q) \<subseteq> rec_id ` set (q_records ?q)"
  proof -
    have "rec_id ` set (q_records ?q) = rec_id ` set (q_records q)"
      unfolding recs using rmem f(1) by (auto simp: image_iff)
    moreover have "set dead \<subseteq> {i}" unfolding dead by auto
    moreover have "i \<in> rec_id ` set (q_records q)" using rmem by blast
    moreover have "set (dead_letter_order q) \<subseteq> rec_id ` set (q_records q)" using old by blast
    ultimately show ?thesis unfolding dl set_append by blast
  qed
  ultimately show ?thesis using ok unfolding q_inv_def by blast
qed

lemma qstep_inv:
  assumes "qstep q q'" and inv: "q_inv q"
  shows "q_inv q'"
  using assms(1)
proof cases
  case (insert t r at)
  let ?r = "\<lparr>rec_task = t, rec_status = PENDING, rec_available_at = at, rec_sequence = next_sequence q,
            rec_lease = None, rec_failure_reason = None, rec_result = None\<rparr>"
  have new: "rec_id x \<noteq> task_id t" if "x \<in> set (q_records q)" for x
    using insert(2) that by (simp add: record_of_def)
  have "set (dead_letter_order q) \<subseteq> rec_id ` set (q_records q)" using inv by (simp add: q_inv_def)
  then have nd: "task_id t \<notin> set (dead_letter_order q)" using new by (metis imageE subsetD)
  have ok: "record_ok q' x" if "record_ok q x" for x using that insert(1) by (auto simp: record_ok_def)
  have seq: "rec_sequence x < next_sequence q" if "x \<in> set (q_records q)" for x
    using inv that by (auto simp: q_inv_def record_ok_def)
  have okr: "record_ok q' ?r" using nd insert(1) by (simp add: record_ok_def)
  have recs: "q_records q' = q_records q @ [?r]" using insert(1,4) by simp
  have fields: "active_leases q' = active_leases q" "retired_leases q' = retired_leases q"
    "dead_letter_order q' = dead_letter_order q" "issued q' = issued q"
    using insert(1) by (simp_all add: issued_def)
  have "task_id t \<notin> rec_id ` set (q_records q)" "next_sequence q \<notin> rec_sequence ` set (q_records q)"
    using new seq by (metis imageE, metis imageE less_irrefl)
  then have "distinct (map rec_id (q_records q'))" "inj_on rec_sequence (set (q_records q'))"
    using inv unfolding recs by (simp_all add: q_inv_def image_def)
  moreover have "\<forall>x \<in> set (q_records q'). record_ok q' x" using inv ok okr unfolding recs q_inv_def by simp
  moreover have "\<forall>x \<in> set (q_records q'). \<forall>y \<in> set (q_records q'). rec_lease x = rec_lease y \<longrightarrow> rec_lease x \<noteq> None \<longrightarrow> x = y"
    using inv unfolding recs q_inv_def by auto
  moreover have "set (dead_letter_order q') \<subseteq> rec_id ` set (q_records q')"
    "\<forall>l \<in> set (active_leases q'). \<exists>x \<in> set (q_records q'). rec_lease x = Some l"
    using inv unfolding recs fields q_inv_def by auto
  ultimately show ?thesis using inv unfolding q_inv_def fields by blast
next
  case (take i r l lease)
  let ?f = "\<lambda>x. x\<lparr>rec_lease := Some l, rec_status := CLAIMED\<rparr>"
  note old = inv [unfolded q_inv_def]
  have recs: "set (q_records q') = insert (?f r) (set (q_records q) - {r})"
    by (simp add: take(1) set_record_def set_record_set [OF inv take(2)])
  have rmem: "r \<in> set (q_records q)" "rec_id r = i" using record_of_in [OF take(2)] record_of_id [OF take(2)] by auto
  have okr: "record_ok q r" using old rmem by blast
  have fresh: "l \<notin> issued q" by (auto simp: take(4) issued_def)
  then have nl: "l \<notin> set (active_leases q)" "l \<notin> dom (retired_leases q)" using old by blast+
  have noref: "rec_lease x \<noteq> Some l" if "x \<in> set (q_records q)" for x
    using old that nl(1) by (auto simp: record_ok_def)
  have fields: "active_leases q' = active_leases q @ [l]" "retired_leases q' = retired_leases q"
    "dead_letter_order q' = dead_letter_order q" "next_sequence q' = next_sequence q"
    "issued q' = insert l (issued q)" "lease_objects q' = (lease_objects q)(l \<mapsto> lease)"
    by (auto simp: take(1,4) set_record_def issued_def lessThan_Suc)
  have ok: "record_ok q' x" if "x \<in> set (q_records q')" for x
  proof (cases "x = ?f r")
    case True
    then show ?thesis using okr take(3) unfolding record_ok_def fields by auto
  next
    case False
    then have x: "x \<in> set (q_records q)" using that recs by auto
    then have "record_ok q x" using old by blast
    then show ?thesis unfolding record_ok_def fields by auto
  qed
  have uniq: "rec_lease x = rec_lease y \<Longrightarrow> rec_lease x \<noteq> None \<Longrightarrow> x = y"
    if "x \<in> set (q_records q)" "y \<in> set (q_records q)" for x y
    using old that by blast
  have "inj_on rec_sequence (set (q_records q'))"
    unfolding recs using old rmem(1) by (intro inj_on_replace) auto
  moreover have "\<forall>x \<in> set (q_records q'). \<forall>y \<in> set (q_records q'). rec_lease x = rec_lease y \<longrightarrow> rec_lease x \<noteq> None \<longrightarrow> x = y"
    unfolding recs using uniq noref by auto
  moreover have "\<exists>x \<in> set (q_records q'). rec_lease x = Some m" if m: "m \<in> set (active_leases q')" for m
  proof (cases "m = l")
    case True
    then show ?thesis unfolding recs by auto
  next
    case False
    then have "m \<in> set (active_leases q)" using m fields by simp
    then obtain x where x: "x \<in> set (q_records q)" "rec_lease x = Some m" using old by blast
    have "rec_lease r = None" using okr take(3) by (simp add: record_ok_def)
    with x have "x \<noteq> r" by auto
    with x show ?thesis unfolding recs by auto
  qed
  moreover have "distinct (map rec_id (q_records q'))"
    using old by (simp add: take(1) set_record_def set_record_ids)
  moreover have "set (active_leases q') \<subseteq> issued q'" "dom (retired_leases q') \<subseteq> issued q'"
    "set (active_leases q') \<inter> dom (retired_leases q') = {}"
    using old nl unfolding fields by auto
  moreover have "set (dead_letter_order q') \<subseteq> rec_id ` set (q_records q')"
  proof -
    have "rec_id ` set (q_records q') = rec_id ` set (q_records q)"
      unfolding recs using rmem by (auto simp: image_iff)
    then show ?thesis using old by (simp add: fields)
  qed
  ultimately show ?thesis using ok old fields(3) unfolding q_inv_def by auto
next
  case (renew l lease)
  then show ?thesis using inv by (auto simp: q_inv_def record_ok_def issued_def)
next
  case (finish i r l res)
  show ?thesis unfolding finish(1)
    by (rule release_inv [OF inv finish(2,3)]) (simp_all add: completed_def)
next
  case (give_back i r l reason now)
  show ?thesis unfolding give_back(1)
    by (rule release_inv [OF inv give_back(2,3)]) (auto simp: given_back_def after_failure_def Let_def)
qed

section \<open>Capacity and history\<close>

lemma rowcount_update_le:
  assumes "\<And>x. x \<in> set rs \<Longrightarrow> s x \<Longrightarrow> p (f x) \<Longrightarrow> p x"
  shows "rowcount p (update_where s f rs) \<le> rowcount p rs"
  using assms unfolding rowcount_def update_where_def by (induction rs) auto

lemma active_count_set_record:
  assumes "q_inv q" and "record_of q i = Some r" and "is_active (rec_status (f r)) \<longrightarrow> is_active (rec_status r)"
  shows "rowcount (\<lambda>x. is_active (rec_status x)) (update_where (\<lambda>x. rec_id x = i) f (q_records q)) \<le> active_count q"
  unfolding active_count_def
  by (rule rowcount_update_le) (use assms record_unique [OF assms(1,2)] in blast)

lemma qstep_cap:
  assumes "qstep q q'" and inv: "q_inv q" and cap: "cap_ok q"
  shows "cap_ok q'"
  using assms(1)
proof cases
  case (insert t r at)
  have "active_count q' = active_count q + 1"
    using insert(1,4) by (simp add: active_count_def rowcount_def is_active_def)
  with insert show ?thesis by (auto simp: cap_ok_def split: option.splits)
next
  case (take i r l lease)
  have "active_count q' \<le> active_count q"
    using active_count_set_record [OF inv take(2), of "\<lambda>x. x\<lparr>rec_lease := Some l, rec_status := CLAIMED\<rparr>"] take(3)
    by (simp add: take(1) set_record_def active_count_def is_active_def)
  moreover have "max_size q' = max_size q" by (simp add: take(1) set_record_def)
  ultimately show ?thesis using cap by (auto simp: cap_ok_def split: option.splits)
next
  case (renew l lease)
  have "active_count q' = active_count q" "max_size q' = max_size q" by (simp_all add: renew(1) active_count_def)
  then show ?thesis using cap by (auto simp: cap_ok_def split: option.splits)
next
  case (finish i r l res)
  have "active_count q' \<le> active_count q"
    using active_count_set_record [OF inv finish(2), of "completed res"]
    by (simp add: finish(1) release_def retire_lease_def set_record_def active_count_def completed_def is_active_def)
  moreover have "max_size q' = max_size q" by (simp add: finish(1) release_def retire_lease_def set_record_def)
  ultimately show ?thesis using cap by (auto simp: cap_ok_def split: option.splits)
next
  case (give_back i r l reason now)
  have "rec_status r = CLAIMED" using leased_claimed [OF inv give_back(2,3)] by blast
  then have "active_count q' \<le> active_count q"
    using active_count_set_record [OF inv give_back(2), of "given_back (retry_backoff q) reason now"]
    by (simp add: give_back(1) release_def retire_lease_def set_record_def active_count_def is_active_def)
  moreover have "max_size q' = max_size q" by (simp add: give_back(1) release_def retire_lease_def set_record_def)
  ultimately show ?thesis using cap by (auto simp: cap_ok_def split: option.splits)
qed

definition q_kept :: "task_queue \<Rightarrow> task_queue \<Rightarrow> bool" where
  "q_kept q q' \<longleftrightarrow>
     (\<forall>r \<in> set (q_records q). rec_status r \<in> {COMPLETED, DEAD_LETTER} \<longrightarrow> r \<in> set (q_records q'))
     \<and> rec_id ` set (q_records q) \<subseteq> rec_id ` set (q_records q')
     \<and> issued q \<subseteq> issued q' \<and> set (active_leases q') \<inter> issued q \<subseteq> set (active_leases q)"

lemma q_kept_refl: "q_kept q q"
  by (simp add: q_kept_def)

lemma q_kept_trans:
  assumes ab: "q_kept a b" and bc: "q_kept b c"
  shows "q_kept a c"
proof -
  have "r \<in> set (q_records c)" if "r \<in> set (q_records a)" "rec_status r \<in> {COMPLETED, DEAD_LETTER}" for r
  proof -
    have "r \<in> set (q_records b)" using ab that unfolding q_kept_def by (elim conjE) (drule (1) bspec, erule (1) mp)
    then show ?thesis using bc that(2) unfolding q_kept_def by (elim conjE) (drule (1) bspec, erule (1) mp)
  qed
  moreover have "rec_id ` set (q_records a) \<subseteq> rec_id ` set (q_records c)"
    using ab bc unfolding q_kept_def by (elim conjE) (rule order_trans)
  moreover have "issued a \<subseteq> issued c" using ab bc unfolding q_kept_def by (elim conjE) (rule order_trans)
  moreover have "set (active_leases c) \<inter> issued a \<subseteq> set (active_leases a)"
  proof -
    have "issued a \<subseteq> issued b" "set (active_leases b) \<inter> issued a \<subseteq> set (active_leases a)"
      "set (active_leases c) \<inter> issued b \<subseteq> set (active_leases b)"
      using ab bc unfolding q_kept_def by simp_all
    then show ?thesis by blast
  qed
  ultimately show ?thesis unfolding q_kept_def by (intro conjI ballI impI)
qed

lemma set_record_kept:
  assumes inv: "q_inv q" and r: "record_of q i = Some r" "rec_status r \<notin> {COMPLETED, DEAD_LETTER}"
    and f: "rec_id (f r) = rec_id r"
    and q': "q_records q' = update_where (\<lambda>x. rec_id x = i) f (q_records q)"
    and l: "issued q \<subseteq> issued q'" "set (active_leases q') \<inter> issued q \<subseteq> set (active_leases q)"
  shows "q_kept q q'"
proof -
  have recs: "set (q_records q') = insert (f r) (set (q_records q) - {r})"
    by (simp add: q' set_record_set [OF inv r(1)])
  have "rec_id x \<in> rec_id ` set (q_records q')" if "x \<in> set (q_records q)" for x
    using that f unfolding recs by (cases "x = r") force+
  moreover have "x \<in> set (q_records q')" if "x \<in> set (q_records q)" "rec_status x \<in> {COMPLETED, DEAD_LETTER}" for x
    using that r(2) unfolding recs by blast
  ultimately show ?thesis using l unfolding q_kept_def by (intro conjI image_subsetI ballI impI) 
qed

lemma qstep_kept:
  assumes "qstep q q'" and inv: "q_inv q"
  shows "q_kept q q'"
  using assms(1)
proof cases
  case (insert t r at)
  then show ?thesis by (auto simp: q_kept_def issued_def)
next
  case (take i r l lease)
  have "l \<notin> issued q" by (auto simp: take(4) issued_def)
  then show ?thesis using take(3)
    by (intro set_record_kept [OF inv take(2), where f = "\<lambda>x. x\<lparr>rec_lease := Some l, rec_status := CLAIMED\<rparr>"])
      (auto simp: take(1) set_record_def issued_def)
next
  case (renew l lease)
  then show ?thesis by (auto simp: q_kept_def issued_def)
next
  case (finish i r l res)
  have "rec_status r = CLAIMED" using leased_claimed [OF inv finish(2,3)] by blast
  then show ?thesis
    by (intro set_record_kept [OF inv finish(2), where f = "completed res"])
      (auto simp: finish(1) release_def retire_lease_def set_record_def issued_def completed_def)
next
  case (give_back i r l reason now)
  have "rec_status r = CLAIMED" using leased_claimed [OF inv give_back(2,3)] by blast
  then show ?thesis
    by (intro set_record_kept [OF inv give_back(2), where f = "given_back (retry_backoff q) reason now"])
      (auto simp: give_back(1) release_def retire_lease_def set_record_def issued_def given_back_def after_failure_def Let_def)
qed

lemma qsteps_all:
  assumes "qstep\<^sup>*\<^sup>* q q'" and "q_inv q"
  shows "q_inv q' \<and> q_kept q q' \<and> (cap_ok q \<longrightarrow> cap_ok q')"
  using assms
proof (induction rule: rtranclp_induct)
  case base
  then show ?case by (simp add: q_kept_refl)
next
  case (step y z)
  then show ?case using qstep_inv qstep_cap qstep_kept q_kept_trans by blast
qed

section \<open>Operations\<close>

lemma set_record_twice:
  assumes "\<And>x. rec_id (g x) = rec_id x"
  shows "update_where (\<lambda>x. rec_id x = i) f (update_where (\<lambda>x. rec_id x = i) g rs) =
    update_where (\<lambda>x. rec_id x = i) (\<lambda>x. f (g x)) rs"
  by (simp add: update_where_def assms)

lemma record_of_set:
  assumes "\<And>x. rec_id (g x) = rec_id x"
  shows "find_row (\<lambda>x. rec_id x = i) (update_where (\<lambda>x. rec_id x = i) g rs) =
    map_option g (find_row (\<lambda>x. rec_id x = i) rs)"
  by (induction rs) (auto simp: find_row_def update_where_def assms)

lemma failure_is_release:
  assumes inv: "q_inv q" and r: "record_of q i = Some r" "rec_lease r = Some l"
  shows "schedule_after_failure i reason now (set_record i (\<lambda>x. x\<lparr>rec_lease := None\<rparr>) (retire_lease l FAILED q)) =
    release i l (given_back (retry_backoff q) reason now) FAILED
      (if retry_count (rec_task r) + 1 > max_retries (rec_task r) then [i] else []) q"
proof -
  note nd = leased_claimed(3) [OF inv r]
  have "record_of (set_record i (\<lambda>x. x\<lparr>rec_lease := None\<rparr>) (retire_lease l FAILED q)) i = Some (r\<lparr>rec_lease := None\<rparr>)"
    using r(1) by (simp add: record_of_def set_record_def retire_lease_def record_of_set)
  then show ?thesis
    using nd
    by (simp add: schedule_after_failure_def release_def set_record_def retire_lease_def set_record_twice
        given_back_def [abs_def] Let_def)
qed

lemma expire_lease_step:
  assumes inv: "q_inv q"
  shows "qstep\<^sup>*\<^sup>* q (expire_lease i now q)"
proof (cases "record_of q i")
  case None
  then show ?thesis by (simp add: expire_lease_def)
next
  case (Some r)
  show ?thesis
  proof (cases "rec_lease r")
    case None
    with Some show ?thesis by (simp add: expire_lease_def)
  next
    case l: (Some l)
    have "expire_lease i now q = release i l (given_back (retry_backoff q) ''lease expired'' now) FAILED
        (if retry_count (rec_task r) + 1 > max_retries (rec_task r) then [i] else []) q"
      using Some l failure_is_release [OF inv Some l] by (simp add: expire_lease_def)
    then show ?thesis using qstep.give_back [OF Some l] by (metis r_into_rtranclp)
  qed
qed

lemma expire_due_steps:
  assumes "q_inv q"
  shows "qstep\<^sup>*\<^sup>* q (fst (expire_due now q))"
proof -
  have "q_inv q \<Longrightarrow> qstep\<^sup>*\<^sup>* q (fold (\<lambda>i. expire_lease i now) is q)" for "is" q
  proof (induction "is" arbitrary: q)
    case Nil
    then show ?case by simp
  next
    case (Cons i "is")
    note s = expire_lease_step [OF Cons.prems, of i now]
    have "q_inv (expire_lease i now q)" using qsteps_all [OF s Cons.prems] by blast
    from rtranclp_trans [OF s Cons.IH [OF this]] show ?case by simp
  qed
  with assms show ?thesis by (simp add: expire_due_def Let_def)
qed

lemma find_record_lease:
  assumes "q_inv q" and "find_record_for_lease q l = Some r"
  shows "record_of q (rec_id r) = Some r" and "rec_lease r = Some l"
proof -
  have "r \<in> set (q_records q)" "rec_lease r = Some l"
    using find_row_Some [OF assms(2) [unfolded find_record_for_lease_def]] by simp_all
  moreover have "distinct (map rec_id (q_records q))" using assms(1) by (simp add: q_inv_def)
  ultimately show "record_of q (rec_id r) = Some r" "rec_lease r = Some l" by (simp_all add: record_of_mem)
qed

lemma active_lease_Inr:
  assumes "q_inv q" and "active_lease l now q = (q1, Inr r)"
  shows "q1 = q" and "record_of q (rec_id r) = Some r" and "rec_lease r = Some l"
proof -
  have *: "q1 = q \<and> find_record_for_lease q l = Some r"
    using assms(2) unfolding active_lease_def by (simp split: option.splits if_splits)
  then show "q1 = q" "record_of q (rec_id r) = Some r" "rec_lease r = Some l"
    using find_record_lease [OF assms(1), of l r] by simp_all
qed

lemma active_lease_steps:
  assumes inv: "q_inv q"
  shows "qstep\<^sup>*\<^sup>* q (fst (active_lease l now q))"
proof -
  have "fst (active_lease l now q) \<in> insert q (range (\<lambda>i. expire_lease i now q))"
    by (simp add: active_lease_def split: option.splits)
  then show ?thesis using expire_lease_step [OF inv] by (elim insertE rangeE) simp_all
qed

end
