(* ===== verification/Task_Queue_Properties.thy ===== *)
theory Task_Queue_Properties
  imports Task_Queue_Laws
begin

text \<open>
  Every call on the broker queue is a sequence of steps of \<open>Task_Queue_Laws\<close>; from that, the
  guarantees a worker relies on: one active lease per claimed task, no lease identifier
  issued twice, the capacity bound, results and dead letters that are never lost, and the
  order in which tasks are handed out.
\<close>

section \<open>Calls\<close>

datatype queue_call =
    EnqueueTask PipelineTask int
  | ClaimTask string int int
  | HeartbeatTask string "int option" int
  | CompleteTask string string int
  | FailTask string string int
  | StatusTask string int
  | SweepTasks int

fun run_queue_call :: "queue_call \<Rightarrow> task_queue \<Rightarrow> task_queue" where
  "run_queue_call (EnqueueTask t now) q = fst (q_enqueue t now q)"
| "run_queue_call (ClaimTask w d now) q = fst (q_claim w d now q)"
| "run_queue_call (HeartbeatTask l d now) q = fst (q_heartbeat l d now q)"
| "run_queue_call (CompleteTask l res now) q = fst (q_complete l res now q)"
| "run_queue_call (FailTask l reason now) q = fst (q_fail l reason now q)"
| "run_queue_call (StatusTask i now) q = fst (get_status i now q)"
| "run_queue_call (SweepTasks now) q = fst (sweep_expired now q)"

definition run_queue_calls :: "queue_call list \<Rightarrow> task_queue \<Rightarrow> task_queue" where
  "run_queue_calls cs q = fold run_queue_call cs q"

section \<open>Calls are steps\<close>

lemma expired_inv: "q_inv q \<Longrightarrow> q_inv (fst (expire_due now q))"
  using qsteps_all [OF expire_due_steps] by blast


lemma q_enqueue_steps:
  assumes inv: "q_inv q"
  shows "qstep\<^sup>*\<^sup>* q (fst (q_enqueue t now q))"
proof -
  let ?q = "fst (expire_due now q)"
  note e = expire_due_steps [OF inv, of now]
  let ?full = "case max_size ?q of None \<Rightarrow> False | Some m \<Rightarrow> active_count ?q \<ge> m"
  show ?thesis
  proof (cases "task_lease_id t = None \<and> record_of ?q (task_id t) = None \<and> \<not> ?full")
    case True
    then have new: "record_of ?q (task_id t) = None" and room: "case max_size ?q of None \<Rightarrow> True | Some m \<Rightarrow> active_count ?q < m"
      by (auto split: option.splits)
    from True show ?thesis unfolding q_enqueue_def Let_def
      by (simp add: rtranclp.rtrancl_into_rtrancl [OF e qstep.insert [OF new room refl]] del: Suc_eq_plus1 One_nat_def)
  next
    case False
    then have "fst (q_enqueue t now q) \<in> {q, ?q}" unfolding q_enqueue_def Let_def by auto
    then show ?thesis using e by (elim insertE) simp_all
  qed
qed

lemma candidate_record:
  assumes "q_inv q" and "min_by claim_key (candidates now q) = Some r"
  shows "record_of q (rec_id r) = Some r" and "rec_status r = PENDING" and "rec_available_at r \<le> now"
proof -
  have "r \<in> set (q_records q)" and *: "rec_status r = PENDING" "rec_available_at r \<le> now"
    using min_by_Some(1) [OF assms(2)] by (simp_all add: candidates_def)
  moreover have "distinct (map rec_id (q_records q))" using assms(1) by (simp add: q_inv_def)
  ultimately show "record_of q (rec_id r) = Some r" "rec_status r = PENDING" "rec_available_at r \<le> now"
    by (simp_all add: record_of_mem)
qed

lemma q_claim_steps:
  assumes inv: "q_inv q"
  shows "qstep\<^sup>*\<^sup>* q (fst (q_claim w d now q))"
proof -
  let ?q = "fst (expire_due now q)"
  note e = expire_due_steps [OF inv, of now]
  show ?thesis
  proof (cases "py_blank w \<or> d \<le> 0")
    case True
    then have "fst (q_claim w d now q) = q" unfolding q_claim_def by auto
    then show ?thesis by simp
  next
    case ok: False
    show ?thesis
    proof (cases "min_by claim_key (candidates now ?q)")
      case None
      with ok have "fst (q_claim w d now q) = ?q" unfolding q_claim_def Let_def by simp
      then show ?thesis using e by simp
    next
      case (Some r)
      note c = candidate_record [OF expired_inv [OF inv] Some]
      from ok Some show ?thesis unfolding q_claim_def Let_def
        using rtranclp.rtrancl_into_rtrancl [OF e qstep.take [OF c(1,2) refl]] by simp
    qed
  qed
qed

lemma lease_has_record:
  assumes "q_inv q" and "l \<in> set (active_leases q)"
  shows "find_record_for_lease q l \<noteq> None"
proof -
  have "\<forall>l \<in> set (active_leases q). \<exists>r \<in> set (q_records q). rec_lease r = Some l"
    using assms(1) unfolding q_inv_def by (elim conjE)
  then obtain r where "r \<in> set (q_records q)" "rec_lease r = Some l" using assms(2) by blast
  then show ?thesis unfolding find_record_for_lease_def find_row_None by blast
qed

lemma q_heartbeat_steps:
  assumes inv: "q_inv q"
  shows "qstep\<^sup>*\<^sup>* q (fst (q_heartbeat l d now q))"
proof -
  let ?q = "fst (expire_due now q)"
  note e = expire_due_steps [OF inv, of now]
  note inv1 = expired_inv [OF inv, of now]
  have found: "find_record_for_lease (?q\<lparr>lease_objects := g\<rparr>) l \<noteq> None" if "l \<in> set (active_leases ?q)" for g
    using lease_has_record [OF inv1 that] unfolding find_record_for_lease_def by simp
  show ?thesis
  proof (cases "case d of None \<Rightarrow> False | Some d \<Rightarrow> d \<le> 0")
    case True
    then show ?thesis by (simp add: q_heartbeat_def)
  next
    case ok: False
    show ?thesis
    proof (cases "if l \<in> set (active_leases ?q) then lease_objects ?q l else None")
      case None
      with ok show ?thesis using e by (simp add: q_heartbeat_def Let_def)
    next
      case (Some lease)
      then have l: "l \<in> set (active_leases ?q)" by (simp split: if_splits)
      have "\<exists>x. find_record_for_lease (?q\<lparr>lease_objects := g\<rparr>) l = Some x" for g using found [OF l] by blast
      then obtain x where x: "find_record_for_lease (?q\<lparr>lease_objects := g\<rparr>) l = Some (x g)" for g by metis
      from ok Some show ?thesis using rtranclp.rtrancl_into_rtrancl [OF e qstep.renew [OF l]]
        by (simp add: q_heartbeat_def Let_def x)
    qed
  qed
qed

lemma q_complete_release:
  assumes "active_lease l now q = (q, Inr r)"
  shows "q_complete l res now q = (release (rec_id r) l (completed res) COMPLETED [] q, Inr ())"
  using assms by (simp add: q_complete_def release_def retire_lease_def set_record_def completed_def [abs_def])

lemma q_complete_steps:
  assumes inv: "q_inv q"
  shows "qstep\<^sup>*\<^sup>* q (fst (q_complete l res now q))"
proof (cases "active_lease l now q")
  case (Pair q1 x)
  show ?thesis
  proof (cases x)
    case (Inl e)
    then show ?thesis using active_lease_steps [OF inv, of l now] Pair by (simp add: q_complete_def)
  next
    case (Inr r)
    note a = active_lease_Inr [OF inv Pair [unfolded Inr]]
    have "fst (q_complete l res now q) = release (rec_id r) l (completed res) COMPLETED [] q"
      using Pair Inr a(1) q_complete_release [of l now q r] by simp
    then show ?thesis using r_into_rtranclp [of qstep, OF qstep.finish [OF a(2,3), of res]] by simp
  qed
qed

lemma q_fail_steps:
  assumes inv: "q_inv q"
  shows "qstep\<^sup>*\<^sup>* q (fst (q_fail l reason now q))"
proof (cases "active_lease l now q")
  case (Pair q1 x)
  show ?thesis
  proof (cases x)
    case (Inl e)
    then show ?thesis using active_lease_steps [OF inv, of l now] Pair by (simp add: q_fail_def)
  next
    case (Inr r)
    note a = active_lease_Inr [OF inv Pair [unfolded Inr]]
    from Pair Inr a(1) show ?thesis
      using r_into_rtranclp [of qstep, OF qstep.give_back [OF a(2,3), of "py_strip reason" now]]
      by (simp add: q_fail_def failure_is_release [OF inv a(2,3)])
  qed
qed

lemma run_queue_call_steps:
  assumes "q_inv q"
  shows "qstep\<^sup>*\<^sup>* q (run_queue_call c q)"
  using assms q_enqueue_steps q_claim_steps q_heartbeat_steps q_complete_steps q_fail_steps expire_due_steps
  by (cases c) (simp_all add: get_status_def sweep_expired_def Let_def)

lemma run_queue_calls_steps:
  assumes "q_inv q"
  shows "qstep\<^sup>*\<^sup>* q (run_queue_calls cs q)"
  using assms unfolding run_queue_calls_def
proof (induction cs arbitrary: q)
  case (Cons c cs)
  note s = run_queue_call_steps [OF Cons.prems, of c]
  have "q_inv (run_queue_call c q)" using qsteps_all [OF s Cons.prems] by blast
  from rtranclp_trans [OF s Cons.IH [OF this]] show ?case by simp
qed simp

lemma task_queue_init_ok:
  assumes "task_queue_init b m = Inr q"
  shows "q_inv q" and "cap_ok q"
  using assms
  by (auto simp: task_queue_init_def q_inv_def cap_ok_def active_count_def rowcount_def issued_def split: if_splits option.splits)

definition q_reachable :: "task_queue \<Rightarrow> bool" where
  "q_reachable q \<longleftrightarrow> (\<exists>backoff limit q0 cs. task_queue_init backoff limit = Inr q0 \<and> q = run_queue_calls cs q0)"

lemma q_reachableI: "task_queue_init backoff limit = Inr q0 \<Longrightarrow> q_reachable (run_queue_calls cs q0)"
  unfolding q_reachable_def by blast

lemma q_reachable_inv:
  assumes "q_reachable q"
  shows "q_inv q" and "cap_ok q"
proof -
  obtain b m q0 cs where q: "task_queue_init b m = Inr q0" "q = run_queue_calls cs q0"
    using assms unfolding q_reachable_def by blast
  note all = qsteps_all [OF run_queue_calls_steps [OF task_queue_init_ok(1) [OF q(1)], of cs] task_queue_init_ok(1) [OF q(1)]]
  then show "q_inv q" "cap_ok q" using task_queue_init_ok(2) [OF q(1)] unfolding q(2) by blast+
qed

lemma queue_calls_kept:
  assumes "q_inv q"
  shows "q_inv (run_queue_calls cs q)" and "q_kept q (run_queue_calls cs q)"
  using qsteps_all [OF run_queue_calls_steps [OF assms] assms] by blast+


section \<open>Properties\<close>

definition example_task :: "string \<Rightarrow> int \<Rightarrow> nat \<Rightarrow> PipelineTask" where
  "example_task i prio retries =
     \<lparr>task_id = i, recording_id = ''rec'', task_stage = ''decode'', payload = [], task_priority = prio,
      task_created_at = 0, retry_count = 0, max_retries = retries, task_lease_id = None,
      task_leased_by = None, task_lease_expires_at = None\<rparr>"

definition example_queue :: task_queue where
  "example_queue =
     \<lparr>retry_backoff = 1000000, max_size = Some 2, q_records = [], lease_objects = Map.empty,
      active_leases = [], retired_leases = Map.empty, dead_letter_order = [],
      next_sequence = 0, next_lease_number = 0\<rparr>"

lemma example_queue_init: "task_queue_init 1000000 (Some 2) = Inr example_queue"
  by (simp add: task_queue_init_def example_queue_def)

definition example_calls :: "queue_call list" where
  "example_calls = [EnqueueTask (example_task ''a'' 0 1) 0, EnqueueTask (example_task ''b'' 5 1) 0, ClaimTask ''w'' 10 0]"



text \<open>
  Nothing is lost: from any reachable queue, whatever calls follow, a completed or
  dead-lettered task keeps its record unchanged, every known task stays known, and a lease
  that is no longer active never becomes active again.
\<close>
theorem queue_nothing_lost:
  assumes "q_reachable q" and "q' = run_queue_calls cs q"
  shows "(\<forall>r \<in> set (q_records q). rec_status r \<in> {COMPLETED, DEAD_LETTER} \<longrightarrow> record_of q' (rec_id r) = Some r)
    \<and> (\<forall>i. record_of q i \<noteq> None \<longrightarrow> record_of q' i \<noteq> None)
    \<and> (\<forall>l. l \<in> dom (retired_leases q) \<longrightarrow> l \<notin> set (active_leases q'))"
proof -
  note inv = q_reachable_inv(1) [OF assms(1)]
  note kept = queue_calls_kept(2) [OF inv, of cs, folded assms(2)]
  have d: "distinct (map rec_id (q_records q'))"
    using queue_calls_kept(1) [OF inv, of cs, folded assms(2)] by (simp add: q_inv_def)
  have "record_of q' (rec_id r) = Some r" if "r \<in> set (q_records q)" "rec_status r \<in> {COMPLETED, DEAD_LETTER}" for r
  proof -
    have "r \<in> set (q_records q')" using kept that unfolding q_kept_def by (elim conjE) (drule (1) bspec, erule (1) mp)
    then show ?thesis by (rule record_of_mem [OF d])
  qed
  moreover have "record_of q' i \<noteq> None" if "record_of q i \<noteq> None" for i
  proof -
    have "i \<in> rec_id ` set (q_records q)" using that record_of_in record_of_id by blast
    moreover have "rec_id ` set (q_records q) \<subseteq> rec_id ` set (q_records q')" using kept by (simp add: q_kept_def)
    ultimately obtain x where "x \<in> set (q_records q')" "i = rec_id x" by blast
    then show ?thesis using record_of_mem [OF d] by simp
  qed
  moreover have "l \<notin> set (active_leases q')" if "l \<in> dom (retired_leases q)" for l
  proof -
    have "dom (retired_leases q) \<subseteq> issued q" using inv unfolding q_inv_def by (elim conjE)
    moreover have "set (active_leases q) \<inter> dom (retired_leases q) = {}" using inv unfolding q_inv_def by (elim conjE)
    moreover have "set (active_leases q') \<inter> issued q \<subseteq> set (active_leases q)" using kept by (simp add: q_kept_def)
    ultimately show ?thesis using that by blast
  qed
  ultimately show ?thesis by blast
qed

theorem queue_nothing_lost_witness:
  "\<exists>r. record_of (run_queue_calls (example_calls @ [CompleteTask (lease_name 0) ''ok'' 1]) example_queue) ''b'' = Some r
     \<and> rec_status r = COMPLETED
     \<and> record_of (run_queue_calls [FailTask (lease_name 0) ''late'' 2, ClaimTask ''v'' 1 3, SweepTasks 9000000]
         (run_queue_calls (example_calls @ [CompleteTask (lease_name 0) ''ok'' 1]) example_queue)) ''b'' = Some r"
proof -
  let ?q = "run_queue_calls (example_calls @ [CompleteTask (lease_name 0) ''ok'' 1]) example_queue"
  have "map_option rec_status (record_of ?q ''b'') = Some COMPLETED" by code_simp
  then obtain r where r: "record_of ?q ''b'' = Some r" "rec_status r = COMPLETED" by blast
  have "q_reachable ?q" by (rule q_reachableI [OF example_queue_init])
  note n = conjunct1 [OF queue_nothing_lost [OF this refl], rule_format, OF record_of_in [OF r(1)]]
  with r record_of_id [OF r(1)] show ?thesis by simp
qed

lemma record_of_set_record:
  assumes "\<And>x. rec_id (f x) = rec_id x"
  shows "record_of (set_record i f q) i = map_option f (record_of q i)"
  unfolding record_of_def set_record_def using record_of_set [OF assms] by simp

lemma record_of_fields [simp]:
  "record_of (retire_lease l st q) i = record_of q i"
  "record_of (q\<lparr>next_lease_number := n, lease_objects := g, active_leases := ls\<rparr>) i = record_of q i"
  "record_of (q\<lparr>dead_letter_order := d\<rparr>) i = record_of q i"
  by (simp_all add: record_of_def retire_lease_def)

text \<open>
  Claiming: a valid claim on a reachable queue hands out nothing exactly when no pending
  task is available once expired leases have been given back; otherwise it returns the task
  of the least (priority, availability, creation, arrival) key, which was PENDING and due,
  under a lease identifier never issued before and an expiry of \<open>now\<close> plus the duration, and
  the queue records that task as CLAIMED under that lease.
\<close>
theorem queue_claim_correct:
  assumes "q_reachable q" and "\<not> py_blank w" and "d > 0" and "q1 = fst (expire_due now q)"
  shows "(candidates now q1 = [] \<longrightarrow> q_claim w d now q = (q1, Inr None))
    \<and> (candidates now q1 \<noteq> [] \<longrightarrow> (\<exists>r q' l. r \<in> set (candidates now q1) \<and> (\<forall>x \<in> set (candidates now q1). claim_key r \<le> claim_key x)
        \<and> l \<notin> issued q1 \<and> l \<in> set (active_leases q')
        \<and> q_claim w d now q = (q', Inr (Some ((rec_task r)\<lparr>task_lease_id := Some l, task_leased_by := Some w,
            task_lease_expires_at := Some (now + 1000000 * d)\<rparr>)))
        \<and> record_of q' (rec_id r) = Some (r\<lparr>rec_lease := Some l, rec_status := CLAIMED\<rparr>)
        \<and> map_option ql_expires_at (lease_objects q' l) = Some (now + 1000000 * d)))"
proof (intro conjI impI)
  assume "candidates now q1 = []"
  then show "q_claim w d now q = (q1, Inr None)" using assms(2-4) by (simp add: q_claim_def Let_def)
next
  assume "candidates now q1 \<noteq> []"
  then obtain r where r: "min_by claim_key (candidates now q1) = Some r" using min_by_ex by blast
  have inv: "q_inv q1" unfolding assms(4) by (rule expired_inv [OF q_reachable_inv(1) [OF assms(1)]])
  let ?l = "lease_name (next_lease_number q1)"
  have "?l \<notin> issued q1" by (auto simp: issued_def)
  with min_by_Some [OF r] candidate_record(1) [OF inv r] r assms(2-3)
  show "\<exists>r q' l. r \<in> set (candidates now q1) \<and> (\<forall>x \<in> set (candidates now q1). claim_key r \<le> claim_key x)
        \<and> l \<notin> issued q1 \<and> l \<in> set (active_leases q')
        \<and> q_claim w d now q = (q', Inr (Some ((rec_task r)\<lparr>task_lease_id := Some l, task_leased_by := Some w,
            task_lease_expires_at := Some (now + 1000000 * d)\<rparr>)))
        \<and> record_of q' (rec_id r) = Some (r\<lparr>rec_lease := Some l, rec_status := CLAIMED\<rparr>)
        \<and> map_option ql_expires_at (lease_objects q' l) = Some (now + 1000000 * d)"
    by (intro exI [of _ r] exI [of _ "fst (q_claim w d now q)"] exI [of _ ?l])
      (simp add: q_claim_def Let_def record_of_set_record flip: assms(4))
qed

theorem queue_claim_correct_witness:
  "\<exists>r l. r \<in> set (candidates 0 (run_queue_calls (take 2 example_calls) example_queue)) \<and> rec_id r = ''b''
     \<and> snd (q_claim ''w'' 10 0 (run_queue_calls (take 2 example_calls) example_queue)) =
        Inr (Some ((rec_task r)\<lparr>task_lease_id := Some l, task_leased_by := Some ''w'', task_lease_expires_at := Some 10000000\<rparr>))"
proof -
  let ?q = "run_queue_calls (take 2 example_calls) example_queue"
  have "q_reachable ?q" by (rule q_reachableI [OF example_queue_init])
  note c = queue_claim_correct [OF this, of "''w''" 10 _ 0, OF _ _ refl]
  have "\<not> py_blank ''w''" by code_simp
  moreover have "candidates 0 (fst (expire_due 0 ?q)) \<noteq> []" by code_simp
  moreover have e: "candidates 0 (fst (expire_due 0 ?q)) = candidates 0 ?q" by code_simp
  ultimately obtain r q' l where r: "r \<in> set (candidates 0 ?q)" "q_claim ''w'' 10 0 ?q = (q', Inr (Some
      ((rec_task r)\<lparr>task_lease_id := Some l, task_leased_by := Some ''w'', task_lease_expires_at := Some (0 + 1000000 * 10)\<rparr>)))"
    using c by auto
  have "map_option task_id (case snd (q_claim ''w'' 10 0 ?q) of Inr x \<Rightarrow> x | Inl _ \<Rightarrow> None) = Some ''b''" by code_simp
  then have "rec_id r = ''b''" using r(2) by simp
  with r show ?thesis by (intro exI [of _ r] exI [of _ l]) simp
qed

lemma q_reachable_calls:
  assumes "q_reachable q"
  shows "q_reachable (run_queue_calls cs q)"
proof -
  obtain b m q0 cs0 where q: "task_queue_init b m = Inr q0" "q = run_queue_calls cs0 q0"
    using assms unfolding q_reachable_def by blast
  have "run_queue_calls cs q = run_queue_calls (cs0 @ cs) q0" by (simp add: q(2) run_queue_calls_def)
  with q_reachableI [OF q(1)] show ?thesis by simp
qed

lemma completed_stays:
  assumes inv: "q_inv q" and r: "record_of q i = Some r" "rec_status r \<in> {COMPLETED, DEAD_LETTER}"
  shows "record_of (run_queue_calls cs q) i = Some r"
proof -
  have "distinct (map rec_id (q_records (run_queue_calls cs q)))"
    using queue_calls_kept(1) [OF inv, of cs] by (simp add: q_inv_def)
  moreover have "r \<in> set (q_records (run_queue_calls cs q))"
    using queue_calls_kept(2) [OF inv, of cs] record_of_in [OF r(1)] r(2) unfolding q_kept_def
    by (elim conjE) (drule (1) bspec, erule (1) mp)
  ultimately show ?thesis using record_of_mem record_of_id [OF r(1)] by blast
qed

lemma released_stays:
  assumes inv: "q_inv q" and "l \<in> issued q" and "l \<notin> set (active_leases q)"
  shows "l \<notin> set (active_leases (run_queue_calls cs q))"
  using queue_calls_kept(2) [OF inv, of cs] assms(2,3) unfolding q_kept_def by blast

lemma sweep_is_call: "fst (expire_due t (run_queue_calls cs q)) = run_queue_calls (cs @ [SweepTasks t]) q"
  by (simp add: run_queue_calls_def sweep_expired_def)

text \<open>
  At-most-once completion: when \<open>complete\<close> accepts a lease, the task it was issued for
  was CLAIMED under it and the lease had not run out; from then on, whatever calls follow and
  at any time, the status of that task is COMPLETED, its result is the one given, and every
  later \<open>complete\<close> or \<open>fail\<close> under that lease is refused.
\<close>
theorem queue_complete_once:
  assumes "q_reachable q" and "q_complete l res now q = (q', Inr ())" and "q'' = run_queue_calls cs q'"
  shows "\<exists>r lease. record_of q (rec_id r) = Some r \<and> rec_status r = CLAIMED \<and> rec_lease r = Some l
    \<and> lease_objects q l = Some lease \<and> now < ql_expires_at lease
    \<and> snd (get_status (rec_id r) t q'') = Inr COMPLETED \<and> snd (get_result (rec_id r) t q'') = Inr (Some res)
    \<and> snd (q_complete l res' t q'') \<in> {Inl LEASE_EXPIRED, Inl LEASE_NOT_FOUND}
    \<and> (\<not> py_blank reason \<longrightarrow> snd (q_fail l reason t q'') \<in> {Inl LEASE_EXPIRED, Inl LEASE_NOT_FOUND})"
proof -
  note inv = q_reachable_inv(1) [OF assms(1)]
  obtain r where al: "active_lease l now q = (q, Inr r)" and q': "q' = release (rec_id r) l (completed res) COMPLETED [] q"
  proof -
    obtain q1 x where qx: "active_lease l now q = (q1, x)" by fastforce
    from assms(2) obtain r where x: "x = Inr r" using qx by (cases x) (simp_all add: q_complete_def)
    note q1 = active_lease_Inr(1) [OF inv qx [unfolded x]]
    show thesis using that [of r] qx x q1 assms(2) q_complete_release [of l now q r] by simp
  qed
  note a = active_lease_Inr [OF inv al]
  from al obtain lease where lease: "lease_objects q l = Some lease" "now < ql_expires_at lease"
    unfolding active_lease_def by (auto split: option.splits if_splits)
  have q'_run: "q' = run_queue_calls [CompleteTask l res now] q" using assms(2) by (simp add: run_queue_calls_def)
  have reach': "q_reachable q'" unfolding q'_run by (rule q_reachable_calls [OF assms(1)])
  note inv' = q_reachable_inv(1) [OF reach']
  have rec': "record_of q' (rec_id r) = Some (completed res r)"
    using a(2) by (simp add: q' release_def record_of_set_record completed_def)
  then have later: "record_of (run_queue_calls cs' q') (rec_id r) = Some (completed res r)" for cs'
    by (rule completed_stays [OF inv']) (simp add: completed_def)
  have "set (active_leases q) \<subseteq> issued q" using inv unfolding q_inv_def by (elim conjE)
  then have "l \<in> issued q'" using leased_claimed(4) [OF inv a(2,3)]
    by (auto simp: q' release_def retire_lease_def set_record_def issued_def)
  moreover have "l \<notin> set (active_leases q')" by (simp add: q' release_def retire_lease_def)
  ultimately have gone: "l \<notin> set (active_leases q'')" unfolding assms(3) by (rule released_stays [OF inv'])
  have "snd (get_status (rec_id r) t q'') = Inr COMPLETED" "snd (get_result (rec_id r) t q'') = Inr (Some res)"
    using later unfolding assms(3)
    by (simp_all add: get_status_def get_result_def Let_def sweep_is_call record_for_task_def completed_def)
  moreover have "snd (q_complete l res' t q'') \<in> {Inl LEASE_EXPIRED, Inl LEASE_NOT_FOUND}"
    using gone by (simp add: q_complete_def active_lease_def)
  moreover have "\<not> py_blank reason \<longrightarrow> snd (q_fail l reason t q'') \<in> {Inl LEASE_EXPIRED, Inl LEASE_NOT_FOUND}"
    using gone by (simp add: q_fail_def active_lease_def)
  ultimately show ?thesis using a(2,3) leased_claimed(1) [OF inv a(2,3)] lease by blast
qed

theorem queue_complete_once_witness:
  "\<exists>q'. q_complete (lease_name 0) ''ok'' 1 (run_queue_calls example_calls example_queue) = (q', Inr ())
     \<and> snd (q_complete (lease_name 0) ''again'' 2 (run_queue_calls [SweepTasks 20000000] q')) \<in> {Inl LEASE_EXPIRED, Inl LEASE_NOT_FOUND}"
proof -
  let ?q = "run_queue_calls example_calls example_queue"
  have r: "q_reachable ?q" by (rule q_reachableI [OF example_queue_init])
  have "snd (q_complete (lease_name 0) ''ok'' 1 ?q) = Inr ()" by code_simp
  then obtain q' where q': "q_complete (lease_name 0) ''ok'' 1 ?q = (q', Inr ())" by (metis prod.collapse)
  with queue_complete_once [OF r q' refl, of 2 "[SweepTasks 20000000]" "''again''" "''x''"] show ?thesis by blast
qed

text \<open>
  Retry policy: a lease that \<open>fail\<close> accepts is released at once, and the task's retry
  count goes up by one; once the count exceeds \<open>max_retries\<close> the task is dead-lettered and
  listed last among the dead letters, otherwise it is PENDING again after the backoff doubled
  for every earlier failure.
\<close>
theorem queue_fail_policy:
  assumes "q_reachable q" and "q_fail l reason now q = (q', Inr ())"
  shows "\<exists>r r'. record_of q (rec_id r) = Some r \<and> rec_lease r = Some l \<and> record_of q' (rec_id r) = Some r'
    \<and> l \<notin> set (active_leases q') \<and> rec_lease r' = None \<and> rec_failure_reason r' = Some (py_strip reason)
    \<and> retry_count (rec_task r') = retry_count (rec_task r) + 1
    \<and> (if retry_count (rec_task r) \<ge> max_retries (rec_task r)
       then rec_status r' = DEAD_LETTER \<and> dead_letter_order q' = dead_letter_order q @ [rec_id r]
       else rec_status r' = PENDING \<and> dead_letter_order q' = dead_letter_order q
         \<and> rec_available_at r' = now + retry_backoff q * 2 ^ retry_count (rec_task r))"
proof -
  note inv = q_reachable_inv(1) [OF assms(1)]
  obtain q1 x where qx: "active_lease l now q = (q1, x)" by fastforce
  from assms(2) obtain r where x: "x = Inr r" using qx by (cases x) (simp_all add: q_fail_def split: if_splits)
  note a = active_lease_Inr [OF inv qx [unfolded x]]
  let ?f = "given_back (retry_backoff q) (py_strip reason) now"
  have "q' = release (rec_id r) l ?f FAILED
      (if retry_count (rec_task r) + 1 > max_retries (rec_task r) then [rec_id r] else []) q"
    using assms(2) qx x a(1) failure_is_release [OF inv a(2,3)] by (simp add: q_fail_def split: if_splits)
  moreover have "rec_id (?f y) = rec_id y" for y by (simp add: given_back_def after_failure_def Let_def)
  ultimately have "record_of q' (rec_id r) = Some (?f r)" "l \<notin> set (active_leases q')"
    "dead_letter_order q' = dead_letter_order q @ (if retry_count (rec_task r) + 1 > max_retries (rec_task r) then [rec_id r] else [])"
    using a(2) by (simp_all add: release_def record_of_set_record retire_lease_def record_of_fields(1) [unfolded retire_lease_def])
  then show ?thesis using a(2,3)
    by (intro exI [of _ r] exI [of _ "?f r"]) (simp add: given_back_def after_failure_def Let_def)
qed

theorem queue_fail_policy_witness:
  "\<exists>q'. q_fail (lease_name 0) ''boom'' 1 (run_queue_calls example_calls example_queue) = (q', Inr ())
     \<and> lease_name 0 \<notin> set (active_leases q')"
proof -
  let ?q = "run_queue_calls example_calls example_queue"
  have r: "q_reachable ?q" by (rule q_reachableI [OF example_queue_init])
  have "snd (q_fail (lease_name 0) ''boom'' 1 ?q) = Inr ()" by code_simp
  then obtain q' where q': "q_fail (lease_name 0) ''boom'' 1 ?q = (q', Inr ())" by (metis prod.collapse)
  with queue_fail_policy [OF r q'] show ?thesis by blast
qed

end
