(* ===== verification/Outbox.thy ===== *)
theory Outbox
  imports Robata_Prelude
begin

text \<open>
  \<^verbatim>\<open>src/robata/queue/outbox.py\<close> and \<^verbatim>\<open>src/robata/adapters/sqlite_outbox.py\<close>: the at-least-once relay of
  primary-completion facts. The delivery store leases one outbox row at a time under a
  fencing token, the relay publishes it to an idempotent sink and then acknowledges it or
  records the failure; retries are bounded and end in a dead letter.

  The tables \<open>primary_outbox\<close> and \<open>primary_outbox_deliveries\<close> are lists of rows. Times are
  microseconds (the stored RFC 3339 texts have a fixed width, so they compare as numbers);
  the clock reading is an argument of each call. The retry delays are whole microseconds.
  SHA-256, \<open>uuid5\<close>, and the JSON codec of the wire record (pydantic, RFC 8785 and the schema
  registry) are the fields of the record \<open>outbox_env\<close>.
\<close>

section \<open>Data\<close>

datatype OutboxDeliveryStatus = PENDING | LEASED | RETRY_WAIT | DELIVERED | DEAD_LETTER

datatype outbox_error =
    OutboxDeliveryError string
  | OutboxFenceError string
  | OutboxValueError string

type_synonym 'a outbox_result = "outbox_error + 'a"

record OutboxRetryPolicy =
  policy_version :: string
  max_attempts :: nat
  base_delay :: int
  max_delay :: int

definition retry_policy_post_init :: "OutboxRetryPolicy \<Rightarrow> OutboxRetryPolicy py" where
  "retry_policy_post_init p =
     (if policy_version p = [] then Inl (ValueError ''retry policy version must be a nonempty string'')
      else if max_attempts p = 0 then Inl (ValueError ''max_attempts must be a positive integer'')
      else if base_delay p < 0 then Inl (ValueError ''base_delay_seconds must be finite and nonnegative'')
      else if max_delay p < 0 then Inl (ValueError ''max_delay_seconds must be finite and nonnegative'')
      else if max_delay p < base_delay p
      then Inl (ValueError ''max_delay_seconds cannot be less than base_delay_seconds'')
      else Inr p)"

definition delay_after :: "OutboxRetryPolicy \<Rightarrow> nat \<Rightarrow> int py" where
  "delay_after p attempt_count =
     (if attempt_count = 0 then Inl (ValueError ''attempt_count must be a positive integer'')
      else Inr (min (base_delay p * 2 ^ min (attempt_count - 1) 62) (max_delay p)))"

record OutboxMessage =
  msg_outbox_id :: string
  msg_completion_run_id :: string
  msg_recording_identity :: string
  msg_outbox_ordinal :: nat
  msg_topic :: string
  msg_key :: string
  msg_payload :: string
  msg_payload_sha256 :: string

definition outbox_message_post_init :: "(string \<Rightarrow> string) \<Rightarrow> OutboxMessage \<Rightarrow> OutboxMessage py" where
  "outbox_message_post_init sha256 m =
     (if msg_outbox_id m = [] then Inl (ValueError ''outbox_id must be a nonempty string'')
      else if msg_completion_run_id m = [] then Inl (ValueError ''completion_run_id must be a nonempty string'')
      else if msg_recording_identity m = [] then Inl (ValueError ''recording_identity must be a nonempty string'')
      else if msg_topic m = [] then Inl (ValueError ''topic must be a nonempty string'')
      else if msg_key m = [] then Inl (ValueError ''key must be a nonempty string'')
      else if msg_payload_sha256 m = [] then Inl (ValueError ''payload_sha256 must be a nonempty string'')
      else if sha256 (msg_payload m) \<noteq> msg_payload_sha256 m
      then Inl (ValueError ''payload_sha256 does not match exact payload bytes'')
      else Inr m)"

text \<open>A delivery row and its snapshot have the same fields; the row's policy columns are grouped.\<close>

record OutboxDeliverySnapshot =
  d_outbox_id :: string
  d_status :: OutboxDeliveryStatus
  d_attempt_count :: nat
  d_lease_epoch :: nat
  d_fencing_token :: "string option"
  d_claimed_by :: "string option"
  d_lease_expires_at :: "int option"
  d_next_attempt_at :: int
  d_retry_policy :: OutboxRetryPolicy
  d_last_error :: "string option"
  d_delivered_at :: "int option"
  d_dead_lettered_at :: "int option"

record OutboxDeliveryClaim =
  claim_message :: OutboxMessage
  claim_delivery :: OutboxDeliverySnapshot

definition outbox_claim_post_init :: "OutboxDeliveryClaim \<Rightarrow> OutboxDeliveryClaim py" where
  "outbox_claim_post_init c =
     (if msg_outbox_id (claim_message c) \<noteq> d_outbox_id (claim_delivery c)
      then Inl (ValueError ''claim message and delivery IDs disagree'')
      else if d_status (claim_delivery c) \<noteq> LEASED \<or> d_fencing_token (claim_delivery c) = None
      then Inl (ValueError ''claim requires a leased delivery with a fencing token'')
      else Inr c)"

record OutboxRow =
  o_outbox_id :: string
  o_completion_run_id :: string
  o_recording_identity :: string
  o_outbox_ordinal :: nat
  o_assignment_logical_key :: string
  o_payload_json :: string
  o_payload_json_sha256 :: string
  o_delivered_at :: "int option"

record outbox_db =
  primary_outbox :: "OutboxRow list"
  deliveries :: "OutboxDeliverySnapshot list"

text \<open>The fields of \<open>EventIdentityOutboxWireRecord\<close> that the relay reads.\<close>

record OutboxWireRecord =
  wire_outbox_id :: string
  wire_topic :: string
  wire_recording_identity :: string
  wire_key :: string
  wire_assignment_logical_key :: string

record outbox_env =
  exact_bytes_sha256 :: "string \<Rightarrow> string"
  uuid5_url :: "string \<Rightarrow> string"
  decode_wire :: "string \<Rightarrow> OutboxWireRecord option"
  canonical_json_bytes :: "OutboxWireRecord \<Rightarrow> string"

section \<open>Statements\<close>

fun wrap_value :: "'a py \<Rightarrow> 'a outbox_result" where
  "wrap_value (Inr a) = Inr a"
| "wrap_value (Inl e) = Inl (OutboxDeliveryError ''cannot complete the outbox operation'')"

lemma wrap_value_Inr [result_simps]: "wrap_value r = Inr a \<longleftrightarrow> r = Inr a"
  by (cases r) auto

definition outbox_transaction ::
    "(outbox_db \<Rightarrow> (outbox_db \<times> 'a) outbox_result) \<Rightarrow> outbox_db \<Rightarrow> outbox_db \<times> 'a outbox_result" where
  "outbox_transaction body db = (case body db of Inl e \<Rightarrow> (db, Inl e) | Inr (db', a) \<Rightarrow> (db', Inr a))"

definition delivery_of :: "outbox_db \<Rightarrow> string \<Rightarrow> OutboxDeliverySnapshot option" where
  "delivery_of db i = find_row (\<lambda>d. d_outbox_id d = i) (deliveries db)"

definition outbox_row_of :: "outbox_db \<Rightarrow> string \<Rightarrow> OutboxRow option" where
  "outbox_row_of db i = find_row (\<lambda>r. o_outbox_id r = i) (primary_outbox db)"

definition upd_delivery :: "(OutboxDeliverySnapshot \<Rightarrow> bool) \<Rightarrow> (OutboxDeliverySnapshot \<Rightarrow> OutboxDeliverySnapshot)
    \<Rightarrow> outbox_db \<Rightarrow> outbox_db" where
  "upd_delivery p f db = db\<lparr>deliveries := update_where p f (deliveries db)\<rparr>"

text \<open>\<open>f"robata:primary-outbox-delivery:{outbox_id}:{lease_epoch}"\<close>\<close>

definition outbox_fencing_token :: "(string \<Rightarrow> string) \<Rightarrow> string \<Rightarrow> nat \<Rightarrow> string" where
  "outbox_fencing_token uuid5 i epoch = uuid5 (''robata:primary-outbox-delivery:'' @ i @ '':'' @ decimal epoch)"

definition new_delivery :: "OutboxRetryPolicy \<Rightarrow> int \<Rightarrow> OutboxRow \<Rightarrow> OutboxDeliverySnapshot" where
  "new_delivery policy now r =
     \<lparr>d_outbox_id = o_outbox_id r,
      d_status = (if o_delivered_at r = None then PENDING else DELIVERED),
      d_attempt_count = 0, d_lease_epoch = 0, d_fencing_token = None, d_claimed_by = None,
      d_lease_expires_at = None,
      d_next_attempt_at = (case o_delivered_at r of None \<Rightarrow> now | Some t \<Rightarrow> t),
      d_retry_policy = policy, d_last_error = None, d_delivered_at = o_delivered_at r,
      d_dead_lettered_at = None\<rparr>"

definition discover :: "OutboxRetryPolicy \<Rightarrow> int \<Rightarrow> outbox_db \<Rightarrow> outbox_db" where
  "discover policy now db =
     db\<lparr>deliveries := deliveries db @
       map (new_delivery policy now) (filter (\<lambda>r. delivery_of db (o_outbox_id r) = None) (primary_outbox db))\<rparr>"

definition lease_due :: "int \<Rightarrow> OutboxDeliverySnapshot \<Rightarrow> bool" where
  "lease_due now d \<longleftrightarrow> d_status d = LEASED \<and> (case d_lease_expires_at d of None \<Rightarrow> False | Some t \<Rightarrow> t \<le> now)"

definition expire_final :: "int \<Rightarrow> OutboxDeliverySnapshot \<Rightarrow> OutboxDeliverySnapshot" where
  "expire_final now d =
     d\<lparr>d_status := DEAD_LETTER, d_lease_expires_at := None, d_next_attempt_at := now,
       d_last_error := Some ''delivery lease expired after final attempt'', d_dead_lettered_at := Some now\<rparr>"

definition expire_retry :: "int \<Rightarrow> OutboxDeliverySnapshot \<Rightarrow> OutboxDeliverySnapshot" where
  "expire_retry now d =
     d\<lparr>d_status := RETRY_WAIT, d_lease_expires_at := None, d_next_attempt_at := now,
       d_last_error := Some ''delivery lease expired before acknowledgement''\<rparr>"

definition expire_leases :: "int \<Rightarrow> outbox_db \<Rightarrow> outbox_db" where
  "expire_leases now db =
     upd_delivery (\<lambda>d. lease_due now d \<and> d_attempt_count d < max_attempts (d_retry_policy d)) (expire_retry now)
       (upd_delivery (\<lambda>d. lease_due now d \<and> d_attempt_count d \<ge> max_attempts (d_retry_policy d)) (expire_final now) db)"

definition joined_row :: "outbox_db \<Rightarrow> string \<Rightarrow> (OutboxRow \<times> OutboxDeliverySnapshot) outbox_result" where
  "joined_row db i =
     (case (outbox_row_of db i, delivery_of db i) of
        (Some r, Some d) \<Rightarrow> Inr (r, d)
      | _ \<Rightarrow> Inl (OutboxDeliveryError ''primary outbox delivery row is missing''))"

definition message_from_row :: "outbox_env \<Rightarrow> OutboxRow \<Rightarrow> OutboxMessage outbox_result" where
  "message_from_row env r =
     (let payload = o_payload_json r in
      if exact_bytes_sha256 env payload \<noteq> o_payload_json_sha256 r
      then Inl (OutboxDeliveryError ''primary outbox payload exact digest is corrupt'')
      else case decode_wire env payload of
        None \<Rightarrow> Inl (OutboxDeliveryError ''primary outbox payload is not a valid record'')
      | Some w \<Rightarrow>
          if canonical_json_bytes env w \<noteq> payload
          then Inl (OutboxDeliveryError ''primary outbox payload is not canonical JSON'')
          else if wire_outbox_id w \<noteq> o_outbox_id r \<or> wire_recording_identity w \<noteq> o_recording_identity r
            \<or> wire_assignment_logical_key w \<noteq> o_assignment_logical_key r
          then Inl (OutboxDeliveryError ''primary outbox columns disagree with exact payload'')
          else wrap_value (outbox_message_post_init (exact_bytes_sha256 env)
            \<lparr>msg_outbox_id = wire_outbox_id w, msg_completion_run_id = o_completion_run_id r,
             msg_recording_identity = wire_recording_identity w, msg_outbox_ordinal = o_outbox_ordinal r,
             msg_topic = wire_topic w, msg_key = wire_key w, msg_payload = payload,
             msg_payload_sha256 = o_payload_json_sha256 r\<rparr>))"

definition snapshot_from_row :: "OutboxDeliverySnapshot \<Rightarrow> OutboxDeliverySnapshot outbox_result" where
  "snapshot_from_row d = rbind (wrap_value (retry_policy_post_init (d_retry_policy d))) (\<lambda>p. Inr (d\<lparr>d_retry_policy := p\<rparr>))"

section \<open>Claiming\<close>

definition outbox_key :: "OutboxRow \<times> OutboxDeliverySnapshot \<Rightarrow> string \<times> nat \<times> string" where
  "outbox_key = (\<lambda>(r, d). (o_completion_run_id r, o_outbox_ordinal r, o_outbox_id r))"

definition claimable :: "int \<Rightarrow> outbox_db \<Rightarrow> (OutboxRow \<times> OutboxDeliverySnapshot) list" where
  "claimable now db =
     concat (map (\<lambda>r. map (Pair r) (filter (\<lambda>d. d_outbox_id d = o_outbox_id r \<and> o_delivered_at r = None
       \<and> d_status d \<in> {PENDING, RETRY_WAIT} \<and> d_next_attempt_at d \<le> now) (deliveries db))) (primary_outbox db))"

text \<open>The \<open>WHERE\<close> and \<open>SET\<close> of the claiming \<open>UPDATE\<close>; \<open>d\<close> is the row selected before.\<close>

definition claim_where :: "OutboxDeliverySnapshot \<Rightarrow> OutboxDeliverySnapshot \<Rightarrow> bool" where
  "claim_where d x \<longleftrightarrow> d_outbox_id x = d_outbox_id d \<and> d_status x \<in> {PENDING, RETRY_WAIT}
     \<and> d_lease_epoch x = d_lease_epoch d"

definition claim_set :: "string \<Rightarrow> string \<Rightarrow> int \<Rightarrow> OutboxDeliverySnapshot \<Rightarrow> OutboxDeliverySnapshot
    \<Rightarrow> OutboxDeliverySnapshot" where
  "claim_set token worker expires d x =
     x\<lparr>d_status := LEASED, d_attempt_count := d_attempt_count d + 1, d_lease_epoch := d_lease_epoch d + 1,
       d_fencing_token := Some token, d_claimed_by := Some worker, d_lease_expires_at := Some expires,
       d_last_error := None\<rparr>"

definition claim_body :: "outbox_env \<Rightarrow> OutboxRetryPolicy \<Rightarrow> string \<Rightarrow> int \<Rightarrow> int \<Rightarrow> outbox_db
    \<Rightarrow> (outbox_db \<times> OutboxDeliveryClaim option) outbox_result" where
  "claim_body env policy worker duration now db =
     (let db1 = expire_leases now (discover policy now db) in
      case min_by outbox_key (claimable now db1) of
        None \<Rightarrow> Inr (db1, None)
      | Some (r, d) \<Rightarrow>
          let i = d_outbox_id d;
              token = outbox_fencing_token (uuid5_url env) i (d_lease_epoch d + 1)
          in if rowcount (claim_where d) (deliveries db1) \<noteq> 1
             then Inl (OutboxDeliveryError ''outbox claim lost its atomic state transition'')
             else let db2 = upd_delivery (claim_where d) (claim_set token worker (now + duration) d) db1 in
               rbind (joined_row db2 i) (\<lambda>(r', d').
               rbind (message_from_row env r') (\<lambda>m.
               rbind (snapshot_from_row d') (\<lambda>s.
               rbind (wrap_value (outbox_claim_post_init \<lparr>claim_message = m, claim_delivery = s\<rparr>)) (\<lambda>c.
               Inr (db2, Some c))))))"

definition outbox_claim :: "outbox_env \<Rightarrow> OutboxRetryPolicy \<Rightarrow> string \<Rightarrow> int \<Rightarrow> int \<Rightarrow> outbox_db
    \<Rightarrow> outbox_db \<times> OutboxDeliveryClaim option outbox_result" where
  "outbox_claim env policy worker duration now db =
     (if worker = [] then (db, Inl (OutboxValueError ''worker_id must be a nonempty string''))
      else if duration \<le> 0 then (db, Inl (OutboxValueError ''lease_duration must be positive''))
      else outbox_transaction (claim_body env policy worker duration now) db)"

section \<open>Acknowledgement and failure\<close>

text \<open>\<open>str(row[...])\<close> of a nullable column\<close>

definition py_str :: "string option \<Rightarrow> string" where
  "py_str v = (case v of None \<Rightarrow> ''None'' | Some s \<Rightarrow> s)"

definition fence_matches :: "OutboxDeliveryClaim \<Rightarrow> OutboxDeliverySnapshot \<Rightarrow> bool" where
  "fence_matches c d \<longleftrightarrow> d_status d = LEASED \<and> d_lease_epoch d = d_lease_epoch (claim_delivery c)
     \<and> d_fencing_token d = d_fencing_token (claim_delivery c) \<and> d_claimed_by d = d_claimed_by (claim_delivery c)"

definition require_current_fence :: "OutboxDeliverySnapshot \<Rightarrow> OutboxDeliveryClaim \<Rightarrow> unit outbox_result" where
  "require_current_fence d c =
     (if \<not> fence_matches c d then Inl (OutboxFenceError ''outbox delivery claim is stale'') else Inr ())"

definition claim_outbox_id :: "OutboxDeliveryClaim \<Rightarrow> string" where
  "claim_outbox_id c = msg_outbox_id (claim_message c)"

text \<open>\<open>WHERE ... AND fencing_token = ? AND claimed_by = ?\<close>: SQL equality fails on NULL.\<close>

definition fence_where :: "OutboxDeliveryClaim \<Rightarrow> OutboxDeliverySnapshot \<Rightarrow> bool" where
  "fence_where c x \<longleftrightarrow> d_outbox_id x = claim_outbox_id c \<and> d_status x = LEASED
     \<and> d_lease_epoch x = d_lease_epoch (claim_delivery c)
     \<and> d_fencing_token x \<noteq> None \<and> d_fencing_token x = d_fencing_token (claim_delivery c)
     \<and> d_claimed_by x \<noteq> None \<and> d_claimed_by x = d_claimed_by (claim_delivery c)"

definition delivered_row :: "int \<Rightarrow> OutboxDeliverySnapshot \<Rightarrow> OutboxDeliverySnapshot" where
  "delivered_row now d =
     d\<lparr>d_status := DELIVERED, d_lease_expires_at := None, d_next_attempt_at := now,
       d_delivered_at := Some now, d_dead_lettered_at := None, d_last_error := None\<rparr>"

text \<open>A call that had been accepted and is made again.\<close>

definition ack_replay :: "OutboxDeliveryClaim \<Rightarrow> OutboxDeliverySnapshot \<Rightarrow> bool" where
  "ack_replay c d \<longleftrightarrow> d_status d = DELIVERED \<and> Some (py_str (d_fencing_token d)) = d_fencing_token (claim_delivery c)"

definition failure_replay :: "OutboxDeliveryClaim \<Rightarrow> string \<Rightarrow> OutboxDeliverySnapshot \<Rightarrow> bool" where
  "failure_replay c err d \<longleftrightarrow> d_status d \<in> {RETRY_WAIT, DEAD_LETTER}
     \<and> Some (py_str (d_fencing_token d)) = d_fencing_token (claim_delivery c) \<and> py_str (d_last_error d) = err"

definition acknowledge_body :: "OutboxDeliveryClaim \<Rightarrow> int \<Rightarrow> outbox_db
    \<Rightarrow> (outbox_db \<times> OutboxDeliverySnapshot) outbox_result" where
  "acknowledge_body c now db =
     (let db1 = expire_leases now db; i = claim_outbox_id c in
      rbind (joined_row db1 i) (\<lambda>(r, d).
      if ack_replay c d
      then rbind (snapshot_from_row d) (\<lambda>s. Inr (db1, s))
      else rbind (require_current_fence d c) (\<lambda>_.
        if rowcount (fence_where c) (deliveries db1) \<noteq> 1
        then Inl (OutboxFenceError ''delivery acknowledgement fence is stale'')
        else
          let db2 = upd_delivery (fence_where c) (delivered_row now) db1;
              q = (\<lambda>x. o_outbox_id x = i \<and> o_delivered_at x = None) in
          if rowcount q (primary_outbox db2) \<noteq> 1
          then Inl (OutboxDeliveryError ''primary outbox acknowledgement is inconsistent'')
          else
            let db3 = db2\<lparr>primary_outbox := update_where q (\<lambda>x. x\<lparr>o_delivered_at := Some now\<rparr>) (primary_outbox db2)\<rparr> in
            rbind (joined_row db3 i) (\<lambda>(r', d'). rbind (snapshot_from_row d') (\<lambda>s. Inr (db3, s))))))"

definition acknowledge :: "OutboxDeliveryClaim \<Rightarrow> int \<Rightarrow> outbox_db \<Rightarrow> outbox_db \<times> OutboxDeliverySnapshot outbox_result" where
  "acknowledge c now db = outbox_transaction (acknowledge_body c now) db"

definition failed_row :: "OutboxDeliveryStatus \<Rightarrow> int \<Rightarrow> string \<Rightarrow> int option \<Rightarrow> OutboxDeliverySnapshot
    \<Rightarrow> OutboxDeliverySnapshot" where
  "failed_row st next err dead d =
     d\<lparr>d_status := st, d_lease_expires_at := None, d_next_attempt_at := next, d_last_error := Some err,
       d_dead_lettered_at := dead\<rparr>"

definition failure_outcome :: "int \<Rightarrow> OutboxDeliverySnapshot \<Rightarrow> (OutboxDeliveryStatus \<times> int \<times> int option) outbox_result" where
  "failure_outcome now d =
     (if d_attempt_count d \<ge> max_attempts (d_retry_policy d) then Inr (DEAD_LETTER, now, Some now)
      else rbind (wrap_value (retry_policy_post_init (d_retry_policy d))) (\<lambda>p.
           rbind (wrap_value (delay_after p (d_attempt_count d))) (\<lambda>delay. Inr (RETRY_WAIT, now + delay, None))))"

definition record_failure_body :: "OutboxDeliveryClaim \<Rightarrow> string \<Rightarrow> int \<Rightarrow> outbox_db
    \<Rightarrow> (outbox_db \<times> OutboxDeliverySnapshot) outbox_result" where
  "record_failure_body c err now db =
     (let db1 = expire_leases now db; i = claim_outbox_id c in
      rbind (joined_row db1 i) (\<lambda>(r, d).
      if failure_replay c err d
      then rbind (snapshot_from_row d) (\<lambda>s. Inr (db1, s))
      else rbind (require_current_fence d c) (\<lambda>_.
           rbind (failure_outcome now d) (\<lambda>(st, next, dead).
           if rowcount (fence_where c) (deliveries db1) \<noteq> 1
           then Inl (OutboxFenceError ''delivery failure fence is stale'')
           else
             let db2 = upd_delivery (fence_where c) (failed_row st next err dead) db1 in
             rbind (joined_row db2 i) (\<lambda>(r', d'). rbind (snapshot_from_row d') (\<lambda>s. Inr (db2, s)))))))"

definition record_failure :: "OutboxDeliveryClaim \<Rightarrow> string \<Rightarrow> int \<Rightarrow> outbox_db
    \<Rightarrow> outbox_db \<times> OutboxDeliverySnapshot outbox_result" where
  "record_failure c err now db =
     (if err = [] then (db, Inl (OutboxValueError ''error must be a nonempty string''))
      else outbox_transaction (record_failure_body c (take 1000 err) now) db)"

section \<open>Reads\<close>

definition get_delivery :: "string \<Rightarrow> outbox_db \<Rightarrow> OutboxDeliverySnapshot option outbox_result" where
  "get_delivery i db =
     (if i = [] then Inl (OutboxValueError ''outbox_id must be a nonempty string'')
      else case delivery_of db i of
        None \<Rightarrow> Inr None
      | Some d \<Rightarrow> rbind (snapshot_from_row d) (\<lambda>s. Inr (Some s)))"

definition outbox_dead_letters :: "nat \<Rightarrow> outbox_db \<Rightarrow> OutboxDeliverySnapshot list outbox_result" where
  "outbox_dead_letters limit db =
     (if limit = 0 then Inl (OutboxValueError ''limit must be a positive integer'')
      else
        let rows = take limit (sort_key outbox_key (concat (map (\<lambda>r. map (Pair r)
              (filter (\<lambda>d. d_outbox_id d = o_outbox_id r \<and> d_status d = DEAD_LETTER) (deliveries db))) (primary_outbox db))))
        in fold_res (\<lambda>(r, d) acc. rbind (snapshot_from_row d) (\<lambda>s. Inr (acc @ [s]))) rows [])"

section \<open>The sink\<close>

record SinkRow =
  sink_outbox_id :: string
  sink_topic :: string
  sink_message_key :: string
  sink_payload :: string
  sink_payload_sha256 :: string
  sink_published_at :: int

definition sink_row :: "int \<Rightarrow> OutboxMessage \<Rightarrow> SinkRow" where
  "sink_row now m =
     \<lparr>sink_outbox_id = msg_outbox_id m, sink_topic = msg_topic m, sink_message_key = msg_key m,
      sink_payload = msg_payload m, sink_payload_sha256 = msg_payload_sha256 m, sink_published_at = now\<rparr>"

definition sink_find :: "SinkRow list \<Rightarrow> string \<Rightarrow> SinkRow option" where
  "sink_find rows i = find_row (\<lambda>r. sink_outbox_id r = i) rows"

definition sink_publish :: "int \<Rightarrow> OutboxMessage \<Rightarrow> SinkRow list \<Rightarrow> SinkRow list \<times> unit outbox_result" where
  "sink_publish now m rows =
     (case sink_find rows (msg_outbox_id m) of
        Some r \<Rightarrow>
          if (sink_topic r, sink_message_key r, sink_payload r, sink_payload_sha256 r) \<noteq>
             (msg_topic m, msg_key m, msg_payload m, msg_payload_sha256 m)
          then (rows, Inl (OutboxDeliveryError ''sink already contains different bytes for this outbox ID''))
          else (rows, Inr ())
      | None \<Rightarrow> (rows @ [sink_row now m], Inr ()))"

definition sink_count :: "SinkRow list \<Rightarrow> nat" where
  "sink_count rows = length rows"

definition sink_payload_of :: "string \<Rightarrow> SinkRow list \<Rightarrow> string option outbox_result" where
  "sink_payload_of i rows =
     (if i = [] then Inl (OutboxValueError ''outbox_id must be a nonempty string'')
      else Inr (map_option sink_payload (sink_find rows i)))"

section \<open>The relay\<close>

text \<open>
  \<open>OutboxRelay\<close> takes any sink: here a function that, at a clock reading, publishes a message
  to the sink's state or raises.
\<close>

type_synonym 's publisher = "int \<Rightarrow> OutboxMessage \<Rightarrow> 's \<Rightarrow> 's \<times> unit outbox_result"

record OutboxRelay =
  relay_worker_id :: string
  relay_lease_duration :: int

definition outbox_relay_init :: "string \<Rightarrow> int \<Rightarrow> OutboxRelay py" where
  "outbox_relay_init worker duration =
     (if worker = [] then Inl (ValueError ''worker_id must be a nonempty string'')
      else if duration \<le> 0 then Inl (ValueError ''lease_duration must be positive'')
      else Inr \<lparr>relay_worker_id = worker, relay_lease_duration = duration\<rparr>)"

text \<open>\<open>f"{type(error).__name__}: {error}"[:1000]\<close>\<close>

fun describe_error :: "outbox_error \<Rightarrow> string" where
  "describe_error (OutboxDeliveryError m) = take 1000 (''OutboxDeliveryError: '' @ m)"
| "describe_error (OutboxFenceError m) = take 1000 (''OutboxFenceError: '' @ m)"
| "describe_error (OutboxValueError m) = take 1000 (''ValueError: '' @ m)"

text \<open>The clock is read once by each of the three calls.\<close>

definition deliver_once :: "outbox_env \<Rightarrow> OutboxRetryPolicy \<Rightarrow> 's publisher \<Rightarrow> OutboxRelay \<Rightarrow> int \<times> int \<times> int
    \<Rightarrow> outbox_db \<Rightarrow> 's \<Rightarrow> outbox_db \<times> 's \<times> OutboxDeliverySnapshot option outbox_result" where
  "deliver_once env policy publish relay clock db sink =
     (let (t1, t2, t3) = clock in
      case outbox_claim env policy (relay_worker_id relay) (relay_lease_duration relay) t1 db of
        (db1, Inl e) \<Rightarrow> (db1, sink, Inl e)
      | (db1, Inr None) \<Rightarrow> (db1, sink, Inr None)
      | (db1, Inr (Some c)) \<Rightarrow>
          (case publish t2 (claim_message c) sink of
             (sink1, Inl e) \<Rightarrow>
               (case record_failure c (describe_error e) t3 db1 of
                  (db2, Inl e') \<Rightarrow> (db2, sink1, Inl e')
                | (db2, Inr s) \<Rightarrow> (db2, sink1, Inr (Some s)))
           | (sink1, Inr _) \<Rightarrow>
               (case acknowledge c t3 db1 of
                  (db2, Inl e') \<Rightarrow> (db2, sink1, Inl e')
                | (db2, Inr s) \<Rightarrow> (db2, sink1, Inr (Some s)))))"

end
