(* ===== verification/Outbox_Laws.thy ===== *)
theory Outbox_Laws
  imports Outbox
begin

text \<open>
  The life of a delivery row as a relation between its snapshots (\<open>row_move\<close>), the steps of
  the delivery tables built from it (\<open>ostep\<close>), the invariant of the tables with the CHECK
  constraints of the schema, and the refinement of every call of the delivery store.
\<close>

section \<open>Steps\<close>

definition lease_delivery :: "string \<Rightarrow> string \<Rightarrow> int \<Rightarrow> OutboxDeliverySnapshot \<Rightarrow> OutboxDeliverySnapshot" where
  "lease_delivery token worker expires d =
     d\<lparr>d_status := LEASED, d_attempt_count := d_attempt_count d + 1, d_lease_epoch := d_lease_epoch d + 1,
       d_fencing_token := Some token, d_claimed_by := Some worker, d_lease_expires_at := Some expires,
       d_last_error := None\<rparr>"

inductive row_move :: "(string \<Rightarrow> string) \<Rightarrow> OutboxDeliverySnapshot \<Rightarrow> OutboxDeliverySnapshot \<Rightarrow> bool" for uuid5 where
  lease:
    "\<lbrakk> d_status d \<in> {PENDING, RETRY_WAIT};
       token = outbox_fencing_token uuid5 (d_outbox_id d) (d_lease_epoch d + 1) \<rbrakk>
     \<Longrightarrow> row_move uuid5 d (lease_delivery token worker expires d)"
| expire_final:
    "\<lbrakk> d_status d = LEASED; d_attempt_count d \<ge> max_attempts (d_retry_policy d) \<rbrakk>
     \<Longrightarrow> row_move uuid5 d (expire_final now d)"
| expire_retry:
    "\<lbrakk> d_status d = LEASED; d_attempt_count d < max_attempts (d_retry_policy d) \<rbrakk>
     \<Longrightarrow> row_move uuid5 d (expire_retry now d)"
| failed:
    "\<lbrakk> d_status d = LEASED; failure_outcome now d = Inr (st, next, dead) \<rbrakk>
     \<Longrightarrow> row_move uuid5 d (failed_row st next err dead d)"

inductive ostep :: "outbox_env \<Rightarrow> OutboxRetryPolicy \<Rightarrow> outbox_db \<Rightarrow> outbox_db \<Rightarrow> bool" for env policy where
  insert:
    "\<lbrakk> outbox_row_of db (o_outbox_id r) = None; o_delivered_at r = None \<rbrakk>
     \<Longrightarrow> ostep env policy db (db\<lparr>primary_outbox := primary_outbox db @ [r]\<rparr>)"
| discover: "ostep env policy db (discover policy now db)"
| move:
    "\<lbrakk> \<And>d. d \<in> set (deliveries db) \<Longrightarrow> p d \<Longrightarrow> row_move (uuid5_url env) d (f d) \<rbrakk>
     \<Longrightarrow> ostep env policy db (upd_delivery p f db)"
| deliver:
    "\<lbrakk> delivery_of db i = Some d; d_status d = LEASED; outbox_row_of db i = Some r \<rbrakk>
     \<Longrightarrow> ostep env policy db
           ((upd_delivery (\<lambda>x. d_outbox_id x = i) (delivered_row now) db)
             \<lparr>primary_outbox := update_where (\<lambda>x. o_outbox_id x = i) (\<lambda>x. x\<lparr>o_delivered_at := Some now\<rparr>)
                (primary_outbox db)\<rparr>)"

section \<open>The invariant\<close>

text \<open>The CHECK constraints of \<open>primary_outbox_deliveries\<close>.\<close>

definition delivery_checks :: "OutboxDeliverySnapshot \<Rightarrow> bool" where
  "delivery_checks d \<longleftrightarrow> 0 < max_attempts (d_retry_policy d) \<and> 0 \<le> base_delay (d_retry_policy d)
     \<and> base_delay (d_retry_policy d) \<le> max_delay (d_retry_policy d)
     \<and> (d_status d = LEASED \<longrightarrow> d_fencing_token d \<noteq> None \<and> d_claimed_by d \<noteq> None \<and> d_lease_expires_at d \<noteq> None)
     \<and> (d_status d = DELIVERED \<longleftrightarrow> d_delivered_at d \<noteq> None)
     \<and> (d_status d = DEAD_LETTER \<longleftrightarrow> d_dead_lettered_at d \<noteq> None)"

definition policy_ok :: "OutboxRetryPolicy \<Rightarrow> bool" where
  "policy_ok p \<longleftrightarrow> policy_version p \<noteq> [] \<and> 0 < max_attempts p \<and> 0 \<le> base_delay p \<and> base_delay p \<le> max_delay p"

lemma retry_policy_post_init_Inr [result_simps]:
  "retry_policy_post_init p = Inr p' \<longleftrightarrow> p' = p \<and> policy_ok p"
  by (auto simp: retry_policy_post_init_def policy_ok_def)

definition delivery_ok :: "(string \<Rightarrow> string) \<Rightarrow> OutboxDeliverySnapshot \<Rightarrow> bool" where
  "delivery_ok uuid5 d \<longleftrightarrow> delivery_checks d \<and> policy_ok (d_retry_policy d)
     \<and> d_attempt_count d \<le> max_attempts (d_retry_policy d) \<and> d_lease_epoch d = d_attempt_count d
     \<and> d_fencing_token d = (if d_lease_epoch d = 0 then None else Some (outbox_fencing_token uuid5 (d_outbox_id d) (d_lease_epoch d)))
     \<and> (d_status d \<in> {PENDING, RETRY_WAIT} \<longrightarrow> d_attempt_count d < max_attempts (d_retry_policy d))
     \<and> (d_status d = PENDING \<longrightarrow> d_attempt_count d = 0)
     \<and> (d_status d \<in> {LEASED, RETRY_WAIT} \<longrightarrow> 0 < d_attempt_count d)
     \<and> (d_status d = DEAD_LETTER \<longrightarrow> d_attempt_count d = max_attempts (d_retry_policy d))"

definition outbox_inv :: "outbox_env \<Rightarrow> outbox_db \<Rightarrow> bool" where
  "outbox_inv env db \<longleftrightarrow> distinct (map o_outbox_id (primary_outbox db)) \<and> distinct (map d_outbox_id (deliveries db))
     \<and> (\<forall>d \<in> set (deliveries db). delivery_ok (uuid5_url env) d)
     \<and> (\<forall>d \<in> set (deliveries db). \<exists>r. outbox_row_of db (d_outbox_id d) = Some r \<and> o_delivered_at r = d_delivered_at d)"

lemma delivery_of_in: "delivery_of db i = Some d \<Longrightarrow> d \<in> set (deliveries db)"
  unfolding delivery_of_def by (drule find_row_Some(1))

lemma delivery_of_id: "delivery_of db i = Some d \<Longrightarrow> d_outbox_id d = i"
  unfolding delivery_of_def by (drule find_row_Some(2))

lemma delivery_of_mem:
  "outbox_inv env db \<Longrightarrow> d \<in> set (deliveries db) \<Longrightarrow> delivery_of db (d_outbox_id d) = Some d"
  unfolding delivery_of_def outbox_inv_def by (auto intro: find_row_key)

lemma outbox_row_of_in: "outbox_row_of db i = Some r \<Longrightarrow> r \<in> set (primary_outbox db)"
  unfolding outbox_row_of_def by (drule find_row_Some(1))

lemma outbox_row_of_id: "outbox_row_of db i = Some r \<Longrightarrow> o_outbox_id r = i"
  unfolding outbox_row_of_def by (drule find_row_Some(2))

lemma outbox_row_of_mem:
  "outbox_inv env db \<Longrightarrow> r \<in> set (primary_outbox db) \<Longrightarrow> outbox_row_of db (o_outbox_id r) = Some r"
  unfolding outbox_row_of_def outbox_inv_def by (auto intro: find_row_key)

lemma inv_delivery_ok: "outbox_inv env db \<Longrightarrow> d \<in> set (deliveries db) \<Longrightarrow> delivery_ok (uuid5_url env) d"
  unfolding outbox_inv_def by blast

lemma inv_row:
  assumes "outbox_inv env db" and "d \<in> set (deliveries db)"
  obtains r where "outbox_row_of db (d_outbox_id d) = Some r" "o_delivered_at r = d_delivered_at d"
  using assms unfolding outbox_inv_def by blast

text \<open>Finding a row by key after an update that keeps the keys.\<close>

lemma find_row_update:
  assumes "\<And>x. k (f x) = k x"
  shows "find_row (\<lambda>x. k x = i) (update_where p f rows) =
    map_option (\<lambda>x. if p x then f x else x) (find_row (\<lambda>x. k x = i) rows)"
  by (induction rows) (auto simp: find_row_def update_where_def assms)

lemma upd_delivery_fields [simp]:
  "primary_outbox (upd_delivery p f db) = primary_outbox db"
  "deliveries (upd_delivery p f db) = update_where p f (deliveries db)"
  "outbox_row_of (upd_delivery p f db) i = outbox_row_of db i"
  by (simp_all add: upd_delivery_def outbox_row_of_def)

lemma discover_fields [simp]:
  "primary_outbox (discover policy now db) = primary_outbox db"
  "outbox_row_of (discover policy now db) i = outbox_row_of db i"
  by (simp_all add: discover_def outbox_row_of_def)

lemma delivery_of_upd:
  assumes "\<And>x. d_outbox_id (f x) = d_outbox_id x"
  shows "delivery_of (upd_delivery p f db) i = map_option (\<lambda>x. if p x then f x else x) (delivery_of db i)"
  unfolding delivery_of_def using find_row_update [of d_outbox_id f, OF assms] by simp

lemmas delivery_row_defs = lease_delivery_def expire_final_def expire_retry_def failed_row_def delivered_row_def

lemma delivery_row_id [simp]:
  "d_outbox_id (lease_delivery token worker expires d) = d_outbox_id d"
  "d_outbox_id (expire_final now d) = d_outbox_id d"
  "d_outbox_id (expire_retry now d) = d_outbox_id d"
  "d_outbox_id (failed_row st next err dead d) = d_outbox_id d"
  "d_outbox_id (delivered_row now d) = d_outbox_id d"
  by (simp_all add: delivery_row_defs)

lemma failure_outcome_cases:
  assumes "failure_outcome now d = Inr (st, next, dead)"
  obtains "st = DEAD_LETTER" "next = now" "dead = Some now" "d_attempt_count d \<ge> max_attempts (d_retry_policy d)"
  | delay where "st = RETRY_WAIT" "dead = None" "delay_after (d_retry_policy d) (d_attempt_count d) = Inr delay"
      "next = now + delay" "d_attempt_count d < max_attempts (d_retry_policy d)"
  using assms by (auto simp: failure_outcome_def result_simps split: if_splits)

lemma row_move_ok:
  assumes "row_move uuid5 d d'" and "delivery_ok uuid5 d"
  shows "delivery_ok uuid5 d'" and "d_outbox_id d' = d_outbox_id d" and "d_delivered_at d' = d_delivered_at d"
proof -
  have "delivery_ok uuid5 d' \<and> d_outbox_id d' = d_outbox_id d \<and> d_delivered_at d' = d_delivered_at d"
    using assms(1)
  proof cases
    case (lease token worker expires)
    then show ?thesis using assms(2)
      by (auto simp: delivery_ok_def delivery_checks_def lease_delivery_def)
  next
    case (expire_final now)
    then show ?thesis using assms(2)
      by (auto simp: delivery_ok_def delivery_checks_def expire_final_def)
  next
    case (expire_retry now)
    then show ?thesis using assms(2)
      by (auto simp: delivery_ok_def delivery_checks_def expire_retry_def)
  next
    case (failed now st "next" dead err)
    from failed(3) show ?thesis
      by (cases rule: failure_outcome_cases)
        (use failed(1,2) assms(2) in \<open>auto simp: delivery_ok_def delivery_checks_def failed_row_def\<close>)
  qed
  then show "delivery_ok uuid5 d'" "d_outbox_id d' = d_outbox_id d" "d_delivered_at d' = d_delivered_at d" by auto
qed

lemma new_delivery_ok:
  assumes "policy_ok policy"
  shows "delivery_ok uuid5 (new_delivery policy now r)" and "d_delivered_at (new_delivery policy now r) = o_delivered_at r"
    and "d_outbox_id (new_delivery policy now r) = o_outbox_id r"
  using assms by (auto simp: new_delivery_def delivery_ok_def delivery_checks_def policy_ok_def)

lemma delivered_row_ok:
  assumes "delivery_ok uuid5 d" and "d_status d = LEASED"
  shows "delivery_ok uuid5 (delivered_row now d)"
  using assms by (auto simp: delivery_ok_def delivery_checks_def delivered_row_def)

lemma outbox_row_of_append:
  "outbox_row_of (db\<lparr>primary_outbox := primary_outbox db @ [r]\<rparr>) i =
     (case outbox_row_of db i of Some x \<Rightarrow> Some x | None \<Rightarrow> if o_outbox_id r = i then Some r else None)"
proof -
  have "find_row q (rows @ [r]) = (case find_row q rows of Some x \<Rightarrow> Some x | None \<Rightarrow> if q r then Some r else None)" for q rows
    by (induction rows) (simp_all add: find_row_def)
  then show ?thesis by (simp add: outbox_row_of_def)
qed

lemma discover_ids_distinct:
  assumes "distinct (map o_outbox_id rows)" and "distinct (map d_outbox_id ds)"
    and "\<And>r. r \<in> set new \<Longrightarrow> o_outbox_id r \<notin> d_outbox_id ` set ds" and "\<And>r. d_outbox_id (g r) = o_outbox_id r"
    and "new = filter q rows"
  shows "distinct (map d_outbox_id (ds @ map g new))"
proof -
  have "distinct (map o_outbox_id new)" unfolding assms(5) using assms(1) by (rule distinct_map_filter)
  moreover have "map d_outbox_id (map g new) = map o_outbox_id new" by (simp add: assms(4))
  moreover have "set (map d_outbox_id ds) \<inter> set (map o_outbox_id new) = {}"
    using assms(3) by (auto simp: image_iff) metis
  ultimately show ?thesis using assms(2) by (metis distinct_append map_append)
qed

lemma discover_inv:
  assumes inv: "outbox_inv env db" and pol: "policy_ok policy"
  shows "outbox_inv env (discover policy now db)"
proof -
  let ?new = "filter (\<lambda>r. delivery_of db (o_outbox_id r) = None) (primary_outbox db)"
  have ds: "deliveries (discover policy now db) = deliveries db @ map (new_delivery policy now) ?new"
    by (simp add: discover_def)
  have "distinct (map d_outbox_id (deliveries (discover policy now db)))"
    unfolding ds
  proof (rule discover_ids_distinct [OF _ _ _ _ refl])
    show "distinct (map o_outbox_id (primary_outbox db))" "distinct (map d_outbox_id (deliveries db))"
      using inv by (simp_all add: outbox_inv_def)
    show "o_outbox_id r \<notin> d_outbox_id ` set (deliveries db)" if "r \<in> set ?new" for r
      using that by (auto simp: delivery_of_def)
  qed (simp add: new_delivery_def)
  moreover have "\<exists>r. outbox_row_of db (d_outbox_id d) = Some r \<and> o_delivered_at r = d_delivered_at d"
    if "d \<in> set (map (new_delivery policy now) ?new)" for d
  proof -
    from that obtain r where r: "r \<in> set (primary_outbox db)" "d = new_delivery policy now r" by auto
    then show ?thesis using outbox_row_of_mem [OF inv r(1)] new_delivery_ok(2,3) [OF pol, of now r] by auto
  qed
  moreover have "delivery_ok (uuid5_url env) d" if "d \<in> set (map (new_delivery policy now) ?new)" for d
    using that new_delivery_ok(1) [OF pol] by auto
  ultimately show ?thesis using inv unfolding outbox_inv_def ds discover_fields set_append ball_Un by blast
qed

lemma move_inv:
  assumes inv: "outbox_inv env db" and f: "\<And>d. d \<in> set (deliveries db) \<Longrightarrow> p d \<Longrightarrow> row_move (uuid5_url env) d (f d)"
  shows "outbox_inv env (upd_delivery p f db)"
proof -
  let ?g = "\<lambda>x. if p x then f x else x"
  have g: "delivery_ok (uuid5_url env) (?g d)" "d_outbox_id (?g d) = d_outbox_id d" "d_delivered_at (?g d) = d_delivered_at d"
    if "d \<in> set (deliveries db)" for d
    using row_move_ok [OF f [OF that]] inv_delivery_ok [OF inv that] by simp_all
  have ds: "deliveries (upd_delivery p f db) = map ?g (deliveries db)" by (simp add: update_where_def)
  have ids: "map d_outbox_id (map ?g (deliveries db)) = map d_outbox_id (deliveries db)" using g(2) by simp
  have "\<exists>r. outbox_row_of db (d_outbox_id (?g d)) = Some r \<and> o_delivered_at r = d_delivered_at (?g d)"
    if d: "d \<in> set (deliveries db)" for d
    unfolding g(2,3) [OF d] using inv d by (simp add: outbox_inv_def)
  with g(1) have "\<forall>d \<in> ?g ` set (deliveries db). delivery_ok (uuid5_url env) d"
    "\<forall>d \<in> ?g ` set (deliveries db). \<exists>r. outbox_row_of db (d_outbox_id d) = Some r \<and> o_delivered_at r = d_delivered_at d"
    by blast+
  then show ?thesis using inv unfolding outbox_inv_def ds ids upd_delivery_fields(1,3) set_map by simp
qed

lemma deliver_inv:
  assumes inv: "outbox_inv env db" and d: "delivery_of db i = Some d" "d_status d = LEASED"
  shows "outbox_inv env ((upd_delivery (\<lambda>x. d_outbox_id x = i) (delivered_row now) db)
             \<lparr>primary_outbox := update_where (\<lambda>x. o_outbox_id x = i) (\<lambda>x. x\<lparr>o_delivered_at := Some now\<rparr>)
                (primary_outbox db)\<rparr>)" (is "outbox_inv env ?db")
proof -
  have rows: "outbox_row_of ?db j = map_option (\<lambda>x. if o_outbox_id x = i then x\<lparr>o_delivered_at := Some now\<rparr> else x) (outbox_row_of db j)" for j
    unfolding outbox_row_of_def by (simp add: find_row_update [of o_outbox_id])
  let ?g = "\<lambda>x. if d_outbox_id x = i then delivered_row now x else x"
  have ds: "deliveries ?db = map ?g (deliveries db)" by (simp add: update_where_def)
  have only: "x = d" if "x \<in> set (deliveries db)" "d_outbox_id x = i" for x
    using delivery_of_mem [OF inv that(1)] that(2) d(1) by simp
  have okd: "delivery_ok (uuid5_url env) (?g x)" if "x \<in> set (deliveries db)" for x
    using inv_delivery_ok [OF inv that] only [OF that] d(2) delivered_row_ok by auto
  have fk: "\<exists>r. outbox_row_of ?db (d_outbox_id (?g x)) = Some r \<and> o_delivered_at r = d_delivered_at (?g x)"
    if x: "x \<in> set (deliveries db)" for x
  proof -
    obtain r where r: "outbox_row_of db (d_outbox_id x) = Some r" "o_delivered_at r = d_delivered_at x"
      by (rule inv_row [OF inv x])
    then show ?thesis using outbox_row_of_id [OF r(1)] by (cases "d_outbox_id x = i") (simp_all add: rows delivered_row_def)
  qed
  have "map d_outbox_id (deliveries ?db) = map d_outbox_id (deliveries db)" unfolding ds by simp
  moreover have "map o_outbox_id (primary_outbox ?db) = map o_outbox_id (primary_outbox db)"
    by (simp add: map_update_where)
  moreover from okd fk have "\<forall>x \<in> set (deliveries ?db). delivery_ok (uuid5_url env) x"
    "\<forall>x \<in> set (deliveries ?db). \<exists>r. outbox_row_of ?db (d_outbox_id x) = Some r \<and> o_delivered_at r = d_delivered_at x"
    unfolding ds set_map by blast+
  ultimately show ?thesis using inv unfolding outbox_inv_def by metis
qed

lemma ostep_inv:
  assumes "ostep env policy db db'" and inv: "outbox_inv env db" and pol: "policy_ok policy"
  shows "outbox_inv env db'"
  using assms(1)
proof cases
  case (insert r)
  have new: "o_outbox_id r \<notin> o_outbox_id ` set (primary_outbox db)" using insert(2) by (auto simp: outbox_row_of_def)
  have "\<exists>x. outbox_row_of db' (d_outbox_id d) = Some x \<and> o_delivered_at x = d_delivered_at d"
    if d: "d \<in> set (deliveries db)" for d
  proof -
    obtain x where "outbox_row_of db (d_outbox_id d) = Some x" "o_delivered_at x = d_delivered_at d"
      by (rule inv_row [OF inv d])
    then show ?thesis by (simp add: insert(1) outbox_row_of_append)
  qed
  with new inv show ?thesis unfolding outbox_inv_def insert(1) by simp
next
  case (discover now)
  then show ?thesis using discover_inv [OF inv pol] by simp
next
  case (move p f)
  show ?thesis unfolding move(1) by (rule move_inv [OF inv move(2)])
next
  case (deliver i d r now)
  then show ?thesis using deliver_inv [OF inv] by simp
qed

lemma osteps_inv:
  assumes "(ostep env policy)\<^sup>*\<^sup>* db db'" and "outbox_inv env db" and "policy_ok policy"
  shows "outbox_inv env db'"
  using assms by (induction rule: rtranclp_induct) (auto intro: ostep_inv)

section \<open>What never changes\<close>

definition delivery_evolves :: "OutboxDeliverySnapshot \<Rightarrow> OutboxDeliverySnapshot \<Rightarrow> bool" where
  "delivery_evolves d d' \<longleftrightarrow> d_outbox_id d' = d_outbox_id d \<and> d_retry_policy d' = d_retry_policy d
     \<and> d_lease_epoch d \<le> d_lease_epoch d' \<and> (d_status d \<in> {DELIVERED, DEAD_LETTER} \<longrightarrow> d' = d)"

definition fact_kept :: "OutboxRow \<Rightarrow> OutboxRow \<Rightarrow> bool" where
  "fact_kept r r' \<longleftrightarrow> r'\<lparr>o_delivered_at := None\<rparr> = r\<lparr>o_delivered_at := None\<rparr> \<and> (o_delivered_at r \<noteq> None \<longrightarrow> r' = r)"

definition outbox_evolves :: "outbox_db \<Rightarrow> outbox_db \<Rightarrow> bool" where
  "outbox_evolves db db' \<longleftrightarrow>
     (\<forall>i d. delivery_of db i = Some d \<longrightarrow> (\<exists>d'. delivery_of db' i = Some d' \<and> delivery_evolves d d'))
     \<and> (\<forall>i r. outbox_row_of db i = Some r \<longrightarrow> (\<exists>r'. outbox_row_of db' i = Some r' \<and> fact_kept r r'))"

lemma delivery_evolves_refl: "delivery_evolves d d"
  by (simp add: delivery_evolves_def)

lemma delivery_evolves_trans: "delivery_evolves a b \<Longrightarrow> delivery_evolves b c \<Longrightarrow> delivery_evolves a c"
  by (auto simp: delivery_evolves_def)

lemma fact_kept_refl: "fact_kept r r"
  by (simp add: fact_kept_def)

lemma fact_kept_trans: "fact_kept a b \<Longrightarrow> fact_kept b c \<Longrightarrow> fact_kept a c"
  by (auto simp: fact_kept_def)

lemma outbox_evolves_refl: "outbox_evolves db db"
  using delivery_evolves_refl fact_kept_refl by (auto simp: outbox_evolves_def)

lemma outbox_evolves_trans:
  assumes ab: "outbox_evolves a b" and bc: "outbox_evolves b c"
  shows "outbox_evolves a c"
proof -
  have "\<exists>d'. delivery_of c i = Some d' \<and> delivery_evolves d d'" if "delivery_of a i = Some d" for i d
    using ab bc that delivery_evolves_trans unfolding outbox_evolves_def by meson
  moreover have "\<exists>r'. outbox_row_of c i = Some r' \<and> fact_kept r r'" if "outbox_row_of a i = Some r" for i r
    using ab bc that fact_kept_trans unfolding outbox_evolves_def by meson
  ultimately show ?thesis unfolding outbox_evolves_def by blast
qed

lemma row_move_evolves:
  assumes "row_move uuid5 d d'"
  shows "delivery_evolves d d'"
  using assms by cases (auto simp: delivery_evolves_def delivery_row_defs)

lemma row_move_id: "row_move uuid5 d d' \<Longrightarrow> d_outbox_id d' = d_outbox_id d"
  using row_move_evolves by (simp add: delivery_evolves_def)

lemma find_row_update_mem:
  assumes "\<And>x. x \<in> set rows \<Longrightarrow> p x \<Longrightarrow> k (f x) = k x"
  shows "find_row (\<lambda>x. k x = i) (update_where p f rows) =
    map_option (\<lambda>x. if p x then f x else x) (find_row (\<lambda>x. k x = i) rows)"
  using assms by (induction rows) (auto simp: find_row_def update_where_def)

lemma ostep_evolves:
  assumes "ostep env policy db db'" and inv: "outbox_inv env db"
  shows "outbox_evolves db db'"
  using assms(1)
proof cases
  case (insert r)
  have "delivery_of db' i = delivery_of db i" for i by (simp add: insert(1) delivery_of_def)
  then show ?thesis
    using delivery_evolves_refl fact_kept_refl
    by (auto simp: outbox_evolves_def insert(1) outbox_row_of_append split: option.splits)
next
  case (discover now)
  have "delivery_of db' i = Some d" if "delivery_of db i = Some d" for i d
  proof -
    have "find_row q (xs @ ys) = Some d" if "find_row q xs = Some d" for q and xs ys :: "OutboxDeliverySnapshot list"
      using that by (induction xs) (auto simp: find_row_def)
    with that show ?thesis by (simp add: discover delivery_of_def discover_def)
  qed
  then show ?thesis using delivery_evolves_refl fact_kept_refl discover by (auto simp: outbox_evolves_def)
next
  case (move p f)
  have "delivery_of db' i = map_option (\<lambda>x. if p x then f x else x) (delivery_of db i)" for i
    unfolding move(1) delivery_of_def upd_delivery_fields
    by (rule find_row_update_mem) (rule row_move_id [OF move(2)])
  moreover have "delivery_evolves d (if p d then f d else d)" if "delivery_of db i = Some d" for i d
    using row_move_evolves [OF move(2) [OF delivery_of_in [OF that]]] delivery_evolves_refl by simp
  moreover have "outbox_row_of db' i = outbox_row_of db i" for i by (simp add: move(1))
  ultimately show ?thesis using fact_kept_refl by (simp add: outbox_evolves_def)
next
  case (deliver i d r now)
  have D: "delivery_of db' j = map_option (\<lambda>x. if d_outbox_id x = i then delivered_row now x else x) (delivery_of db j)" for j
    unfolding deliver(1) delivery_of_def by (simp add: find_row_update [of d_outbox_id])
  have R: "outbox_row_of db' j = map_option (\<lambda>x. if o_outbox_id x = i then x\<lparr>o_delivered_at := Some now\<rparr> else x) (outbox_row_of db j)" for j
    unfolding deliver(1) outbox_row_of_def by (simp add: find_row_update [of o_outbox_id])
  have "d_delivered_at d = None"
    using inv_delivery_ok [OF inv delivery_of_in [OF deliver(2)]] deliver(3) by (auto simp: delivery_ok_def delivery_checks_def)
  then have und: "o_delivered_at r = None"
    using inv_row [OF inv delivery_of_in [OF deliver(2)]] delivery_of_id [OF deliver(2)] deliver(4) by force
  have "delivery_evolves x (if d_outbox_id x = i then delivered_row now x else x)" if "delivery_of db j = Some x" for j x
    using that delivery_of_id [OF that] deliver(2,3) by (auto simp: delivery_evolves_def delivered_row_def)
  moreover have "fact_kept x (if o_outbox_id x = i then x\<lparr>o_delivered_at := Some now\<rparr> else x)" if "outbox_row_of db j = Some x" for j x
    using that outbox_row_of_id [OF that] deliver(4) und by (auto simp: fact_kept_def)
  ultimately show ?thesis by (simp add: outbox_evolves_def D R)
qed

lemma osteps_evolves:
  assumes "(ostep env policy)\<^sup>*\<^sup>* db db'" and "outbox_inv env db" and "policy_ok policy"
  shows "outbox_evolves db db'"
  using assms
proof (induction rule: rtranclp_induct)
  case base
  show ?case by (rule outbox_evolves_refl)
next
  case (step y z)
  have "outbox_inv env y" using osteps_inv [OF step.hyps(1) step.prems] .
  from outbox_evolves_trans [OF step.IH [OF step.prems] ostep_evolves [OF step.hyps(2) this]] show ?case .
qed

section \<open>Calls are steps\<close>

lemma expire_leases_steps: "(ostep env policy)\<^sup>*\<^sup>* db (expire_leases now db)"
proof -
  let ?p = "\<lambda>d. lease_due now d \<and> d_attempt_count d \<ge> max_attempts (d_retry_policy d)"
  let ?q = "\<lambda>d. lease_due now d \<and> d_attempt_count d < max_attempts (d_retry_policy d)"
  have "ostep env policy db (upd_delivery ?p (expire_final now) db)"
    by (rule ostep.move) (auto simp: lease_due_def intro: row_move.expire_final)
  moreover have "ostep env policy (upd_delivery ?p (expire_final now) db) (expire_leases now db)"
    unfolding expire_leases_def by (rule ostep.move) (auto simp: lease_due_def intro: row_move.expire_retry)
  ultimately show ?thesis by (rule converse_rtranclp_into_rtranclp [OF _ r_into_rtranclp])
qed

lemma expire_leases_row [simp]: "outbox_row_of (expire_leases now db) i = outbox_row_of db i"
  by (simp add: expire_leases_def)

lemma joined_row_Inr [result_simps]:
  "joined_row db i = Inr (r, d) \<longleftrightarrow> outbox_row_of db i = Some r \<and> delivery_of db i = Some d"
  by (auto simp: joined_row_def split: option.splits)

lemma joined_row_Inl: "joined_row db i = Inl e \<Longrightarrow> \<not> (\<exists>r d. outbox_row_of db i = Some r \<and> delivery_of db i = Some d)"
  unfolding joined_row_def by (intro notI, elim exE conjE) simp

lemma snapshot_from_row_Inr [result_simps]:
  "snapshot_from_row d = Inr s \<longleftrightarrow> s = d \<and> policy_ok (d_retry_policy d)"
  by (auto simp: snapshot_from_row_def result_simps)

lemma claimable_iff:
  assumes inv: "outbox_inv env db"
  shows "(r, d) \<in> set (claimable now db) \<longleftrightarrow> outbox_row_of db (o_outbox_id r) = Some r \<and> delivery_of db (o_outbox_id r) = Some d
    \<and> o_delivered_at r = None \<and> d_status d \<in> {PENDING, RETRY_WAIT} \<and> d_next_attempt_at d \<le> now"
proof -
  have "r \<in> set (primary_outbox db) \<longleftrightarrow> outbox_row_of db (o_outbox_id r) = Some r"
    using outbox_row_of_mem [OF inv] outbox_row_of_in by blast
  moreover have "d \<in> set (deliveries db) \<and> d_outbox_id d = o_outbox_id r \<longleftrightarrow> delivery_of db (o_outbox_id r) = Some d"
    using delivery_of_mem [OF inv] delivery_of_in delivery_of_id by metis
  ultimately show ?thesis by (auto simp: claimable_def)
qed

text \<open>With unique keys, a guarded update that matches its row is the update by key.\<close>

lemma upd_delivery_guard:
  assumes inv: "outbox_inv env db" and d: "delivery_of db i = Some d" and "p d" and "\<And>x. p x \<Longrightarrow> d_outbox_id x = i"
  shows "upd_delivery p f db = upd_delivery (\<lambda>x. d_outbox_id x = i) f db" and "rowcount p (deliveries db) = 1"
proof -
  have only: "p x \<longleftrightarrow> d_outbox_id x = i" if "x \<in> set (deliveries db)" for x
  proof
    assume "d_outbox_id x = i"
    then have "x = d" using delivery_of_mem [OF inv that] d by simp
    with assms(3) show "p x" by simp
  qed (rule assms(4))
  then show "upd_delivery p f db = upd_delivery (\<lambda>x. d_outbox_id x = i) f db"
    by (simp add: upd_delivery_def update_where_def)
  have "distinct (map d_outbox_id (deliveries db))" using inv by (simp add: outbox_inv_def)
  then show "rowcount p (deliveries db) = 1"
    by (rule rowcount_key [OF _ delivery_of_in [OF d]]) (use assms(3,4) delivery_of_id [OF d] in auto)
qed

lemma prepared_inv:
  assumes "outbox_inv env db" and "policy_ok policy"
  shows "(ostep env policy)\<^sup>*\<^sup>* db (expire_leases now (discover policy now db))"
    and "outbox_inv env (expire_leases now (discover policy now db))"
proof -
  show *: "(ostep env policy)\<^sup>*\<^sup>* db (expire_leases now (discover policy now db))"
    by (rule converse_rtranclp_into_rtranclp [OF ostep.discover expire_leases_steps])
  show "outbox_inv env (expire_leases now (discover policy now db))" by (rule osteps_inv [OF * assms])
qed

lemma message_from_row_Inr:
  assumes "message_from_row env r = Inr m"
  shows "msg_outbox_id m = o_outbox_id r" and "msg_payload m = o_payload_json r"
    and "msg_payload_sha256 m = exact_bytes_sha256 env (o_payload_json r)"
    and "msg_recording_identity m = o_recording_identity r"
  using assms by (auto simp: message_from_row_def Let_def outbox_message_post_init_def result_simps split: if_splits option.splits)

text \<open>
  What a claim does: nothing claimable, or the row with the least key leased under the next
  epoch, provided its payload is a valid record.
\<close>

lemma claim_body_Some:
  assumes inv: "outbox_inv env db" and pol: "policy_ok policy" and db1: "db1 = expire_leases now (discover policy now db)"
    and min: "min_by outbox_key (claimable now db1) = Some (r, d)"
    and s: "s = lease_delivery (outbox_fencing_token (uuid5_url env) (o_outbox_id r) (d_lease_epoch d + 1)) worker (now + duration) d"
  shows "claim_body env policy worker duration now db =
    rbind (message_from_row env r) (\<lambda>m. Inr (upd_delivery (\<lambda>x. d_outbox_id x = o_outbox_id r) (\<lambda>x. s) db1,
      Some \<lparr>claim_message = m, claim_delivery = s\<rparr>))"
proof -
  note inv1 = prepared_inv(2) [OF inv pol, of now, folded db1]
  have rows: "outbox_row_of db1 (o_outbox_id r) = Some r" "delivery_of db1 (o_outbox_id r) = Some d" "d_status d \<in> {PENDING, RETRY_WAIT}"
    using min_by_Some(1) [OF min] claimable_iff [OF inv1] by blast+
  have i: "d_outbox_id d = o_outbox_id r" using delivery_of_id [OF rows(2)] .
  let ?tok = "outbox_fencing_token (uuid5_url env) (o_outbox_id r) (d_lease_epoch d + 1)"
  let ?db2 = "upd_delivery (\<lambda>x. d_outbox_id x = o_outbox_id r) (\<lambda>x. s) db1"
  have pd: "claim_where d d" using rows(3) by (simp add: claim_where_def)
  note guard = upd_delivery_guard [OF inv1 rows(2), of "claim_where d", OF pd]
  have "upd_delivery (claim_where d) (claim_set ?tok worker (now + duration) d) db1 =
      upd_delivery (\<lambda>x. d_outbox_id x = o_outbox_id r) (claim_set ?tok worker (now + duration) d) db1"
    by (rule guard(1)) (simp add: claim_where_def i)
  also have "\<dots> = ?db2"
  proof -
    have "claim_set ?tok worker (now + duration) d x = s" if "x \<in> set (deliveries db1)" "d_outbox_id x = o_outbox_id r" for x
      using delivery_of_mem [OF inv1 that(1)] that(2) rows(2) by (simp add: s lease_delivery_def claim_set_def)
    then show ?thesis by (simp add: upd_delivery_def update_where_def)
  qed
  finally have upd: "upd_delivery (claim_where d) (claim_set ?tok worker (now + duration) d) db1 = ?db2" .
  have "delivery_of ?db2 (o_outbox_id r) = Some s"
    unfolding delivery_of_def upd_delivery_fields
    by (subst find_row_update_mem) (use rows(2) i in \<open>simp_all add: s delivery_of_def [symmetric]\<close>)
  then have joined: "joined_row ?db2 (o_outbox_id r) = Inr (r, s)" using rows(1) by (simp add: joined_row_Inr)
  have count: "rowcount (claim_where d) (deliveries db1) = 1" by (rule guard(2)) (simp add: claim_where_def i)
  have "policy_ok (d_retry_policy s)"
    using inv_delivery_ok [OF inv1 delivery_of_in [OF rows(2)]] by (simp add: delivery_ok_def s lease_delivery_def)
  then have snap: "snapshot_from_row s = Inr s" by (simp add: snapshot_from_row_Inr)
  have post: "outbox_claim_post_init \<lparr>claim_message = m, claim_delivery = s\<rparr> = Inr \<lparr>claim_message = m, claim_delivery = s\<rparr>"
    if "message_from_row env r = Inr m" for m
    using message_from_row_Inr(1) [OF that] i by (simp add: outbox_claim_post_init_def s lease_delivery_def)
  show ?thesis
    unfolding claim_body_def Let_def db1 [symmetric] min option.case prod.case i upd
    using count joined snap post by (cases "message_from_row env r") simp_all
qed

lemma claim_body_cases:
  assumes inv: "outbox_inv env db" and pol: "policy_ok policy"
    and run: "claim_body env policy worker duration now db = Inr (db', res)"
  obtains (none) "res = None" "db' = expire_leases now (discover policy now db)" "claimable now db' = []"
  | (claim) c r d db1 where "res = Some c" "db1 = expire_leases now (discover policy now db)"
      "(r, d) \<in> set (claimable now db1)" "\<And>x. x \<in> set (claimable now db1) \<Longrightarrow> outbox_key (r, d) \<le> outbox_key x"
      "claim_delivery c = lease_delivery (outbox_fencing_token (uuid5_url env) (o_outbox_id r) (d_lease_epoch d + 1)) worker (now + duration) d"
      "message_from_row env r = Inr (claim_message c)" "claim_outbox_id c = o_outbox_id r"
      "db' = upd_delivery (\<lambda>x. d_outbox_id x = o_outbox_id r) (\<lambda>x. claim_delivery c) db1"
proof -
  let ?db1 = "expire_leases now (discover policy now db)"
  show thesis
  proof (cases "min_by outbox_key (claimable now ?db1)")
    case None
    with run show thesis by (intro none) (auto simp: claim_body_def Let_def)
  next
    case (Some rd)
    obtain r d where rd: "rd = (r, d)" by fastforce
    note m = min_by_Some [OF Some [unfolded rd]]
    let ?s = "lease_delivery (outbox_fencing_token (uuid5_url env) (o_outbox_id r) (d_lease_epoch d + 1)) worker (now + duration) d"
    from run obtain msg where ms: "message_from_row env r = Inr msg"
      "res = Some \<lparr>claim_message = msg, claim_delivery = ?s\<rparr>"
      "db' = upd_delivery (\<lambda>x. d_outbox_id x = o_outbox_id r) (\<lambda>x. ?s) ?db1"
      unfolding claim_body_Some [OF inv pol refl Some [unfolded rd] refl] by (auto simp: result_simps)
    show thesis
      by (rule claim [OF ms(2) refl m(1)])
        (use ms m(2) message_from_row_Inr(1) [OF ms(1)] in \<open>simp_all add: claim_outbox_id_def\<close>)
  qed
qed

lemma claim_body_steps:
  assumes inv: "outbox_inv env db" and pol: "policy_ok policy"
    and run: "claim_body env policy worker duration now db = Inr (db', res)"
  shows "(ostep env policy)\<^sup>*\<^sup>* db db'"
  using inv pol run
proof (cases rule: claim_body_cases)
  case none
  then show ?thesis using prepared_inv(1) [OF inv pol] by simp
next
  case (claim c r d db1)
  note inv1 = prepared_inv(2) [OF inv pol, of now, folded claim(2)]
  have rd: "delivery_of db1 (o_outbox_id r) = Some d" "d_status d \<in> {PENDING, RETRY_WAIT}"
    using claim(3) claimable_iff [OF inv1] by blast+
  have "ostep env policy db1 db'"
    unfolding claim(8)
  proof (rule ostep.move)
    fix x assume x: "x \<in> set (deliveries db1)" "d_outbox_id x = o_outbox_id r"
    then have "x = d" using delivery_of_mem [OF inv1 x(1)] rd(1) by simp
    then show "row_move (uuid5_url env) x (claim_delivery c)"
      unfolding claim(5) using rd(2) delivery_of_id [OF rd(1)] by (metis row_move.lease)
  qed
  with prepared_inv(1) [OF inv pol, of now] show ?thesis unfolding claim(2) by (rule rtranclp.rtrancl_into_rtrancl)
qed

lemma outbox_expired_inv:
  assumes "outbox_inv env db" and "policy_ok policy"
  shows "outbox_inv env (expire_leases now db)"
  by (rule osteps_inv [OF expire_leases_steps [of env policy] assms])

lemma fence_matches_where:
  assumes "fence_matches c d" and "delivery_ok uuid5 d" and "d_outbox_id d = claim_outbox_id c"
  shows "fence_where c d"
  using assms by (auto simp: fence_matches_def fence_where_def delivery_ok_def delivery_checks_def)

lemma fence_update:
  assumes inv: "outbox_inv env db" and d: "delivery_of db (claim_outbox_id c) = Some d" "fence_matches c d"
  shows "upd_delivery (fence_where c) f db = upd_delivery (\<lambda>x. d_outbox_id x = claim_outbox_id c) f db"
    and "rowcount (fence_where c) (deliveries db) = 1"
proof -
  have w: "fence_where c d"
    by (rule fence_matches_where [OF d(2) inv_delivery_ok [OF inv delivery_of_in [OF d(1)]] delivery_of_id [OF d(1)]])
  note g = upd_delivery_guard [OF inv d(1), of "fence_where c", OF w]
  show "upd_delivery (fence_where c) f db = upd_delivery (\<lambda>x. d_outbox_id x = claim_outbox_id c) f db"
    by (rule g(1)) (simp add: fence_where_def)
  show "rowcount (fence_where c) (deliveries db) = 1" by (rule g(2)) (simp add: fence_where_def)
qed

lemma leased_undelivered:
  assumes inv: "outbox_inv env db" and d: "delivery_of db i = Some d" "d_status d = LEASED"
    and r: "outbox_row_of db i = Some r"
  shows "o_delivered_at r = None"
proof -
  have "d_delivered_at d = None"
    using inv_delivery_ok [OF inv delivery_of_in [OF d(1)]] d(2) by (auto simp: delivery_ok_def delivery_checks_def)
  moreover obtain r' where "outbox_row_of db (d_outbox_id d) = Some r'" "o_delivered_at r' = d_delivered_at d"
    by (rule inv_row [OF inv delivery_of_in [OF d(1)]])
  ultimately show ?thesis using r delivery_of_id [OF d(1)] by simp
qed

lemma row_update_guard:
  assumes inv: "outbox_inv env db" and r: "outbox_row_of db i = Some r" "o_delivered_at r = None"
  shows "update_where (\<lambda>x. o_outbox_id x = i \<and> o_delivered_at x = None) f (primary_outbox db) =
      update_where (\<lambda>x. o_outbox_id x = i) f (primary_outbox db)"
    and "rowcount (\<lambda>x. o_outbox_id x = i \<and> o_delivered_at x = None) (primary_outbox db) = 1"
proof -
  have "o_delivered_at x = None" if "x \<in> set (primary_outbox db)" "o_outbox_id x = i" for x
    using outbox_row_of_mem [OF inv that(1)] that(2) r by simp
  then show "update_where (\<lambda>x. o_outbox_id x = i \<and> o_delivered_at x = None) f (primary_outbox db) =
      update_where (\<lambda>x. o_outbox_id x = i) f (primary_outbox db)"
    by (auto simp: update_where_def)
  have "distinct (map o_outbox_id (primary_outbox db))" using inv by (simp add: outbox_inv_def)
  then show "rowcount (\<lambda>x. o_outbox_id x = i \<and> o_delivered_at x = None) (primary_outbox db) = 1"
    by (rule rowcount_key [OF _ outbox_row_of_in [OF r(1)]]) (use r(2) outbox_row_of_id [OF r(1)] in auto)
qed

text \<open>The tables after an accepted acknowledgement.\<close>

definition mark_delivered :: "string \<Rightarrow> int \<Rightarrow> outbox_db \<Rightarrow> outbox_db" where
  "mark_delivered i now db =
     (upd_delivery (\<lambda>x. d_outbox_id x = i) (delivered_row now) db)
       \<lparr>primary_outbox := update_where (\<lambda>x. o_outbox_id x = i) (\<lambda>x. x\<lparr>o_delivered_at := Some now\<rparr>) (primary_outbox db)\<rparr>"

lemma mark_delivered_step:
  "delivery_of db i = Some d \<Longrightarrow> d_status d = LEASED \<Longrightarrow> outbox_row_of db i = Some r \<Longrightarrow>
    ostep env policy db (mark_delivered i now db)"
  unfolding mark_delivered_def by (rule ostep.deliver)

lemma mark_delivered_views:
  "delivery_of (mark_delivered i now db) j =
     map_option (\<lambda>x. if d_outbox_id x = i then delivered_row now x else x) (delivery_of db j)"
  "outbox_row_of (mark_delivered i now db) j =
     map_option (\<lambda>x. if o_outbox_id x = i then x\<lparr>o_delivered_at := Some now\<rparr> else x) (outbox_row_of db j)"
  unfolding mark_delivered_def delivery_of_def outbox_row_of_def
  by (simp_all add: find_row_update [of d_outbox_id] find_row_update [of o_outbox_id])

text \<open>An acknowledgement that returns is a replay or marks the fenced row as delivered.\<close>

lemma acknowledge_body_iff:
  assumes inv: "outbox_inv env db" and pol: "policy_ok policy"
    and db1_def: "db1 = expire_leases now db" and i_def: "i = claim_outbox_id c"
  shows "acknowledge_body c now db = Inr (db', s) \<longleftrightarrow>
    (\<exists>r d. outbox_row_of db1 i = Some r \<and> delivery_of db1 i = Some d \<and>
      (if ack_replay c d
       then db' = db1 \<and> s = d
       else fence_matches c d \<and> db' = mark_delivered i now db1 \<and> s = delivered_row now d))"
proof -
  note inv1 = outbox_expired_inv [OF inv pol, of now, folded db1_def]
  have polok: "policy_ok (d_retry_policy d)" if "delivery_of db1 i = Some d" for d
    using inv_delivery_ok [OF inv1 delivery_of_in [OF that]] by (simp add: delivery_ok_def)
  have fenced: "rowcount (fence_where c) (deliveries db1) = 1"
    "rowcount (\<lambda>x. o_outbox_id x = i \<and> o_delivered_at x = None) (primary_outbox db1) = 1"
    "(upd_delivery (fence_where c) (delivered_row now) db1)\<lparr>primary_outbox :=
        update_where (\<lambda>x. o_outbox_id x = i \<and> o_delivered_at x = None) (\<lambda>x. x\<lparr>o_delivered_at := Some now\<rparr>) (primary_outbox db1)\<rparr>
      = mark_delivered i now db1"
    if rd: "outbox_row_of db1 i = Some r" "delivery_of db1 i = Some d" "fence_matches c d" for r d
  proof -
    note f = fence_update [OF inv1, of c, folded i_def, OF rd(2,3)]
    have "o_delivered_at r = None"
      by (rule leased_undelivered [OF inv1 rd(2) _ rd(1)]) (use rd(3) in \<open>simp add: fence_matches_def\<close>)
    note g = row_update_guard [OF inv1 rd(1) this]
    show "rowcount (fence_where c) (deliveries db1) = 1" by (rule f(2))
    show "rowcount (\<lambda>x. o_outbox_id x = i \<and> o_delivered_at x = None) (primary_outbox db1) = 1" by (rule g(2))
    show "(upd_delivery (fence_where c) (delivered_row now) db1)\<lparr>primary_outbox :=
        update_where (\<lambda>x. o_outbox_id x = i \<and> o_delivered_at x = None) (\<lambda>x. x\<lparr>o_delivered_at := Some now\<rparr>) (primary_outbox db1)\<rparr>
      = mark_delivered i now db1"
      unfolding mark_delivered_def f(1) g(1) by (rule refl)
  qed
  show ?thesis
  proof (cases "joined_row db1 i")
    case (Inl e)
    note miss = joined_row_Inl [OF Inl]
    with Inl show ?thesis by (auto simp: acknowledge_body_def Let_def simp flip: db1_def i_def)
  next
    case (Inr rd)
    obtain r d where rd: "rd = (r, d)" by fastforce
    have views: "outbox_row_of db1 i = Some r" "delivery_of db1 i = Some d"
      using Inr by (simp_all add: rd joined_row_Inr)
    have i: "d_outbox_id d = i" using delivery_of_id [OF views(2)] .
    consider (replay) "ack_replay c d"
      | (stale) "\<not> ack_replay c d" "\<not> fence_matches c d"
      | (fresh) "\<not> ack_replay c d" "fence_matches c d"
      by blast
    then show ?thesis
    proof cases
      case replay
      then show ?thesis using Inr views polok [OF views(2)]
        by (auto simp: acknowledge_body_def Let_def rd result_simps simp flip: db1_def i_def)
    next
      case stale
      have "acknowledge_body c now db = Inl (OutboxFenceError ''outbox delivery claim is stale'')"
        using Inr stale(2) unfolding acknowledge_body_def Let_def db1_def [symmetric] i_def [symmetric] Inr rd
        by (simp add: require_current_fence_def stale(1))
      then show ?thesis using views stale by auto
    next
      case fresh
      have "joined_row (mark_delivered i now db1) i = Inr (the (outbox_row_of (mark_delivered i now db1) i), delivered_row now d)"
        using views i by (simp add: joined_row_Inr mark_delivered_views)
      moreover have "policy_ok (d_retry_policy (delivered_row now d))"
        using polok [OF views(2)] by (simp add: delivered_row_def)
      then have "snapshot_from_row (delivered_row now d) = Inr (delivered_row now d)" by (simp add: snapshot_from_row_Inr)
      ultimately have "acknowledge_body c now db = Inr (mark_delivered i now db1, delivered_row now d)"
        using Inr fresh fenced [OF views fresh(2)]
        by (simp add: acknowledge_body_def Let_def rd require_current_fence_def flip: db1_def i_def)
      then show ?thesis using fresh views by auto
    qed
  qed
qed

text \<open>A failure that returns is a replay or gives the fenced row back.\<close>

lemma record_failure_body_iff:
  assumes inv: "outbox_inv env db" and pol: "policy_ok policy"
    and db1_def: "db1 = expire_leases now db" and i_def: "i = claim_outbox_id c"
  shows "record_failure_body c err now db = Inr (db', s) \<longleftrightarrow>
    (\<exists>r d. outbox_row_of db1 i = Some r \<and> delivery_of db1 i = Some d \<and>
      (if failure_replay c err d
       then db' = db1 \<and> s = d
       else fence_matches c d \<and> (\<exists>st next dead. failure_outcome now d = Inr (st, next, dead)
          \<and> db' = upd_delivery (\<lambda>x. d_outbox_id x = i) (failed_row st next err dead) db1 \<and> s = failed_row st next err dead d)))"
proof -
  note inv1 = outbox_expired_inv [OF inv pol, of now, folded db1_def]
  have polok: "policy_ok (d_retry_policy d)" if "delivery_of db1 i = Some d" for d
    using inv_delivery_ok [OF inv1 delivery_of_in [OF that]] by (simp add: delivery_ok_def)
  show ?thesis
  proof (cases "joined_row db1 i")
    case (Inl e)
    note miss = joined_row_Inl [OF Inl]
    with Inl show ?thesis by (auto simp: record_failure_body_def Let_def simp flip: db1_def i_def)
  next
    case (Inr rd)
    obtain r d where rd: "rd = (r, d)" by fastforce
    have views: "outbox_row_of db1 i = Some r" "delivery_of db1 i = Some d"
      using Inr by (simp_all add: rd joined_row_Inr)
    have i: "d_outbox_id d = i" using delivery_of_id [OF views(2)] .
    consider (replay) "failure_replay c err d" | (stale) "\<not> failure_replay c err d" "\<not> fence_matches c d"
      | (bad) e where "\<not> failure_replay c err d" "fence_matches c d" "failure_outcome now d = Inl e"
      | (fresh) st "next" dead where "\<not> failure_replay c err d" "fence_matches c d" "failure_outcome now d = Inr (st, next, dead)"
      by (metis sum.exhaust prod_cases3)
    then show ?thesis
    proof cases
      case replay
      have snap: "snapshot_from_row d = Inr d" using polok [OF views(2)] by (simp add: snapshot_from_row_Inr)
      with replay have "record_failure_body c err now db = Inr (db1, d)" using Inr
        by (simp add: record_failure_body_def Let_def rd flip: db1_def i_def)
      then show ?thesis using views replay by auto
    next
      case stale
      then have "record_failure_body c err now db = Inl (OutboxFenceError ''outbox delivery claim is stale'')" using Inr
        by (simp add: record_failure_body_def Let_def rd require_current_fence_def flip: db1_def i_def)
      then show ?thesis using views stale by auto
    next
      case bad
      then have "record_failure_body c err now db = Inl e" using Inr
        by (simp add: record_failure_body_def Let_def rd require_current_fence_def flip: db1_def i_def)
      then show ?thesis using views bad by auto
    next
      case fresh
      let ?s = "failed_row st next err dead d"
      let ?db = "upd_delivery (\<lambda>x. d_outbox_id x = i) (failed_row st next err dead) db1"
      note f = fence_update [OF inv1, of c, folded i_def, OF views(2) fresh(2)]
      have "joined_row ?db i = Inr (r, ?s)" using views i by (simp add: joined_row_Inr delivery_of_upd)
      moreover have "policy_ok (d_retry_policy ?s)" using polok [OF views(2)] by (simp add: failed_row_def)
      then have "snapshot_from_row ?s = Inr ?s" by (simp add: snapshot_from_row_Inr)
      ultimately have "record_failure_body c err now db = Inr (?db, ?s)"
        using Inr fresh f
        by (simp add: record_failure_body_def Let_def rd require_current_fence_def flip: db1_def i_def)
      then show ?thesis using fresh views by auto
    qed
  qed
qed

lemma acknowledge_body_steps:
  assumes inv: "outbox_inv env db" and pol: "policy_ok policy" and run: "acknowledge_body c now db = Inr (db', s)"
  shows "(ostep env policy)\<^sup>*\<^sup>* db db'"
proof -
  let ?db1 = "expire_leases now db" and ?i = "claim_outbox_id c"
  note e = expire_leases_steps [of env policy db now]
  obtain r d where rd: "outbox_row_of ?db1 ?i = Some r" "delivery_of ?db1 ?i = Some d"
    "db' = ?db1 \<or> (fence_matches c d \<and> db' = mark_delivered ?i now ?db1)"
    using run unfolding acknowledge_body_iff [OF inv pol refl refl] by (metis (full_types))
  from rd(3) show ?thesis
  proof
    assume "fence_matches c d \<and> db' = mark_delivered ?i now ?db1"
    then have "ostep env policy ?db1 db'" using mark_delivered_step [OF rd(2) _ rd(1)] by (simp add: fence_matches_def)
    with e show ?thesis by (rule rtranclp.rtrancl_into_rtrancl)
  qed (use e in simp)
qed

lemma record_failure_body_steps:
  assumes inv: "outbox_inv env db" and pol: "policy_ok policy" and run: "record_failure_body c err now db = Inr (db', s)"
  shows "(ostep env policy)\<^sup>*\<^sup>* db db'"
proof -
  let ?db1 = "expire_leases now db" and ?i = "claim_outbox_id c"
  note e = expire_leases_steps [of env policy db now]
  note inv1 = outbox_expired_inv [OF inv pol, of now]
  obtain r d where rd: "delivery_of ?db1 ?i = Some d" "db' = ?db1 \<or> (fence_matches c d \<and> (\<exists>st next dead.
      failure_outcome now d = Inr (st, next, dead) \<and> db' = upd_delivery (\<lambda>x. d_outbox_id x = ?i) (failed_row st next err dead) ?db1))"
    using run unfolding record_failure_body_iff [OF inv pol refl refl] by (metis (full_types))
  from rd(2) show ?thesis
  proof (elim disjE conjE exE)
    fix st "next" dead
    assume f: "fence_matches c d" "failure_outcome now d = Inr (st, next, dead)"
      "db' = upd_delivery (\<lambda>x. d_outbox_id x = ?i) (failed_row st next err dead) ?db1"
    have "x = d" if "x \<in> set (deliveries ?db1)" "d_outbox_id x = ?i" for x
      using delivery_of_mem [OF inv1 that(1)] that(2) rd(1) by simp
    then have "ostep env policy ?db1 db'" unfolding f(3)
      by (intro ostep.move) (use f(1,2) in \<open>auto simp: fence_matches_def intro!: row_move.failed\<close>)
    with e show ?thesis by (rule rtranclp.rtrancl_into_rtrancl)
  qed (use e in simp)
qed

end
