(* ===== verification/Outbox_Relay.thy ===== *)
theory Outbox_Relay
  imports Outbox_Laws
begin

text \<open>
  The whole relay: any number of processes that claim, publish and acknowledge, in any
  interleaving, with crashes between any two calls, against a sink that keeps the contract of
  \<open>IdempotentOutboxSink\<close> (a locale). The end-to-end guarantee is proved once from the
  contract and instantiated for the SQLite sink.
\<close>

section \<open>Store calls\<close>

lemma outbox_transaction_cases:
  assumes "outbox_transaction body db = (db', res)"
  obtains e where "body db = Inl e" "db' = db" "res = Inl e" | a where "body db = Inr (db', a)" "res = Inr a"
  using assms by (auto simp: outbox_transaction_def split: sum.splits)

lemma outbox_claim_steps:
  assumes "outbox_inv env db" and "policy_ok policy" and "outbox_claim env policy worker duration now db = (db', res)"
  shows "(ostep env policy)\<^sup>*\<^sup>* db db'"
  using assms(3) claim_body_steps [OF assms(1,2)]
  by (auto simp: outbox_claim_def split: if_splits elim!: outbox_transaction_cases)

lemma acknowledge_steps:
  assumes "outbox_inv env db" and "policy_ok policy" and "acknowledge c now db = (db', res)"
  shows "(ostep env policy)\<^sup>*\<^sup>* db db'"
  using assms(3) acknowledge_body_steps [OF assms(1,2)]
  by (auto simp: acknowledge_def elim!: outbox_transaction_cases)

lemma record_failure_steps:
  assumes "outbox_inv env db" and "policy_ok policy" and "record_failure c err now db = (db', res)"
  shows "(ostep env policy)\<^sup>*\<^sup>* db db'"
  using assms(3) record_failure_body_steps [OF assms(1,2)]
  by (auto simp: record_failure_def split: if_splits elim!: outbox_transaction_cases)

lemma outbox_claim_Some:
  assumes inv: "outbox_inv env db" and pol: "policy_ok policy"
    and "outbox_claim env policy worker duration now db = (db', Inr (Some c))"
  obtains r d db1 where "db1 = expire_leases now (discover policy now db)"
      "(r, d) \<in> set (claimable now db1)" "\<And>x. x \<in> set (claimable now db1) \<Longrightarrow> outbox_key (r, d) \<le> outbox_key x"
      "claim_delivery c = lease_delivery (outbox_fencing_token (uuid5_url env) (o_outbox_id r) (d_lease_epoch d + 1)) worker (now + duration) d"
      "message_from_row env r = Inr (claim_message c)" "claim_outbox_id c = o_outbox_id r"
      "db' = upd_delivery (\<lambda>x. d_outbox_id x = o_outbox_id r) (\<lambda>x. claim_delivery c) db1"
proof -
  have run: "claim_body env policy worker duration now db = Inr (db', Some c)"
    using assms(3) by (auto simp: outbox_claim_def split: if_splits elim!: outbox_transaction_cases)
  show thesis
    using inv pol run
  proof (cases rule: claim_body_cases)
    case (claim c' r d db1)
    then show thesis using that [of db1 r d] by simp
  qed simp
qed

text \<open>The outbox facts are touched by an accepted acknowledgement only.\<close>

lemma outbox_claim_facts:
  assumes inv: "outbox_inv env db" and pol: "policy_ok policy"
    and "outbox_claim env policy worker duration now db = (db', res)"
  shows "primary_outbox db' = primary_outbox db"
proof -
  have "primary_outbox (expire_leases now (discover policy now db)) = primary_outbox db"
    by (simp add: expire_leases_def)
  moreover have "primary_outbox db' = primary_outbox db" if "claim_body env policy worker duration now db = Inr (db', x)" for x
    using inv pol that by (cases rule: claim_body_cases) (simp_all add: calculation)
  ultimately show ?thesis using assms(3) by (auto simp: outbox_claim_def split: if_splits elim!: outbox_transaction_cases)
qed

lemma expire_leases_facts [simp]: "primary_outbox (expire_leases now db) = primary_outbox db"
  by (simp add: expire_leases_def)

lemma record_failure_facts:
  assumes inv: "outbox_inv env db" and pol: "policy_ok policy" and "record_failure c err now db = (db', res)"
  shows "primary_outbox db' = primary_outbox db"
proof -
  have "primary_outbox db' = primary_outbox db" if "record_failure_body c e now db = Inr (db', s)" for e s
  proof -
    from that obtain d where "db' = expire_leases now db \<or> (\<exists>st next dead.
        db' = upd_delivery (\<lambda>x. d_outbox_id x = claim_outbox_id c) (failed_row st next e dead) (expire_leases now db))"
      unfolding record_failure_body_iff [OF inv pol refl refl] by (metis (full_types))
    then show ?thesis by (elim disjE exE) simp_all
  qed
  then show ?thesis using assms(3) by (auto simp: record_failure_def split: if_splits elim!: outbox_transaction_cases)
qed

lemma acknowledge_facts:
  assumes inv: "outbox_inv env db" and pol: "policy_ok policy" and "acknowledge c now db = (db', res)"
  shows "primary_outbox db' = primary_outbox db \<or> primary_outbox db' =
    update_where (\<lambda>x. o_outbox_id x = claim_outbox_id c) (\<lambda>x. x\<lparr>o_delivered_at := Some now\<rparr>) (primary_outbox db)"
proof -
  have "db' = expire_leases now db \<or> db' = mark_delivered (claim_outbox_id c) now (expire_leases now db)"
    if "acknowledge_body c now db = Inr (db', s)" for s
    using that unfolding acknowledge_body_iff [OF inv pol refl refl] by (metis (full_types))
  then show ?thesis using assms(3) by (auto simp: acknowledge_def mark_delivered_def elim!: outbox_transaction_cases)
qed

lemma message_from_row_fact: "message_from_row env (r\<lparr>o_delivered_at := t\<rparr>) = message_from_row env r"
  by (simp add: message_from_row_def Let_def split: option.split)

lemma message_fact_kept: "fact_kept r r' \<Longrightarrow> message_from_row env r' = message_from_row env r"
  unfolding fact_kept_def by (metis message_from_row_fact)

section \<open>The contract of a sink\<close>

definition msg_bytes :: "OutboxMessage \<Rightarrow> string \<times> string \<times> string \<times> string" where
  "msg_bytes m = (msg_topic m, msg_key m, msg_payload m, msg_payload_sha256 m)"

locale idempotent_sink =
  fixes publish :: "'s publisher" and holds :: "'s \<Rightarrow> OutboxMessage \<Rightarrow> bool"
  assumes publish_holds: "publish t m s = (s', Inr u) \<Longrightarrow> holds s' m"
    and publish_keeps: "publish t m s = (s', res) \<Longrightarrow> holds s x \<Longrightarrow> holds s' x"
    and publish_replay: "holds s m \<Longrightarrow> publish t m s = (s, Inr ())"
    and publish_conflict: "holds s x \<Longrightarrow> msg_outbox_id m = msg_outbox_id x \<Longrightarrow> msg_bytes m \<noteq> msg_bytes x
      \<Longrightarrow> \<exists>e. publish t m s = (s, Inl e)"

section \<open>Interleaved relays\<close>

datatype relay_phase =
    Idle
  | Holding OutboxDeliveryClaim
  | Sent OutboxDeliveryClaim
  | SendFailed OutboxDeliveryClaim string

record 's relay_system =
  sys_db :: outbox_db
  sys_sink :: 's
  sys_phase :: "nat \<Rightarrow> relay_phase"

inductive relay_step :: "outbox_env \<Rightarrow> OutboxRetryPolicy \<Rightarrow> 's publisher \<Rightarrow> 's relay_system \<Rightarrow> 's relay_system \<Rightarrow> bool"
  for env policy publish where
  commit:
    "\<lbrakk> outbox_row_of (sys_db s) (o_outbox_id r) = None; o_delivered_at r = None;
       db' = (sys_db s)\<lparr>primary_outbox := primary_outbox (sys_db s) @ [r]\<rparr> \<rbrakk>
     \<Longrightarrow> relay_step env policy publish s (s\<lparr>sys_db := db'\<rparr>)"
| claim:
    "\<lbrakk> sys_phase s p = Idle; outbox_claim env policy worker duration t (sys_db s) = (db', Inr (Some c)) \<rbrakk>
     \<Longrightarrow> relay_step env policy publish s (s\<lparr>sys_db := db', sys_phase := (sys_phase s)(p := Holding c)\<rparr>)"
| no_claim:
    "\<lbrakk> outbox_claim env policy worker duration t (sys_db s) = (db', res) \<rbrakk>
     \<Longrightarrow> relay_step env policy publish s (s\<lparr>sys_db := db'\<rparr>)"
| send:
    "\<lbrakk> sys_phase s p = Holding c; publish t (claim_message c) (sys_sink s) = (sink', Inr ()) \<rbrakk>
     \<Longrightarrow> relay_step env policy publish s (s\<lparr>sys_sink := sink', sys_phase := (sys_phase s)(p := Sent c)\<rparr>)"
| send_failed:
    "\<lbrakk> sys_phase s p = Holding c; publish t (claim_message c) (sys_sink s) = (sink', res);
       sink'' = sink' \<or> sink'' = sys_sink s \<rbrakk>
     \<Longrightarrow> relay_step env policy publish s (s\<lparr>sys_sink := sink'', sys_phase := (sys_phase s)(p := SendFailed c err)\<rparr>)"
| ack:
    "\<lbrakk> sys_phase s p = Sent c; acknowledge c t (sys_db s) = (db', res) \<rbrakk>
     \<Longrightarrow> relay_step env policy publish s (s\<lparr>sys_db := db', sys_phase := (sys_phase s)(p := Idle)\<rparr>)"
| give_up:
    "\<lbrakk> sys_phase s p = SendFailed c err; record_failure c err t (sys_db s) = (db', res) \<rbrakk>
     \<Longrightarrow> relay_step env policy publish s (s\<lparr>sys_db := db', sys_phase := (sys_phase s)(p := Idle)\<rparr>)"
| crash: "relay_step env policy publish s (s\<lparr>sys_phase := (sys_phase s)(p := Idle)\<rparr>)"

definition relay_init :: "'s \<Rightarrow> 's relay_system" where
  "relay_init sink = \<lparr>sys_db = \<lparr>primary_outbox = [], deliveries = []\<rparr>, sys_sink = sink, sys_phase = (\<lambda>_. Idle)\<rparr>"

fun held_claim :: "relay_phase \<Rightarrow> OutboxDeliveryClaim option" where
  "held_claim Idle = None"
| "held_claim (Holding c) = Some c"
| "held_claim (Sent c) = Some c"
| "held_claim (SendFailed c err) = Some c"

definition claim_bound :: "outbox_env \<Rightarrow> outbox_db \<Rightarrow> OutboxDeliveryClaim \<Rightarrow> bool" where
  "claim_bound env db c \<longleftrightarrow> (\<exists>r. outbox_row_of db (claim_outbox_id c) = Some r \<and> message_from_row env r = Inr (claim_message c))"

definition facts_held :: "outbox_env \<Rightarrow> ('s \<Rightarrow> OutboxMessage \<Rightarrow> bool) \<Rightarrow> outbox_db \<Rightarrow> 's \<Rightarrow> bool" where
  "facts_held env holds db sink \<longleftrightarrow> (\<forall>r \<in> set (primary_outbox db). o_delivered_at r \<noteq> None \<longrightarrow>
     (\<exists>m. message_from_row env r = Inr m \<and> holds sink m))"

definition relay_inv :: "outbox_env \<Rightarrow> ('s \<Rightarrow> OutboxMessage \<Rightarrow> bool) \<Rightarrow> 's relay_system \<Rightarrow> bool" where
  "relay_inv env holds s \<longleftrightarrow> outbox_inv env (sys_db s)
     \<and> (\<forall>p c. held_claim (sys_phase s p) = Some c \<longrightarrow> claim_bound env (sys_db s) c)
     \<and> (\<forall>p c. sys_phase s p = Sent c \<longrightarrow> holds (sys_sink s) (claim_message c))
     \<and> facts_held env holds (sys_db s) (sys_sink s)"

lemma claim_bound_evolves: "outbox_evolves db db' \<Longrightarrow> claim_bound env db c \<Longrightarrow> claim_bound env db' c"
  unfolding claim_bound_def outbox_evolves_def by (metis message_fact_kept)

text \<open>Every step keeps the tables' invariant and lets rows evolve.\<close>

lemma relay_step_db:
  assumes "relay_step env policy publish s s'" and inv: "outbox_inv env (sys_db s)" and pol: "policy_ok policy"
  shows "(ostep env policy)\<^sup>*\<^sup>* (sys_db s) (sys_db s')"
  using assms(1)
proof cases
  case (commit r db')
  then show ?thesis using ostep.insert [of "sys_db s" r env policy] by simp
next
  case (claim p worker duration t db' c)
  then show ?thesis using outbox_claim_steps [OF inv pol] by simp
next
  case (no_claim worker duration t db' res)
  then show ?thesis using outbox_claim_steps [OF inv pol] by simp
next
  case (ack p c t db' res)
  then show ?thesis using acknowledge_steps [OF inv pol] by simp
next
  case (give_up p c err t db' res)
  then show ?thesis using record_failure_steps [OF inv pol] by simp
qed simp_all

context idempotent_sink
begin

lemma relay_step_keeps:
  assumes "relay_step env policy publish s s'" and "holds (sys_sink s) m"
  shows "holds (sys_sink s') m"
  using assms(1)
proof cases
  case (send p c t sink')
  then show ?thesis using publish_keeps [OF send(3)] assms(2) by simp
next
  case (send_failed p c t sink' res sink'' err)
  then show ?thesis using publish_keeps [OF send_failed(3)] assms(2) by auto
qed (use assms(2) in simp_all)

lemma relay_step_phase:
  assumes step: "relay_step env policy publish s s'" and inv: "relay_inv env holds s" and pol: "policy_ok policy"
  shows "held_claim (sys_phase s' p) = Some c \<Longrightarrow> claim_bound env (sys_db s') c"
    and "sys_phase s' p = Sent c \<Longrightarrow> holds (sys_sink s') (claim_message c)"
proof -
  have oinv: "outbox_inv env (sys_db s)" using inv by (simp add: relay_inv_def)
  have ev: "outbox_evolves (sys_db s) (sys_db s')" by (rule osteps_evolves [OF relay_step_db [OF step oinv pol] oinv pol])
  have old: "claim_bound env (sys_db s') c" if "held_claim (sys_phase s q) = Some c" for q c
    using inv that claim_bound_evolves [OF ev] unfolding relay_inv_def by blast
  have sent: "holds (sys_sink s') (claim_message c)" if "sys_phase s q = Sent c" for q c
    using inv that relay_step_keeps [OF step] unfolding relay_inv_def by blast
  show "held_claim (sys_phase s' p) = Some c \<Longrightarrow> claim_bound env (sys_db s') c"
    using step
  proof cases
    case (claim q worker duration t db' c')
    obtain r d db1 where r: "db1 = expire_leases t (discover policy t (sys_db s))" "(r, d) \<in> set (claimable t db1)"
      "message_from_row env r = Inr (claim_message c')" "claim_outbox_id c' = o_outbox_id r"
      "db' = upd_delivery (\<lambda>x. d_outbox_id x = o_outbox_id r) (\<lambda>x. claim_delivery c') db1"
      by (rule outbox_claim_Some [OF oinv pol claim(3)]) blast
    have "outbox_row_of db1 (o_outbox_id r) = Some r"
      using r(2) claimable_iff [OF prepared_inv(2) [OF oinv pol, of t, folded r(1)]] by blast
    then have "claim_bound env db' c'" using r(3-5) by (simp add: claim_bound_def)
    then show "held_claim (sys_phase s' p) = Some c \<Longrightarrow> claim_bound env (sys_db s') c"
      using claim old by (cases "p = q") auto
  next
    case (send q c' t sink')
    then show "held_claim (sys_phase s' p) = Some c \<Longrightarrow> claim_bound env (sys_db s') c"
      using old [of p c] old [of q c'] by (cases "p = q") auto
  next
    case (send_failed q c' t sink' res sink'' err)
    then show "held_claim (sys_phase s' p) = Some c \<Longrightarrow> claim_bound env (sys_db s') c"
      using old [of p c] old [of q c'] by (cases "p = q") auto
  qed (use old [of p c] in \<open>auto split: if_splits\<close>)
  show "sys_phase s' p = Sent c \<Longrightarrow> holds (sys_sink s') (claim_message c)"
    using step
  proof cases
    case (send q c' t sink')
    then show "sys_phase s' p = Sent c \<Longrightarrow> holds (sys_sink s') (claim_message c)"
      using sent [of p c] publish_holds [OF send(3)] by (cases "p = q") auto
  qed (use sent [of p c] in \<open>auto split: if_splits\<close>)
qed

lemma facts_held_ack:
  assumes inv: "outbox_inv env db" and pol: "policy_ok policy" and old: "facts_held env holds db sink"
    and bound: "claim_bound env db c" and sent: "holds sink (claim_message c)" and run: "acknowledge c t db = (db', res)"
  shows "facts_held env holds db' sink"
  unfolding facts_held_def
proof (intro ballI impI)
  fix r assume r: "r \<in> set (primary_outbox db')" "o_delivered_at r \<noteq> None"
  show "\<exists>m. message_from_row env r = Inr m \<and> holds sink m"
    using acknowledge_facts [OF inv pol run]
  proof
    assume "primary_outbox db' = primary_outbox db"
    with r old show ?thesis by (simp add: facts_held_def)
  next
    let ?f = "\<lambda>x. x\<lparr>o_delivered_at := Some t\<rparr>"
    assume "primary_outbox db' = update_where (\<lambda>x. o_outbox_id x = claim_outbox_id c) ?f (primary_outbox db)"
    then obtain x where x: "x \<in> set (primary_outbox db)" "r = (if o_outbox_id x = claim_outbox_id c then ?f x else x)"
      using r(1) by (auto simp: set_update_where)
    show ?thesis
    proof (cases "o_outbox_id x = claim_outbox_id c")
      case True
      then have "message_from_row env x = Inr (claim_message c)"
        using bound outbox_row_of_mem [OF inv x(1)] by (simp add: claim_bound_def)
      then show ?thesis using sent x(2) True by (simp add: message_from_row_fact)
    next
      case False
      then show ?thesis using x r(2) old by (simp add: facts_held_def)
    qed
  qed
qed

lemma relay_step_facts:
  assumes step: "relay_step env policy publish s s'" and inv: "relay_inv env holds s" and pol: "policy_ok policy"
  shows "facts_held env holds (sys_db s') (sys_sink s')"
proof -
  have oinv: "outbox_inv env (sys_db s)" and old: "facts_held env holds (sys_db s) (sys_sink s)"
    using inv by (simp_all add: relay_inv_def)
  have same: "facts_held env holds (sys_db s') (sys_sink s')" if "primary_outbox (sys_db s') = primary_outbox (sys_db s)"
    using old that relay_step_keeps [OF step] unfolding facts_held_def by metis
  show ?thesis
    using step
  proof cases
    case (commit r db')
    then show ?thesis using old by (auto simp: facts_held_def)
  next
    case (claim p worker duration t db' c)
    then show ?thesis using same outbox_claim_facts [OF oinv pol claim(3)] by simp
  next
    case (no_claim worker duration t db' res)
    then show ?thesis using same outbox_claim_facts [OF oinv pol no_claim(2)] by simp
  next
    case (ack p c t db' res)
    have "claim_bound env (sys_db s) c" "holds (sys_sink s) (claim_message c)"
      using inv ack(2) unfolding relay_inv_def by (metis held_claim.simps(3), blast)
    then show ?thesis using facts_held_ack [OF oinv pol old _ _ ack(3)] ack(1) by simp
  next
    case (give_up p c err t db' res)
    then show ?thesis using same record_failure_facts [OF oinv pol give_up(3)] by simp
  qed (use same in simp_all)
qed

lemma relay_step_inv:
  assumes step: "relay_step env policy publish s s'" and inv: "relay_inv env holds s" and pol: "policy_ok policy"
  shows "relay_inv env holds s'"
proof -
  have "outbox_inv env (sys_db s)" using inv by (simp add: relay_inv_def)
  from osteps_inv [OF relay_step_db [OF step this pol] this pol] show ?thesis
    unfolding relay_inv_def using relay_step_phase [OF step inv pol] relay_step_facts [OF step inv pol] by blast
qed

lemma relay_init_inv: "relay_inv env holds (relay_init sink)"
  by (simp add: relay_inv_def relay_init_def outbox_inv_def facts_held_def)

lemma relay_reach_inv:
  assumes "(relay_step env policy publish)\<^sup>*\<^sup>* (relay_init sink) s" and "policy_ok policy"
  shows "relay_inv env holds s"
  using assms(1) by (induction rule: rtranclp_induct) (auto intro: relay_init_inv relay_step_inv [OF _ _ assms(2)])

text \<open>A delivered fact is in the sink, with exactly its bytes.\<close>

lemma delivered_is_held:
  assumes "(relay_step env policy publish)\<^sup>*\<^sup>* (relay_init sink) s" and "policy_ok policy"
    and "r \<in> set (primary_outbox (sys_db s))" and "o_delivered_at r \<noteq> None"
  shows "\<exists>m. message_from_row env r = Inr m \<and> holds (sys_sink s) m"
  using relay_reach_inv [OF assms(1,2)] assms(3,4) by (simp add: relay_inv_def facts_held_def)

end

section \<open>The SQLite sink keeps the contract\<close>

definition sink_holds :: "SinkRow list \<Rightarrow> OutboxMessage \<Rightarrow> bool" where
  "sink_holds rows m \<longleftrightarrow> (case sink_find rows (msg_outbox_id m) of None \<Rightarrow> False
     | Some r \<Rightarrow> (sink_topic r, sink_message_key r, sink_payload r, sink_payload_sha256 r) = msg_bytes m)"

lemma sink_find_append:
  "sink_find (rows @ [x]) i = (case sink_find rows i of Some r \<Rightarrow> Some r | None \<Rightarrow> if sink_outbox_id x = i then Some x else None)"
  unfolding sink_find_def find_row_def by (induction rows) simp_all

interpretation sqlite_sink: idempotent_sink sink_publish sink_holds
proof
  show "sink_holds s' m" if "sink_publish t m s = (s', Inr u)" for t m s s' u
    using that by (auto simp: sink_publish_def sink_holds_def msg_bytes_def sink_row_def sink_find_append split: option.splits if_splits)
  show "sink_holds s' x" if "sink_publish t m s = (s', res)" "sink_holds s x" for t m s s' res x
    using that by (auto simp: sink_publish_def sink_holds_def sink_find_append split: option.splits if_splits)
  show "sink_publish t m s = (s, Inr ())" if "sink_holds s m" for t m s
    using that by (auto simp: sink_publish_def sink_holds_def msg_bytes_def split: option.splits)
  show "\<exists>e. sink_publish t m s = (s, Inl e)"
    if "sink_holds s x" "msg_outbox_id m = msg_outbox_id x" "msg_bytes m \<noteq> msg_bytes x" for s x m t
    using that by (auto simp: sink_publish_def sink_holds_def msg_bytes_def split: option.splits)
qed

text \<open>The sink has one row per message and only grows.\<close>

lemma sink_publish_grows:
  assumes "sink_publish t m s = (s', res)" and "distinct (map sink_outbox_id s)"
  shows "distinct (map sink_outbox_id s')" and "\<exists>new. s' = s @ new"
  using assms
  by (auto simp: sink_publish_def sink_find_def sink_row_def split: option.splits if_splits) blast

lemma relay_step_sink:
  assumes "relay_step env policy sink_publish s s'" and d: "distinct (map sink_outbox_id (sys_sink s))"
  shows "distinct (map sink_outbox_id (sys_sink s')) \<and> (\<exists>new. sys_sink s' = sys_sink s @ new)"
  using assms(1)
proof cases
  case (send p c t sink')
  then show ?thesis using sink_publish_grows [OF send(3) d] by simp
next
  case (send_failed p c t sink' res sink'' err)
  then show ?thesis using sink_publish_grows [OF send_failed(3) d] d by auto
qed (use d in simp_all)

lemma relay_steps_sink:
  assumes "(relay_step env policy sink_publish)\<^sup>*\<^sup>* s s'" and "distinct (map sink_outbox_id (sys_sink s))"
  shows "distinct (map sink_outbox_id (sys_sink s')) \<and> (\<exists>new. sys_sink s' = sys_sink s @ new)"
  using assms
proof (induction rule: rtranclp_induct)
  case (step y z)
  then show ?case using relay_step_sink [OF step.hyps(2)] by (metis append.assoc)
qed simp

section \<open>One call of the relay\<close>

lemma deliver_once_steps:
  assumes idle: "sys_phase s p = Idle"
    and run: "deliver_once env policy publish relay clock (sys_db s) (sys_sink s) = (db', sink', res)"
  shows "(relay_step env policy publish)\<^sup>*\<^sup>* s (s\<lparr>sys_db := db', sys_sink := sink'\<rparr>)"
proof -
  obtain t1 t2 t3 where clock: "clock = (t1, t2, t3)" by (metis prod_cases3)
  obtain db1 x where cl: "outbox_claim env policy (relay_worker_id relay) (relay_lease_duration relay) t1 (sys_db s) = (db1, x)"
    by fastforce
  have again: "(sys_phase s)(p := Idle) = sys_phase s" using idle by auto
  show ?thesis
  proof (cases "\<exists>c. x = Inr (Some c)")
    case False
    then have "db' = db1" "sink' = sys_sink s"
      using run cl unfolding deliver_once_def clock by (auto split: sum.splits option.splits)
    then show ?thesis using relay_step.no_claim [OF cl, of publish] by (simp add: r_into_rtranclp)
  next
    case True
    then obtain c where x: "x = Inr (Some c)" by blast
    obtain sink1 y where pub: "publish t2 (claim_message c) (sys_sink s) = (sink1, y)" by fastforce
    let ?s1 = "s\<lparr>sys_db := db1, sys_phase := (sys_phase s)(p := Holding c)\<rparr>"
    have s1: "relay_step env policy publish s ?s1" using relay_step.claim [OF idle] cl x by blast
    show ?thesis
    proof (cases y)
      case (Inr u)
      let ?s2 = "?s1\<lparr>sys_sink := sink1, sys_phase := (sys_phase ?s1)(p := Sent c)\<rparr>"
      have s2: "relay_step env policy publish ?s1 ?s2" by (rule relay_step.send [of _ _ _ _ t2]) (use pub Inr in simp_all)
      obtain db2 z where ack: "acknowledge c t3 db1 = (db2, z)" by fastforce
      have s3: "relay_step env policy publish ?s2 (?s2\<lparr>sys_db := db2, sys_phase := (sys_phase ?s2)(p := Idle)\<rparr>)"
        by (rule relay_step.ack [of _ _ _ t3]) (use ack in simp_all)
      have fin: "db' = db2" "sink' = sink1"
        using run cl x pub Inr ack unfolding deliver_once_def clock by (auto split: sum.splits)
      have "?s2\<lparr>sys_db := db2, sys_phase := (sys_phase ?s2)(p := Idle)\<rparr> = s\<lparr>sys_db := db2, sys_sink := sink1\<rparr>"
        using again by (intro relay_system.equality) simp_all
      with s3 have "relay_step env policy publish ?s2 (s\<lparr>sys_db := db2, sys_sink := sink1\<rparr>)" by simp
      from converse_rtranclp_into_rtranclp [OF s1 converse_rtranclp_into_rtranclp [OF s2 r_into_rtranclp [of "relay_step env policy publish", OF this]]]
      show ?thesis using fin by simp
    next
      case (Inl e)
      let ?err = "describe_error e"
      let ?s2 = "?s1\<lparr>sys_sink := sink1, sys_phase := (sys_phase ?s1)(p := SendFailed c ?err)\<rparr>"
      have s2: "relay_step env policy publish ?s1 ?s2" 
        using relay_step.send_failed [where s = ?s1 and p = p and c = c and t = t2 and sink' = sink1 and res = y
          and sink'' = sink1 and err = ?err and publish = publish and env = env and policy = policy] pub
        by simp
      obtain db2 z where rf: "record_failure c ?err t3 db1 = (db2, z)" by fastforce
      have s3: "relay_step env policy publish ?s2 (?s2\<lparr>sys_db := db2, sys_phase := (sys_phase ?s2)(p := Idle)\<rparr>)"
        by (rule relay_step.give_up [of _ _ _ ?err t3]) (use rf in simp_all)
      have fin: "db' = db2" "sink' = sink1"
        using run cl x pub Inl rf unfolding deliver_once_def clock by (auto split: sum.splits)
      have "?s2\<lparr>sys_db := db2, sys_phase := (sys_phase ?s2)(p := Idle)\<rparr> = s\<lparr>sys_db := db2, sys_sink := sink1\<rparr>"
        using again by (intro relay_system.equality) simp_all
      with s3 have "relay_step env policy publish ?s2 (s\<lparr>sys_db := db2, sys_sink := sink1\<rparr>)" by simp
      from converse_rtranclp_into_rtranclp [OF s1 converse_rtranclp_into_rtranclp [OF s2 r_into_rtranclp [of "relay_step env policy publish", OF this]]]
      show ?thesis using fin by simp
    qed
  qed
qed

end
