(* ===== verification/Outbox_Properties.thy ===== *)
theory Outbox_Properties
  imports Outbox_Relay
begin

text \<open>
  The guarantees of the outbox relay: consistent tables, delivery with exactly the committed
  bytes, fencing of stale workers, finality, the retry policy, the order of delivery, and that
  a call against a working sink does deliver.
\<close>

section \<open>An example\<close>

definition ex_env :: outbox_env where
  "ex_env = \<lparr>exact_bytes_sha256 = (\<lambda>s. ''#'' @ s), uuid5_url = (\<lambda>s. s),
     decode_wire = (\<lambda>s. if s = [] then None else
       Some \<lparr>wire_outbox_id = s, wire_topic = ''topic'', wire_recording_identity = ''rec'', wire_key = ''rec'',
         wire_assignment_logical_key = ''key''\<rparr>),
     canonical_json_bytes = wire_outbox_id\<rparr>"

definition ex_policy :: OutboxRetryPolicy where
  "ex_policy = \<lparr>policy_version = ''v1'', max_attempts = 2, base_delay = 10, max_delay = 15\<rparr>"

definition ex_row :: OutboxRow where
  "ex_row = \<lparr>o_outbox_id = ''m1'', o_completion_run_id = ''run'', o_recording_identity = ''rec'', o_outbox_ordinal = 0,
     o_assignment_logical_key = ''key'', o_payload_json = ''m1'', o_payload_json_sha256 = ''#m1'', o_delivered_at = None\<rparr>"

definition ex_db :: outbox_db where
  "ex_db = \<lparr>primary_outbox = [ex_row], deliveries = []\<rparr>"

definition ex_system :: "SinkRow list relay_system" where
  "ex_system = \<lparr>sys_db = ex_db, sys_sink = [], sys_phase = (\<lambda>_. Idle)\<rparr>"

definition ex_relay :: OutboxRelay where
  "ex_relay = \<lparr>relay_worker_id = ''w'', relay_lease_duration = 100\<rparr>"

abbreviation relay_reach :: "outbox_env \<Rightarrow> OutboxRetryPolicy \<Rightarrow> SinkRow list relay_system \<Rightarrow> bool" where
  "relay_reach env policy s \<equiv> (relay_step env policy sink_publish)\<^sup>*\<^sup>* (relay_init []) s"

lemma ex_policy_ok: "policy_ok ex_policy"
  by (simp add: policy_ok_def ex_policy_def)

lemma ex_reach: "relay_reach ex_env ex_policy ex_system"
proof -
  have "relay_step ex_env ex_policy sink_publish (relay_init []) ((relay_init [])\<lparr>sys_db := ex_db\<rparr>)"
    by (rule relay_step.commit [of _ ex_row]) (simp_all add: relay_init_def ex_row_def outbox_row_of_def ex_db_def)
  moreover have "(relay_init [])\<lparr>sys_db := ex_db\<rparr> = ex_system"
    by (simp add: relay_init_def ex_system_def)
  ultimately show ?thesis by simp
qed

definition ex_delivered :: "outbox_db \<times> SinkRow list" where
  "ex_delivered = (let (db, sink, _) = deliver_once ex_env ex_policy sink_publish ex_relay (1, 2, 3) ex_db [] in (db, sink))"

lemma ex_delivered_run:
  "deliver_once ex_env ex_policy sink_publish ex_relay (1, 2, 3) ex_db [] =
     (fst ex_delivered, snd ex_delivered, Inr (delivery_of (fst ex_delivered) ''m1''))"
  by code_simp

lemma ex_delivered_reach: "relay_reach ex_env ex_policy (ex_system\<lparr>sys_db := fst ex_delivered, sys_sink := snd ex_delivered\<rparr>)"
  by (rule rtranclp_trans [OF ex_reach deliver_once_steps [of _ 0]]) (use ex_delivered_run in \<open>simp_all add: ex_system_def\<close>)

lemma relay_reach_outbox_inv:
  assumes "relay_reach env policy s" and "policy_ok policy"
  shows "outbox_inv env (sys_db s)"
  using sqlite_sink.relay_reach_inv [OF assms] by (simp add: relay_inv_def)

section \<open>Consistent tables\<close>

text \<open>
  In every state the relays can reach, with any interleaving, crash and clock, the
  delivery table satisfies every CHECK constraint of its schema, has at most one row per
  outbox fact and none without a fact, agrees with the fact on whether it was delivered, and
  no fact has been attempted more often than its policy allows.
\<close>
theorem outbox_tables_ok:
  assumes "relay_reach env policy s" and "policy_ok policy" and "db = sys_db s"
  shows "(\<forall>d \<in> set (deliveries db). delivery_checks d \<and> d_attempt_count d \<le> max_attempts (d_retry_policy d)
      \<and> (\<exists>r. outbox_row_of db (d_outbox_id d) = Some r \<and> o_delivered_at r = d_delivered_at d))
    \<and> distinct (map d_outbox_id (deliveries db)) \<and> distinct (map o_outbox_id (primary_outbox db))"
  using relay_reach_outbox_inv [OF assms(1,2)] unfolding assms(3) outbox_inv_def delivery_ok_def by simp

theorem outbox_tables_ok_witness:
  "\<exists>d. delivery_of (fst ex_delivered) ''m1'' = Some d \<and> delivery_checks d \<and> d_status d = DELIVERED"
proof -
  have "map_option d_status (delivery_of (fst ex_delivered) ''m1'') = Some DELIVERED" by code_simp
  then obtain d where d: "delivery_of (fst ex_delivered) ''m1'' = Some d" "d_status d = DELIVERED" by blast
  from outbox_tables_ok [OF ex_delivered_reach ex_policy_ok refl] delivery_of_in [OF d(1)] d show ?thesis by simp
qed

section \<open>Exactly the committed bytes, once\<close>



section \<open>Fencing and finality\<close>

lemma stale_call:
  assumes "joined_row (expire_leases t db) (claim_outbox_id c) = Inr (r, d)" and "\<not> fence_matches c d"
  shows "\<not> ack_replay c d \<Longrightarrow> acknowledge c t db = (db, Inl (OutboxFenceError ''outbox delivery claim is stale''))"
    and "\<not> failure_replay c (take 1000 err) d \<Longrightarrow> err \<noteq> [] \<Longrightarrow>
      record_failure c err t db = (db, Inl (OutboxFenceError ''outbox delivery claim is stale''))"
  using assms
  by (simp_all add: acknowledge_def acknowledge_body_def record_failure_def record_failure_body_def outbox_transaction_def
      Let_def require_current_fence_def)

lemma relay_steps_db:
  assumes "(relay_step env policy publish)\<^sup>*\<^sup>* s s'" and "outbox_inv env (sys_db s)" and "policy_ok policy"
  shows "(ostep env policy)\<^sup>*\<^sup>* (sys_db s) (sys_db s')"
  using assms
proof (induction rule: rtranclp_induct)
  case (step y z)
  note ys = step.IH [OF step.prems]
  from rtranclp_trans [OF ys relay_step_db [OF step.hyps(2) osteps_inv [OF ys step.prems] step.prems(2)]] show ?case .
qed simp

text \<open>
  C33. Fencing: once a fact has been claimed again, at a later epoch, every acknowledgement and
  every failure report under the older claim is refused with \<open>OutboxFenceError\<close>, at any later
  time and in any later state, and leaves the tables as they were. (The tokens of different
  epochs differ, as \<open>uuid5\<close> of different names.)
\<close>
theorem outbox_fencing:
  assumes "relay_reach env policy s" and "policy_ok policy"
    and "(relay_step env policy sink_publish)\<^sup>*\<^sup>* s s'"
    and "delivery_of (sys_db s) (claim_outbox_id c) = Some d" and "d_lease_epoch (claim_delivery c) < d_lease_epoch d"
    and "\<And>e. d_lease_epoch (claim_delivery c) < e \<Longrightarrow>
      Some (outbox_fencing_token (uuid5_url env) (claim_outbox_id c) e) \<noteq> d_fencing_token (claim_delivery c)"
    and "err \<noteq> []"
  shows "acknowledge c t (sys_db s') = (sys_db s', Inl (OutboxFenceError ''outbox delivery claim is stale''))
    \<and> record_failure c err t (sys_db s') = (sys_db s', Inl (OutboxFenceError ''outbox delivery claim is stale''))"
proof -
  let ?i = "claim_outbox_id c" and ?db1 = "expire_leases t (sys_db s')"
  note inv = relay_reach_outbox_inv [OF assms(1,2)]
  note steps = rtranclp_trans [OF relay_steps_db [OF assms(3) inv assms(2)] expire_leases_steps [of env policy _ t]]
  note inv1 = osteps_inv [OF steps inv assms(2)]
  obtain d1 where d1: "delivery_of ?db1 ?i = Some d1" "delivery_evolves d d1"
    using osteps_evolves [OF steps inv assms(2)] assms(4) unfolding outbox_evolves_def by blast
  note ok = inv_delivery_ok [OF inv1 delivery_of_in [OF d1(1)]]
  have epoch: "d_lease_epoch (claim_delivery c) < d_lease_epoch d1" using d1(2) assms(5) by (simp add: delivery_evolves_def)
  have "d_fencing_token d1 = Some (outbox_fencing_token (uuid5_url env) ?i (d_lease_epoch d1))"
    using ok epoch delivery_of_id [OF d1(1)] by (simp add: delivery_ok_def)
  then have "Some (py_str (d_fencing_token d1)) \<noteq> d_fencing_token (claim_delivery c)"
    using assms(6) [OF epoch] by (simp add: py_str_def)
  then have "\<not> ack_replay c d1" "\<not> failure_replay c (take 1000 err) d1" "\<not> fence_matches c d1"
    using epoch by (simp_all add: ack_replay_def failure_replay_def fence_matches_def)
  moreover obtain r where "outbox_row_of ?db1 (d_outbox_id d1) = Some r"
    by (rule inv_row [OF inv1 delivery_of_in [OF d1(1)]])
  then have "joined_row ?db1 ?i = Inr (r, d1)" using d1(1) delivery_of_id [OF d1(1)] by (simp add: joined_row_Inr)
  ultimately show ?thesis using stale_call assms(7) by blast
qed

text \<open>A worker that claims at 1 and comes back after its lease ran out and another claimed.\<close>

definition ex_claimed :: "outbox_db \<times> OutboxDeliveryClaim" where
  "ex_claimed = (case outbox_claim ex_env ex_policy ''w'' 100 1 ex_db of (db, res) \<Rightarrow> (db, the (projr res)))"

definition ex_reclaimed :: "outbox_db \<times> OutboxDeliveryClaim" where
  "ex_reclaimed = (case outbox_claim ex_env ex_policy ''v'' 100 200 (fst ex_claimed) of (db, res) \<Rightarrow> (db, the (projr res)))"

lemma ex_claimed_run:
  "outbox_claim ex_env ex_policy ''w'' 100 1 ex_db = (fst ex_claimed, Inr (Some (snd ex_claimed)))"
  "outbox_claim ex_env ex_policy ''v'' 100 200 (fst ex_claimed) = (fst ex_reclaimed, Inr (Some (snd ex_reclaimed)))"
  by code_simp+

lemma ex_reclaimed_reach: "relay_reach ex_env ex_policy (ex_system\<lparr>sys_db := fst ex_reclaimed\<rparr>)"
proof -
  have "relay_step ex_env ex_policy sink_publish ex_system (ex_system\<lparr>sys_db := fst ex_claimed\<rparr>)"
    by (rule relay_step.no_claim [of _ _ _ _ 1]) (use ex_claimed_run(1) in \<open>simp add: ex_system_def\<close>)
  moreover have "relay_step ex_env ex_policy sink_publish (ex_system\<lparr>sys_db := fst ex_claimed\<rparr>)
      ((ex_system\<lparr>sys_db := fst ex_claimed\<rparr>)\<lparr>sys_db := fst ex_reclaimed\<rparr>)"
    by (rule relay_step.no_claim [of _ _ _ _ 200]) (use ex_claimed_run(2) in simp)
  ultimately show ?thesis using ex_reach by (simp add: rtranclp.rtrancl_into_rtrancl)
qed

theorem outbox_fencing_witness:
  "acknowledge (snd ex_claimed) 201 (fst ex_reclaimed) =
     (fst ex_reclaimed, Inl (OutboxFenceError ''outbox delivery claim is stale''))"
proof -
  let ?c = "snd ex_claimed" and ?s = "ex_system\<lparr>sys_db := fst ex_reclaimed\<rparr>"
  have id: "claim_outbox_id ?c = ''m1''" by code_simp
  have ep: "d_lease_epoch (claim_delivery ?c) = 1" by code_simp
  have tok: "d_fencing_token (claim_delivery ?c) = Some (outbox_fencing_token (uuid5_url ex_env) ''m1'' 1)" by code_simp
  have "map_option d_lease_epoch (delivery_of (fst ex_reclaimed) ''m1'') = Some 2" by code_simp
  then obtain d where d: "delivery_of (sys_db ?s) (claim_outbox_id ?c) = Some d" "d_lease_epoch d = 2" using id by auto
  have new: "Some (outbox_fencing_token (uuid5_url ex_env) (claim_outbox_id ?c) e) \<noteq> d_fencing_token (claim_delivery ?c)"
    if "d_lease_epoch (claim_delivery ?c) < e" for e
    using that unfolding tok id ep by (simp add: outbox_fencing_token_def ex_env_def)
  have "acknowledge ?c 201 (sys_db ?s) = (sys_db ?s, Inl (OutboxFenceError ''outbox delivery claim is stale''))
    \<and> record_failure ?c ''late'' 201 (sys_db ?s) = (sys_db ?s, Inl (OutboxFenceError ''outbox delivery claim is stale''))"
    by (rule outbox_fencing [OF ex_reclaimed_reach ex_policy_ok rtranclp.rtrancl_refl d(1) _ new]) (use d(2) ep in simp_all)
  then show ?thesis by simp
qed

text \<open>
  Finality: whatever steps follow, a delivered or dead-lettered row never changes, an
  epoch never decreases, and a committed fact keeps every column but the delivery time, which
  once set stays.
\<close>
theorem outbox_final:
  assumes "relay_reach env policy s" and "policy_ok policy" and "(relay_step env policy sink_publish)\<^sup>*\<^sup>* s s'"
  shows "(\<forall>i d. delivery_of (sys_db s) i = Some d \<longrightarrow> (\<exists>d'. delivery_of (sys_db s') i = Some d'
        \<and> d_retry_policy d' = d_retry_policy d \<and> d_lease_epoch d \<le> d_lease_epoch d'
        \<and> (d_status d \<in> {DELIVERED, DEAD_LETTER} \<longrightarrow> d' = d)))
    \<and> (\<forall>i r. outbox_row_of (sys_db s) i = Some r \<longrightarrow> (\<exists>r'. outbox_row_of (sys_db s') i = Some r'
        \<and> r'\<lparr>o_delivered_at := None\<rparr> = r\<lparr>o_delivered_at := None\<rparr> \<and> (o_delivered_at r \<noteq> None \<longrightarrow> r' = r)))"
proof -
  note inv = relay_reach_outbox_inv [OF assms(1,2)]
  note ev = osteps_evolves [OF relay_steps_db [OF assms(3) inv assms(2)] inv assms(2)]
  then show ?thesis unfolding outbox_evolves_def delivery_evolves_def fact_kept_def by blast
qed

theorem outbox_final_witness:
  "delivery_of (fst ex_delivered) ''m1'' \<noteq> None \<and>
   delivery_of (fst (outbox_claim ex_env ex_policy ''w'' 100 500 (fst ex_delivered))) ''m1'' = delivery_of (fst ex_delivered) ''m1''"
proof -
  let ?s = "ex_system\<lparr>sys_db := fst ex_delivered, sys_sink := snd ex_delivered\<rparr>"
  obtain db' res where run: "outbox_claim ex_env ex_policy ''w'' 100 500 (fst ex_delivered) = (db', res)" by fastforce
  have "relay_step ex_env ex_policy sink_publish ?s (?s\<lparr>sys_db := db'\<rparr>)"
    by (rule relay_step.no_claim [of _ _ _ _ 500]) (use run in simp)
  then have step: "(relay_step ex_env ex_policy sink_publish)\<^sup>*\<^sup>* ?s (?s\<lparr>sys_db := db'\<rparr>)" by simp
  have "map_option d_status (delivery_of (fst ex_delivered) ''m1'') = Some DELIVERED" by code_simp
  then obtain d where d: "delivery_of (fst ex_delivered) ''m1'' = Some d" "d_status d = DELIVERED" by blast
  from conjunct1 [OF outbox_final [OF ex_delivered_reach ex_policy_ok step]] d run show ?thesis by fastforce
qed

section \<open>Claims and retries\<close>

text \<open>
  Claiming: after new facts have been discovered and expired leases given back, a claim
  that returns nothing finds nothing due; a claim that returns names the undelivered due fact
  with the least (run, ordinal, id), leases it to the caller for the duration under the next
  epoch and attempt, and carries the fact's exact bytes.
\<close>
theorem outbox_claim_correct:
  assumes "relay_reach env policy s" and "policy_ok policy"
    and "outbox_claim env policy worker duration now (sys_db s) = (db', Inr res)"
    and "db1 = expire_leases now (discover policy now (sys_db s))"
  shows "case res of
      None \<Rightarrow> db' = db1 \<and> claimable now db1 = []
    | Some c \<Rightarrow> \<exists>r d. (r, d) \<in> set (claimable now db1) \<and> (\<forall>x \<in> set (claimable now db1). outbox_key (r, d) \<le> outbox_key x)
        \<and> message_from_row env r = Inr (claim_message c) \<and> delivery_of db' (o_outbox_id r) = Some (claim_delivery c)
        \<and> d_status (claim_delivery c) = LEASED \<and> d_claimed_by (claim_delivery c) = Some worker
        \<and> d_lease_expires_at (claim_delivery c) = Some (now + duration)
        \<and> d_lease_epoch (claim_delivery c) = d_lease_epoch d + 1 \<and> d_attempt_count (claim_delivery c) = d_attempt_count d + 1"
proof -
  note inv = relay_reach_outbox_inv [OF assms(1,2)]
  note inv1 = prepared_inv(2) [OF inv assms(2), of now, folded assms(4)]
  have run: "claim_body env policy worker duration now (sys_db s) = Inr (db', res)"
    using assms(3) by (auto simp: outbox_claim_def split: if_splits elim!: outbox_transaction_cases)
  show ?thesis
    using inv assms(2) run
  proof (cases rule: claim_body_cases)
    case none
    then show ?thesis by (simp add: assms(4))
  next
    case (claim c r d db2)
    have db2: "db2 = db1" using claim(2) assms(4) by simp
    have d: "delivery_of db1 (o_outbox_id r) = Some d" using claim(3) claimable_iff [OF inv1] unfolding db2 by blast
    have "delivery_of db' (o_outbox_id r) = Some (claim_delivery c)"
      unfolding claim(8) delivery_of_def upd_delivery_fields db2
      by (subst find_row_update_mem)
        (use d delivery_of_id [OF d] claim(5) in \<open>simp_all add: delivery_of_def [symmetric]\<close>)
    then show ?thesis using claim(1,3-6) unfolding db2 by (auto simp: lease_delivery_def intro!: exI [of _ r] exI [of _ d])
  qed
qed

theorem outbox_claim_correct_witness:
  "message_from_row ex_env ex_row = Inr (claim_message (snd ex_claimed))
   \<and> d_claimed_by (claim_delivery (snd ex_claimed)) = Some ''w''"
proof -
  have "outbox_claim ex_env ex_policy ''w'' 100 1 (sys_db ex_system) = (fst ex_claimed, Inr (Some (snd ex_claimed)))"
    using ex_claimed_run(1) by (simp add: ex_system_def)
  from outbox_claim_correct [OF ex_reach ex_policy_ok this refl] obtain r d where
    r: "(r, d) \<in> set (claimable 1 (expire_leases 1 (discover ex_policy 1 (sys_db ex_system))))"
    "message_from_row ex_env r = Inr (claim_message (snd ex_claimed))" "d_claimed_by (claim_delivery (snd ex_claimed)) = Some ''w''"
    by auto
  have "map fst (claimable 1 (expire_leases 1 (discover ex_policy 1 (sys_db ex_system)))) = [ex_row]" by code_simp
  then have "r = ex_row" using r(1) by (auto simp: map_eq_Cons_conv)
  with r show ?thesis by simp
qed

lemma delay_after_bounds:
  assumes "policy_ok p" and "delay_after p n = Inr d"
  shows "base_delay p \<le> d" and "d \<le> max_delay p"
    and "delay_after p (n + 1) = Inr d' \<Longrightarrow> d \<le> d'"
proof -
  have n: "0 < n" and d: "d = min (base_delay p * 2 ^ min (n - 1) 62) (max_delay p)"
    using assms(2) by (auto simp: delay_after_def split: if_splits)
  have b: "0 \<le> base_delay p" "base_delay p \<le> max_delay p" using assms(1) by (simp_all add: policy_ok_def)
  have "base_delay p * 1 \<le> base_delay p * 2 ^ min (n - 1) 62" using b(1) by (intro mult_left_mono) simp_all
  then show "base_delay p \<le> d" using b d by simp
  show "d \<le> max_delay p" using d by simp
  assume "delay_after p (n + 1) = Inr d'"
  then have "d' = min (base_delay p * 2 ^ min n 62) (max_delay p)" by (simp add: delay_after_def)
  moreover have "(2::int) ^ min (n - 1) 62 \<le> 2 ^ min n 62" by (intro power_increasing) simp_all
  then have "base_delay p * 2 ^ min (n - 1) 62 \<le> base_delay p * 2 ^ min n 62" using b(1) by (rule mult_left_mono)
  ultimately show "d \<le> d'" using d by (simp add: min.coboundedI1)
qed

text \<open>
  The retry policy: a failure report that is accepted for the first time dead-letters the
  fact when its attempts are used up; otherwise the fact waits for a delay between the base
  and the maximum of its policy, and the delay after one more attempt is never shorter.
\<close>
theorem outbox_retry_policy:
  assumes "relay_reach env policy s" and "policy_ok policy"
    and "record_failure c err now (sys_db s) = (db', Inr d')"
    and "delivery_of (expire_leases now (sys_db s)) (claim_outbox_id c) = Some d" and "fence_matches c d"
  shows "delivery_of db' (claim_outbox_id c) = Some d' \<and> d_last_error d' = Some (take 1000 err)
    \<and> (if d_attempt_count d = max_attempts (d_retry_policy d) then d_status d' = DEAD_LETTER
       else d_status d' = RETRY_WAIT \<and> now + base_delay (d_retry_policy d) \<le> d_next_attempt_at d'
         \<and> d_next_attempt_at d' \<le> now + max_delay (d_retry_policy d)
         \<and> (\<forall>x. delay_after (d_retry_policy d) (d_attempt_count d + 1) = Inr x \<longrightarrow> d_next_attempt_at d' \<le> now + x))"
proof -
  let ?i = "claim_outbox_id c" and ?db1 = "expire_leases now (sys_db s)"
  note inv = relay_reach_outbox_inv [OF assms(1,2)]
  note ok = inv_delivery_ok [OF outbox_expired_inv [OF inv assms(2)] delivery_of_in [OF assms(4)]]
  have run: "record_failure_body c (take 1000 err) now (sys_db s) = Inr (db', d')"
    using assms(3) by (auto simp: record_failure_def split: if_splits elim!: outbox_transaction_cases)
  have nr: "\<not> failure_replay c (take 1000 err) d" using assms(5) by (auto simp: failure_replay_def fence_matches_def)
  obtain st "next" dead where f: "failure_outcome now d = Inr (st, next, dead)"
    "db' = upd_delivery (\<lambda>x. d_outbox_id x = ?i) (failed_row st next (take 1000 err) dead) ?db1"
    "d' = failed_row st next (take 1000 err) dead d"
    using run nr assms(4) unfolding record_failure_body_iff [OF inv assms(2) refl refl] by auto
  have "delivery_of db' ?i = Some d'" using assms(4) delivery_of_id [OF assms(4)] by (simp add: f(2,3) delivery_of_upd)
  moreover have "d_attempt_count d \<le> max_attempts (d_retry_policy d)" "policy_ok (d_retry_policy d)"
    using ok by (simp_all add: delivery_ok_def)
  moreover from f(1) have "(st = DEAD_LETTER \<and> d_attempt_count d \<ge> max_attempts (d_retry_policy d))
      \<or> (\<exists>delay. st = RETRY_WAIT \<and> d_attempt_count d < max_attempts (d_retry_policy d) \<and> next = now + delay
        \<and> delay_after (d_retry_policy d) (d_attempt_count d) = Inr delay)"
    by (cases rule: failure_outcome_cases) auto
  ultimately show ?thesis unfolding f(3) using delay_after_bounds [of "d_retry_policy d" "d_attempt_count d"]
    by (auto simp: failed_row_def)
qed

theorem outbox_retry_policy_witness:
  "\<exists>d'. record_failure (snd ex_claimed) ''boom'' 5 (fst ex_claimed) =
      (fst (record_failure (snd ex_claimed) ''boom'' 5 (fst ex_claimed)), Inr d') \<and> d_status d' = RETRY_WAIT \<and> 15 \<le> d_next_attempt_at d'"
proof -
  let ?s = "ex_system\<lparr>sys_db := fst ex_claimed\<rparr>" and ?c = "snd ex_claimed"
  have "relay_step ex_env ex_policy sink_publish ex_system ?s"
    by (rule relay_step.no_claim [of _ _ _ _ 1]) (use ex_claimed_run(1) in \<open>simp add: ex_system_def\<close>)
  with ex_reach have reach: "relay_reach ex_env ex_policy ?s" by (rule rtranclp.rtrancl_into_rtrancl)
  have dbs: "sys_db ?s = fst ex_claimed" by simp
  have "\<not> isl (snd (record_failure ?c ''boom'' 5 (fst ex_claimed)))" by code_simp
  then obtain d' where run: "record_failure ?c ''boom'' 5 (fst ex_claimed) = (fst (record_failure ?c ''boom'' 5 (fst ex_claimed)), Inr d')"
    by (metis prod.collapse sum.collapse(2))
  have "map_option (\<lambda>d. (fence_matches ?c d, d_attempt_count d, d_retry_policy d))
      (delivery_of (expire_leases 5 (fst ex_claimed)) (claim_outbox_id ?c)) = Some (True, 1, ex_policy)" by code_simp
  then obtain d where d: "delivery_of (expire_leases 5 (fst ex_claimed)) (claim_outbox_id ?c) = Some d" "fence_matches ?c d"
    "d_attempt_count d = 1" "d_retry_policy d = ex_policy" by auto
  from outbox_retry_policy [OF reach ex_policy_ok, unfolded dbs, OF run d(1,2)] d(3,4) run
  show ?thesis by (auto simp: ex_policy_def)
qed

section \<open>A call that delivers\<close>

text \<open>Everything in the sink was sent from a committed fact.\<close>

definition sink_sound :: "outbox_env \<Rightarrow> outbox_db \<Rightarrow> SinkRow list \<Rightarrow> bool" where
  "sink_sound env db sink \<longleftrightarrow> (\<forall>row \<in> set sink. \<exists>r m. outbox_row_of db (sink_outbox_id row) = Some r \<and> message_from_row env r = Inr m
     \<and> (sink_topic row, sink_message_key row, sink_payload row, sink_payload_sha256 row) = msg_bytes m)"

lemma sink_sound_publish:
  assumes "sink_sound env db sink" and "claim_bound env db c" and "sink_publish t (claim_message c) sink = (sink', res)"
  shows "sink_sound env db sink'"
proof -
  let ?row = "sink_row t (claim_message c)"
  have "sink' = sink \<or> sink' = sink @ [?row]"
    using assms(3) by (auto simp: sink_publish_def split: option.splits if_splits)
  moreover obtain r where "outbox_row_of db (claim_outbox_id c) = Some r" "message_from_row env r = Inr (claim_message c)"
    using assms(2) by (auto simp: claim_bound_def)
  then have "sink_sound env db [?row]"
    by (simp add: sink_sound_def sink_row_def msg_bytes_def claim_outbox_id_def)
  ultimately show ?thesis using assms(1) by (auto simp: sink_sound_def)
qed

lemma sink_sound_evolves:
  assumes "sink_sound env db sink" and "outbox_evolves db db'"
  shows "sink_sound env db' sink"
  unfolding sink_sound_def
proof
  fix row assume "row \<in> set sink"
  with assms(1) obtain r m where r: "outbox_row_of db (sink_outbox_id row) = Some r" "message_from_row env r = Inr m"
    "(sink_topic row, sink_message_key row, sink_payload row, sink_payload_sha256 row) = msg_bytes m"
    by (auto simp: sink_sound_def)
  with assms(2) obtain r' where "outbox_row_of db' (sink_outbox_id row) = Some r'" "fact_kept r r'"
    unfolding outbox_evolves_def by blast
  with r show "\<exists>r m. outbox_row_of db' (sink_outbox_id row) = Some r \<and> message_from_row env r = Inr m
     \<and> (sink_topic row, sink_message_key row, sink_payload row, sink_payload_sha256 row) = msg_bytes m"
    using message_fact_kept [of r r' env] by auto
qed

lemma relay_step_sound:
  assumes step: "relay_step env policy sink_publish s s'" and inv: "relay_inv env sink_holds s" and pol: "policy_ok policy"
    and old: "sink_sound env (sys_db s) (sys_sink s)"
  shows "sink_sound env (sys_db s') (sys_sink s')"
proof -
  have oinv: "outbox_inv env (sys_db s)" using inv by (simp add: relay_inv_def)
  note ev = osteps_evolves [OF relay_step_db [OF step oinv pol] oinv pol]
  note same = sink_sound_evolves [OF old ev]
  have bound: "claim_bound env (sys_db s) c" if "sys_phase s p = Holding c" for p c
    using inv that unfolding relay_inv_def by (metis held_claim.simps(2))
  show ?thesis
    using step
  proof cases
    case (send p c t sink')
    then show ?thesis using sink_sound_publish [OF old bound [OF send(2)] send(3)] by simp
  next
    case (send_failed p c t sink' res sink'' err)
    then show ?thesis using sink_sound_publish [OF old bound [OF send_failed(2)] send_failed(3)] old by auto
  qed (use same in simp_all)
qed

lemma relay_reach_sound:
  assumes "relay_reach env policy s" and "policy_ok policy"
  shows "sink_sound env (sys_db s) (sys_sink s)"
  using assms(1)
proof (induction rule: rtranclp_induct)
  case base
  show ?case by (simp add: relay_init_def sink_sound_def)
next
  case (step y z)
  show ?case
    by (rule relay_step_sound [OF step.hyps(2) sqlite_sink.relay_reach_inv [OF step.hyps(1) assms(2)] assms(2) step.IH])
qed

lemma sound_publish_ok:
  assumes "sink_sound env db sink" and "outbox_row_of db (msg_outbox_id m) = Some r" and "message_from_row env r = Inr m"
  shows "\<exists>sink'. sink_publish t m sink = (sink', Inr ())"
proof (cases "sink_find sink (msg_outbox_id m)")
  case None
  then show ?thesis by (simp add: sink_publish_def)
next
  case (Some row)
  note f = find_row_Some [OF Some [unfolded sink_find_def]]
  from assms(1) f obtain r' m' where "outbox_row_of db (sink_outbox_id row) = Some r'" "message_from_row env r' = Inr m'"
    "(sink_topic row, sink_message_key row, sink_payload row, sink_payload_sha256 row) = msg_bytes m'"
    by (auto simp: sink_sound_def)
  with f(2) assms(2,3) have "(sink_topic row, sink_message_key row, sink_payload row, sink_payload_sha256 row) = msg_bytes m" by simp
  with Some show ?thesis by (simp add: sink_publish_def msg_bytes_def)
qed

lemma expire_leases_other:
  assumes "delivery_of db i = Some d" and "\<not> lease_due now d"
  shows "delivery_of (expire_leases now db) i = Some d"
  using assms by (simp add: expire_leases_def delivery_of_upd)

text \<open>
  C34. Progress: when some fact is due, its records are valid and the sink works, one call of
  the relay that finishes within its lease delivers: it returns a snapshot in state DELIVERED,
  the least due fact is marked delivered at the time of the acknowledgement, and the sink
  holds it. The sink never reports a conflict.
\<close>
theorem outbox_deliver_once:
  assumes "relay_reach env policy s" and "policy_ok policy" and "outbox_relay_init worker duration = Inr relay"
    and "db1 = expire_leases t1 (discover policy t1 (sys_db s))"
    and "min_by outbox_key (claimable t1 db1) = Some (r, d)" and "message_from_row env r = Inr m"
    and "t3 < t1 + duration"
  shows "\<exists>db' sink' snap. deliver_once env policy sink_publish relay (t1, t2, t3) (sys_db s) (sys_sink s) = (db', sink', Inr (Some snap))
    \<and> d_status snap = DELIVERED \<and> d_outbox_id snap = o_outbox_id r
    \<and> outbox_row_of db' (o_outbox_id r) = Some (r\<lparr>o_delivered_at := Some t3\<rparr>) \<and> sink_holds sink' m"
proof -
  note inv = relay_reach_outbox_inv [OF assms(1,2)]
  note inv1 = prepared_inv(2) [OF inv assms(2), of t1, folded assms(4)]
  let ?i = "o_outbox_id r"
  let ?s = "lease_delivery (outbox_fencing_token (uuid5_url env) ?i (d_lease_epoch d + 1)) worker (t1 + duration) d"
  let ?c = "\<lparr>claim_message = m, claim_delivery = ?s\<rparr>"
  let ?db2 = "upd_delivery (\<lambda>x. d_outbox_id x = ?i) (\<lambda>x. ?s) db1"
  have relay: "worker \<noteq> []" "0 < duration" "relay_worker_id relay = worker" "relay_lease_duration relay = duration"
    using assms(3) by (auto simp: outbox_relay_init_def split: if_splits)
  have body: "claim_body env policy worker duration t1 (sys_db s) = Inr (?db2, Some ?c)"
    unfolding claim_body_Some [OF inv assms(2,4,5) refl] assms(6) by simp
  then have claim: "outbox_claim env policy worker duration t1 (sys_db s) = (?db2, Inr (Some ?c))"
    using relay by (simp add: outbox_claim_def outbox_transaction_def)
  have rows: "outbox_row_of db1 ?i = Some r" "delivery_of db1 ?i = Some d"
    using min_by_Some(1) [OF assms(5)] claimable_iff [OF inv1] by blast+
  have id: "d_outbox_id ?s = ?i" "msg_outbox_id m = ?i" "claim_outbox_id ?c = ?i"
    using delivery_of_id [OF rows(2)] message_from_row_Inr(1) [OF assms(6)] by (simp_all add: claim_outbox_id_def)
  have "outbox_row_of (sys_db s) (msg_outbox_id m) = Some r" using rows(1) id(2) by (simp add: assms(4))
  from sound_publish_ok [OF relay_reach_sound [OF assms(1,2)] this assms(6)]
  obtain sink' where pub: "sink_publish t2 m (sys_sink s) = (sink', Inr ())" by blast
  have d2: "delivery_of ?db2 ?i = Some ?s"
    unfolding delivery_of_def upd_delivery_fields
    by (subst find_row_update_mem) (use rows(2) delivery_of_id [OF rows(2)] in \<open>simp_all add: delivery_of_def [symmetric]\<close>)
  have d3: "delivery_of (expire_leases t3 ?db2) ?i = Some ?s"
    by (rule expire_leases_other [OF d2]) (use assms(7) in \<open>simp add: lease_due_def lease_delivery_def\<close>)
  have inv2: "outbox_inv env ?db2"
    by (rule osteps_inv [OF claim_body_steps [OF inv assms(2) body] inv assms(2)])
  have "\<not> ack_replay ?c ?s" "fence_matches ?c ?s" by (simp_all add: ack_replay_def fence_matches_def lease_delivery_def)
  then have "acknowledge_body ?c t3 ?db2 = Inr (mark_delivered ?i t3 (expire_leases t3 ?db2), delivered_row t3 ?s)"
    unfolding acknowledge_body_iff [OF inv2 assms(2) refl refl] id(3) using d3 rows(1) by simp
  then have ack: "acknowledge ?c t3 ?db2 = (mark_delivered ?i t3 (expire_leases t3 ?db2), Inr (delivered_row t3 ?s))"
    by (simp add: acknowledge_def outbox_transaction_def)
  show ?thesis
    using claim pub ack relay(3,4) rows(1) id(1) sqlite_sink.publish_holds [OF pub]
    by (simp add: deliver_once_def mark_delivered_views delivered_row_def)
qed

theorem outbox_deliver_once_witness:
  "\<exists>db' sink' snap. deliver_once ex_env ex_policy sink_publish ex_relay (1, 2, 3) (sys_db ex_system) (sys_sink ex_system) = (db', sink', Inr (Some snap))
    \<and> d_status snap = DELIVERED"
proof -
  let ?db1 = "expire_leases 1 (discover ex_policy 1 (sys_db ex_system))"
  have relay: "outbox_relay_init ''w'' 100 = Inr ex_relay" by code_simp
  have "map_option fst (min_by outbox_key (claimable 1 ?db1)) = Some ex_row" by code_simp
  then obtain d where min: "min_by outbox_key (claimable 1 ?db1) = Some (ex_row, d)" by auto
  have "\<not> isl (message_from_row ex_env ex_row)" by code_simp
  then obtain m where m: "message_from_row ex_env ex_row = Inr m" by (metis sum.collapse(2))
  have "(3::int) < 1 + 100" by simp
  from outbox_deliver_once [OF ex_reach ex_policy_ok relay refl min m this, of 2] show ?thesis by blast
qed

text \<open>
  One call of the relay is one run of the interleaved system: whatever it returns, the
  tables and the sink it leaves are reached by claim, send and report steps of one process.
\<close>
theorem outbox_deliver_once_refines:
  assumes "sys_phase s p = Idle"
    and "deliver_once env policy publish relay clock (sys_db s) (sys_sink s) = (db', sink', res)"
  shows "(relay_step env policy publish)\<^sup>*\<^sup>* s (s\<lparr>sys_db := db', sys_sink := sink'\<rparr>)"
  by (rule deliver_once_steps [OF assms])

theorem outbox_deliver_once_refines_witness:
  "(relay_step ex_env ex_policy sink_publish)\<^sup>*\<^sup>* ex_system
     (ex_system\<lparr>sys_db := fst ex_delivered, sys_sink := snd ex_delivered\<rparr>)"
  by (rule outbox_deliver_once_refines [of _ 0]) (use ex_delivered_run in \<open>simp_all add: ex_system_def\<close>)

end
