(* ===== verification/Stream_Properties.thy ===== *)
theory Stream_Properties
  imports Stream_Scheduler Work_Guarantees
begin

text \<open>
  The guarantees of the stream runtime over the SQLite scheduler, for every interleaving of
  its threads, its callers and the other clients of the ledger.
\<close>

section \<open>Runs\<close>

definition ex_config :: BoundedStreamWorkQueuesConfig where
  "ex_config = \<lparr>cfg_run_id = ''run'', ingress_capacity = 2, provider_capacity = 2, publish_capacity = 2,
     provider_worker_count = 1, publish_worker_count = 1, lease_duration_seconds = 10, retry_delay_seconds = 1,
     recovery_poll_seconds = 1, optional_shed_watermark = 1, optional_stages = [], optional_work_predicate = None,
     optional_work_shedding_actions = [''STOP_OPTIONAL_DEEP'']\<rparr>"

definition ex_choice :: call_choice where
  "ex_choice = \<lparr>ch_ids = [], ch_beats = [], ch_late = False\<rparr>"

text \<open>One item planned, admitted, claimed, renewed once and published.\<close>

definition ex_ready :: ledger where
  "ex_ready = run_commands [Plan (ex_plan ''a'' None) []] empty_ledger"

definition ex_admitted :: "unit event list" where
  "ex_admitted = Ev_invoke (Admitting (A_start ''a'' False)) # replicate 3 (Ev_call 0 ex_choice)"

definition ex_provided :: "unit event list" where
  "ex_provided = ex_admitted @ replicate 8 Ev_ingress @ replicate 6 (Ev_provider 0 ''t1'' (Inr ()))
     @ [Ev_time 6, Ev_heartbeat 0, Ev_heartbeat 0, Ev_heartbeat 0] @ replicate 8 (Ev_provider 0 ''t2'' (Inr ()))"

definition ex_publishing :: "unit event list" where
  "ex_publishing = ex_provided @ replicate 9 (Ev_publish 0 None) @ [Ev_heartbeat 0] @ replicate 2 (Ev_publish 0 None)"

definition ex_completed :: "unit event list" where
  "ex_completed = ex_publishing @ replicate 6 (Ev_publish 0 None)"

definition ex_runtime :: "unit event list \<Rightarrow> (ledger, unit) runtime" where
  "ex_runtime evs = (case runtime_run sqlite_work_scheduler ex_config ''rt'' evs (runtime_init ex_config ex_ready 5) of
     Some r \<Rightarrow> r | None \<Rightarrow> runtime_init ex_config ex_ready 5)"


lemma ex_runtime_reach:
  "runtime_reach sqlite_work_scheduler ex_config ''rt'' ledger_env reachable (ex_runtime evs)"
proof -
  have "runtime_reach sqlite_work_scheduler ex_config ''rt'' ledger_env reachable (runtime_init ex_config ex_ready 5)"
    by (rule reach_init) (simp add: ex_ready_def reachable_run)
  then show ?thesis by (auto simp: ex_runtime_def intro: sq.runtime_reach_run split: option.splits)
qed

lemma ex_config_ok: "config_ok ex_config"
  by code_simp

section \<open>The ledger under the runtime\<close>





lemma reach_run_ok:
  "runtime_reach sqlite_work_scheduler cfg prefix ledger_env reachable r \<Longrightarrow> run_ok item_of wf_ledger r"
  using sq.runtime_reach_ok reachable_wf by blast

lemma reach_notes_ok:
  "runtime_reach sqlite_work_scheduler cfg prefix ledger_env reachable r \<Longrightarrow> config_ok cfg \<Longrightarrow> notes_ok item_of cfg r"
  using sq.runtime_reach_notes reachable_wf by blast

section \<open>Publication and completion\<close>

text \<open>
  C10. Publish before success. An item that is SUCCEEDED in an epoch this runtime was granted was
  published first: the publisher callback returned under that lease. No interleaving, crash
  of another worker, cancellation or shutdown completes an item the publisher has not
  accepted.
\<close>

theorem runtime_success_published:
  assumes "runtime_reach sqlite_work_scheduler cfg prefix ledger_env reachable r"
    and "hb \<in> set (sys_beats (run_sys r))"
    and "item_of (sys_ledger (run_sys r)) (lease_work_item_id (hb_lease hb)) = Some w"
    and "lease_epoch w = granted_epoch (hb_lease hb)" and "state w = SUCCEEDED"
  shows "\<exists>p \<in> set (sys_published (run_sys r)). same_grant p (hb_lease hb)"
proof -
  have "beat_ok item_of (run_sys r) hb"
    using reach_run_ok [OF assms(1)] assms(2) by (simp add: run_ok_def sys_ok_def beats_ok_def)
  then show ?thesis using assms(3-5) by (simp add: beat_ok_def published_def)
qed

lemma ex_completed_facts:
  "let s = run_sys (ex_runtime ex_completed) in sys_beats s \<noteq> []
     \<and> (case item_of (sys_ledger s) (lease_work_item_id (hb_lease (hd (sys_beats s)))) of None \<Rightarrow> False
        | Some w \<Rightarrow> lease_epoch w = granted_epoch (hb_lease (hd (sys_beats s))) \<and> state w = SUCCEEDED)"
  by code_simp

theorem runtime_success_published_witness:
  "\<exists>p \<in> set (sys_published (run_sys (ex_runtime ex_completed))).
     same_grant p (hb_lease (hd (sys_beats (run_sys (ex_runtime ex_completed)))))"
proof -
  let ?s = "run_sys (ex_runtime ex_completed)"
  obtain w where "sys_beats ?s \<noteq> []" "item_of (sys_ledger ?s) (lease_work_item_id (hb_lease (hd (sys_beats ?s)))) = Some w"
    "lease_epoch w = granted_epoch (hb_lease (hd (sys_beats ?s)))" "state w = SUCCEEDED"
    using ex_completed_facts unfolding Let_def by (auto split: option.splits)
  then show ?thesis by (intro runtime_success_published [OF ex_runtime_reach]) simp_all
qed


text \<open>The leases under which a worker is about to report the outcome of its item.\<close>

definition publish_write :: "'r publish_pc \<Rightarrow> WorkLease option" where
  "publish_write pc = (case pc of U_succeed t lease \<Rightarrow> Some lease
     | U_tail i k (Fail_call c e) \<Rightarrow> Some (claimed_lease c) | _ \<Rightarrow> None)"

definition provider_write :: "'r provider_pc \<Rightarrow> WorkLease option" where
  "provider_write pc = (case pc of P_tail i h (Fail_call c e) \<Rightarrow> Some (claimed_lease c) | _ \<Rightarrow> None)"

definition pending_writes :: "('l, 'r) runtime \<Rightarrow> WorkLease option set" where
  "pending_writes r = publish_write ` set (run_publishers r) \<union> provider_write ` set (run_providers r)"

lemma ended_current:
  assumes "run_ok row ok r" and "k < length (sys_beats (run_sys r))" and "ended (run_sys r) k lease"
    and "row (sys_ledger (run_sys r)) (lease_work_item_id lease) = Some w"
    and "lease_epoch w = granted_epoch lease" and "leased_state (state w)"
  shows "under_lease lease w"
proof -
  have "beat_ok row (run_sys r) (sys_beats (run_sys r) ! k)"
    using assms(1,2) by (simp add: run_ok_def sys_ok_def beats_ok_def)
  then show ?thesis using assms(3-6) by (simp add: beat_ok_def ended_def current_lease_def)
qed

lemma pending_ended:
  assumes "run_ok row ok r" and "Some lease \<in> pending_writes r"
  shows "\<exists>k. k < length (sys_beats (run_sys r)) \<and> ended (run_sys r) k lease"
proof -
  consider p where "p \<in> set (run_publishers r)" "publish_write p = Some lease"
    | p where "p \<in> set (run_providers r)" "provider_write p = Some lease"
    using assms(2) by (auto simp: pending_writes_def)
  then show ?thesis
  proof cases
    case 1
    then have "publish_ok (run_sys r) p" using assms(1) by (simp add: run_ok_def)
    with 1(2) show ?thesis
      by (auto simp: publish_write_def publish_ok_def task_ok_def tail_ok_def claim_ok_def split: publish_pc.splits tail.splits)
  next
    case 2
    then have "provider_ok (run_sys r) p" using assms(1) by (simp add: run_ok_def)
    with 2(2) show ?thesis
      by (auto simp: provider_write_def provider_ok_def tail_ok_def claim_ok_def split: provider_pc.splits tail.splits)
  qed
qed

text \<open>
  C11. A worker's own heartbeat never fences its terminal report. When a worker is about to call
  succeed or fail, the lease it holds, read after the heartbeat was stopped and joined, is
  the one the row carries, with the expiry of the last renewal: as long as the item is still
  running in that epoch and neither the lease nor the execution deadline has passed, the
  scheduler accepts the lease.
\<close>

theorem runtime_lease_current:
  assumes "runtime_reach sqlite_work_scheduler cfg prefix ledger_env reachable r"
    and "Some lease \<in> pending_writes r"
    and "item_of (sys_ledger (run_sys r)) (lease_work_item_id lease) = Some w"
    and "lease_epoch w = granted_epoch lease" and "state w = RUNNING" and "lease_expires_at w = Some expires"
    and "now < expires" and "case execution_expiry_at w of None \<Rightarrow> True | Some t \<Rightarrow> now < t"
  shows "granted_expires_at lease = expires \<and> lease_current lease now w"
proof -
  obtain k where k: "k < length (sys_beats (run_sys r))" "ended (run_sys r) k lease"
    using pending_ended [OF reach_run_ok [OF assms(1)] assms(2)] by blast
  have "under_lease lease w"
    by (rule ended_current [OF reach_run_ok [OF assms(1)] k assms(3,4)]) (simp add: assms(5) leased_state_def)
  then show ?thesis using assms(4-8) by (simp add: under_lease_def held_def lease_current_def)
qed

lemma ex_publishing_facts:
  "let s = run_sys (ex_runtime ex_publishing); lease = hb_lease (hd (sys_beats s)) in
     map publish_write (run_publishers (ex_runtime ex_publishing)) = [Some lease]
     \<and> (case item_of (sys_ledger s) (lease_work_item_id lease) of None \<Rightarrow> False
        | Some w \<Rightarrow> lease_epoch w = granted_epoch lease \<and> state w = RUNNING \<and> lease_expires_at w = Some 10000006
            \<and> execution_expiry_at w = None)"
  by code_simp

theorem runtime_lease_current_witness:
  "\<exists>w. item_of (sys_ledger (run_sys (ex_runtime ex_publishing))) ''a'' = Some w
     \<and> lease_current (hb_lease (hd (sys_beats (run_sys (ex_runtime ex_publishing))))) 7 w"
proof -
  let ?s = "run_sys (ex_runtime ex_publishing)"
  let ?lease = "hb_lease (hd (sys_beats ?s))"
  obtain w where w: "map publish_write (run_publishers (ex_runtime ex_publishing)) = [Some ?lease]"
    "item_of (sys_ledger ?s) (lease_work_item_id ?lease) = Some w" "lease_epoch w = granted_epoch ?lease"
    "state w = RUNNING" "lease_expires_at w = Some 10000006" "execution_expiry_at w = None"
    using ex_publishing_facts unfolding Let_def by (auto split: option.splits)
  have "Some ?lease \<in> set (map publish_write (run_publishers (ex_runtime ex_publishing)))" unfolding w(1) by simp
  then have p: "Some ?lease \<in> pending_writes (ex_runtime ex_publishing)" by (auto simp: pending_writes_def)
  have "lease_work_item_id ?lease = ''a''" by code_simp
  with runtime_lease_current [OF ex_runtime_reach p w(2-5), of 7] w(2,6) show ?thesis by simp
qed


section \<open>Lanes and notifications\<close>

definition worker_count :: "BoundedStreamWorkQueuesConfig \<Rightarrow> StreamQueueLane \<Rightarrow> int" where
  "worker_count cfg lane = (case lane of INGRESS \<Rightarrow> 1 | PROVIDER \<Rightarrow> provider_worker_count cfg
     | PUBLISH \<Rightarrow> publish_worker_count cfg)"

lemma runtime_step_workers:
  "runtime_step W cfg prefix ev r = Some r' \<Longrightarrow> length (run_providers r') = length (run_providers r)
    \<and> length (run_publishers r') = length (run_publishers r)"
  by (cases ev) (auto simp: runtime_step_def Let_def split: if_splits)

lemma reach_workers:
  "runtime_reach W cfg prefix env begins r \<Longrightarrow> length (run_providers r) = nat (provider_worker_count cfg)
    \<and> length (run_publishers r) = nat (publish_worker_count cfg)"
  by (induction rule: runtime_reach.induct) (auto simp: runtime_init_def dest: runtime_step_workers)

lemma busy_map: "busy_count (map (\<lambda>p. (l, f p)) ps) lane \<le> (if l = lane then length ps else 0)"
  by (induction ps) (auto simp: busy_count_def)

lemma busy_append: "busy_count (xs @ ys) lane = busy_count xs lane + busy_count ys lane"
  by (simp add: busy_count_def)

lemma busy_calls:
  fixes cs :: "'r call list"
  shows "busy_count (map (\<lambda>c. (INGRESS, call_own c)) cs) lane = 0"
proof -
  have "\<not> snd (call_own c)" for c :: "'r call" by (auto simp: call_own_def split: call.splits close_pc.splits)
  then show ?thesis by (induction cs) (simp_all add: busy_count_def)
qed

lemma busy_workers:
  "busy_count (runtime_owners r) lane \<le> (case lane of INGRESS \<Rightarrow> 1 | PROVIDER \<Rightarrow> length (run_providers r)
    | PUBLISH \<Rightarrow> length (run_publishers r))"
proof -
  have "busy_count (runtime_owners r) lane = busy_count [(INGRESS, ingress_own (run_ingress r))] lane
      + busy_count (map (\<lambda>p. (PROVIDER, provider_own p)) (run_providers r)) lane
      + busy_count (map (\<lambda>p. (PUBLISH, publish_own p)) (run_publishers r)) lane"
    using busy_calls [of "run_calls r" lane]
    by (simp add: runtime_owners_def busy_append [symmetric]) (simp add: busy_append busy_count_def)
  moreover have "busy_count [(INGRESS, ingress_own (run_ingress r))] lane \<le> (if lane = INGRESS then 1 else 0)"
    by (simp add: busy_count_def)
  ultimately show ?thesis
    using busy_map [of PROVIDER provider_own "run_providers r" lane] busy_map [of PUBLISH publish_own "run_publishers r" lane]
    by (cases lane) auto
qed

lemma config_counts:
  assumes "config_ok cfg"
  shows "0 < provider_worker_count cfg" and "0 < publish_worker_count cfg"
proof -
  obtain c where "config_post_init cfg = Inr c" using assms by (cases "config_post_init cfg") (auto simp: config_ok_def)
  then show "0 < provider_worker_count cfg" and "0 < publish_worker_count cfg"
    by (auto simp: config_post_init_def require_positive_int_def result_simps split: if_splits)
qed

text \<open>
  C14. The lanes are bounded: under an accepted configuration no lane ever holds more
  notifications than its capacity, nor does the high-water mark of its counters exceed it,
  and the activity counter of a lane is between zero and the number of its workers.
\<close>

theorem runtime_lanes_bounded:
  assumes "runtime_reach sqlite_work_scheduler cfg prefix ledger_env reachable r" and "config_ok cfg"
    and "q = sys_queues (run_sys r)"
  shows "int (lane_qsize lane q) \<le> lane_capacity cfg lane
    \<and> c_maximum_queued (rt_counters q lane) \<le> lane_capacity cfg lane
    \<and> 0 \<le> c_active (rt_counters q lane) \<and> c_active (rt_counters q lane) \<le> worker_count cfg lane"
proof -
  have inv: "lanes_inv cfg (ended_rows item_of r) (view q) (runtime_owners r)"
    using reach_notes_ok [OF assms(1,2)] assms(3) by (simp add: notes_ok_def)
  have "length (v_lane (view q) lane) = lane_qsize lane q"
    by (cases lane) (simp_all add: view_sel lane_qsize_def)
  moreover have "v_max (view q) lane = c_maximum_queued (rt_counters q lane)"
    "v_active (view q) lane = c_active (rt_counters q lane)" by (simp_all add: view_def)
  moreover have "int (busy_count (runtime_owners r) lane) \<le> worker_count cfg lane"
    using busy_workers [of r lane] reach_workers [OF assms(1)] config_counts [OF assms(2)]
    by (cases lane) (auto simp: worker_count_def)
  ultimately show ?thesis using inv unfolding lanes_inv_def lanes_bounded_def by (metis of_nat_0_le_iff)
qed

theorem runtime_lanes_bounded_witness:
  "int (lane_qsize INGRESS (sys_queues (run_sys (ex_runtime ex_admitted)))) \<le> lane_capacity ex_config INGRESS
    \<and> lane_qsize INGRESS (sys_queues (run_sys (ex_runtime ex_admitted))) = 1"
proof
  show "int (lane_qsize INGRESS (sys_queues (run_sys (ex_runtime ex_admitted)))) \<le> lane_capacity ex_config INGRESS"
    using runtime_lanes_bounded [OF ex_runtime_reach ex_config_ok refl] by blast
  show "lane_qsize INGRESS (sys_queues (run_sys (ex_runtime ex_admitted))) = 1" by code_simp
qed

text \<open>The ids waiting in a lane or held by a thread.\<close>

definition notifications :: "('l, 'r) runtime \<Rightarrow> string list" where
  "notifications r = rt_ingress (sys_queues (run_sys r)) @ rt_provider (sys_queues (run_sys r))
     @ map task_id (rt_publish (sys_queues (run_sys r))) @ List.map_filter (\<lambda>(l, o1). fst o1) (runtime_owners r)"

lemma count_held: "count_list (List.map_filter (\<lambda>(l, o1). fst o1) xs) i = held_count xs i"
  by (induction xs) (auto simp: held_count_def own_count_def List.map_filter_simps split: option.splits)

lemma count_notifications:
  "count_list (notifications r) i = in_lanes (sys_view (run_sys r)) i + held_count (runtime_owners r) i"
  by (simp add: notifications_def in_lanes_def view_sel count_held count_list_append)

text \<open>
  C13. One notification per item: as long as an item is not terminal in the ledger, at most one
  notification for it exists, waiting in a lane or held by one thread, so no two workers
  handle it at once; and unless the runtime is stopping its id is in the set of scheduled
  ids, which is what keeps it from being admitted again.
\<close>

theorem runtime_single_notification:
  assumes "runtime_reach sqlite_work_scheduler cfg prefix ledger_env reachable r" and "config_ok cfg"
    and "\<not> terminal_row item_of (sys_ledger (run_sys r)) i"
  shows "count_list (notifications r) i \<le> 1
    \<and> (i \<in> set (notifications r) \<longrightarrow> i \<in> rt_scheduled (sys_queues (run_sys r)) \<or> rt_stop (sys_queues (run_sys r)))"
proof -
  have "single_notes (ended_rows item_of r) (sys_view (run_sys r)) (runtime_owners r)"
    using reach_notes_ok [OF assms(1,2)] by (simp add: notes_ok_def lanes_inv_def)
  from spec [OF this [unfolded single_notes_def], of i] assms(3)
  have "count_list (notifications r) i \<le> 1
      \<and> (0 < count_list (notifications r) i \<longrightarrow> i \<in> rt_scheduled (sys_queues (run_sys r)) \<or> rt_stop (sys_queues (run_sys r)))"
    unfolding count_notifications view_sel by argo
  then show ?thesis by (metis count_list_0_iff gr0I)
qed

theorem runtime_single_notification_witness:
  "notifications (ex_runtime ex_provided) = [''a''] \<and> count_list (notifications (ex_runtime ex_provided)) ''a'' \<le> 1"
proof
  show "notifications (ex_runtime ex_provided) = [''a'']" by code_simp
  have "\<not> (case item_of (sys_ledger (run_sys (ex_runtime ex_provided))) ''a'' of None \<Rightarrow> False
      | Some w \<Rightarrow> terminal_state (state w))" by code_simp
  then have "\<not> terminal_row item_of (sys_ledger (run_sys (ex_runtime ex_provided))) ''a''"
    by (auto simp: terminal_row_def)
  then show "count_list (notifications (ex_runtime ex_provided)) ''a'' \<le> 1"
    using runtime_single_notification [OF ex_runtime_reach ex_config_ok] by blast
qed


section \<open>Draining and shutdown\<close>

text \<open>
  A drain answers True only when the work is done: at the step where a drain call returns
  True every item of the run in the ledger is in a terminal state.
\<close>

theorem drain_settled:
  assumes "runtime_step sqlite_work_scheduler cfg prefix (Ev_call n ch) r = Some r'"
    and "run_calls r ! n = Draining pc" and "pc \<noteq> D_return True" and "run_calls r' ! n = Draining (D_return True)"
    and "item_of (sys_ledger (run_sys r')) i = Some w" and "run_id w = cfg_run_id cfg"
  shows "state w \<in> TERMINAL_WORK_STATES"
proof -
  let ?s = "run_sys r"
  obtain s' where st: "drain_step sqlite_work_scheduler cfg (ch_late ch) pc ?s = Some (s', D_return True)"
    and s': "run_sys r' = s'"
    using assms(1,2,4) by (auto simp: runtime_step_def Let_def call_step_def split: if_splits)
  obtain b where pc: "pc = D_items b"
    using st assms(3) by (auto simp: drain_step_def split: drain_pc.splits recover_pc.splits option.splits if_splits)
  obtain ws where items: "snd (ws_items_for_run sqlite_work_scheduler (cfg_run_id cfg) (sys_ledger ?s)) = Inr ws"
    and fin: "list_all (\<lambda>w. state w \<in> TERMINAL_WORK_STATES) ws"
    and led: "sys_ledger s' = fst (ws_items_for_run sqlite_work_scheduler (cfg_run_id cfg) (sys_ledger ?s))"
    using st by (auto simp: drain_step_def pc split: prod.splits sum.splits if_splits)
  have "w \<in> set ws"
    using items_for_run_rows [of "cfg_run_id cfg" "sys_ledger ?s" ws i w] items assms(5,6) led
    by (simp add: s' sq.reads) (simp add: sqlite_work_scheduler_def)
  with fin show ?thesis by (simp add: list_all_iff)
qed

definition ex_drained :: "unit event list" where
  "ex_drained = ex_completed @ Ev_invoke (Draining (D_start None)) # replicate 9 (Ev_call 1 ex_choice)"

lemma ex_drained_steps:
  "case runtime_step sqlite_work_scheduler ex_config ''rt'' (Ev_call 1 ex_choice) (ex_runtime (butlast ex_drained)) of
     None \<Rightarrow> False
   | Some r' \<Rightarrow> run_calls (ex_runtime (butlast ex_drained)) ! 1 = Draining (D_items False)
       \<and> run_calls r' ! 1 = Draining (D_return True)
       \<and> (case item_of (sys_ledger (run_sys r')) ''a'' of None \<Rightarrow> False | Some w \<Rightarrow> run_id w = cfg_run_id ex_config)"
  by code_simp

theorem drain_settled_witness:
  "\<exists>r' w. runtime_step sqlite_work_scheduler ex_config ''rt'' (Ev_call 1 ex_choice) (ex_runtime (butlast ex_drained)) = Some r'
     \<and> item_of (sys_ledger (run_sys r')) ''a'' = Some w \<and> state w \<in> TERMINAL_WORK_STATES"
proof -
  obtain r' w where st: "runtime_step sqlite_work_scheduler ex_config ''rt'' (Ev_call 1 ex_choice) (ex_runtime (butlast ex_drained)) = Some r'"
    and c: "run_calls (ex_runtime (butlast ex_drained)) ! 1 = Draining (D_items False)"
      "run_calls r' ! 1 = Draining (D_return True)"
    and w: "item_of (sys_ledger (run_sys r')) ''a'' = Some w" "run_id w = cfg_run_id ex_config"
    using ex_drained_steps by (auto split: option.splits)
  have "state w \<in> TERMINAL_WORK_STATES" by (rule drain_settled [OF st c(1) _ c(2) w]) simp
  with st w(1) show ?thesis by blast
qed


definition ex_stopped :: "unit event list" where
  "ex_stopped = ex_publishing @ Ev_invoke (Closing (K_start False False)) # replicate 2 (Ev_call 1 ex_choice)"


lemma ex_stopped_stop: "rt_stop (sys_queues (run_sys (ex_runtime ex_stopped)))"
  by code_simp


text \<open>
  A stopping runtime takes nothing in: once the stop event is set, no step of any thread or
  call adds a notification for any item.
\<close>

theorem stopped_admits_nothing:
  assumes "runtime_reach sqlite_work_scheduler cfg prefix ledger_env reachable r" and "config_ok cfg"
    and "rt_stop (sys_queues (run_sys r))" and "runtime_step sqlite_work_scheduler cfg prefix ev r = Some r'"
  shows "count_list (notifications r') i \<le> count_list (notifications r) i"
  unfolding count_notifications
  by (rule stopped_step(2) [OF reach_notes_ok [OF assms(1,2)] reach_run_ok [OF assms(1)] assms(4,3)])

theorem stopped_admits_nothing_witness:
  "\<exists>r'. runtime_step sqlite_work_scheduler ex_config ''rt'' Ev_ingress (ex_runtime ex_stopped) = Some r'
     \<and> count_list (notifications r') ''a'' \<le> count_list (notifications (ex_runtime ex_stopped)) ''a''"
proof -
  have "\<not> Option.is_none (runtime_step sqlite_work_scheduler ex_config ''rt'' Ev_ingress (ex_runtime ex_stopped))"
    by code_simp
  then obtain r' where st: "runtime_step sqlite_work_scheduler ex_config ''rt'' Ev_ingress (ex_runtime ex_stopped) = Some r'"
    by (auto simp: Option.is_none_def)
  from stopped_admits_nothing [OF ex_runtime_reach ex_config_ok ex_stopped_stop this] st show ?thesis by blast
qed



end
