(* ===== verification/Sampling_Grid.thy ===== *)
theory Sampling_Grid
  imports Rational_Time
begin

text \<open>
  \<^verbatim>\<open>src/robata/sampling/grid.py\<close>: exact rational sampling grids and nearest-frame selection.
  The generator of \<open>iter_unique_targets\<close> is a loop that ends only for a valid grid, so it is
  a partial function whose non-termination would be None; that it returns is proved.
  Byte strings are strings, ordered bytewise.
\<close>

section \<open>Rates and grids\<close>

definition NANOSECONDS_PER_SECOND :: int where
  "NANOSECONDS_PER_SECOND = 1000000000"

record SamplingRate =
  rate_num :: int
  rate_den :: int

definition sampling_rate :: "int \<Rightarrow> int \<Rightarrow> SamplingRate py" where
  "sampling_rate n d =
     (if n \<le> 0 \<or> d \<le> 0
      then Inl (ValueError ''sampling-rate numerator and denominator must be positive'')
      else let divisor = gcd n d in Inr \<lparr>rate_num = n div divisor, rate_den = d div divisor\<rparr>)"

record SamplingTarget =
  target_k :: int
  target_ns :: int

definition sampling_target :: "int \<Rightarrow> int \<Rightarrow> SamplingTarget py" where
  "sampling_target k t = rbind (require_int64 ''target_ns'' t) (\<lambda>_. Inr \<lparr>target_k = k, target_ns = t\<rparr>)"

record SamplingGrid =
  grid_origin_ns :: int
  grid_rate :: SamplingRate

definition sampling_grid :: "int \<Rightarrow> SamplingRate \<Rightarrow> SamplingGrid py" where
  "sampling_grid origin rate =
     rbind (require_int64 ''grid_origin_ns'' origin) (\<lambda>_.
       Inr \<lparr>grid_origin_ns = origin, grid_rate = rate\<rparr>)"

definition period_num_ns :: "SamplingGrid \<Rightarrow> int" where
  "period_num_ns g =
     (let raw = NANOSECONDS_PER_SECOND * rate_den (grid_rate g) in raw div gcd raw (rate_num (grid_rate g)))"

definition period_den :: "SamplingGrid \<Rightarrow> int" where
  "period_den g =
     (let raw = NANOSECONDS_PER_SECOND * rate_den (grid_rate g)
      in rate_num (grid_rate g) div gcd raw (rate_num (grid_rate g)))"

definition grid_target_ns :: "SamplingGrid \<Rightarrow> int \<Rightarrow> int py" where
  "grid_target_ns g k =
     rbind (round_half_even (k * period_num_ns g) (period_den g)) (\<lambda>r.
       let target = grid_origin_ns g + r in
       if target < INT64_MIN \<or> target > INT64_MAX
       then Inl (OverflowError ''sampling target does not fit in signed int64 nanoseconds'')
       else Inr target)"

definition first_k_at_or_after :: "SamplingGrid \<Rightarrow> int \<Rightarrow> int" where
  "first_k_at_or_after g timestamp =
     (let relative_target = timestamp - grid_origin_ns g;
          boundary = (2 * relative_target - 1) * period_den g;
          scale = 2 * period_num_ns g;
          quotient = boundary div scale;
          remainder = boundary mod scale
      in if remainder = 0 \<and> relative_target mod 2 = 0 then quotient else quotient + 1)"

partial_function (option) unique_targets_from ::
    "SamplingGrid \<Rightarrow> int \<Rightarrow> int \<Rightarrow> SamplingTarget list py option" where
  "unique_targets_from g k stop_k =
     (if k < stop_k then
        (case grid_target_ns g k of
           Inl e \<Rightarrow> Some (Inl e)
         | Inr t \<Rightarrow>
             (case sampling_target k t of
                Inl e \<Rightarrow> Some (Inl e)
              | Inr target \<Rightarrow>
                  Option.bind (unique_targets_from g (first_k_at_or_after g (t + 1)) stop_k) (\<lambda>rest.
                    Some (rbind rest (\<lambda>ts. Inr (target # ts))))))
      else Some (Inr []))"

definition enumerate_targets :: "SamplingGrid \<Rightarrow> int \<Rightarrow> int \<Rightarrow> SamplingTarget list py option" where
  "enumerate_targets g start_ns end_ns =
     (case rbind (require_int64 ''start_ns'' start_ns) (\<lambda>_.
           rbind (require_int64 ''end_ns'' end_ns) (\<lambda>_.
             if start_ns \<ge> end_ns then Inl (ValueError ''start_ns must be less than end_ns'') else Inr ())) of
        Inl e \<Rightarrow> Some (Inl e)
      | Inr _ \<Rightarrow> unique_targets_from g (first_k_at_or_after g start_ns) (first_k_at_or_after g end_ns))"

section \<open>Frames\<close>

record FrameCandidate =
  aligned_timestamp_ns :: int
  source_timestamp_ns :: int
  source_locator_bytes :: string
  decodable :: bool

definition frame_candidate :: "int \<Rightarrow> int \<Rightarrow> string \<Rightarrow> bool \<Rightarrow> FrameCandidate py" where
  "frame_candidate aligned source locator dec =
     rbind (require_int64 ''aligned_timestamp_ns'' aligned) (\<lambda>_.
     rbind (require_int64 ''source_timestamp_ns'' source) (\<lambda>_.
       if locator = [] then Inl (ValueError ''source_locator_bytes must not be empty'')
       else Inr \<lparr>aligned_timestamp_ns = aligned, source_timestamp_ns = source,
                 source_locator_bytes = locator, decodable = dec\<rparr>))"

datatype SelectionStatus = DECODE_FAILED | SELECTED | NO_FRAME_WITHIN_TOLERANCE | DEDUPLICATED_FRAME

record TargetSelection =
  sel_target :: SamplingTarget
  sel_status :: SelectionStatus
  sel_frame :: "FrameCandidate option"
  delta_to_target_ns :: "int option"

definition target_selection_post_init :: "TargetSelection \<Rightarrow> TargetSelection py" where
  "target_selection_post_init s =
     (if sel_status s = NO_FRAME_WITHIN_TOLERANCE then
        if sel_frame s \<noteq> None \<or> delta_to_target_ns s \<noteq> None
        then Inl (ValueError ''a missed target cannot contain an actual frame or delta'')
        else Inr s
      else case (sel_frame s, delta_to_target_ns s) of
        (Some frame, Some delta) \<Rightarrow>
          rbind (require_int64 ''delta_to_target_ns'' delta) (\<lambda>_.
            if delta \<noteq> aligned_timestamp_ns frame - target_ns (sel_target s)
            then Inl (ValueError ''delta_to_target_ns must equal actual aligned time minus target'')
            else Inr s)
      | _ \<Rightarrow> Inl (ValueError ''selected and deduplicated targets require a frame and delta''))"

section \<open>Normalised targets\<close>

primrec check_by_k :: "(int \<times> int) list \<Rightarrow> SamplingTarget list \<Rightarrow> unit py" where
  "check_by_k seen [] = Inr ()"
| "check_by_k seen (t # ts) =
     (case map_of seen (target_k t) of
        None \<Rightarrow> check_by_k ((target_k t, target_ns t) # seen) ts
      | Some previous \<Rightarrow>
          if previous \<noteq> target_ns t
          then Inl (ValueError ''one grid index cannot identify different target timestamps'')
          else check_by_k seen ts)"

primrec first_by_timestamp :: "int set \<Rightarrow> SamplingTarget list \<Rightarrow> SamplingTarget list" where
  "first_by_timestamp seen [] = []"
| "first_by_timestamp seen (t # ts) =
     (if target_ns t \<in> seen then first_by_timestamp seen ts
      else t # first_by_timestamp (insert (target_ns t) seen) ts)"

definition normalized_targets :: "SamplingTarget list \<Rightarrow> SamplingTarget list py" where
  "normalized_targets targets =
     rbind (check_by_k [] targets) (\<lambda>_.
       Inr (sort_key target_k
         (first_by_timestamp {} (sort_key (\<lambda>t. (target_k t, target_ns t)) targets))))"

section \<open>Selection\<close>

definition frame_key :: "SamplingTarget \<Rightarrow> FrameCandidate \<Rightarrow> int \<times> int \<times> int \<times> string" where
  "frame_key t f = (\<bar>aligned_timestamp_ns f - target_ns t\<bar>, aligned_timestamp_ns f,
     source_timestamp_ns f, source_locator_bytes f)"

definition select_for_target :: "FrameCandidate list \<Rightarrow> int \<Rightarrow> SamplingTarget \<Rightarrow> TargetSelection py" where
  "select_for_target interval_frames tolerance t =
     (let within_tolerance = filter (\<lambda>f. \<bar>aligned_timestamp_ns f - target_ns t\<bar> \<le> tolerance) interval_frames in
      case min_by (frame_key t) (filter decodable within_tolerance) of
        Some frame \<Rightarrow> target_selection_post_init
          \<lparr>sel_target = t, sel_status = SELECTED, sel_frame = Some frame,
           delta_to_target_ns = Some (aligned_timestamp_ns frame - target_ns t)\<rparr>
      | None \<Rightarrow>
          (case min_by (frame_key t) within_tolerance of
             Some frame \<Rightarrow> target_selection_post_init
               \<lparr>sel_target = t, sel_status = DECODE_FAILED, sel_frame = Some frame,
                delta_to_target_ns = Some (aligned_timestamp_ns frame - target_ns t)\<rparr>
           | None \<Rightarrow> target_selection_post_init
               \<lparr>sel_target = t, sel_status = NO_FRAME_WITHIN_TOLERANCE, sel_frame = None,
                delta_to_target_ns = None\<rparr>))"

primrec provisional_selections ::
    "FrameCandidate list \<Rightarrow> int \<Rightarrow> SamplingTarget list \<Rightarrow> TargetSelection list py" where
  "provisional_selections frames tolerance [] = Inr []"
| "provisional_selections frames tolerance (t # ts) =
     rbind (select_for_target frames tolerance t) (\<lambda>s.
     rbind (provisional_selections frames tolerance ts) (\<lambda>ss. Inr (s # ss)))"

definition selected_locator :: "TargetSelection \<Rightarrow> string option" where
  "selected_locator s =
     (if sel_status s = SELECTED then map_option source_locator_bytes (sel_frame s) else None)"

text \<open>\<open>d.setdefault(key, []).append(v)\<close> on a dictionary in insertion order.\<close>

fun dict_append :: "('k \<times> 'v list) list \<Rightarrow> 'k \<Rightarrow> 'v \<Rightarrow> ('k \<times> 'v list) list" where
  "dict_append [] key v = [(key, [v])]"
| "dict_append ((key', vs) # d) key v =
     (if key' = key then (key', vs @ [v]) # d else (key', vs) # dict_append d key v)"

primrec assignments_by_locator ::
    "nat \<Rightarrow> TargetSelection list \<Rightarrow> (string \<times> nat list) list \<Rightarrow> (string \<times> nat list) list" where
  "assignments_by_locator i [] d = d"
| "assignments_by_locator i (s # ss) d =
     assignments_by_locator (i + 1) ss
       (case selected_locator s of None \<Rightarrow> d | Some locator \<Rightarrow> dict_append d locator i)"

definition winner_key :: "TargetSelection list \<Rightarrow> nat \<Rightarrow> int \<times> int \<times> int" where
  "winner_key provisional i =
     (\<bar>case delta_to_target_ns (provisional ! i) of None \<Rightarrow> 0 | Some d \<Rightarrow> d\<bar>,
      target_ns (sel_target (provisional ! i)), target_k (sel_target (provisional ! i)))"

definition dedup_index ::
    "TargetSelection list \<Rightarrow> nat \<Rightarrow> nat \<Rightarrow> TargetSelection list \<Rightarrow> TargetSelection list py" where
  "dedup_index provisional winner i results =
     (if i = winner then Inr results
      else rbind (target_selection_post_init ((provisional ! i)\<lparr>sel_status := DEDUPLICATED_FRAME\<rparr>))
        (\<lambda>s. Inr (results[i := s])))"

definition dedup_group ::
    "TargetSelection list \<Rightarrow> string \<times> nat list \<Rightarrow> TargetSelection list \<Rightarrow> TargetSelection list py" where
  "dedup_group provisional grp results =
     (if length (snd grp) < 2 then Inr results
      else case min_by (winner_key provisional) (snd grp) of
        None \<Rightarrow> Inr results
      | Some winner \<Rightarrow> fold_res (dedup_index provisional winner) (snd grp) results)"

definition select_nearest_frames ::
    "SamplingTarget list \<Rightarrow> FrameCandidate list \<Rightarrow> int \<Rightarrow> int \<Rightarrow> int \<Rightarrow> TargetSelection list py" where
  "select_nearest_frames targets frames start_ns end_ns tolerance =
     rbind (require_int64 ''interval_start_ns'' start_ns) (\<lambda>_.
     rbind (require_int64 ''interval_end_ns'' end_ns) (\<lambda>_.
     if start_ns \<ge> end_ns then Inl (ValueError ''interval_start_ns must be less than interval_end_ns'')
     else rbind (require_int64 ''selection_tolerance_ns'' tolerance) (\<lambda>_.
     if tolerance < 0 then Inl (ValueError ''selection_tolerance_ns must be nonnegative'')
     else rbind (normalized_targets targets) (\<lambda>normalized.
       let interval_frames = filter (\<lambda>f. start_ns \<le> aligned_timestamp_ns f \<and> aligned_timestamp_ns f < end_ns) frames
       in rbind (provisional_selections interval_frames tolerance normalized) (\<lambda>provisional.
         fold_res (dedup_group provisional) (assignments_by_locator 0 provisional []) provisional)))))"

definition select_frames ::
    "SamplingGrid \<Rightarrow> FrameCandidate list \<Rightarrow> int \<Rightarrow> int \<Rightarrow> int \<Rightarrow> TargetSelection list py option" where
  "select_frames g frames start_ns end_ns tolerance =
     Option.bind (enumerate_targets g start_ns end_ns) (\<lambda>r.
       Some (rbind r (\<lambda>targets. select_nearest_frames targets frames start_ns end_ns tolerance)))"

section \<open>The grid as a monotone sequence\<close>

definition grid_valid :: "SamplingGrid \<Rightarrow> bool" where
  "grid_valid g \<longleftrightarrow> int64 (grid_origin_ns g) \<and> 0 < rate_num (grid_rate g) \<and> 0 < rate_den (grid_rate g)"

lemma sampling_grid_valid:
  assumes "sampling_rate n d = Inr r" and "sampling_grid origin r = Inr g"
  shows "grid_valid g"
  using assms
  by (auto simp: sampling_rate_def sampling_grid_def grid_valid_def result_simps Let_def
      pos_imp_zdiv_pos_iff zdvd_imp_le split: if_splits)

text \<open>The exact timestamp of index \<open>k\<close>, rounded, before the range check.\<close>

definition ideal_ns :: "SamplingGrid \<Rightarrow> int \<Rightarrow> int" where
  "ideal_ns g k = grid_origin_ns g + (case round_half_even (k * period_num_ns g) (period_den g) of
     Inl _ \<Rightarrow> 0 | Inr q \<Rightarrow> q)"

lemma gcd_div_pos:
  assumes "0 < (a::int)" and "0 < b"
  shows "0 < a div gcd a b" and "0 < b div gcd a b"
proof -
  have "gcd a b \<le> a" "gcd a b \<le> b" "0 < gcd a b" using assms by (auto simp: zdvd_imp_le)
  then show "0 < a div gcd a b" "0 < b div gcd a b" by (simp_all add: pos_imp_zdiv_pos_iff)
qed

lemma period_pos:
  assumes "grid_valid g"
  shows "0 < period_num_ns g" and "0 < period_den g"
proof -
  have "0 < NANOSECONDS_PER_SECOND * rate_den (grid_rate g)" "0 < rate_num (grid_rate g)"
    using assms by (simp_all add: grid_valid_def NANOSECONDS_PER_SECOND_def)
  then show "0 < period_num_ns g" "0 < period_den g"
    using gcd_div_pos by (simp_all add: period_num_ns_def period_den_def Let_def)
qed

lemma ideal_nearest:
  assumes "grid_valid g"
  shows "nearest_half_even (k * period_num_ns g) (period_den g) (ideal_ns g k - grid_origin_ns g)"
  using round_half_even_nearest [OF period_pos(2) [OF assms], of "k * period_num_ns g"]
  by (auto simp: ideal_ns_def)

lemma grid_target_ns_eq:
  assumes "grid_valid g"
  shows "grid_target_ns g k =
    (if int64 (ideal_ns g k) then Inr (ideal_ns g k)
     else Inl (OverflowError ''sampling target does not fit in signed int64 nanoseconds''))"
proof -
  obtain q where "round_half_even (k * period_num_ns g) (period_den g) = Inr q"
    using round_half_even_nearest [OF period_pos(2) [OF assms]] by blast
  then show ?thesis by (auto simp: grid_target_ns_def ideal_ns_def int64_def Let_def)
qed

lemma floor_boundary:
  assumes "0 < (s::int)"
  shows "b < k * s \<or> (b = k * s \<and> e) \<longleftrightarrow> (if b mod s = 0 \<and> e then b div s else b div s + 1) \<le> k"
proof -
  define q r where "q = b div s" and "r = b mod s"
  have b: "b = q * s + r" and r: "0 \<le> r" "r < s" using assms by (simp_all add: q_def r_def)
  have lt: "b < k * s \<longleftrightarrow> q < k"
  proof
    assume "q < k"
    then have "(q + 1) * s \<le> k * s" using assms by (intro mult_right_mono) auto
    then show "b < k * s" using b r by (simp add: algebra_simps)
  next
    assume "b < k * s"
    then have "q * s < k * s" using b r(1) by linarith
    then show "q < k" using assms by (simp add: mult_less_cancel_right)
  qed
  have eq: "b = k * s \<longleftrightarrow> q = k \<and> r = 0"
  proof
    assume "b = k * s"
    then show "q = k \<and> r = 0" using assms by (simp add: q_def r_def)
  qed (simp add: b)
  show ?thesis unfolding lt eq q_def [symmetric] r_def [symmetric] by auto
qed

text \<open>The inverse of the grid: \<open>_first_k_at_or_after\<close> is adjoint to the rounded timestamps.\<close>

lemma first_k_galois:
  assumes "grid_valid g"
  shows "ts \<le> ideal_ns g k \<longleftrightarrow> first_k_at_or_after g ts \<le> k"
proof -
  let ?rel = "ts - grid_origin_ns g"
  have "ts \<le> ideal_ns g k \<longleftrightarrow> ?rel \<le> ideal_ns g k - grid_origin_ns g" by simp
  also have "\<dots> \<longleftrightarrow> (2 * ?rel - 1) * period_den g < 2 * (k * period_num_ns g)
      \<or> ((2 * ?rel - 1) * period_den g = 2 * (k * period_num_ns g) \<and> even ?rel)"
    by (rule nearest_ge_iff [OF period_pos(2) [OF assms] ideal_nearest [OF assms]])
  also have "2 * (k * period_num_ns g) = k * (2 * period_num_ns g)" by simp
  also have "((2 * ?rel - 1) * period_den g < k * (2 * period_num_ns g)
      \<or> ((2 * ?rel - 1) * period_den g = k * (2 * period_num_ns g) \<and> even ?rel)) \<longleftrightarrow>
      first_k_at_or_after g ts \<le> k"
    using floor_boundary [of "2 * period_num_ns g" "(2 * ?rel - 1) * period_den g" k "even ?rel"]
      period_pos(1) [OF assms]
    by (simp add: first_k_at_or_after_def Let_def even_iff_mod_2_eq_zero)
  finally show ?thesis .
qed

section \<open>Enumeration\<close>

text \<open>
  The interface the enumeration rests on: a sequence over the integers with an adjoint
  that finds the first index at or after a value.
\<close>

locale adjoint_grid =
  fixes val :: "int \<Rightarrow> int" and first :: "int \<Rightarrow> int"
  assumes galois: "ts \<le> val k \<longleftrightarrow> first ts \<le> k"
begin

lemma val_mono: "j \<le> k \<Longrightarrow> val j \<le> val k"
  using galois [of "val j" j] galois [of "val j" k] by simp

lemma first_mono: "a \<le> b \<Longrightarrow> first a \<le> first b"
  using galois [of a "first b"] galois [of b "first b"] by simp

lemma next_greater: "k < first (val k + 1)"
  using galois [of "val k + 1" k] by simp

lemma val_first: "ts \<le> val (first ts)"
  using galois by simp

lemma below_first: "k < first ts \<longleftrightarrow> val k < ts"
  using galois [of ts k] by auto

text \<open>The values reached from index \<open>k\<close> on, each with its least index.\<close>

definition points :: "int \<Rightarrow> int \<Rightarrow> int list \<Rightarrow> bool" where
  "points k stop ks \<longleftrightarrow> sorted_wrt (<) ks \<and> (\<forall>j. j \<in> set ks \<longleftrightarrow> k \<le> j \<and> j < stop \<and> (j = k \<or> first (val j) = j))"

lemma points_Nil: "stop \<le> k \<Longrightarrow> points k stop []"
  by (auto simp: points_def)

lemma points_Cons:
  assumes "k < stop" and "points (first (val k + 1)) stop ks"
  shows "points k stop (k # ks)"
proof -
  let ?n = "first (val k + 1)"
  have gt: "k < ?n" by (rule next_greater)
  have own: "first (val ?n) = ?n"
  proof (rule order_antisym)
    show "first (val ?n) \<le> ?n" using galois [of "val ?n" ?n] by simp
    have "val k + 1 \<le> val ?n" by (rule val_first)
    then show "?n \<le> first (val ?n)" by (rule first_mono)
  qed
  have between: "first (val j) = j \<Longrightarrow> k < j \<Longrightarrow> ?n \<le> j" for j
  proof -
    assume j: "first (val j) = j" "k < j"
    have "val k < val j" using below_first [of k "val j"] j by simp
    then show "?n \<le> j" using galois [of "val k + 1" j] by simp
  qed
  have ks: "j \<in> set ks \<longleftrightarrow> ?n \<le> j \<and> j < stop \<and> first (val j) = j" for j
  proof -
    have "j = ?n \<Longrightarrow> first (val j) = j" using own by (simp only:)
    moreover have "j \<in> set ks \<longleftrightarrow> ?n \<le> j \<and> j < stop \<and> (j = ?n \<or> first (val j) = j)"
      using assms(2) unfolding points_def by (elim conjE) (erule spec)
    ultimately show ?thesis by argo
  qed
  have "j \<in> set (k # ks) \<longleftrightarrow> k \<le> j \<and> j < stop \<and> (j = k \<or> first (val j) = j)" for j
  proof (cases "j = k")
    case True
    with assms(1) show ?thesis by simp
  next
    case False
    then have "j \<in> set (k # ks) \<longleftrightarrow> ?n \<le> j \<and> j < stop \<and> first (val j) = j" using ks by simp
    with False gt between [of j] show ?thesis by linarith
  qed
  moreover have "sorted_wrt (<) (k # ks)" using assms(2) gt by (auto simp: points_def)
  ultimately show ?thesis by (simp add: points_def)
qed

lemma points_unique: "points k stop xs \<Longrightarrow> points k stop ys \<Longrightarrow> xs = ys"
proof -
  assume a: "points k stop xs" "points k stop ys"
  then have "set ys = set xs" unfolding points_def by blast
  with a show "xs = ys" using strict_sorted_equal [of xs ys] by (simp add: points_def)
qed

lemma first_first: "first (val (first ts)) = first ts"
proof (rule order_antisym)
  show "first (val (first ts)) \<le> first ts" using galois [of "val (first ts)" "first ts"] by simp
  show "first ts \<le> first (val (first ts))" by (rule first_mono [OF val_first])
qed

lemma points_interval:
  assumes "points (first a) (first b) ks"
  shows "set (map val ks) = {t. a \<le> t \<and> t < b \<and> (\<exists>k. val k = t)}" and "sorted_wrt (<) (map val ks)"
    and "\<And>j k. j \<in> set ks \<Longrightarrow> val k = val j \<Longrightarrow> j \<le> k"
proof -
  have mem: "j \<in> set ks \<longleftrightarrow> a \<le> val j \<and> val j < b \<and> first (val j) = j" for j
    using assms first_first [of a] galois [of a j] below_first [of j b] by (auto simp: points_def)
  show "set (map val ks) = {t. a \<le> t \<and> t < b \<and> (\<exists>k. val k = t)}"
  proof (intro set_eqI iffI)
    fix t assume "t \<in> {t. a \<le> t \<and> t < b \<and> (\<exists>k. val k = t)}"
    then obtain k where k: "a \<le> t" "t < b" "val k = t" by blast
    have "val (first t) \<le> val k" by (rule val_mono) (use galois [of t k] k in simp)
    then have "val (first t) = t" using val_first [of t] k(3) by simp
    then have "first t \<in> set ks" using mem [of "first t"] k by simp
    with \<open>val (first t) = t\<close> show "t \<in> set (map val ks)" by force
  qed (auto simp: mem)
  show least: "j \<le> k" if "j \<in> set ks" "val k = val j" for j k
    using that mem [of j] galois [of "val j" k] by simp
  have "val i < val j" if "i \<in> set ks" "j \<in> set ks" "i < j" for i j
    using that mem [of j] below_first [of i "val j"] by simp
  then show "sorted_wrt (<) (map val ks)"
    using assms unfolding sorted_wrt_map points_def by (auto intro: sorted_wrt_mono_rel [rotated])
qed

lemma points_append:
  assumes "a \<le> b" "b \<le> c" "points (first a) (first b) xs" "points (first b) (first c) ys"
  shows "points (first a) (first c) (xs @ ys)"
proof -
  have fab: "first a \<le> first b" "first b \<le> first c" using assms first_mono by auto
  have "j \<in> set (xs @ ys) \<longleftrightarrow> first a \<le> j \<and> j < first c \<and> (j = first a \<or> first (val j) = j)" for j
    using assms(3,4) fab first_first [of a] first_first [of b] by (auto simp: points_def)
  moreover have "sorted_wrt (<) (xs @ ys)"
    using assms(3,4) fab by (fastforce simp: points_def sorted_wrt_append)
  ultimately show ?thesis by (simp add: points_def)
qed

end

text \<open>
  Every grid the constructors build is valid; \<open>checked_grid\<close> restricts to those, so that
  the interface has an instance for every grid.
\<close>

definition checked_grid :: "SamplingGrid \<Rightarrow> SamplingGrid" where
  "checked_grid g =
     (if grid_valid g then g
      else \<lparr>grid_origin_ns = 0, grid_rate = \<lparr>rate_num = 1, rate_den = 1\<rparr>\<rparr>)"

lemma checked_grid_valid: "grid_valid (checked_grid g)"
  by (simp add: checked_grid_def grid_valid_def int64_def INT64_MIN_def INT64_MAX_def)

lemma checked_grid_id: "grid_valid g \<Longrightarrow> checked_grid g = g"
  by (simp add: checked_grid_def)

interpretation grid: adjoint_grid "ideal_ns (checked_grid g)" "first_k_at_or_after (checked_grid g)" for g
  by unfold_locales (rule first_k_galois [OF checked_grid_valid])

text \<open>The loop visits exactly the indices described by \<open>points\<close>, and ends.\<close>

lemma unique_targets_run:
  assumes valid: "grid_valid g" and range: "\<And>j. k \<le> j \<Longrightarrow> j < stop \<Longrightarrow> int64 (ideal_ns g j)"
  shows "\<exists>ks. grid.points g k stop ks \<and> unique_targets_from g k stop =
    Some (Inr (map (\<lambda>j. \<lparr>target_k = j, target_ns = ideal_ns g j\<rparr>) ks))"
  using range
proof (induction "nat (stop - k)" arbitrary: k rule: less_induct)
  case less
  note id = checked_grid_id [OF valid]
  show ?case
  proof (cases "k < stop")
    case False
    then show ?thesis
      using grid.points_Nil [of stop k g] by (auto simp: unique_targets_from.simps [of g k] intro: exI [of _ "[]"])
  next
    case True
    let ?n = "first_k_at_or_after g (ideal_ns g k + 1)"
    have gt: "k < ?n" using grid.next_greater [of k g] by (simp only: id)
    have "\<exists>ks. grid.points g ?n stop ks \<and> unique_targets_from g ?n stop =
        Some (Inr (map (\<lambda>j. \<lparr>target_k = j, target_ns = ideal_ns g j\<rparr>) ks))"
      by (rule less.hyps) (use gt True less.prems in auto)
    then obtain ks where ks: "grid.points g ?n stop ks" and run: "unique_targets_from g ?n stop =
        Some (Inr (map (\<lambda>j. \<lparr>target_k = j, target_ns = ideal_ns g j\<rparr>) ks))"
      by blast
    have "int64 (ideal_ns g k)" using less.prems True by simp
    then have "grid_target_ns g k = Inr (ideal_ns g k)"
      "sampling_target k (ideal_ns g k) = Inr \<lparr>target_k = k, target_ns = ideal_ns g k\<rparr>"
      by (simp_all add: grid_target_ns_eq [OF valid] sampling_target_def require_int64_def int64_def)
    then have "unique_targets_from g k stop =
        Some (Inr (map (\<lambda>j. \<lparr>target_k = j, target_ns = ideal_ns g j\<rparr>) (k # ks)))"
      using True run by (simp add: unique_targets_from.simps [of g k])
    moreover have "grid.points g k stop (k # ks)"
      using grid.points_Cons [OF True, of g ks] ks by (simp only: id)
    ultimately show ?thesis by blast
  qed
qed

lemma enumerate_run:
  assumes valid: "grid_valid g" and "int64 a" "int64 b" "a < b"
  shows "\<exists>ks. grid.points g (first_k_at_or_after g a) (first_k_at_or_after g b) ks \<and>
    enumerate_targets g a b = Some (Inr (map (\<lambda>j. \<lparr>target_k = j, target_ns = ideal_ns g j\<rparr>) ks))"
proof -
  have "int64 (ideal_ns g j)" if "first_k_at_or_after g a \<le> j" "j < first_k_at_or_after g b" for j
    using that first_k_galois [OF valid, of a j] first_k_galois [OF valid, of b j] assms(2,3)
    by (auto simp: int64_def)
  from unique_targets_run [OF valid this] assms(2-4) show ?thesis
    by (simp add: enumerate_targets_def require_int64_def int64_def)
qed

text \<open>
  The inverse computed by \<open>_first_k_at_or_after\<close> is exact: the index it returns is the
  least one whose rounded timestamp is at or after the given time, ties of the half-even
  rounding included.
\<close>

theorem first_k_correct:
  assumes "grid_valid g" and "grid_target_ns g k = Inr t"
  shows "ts \<le> t \<longleftrightarrow> first_k_at_or_after g ts \<le> k"
  using first_k_galois [OF assms(1), of ts k] assms(2)
  by (auto simp add: grid_target_ns_eq [OF assms(1)] split: if_splits)

definition ex_grid :: SamplingGrid where
  "ex_grid = \<lparr>grid_origin_ns = 7, grid_rate = \<lparr>rate_num = 3, rate_den = 1\<rparr>\<rparr>"

theorem first_k_correct_witness: "666666674 \<le> (666666674::int) \<longleftrightarrow> first_k_at_or_after ex_grid 666666674 \<le> 2"
proof (rule first_k_correct)
  show "grid_valid ex_grid" by code_simp
  show "grid_target_ns ex_grid 2 = Inr 666666674" by code_simp
qed

text \<open>
  C38. Enumeration of a half-open interval always ends without an error and yields, in
  strictly increasing order, exactly the distinct grid timestamps inside the interval, each
  with the least index that rounds to it.
\<close>

theorem enumerate_targets_correct:
  assumes "grid_valid g" and "int64 a" and "int64 b" and "a < b"
  shows "\<exists>ts. enumerate_targets g a b = Some (Inr ts) \<and> sorted_wrt (<) (map target_ns ts)
    \<and> set (map target_ns ts) = {t. a \<le> t \<and> t < b \<and> (\<exists>k. grid_target_ns g k = Inr t)}
    \<and> (\<forall>x \<in> set ts. grid_target_ns g (target_k x) = Inr (target_ns x)
         \<and> (\<forall>k. grid_target_ns g k = Inr (target_ns x) \<longrightarrow> target_k x \<le> k))"
proof -
  note id = checked_grid_id [OF assms(1)]
  obtain ks where ks: "grid.points g (first_k_at_or_after g a) (first_k_at_or_after g b) ks"
    and run: "enumerate_targets g a b = Some (Inr (map (\<lambda>j. \<lparr>target_k = j, target_ns = ideal_ns g j\<rparr>) ks))"
    using enumerate_run [OF assms] by blast
  note p = grid.points_interval [of g a b ks, unfolded id, OF ks [unfolded id]]
  have range: "int64 t" if "a \<le> t" "t < b" for t using that assms(2,3) by (simp add: int64_def)
  let ?ts = "map (\<lambda>j. \<lparr>target_k = j, target_ns = ideal_ns g j\<rparr>) ks"
  have ns: "map target_ns ?ts = map (ideal_ns g) ks" by simp
  have set: "set (map target_ns ?ts) = {t. a \<le> t \<and> t < b \<and> (\<exists>k. grid_target_ns g k = Inr t)}"
    unfolding ns p(1) using range by (auto simp: grid_target_ns_eq [OF assms(1)] split: if_splits)
  have "grid_target_ns g j = Inr (ideal_ns g j) \<and> (\<forall>k. grid_target_ns g k = Inr (ideal_ns g j) \<longrightarrow> j \<le> k)"
    if "j \<in> set ks" for j
  proof
    have "ideal_ns g j \<in> set (map (ideal_ns g) ks)" using that by simp
    then have "int64 (ideal_ns g j)" unfolding p(1) using range by blast
    then show "grid_target_ns g j = Inr (ideal_ns g j)" by (simp add: grid_target_ns_eq [OF assms(1)])
    show "\<forall>k. grid_target_ns g k = Inr (ideal_ns g j) \<longrightarrow> j \<le> k"
      using p(3) [OF that] by (auto simp: grid_target_ns_eq [OF assms(1)] split: if_splits)
  qed
  then have least: "\<forall>x \<in> set ?ts. grid_target_ns g (target_k x) = Inr (target_ns x)
      \<and> (\<forall>k. grid_target_ns g k = Inr (target_ns x) \<longrightarrow> target_k x \<le> k)"
    by auto
  have "sorted_wrt (<) (map target_ns ?ts)" unfolding ns by (rule p(2))
  with run set least show ?thesis by blast
qed

theorem enumerate_targets_correct_witness:
  "\<exists>ts. enumerate_targets ex_grid 7 1000000007 = Some (Inr ts) \<and> sorted_wrt (<) (map target_ns ts)"
proof -
  have "grid_valid ex_grid" "int64 7" "int64 1000000007" "(7::int) < 1000000007"
    by (simp_all add: ex_grid_def grid_valid_def int64_def INT64_MIN_def INT64_MAX_def)
  from enumerate_targets_correct [OF this] show ?thesis by blast
qed

text \<open>
  Phase stability: cutting an interval in two never shifts, loses or repeats a target.
\<close>

theorem enumerate_targets_split:
  assumes "grid_valid g" and "int64 a" and "int64 c" and "a < b" and "b < c"
  shows "\<exists>xs ys. enumerate_targets g a b = Some (Inr xs) \<and> enumerate_targets g b c = Some (Inr ys)
    \<and> enumerate_targets g a c = Some (Inr (xs @ ys))"
proof -
  note id = checked_grid_id [OF assms(1)]
  have b: "int64 b" "a < c" using assms by (auto simp: int64_def)
  obtain xs where xs: "grid.points g (first_k_at_or_after g a) (first_k_at_or_after g b) xs"
    "enumerate_targets g a b = Some (Inr (map (\<lambda>j. \<lparr>target_k = j, target_ns = ideal_ns g j\<rparr>) xs))"
    using enumerate_run [OF assms(1,2) b(1) assms(4)] by blast
  obtain ys where ys: "grid.points g (first_k_at_or_after g b) (first_k_at_or_after g c) ys"
    "enumerate_targets g b c = Some (Inr (map (\<lambda>j. \<lparr>target_k = j, target_ns = ideal_ns g j\<rparr>) ys))"
    using enumerate_run [OF assms(1) b(1) assms(3,5)] by blast
  obtain zs where zs: "grid.points g (first_k_at_or_after g a) (first_k_at_or_after g c) zs"
    "enumerate_targets g a c = Some (Inr (map (\<lambda>j. \<lparr>target_k = j, target_ns = ideal_ns g j\<rparr>) zs))"
    using enumerate_run [OF assms(1-3) b(2)] by blast
  have "grid.points g (first_k_at_or_after g a) (first_k_at_or_after g c) (xs @ ys)"
    using grid.points_append [of a b c g xs ys, unfolded id, OF _ _ xs(1) [unfolded id] ys(1) [unfolded id]] assms(4,5)
    by (simp add: id)
  then have "zs = xs @ ys" using grid.points_unique [OF zs(1)] by blast
  with xs(2) ys(2) zs(2) show ?thesis by simp
qed

theorem enumerate_targets_split_witness:
  "\<exists>xs ys. enumerate_targets ex_grid 7 500 = Some (Inr xs) \<and> enumerate_targets ex_grid 500 1000000007 = Some (Inr ys)
    \<and> enumerate_targets ex_grid 7 1000000007 = Some (Inr (xs @ ys))"
  by (rule enumerate_targets_split)
    (simp_all add: ex_grid_def grid_valid_def int64_def INT64_MIN_def INT64_MAX_def)

end
