(* ===== verification/Frame_Selection.thy ===== *)
theory Frame_Selection
  imports Sampling_Grid
begin

text \<open>
  Correctness of \<open>select_nearest_frames\<close> (\<^verbatim>\<open>src/robata/sampling/grid.py\<close>): the provisional
  nearest-frame choice of every target, the grouping by source frame, and the retained
  assignment of each group.
\<close>

section \<open>The provisional choice\<close>

definition in_reach :: "FrameCandidate list \<Rightarrow> int \<Rightarrow> SamplingTarget \<Rightarrow> FrameCandidate set" where
  "in_reach frames tol t = {f \<in> set frames. \<bar>aligned_timestamp_ns f - target_ns t\<bar> \<le> tol}"

definition nearest_of :: "SamplingTarget \<Rightarrow> FrameCandidate set \<Rightarrow> FrameCandidate \<Rightarrow> bool" where
  "nearest_of t S f \<longleftrightarrow> f \<in> S \<and> (\<forall>f' \<in> S. frame_key t f \<le> frame_key t f')"

definition with_frame :: "TargetSelection \<Rightarrow> FrameCandidate \<Rightarrow> bool" where
  "with_frame s f \<longleftrightarrow> sel_frame s = Some f
     \<and> delta_to_target_ns s = Some (aligned_timestamp_ns f - target_ns (sel_target s))"

definition choice_ok :: "FrameCandidate list \<Rightarrow> int \<Rightarrow> TargetSelection \<Rightarrow> bool" where
  "choice_ok frames tol s \<longleftrightarrow>
     (let R = in_reach frames tol (sel_target s); D = {f \<in> R. decodable f} in
      case sel_status s of
        SELECTED \<Rightarrow> (\<exists>f. with_frame s f \<and> nearest_of (sel_target s) D f)
      | DEDUPLICATED_FRAME \<Rightarrow> (\<exists>f. with_frame s f \<and> nearest_of (sel_target s) D f)
      | DECODE_FAILED \<Rightarrow> D = {} \<and> (\<exists>f. with_frame s f \<and> nearest_of (sel_target s) R f)
      | NO_FRAME_WITHIN_TOLERANCE \<Rightarrow> R = {} \<and> sel_frame s = None \<and> delta_to_target_ns s = None)"

lemma small_delta_int64: "int64 tol \<Longrightarrow> \<bar>d\<bar> \<le> tol \<Longrightarrow> int64 d"
  by (auto simp: int64_def INT64_MIN_def INT64_MAX_def)

lemma post_init_frame:
  assumes "with_frame s f" and "sel_status s \<noteq> NO_FRAME_WITHIN_TOLERANCE" and "int64 tol"
    and "f \<in> in_reach frames tol (sel_target s)"
  shows "target_selection_post_init s = Inr s"
  using assms small_delta_int64 [OF assms(3), of "aligned_timestamp_ns f - target_ns (sel_target s)"]
  by (auto simp: target_selection_post_init_def with_frame_def in_reach_def require_int64_def int64_def)

lemma min_by_nearest:
  assumes "min_by (frame_key t) fs = Some f"
  shows "nearest_of t (set fs) f"
  using min_by_Some [OF assms] by (simp add: nearest_of_def)

lemma select_for_target_ok:
  assumes "int64 tol"
  shows "\<exists>s. select_for_target frames tol t = Inr s \<and> sel_target s = t \<and> choice_ok frames tol s
    \<and> sel_status s \<noteq> DEDUPLICATED_FRAME"
proof -
  let ?w = "filter (\<lambda>f. \<bar>aligned_timestamp_ns f - target_ns t\<bar> \<le> tol) frames"
  have R: "set ?w = in_reach frames tol t" by (auto simp: in_reach_def)
  have D: "set (filter decodable ?w) = {f \<in> in_reach frames tol t. decodable f}" using R by auto
  let ?sel = "\<lambda>st f. \<lparr>sel_target = t, sel_status = st, sel_frame = Some f,
    delta_to_target_ns = Some (aligned_timestamp_ns f - target_ns t)\<rparr>"
  have init: "target_selection_post_init (?sel st f) = Inr (?sel st f)"
    if "st \<noteq> NO_FRAME_WITHIN_TOLERANCE" "f \<in> in_reach frames tol t" for st f
    by (rule post_init_frame [OF _ _ assms, where frames = frames and f = f]) (use that in \<open>simp_all add: with_frame_def\<close>)
  show ?thesis
  proof (cases "min_by (frame_key t) (filter decodable ?w)")
    case (Some f)
    have n: "nearest_of t {f \<in> in_reach frames tol t. decodable f} f"
      using min_by_nearest [OF Some] unfolding D .
    then have "f \<in> in_reach frames tol t" by (simp add: nearest_of_def)
    with Some init [of SELECTED f] n show ?thesis
      by (intro exI [of _ "?sel SELECTED f"])
        (auto simp: select_for_target_def choice_ok_def with_frame_def Let_def)
  next
    case None
    then have "filter decodable ?w = []" by simp
    then have nd: "{f \<in> in_reach frames tol t. decodable f} = {}" using D by (metis list.set(1))
    show ?thesis
    proof (cases "min_by (frame_key t) ?w")
      case (Some f)
      have n: "nearest_of t (in_reach frames tol t) f" using min_by_nearest [OF Some] unfolding R .
      then have "f \<in> in_reach frames tol t" by (simp add: nearest_of_def)
      with None Some init [of DECODE_FAILED f] n nd show ?thesis
        by (intro exI [of _ "?sel DECODE_FAILED f"])
          (auto simp: select_for_target_def choice_ok_def with_frame_def Let_def)
    next
      case none: None
      then have "?w = []" by simp
      then have "in_reach frames tol t = {}" using R by (metis list.set(1))
      with None none show ?thesis
        by (intro exI [of _ "\<lparr>sel_target = t, sel_status = NO_FRAME_WITHIN_TOLERANCE, sel_frame = None,
            delta_to_target_ns = None\<rparr>"])
          (auto simp: select_for_target_def choice_ok_def target_selection_post_init_def Let_def)
    qed
  qed
qed

lemma provisional_ok:
  assumes "int64 tol"
  shows "\<exists>ps. provisional_selections frames tol ts = Inr ps \<and> map sel_target ps = ts
    \<and> (\<forall>s \<in> set ps. choice_ok frames tol s \<and> sel_status s \<noteq> DEDUPLICATED_FRAME)"
proof (induction ts)
  case Nil
  show ?case by simp
next
  case (Cons t ts)
  then obtain ps where "provisional_selections frames tol ts = Inr ps" "map sel_target ps = ts"
    "\<forall>s \<in> set ps. choice_ok frames tol s \<and> sel_status s \<noteq> DEDUPLICATED_FRAME"
    by blast
  moreover obtain s where "select_for_target frames tol t = Inr s" "sel_target s = t" "choice_ok frames tol s"
    "sel_status s \<noteq> DEDUPLICATED_FRAME"
    using select_for_target_ok [OF assms] by blast
  ultimately show ?case by (intro exI [of _ "s # ps"]) simp
qed

section \<open>Grouping by source frame\<close>

definition users :: "TargetSelection list \<Rightarrow> string \<Rightarrow> nat list" where
  "users ps L = filter (\<lambda>i. selected_locator (ps ! i) = Some L) [0..<length ps]"

lemma users_append:
  "users (ps @ [s]) L = users ps L @ (if selected_locator s = Some L then [length ps] else [])"
proof -
  have "filter (\<lambda>i. selected_locator ((ps @ [s]) ! i) = Some L) [0..<length ps] =
      filter (\<lambda>i. selected_locator (ps ! i) = Some L) [0..<length ps]"
    by (rule filter_cong) (auto simp: nth_append)
  then show ?thesis by (simp add: users_def)
qed

lemma map_of_dict_append:
  "map_of (dict_append d key v) L =
    (if L = key then Some (case map_of d key of None \<Rightarrow> [v] | Some vs \<Rightarrow> vs @ [v]) else map_of d L)"
  by (induction d key v rule: dict_append.induct) auto

lemma dict_append_keys:
  "set (map fst (dict_append d key v)) = insert key (set (map fst d))"
  "distinct (map fst d) \<Longrightarrow> distinct (map fst (dict_append d key v))"
proof -
  show keys: "set (map fst (dict_append d key v)) = insert key (set (map fst d))" for d :: "('a \<times> 'b list) list" and key v
    by (induction d key v rule: dict_append.induct) auto
  show "distinct (map fst d) \<Longrightarrow> distinct (map fst (dict_append d key v))"
  proof (induction d key v rule: dict_append.induct)
    case (2 key' vs d key v)
    then show ?case using keys [of d key v] by auto
  qed simp
qed

definition groups_of :: "TargetSelection list \<Rightarrow> (string \<times> nat list) list \<Rightarrow> bool" where
  "groups_of ps d \<longleftrightarrow> distinct (map fst d)
     \<and> (\<forall>L. map_of d L = (if users ps L = [] then None else Some (users ps L)))"

lemma groups_of_assignments:
  "groups_of pre d \<Longrightarrow> groups_of (pre @ ss) (assignments_by_locator (length pre) ss d)"
proof (induction ss arbitrary: pre d)
  case Nil
  then show ?case by simp
next
  case (Cons s ss)
  have "groups_of (pre @ [s]) (case selected_locator s of None \<Rightarrow> d | Some L \<Rightarrow> dict_append d L (length pre))"
    using Cons.prems
    by (auto simp: groups_of_def users_append map_of_dict_append dict_append_keys(2)
        simp del: map_of_eq_Some_iff split: option.splits)
  from Cons.IH [OF this] show ?case by simp
qed

lemma groups_of_entry:
  assumes "groups_of ps d" and "(L, is) \<in> set d"
  shows "is = users ps L" and "is \<noteq> []"
proof -
  have "distinct (map fst d)" using assms(1) by (simp only: groups_of_def)
  then have "map_of d L = Some is" using assms(2) by (rule map_of_is_SomeI)
  moreover have "map_of d L = (if users ps L = [] then None else Some (users ps L))"
    using assms(1) by (simp only: groups_of_def)
  ultimately show "is = users ps L" "is \<noteq> []" by (auto split: if_splits)
qed

section \<open>The retained assignment\<close>

definition loses :: "TargetSelection list \<Rightarrow> string \<Rightarrow> nat \<Rightarrow> bool" where
  "loses ps L i \<longleftrightarrow> i \<in> set (users ps L) \<and> min_by (winner_key ps) (users ps L) \<noteq> Some i"

abbreviation dropped :: "TargetSelection \<Rightarrow> TargetSelection" where
  "dropped s \<equiv> s\<lparr>sel_status := DEDUPLICATED_FRAME\<rparr>"

lemma dedup_group_run:
  assumes init: "\<And>i. i < length ps \<Longrightarrow> selected_locator (ps ! i) \<noteq> None \<Longrightarrow>
      target_selection_post_init (dropped (ps ! i)) = Inr (dropped (ps ! i))"
    and len: "length rs = length ps"
  shows "\<exists>rs'. dedup_group ps (L, users ps L) rs = Inr rs' \<and> length rs' = length ps
    \<and> (\<forall>i < length ps. rs' ! i = (if loses ps L i then dropped (ps ! i) else rs ! i))"
proof (cases "length (users ps L) < 2")
  case True
  have "\<not> loses ps L i" for i
  proof (cases "users ps L")
    case (Cons j js)
    with True have "js = []" by (cases js) auto
    with Cons show ?thesis by (simp add: loses_def)
  qed (simp add: loses_def)
  with True len show ?thesis by (simp add: dedup_group_def)
next
  case False
  then obtain w where w: "min_by (winner_key ps) (users ps L) = Some w"
    using min_by_ex [of "users ps L"] by fastforce
  have "\<exists>rs'. fold_res (dedup_index ps w) is rs = Inr rs' \<and> length rs' = length ps
      \<and> (\<forall>i < length ps. rs' ! i = (if i \<in> set is \<and> i \<noteq> w then dropped (ps ! i) else rs ! i))"
    if "set is \<subseteq> set (users ps L)" "length rs = length ps" for "is" rs
    using that
  proof (induction "is" arbitrary: rs)
    case Nil
    then show ?case by simp
  next
    case (Cons i "is")
    have i: "i < length ps" "selected_locator (ps ! i) \<noteq> None" using Cons.prems(1) by (auto simp: users_def)
    let ?rs = "if i = w then rs else rs[i := dropped (ps ! i)]"
    have step: "dedup_index ps w i rs = Inr ?rs" using init [OF i] by (simp add: dedup_index_def)
    have sub: "set is \<subseteq> set (users ps L)" and len: "length ?rs = length ps"
      using Cons.prems by simp_all
    obtain rs' where "fold_res (dedup_index ps w) is ?rs = Inr rs'" "length rs' = length ps"
      "\<forall>k < length ps. rs' ! k = (if k \<in> set is \<and> k \<noteq> w then dropped (ps ! k) else ?rs ! k)"
      using Cons.IH [OF sub len] by blast
    with step i Cons.prems(2) show ?case by (intro exI [of _ rs']) (auto simp: nth_list_update)
  qed
  from this [OF subset_refl len] w False show ?thesis
    by (auto simp: dedup_group_def loses_def)
qed

lemma dedup_all_run:
  assumes init: "\<And>i. i < length ps \<Longrightarrow> selected_locator (ps ! i) \<noteq> None \<Longrightarrow>
      target_selection_post_init (dropped (ps ! i)) = Inr (dropped (ps ! i))"
    and "\<And>L is. (L, is) \<in> set d \<Longrightarrow> is = users ps L" and "length rs = length ps"
  shows "\<exists>rs'. fold_res (dedup_group ps) d rs = Inr rs' \<and> length rs' = length ps
    \<and> (\<forall>i < length ps. rs' ! i = (if \<exists>L \<in> fst ` set d. loses ps L i then dropped (ps ! i) else rs ! i))"
  using assms(2,3)
proof (induction d arbitrary: rs)
  case Nil
  then show ?case by simp
next
  case (Cons e d)
  obtain L where e: "e = (L, users ps L)" using Cons.prems(1) by (cases e) auto
  obtain rs1 where r1: "dedup_group ps e rs = Inr rs1" "length rs1 = length ps"
    "\<forall>i < length ps. rs1 ! i = (if loses ps L i then dropped (ps ! i) else rs ! i)"
    using dedup_group_run [OF init Cons.prems(2)] e by blast
  obtain rs' where "fold_res (dedup_group ps) d rs1 = Inr rs'" "length rs' = length ps"
    "\<forall>i < length ps. rs' ! i = (if \<exists>L \<in> fst ` set d. loses ps L i then dropped (ps ! i) else rs1 ! i)"
    using Cons.IH [OF Cons.prems(1) r1(2)] by auto
  with r1 e show ?case by (intro exI [of _ rs']) auto
qed

section \<open>The result\<close>

lemma choice_ok_locator:
  assumes "choice_ok frames tol s" and "selected_locator s = Some L"
  obtains f where "with_frame s f" "source_locator_bytes f = L" "f \<in> in_reach frames tol (sel_target s)"
  using assms by (auto simp: selected_locator_def choice_ok_def with_frame_def nearest_of_def Let_def split: if_splits)

lemma choice_ok_dropped:
  "choice_ok frames tol s \<Longrightarrow> sel_status s = SELECTED \<Longrightarrow> choice_ok frames tol (dropped s)"
  by (simp add: choice_ok_def with_frame_def)

lemma selection_run:
  assumes tol: "int64 tol" and ps: "\<forall>s \<in> set ps. choice_ok frames tol s \<and> sel_status s \<noteq> DEDUPLICATED_FRAME"
  shows "\<exists>rs. fold_res (dedup_group ps) (assignments_by_locator 0 ps []) ps = Inr rs \<and> length rs = length ps
    \<and> (\<forall>i < length ps. rs ! i = (if \<exists>L. loses ps L i then dropped (ps ! i) else ps ! i))"
proof -
  let ?d = "assignments_by_locator 0 ps []"
  have g: "groups_of ps ?d"
    using groups_of_assignments [of "[]" "[]" ps] by (simp add: groups_of_def users_def)
  have init: "target_selection_post_init (dropped (ps ! i)) = Inr (dropped (ps ! i))"
    if i: "i < length ps" "selected_locator (ps ! i) \<noteq> None" for i
  proof -
    obtain L where L: "selected_locator (ps ! i) = Some L" using i(2) by blast
    have "choice_ok frames tol (ps ! i)" using ps i(1) by simp
    then obtain f where "with_frame (ps ! i) f" "f \<in> in_reach frames tol (sel_target (ps ! i))"
      by (rule choice_ok_locator [OF _ L])
    then show ?thesis by (intro post_init_frame [OF _ _ tol]) (simp_all add: with_frame_def)
  qed
  obtain rs where rs: "fold_res (dedup_group ps) ?d ps = Inr rs" "length rs = length ps"
    "\<forall>i < length ps. rs ! i = (if \<exists>L \<in> fst ` set ?d. loses ps L i then dropped (ps ! i) else ps ! i)"
    using dedup_all_run [OF init groups_of_entry(1) [OF g] refl] by blast
  have "L \<in> fst ` set ?d" if "loses ps L i" for L i
  proof -
    have "users ps L \<noteq> []" using that by (auto simp: loses_def)
    then have "map_of ?d L = Some (users ps L)" using g by (simp only: groups_of_def if_False)
    then have "(L, users ps L) \<in> set ?d" by (rule map_of_SomeD)
    then show ?thesis by force
  qed
  then have "(\<exists>L \<in> fst ` set ?d. loses ps L i) \<longleftrightarrow> (\<exists>L. loses ps L i)" for i by blast
  with rs show ?thesis by simp
qed

text \<open>
  C37. Frame selection never fails on a valid request. Its results are the normalised targets
  in order; a selected target names the nearest decodable frame in the interval and within
  the tolerance; a target is reported missed only if no frame is in reach, and undecodable
  only if frames are in reach but none decodes; and no source frame is selected twice.
\<close>

theorem select_nearest_frames_correct:
  assumes "int64 a" and "int64 b" and "a < b" and "int64 tol" and "0 \<le> tol"
    and "normalized_targets targets = Inr ts"
    and "reach = in_reach (filter (\<lambda>f. a \<le> aligned_timestamp_ns f \<and> aligned_timestamp_ns f < b) frames) tol"
  shows "\<exists>rs. select_nearest_frames targets frames a b tol = Inr rs \<and> map sel_target rs = ts
    \<and> (\<forall>s \<in> set rs. sel_status s \<in> {SELECTED, DEDUPLICATED_FRAME} \<longrightarrow>
         (\<exists>f. sel_frame s = Some f \<and> nearest_of (sel_target s) {f \<in> reach (sel_target s). decodable f} f))
    \<and> (\<forall>s \<in> set rs. sel_status s = NO_FRAME_WITHIN_TOLERANCE \<longrightarrow> reach (sel_target s) = {})
    \<and> (\<forall>s \<in> set rs. sel_status s = DECODE_FAILED \<longrightarrow>
         reach (sel_target s) \<noteq> {} \<and> (\<forall>f \<in> reach (sel_target s). \<not> decodable f))
    \<and> (\<forall>i j. i < j \<longrightarrow> j < length rs \<longrightarrow> sel_status (rs ! i) = SELECTED \<longrightarrow> sel_status (rs ! j) = SELECTED \<longrightarrow>
         map_option source_locator_bytes (sel_frame (rs ! i)) \<noteq> map_option source_locator_bytes (sel_frame (rs ! j)))"
proof -
  let ?fs = "filter (\<lambda>f. a \<le> aligned_timestamp_ns f \<and> aligned_timestamp_ns f < b) frames"
  obtain ps where ps: "provisional_selections ?fs tol ts = Inr ps" "map sel_target ps = ts"
    "\<forall>s \<in> set ps. choice_ok ?fs tol s \<and> sel_status s \<noteq> DEDUPLICATED_FRAME"
    using provisional_ok [OF assms(4)] by blast
  obtain rs where rs: "fold_res (dedup_group ps) (assignments_by_locator 0 ps []) ps = Inr rs" "length rs = length ps"
    "\<forall>i < length ps. rs ! i = (if \<exists>L. loses ps L i then dropped (ps ! i) else ps ! i)"
    using selection_run [OF assms(4) ps(3)] by blast
  have run: "select_nearest_frames targets frames a b tol = Inr rs"
    using assms(1-6) ps(1) rs(1) by (simp add: select_nearest_frames_def require_int64_def int64_def Let_def)
  have tgt: "map sel_target rs = ts"
    unfolding ps(2) [symmetric] by (rule nth_equalityI) (use rs in auto)
  have user: "i < length ps \<and> selected_locator (ps ! i) = Some L" if "i \<in> set (users ps L)" for i L
    using that by (auto simp: users_def)
  have ok: "choice_ok ?fs tol (rs ! i)" if i: "i < length ps" for i
  proof -
    have "sel_status (ps ! i) = SELECTED" if "loses ps L i" for L
      using that user [of i L] by (auto simp: loses_def selected_locator_def split: if_splits)
    then show ?thesis using rs(3) ps(3) i choice_ok_dropped [of ?fs tol "ps ! i"] by auto
  qed
  then have all: "choice_ok ?fs tol s" if "s \<in> set rs" for s using that rs(2) by (metis in_set_conv_nth)
  have sel: "\<exists>f. sel_frame s = Some f \<and> nearest_of (sel_target s) {f \<in> reach (sel_target s). decodable f} f"
    if "s \<in> set rs" "sel_status s \<in> {SELECTED, DEDUPLICATED_FRAME}" for s
    using all [OF that(1)] that(2) by (auto simp: choice_ok_def with_frame_def Let_def assms(7))
  have none: "reach (sel_target s) = {}" if "s \<in> set rs" "sel_status s = NO_FRAME_WITHIN_TOLERANCE" for s
    using all [OF that(1)] that(2) by (simp add: choice_ok_def Let_def assms(7))
  have fail: "reach (sel_target s) \<noteq> {} \<and> (\<forall>f \<in> reach (sel_target s). \<not> decodable f)"
    if "s \<in> set rs" "sel_status s = DECODE_FAILED" for s
    using all [OF that(1)] that(2) by (auto simp: choice_ok_def nearest_of_def Let_def assms(7))
  have uniq: "map_option source_locator_bytes (sel_frame (rs ! i)) \<noteq> map_option source_locator_bytes (sel_frame (rs ! j))"
    if ij: "i < j" "j < length rs" and st: "sel_status (rs ! i) = SELECTED" "sel_status (rs ! j) = SELECTED" for i j
  proof
    assume eq: "map_option source_locator_bytes (sel_frame (rs ! i)) = map_option source_locator_bytes (sel_frame (rs ! j))"
    have i: "i < length ps" "j < length ps" using ij rs(2) by auto
    have keep: "rs ! k = ps ! k" "\<not> loses ps L k" if "k \<in> {i, j}" for k L
      using rs(3) i st that by (auto split: if_splits)
    obtain f where "sel_frame (rs ! i) = Some f" using sel [of "rs ! i"] st(1) i rs(2) by auto
    then have "i \<in> set (users ps (source_locator_bytes f))" "j \<in> set (users ps (source_locator_bytes f))"
      using eq st keep(1) i by (auto simp: users_def selected_locator_def)
    then have "min_by (winner_key ps) (users ps (source_locator_bytes f)) = Some i"
      "min_by (winner_key ps) (users ps (source_locator_bytes f)) = Some j"
      using keep(2) by (auto simp: loses_def)
    with ij(1) show False by simp
  qed
  show ?thesis
    using run tgt sel none fail uniq by (intro exI [of _ rs]) blast
qed

definition ex_targets :: "SamplingTarget list" where
  "ex_targets = [\<lparr>target_k = 0, target_ns = 10\<rparr>, \<lparr>target_k = 1, target_ns = 20\<rparr>]"

definition ex_frames :: "FrameCandidate list" where
  "ex_frames = [\<lparr>aligned_timestamp_ns = 13, source_timestamp_ns = 13, source_locator_bytes = ''f'', decodable = True\<rparr>]"

theorem select_nearest_frames_correct_witness:
  "\<exists>rs. select_nearest_frames ex_targets ex_frames 0 100 8 = Inr rs \<and> map sel_target rs = ex_targets"
proof -
  have "int64 0" "int64 100" "(0::int) < 100" "int64 8" "(0::int) \<le> 8"
    by (simp_all add: int64_def INT64_MIN_def INT64_MAX_def)
  moreover have "normalized_targets ex_targets = Inr ex_targets" by code_simp
  ultimately show ?thesis using select_nearest_frames_correct [OF _ _ _ _ _ _ refl] by blast
qed

end
