(* ===== verification/Spec2Isabelle.thy ===== *)
theory Spec2Isabelle
  imports Work_Guarantees Delivery_Properties Stream_Projections Barrier_Memory Call_Barrier_Properties Task_Queue_Properties
    Outbox_Properties Stream_Properties Frame_Selection Rational_Time
begin

text \<open>
  A verification development for Robata, a pipeline that reads six-camera MCAP recordings,
  aligns their clocks, samples frames, sends packages of frames to models and extracts
  quality verdicts and events. The models are services outside the repository; what the
  repository itself has to get right is the durable coordination of the work around them
  and the exact arithmetic on timestamps. These are the parts modelled here. Paths are
  below \<^verbatim>\<open>src/robata/\<close>.

  \<^bold>\<open>The parts and how they interact.\<close> A run is planned as work items with dependencies in a
  durable ledger (\<^verbatim>\<open>adapters/sqlite_work_scheduler.py\<close>). Workers claim items under leases with
  an epoch and a fencing token, renew them, and report success or failure; lease recovery,
  hard deadlines and readiness are maintained inside the same transactions. A recording that
  is still being written is planned window by window: the stream work ledger
  (\<^verbatim>\<open>adapters/sqlite_stream_work_ledger.py\<close>) keeps, in the same database, its plan, its
  windows with their child work, the end of the stream, the seal, the terminal evidence and
  the gated finalization item, and admits windows fairly between recordings. The stream
  scheduler (\<^verbatim>\<open>application/canonical/stream_scheduler.py\<close>) joins the two: it publishes planned
  work of a recording to the execution ledger, claims and completes it there, and accepts
  the terminal evidence in the stream ledger, each in a transaction of its own, with a
  recovery for processes that stopped in between. The stream
  runtime (\<^verbatim>\<open>queue/stream_runtime.py\<close>) drives the ledger in one process: three bounded lanes of
  notifications, worker threads, one heartbeat thread per lease, a recovery thread, and
  calls to admit, recover, cancel, drain and close. An inference call that was split into
  parts is put together again by a barrier (\<^verbatim>\<open>queue/barrier.py\<close>, \<^verbatim>\<open>inference/call_barrier.py\<close>) kept
  in memory or in SQLite (\<^verbatim>\<open>adapters/sqlite_barrier.py\<close>). Results leave through an outbox
  (\<^verbatim>\<open>queue/outbox.py\<close>, \<^verbatim>\<open>adapters/sqlite_outbox.py\<close>) that delivers at least once to an idempotent
  sink. Broker deliveries go through a task queue of their own
  (\<^verbatim>\<open>adapters/in_memory_task_queue.py\<close>). Message times are mapped by exact rational transforms
  (\<^verbatim>\<open>alignment/rational_time.py\<close>), and frames are chosen on an exact sampling grid
  (\<^verbatim>\<open>sampling/grid.py\<close>).

  \<^bold>\<open>Conventions.\<close> Python integers are \<open>int\<close> or, where the code keeps them nonnegative,
  \<open>nat\<close>; instants are microseconds or nanoseconds as \<open>int\<close>; int64 limits are written out
  where the code checks them. Exceptions are the left summand of a sum type and every raise
  is a branch. A method that changes an object takes and returns its record. A SQLite
  transaction either commits or leaves the tables as they were; a table is a list of rows,
  and its UNIQUE and CHECK clauses are tested where SQLite tests them. Loops over finite
  data are structural recursions; the others are functions with a termination proof, so
  that no fuel occurs anywhere.

  \<^bold>\<open>The theories.\<close>

  \<^item> \<open>Robata_Prelude\<close>: exceptions, Python's sorting, minimum, stripping and dictionaries,
    lookups and updates of tables, with the collection \<open>result_simps\<close> that inverts the
    error monad.

  \<^item> \<open>Work_Models\<close> (\<^verbatim>\<open>queue/stage.py\<close>, \<^verbatim>\<open>queue/models.py\<close>): records and validators of the ledger.
    \<open>Work_Ledger\<close>, \<open>Work_Scheduler\<close>, \<open>Work_Operations\<close> (\<^verbatim>\<open>adapters/sqlite_work_scheduler.py\<close>):
    the tables as the record \<open>ledger\<close>, the row updates, the maintenance passes, the public
    operations, and \<open>command\<close> with \<open>run_command\<close> for any call, returning or raising.
    \<open>Work_Lifecycle\<close> is the abstract specification, a step relation \<open>lstep\<close> on ledgers with
    the invariant \<open>wf_ledger\<close>; \<open>Work_Invariant\<close> proves what a step keeps, and \<open>Work_Refinement\<close>,
    \<open>Work_Maintenance\<close> (locale \<open>row_sweep\<close>, interpreted for deadlines and for leases) and
    \<open>Work_Commands\<close> that every operation is a sequence of steps. \<open>Work_Quiescence\<close>,
    \<open>Work_Properties\<close> and \<open>Work_Guarantees\<close> hold the results: the invariant, fencing, frozen
    terminal rows, dependency order, attempt budgets, preserved history, correct claims, what
    a reconciliation settles, progress, and the case in which maintenance raises for ever.

  \<^item> \<open>Stream_Ledger\<close> (\<^verbatim>\<open>adapters/sqlite_stream_work_ledger.py\<close>): the four tables beside the
    scheduler's, as the record \<open>stream_db\<close> whose field \<open>authority\<close> is the scheduler's ledger,
    one definition per method, and \<open>stream_command\<close> for any call of either adapter.
    \<open>Stream_Machine\<close> is the abstract specification, a step relation \<open>sstep\<close> with the invariant
    \<open>wf_stream\<close> and the order \<open>stream_evolves\<close> of growing facts; \<open>Stream_Evolution\<close> proves what a
    step keeps and \<open>Stream_Refinement\<close> that every call is a sequence of steps, for clients
    whose finalization item belongs to no window (\<open>client_ok\<close>; the stream scheduler passes it
    with \<open>expected_ordinal=None\<close>). \<open>Stream_Ledger_Properties\<close>, \<open>Stream_Provenance\<close> and \<open>Stream_Projections\<close>
    state the results: the invariant, facts that never change once written, exact replays,
    a seal over all windows, the finalization gate, fair admission, refused stale intents,
    fenced controllers, evidence that stems from a lease that was current, and projections
    that count the rows they stand for.

  \<^item> \<open>Stream_Documents\<close> (\<^verbatim>\<open>contracts/stream_common.py\<close>, \<^verbatim>\<open>contracts/stream_planning.py\<close>,
    \<^verbatim>\<open>contracts/stream_finalization.py\<close>, \<^verbatim>\<open>queue/stream_models.py\<close>): the documents of stream work
    with their validators, over the parameter \<open>stream_docs\<close> of parsers, canonical bytes, digests
    and uuids. \<open>Stream_Delivery\<close> (\<^verbatim>\<open>application/canonical/stream_scheduler.py\<close>): the executing half
    of the stream scheduler, from \<open>recover\<close> and the publication of work to \<open>complete\<close>. A method
    is a program, a tree of transactions of the two ledgers and of accesses to the cache of
    rows; \<open>run_prog\<close> runs it alone. \<open>Delivery_Logic\<close> has the system, \<open>delivery_step\<close>: any number of
    processes that advance one access at a time, stop and start again anywhere, beside other
    clients of the database that keep \<open>outside\<close>; and a program logic for it, the predicate
    \<open>safe\<close> with its rules, the locale \<open>ledger_rule\<close> of what everybody keeps and its extension
    \<open>shared_ledger\<close> of programs that keep it. \<open>Delivery_Ledger\<close> adds what a command does to the ids
    and successes of the execution ledger, \<open>Delivery_Invariant\<close> the invariant that holds the two
    ledgers together, with the interpretation of \<open>ledger_rule\<close>, and \<open>Delivery_Properties\<close> the
    safety of every call, the interpretation of \<open>shared_ledger\<close>, and the guarantees: accepted
    evidence is that of a succeeded execution, a succeeded execution has its evidence,
    published work has its execution item, a recovery accepts the evidence of every success,
    and a completion that returned is durable.

  \<^item> \<open>Stream_Queues\<close>, \<open>Stream_Workers\<close>, \<open>Stream_Calls\<close> (\<^verbatim>\<open>queue/stream_runtime.py\<close>): the state
    under the runtime's lock and the blocks executed under it; the threads and the calls as
    program counters, one step per locked block, queue operation, scheduler call or
    callback; and \<open>runtime_reach\<close>, every interleaving of them with other clients of the
    ledger. \<open>Stream_Contract\<close> states what the runtime relies on of its scheduler as the locale
    \<open>durable_scheduler\<close>. In that locale \<open>Stream_Grants\<close> proves the invariant on leases and
    heartbeats, and \<open>Stream_Notifications\<close> the one on lanes and notifications, on the abstract
    view of the lanes that \<open>Stream_Effects\<close> derives for every step; \<open>Stream_Shutdown\<close> bounds the
    work after a stop. \<open>Stream_Scheduler\<close> interprets the locale on the SQLite scheduler, and
    \<open>Stream_Properties\<close> states the guarantees: the ledger stays one the scheduler reaches,
    success only after publication, no self-fencing by heartbeats, bounded lanes, one
    notification per item, drain and shutdown, and the rejected cancellation that still
    cancels.

  \<^item> \<open>Barrier\<close>, \<open>Barrier_Storage\<close>, \<open>Barrier_Memory\<close> (\<^verbatim>\<open>queue/barrier.py\<close>): the coordinator over
    any storage, the promise of a storage as the locale \<open>barrier_storage\<close>, its interpretation
    in memory; the verdict follows from the members and not from their order.
    \<open>Call_Barrier\<close> (\<^verbatim>\<open>inference/call_barrier.py\<close>), \<open>Sqlite_Barrier\<close> (\<^verbatim>\<open>adapters/sqlite_barrier.py\<close>)
    and \<open>Sqlite_Barrier_Laws\<close>: the calls with their parts, the durable storage and its tables
    as encodings of accepted facts. \<open>Durable_Barrier\<close> interprets the storage locale a second
    time and, by the locale \<open>storage_pair\<close>, shows that both storages answer alike;
    \<open>Call_Barrier_Properties\<close> that stored records read back unchanged, that a reduction is
    backed by a complete set of parts and is published once.

  \<^item> \<open>Task_Queue\<close>, \<open>Task_Queue_Laws\<close>, \<open>Task_Queue_Properties\<close> (\<^verbatim>\<open>ports/task_queue.py\<close>,
    \<^verbatim>\<open>adapters/in_memory_task_queue.py\<close>): claimed tasks and active leases correspond, nothing is
    lost, claims pick the least eligible task, completion happens once.

  \<^item> \<open>Outbox\<close>, \<open>Outbox_Laws\<close>, \<open>Outbox_Relay\<close>, \<open>Outbox_Properties\<close> (\<^verbatim>\<open>queue/outbox.py\<close>,
    \<^verbatim>\<open>adapters/sqlite_outbox.py\<close>): any number of relays with crashes between any two calls,
    against the locale \<open>idempotent_sink\<close>, interpreted on the SQLite sink; delivered means the
    sink holds exactly the committed bytes, stale claims change nothing, tables stay
    consistent, and a call against a working sink delivers.

  \<^item> \<open>Sampling_Grid\<close>, \<open>Frame_Selection\<close> (\<^verbatim>\<open>sampling/grid.py\<close>) and \<open>Rational_Time\<close>
    (\<^verbatim>\<open>alignment/rational_time.py\<close>): exact enumeration of the grid, nearest frames without
    repetition, rounding to the nearest integer with ties to even, and the binary search
    over transform segments against its specification.

  \<^bold>\<open>Parameters.\<close> SHA-256, uuid5 and the JSON codec are arguments of the definitions that use
  them. Theorems that need more of them say so as hypotheses: decoding inverts encoding
  (\<open>codec_ok\<close>), and derived ids or tokens differ for different names. The theorems on the
  stream scheduler need nothing of its documents. They are about a set \<open>G\<close> of ids, those of
  the stream's work: the other clients (\<open>outside\<close>) add stream work only under these ids and
  unpublished, and leave publication, terminal intents and the success of such items to the
  scheduler's processes, as the planning half of the scheduler does. SQLite's
  \<open>json_extract\<close>, which the backlog query applies to plans without an execution row, is an
  argument too. The witnesses give
  concrete functions with these properties. Clock readings, drawn tokens, callback results
  and the order in which a Python set is listed are arguments of the steps.

  \<^bold>\<open>Bounds.\<close> After the stop event a worker of the stream runtime takes at most 25 more steps:
  the longest way through a worker loop, that of a provider worker from its queue to its
  exit. No other bound is chosen.

  \<^bold>\<open>Not modelled.\<close> Connection handling, schema creation and fingerprints, and observability
  counters of the SQLite adapters; the PostgreSQL, Redis, R2 and pgvector adapters, whose
  behaviour lies in servers outside the repository; media readers and exporters, which call
  codec libraries; registries and application workflows, which assemble, hash and store
  documents; the perception, event and quality pipelines, whose decisions rest on
  floating-point scores; measurement scripts. In the stream runtime a thread is not killed
  between two steps: a crash of the process is the end of a run, and the next process
  starts from the ledger. Of the stream ledger the creation and migration of its schema
  are left out; for it the stored documents are any bytes. Of the stream scheduler the
  planning half (append, seal, end of stream, export barrier, finalization gate,
  backpressure), the verification of a stored graph on construction, listings and the
  boundary observer of its tests are left out.
\<close>

end
